(* ===== verification/Prelude.thy ===== *)
theory Prelude
  imports Main "HOL-Library.Word"
begin

text \<open>
  Shared vocabulary of the development.  The C integer types are words of their
  width, so that \<open>+\<close>, \<open>-\<close> and \<open>*\<close> wrap exactly as they do on the target; the
  target is a 32-bit Cortex-M7, hence \<open>size_t\<close> and \<open>uintptr_t\<close> are 32 bits wide.
  A C pointer argument that the code compares with \<open>NULL\<close> is an \<open>option\<close>.
  The collection \<open>unat_arith_simps\<close> gathers the equations that move word
  arithmetic to \<open>nat\<close> when nothing overflows.
\<close>

unbundle bit_operations_syntax

type_synonym u8 = "8 word"
type_synonym u16 = "16 word"
type_synonym u32 = "32 word"
type_synonym u64 = "64 word"
type_synonym size_t = "32 word"
type_synonym bytes = "u8 list"

abbreviation UINT32_MAX :: u32 where
  "UINT32_MAX \<equiv> 0xFFFFFFFF"

named_theorems unat_arith_simps \<open>word arithmetic read as natural numbers\<close>

section \<open>Words as natural numbers\<close>

lemma unat_add_small [unat_arith_simps]:
  "unat x + unat y < 2 ^ LENGTH('a) \<Longrightarrow> unat (x + y) = unat x + unat y" for x y :: "'a::len word"
  by (simp add: unat_add_lem)

lemma unat_mult_small [unat_arith_simps]:
  "unat x * unat y < 2 ^ LENGTH('a) \<Longrightarrow> unat (x * y) = unat x * unat y" for x y :: "'a::len word"
  by (simp add: unat_mult_lem)

lemma unat_sub_small [unat_arith_simps]:
  "unat y \<le> unat x \<Longrightarrow> unat (x - y) = unat x - unat y" for x y :: "'a::len word"
  by (simp add: unat_sub word_le_nat_alt)

lemmas unat_divmod [unat_arith_simps] = unat_div unat_mod

lemma unat_Suc_small:
  "unat x < unat y \<Longrightarrow> unat (x + 1) = Suc (unat x)" for x y :: "'a::len word"
proof -
  assume "unat x < unat y"
  moreover have "unat y < 2 ^ LENGTH('a)" by simp
  ultimately have "unat x + unat (1 :: 'a word) < 2 ^ LENGTH('a)"
    by (simp only: unat_1)
  then show ?thesis by (simp add: unat_add_small)
qed

lemma unat_u32_bound: "unat (x :: u32) < 4294967296"
  using unsigned_less [of x, where ?'a = nat] by simp

lemma unat_u32_le_max: "unat (x :: u32) \<le> 4294967295"
  using unat_u32_bound [of x] by simp

lemma unat_u64_bound: "unat (x :: u64) < 18446744073709551616"
  using unsigned_less [of x, where ?'a = nat] by simp

lemma unat_u8_bound: "unat (x :: u8) < 256"
  using unsigned_less [of x, where ?'a = nat] by simp

lemma u32_le_max [simp]: "(x :: u32) \<le> 0xFFFFFFFF"
  by (simp add: word_le_nat_alt unat_u32_le_max)

lemma unat_of_nat_u32 [simp]: "n < 4294967296 \<Longrightarrow> unat (of_nat n :: u32) = n"
  by (simp add: unat_of_nat take_bit_eq_mod)

lemma unat_u32_max_minus: "unat (0xFFFFFFFF - m :: u32) = 4294967295 - unat m"
  using unat_u32_le_max [of m] by (subst unat_sub_small) simp_all

section \<open>Buffers: lists updated by block copies\<close>

text \<open>\<open>buf_write xs i ys\<close> is \<open>memcpy(&xs[i], ys, length ys)\<close> and \<open>buf_read xs i n\<close>
  the \<open>n\<close> bytes at \<open>&xs[i]\<close>.\<close>

definition buf_write :: "'a list \<Rightarrow> nat \<Rightarrow> 'a list \<Rightarrow> 'a list" where
  "buf_write xs i ys = take i xs @ ys @ drop (i + length ys) xs"

definition buf_read :: "'a list \<Rightarrow> nat \<Rightarrow> nat \<Rightarrow> 'a list" where
  "buf_read xs i n = take n (drop i xs)"

lemma length_buf_write [simp]:
  "i + length ys \<le> length xs \<Longrightarrow> length (buf_write xs i ys) = length xs"
  by (simp add: buf_write_def)

lemma length_buf_read [simp]:
  "i + n \<le> length xs \<Longrightarrow> length (buf_read xs i n) = n"
  by (simp add: buf_read_def)

lemma nth_buf_write:
  assumes "i + length ys \<le> length xs" "j < length xs"
  shows "buf_write xs i ys ! j = (if i \<le> j \<and> j < i + length ys then ys ! (j - i) else xs ! j)"
  using assms by (auto simp: buf_write_def nth_append min_def)

lemma nth_buf_read:
  "i + n \<le> length xs \<Longrightarrow> j < n \<Longrightarrow> buf_read xs i n ! j = xs ! (i + j)"
  by (simp add: buf_read_def)

lemma buf_read_write_same:
  assumes "i + length ys \<le> length xs"
  shows "buf_read (buf_write xs i ys) i (length ys) = ys"
  using assms by (simp add: buf_read_def buf_write_def)

lemma buf_read_write_disjoint:
  assumes "i + length ys \<le> length xs" "j + n \<le> length xs" "j + n \<le> i \<or> i + length ys \<le> j"
  shows "buf_read (buf_write xs i ys) j n = buf_read xs j n"
proof (rule nth_equalityI)
  show "length (buf_read (buf_write xs i ys) j n) = length (buf_read xs j n)"
    using assms by simp
next
  fix k assume "k < length (buf_read (buf_write xs i ys) j n)"
  then have "k < n" using assms by simp
  then show "buf_read (buf_write xs i ys) j n ! k = buf_read xs j n ! k"
    using assms by (auto simp: nth_buf_read nth_buf_write)
qed

lemma buf_write_0_all [simp]:
  "length ys = length xs \<Longrightarrow> buf_write xs 0 ys = ys"
  by (simp add: buf_write_def)

section \<open>An address space of bytes\<close>

type_synonym memory = "u32 \<Rightarrow> u8"

definition mem_read :: "memory \<Rightarrow> u32 \<Rightarrow> nat \<Rightarrow> bytes" where
  "mem_read m a n = map (\<lambda>i. m (a + of_nat i)) [0..<n]"

definition mem_write :: "memory \<Rightarrow> u32 \<Rightarrow> bytes \<Rightarrow> memory" where
  "mem_write m a bs = (\<lambda>x. if unat (x - a) < length bs then bs ! unat (x - a) else m x)"

definition in_range :: "u32 \<Rightarrow> u32 \<Rightarrow> nat \<Rightarrow> bool" where
  "in_range x a n \<longleftrightarrow> unat (x - a) < n"

lemma length_mem_read [simp]: "length (mem_read m a n) = n"
  by (simp add: mem_read_def)

lemma nth_mem_read [simp]: "i < n \<Longrightarrow> mem_read m a n ! i = m (a + of_nat i)"
  by (simp add: mem_read_def)

lemma mem_read_0 [simp]: "mem_read m a 0 = []"
  by (simp add: mem_read_def)

lemma mem_read_append:
  "mem_read m a (i + j) = mem_read m a i @ mem_read m (a + of_nat i) j"
  by (rule nth_equalityI) (auto simp: nth_append ac_simps of_nat_diff)

lemma mem_read_cong:
  "(\<And>i. i < n \<Longrightarrow> m (a + of_nat i) = m' (a + of_nat i)) \<Longrightarrow> mem_read m a n = mem_read m' a n"
  by (simp add: mem_read_def)

lemma in_range_offset: "n \<le> 4294967296 \<Longrightarrow> i < n \<Longrightarrow> in_range (a + of_nat i) a n"
  by (simp add: in_range_def)

lemma in_range_sub:
  assumes "in_range x (a + of_nat i) k" "i + k \<le> n" "n < 4294967296"
  shows "in_range x a n"
proof -
  have "unat (x - (a + of_nat i)) + unat (of_nat i :: u32) < 2 ^ 32"
    using assms by (simp add: in_range_def)
  then have "unat ((x - (a + of_nat i)) + of_nat i) = unat (x - (a + of_nat i)) + i"
    using assms by (subst unat_add_small) auto
  then show ?thesis using assms by (simp add: in_range_def algebra_simps)
qed

lemma unat_sub_wrap:
  "unat (x - y) = (if unat y \<le> unat x then unat x - unat y else 4294967296 + unat x - unat y)"
  for x y :: u32
  using unat_u32_bound [of x] unat_u32_bound [of y]
  by (auto simp: unat_sub_if' not_le)

lemma unat_sub_offset:
  fixes x a :: u32
  assumes "i < 4294967296"
  shows "unat (x - (a + of_nat i)) =
    (if i \<le> unat (x - a) then unat (x - a) - i else 4294967296 + unat (x - a) - i)"
proof -
  have "x - (a + of_nat i) = (x - a) - of_nat i" by (simp add: algebra_simps)
  then show ?thesis using assms by (simp only: unat_sub_wrap) simp
qed

lemma in_range_split:
  assumes "i + j \<le> 4294967296"
  shows "in_range x a (i + j) \<longleftrightarrow> in_range x a i \<or> in_range x (a + of_nat i) j"
proof (cases "i = 4294967296")
  case True
  then show ?thesis using unat_u32_bound [of "x - a"] assms by (simp add: in_range_def)
next
  case False
  then show ?thesis
    using unat_u32_bound [of "x - a"] assms unfolding in_range_def by (subst unat_sub_offset) auto
qed

lemma in_range_disjoint:
  assumes "i + j \<le> 4294967296" "in_range x (a + of_nat i) j"
  shows "\<not> in_range x a i"
proof (cases "i = 4294967296")
  case True
  then show ?thesis using assms by (simp add: in_range_def)
next
  case False
  then show ?thesis
    using unat_u32_bound [of "x - a"] assms unfolding in_range_def
    by (subst (asm) unat_sub_offset) (auto split: if_splits)
qed

lemma in_range_mono: "in_range x a m \<Longrightarrow> m \<le> n \<Longrightarrow> in_range x a n"
  by (simp add: in_range_def)

lemma in_range_within:
  assumes "in_range x (a + of_nat i) k" "i + k \<le> n" "n \<le> 4294967296"
  shows "in_range x a n"
  using assms in_range_split [of i k x a] by (auto intro: in_range_mono)

lemma in_range_tail:
  assumes "in_range x (a + k) (n - unat k)" "unat k \<le> n" "n \<le> 4294967296"
  shows "in_range x a n" "\<not> in_range x a (unat k)"
  using assms in_range_split [of "unat k" "n - unat k" x a] in_range_disjoint [of "unat k" "n - unat k" x a]
  by simp_all

end
