(* ===== verification/RingBuffer.thy ===== *)
theory RingBuffer
  imports Prelude
begin

text \<open>
  \<open>platform/drivers/buffers.h\<close>: the byte-level ring buffer used by the CAN and SPI
  drivers.  The memory at \<open>startAddress\<close> is the byte list \<open>storage\<close>; a pointer into it
  is the byte offset the C code computes (\<open>index * stride\<close> in 32 bits).  The operations
  follow the header, wrap-around included.  The library part shows that they implement a
  bounded queue of \<open>elementSize\<close>-byte elements.
\<close>

section \<open>State and operations\<close>

datatype RingBufferErrorType = RB_E_OK | RB_E_NOT_OK | RB_E_FULL

record RingBuffer =
  storage :: bytes
  head :: u32
  tail :: u32
  bufferLength :: u32
  elementSize :: u32
  stride :: u32
  elementCount :: u32
  isFull :: bool

definition ring_buffer_wrap_index :: "u32 \<Rightarrow> u32 \<Rightarrow> u32" where
  "ring_buffer_wrap_index index len = index mod len"

definition ring_buffer_peek :: "RingBuffer \<Rightarrow> u32" where
  "ring_buffer_peek rb = head rb * stride rb"

definition ring_buffer_count :: "RingBuffer \<Rightarrow> u32" where
  "ring_buffer_count rb =
     (if head rb = tail rb then (if isFull rb then bufferLength rb else 0)
      else if head rb > tail rb then head rb - tail rb
      else bufferLength rb - (tail rb - head rb))"

definition ring_buffer_peek_at :: "RingBuffer \<Rightarrow> u32 \<Rightarrow> u32 option" where
  "ring_buffer_peek_at rb pos =
     (if pos \<ge> ring_buffer_count rb then None
      else if stride rb = 0 then None
      else Some (((tail rb + pos) mod bufferLength rb) * stride rb))"

definition ring_buffer_reserve :: "RingBuffer \<Rightarrow> u32 option \<times> RingBuffer" where
  "ring_buffer_reserve rb =
     (if isFull rb then (None, rb)
      else
        let element = ring_buffer_peek rb;
            rb = rb\<lparr>head := ring_buffer_wrap_index (head rb + 1) (bufferLength rb),
                    elementCount := elementCount rb + 1\<rparr>;
            rb = (if elementCount rb = bufferLength rb then rb\<lparr>isFull := True\<rparr> else rb)
        in (Some element, rb))"

definition ring_buffer_put :: "RingBuffer \<Rightarrow> bytes \<Rightarrow> RingBufferErrorType \<times> RingBuffer" where
  "ring_buffer_put rb pElement =
     (if isFull rb then (RB_E_FULL, rb)
      else
        let FreeElement = ring_buffer_peek rb;
            rb = rb\<lparr>storage := buf_write (storage rb) (unat FreeElement)
                                (take (unat (elementSize rb)) pElement)\<rparr>;
            rb = rb\<lparr>head := head rb + 1, elementCount := elementCount rb + 1\<rparr>;
            rb = rb\<lparr>head := ring_buffer_wrap_index (head rb) (bufferLength rb)\<rparr>;
            rb = (if elementCount rb = bufferLength rb then rb\<lparr>isFull := True\<rparr> else rb)
        in (RB_E_OK, rb))"

definition ring_buffer_pop_ptr :: "RingBuffer \<Rightarrow> u32 option \<times> RingBuffer" where
  "ring_buffer_pop_ptr rb =
     (if elementCount rb = 0 then (None, rb)
      else if stride rb = 0 then (None, rb)
      else
        let elem = tail rb * stride rb;
            rb = rb\<lparr>tail := tail rb + 1, elementCount := elementCount rb - 1\<rparr>;
            rb = rb\<lparr>tail := ring_buffer_wrap_index (tail rb) (bufferLength rb)\<rparr>
        in (Some elem, rb\<lparr>isFull := False\<rparr>))"

text \<open>\<open>ring_buffer_pop\<close> returns its status (the literal 1 on an empty ring) and the
  bytes written to \<open>pElement\<close>, \<open>None\<close> where it writes none.\<close>

definition ring_buffer_pop :: "RingBuffer \<Rightarrow> u32 \<times> bytes option \<times> RingBuffer" where
  "ring_buffer_pop rb =
     (if elementCount rb = 0 then (1, None, rb)
      else if stride rb = 0 then (1, None, rb)
      else
        let SwBufferIndex = tail rb * stride rb;
            pElement = buf_read (storage rb) (unat SwBufferIndex) (unat (elementSize rb));
            rb = rb\<lparr>tail := tail rb + 1, elementCount := elementCount rb - 1\<rparr>;
            rb = rb\<lparr>tail := ring_buffer_wrap_index (tail rb) (bufferLength rb)\<rparr>
        in (0, Some pElement, rb\<lparr>isFull := False\<rparr>))"

section \<open>Well-formed rings and the queue they hold\<close>

text \<open>The static configuration of a ring: non-empty, slots that do not overlap and lie in
  the storage, which is small enough that the 32-bit index arithmetic does not wrap.\<close>

definition rb_config :: "RingBuffer \<Rightarrow> bool" where
  "rb_config rb \<longleftrightarrow> 0 < unat (bufferLength rb) \<and> 0 < unat (stride rb) \<and>
     unat (elementSize rb) \<le> unat (stride rb) \<and>
     unat (bufferLength rb) * unat (stride rb) \<le> length (storage rb) \<and>
     length (storage rb) < 2147483648"

definition rb_inv :: "RingBuffer \<Rightarrow> bool" where
  "rb_inv rb \<longleftrightarrow> rb_config rb \<and>
     unat (tail rb) < unat (bufferLength rb) \<and>
     unat (elementCount rb) \<le> unat (bufferLength rb) \<and>
     unat (head rb) = (unat (tail rb) + unat (elementCount rb)) mod unat (bufferLength rb) \<and>
     isFull rb = (elementCount rb = bufferLength rb)"

definition rb_slot :: "RingBuffer \<Rightarrow> nat \<Rightarrow> bytes" where
  "rb_slot rb i = buf_read (storage rb) (i * unat (stride rb)) (unat (elementSize rb))"

definition rb_index :: "RingBuffer \<Rightarrow> nat \<Rightarrow> nat" where
  "rb_index rb k = (unat (tail rb) + k) mod unat (bufferLength rb)"

definition rb_abs :: "RingBuffer \<Rightarrow> bytes list" where
  "rb_abs rb = map (\<lambda>k. rb_slot rb (rb_index rb k)) [0..<unat (elementCount rb)]"

definition rb_capacity :: "RingBuffer \<Rightarrow> nat" where
  "rb_capacity rb = unat (bufferLength rb)"


section \<open>Index arithmetic\<close>

lemma mod_slots_distinct:
  fixes k m n t :: nat
  assumes "k < m" "m - k < n"
  shows "(t + k) mod n \<noteq> (t + m) mod n"
proof
  assume "(t + k) mod n = (t + m) mod n"
  then have "n dvd (t + m) - (t + k)"
    using assms by (metis add_le_mono le_refl less_imp_le mod_eq_dvd_iff_nat)
  then have "n dvd m - k" by simp
  then show False using assms by (auto dest: dvd_imp_le)
qed

lemma rb_configD:
  assumes "rb_config rb"
  shows "0 < unat (bufferLength rb)" "0 < unat (stride rb)"
    "unat (elementSize rb) \<le> unat (stride rb)"
    "unat (bufferLength rb) * unat (stride rb) \<le> length (storage rb)"
    "length (storage rb) < 2147483648"
  using assms by (auto simp: rb_config_def)

lemma rb_bufferLength_small:
  assumes "rb_config rb"
  shows "unat (bufferLength rb) < 2147483648"
proof -
  have "unat (bufferLength rb) * 1 \<le> unat (bufferLength rb) * unat (stride rb)"
    using rb_configD(2) [OF assms] by (intro mult_le_mono) auto
  then show ?thesis using rb_configD(4,5) [OF assms] by linarith
qed

lemma slot_end_le:
  assumes "rb_config rb" "i < unat (bufferLength rb)"
  shows "i * unat (stride rb) + unat (stride rb) \<le> length (storage rb)"
proof -
  have "Suc i * unat (stride rb) \<le> unat (bufferLength rb) * unat (stride rb)"
    using assms(2) by (intro mult_le_mono1) simp
  then show ?thesis using rb_configD(4) [OF assms(1)] by simp
qed

lemma slot_in_storage:
  assumes "rb_config rb" "i < unat (bufferLength rb)"
  shows "i * unat (stride rb) + unat (elementSize rb) \<le> length (storage rb)"
  using slot_end_le [OF assms] rb_configD(3) [OF assms(1)] by linarith

lemma unat_slot_offset:
  assumes "rb_config rb" "unat x < unat (bufferLength rb)"
  shows "unat (x * stride rb) = unat x * unat (stride rb)"
proof -
  have "unat x * unat (stride rb) + unat (stride rb) \<le> length (storage rb)"
    by (rule slot_end_le [OF assms])
  then have "unat x * unat (stride rb) < 2 ^ 32"
    using rb_configD(5) [OF assms(1)] by simp
  then show ?thesis by (simp add: unat_mult_small)
qed

lemma unat_wrap_Suc:
  assumes "rb_config rb" "unat x < unat (bufferLength rb)"
  shows "unat (ring_buffer_wrap_index (x + 1) (bufferLength rb)) =
    (unat x + 1) mod unat (bufferLength rb)"
  using unat_Suc_small [OF assms(2)] by (simp add: ring_buffer_wrap_index_def unat_mod)

lemma slots_disjoint:
  fixes i j s e :: nat
  assumes "i \<noteq> j" "e \<le> s"
  shows "i * s + e \<le> j * s \<or> j * s + e \<le> i * s"
proof (cases "i < j")
  case True
  then have "Suc i * s \<le> j * s" by (intro mult_le_mono1) simp
  then show ?thesis using assms(2) by simp
next
  case False
  with assms(1) have "Suc j * s \<le> i * s" by (intro mult_le_mono1) simp
  then show ?thesis using assms(2) by simp
qed

lemma rb_slot_write:
  assumes "rb_config rb" "i < unat (bufferLength rb)" "j < unat (bufferLength rb)"
    and "length x = unat (elementSize rb)"
  shows "buf_read (buf_write (storage rb) (i * unat (stride rb)) x)
           (j * unat (stride rb)) (unat (elementSize rb)) =
         (if i = j then x else rb_slot rb j)"
proof (cases "i = j")
  case True
  then show ?thesis
    using slot_in_storage [OF assms(1,2)] assms(4) buf_read_write_same by metis
next
  case False
  then have "j * unat (stride rb) + unat (elementSize rb) \<le> i * unat (stride rb) \<or>
      i * unat (stride rb) + length x \<le> j * unat (stride rb)"
    using slots_disjoint [OF False rb_configD(3) [OF assms(1)]] assms(4) by auto
  then show ?thesis
    using False slot_in_storage [OF assms(1,2)] slot_in_storage [OF assms(1,3)] assms(4)
    by (simp add: rb_slot_def buf_read_write_disjoint)
qed

lemma rb_index_lt: "rb_config rb \<Longrightarrow> rb_index rb k < unat (bufferLength rb)"
  by (simp add: rb_index_def rb_configD(1))

lemma rb_inv_head_lt: "rb_inv rb \<Longrightarrow> unat (head rb) < unat (bufferLength rb)"
  by (simp add: rb_inv_def rb_configD(1))

lemma rb_inv_not_full:
  "rb_inv rb \<Longrightarrow> \<not> isFull rb \<Longrightarrow> unat (elementCount rb) < unat (bufferLength rb)"
  by (auto simp: rb_inv_def word_unat_eq_iff)

section \<open>Every operation keeps the ring well-formed and acts on the queue\<close>

lemma length_rb_abs [simp]: "length (rb_abs rb) = unat (elementCount rb)"
  by (simp add: rb_abs_def)

lemma put_fields:
  assumes "rb_inv rb" "\<not> isFull rb" "length x = unat (elementSize rb)"
    and "ring_buffer_put rb x = (r, rb')"
  shows "r = RB_E_OK"
    "storage rb' = buf_write (storage rb) (unat (head rb) * unat (stride rb)) x"
    "tail rb' = tail rb" "stride rb' = stride rb" "elementSize rb' = elementSize rb"
    "bufferLength rb' = bufferLength rb"
    "unat (elementCount rb') = Suc (unat (elementCount rb))"
    "unat (head rb') = (unat (head rb) + 1) mod unat (bufferLength rb)"
    "isFull rb' = (elementCount rb' = bufferLength rb')"
proof -
  have cfg: "rb_config rb" using assms(1) by (simp add: rb_inv_def)
  note hd = rb_inv_head_lt [OF assms(1)]
  note off = unat_slot_offset [OF cfg hd] and wrap = unat_wrap_Suc [OF cfg hd]
  note c = unat_Suc_small [OF rb_inv_not_full [OF assms(1,2)]]
  show "r = RB_E_OK"
    "storage rb' = buf_write (storage rb) (unat (head rb) * unat (stride rb)) x"
    "tail rb' = tail rb" "stride rb' = stride rb" "elementSize rb' = elementSize rb"
    "bufferLength rb' = bufferLength rb"
    "unat (elementCount rb') = Suc (unat (elementCount rb))"
    "unat (head rb') = (unat (head rb) + 1) mod unat (bufferLength rb)"
    "isFull rb' = (elementCount rb' = bufferLength rb')"
    using assms(2-4) off c wrap
    by (auto simp: ring_buffer_put_def ring_buffer_peek_def Let_def split: if_splits)
qed

lemma put_ok_inv:
  assumes "rb_inv rb" "\<not> isFull rb" "length x = unat (elementSize rb)"
    and "ring_buffer_put rb x = (r, rb')"
  shows "rb_inv rb' \<and> r = RB_E_OK"
proof -
  note f = put_fields [OF assms]
  have cfg: "rb_config rb" using assms(1) by (simp add: rb_inv_def)
  have "length (storage rb') = length (storage rb)"
    using slot_in_storage [OF cfg rb_inv_head_lt [OF assms(1)]] assms(3) by (simp add: f)
  then have "rb_config rb'" using cfg by (simp add: rb_config_def f)
  moreover have "unat (head rb') =
      (unat (tail rb') + unat (elementCount rb')) mod unat (bufferLength rb')"
    using assms(1) by (simp add: f rb_inv_def mod_Suc_eq)
  ultimately show ?thesis
    using assms(1) rb_inv_not_full [OF assms(1,2)] by (simp add: rb_inv_def f)
qed

lemma put_ok_abs:
  assumes "rb_inv rb" "\<not> isFull rb" "length x = unat (elementSize rb)"
    and "ring_buffer_put rb x = (r, rb')"
  shows "rb_abs rb' = rb_abs rb @ [x]"
proof -
  let ?n = "unat (elementCount rb)" and ?L = "unat (bufferLength rb)"
  note f = put_fields [OF assms]
  have cfg: "rb_config rb" using assms(1) by (simp add: rb_inv_def)
  note hd = rb_inv_head_lt [OF assms(1)] and cnt = rb_inv_not_full [OF assms(1,2)]
  have idx: "rb_index rb' k = rb_index rb k" for k
    by (simp add: rb_index_def f)
  have head: "rb_index rb ?n = unat (head rb)"
    using assms(1) by (simp add: rb_index_def rb_inv_def)
  have slot: "rb_slot rb' (rb_index rb k) = (if k = ?n then x else rb_slot rb (rb_index rb k))"
    if "k \<le> ?n" for k
  proof -
    have "(unat (head rb) = rb_index rb k) = (k = ?n)"
    proof (cases "k = ?n")
      case False
      with that have "k < ?n" by simp
      then have "rb_index rb k \<noteq> rb_index rb ?n"
        unfolding rb_index_def using cnt by (intro mod_slots_distinct) auto
      with False head show ?thesis by auto
    qed (simp add: head)
    then show ?thesis
      using rb_slot_write [OF cfg hd rb_index_lt [OF cfg] assms(3)]
      by (simp add: rb_slot_def f)
  qed
  show ?thesis
    by (simp add: rb_abs_def f idx slot)
qed

lemma pop_fields:
  assumes "rb_inv rb" "elementCount rb \<noteq> 0" "ring_buffer_pop rb = (r, e, rb')"
  shows "r = 0" "e = Some (rb_slot rb (unat (tail rb)))" "storage rb' = storage rb"
    "head rb' = head rb" "stride rb' = stride rb" "elementSize rb' = elementSize rb"
    "bufferLength rb' = bufferLength rb"
    "unat (elementCount rb') = unat (elementCount rb) - 1"
    "unat (tail rb') = (unat (tail rb) + 1) mod unat (bufferLength rb)"
    "\<not> isFull rb'"
proof -
  have cfg: "rb_config rb" and tl: "unat (tail rb) < unat (bufferLength rb)"
    using assms(1) by (auto simp: rb_inv_def)
  have s0: "stride rb \<noteq> 0" using rb_configD(2) [OF cfg] by auto
  have c: "unat (elementCount rb - 1) = unat (elementCount rb) - 1"
    using assms(2) by (simp add: unat_minus_one)
  note off = unat_slot_offset [OF cfg tl] and wrap = unat_wrap_Suc [OF cfg tl]
  show "r = 0" "e = Some (rb_slot rb (unat (tail rb)))" "storage rb' = storage rb"
    "head rb' = head rb" "stride rb' = stride rb" "elementSize rb' = elementSize rb"
    "bufferLength rb' = bufferLength rb"
    "unat (elementCount rb') = unat (elementCount rb) - 1"
    "unat (tail rb') = (unat (tail rb) + 1) mod unat (bufferLength rb)"
    "\<not> isFull rb'"
    using assms(2,3) s0 off c wrap
    by (auto simp: ring_buffer_pop_def rb_slot_def Let_def)
qed

lemma pop_ok_inv:
  assumes "rb_inv rb" "elementCount rb \<noteq> 0" "ring_buffer_pop rb = (r, e, rb')"
  shows "rb_inv rb'"
proof -
  note f = pop_fields [OF assms]
  have cfg: "rb_config rb" and c: "unat (elementCount rb) \<le> unat (bufferLength rb)"
    using assms(1) by (auto simp: rb_inv_def)
  obtain n where n: "unat (elementCount rb) = Suc n"
    using assms(2) by (metis not0_implies_Suc unat_0_iff)
  have "unat (head rb') =
      (unat (tail rb') + unat (elementCount rb')) mod unat (bufferLength rb')"
    using assms(1) n by (simp add: f rb_inv_def mod_add_left_eq)
  moreover have "elementCount rb' \<noteq> bufferLength rb'"
    using c n f(7,8) by (metis Suc_n_not_le_n diff_Suc_1)
  ultimately show ?thesis
    using cfg c n rb_configD(1) [OF cfg] by (simp add: rb_inv_def f rb_config_def)
qed

lemma pop_ok_abs:
  assumes "rb_inv rb" "elementCount rb \<noteq> 0" "ring_buffer_pop rb = (r, e, rb')"
  shows "rb_abs rb = the e # rb_abs rb'"
proof -
  note f = pop_fields [OF assms]
  obtain n where n: "unat (elementCount rb) = Suc n"
    using assms(2) by (metis not0_implies_Suc unat_0_iff)
  have tl: "unat (tail rb) < unat (bufferLength rb)" using assms(1) by (simp add: rb_inv_def)
  have "rb_index rb' k = rb_index rb (Suc k)" for k
    by (simp add: rb_index_def f mod_add_left_eq)
  moreover have "rb_index rb 0 = unat (tail rb)"
    using tl by (simp add: rb_index_def)
  ultimately show ?thesis
    unfolding rb_abs_def n using f n
    by (simp add: rb_slot_def upt_conv_Cons map_Suc_upt [symmetric] comp_def del: upt_Suc)
qed

lemma ring_buffer_count_elementCount:
  assumes "rb_inv rb"
  shows "ring_buffer_count rb = elementCount rb"
proof -
  let ?L = "unat (bufferLength rb)" and ?t = "unat (tail rb)" and ?n = "unat (elementCount rb)"
  have t: "?t < ?L" and n: "?n \<le> ?L" and h: "unat (head rb) = (?t + ?n) mod ?L"
    and full: "isFull rb = (elementCount rb = bufferLength rb)"
    using assms by (auto simp: rb_inv_def)
  consider (lt) "?t + ?n < ?L" | (wrap) "?L \<le> ?t + ?n" "?n < ?L" | (full) "?n = ?L"
    using n by linarith
  then have "unat (ring_buffer_count rb) = ?n"
  proof cases
    case lt
    then have "unat (head rb) = ?t + ?n" using h by simp
    then show ?thesis using lt full t
      by (auto simp: ring_buffer_count_def word_unat_eq_iff word_less_nat_alt unat_sub_small)
  next
    case wrap
    have "unat (head rb) = ?t + ?n - ?L"
      using h wrap t by (simp add: le_mod_geq)
    then show ?thesis using wrap full t
      by (auto simp: ring_buffer_count_def word_unat_eq_iff word_less_nat_alt unat_sub_small)
  next
    case full
    then have "elementCount rb = bufferLength rb" by (simp add: word_unat_eq_iff)
    moreover have "head rb = tail rb"
      using h full t by (simp add: word_unat_eq_iff)
    ultimately show ?thesis using \<open>isFull rb = _\<close> by (simp add: ring_buffer_count_def)
  qed
  then show ?thesis by (simp add: word_unat_eq_iff)
qed

lemma rb_inv_empty_iff: "elementCount rb = 0 \<longleftrightarrow> rb_abs rb = []"
  by (metis length_0_conv length_rb_abs unat_0_iff)

lemma rb_inv_full_iff: "rb_inv rb \<Longrightarrow> isFull rb \<longleftrightarrow> length (rb_abs rb) = rb_capacity rb"
  by (simp add: rb_inv_def rb_capacity_def word_unat_eq_iff)

text \<open>Reserving a slot moves the indices exactly as \<open>ring_buffer_put\<close> does and returns the
  slot the next write belongs to; \<open>ring_buffer_pop_ptr\<close> does the same for
  \<open>ring_buffer_pop\<close>.\<close>

lemma reserve_put:
  assumes "\<not> isFull rb"
  shows "ring_buffer_reserve rb =
    (Some (head rb * stride rb), (snd (ring_buffer_put rb x))\<lparr>storage := storage rb\<rparr>)"
  using assms by (simp add: ring_buffer_reserve_def ring_buffer_put_def ring_buffer_peek_def Let_def)

lemma pop_ptr_pop:
  assumes "elementCount rb \<noteq> 0" "stride rb \<noteq> 0" "ring_buffer_pop_ptr rb = (p, rb')"
  shows "p = Some (tail rb * stride rb) \<and>
    ring_buffer_pop rb = (0, Some (buf_read (storage rb) (unat (the p)) (unat (elementSize rb))), rb')"
  using assms by (auto simp: ring_buffer_pop_ptr_def ring_buffer_pop_def Let_def)

lemma peek_at_nth:
  assumes "rb_inv rb" "pos < elementCount rb"
  shows "\<exists>p. ring_buffer_peek_at rb pos = Some p \<and>
    buf_read (storage rb) (unat p) (unat (elementSize rb)) = rb_abs rb ! unat pos"
proof -
  have cfg: "rb_config rb" and tl: "unat (tail rb) < unat (bufferLength rb)"
    and n: "unat (elementCount rb) \<le> unat (bufferLength rb)"
    using assms(1) by (auto simp: rb_inv_def)
  have pos: "unat pos < unat (elementCount rb)" using assms(2) by (simp add: word_less_nat_alt)
  have s0: "stride rb \<noteq> 0" using rb_configD(2) [OF cfg] by auto
  have "unat (tail rb + pos) = unat (tail rb) + unat pos"
    using rb_bufferLength_small [OF cfg] tl n pos by (intro unat_add_small) simp
  then have idx: "unat ((tail rb + pos) mod bufferLength rb) = rb_index rb (unat pos)"
    by (simp add: rb_index_def unat_mod)
  then have "unat ((tail rb + pos) mod bufferLength rb * stride rb) =
      rb_index rb (unat pos) * unat (stride rb)"
    using unat_slot_offset [OF cfg] rb_index_lt [OF cfg] by metis
  moreover have "\<not> elementCount rb \<le> pos" using assms(2) by simp
  ultimately show ?thesis
    using assms(1) pos s0
    by (simp add: ring_buffer_peek_at_def ring_buffer_count_elementCount rb_abs_def rb_slot_def)
qed

section \<open>The bounded queue interface\<close>

datatype 'a queue_op = Put 'a | Pop

text \<open>The specification: a list of at most \<open>cap\<close> elements, a put on a full queue is
  refused and a pop on an empty one yields nothing.  A run returns the elements popped.\<close>

fun queue_run :: "nat \<Rightarrow> 'a list \<Rightarrow> 'a queue_op list \<Rightarrow> 'a list \<times> 'a list" where
  "queue_run cap q [] = ([], q)"
| "queue_run cap q (Put x # ops) = queue_run cap (if length q < cap then q @ [x] else q) ops"
| "queue_run cap [] (Pop # ops) = queue_run cap [] ops"
| "queue_run cap (y # q) (Pop # ops) = (let (out, q') = queue_run cap q ops in (y # out, q'))"

text \<open>The same run on an implementation given by its put and pop.\<close>

fun impl_run ::
  "('q \<Rightarrow> 'a \<Rightarrow> RingBufferErrorType \<times> 'q) \<Rightarrow> ('q \<Rightarrow> 'a option \<times> 'q) \<Rightarrow>
   'q \<Rightarrow> 'a queue_op list \<Rightarrow> 'a list \<times> 'q" where
  "impl_run put pop q [] = ([], q)"
| "impl_run put pop q (Put x # ops) = impl_run put pop (snd (put q x)) ops"
| "impl_run put pop q (Pop # ops) =
     (case pop q of (e, q') \<Rightarrow>
        (let (out, q'') = impl_run put pop q' ops
         in ((case e of None \<Rightarrow> out | Some x \<Rightarrow> x # out), q'')))"

locale bounded_queue =
  fixes put :: "'q \<Rightarrow> 'a \<Rightarrow> RingBufferErrorType \<times> 'q"
    and pop :: "'q \<Rightarrow> 'a option \<times> 'q"
    and inv :: "'q \<Rightarrow> bool"
    and fits :: "'q \<Rightarrow> 'a \<Rightarrow> bool"
    and contents :: "'q \<Rightarrow> 'a list"
    and cap :: "'q \<Rightarrow> nat"
  assumes put_full: "inv q \<Longrightarrow> length (contents q) = cap q \<Longrightarrow> put q x = (RB_E_FULL, q)"
    and put_ok: "inv q \<Longrightarrow> fits q x \<Longrightarrow> length (contents q) < cap q \<Longrightarrow> put q x = (r, q') \<Longrightarrow>
       r = RB_E_OK \<and> inv q' \<and> contents q' = contents q @ [x] \<and> cap q' = cap q \<and> fits q' = fits q"
    and pop_empty: "inv q \<Longrightarrow> contents q = [] \<Longrightarrow> pop q = (None, q)"
    and pop_ok: "inv q \<Longrightarrow> contents q = y # ys \<Longrightarrow> pop q = (e, q') \<Longrightarrow>
       e = Some y \<and> inv q' \<and> contents q' = ys \<and> cap q' = cap q \<and> fits q' = fits q"
    and length_contents: "inv q \<Longrightarrow> length (contents q) \<le> cap q"
begin

lemma run_refines:
  assumes "inv q" "\<And>x. Put x \<in> set ops \<Longrightarrow> fits q x"
    and "impl_run put pop q ops = (out, q')"
  shows "queue_run (cap q) (contents q) ops = (out, contents q') \<and> inv q'"
  using assms
proof (induction ops arbitrary: q out q')
  case Nil
  then show ?case by simp
next
  case (Cons op ops)
  show ?case
  proof (cases op)
    case (Put x)
    show ?thesis
    proof (cases "length (contents q) < cap q")
      case True
      obtain r q1 where q1: "put q x = (r, q1)" by fastforce
      have "fits q x" using Cons.prems(2) Put by simp
      note ok = put_ok [OF Cons.prems(1) this True q1]
      have "queue_run (cap q1) (contents q1) ops = (out, contents q') \<and> inv q'"
        using ok Cons.prems Put q1 by (intro Cons.IH) auto
      then show ?thesis using ok Put True by simp
    next
      case False
      then have "put q x = (RB_E_FULL, q)"
        using put_full length_contents Cons.prems(1) by (simp add: le_antisym not_less)
      then show ?thesis using Cons.IH [OF Cons.prems(1)] Cons.prems Put False by simp
    qed
  next
    case Pop
    show ?thesis
    proof (cases "contents q")
      case Nil
      then have "pop q = (None, q)" using pop_empty Cons.prems(1) by simp
      then show ?thesis
        using Cons.IH [OF Cons.prems(1)] Cons.prems Pop Nil by (auto split: prod.splits)
    next
      case (Cons y ys)
      obtain e q1 where q1: "pop q = (e, q1)" by fastforce
      note ok = pop_ok [OF Cons.prems(1) Cons q1]
      obtain out1 where out1: "impl_run put pop q1 ops = (out1, q')" "out = y # out1"
        using Cons.prems(3) Pop q1 ok by (auto split: prod.splits)
      have "queue_run (cap q1) (contents q1) ops = (out1, contents q') \<and> inv q'"
        using ok Cons.prems Pop out1 by (intro Cons.IH) auto
      then show ?thesis using ok Cons Pop out1 by simp
    qed
  qed
qed

end

section \<open>The ring buffer provides the interface\<close>

definition rb_pop :: "RingBuffer \<Rightarrow> bytes option \<times> RingBuffer" where
  "rb_pop rb = (case ring_buffer_pop rb of (r, e, rb') \<Rightarrow> (e, rb'))"

definition rb_fits :: "RingBuffer \<Rightarrow> bytes \<Rightarrow> bool" where
  "rb_fits rb x \<longleftrightarrow> length x = unat (elementSize rb)"

interpretation rb_queue: bounded_queue ring_buffer_put rb_pop rb_inv rb_fits rb_abs rb_capacity
proof unfold_locales
  fix q x assume "rb_inv q" "length (rb_abs q) = rb_capacity q"
  then have "isFull q" using rb_inv_full_iff by metis
  then show "ring_buffer_put q x = (RB_E_FULL, q)" by (simp add: ring_buffer_put_def)
next
  fix q x r q'
  assume a: "rb_inv q" "rb_fits q x" "length (rb_abs q) < rb_capacity q" "ring_buffer_put q x = (r, q')"
  then have nf: "\<not> isFull q" by (simp add: rb_inv_full_iff)
  have len: "length x = unat (elementSize q)" using a(2) by (simp add: rb_fits_def)
  show "r = RB_E_OK \<and> rb_inv q' \<and> rb_abs q' = rb_abs q @ [x] \<and> rb_capacity q' = rb_capacity q \<and>
      rb_fits q' = rb_fits q"
    using put_ok_inv [OF a(1) nf len a(4)] put_ok_abs [OF a(1) nf len a(4)]
      put_fields [OF a(1) nf len a(4)]
    by (auto simp: rb_capacity_def rb_fits_def)
next
  fix q assume "rb_inv q" "rb_abs q = []"
  then show "rb_pop q = (None, q)"
    by (simp add: rb_inv_empty_iff [symmetric] rb_pop_def ring_buffer_pop_def)
next
  fix q y ys e q'
  assume a: "rb_inv q" "rb_abs q = y # ys" "rb_pop q = (e, q')"
  then have ne: "elementCount q \<noteq> 0" by (simp add: rb_inv_empty_iff)
  obtain r where p: "ring_buffer_pop q = (r, e, q')"
    using a(3) by (auto simp: rb_pop_def split: prod.splits)
  show "e = Some y \<and> rb_inv q' \<and> rb_abs q' = ys \<and> rb_capacity q' = rb_capacity q \<and>
      rb_fits q' = rb_fits q"
    using pop_ok_inv [OF a(1) ne p] pop_ok_abs [OF a(1) ne p] pop_fields [OF a(1) ne p] a(2)
    by (auto simp: rb_capacity_def rb_fits_def)
next
  fix q assume "rb_inv q"
  then show "length (rb_abs q) \<le> rb_capacity q"
    by (simp add: rb_inv_def rb_capacity_def)
qed

text \<open>A concrete ring for the witnesses: three two-byte slots of one-byte elements.\<close>

definition sample_rb :: RingBuffer where
  "sample_rb = \<lparr>storage = replicate 6 0, head = 0, tail = 0, bufferLength = 3, elementSize = 1,
     stride = 2, elementCount = 0, isFull = False\<rparr>"

lemma sample_rb_inv: "rb_inv sample_rb"
  by (simp add: sample_rb_def rb_inv_def rb_config_def)

section \<open>Properties\<close>

text \<open>C21. The byte-level ring buffer refines a bounded queue: any sequence of puts of
  \<open>elementSize\<close>-byte elements and pops on a well-formed ring returns, byte for byte and in
  order, what a list of at most \<open>bufferLength\<close> elements returns, and ends well-formed with
  that list as its contents, whatever the wrap-around of head and tail.\<close>

theorem ring_buffer_refines_queue:
  assumes "rb_inv rb" "\<forall>x. Put x \<in> set ops \<longrightarrow> length x = unat (elementSize rb)"
    and "impl_run ring_buffer_put rb_pop rb ops = (out, rb')"
  shows "queue_run (unat (bufferLength rb)) (rb_abs rb) ops = (out, rb_abs rb') \<and> rb_inv rb'"
proof -
  have "\<And>x. Put x \<in> set ops \<Longrightarrow> rb_fits rb x" using assms(2) by (simp add: rb_fits_def)
  from rb_queue.run_refines [OF assms(1) this assms(3)] show ?thesis
    by (simp add: rb_capacity_def)
qed

theorem ring_buffer_refines_queue_witness:
  "fst (impl_run ring_buffer_put rb_pop sample_rb
     [Put [7], Put [8], Pop, Put [9], Put [1], Put [2], Pop]) = [[7], [8]]"
proof -
  let ?ops = "[Put [7], Put [8], Pop, Put [9], Put [1], Put [2], Pop]"
  obtain out rb' where run: "impl_run ring_buffer_put rb_pop sample_rb ?ops = (out, rb')"
    by fastforce
  have fits: "\<forall>x. Put x \<in> set ?ops \<longrightarrow> length x = unat (elementSize sample_rb)"
    by (auto simp: sample_rb_def)
  have spec: "queue_run 3 [] ?ops = ([[7], [8]], [[9], [1]])" by simp
  have "rb_abs sample_rb = []" "unat (bufferLength sample_rb) = 3"
    by (simp_all add: sample_rb_def rb_abs_def)
  with ring_buffer_refines_queue [OF sample_rb_inv fits run] spec
  have "out = [[7], [8]]" by (metis prod.inject)
  with run show ?thesis by (metis fst_conv)
qed

text \<open>\<open>ring_buffer_count\<close>, which the drivers call instead of reading \<open>elementCount\<close>,
  returns exactly the number of queued elements in every well-formed ring, and
  \<open>ring_buffer_peek_at\<close> points at the bytes of the queued element at the given offset from
  the oldest, or returns \<open>NULL\<close> past the end.\<close>

theorem ring_buffer_peek_at_correct:
  assumes "rb_inv rb"
  shows "unat (ring_buffer_count rb) = length (rb_abs rb) \<and>
    (case ring_buffer_peek_at rb pos of
       None \<Rightarrow> length (rb_abs rb) \<le> unat pos
     | Some p \<Rightarrow> unat pos < length (rb_abs rb) \<and>
         buf_read (storage rb) (unat p) (unat (elementSize rb)) = rb_abs rb ! unat pos)"
proof (cases "pos < elementCount rb")
  case True
  with peek_at_nth [OF assms True] show ?thesis
    by (auto simp: ring_buffer_count_elementCount [OF assms] word_less_nat_alt)
next
  case False
  then have "ring_buffer_peek_at rb pos = None"
    by (simp add: ring_buffer_peek_at_def ring_buffer_count_elementCount [OF assms] not_less)
  with False show ?thesis
    by (simp add: ring_buffer_count_elementCount [OF assms] word_less_nat_alt)
qed

theorem ring_buffer_peek_at_correct_witness:
  "unat (ring_buffer_count sample_rb) = 0 \<and> ring_buffer_peek_at sample_rb 0 = None"
  using ring_buffer_peek_at_correct [OF sample_rb_inv, of 0]
  by (simp add: sample_rb_def ring_buffer_peek_at_def ring_buffer_count_def)

end
