(* ===== verification/SequenceChecker.thy ===== *)
theory SequenceChecker
  imports Prelude
begin

text \<open>
  \<open>platform/Common/Src/SequenceChecker.c\<close>: the end-to-end check on the per-channel
  \<open>rx_sequence\<close> numbers.  A \<open>ScSequenceType *\<close> is an \<open>option\<close>; every operation returns
  its status and the object after the call.  The lemmas show that the accumulated
  \<open>missing_count\<close> is the number of indices skipped modulo \<open>wrap_index + 1\<close>, saturating
  at \<open>UINT32_MAX\<close>.
\<close>

section \<open>State and operations\<close>

datatype ScStatusType =
  SC_E_OK | SC_E_NOT_OK | SC_E_INIT | SC_E_INV_PARAM | SC_E_INV_POINTER | SC_E_SEQUENCE

record ScSequenceType =
  initialized :: bool
  previous_id :: u32
  gap_count :: u32
  missing_count :: u32
  wrap_index :: u32

fun ScInit :: "ScSequenceType option \<Rightarrow> u32 \<Rightarrow> u32 \<Rightarrow> ScStatusType \<times> ScSequenceType option" where
  "ScInit None index wrap = (SC_E_INV_POINTER, None)"
| "ScInit (Some seq) index wrap =
     (if wrap = 0 \<or> index > wrap then (SC_E_INV_PARAM, Some seq)
      else (SC_E_OK, Some (seq\<lparr>previous_id := index, gap_count := 0, missing_count := 0,
                               wrap_index := wrap, initialized := True\<rparr>)))"

fun ScDeInit :: "ScSequenceType option \<Rightarrow> ScStatusType \<times> ScSequenceType option" where
  "ScDeInit None = (SC_E_INV_POINTER, None)"
| "ScDeInit (Some seq) =
     (if \<not> initialized seq then (SC_E_SEQUENCE, Some seq)
      else (SC_E_OK, Some (seq\<lparr>previous_id := 0, gap_count := 0, missing_count := 0,
                               wrap_index := 0, initialized := False\<rparr>)))"

fun ScCheckSequence :: "ScSequenceType option \<Rightarrow> u32 \<Rightarrow> ScStatusType \<times> ScSequenceType option" where
  "ScCheckSequence None new_index = (SC_E_INV_POINTER, None)"
| "ScCheckSequence (Some seq) new_index =
     (if \<not> initialized seq then (SC_E_INIT, Some seq)
      else if new_index > wrap_index seq then (SC_E_INV_PARAM, Some seq)
      else if new_index = previous_id seq then (SC_E_SEQUENCE, Some (seq\<lparr>gap_count := 0\<rparr>))
      else
        let delta = (if new_index > previous_id seq then new_index - previous_id seq
                     else (wrap_index seq - previous_id seq) + new_index + 1);
            seq = (if delta = 1 then seq\<lparr>gap_count := 0\<rparr>
                   else if 1 < delta then seq\<lparr>gap_count := delta - 1\<rparr> else seq);
            seq = (if UINT32_MAX - missing_count seq \<ge> gap_count seq
                   then seq\<lparr>missing_count := missing_count seq + gap_count seq\<rparr>
                   else seq\<lparr>missing_count := UINT32_MAX\<rparr>)
        in (SC_E_OK, Some (seq\<lparr>previous_id := new_index\<rparr>)))"

text \<open>\<open>cnt\<close> says whether the output pointer is given; the output is the second component.\<close>

fun ScGetMissingCount :: "ScSequenceType option \<Rightarrow> bool \<Rightarrow> ScStatusType \<times> u32 option" where
  "ScGetMissingCount None cnt = (SC_E_INV_POINTER, None)"
| "ScGetMissingCount (Some seq) cnt =
     (if \<not> cnt then (SC_E_INV_POINTER, None)
      else if \<not> initialized seq then (SC_E_INIT, None)
      else (SC_E_OK, Some (missing_count seq)))"

fun ScReset :: "ScSequenceType option \<Rightarrow> u32 \<Rightarrow> ScStatusType \<times> ScSequenceType option" where
  "ScReset None index = (SC_E_INV_POINTER, None)"
| "ScReset (Some seq) index =
     (if \<not> initialized seq then (SC_E_SEQUENCE, Some seq)
      else if wrap_index seq = 0 \<or> index > wrap_index seq then (SC_E_INV_PARAM, Some seq)
      else (SC_E_OK, Some (seq\<lparr>previous_id := index, gap_count := 0, missing_count := 0\<rparr>)))"

section \<open>Well-formed checkers\<close>

definition sc_wf :: "ScSequenceType \<Rightarrow> bool" where
  "sc_wf seq \<longleftrightarrow> initialized seq \<and> wrap_index seq \<noteq> 0 \<and> previous_id seq \<le> wrap_index seq"

definition sc_check :: "u32 \<Rightarrow> ScSequenceType \<Rightarrow> ScSequenceType" where
  "sc_check i seq = the (snd (ScCheckSequence (Some seq) i))"

text \<open>The indices a sender at \<open>p\<close> uses for the frames that arrive when the \<open>k\<close>-th arriving
  frame comes \<open>d k\<close> places after the one before it (so \<open>d k - 1\<close> frames were lost).\<close>

fun arriving :: "nat \<Rightarrow> nat \<Rightarrow> nat list \<Rightarrow> u32 list" where
  "arriving p w [] = []"
| "arriving p w (d # ds) = (let q = (p + d) mod Suc w in of_nat q # arriving q w ds)"

definition saturate :: "nat \<Rightarrow> nat" where
  "saturate n = min 4294967295 n"

lemma ScInit_wf: "ScInit (Some seq) i w = (SC_E_OK, Some seq') \<Longrightarrow> sc_wf seq' \<and> missing_count seq' = 0"
  by (auto simp: sc_wf_def not_less split: if_splits)

lemma sc_check_wf: "sc_wf seq \<Longrightarrow> sc_wf (sc_check i seq)"
  by (auto simp: sc_wf_def sc_check_def Let_def not_less)

lemma sc_check_wrap [simp]: "wrap_index (sc_check i seq) = wrap_index seq"
  by (auto simp: sc_check_def Let_def)

text \<open>One arrival \<open>d\<close> places on: the 32-bit \<open>delta\<close> of the code is \<open>d\<close>.\<close>

lemma mod_advance:
  fixes p d w :: nat
  assumes "p \<le> w" "1 \<le> d" "d \<le> w"
  shows "(p + d) mod Suc w = (if p + d \<le> w then p + d else p + d - Suc w)"
  using assms by (simp add: mod_if)

lemma delta_is_advance:
  fixes p wrap i :: u32
  assumes "p \<le> wrap" "1 \<le> d" "d \<le> unat wrap" "i = of_nat ((unat p + d) mod Suc (unat wrap))"
  shows "i \<noteq> p" "i \<le> wrap"
    "unat (if i > p then i - p else (wrap - p) + i + 1) = d"
proof -
  have p: "unat p \<le> unat wrap" using assms(1) by (simp add: word_le_nat_alt)
  have i: "unat i = (if unat p + d \<le> unat wrap then unat p + d else unat p + d - Suc (unat wrap))"
  proof -
    have "(unat p + d) mod Suc (unat wrap) < Suc (unat wrap)" by simp
    then have "(unat p + d) mod Suc (unat wrap) < 4294967296"
      using unat_u32_bound [of wrap] by linarith
    then show ?thesis
      unfolding assms(4) by (subst unat_of_nat_u32) (simp_all only: mod_advance [OF p assms(2,3)])
  qed
  show "i \<noteq> p" using i assms(2,3) p by (auto split: if_splits)
  show "i \<le> wrap" using i p assms(3) by (auto simp: word_le_nat_alt split: if_splits)
  show "unat (if i > p then i - p else (wrap - p) + i + 1) = d"
  proof (cases "unat p + d \<le> unat wrap")
    case True
    then have "i > p" using i assms(2) by (simp add: word_less_nat_alt)
    then show ?thesis using i True by (simp add: unat_sub_small)
  next
    case False
    then have ui: "unat i = unat p + d - Suc (unat wrap)" using i by simp
    then have "\<not> i > p" using assms(3) by (simp add: word_less_nat_alt)
    have d: "d = unat wrap - unat p + unat i + 1" using ui False p by linarith
    have s: "unat (wrap - p) = unat wrap - unat p" using p by (simp add: unat_sub_small)
    have b: "unat wrap - unat p + unat i + 1 < 2 ^ 32"
      using d assms(3) unat_u32_bound [of wrap] by simp
    have "unat ((wrap - p) + i) = unat wrap - unat p + unat i"
      using s b by (subst unat_add_small) simp_all
    then have "unat ((wrap - p) + i + 1) = unat wrap - unat p + unat i + 1"
      using b by (subst unat_add_small) simp_all
    then show ?thesis using \<open>\<not> i > p\<close> d by simp
  qed
qed

lemma saturating_add:
  fixes m g :: u32
  shows "unat (if UINT32_MAX - m \<ge> g then m + g else UINT32_MAX) = saturate (unat m + unat g)"
proof -
  have "unat (UINT32_MAX - m) = 4294967295 - unat m"
    by (rule unat_u32_max_minus)
  moreover have "unat g \<le> 4294967295 - unat m \<Longrightarrow> unat (m + g) = unat m + unat g"
    using unat_u32_le_max [of m] by (subst unat_add_small) auto
  ultimately show ?thesis
    using unat_u32_le_max [of m] by (auto simp: word_le_nat_alt saturate_def)
qed

lemma sc_check_advance:
  assumes "sc_wf seq" "1 \<le> d" "d \<le> unat (wrap_index seq)"
    and "i = of_nat ((unat (previous_id seq) + d) mod Suc (unat (wrap_index seq)))"
  shows "fst (ScCheckSequence (Some seq) i) = SC_E_OK"
    and "unat (missing_count (sc_check i seq)) = saturate (unat (missing_count seq) + (d - 1))"
    and "previous_id (sc_check i seq) = i"
proof -
  define delta where "delta = (if i > previous_id seq then i - previous_id seq
      else (wrap_index seq - previous_id seq) + i + 1)"
  have p: "previous_id seq \<le> wrap_index seq" and ini: "initialized seq"
    using assms(1) by (simp_all add: sc_wf_def)
  note adv = delta_is_advance [OF p assms(2-4), folded delta_def]
  define g where "g = delta - 1"
  have "delta \<noteq> 0" using adv(3) assms(2) by auto
  then have lt1: "delta = 1 \<or> 1 < delta"
    by (metis adv(3) assms(2) le_neq_implies_less unat_1 word_less_nat_alt word_unat_eq_iff)
  have ug: "unat g = d - 1"
    unfolding g_def using \<open>delta \<noteq> 0\<close> adv(3) by (simp add: unat_minus_one)
  have res: "ScCheckSequence (Some seq) i = (SC_E_OK, Some (seq\<lparr>gap_count := g,
      missing_count := (if UINT32_MAX - missing_count seq \<ge> g
        then missing_count seq + g else UINT32_MAX), previous_id := i\<rparr>))"
    using lt1 adv(1,2) ini by (auto simp: g_def Let_def delta_def [symmetric] not_less)
  show "fst (ScCheckSequence (Some seq) i) = SC_E_OK" unfolding res by simp
  show "previous_id (sc_check i seq) = i" unfolding sc_check_def res by simp
  show "unat (missing_count (sc_check i seq)) = saturate (unat (missing_count seq) + (d - 1))"
    unfolding sc_check_def res using saturating_add [where m = "missing_count seq" and g = g] ug
    by (simp add: g_def [symmetric])
qed

lemma saturate_saturate [simp]: "saturate (saturate a + b) = saturate (a + b)"
  by (simp add: saturate_def)

lemma sc_check_run:
  assumes "sc_wf seq" "\<forall>d\<in>set ds. 1 \<le> d \<and> d \<le> unat (wrap_index seq)"
  shows "unat (missing_count (fold sc_check (arriving (unat (previous_id seq)) (unat (wrap_index seq)) ds) seq))
      = saturate (unat (missing_count seq) + (\<Sum>d\<leftarrow>ds. d - 1))"
  using assms
proof (induction ds arbitrary: seq)
  case Nil
  then show ?case using unat_u32_le_max [of "missing_count seq"] by (simp add: saturate_def)
next
  case (Cons d ds)
  let ?q = "(unat (previous_id seq) + d) mod Suc (unat (wrap_index seq))"
  have d: "1 \<le> d" "d \<le> unat (wrap_index seq)" using Cons.prems(2) by auto
  note step = sc_check_advance [OF Cons.prems(1) d refl]
  have "?q < 4294967296"
    using mod_less_divisor [of "Suc (unat (wrap_index seq))" "unat (previous_id seq) + d"]
      unat_u32_bound [of "wrap_index seq"] by linarith
  then have "unat (of_nat ?q :: u32) = ?q" by (rule unat_of_nat_u32)
  then show ?case
    using Cons.IH [of "sc_check (of_nat ?q) seq"] Cons.prems step(2,3)
    by (simp add: sc_check_wf Let_def add.assoc)
qed

section \<open>Properties\<close>

text \<open>The missing count is exactly the number of lost frames: when each frame that
  arrives comes \<open>d\<close> places after the previous one (\<open>1 \<le> d \<le> wrap_index\<close>, numbers taken
  modulo \<open>wrap_index + 1\<close>), so that \<open>d - 1\<close> frames were lost before it, the checker's
  \<open>missing_count\<close> after the run is the old count plus the sum of all losses, saturating at
  \<open>UINT32_MAX\<close>, wrap-arounds of the sequence number included.\<close>

theorem missing_count_is_frames_lost:
  assumes "sc_wf seq" "\<forall>d\<in>set ds. 1 \<le> d \<and> d \<le> unat (wrap_index seq)"
  shows "unat (missing_count (fold sc_check
           (arriving (unat (previous_id seq)) (unat (wrap_index seq)) ds) seq)) =
         min 4294967295 (unat (missing_count seq) + (\<Sum>d\<leftarrow>ds. d - 1))"
  using sc_check_run [OF assms] by (simp add: saturate_def)

definition sample_seq :: ScSequenceType where
  "sample_seq = \<lparr>initialized = True, previous_id = 6, gap_count = 0, missing_count = 0, wrap_index = 7\<rparr>"

theorem missing_count_is_frames_lost_witness:
  "unat (missing_count (fold sc_check [7, 1, 2, 0] sample_seq)) = 6"
  using missing_count_is_frames_lost [of sample_seq "[1, 2, 1, 6]"]
  by (simp add: sample_seq_def sc_wf_def Let_def)

end
