(* ===== verification/ErrorRecorder.thy ===== *)
theory ErrorRecorder
  imports Prelude
begin

text \<open>
  \<open>app/services/logging/ErrorRecorder.c\<close>: the first, the last and the ten most recent
  error contexts, with a running sequence number.  The static variables of the file are the
  record \<open>recorder\<close>; \<open>memset(..., 0, ...)\<close> of an entry is \<open>zero_entry\<close>.  The lemmas relate
  the state to the history of recorded contexts.
\<close>

section \<open>State and operations\<close>

record ErrorContextType =
  ec_id :: u32
  ec_code :: u32
  ec_arg0 :: u32
  ec_arg1 :: u32
  ec_line :: u16
  ec_file :: bytes
  ec_function :: bytes

record ErrorRecorderEntryType =
  sequence :: u32
  entry_context :: ErrorContextType

record recorder =
  FirstError :: ErrorRecorderEntryType
  LastError :: ErrorRecorderEntryType
  RecentErrors :: "ErrorRecorderEntryType list"
  TotalCount :: u32
  RecentCount :: u8
  RecentNext :: u8

record ErrorRecorderSnapshotType =
  total_count :: u32
  overwritten_count :: u32
  first_valid :: u8
  last_valid :: u8
  recent_count :: u8
  snap_first :: ErrorRecorderEntryType
  snap_last :: ErrorRecorderEntryType
  recent :: "ErrorRecorderEntryType list"

definition ERROR_RECORDER_RECENT_COUNT :: nat where
  "ERROR_RECORDER_RECENT_COUNT = 10"

definition zero_entry :: ErrorRecorderEntryType where
  "zero_entry = \<lparr>sequence = 0, entry_context = \<lparr>ec_id = 0, ec_code = 0, ec_arg0 = 0, ec_arg1 = 0,
     ec_line = 0, ec_file = replicate 20 0, ec_function = replicate 64 0\<rparr>\<rparr>"

definition ErrorRecorder_Clear :: "recorder \<Rightarrow> recorder" where
  "ErrorRecorder_Clear st = st\<lparr>FirstError := zero_entry, LastError := zero_entry,
     RecentErrors := replicate ERROR_RECORDER_RECENT_COUNT zero_entry,
     TotalCount := 0, RecentCount := 0, RecentNext := 0\<rparr>"

fun ErrorRecorder_Record :: "ErrorContextType option \<Rightarrow> recorder \<Rightarrow> recorder" where
  "ErrorRecorder_Record None st = st"
| "ErrorRecorder_Record (Some c) st =
    (let entry = \<lparr>sequence = TotalCount st + 1, entry_context = c\<rparr>;
         st = (if TotalCount st = 0 then st\<lparr>FirstError := entry\<rparr> else st);
         st = st\<lparr>LastError := entry,
                 RecentErrors := (RecentErrors st)[unat (RecentNext st) := entry],
                 RecentNext := RecentNext st + 1\<rparr>;
         st = (if unat (RecentNext st) \<ge> ERROR_RECORDER_RECENT_COUNT then st\<lparr>RecentNext := 0\<rparr> else st);
         st = (if unat (RecentCount st) < ERROR_RECORDER_RECENT_COUNT
               then st\<lparr>RecentCount := RecentCount st + 1\<rparr> else st)
     in st\<lparr>TotalCount := TotalCount st + 1\<rparr>)"

text \<open>\<open>given\<close> says that the output pointer is not \<open>NULL\<close>; the snapshot is the second
  component.\<close>

definition ErrorRecorder_GetSnapshot :: "bool \<Rightarrow> recorder \<Rightarrow> u8 \<times> ErrorRecorderSnapshotType option" where
  "ErrorRecorder_GetSnapshot given st =
    (if \<not> given then (1, None)
     else
       let valid = TotalCount st > 0;
           start = (if unat (RecentCount st) = ERROR_RECORDER_RECENT_COUNT
                    then unat (RecentNext st) else 0)
       in (0, Some \<lparr>total_count = TotalCount st,
             overwritten_count = (if TotalCount st > ucast (RecentCount st)
                                  then TotalCount st - ucast (RecentCount st) else 0),
             first_valid = (if valid then 1 else 0), last_valid = (if valid then 1 else 0),
             recent_count = RecentCount st,
             snap_first = (if valid then FirstError st else zero_entry),
             snap_last = (if valid then LastError st else zero_entry),
             recent = fold (\<lambda>i rs. rs[i := RecentErrors st ! ((start + i) mod ERROR_RECORDER_RECENT_COUNT)])
                        [0..<unat (RecentCount st)]
                        (replicate ERROR_RECORDER_RECENT_COUNT zero_entry)\<rparr>))"

section \<open>The state as a function of the history\<close>

text \<open>The entry the \<open>i\<close>-th recorded context (from 0) gets.\<close>

definition history_entry :: "ErrorContextType list \<Rightarrow> nat \<Rightarrow> ErrorRecorderEntryType" where
  "history_entry cs i = \<lparr>sequence = of_nat (Suc i), entry_context = cs ! i\<rparr>"

definition records :: "recorder \<Rightarrow> ErrorContextType list \<Rightarrow> bool" where
  "records st cs \<longleftrightarrow> length cs < 4294967296 \<and> length (RecentErrors st) = 10 \<and>
     unat (TotalCount st) = length cs \<and> unat (RecentCount st) = min 10 (length cs) \<and>
     unat (RecentNext st) = length cs mod 10 \<and>
     (cs \<noteq> [] \<longrightarrow> FirstError st = history_entry cs 0 \<and> LastError st = history_entry cs (length cs - 1)) \<and>
     (\<forall>i. length cs \<le> i + 10 \<longrightarrow> i < length cs \<longrightarrow> RecentErrors st ! (i mod 10) = history_entry cs i)"

lemma records_Clear: "records (ErrorRecorder_Clear st) []"
  by (simp add: records_def ErrorRecorder_Clear_def ERROR_RECORDER_RECENT_COUNT_def)

lemma history_entry_append [simp]: "i < length cs \<Longrightarrow> history_entry (cs @ [c]) i = history_entry cs i"
  by (simp add: history_entry_def nth_append)

lemma record_fields:
  fixes c :: ErrorContextType
  assumes "records st cs" "length cs + 1 < 4294967296"
  defines "st' \<equiv> ErrorRecorder_Record (Some c) st"
  shows "unat (TotalCount st') = Suc (length cs)"
    "unat (RecentCount st') = min 10 (Suc (length cs))"
    "unat (RecentNext st') = Suc (length cs) mod 10"
    "RecentErrors st' = (RecentErrors st)[length cs mod 10 := history_entry (cs @ [c]) (length cs)]"
    "LastError st' = history_entry (cs @ [c]) (length cs)"
    "FirstError st' = (if cs = [] then history_entry [c] 0 else FirstError st)"
proof -
  have t: "unat (TotalCount st) = length cs" and rc: "unat (RecentCount st) = min 10 (length cs)"
    and rn: "unat (RecentNext st) = length cs mod 10"
    using assms(1) by (simp_all add: records_def)
  have tw: "TotalCount st = of_nat (length cs)"
    using t assms(2) by (simp add: word_unat_eq_iff)
  have t1: "unat (TotalCount st + 1) = Suc (length cs)"
    using t assms(2) by (subst unat_add_small) simp_all
  have n1: "unat (RecentNext st + 1) = Suc (length cs mod 10)"
    using rn by (subst unat_add_small) simp_all
  have c1: "unat (RecentCount st) < 10 \<Longrightarrow> unat (RecentCount st + 1) = Suc (unat (RecentCount st))"
    by (subst unat_add_small) simp_all
  have z: "TotalCount st = 0 \<longleftrightarrow> cs = []"
    using t by (metis length_0_conv unat_0_iff)
  have m: "length cs mod 10 < 10" by simp
  note defs = st'_def Let_def ERROR_RECORDER_RECENT_COUNT_def
  show "unat (TotalCount st') = Suc (length cs)" using t1 z by (simp add: defs)
  show "unat (RecentCount st') = min 10 (Suc (length cs))"
    using rc c1 by (auto simp: defs min_def)
  show "unat (RecentNext st') = Suc (length cs) mod 10"
    using n1 by (auto simp: defs mod_Suc)
  show "RecentErrors st' = (RecentErrors st)[length cs mod 10 := history_entry (cs @ [c]) (length cs)]"
    "LastError st' = history_entry (cs @ [c]) (length cs)"
    "FirstError st' = (if cs = [] then history_entry [c] 0 else FirstError st)"
    using rn z by (auto simp: defs history_entry_def tw ac_simps)
qed

lemma records_Record:
  assumes "records st cs" "length cs + 1 < 4294967296"
  shows "records (ErrorRecorder_Record (Some c) st) (cs @ [c])"
proof -
  note f = record_fields [OF assms, of c]
  have len: "length (RecentErrors st) = 10" using assms(1) by (simp add: records_def)
  have old: "RecentErrors st ! (i mod 10) = history_entry cs i" if "length cs \<le> i + 10" "i < length cs" for i
    using assms(1) that by (simp add: records_def)
  have "RecentErrors (ErrorRecorder_Record (Some c) st) ! (i mod 10) = history_entry (cs @ [c]) i"
    if i: "Suc (length cs) \<le> i + 10" "i < Suc (length cs)" for i
  proof (cases "i = length cs")
    case True
    then show ?thesis using len by (simp only: f) simp
  next
    case False
    with i have lt: "i < length cs" by simp
    have "(i + 0) mod 10 \<noteq> (i + (length cs - i)) mod 10"
    proof
      assume "(i + 0) mod 10 = (i + (length cs - i)) mod 10"
      then have "10 dvd length cs - i"
        using lt by (metis add_0_right diff_add_inverse mod_eq_dvd_iff_nat le_add1)
      then show False using lt i by (auto dest: dvd_imp_le)
    qed
    then have "i mod 10 \<noteq> length cs mod 10" using lt by simp
    then show ?thesis using old [OF _ lt] i lt by (simp only: f) simp
  qed
  moreover have "cs \<noteq> [] \<Longrightarrow> FirstError st = history_entry (cs @ [c]) 0"
    using assms(1) by (simp add: records_def)
  ultimately show ?thesis
    using assms(2) len by (auto simp: records_def f simp del: ErrorRecorder_Record.simps)
qed

lemma records_run:
  assumes "length cs < 4294967296"
  shows "records (fold (\<lambda>c. ErrorRecorder_Record (Some c)) cs (ErrorRecorder_Clear st)) cs"
  using assms
proof (induction cs rule: rev_induct)
  case Nil
  then show ?case by (simp add: records_Clear)
next
  case (snoc c cs)
  then show ?case using records_Record [of _ cs c] by (simp del: ErrorRecorder_Record.simps)
qed

lemma fold_list_update:
  "n \<le> length xs \<Longrightarrow> fold (\<lambda>i rs. rs[i := f i]) [0..<n] xs = map f [0..<n] @ drop n xs"
proof (induction n)
  case (Suc n)
  then show ?case by (simp add: list_update_append Cons_nth_drop_Suc [symmetric])
qed simp

lemma snapshot_recent:
  assumes "records st cs" "ErrorRecorder_GetSnapshot True st = (r, Some sn)"
  shows "recent sn = map (history_entry cs) [length cs - min 10 (length cs)..<length cs]
    @ replicate (10 - min 10 (length cs)) zero_entry"
proof -
  let ?n = "min 10 (length cs)"
  let ?start = "if unat (RecentCount st) = 10 then unat (RecentNext st) else 0"
  have st: "unat (RecentCount st) = ?n" "unat (RecentNext st) = length cs mod 10"
    using assms(1) by (simp_all add: records_def)
  have "recent sn = map (\<lambda>i. RecentErrors st ! ((?start + i) mod 10)) [0..<?n] @ replicate (10 - ?n) zero_entry"
    using assms(2) by (auto simp: ErrorRecorder_GetSnapshot_def Let_def st fold_list_update
        ERROR_RECORDER_RECENT_COUNT_def)
  moreover have row: "RecentErrors st ! ((?start + i) mod 10) = history_entry cs (length cs - ?n + i)"
    if i: "i < ?n" for i
  proof -
    have "(?start + i) mod 10 = (length cs - ?n + i) mod 10"
    proof (cases "length cs < 10")
      case False
      then have "?start = length cs mod 10" "?n = 10" by (simp_all add: st min_def)
      moreover have "(length cs - 10 + i + 10) mod 10 = (length cs - 10 + i) mod 10"
        by (rule mod_add_self2)
      ultimately show ?thesis using False by (simp add: mod_add_left_eq)
    qed (simp add: st)
    moreover have "RecentErrors st ! ((length cs - ?n + i) mod 10) = history_entry cs (length cs - ?n + i)"
      using assms(1) i by (auto simp: records_def min_def split: if_splits)
    ultimately show ?thesis by (simp only:)
  qed
  moreover have "map (\<lambda>i. f (length cs - n + i)) [0..<n] = map f [length cs - n..<length cs]"
    if "n \<le> length cs" for n and f :: "nat \<Rightarrow> ErrorRecorderEntryType"
    using that by (intro nth_equalityI) simp_all
  moreover have "map (\<lambda>i. RecentErrors st ! ((?start + i) mod 10)) [0..<?n] =
      map (\<lambda>i. history_entry cs (length cs - ?n + i)) [0..<?n]"
    by (rule map_cong [OF refl]) (use row in auto)
  ultimately show ?thesis by simp
qed

section \<open>Properties\<close>

text \<open>After a clear and any number of recorded contexts (fewer than \<open>2^32\<close>) the
  snapshot is a function of the history: the totals, the first and the last error, and the
  ten most recent ones in the order they were recorded, each with its sequence number
  (counted from 1), the unused places zeroed; what fell out of the ring is what
  \<open>overwritten_count\<close> says.\<close>

theorem snapshot_is_history:
  assumes "length cs < 4294967296"
    and "st = fold (\<lambda>c. ErrorRecorder_Record (Some c)) cs (ErrorRecorder_Clear st0)"
    and "ErrorRecorder_GetSnapshot True st = (r, Some sn)"
  shows "r = 0 \<and> unat (total_count sn) = length cs \<and>
    unat (overwritten_count sn) = length cs - min 10 (length cs) \<and>
    recent sn = map (history_entry cs) [length cs - min 10 (length cs)..<length cs]
      @ replicate (10 - min 10 (length cs)) zero_entry \<and>
    (if cs = [] then first_valid sn = 0 \<and> last_valid sn = 0
     else first_valid sn = 1 \<and> last_valid sn = 1 \<and> snap_first sn = history_entry cs 0 \<and>
       snap_last sn = history_entry cs (length cs - 1))"
proof -
  have rec: "records st cs" using records_run [OF assms(1)] assms(2) by simp
  have t: "unat (TotalCount st) = length cs" and rc: "unat (RecentCount st) = min 10 (length cs)"
    using rec by (simp_all add: records_def)
  have rcw: "unat (ucast (RecentCount st) :: u32) = min 10 (length cs)"
    using rc by (simp add: unsigned_ucast_eq take_bit_nat_eq_self_iff)
  have z: "TotalCount st > 0 \<longleftrightarrow> cs \<noteq> []"
    using t by (metis length_0_conv unat_0_iff word_gt_0)
  have ow: "unat (overwritten_count sn) = length cs - min 10 (length cs)"
    using assms(3) t rcw by (auto simp: ErrorRecorder_GetSnapshot_def Let_def word_less_nat_alt unat_sub_small)
  have "r = 0 \<and> total_count sn = TotalCount st \<and> first_valid sn = (if cs \<noteq> [] then 1 else 0) \<and>
      last_valid sn = (if cs \<noteq> [] then 1 else 0) \<and>
      (cs \<noteq> [] \<longrightarrow> snap_first sn = FirstError st \<and> snap_last sn = LastError st)"
    using assms(3) z by (auto simp: ErrorRecorder_GetSnapshot_def Let_def)
  then show ?thesis using snapshot_recent [OF rec assms(3)] ow t rec by (auto simp: records_def)
qed

definition sample_context :: "u32 \<Rightarrow> ErrorContextType" where
  "sample_context n = \<lparr>ec_id = n, ec_code = 0, ec_arg0 = 0, ec_arg1 = 0, ec_line = 1,
     ec_file = replicate 20 0, ec_function = replicate 64 0\<rparr>"

theorem snapshot_is_history_witness:
  "\<exists>sn. snd (ErrorRecorder_GetSnapshot True (fold (\<lambda>c. ErrorRecorder_Record (Some c))
      (map (\<lambda>i. sample_context (of_nat i)) [0..<12]) (ErrorRecorder_Clear undefined))) = Some sn \<and>
    map (\<lambda>e. (sequence e, ec_id (entry_context e))) (recent sn) =
      map (\<lambda>i. (of_nat (Suc i), of_nat i)) [2..<12]"
proof -
  let ?cs = "map (\<lambda>i. sample_context (of_nat i)) [0..<12]"
  let ?st = "fold (\<lambda>c. ErrorRecorder_Record (Some c)) ?cs (ErrorRecorder_Clear undefined)"
  obtain r sn where sn: "ErrorRecorder_GetSnapshot True ?st = (r, Some sn)"
    by (simp add: ErrorRecorder_GetSnapshot_def Let_def del: upt_conv_Cons)
  have "length ?cs < 4294967296" by simp
  from snapshot_is_history [OF this refl sn]
  have "recent sn = map (history_entry ?cs) [2..<12]" by simp
  then have "map (\<lambda>e. (sequence e, ec_id (entry_context e))) (recent sn) =
      map (\<lambda>i. (of_nat (Suc i), of_nat i)) [2..<12]"
    by (simp add: history_entry_def sample_context_def)
  with sn show ?thesis by (metis snd_conv)
qed

end
