(* ===== verification/RuntimeChecks.thy ===== *)
theory RuntimeChecks
  imports Prelude
begin

text \<open>
  \<open>app/services/logging/RuntimeChecks.c\<close>: the 64-bit counters every stage of the logging
  pipeline increments, and the plausibility check over them.  The global variables are the
  record \<open>counters\<close>, with the names of the code; other theories that count frames update this
  record.  The lemmas say exactly when the check reports dropped frames.
\<close>

section \<open>State\<close>

datatype RuntimeChecksErrorType =
  RUNTIMECHECKS_E_OK | RUNTIMECHECKS_E_NOT_OK | RUNTIMECHECKS_E_PLAUSIBILITY_FRAME_COUNT |
  RUNTIMECHECKS_E_FRAMES_DROPPED

record counters =
  CanAbs_FrameCount :: u64
  CanAbs_FrameDropCount :: u64
  CanAbs_CAN1_Rx_FrameDropCount :: u64
  CanAbs_CAN2_Rx_FrameDropCount :: u64
  CanBridgeTask_FrameCount :: u64
  CanLogManager_FrameCount :: u64
  CanLogManager_FrameDropCount1 :: u64
  CanLogManager_FrameDropCount2 :: u64
  CanLogManager_CAN1_MissingCount :: u64
  CanLogManager_CAN2_MissingCount :: u64
  CanLogManager_CAN1_MissingIdsCount :: u64
  CanLogManager_CAN2_MissingIdsCount :: u64
  CanLogBuffer_FrameCount1 :: u64
  CanLogBuffer_FrameCount2 :: u64
  CanLogBuffer_FrameDropCount :: u64
  CanLogBuffer_BlockCount :: u64
  FcdanMsgPort_FrameDropCount :: u64
  FrameDelta1 :: u64
  ErrorHandlerCalls :: u64

record RuntimeChecksDiagnosticsType =
  can_abs_frame_count :: u64
  can_abs_frame_drop_count :: u64
  can_abs_can1_rx_frame_drop_count :: u64
  can_abs_can2_rx_frame_drop_count :: u64
  can_bridge_task_frame_count :: u64
  can_log_manager_frame_count :: u64
  frame_delta1 :: u64
  can_log_manager_frame_drop_count1 :: u64
  can_log_manager_frame_drop_count2 :: u64
  can_log_manager_can1_missing_count :: u64
  can_log_manager_can2_missing_count :: u64
  can_log_manager_can1_missing_ids_count :: u64
  can_log_manager_can2_missing_ids_count :: u64
  can_log_buffer_frame_count1 :: u64
  can_log_buffer_frame_count2 :: u64
  can_log_buffer_frame_drop_count :: u64
  can_log_buffer_block_count :: u64
  fdcan_msg_port_frame_drop_count :: u64
  error_handler_calls :: u64

text \<open>The counters after start-up: every initialiser is 0.\<close>

definition zero_counters :: counters where
  "zero_counters = \<lparr>CanAbs_FrameCount = 0, CanAbs_FrameDropCount = 0,
     CanAbs_CAN1_Rx_FrameDropCount = 0, CanAbs_CAN2_Rx_FrameDropCount = 0,
     CanBridgeTask_FrameCount = 0, CanLogManager_FrameCount = 0,
     CanLogManager_FrameDropCount1 = 0, CanLogManager_FrameDropCount2 = 0,
     CanLogManager_CAN1_MissingCount = 0, CanLogManager_CAN2_MissingCount = 0,
     CanLogManager_CAN1_MissingIdsCount = 0, CanLogManager_CAN2_MissingIdsCount = 0,
     CanLogBuffer_FrameCount1 = 0, CanLogBuffer_FrameCount2 = 0,
     CanLogBuffer_FrameDropCount = 0, CanLogBuffer_BlockCount = 0,
     FcdanMsgPort_FrameDropCount = 0, FrameDelta1 = 0, ErrorHandlerCalls = 0\<rparr>"

section \<open>Operations\<close>

definition RuntimeChecks_ErrorHandler :: "counters \<Rightarrow> counters" where
  "RuntimeChecks_ErrorHandler c = c\<lparr>ErrorHandlerCalls := ErrorHandlerCalls c + 1\<rparr>"

text \<open>\<open>RuntimeChecks_Init\<close> resets every counter but \<open>FrameDelta1\<close>.\<close>

definition RuntimeChecks_Init :: "counters \<Rightarrow> counters" where
  "RuntimeChecks_Init c = c\<lparr>CanAbs_FrameCount := 0, CanAbs_FrameDropCount := 0,
     CanAbs_CAN1_Rx_FrameDropCount := 0, CanAbs_CAN2_Rx_FrameDropCount := 0,
     CanBridgeTask_FrameCount := 0, CanLogManager_FrameCount := 0,
     CanLogManager_FrameDropCount1 := 0, CanLogManager_FrameDropCount2 := 0,
     CanLogManager_CAN1_MissingCount := 0, CanLogManager_CAN2_MissingCount := 0,
     CanLogManager_CAN1_MissingIdsCount := 0, CanLogManager_CAN2_MissingIdsCount := 0,
     CanLogBuffer_FrameCount1 := 0, CanLogBuffer_FrameCount2 := 0,
     CanLogBuffer_FrameDropCount := 0, CanLogBuffer_BlockCount := 0,
     FcdanMsgPort_FrameDropCount := 0, ErrorHandlerCalls := 0\<rparr>"

definition CheckDropCounts :: "counters \<Rightarrow> RuntimeChecksErrorType \<times> counters" where
  "CheckDropCounts c0 =
     (let c = c0\<lparr>FrameDelta1 := CanBridgeTask_FrameCount c0 - CanLogManager_FrameCount c0\<rparr>;
          err = (if 0 \<noteq> FcdanMsgPort_FrameDropCount c then RUNTIMECHECKS_E_FRAMES_DROPPED
            else if 0 \<noteq> CanAbs_FrameDropCount c then RUNTIMECHECKS_E_FRAMES_DROPPED
            else if 0 \<noteq> CanAbs_CAN1_Rx_FrameDropCount c then RUNTIMECHECKS_E_FRAMES_DROPPED
            else if 0 \<noteq> CanAbs_CAN2_Rx_FrameDropCount c then RUNTIMECHECKS_E_FRAMES_DROPPED
            else if FrameDelta1 c > 1024 then RUNTIMECHECKS_E_FRAMES_DROPPED
            else if CanLogBuffer_FrameDropCount c > 1024 then RUNTIMECHECKS_E_OK
            else if 0 \<noteq> CanLogManager_FrameDropCount1 c then RUNTIMECHECKS_E_FRAMES_DROPPED
            else if 0 \<noteq> CanLogManager_FrameDropCount2 c then RUNTIMECHECKS_E_FRAMES_DROPPED
            else if 0 \<noteq> CanLogManager_CAN1_MissingCount c \<or> 0 \<noteq> CanLogManager_CAN2_MissingCount c
              then RUNTIMECHECKS_E_FRAMES_DROPPED
            else if 0 \<noteq> CanLogManager_CAN1_MissingIdsCount c \<or> 0 \<noteq> CanLogManager_CAN2_MissingIdsCount c
              then RUNTIMECHECKS_E_FRAMES_DROPPED
            else RUNTIMECHECKS_E_OK)
      in (err, c))"

text \<open>The returned error is what the code stores in \<open>context->err\<close>.\<close>

definition RuntimeChecks_CheckFrameCounts :: "counters \<Rightarrow> RuntimeChecksErrorType \<times> counters" where
  "RuntimeChecks_CheckFrameCounts c0 =
     (let (err, c) = CheckDropCounts c0;
          c = (if RUNTIMECHECKS_E_OK \<noteq> err then RuntimeChecks_ErrorHandler c else c)
      in (err, c))"

text \<open>\<open>given\<close>: the output pointer is not \<open>NULL\<close>.\<close>

definition RuntimeChecks_GetDiagnostics ::
  "bool \<Rightarrow> counters \<Rightarrow> u8 \<times> RuntimeChecksDiagnosticsType option" where
  "RuntimeChecks_GetDiagnostics given c =
     (if \<not> given then (1, None)
      else (0, Some \<lparr>can_abs_frame_count = CanAbs_FrameCount c,
        can_abs_frame_drop_count = CanAbs_FrameDropCount c,
        can_abs_can1_rx_frame_drop_count = CanAbs_CAN1_Rx_FrameDropCount c,
        can_abs_can2_rx_frame_drop_count = CanAbs_CAN2_Rx_FrameDropCount c,
        can_bridge_task_frame_count = CanBridgeTask_FrameCount c,
        can_log_manager_frame_count = CanLogManager_FrameCount c,
        frame_delta1 = FrameDelta1 c,
        can_log_manager_frame_drop_count1 = CanLogManager_FrameDropCount1 c,
        can_log_manager_frame_drop_count2 = CanLogManager_FrameDropCount2 c,
        can_log_manager_can1_missing_count = CanLogManager_CAN1_MissingCount c,
        can_log_manager_can2_missing_count = CanLogManager_CAN2_MissingCount c,
        can_log_manager_can1_missing_ids_count = CanLogManager_CAN1_MissingIdsCount c,
        can_log_manager_can2_missing_ids_count = CanLogManager_CAN2_MissingIdsCount c,
        can_log_buffer_frame_count1 = CanLogBuffer_FrameCount1 c,
        can_log_buffer_frame_count2 = CanLogBuffer_FrameCount2 c,
        can_log_buffer_frame_drop_count = CanLogBuffer_FrameDropCount c,
        can_log_buffer_block_count = CanLogBuffer_BlockCount c,
        fdcan_msg_port_frame_drop_count = FcdanMsgPort_FrameDropCount c,
        error_handler_calls = ErrorHandlerCalls c\<rparr>))"

section \<open>When the check reports\<close>

text \<open>The losses counted before the log buffer (receive drops and frames waiting between the
  bridge task and the log manager), and those counted at and behind it.\<close>

definition upstream_loss :: "counters \<Rightarrow> bool" where
  "upstream_loss c \<longleftrightarrow> FcdanMsgPort_FrameDropCount c \<noteq> 0 \<or> CanAbs_FrameDropCount c \<noteq> 0 \<or>
     CanAbs_CAN1_Rx_FrameDropCount c \<noteq> 0 \<or> CanAbs_CAN2_Rx_FrameDropCount c \<noteq> 0 \<or>
     CanBridgeTask_FrameCount c - CanLogManager_FrameCount c > 1024"

definition downstream_loss :: "counters \<Rightarrow> bool" where
  "downstream_loss c \<longleftrightarrow> CanLogManager_FrameDropCount1 c \<noteq> 0 \<or> CanLogManager_FrameDropCount2 c \<noteq> 0 \<or>
     CanLogManager_CAN1_MissingCount c \<noteq> 0 \<or> CanLogManager_CAN2_MissingCount c \<noteq> 0 \<or>
     CanLogManager_CAN1_MissingIdsCount c \<noteq> 0 \<or> CanLogManager_CAN2_MissingIdsCount c \<noteq> 0"

lemma CheckDropCounts_err:
  "fst (CheckDropCounts c) =
     (if upstream_loss c \<or> (CanLogBuffer_FrameDropCount c \<le> 1024 \<and> downstream_loss c)
      then RUNTIMECHECKS_E_FRAMES_DROPPED else RUNTIMECHECKS_E_OK)"
  by (auto simp: CheckDropCounts_def Let_def upstream_loss_def downstream_loss_def
      simp flip: not_less)

lemma CheckFrameCounts_err: "fst (RuntimeChecks_CheckFrameCounts c) = fst (CheckDropCounts c)"
  by (simp add: RuntimeChecks_CheckFrameCounts_def Let_def split_beta)

lemma CheckDropCounts_state:
  "snd (CheckDropCounts c) = c\<lparr>FrameDelta1 := CanBridgeTask_FrameCount c - CanLogManager_FrameCount c\<rparr>"
  by (simp add: CheckDropCounts_def Let_def)

lemma losses_after_Init:
  "\<not> upstream_loss (RuntimeChecks_Init c)" "\<not> downstream_loss (RuntimeChecks_Init c)"
  by (simp_all add: RuntimeChecks_Init_def upstream_loss_def downstream_loss_def)

text \<open>The stage counters, which no check changes.\<close>

lemma losses_FrameDelta1 [simp]:
  "upstream_loss (c\<lparr>FrameDelta1 := d\<rparr>) = upstream_loss c"
  "downstream_loss (c\<lparr>FrameDelta1 := d\<rparr>) = downstream_loss c"
  "upstream_loss (c\<lparr>ErrorHandlerCalls := n\<rparr>) = upstream_loss c"
  "downstream_loss (c\<lparr>ErrorHandlerCalls := n\<rparr>) = downstream_loss c"
  by (simp_all add: upstream_loss_def downstream_loss_def)

section \<open>Properties\<close>

text \<open>The check reports dropped frames exactly when a loss was counted before the log
  buffer, or one was counted at or behind it while the log buffer's own drop count is at most
  1024: above that the code takes the monitoring-only branch and skips every later check.  It
  counts each report once, refreshes \<open>FrameDelta1\<close> and touches no other counter.\<close>

theorem check_reports_exactly:
  "RuntimeChecks_CheckFrameCounts c =
     (let c' = c\<lparr>FrameDelta1 := CanBridgeTask_FrameCount c - CanLogManager_FrameCount c\<rparr>
      in if upstream_loss c \<or> CanLogBuffer_FrameDropCount c \<le> 1024 \<and> downstream_loss c
         then (RUNTIMECHECKS_E_FRAMES_DROPPED, c'\<lparr>ErrorHandlerCalls := ErrorHandlerCalls c + 1\<rparr>)
         else (RUNTIMECHECKS_E_OK, c'))"
  using CheckDropCounts_err [of c] CheckDropCounts_state [of c]
  by (cases "CheckDropCounts c")
    (auto simp: RuntimeChecks_CheckFrameCounts_def RuntimeChecks_ErrorHandler_def Let_def)

text \<open>A monitoring counter hides real losses: with more than 1024 frames outstanding in
  the log buffer, frames dropped by the log manager (or found missing by the sequence checks)
  are reported as no error, although the same counters with an idle log buffer are an error.\<close>

theorem monitoring_branch_masks_losses:
  assumes "\<not> upstream_loss c" "downstream_loss c" "CanLogBuffer_FrameDropCount c > 1024"
  shows "fst (RuntimeChecks_CheckFrameCounts c) = RUNTIMECHECKS_E_OK \<and>
    fst (RuntimeChecks_CheckFrameCounts (c\<lparr>CanLogBuffer_FrameDropCount := 0\<rparr>)) =
      RUNTIMECHECKS_E_FRAMES_DROPPED"
proof -
  have "downstream_loss (c\<lparr>CanLogBuffer_FrameDropCount := 0\<rparr>)"
    using assms(2) by (simp add: downstream_loss_def)
  then have "fst (CheckDropCounts (c\<lparr>CanLogBuffer_FrameDropCount := 0\<rparr>)) = RUNTIMECHECKS_E_FRAMES_DROPPED"
    by (simp add: CheckDropCounts_err)
  moreover have "fst (CheckDropCounts c) = RUNTIMECHECKS_E_OK"
    using assms by (simp add: CheckDropCounts_err not_le)
  ultimately show ?thesis
    by (simp add: CheckFrameCounts_err)
qed

theorem monitoring_branch_masks_losses_witness:
  "fst (RuntimeChecks_CheckFrameCounts
     (zero_counters\<lparr>CanLogManager_FrameDropCount2 := 7, CanLogBuffer_FrameDropCount := 1025\<rparr>)) =
   RUNTIMECHECKS_E_OK"
proof -
  let ?c = "zero_counters\<lparr>CanLogManager_FrameDropCount2 := 7, CanLogBuffer_FrameDropCount := 1025\<rparr>"
  have "\<not> upstream_loss ?c" "downstream_loss ?c" "CanLogBuffer_FrameDropCount ?c > 1024"
    by (simp_all add: upstream_loss_def downstream_loss_def zero_counters_def)
  from monitoring_branch_masks_losses [OF this] show ?thesis by blast
qed

end
