(* ===== verification/Flash.thy ===== *)
theory Flash
  imports Prelude
begin

text \<open>
  \<open>platform/drivers/flash/flash.c\<close>: the internal flash driver.  The constants of the vendor
  header and the vendor HAL calls are a parameter, the record \<open>flash_device\<close>, whose state type
  \<open>'h\<close> is whatever the hardware keeps; \<open>HAL_FLASH_Program\<close> gets the flashword the code's
  source address points at.  The locale \<open>flash_hal\<close> states what the driver relies on: a
  successful sector erase leaves the sector erased, a successful program of an erased
  flashword stores the data, and neither touches a byte outside its target.  The driver's
  lemmas are proved in it and it is interpreted on the HAL stub the repository's bootloader
  tests use.
\<close>

section \<open>Device and driver state\<close>

datatype HAL_StatusTypeDef = HAL_OK | HAL_ERROR | HAL_BUSY | HAL_TIMEOUT

datatype FlashStatusType =
  FLASH_E_OK | FLASH_E_RANGE | FLASH_E_ALIGN | FLASH_E_BUSY | FLASH_E_PROTECT | FLASH_E_VERIFY |
  FLASH_E_HW | FLASH_E_PARAM

datatype FlashAccessType =
  FLASH_ACCESS_TYPE_INV | FLASH_ACCESS_TYPE_READ | FLASH_ACCESS_TYPE_WRITE |
  FLASH_ACCESS_TYPE_ERASE | FLASH_ACCESS_TYPE_MAX

record FLASH_EraseInitTypeDef =
  TypeErase :: u32
  Banks :: u32
  Sector :: u32
  NbSectors :: u32
  VoltageRange :: u32

record 'h flash_device =
  FLASH_BASE :: u32
  FLASH_END :: u32
  FLASH_SIZE :: u32
  FLASH_SECTOR_SIZE :: u32
  FLASH_BANK1_BASE :: u32
  FLASH_BANK2_BASE :: u32
  FLASH_NB_32BITWORD_IN_FLASHWORD :: u32
  FLASH_BANK_1 :: u32
  FLASH_BANK_2 :: u32
  FLASH_TYPEERASE_SECTORS :: u32
  FLASH_VOLTAGE_RANGE_4 :: u32
  FLASH_TYPEPROGRAM_FLASHWORD :: u32
  HAL_FLASH_Unlock :: "'h \<Rightarrow> HAL_StatusTypeDef \<times> 'h"
  HAL_FLASH_Program :: "u32 \<Rightarrow> u32 \<Rightarrow> bytes \<Rightarrow> 'h \<Rightarrow> HAL_StatusTypeDef \<times> 'h"
  HAL_FLASHEx_Erase :: "FLASH_EraseInitTypeDef \<Rightarrow> 'h \<Rightarrow> HAL_StatusTypeDef \<times> 'h"
  flash_mem :: "'h \<Rightarrow> memory"

record FlashInfoType =
  base_addr :: u32
  end_addr :: u32
  total_size :: u32
  write_alignment :: u32
  erase_size_min :: u32
  prog_size_min :: u32
  page_size :: u32
  sector_size :: u32
  source_alignment :: u32
  requires_explicit_erase :: bool

record FlashSectorInfoType =
  sector_off :: u32
  sector_bytes :: u32

record 'h flash_state =
  EraseInitStruct :: FLASH_EraseInitTypeDef
  Info :: FlashInfoType
  hw :: 'h

definition FLASH_FLASHWORD_SIZE :: "'h flash_device \<Rightarrow> u32" where
  "FLASH_FLASHWORD_SIZE dev = FLASH_NB_32BITWORD_IN_FLASHWORD dev * 4"

section \<open>Operations\<close>

definition AddressCheck :: "FlashInfoType \<Rightarrow> u32 \<Rightarrow> size_t \<Rightarrow> FlashAccessType \<Rightarrow> FlashStatusType" where
  "AddressCheck info addr len type =
     (if 0 = len \<or> len > UINT32_MAX then FLASH_E_PARAM
      else if addr < base_addr info \<or> total_size info < len then FLASH_E_RANGE
      else if addr > UINT32_MAX - len \<or> end_addr info < addr + len then FLASH_E_RANGE
      else (case type of
        FLASH_ACCESS_TYPE_READ \<Rightarrow> FLASH_E_OK
      | FLASH_ACCESS_TYPE_WRITE \<Rightarrow>
          (if addr mod write_alignment info \<noteq> 0 \<or> prog_size_min info = 0 then FLASH_E_PARAM
           else if addr mod prog_size_min info \<noteq> 0 \<or> len mod prog_size_min info \<noteq> 0
             then FLASH_E_ALIGN
           else FLASH_E_OK)
      | FLASH_ACCESS_TYPE_ERASE \<Rightarrow>
          (if addr mod erase_size_min info \<noteq> 0 \<or> len < erase_size_min info \<or>
              len mod sector_size info \<noteq> 0 then FLASH_E_ALIGN
           else FLASH_E_OK)
      | FLASH_ACCESS_TYPE_INV \<Rightarrow> FLASH_E_PARAM
      | FLASH_ACCESS_TYPE_MAX \<Rightarrow> FLASH_E_PARAM))"

definition Flash_Init :: "'h flash_device \<Rightarrow> 'h flash_state \<Rightarrow> FlashStatusType \<times> 'h flash_state" where
  "Flash_Init dev st =
     (let info = (Info st)\<lparr>base_addr := FLASH_BASE dev,
            total_size := FLASH_END dev - FLASH_BASE dev + 1,
            end_addr := FLASH_END dev + 1,
            sector_size := FLASH_SECTOR_SIZE dev,
            write_alignment := FLASH_FLASHWORD_SIZE dev,
            prog_size_min := (FLASH_NB_32BITWORD_IN_FLASHWORD dev * 32) div 8\<rparr>;
          info = info\<lparr>erase_size_min := sector_size info, source_alignment := 4\<rparr>
      in (FLASH_E_OK, st\<lparr>Info := info, hw := snd (HAL_FLASH_Unlock dev (hw st))\<rparr>))"

definition Flash_GetInfo ::
  "'h flash_device \<Rightarrow> bool \<Rightarrow> 'h flash_state \<Rightarrow> FlashStatusType \<times> FlashInfoType option \<times> 'h flash_state" where
  "Flash_GetInfo dev given st =
     (if \<not> given then (FLASH_E_PARAM, None, st)
      else
        let st = (if total_size (Info st) = 0 then snd (Flash_Init dev st) else st)
        in (FLASH_E_OK, Some (Info st), st))"

text \<open>\<open>given\<close>: the destination pointer is not \<open>NULL\<close>; the bytes stored there are returned.\<close>

definition Flash_Read ::
  "'h flash_device \<Rightarrow> u32 \<Rightarrow> bool \<Rightarrow> size_t \<Rightarrow> 'h flash_state \<Rightarrow> FlashStatusType \<times> bytes option" where
  "Flash_Read dev addr given len st =
     (let res = AddressCheck (Info st) addr len FLASH_ACCESS_TYPE_READ
      in if FLASH_E_OK \<noteq> res then (res, None)
         else if \<not> given then (FLASH_E_PARAM, None)
         else (FLASH_E_OK, Some (mem_read (flash_mem dev (hw st)) addr (unat len))))"

definition Flash_EraseSector ::
  "'h flash_device \<Rightarrow> u32 \<Rightarrow> 'h flash_state \<Rightarrow> FlashStatusType \<times> 'h flash_state" where
  "Flash_EraseSector dev addr st =
     (let info = Info st; res = AddressCheck info addr (sector_size info) FLASH_ACCESS_TYPE_ERASE
      in if FLASH_E_OK \<noteq> res then (res, st)
         else if addr > UINT32_MAX - sector_size info \<or> addr + sector_size info > end_addr info
           then (FLASH_E_RANGE, st)
         else
           let ini = (EraseInitStruct st)\<lparr>TypeErase := FLASH_TYPEERASE_SECTORS dev\<rparr>;
               (ini, res) =
                 (if addr \<ge> FLASH_BANK1_BASE dev \<and> addr < FLASH_BANK2_BASE dev
                    then (ini\<lparr>Banks := FLASH_BANK_1 dev\<rparr>, res)
                  else if addr \<ge> FLASH_BANK2_BASE dev \<and> addr \<le> FLASH_END dev
                    then (ini\<lparr>Banks := FLASH_BANK_2 dev\<rparr>, res)
                  else (ini\<lparr>Banks := 0\<rparr>, FLASH_E_PARAM))
           in if FLASH_E_OK = res then
                let ini = (if FLASH_BANK_1 dev = Banks ini
                             then ini\<lparr>Sector := (addr - FLASH_BANK1_BASE dev) div sector_size info\<rparr>
                           else if FLASH_BANK_2 dev = Banks ini
                             then ini\<lparr>Sector := (addr - FLASH_BANK2_BASE dev) div sector_size info\<rparr>
                           else ini);
                    ini = ini\<lparr>NbSectors := 1, VoltageRange := FLASH_VOLTAGE_RANGE_4 dev\<rparr>;
                    (HalRes, h) = HAL_FLASHEx_Erase dev ini (hw st)
                in (if HAL_OK \<noteq> HalRes then FLASH_E_HW else res,
                    st\<lparr>EraseInitStruct := ini, hw := h\<rparr>)
              else (res, st\<lparr>EraseInitStruct := ini\<rparr>))"

text \<open>The loop of \<open>Flash_Erase\<close>.  The fuel is the length: every round adds the sector size,
  which \<open>AddressCheck\<close> has divided by.\<close>

fun flash_erase_loop ::
  "nat \<Rightarrow> 'h flash_device \<Rightarrow> u32 \<Rightarrow> size_t \<Rightarrow> size_t \<Rightarrow> size_t \<Rightarrow> 'h flash_state \<Rightarrow>
   FlashStatusType \<times> 'h flash_state" where
  "flash_erase_loop 0 dev addr len sz off st = (FLASH_E_OK, st)"
| "flash_erase_loop (Suc n) dev addr len sz off st =
     (if off < len then
        let (res, st) = Flash_EraseSector dev (addr + off) st
        in if FLASH_E_OK \<noteq> res then (res, st)
           else flash_erase_loop n dev addr len sz (off + sz) st
      else (FLASH_E_OK, st))"

definition Flash_Erase ::
  "'h flash_device \<Rightarrow> u32 \<Rightarrow> size_t \<Rightarrow> 'h flash_state \<Rightarrow> FlashStatusType \<times> 'h flash_state" where
  "Flash_Erase dev addr len st =
     (let st = (if total_size (Info st) = 0 then snd (Flash_Init dev st) else st);
          res = AddressCheck (Info st) addr len FLASH_ACCESS_TYPE_ERASE
      in if FLASH_E_OK \<noteq> res then (res, st)
         else flash_erase_loop (unat len) dev addr len (sector_size (Info st)) 0 st)"

text \<open>The loop of \<open>Flash_Write\<close>; the fuel is the length here too.\<close>

fun flash_write_loop ::
  "nat \<Rightarrow> 'h flash_device \<Rightarrow> u32 \<Rightarrow> bytes \<Rightarrow> size_t \<Rightarrow> u32 \<Rightarrow> HAL_StatusTypeDef \<Rightarrow> 'h flash_state \<Rightarrow>
   HAL_StatusTypeDef \<times> 'h flash_state" where
  "flash_write_loop 0 dev addr src len off HalRes st = (HalRes, st)"
| "flash_write_loop (Suc n) dev addr src len off HalRes st =
     (if off < len then
        let (HalRes, h) = HAL_FLASH_Program dev (FLASH_TYPEPROGRAM_FLASHWORD dev) (addr + off)
                            (buf_read src (unat off) (unat (FLASH_FLASHWORD_SIZE dev))) (hw st);
            st = st\<lparr>hw := h\<rparr>
        in if HalRes \<noteq> HAL_OK then (HalRes, st)
           else flash_write_loop n dev addr src len (off + FLASH_FLASHWORD_SIZE dev) HalRes st
      else (HalRes, st))"

text \<open>The source pointer is its address and the bytes it points at.\<close>

definition Flash_Write ::
  "'h flash_device \<Rightarrow> u32 \<Rightarrow> (u32 \<times> bytes) option \<Rightarrow> size_t \<Rightarrow> 'h flash_state \<Rightarrow>
   FlashStatusType \<times> 'h flash_state" where
  "Flash_Write dev addr src len st =
     (let res = AddressCheck (Info st) addr len FLASH_ACCESS_TYPE_WRITE
      in if FLASH_E_OK \<noteq> res then (res, st)
         else case src of None \<Rightarrow> (FLASH_E_PARAM, st)
         | Some (Source, bs) \<Rightarrow>
             if len > UINT32_MAX then (FLASH_E_PARAM, st)
             else if Source mod source_alignment (Info st) \<noteq> 0 \<or> len mod prog_size_min (Info st) \<noteq> 0 \<or>
                     len mod FLASH_FLASHWORD_SIZE dev \<noteq> 0 then (FLASH_E_ALIGN, st)
             else
               let (HalRes, st) = flash_write_loop (unat len) dev addr bs len 0 HAL_ERROR st
               in if HAL_OK = HalRes then (FLASH_E_OK, st) else (FLASH_E_HW, st))"

text \<open>\<open>given\<close>: the output pointer is not \<open>NULL\<close>.\<close>

definition Flash_GetSectorByAddr ::
  "'h flash_device \<Rightarrow> u32 \<Rightarrow> bool \<Rightarrow> 'h flash_state \<Rightarrow> FlashStatusType \<times> FlashSectorInfoType option" where
  "Flash_GetSectorByAddr dev addr given st =
     (if \<not> given then (FLASH_E_PARAM, None)
      else if addr < FLASH_BASE dev \<or> addr \<ge> FLASH_BASE dev + FLASH_SIZE dev then (FLASH_E_RANGE, None)
      else
        let dev_off = addr - FLASH_BASE dev; sz = sector_size (Info st)
        in (FLASH_E_OK, Some \<lparr>sector_off = (dev_off div sz) * sz, sector_bytes = sz\<rparr>))"

section \<open>The interface to the HAL\<close>

text \<open>The geometry the vendor header gives: two banks of whole sectors, sectors of whole
  flashwords, and addresses that do not wrap.\<close>

locale flash_geometry =
  fixes dev :: "'h flash_device"
  assumes words_pos: "0 < unat (FLASH_NB_32BITWORD_IN_FLASHWORD dev)"
    and words_small: "unat (FLASH_NB_32BITWORD_IN_FLASHWORD dev) * 32 < 4294967296"
    and bank1_base: "FLASH_BANK1_BASE dev = FLASH_BASE dev"
    and bank2_base: "unat (FLASH_BASE dev) < unat (FLASH_BANK2_BASE dev)"
      "unat (FLASH_BANK2_BASE dev) \<le> unat (FLASH_END dev)"
    and end_small: "unat (FLASH_END dev) < 4294967295"
    and flash_size: "FLASH_SIZE dev = FLASH_END dev - FLASH_BASE dev + 1"
    and sector_pos: "0 < unat (FLASH_SECTOR_SIZE dev)"
    and sector_words: "4 * unat (FLASH_NB_32BITWORD_IN_FLASHWORD dev) dvd unat (FLASH_SECTOR_SIZE dev)"
    and sectors: "unat (FLASH_SECTOR_SIZE dev) dvd unat (FLASH_BASE dev)"
      "unat (FLASH_SECTOR_SIZE dev) dvd unat (FLASH_BANK2_BASE dev)"
      "unat (FLASH_SECTOR_SIZE dev) dvd Suc (unat (FLASH_END dev))"
    and bank_codes: "FLASH_BANK_1 dev \<noteq> FLASH_BANK_2 dev"

text \<open>The sector an erase request names, and the requests the driver may make.\<close>

definition erase_start :: "'h flash_device \<Rightarrow> FLASH_EraseInitTypeDef \<Rightarrow> u32" where
  "erase_start dev ini =
     (if Banks ini = FLASH_BANK_1 dev then FLASH_BANK1_BASE dev else FLASH_BANK2_BASE dev)
     + Sector ini * FLASH_SECTOR_SIZE dev"

definition erase_request :: "'h flash_device \<Rightarrow> FLASH_EraseInitTypeDef \<Rightarrow> bool" where
  "erase_request dev ini \<longleftrightarrow>
     TypeErase ini = FLASH_TYPEERASE_SECTORS dev \<and> NbSectors ini = 1 \<and>
     VoltageRange ini = FLASH_VOLTAGE_RANGE_4 dev \<and>
     (Banks ini = FLASH_BANK_1 dev \<and>
        unat (FLASH_BANK1_BASE dev) + (unat (Sector ini) + 1) * unat (FLASH_SECTOR_SIZE dev)
          \<le> unat (FLASH_BANK2_BASE dev) \<or>
      Banks ini = FLASH_BANK_2 dev \<and>
        unat (FLASH_BANK2_BASE dev) + (unat (Sector ini) + 1) * unat (FLASH_SECTOR_SIZE dev)
          \<le> Suc (unat (FLASH_END dev)))"

definition in_flash :: "'h flash_device \<Rightarrow> u32 \<Rightarrow> nat \<Rightarrow> bool" where
  "in_flash dev a n \<longleftrightarrow> unat (FLASH_BASE dev) \<le> unat a \<and> unat a + n \<le> Suc (unat (FLASH_END dev))"

text \<open>What the vendor's reference manual and HAL promise.  \<open>hal_ok\<close> is the state the hardware
  stays in, \<open>erased h x\<close> says that the byte at \<open>x\<close> has not been programmed since its erase.\<close>

locale flash_hal = flash_geometry dev for dev :: "'h flash_device" +
  fixes hal_ok :: "'h \<Rightarrow> bool"
    and erased :: "'h \<Rightarrow> u32 \<Rightarrow> bool"
  assumes unlock: "hal_ok h \<Longrightarrow> HAL_FLASH_Unlock dev h = (r, h') \<Longrightarrow>
      hal_ok h' \<and> flash_mem dev h' = flash_mem dev h \<and> erased h' = erased h"
    and erase_frame: "hal_ok h \<Longrightarrow> erase_request dev ini \<Longrightarrow> HAL_FLASHEx_Erase dev ini h = (r, h') \<Longrightarrow>
      hal_ok h' \<and> (\<forall>x. \<not> in_range x (erase_start dev ini) (unat (FLASH_SECTOR_SIZE dev)) \<longrightarrow>
        flash_mem dev h' x = flash_mem dev h x \<and> erased h' x = erased h x)"
    and erase_done: "hal_ok h \<Longrightarrow> erase_request dev ini \<Longrightarrow> HAL_FLASHEx_Erase dev ini h = (HAL_OK, h') \<Longrightarrow>
      in_range x (erase_start dev ini) (unat (FLASH_SECTOR_SIZE dev)) \<Longrightarrow>
      erased h' x \<and> flash_mem dev h' x = 0xFF"
    and program_frame: "hal_ok h \<Longrightarrow> in_flash dev a (unat (FLASH_FLASHWORD_SIZE dev)) \<Longrightarrow>
      unat (FLASH_FLASHWORD_SIZE dev) dvd unat a \<Longrightarrow> length bs = unat (FLASH_FLASHWORD_SIZE dev) \<Longrightarrow>
      HAL_FLASH_Program dev (FLASH_TYPEPROGRAM_FLASHWORD dev) a bs h = (r, h') \<Longrightarrow>
      hal_ok h' \<and> (\<forall>x. \<not> in_range x a (unat (FLASH_FLASHWORD_SIZE dev)) \<longrightarrow>
        flash_mem dev h' x = flash_mem dev h x \<and> erased h' x = erased h x)"
    and program_done: "hal_ok h \<Longrightarrow> in_flash dev a (unat (FLASH_FLASHWORD_SIZE dev)) \<Longrightarrow>
      unat (FLASH_FLASHWORD_SIZE dev) dvd unat a \<Longrightarrow> length bs = unat (FLASH_FLASHWORD_SIZE dev) \<Longrightarrow>
      HAL_FLASH_Program dev (FLASH_TYPEPROGRAM_FLASHWORD dev) a bs h = (HAL_OK, h') \<Longrightarrow>
      (\<And>x. in_range x a (unat (FLASH_FLASHWORD_SIZE dev)) \<Longrightarrow> erased h x) \<Longrightarrow>
      mem_read (flash_mem dev h') a (unat (FLASH_FLASHWORD_SIZE dev)) = bs"

section \<open>The address check\<close>

text \<open>The driver after \<open>Flash_Init\<close>.\<close>

definition flash_ready :: "'h flash_device \<Rightarrow> FlashInfoType \<Rightarrow> bool" where
  "flash_ready dev info \<longleftrightarrow> base_addr info = FLASH_BASE dev \<and> end_addr info = FLASH_END dev + 1 \<and>
     total_size info = FLASH_END dev - FLASH_BASE dev + 1 \<and>
     sector_size info = FLASH_SECTOR_SIZE dev \<and> erase_size_min info = FLASH_SECTOR_SIZE dev \<and>
     write_alignment info = FLASH_FLASHWORD_SIZE dev \<and> prog_size_min info = FLASH_FLASHWORD_SIZE dev \<and>
     source_alignment info = 4"

context flash_geometry
begin

lemma flashword_size: "unat (FLASH_FLASHWORD_SIZE dev) = 4 * unat (FLASH_NB_32BITWORD_IN_FLASHWORD dev)"
  using words_small by (simp add: FLASH_FLASHWORD_SIZE_def unat_mult_small)

lemma flashword_pos: "0 < unat (FLASH_FLASHWORD_SIZE dev)"
  using words_pos by (simp add: flashword_size)

lemma prog_size: "FLASH_NB_32BITWORD_IN_FLASHWORD dev * 32 div 8 = FLASH_FLASHWORD_SIZE dev"
proof -
  have "unat (FLASH_NB_32BITWORD_IN_FLASHWORD dev * 32) = unat (FLASH_NB_32BITWORD_IN_FLASHWORD dev) * 32"
    using words_small by (subst unat_mult_small) simp_all
  then show ?thesis
    by (simp add: word_unat_eq_iff unat_div flashword_size)
qed

lemma flash_ready_Init: "flash_ready dev (Info (snd (Flash_Init dev st)))"
  by (simp add: flash_ready_def Flash_Init_def Let_def prog_size)

lemma end_word: "unat (FLASH_END dev + 1) = Suc (unat (FLASH_END dev))"
  using end_small by (subst unat_add_small) simp_all

lemma total_word:
  "unat (FLASH_END dev - FLASH_BASE dev + 1) = Suc (unat (FLASH_END dev) - unat (FLASH_BASE dev))"
proof -
  have "unat (FLASH_END dev - FLASH_BASE dev) = unat (FLASH_END dev) - unat (FLASH_BASE dev)"
    using bank2_base by (intro unat_sub_small) simp
  then show ?thesis using end_small by (subst unat_add_small) simp_all
qed

lemma ready_not_zero: "flash_ready dev info \<Longrightarrow> total_size info \<noteq> 0"
  using total_word by (metis flash_ready_def nat.distinct(1) unat_0)

lemma address_range:
  assumes "flash_ready dev info"
  shows "\<not> (0 = len \<or> len > UINT32_MAX) \<and> \<not> (addr < base_addr info \<or> total_size info < len) \<and>
      \<not> (addr > UINT32_MAX - len \<or> end_addr info < addr + len) \<longleftrightarrow>
    0 < unat len \<and> in_flash dev addr (unat len)"
proof -
  have no_wrap: "\<not> addr > UINT32_MAX - len \<longleftrightarrow> unat addr + unat len \<le> 4294967295"
    using unat_u32_le_max [of len] by (auto simp: word_less_nat_alt unat_u32_max_minus)
  have "unat addr + unat len \<le> 4294967295 \<Longrightarrow> unat (addr + len) = unat addr + unat len"
    by (simp add: unat_add_small)
  moreover have "0 = len \<longleftrightarrow> unat len = 0"
    by (metis unat_0_iff)
  moreover have "\<not> len > UINT32_MAX" by (simp add: not_less)
  ultimately show ?thesis
    using no_wrap end_small assms
    by (auto simp: flash_ready_def in_flash_def word_less_nat_alt end_word total_word not_less)
qed

lemma AddressCheck_read:
  "flash_ready dev info \<Longrightarrow>
   AddressCheck info addr len FLASH_ACCESS_TYPE_READ = FLASH_E_OK \<longleftrightarrow>
     0 < unat len \<and> in_flash dev addr (unat len)"
  using address_range [of info len addr] by (auto simp: AddressCheck_def)

lemma mod_0_dvd: "x mod y = 0 \<longleftrightarrow> unat y dvd unat x" for x y :: u32
  by (metis dvd_eq_mod_eq_0 unat_0_iff unat_mod)

lemma AddressCheck_erase:
  "flash_ready dev info \<Longrightarrow>
   AddressCheck info addr len FLASH_ACCESS_TYPE_ERASE = FLASH_E_OK \<longleftrightarrow>
     0 < unat len \<and> in_flash dev addr (unat len) \<and> unat (FLASH_SECTOR_SIZE dev) dvd unat addr \<and>
     unat (FLASH_SECTOR_SIZE dev) dvd unat len"
  using address_range [of info len addr]
  by (auto simp: AddressCheck_def flash_ready_def mod_0_dvd word_less_nat_alt not_less dest: dvd_imp_le)

lemma AddressCheck_write:
  "flash_ready dev info \<Longrightarrow>
   AddressCheck info addr len FLASH_ACCESS_TYPE_WRITE = FLASH_E_OK \<longleftrightarrow>
     0 < unat len \<and> in_flash dev addr (unat len) \<and> unat (FLASH_FLASHWORD_SIZE dev) dvd unat addr \<and>
     unat (FLASH_FLASHWORD_SIZE dev) dvd unat len"
  using address_range [of info len addr] flashword_pos
  by (auto simp: AddressCheck_def flash_ready_def mod_0_dvd)

end

section \<open>Erasing\<close>

definition flash_same_outside ::
  "'h flash_device \<Rightarrow> ('h \<Rightarrow> u32 \<Rightarrow> bool) \<Rightarrow> u32 \<Rightarrow> nat \<Rightarrow> 'h \<Rightarrow> 'h \<Rightarrow> bool" where
  "flash_same_outside dev erased a n h h' \<longleftrightarrow>
     (\<forall>x. \<not> in_range x a n \<longrightarrow> flash_mem dev h' x = flash_mem dev h x \<and> erased h' x = erased h x)"

lemma flash_same_outside_refl [simp]: "flash_same_outside dev erased a n h h"
  by (simp add: flash_same_outside_def)

lemma flash_same_outside_trans:
  "flash_same_outside dev erased a n h h' \<Longrightarrow> flash_same_outside dev erased a n h' h'' \<Longrightarrow>
   flash_same_outside dev erased a n h h''"
  by (auto simp: flash_same_outside_def)

lemma flash_same_outside_within:
  "flash_same_outside dev erased (a + of_nat i) k h h' \<Longrightarrow> i + k \<le> n \<Longrightarrow> n \<le> 4294967296 \<Longrightarrow>
   flash_same_outside dev erased a n h h'"
  by (auto simp: flash_same_outside_def dest: in_range_within)

lemma flash_same_outside_before:
  "flash_same_outside dev erased (a + of_nat i) k h h' \<Longrightarrow> i + k \<le> 4294967296 \<Longrightarrow> in_range x a i \<Longrightarrow>
   flash_mem dev h' x = flash_mem dev h x \<and> erased h' x = erased h x"
  using in_range_disjoint [of i k x a] by (auto simp: flash_same_outside_def)

context flash_geometry
begin

lemma offset_address:
  assumes "in_flash dev addr n" "i \<le> n"
  shows "unat (addr + of_nat i) = unat addr + i"
  using assms end_small by (subst unat_add_small) (simp_all add: in_flash_def)

lemma in_flash_offset: "in_flash dev addr n \<Longrightarrow> i + k \<le> n \<Longrightarrow> in_flash dev (addr + of_nat i) k"
  using offset_address [of addr n i] by (simp add: in_flash_def)

lemma in_flash_bound: "in_flash dev addr n \<Longrightarrow> n < 4294967296"
  using end_small by (simp add: in_flash_def)

lemma sector_of:
  assumes "unat (FLASH_SECTOR_SIZE dev) dvd unat bank" "unat (FLASH_SECTOR_SIZE dev) dvd unat addr"
    "unat bank \<le> unat addr"
  shows "unat ((addr - bank) div FLASH_SECTOR_SIZE dev) * unat (FLASH_SECTOR_SIZE dev) = unat addr - unat bank"
    "bank + (addr - bank) div FLASH_SECTOR_SIZE dev * FLASH_SECTOR_SIZE dev = addr"
proof -
  have sub: "unat (addr - bank) = unat addr - unat bank"
    using assms(3) by (rule unat_sub_small)
  have "unat (FLASH_SECTOR_SIZE dev) dvd unat addr - unat bank"
    using assms(1,2) by (simp add: dvd_diff_nat)
  then show mult: "unat ((addr - bank) div FLASH_SECTOR_SIZE dev) * unat (FLASH_SECTOR_SIZE dev) =
      unat addr - unat bank"
    by (simp add: unat_div sub)
  have "unat ((addr - bank) div FLASH_SECTOR_SIZE dev * FLASH_SECTOR_SIZE dev) = unat (addr - bank)"
    using mult sub unat_u32_bound [of addr] by (subst unat_mult_small) simp_all
  then show "bank + (addr - bank) div FLASH_SECTOR_SIZE dev * FLASH_SECTOR_SIZE dev = addr"
    by (simp add: word_unat_eq_iff [symmetric])
qed

text \<open>What \<open>Flash_EraseSector\<close> asks of the HAL for an aligned address inside the flash.\<close>

lemma erase_sector_request:
  assumes "flash_ready dev (Info st)" "in_flash dev addr (unat (FLASH_SECTOR_SIZE dev))"
    "unat (FLASH_SECTOR_SIZE dev) dvd unat addr"
  shows "\<exists>ini. erase_request dev ini \<and> erase_start dev ini = addr \<and>
    Flash_EraseSector dev addr st =
      (let (r, h) = HAL_FLASHEx_Erase dev ini (hw st)
       in (if HAL_OK \<noteq> r then FLASH_E_HW else FLASH_E_OK, st\<lparr>EraseInitStruct := ini, hw := h\<rparr>))"
proof -
  let ?S = "unat (FLASH_SECTOR_SIZE dev)"
  have chk: "AddressCheck (Info st) addr (sector_size (Info st)) FLASH_ACCESS_TYPE_ERASE = FLASH_E_OK"
    using assms sector_pos by (simp add: AddressCheck_erase) (simp add: flash_ready_def)
  have rng: "\<not> (addr > UINT32_MAX - sector_size (Info st) \<or> addr + sector_size (Info st) > end_addr (Info st))"
    using address_range [OF assms(1), of "sector_size (Info st)" addr] assms sector_pos
    by (auto simp: flash_ready_def)
  have ss: "sector_size (Info st) = FLASH_SECTOR_SIZE dev" using assms(1) by (simp add: flash_ready_def)
  define ini0 where "ini0 = (EraseInitStruct st)\<lparr>TypeErase := FLASH_TYPEERASE_SECTORS dev\<rparr>"
  show ?thesis
  proof (cases "addr < FLASH_BANK2_BASE dev")
    case True
    define ini where "ini = ini0\<lparr>Banks := FLASH_BANK_1 dev,
      Sector := (addr - FLASH_BANK1_BASE dev) div FLASH_SECTOR_SIZE dev,
      NbSectors := 1, VoltageRange := FLASH_VOLTAGE_RANGE_4 dev\<rparr>"
    have ge: "unat (FLASH_BANK1_BASE dev) \<le> unat addr" using assms(2) by (simp add: in_flash_def bank1_base)
    note sec = sector_of [OF _ assms(3) ge]
    have lt: "unat addr < unat (FLASH_BANK2_BASE dev)" using True by (simp add: word_less_nat_alt)
    then obtain k where k: "unat (FLASH_BANK2_BASE dev) - unat addr = ?S * k" "k \<noteq> 0"
      using dvd_diff_nat [OF sectors(2) assms(3)] by (metis dvdE mult_0_right zero_less_diff less_irrefl)
    then have "unat addr + ?S \<le> unat (FLASH_BANK2_BASE dev)" using lt by (cases k) auto
    then have "erase_request dev ini"
      using sec(1) sectors(1) ge by (simp add: erase_request_def ini_def ini0_def bank1_base algebra_simps)
    moreover have "erase_start dev ini = addr"
      using sec(2) sectors(1) by (simp add: erase_start_def ini_def bank1_base)
    moreover have "addr \<ge> FLASH_BANK1_BASE dev" using ge by (simp add: word_le_nat_alt)
    ultimately show ?thesis
      using True chk rng by (intro exI [of _ ini])
        (simp add: Flash_EraseSector_def Let_def ss ini_def ini0_def)
  next
    case False
    define ini where "ini = ini0\<lparr>Banks := FLASH_BANK_2 dev,
      Sector := (addr - FLASH_BANK2_BASE dev) div FLASH_SECTOR_SIZE dev,
      NbSectors := 1, VoltageRange := FLASH_VOLTAGE_RANGE_4 dev\<rparr>"
    have ge: "unat (FLASH_BANK2_BASE dev) \<le> unat addr" using False by (simp add: word_le_nat_alt not_less)
    note sec = sector_of [OF sectors(2) assms(3) ge]
    have "erase_request dev ini"
      using sec(1) ge assms(2) by (simp add: erase_request_def ini_def ini0_def in_flash_def algebra_simps)
    moreover have "erase_start dev ini = addr"
      using sec(2) bank_codes by (auto simp: erase_start_def ini_def)
    moreover have "addr \<ge> FLASH_BANK2_BASE dev" "addr \<le> FLASH_END dev"
      using ge assms(2) sector_pos by (simp_all add: word_le_nat_alt in_flash_def)
    ultimately show ?thesis
      using False chk rng bank_codes by (intro exI [of _ ini])
        (simp add: Flash_EraseSector_def Let_def ss ini_def ini0_def)
  qed
qed

end

context flash_hal
begin

lemma erase_sector_ok:
  assumes "flash_ready dev (Info st)" "hal_ok (hw st)" "in_flash dev addr (unat (FLASH_SECTOR_SIZE dev))"
    "unat (FLASH_SECTOR_SIZE dev) dvd unat addr" "Flash_EraseSector dev addr st = (r, st')"
  shows "Info st' = Info st" "hal_ok (hw st')"
    "flash_same_outside dev erased addr (unat (FLASH_SECTOR_SIZE dev)) (hw st) (hw st')"
    "r = FLASH_E_OK \<Longrightarrow> in_range x addr (unat (FLASH_SECTOR_SIZE dev)) \<Longrightarrow>
       erased (hw st') x \<and> flash_mem dev (hw st') x = 0xFF"
proof -
  obtain ini where ini: "erase_request dev ini" "erase_start dev ini = addr"
    "Flash_EraseSector dev addr st = (let (r, h) = HAL_FLASHEx_Erase dev ini (hw st)
       in (if HAL_OK \<noteq> r then FLASH_E_HW else FLASH_E_OK, st\<lparr>EraseInitStruct := ini, hw := h\<rparr>))"
    using erase_sector_request [OF assms(1,3,4)] by blast
  obtain hr h where h: "HAL_FLASHEx_Erase dev ini (hw st) = (hr, h)" by fastforce
  have st': "st' = st\<lparr>EraseInitStruct := ini, hw := h\<rparr>" "r = (if HAL_OK \<noteq> hr then FLASH_E_HW else FLASH_E_OK)"
    using ini(3) h assms(5) by simp_all
  show "Info st' = Info st" by (simp add: st')
  show "hal_ok (hw st')" "flash_same_outside dev erased addr (unat (FLASH_SECTOR_SIZE dev)) (hw st) (hw st')"
    using erase_frame [OF assms(2) ini(1) h] ini(2) by (simp_all add: st' flash_same_outside_def)
  show "erased (hw st') x \<and> flash_mem dev (hw st') x = 0xFF"
    if "r = FLASH_E_OK" "in_range x addr (unat (FLASH_SECTOR_SIZE dev))"
    using erase_done [OF assms(2) ini(1)] h that ini(2) by (simp add: st' split: if_splits)
qed

lemma flash_erase_loop_ok:
  assumes "flash_ready dev (Info st)" "hal_ok (hw st)" "in_flash dev addr (unat len)"
    "unat (FLASH_SECTOR_SIZE dev) dvd unat addr" "unat (FLASH_SECTOR_SIZE dev) dvd unat len"
    "unat (FLASH_SECTOR_SIZE dev) dvd unat off" "unat off \<le> unat len" "unat len - unat off \<le> fuel"
    "\<And>x. in_range x addr (unat off) \<Longrightarrow> erased (hw st) x \<and> flash_mem dev (hw st) x = 0xFF"
    "flash_erase_loop fuel dev addr len (FLASH_SECTOR_SIZE dev) off st = (r, st')"
  shows "Info st' = Info st \<and> hal_ok (hw st') \<and>
    flash_same_outside dev erased addr (unat len) (hw st) (hw st') \<and>
    (r = FLASH_E_OK \<longrightarrow> (\<forall>x. in_range x addr (unat len) \<longrightarrow>
      erased (hw st') x \<and> flash_mem dev (hw st') x = 0xFF))"
  using assms
proof (induction fuel arbitrary: off st)
  case 0
  then show ?case by simp
next
  case (Suc fuel)
  let ?S = "unat (FLASH_SECTOR_SIZE dev)"
  show ?case
  proof (cases "off < len")
    case False
    then show ?thesis using Suc.prems by (simp add: word_less_nat_alt not_less)
  next
    case True
    then have lt: "unat off < unat len" by (simp add: word_less_nat_alt)
    then have fit: "unat off + ?S \<le> unat len"
      using dvd_imp_le [OF dvd_diff_nat [OF Suc.prems(5,6)]] by simp
    obtain r1 st1 where s1: "Flash_EraseSector dev (addr + off) st = (r1, st1)" by fastforce
    have off: "of_nat (unat off) = off" by simp
    have addr: "unat (addr + off) = unat addr + unat off"
      using offset_address [OF Suc.prems(3), of "unat off"] lt by simp
    have inf: "in_flash dev (addr + off) ?S"
      using in_flash_offset [OF Suc.prems(3) fit] by simp
    have dvd: "?S dvd unat (addr + off)" using Suc.prems(4,6) by (simp add: addr)
    note e = erase_sector_ok [OF Suc.prems(1,2) inf dvd s1]
    have bound: "unat len < 4294967296" by (rule unat_u32_bound)
    have same: "flash_same_outside dev erased addr (unat len) (hw st) (hw st1)"
      using flash_same_outside_within [of dev erased addr "unat off" ?S] e(3) fit bound by simp
    show ?thesis
    proof (cases "r1 = FLASH_E_OK")
      case False
      then show ?thesis using Suc.prems(10) s1 True e same by auto
    next
      case ok: True
      have off': "unat (off + FLASH_SECTOR_SIZE dev) = unat off + ?S"
        using fit bound by (subst unat_add_small) simp_all
      have gone: "erased (hw st1) x \<and> flash_mem dev (hw st1) x = 0xFF"
        if "in_range x addr (unat (off + FLASH_SECTOR_SIZE dev))" for x
      proof -
        have "in_range x addr (unat off) \<or> in_range x (addr + off) ?S"
          using that in_range_split [of "unat off" ?S x addr] fit bound by (simp add: off')
        then show ?thesis
          using e(4) [OF ok] Suc.prems(9) flash_same_outside_before [of dev erased addr "unat off" ?S] e(3) fit bound
          by auto
      qed
      have "flash_erase_loop fuel dev addr len (FLASH_SECTOR_SIZE dev) (off + FLASH_SECTOR_SIZE dev) st1 = (r, st')"
        using Suc.prems(10) s1 True ok by simp
      from Suc.IH [OF _ e(2) Suc.prems(3-5) _ _ _ gone this] Suc.prems(1,6,8) e(1) fit lt sector_pos
      have "Info st' = Info st1 \<and> hal_ok (hw st') \<and>
        flash_same_outside dev erased addr (unat len) (hw st1) (hw st') \<and>
        (r = FLASH_E_OK \<longrightarrow> (\<forall>x. in_range x addr (unat len) \<longrightarrow>
          erased (hw st') x \<and> flash_mem dev (hw st') x = 0xFF))"
        by (simp add: off')
      then show ?thesis using same e(1) flash_same_outside_trans by metis
    qed
  qed
qed

lemma flash_erase_ok:
  assumes "flash_ready dev (Info st)" "hal_ok (hw st)" "Flash_Erase dev addr len st = (r, st')"
  shows "Info st' = Info st" "hal_ok (hw st')"
    "flash_same_outside dev erased addr (unat len) (hw st) (hw st')"
    "r = FLASH_E_OK \<Longrightarrow> in_range x addr (unat len) \<Longrightarrow>
      erased (hw st') x \<and> flash_mem dev (hw st') x = 0xFF"
    "r = FLASH_E_OK \<Longrightarrow> in_flash dev addr (unat len)"
proof -
  have nz: "total_size (Info st) \<noteq> 0" by (rule ready_not_zero [OF assms(1)])
  have ss: "sector_size (Info st) = FLASH_SECTOR_SIZE dev" using assms(1) by (simp add: flash_ready_def)
  have "Info st' = Info st \<and> hal_ok (hw st') \<and>
      flash_same_outside dev erased addr (unat len) (hw st) (hw st') \<and>
      (r = FLASH_E_OK \<longrightarrow> in_flash dev addr (unat len) \<and> (\<forall>x. in_range x addr (unat len) \<longrightarrow>
        erased (hw st') x \<and> flash_mem dev (hw st') x = 0xFF))"
  proof (cases "AddressCheck (Info st) addr len FLASH_ACCESS_TYPE_ERASE = FLASH_E_OK")
    case False
    then show ?thesis using assms nz by (auto simp: Flash_Erase_def Let_def)
  next
    case True
    then have a: "in_flash dev addr (unat len)" "unat (FLASH_SECTOR_SIZE dev) dvd unat addr"
      "unat (FLASH_SECTOR_SIZE dev) dvd unat len"
      using assms(1) by (simp_all add: AddressCheck_erase)
    have "flash_erase_loop (unat len) dev addr len (FLASH_SECTOR_SIZE dev) 0 st = (r, st')"
      using assms(3) nz True by (simp add: Flash_Erase_def Let_def ss)
    from flash_erase_loop_ok [OF assms(1,2) a _ _ _ _ this] a(1) show ?thesis
      by (simp add: in_range_def)
  qed
  then show "Info st' = Info st" "hal_ok (hw st')"
    "flash_same_outside dev erased addr (unat len) (hw st) (hw st')"
    "r = FLASH_E_OK \<Longrightarrow> in_range x addr (unat len) \<Longrightarrow>
      erased (hw st') x \<and> flash_mem dev (hw st') x = 0xFF"
    "r = FLASH_E_OK \<Longrightarrow> in_flash dev addr (unat len)" by auto
qed

end

section \<open>Programming\<close>

context flash_hal
begin

text \<open>\<open>got\<close> is how many bytes the rounds so far have stored.\<close>

lemma flash_write_loop_ok:
  assumes "hal_ok (hw st)" "in_flash dev addr (unat len)" "length src = unat len"
    "unat (FLASH_FLASHWORD_SIZE dev) dvd unat addr" "unat (FLASH_FLASHWORD_SIZE dev) dvd unat len"
    "unat (FLASH_FLASHWORD_SIZE dev) dvd unat off" "unat off \<le> unat len" "unat len - unat off \<le> fuel"
    "flash_write_loop fuel dev addr src len off r0 st = (r, st')"
  shows "Info st' = Info st \<and> hal_ok (hw st') \<and>
    flash_same_outside dev erased addr (unat len) (hw st) (hw st') \<and>
    (r = HAL_OK \<longrightarrow> (\<forall>x. in_range x (addr + off) (unat len - unat off) \<longrightarrow> erased (hw st) x) \<longrightarrow>
      mem_read (flash_mem dev (hw st)) addr (unat off) = take (unat off) src \<longrightarrow>
      mem_read (flash_mem dev (hw st')) addr (unat len) = src)"
  using assms
proof (induction fuel arbitrary: off r0 st)
  case 0
  then show ?case by simp
next
  case (Suc fuel)
  let ?F = "unat (FLASH_FLASHWORD_SIZE dev)"
  show ?case
  proof (cases "off < len")
    case False
    then show ?thesis using Suc.prems by (simp add: word_less_nat_alt not_less)
  next
    case True
    then have lt: "unat off < unat len" by (simp add: word_less_nat_alt)
    then have fit: "unat off + ?F \<le> unat len"
      using dvd_imp_le [OF dvd_diff_nat [OF Suc.prems(5,6)]] by simp
    let ?bs = "buf_read src (unat off) ?F"
    obtain r1 h1 where p: "HAL_FLASH_Program dev (FLASH_TYPEPROGRAM_FLASHWORD dev) (addr + off) ?bs (hw st) = (r1, h1)"
      by fastforce
    have addr: "unat (addr + off) = unat addr + unat off"
      using offset_address [OF Suc.prems(2), of "unat off"] lt by simp
    have inf: "in_flash dev (addr + off) ?F"
      using in_flash_offset [OF Suc.prems(2) fit] by simp
    have dvd: "?F dvd unat (addr + off)" using Suc.prems(4,6) by (simp add: addr)
    have len: "length ?bs = ?F" using fit Suc.prems(3) by simp
    note frame = program_frame [OF Suc.prems(1) inf dvd len p]
    have bound: "unat len < 4294967296" by (rule unat_u32_bound)
    have "flash_same_outside dev erased (addr + of_nat (unat off)) ?F (hw st) h1"
      using frame by (simp add: flash_same_outside_def)
    note step = this
    have same: "flash_same_outside dev erased addr (unat len) (hw st) h1"
      by (rule flash_same_outside_within [OF step fit]) (use bound in simp)
    show ?thesis
    proof (cases "r1 = HAL_OK")
      case False
      then show ?thesis using Suc.prems(9) p True frame same by auto
    next
      case ok: True
      have off': "unat (off + FLASH_FLASHWORD_SIZE dev) = unat off + ?F"
        using fit bound by (subst unat_add_small) simp_all
      have run: "flash_write_loop fuel dev addr src len (off + FLASH_FLASHWORD_SIZE dev) HAL_OK (st\<lparr>hw := h1\<rparr>) = (r, st')"
        using Suc.prems(9) p True ok by simp
      have IH: "Info st' = Info st \<and> hal_ok (hw st') \<and>
        flash_same_outside dev erased addr (unat len) h1 (hw st') \<and>
        (r = HAL_OK \<longrightarrow> (\<forall>x. in_range x (addr + off + FLASH_FLASHWORD_SIZE dev) (unat len - (unat off + ?F)) \<longrightarrow> erased h1 x) \<longrightarrow>
          mem_read (flash_mem dev h1) addr (unat off + ?F) = take (unat off + ?F) src \<longrightarrow>
          mem_read (flash_mem dev (hw st')) addr (unat len) = src)"
        using Suc.IH [OF _ Suc.prems(2-5) _ _ _ run] frame Suc.prems(6,8) fit flashword_pos
        by (simp add: off' ac_simps)
      moreover have "mem_read (flash_mem dev h1) addr (unat off + ?F) = take (unat off + ?F) src"
        if er: "\<forall>x. in_range x (addr + off) (unat len - unat off) \<longrightarrow> erased (hw st) x"
          and pre: "mem_read (flash_mem dev (hw st)) addr (unat off) = take (unat off) src"
      proof -
        have "mem_read (flash_mem dev h1) (addr + off) ?F = ?bs"
        proof (rule program_done [OF Suc.prems(1) inf dvd len])
          show "HAL_FLASH_Program dev (FLASH_TYPEPROGRAM_FLASHWORD dev) (addr + off) ?bs (hw st) = (HAL_OK, h1)"
            using p ok by simp
          show "\<And>x. in_range x (addr + off) ?F \<Longrightarrow> erased (hw st) x"
            using er fit by (auto dest: in_range_mono [where n = "unat len - unat off"])
        qed
        moreover have "mem_read (flash_mem dev h1) addr (unat off) = mem_read (flash_mem dev (hw st)) addr (unat off)"
        proof (rule mem_read_cong)
          fix i assume "i < unat off"
          then have "in_range (addr + of_nat i) addr (unat off)"
            using lt bound by (intro in_range_offset) simp_all
          then show "flash_mem dev h1 (addr + of_nat i) = flash_mem dev (hw st) (addr + of_nat i)"
            using flash_same_outside_before [OF step] fit bound by simp
        qed
        ultimately show ?thesis
          using pre by (simp add: mem_read_append buf_read_def take_add)
      qed
      moreover have "erased h1 x"
        if er: "\<forall>x. in_range x (addr + off) (unat len - unat off) \<longrightarrow> erased (hw st) x"
          and x: "in_range x (addr + off + FLASH_FLASHWORD_SIZE dev) (unat len - (unat off + ?F))" for x
      proof -
        have "in_range x (addr + off) (unat len - unat off)" "\<not> in_range x (addr + off) ?F"
          using in_range_tail [of x "addr + off" "FLASH_FLASHWORD_SIZE dev" "unat len - unat off"] x fit bound
          by simp_all
        then show ?thesis using er step by (simp add: flash_same_outside_def)
      qed
      moreover have "flash_same_outside dev erased addr (unat len) (hw st) (hw st')"
        by (rule flash_same_outside_trans [OF same]) (use IH in simp)
      ultimately show ?thesis by blast
    qed
  qed
qed

lemma flash_write_ok:
  assumes "flash_ready dev (Info st)" "hal_ok (hw st)" "length bs = unat len"
    "Flash_Write dev addr (Some (s, bs)) len st = (r, st')"
  shows "Info st' = Info st" "hal_ok (hw st')"
    "flash_same_outside dev erased addr (unat len) (hw st) (hw st')"
    "r = FLASH_E_OK \<Longrightarrow> in_flash dev addr (unat len)"
    "r = FLASH_E_OK \<Longrightarrow> (\<And>x. in_range x addr (unat len) \<Longrightarrow> erased (hw st) x) \<Longrightarrow>
      mem_read (flash_mem dev (hw st')) addr (unat len) = bs"
proof -
  have "Info st' = Info st \<and> hal_ok (hw st') \<and>
      flash_same_outside dev erased addr (unat len) (hw st) (hw st') \<and>
      (r = FLASH_E_OK \<longrightarrow> in_flash dev addr (unat len) \<and>
        ((\<forall>x. in_range x addr (unat len) \<longrightarrow> erased (hw st) x) \<longrightarrow>
          mem_read (flash_mem dev (hw st')) addr (unat len) = bs))"
  proof (cases "AddressCheck (Info st) addr len FLASH_ACCESS_TYPE_WRITE = FLASH_E_OK \<and>
      \<not> (s mod source_alignment (Info st) \<noteq> 0 \<or> len mod prog_size_min (Info st) \<noteq> 0 \<or>
         len mod FLASH_FLASHWORD_SIZE dev \<noteq> 0)")
    case False
    then show ?thesis using assms(2,4) by (auto simp: Flash_Write_def Let_def split: if_splits)
  next
    case True
    then have a: "in_flash dev addr (unat len)" "unat (FLASH_FLASHWORD_SIZE dev) dvd unat addr"
      "unat (FLASH_FLASHWORD_SIZE dev) dvd unat len"
      using assms(1) by (simp_all add: AddressCheck_write)
    obtain hr st1 where run: "flash_write_loop (unat len) dev addr bs len 0 HAL_ERROR st = (hr, st1)"
      by fastforce
    have "\<not> len > UINT32_MAX" by (simp add: not_less)
    then have "st' = st1" "r = FLASH_E_OK \<longleftrightarrow> hr = HAL_OK"
      using assms(4) True run by (auto simp: Flash_Write_def Let_def split: if_splits)
    then show ?thesis
      using flash_write_loop_ok [OF assms(2) a(1) assms(3) a(2,3) _ _ _ run] a(1) by simp
  qed
  then show "Info st' = Info st" "hal_ok (hw st')"
    "flash_same_outside dev erased addr (unat len) (hw st) (hw st')"
    "r = FLASH_E_OK \<Longrightarrow> in_flash dev addr (unat len)"
    "r = FLASH_E_OK \<Longrightarrow> (\<And>x. in_range x addr (unat len) \<Longrightarrow> erased (hw st) x) \<Longrightarrow>
      mem_read (flash_mem dev (hw st')) addr (unat len) = bs" by auto
qed

lemma flash_read_ok:
  "flash_ready dev (Info st) \<Longrightarrow> Flash_Read dev addr True len st = (r, out) \<Longrightarrow>
   (r = FLASH_E_OK \<longleftrightarrow> 0 < unat len \<and> in_flash dev addr (unat len)) \<and>
   (r = FLASH_E_OK \<longrightarrow> out = Some (mem_read (flash_mem dev (hw st)) addr (unat len)))"
  using AddressCheck_read [of "Info st" addr len] by (auto simp: Flash_Read_def Let_def split: if_splits)

end

section \<open>The HAL stub of the bootloader tests\<close>

text \<open>\<open>tests/bootloader/hal_flash_stubs.c\<close> with the constants of \<open>flash_test_config.h\<close> and
  \<open>stm32h745xx.h\<close>: a RAM array of 4 MiB at address 0, filled with \<open>0xFF\<close> on first use.  A byte
  counts as erased when it reads \<open>0xFF\<close>.\<close>

record hal_stub =
  test_flash :: memory
  test_flash_initialized :: bool

definition TestFlashMemory_BoundsOk :: "nat \<Rightarrow> nat \<Rightarrow> nat \<Rightarrow> nat \<Rightarrow> bool" where
  "TestFlashMemory_BoundsOk base msize addr len \<longleftrightarrow>
     len \<noteq> 0 \<and> base \<le> addr \<and> addr \<le> 4294967295 \<and> (addr - base) + len \<le> msize"

definition stub_first_use :: "hal_stub \<Rightarrow> hal_stub" where
  "stub_first_use h = (if \<not> test_flash_initialized h
     then \<lparr>test_flash = (\<lambda>_. 0xFF), test_flash_initialized = True\<rparr> else h)"

definition stub_program :: "u32 \<Rightarrow> u32 \<Rightarrow> bytes \<Rightarrow> hal_stub \<Rightarrow> HAL_StatusTypeDef \<times> hal_stub" where
  "stub_program type addr src h =
     (if \<not> TestFlashMemory_BoundsOk 0 4194304 (unat addr) 32 then (HAL_ERROR, h)
      else let h = stub_first_use h
           in (HAL_OK, h\<lparr>test_flash := mem_write (test_flash h) addr (take 32 src)\<rparr>))"

definition stub_erase :: "FLASH_EraseInitTypeDef \<Rightarrow> hal_stub \<Rightarrow> HAL_StatusTypeDef \<times> hal_stub" where
  "stub_erase ini h =
     (if Banks ini \<noteq> 1 \<and> Banks ini \<noteq> 2 then (HAL_ERROR, h)
      else
        let bank_base = (if Banks ini = 1 then 0 else 2097152 :: nat);
            start_addr = bank_base + unat (Sector ini) * 131072;
            total_len = unat (NbSectors ini * 131072)
        in if \<not> TestFlashMemory_BoundsOk 0 4194304 start_addr total_len then (HAL_ERROR, h)
           else let h = stub_first_use h
                in (HAL_OK, h\<lparr>test_flash := mem_write (test_flash h) (of_nat start_addr) (replicate total_len 0xFF)\<rparr>))"

definition stub_device :: "hal_stub flash_device" where
  "stub_device = \<lparr>FLASH_BASE = 0, FLASH_END = 4194303, FLASH_SIZE = 4194304,
     FLASH_SECTOR_SIZE = 131072, FLASH_BANK1_BASE = 0, FLASH_BANK2_BASE = 2097152,
     FLASH_NB_32BITWORD_IN_FLASHWORD = 8, FLASH_BANK_1 = 1, FLASH_BANK_2 = 2,
     FLASH_TYPEERASE_SECTORS = 2, FLASH_VOLTAGE_RANGE_4 = 4, FLASH_TYPEPROGRAM_FLASHWORD = 1,
     HAL_FLASH_Unlock = (\<lambda>h. (HAL_OK, h)), HAL_FLASH_Program = stub_program,
     HAL_FLASHEx_Erase = stub_erase, flash_mem = test_flash\<rparr>"

lemma stub_flashword [simp]: "FLASH_FLASHWORD_SIZE stub_device = 32"
  by (simp add: FLASH_FLASHWORD_SIZE_def stub_device_def)

lemma mem_write_outside [simp]: "\<not> in_range x a (length bs) \<Longrightarrow> mem_write m a bs x = m x"
  by (simp add: mem_write_def in_range_def)

lemma mem_read_write: "length bs \<le> 4294967296 \<Longrightarrow> mem_read (mem_write m a bs) a (length bs) = bs"
  by (rule nth_equalityI) (simp_all add: mem_write_def)

lemma stub_erase_start:
  assumes "erase_request stub_device ini"
  shows "stub_erase ini h = (let h = stub_first_use h in
      (HAL_OK, h\<lparr>test_flash := mem_write (test_flash h) (erase_start stub_device ini) (replicate 131072 0xFF)\<rparr>))"
proof -
  have "of_nat (unat (Sector ini)) = Sector ini" by simp
  then show ?thesis
    using assms by (auto simp: stub_erase_def erase_request_def stub_device_def erase_start_def Let_def
        TestFlashMemory_BoundsOk_def)
qed

interpretation stub_hal: flash_hal stub_device test_flash_initialized "\<lambda>h x. test_flash h x = 0xFF"
proof unfold_locales
  fix h h' :: hal_stub and r ini x
  assume h: "test_flash_initialized h" and req: "erase_request stub_device ini"
  let ?a = "erase_start stub_device ini" and ?n = "unat (FLASH_SECTOR_SIZE stub_device)"
  have run: "HAL_FLASHEx_Erase stub_device ini h =
      (HAL_OK, h\<lparr>test_flash := mem_write (test_flash h) ?a (replicate 131072 0xFF)\<rparr>)"
    using stub_erase_start [OF req, of h] h by (simp add: stub_first_use_def Let_def) (simp add: stub_device_def)
  have n: "?n = 131072" by (simp add: stub_device_def)
  show "test_flash_initialized h' \<and> (\<forall>x. \<not> in_range x ?a ?n \<longrightarrow>
      flash_mem stub_device h' x = flash_mem stub_device h x \<and> (test_flash h' x = 0xFF) = (test_flash h x = 0xFF))"
    if "HAL_FLASHEx_Erase stub_device ini h = (r, h')"
    using that run h by (auto simp: n stub_device_def)
  show "test_flash h' x = 0xFF \<and> flash_mem stub_device h' x = 0xFF"
    if "HAL_FLASHEx_Erase stub_device ini h = (HAL_OK, h')" "in_range x ?a ?n"
    using that run by (auto simp: n stub_device_def mem_write_def in_range_def)
next
  fix h h' :: hal_stub and r a and bs :: bytes
  assume h: "test_flash_initialized h" and inf: "in_flash stub_device a (unat (FLASH_FLASHWORD_SIZE stub_device))"
    and len: "length bs = unat (FLASH_FLASHWORD_SIZE stub_device)"
  have run: "HAL_FLASH_Program stub_device (FLASH_TYPEPROGRAM_FLASHWORD stub_device) a bs h =
      (HAL_OK, h\<lparr>test_flash := mem_write (test_flash h) a bs\<rparr>)"
    using inf len h by (simp add: stub_device_def stub_program_def in_flash_def TestFlashMemory_BoundsOk_def
        stub_first_use_def FLASH_FLASHWORD_SIZE_def)
  show "test_flash_initialized h' \<and> (\<forall>x. \<not> in_range x a (unat (FLASH_FLASHWORD_SIZE stub_device)) \<longrightarrow>
      flash_mem stub_device h' x = flash_mem stub_device h x \<and> (test_flash h' x = 0xFF) = (test_flash h x = 0xFF))"
    if "HAL_FLASH_Program stub_device (FLASH_TYPEPROGRAM_FLASHWORD stub_device) a bs h = (r, h')"
    using that run h len by (auto simp: stub_device_def)
  show "mem_read (flash_mem stub_device h') a (unat (FLASH_FLASHWORD_SIZE stub_device)) = bs"
    if "HAL_FLASH_Program stub_device (FLASH_TYPEPROGRAM_FLASHWORD stub_device) a bs h = (HAL_OK, h')"
  proof -
    have "flash_mem stub_device h' = mem_write (test_flash h) a bs"
      using that run by (simp add: stub_device_def)
    then show ?thesis using len mem_read_write [of bs "test_flash h" a] by simp
  qed
qed (simp_all add: stub_device_def FLASH_FLASHWORD_SIZE_def)

section \<open>Properties\<close>

definition stub_state :: "hal_stub flash_state" where
  "stub_state = snd (Flash_Init stub_device
     \<lparr>EraseInitStruct = \<lparr>TypeErase = 0, Banks = 0, Sector = 0, NbSectors = 0, VoltageRange = 0\<rparr>,
      Info = \<lparr>base_addr = 0, end_addr = 0, total_size = 0, write_alignment = 0, erase_size_min = 0,
        prog_size_min = 0, page_size = 0, sector_size = 0, source_alignment = 0,
        requires_explicit_erase = False\<rparr>,
      hw = \<lparr>test_flash = (\<lambda>_. 0), test_flash_initialized = True\<rparr>\<rparr>)"

lemma stub_state_ready:
  "flash_ready stub_device (Info stub_state)" "test_flash_initialized (hw stub_state)"
  using stub_hal.flash_ready_Init by (auto simp: stub_state_def)
    (simp add: Flash_Init_def Let_def stub_device_def)

text \<open>After \<open>Flash_Init\<close> the address check accepts exactly the nonempty ranges that lie
  inside the flash and do not wrap, with sector-aligned address and length for an erase and
  flashword-aligned address and length for a write.\<close>

theorem address_check_exact:
  assumes "flash_geometry dev" "flash_ready dev info"
  shows "(AddressCheck info addr len FLASH_ACCESS_TYPE_READ = FLASH_E_OK \<longleftrightarrow>
      0 < unat len \<and> in_flash dev addr (unat len)) \<and>
    (AddressCheck info addr len FLASH_ACCESS_TYPE_ERASE = FLASH_E_OK \<longleftrightarrow>
      0 < unat len \<and> in_flash dev addr (unat len) \<and> unat (FLASH_SECTOR_SIZE dev) dvd unat addr \<and>
      unat (FLASH_SECTOR_SIZE dev) dvd unat len) \<and>
    (AddressCheck info addr len FLASH_ACCESS_TYPE_WRITE = FLASH_E_OK \<longleftrightarrow>
      0 < unat len \<and> in_flash dev addr (unat len) \<and> unat (FLASH_FLASHWORD_SIZE dev) dvd unat addr \<and>
      unat (FLASH_FLASHWORD_SIZE dev) dvd unat len)"
  using assms flash_geometry.AddressCheck_read flash_geometry.AddressCheck_erase
    flash_geometry.AddressCheck_write by blast

theorem address_check_exact_witness:
  "AddressCheck (Info stub_state) 0x3E0000 0x20000 FLASH_ACCESS_TYPE_ERASE = FLASH_E_OK \<and>
   AddressCheck (Info stub_state) 0x3E0000 0x20001 FLASH_ACCESS_TYPE_READ \<noteq> FLASH_E_OK"
  using address_check_exact [OF stub_hal.flash_geometry_axioms stub_state_ready(1), of "0x3E0000" "0x20000"]
    address_check_exact [OF stub_hal.flash_geometry_axioms stub_state_ready(1), of "0x3E0000" "0x20001"]
  by (simp add: in_flash_def stub_device_def)

text \<open>C18. On any HAL that keeps its contract, an erase and a write into the erased range that
  both report success make \<open>Flash_Read\<close> return exactly the written bytes, and no byte outside
  the erased range changes.\<close>

theorem flash_erase_write_read:
  assumes "flash_hal dev hal_ok erased" "flash_ready dev (Info st)" "hal_ok (hw st)"
    and "Flash_Erase dev addr elen st = (FLASH_E_OK, st1)"
    and "Flash_Write dev addr (Some (s, bs)) len st1 = (FLASH_E_OK, st2)"
    and "length bs = unat len" "0 < unat len" "unat len \<le> unat elen"
  shows "Flash_Read dev addr True len st2 = (FLASH_E_OK, Some bs) \<and>
    (\<forall>x. \<not> in_range x addr (unat elen) \<longrightarrow> flash_mem dev (hw st2) x = flash_mem dev (hw st) x)"
proof -
  note e = flash_hal.flash_erase_ok [OF assms(1-4)]
  have r1: "flash_ready dev (Info st1)" using e(1) assms(2) by simp
  note w = flash_hal.flash_write_ok [OF assms(1) r1 e(2) assms(6,5)]
  have "mem_read (flash_mem dev (hw st2)) addr (unat len) = bs"
    using w(5) e(4) assms(8) by (blast intro: in_range_mono)
  moreover have "AddressCheck (Info st2) addr len FLASH_ACCESS_TYPE_READ = FLASH_E_OK"
    using flash_geometry.AddressCheck_read [OF flash_hal.axioms(1) [OF assms(1)], of "Info st2"] w(1,4) r1 assms(7)
    by simp
  moreover have "flash_mem dev (hw st2) x = flash_mem dev (hw st) x" if "\<not> in_range x addr (unat elen)" for x
  proof -
    have "\<not> in_range x addr (unat len)" using that assms(8) in_range_mono by blast
    then show ?thesis using that e(3) w(3) by (simp add: flash_same_outside_def)
  qed
  ultimately show ?thesis by (simp add: Flash_Read_def)
qed

lemma stub_erase_sector:
  assumes "flash_ready stub_device (Info st)" "in_flash stub_device addr 131072" "131072 dvd unat addr"
  shows "\<exists>st'. Flash_EraseSector stub_device addr st = (FLASH_E_OK, st') \<and> Info st' = Info st"
proof -
  have S: "unat (FLASH_SECTOR_SIZE stub_device) = 131072" by (simp add: stub_device_def)
  obtain ini where ini: "erase_request stub_device ini"
    "Flash_EraseSector stub_device addr st =
      (let (r, h) = HAL_FLASHEx_Erase stub_device ini (hw st)
       in (if HAL_OK \<noteq> r then FLASH_E_HW else FLASH_E_OK, st\<lparr>EraseInitStruct := ini, hw := h\<rparr>))"
    using stub_hal.erase_sector_request [OF assms(1)] assms(2,3) S by metis
  have "HAL_FLASHEx_Erase stub_device ini (hw st) = stub_erase ini (hw st)"
    by (simp add: stub_device_def)
  then show ?thesis using ini stub_erase_start [OF ini(1), of "hw st"] by (simp add: Let_def)
qed

theorem flash_erase_write_read_witness:
  "\<exists>st1 st2. Flash_Erase stub_device 0x200000 0x20000 stub_state = (FLASH_E_OK, st1) \<and>
     Flash_Write stub_device 0x200000 (Some (0x24000000, replicate 32 7)) 32 st1 = (FLASH_E_OK, st2) \<and>
     Flash_Read stub_device 0x200000 True 32 st2 = (FLASH_E_OK, Some (replicate 32 7))"
proof -
  note r = stub_state_ready
  have ss: "sector_size (Info stub_state) = 131072" "total_size (Info stub_state) = 4194304"
    using r(1) by (simp_all add: flash_ready_def stub_device_def)
  obtain st1 where s1: "Flash_EraseSector stub_device 0x200000 stub_state = (FLASH_E_OK, st1)"
    "Info st1 = Info stub_state"
    using stub_erase_sector [OF r(1), of "0x200000"] by (auto simp: in_flash_def stub_device_def)
  have loop: "flash_erase_loop n stub_device 0x200000 0x20000 131072 0 stub_state = (FLASH_E_OK, st1)"
    if "1 < n" for n
    using s1 less_imp_Suc_add [OF that] by auto
  have chk: "AddressCheck (Info stub_state) 0x200000 0x20000 FLASH_ACCESS_TYPE_ERASE = FLASH_E_OK"
    using address_check_exact [OF stub_hal.flash_geometry_axioms r(1), of "0x200000" "0x20000"]
    by (simp add: in_flash_def stub_device_def)
  have "Flash_Erase stub_device 0x200000 0x20000 stub_state =
      flash_erase_loop 131072 stub_device 0x200000 0x20000 131072 0 stub_state"
    using chk ss by (simp add: Flash_Erase_def Let_def)
  also have "\<dots> = (FLASH_E_OK, st1)" by (rule loop) simp
  finally have e: "Flash_Erase stub_device 0x200000 0x20000 stub_state = (FLASH_E_OK, st1)" .
  have r1: "flash_ready stub_device (Info st1)" using r(1) s1 by simp
  have chk1: "AddressCheck (Info st1) 0x200000 32 FLASH_ACCESS_TYPE_WRITE = FLASH_E_OK"
    using stub_hal.AddressCheck_write [OF r1, of "0x200000" 32]
    by (simp add: in_flash_def stub_device_def FLASH_FLASHWORD_SIZE_def)
  obtain h where prog: "HAL_FLASH_Program stub_device (FLASH_TYPEPROGRAM_FLASHWORD stub_device) 0x200000
      (replicate 32 7) (hw st1) = (HAL_OK, h)"
    by (simp add: stub_device_def stub_program_def TestFlashMemory_BoundsOk_def Let_def)
  have "flash_write_loop n stub_device 0x200000 (replicate 32 7) 32 0 HAL_ERROR st1 = (HAL_OK, st1\<lparr>hw := h\<rparr>)"
    if "1 < n" for n
    using prog less_imp_Suc_add [OF that] by (auto simp: buf_read_def)
  from this [of 32] have "\<exists>st2. Flash_Write stub_device 0x200000 (Some (0x24000000, replicate 32 7)) 32 st1 = (FLASH_E_OK, st2)"
    using chk1 r1 by (simp add: Flash_Write_def Let_def flash_ready_def)
  then obtain st2 where w: "Flash_Write stub_device 0x200000 (Some (0x24000000, replicate 32 7)) 32 st1 = (FLASH_E_OK, st2)" ..
  have "Flash_Read stub_device 0x200000 True 32 st2 = (FLASH_E_OK, Some (replicate 32 7))"
    using flash_erase_write_read [OF stub_hal.flash_hal_axioms r(1,2) e w] by simp
  with e w show ?thesis by blast
qed

end
