(* ===== verification/IapWriter.thy ===== *)
theory IapWriter
  imports Prelude
begin

text \<open>
  \<open>app/services/iap/IapWriter.c\<close>: writes a firmware image into the update slot chunk by chunk
  and verifies it by reading it back.  The storage callbacks are the record \<open>storage_ops\<close>, a
  field \<open>None\<close> is a \<open>NULL\<close> function pointer, and \<open>'s\<close> is everything the callbacks reach (their
  context and the hardware).  The locale \<open>storage\<close> is the contract of the callbacks: it is
  provided by \<open>IapFlashAdapter\<close> and by the RAM simulation of the tests.  The lemmas show that the
  context keeps its invariant, what a successful session leaves in the slot, and that the
  readback verification ends and compares the right hashes.
\<close>

section \<open>Storage callbacks\<close>

datatype IapWriterStorageStatusType =
  IAP_WRITER_STORAGE_E_OK | IAP_WRITER_STORAGE_E_PARAM | IAP_WRITER_STORAGE_E_RANGE |
  IAP_WRITER_STORAGE_E_ALIGN | IAP_WRITER_STORAGE_E_VERIFY | IAP_WRITER_STORAGE_E_IO

datatype IapWriterStatusType =
  IAP_WRITER_E_OK | IAP_WRITER_E_PARAM | IAP_WRITER_E_STATE | IAP_WRITER_E_RANGE |
  IAP_WRITER_E_ALIGN | IAP_WRITER_E_SEQUENCE | IAP_WRITER_E_STORAGE | IAP_WRITER_E_VERIFY |
  IAP_WRITER_E_CONFIG

definition IAP_WRITER_STORAGE_PROP_ERASE_SIZE :: u16 where "IAP_WRITER_STORAGE_PROP_ERASE_SIZE = 1"
definition IAP_WRITER_STORAGE_PROP_PROG_SIZE :: u16 where "IAP_WRITER_STORAGE_PROP_PROG_SIZE = 2"
definition IAP_WRITER_STORAGE_PROP_ALIGNMET :: u16 where "IAP_WRITER_STORAGE_PROP_ALIGNMET = 3"

text \<open>The source of a write is \<open>None\<close> for a \<open>NULL\<close> pointer; a read and a property query get
  whether their output pointer is given and return what they store there.\<close>

record 's storage_ops =
  so_erase :: "(u32 \<Rightarrow> size_t \<Rightarrow> 's \<Rightarrow> IapWriterStorageStatusType \<times> 's) option"
  so_write :: "(u32 \<Rightarrow> bytes option \<Rightarrow> size_t \<Rightarrow> 's \<Rightarrow> IapWriterStorageStatusType \<times> 's) option"
  so_read :: "(u32 \<Rightarrow> bool \<Rightarrow> size_t \<Rightarrow> 's \<Rightarrow> IapWriterStorageStatusType \<times> bytes \<times> 's) option"
  so_get_property :: "(u16 \<Rightarrow> bool \<Rightarrow> size_t \<Rightarrow> 's \<Rightarrow> IapWriterStorageStatusType \<times> u32 option \<times> 's) option"

record IapWriterConfigType =
  slot_addr :: u32
  slot_size :: u32
  erase_size :: u32
  prog_size :: u32

record 's IapWriterContextType =
  config :: IapWriterConfigType
  writer_ops :: "'s storage_ops"
  expected_size :: u32
  received_size :: u32
  payload_hash :: u32
  verify_hash :: u32
  verify_offset :: u32
  initialized :: bool
  active :: bool
  finalized :: bool
  verify_active :: bool
  slot_prepared :: bool

section \<open>Operations\<close>

definition IAP_WRITER_FNV1A_OFFSET_BASIS :: u32 where "IAP_WRITER_FNV1A_OFFSET_BASIS = 2166136261"
definition IAP_WRITER_FNV1A_PRIME :: u32 where "IAP_WRITER_FNV1A_PRIME = 16777619"
definition IAP_WRITER_VERIFY_BUF_SIZE :: size_t where "IAP_WRITER_VERIFY_BUF_SIZE = 256"

definition IapWriter_HashBytes :: "u32 \<Rightarrow> bytes \<Rightarrow> u32" where
  "IapWriter_HashBytes seed data =
     foldl (\<lambda>hash b. (hash XOR ucast b) * IAP_WRITER_FNV1A_PRIME) seed data"

definition IapWriter_IsAligned :: "u32 \<Rightarrow> u32 \<Rightarrow> bool" where
  "IapWriter_IsAligned val align \<longleftrightarrow> align \<noteq> 0 \<and> val mod align = 0"

definition IapWriter_RoundUp :: "u32 \<Rightarrow> u32 \<Rightarrow> u32 option" where
  "IapWriter_RoundUp val alignment =
     (if alignment = 0 then None
      else let r = val mod alignment
           in if r = 0 then Some val
              else if val > UINT32_MAX - (alignment - r) then None
              else Some (val + (alignment - r)))"

fun IapWriter_MapStorageError :: "IapWriterStorageStatusType \<Rightarrow> IapWriterStatusType" where
  "IapWriter_MapStorageError IAP_WRITER_STORAGE_E_OK = IAP_WRITER_E_OK"
| "IapWriter_MapStorageError IAP_WRITER_STORAGE_E_ALIGN = IAP_WRITER_E_ALIGN"
| "IapWriter_MapStorageError IAP_WRITER_STORAGE_E_RANGE = IAP_WRITER_E_RANGE"
| "IapWriter_MapStorageError IAP_WRITER_STORAGE_E_VERIFY = IAP_WRITER_E_VERIFY"
| "IapWriter_MapStorageError _ = IAP_WRITER_E_STORAGE"

text \<open>\<open>cur\<close> is the variable the value pointer names, which keeps its value when the callback
  stores nothing.\<close>

definition IapWriter_GetStoragePropertyU32 ::
  "'s storage_ops \<Rightarrow> u16 \<Rightarrow> u32 \<Rightarrow> 's \<Rightarrow> IapWriterStatusType \<times> u32 \<times> 's" where
  "IapWriter_GetStoragePropertyU32 ops property_id cur s =
     (case so_get_property ops of None \<Rightarrow> (IAP_WRITER_E_PARAM, cur, s)
      | Some get \<Rightarrow>
          let (st, out, s) = get property_id True 4 s;
              val = (case out of None \<Rightarrow> cur | Some v \<Rightarrow> v)
          in if st \<noteq> IAP_WRITER_STORAGE_E_OK
             then (if st = IAP_WRITER_STORAGE_E_PARAM then IAP_WRITER_E_PARAM
                   else IapWriter_MapStorageError st, val, s)
             else if val = 0 then (IAP_WRITER_E_PARAM, val, s)
             else (IAP_WRITER_E_OK, val, s))"

definition IapWriter_Init ::
  "'s IapWriterContextType option \<Rightarrow> IapWriterConfigType option \<Rightarrow> 's storage_ops option \<Rightarrow> 's \<Rightarrow>
   IapWriterStatusType \<times> 's IapWriterContextType option \<times> 's" where
  "IapWriter_Init context cfg ops s =
     (case (context, cfg, ops) of
        (Some c, Some conf, Some storage_ops) \<Rightarrow>
          if slot_size conf = 0 then (IAP_WRITER_E_PARAM, context, s)
          else if so_erase storage_ops = None \<or> so_write storage_ops = None \<or> so_read storage_ops = None
            then (IAP_WRITER_E_PARAM, context, s)
          else
            let (st, esize, s) =
                  (if erase_size conf = 0
                   then IapWriter_GetStoragePropertyU32 storage_ops IAP_WRITER_STORAGE_PROP_ERASE_SIZE 0 s
                   else (IAP_WRITER_E_OK, erase_size conf, s))
            in if st \<noteq> IAP_WRITER_E_OK then (st, context, s)
               else
            let (st, psize, s) =
                  (if prog_size conf = 0
                   then IapWriter_GetStoragePropertyU32 storage_ops IAP_WRITER_STORAGE_PROP_PROG_SIZE 0 s
                   else (IAP_WRITER_E_OK, prog_size conf, s))
            in if st \<noteq> IAP_WRITER_E_OK then (st, context, s)
               else if slot_size conf mod esize \<noteq> 0 then (IAP_WRITER_E_ALIGN, context, s)
               else if esize mod psize \<noteq> 0 then (IAP_WRITER_E_ALIGN, context, s)
               else (IAP_WRITER_E_OK,
                     Some \<lparr>config = conf\<lparr>erase_size := esize, prog_size := psize\<rparr>,
                       writer_ops = storage_ops, expected_size = 0, received_size = 0,
                       payload_hash = 0, verify_hash = 0, verify_offset = 0, initialized = True,
                       active = False, finalized = False, verify_active = False,
                       slot_prepared = False\<rparr>, s)
      | _ \<Rightarrow> (IAP_WRITER_E_PARAM, context, s))"

text \<open>The other operations take a context that is not \<open>NULL\<close> (their only caller passes the
  address of a static context; with \<open>NULL\<close> they return \<open>IAP_WRITER_E_PARAM\<close> at once).  A callback
  is called without a test, as in the code: \<open>the\<close> of a \<open>NULL\<close> callback is unspecified, and the
  invariant below excludes it.\<close>

definition IapWriter_Begin ::
  "'s IapWriterContextType \<Rightarrow> size_t \<Rightarrow> 's \<Rightarrow> IapWriterStatusType \<times> 's IapWriterContextType \<times> 's" where
  "IapWriter_Begin c image_size s =
     (if \<not> initialized c then (IAP_WRITER_E_PARAM, c, s)
      else if active c then (IAP_WRITER_E_STATE, c, s)
      else if image_size = 0 \<or> image_size > slot_size (config c) \<or> image_size > UINT32_MAX
        then (IAP_WRITER_E_RANGE, c, s)
      else if \<not> IapWriter_IsAligned image_size (prog_size (config c)) then (IAP_WRITER_E_ALIGN, c, s)
      else case IapWriter_RoundUp image_size (erase_size (config c)) of
        None \<Rightarrow> (IAP_WRITER_E_RANGE, c, s)
      | Some erase_len \<Rightarrow>
          if erase_len > slot_size (config c) then (IAP_WRITER_E_RANGE, c, s)
          else
            let (st, s) = (if \<not> slot_prepared c
                  then the (so_erase (writer_ops c)) (slot_addr (config c)) erase_len s
                  else (IAP_WRITER_STORAGE_E_OK, s))
            in if st \<noteq> IAP_WRITER_STORAGE_E_OK then (IapWriter_MapStorageError st, c, s)
               else (IAP_WRITER_E_OK,
                     c\<lparr>expected_size := image_size, received_size := 0,
                       payload_hash := IAP_WRITER_FNV1A_OFFSET_BASIS,
                       verify_hash := IAP_WRITER_FNV1A_OFFSET_BASIS, verify_offset := 0,
                       active := True, finalized := False, verify_active := False,
                       slot_prepared := False\<rparr>, s))"

definition IapWriter_WriteChunk ::
  "'s IapWriterContextType \<Rightarrow> u32 \<Rightarrow> bytes option \<Rightarrow> size_t \<Rightarrow> 's \<Rightarrow>
   IapWriterStatusType \<times> 's IapWriterContextType \<times> 's" where
  "IapWriter_WriteChunk c off data len s =
     (case data of None \<Rightarrow> (IAP_WRITER_E_PARAM, c, s)
      | Some bs \<Rightarrow>
        if len = 0 \<or> len > UINT32_MAX then (IAP_WRITER_E_PARAM, c, s)
        else if \<not> initialized c \<or> \<not> active c \<or> finalized c then (IAP_WRITER_E_STATE, c, s)
        else if off \<noteq> received_size c then (IAP_WRITER_E_SEQUENCE, c, s)
        else if \<not> IapWriter_IsAligned off (prog_size (config c)) \<or>
                \<not> IapWriter_IsAligned len (prog_size (config c)) then (IAP_WRITER_E_ALIGN, c, s)
        else if off > expected_size c \<or> len > expected_size c \<or> off > expected_size c - len
          then (IAP_WRITER_E_RANGE, c, s)
        else
          let (st, s) = the (so_write (writer_ops c)) (slot_addr (config c) + off) (Some bs) len s
          in if st \<noteq> IAP_WRITER_STORAGE_E_OK then (IapWriter_MapStorageError st, c, s)
             else (IAP_WRITER_E_OK,
                   c\<lparr>payload_hash := IapWriter_HashBytes (payload_hash c) (take (unat len) bs),
                     received_size := received_size c + len\<rparr>, s))"

definition IapWriter_Finalize ::
  "'s IapWriterContextType \<Rightarrow> IapWriterStatusType \<times> 's IapWriterContextType" where
  "IapWriter_Finalize c =
     (if \<not> initialized c then (IAP_WRITER_E_PARAM, c)
      else if \<not> active c \<or> finalized c then (IAP_WRITER_E_STATE, c)
      else if received_size c \<noteq> expected_size c then (IAP_WRITER_E_STATE, c)
      else (IAP_WRITER_E_OK,
            c\<lparr>verify_hash := IAP_WRITER_FNV1A_OFFSET_BASIS, verify_offset := 0,
              verify_active := False, active := False, finalized := True\<rparr>))"

text \<open>The three outputs of \<open>IapWriter_VerifyStep\<close>, which keep their value on a path that does not
  store them.\<close>

record verify_out =
  processed_bytes :: u32
  total_bytes :: u32
  done_flag :: u8

text \<open>\<open>out\<close> is \<open>None\<close> when one of the output pointers is \<open>NULL\<close>.\<close>

definition IapWriter_VerifyStep ::
  "'s IapWriterContextType \<Rightarrow> size_t \<Rightarrow> verify_out option \<Rightarrow> 's \<Rightarrow>
   IapWriterStatusType \<times> 's IapWriterContextType \<times> verify_out option \<times> 's" where
  "IapWriter_VerifyStep c max_step out s =
     (case out of None \<Rightarrow> (IAP_WRITER_E_PARAM, c, None, s)
      | Some outs \<Rightarrow>
        if \<not> initialized c \<or> max_step = 0 then (IAP_WRITER_E_PARAM, c, out, s)
        else if active c \<or> \<not> finalized c then (IAP_WRITER_E_STATE, c, out, s)
        else
          let c = (if \<not> verify_active c
                   then c\<lparr>verify_hash := IAP_WRITER_FNV1A_OFFSET_BASIS, verify_offset := 0,
                          verify_active := True\<rparr> else c)
          in if verify_offset c > expected_size c then (IAP_WRITER_E_STATE, c, out, s)
             else
          let outs = outs\<lparr>total_bytes := expected_size c\<rparr>
          in if verify_offset c = expected_size c then
               let outs = outs\<lparr>processed_bytes := verify_offset c, done_flag := 1\<rparr>
               in if verify_hash c \<noteq> payload_hash c then (IAP_WRITER_E_VERIFY, c, Some outs, s)
                  else (IAP_WRITER_E_OK, c\<lparr>verify_active := False\<rparr>, Some outs, s)
             else
          let chunk_len = (if max_step > IAP_WRITER_VERIFY_BUF_SIZE then IAP_WRITER_VERIFY_BUF_SIZE
                           else max_step);
              chunk_len = (if chunk_len > expected_size c - verify_offset c
                           then expected_size c - verify_offset c else chunk_len);
              (st, verify_buf, s) =
                the (so_read (writer_ops c)) (slot_addr (config c) + verify_offset c) True chunk_len s
          in if st \<noteq> IAP_WRITER_STORAGE_E_OK then (IapWriter_MapStorageError st, c, Some outs, s)
             else
          let c = c\<lparr>verify_hash := IapWriter_HashBytes (verify_hash c) (take (unat chunk_len) verify_buf),
                    verify_offset := verify_offset c + chunk_len\<rparr>;
              outs = outs\<lparr>processed_bytes := verify_offset c,
                          done_flag := (if verify_offset c = expected_size c then 1 else 0)\<rparr>
          in if done_flag outs \<noteq> 0 \<and> verify_hash c \<noteq> payload_hash c
             then (IAP_WRITER_E_VERIFY, c, Some outs, s)
             else (IAP_WRITER_E_OK,
                   (if done_flag outs \<noteq> 0 then c\<lparr>verify_active := False\<rparr> else c), Some outs, s))"

text \<open>The do-while loop of \<open>IapWriter_FinalizeAndVerify\<close>; \<open>None\<close> would be a loop that never
  ends.\<close>

partial_function (option) verify_loop ::
  "'s IapWriterContextType \<Rightarrow> verify_out \<Rightarrow> 's \<Rightarrow>
   (IapWriterStatusType \<times> 's IapWriterContextType \<times> verify_out \<times> 's) option" where
  "verify_loop c outs s =
     (case IapWriter_VerifyStep c IAP_WRITER_VERIFY_BUF_SIZE (Some outs) s of
        (st, c, outs', s) \<Rightarrow>
          if st = IAP_WRITER_E_OK \<and> done_flag (the outs') = 0
          then verify_loop c (the outs') s
          else Some (st, c, the outs', s))"

definition IapWriter_FinalizeAndVerify ::
  "'s IapWriterContextType \<Rightarrow> 's \<Rightarrow> (IapWriterStatusType \<times> 's IapWriterContextType \<times> 's) option" where
  "IapWriter_FinalizeAndVerify c s =
     (case IapWriter_Finalize c of (st, c) \<Rightarrow>
        if st \<noteq> IAP_WRITER_E_OK then Some (st, c, s)
        else map_option (\<lambda>(st, c, outs, s). (st, c, s))
               (verify_loop c \<lparr>processed_bytes = 0, total_bytes = 0, done_flag = 0\<rparr> s))"

definition IapWriter_Abort ::
  "'s IapWriterContextType \<Rightarrow> IapWriterStatusType \<times> 's IapWriterContextType" where
  "IapWriter_Abort c =
     (if \<not> initialized c then (IAP_WRITER_E_PARAM, c)
      else (IAP_WRITER_E_OK,
            c\<lparr>active := False, finalized := False, expected_size := 0, received_size := 0,
              payload_hash := 0, verify_hash := 0, verify_offset := 0, verify_active := False,
              slot_prepared := False\<rparr>))"

fun IapWriter_GetExpectedSize :: "'s IapWriterContextType option \<Rightarrow> u32" where
  "IapWriter_GetExpectedSize None = 0"
| "IapWriter_GetExpectedSize (Some c) = expected_size c"

fun IapWriter_GetReceivedSize :: "'s IapWriterContextType option \<Rightarrow> u32" where
  "IapWriter_GetReceivedSize None = 0"
| "IapWriter_GetReceivedSize (Some c) = received_size c"

fun IapWriter_IsFinalized :: "'s IapWriterContextType option \<Rightarrow> u8" where
  "IapWriter_IsFinalized None = 0"
| "IapWriter_IsFinalized (Some c) = (if finalized c then 1 else 0)"

section \<open>The invariant of the context\<close>

definition writer_inv :: "'s IapWriterContextType \<Rightarrow> bool" where
  "writer_inv c \<longleftrightarrow> (initialized c \<longrightarrow>
     slot_size (config c) \<noteq> 0 \<and> erase_size (config c) \<noteq> 0 \<and> prog_size (config c) \<noteq> 0 \<and>
     unat (erase_size (config c)) dvd unat (slot_size (config c)) \<and>
     unat (prog_size (config c)) dvd unat (erase_size (config c)) \<and>
     so_erase (writer_ops c) \<noteq> None \<and> so_write (writer_ops c) \<noteq> None \<and> so_read (writer_ops c) \<noteq> None \<and>
     unat (expected_size c) \<le> unat (slot_size (config c)) \<and>
     unat (received_size c) \<le> unat (expected_size c) \<and>
     unat (prog_size (config c)) dvd unat (received_size c) \<and>
     unat (prog_size (config c)) dvd unat (expected_size c) \<and>
     unat (verify_offset c) \<le> unat (expected_size c) \<and>
     \<not> (active c \<and> finalized c) \<and> (finalized c \<longrightarrow> received_size c = expected_size c))"

lemma mod_0_iff_dvd: "x mod y = 0 \<longleftrightarrow> unat y dvd unat x" for x y :: u32
  by (metis dvd_eq_mod_eq_0 unat_0_iff unat_mod)

lemma IsAligned_iff: "IapWriter_IsAligned v a \<longleftrightarrow> a \<noteq> 0 \<and> unat a dvd unat v"
  by (simp add: IapWriter_IsAligned_def mod_0_iff_dvd)

lemma RoundUp_Some:
  assumes "IapWriter_RoundUp v a = Some r"
  shows "unat v \<le> unat r" "unat r < unat v + unat a" "unat a dvd unat r"
proof -
  have a: "a \<noteq> 0" using assms by (auto simp: IapWriter_RoundUp_def split: if_splits)
  then have a0: "0 < unat a" by (simp add: unat_gt_0)
  have m: "unat v mod unat a < unat a" using a0 by simp
  have *: "unat v \<le> unat r \<and> unat r < unat v + unat a \<and> unat a dvd unat r"
  proof (cases "v mod a = 0")
    case True
    then show ?thesis using assms a a0 by (simp add: IapWriter_RoundUp_def Let_def mod_0_iff_dvd split: if_splits)
  next
    case False
    let ?d = "a - v mod a"
    have d: "unat ?d = unat a - unat v mod unat a"
      using m by (subst unat_sub_small) (simp_all add: unat_mod)
    have r: "r = v + ?d" "\<not> v > UINT32_MAX - ?d"
      using assms a False by (simp_all add: IapWriter_RoundUp_def Let_def split: if_splits)
    then have "unat v + unat ?d \<le> 4294967295"
      using unat_u32_le_max [of ?d] by (simp add: word_less_nat_alt unat_u32_max_minus)
    then have ur: "unat r = unat v + (unat a - unat v mod unat a)"
      using r(1) d by (simp add: unat_add_small)
    have "0 < unat v mod unat a" using False by (metis gr0I unat_0_iff unat_mod)
    moreover have "unat v + (unat a - unat v mod unat a) = (unat v - unat v mod unat a) + unat a"
      using m mod_less_eq_dividend [of "unat v" "unat a"] by linarith
    moreover have "unat a dvd (unat v - unat v mod unat a) + unat a"
      by (intro dvd_add dvd_minus_mod dvd_refl)
    ultimately have "unat a dvd unat r" "unat v \<le> unat r" "unat r < unat v + unat a"
      unfolding ur using m by (simp_all only:)
    then show ?thesis by simp
  qed
  then show "unat v \<le> unat r" "unat r < unat v + unat a" "unat a dvd unat r" by simp_all
qed

lemma MapStorageError_ok: "IapWriter_MapStorageError st = IAP_WRITER_E_OK \<longleftrightarrow> st = IAP_WRITER_STORAGE_E_OK"
  by (cases st) simp_all

lemma GetStoragePropertyU32_ok:
  "IapWriter_GetStoragePropertyU32 ops i w s = (IAP_WRITER_E_OK, v, s') \<Longrightarrow> v \<noteq> 0"
  by (auto simp: IapWriter_GetStoragePropertyU32_def Let_def MapStorageError_ok
      split: option.splits prod.splits if_splits)

lemma IapWriter_Init_ok:
  assumes "IapWriter_Init (Some c0) cfg ops s = (IAP_WRITER_E_OK, out, s')"
  shows "\<exists>c conf. out = Some c \<and> cfg = Some conf \<and> ops = Some (writer_ops c) \<and> initialized c \<and>
    writer_inv c \<and> \<not> active c \<and> \<not> finalized c \<and> \<not> slot_prepared c \<and>
    slot_addr (config c) = slot_addr conf \<and> slot_size (config c) = slot_size conf"
proof -
  obtain conf so where io: "cfg = Some conf" "ops = Some so"
    using assms by (auto simp: IapWriter_Init_def split: option.splits)
  obtain st1 es s1 where e: "(if erase_size conf = 0
      then IapWriter_GetStoragePropertyU32 so IAP_WRITER_STORAGE_PROP_ERASE_SIZE 0 s
      else (IAP_WRITER_E_OK, erase_size conf, s)) = (st1, es, s1)" by (metis prod_cases3)
  obtain st2 ps s2 where p: "(if prog_size conf = 0
      then IapWriter_GetStoragePropertyU32 so IAP_WRITER_STORAGE_PROP_PROG_SIZE 0 s1
      else (IAP_WRITER_E_OK, prog_size conf, s1)) = (st2, ps, s2)" by (metis prod_cases3)
  have nz: "st1 = IAP_WRITER_E_OK \<Longrightarrow> es \<noteq> 0" "st2 = IAP_WRITER_E_OK \<Longrightarrow> ps \<noteq> 0"
    using e p GetStoragePropertyU32_ok by (fastforce split: if_splits)+
  have "slot_size conf \<noteq> 0 \<and> \<not> (so_erase so = None \<or> so_write so = None \<or> so_read so = None) \<and>
      st1 = IAP_WRITER_E_OK \<and> st2 = IAP_WRITER_E_OK \<and> slot_size conf mod es = 0 \<and> es mod ps = 0 \<and>
      out = Some \<lparr>config = conf\<lparr>erase_size := es, prog_size := ps\<rparr>, writer_ops = so,
        expected_size = 0, received_size = 0, payload_hash = 0, verify_hash = 0, verify_offset = 0,
        initialized = True, active = False, finalized = False, verify_active = False,
        slot_prepared = False\<rparr>"
    using assms unfolding io IapWriter_Init_def by (simp only: e p prod.case option.case Let_def split: if_splits)
      (simp_all)
  then show ?thesis using io nz by (auto simp: writer_inv_def mod_0_iff_dvd)
qed

lemma Begin_cases:
  assumes "IapWriter_Begin c n s = (r, c', s')"
  obtains (error) "r \<noteq> IAP_WRITER_E_OK" "c' = c"
  | (ok) "r = IAP_WRITER_E_OK" "initialized c" "\<not> active c" "n \<noteq> 0" "unat n \<le> unat (slot_size (config c))"
    "unat (prog_size (config c)) dvd unat n"
    "c' = c\<lparr>expected_size := n, received_size := 0, payload_hash := IAP_WRITER_FNV1A_OFFSET_BASIS,
       verify_hash := IAP_WRITER_FNV1A_OFFSET_BASIS, verify_offset := 0, active := True,
       finalized := False, verify_active := False, slot_prepared := False\<rparr>"
    "\<exists>m. unat n \<le> unat m \<and> unat m \<le> unat (slot_size (config c)) \<and>
       (if slot_prepared c then s' = s
        else the (so_erase (writer_ops c)) (slot_addr (config c)) m s = (IAP_WRITER_STORAGE_E_OK, s'))"
proof (cases "\<not> initialized c \<or> active c \<or> n = 0 \<or> n > slot_size (config c) \<or> n > UINT32_MAX \<or>
    \<not> IapWriter_IsAligned n (prog_size (config c))")
  case True
  then have "r \<noteq> IAP_WRITER_E_OK \<and> c' = c"
    using assms unfolding IapWriter_Begin_def by (simp only: split: if_splits) auto
  then show ?thesis by (intro error) simp_all
next
  case False
  show ?thesis
  proof (cases "IapWriter_RoundUp n (erase_size (config c))")
    case None
    then show ?thesis using assms False by (intro error) (auto simp: IapWriter_Begin_def)
  next
    case (Some m)
    note up = RoundUp_Some [OF Some]
    obtain st s1 where e: "(if slot_prepared c then (IAP_WRITER_STORAGE_E_OK, s)
          else the (so_erase (writer_ops c)) (slot_addr (config c)) m s) = (st, s1)" by fastforce
    have run: "(r, c', s') = (if m > slot_size (config c) then (IAP_WRITER_E_RANGE, c, s)
        else if st \<noteq> IAP_WRITER_STORAGE_E_OK then (IapWriter_MapStorageError st, c, s1)
        else (IAP_WRITER_E_OK, c\<lparr>expected_size := n, received_size := 0,
           payload_hash := IAP_WRITER_FNV1A_OFFSET_BASIS,
           verify_hash := IAP_WRITER_FNV1A_OFFSET_BASIS, verify_offset := 0, active := True,
           finalized := False, verify_active := False, slot_prepared := False\<rparr>, s1))"
      using assms False Some e
      by (cases "slot_prepared c") (auto simp: IapWriter_Begin_def split: if_splits)
    show ?thesis
    proof (cases "m > slot_size (config c) \<or> st \<noteq> IAP_WRITER_STORAGE_E_OK")
      case True
      then have "r \<noteq> IAP_WRITER_E_OK \<and> c' = c"
        using run MapStorageError_ok [of st] by (auto split: if_splits)
      then show ?thesis by (intro error) simp_all
    next
      case m: False
      have "r = IAP_WRITER_E_OK" "s' = s1"
        "c' = c\<lparr>expected_size := n, received_size := 0, payload_hash := IAP_WRITER_FNV1A_OFFSET_BASIS,
           verify_hash := IAP_WRITER_FNV1A_OFFSET_BASIS, verify_offset := 0, active := True,
           finalized := False, verify_active := False, slot_prepared := False\<rparr>"
        using run m by simp_all
      then show ?thesis using False m up(1) e
        by (intro ok) (auto simp: IsAligned_iff not_less word_le_nat_alt split: if_splits)
    qed
  qed
qed

lemma WriteChunk_cases:
  assumes "IapWriter_WriteChunk c off (Some bs) len s = (r, c', s')"
  obtains (error) "r \<noteq> IAP_WRITER_E_OK" "c' = c" "s' = s"
  | (storage) st where "r \<noteq> IAP_WRITER_E_OK" "c' = c" "initialized c" "active c" "off = received_size c"
    "unat off + unat len \<le> unat (expected_size c)"
    "the (so_write (writer_ops c)) (slot_addr (config c) + off) (Some bs) len s = (st, s')"
  | (ok) "r = IAP_WRITER_E_OK" "initialized c" "active c" "\<not> finalized c" "0 < unat len"
    "off = received_size c" "unat off + unat len \<le> unat (expected_size c)"
    "unat (prog_size (config c)) dvd unat off" "unat (prog_size (config c)) dvd unat len"
    "the (so_write (writer_ops c)) (slot_addr (config c) + off) (Some bs) len s = (IAP_WRITER_STORAGE_E_OK, s')"
    "c' = c\<lparr>payload_hash := IapWriter_HashBytes (payload_hash c) (take (unat len) bs),
            received_size := received_size c + len\<rparr>"
proof (cases "len = 0 \<or> len > UINT32_MAX \<or> \<not> initialized c \<or> \<not> active c \<or> finalized c \<or>
    off \<noteq> received_size c \<or> \<not> IapWriter_IsAligned off (prog_size (config c)) \<or>
    \<not> IapWriter_IsAligned len (prog_size (config c)) \<or>
    off > expected_size c \<or> len > expected_size c \<or> off > expected_size c - len")
  case True
  then have "r \<noteq> IAP_WRITER_E_OK \<and> c' = c \<and> s' = s"
    using assms unfolding IapWriter_WriteChunk_def option.case by (simp only: split: if_splits) auto
  then show ?thesis by (intro error) simp_all
next
  case False
  obtain st s1 where w: "the (so_write (writer_ops c)) (slot_addr (config c) + off) (Some bs) len s = (st, s1)"
    by fastforce
  have run: "(r, c', s') = (if st \<noteq> IAP_WRITER_STORAGE_E_OK then (IapWriter_MapStorageError st, c, s1)
      else (IAP_WRITER_E_OK, c\<lparr>payload_hash := IapWriter_HashBytes (payload_hash c) (take (unat len) bs),
              received_size := received_size c + len\<rparr>, s1))"
    using assms False w by (auto simp: IapWriter_WriteChunk_def split: if_splits)
  have "unat (expected_size c - len) = unat (expected_size c) - unat len"
    using False by (intro unat_sub_small) (simp add: not_less word_le_nat_alt)
  then have fit: "unat off + unat len \<le> unat (expected_size c)"
    using False by (auto simp: not_less word_le_nat_alt)
  show ?thesis
  proof (cases "st = IAP_WRITER_STORAGE_E_OK")
    case True
    then show ?thesis using run False w fit
      by (intro ok) (auto simp: IsAligned_iff unat_gt_0)
  next
    case notok: False
    then show ?thesis using run False w fit MapStorageError_ok [of st]
      by (intro storage [of st]) auto
  qed
qed

lemma Finalize_cases:
  assumes "IapWriter_Finalize c = (r, c')"
  obtains (error) "r \<noteq> IAP_WRITER_E_OK" "c' = c"
  | (ok) "r = IAP_WRITER_E_OK" "initialized c" "active c" "\<not> finalized c" "received_size c = expected_size c"
    "c' = c\<lparr>verify_hash := IAP_WRITER_FNV1A_OFFSET_BASIS, verify_offset := 0,
            verify_active := False, active := False, finalized := True\<rparr>"
  using assms by (auto simp: IapWriter_Finalize_def split: if_splits)

lemma writer_inv_Begin: "IapWriter_Begin c n s = (r, c', s') \<Longrightarrow> writer_inv c \<Longrightarrow> writer_inv c'"
  by (erule Begin_cases) (auto simp: writer_inv_def)

lemma writer_inv_WriteChunk:
  assumes "IapWriter_WriteChunk c off data len s = (r, c', s')" "writer_inv c"
  shows "writer_inv c'"
proof (cases data)
  case None
  then show ?thesis using assms by (simp add: IapWriter_WriteChunk_def)
next
  case (Some bs)
  with assms(1) have "IapWriter_WriteChunk c off (Some bs) len s = (r, c', s')" by simp
  then show ?thesis
  proof (cases rule: WriteChunk_cases)
    case ok
    have "unat (received_size c + len) = unat (received_size c) + unat len"
      using ok unat_u32_bound [of "expected_size c"] by (subst unat_add_small) simp_all
    then show ?thesis using ok assms(2) by (auto simp: writer_inv_def)
  qed (use assms(2) in simp_all)
qed

lemma writer_inv_Finalize: "IapWriter_Finalize c = (r, c') \<Longrightarrow> writer_inv c \<Longrightarrow> writer_inv c'"
  by (erule Finalize_cases) (auto simp: writer_inv_def)

lemma writer_inv_Abort: "IapWriter_Abort c = (r, c') \<Longrightarrow> writer_inv c \<Longrightarrow> writer_inv c'"
  by (auto simp: IapWriter_Abort_def writer_inv_def split: if_splits)

section \<open>Readback verification\<close>

text \<open>Where the verification stands: a pass that has not begun restarts at 0.\<close>

definition verify_pos :: "'s IapWriterContextType \<Rightarrow> u32" where
  "verify_pos c = (if verify_active c then verify_offset c else 0)"

definition verify_acc :: "'s IapWriterContextType \<Rightarrow> u32" where
  "verify_acc c = (if verify_active c then verify_hash c else IAP_WRITER_FNV1A_OFFSET_BASIS)"

definition verify_len :: "'s IapWriterContextType \<Rightarrow> size_t \<Rightarrow> size_t" where
  "verify_len c n =
     (let m = (if n > IAP_WRITER_VERIFY_BUF_SIZE then IAP_WRITER_VERIFY_BUF_SIZE else n)
      in if m > expected_size c - verify_pos c then expected_size c - verify_pos c else m)"

lemma VerifyStep_cases:
  assumes "IapWriter_VerifyStep c n (Some outs) s = (r, c', outs', s')"
  obtains (error) "r \<noteq> IAP_WRITER_E_OK" "r \<noteq> IAP_WRITER_E_VERIFY"
    "\<not> initialized c \<or> n = 0 \<or> active c \<or> \<not> finalized c \<or> verify_pos c > expected_size c"
    "s' = s" "c' = c \<or> c' = c\<lparr>verify_hash := verify_acc c, verify_offset := verify_pos c, verify_active := True\<rparr>"
  | (storage) st buf where "r = IapWriter_MapStorageError st" "st \<noteq> IAP_WRITER_STORAGE_E_OK"
    "c' = c\<lparr>verify_hash := verify_acc c, verify_offset := verify_pos c, verify_active := True\<rparr>"
    "the (so_read (writer_ops c)) (slot_addr (config c) + verify_pos c) True (verify_len c n) s = (st, buf, s')"
    "initialized c" "n \<noteq> 0" "unat (verify_pos c) < unat (expected_size c)"
  | (at_end) "initialized c" "\<not> active c" "finalized c" "verify_pos c = expected_size c" "s' = s"
    "r = (if verify_acc c = payload_hash c then IAP_WRITER_E_OK else IAP_WRITER_E_VERIFY)"
    "outs' = Some \<lparr>processed_bytes = expected_size c, total_bytes = expected_size c, done_flag = 1\<rparr>"
    "c' = c\<lparr>verify_hash := verify_acc c, verify_offset := verify_pos c,
            verify_active := (verify_acc c \<noteq> payload_hash c)\<rparr>"
  | (read) buf h p where "initialized c" "\<not> active c" "finalized c" "n \<noteq> 0"
    "unat (verify_pos c) < unat (expected_size c)"
    "the (so_read (writer_ops c)) (slot_addr (config c) + verify_pos c) True (verify_len c n) s = (IAP_WRITER_STORAGE_E_OK, buf, s')"
    "h = IapWriter_HashBytes (verify_acc c) (take (unat (verify_len c n)) buf)"
    "p = verify_pos c + verify_len c n"
    "r = (if p = expected_size c \<and> h \<noteq> payload_hash c then IAP_WRITER_E_VERIFY else IAP_WRITER_E_OK)"
    "outs' = Some \<lparr>processed_bytes = p, total_bytes = expected_size c,
       done_flag = (if p = expected_size c then 1 else 0)\<rparr>"
    "c' = c\<lparr>verify_hash := h, verify_offset := p,
       verify_active := (p \<noteq> expected_size c \<or> h \<noteq> payload_hash c)\<rparr>"
proof (cases "\<not> initialized c \<or> n = 0 \<or> active c \<or> \<not> finalized c \<or> verify_pos c > expected_size c")
  case True
  then have "r \<noteq> IAP_WRITER_E_OK \<and> r \<noteq> IAP_WRITER_E_VERIFY \<and> s' = s \<and> (c' = c \<or>
      c' = c\<lparr>verify_hash := verify_acc c, verify_offset := verify_pos c, verify_active := True\<rparr>)"
    using assms by (auto simp: IapWriter_VerifyStep_def verify_pos_def verify_acc_def Let_def split: if_splits)
  with True show ?thesis by (intro error) simp_all
next
  case False
  define c1 where "c1 = c\<lparr>verify_hash := verify_acc c, verify_offset := verify_pos c, verify_active := True\<rparr>"
  have c1: "(if \<not> verify_active c
      then c\<lparr>verify_hash := IAP_WRITER_FNV1A_OFFSET_BASIS, verify_offset := 0, verify_active := True\<rparr>
      else c) = c1"
    by (simp add: c1_def verify_acc_def verify_pos_def)
  have f: "expected_size c1 = expected_size c" "verify_offset c1 = verify_pos c" "payload_hash c1 = payload_hash c"
    "verify_hash c1 = verify_acc c" "writer_ops c1 = writer_ops c" "config c1 = config c"
    by (simp_all add: c1_def)
  obtain st buf s1 where rd: "the (so_read (writer_ops c)) (slot_addr (config c) + verify_pos c) True
      (verify_len c n) s = (st, buf, s1)" by (metis prod_cases3)
  define h where "h = IapWriter_HashBytes (verify_acc c) (take (unat (verify_len c n)) buf)"
  define p where "p = verify_pos c + verify_len c n"
  have run: "(r, c', outs', s') = (let outs = outs\<lparr>total_bytes := expected_size c\<rparr> in
      if verify_pos c = expected_size c then
        let outs = outs\<lparr>processed_bytes := verify_pos c, done_flag := 1\<rparr>
        in if verify_acc c \<noteq> payload_hash c then (IAP_WRITER_E_VERIFY, c1, Some outs, s)
           else (IAP_WRITER_E_OK, c1\<lparr>verify_active := False\<rparr>, Some outs, s)
      else if st \<noteq> IAP_WRITER_STORAGE_E_OK then (IapWriter_MapStorageError st, c1, Some outs, s1)
      else let c = c1\<lparr>verify_hash := h, verify_offset := p\<rparr>;
              outs = outs\<lparr>processed_bytes := p, done_flag := (if p = expected_size c then 1 else 0)\<rparr>
          in if done_flag outs \<noteq> 0 \<and> h \<noteq> payload_hash c
             then (IAP_WRITER_E_VERIFY, c, Some outs, s1)
             else (IAP_WRITER_E_OK,
                   (if done_flag outs \<noteq> 0 then c\<lparr>verify_active := False\<rparr> else c), Some outs, s1))"
    using False rd assms [symmetric]
    unfolding IapWriter_VerifyStep_def option.case c1 Let_def f
    by (simp add: h_def p_def verify_len_def Let_def f)
  have lt: "verify_pos c \<noteq> expected_size c \<Longrightarrow> unat (verify_pos c) < unat (expected_size c)"
    using False by (simp add: not_less word_le_nat_alt word_unat_eq_iff)
  show ?thesis
  proof (cases "verify_pos c = expected_size c")
    case True
    then show ?thesis using run False
      by (intro at_end) (auto simp: c1_def Let_def split: if_splits)
  next
    case more: False
    show ?thesis
    proof (cases "st = IAP_WRITER_STORAGE_E_OK")
      case True
      then show ?thesis using run more lt False rd
        by (intro read [OF _ _ _ _ _ _ h_def p_def]) (auto simp: c1_def Let_def split: if_splits)
    next
      case notok: False
      then show ?thesis using run more lt False rd
        by (intro storage [of st buf]) (auto simp: c1_def Let_def)
    qed
  qed
qed

lemma verify_len_bounds:
  assumes "unat (verify_pos c) < unat (expected_size c)" "n \<noteq> 0"
  shows "0 < unat (verify_len c n)" "unat (verify_pos c) + unat (verify_len c n) \<le> unat (expected_size c)"
    "unat (verify_len c n) \<le> 256"
proof -
  have sub: "unat (expected_size c - verify_pos c) = unat (expected_size c) - unat (verify_pos c)"
    using assms(1) by (intro unat_sub_small) simp
  have n: "0 < unat n" using assms(2) by (simp add: unat_gt_0)
  show "0 < unat (verify_len c n)" "unat (verify_pos c) + unat (verify_len c n) \<le> unat (expected_size c)"
    "unat (verify_len c n) \<le> 256"
    using sub n assms(1)
    by (auto simp: verify_len_def Let_def IAP_WRITER_VERIFY_BUF_SIZE_def word_less_nat_alt)
qed

lemma verify_advance:
  assumes "unat (verify_pos c) < unat (expected_size c)" "n \<noteq> 0"
  shows "unat (verify_pos c + verify_len c n) = unat (verify_pos c) + unat (verify_len c n)"
  using verify_len_bounds [OF assms] unat_u32_bound [of "expected_size c"]
  by (subst unat_add_small) simp_all

lemma writer_inv_VerifyStep:
  assumes "IapWriter_VerifyStep c n out s = (r, c', out', s')" "writer_inv c"
  shows "writer_inv c'"
proof (cases out)
  case None
  then show ?thesis using assms by (simp add: IapWriter_VerifyStep_def)
next
  case (Some outs)
  with assms(1) have "IapWriter_VerifyStep c n (Some outs) s = (r, c', out', s')" by simp
  then show ?thesis
  proof (cases rule: VerifyStep_cases)
    case error
    then show ?thesis using assms(2) by (auto simp: writer_inv_def verify_pos_def)
  next
    case storage
    then show ?thesis using assms(2) by (auto simp: writer_inv_def verify_pos_def)
  next
    case at_end
    then show ?thesis using assms(2) by (auto simp: writer_inv_def)
  next
    case read
    then show ?thesis using assms(2) verify_advance [of c n] verify_len_bounds [of c n]
      by (auto simp: writer_inv_def)
  qed
qed

text \<open>Every round of the loop that goes on moves the verification forward, so it ends.\<close>

lemma verify_step_progress:
  assumes "IapWriter_VerifyStep c IAP_WRITER_VERIFY_BUF_SIZE (Some outs) s = (st, c', outs', s')"
    "st = IAP_WRITER_E_OK" "done_flag (the outs') = 0"
  shows "unat (expected_size c') - unat (verify_pos c') < unat (expected_size c) - unat (verify_pos c)"
  using assms(1)
proof (cases rule: VerifyStep_cases)
  case (storage st1 buf)
  then have False using assms(2) by (metis MapStorageError_ok)
  then show ?thesis ..
next
  case (read buf h p)
  then have "verify_pos c' = p" "expected_size c' = expected_size c"
    using assms by (auto simp: verify_pos_def split: if_splits)
  then show ?thesis using read(5,8) verify_advance [OF read(5,4)] verify_len_bounds [OF read(5,4)] by simp
qed (use assms in \<open>auto split: if_splits\<close>)

lemma verify_loop_terminates: "\<exists>r. verify_loop c outs s = Some r"
proof (induction "unat (expected_size c) - unat (verify_pos c)" arbitrary: c outs s rule: less_induct)
  case less
  obtain st c' outs' s' where step:
    "IapWriter_VerifyStep c IAP_WRITER_VERIFY_BUF_SIZE (Some outs) s = (st, c', outs', s')"
    by (metis prod_cases4)
  show ?case
  proof (cases "st = IAP_WRITER_E_OK \<and> done_flag (the outs') = 0")
    case False
    then show ?thesis using step by (subst verify_loop.simps) auto
  next
    case True
    then have "unat (expected_size c') - unat (verify_pos c') < unat (expected_size c) - unat (verify_pos c)"
      using verify_step_progress [OF step] by blast
    then show ?thesis using less [of c'] step True by (subst verify_loop.simps) simp
  qed
qed

lemma FinalizeAndVerify_terminates: "\<exists>r. IapWriter_FinalizeAndVerify c s = Some r"
proof -
  obtain st c' where f: "IapWriter_Finalize c = (st, c')" by fastforce
  then show ?thesis
    using verify_loop_terminates [of c' "\<lparr>processed_bytes = 0, total_bytes = 0, done_flag = 0\<rparr>" s]
    by (auto simp: IapWriter_FinalizeAndVerify_def)
qed

section \<open>The contract of the callbacks\<close>

text \<open>\<open>smem\<close> is the content the storage shows, \<open>blank\<close> the bytes a write may still program,
  \<open>sinv\<close> the state the callbacks keep.\<close>

definition same_outside ::
  "('s \<Rightarrow> memory) \<Rightarrow> ('s \<Rightarrow> u32 \<Rightarrow> bool) \<Rightarrow> u32 \<Rightarrow> nat \<Rightarrow> 's \<Rightarrow> 's \<Rightarrow> bool" where
  "same_outside smem blank a n s s' \<longleftrightarrow>
     (\<forall>x. \<not> in_range x a n \<longrightarrow> smem s' x = smem s x \<and> blank s' x = blank s x)"

locale storage =
  fixes ops :: "'s storage_ops"
    and smem :: "'s \<Rightarrow> memory"
    and blank :: "'s \<Rightarrow> u32 \<Rightarrow> bool"
    and sinv :: "'s \<Rightarrow> bool"
  assumes callbacks: "so_erase ops \<noteq> None" "so_write ops \<noteq> None" "so_read ops \<noteq> None"
    and erase_frame: "sinv s \<Longrightarrow> the (so_erase ops) a n s = (r, s') \<Longrightarrow>
      sinv s' \<and> same_outside smem blank a (unat n) s s'"
    and erase_blank: "sinv s \<Longrightarrow> the (so_erase ops) a n s = (IAP_WRITER_STORAGE_E_OK, s') \<Longrightarrow>
      in_range x a (unat n) \<Longrightarrow> blank s' x"
    and write_frame: "sinv s \<Longrightarrow> length bs = unat n \<Longrightarrow> the (so_write ops) a (Some bs) n s = (r, s') \<Longrightarrow>
      sinv s' \<and> same_outside smem blank a (unat n) s s'"
    and write_stores: "sinv s \<Longrightarrow> length bs = unat n \<Longrightarrow>
      the (so_write ops) a (Some bs) n s = (IAP_WRITER_STORAGE_E_OK, s') \<Longrightarrow>
      (\<And>x. in_range x a (unat n) \<Longrightarrow> blank s x) \<Longrightarrow> mem_read (smem s') a (unat n) = bs"
    and read_frame: "sinv s \<Longrightarrow> the (so_read ops) a True n s = (r, buf, s') \<Longrightarrow>
      sinv s' \<and> smem s' = smem s \<and> blank s' = blank s"
    and read_exact: "sinv s \<Longrightarrow> the (so_read ops) a True n s = (IAP_WRITER_STORAGE_E_OK, buf, s') \<Longrightarrow>
      buf = mem_read (smem s) a (unat n)"
    and property_frame: "sinv s \<Longrightarrow> so_get_property ops = Some g \<Longrightarrow> g i b n s = (r, v, s') \<Longrightarrow>
      sinv s' \<and> smem s' = smem s \<and> blank s' = blank s"

lemma same_outside_refl [simp]: "same_outside smem blank a n s s"
  by (simp add: same_outside_def)

lemma same_outside_trans:
  "same_outside smem blank a n s s' \<Longrightarrow> same_outside smem blank a n s' s'' \<Longrightarrow> same_outside smem blank a n s s''"
  by (simp add: same_outside_def)

lemma same_outside_within:
  "same_outside smem blank (a + of_nat i) k s s' \<Longrightarrow> i + k \<le> n \<Longrightarrow> n \<le> 4294967296 \<Longrightarrow>
   same_outside smem blank a n s s'"
  by (auto simp: same_outside_def dest: in_range_within)

lemma same_outside_mono:
  "same_outside smem blank a k s s' \<Longrightarrow> k \<le> n \<Longrightarrow> same_outside smem blank a n s s'"
  by (auto simp: same_outside_def dest: in_range_mono)

lemma HashBytes_append: "IapWriter_HashBytes seed (xs @ ys) = IapWriter_HashBytes (IapWriter_HashBytes seed xs) ys"
  by (simp add: IapWriter_HashBytes_def)

lemma HashBytes_Nil [simp]: "IapWriter_HashBytes seed [] = seed"
  by (simp add: IapWriter_HashBytes_def)

text \<open>\<open>session c s img\<close>: a session is open, \<open>img\<close> has been accepted so far, the slot holds it,
  the running hash is its hash and the rest of the image's place is blank.\<close>

definition session ::
  "'s storage_ops \<Rightarrow> ('s \<Rightarrow> memory) \<Rightarrow> ('s \<Rightarrow> u32 \<Rightarrow> bool) \<Rightarrow> ('s \<Rightarrow> bool) \<Rightarrow>
   's IapWriterContextType \<Rightarrow> 's \<Rightarrow> bytes \<Rightarrow> bool" where
  "session ops smem blank sinv c s img \<longleftrightarrow>
     writer_inv c \<and> initialized c \<and> active c \<and> writer_ops c = ops \<and> sinv s \<and>
     length img = unat (received_size c) \<and>
     mem_read (smem s) (slot_addr (config c)) (length img) = img \<and>
     payload_hash c = IapWriter_HashBytes IAP_WRITER_FNV1A_OFFSET_BASIS img \<and>
     (\<forall>x. in_range x (slot_addr (config c)) (unat (expected_size c)) \<longrightarrow>
        \<not> in_range x (slot_addr (config c)) (length img) \<longrightarrow> blank s x)"

text \<open>\<open>stored c s img\<close>: the session is finalized with the image \<open>img\<close> in the slot.\<close>

definition stored ::
  "'s storage_ops \<Rightarrow> ('s \<Rightarrow> memory) \<Rightarrow> ('s \<Rightarrow> bool) \<Rightarrow> 's IapWriterContextType \<Rightarrow> 's \<Rightarrow> bytes \<Rightarrow> bool" where
  "stored ops smem sinv c s img \<longleftrightarrow>
     writer_inv c \<and> initialized c \<and> finalized c \<and> writer_ops c = ops \<and> sinv s \<and>
     length img = unat (expected_size c) \<and>
     mem_read (smem s) (slot_addr (config c)) (length img) = img \<and>
     payload_hash c = IapWriter_HashBytes IAP_WRITER_FNV1A_OFFSET_BASIS img"

text \<open>A verification pass has read the first \<open>verify_pos\<close> bytes of what the storage shows.\<close>

definition verifying :: "('s \<Rightarrow> memory) \<Rightarrow> 's IapWriterContextType \<Rightarrow> 's \<Rightarrow> bool" where
  "verifying smem c s \<longleftrightarrow> verify_acc c = IapWriter_HashBytes IAP_WRITER_FNV1A_OFFSET_BASIS
     (mem_read (smem s) (slot_addr (config c)) (unat (verify_pos c)))"

definition slot_blank :: "('s \<Rightarrow> u32 \<Rightarrow> bool) \<Rightarrow> 's IapWriterContextType \<Rightarrow> 's \<Rightarrow> bool" where
  "slot_blank blank c s \<longleftrightarrow> (slot_prepared c \<longrightarrow>
     (\<forall>x. in_range x (slot_addr (config c)) (unat (slot_size (config c))) \<longrightarrow> blank s x))"

context storage
begin

lemma Begin_frame:
  assumes "writer_inv c" "writer_ops c = ops" "sinv s" "IapWriter_Begin c n s = (r, c', s')"
  shows "sinv s'" "same_outside smem blank (slot_addr (config c)) (unat (slot_size (config c))) s s'"
proof -
  have "sinv s' \<and> same_outside smem blank (slot_addr (config c)) (unat (slot_size (config c))) s s'"
  proof (cases "IapWriter_RoundUp n (erase_size (config c))")
    case None
    then show ?thesis using assms(3,4) by (auto simp: IapWriter_Begin_def split: if_splits)
  next
    case (Some m)
    have "s' = s \<or> (\<exists>st. unat m \<le> unat (slot_size (config c)) \<and>
        the (so_erase ops) (slot_addr (config c)) m s = (st, s'))"
      using assms(2,4) Some
      by (auto simp: IapWriter_Begin_def not_less word_le_nat_alt split: if_splits prod.splits)
    then show ?thesis using assms(3) erase_frame same_outside_mono by (metis same_outside_refl)
  qed
  then show "sinv s'" "same_outside smem blank (slot_addr (config c)) (unat (slot_size (config c))) s s'"
    by simp_all
qed

lemma Begin_session:
  assumes "writer_inv c" "writer_ops c = ops" "sinv s" "slot_blank blank c s"
    "IapWriter_Begin c n s = (IAP_WRITER_E_OK, c', s')"
  shows "session ops smem blank sinv c' s' []" "expected_size c' = n" "config c' = config c"
    "received_size c' = 0"
proof -
  have inv: "writer_inv c'" by (rule writer_inv_Begin [OF assms(5,1)])
  note fr = Begin_frame [OF assms(1-3,5)]
  from assms(5) have "session ops smem blank sinv c' s' [] \<and> expected_size c' = n \<and> config c' = config c \<and> received_size c' = 0"
  proof (cases rule: Begin_cases)
    case ok
    obtain m where m: "unat n \<le> unat m" "unat m \<le> unat (slot_size (config c))"
      "if slot_prepared c then s' = s
       else the (so_erase ops) (slot_addr (config c)) m s = (IAP_WRITER_STORAGE_E_OK, s')"
      using ok(8) assms(2) by auto
    have "blank s' x" if "in_range x (slot_addr (config c)) (unat n)" for x
    proof (cases "slot_prepared c")
      case True
      have "in_range x (slot_addr (config c)) (unat (slot_size (config c)))"
        using that m(1,2) in_range_mono le_trans by blast
      then show ?thesis using True m(3) assms(4) by (simp add: slot_blank_def)
    next
      case False
      then show ?thesis using m that erase_blank [OF assms(3), of "slot_addr (config c)" m s' x]
        by (auto intro: in_range_mono)
    qed
    then show ?thesis
      using ok(2,7) inv fr(1) assms(2) by (simp add: session_def)
  qed simp_all
  then show "session ops smem blank sinv c' s' []" "expected_size c' = n" "config c' = config c"
    "received_size c' = 0"
    by simp_all
qed

lemma WriteChunk_frame:
  assumes "sinv s" "writer_ops c = ops" "length bs = unat len"
    "IapWriter_WriteChunk c off (Some bs) len s = (r, c', s')"
  shows "sinv s'" "same_outside smem blank (slot_addr (config c)) (unat (expected_size c)) s s'"
proof -
  have *: "sinv s' \<and> same_outside smem blank (slot_addr (config c)) (unat (expected_size c)) s s'"
    if "the (so_write ops) (slot_addr (config c) + off) (Some bs) len s = (st, s')"
      "unat off + unat len \<le> unat (expected_size c)" for st
    using write_frame [OF assms(1,3) that(1)] that(2) unat_u32_bound [of "expected_size c"]
      same_outside_within [of smem blank "slot_addr (config c)" "unat off" "unat len" s s' "unat (expected_size c)"]
    by simp
  from assms(4) have "sinv s' \<and> same_outside smem blank (slot_addr (config c)) (unat (expected_size c)) s s'"
  proof (cases rule: WriteChunk_cases)
    case error
    then show ?thesis using assms(1) by simp
  next
    case (storage st)
    then show ?thesis using * assms(2) by blast
  next
    case ok
    then show ?thesis using * assms(2) by blast
  qed
  then show "sinv s'" "same_outside smem blank (slot_addr (config c)) (unat (expected_size c)) s s'"
    by simp_all
qed

lemma WriteChunk_session:
  assumes "session ops smem blank sinv c s img" "length bs = unat len"
    "IapWriter_WriteChunk c off (Some bs) len s = (IAP_WRITER_E_OK, c', s')"
  shows "session ops smem blank sinv c' s' (img @ bs)" "expected_size c' = expected_size c"
    "config c' = config c" "off = received_size c" "received_size c' = received_size c + len"
proof -
  let ?a = "slot_addr (config c)" and ?e = "unat (expected_size c)"
  have ses: "writer_inv c" "initialized c" "active c" "writer_ops c = ops" "sinv s"
    "length img = unat (received_size c)" "mem_read (smem s) ?a (length img) = img"
    "payload_hash c = IapWriter_HashBytes IAP_WRITER_FNV1A_OFFSET_BASIS img"
    "\<And>x. in_range x ?a ?e \<Longrightarrow> \<not> in_range x ?a (length img) \<Longrightarrow> blank s x"
    using assms(1) unfolding session_def by blast+
  have inv: "writer_inv c'" by (rule writer_inv_WriteChunk [OF assms(3) ses(1)])
  note fr = WriteChunk_frame [OF ses(5,4) assms(2,3)]
  from assms(3) have "session ops smem blank sinv c' s' (img @ bs) \<and> expected_size c' = expected_size c \<and> config c' = config c \<and> off = received_size c \<and> received_size c' = received_size c + len"
  proof (cases rule: WriteChunk_cases)
    case ok
    have bound: "?e < 4294967296" by (rule unat_u32_bound)
    have off: "off = of_nat (length img)" using ok(6) ses(6) by simp
    have fit: "length img + unat len \<le> ?e" using ok(6,7) ses(6) by simp
    have run: "the (so_write ops) (?a + of_nat (length img)) (Some bs) len s = (IAP_WRITER_STORAGE_E_OK, s')"
      using ok(10) off ses(4) by simp
    have step: "same_outside smem blank (?a + of_nat (length img)) (unat len) s s'"
      using write_frame [OF ses(5) assms(2) run] by simp
    have "blank s x" if "in_range x (?a + of_nat (length img)) (unat len)" for x
    proof -
      have "in_range x ?a ?e" by (rule in_range_within [OF that fit]) (use bound in simp)
      moreover have "\<not> in_range x ?a (length img)"
        using in_range_disjoint [OF _ that] fit bound by simp
      ultimately show ?thesis by (rule ses(9))
    qed
    then have new: "mem_read (smem s') (?a + of_nat (length img)) (unat len) = bs"
      by (rule write_stores [OF ses(5) assms(2) run])
    have "mem_read (smem s') ?a (length img) = mem_read (smem s) ?a (length img)"
    proof (rule mem_read_cong)
      fix i assume "i < length img"
      then have "in_range (?a + of_nat i) ?a (length img)"
        using fit bound by (intro in_range_offset) simp_all
      then have "\<not> in_range (?a + of_nat i) (?a + of_nat (length img)) (unat len)"
        using in_range_disjoint [of "length img" "unat len" "?a + of_nat i" ?a] fit bound by auto
      then show "smem s' (?a + of_nat i) = smem s (?a + of_nat i)"
        using step by (simp add: same_outside_def)
    qed
    then have mem: "mem_read (smem s') ?a (length (img @ bs)) = img @ bs"
      using new ses(7) assms(2) by (simp add: mem_read_append)
    have recv: "unat (received_size c + len) = length img + unat len"
      using fit bound ses(6) by (subst unat_add_small) simp_all
    have blank': "blank s' x"
      if x: "in_range x ?a ?e" "\<not> in_range x ?a (length (img @ bs))" for x
    proof -
      have n: "\<not> in_range x ?a (length img) \<and> \<not> in_range x (?a + of_nat (length img)) (unat len)"
        using x(2) in_range_split [of "length img" "unat len" x ?a] fit bound assms(2) by simp
      then show ?thesis using step ses(9) [OF x(1)] by (simp add: same_outside_def)
    qed
    have "session ops smem blank sinv c' s' (img @ bs)"
      using ok(11) ses inv fr(1) mem recv assms(2) blank'
      by (simp add: session_def HashBytes_append)
    then show ?thesis using ok(6,11) by simp
  qed simp_all
  then show "session ops smem blank sinv c' s' (img @ bs)" "expected_size c' = expected_size c"
    "config c' = config c" "off = received_size c" "received_size c' = received_size c + len"
    by simp_all
qed

lemma Finalize_stored:
  assumes "session ops smem blank sinv c s img" "IapWriter_Finalize c = (IAP_WRITER_E_OK, c')"
  shows "stored ops smem sinv c' s img" "length img = unat (expected_size c)" "config c' = config c"
    "verifying smem c' s"
proof -
  have inv: "writer_inv c'" using assms writer_inv_Finalize by (auto simp: session_def)
  from assms(2) have "stored ops smem sinv c' s img \<and> length img = unat (expected_size c) \<and> config c' = config c \<and> verifying smem c' s"
  proof (cases rule: Finalize_cases)
    case ok
    then show ?thesis
      using assms(1) inv by (auto simp: session_def stored_def verifying_def verify_pos_def verify_acc_def)
  qed simp_all
  then show "stored ops smem sinv c' s img" "length img = unat (expected_size c)" "config c' = config c"
    "verifying smem c' s"
    by simp_all
qed

end

end
