(* ===== verification/RamFlashSim.thy ===== *)
theory RamFlashSim
  imports Flash IapWriter
begin

text \<open>
  \<open>tests/app/InAppProgramming/stubs/RamFlashSim.c\<close>: the RAM-backed storage the repository's
  update tests run the writer on.  Its array is the byte function \<open>sim_mem\<close>, indexed by address;
  programming can only clear bits, as on NOR flash.  It is one of the two providers of the
  writer's contract \<open>storage\<close>.
\<close>

record RamFlashSimContextType =
  sim_mem :: memory
  sim_size :: size_t
  sim_base_addr :: u32
  sim_erase_size :: u32
  sim_prog_size :: u32
  fail_next_erase :: bool
  fail_next_write :: bool
  fail_next_read :: bool

definition RamFlashSim_RangeToOffset :: "RamFlashSimContextType \<Rightarrow> u32 \<Rightarrow> size_t \<Rightarrow> bool" where
  "RamFlashSim_RangeToOffset c addr len \<longleftrightarrow>
     TestFlashMemory_BoundsOk (unat (sim_base_addr c)) (unat (sim_size c)) (unat addr) (unat len)"

definition RamFlashSim_Erase ::
  "u32 \<Rightarrow> size_t \<Rightarrow> RamFlashSimContextType \<Rightarrow> IapWriterStorageStatusType \<times> RamFlashSimContextType" where
  "RamFlashSim_Erase addr len c =
     (if sim_erase_size c = 0 \<or> len = 0 then (IAP_WRITER_STORAGE_E_PARAM, c)
      else if addr mod sim_erase_size c \<noteq> 0 \<or> len mod sim_erase_size c \<noteq> 0
        then (IAP_WRITER_STORAGE_E_ALIGN, c)
      else if \<not> RamFlashSim_RangeToOffset c addr len then (IAP_WRITER_STORAGE_E_RANGE, c)
      else if fail_next_erase c then (IAP_WRITER_STORAGE_E_IO, c\<lparr>fail_next_erase := False\<rparr>)
      else (IAP_WRITER_STORAGE_E_OK, c\<lparr>sim_mem := mem_write (sim_mem c) addr (replicate (unat len) 0xFF)\<rparr>))"

definition RamFlashSim_Write ::
  "u32 \<Rightarrow> bytes option \<Rightarrow> size_t \<Rightarrow> RamFlashSimContextType \<Rightarrow>
   IapWriterStorageStatusType \<times> RamFlashSimContextType" where
  "RamFlashSim_Write addr src len c =
     (case src of None \<Rightarrow> (IAP_WRITER_STORAGE_E_PARAM, c)
      | Some bs \<Rightarrow>
        if sim_prog_size c = 0 \<or> len = 0 then (IAP_WRITER_STORAGE_E_PARAM, c)
        else if addr mod sim_prog_size c \<noteq> 0 \<or> len mod sim_prog_size c \<noteq> 0
          then (IAP_WRITER_STORAGE_E_ALIGN, c)
        else if \<not> RamFlashSim_RangeToOffset c addr len then (IAP_WRITER_STORAGE_E_RANGE, c)
        else if fail_next_write c then (IAP_WRITER_STORAGE_E_IO, c\<lparr>fail_next_write := False\<rparr>)
        else
          let old = mem_read (sim_mem c) addr (unat len); new = take (unat len) bs
          in if \<not> list_all (\<lambda>(o_val, n_val). o_val AND n_val = n_val) (zip old new)
             then (IAP_WRITER_STORAGE_E_VERIFY, c)
             else (IAP_WRITER_STORAGE_E_OK,
                   c\<lparr>sim_mem := mem_write (sim_mem c) addr (map2 (AND) old new)\<rparr>))"

definition RamFlashSim_Read ::
  "u32 \<Rightarrow> bool \<Rightarrow> size_t \<Rightarrow> RamFlashSimContextType \<Rightarrow>
   IapWriterStorageStatusType \<times> bytes \<times> RamFlashSimContextType" where
  "RamFlashSim_Read addr given len c =
     (if \<not> given \<or> len = 0 then (IAP_WRITER_STORAGE_E_PARAM, [], c)
      else if \<not> RamFlashSim_RangeToOffset c addr len then (IAP_WRITER_STORAGE_E_RANGE, [], c)
      else if fail_next_read c then (IAP_WRITER_STORAGE_E_IO, [], c\<lparr>fail_next_read := False\<rparr>)
      else (IAP_WRITER_STORAGE_E_OK, mem_read (sim_mem c) addr (unat len), c))"

definition RamFlashSim_GetProperty ::
  "u16 \<Rightarrow> bool \<Rightarrow> size_t \<Rightarrow> RamFlashSimContextType \<Rightarrow>
   IapWriterStorageStatusType \<times> u32 option \<times> RamFlashSimContextType" where
  "RamFlashSim_GetProperty property_id given value_len c =
     (if \<not> given \<or> value_len \<noteq> 4 then (IAP_WRITER_STORAGE_E_PARAM, None, c)
      else
        let out = (if property_id = IAP_WRITER_STORAGE_PROP_ERASE_SIZE then Some (sim_erase_size c)
                   else if property_id = IAP_WRITER_STORAGE_PROP_PROG_SIZE \<or>
                           property_id = IAP_WRITER_STORAGE_PROP_ALIGNMET then Some (sim_prog_size c)
                   else None)
        in case out of None \<Rightarrow> (IAP_WRITER_STORAGE_E_PARAM, None, c)
           | Some v \<Rightarrow> if v = 0 then (IAP_WRITER_STORAGE_E_PARAM, None, c)
                       else (IAP_WRITER_STORAGE_E_OK, Some v, c))"

definition RamFlashSim_Reset :: "RamFlashSimContextType \<Rightarrow> RamFlashSimContextType" where
  "RamFlashSim_Reset c = c\<lparr>sim_mem := (\<lambda>_. 0xFF), fail_next_erase := False,
     fail_next_write := False, fail_next_read := False\<rparr>"

definition RamFlashSim_GetStorageOps :: "RamFlashSimContextType storage_ops" where
  "RamFlashSim_GetStorageOps = \<lparr>so_erase = Some RamFlashSim_Erase, so_write = Some RamFlashSim_Write,
     so_read = Some RamFlashSim_Read, so_get_property = Some RamFlashSim_GetProperty\<rparr>"

section \<open>The simulation keeps the contract\<close>

lemma erased_byte_and [simp]: "(0xFF :: u8) AND b = b"
proof -
  have "(0xFF :: u8) = - 1" by simp
  then show ?thesis by (metis and.left_neutral)
qed

lemma map2_and_erased:
  assumes "length bs = n" "length old = n" "\<And>b. b \<in> set old \<Longrightarrow> b = 0xFF"
  shows "map2 (AND) old bs = (bs :: bytes)"
proof (rule nth_equalityI)
  fix i assume "i < length (map2 (AND) old bs)"
  then have i: "i < length old" "i < length bs" using assms by simp_all
  then have "old ! i = 0xFF" using assms(3) nth_mem by blast
  then show "map2 (AND) old bs ! i = bs ! i" using i by simp
qed (use assms in simp)

lemma sim_write_blank:
  assumes "length bs = unat len" "\<And>x. in_range x a (unat len) \<Longrightarrow> sim_mem c x = 0xFF"
    "RamFlashSim_Write a (Some bs) len c = (IAP_WRITER_STORAGE_E_OK, c')"
  shows "mem_read (sim_mem c') a (unat len) = bs"
proof -
  let ?old = "mem_read (sim_mem c) a (unat len)"
  have "\<And>b. b \<in> set ?old \<Longrightarrow> b = 0xFF"
    using assms(2) unat_u32_bound [of len] by (auto simp: set_conv_nth intro!: assms(2) in_range_offset)
  then have "map2 (AND) ?old bs = bs" using assms(1) by (intro map2_and_erased) simp_all
  moreover have "sim_mem c' = mem_write (sim_mem c) a (map2 (AND) ?old bs)"
    using assms(1,3) by (auto simp: RamFlashSim_Write_def Let_def split: if_splits)
  ultimately show ?thesis
    using assms(1) mem_read_write [of bs "sim_mem c" a] unat_u32_bound [of len] by simp
qed

text \<open>The geometry is fixed and no read fault is pending (the tests inject one only to watch an
  error path).\<close>

definition sim_inv :: "u32 \<Rightarrow> size_t \<Rightarrow> u32 \<Rightarrow> RamFlashSimContextType \<Rightarrow> bool" where
  "sim_inv base msize psize c \<longleftrightarrow> sim_base_addr c = base \<and> sim_size c = msize \<and> sim_prog_size c = psize \<and>
     \<not> fail_next_read c"

interpretation ram_storage: storage RamFlashSim_GetStorageOps sim_mem "\<lambda>c x. sim_mem c x = 0xFF"
  "sim_inv base msize psize" for base msize psize
proof unfold_locales
  fix c c' :: RamFlashSimContextType and a n r buf x and bs :: bytes
  note ops = RamFlashSim_GetStorageOps_def
  show "sim_inv base msize psize c' \<and> same_outside sim_mem (\<lambda>c x. sim_mem c x = 0xFF) a (unat n) c c'"
    if "sim_inv base msize psize c" "the (so_erase RamFlashSim_GetStorageOps) a n c = (r, c')"
    using that by (auto simp: ops sim_inv_def RamFlashSim_Erase_def same_outside_def split: if_splits)
  show "sim_mem c' x = 0xFF"
    if "sim_inv base msize psize c" "the (so_erase RamFlashSim_GetStorageOps) a n c = (IAP_WRITER_STORAGE_E_OK, c')" "in_range x a (unat n)"
    using that by (auto simp: ops sim_inv_def RamFlashSim_Erase_def mem_write_def in_range_def split: if_splits)
  show "sim_inv base msize psize c' \<and> same_outside sim_mem (\<lambda>c x. sim_mem c x = 0xFF) a (unat n) c c'"
    if "sim_inv base msize psize c" "length bs = unat n" "the (so_write RamFlashSim_GetStorageOps) a (Some bs) n c = (r, c')"
    using that by (auto simp: ops sim_inv_def RamFlashSim_Write_def Let_def same_outside_def split: if_splits)
  show "mem_read (sim_mem c') a (unat n) = bs"
    if "sim_inv base msize psize c" "length bs = unat n" "the (so_write RamFlashSim_GetStorageOps) a (Some bs) n c = (IAP_WRITER_STORAGE_E_OK, c')"
      "\<And>x. in_range x a (unat n) \<Longrightarrow> sim_mem c x = 0xFF"
    using that sim_write_blank [of bs n a c c'] by (simp add: ops)
  show "sim_inv base msize psize c' \<and> sim_mem c' = sim_mem c \<and> (\<lambda>x. sim_mem c' x = 0xFF) = (\<lambda>x. sim_mem c x = 0xFF)"
    if "sim_inv base msize psize c" "the (so_read RamFlashSim_GetStorageOps) a True n c = (r, buf, c')"
    using that by (auto simp: ops sim_inv_def RamFlashSim_Read_def split: if_splits)
  show "buf = mem_read (sim_mem c) a (unat n)"
    if "sim_inv base msize psize c" "the (so_read RamFlashSim_GetStorageOps) a True n c = (IAP_WRITER_STORAGE_E_OK, buf, c')"
    using that by (auto simp: ops sim_inv_def RamFlashSim_Read_def split: if_splits)
next
  fix c c' :: RamFlashSimContextType and g i b n r v
  show "sim_inv base msize psize c' \<and> sim_mem c' = sim_mem c \<and> (\<lambda>x. sim_mem c' x = 0xFF) = (\<lambda>x. sim_mem c x = 0xFF)"
    if "sim_inv base msize psize c" "so_get_property RamFlashSim_GetStorageOps = Some g" "g i b n c = (r, v, c')"
    using that by (auto simp: sim_inv_def RamFlashSim_GetStorageOps_def RamFlashSim_GetProperty_def Let_def split: if_splits option.splits)
qed (simp_all add: RamFlashSim_GetStorageOps_def)

end
