(* ===== verification/IapSession.thy ===== *)
theory IapSession
  imports RamFlashSim
begin

text \<open>
  What a whole update session of \<open>IapWriter.c\<close> achieves on any storage that keeps the contract
  \<open>storage\<close>: the image in the slot, the frame around the slot, and the verdict of the readback
  verification.  \<open>writer_step\<close> is the transition relation of one context under all operations.
\<close>

section \<open>Verification on a storage that keeps its contract\<close>

context storage
begin

lemma VerifyStep_storage:
  assumes "writer_ops c = ops" "sinv s" "verifying smem c s"
    "IapWriter_VerifyStep c n (Some outs) s = (r, c', outs', s')"
  shows "sinv s'" "smem s' = smem s" "verifying smem c' s'" "writer_ops c' = writer_ops c"
    "config c' = config c" "expected_size c' = expected_size c" "payload_hash c' = payload_hash c"
    "r = IAP_WRITER_E_OK \<Longrightarrow> done_flag (the outs') \<noteq> 0 \<Longrightarrow>
      IapWriter_HashBytes IAP_WRITER_FNV1A_OFFSET_BASIS
        (mem_read (smem s) (slot_addr (config c)) (unat (expected_size c))) = payload_hash c"
proof -
  let ?a = "slot_addr (config c)"
  let ?hash = "IapWriter_HashBytes IAP_WRITER_FNV1A_OFFSET_BASIS"
  have acc: "verify_acc c = ?hash (mem_read (smem s) ?a (unat (verify_pos c)))"
    using assms(3) by (simp add: verifying_def)
  have "sinv s' \<and> smem s' = smem s \<and> verifying smem c' s' \<and> writer_ops c' = writer_ops c \<and>
    config c' = config c \<and> expected_size c' = expected_size c \<and> payload_hash c' = payload_hash c \<and>
    (r = IAP_WRITER_E_OK \<longrightarrow> done_flag (the outs') \<noteq> 0 \<longrightarrow>
      ?hash (mem_read (smem s) ?a (unat (expected_size c))) = payload_hash c)"
    using assms(4)
  proof (cases rule: VerifyStep_cases)
    case error
    then show ?thesis using assms(2,3) acc by (auto simp: verifying_def verify_acc_def verify_pos_def)
  next
    case (storage st buf)
    then show ?thesis using read_frame [OF assms(2)] assms(1,3) acc MapStorageError_ok [of st]
      by (auto simp: verifying_def verify_acc_def verify_pos_def)
  next
    case at_end
    then show ?thesis using assms(2) acc
      by (auto simp: verifying_def verify_acc_def verify_pos_def)
  next
    case (read buf h p)
    have rd: "the (so_read ops) (?a + verify_pos c) True (verify_len c n) s = (IAP_WRITER_STORAGE_E_OK, buf, s')"
      using read(6) assms(1) by simp
    have buf: "buf = mem_read (smem s) (?a + verify_pos c) (unat (verify_len c n))"
      by (rule read_exact [OF assms(2) rd])
    have fr: "sinv s'" "smem s' = smem s" using read_frame [OF assms(2) rd] by simp_all
    have p: "unat p = unat (verify_pos c) + unat (verify_len c n)"
      using verify_advance [OF read(5,4)] read(8) by simp
    have h: "h = ?hash (mem_read (smem s) ?a (unat p))"
      using read(7) buf acc by (simp add: p mem_read_append HashBytes_append)
    then show ?thesis using read fr
      by (auto simp: verifying_def verify_acc_def verify_pos_def split: if_splits)
  qed
  then show "sinv s'" "smem s' = smem s" "verifying smem c' s'" "writer_ops c' = writer_ops c"
    "config c' = config c" "expected_size c' = expected_size c" "payload_hash c' = payload_hash c"
    "r = IAP_WRITER_E_OK \<Longrightarrow> done_flag (the outs') \<noteq> 0 \<Longrightarrow>
      ?hash (mem_read (smem s) ?a (unat (expected_size c))) = payload_hash c" by blast+
qed

lemma verify_loop_storage:
  assumes "verify_loop c outs s = Some (r, c', outs', s')" "writer_ops c = ops" "sinv s" "verifying smem c s"
    "done_flag outs = 0"
  shows "sinv s' \<and> smem s' = smem s \<and> config c' = config c \<and> payload_hash c' = payload_hash c \<and>
    (r = IAP_WRITER_E_OK \<longrightarrow> IapWriter_HashBytes IAP_WRITER_FNV1A_OFFSET_BASIS
        (mem_read (smem s) (slot_addr (config c)) (unat (expected_size c))) = payload_hash c)"
  using assms
proof (induction "unat (expected_size c) - unat (verify_pos c)" arbitrary: c outs s rule: less_induct)
  case less
  obtain st c1 o1 s1 where step:
    "IapWriter_VerifyStep c IAP_WRITER_VERIFY_BUF_SIZE (Some outs) s = (st, c1, o1, s1)"
    by (metis prod_cases4)
  note v = VerifyStep_storage [OF less.prems(2-4) step]
  show ?case
  proof (cases "st = IAP_WRITER_E_OK \<and> done_flag (the o1) = 0")
    case False
    then have "(r, c', outs', s') = (st, c1, the o1, s1)"
      using less.prems(1) step False by (subst (asm) verify_loop.simps) (auto split: if_splits)
    then show ?thesis using v False by auto
  next
    case True
    have run: "verify_loop c1 (the o1) s1 = Some (r, c', outs', s')"
      using less.prems(1) step True by (subst (asm) verify_loop.simps) simp
    have "unat (expected_size c1) - unat (verify_pos c1) < unat (expected_size c) - unat (verify_pos c)"
      by (rule verify_step_progress [OF step]) (use True in simp_all)
    from less.hyps [OF this run] v True less.prems(2) show ?thesis by simp
  qed
qed

text \<open>When the reads of the image succeed, the verdict is the comparison of the hashes.\<close>

lemma verify_loop_verdict:
  assumes "verify_loop c outs s = Some (r, c', outs', s')" "writer_ops c = ops" "sinv s" "verifying smem c s"
    "initialized c" "finalized c" "\<not> active c" "unat (verify_pos c) \<le> unat (expected_size c)"
    "\<And>off n s. sinv s \<Longrightarrow> unat off + unat n \<le> unat (expected_size c) \<Longrightarrow> 0 < unat n \<Longrightarrow>
      fst (the (so_read ops) (slot_addr (config c) + off) True n s) = IAP_WRITER_STORAGE_E_OK"
  shows "r = (if IapWriter_HashBytes IAP_WRITER_FNV1A_OFFSET_BASIS
      (mem_read (smem s) (slot_addr (config c)) (unat (expected_size c))) = payload_hash c
      then IAP_WRITER_E_OK else IAP_WRITER_E_VERIFY)"
  using assms
proof (induction "unat (expected_size c) - unat (verify_pos c)" arbitrary: c outs s rule: less_induct)
  case less
  obtain st c1 o1 s1 where step:
    "IapWriter_VerifyStep c IAP_WRITER_VERIFY_BUF_SIZE (Some outs) s = (st, c1, o1, s1)"
    by (metis prod_cases4)
  note v = VerifyStep_storage [OF less.prems(2-4) step]
  let ?hash = "IapWriter_HashBytes IAP_WRITER_FNV1A_OFFSET_BASIS
      (mem_read (smem s) (slot_addr (config c)) (unat (expected_size c)))"
  have run: "Some (r, c', outs', s') = (if st = IAP_WRITER_E_OK \<and> done_flag (the o1) = 0
      then verify_loop c1 (the o1) s1 else Some (st, c1, the o1, s1))"
    using less.prems(1) step by (subst (asm) verify_loop.simps) simp
  have nz: "IAP_WRITER_VERIFY_BUF_SIZE \<noteq> 0" by (simp add: IAP_WRITER_VERIFY_BUF_SIZE_def)
  from step show ?case
  proof (cases rule: VerifyStep_cases)
    case error
    have "\<not> verify_pos c > expected_size c" using less.prems(8) by (simp add: not_less word_le_nat_alt)
    then show ?thesis using error(3) less.prems(5-7) nz by blast
  next
    case (storage st1 buf)
    then show ?thesis
      using less.prems(9) [OF less.prems(3), of "verify_pos c" "verify_len c IAP_WRITER_VERIFY_BUF_SIZE"]
        verify_len_bounds [OF storage(7) nz] less.prems(2) by simp
  next
    case at_end
    then have "?hash = verify_acc c" using less.prems(4) by (simp add: verifying_def)
    then show ?thesis using run at_end by (auto split: if_splits)
  next
    case (read buf h p)
    show ?thesis
    proof (cases "p = expected_size c")
      case True
      have "?hash = payload_hash c \<longleftrightarrow> h = payload_hash c"
      proof (cases "h = payload_hash c")
        case eq: True
        then show ?thesis using v(8) read True by simp
      next
        case False
        then have "verify_acc c1 = h" "verify_pos c1 = p"
          using read(11) by (simp_all add: verify_acc_def verify_pos_def)
        then show ?thesis using v(2,3,5) False True by (simp add: verifying_def)
      qed
      then show ?thesis using run read True by (auto split: if_splits)
    next
      case False
      have go: "verify_loop c1 (the o1) s1 = Some (r, c', outs', s')" "st = IAP_WRITER_E_OK"
        "done_flag (the o1) = 0"
        using run read False by (auto split: if_splits)
      have lt: "unat (expected_size c1) - unat (verify_pos c1) < unat (expected_size c) - unat (verify_pos c)"
        by (rule verify_step_progress [OF step go(2,3)])
      have c1: "initialized c1" "finalized c1" "\<not> active c1" "verify_pos c1 = p"
        using read False by (simp_all add: verify_pos_def)
      have "unat p \<le> unat (expected_size c)"
        using verify_advance [OF read(5,4)] verify_len_bounds [OF read(5,4)] read(8) by simp
      then show ?thesis
        using less.hyps [OF lt go(1)] v less.prems(2,9) c1 by simp
    qed
  qed
qed

end

section \<open>Whole uploads\<close>

text \<open>The chunks of an upload, each written at the offset reached so far, until one fails.\<close>

fun write_chunks ::
  "'s IapWriterContextType \<Rightarrow> bytes list \<Rightarrow> 's \<Rightarrow> IapWriterStatusType \<times> 's IapWriterContextType \<times> 's" where
  "write_chunks c [] s = (IAP_WRITER_E_OK, c, s)"
| "write_chunks c (b # bs) s =
     (case IapWriter_WriteChunk c (received_size c) (Some b) (of_nat (length b)) s of (r, c, s) \<Rightarrow>
        if r \<noteq> IAP_WRITER_E_OK then (r, c, s) else write_chunks c bs s)"

definition upload_image ::
  "'s IapWriterContextType \<Rightarrow> size_t \<Rightarrow> bytes list \<Rightarrow> 's \<Rightarrow>
   IapWriterStatusType \<times> 's IapWriterContextType \<times> 's" where
  "upload_image c n chunks s =
     (case IapWriter_Begin c n s of (r, c, s) \<Rightarrow>
        if r \<noteq> IAP_WRITER_E_OK then (r, c, s)
        else case write_chunks c chunks s of (r, c, s) \<Rightarrow>
          if r \<noteq> IAP_WRITER_E_OK then (r, c, s)
          else case IapWriter_Finalize c of (r, c) \<Rightarrow> (r, c, s))"

context storage
begin

lemma write_chunks_session:
  assumes "session ops smem blank sinv c s img" "\<And>b. b \<in> set chunks \<Longrightarrow> length b < 4294967296"
    "write_chunks c chunks s = (IAP_WRITER_E_OK, c', s')"
  shows "session ops smem blank sinv c' s' (img @ concat chunks) \<and> config c' = config c \<and>
    expected_size c' = expected_size c \<and>
    same_outside smem blank (slot_addr (config c)) (unat (expected_size c)) s s'"
  using assms
proof (induction chunks arbitrary: c s img)
  case Nil
  then show ?case by simp
next
  case (Cons b bs)
  obtain r c1 s1 where w: "IapWriter_WriteChunk c (received_size c) (Some b) (of_nat (length b)) s = (r, c1, s1)"
    by (metis prod_cases3)
  have ok: "r = IAP_WRITER_E_OK" "write_chunks c1 bs s1 = (IAP_WRITER_E_OK, c', s')"
    using Cons.prems(3) w by (auto split: if_splits)
  have len: "length b = unat (of_nat (length b) :: u32)" using Cons.prems(2) by simp
  note w' = w [unfolded ok(1)]
  note s1 = WriteChunk_session [OF Cons.prems(1) len w']
  have "sinv s" "writer_ops c = ops" using Cons.prems(1) by (simp_all add: session_def)
  note f1 = WriteChunk_frame [OF this len w']
  from Cons.IH [OF s1(1) _ ok(2)] Cons.prems(2) s1(2,3) f1(2)
  show ?case by (auto intro: same_outside_trans)
qed

lemma upload_session:
  assumes "writer_inv c" "writer_ops c = ops" "sinv s" "slot_blank blank c s"
    "\<And>b. b \<in> set chunks \<Longrightarrow> length b < 4294967296"
    "upload_image c n chunks s = (IAP_WRITER_E_OK, c', s')"
  shows "stored ops smem sinv c' s' (concat chunks)" "length (concat chunks) = unat n"
    "config c' = config c" "expected_size c' = n" "verifying smem c' s'"
    "same_outside smem blank (slot_addr (config c)) (unat (slot_size (config c))) s s'"
proof -
  obtain r1 c1 s1 where b: "IapWriter_Begin c n s = (r1, c1, s1)" by (metis prod_cases3)
  then have r1: "r1 = IAP_WRITER_E_OK" using assms(6) by (auto simp: upload_image_def split: if_splits)
  obtain r2 c2 s2 where w: "write_chunks c1 chunks s1 = (r2, c2, s2)" by (metis prod_cases3)
  then have r2: "r2 = IAP_WRITER_E_OK" using assms(6) b r1 by (auto simp: upload_image_def split: if_splits)
  have f: "IapWriter_Finalize c2 = (IAP_WRITER_E_OK, c')" "s' = s2"
    using assms(6) b r1 w r2 by (auto simp: upload_image_def split: prod.splits)
  note b1 = Begin_session [OF assms(1-4) b [unfolded r1]]
  note b2 = Begin_frame [OF assms(1-3) b]
  note w1 = write_chunks_session [OF b1(1) assms(5) w [unfolded r2], simplified]
  note f1 = Finalize_stored [OF conjunct1 [OF w1] f(1)]
  have e: "unat n \<le> unat (slot_size (config c))"
    using b1 by (simp add: session_def writer_inv_def)
  show "stored ops smem sinv c' s' (concat chunks)" "length (concat chunks) = unat n"
    "config c' = config c" "verifying smem c' s'"
    using f1 w1 b1(2,3) f(2) by simp_all
  show "expected_size c' = n" using f(1) w1 b1(2) by (auto simp: IapWriter_Finalize_def split: if_splits)
  show "same_outside smem blank (slot_addr (config c)) (unat (slot_size (config c))) s s'"
    using b2(2) w1 b1(2,3) e f(2) by (auto intro: same_outside_trans same_outside_mono)
qed

lemma FinalizeAndVerify_verdict:
  assumes "writer_inv c" "writer_ops c = ops" "sinv s" "IapWriter_Finalize c = (IAP_WRITER_E_OK, cf)"
    "\<And>off n s. sinv s \<Longrightarrow> unat off + unat n \<le> unat (expected_size c) \<Longrightarrow> 0 < unat n \<Longrightarrow>
      fst (the (so_read ops) (slot_addr (config c) + off) True n s) = IAP_WRITER_STORAGE_E_OK"
  shows "\<exists>c' s'. IapWriter_FinalizeAndVerify c s =
      Some (if IapWriter_HashBytes IAP_WRITER_FNV1A_OFFSET_BASIS
          (mem_read (smem s) (slot_addr (config c)) (unat (expected_size c))) = payload_hash c
        then IAP_WRITER_E_OK else IAP_WRITER_E_VERIFY, c', s') \<and> smem s' = smem s"
proof -
  let ?o = "\<lparr>processed_bytes = 0, total_bytes = 0, done_flag = 0\<rparr>"
  obtain r c' o' s' where run: "verify_loop cf ?o s = Some (r, c', o', s')"
    using verify_loop_terminates [of cf ?o s] by auto
  have cf: "writer_ops cf = ops" "config cf = config c" "expected_size cf = expected_size c"
    "payload_hash cf = payload_hash c" "verify_pos cf = 0" "initialized cf" "finalized cf" "\<not> active cf"
    "verify_acc cf = IAP_WRITER_FNV1A_OFFSET_BASIS"
    using assms(2,4) by (auto simp: IapWriter_Finalize_def verify_pos_def verify_acc_def split: if_splits)
  have ver: "verifying smem cf s" by (simp add: verifying_def cf)
  have "r = (if IapWriter_HashBytes IAP_WRITER_FNV1A_OFFSET_BASIS
      (mem_read (smem s) (slot_addr (config c)) (unat (expected_size c))) = payload_hash c
      then IAP_WRITER_E_OK else IAP_WRITER_E_VERIFY)"
    using verify_loop_verdict [OF run cf(1) assms(3) ver cf(6-8)] assms(5) cf by simp
  moreover have "smem s' = smem s"
    using verify_loop_storage [OF run cf(1) assms(3) ver] by simp
  ultimately show ?thesis using run assms(4) by (simp add: IapWriter_FinalizeAndVerify_def)
qed

end

section \<open>All operations of one context\<close>

text \<open>\<open>prepare\<close> is the assignment of \<open>Iap_PrepareUploadSlot\<close>; \<open>env\<close> is any change to the storage
  the writer does not make.\<close>

inductive writer_step ::
  "'s IapWriterContextType \<times> 's \<Rightarrow> 's IapWriterContextType \<times> 's \<Rightarrow> bool" where
  begin_op: "IapWriter_Begin c n s = (r, c', s') \<Longrightarrow> writer_step (c, s) (c', s')"
| chunk_op: "IapWriter_WriteChunk c off data len s = (r, c', s') \<Longrightarrow> writer_step (c, s) (c', s')"
| finalize_op: "IapWriter_Finalize c = (r, c') \<Longrightarrow> writer_step (c, s) (c', s)"
| verify_op: "IapWriter_VerifyStep c n out s = (r, c', out', s') \<Longrightarrow> writer_step (c, s) (c', s')"
| abort_op: "IapWriter_Abort c = (r, c') \<Longrightarrow> writer_step (c, s) (c', s)"
| prepare: "\<not> active c \<Longrightarrow> writer_step (c, s) (c\<lparr>slot_prepared := True\<rparr>, s)"
| env: "writer_step (c, s) (c, s')"

lemma writer_step_inv: "writer_step cs cs' \<Longrightarrow> writer_inv (fst cs) \<Longrightarrow> writer_inv (fst cs')"
  by (induction rule: writer_step.induct)
    (auto dest: writer_inv_Begin writer_inv_WriteChunk writer_inv_Finalize writer_inv_VerifyStep
      writer_inv_Abort, auto simp: writer_inv_def)

lemma writer_steps_inv: "writer_step\<^sup>*\<^sup>* cs cs' \<Longrightarrow> writer_inv (fst cs) \<Longrightarrow> writer_inv (fst cs')"
  by (induction rule: rtranclp_induct) (auto dest: writer_step_inv)

lemma Begin_config: "IapWriter_Begin c n s = (r, c', s') \<Longrightarrow> initialized c' = initialized c \<and> config c' = config c"
  by (erule Begin_cases) auto

lemma WriteChunk_config:
  assumes "IapWriter_WriteChunk c off data len s = (r, c', s')"
  shows "initialized c' = initialized c \<and> config c' = config c"
proof (cases data)
  case None
  then show ?thesis using assms by (simp add: IapWriter_WriteChunk_def)
next
  case (Some bs)
  then show ?thesis using assms by (auto elim: WriteChunk_cases)
qed

lemma VerifyStep_config:
  assumes "IapWriter_VerifyStep c n out s = (r, c', out', s')"
  shows "initialized c' = initialized c \<and> config c' = config c"
proof (cases out)
  case None
  then show ?thesis using assms by (simp add: IapWriter_VerifyStep_def)
next
  case (Some outs)
  then show ?thesis using assms by (auto elim!: VerifyStep_cases)
qed

lemma writer_step_config:
  "writer_step cs cs' \<Longrightarrow> initialized (fst cs') = initialized (fst cs) \<and> config (fst cs') = config (fst cs)"
  by (induction rule: writer_step.induct)
    (auto dest: Begin_config WriteChunk_config VerifyStep_config,
     auto simp: IapWriter_Finalize_def IapWriter_Abort_def split: if_splits)

lemma writer_steps_config:
  "writer_step\<^sup>*\<^sup>* cs cs' \<Longrightarrow> initialized (fst cs') = initialized (fst cs) \<and> config (fst cs') = config (fst cs)"
  by (induction rule: rtranclp_induct) (auto dest: writer_step_config)

section \<open>Properties\<close>

text \<open>A simulated flash of 64 bytes with 16-byte erase blocks, an initialised writer on the whole
  of it, and an upload of two chunks.\<close>

definition sample_sim :: RamFlashSimContextType where
  "sample_sim = \<lparr>sim_mem = (\<lambda>_. 0), sim_size = 64, sim_base_addr = 0x08000000, sim_erase_size = 16,
     sim_prog_size = 4, fail_next_erase = False, fail_next_write = False, fail_next_read = False\<rparr>"

definition sample_writer :: "RamFlashSimContextType IapWriterContextType" where
  "sample_writer = \<lparr>config = \<lparr>slot_addr = 0x08000000, slot_size = 64, erase_size = 16, prog_size = 4\<rparr>,
     writer_ops = RamFlashSim_GetStorageOps, expected_size = 0, received_size = 0, payload_hash = 0,
     verify_hash = 0, verify_offset = 0, initialized = True, active = False, finalized = False,
     verify_active = False, slot_prepared = False\<rparr>"

lemma sample_writer_inv: "writer_inv sample_writer"
  by (simp add: writer_inv_def sample_writer_def RamFlashSim_GetStorageOps_def)

lemmas upload_defs = IapWriter_Begin_def IapWriter_RoundUp_def IapWriter_IsAligned_def sample_writer_def sample_sim_def
  RamFlashSim_GetStorageOps_def RamFlashSim_Erase_def RamFlashSim_RangeToOffset_def TestFlashMemory_BoundsOk_def
  IapWriter_WriteChunk_def RamFlashSim_Write_def mem_read_def mem_write_def upt_rec

text \<open>C20. Whatever operations run on an initialised writer, in any order and with any outcome of
  the storage, it never accepts more than it announced nor announces more than the slot holds, the
  announced and the accepted size stay multiples of the programming unit, which divides the erase unit, which
  divides the size of the slot, verification never goes beyond the announced size, the writer is never active and
  finalized at once, and a finalized image is complete.\<close>

theorem writer_bounds_always:
  assumes "IapWriter_Init (Some c00) cfg ops s00 = (IAP_WRITER_E_OK, Some c0, s0)"
    and "writer_step\<^sup>*\<^sup>* (c0, s0) (c, s)"
  shows "unat (received_size c) \<le> unat (expected_size c) \<and>
    unat (expected_size c) \<le> unat (slot_size (config c)) \<and>
    unat (prog_size (config c)) dvd unat (received_size c) \<and>
    unat (prog_size (config c)) dvd unat (expected_size c) \<and>
    unat (prog_size (config c)) dvd unat (erase_size (config c)) \<and>
    unat (erase_size (config c)) dvd unat (slot_size (config c)) \<and>
    unat (verify_offset c) \<le> unat (expected_size c) \<and>
    \<not> (active c \<and> finalized c) \<and> (finalized c \<longrightarrow> received_size c = expected_size c)"
  using IapWriter_Init_ok [OF assms(1)] writer_steps_inv [OF assms(2)] writer_steps_config [OF assms(2)]
  by (auto simp: writer_inv_def)

text \<open>An upload of eight bytes of which four have come.\<close>

theorem writer_bounds_always_witness:
  "\<exists>c s. writer_step\<^sup>*\<^sup>* (sample_writer, sample_sim) (c, s) \<and> active c \<and> received_size c = 4 \<and> expected_size c = 8 \<and>
    unat (prog_size (config c)) dvd unat (received_size c) \<and> unat (prog_size (config c)) dvd unat (expected_size c)"
proof -
  have init: "IapWriter_Init (Some sample_writer)
      (Some \<lparr>slot_addr = 0x08000000, slot_size = 64, erase_size = 0, prog_size = 0\<rparr>)
      (Some RamFlashSim_GetStorageOps) sample_sim = (IAP_WRITER_E_OK, Some sample_writer, sample_sim)"
    by (simp add: IapWriter_Init_def IapWriter_GetStoragePropertyU32_def RamFlashSim_GetStorageOps_def
        RamFlashSim_GetProperty_def sample_sim_def sample_writer_def IAP_WRITER_STORAGE_PROP_ERASE_SIZE_def
        IAP_WRITER_STORAGE_PROP_PROG_SIZE_def)
  obtain r1 c1 s1 where b: "IapWriter_Begin sample_writer 8 sample_sim = (r1, c1, s1)" by (metis prod_cases3)
  obtain r2 c2 s2 where w: "IapWriter_WriteChunk c1 0 (Some [1, 2, 3, 4]) 4 s1 = (r2, c2, s2)" by (metis prod_cases3)
  have "active c2 \<and> received_size c2 = 4 \<and> expected_size c2 = 8"
    using b w by (auto simp: upload_defs)
  moreover have run: "writer_step\<^sup>*\<^sup>* (sample_writer, sample_sim) (c2, s2)"
    using writer_step.begin_op [OF b] writer_step.chunk_op [OF w] by (blast intro: rtranclp.rtrancl_into_rtrancl)
  ultimately show ?thesis using writer_bounds_always [OF init run] by blast
qed

text \<open>C15. On any storage that keeps its contract, an upload all of whose calls succeed leaves
  exactly the concatenated chunks in the slot, announced length included, changes no byte outside
  the slot, and records the FNV-1a hash of the image.\<close>

theorem upload_stores_image:
  assumes "storage ops smem blank sinv" "writer_inv c" "writer_ops c = ops" "sinv s"
    and "slot_blank blank c s" "\<forall>b\<in>set chunks. length b < 4294967296"
    and "upload_image c n chunks s = (IAP_WRITER_E_OK, c', s')"
  shows "length (concat chunks) = unat n \<and>
    mem_read (smem s') (slot_addr (config c)) (unat n) = concat chunks \<and>
    (\<forall>x. \<not> in_range x (slot_addr (config c)) (unat (slot_size (config c))) \<longrightarrow> smem s' x = smem s x) \<and>
    payload_hash c' = IapWriter_HashBytes IAP_WRITER_FNV1A_OFFSET_BASIS (concat chunks)"
proof -
  have "\<And>b. b \<in> set chunks \<Longrightarrow> length b < 4294967296" using assms(6) by blast
  note u = storage.upload_session [OF assms(1-5) this assms(7)]
  then show ?thesis by (auto simp: stored_def same_outside_def)
qed

theorem upload_stores_image_witness:
  "fst (upload_image sample_writer 8 [[1, 2, 3, 4], [5, 6, 7, 8]] sample_sim) = IAP_WRITER_E_OK \<and>
   mem_read (sim_mem (snd (snd (upload_image sample_writer 8 [[1, 2, 3, 4], [5, 6, 7, 8]] sample_sim))))
     0x08000000 8 = [1, 2, 3, 4, 5, 6, 7, 8]"
proof -
  let ?cs = "[[1, 2, 3, 4], [5, 6, 7, 8]] :: bytes list"
  obtain r c' s' where run: "upload_image sample_writer 8 ?cs sample_sim = (r, c', s')"
    by (metis prod_cases3)
  have "fst (upload_image sample_writer 8 ?cs sample_sim) = IAP_WRITER_E_OK"
    by (simp add: upload_image_def upload_defs IapWriter_Finalize_def)
  then have ok: "r = IAP_WRITER_E_OK" using run by simp
  have "slot_blank (\<lambda>c x. sim_mem c x = 0xFF) sample_writer sample_sim"
    by (simp add: slot_blank_def sample_writer_def)
  moreover have "sim_inv 0x08000000 64 4 sample_sim" by (simp add: sim_inv_def sample_sim_def)
  ultimately show ?thesis
    using upload_stores_image [OF ram_storage.storage_axioms sample_writer_inv _ _ _ _ run [unfolded ok]] run ok
    by (simp add: sample_writer_def)
qed

text \<open>\<open>IapWriter_FinalizeAndVerify\<close> always returns, whatever the storage does.\<close>

theorem finalize_and_verify_returns: "\<exists>r c' s'. IapWriter_FinalizeAndVerify c s = Some (r, c', s')"
  using FinalizeAndVerify_terminates [of c s] by auto

text \<open>C24. When the reads of the slot succeed, the verdict of finalize-and-verify is exact: it is
  \<open>IAP_WRITER_E_OK\<close> if the FNV-1a hash of what the slot shows now is the hash of the accepted
  payload, and \<open>IAP_WRITER_E_VERIFY\<close> otherwise; the storage is not changed.\<close>

theorem verify_verdict_exact:
  assumes "storage ops smem blank sinv" "writer_inv c" "writer_ops c = ops" "sinv s"
    and "fst (IapWriter_Finalize c) = IAP_WRITER_E_OK"
    and "\<forall>off n s. sinv s \<and> unat off + unat n \<le> unat (expected_size c) \<and> 0 < unat n \<longrightarrow>
      fst (the (so_read ops) (slot_addr (config c) + off) True n s) = IAP_WRITER_STORAGE_E_OK"
  shows "\<exists>c' s'. IapWriter_FinalizeAndVerify c s =
      Some (if IapWriter_HashBytes IAP_WRITER_FNV1A_OFFSET_BASIS
          (mem_read (smem s) (slot_addr (config c)) (unat (expected_size c))) = payload_hash c
        then IAP_WRITER_E_OK else IAP_WRITER_E_VERIFY, c', s') \<and> smem s' = smem s"
  using storage.FinalizeAndVerify_verdict [OF assms(1-4)] assms(5,6) by (metis surjective_pairing)

theorem verify_verdict_exact_witness:
  "\<exists>c' s'. IapWriter_FinalizeAndVerify (sample_writer\<lparr>active := True, expected_size := 4, received_size := 4,
      payload_hash := IapWriter_HashBytes IAP_WRITER_FNV1A_OFFSET_BASIS [0, 0, 0, 0]\<rparr>) sample_sim =
    Some (IAP_WRITER_E_OK, c', s')"
proof -
  let ?c = "sample_writer\<lparr>active := True, expected_size := 4, received_size := 4,
      payload_hash := IapWriter_HashBytes IAP_WRITER_FNV1A_OFFSET_BASIS [0, 0, 0, 0]\<rparr>"
  have inv: "writer_inv ?c" by (simp add: writer_inv_def sample_writer_def RamFlashSim_GetStorageOps_def)
  have ops: "writer_ops ?c = RamFlashSim_GetStorageOps" by (simp add: sample_writer_def)
  have s: "sim_inv 0x08000000 64 4 sample_sim" by (simp add: sim_inv_def sample_sim_def)
  have f: "fst (IapWriter_Finalize ?c) = IAP_WRITER_E_OK" by (simp add: IapWriter_Finalize_def sample_writer_def)
  have reads: "fst (the (so_read RamFlashSim_GetStorageOps) (slot_addr (config ?c) + off) True n s) = IAP_WRITER_STORAGE_E_OK"
    if "sim_inv 0x08000000 64 4 s \<and> unat off + unat n \<le> unat (expected_size ?c) \<and> 0 < unat n" for off n s
  proof -
    have "unat (0x08000000 + off :: u32) = 0x08000000 + unat off"
      using that by (subst unat_add_small) simp_all
    then show ?thesis using that
      by (auto simp: RamFlashSim_GetStorageOps_def RamFlashSim_Read_def RamFlashSim_RangeToOffset_def
          TestFlashMemory_BoundsOk_def sim_inv_def sample_writer_def)
  qed
  have "mem_read (sim_mem sample_sim) 0x08000000 4 = [0, 0, 0, 0]"
    by (simp add: sample_sim_def mem_read_def upt_rec)
  then show ?thesis
    using verify_verdict_exact [OF ram_storage.storage_axioms inv ops s f] reads
    by (auto simp: sample_writer_def)
qed

end
