(* ===== verification/IapIngest.thy ===== *)
theory IapIngest
  imports IapSession
begin

text \<open>
  The ingest path of an update: \<open>ingest/IapIngestAdapter.c\<close> (realigns chunks of any length to the
  programming unit through a pending buffer), \<open>ingest/UpdateIngestRegistry.c\<close> (the active
  binding) and \<open>ingest/UpdateIngestPipeline.c\<close> (one upload over the binding).  A \<open>void *ctx\<close> is
  the flag that it is not \<open>NULL\<close>: the object behind it is the state \<open>'x\<close> the table's functions
  work on.  For the adapter that is \<open>ingest_state\<close>: its context, the writer it points to (the
  static context of \<open>Iap.c\<close>, kept once) and the storage.  The lemmas show that however an image is
  cut into pushes, the accepted bytes arrive in the slot in order.
\<close>

section \<open>IapIngestAdapter\<close>

datatype UpdateIngestStatusType =
  IAP_UPDATE_INGEST_E_OK | IAP_UPDATE_INGEST_E_PARAM | IAP_UPDATE_INGEST_E_STATE |
  IAP_UPDATE_INGEST_E_UNAVAILABLE | IAP_UPDATE_INGEST_E_SEQUENCE | IAP_UPDATE_INGEST_E_RANGE |
  IAP_UPDATE_INGEST_E_ALIGN | IAP_UPDATE_INGEST_E_BACKEND

record IapIngestAdapterContextType =
  writer_set :: bool
  pending_len :: u32
  pending :: bytes

record 's ingest_state =
  ingest :: IapIngestAdapterContextType
  writer :: "'s IapWriterContextType"
  store :: 's

definition IAP_INGEST_ADAPTER_ALIGN_MAX :: u32 where "IAP_INGEST_ADAPTER_ALIGN_MAX = 64"

fun MapWriterStatus :: "IapWriterStatusType \<Rightarrow> UpdateIngestStatusType" where
  "MapWriterStatus IAP_WRITER_E_OK = IAP_UPDATE_INGEST_E_OK"
| "MapWriterStatus IAP_WRITER_E_PARAM = IAP_UPDATE_INGEST_E_PARAM"
| "MapWriterStatus IAP_WRITER_E_STATE = IAP_UPDATE_INGEST_E_STATE"
| "MapWriterStatus IAP_WRITER_E_SEQUENCE = IAP_UPDATE_INGEST_E_SEQUENCE"
| "MapWriterStatus IAP_WRITER_E_RANGE = IAP_UPDATE_INGEST_E_RANGE"
| "MapWriterStatus IAP_WRITER_E_ALIGN = IAP_UPDATE_INGEST_E_ALIGN"
| "MapWriterStatus _ = IAP_UPDATE_INGEST_E_BACKEND"

definition clear_pending :: "'s ingest_state \<Rightarrow> 's ingest_state" where
  "clear_pending x = x\<lparr>ingest := (ingest x)\<lparr>pending := replicate 64 0, pending_len := 0\<rparr>\<rparr>"

text \<open>The call of \<open>IapWriter_WriteChunk\<close> on the adapter's writer with \<open>bs\<close> as the data.\<close>

definition write_to_writer ::
  "'s ingest_state \<Rightarrow> u32 \<Rightarrow> bytes \<Rightarrow> size_t \<Rightarrow> UpdateIngestStatusType \<times> 's ingest_state" where
  "write_to_writer x off bs len =
     (case IapWriter_WriteChunk (writer x) off (Some (take (unat len) bs)) len (store x) of
        (r, w, s) \<Rightarrow> (MapWriterStatus r, x\<lparr>writer := w, store := s\<rparr>))"

definition ingest_Begin :: "bool \<Rightarrow> size_t \<Rightarrow> 's ingest_state \<Rightarrow> UpdateIngestStatusType \<times> 's ingest_state" where
  "ingest_Begin ctx image_size x =
     (if \<not> ctx \<or> \<not> writer_set (ingest x) then (IAP_UPDATE_INGEST_E_PARAM, x)
      else
        let x = clear_pending x
        in case IapWriter_Begin (writer x) image_size (store x) of
             (r, w, s) \<Rightarrow> (MapWriterStatus r, x\<lparr>writer := w, store := s\<rparr>))"

definition CheckOffsetSequence :: "'s ingest_state \<Rightarrow> u32 \<Rightarrow> UpdateIngestStatusType" where
  "CheckOffsetSequence x off =
     (if off \<noteq> received_size (writer x) + pending_len (ingest x) then IAP_UPDATE_INGEST_E_SEQUENCE
      else IAP_UPDATE_INGEST_E_OK)"

text \<open>The tail of \<open>WriteChunk\<close>, after the pending buffer has been filled and written: \<open>fill\<close> bytes of
  the data went there (\<open>free_len\<close>, 0 if the buffer was empty), \<open>upd\<close> bytes are left.\<close>

definition ingest_write_rest ::
  "u32 \<Rightarrow> u32 \<Rightarrow> u32 \<Rightarrow> u32 \<Rightarrow> bytes \<Rightarrow> 's ingest_state \<Rightarrow> UpdateIngestStatusType \<times> 's ingest_state" where
  "ingest_write_rest prog off fill upd data x =
     (let aligned = (if upd \<ge> prog then upd - upd mod prog else 0);
          remain = upd - aligned;
          x = (if pending_len (ingest x) = 0 \<and> remain > 0
               then x\<lparr>ingest := (ingest x)\<lparr>
                      pending := buf_write (pending (ingest x)) 0 (buf_read data (unat (fill + aligned)) (unat remain)),
                      pending_len := remain\<rparr>\<rparr>
               else x)
      in if aligned = 0 then (IAP_UPDATE_INGEST_E_OK, x)
         else write_to_writer x (off + fill) (drop (unat fill) data) aligned)"

text \<open>The part of \<open>WriteChunk\<close> after the checks: fill the pending buffer, write it when it is full,
  go on with the rest.\<close>

definition ingest_write_checked ::
  "u32 \<Rightarrow> u32 \<Rightarrow> bytes \<Rightarrow> size_t \<Rightarrow> 's ingest_state \<Rightarrow> UpdateIngestStatusType \<times> 's ingest_state" where
  "ingest_write_checked prog off bs len x =
     (let p = pending_len (ingest x)
      in if p > 0 \<and> p > prog then (IAP_UPDATE_INGEST_E_STATE, x)
         else
           let free_len = (if p > 0 then prog - p else 0);
               n = (if len \<ge> free_len then free_len else len);
               x = (if p > 0
                    then x\<lparr>ingest := (ingest x)\<lparr>
                           pending := buf_write (pending (ingest x)) (unat p) (take (unat n) bs),
                           pending_len := p + n\<rparr>\<rparr>
                    else x);
               upd = (if p > 0 then len - n else len);
               updated_offset = (if p > 0 then off - p else 0)
           in if pending_len (ingest x) = prog then
                let (r, x) = write_to_writer x updated_offset (pending (ingest x)) (pending_len (ingest x));
                    x = x\<lparr>ingest := (ingest x)\<lparr>pending_len := 0\<rparr>\<rparr>
                in if r \<noteq> IAP_UPDATE_INGEST_E_OK then (r, x)
                   else ingest_write_rest prog off free_len upd bs x
              else ingest_write_rest prog off free_len upd bs x)"

definition ingest_WriteChunk ::
  "bool \<Rightarrow> u32 \<Rightarrow> bytes option \<Rightarrow> size_t \<Rightarrow> 's ingest_state \<Rightarrow> UpdateIngestStatusType \<times> 's ingest_state" where
  "ingest_WriteChunk ctx off data len x =
     (case (data, so_get_property (writer_ops (writer x))) of
        (Some bs, Some get) \<Rightarrow>
          if \<not> ctx \<or> \<not> writer_set (ingest x) then (IAP_UPDATE_INGEST_E_PARAM, x)
          else if len = 0 then (IAP_UPDATE_INGEST_E_PARAM, x)
          else
            let (st, out, s) = get IAP_WRITER_STORAGE_PROP_PROG_SIZE True 4 (store x);
                prog = (case out of None \<Rightarrow> 0 | Some v \<Rightarrow> v);
                x = x\<lparr>store := s\<rparr>
            in if st \<noteq> IAP_WRITER_STORAGE_E_OK \<or> prog = 0 \<or> IAP_INGEST_ADAPTER_ALIGN_MAX < prog
                 then (IAP_UPDATE_INGEST_E_BACKEND, x)
               else if CheckOffsetSequence x off \<noteq> IAP_UPDATE_INGEST_E_OK
                 then (CheckOffsetSequence x off, x)
               else ingest_write_checked prog off bs len x
      | _ \<Rightarrow> (IAP_UPDATE_INGEST_E_PARAM, x))"

definition ingest_Finalize :: "bool \<Rightarrow> 's ingest_state \<Rightarrow> UpdateIngestStatusType \<times> 's ingest_state" where
  "ingest_Finalize ctx x =
     (if \<not> ctx \<or> \<not> writer_set (ingest x) then (IAP_UPDATE_INGEST_E_PARAM, x)
      else if pending_len (ingest x) \<noteq> 0 then (IAP_UPDATE_INGEST_E_ALIGN, x)
      else case IapWriter_Finalize (writer x) of (r, w) \<Rightarrow> (MapWriterStatus r, x\<lparr>writer := w\<rparr>))"

definition ingest_Abort :: "bool \<Rightarrow> 's ingest_state \<Rightarrow> UpdateIngestStatusType \<times> 's ingest_state" where
  "ingest_Abort ctx x =
     (if \<not> ctx \<or> \<not> writer_set (ingest x) then (IAP_UPDATE_INGEST_E_PARAM, x)
      else
        let x = clear_pending x
        in case IapWriter_Abort (writer x) of (r, w) \<Rightarrow> (MapWriterStatus r, x\<lparr>writer := w\<rparr>))"

text \<open>\<open>ctx\<close>, \<open>w\<close>: the two pointers are not \<open>NULL\<close>.\<close>

definition IapIngestAdapter_Init ::
  "bool \<Rightarrow> bool \<Rightarrow> 's ingest_state \<Rightarrow> UpdateIngestStatusType \<times> 's ingest_state" where
  "IapIngestAdapter_Init ctx w x =
     (if \<not> ctx \<or> \<not> w then (IAP_UPDATE_INGEST_E_PARAM, x)
      else (IAP_UPDATE_INGEST_E_OK, x\<lparr>ingest := (ingest x)\<lparr>writer_set := True\<rparr>\<rparr>))"

section \<open>UpdateIngestRegistry\<close>

record 'x UpdateIngestVTableType =
  vt_begin :: "(bool \<Rightarrow> size_t \<Rightarrow> 'x \<Rightarrow> UpdateIngestStatusType \<times> 'x) option"
  vt_write_chunk :: "(bool \<Rightarrow> u32 \<Rightarrow> bytes option \<Rightarrow> size_t \<Rightarrow> 'x \<Rightarrow> UpdateIngestStatusType \<times> 'x) option"
  vt_finalize :: "(bool \<Rightarrow> 'x \<Rightarrow> UpdateIngestStatusType \<times> 'x) option"
  vt_abort :: "(bool \<Rightarrow> 'x \<Rightarrow> UpdateIngestStatusType \<times> 'x) option"

record 'x UpdateIngestBindingType =
  vtable :: "'x UpdateIngestVTableType option"
  binding_ctx :: bool

record 'x UpdateIngestRegistry =
  ActiveBinding :: "'x UpdateIngestBindingType"
  HasBinding :: u8

definition IapIngestAdapter_GetVTable :: "'s ingest_state UpdateIngestVTableType" where
  "IapIngestAdapter_GetVTable = \<lparr>vt_begin = Some ingest_Begin, vt_write_chunk = Some ingest_WriteChunk,
     vt_finalize = Some ingest_Finalize, vt_abort = Some ingest_Abort\<rparr>"

definition null_binding :: "'x UpdateIngestBindingType" where
  "null_binding = \<lparr>vtable = None, binding_ctx = False\<rparr>"

definition UpdateIngestRegistry_Register ::
  "'x UpdateIngestVTableType option \<Rightarrow> bool \<Rightarrow> 'x UpdateIngestRegistry \<Rightarrow>
   UpdateIngestStatusType \<times> 'x UpdateIngestRegistry" where
  "UpdateIngestRegistry_Register vt ctx reg =
     (case vt of None \<Rightarrow> (IAP_UPDATE_INGEST_E_PARAM, reg)
      | Some v \<Rightarrow>
          if vt_begin v = None \<or> vt_write_chunk v = None \<or> vt_finalize v = None \<or> vt_abort v = None
          then (IAP_UPDATE_INGEST_E_PARAM, reg)
          else (IAP_UPDATE_INGEST_E_OK, \<lparr>ActiveBinding = \<lparr>vtable = vt, binding_ctx = ctx\<rparr>, HasBinding = 1\<rparr>))"

definition UpdateIngestRegistry_Get ::
  "bool \<Rightarrow> 'x UpdateIngestRegistry \<Rightarrow> UpdateIngestStatusType \<times> 'x UpdateIngestBindingType option" where
  "UpdateIngestRegistry_Get given reg =
     (if \<not> given then (IAP_UPDATE_INGEST_E_PARAM, None)
      else if HasBinding reg = 0 then (IAP_UPDATE_INGEST_E_UNAVAILABLE, None)
      else (IAP_UPDATE_INGEST_E_OK, Some (ActiveBinding reg)))"

definition UpdateIngestRegistry_Clear :: "'x UpdateIngestRegistry \<Rightarrow> 'x UpdateIngestRegistry" where
  "UpdateIngestRegistry_Clear reg = \<lparr>ActiveBinding = null_binding, HasBinding = 0\<rparr>"

section \<open>UpdateIngestPipeline\<close>

record 'x UpdateIngestPipelineContextType =
  binding :: "'x UpdateIngestBindingType"
  pl_expected :: u32
  pl_received :: u32
  pl_active :: u8

definition UpdateIngestPipeline_Reset :: "'x UpdateIngestPipelineContextType" where
  "UpdateIngestPipeline_Reset = \<lparr>binding = null_binding, pl_expected = 0, pl_received = 0, pl_active = 0\<rparr>"

text \<open>The context argument of the pipeline is not \<open>NULL\<close>: every caller passes the address of a
  member of its connection state.  The function pointers of an active pipeline come from a
  registered table, which has them all.\<close>

definition UpdateIngestPipeline_Begin ::
  "'x UpdateIngestPipelineContextType \<Rightarrow> u32 \<Rightarrow> 'x UpdateIngestRegistry \<Rightarrow> 'x \<Rightarrow>
   UpdateIngestStatusType \<times> 'x UpdateIngestPipelineContextType \<times> 'x" where
  "UpdateIngestPipeline_Begin pl content_size reg x =
     (if content_size = 0 then (IAP_UPDATE_INGEST_E_PARAM, pl, x)
      else case UpdateIngestRegistry_Get True reg of
        (st, b) \<Rightarrow>
          if st \<noteq> IAP_UPDATE_INGEST_E_OK then (st, UpdateIngestPipeline_Reset, x)
          else case the (vt_begin (the (vtable (the b)))) (binding_ctx (the b)) content_size x of
            (st, x) \<Rightarrow>
              if st \<noteq> IAP_UPDATE_INGEST_E_OK then (st, UpdateIngestPipeline_Reset, x)
              else (IAP_UPDATE_INGEST_E_OK,
                    \<lparr>binding = the b, pl_expected = content_size, pl_received = 0, pl_active = 1\<rparr>, x))"

definition UpdateIngestPipeline_Push ::
  "'x UpdateIngestPipelineContextType \<Rightarrow> bytes option \<Rightarrow> size_t \<Rightarrow> 'x \<Rightarrow>
   UpdateIngestStatusType \<times> 'x UpdateIngestPipelineContextType \<times> 'x" where
  "UpdateIngestPipeline_Push pl data len x =
     (if pl_active pl = 0 \<or> data = None \<or> len = 0 \<or> len > UINT32_MAX then (IAP_UPDATE_INGEST_E_PARAM, pl, x)
      else if pl_received pl > pl_expected pl \<or> len > pl_expected pl - pl_received pl
        then (IAP_UPDATE_INGEST_E_RANGE, pl, x)
      else case the (vt_write_chunk (the (vtable (binding pl)))) (binding_ctx (binding pl)) (pl_received pl)
                  data len x of
        (st, x) \<Rightarrow>
          if st \<noteq> IAP_UPDATE_INGEST_E_OK then (st, pl, x)
          else (IAP_UPDATE_INGEST_E_OK, pl\<lparr>pl_received := pl_received pl + len\<rparr>, x))"

definition UpdateIngestPipeline_Finish ::
  "'x UpdateIngestPipelineContextType \<Rightarrow> 'x \<Rightarrow>
   UpdateIngestStatusType \<times> 'x UpdateIngestPipelineContextType \<times> 'x" where
  "UpdateIngestPipeline_Finish pl x =
     (if pl_active pl = 0 then (IAP_UPDATE_INGEST_E_STATE, pl, x)
      else if pl_received pl \<noteq> pl_expected pl then
        (case the (vt_abort (the (vtable (binding pl)))) (binding_ctx (binding pl)) x of
           (_, x) \<Rightarrow> (IAP_UPDATE_INGEST_E_STATE, UpdateIngestPipeline_Reset, x))
      else case the (vt_finalize (the (vtable (binding pl)))) (binding_ctx (binding pl)) x of
        (st, x) \<Rightarrow> (st, UpdateIngestPipeline_Reset, x))"

definition UpdateIngestPipeline_Abort ::
  "'x UpdateIngestPipelineContextType \<Rightarrow> 'x \<Rightarrow>
   UpdateIngestStatusType \<times> 'x UpdateIngestPipelineContextType \<times> 'x" where
  "UpdateIngestPipeline_Abort pl x =
     (if pl_active pl = 0 then (IAP_UPDATE_INGEST_E_STATE, pl, x)
      else case the (vt_abort (the (vtable (binding pl)))) (binding_ctx (binding pl)) x of
        (st, x) \<Rightarrow> (st, UpdateIngestPipeline_Reset, x))"

section \<open>Accepted bytes arrive in order\<close>

text \<open>A storage that also reports its programming unit.\<close>

locale storage_prog = storage ops smem blank sinv
  for ops :: "'s storage_ops" and smem blank sinv +
  fixes prog :: u32
  assumes prog_property: "sinv s \<Longrightarrow> \<exists>g s'. so_get_property ops = Some g \<and>
      g IAP_WRITER_STORAGE_PROP_PROG_SIZE True 4 s = (IAP_WRITER_STORAGE_E_OK, Some prog, s')"
    and prog_pos: "prog \<noteq> 0"
    and prog_small: "unat prog \<le> 64"

text \<open>\<open>ingest_acc x acc\<close>: the bytes \<open>acc\<close> have been accepted; all but the last incomplete programming
  unit of them is in the writer's session, the rest is pending.\<close>

definition ingest_acc ::
  "'s storage_ops \<Rightarrow> ('s \<Rightarrow> memory) \<Rightarrow> ('s \<Rightarrow> u32 \<Rightarrow> bool) \<Rightarrow> ('s \<Rightarrow> bool) \<Rightarrow> u32 \<Rightarrow>
   's ingest_state \<Rightarrow> bytes \<Rightarrow> bool" where
  "ingest_acc ops smem blank sinv prog x acc \<longleftrightarrow>
     (\<exists>img. acc = img @ take (unat (pending_len (ingest x))) (pending (ingest x)) \<and>
        session ops smem blank sinv (writer x) (store x) img) \<and>
     writer_set (ingest x) \<and> unat (pending_len (ingest x)) < unat prog \<and>
     length (pending (ingest x)) = 64 \<and> prog_size (config (writer x)) = prog"

text \<open>What the ingest path does not change in a writer.\<close>

definition same_session :: "'s IapWriterContextType \<Rightarrow> 's IapWriterContextType \<Rightarrow> bool" where
  "same_session w w' \<longleftrightarrow> config w' = config w \<and> expected_size w' = expected_size w"

lemma same_session_refl [simp]: "same_session w w"
  by (simp add: same_session_def)

lemma same_session_trans: "same_session w w' \<Longrightarrow> same_session w' w'' \<Longrightarrow> same_session w w''"
  by (simp add: same_session_def)

lemma session_cong:
  "session ops smem blank sinv c s img \<Longrightarrow> sinv s' \<Longrightarrow> smem s' = smem s \<Longrightarrow> blank s' = blank s \<Longrightarrow>
   session ops smem blank sinv c s' img"
  unfolding session_def by auto

lemma MapWriterStatus_ok: "MapWriterStatus r = IAP_UPDATE_INGEST_E_OK \<longleftrightarrow> r = IAP_WRITER_E_OK"
  by (cases r) simp_all

lemma u32_pos: "(0 :: u32) < x \<longleftrightarrow> 0 < unat x"
  by (simp add: word_less_nat_alt)

context storage_prog
begin

lemma write_to_writer_session:
  assumes "session ops smem blank sinv (writer x) (store x) img" "unat len \<le> length bs"
    "write_to_writer x off bs len = (IAP_UPDATE_INGEST_E_OK, x')"
  shows "session ops smem blank sinv (writer x') (store x') (img @ take (unat len) bs) \<and>
    ingest x' = ingest x \<and> same_session (writer x) (writer x') \<and>
    same_outside smem blank (slot_addr (config (writer x))) (unat (expected_size (writer x))) (store x) (store x')"
proof -
  obtain r w s where c: "IapWriter_WriteChunk (writer x) off (Some (take (unat len) bs)) len (store x) = (r, w, s)"
    by (metis prod_cases3)
  then have ok: "r = IAP_WRITER_E_OK" and x': "x' = x\<lparr>writer := w, store := s\<rparr>"
    using assms(3) by (simp_all add: write_to_writer_def MapWriterStatus_ok)
  have len: "length (take (unat len) bs) = unat len" using assms(2) by simp
  have "sinv (store x)" "writer_ops (writer x) = ops" using assms(1) by (simp_all add: session_def)
  note fr = WriteChunk_frame [OF this len c]
  note ses = WriteChunk_session [OF assms(1) len c [unfolded ok]]
  show ?thesis using ses fr x' by (simp add: same_session_def)
qed

lemma ingest_write_rest_acc:
  assumes "session ops smem blank sinv (writer x) (store x) img" "pending_len (ingest x) = 0"
    "writer_set (ingest x)" "length (pending (ingest x)) = 64" "prog_size (config (writer x)) = prog"
    "unat fill + unat upd = length data" "length data < 4294967296"
    "ingest_write_rest prog off fill upd data x = (IAP_UPDATE_INGEST_E_OK, x')"
  shows "ingest_acc ops smem blank sinv prog x' (img @ drop (unat fill) data) \<and>
    same_session (writer x) (writer x') \<and>
    same_outside smem blank (slot_addr (config (writer x))) (unat (expected_size (writer x))) (store x) (store x')"
proof -
  define aligned where "aligned = (if upd \<ge> prog then upd - upd mod prog else 0)"
  define remain where "remain = upd - aligned"
  have p: "0 < unat prog" using prog_pos by (simp add: unat_gt_0)
  have ua: "unat aligned = unat upd - unat upd mod unat prog"
    using p by (auto simp: aligned_def word_le_nat_alt unat_sub_small unat_mod not_le)
  have ur: "unat remain = unat upd mod unat prog"
    unfolding remain_def by (subst unat_sub_small) (simp_all add: ua)
  have rlt: "unat remain < unat prog" using p by (simp add: ur)
  have sum: "unat aligned + unat remain = unat upd" by (simp add: ua ur)
  have fa: "unat (fill + aligned) = unat fill + unat aligned"
    using assms(6,7) sum by (subst unat_add_small) simp_all
  let ?tail = "buf_read data (unat (fill + aligned)) (unat remain)"
  have tail: "length ?tail = unat remain" using assms(6) sum by (simp add: fa)
  define x1 where "x1 = (if pending_len (ingest x) = 0 \<and> remain > 0
      then x\<lparr>ingest := (ingest x)\<lparr>pending := buf_write (pending (ingest x)) 0 ?tail, pending_len := remain\<rparr>\<rparr>
      else x)"
  have x1: "writer x1 = writer x" "store x1 = store x" "pending_len (ingest x1) = remain"
    "take (unat remain) (pending (ingest x1)) = ?tail" "length (pending (ingest x1)) = 64"
    "writer_set (ingest x1)"
    using assms(2-4) tail rlt prog_small
    by (auto simp: x1_def u32_pos buf_write_def word_unat_eq_iff)
  have split: "drop (unat fill) data = take (unat aligned) (drop (unat fill) data) @ ?tail"
  proof -
    have "?tail = drop (unat aligned) (drop (unat fill) data)"
      using assms(6) sum by (simp add: buf_read_def fa add.commute [of "unat aligned"])
    then show ?thesis by (metis append_take_drop_id)
  qed
  have run: "ingest_write_rest prog off fill upd data x =
      (if aligned = 0 then (IAP_UPDATE_INGEST_E_OK, x1)
       else write_to_writer x1 (off + fill) (drop (unat fill) data) aligned)"
    by (simp add: ingest_write_rest_def Let_def aligned_def remain_def x1_def)
  show ?thesis
  proof (cases "aligned = 0")
    case True
    then have "x' = x1" "drop (unat fill) data = ?tail" using run assms(8) split by simp_all
    then show ?thesis
      using assms(1,5) x1 rlt by (auto simp: ingest_acc_def)
  next
    case False
    have "session ops smem blank sinv (writer x1) (store x1) img" using assms(1) x1 by simp
    moreover have "unat aligned \<le> length (drop (unat fill) data)" using assms(6) sum by simp
    moreover have "write_to_writer x1 (off + fill) (drop (unat fill) data) aligned = (IAP_UPDATE_INGEST_E_OK, x')"
      using run assms(8) False by simp
    ultimately have w: "session ops smem blank sinv (writer x') (store x') (img @ take (unat aligned) (drop (unat fill) data)) \<and>
        ingest x' = ingest x1 \<and> same_session (writer x1) (writer x') \<and>
        same_outside smem blank (slot_addr (config (writer x1))) (unat (expected_size (writer x1))) (store x1) (store x')"
      by (rule write_to_writer_session)
    have "ingest_acc ops smem blank sinv prog x' ((img @ take (unat aligned) (drop (unat fill) data)) @ ?tail)"
      unfolding ingest_acc_def using w x1 rlt assms(5) by (auto simp: same_session_def)
    then show ?thesis using w x1 split by simp
  qed
qed

lemma ingest_WriteChunk_acc:
  assumes "ingest_acc ops smem blank sinv prog x acc" "length bs = unat len"
    "ingest_WriteChunk ctx off (Some bs) len x = (IAP_UPDATE_INGEST_E_OK, x')"
  shows "ingest_acc ops smem blank sinv prog x' (acc @ bs) \<and> same_session (writer x) (writer x') \<and>
    same_outside smem blank (slot_addr (config (writer x))) (unat (expected_size (writer x))) (store x) (store x')"
proof -
  let ?p = "pending_len (ingest x)"
  obtain img where acc: "acc = img @ take (unat ?p) (pending (ingest x))"
    and ses: "session ops smem blank sinv (writer x) (store x) img"
    using assms(1) by (auto simp: ingest_acc_def)
  have i: "writer_set (ingest x)" "unat ?p < unat prog" "length (pending (ingest x)) = 64"
    "prog_size (config (writer x)) = prog"
    using assms(1) by (simp_all add: ingest_acc_def)
  have sv: "sinv (store x)" and ops: "writer_ops (writer x) = ops" using ses by (simp_all add: session_def)
  obtain g s1 where g: "so_get_property ops = Some g"
    "g IAP_WRITER_STORAGE_PROP_PROG_SIZE True 4 (store x) = (IAP_WRITER_STORAGE_E_OK, Some prog, s1)"
    using prog_property [OF sv] by blast
  have s1: "sinv s1" "smem s1 = smem (store x)" "blank s1 = blank (store x)"
    using property_frame [OF sv g] by simp_all
  define x1 where "x1 = x\<lparr>store := s1\<rparr>"
  have ses1: "session ops smem blank sinv (writer x1) (store x1) img"
    using session_cong [OF ses] s1 by (simp add: x1_def)
  define free_len where "free_len = (if ?p > 0 then prog - ?p else 0)"
  define n where "n = (if len \<ge> free_len then free_len else len)"
  define x2 where "x2 = (if ?p > 0 then x1\<lparr>ingest := (ingest x)\<lparr>
      pending := buf_write (pending (ingest x)) (unat ?p) (take (unat n) bs), pending_len := ?p + n\<rparr>\<rparr> else x1)"
  define upd where "upd = (if ?p > 0 then len - n else len)"
  have w1: "writer x1 = writer x" "ingest x1 = ingest x" by (simp_all add: x1_def)
  have small: "\<not> IAP_INGEST_ADAPTER_ALIGN_MAX < prog"
    using prog_small by (simp add: IAP_INGEST_ADAPTER_ALIGN_MAX_def word_less_nat_alt)
  have nle: "\<not> ?p > prog" using i(2) by (simp add: word_less_nat_alt)
  have "ingest_write_checked prog off bs len x1 = (IAP_UPDATE_INGEST_E_OK, x')"
    using assms(3) ops g small prog_pos
    by (auto simp: ingest_WriteChunk_def x1_def Let_def split: if_splits)
  then have go: "(if pending_len (ingest x2) = prog then
         let (r, x) = write_to_writer x2 (if ?p > 0 then off - ?p else 0) (pending (ingest x2)) (pending_len (ingest x2));
             x = x\<lparr>ingest := (ingest x)\<lparr>pending_len := 0\<rparr>\<rparr>
         in if r \<noteq> IAP_UPDATE_INGEST_E_OK then (r, x) else ingest_write_rest prog off free_len upd bs x
       else ingest_write_rest prog off free_len upd bs x2) = (IAP_UPDATE_INGEST_E_OK, x')"
    using nle by (simp only: ingest_write_checked_def Let_def w1 free_len_def [symmetric]
        n_def [symmetric] upd_def [symmetric] x2_def [symmetric] simp_thms if_False)
  have bslen: "length bs < 4294967296" using assms(2) unat_u32_bound [of len] by simp
  have same1: "same_outside smem blank (slot_addr (config (writer x))) k (store x) (store x1)" for k
    using s1 by (simp add: same_outside_def x1_def)
  show ?thesis
  proof (cases "unat ?p = 0")
    case True
    then have z: "?p = 0" by (simp add: unat_eq_0)
    then have x2: "x2 = x1" "free_len = 0" "upd = len" by (simp_all add: x2_def free_len_def upd_def)
    have "ingest_write_rest prog off free_len upd bs x1 = (IAP_UPDATE_INGEST_E_OK, x')"
      using go z prog_pos by (simp add: x2 w1)
    from ingest_write_rest_acc [OF ses1 _ _ _ _ _ bslen this] show ?thesis
      using i z w1 acc assms(2) same1 by (auto simp: x2 intro: same_outside_trans)
  next
    case False
    then have pos: "?p > 0" by (simp add: u32_pos)
    have ufree: "unat free_len = unat prog - unat ?p"
      using pos i(2) by (simp add: free_len_def unat_sub_small)
    have un: "unat n = min (unat free_len) (unat len)"
      by (auto simp: n_def word_le_nat_alt)
    have uupd: "unat upd = unat len - unat n" using pos un by (simp add: upd_def unat_sub_small)
    have upn: "unat (?p + n) = unat ?p + unat n"
      using i(2) un ufree prog_small by (subst unat_add_small) simp_all
    have fits: "unat ?p + unat n \<le> 64" using un ufree i(2) prog_small by simp
    have nlen: "length (take (unat n) bs) = unat n" using un assms(2) by simp
    have x2: "pending_len (ingest x2) = ?p + n" "writer x2 = writer x" "store x2 = store x1"
      "writer_set (ingest x2)" "length (pending (ingest x2)) = 64"
      "take (unat ?p + unat n) (pending (ingest x2)) = take (unat ?p) (pending (ingest x)) @ take (unat n) bs"
      using pos i(1,3) fits nlen by (simp_all add: x2_def x1_def) (simp add: buf_write_def)
    have ses2: "session ops smem blank sinv (writer x2) (store x2) img" using ses1 x2 w1 by simp
    show ?thesis
    proof (cases "unat free_len \<le> unat len")
      case True
      then have full: "?p + n = prog" using upn un ufree i(2) by (simp add: word_unat_eq_iff)
      obtain r y where wr: "write_to_writer x2 (off - ?p) (pending (ingest x2)) (pending_len (ingest x2)) = (r, y)"
        by fastforce
      define y1 where "y1 = y\<lparr>ingest := (ingest y)\<lparr>pending_len := 0\<rparr>\<rparr>"
      have r: "r = IAP_UPDATE_INGEST_E_OK" "ingest_write_rest prog off free_len upd bs y1 = (IAP_UPDATE_INGEST_E_OK, x')"
        using go pos full x2(1) wr by (auto simp: y1_def Let_def split: if_splits)
      have plen: "unat (pending_len (ingest x2)) = unat ?p + unat n" using x2(1) upn by simp
      have "unat (pending_len (ingest x2)) \<le> length (pending (ingest x2))" using fits x2(5) plen by simp
      from write_to_writer_session [OF ses2 this wr [unfolded r(1)]]
      have w: "session ops smem blank sinv (writer y) (store y) (acc @ take (unat n) bs)" "ingest y = ingest x2"
        "same_session (writer x2) (writer y)"
        "same_outside smem blank (slot_addr (config (writer x2))) (unat (expected_size (writer x2))) (store x2) (store y)"
        by (simp_all add: plen x2(6) acc)
      have y1: "writer y1 = writer y" "store y1 = store y" "pending_len (ingest y1) = 0" "writer_set (ingest y1)"
        "length (pending (ingest y1)) = 64" "prog_size (config (writer y1)) = prog"
        using w(2,3) x2 i(4) by (simp_all add: y1_def same_session_def)
      have nf: "n = free_len" using True by (simp add: n_def word_le_nat_alt)
      have "session ops smem blank sinv (writer y1) (store y1) (acc @ take (unat n) bs)" using w(1) y1 by simp
      from ingest_write_rest_acc [OF this y1(3-6) _ bslen r(2)]
      have "ingest_acc ops smem blank sinv prog x' ((acc @ take (unat n) bs) @ drop (unat free_len) bs) \<and>
        same_session (writer y1) (writer x') \<and>
        same_outside smem blank (slot_addr (config (writer y1))) (unat (expected_size (writer y1))) (store y1) (store x')"
        using uupd un assms(2) nf True by simp
      then show ?thesis
        using w(3,4) y1(1,2) x2(2,3) nf same1 same_session_trans [of "writer x" "writer y" "writer x'"]
        by (auto simp: same_session_def intro: same_outside_trans)
    next
      case short: False
      then have nl: "n = len" by (simp add: n_def word_le_nat_alt)
      have "upd = 0" using uupd nl by (simp add: unat_eq_0 [symmetric])
      moreover have "?p + n \<noteq> prog" using upn un ufree short i(2) by (simp add: word_unat_eq_iff)
      moreover have "\<not> prog \<le> 0" using prog_pos by simp
      ultimately have "x' = x2"
        using go x2(1) by (simp add: ingest_write_rest_def Let_def)
      moreover have "ingest_acc ops smem blank sinv prog x2 (acc @ bs)"
        unfolding ingest_acc_def using ses2 x2 upn un ufree short i acc nl assms(2)
        by (auto intro!: exI [of _ img])
      ultimately show ?thesis using x2 same1 by simp
    qed
  qed
qed

end

section \<open>Whole uploads through the pipeline\<close>

fun push_all ::
  "'x UpdateIngestPipelineContextType \<Rightarrow> bytes list \<Rightarrow> 'x \<Rightarrow>
   UpdateIngestStatusType \<times> 'x UpdateIngestPipelineContextType \<times> 'x" where
  "push_all pl [] x = (IAP_UPDATE_INGEST_E_OK, pl, x)"
| "push_all pl (b # bs) x =
     (case UpdateIngestPipeline_Push pl (Some b) (of_nat (length b)) x of (r, pl, x) \<Rightarrow>
        if r \<noteq> IAP_UPDATE_INGEST_E_OK then (r, pl, x) else push_all pl bs x)"

definition ingest_image ::
  "'x UpdateIngestPipelineContextType \<Rightarrow> u32 \<Rightarrow> bytes list \<Rightarrow> 'x UpdateIngestRegistry \<Rightarrow> 'x \<Rightarrow>
   UpdateIngestStatusType \<times> 'x UpdateIngestPipelineContextType \<times> 'x" where
  "ingest_image pl n chunks reg x =
     (case UpdateIngestPipeline_Begin pl n reg x of (r, pl, x) \<Rightarrow>
        if r \<noteq> IAP_UPDATE_INGEST_E_OK then (r, pl, x)
        else case push_all pl chunks x of (r, pl, x) \<Rightarrow>
          if r \<noteq> IAP_UPDATE_INGEST_E_OK then (r, pl, x) else UpdateIngestPipeline_Finish pl x)"

text \<open>The binding \<open>Iap_Init\<close> registers.\<close>

definition adapter_binding :: "'s ingest_state UpdateIngestBindingType" where
  "adapter_binding = \<lparr>vtable = Some IapIngestAdapter_GetVTable, binding_ctx = True\<rparr>"

context storage_prog
begin

lemma ingest_Begin_acc:
  assumes "writer_inv (writer x)" "writer_ops (writer x) = ops" "sinv (store x)"
    "slot_blank blank (writer x) (store x)" "prog_size (config (writer x)) = prog"
    "ingest_Begin ctx n x = (IAP_UPDATE_INGEST_E_OK, x')"
  shows "ingest_acc ops smem blank sinv prog x' []" "expected_size (writer x') = n"
    "config (writer x') = config (writer x)"
    "same_outside smem blank (slot_addr (config (writer x))) (unat (slot_size (config (writer x)))) (store x) (store x')"
    "unat n \<le> unat (slot_size (config (writer x)))"
proof -
  obtain r w s where b: "IapWriter_Begin (writer x) n (store x) = (r, w, s)" by (metis prod_cases3)
  have x': "r = IAP_WRITER_E_OK" "writer_set (ingest x)" "x' = (clear_pending x)\<lparr>writer := w, store := s\<rparr>"
    using assms(6) b by (auto simp: ingest_Begin_def clear_pending_def MapWriterStatus_ok split: if_splits)
  note ses = Begin_session [OF assms(1-4) b [unfolded x'(1)]]
  have pos: "0 < unat prog" using prog_pos by (simp add: unat_gt_0)
  show "ingest_acc ops smem blank sinv prog x' []"
    using ses(1,3) x' pos assms(5) by (simp add: ingest_acc_def clear_pending_def)
  show "expected_size (writer x') = n" "config (writer x') = config (writer x)"
    using ses x' by simp_all
  show "same_outside smem blank (slot_addr (config (writer x))) (unat (slot_size (config (writer x)))) (store x) (store x')"
    using Begin_frame(2) [OF assms(1-3) b] x' by simp
  show "unat n \<le> unat (slot_size (config (writer x)))"
    using ses by (simp add: session_def writer_inv_def)
qed

lemma push_all_acc:
  assumes "ingest_acc ops smem blank sinv prog x acc" "binding pl = adapter_binding"
    "\<And>b. b \<in> set chunks \<Longrightarrow> length b < 4294967296"
    "push_all pl chunks x = (IAP_UPDATE_INGEST_E_OK, pl', x')"
  shows "ingest_acc ops smem blank sinv prog x' (acc @ concat chunks) \<and> same_session (writer x) (writer x') \<and>
    same_outside smem blank (slot_addr (config (writer x))) (unat (expected_size (writer x))) (store x) (store x') \<and>
    binding pl' = adapter_binding"
  using assms
proof (induction chunks arbitrary: pl x acc)
  case Nil
  then show ?case by simp
next
  case (Cons b bs)
  obtain r pl1 x1 where p: "UpdateIngestPipeline_Push pl (Some b) (of_nat (length b)) x = (r, pl1, x1)"
    by (metis prod_cases3)
  have ok: "r = IAP_UPDATE_INGEST_E_OK" "push_all pl1 bs x1 = (IAP_UPDATE_INGEST_E_OK, pl', x')"
    using Cons.prems(4) p by (auto split: if_splits)
  have w: "ingest_WriteChunk True (pl_received pl) (Some b) (of_nat (length b)) x = (IAP_UPDATE_INGEST_E_OK, x1)"
    "binding pl1 = adapter_binding"
    using p ok(1) Cons.prems(2)
    by (auto simp: UpdateIngestPipeline_Push_def adapter_binding_def IapIngestAdapter_GetVTable_def
        split: if_splits prod.splits)
  have "length b = unat (of_nat (length b) :: u32)" using Cons.prems(3) by simp
  note w1 = ingest_WriteChunk_acc [OF Cons.prems(1) this w(1)]
  from Cons.IH [OF conjunct1 [OF w1] w(2) _ ok(2)] Cons.prems(3) w1
  show ?case by (auto simp: same_session_def intro: same_outside_trans)
qed

lemma ingest_image_stored:
  assumes "writer_inv (writer x)" "writer_ops (writer x) = ops" "sinv (store x)"
    "slot_blank blank (writer x) (store x)" "prog_size (config (writer x)) = prog"
    "UpdateIngestRegistry_Get True reg = (IAP_UPDATE_INGEST_E_OK, Some adapter_binding)"
    "\<And>b. b \<in> set chunks \<Longrightarrow> length b < 4294967296"
    "ingest_image pl n chunks reg x = (IAP_UPDATE_INGEST_E_OK, pl', x')"
  shows "stored ops smem sinv (writer x') (store x') (concat chunks) \<and> length (concat chunks) = unat n \<and>
    config (writer x') = config (writer x) \<and> verify_pos (writer x') = 0 \<and>
    verifying smem (writer x') (store x') \<and>
    same_outside smem blank (slot_addr (config (writer x))) (unat (slot_size (config (writer x)))) (store x) (store x')"
proof -
  obtain r1 pl1 x1 where b: "UpdateIngestPipeline_Begin pl n reg x = (r1, pl1, x1)" by (metis prod_cases3)
  obtain r2 pl2 x2 where p: "push_all pl1 chunks x1 = (r2, pl2, x2)" by (metis prod_cases3)
  have ok: "r1 = IAP_UPDATE_INGEST_E_OK" "r2 = IAP_UPDATE_INGEST_E_OK"
    "UpdateIngestPipeline_Finish pl2 x2 = (IAP_UPDATE_INGEST_E_OK, pl', x')"
    using assms(8) b p by (auto simp: ingest_image_def split: if_splits)
  have b1: "ingest_Begin True n x = (IAP_UPDATE_INGEST_E_OK, x1)" "binding pl1 = adapter_binding"
    using b ok(1) assms(6)
    by (auto simp: UpdateIngestPipeline_Begin_def adapter_binding_def IapIngestAdapter_GetVTable_def
        split: if_splits prod.splits)
  note acc1 = ingest_Begin_acc [OF assms(1-5) b1(1)]
  note acc2 = push_all_acc [OF acc1(1) b1(2) assms(7) p [unfolded ok(2)], simplified]
  have f: "ingest_Finalize True x2 = (IAP_UPDATE_INGEST_E_OK, x')"
    using ok(3) acc2 by (auto simp: UpdateIngestPipeline_Finish_def adapter_binding_def
        IapIngestAdapter_GetVTable_def split: if_splits prod.splits)
  obtain r w where fin: "IapWriter_Finalize (writer x2) = (r, w)" by fastforce
  have x': "pending_len (ingest x2) = 0" "r = IAP_WRITER_E_OK" "x' = x2\<lparr>writer := w\<rparr>"
    using f fin by (auto simp: ingest_Finalize_def MapWriterStatus_ok split: if_splits)
  have ses: "session ops smem blank sinv (writer x2) (store x2) (concat chunks)"
    using acc2 x'(1) by (auto simp: ingest_acc_def)
  note st = Finalize_stored [OF ses fin [unfolded x'(2)]]
  have pos: "verify_pos w = 0"
    using fin x'(2) by (auto simp: IapWriter_Finalize_def verify_pos_def split: if_splits)
  show ?thesis
    using st acc1 acc2 x' pos by (auto simp: same_session_def intro: same_outside_trans same_outside_mono)
qed

end

section \<open>Properties\<close>

interpretation ram_prog: storage_prog RamFlashSim_GetStorageOps sim_mem "\<lambda>c x. sim_mem c x = 0xFF"
  "sim_inv base msize 4" 4 for base msize
proof unfold_locales
  fix c
  show "\<exists>g s'. so_get_property RamFlashSim_GetStorageOps = Some g \<and>
      g IAP_WRITER_STORAGE_PROP_PROG_SIZE True 4 c = (IAP_WRITER_STORAGE_E_OK, Some 4, s')"
    if "sim_inv base msize 4 c"
    using that by (simp add: RamFlashSim_GetStorageOps_def RamFlashSim_GetProperty_def sim_inv_def
        IAP_WRITER_STORAGE_PROP_PROG_SIZE_def IAP_WRITER_STORAGE_PROP_ERASE_SIZE_def)
qed simp_all

text \<open>C16. However the image is cut into pushes (any lengths, aligned or not), when the pipeline's
  begin, every push and finish succeed, the slot holds exactly the pushed bytes in order, as many
  as announced, and nothing outside the slot has changed.\<close>

theorem pipeline_delivers_image:
  assumes "storage_prog ops smem blank sinv prog"
    and "writer_inv (writer x)" "writer_ops (writer x) = ops" "sinv (store x)"
    and "slot_blank blank (writer x) (store x)" "prog_size (config (writer x)) = prog"
    and "UpdateIngestRegistry_Get True reg = (IAP_UPDATE_INGEST_E_OK, Some adapter_binding)"
    and "\<forall>b\<in>set chunks. length b < 4294967296"
    and "ingest_image pl n chunks reg x = (IAP_UPDATE_INGEST_E_OK, pl', x')"
  shows "length (concat chunks) = unat n \<and>
    mem_read (smem (store x')) (slot_addr (config (writer x))) (unat n) = concat chunks \<and>
    (\<forall>a. \<not> in_range a (slot_addr (config (writer x))) (unat (slot_size (config (writer x)))) \<longrightarrow>
      smem (store x') a = smem (store x) a)"
proof -
  have "\<And>b. b \<in> set chunks \<Longrightarrow> length b < 4294967296" using assms(8) by blast
  from storage_prog.ingest_image_stored [OF assms(1-7) this assms(9)] show ?thesis
    by (auto simp: stored_def same_outside_def)
qed

definition sample_ingest :: "RamFlashSimContextType ingest_state" where
  "sample_ingest = \<lparr>ingest = \<lparr>writer_set = True, pending_len = 0, pending = replicate 64 0\<rparr>,
     writer = sample_writer, store = sample_sim\<rparr>"

definition sample_registry :: "'s ingest_state UpdateIngestRegistry" where
  "sample_registry = \<lparr>ActiveBinding = adapter_binding, HasBinding = 1\<rparr>"

theorem pipeline_delivers_image_witness:
  "\<exists>pl' x'. ingest_image UpdateIngestPipeline_Reset 8 [[1, 2, 3], [4, 5, 6, 7, 8]] sample_registry sample_ingest =
     (IAP_UPDATE_INGEST_E_OK, pl', x') \<and>
   mem_read (sim_mem (store x')) 0x08000000 8 = [1, 2, 3, 4, 5, 6, 7, 8]"
proof -
  let ?cs = "[[1, 2, 3], [4, 5, 6, 7, 8]] :: bytes list"
  obtain r pl' x' where run: "ingest_image UpdateIngestPipeline_Reset 8 ?cs sample_registry sample_ingest = (r, pl', x')"
    by (metis prod_cases3)
  have "fst (ingest_image UpdateIngestPipeline_Reset 8 ?cs sample_registry sample_ingest) = IAP_UPDATE_INGEST_E_OK"
    by (simp add: ingest_image_def UpdateIngestPipeline_Begin_def UpdateIngestRegistry_Get_def
        sample_registry_def adapter_binding_def IapIngestAdapter_GetVTable_def ingest_Begin_def
        UpdateIngestPipeline_Push_def ingest_WriteChunk_def ingest_write_checked_def ingest_write_rest_def
        CheckOffsetSequence_def write_to_writer_def clear_pending_def UpdateIngestPipeline_Finish_def
        ingest_Finalize_def sample_ingest_def buf_write_def buf_read_def IAP_INGEST_ADAPTER_ALIGN_MAX_def
        IapWriter_Begin_def IapWriter_RoundUp_def IapWriter_IsAligned_def Let_def
        sample_writer_def sample_sim_def RamFlashSim_GetStorageOps_def RamFlashSim_Erase_def
        RamFlashSim_RangeToOffset_def TestFlashMemory_BoundsOk_def IapWriter_WriteChunk_def
        RamFlashSim_GetProperty_def IAP_WRITER_STORAGE_PROP_PROG_SIZE_def IAP_WRITER_STORAGE_PROP_ERASE_SIZE_def
        RamFlashSim_Write_def mem_read_def mem_write_def upt_rec IapWriter_Finalize_def)
  then have ok: "r = IAP_UPDATE_INGEST_E_OK" using run by simp
  have pre: "slot_blank (\<lambda>c x. sim_mem c x = 0xFF) (writer sample_ingest) (store sample_ingest)"
    "sim_inv 0x08000000 64 4 (store sample_ingest)" "writer_inv (writer sample_ingest)"
    "UpdateIngestRegistry_Get True sample_registry = (IAP_UPDATE_INGEST_E_OK, Some adapter_binding)"
    using sample_writer_inv
    by (simp_all add: slot_blank_def sample_ingest_def sample_writer_def sim_inv_def sample_sim_def
        UpdateIngestRegistry_Get_def sample_registry_def)
  from pipeline_delivers_image [OF ram_prog.storage_prog_axioms pre(3) _ pre(2) pre(1) _ pre(4) _ run [unfolded ok]]
  have "mem_read (sim_mem (store x')) 0x08000000 8 = [1, 2, 3, 4, 5, 6, 7, 8]"
    by (simp add: sample_ingest_def sample_writer_def)
  with run ok show ?thesis by blast
qed

end
