(* ===== verification/IapFlashAdapter.thy ===== *)
theory IapFlashAdapter
  imports Flash IapWriter
begin

text \<open>
  \<open>app/services/iap/IapFlashAdapter.c\<close>: the storage callbacks of the writer on the flash driver.
  Writes go through an aligned bounce buffer in pieces of at most \<open>max_chunk\<close> bytes.  The state
  is the driver's state and the adapter's context; \<open>bounce_addr\<close> is the address of the context's
  buffer.  On any HAL that keeps \<open>flash_hal\<close> the callbacks keep the writer's contract
  \<open>storage\<close>, stated as a \<open>sublocale\<close>.
\<close>

section \<open>State and operations\<close>

record IapFlashAdapterContextType =
  src_alignment :: u32
  max_chunk :: u32
  bounce_raw :: bytes
  bounce_addr :: u32

record 'h adapter_state =
  fl :: "'h flash_state"
  actx :: IapFlashAdapterContextType

definition IAP_FLASH_ADAPTER_BOUNCE_SIZE :: u32 where "IAP_FLASH_ADAPTER_BOUNCE_SIZE = 1024"

fun IapFlashAdapter_MapFlashStatus :: "FlashStatusType \<Rightarrow> IapWriterStorageStatusType" where
  "IapFlashAdapter_MapFlashStatus FLASH_E_OK = IAP_WRITER_STORAGE_E_OK"
| "IapFlashAdapter_MapFlashStatus FLASH_E_PARAM = IAP_WRITER_STORAGE_E_PARAM"
| "IapFlashAdapter_MapFlashStatus FLASH_E_RANGE = IAP_WRITER_STORAGE_E_RANGE"
| "IapFlashAdapter_MapFlashStatus FLASH_E_ALIGN = IAP_WRITER_STORAGE_E_ALIGN"
| "IapFlashAdapter_MapFlashStatus FLASH_E_VERIFY = IAP_WRITER_STORAGE_E_VERIFY"
| "IapFlashAdapter_MapFlashStatus _ = IAP_WRITER_STORAGE_E_IO"

definition IapFlashAdapter_Erase ::
  "'h flash_device \<Rightarrow> u32 \<Rightarrow> size_t \<Rightarrow> 'h adapter_state \<Rightarrow> IapWriterStorageStatusType \<times> 'h adapter_state" where
  "IapFlashAdapter_Erase dev addr len st =
     (let (r, f) = Flash_Erase dev addr len (fl st)
      in (IapFlashAdapter_MapFlashStatus r, st\<lparr>fl := f\<rparr>))"

definition adapter_copy_len :: "u32 \<Rightarrow> u32 \<Rightarrow> u32 \<Rightarrow> u32" where
  "adapter_copy_len maxc prog updated_len =
     (if updated_len > maxc then maxc
      else if updated_len \<ge> prog then (updated_len div prog) * prog
      else 0)"

lemma adapter_copy_len_le: "unat (adapter_copy_len maxc prog n) \<le> unat n"
proof -
  have "unat (n div prog) * unat prog \<le> unat n" by (simp add: unat_div)
  moreover from this have "unat (n div prog * prog) = unat (n div prog) * unat prog"
    using unat_u32_bound [of n] by (intro unat_mult_small) simp
  ultimately show ?thesis by (simp add: adapter_copy_len_def word_less_nat_alt)
qed

text \<open>The loop of \<open>IapFlashAdapter_Write\<close>: every round takes off \<open>copy_len\<close>, which is not 0.\<close>

function adapter_write_loop ::
  "'h flash_device \<Rightarrow> FlashInfoType \<Rightarrow> u32 \<Rightarrow> bytes \<Rightarrow> u32 \<Rightarrow> u32 \<Rightarrow> IapWriterStorageStatusType \<Rightarrow>
   'h adapter_state \<Rightarrow> IapWriterStorageStatusType \<times> 'h adapter_state" where
  "adapter_write_loop dev info addr src updated_len addr_offset res st =
     (if updated_len > 0 then
        let copy_len = adapter_copy_len (max_chunk (actx st)) (prog_size_min info) updated_len
        in if copy_len = 0 then (IAP_WRITER_STORAGE_E_ALIGN, st)
           else
             let data = buf_read src (unat addr_offset) (unat copy_len);
                 st = st\<lparr>actx := (actx st)\<lparr>bounce_raw := buf_write (bounce_raw (actx st)) 0 data\<rparr>\<rparr>;
                 (fr, f) = Flash_Write dev (addr + addr_offset)
                             (Some (bounce_addr (actx st), take (unat copy_len) (bounce_raw (actx st))))
                             copy_len (fl st);
                 st = st\<lparr>fl := f\<rparr>;
                 res = IapFlashAdapter_MapFlashStatus fr
             in if res \<noteq> IAP_WRITER_STORAGE_E_OK then (res, st)
                else adapter_write_loop dev info addr src
                       (if updated_len \<ge> copy_len then updated_len - copy_len else 0)
                       (addr_offset + copy_len) res st
      else (res, st))"
  by pat_completeness auto

termination
proof (relation "measure (\<lambda>(dev, info, addr, src, updated_len, _). unat updated_len)")
  fix updated_len copy_len :: u32 and st :: "'h adapter_state" and info :: FlashInfoType
  assume "copy_len = adapter_copy_len (max_chunk (actx st)) (prog_size_min info) updated_len"
    and nz: "copy_len \<noteq> 0"
  then have "unat copy_len \<le> unat updated_len" by (simp add: adapter_copy_len_le)
  then have "unat (if updated_len \<ge> copy_len then updated_len - copy_len else 0) = unat updated_len - unat copy_len"
    by (simp add: word_le_nat_alt unat_sub_small)
  moreover have "0 < unat copy_len" using nz by (simp add: unat_gt_0)
  ultimately have "unat (if updated_len \<ge> copy_len then updated_len - copy_len else 0) < unat updated_len"
    using \<open>unat copy_len \<le> unat updated_len\<close> by simp
  then show "((dev, info, addr, src, (if updated_len \<ge> copy_len then updated_len - copy_len else 0), x),
      (dev', info', addr', src', updated_len, y)) \<in> measure (\<lambda>(dev, info, addr, src, updated_len, _). unat updated_len)"
    for dev info addr src x dev' info' addr' src' y
    by simp
qed simp

declare adapter_write_loop.simps [simp del]

text \<open>\<open>ctx\<close>: the context pointer of the operations is not \<open>NULL\<close>.\<close>

definition IapFlashAdapter_Write ::
  "'h flash_device \<Rightarrow> bool \<Rightarrow> u32 \<Rightarrow> bytes option \<Rightarrow> size_t \<Rightarrow> 'h adapter_state \<Rightarrow>
   IapWriterStorageStatusType \<times> 'h adapter_state" where
  "IapFlashAdapter_Write dev ctx addr src len st =
     (case src of None \<Rightarrow> (IAP_WRITER_STORAGE_E_PARAM, st)
      | Some bs \<Rightarrow>
        if \<not> ctx then (IAP_WRITER_STORAGE_E_PARAM, st)
        else
          let (gr, info, f) = Flash_GetInfo dev True (fl st); st = st\<lparr>fl := f\<rparr>
          in if gr \<noteq> FLASH_E_OK then (IAP_WRITER_STORAGE_E_IO, st)
             else if max_chunk (actx st) = 0 \<or> prog_size_min (the info) = 0
               then (IAP_WRITER_STORAGE_E_VERIFY, st)
             else if src_alignment (actx st) = 0 \<or> 1024 mod src_alignment (actx st) \<noteq> 0
               then (IAP_WRITER_STORAGE_E_ALIGN, st)
             else adapter_write_loop dev (the info) addr bs len 0 IAP_WRITER_STORAGE_E_OK st)"

definition IapFlashAdapter_Read ::
  "'h flash_device \<Rightarrow> u32 \<Rightarrow> bool \<Rightarrow> size_t \<Rightarrow> 'h adapter_state \<Rightarrow>
   IapWriterStorageStatusType \<times> bytes \<times> 'h adapter_state" where
  "IapFlashAdapter_Read dev addr given len st =
     (let (r, out) = Flash_Read dev addr given len (fl st)
      in (IapFlashAdapter_MapFlashStatus r, (case out of None \<Rightarrow> [] | Some bs \<Rightarrow> bs), st))"

definition IapFlashAdapter_GetProperty ::
  "'h flash_device \<Rightarrow> u16 \<Rightarrow> bool \<Rightarrow> size_t \<Rightarrow> 'h adapter_state \<Rightarrow>
   IapWriterStorageStatusType \<times> u32 option \<times> 'h adapter_state" where
  "IapFlashAdapter_GetProperty dev property_id given value_len st =
     (if \<not> given \<or> value_len \<noteq> 4 then (IAP_WRITER_STORAGE_E_PARAM, None, st)
      else
        let (gr, info, f) = Flash_GetInfo dev True (fl st); st = st\<lparr>fl := f\<rparr>
        in if gr \<noteq> FLASH_E_OK then (IAP_WRITER_STORAGE_E_IO, None, st)
           else
             let out_value =
               (if property_id = IAP_WRITER_STORAGE_PROP_ERASE_SIZE then Some (erase_size_min (the info))
                else if property_id = IAP_WRITER_STORAGE_PROP_PROG_SIZE then Some (prog_size_min (the info))
                else if property_id = IAP_WRITER_STORAGE_PROP_ALIGNMET then Some (source_alignment (the info))
                else None)
             in case out_value of None \<Rightarrow> (IAP_WRITER_STORAGE_E_PARAM, None, st)
                | Some v \<Rightarrow> if v = 0 then (IAP_WRITER_STORAGE_E_PARAM, None, st)
                            else (IAP_WRITER_STORAGE_E_OK, Some v, st))"

text \<open>The table \<open>IapFlashAdapter_InitOps\<close> fills in, with its context pointer set.\<close>

definition adapter_ops :: "'h flash_device \<Rightarrow> 'h adapter_state storage_ops" where
  "adapter_ops dev = \<lparr>so_erase = Some (IapFlashAdapter_Erase dev),
     so_write = Some (IapFlashAdapter_Write dev True), so_read = Some (IapFlashAdapter_Read dev),
     so_get_property = Some (IapFlashAdapter_GetProperty dev)\<rparr>"

text \<open>\<open>ops\<close> and \<open>ctx\<close>: the two pointers are not \<open>NULL\<close>; the table is the second component.\<close>

definition IapFlashAdapter_InitOps ::
  "'h flash_device \<Rightarrow> bool \<Rightarrow> bool \<Rightarrow> 'h adapter_state \<Rightarrow>
   IapWriterStorageStatusType \<times> 'h adapter_state storage_ops option \<times> 'h adapter_state" where
  "IapFlashAdapter_InitOps dev ops ctx st =
     (if \<not> ops \<or> \<not> ctx then (IAP_WRITER_STORAGE_E_PARAM, None, st)
      else
        let (gr, info, f) = Flash_GetInfo dev True (fl st); st = st\<lparr>fl := f\<rparr>; info = the info
        in if gr \<noteq> FLASH_E_OK then (IAP_WRITER_STORAGE_E_IO, None, st)
           else if prog_size_min info = 0 \<or> source_alignment info = 0
             then (IAP_WRITER_STORAGE_E_VERIFY, None, st)
           else if bounce_addr (actx st) mod source_alignment info \<noteq> 0
             then (IAP_WRITER_STORAGE_E_ALIGN, None, st)
           else
             let c = (actx st)\<lparr>src_alignment := source_alignment info,
                   max_chunk := (IAP_FLASH_ADAPTER_BOUNCE_SIZE div prog_size_min info) * prog_size_min info\<rparr>
             in if max_chunk c = 0 then (IAP_WRITER_STORAGE_E_VERIFY, None, st\<lparr>actx := c\<rparr>)
                else (IAP_WRITER_STORAGE_E_OK, Some (adapter_ops dev),
                      st\<lparr>actx := c\<lparr>bounce_raw := replicate 1024 0\<rparr>\<rparr>))"

section \<open>The callbacks keep the writer's contract\<close>

definition adapter_inv :: "'h flash_device \<Rightarrow> ('h \<Rightarrow> bool) \<Rightarrow> 'h adapter_state \<Rightarrow> bool" where
  "adapter_inv dev hal_ok st \<longleftrightarrow> flash_ready dev (Info (fl st)) \<and> hal_ok (hw (fl st)) \<and>
     unat (max_chunk (actx st)) \<le> 1024 \<and> length (bounce_raw (actx st)) = 1024"

lemma MapFlashStatus_ok: "IapFlashAdapter_MapFlashStatus r = IAP_WRITER_STORAGE_E_OK \<longleftrightarrow> r = FLASH_E_OK"
  by (cases r) simp_all

lemma adapter_copy_len_max:
  "unat prog \<le> unat maxc \<Longrightarrow> unat (adapter_copy_len maxc prog n) \<le> unat maxc"
  using adapter_copy_len_le [of maxc prog n]
  by (auto simp: adapter_copy_len_def word_less_nat_alt not_less)

context flash_hal
begin

lemma same_outside_flash:
  "same_outside (\<lambda>st. flash_mem dev (hw (fl st))) (\<lambda>st. erased (hw (fl st))) a n s s' \<longleftrightarrow>
   flash_same_outside dev erased a n (hw (fl s)) (hw (fl s'))"
  by (simp add: same_outside_def flash_same_outside_def)

lemma GetInfo_ready:
  "flash_ready dev (Info f) \<Longrightarrow> Flash_GetInfo dev True f = (FLASH_E_OK, Some (Info f), f)"
  using ready_not_zero by (simp add: Flash_GetInfo_def)

lemma adapter_write_loop_ok:
  fixes len :: size_t
  assumes "adapter_inv dev hal_ok st" "info = Info (fl st)" "length src = unat len"
    "unat off + unat upd = unat len"
    "adapter_write_loop dev info addr src upd off r0 st = (r, st')"
  shows "adapter_inv dev hal_ok st' \<and> flash_same_outside dev erased addr (unat len) (hw (fl st)) (hw (fl st')) \<and>
    (r = IAP_WRITER_STORAGE_E_OK \<longrightarrow> (\<forall>x. in_range x (addr + off) (unat upd) \<longrightarrow> erased (hw (fl st)) x) \<longrightarrow>
      mem_read (flash_mem dev (hw (fl st))) addr (unat off) = take (unat off) src \<longrightarrow>
      mem_read (flash_mem dev (hw (fl st'))) addr (unat len) = src)"
  using assms
proof (induction "unat upd" arbitrary: upd off r0 st rule: less_induct)
  case less
  define n where "n = adapter_copy_len (max_chunk (actx st)) (prog_size_min info) upd"
  have inv: "flash_ready dev (Info (fl st))" "hal_ok (hw (fl st))" "unat (max_chunk (actx st)) \<le> 1024"
    "length (bounce_raw (actx st)) = 1024"
    using less.prems(1) by (simp_all add: adapter_inv_def)
  show ?case
  proof (cases "upd > 0")
    case False
    then have u: "upd = 0" by (simp add: word_gt_0)
    then have "(r, st') = (r0, st)"
      using less.prems(5) by (subst (asm) adapter_write_loop.simps) simp
    then show ?thesis using less.prems u by simp
  next
    case pos: True
    show ?thesis
    proof (cases "n = 0")
      case True
      then have "(r, st') = (IAP_WRITER_STORAGE_E_ALIGN, st)"
        using less.prems(5) pos n_def by (subst (asm) adapter_write_loop.simps) simp
      then show ?thesis using less.prems(1) by simp
    next
      case nz: False
      let ?data = "buf_read src (unat off) (unat n)"
      define st1 where "st1 = st\<lparr>actx := (actx st)\<lparr>bounce_raw := buf_write (bounce_raw (actx st)) 0 ?data\<rparr>\<rparr>"
      have le: "unat n \<le> unat upd" using adapter_copy_len_le n_def by simp
      have bound: "unat len < 4294967296" by (rule unat_u32_bound)
      have dlen: "length ?data = unat n" using le less.prems(3,4) by simp
      have n1024: "unat n \<le> 1024"
      proof -
        have "unat n \<le> unat (max_chunk (actx st)) \<or> \<not> upd > max_chunk (actx st)"
          by (auto simp: n_def adapter_copy_len_def)
        then show ?thesis using inv(3) le by (auto simp: not_less word_le_nat_alt)
      qed
      have bounce: "length (bounce_raw (actx st1)) = 1024" "take (unat n) (bounce_raw (actx st1)) = ?data"
        using dlen n1024 inv(4) by (simp_all add: st1_def) (simp add: buf_write_def)
      obtain fr f where w: "Flash_Write dev (addr + off) (Some (bounce_addr (actx st1), ?data)) n (fl st1) = (fr, f)"
        by fastforce
      define st2 where "st2 = st1\<lparr>fl := f\<rparr>"
      have fl1: "fl st1 = fl st" by (simp add: st1_def)
      note fw = flash_write_ok [OF _ _ dlen w, unfolded fl1, OF inv(1,2)]
      have inv2: "adapter_inv dev hal_ok st2"
        using fw(1,2) inv(1,3) bounce(1) by (simp add: adapter_inv_def st2_def st1_def)
      have fit: "unat off + unat n \<le> unat len" using le less.prems(4) by simp
      have step: "flash_same_outside dev erased (addr + of_nat (unat off)) (unat n) (hw (fl st)) (hw f)"
        using fw(3) by simp
      have same: "flash_same_outside dev erased addr (unat len) (hw (fl st)) (hw f)"
        by (rule flash_same_outside_within [OF step fit]) (use bound in simp)
      have run: "(r, st') = (if IapFlashAdapter_MapFlashStatus fr \<noteq> IAP_WRITER_STORAGE_E_OK
          then (IapFlashAdapter_MapFlashStatus fr, st2)
          else adapter_write_loop dev info addr src (if upd \<ge> n then upd - n else 0) (off + n)
                 (IapFlashAdapter_MapFlashStatus fr) st2)"
        using less.prems(5) [symmetric] pos nz w bounce(2)
        by (subst (asm) adapter_write_loop.simps) (simp add: Let_def n_def [symmetric] st1_def st2_def)
      show ?thesis
      proof (cases "fr = FLASH_E_OK")
        case False
        then show ?thesis using run inv2 same by (auto simp: MapFlashStatus_ok st2_def)
      next
        case ok: True
        have go: "adapter_write_loop dev info addr src (upd - n) (off + n) IAP_WRITER_STORAGE_E_OK st2 = (r, st')"
          using run ok le by (simp add: word_le_nat_alt)
        have upd': "unat (upd - n) = unat upd - unat n" using le by (rule unat_sub_small)
        have off': "unat (off + n) = unat off + unat n" using fit bound by (subst unat_add_small) simp_all
        have "0 < unat n" using nz by (simp add: unat_gt_0)
        then have lt: "unat (upd - n) < unat upd" using le by (simp add: upd')
        have info: "info = Info (fl st2)" using less.prems(2) fw(1) by (simp add: st2_def)
        have IH: "adapter_inv dev hal_ok st' \<and> flash_same_outside dev erased addr (unat len) (hw f) (hw (fl st')) \<and>
          (r = IAP_WRITER_STORAGE_E_OK \<longrightarrow> (\<forall>x. in_range x (addr + off + n) (unat upd - unat n) \<longrightarrow> erased (hw f) x) \<longrightarrow>
            mem_read (flash_mem dev (hw f)) addr (unat off + unat n) = take (unat off + unat n) src \<longrightarrow>
            mem_read (flash_mem dev (hw (fl st'))) addr (unat len) = src)"
          using less.hyps [OF lt inv2 info less.prems(3) _ go] less.prems(4) le
          by (simp add: upd' off' st2_def add.assoc)
        moreover have "mem_read (flash_mem dev (hw f)) addr (unat off + unat n) = take (unat off + unat n) src"
          if er: "\<forall>x. in_range x (addr + off) (unat upd) \<longrightarrow> erased (hw (fl st)) x"
            and pre: "mem_read (flash_mem dev (hw (fl st))) addr (unat off) = take (unat off) src"
        proof -
          have "mem_read (flash_mem dev (hw f)) (addr + off) (unat n) = ?data"
            using fw(5) [OF ok] er le in_range_mono by blast
          moreover have "mem_read (flash_mem dev (hw f)) addr (unat off) = mem_read (flash_mem dev (hw (fl st))) addr (unat off)"
          proof (rule mem_read_cong)
            fix i assume "i < unat off"
            then have "in_range (addr + of_nat i) addr (unat off)"
              using fit bound by (intro in_range_offset) simp_all
            then show "flash_mem dev (hw f) (addr + of_nat i) = flash_mem dev (hw (fl st)) (addr + of_nat i)"
              using flash_same_outside_before [OF step] fit bound by simp
          qed
          ultimately show ?thesis using pre by (simp add: mem_read_append buf_read_def take_add)
        qed
        moreover have "erased (hw f) x"
          if er: "\<forall>x. in_range x (addr + off) (unat upd) \<longrightarrow> erased (hw (fl st)) x"
            and x: "in_range x (addr + off + n) (unat upd - unat n)" for x
        proof -
          have "in_range x (addr + off) (unat upd)" "\<not> in_range x (addr + off) (unat n)"
            using in_range_tail [OF x] le less.prems(4) bound by simp_all
          then show ?thesis using er step by (simp add: flash_same_outside_def)
        qed
        moreover have "flash_same_outside dev erased addr (unat len) (hw (fl st)) (hw (fl st'))"
          by (rule flash_same_outside_trans [OF same]) (use IH in simp)
        ultimately show ?thesis by blast
      qed
    qed
  qed
qed

end

sublocale flash_hal \<subseteq> adapter: storage "adapter_ops dev" "\<lambda>st. flash_mem dev (hw (fl st))"
  "\<lambda>st. erased (hw (fl st))" "adapter_inv dev hal_ok"
proof unfold_locales
  fix s s' and a n r buf x and bs :: bytes
  assume inv: "adapter_inv dev hal_ok s"
  then have ready: "flash_ready dev (Info (fl s))" "hal_ok (hw (fl s))" by (simp_all add: adapter_inv_def)
  show "adapter_inv dev hal_ok s' \<and> same_outside (\<lambda>st. flash_mem dev (hw (fl st))) (\<lambda>st. erased (hw (fl st))) a (unat n) s s'"
    if "the (so_erase (adapter_ops dev)) a n s = (r, s')"
    using that flash_erase_ok(1-3) [OF ready] inv
    by (auto simp: adapter_ops_def IapFlashAdapter_Erase_def adapter_inv_def same_outside_flash Let_def
        split: prod.splits)
  show "erased (hw (fl s')) x"
    if "the (so_erase (adapter_ops dev)) a n s = (IAP_WRITER_STORAGE_E_OK, s')" "in_range x a (unat n)"
    using that flash_erase_ok(4) [OF ready, of a n _ _ x]
    by (auto simp: adapter_ops_def IapFlashAdapter_Erase_def MapFlashStatus_ok split: prod.splits)
  have wr: "(r, s') = (IAP_WRITER_STORAGE_E_VERIFY, s) \<or> (r, s') = (IAP_WRITER_STORAGE_E_ALIGN, s) \<or>
      adapter_write_loop dev (Info (fl s)) a bs n 0 IAP_WRITER_STORAGE_E_OK s = (r, s')"
    if "the (so_write (adapter_ops dev)) a (Some bs) n s = (r, s')" for r
    using that GetInfo_ready [OF ready(1)]
    by (auto simp: adapter_ops_def IapFlashAdapter_Write_def Let_def split: if_splits)
  show "adapter_inv dev hal_ok s' \<and> same_outside (\<lambda>st. flash_mem dev (hw (fl st))) (\<lambda>st. erased (hw (fl st))) a (unat n) s s'"
    if "length bs = unat n" "the (so_write (adapter_ops dev)) a (Some bs) n s = (r, s')"
    using wr [OF that(2)] adapter_write_loop_ok [OF inv refl that(1), of 0 n] inv
    by (auto simp: same_outside_flash)
  show "mem_read (flash_mem dev (hw (fl s'))) a (unat n) = bs"
    if "length bs = unat n" "the (so_write (adapter_ops dev)) a (Some bs) n s = (IAP_WRITER_STORAGE_E_OK, s')"
      "\<And>x. in_range x a (unat n) \<Longrightarrow> erased (hw (fl s)) x"
    using wr [OF that(2)] adapter_write_loop_ok [OF inv refl that(1), of 0 n] that(3) by auto
  show "adapter_inv dev hal_ok s' \<and> flash_mem dev (hw (fl s')) = flash_mem dev (hw (fl s)) \<and>
      erased (hw (fl s')) = erased (hw (fl s))"
    if "the (so_read (adapter_ops dev)) a True n s = (r, buf, s')"
    using that inv by (auto simp: adapter_ops_def IapFlashAdapter_Read_def split: prod.splits)
  show "buf = mem_read (flash_mem dev (hw (fl s))) a (unat n)"
    if "the (so_read (adapter_ops dev)) a True n s = (IAP_WRITER_STORAGE_E_OK, buf, s')"
  proof -
    obtain fr out where rd: "Flash_Read dev a True n (fl s) = (fr, out)" by fastforce
    then have "fr = FLASH_E_OK" "buf = (case out of None \<Rightarrow> [] | Some bs \<Rightarrow> bs)"
      using that by (simp_all add: adapter_ops_def IapFlashAdapter_Read_def MapFlashStatus_ok)
    then show ?thesis using flash_read_ok [OF ready(1) rd] by simp
  qed
next
  fix s s' and g i b n r v
  assume inv: "adapter_inv dev hal_ok s"
  show "adapter_inv dev hal_ok s' \<and> flash_mem dev (hw (fl s')) = flash_mem dev (hw (fl s)) \<and>
      erased (hw (fl s')) = erased (hw (fl s))"
    if "so_get_property (adapter_ops dev) = Some g" "g i b n s = (r, v, s')"
    using that inv GetInfo_ready [of "fl s"]
    by (auto simp: adapter_ops_def adapter_inv_def IapFlashAdapter_GetProperty_def Let_def
        split: if_splits option.splits)
qed (simp_all add: adapter_ops_def)

end
