(* ===== verification/Iap.thy ===== *)
theory Iap
  imports IapIngest IapFlashAdapter
begin

text \<open>
  \<open>app/services/iap/Iap.c\<close>: the static objects of the update service, their initialisation, the
  preparation of the slot and the incremental verification the main loop polls.  \<open>iap_state\<close>
  holds the statics; the writer, the adapter contexts and the flash are its \<open>core\<close>.  The linker
  symbols of \<open>IapCfg.h\<close> are arguments of \<open>Iap_Init\<close>.  The lemmas put the layers together: from
  \<open>Iap_Init\<close> to a verified image in flash on any HAL that keeps its contract.
\<close>

section \<open>State and operations\<close>

datatype IapErrorType = IAP_E_OK | IAP_E_NOT_OK

datatype IapVerifyStateType =
  IAP_VERIFY_STATE_IDLE | IAP_VERIFY_STATE_PENDING | IAP_VERIFY_STATE_VERIFYING |
  IAP_VERIFY_STATE_VERIFIED | IAP_VERIFY_STATE_ERROR

datatype IapPrepareStatusType =
  IAP_PREPARE_E_OK | IAP_PREPARE_E_PARAM | IAP_PREPARE_E_STATE | IAP_PREPARE_E_BACKEND

record IapVerifyRuntimeType =
  vr_state :: IapVerifyStateType
  vr_processed :: u32
  vr_total :: u32

record 's iap_state =
  core :: "'s ingest_state"
  registry :: "'s ingest_state UpdateIngestRegistry"
  IapVerifyRuntime :: IapVerifyRuntimeType

definition IAP_VERIFY_STEP_BYTES :: size_t where "IAP_VERIFY_STEP_BYTES = 1024"

text \<open>The table \<open>IapWriterStorageOperations\<close> is only used by \<open>Iap_Init\<close> itself, which copies it
  into the writer.\<close>

definition Iap_Init ::
  "'h flash_device \<Rightarrow> u32 \<Rightarrow> u32 \<Rightarrow> 'h adapter_state iap_state \<Rightarrow> IapErrorType \<times> 'h adapter_state iap_state" where
  "Iap_Init dev slot_start slot_bytes st =
     (let (fr, f) = Flash_Init dev (fl (store (core st)));
          st = st\<lparr>core := (core st)\<lparr>store := (store (core st))\<lparr>fl := f\<rparr>\<rparr>\<rparr>
      in if fr \<noteq> FLASH_E_OK then (IAP_E_NOT_OK, st)
         else
      let (sr, ops, s) = IapFlashAdapter_InitOps dev True True (store (core st));
          st = st\<lparr>core := (core st)\<lparr>store := s\<rparr>\<rparr>
      in if sr \<noteq> IAP_WRITER_STORAGE_E_OK then (IAP_E_NOT_OK, st)
         else
      let (wr, w, s) = IapWriter_Init (Some (writer (core st)))
            (Some \<lparr>slot_addr = slot_start, slot_size = slot_bytes, erase_size = 0, prog_size = 0\<rparr>)
            ops (store (core st));
          st = st\<lparr>core := (core st)\<lparr>writer := the w, store := s\<rparr>\<rparr>
      in if wr \<noteq> IAP_WRITER_E_OK then (IAP_E_NOT_OK, st)
         else
      let (ir, x) = IapIngestAdapter_Init True True (core st); st = st\<lparr>core := x\<rparr>
      in if ir \<noteq> IAP_UPDATE_INGEST_E_OK then (IAP_E_NOT_OK, st)
         else
      let (rr, reg) = UpdateIngestRegistry_Register (Some IapIngestAdapter_GetVTable) True (registry st);
          st = st\<lparr>registry := reg\<rparr>
      in if rr \<noteq> IAP_UPDATE_INGEST_E_OK then (IAP_E_NOT_OK, st) else (IAP_E_OK, st))"

definition Iap_VerifyReset :: "'s iap_state \<Rightarrow> 's iap_state" where
  "Iap_VerifyReset st = st\<lparr>IapVerifyRuntime :=
     \<lparr>vr_state = IAP_VERIFY_STATE_IDLE, vr_processed = 0, vr_total = 0\<rparr>\<rparr>"

definition Iap_DeInit :: "'s iap_state \<Rightarrow> IapErrorType \<times> 's iap_state" where
  "Iap_DeInit st = (IAP_E_OK, Iap_VerifyReset (st\<lparr>registry := UpdateIngestRegistry_Clear (registry st)\<rparr>))"

definition Iap_VerifyRequest :: "'s iap_state \<Rightarrow> 's iap_state" where
  "Iap_VerifyRequest st =
     (let w = Some (writer (core st))
      in if 0 = IapWriter_IsFinalized w
         then st\<lparr>IapVerifyRuntime := \<lparr>vr_state = IAP_VERIFY_STATE_ERROR, vr_processed = 0,
                  vr_total = IapWriter_GetExpectedSize w\<rparr>\<rparr>
         else st\<lparr>IapVerifyRuntime := \<lparr>vr_state = IAP_VERIFY_STATE_PENDING, vr_processed = 0,
                  vr_total = IapWriter_GetExpectedSize w\<rparr>\<rparr>)"

definition set_verify_state :: "IapVerifyStateType \<Rightarrow> 's iap_state \<Rightarrow> 's iap_state" where
  "set_verify_state v st = st\<lparr>IapVerifyRuntime := (IapVerifyRuntime st)\<lparr>vr_state := v\<rparr>\<rparr>"

text \<open>The step of a running verification.\<close>

definition verify_poll_step :: "'s iap_state \<Rightarrow> 's iap_state" where
  "verify_poll_step st =
     (case IapWriter_VerifyStep (writer (core st)) IAP_VERIFY_STEP_BYTES
             (Some \<lparr>processed_bytes = 0, total_bytes = 0, done_flag = 0\<rparr>) (store (core st)) of
        (r, w, out, s) \<Rightarrow>
          let st = st\<lparr>core := (core st)\<lparr>writer := w, store := s\<rparr>\<rparr>
          in if r \<noteq> IAP_WRITER_E_OK then set_verify_state IAP_VERIFY_STATE_ERROR st
             else
               let st = st\<lparr>IapVerifyRuntime := (IapVerifyRuntime st)\<lparr>vr_processed := processed_bytes (the out),
                             vr_total := total_bytes (the out)\<rparr>\<rparr>
               in if done_flag (the out) \<noteq> 0 then set_verify_state IAP_VERIFY_STATE_VERIFIED st else st)"

definition Iap_VerifyPoll :: "'s iap_state \<Rightarrow> 's iap_state" where
  "Iap_VerifyPoll st =
     (if vr_state (IapVerifyRuntime st) = IAP_VERIFY_STATE_PENDING then
        if 0 = IapWriter_IsFinalized (Some (writer (core st)))
        then set_verify_state IAP_VERIFY_STATE_ERROR st
        else verify_poll_step (set_verify_state IAP_VERIFY_STATE_VERIFYING st)
      else if vr_state (IapVerifyRuntime st) \<noteq> IAP_VERIFY_STATE_VERIFYING then st
      else verify_poll_step st)"

definition Iap_GetVerifyStatus :: "'s iap_state \<Rightarrow> IapVerifyStateType \<times> u32 \<times> u32" where
  "Iap_GetVerifyStatus st = (vr_state (IapVerifyRuntime st), vr_processed (IapVerifyRuntime st),
     vr_total (IapVerifyRuntime st))"

definition Iap_IsVerified :: "'s iap_state \<Rightarrow> u8" where
  "Iap_IsVerified st = (if vr_state (IapVerifyRuntime st) = IAP_VERIFY_STATE_VERIFIED then 1 else 0)"

definition Iap_PrepareUploadSlot :: "'s iap_state \<Rightarrow> IapPrepareStatusType \<times> 's iap_state" where
  "Iap_PrepareUploadSlot st =
     (let w = writer (core st)
      in if \<not> initialized w then (IAP_PREPARE_E_PARAM, st)
         else if active w then (IAP_PREPARE_E_STATE, st)
         else case so_erase (writer_ops w) of
           None \<Rightarrow> (IAP_PREPARE_E_PARAM, st)
         | Some er \<Rightarrow>
             case er (slot_addr (config w)) (slot_size (config w)) (store (core st)) of
               (r, s) \<Rightarrow>
                 let st = st\<lparr>core := (core st)\<lparr>store := s\<rparr>\<rparr>
                 in if r \<noteq> IAP_WRITER_STORAGE_E_OK then (IAP_PREPARE_E_BACKEND, st)
                    else (IAP_PREPARE_E_OK,
                          Iap_VerifyReset (st\<lparr>core := (core st)\<lparr>writer := w\<lparr>slot_prepared := True\<rparr>\<rparr>\<rparr>)))"

section \<open>The verification state machine\<close>

definition verify_state :: "'s iap_state \<Rightarrow> IapVerifyStateType" where
  "verify_state st = vr_state (IapVerifyRuntime st)"

lemma verify_state_simps [simp]:
  "verify_state (set_verify_state v st) = v"
  "verify_state (st\<lparr>core := x\<rparr>) = verify_state st"
  "core (set_verify_state v st) = core st"
  "verify_state (Iap_VerifyReset st) = IAP_VERIFY_STATE_IDLE"
  "core (Iap_VerifyReset st) = core st"
  by (simp_all add: verify_state_def set_verify_state_def Iap_VerifyReset_def)

text \<open>\<open>polling c s\<close>: a verification of the finalized image runs on a storage that keeps its contract.\<close>

definition polling ::
  "'s storage_ops \<Rightarrow> ('s \<Rightarrow> memory) \<Rightarrow> ('s \<Rightarrow> bool) \<Rightarrow> 's iap_state \<Rightarrow> bool" where
  "polling ops smem sinv st \<longleftrightarrow> writer_inv (writer (core st)) \<and> initialized (writer (core st)) \<and>
     finalized (writer (core st)) \<and> writer_ops (writer (core st)) = ops \<and> sinv (store (core st)) \<and>
     verifying smem (writer (core st)) (store (core st))"

definition slot_hash :: "('s \<Rightarrow> memory) \<Rightarrow> 's iap_state \<Rightarrow> u32" where
  "slot_hash smem st = IapWriter_HashBytes IAP_WRITER_FNV1A_OFFSET_BASIS
     (mem_read (smem (store (core st))) (slot_addr (config (writer (core st))))
        (unat (expected_size (writer (core st)))))"

definition reads_succeed :: "'s storage_ops \<Rightarrow> ('s \<Rightarrow> bool) \<Rightarrow> 's iap_state \<Rightarrow> bool" where
  "reads_succeed ops sinv st \<longleftrightarrow> (\<forall>off n s. sinv s \<longrightarrow>
     unat off + unat n \<le> unat (expected_size (writer (core st))) \<longrightarrow> 0 < unat n \<longrightarrow>
     fst (the (so_read ops) (slot_addr (config (writer (core st))) + off) True n s) = IAP_WRITER_STORAGE_E_OK)"

context storage
begin

lemma VerifyStep_verdict:
  assumes "writer_ops c = ops" "sinv s" "verifying smem c s" "initialized c" "finalized c" "\<not> active c"
    "unat (verify_pos c) \<le> unat (expected_size c)" "n \<noteq> 0"
    "\<And>off n s. sinv s \<Longrightarrow> unat off + unat n \<le> unat (expected_size c) \<Longrightarrow> 0 < unat n \<Longrightarrow>
      fst (the (so_read ops) (slot_addr (config c) + off) True n s) = IAP_WRITER_STORAGE_E_OK"
    "IapWriter_VerifyStep c n (Some outs) s = (r, c', outs', s')"
  defines "h \<equiv> IapWriter_HashBytes IAP_WRITER_FNV1A_OFFSET_BASIS
      (mem_read (smem s) (slot_addr (config c)) (unat (expected_size c)))"
  shows "(r = IAP_WRITER_E_OK \<and> done_flag (the outs') = 0 \<and> initialized c' \<and> finalized c' \<and> \<not> active c' \<and>
        unat (verify_pos c') = unat (verify_pos c) + unat (verify_len c n) \<and>
        unat (verify_pos c') < unat (expected_size c)) \<or>
     (r = IAP_WRITER_E_OK \<and> done_flag (the outs') \<noteq> 0 \<and> h = payload_hash c) \<or>
     (r = IAP_WRITER_E_VERIFY \<and> h \<noteq> payload_hash c)"
proof -
  note v = VerifyStep_storage [OF assms(1-3,10)]
  from assms(10) show ?thesis
  proof (cases rule: VerifyStep_cases)
    case error
    have "\<not> verify_pos c > expected_size c" using assms(7) by (simp add: not_less word_le_nat_alt)
    then show ?thesis using error(3) assms(4-8) by blast
  next
    case (storage st buf)
    then show ?thesis
      using assms(9) [OF assms(2), of "verify_pos c" "verify_len c n"] verify_len_bounds [of c n] assms(1) by simp
  next
    case at_end
    then have "h = verify_acc c" using assms(3) by (simp add: verifying_def h_def)
    then show ?thesis using at_end by auto
  next
    case (read buf h1 p)
    have up: "unat p = unat (verify_pos c) + unat (verify_len c n)"
      using read(4,5,8) verify_advance by blast
    show ?thesis
    proof (cases "p = expected_size c")
      case True
      have "h = payload_hash c \<longleftrightarrow> h1 = payload_hash c"
      proof (cases "h1 = payload_hash c")
        case eq: True
        then show ?thesis using v(8) read True by (simp add: h_def)
      next
        case False
        then have "verify_acc c' = h1" "verify_pos c' = p"
          using read(11) by (simp_all add: verify_acc_def verify_pos_def)
        then show ?thesis using v(2,3,5) False True by (simp add: verifying_def h_def)
      qed
      then show ?thesis using read True by auto
    next
      case False
      have "unat p \<le> unat (expected_size c)"
        using up verify_len_bounds [OF read(5,4)] by simp
      then have "unat p < unat (expected_size c)" using False by (simp add: word_unat_eq_iff)
      then show ?thesis using read False up by (simp add: verify_pos_def)
    qed
  qed
qed

lemma verify_step_len: "unat (verify_pos c) < unat (expected_size c) \<Longrightarrow>
    unat (verify_len c IAP_VERIFY_STEP_BYTES) = min 256 (unat (expected_size c) - unat (verify_pos c))"
  by (auto simp: verify_len_def IAP_VERIFY_STEP_BYTES_def IAP_WRITER_VERIFY_BUF_SIZE_def Let_def
      word_less_nat_alt unat_sub_small)

text \<open>One poll of a running verification.\<close>

lemma poll_step:
  assumes "polling ops smem sinv st" "verify_state st = IAP_VERIFY_STATE_VERIFYING"
  shows "smem (store (core (verify_poll_step st))) = smem (store (core st))"
    "verify_state (verify_poll_step st) = IAP_VERIFY_STATE_VERIFIED \<Longrightarrow>
       slot_hash smem st = payload_hash (writer (core st))"
proof -
  obtain r w out s where step: "IapWriter_VerifyStep (writer (core st)) IAP_VERIFY_STEP_BYTES
      (Some \<lparr>processed_bytes = 0, total_bytes = 0, done_flag = 0\<rparr>) (store (core st)) = (r, w, out, s)"
    by (metis prod_cases4)
  have p: "writer_ops (writer (core st)) = ops" "sinv (store (core st))"
    "verifying smem (writer (core st)) (store (core st))"
    using assms(1) by (simp_all add: polling_def)
  note v = VerifyStep_storage [OF p step]
  show "smem (store (core (verify_poll_step st))) = smem (store (core st))"
    using v(2) by (simp add: verify_poll_step_def step Let_def set_verify_state_def)
  show "slot_hash smem st = payload_hash (writer (core st))"
    if "verify_state (verify_poll_step st) = IAP_VERIFY_STATE_VERIFIED"
    using that v(8) assms(2)
    by (auto simp: verify_poll_step_def step Let_def slot_hash_def verify_state_def set_verify_state_def split: if_splits)
qed

lemma poll_step_verdict:
  assumes "polling ops smem sinv st" "verify_state st = IAP_VERIFY_STATE_VERIFYING"
    "reads_succeed ops sinv st" "unat (verify_pos (writer (core st))) \<le> unat (expected_size (writer (core st)))"
  defines "st' \<equiv> verify_poll_step st"
  shows "(verify_state st' = IAP_VERIFY_STATE_VERIFYING \<and> polling ops smem sinv st' \<and> reads_succeed ops sinv st' \<and>
      slot_hash smem st' = slot_hash smem st \<and> payload_hash (writer (core st')) = payload_hash (writer (core st)) \<and>
      expected_size (writer (core st')) = expected_size (writer (core st)) \<and>
      unat (verify_pos (writer (core st'))) < unat (expected_size (writer (core st))) \<and>
      unat (verify_pos (writer (core st'))) = unat (verify_pos (writer (core st))) + 256) \<or>
    verify_state st' = (if slot_hash smem st = payload_hash (writer (core st))
      then IAP_VERIFY_STATE_VERIFIED else IAP_VERIFY_STATE_ERROR)"
proof -
  let ?c = "writer (core st)"
  obtain r w out s where step: "IapWriter_VerifyStep ?c IAP_VERIFY_STEP_BYTES
      (Some \<lparr>processed_bytes = 0, total_bytes = 0, done_flag = 0\<rparr>) (store (core st)) = (r, w, out, s)"
    by (metis prod_cases4)
  have p: "writer_ops ?c = ops" "sinv (store (core st))" "verifying smem ?c (store (core st))"
    "initialized ?c" "finalized ?c" "\<not> active ?c" "writer_inv ?c"
    using assms(1) by (auto simp: polling_def writer_inv_def)
  have nz: "IAP_VERIFY_STEP_BYTES \<noteq> 0" by (simp add: IAP_VERIFY_STEP_BYTES_def)
  note v = VerifyStep_storage [OF p(1-3) step]
  have reads: "\<And>off n s. sinv s \<Longrightarrow> unat off + unat n \<le> unat (expected_size ?c) \<Longrightarrow> 0 < unat n \<Longrightarrow>
      fst (the (so_read ops) (slot_addr (config ?c) + off) True n s) = IAP_WRITER_STORAGE_E_OK"
    using assms(3) by (simp add: reads_succeed_def)
  from VerifyStep_verdict [OF p(1-6) assms(4) nz reads step]
  consider (go) "r = IAP_WRITER_E_OK" "done_flag (the out) = 0" "initialized w" "finalized w" "\<not> active w"
      "unat (verify_pos w) = unat (verify_pos ?c) + unat (verify_len ?c IAP_VERIFY_STEP_BYTES)"
      "unat (verify_pos w) < unat (expected_size ?c)"
    | (ok) "r = IAP_WRITER_E_OK" "done_flag (the out) \<noteq> 0" "slot_hash smem st = payload_hash ?c"
    | (bad) "r = IAP_WRITER_E_VERIFY" "slot_hash smem st \<noteq> payload_hash ?c"
    by (auto simp: slot_hash_def)
  then show ?thesis
  proof cases
    case go
    have "unat (verify_pos ?c) < unat (expected_size ?c)" using go(6,7) by simp
    from verify_step_len [OF this] go(6,7) have "unat (verify_pos w) = unat (verify_pos ?c) + 256" by simp
    then show ?thesis
      using go v p(1,2) assms(2,3) writer_inv_VerifyStep [OF step p(7)]
      by (simp add: st'_def verify_poll_step_def step Let_def verify_state_def polling_def slot_hash_def reads_succeed_def)
  next
    case ok
    then show ?thesis by (simp add: st'_def verify_poll_step_def step Let_def)
  next
    case bad
    then show ?thesis by (simp add: st'_def verify_poll_step_def step Let_def)
  qed
qed

lemma polls_settled:
  "verify_state st \<in> {IAP_VERIFY_STATE_VERIFIED, IAP_VERIFY_STATE_ERROR, IAP_VERIFY_STATE_IDLE} \<Longrightarrow>
   (Iap_VerifyPoll ^^ k) st = st"
proof (induction k)
  case (Suc k)
  then show ?case by (auto simp: Iap_VerifyPoll_def verify_state_def)
qed simp

lemma polls_verdict:
  assumes "polling ops smem sinv st" "verify_state st = IAP_VERIFY_STATE_VERIFYING"
    "reads_succeed ops sinv st" "unat (verify_pos (writer (core st))) \<le> unat (expected_size (writer (core st)))"
    "unat (expected_size (writer (core st))) < unat (verify_pos (writer (core st))) + 256 * k"
  shows "verify_state ((Iap_VerifyPoll ^^ k) st) =
    (if slot_hash smem st = payload_hash (writer (core st)) then IAP_VERIFY_STATE_VERIFIED else IAP_VERIFY_STATE_ERROR)"
  using assms
proof (induction k arbitrary: st)
  case 0
  then show ?case by simp
next
  case (Suc k)
  have poll: "Iap_VerifyPoll st = verify_poll_step st"
    using Suc.prems(2) by (simp add: Iap_VerifyPoll_def verify_state_def)
  have it: "(Iap_VerifyPoll ^^ Suc k) st = (Iap_VerifyPoll ^^ k) (verify_poll_step st)"
    by (simp only: funpow_Suc_right o_apply poll)
  from poll_step_verdict [OF Suc.prems(1-4)] show ?case
  proof
    assume a: "verify_state (verify_poll_step st) = IAP_VERIFY_STATE_VERIFYING \<and>
      polling ops smem sinv (verify_poll_step st) \<and> reads_succeed ops sinv (verify_poll_step st) \<and>
      slot_hash smem (verify_poll_step st) = slot_hash smem st \<and>
      payload_hash (writer (core (verify_poll_step st))) = payload_hash (writer (core st)) \<and>
      expected_size (writer (core (verify_poll_step st))) = expected_size (writer (core st)) \<and>
      unat (verify_pos (writer (core (verify_poll_step st)))) < unat (expected_size (writer (core st))) \<and>
      unat (verify_pos (writer (core (verify_poll_step st)))) = unat (verify_pos (writer (core st))) + 256"
    then show ?thesis unfolding it using Suc.IH [of "verify_poll_step st"] Suc.prems(5) by simp
  next
    assume "verify_state (verify_poll_step st) = (if slot_hash smem st = payload_hash (writer (core st))
      then IAP_VERIFY_STATE_VERIFIED else IAP_VERIFY_STATE_ERROR)"
    then show ?thesis unfolding it by (subst polls_settled) (auto split: if_splits)
  qed
qed

end

lemma polls_from_request:
  assumes "storage ops smem blank sinv" "polling ops smem sinv st" "verify_pos (writer (core st)) = 0"
    "reads_succeed ops sinv st" "unat (expected_size (writer (core st))) div 256 < k"
  shows "verify_state ((Iap_VerifyPoll ^^ k) (Iap_VerifyRequest st)) =
    (if slot_hash smem st = payload_hash (writer (core st)) then IAP_VERIFY_STATE_VERIFIED else IAP_VERIFY_STATE_ERROR)"
proof -
  let ?r = "Iap_VerifyRequest st" and ?v = "set_verify_state IAP_VERIFY_STATE_VERIFYING (Iap_VerifyRequest st)"
  have fin: "finalized (writer (core st))" using assms(2) by (simp add: polling_def)
  have r: "core ?r = core st" "verify_state ?r = IAP_VERIFY_STATE_PENDING"
    using fin by (simp_all add: Iap_VerifyRequest_def verify_state_def)
  have v: "core ?v = core st" "verify_state ?v = IAP_VERIFY_STATE_VERIFYING" using r by simp_all
  obtain j where k: "k = Suc j" using assms(5) by (cases k) simp_all
  have "Iap_VerifyPoll ?r = Iap_VerifyPoll ?v"
    using fin r by (simp add: Iap_VerifyPoll_def verify_state_def set_verify_state_def)
  then have "(Iap_VerifyPoll ^^ k) ?r = (Iap_VerifyPoll ^^ k) ?v"
    unfolding k by (simp only: funpow_Suc_right o_apply)
  moreover have "unat (expected_size (writer (core st))) < 256 * k"
    using assms(5) by (simp add: div_less_iff_less_mult mult.commute)
  moreover have "polling ops smem sinv ?v" "reads_succeed ops sinv ?v" "slot_hash smem ?v = slot_hash smem st"
    using assms(2,4) v by (simp_all add: polling_def reads_succeed_def slot_hash_def)
  ultimately show ?thesis
    using storage.polls_verdict [OF assms(1), of ?v k] v assms(3) by simp
qed

section \<open>The stack on flash\<close>

text \<open>The HAL with flashwords the ingest adapter's pending buffer can hold (32 bytes on this chip).\<close>

locale flash_hal_words = flash_hal dev hal_ok erased
  for dev :: "'h flash_device" and hal_ok erased +
  assumes word_limit: "unat (FLASH_FLASHWORD_SIZE dev) \<le> 64"

context flash_hal
begin

lemma adapter_properties:
  assumes "adapter_inv dev hal_ok s"
  shows "IapFlashAdapter_GetProperty dev IAP_WRITER_STORAGE_PROP_PROG_SIZE True 4 s =
      (IAP_WRITER_STORAGE_E_OK, Some (FLASH_FLASHWORD_SIZE dev), s)"
    "IapFlashAdapter_GetProperty dev IAP_WRITER_STORAGE_PROP_ERASE_SIZE True 4 s =
      (IAP_WRITER_STORAGE_E_OK, Some (FLASH_SECTOR_SIZE dev), s)"
proof -
  have ready: "flash_ready dev (Info (fl s))" using assms by (simp add: adapter_inv_def)
  have nz: "FLASH_FLASHWORD_SIZE dev \<noteq> 0" "FLASH_SECTOR_SIZE dev \<noteq> 0"
    using flashword_pos sector_pos by auto
  show "IapFlashAdapter_GetProperty dev IAP_WRITER_STORAGE_PROP_PROG_SIZE True 4 s =
      (IAP_WRITER_STORAGE_E_OK, Some (FLASH_FLASHWORD_SIZE dev), s)"
    "IapFlashAdapter_GetProperty dev IAP_WRITER_STORAGE_PROP_ERASE_SIZE True 4 s =
      (IAP_WRITER_STORAGE_E_OK, Some (FLASH_SECTOR_SIZE dev), s)"
    using GetInfo_ready [OF ready] ready nz
    by (simp_all add: IapFlashAdapter_GetProperty_def flash_ready_def
        IAP_WRITER_STORAGE_PROP_PROG_SIZE_def IAP_WRITER_STORAGE_PROP_ERASE_SIZE_def)
qed

lemma adapter_writer_properties:
  assumes "adapter_inv dev hal_ok s"
  shows "IapWriter_GetStoragePropertyU32 (adapter_ops dev) IAP_WRITER_STORAGE_PROP_PROG_SIZE 0 s =
      (IAP_WRITER_E_OK, FLASH_FLASHWORD_SIZE dev, s)"
    "IapWriter_GetStoragePropertyU32 (adapter_ops dev) IAP_WRITER_STORAGE_PROP_ERASE_SIZE 0 s =
      (IAP_WRITER_E_OK, FLASH_SECTOR_SIZE dev, s)"
proof -
  have nz: "FLASH_FLASHWORD_SIZE dev \<noteq> 0" "FLASH_SECTOR_SIZE dev \<noteq> 0"
    using flashword_pos sector_pos by auto
  then show "IapWriter_GetStoragePropertyU32 (adapter_ops dev) IAP_WRITER_STORAGE_PROP_PROG_SIZE 0 s =
      (IAP_WRITER_E_OK, FLASH_FLASHWORD_SIZE dev, s)"
    "IapWriter_GetStoragePropertyU32 (adapter_ops dev) IAP_WRITER_STORAGE_PROP_ERASE_SIZE 0 s =
      (IAP_WRITER_E_OK, FLASH_SECTOR_SIZE dev, s)"
    using adapter_properties [OF assms]
    by (simp_all add: IapWriter_GetStoragePropertyU32_def adapter_ops_def)
qed

lemma InitOps_ok:
  assumes "flash_ready dev (Info (fl s))" "hal_ok (hw (fl s))"
    "IapFlashAdapter_InitOps dev True True s = (IAP_WRITER_STORAGE_E_OK, ops, s')"
  shows "ops = Some (adapter_ops dev) \<and> adapter_inv dev hal_ok s' \<and> fl s' = fl s"
proof -
  have "unat (1024 div FLASH_FLASHWORD_SIZE dev) * unat (FLASH_FLASHWORD_SIZE dev) \<le> 1024"
    by (simp add: unat_div)
  then have "unat (1024 div FLASH_FLASHWORD_SIZE dev * FLASH_FLASHWORD_SIZE dev) \<le> 1024"
    by (subst unat_mult_small) simp_all
  then show ?thesis
    using assms GetInfo_ready [OF assms(1)]
    by (auto simp: IapFlashAdapter_InitOps_def Let_def adapter_inv_def flash_ready_def
        IAP_FLASH_ADAPTER_BOUNCE_SIZE_def split: if_splits)
qed

lemma Iap_Init_ok:
  assumes "hal_ok (hw (fl (store (core st))))" "Iap_Init dev a n st = (IAP_E_OK, st')"
  shows "adapter_inv dev hal_ok (store (core st'))" "writer_inv (writer (core st'))"
    "initialized (writer (core st'))" "writer_ops (writer (core st')) = adapter_ops dev"
    "\<not> slot_prepared (writer (core st'))" "slot_addr (config (writer (core st'))) = a"
    "slot_size (config (writer (core st'))) = n" "prog_size (config (writer (core st'))) = FLASH_FLASHWORD_SIZE dev"
    "UpdateIngestRegistry_Get True (registry st') = (IAP_UPDATE_INGEST_E_OK, Some adapter_binding)"
    "flash_mem dev (hw (fl (store (core st')))) = flash_mem dev (hw (fl (store (core st))))"
    "\<not> active (writer (core st'))" "ingest (core st') = (ingest (core st))\<lparr>writer_set := True\<rparr>"
    "IapVerifyRuntime st' = IapVerifyRuntime st"
proof -
  let ?s0 = "store (core st)"
  define f where "f = snd (Flash_Init dev (fl ?s0))"
  have fi: "Flash_Init dev (fl ?s0) = (FLASH_E_OK, f)" by (simp add: f_def Flash_Init_def Let_def)
  have f: "flash_ready dev (Info f)" using flash_ready_Init [of "fl ?s0"] fi by simp
  have h: "hal_ok (hw f)" "flash_mem dev (hw f) = flash_mem dev (hw (fl ?s0))"
    using unlock [OF assms(1) surjective_pairing] by (simp_all add: f_def Flash_Init_def Let_def)
  obtain sr ops s1 where io: "IapFlashAdapter_InitOps dev True True (?s0\<lparr>fl := f\<rparr>) = (sr, ops, s1)"
    by (metis prod_cases3)
  have sr: "sr = IAP_WRITER_STORAGE_E_OK"
    using assms(2) fi io by (auto simp: Iap_Init_def Let_def split: if_splits prod.splits)
  have "flash_ready dev (Info (fl (?s0\<lparr>fl := f\<rparr>)))" "hal_ok (hw (fl (?s0\<lparr>fl := f\<rparr>)))" using f h by simp_all
  note ops = InitOps_ok [OF this io [unfolded sr]]
  let ?cfg = "\<lparr>slot_addr = a, slot_size = n, erase_size = 0, prog_size = 0\<rparr>"
  obtain wr w s2 where wi: "IapWriter_Init (Some (writer (core st))) (Some ?cfg) ops s1 = (wr, w, s2)"
    by (metis prod_cases3)
  have wr: "wr = IAP_WRITER_E_OK"
    using assms(2) fi io sr wi by (auto simp: Iap_Init_def Let_def split: if_splits prod.splits)
  obtain c where c: "w = Some c" "initialized c" "writer_inv c" "\<not> slot_prepared c" "writer_ops c = adapter_ops dev"
    "slot_addr (config c) = a" "slot_size (config c) = n" "\<not> active c"
    using IapWriter_Init_ok [OF wi [unfolded wr]] ops by auto
  have more: "s2 = s1" "prog_size (config c) = FLASH_FLASHWORD_SIZE dev"
    using wi ops adapter_writer_properties [OF conjunct1 [OF conjunct2 [OF ops]]] wr c(1)
    by (auto simp: IapWriter_Init_def Let_def split: if_splits)
  have st': "core st' = (core st)\<lparr>writer := c, store := s1, ingest := (ingest (core st))\<lparr>writer_set := True\<rparr>\<rparr>"
    "registry st' = \<lparr>ActiveBinding = adapter_binding, HasBinding = 1\<rparr>" "IapVerifyRuntime st' = IapVerifyRuntime st"
    using assms(2) fi io sr wi wr c(1) more
    by (auto simp: Iap_Init_def Let_def IapIngestAdapter_Init_def UpdateIngestRegistry_Register_def
        IapIngestAdapter_GetVTable_def adapter_binding_def)
  show "adapter_inv dev hal_ok (store (core st'))" "writer_inv (writer (core st'))"
    "initialized (writer (core st'))" "writer_ops (writer (core st')) = adapter_ops dev"
    "\<not> slot_prepared (writer (core st'))" "slot_addr (config (writer (core st'))) = a"
    "slot_size (config (writer (core st'))) = n" "prog_size (config (writer (core st'))) = FLASH_FLASHWORD_SIZE dev"
    "UpdateIngestRegistry_Get True (registry st') = (IAP_UPDATE_INGEST_E_OK, Some adapter_binding)"
    "flash_mem dev (hw (fl (store (core st')))) = flash_mem dev (hw (fl (store (core st))))"
    "\<not> active (writer (core st'))" "ingest (core st') = (ingest (core st))\<lparr>writer_set := True\<rparr>"
    "IapVerifyRuntime st' = IapVerifyRuntime st"
    using st' c more ops h by (simp_all add: UpdateIngestRegistry_Get_def)
qed

end

sublocale flash_hal_words \<subseteq> adapter_words: storage_prog "adapter_ops dev" "\<lambda>st. flash_mem dev (hw (fl st))"
  "\<lambda>st. erased (hw (fl st))" "adapter_inv dev hal_ok" "FLASH_FLASHWORD_SIZE dev"
proof unfold_locales
  fix s
  show "\<exists>g s'. so_get_property (adapter_ops dev) = Some g \<and>
      g IAP_WRITER_STORAGE_PROP_PROG_SIZE True 4 s = (IAP_WRITER_STORAGE_E_OK, Some (FLASH_FLASHWORD_SIZE dev), s')"
    if "adapter_inv dev hal_ok s"
    using adapter_properties [OF that] by (simp add: adapter_ops_def)
qed (use flashword_pos word_limit in auto)

interpretation stub_words: flash_hal_words stub_device test_flash_initialized "\<lambda>h x. test_flash h x = 0xFF"
  by unfold_locales simp

context flash_hal_words
begin

lemma begin_in_flash:
  assumes "adapter_inv dev hal_ok s" "writer_ops c = adapter_ops dev" "\<not> slot_prepared c"
    "IapWriter_Begin c n s = (IAP_WRITER_E_OK, c', s')"
  shows "in_flash dev (slot_addr (config c)) (unat n)"
  using assms(4)
proof (cases rule: Begin_cases)
  case ok
  obtain m where m: "unat n \<le> unat m"
    "the (so_erase (writer_ops c)) (slot_addr (config c)) m s = (IAP_WRITER_STORAGE_E_OK, s')"
    using ok(8) assms(3) by auto
  obtain r f where e: "Flash_Erase dev (slot_addr (config c)) m (fl s) = (r, f)" by fastforce
  then have "r = FLASH_E_OK"
    using m(2) assms(2) by (simp add: adapter_ops_def IapFlashAdapter_Erase_def MapFlashStatus_ok)
  then have "in_flash dev (slot_addr (config c)) (unat m)"
    using flash_erase_ok(5) [OF _ _ e] assms(1) by (simp add: adapter_inv_def)
  then show ?thesis using m(1) by (simp add: in_flash_def)
qed simp

lemma adapter_reads:
  assumes "in_flash dev a k" "adapter_inv dev hal_ok s" "unat off + unat n \<le> k" "0 < unat n"
  shows "fst (the (so_read (adapter_ops dev)) (a + off) True n s) = IAP_WRITER_STORAGE_E_OK"
proof -
  obtain r out where rd: "Flash_Read dev (a + off) True n (fl s) = (r, out)" by fastforce
  have "in_flash dev (a + off) (unat n)"
    using in_flash_offset [OF assms(1,3)] by simp
  then have "r = FLASH_E_OK"
    using flash_read_ok [OF _ rd] assms(2,4) by (simp add: adapter_inv_def)
  then show ?thesis using rd by (simp add: adapter_ops_def IapFlashAdapter_Read_def)
qed

lemma ingest_image_in_flash:
  assumes "adapter_inv dev hal_ok (store x)" "writer_ops (writer x) = adapter_ops dev"
    "\<not> slot_prepared (writer x)"
    "UpdateIngestRegistry_Get True reg = (IAP_UPDATE_INGEST_E_OK, Some adapter_binding)"
    "ingest_image pl n chunks reg x = (IAP_UPDATE_INGEST_E_OK, pl', x')"
  shows "in_flash dev (slot_addr (config (writer x))) (unat n)"
proof -
  obtain r1 pl1 x1 where b: "UpdateIngestPipeline_Begin pl n reg x = (r1, pl1, x1)" by (metis prod_cases3)
  have "r1 = IAP_UPDATE_INGEST_E_OK"
    using assms(5) b by (auto simp: ingest_image_def split: if_splits)
  then have "ingest_Begin True n x = (IAP_UPDATE_INGEST_E_OK, x1)"
    using b assms(4)
    by (auto simp: UpdateIngestPipeline_Begin_def adapter_binding_def IapIngestAdapter_GetVTable_def
        split: if_splits prod.splits)
  moreover obtain r w s where w: "IapWriter_Begin (writer x) n (store x) = (r, w, s)" by (metis prod_cases3)
  ultimately have "r = IAP_WRITER_E_OK"
    by (auto simp: ingest_Begin_def clear_pending_def MapWriterStatus_ok split: if_splits)
  then show ?thesis using begin_in_flash [OF assms(1-3)] w by blast
qed

lemma update_verified:
  assumes "hal_ok (hw (fl (store (core st0))))" "Iap_Init dev a sz st0 = (IAP_E_OK, st1)"
    "ingest_image pl n chunks (registry st1) (core st1) = (IAP_UPDATE_INGEST_E_OK, pl', x)"
    "\<And>b. b \<in> set chunks \<Longrightarrow> length b < 4294967296" "unat n div 256 < k"
  shows "verify_state ((Iap_VerifyPoll ^^ k) (Iap_VerifyRequest (st1\<lparr>core := x\<rparr>))) = IAP_VERIFY_STATE_VERIFIED"
    "length (concat chunks) = unat n"
    "mem_read (flash_mem dev (hw (fl (store x)))) a (unat n) = concat chunks"
    "\<not> in_range y a (unat sz) \<Longrightarrow>
       flash_mem dev (hw (fl (store x))) y = flash_mem dev (hw (fl (store (core st0)))) y"
proof -
  note i = Iap_Init_ok [OF assms(1,2)]
  let ?mem = "\<lambda>st. flash_mem dev (hw (fl st))" and ?er = "\<lambda>st. erased (hw (fl st))"
  have blank: "slot_blank ?er (writer (core st1)) (store (core st1))" using i(5) by (simp add: slot_blank_def)
  note im = adapter_words.ingest_image_stored [OF i(2,4,1) blank i(8,9) assms(4,3)]
  have ex: "expected_size (writer x) = n" using im by (simp add: stored_def word_unat_eq_iff)
  show len: "length (concat chunks) = unat n" using im by simp
  show img: "mem_read (?mem (store x)) a (unat n) = concat chunks"
    using im i(6) by (auto simp: stored_def)
  show "?mem (store x) y = ?mem (store (core st0)) y" if "\<not> in_range y a (unat sz)"
    using im that i(6,7,10) by (auto simp: same_outside_def)
  have inf: "in_flash dev a (unat n)"
    using ingest_image_in_flash [OF i(1,4,5,9) assms(3)] i(6) by simp
  let ?st = "st1\<lparr>core := x\<rparr>"
  have pol: "polling (adapter_ops dev) ?mem (adapter_inv dev hal_ok) ?st"
    using im by (auto simp: polling_def stored_def)
  have reads: "reads_succeed (adapter_ops dev) (adapter_inv dev hal_ok) ?st"
    using adapter_reads [OF inf] im i(6) ex by (auto simp: reads_succeed_def)
  have "slot_hash ?mem ?st = payload_hash (writer x)"
    using im by (auto simp: slot_hash_def stored_def)
  moreover have "verify_pos (writer x) = 0"
    using im by simp
  ultimately show "verify_state ((Iap_VerifyPoll ^^ k) (Iap_VerifyRequest ?st)) = IAP_VERIFY_STATE_VERIFIED"
    using polls_from_request [OF adapter.storage_axioms pol _ reads] ex assms(5) by simp
qed

end

section \<open>Properties\<close>

text \<open>C12. The whole update on any HAL that keeps its contract: after \<open>Iap_Init\<close>, an upload whose
  begin, pushes and finish succeed, a verification request and more than \<open>n / 256\<close> polls, the
  state is verified; the flash then holds exactly the pushed bytes at the slot, and no byte
  outside the slot has changed since before the initialisation.\<close>

theorem update_end_to_end:
  assumes "flash_hal_words dev hal_ok erased" "hal_ok (hw (fl (store (core st0))))"
    and "Iap_Init dev a sz st0 = (IAP_E_OK, st1)"
    and "ingest_image pl n chunks (registry st1) (core st1) = (IAP_UPDATE_INGEST_E_OK, pl', x)"
    and "\<forall>b\<in>set chunks. length b < 4294967296" "unat n div 256 < k"
  shows "Iap_IsVerified ((Iap_VerifyPoll ^^ k) (Iap_VerifyRequest (st1\<lparr>core := x\<rparr>))) = 1 \<and>
    length (concat chunks) = unat n \<and>
    mem_read (flash_mem dev (hw (fl (store x)))) a (unat n) = concat chunks \<and>
    (\<forall>y. \<not> in_range y a (unat sz) \<longrightarrow>
      flash_mem dev (hw (fl (store x))) y = flash_mem dev (hw (fl (store (core st0)))) y)"
proof -
  have "\<And>b. b \<in> set chunks \<Longrightarrow> length b < 4294967296" using assms(5) by blast
  from flash_hal_words.update_verified [OF assms(1-4) this assms(6)]
  show ?thesis by (simp add: Iap_IsVerified_def verify_state_def)
qed

definition sample_iap :: "hal_stub adapter_state iap_state" where
  "sample_iap = \<lparr>core = \<lparr>ingest = \<lparr>writer_set = False, pending_len = 0, pending = replicate 64 0\<rparr>,
       writer = \<lparr>config = \<lparr>slot_addr = 0, slot_size = 0, erase_size = 0, prog_size = 0\<rparr>,
         writer_ops = \<lparr>so_erase = None, so_write = None, so_read = None, so_get_property = None\<rparr>,
         expected_size = 0, received_size = 0, payload_hash = 0, verify_hash = 0, verify_offset = 0,
         initialized = False, active = False, finalized = False, verify_active = False, slot_prepared = False\<rparr>,
       store = \<lparr>fl = stub_state, actx = \<lparr>src_alignment = 0, max_chunk = 0, bounce_raw = replicate 1024 0,
         bounce_addr = 0x24000000\<rparr>\<rparr>\<rparr>,
     registry = \<lparr>ActiveBinding = null_binding, HasBinding = 0\<rparr>,
     IapVerifyRuntime = \<lparr>vr_state = IAP_VERIFY_STATE_IDLE, vr_processed = 0, vr_total = 0\<rparr>\<rparr>"

lemma stub_erase_one:
  assumes "flash_ready stub_device (Info f)" "in_flash stub_device a 0x20000" "0x20000 dvd unat a"
  shows "\<exists>f'. Flash_Erase stub_device a 0x20000 f = (FLASH_E_OK, f') \<and> Info f' = Info f"
proof -
  obtain f' where e: "Flash_EraseSector stub_device a f = (FLASH_E_OK, f')" "Info f' = Info f"
    using stub_erase_sector [OF assms(1)] assms(2,3) by auto
  have loop: "flash_erase_loop n stub_device a 0x20000 131072 0 f = (FLASH_E_OK, f')" if "1 < n" for n
    using e less_imp_Suc_add [OF that] by auto
  have "sector_size (Info f) = 131072" "total_size (Info f) = 4194304"
    using assms(1) by (simp_all add: flash_ready_def stub_device_def)
  moreover have "AddressCheck (Info f) a 0x20000 FLASH_ACCESS_TYPE_ERASE = FLASH_E_OK"
    using stub_hal.AddressCheck_erase [OF assms(1)] assms(2,3) by (simp add: stub_device_def)
  ultimately have "Flash_Erase stub_device a 0x20000 f = (FLASH_E_OK, f')"
    using loop [of 131072] by (simp add: Flash_Erase_def Let_def)
  then show ?thesis using e(2) by blast
qed

lemma stub_write_one:
  assumes "flash_ready stub_device (Info f)" "in_flash stub_device a 32" "32 dvd unat a" "b mod 4 = 0"
  shows "\<exists>f'. Flash_Write stub_device a (Some (b, bs)) 32 f = (FLASH_E_OK, f') \<and> Info f' = Info f"
proof -
  obtain h where prog: "HAL_FLASH_Program stub_device (FLASH_TYPEPROGRAM_FLASHWORD stub_device) a
      (buf_read bs 0 32) (hw f) = (HAL_OK, h)"
    using assms(2) by (simp add: stub_device_def stub_program_def TestFlashMemory_BoundsOk_def in_flash_def Let_def)
  have loop: "flash_write_loop n stub_device a bs 32 0 HAL_ERROR f = (HAL_OK, f\<lparr>hw := h\<rparr>)" if "1 < n" for n
    using prog less_imp_Suc_add [OF that] by auto
  have "AddressCheck (Info f) a 32 FLASH_ACCESS_TYPE_WRITE = FLASH_E_OK"
    using stub_hal.AddressCheck_write [OF assms(1), of a 32] assms(2,3) by simp
  moreover have "source_alignment (Info f) = 4" "prog_size_min (Info f) = 32"
    using assms(1) by (simp_all add: flash_ready_def)
  ultimately have "Flash_Write stub_device a (Some (b, bs)) 32 f = (FLASH_E_OK, f\<lparr>hw := h\<rparr>)"
    using loop [of 32] assms(4) by (simp add: Flash_Write_def Let_def)
  then show ?thesis by auto
qed

definition sample_prepared :: "hal_stub adapter_state \<Rightarrow> hal_stub adapter_state IapWriterContextType" where
  "sample_prepared s = \<lparr>config = \<lparr>slot_addr = 0x200000, slot_size = 0x20000, erase_size = 0x20000, prog_size = 32\<rparr>,
     writer_ops = adapter_ops stub_device, expected_size = 0, received_size = 0, payload_hash = 0,
     verify_hash = 0, verify_offset = 0, initialized = True, active = False, finalized = False,
     verify_active = False, slot_prepared = False\<rparr>"

lemma sample_init:
  "\<exists>s st1. Iap_Init stub_device 0x200000 0x20000 sample_iap = (IAP_E_OK, st1) \<and>
     core st1 = \<lparr>ingest = \<lparr>writer_set = True, pending_len = 0, pending = replicate 64 0\<rparr>,
       writer = sample_prepared s, store = s\<rparr> \<and>
     adapter_inv stub_device test_flash_initialized s \<and> max_chunk (actx s) = 1024 \<and>
     src_alignment (actx s) = 4 \<and> bounce_addr (actx s) = 0x24000000"
proof -
  obtain f where fi: "Flash_Init stub_device stub_state = (FLASH_E_OK, f)"
    by (simp add: Flash_Init_def Let_def)
  have f: "flash_ready stub_device (Info f)" "test_flash_initialized (hw f)"
    using stub_hal.flash_ready_Init [of stub_state] stub_state_ready(2) fi
    by (auto simp: Flash_Init_def Let_def stub_device_def)
  have info: "prog_size_min (Info f) = 32" "source_alignment (Info f) = 4"
    using f(1) by (simp_all add: flash_ready_def)
  let ?p = "\<lparr>fl = f, actx = \<lparr>src_alignment = 0, max_chunk = 0, bounce_raw = replicate 1024 0, bounce_addr = 0x24000000\<rparr>\<rparr>"
  let ?q = "\<lparr>fl = f, actx = \<lparr>src_alignment = 4, max_chunk = 1024, bounce_raw = replicate 1024 0, bounce_addr = 0x24000000\<rparr>\<rparr>"
  have io: "IapFlashAdapter_InitOps stub_device True True ?p = (IAP_WRITER_STORAGE_E_OK, Some (adapter_ops stub_device), ?q)"
    using stub_hal.GetInfo_ready [OF f(1)] info
    by (simp add: IapFlashAdapter_InitOps_def IAP_FLASH_ADAPTER_BOUNCE_SIZE_def Let_def)
  have inv: "adapter_inv stub_device test_flash_initialized ?q" using f by (simp add: adapter_inv_def)
  have "so_erase (adapter_ops stub_device) \<noteq> None" "so_write (adapter_ops stub_device) \<noteq> None"
    "so_read (adapter_ops stub_device) \<noteq> None" by (simp_all add: adapter_ops_def)
  then have wi: "IapWriter_Init (Some w0)
      (Some \<lparr>slot_addr = 0x200000, slot_size = 0x20000, erase_size = 0, prog_size = 0\<rparr>)
      (Some (adapter_ops stub_device)) ?q = (IAP_WRITER_E_OK, Some (sample_prepared ?q), ?q)" for w0
    using stub_hal.adapter_writer_properties [OF inv]
    by (simp add: IapWriter_Init_def Let_def sample_prepared_def) (simp add: stub_device_def)
  show ?thesis
    using inv unfolding Iap_Init_def
    by (intro exI [of _ ?q]) (simp add: sample_iap_def fi io wi IapIngestAdapter_Init_def
        UpdateIngestRegistry_Register_def IapIngestAdapter_GetVTable_def Let_def)
qed

lemma sample_ingest_flash:
  assumes "adapter_inv stub_device test_flash_initialized s" "max_chunk (actx s) = 1024"
    "src_alignment (actx s) = 4" "bounce_addr (actx s) = 0x24000000"
    "UpdateIngestRegistry_Get True reg = (IAP_UPDATE_INGEST_E_OK, Some adapter_binding)"
  shows "fst (ingest_image UpdateIngestPipeline_Reset 32 [replicate 32 7] reg
      \<lparr>ingest = \<lparr>writer_set = True, pending_len = 0, pending = replicate 64 0\<rparr>,
       writer = sample_prepared s, store = s\<rparr>) = IAP_UPDATE_INGEST_E_OK"
proof -
  have ready: "flash_ready stub_device (Info (fl s))" using assms(1) by (simp add: adapter_inv_def)
  obtain f1 where e: "Flash_Erase stub_device 0x200000 0x20000 (fl s) = (FLASH_E_OK, f1)" "Info f1 = Info (fl s)"
    using stub_erase_one [OF ready, of "0x200000"] by (auto simp: in_flash_def stub_device_def)
  have ready1: "flash_ready stub_device (Info f1)" using ready e(2) by simp
  define s1 where "s1 = s\<lparr>fl := f1\<rparr>"
  have erase: "IapFlashAdapter_Erase stub_device 0x200000 0x20000 s = (IAP_WRITER_STORAGE_E_OK, s1)"
    using e by (simp add: IapFlashAdapter_Erase_def s1_def)
  let ?bounce = "buf_write (bounce_raw (actx s)) 0 (replicate 32 (7 :: u8))"
  obtain f2 where w: "Flash_Write stub_device 0x200000 (Some (0x24000000, take 32 ?bounce)) 32 f1 = (FLASH_E_OK, f2)"
    using stub_write_one [OF ready1, of "0x200000" "0x24000000" "take 32 ?bounce"]
    by (auto simp: in_flash_def stub_device_def)
  have info: "prog_size_min (Info f1) = 32" using ready1 by (simp add: flash_ready_def)
  have gi: "Flash_GetInfo stub_device True f1 = (FLASH_E_OK, Some (Info f1), f1)"
    by (rule stub_hal.GetInfo_ready [OF ready1])
  have copy: "adapter_copy_len 1024 32 32 = 32" by (simp add: adapter_copy_len_def)
  obtain s2 where wrt: "IapFlashAdapter_Write stub_device True 0x200000 (Some (replicate 32 7)) 32 s1 = (IAP_WRITER_STORAGE_E_OK, s2)"
    using assms(2-4) w info copy
    by (simp add: IapFlashAdapter_Write_def s1_def gi adapter_write_loop.simps [of _ _ _ _ 32]
        adapter_write_loop.simps [of _ _ _ _ 0] Let_def buf_read_def)
  have inv1: "adapter_inv stub_device test_flash_initialized s1"
    using stub_hal.adapter.erase_frame [OF assms(1), of "0x200000" "0x20000" IAP_WRITER_STORAGE_E_OK s1] erase
    by (simp add: adapter_ops_def)
  have pr: "IapFlashAdapter_GetProperty stub_device IAP_WRITER_STORAGE_PROP_PROG_SIZE True 4 s1 =
      (IAP_WRITER_STORAGE_E_OK, Some 32, s1)"
    using stub_hal.adapter_properties [OF inv1] by simp
  show ?thesis
    using erase wrt pr assms(5)
    by (simp add: ingest_image_def UpdateIngestPipeline_Begin_def
        adapter_binding_def IapIngestAdapter_GetVTable_def ingest_Begin_def
        UpdateIngestPipeline_Push_def ingest_WriteChunk_def ingest_write_checked_def ingest_write_rest_def
        CheckOffsetSequence_def write_to_writer_def clear_pending_def UpdateIngestPipeline_Finish_def
        ingest_Finalize_def buf_write_def buf_read_def IAP_INGEST_ADAPTER_ALIGN_MAX_def
        IapWriter_Begin_def IapWriter_RoundUp_def IapWriter_IsAligned_def Let_def
        sample_prepared_def adapter_ops_def IapWriter_WriteChunk_def IapWriter_Finalize_def)
qed

theorem update_end_to_end_witness:
  "\<exists>st1 pl' x. Iap_Init stub_device 0x200000 0x20000 sample_iap = (IAP_E_OK, st1) \<and>
     ingest_image UpdateIngestPipeline_Reset 32 [replicate 32 7] (registry st1) (core st1) =
       (IAP_UPDATE_INGEST_E_OK, pl', x) \<and>
     Iap_IsVerified ((Iap_VerifyPoll ^^ 1) (Iap_VerifyRequest (st1\<lparr>core := x\<rparr>))) = 1"
proof -
  obtain s st1 where init: "Iap_Init stub_device 0x200000 0x20000 sample_iap = (IAP_E_OK, st1)"
    and core: "core st1 = \<lparr>ingest = \<lparr>writer_set = True, pending_len = 0, pending = replicate 64 0\<rparr>,
       writer = sample_prepared s, store = s\<rparr>"
    and s: "adapter_inv stub_device test_flash_initialized s" "max_chunk (actx s) = 1024"
     "src_alignment (actx s) = 4" "bounce_addr (actx s) = 0x24000000"
    using sample_init by blast
  have hal: "test_flash_initialized (hw (fl (store (core sample_iap))))"
    using stub_state_ready(2) by (simp add: sample_iap_def)
  note reg = stub_hal.Iap_Init_ok(9) [OF hal init]
  obtain r pl' x where im: "ingest_image UpdateIngestPipeline_Reset 32 [replicate 32 7] (registry st1) (core st1) = (r, pl', x)"
    by (metis prod_cases3)
  then have r: "r = IAP_UPDATE_INGEST_E_OK" using sample_ingest_flash [OF s reg] core by simp
  have "Iap_IsVerified ((Iap_VerifyPoll ^^ 1) (Iap_VerifyRequest (st1\<lparr>core := x\<rparr>))) = 1"
    using update_end_to_end [OF stub_words.flash_hal_words_axioms hal init im [unfolded r], of 1] by simp
  with init im r show ?thesis by blast
qed

text \<open>C14. A poll turns the state to verified only when the hash of what the slot shows now is the
  hash of the accepted payload, and never changes the storage.\<close>

theorem verified_only_on_match:
  assumes "storage ops smem blank sinv" "polling ops smem sinv st"
    and "vr_state (IapVerifyRuntime st) = IAP_VERIFY_STATE_PENDING \<or>
      vr_state (IapVerifyRuntime st) = IAP_VERIFY_STATE_VERIFYING"
    and "Iap_IsVerified (Iap_VerifyPoll st) = 1"
  shows "slot_hash smem st = payload_hash (writer (core st)) \<and>
    smem (store (core (Iap_VerifyPoll st))) = smem (store (core st))"
proof -
  define st1 where "st1 = set_verify_state IAP_VERIFY_STATE_VERIFYING st"
  have fin: "finalized (writer (core st))" using assms(2) by (simp add: polling_def)
  have st: "st = st1" if "vr_state (IapVerifyRuntime st) = IAP_VERIFY_STATE_VERIFYING"
    using that by (cases st) (simp add: st1_def set_verify_state_def)
  have poll: "Iap_VerifyPoll st = verify_poll_step st1"
  proof (cases "vr_state (IapVerifyRuntime st) = IAP_VERIFY_STATE_PENDING")
    case True
    then show ?thesis using fin by (simp add: Iap_VerifyPoll_def st1_def)
  next
    case False
    then show ?thesis using assms(3) st by (simp add: Iap_VerifyPoll_def)
  qed
  have "polling ops smem sinv st1" "verify_state st1 = IAP_VERIFY_STATE_VERIFYING"
    "slot_hash smem st1 = slot_hash smem st" "core st1 = core st"
    using assms(2) by (simp_all add: st1_def polling_def slot_hash_def)
  then show ?thesis
    using storage.poll_step [OF assms(1), of st1] assms(4) poll
    by (auto simp: Iap_IsVerified_def verify_state_def split: if_splits)
qed

text \<open>A finalized image of four zero bytes in the RAM simulation, with its verification requested.\<close>

definition sample_finalized :: "RamFlashSimContextType IapWriterContextType" where
  "sample_finalized = sample_writer\<lparr>finalized := True, expected_size := 4, received_size := 4,
     payload_hash := IapWriter_HashBytes IAP_WRITER_FNV1A_OFFSET_BASIS [0, 0, 0, 0]\<rparr>"

definition sample_pending :: "RamFlashSimContextType iap_state" where
  "sample_pending = \<lparr>core = \<lparr>ingest = \<lparr>writer_set = True, pending_len = 0, pending = replicate 64 0\<rparr>,
       writer = sample_finalized, store = sample_sim\<rparr>,
     registry = \<lparr>ActiveBinding = null_binding, HasBinding = 0\<rparr>,
     IapVerifyRuntime = \<lparr>vr_state = IAP_VERIFY_STATE_PENDING, vr_processed = 0, vr_total = 4\<rparr>\<rparr>"

theorem verified_only_on_match_witness:
  "slot_hash sim_mem sample_pending = IapWriter_HashBytes IAP_WRITER_FNV1A_OFFSET_BASIS [0, 0, 0, 0] \<and>
   Iap_IsVerified (Iap_VerifyPoll sample_pending) = 1"
proof -
  have rd: "mem_read (sim_mem sample_sim) 0x08000000 4 = [0, 0, 0, 0]"
    by (simp add: sample_sim_def mem_read_def upt_rec)
  have pl: "polling RamFlashSim_GetStorageOps sim_mem (sim_inv 0x08000000 64 4) sample_pending"
    by (simp add: polling_def sample_pending_def sample_finalized_def sample_writer_def writer_inv_def
        RamFlashSim_GetStorageOps_def sim_inv_def sample_sim_def verifying_def
        verify_acc_def verify_pos_def IapWriter_HashBytes_def mem_read_def)
  have rs: "so_read RamFlashSim_GetStorageOps = Some RamFlashSim_Read"
    by (simp add: RamFlashSim_GetStorageOps_def)
  have step: "RamFlashSim_Read 0x08000000 True 4 sample_sim = (IAP_WRITER_STORAGE_E_OK, [0, 0, 0, 0], sample_sim)"
    using rd by (simp add: RamFlashSim_Read_def RamFlashSim_RangeToOffset_def TestFlashMemory_BoundsOk_def
        sample_sim_def)
  have v: "Iap_IsVerified (Iap_VerifyPoll sample_pending) = 1"
    by (simp add: Iap_VerifyPoll_def sample_pending_def sample_finalized_def sample_writer_def
        verify_poll_step_def set_verify_state_def IapWriter_VerifyStep_def IAP_VERIFY_STEP_BYTES_def
        IAP_WRITER_VERIFY_BUF_SIZE_def rs step Let_def Iap_IsVerified_def)
  have pend: "vr_state (IapVerifyRuntime sample_pending) = IAP_VERIFY_STATE_PENDING"
    by (simp add: sample_pending_def)
  show ?thesis
    using verified_only_on_match [OF ram_storage.storage_axioms pl disjI1 [OF pend] v] v
    by (simp add: sample_pending_def sample_finalized_def)
qed

text \<open>A failing slot preparation keeps the verdict: the storage may have been erased in part
  (the flash driver stops at the first sector that fails), but the state stays as it was, so an
  image that was verified before still counts as verified.\<close>

theorem failed_prepare_keeps_verdict:
  assumes "initialized (writer (core st))" "\<not> active (writer (core st))"
    and "so_erase (writer_ops (writer (core st))) = Some er"
    and "er (slot_addr (config (writer (core st)))) (slot_size (config (writer (core st)))) (store (core st)) = (r, s)"
    and "r \<noteq> IAP_WRITER_STORAGE_E_OK"
  shows "Iap_PrepareUploadSlot st = (IAP_PREPARE_E_BACKEND, st\<lparr>core := (core st)\<lparr>store := s\<rparr>\<rparr>) \<and>
    Iap_IsVerified (snd (Iap_PrepareUploadSlot st)) = Iap_IsVerified st"
  using assms by (simp add: Iap_PrepareUploadSlot_def Iap_IsVerified_def)

text \<open>The RAM simulation with an erase fault, and a verdict from an earlier verification.\<close>

theorem failed_prepare_keeps_verdict_witness:
  "Iap_IsVerified (snd (Iap_PrepareUploadSlot (sample_pending
     \<lparr>core := (core sample_pending)\<lparr>store := sample_sim\<lparr>fail_next_erase := True\<rparr>\<rparr>,
      IapVerifyRuntime := \<lparr>vr_state = IAP_VERIFY_STATE_VERIFIED, vr_processed = 4, vr_total = 4\<rparr>\<rparr>))) = 1"
proof -
  let ?st = "sample_pending\<lparr>core := (core sample_pending)\<lparr>store := sample_sim\<lparr>fail_next_erase := True\<rparr>\<rparr>,
      IapVerifyRuntime := \<lparr>vr_state = IAP_VERIFY_STATE_VERIFIED, vr_processed = 4, vr_total = 4\<rparr>\<rparr>"
  have w: "writer (core ?st) = sample_finalized" by (simp add: sample_pending_def)
  have h: "initialized (writer (core ?st))" "\<not> active (writer (core ?st))"
    "so_erase (writer_ops (writer (core ?st))) = Some RamFlashSim_Erase"
    unfolding w by (simp_all add: sample_finalized_def sample_writer_def RamFlashSim_GetStorageOps_def)
  have e: "RamFlashSim_Erase (slot_addr (config (writer (core ?st)))) (slot_size (config (writer (core ?st))))
      (store (core ?st)) = (IAP_WRITER_STORAGE_E_IO, sample_sim)"
    unfolding w by (simp add: sample_finalized_def sample_writer_def RamFlashSim_Erase_def sample_sim_def
        RamFlashSim_RangeToOffset_def TestFlashMemory_BoundsOk_def)
  show ?thesis
    using failed_prepare_keeps_verdict [OF h e] by (simp add: Iap_IsVerified_def)
qed

end
