(* ===== verification/Encoding.thy ===== *)
theory Encoding
  imports Prelude
begin

text \<open>
  The byte layout of integers on the target (little endian), shared by the components that store
  structures in flash or send them as bytes.
\<close>

definition u32_le :: "u32 \<Rightarrow> bytes" where
  "u32_le w = [of_nat (unat w), of_nat (unat w div 256), of_nat (unat w div 65536), of_nat (unat w div 16777216)]"

definition u32_of_le :: "bytes \<Rightarrow> u32" where
  "u32_of_le bs = of_nat (unat (bs ! 0) + 256 * unat (bs ! 1) + 65536 * unat (bs ! 2) + 16777216 * unat (bs ! 3))"

lemma length_u32_le [simp]: "length (u32_le w) = 4"
  by (simp add: u32_le_def)

lemma unat_of_nat_u8: "unat (of_nat n :: u8) = n mod 256"
  by (simp add: unat_of_nat take_bit_eq_mod)

lemma base256: "n < 4294967296 \<Longrightarrow>
    n mod 256 + 256 * (n div 256 mod 256) + 65536 * (n div 65536 mod 256) + 16777216 * (n div 16777216 mod 256) = n"
  for n :: nat
proof -
  assume n: "n < 4294967296"
  have 1: "n = n mod 256 + 256 * (n div 256)" by simp
  have 2: "n div 256 = n div 256 mod 256 + 256 * (n div 65536)"
    using div_mult_mod_eq [of "n div 256" 256] by (simp add: div_mult2_eq [symmetric])
  have 3: "n div 65536 = n div 65536 mod 256 + 256 * (n div 16777216)"
    using div_mult_mod_eq [of "n div 65536" 256] by (simp add: div_mult2_eq [symmetric])
  have 4: "n div 16777216 mod 256 = n div 16777216" using n by (intro mod_less) simp
  show ?thesis using 1 2 3 4 by linarith
qed

lemma nth_u32_le:
  "u32_le w ! 0 = of_nat (unat w)" "u32_le w ! 1 = of_nat (unat w div 256)"
  "u32_le w ! 2 = of_nat (unat w div 65536)" "u32_le w ! 3 = of_nat (unat w div 16777216)"
  by (simp_all add: u32_le_def)

lemma u32_of_le_append [simp]: "u32_of_le (u32_le w @ r) = w"
proof -
  have "(u32_le w @ r) ! i = u32_le w ! i" if "i < 4" for i using that by (simp add: nth_append)
  then have "u32_of_le (u32_le w @ r) = of_nat (unat (u32_le w ! 0) + 256 * unat (u32_le w ! 1) +
      65536 * unat (u32_le w ! 2) + 16777216 * unat (u32_le w ! 3))"
    unfolding u32_of_le_def by (simp del: of_nat_add of_nat_mult)
  then show ?thesis unfolding nth_u32_le unat_of_nat_u8 base256 [OF unat_u32_bound] by simp
qed

lemma u32_of_le_u32_le [simp]: "u32_of_le (u32_le w) = w"
  using u32_of_le_append [of w "[]"] by simp

lemma u32_le_inject [simp]: "u32_le v = u32_le w \<longleftrightarrow> v = w"
  by (metis u32_of_le_u32_le)

section \<open>C strings\<close>

text \<open>A \<open>char *\<close> is the bytes from the pointer on; the string ends before the first zero byte.
  \<open>ascii\<close> gives the bytes of a string literal.\<close>

definition cstr :: "bytes \<Rightarrow> bytes" where
  "cstr s = takeWhile (\<lambda>c. c \<noteq> 0) s"

definition ascii :: "string \<Rightarrow> bytes" where
  "ascii s = map of_char s"

lemma cstr_append_0 [simp]: "0 \<notin> set s \<Longrightarrow> cstr (s @ 0 # r) = s"
  by (auto simp: cstr_def takeWhile_append2 takeWhile_tail)

lemma cstr_no_0: "0 \<notin> set s \<Longrightarrow> cstr s = s"
  unfolding cstr_def by (rule takeWhile_eq_all_conv [THEN iffD2]) blast

text \<open>\<open>strtol\<close> in base 10 with a 32-bit \<open>long\<close>: the value and the text from \<open>*endptr\<close> on.\<close>

definition is_space :: "u8 \<Rightarrow> bool" where "is_space c \<longleftrightarrow> c = 32 \<or> 9 \<le> c \<and> c \<le> 13"
definition is_digit :: "u8 \<Rightarrow> bool" where "is_digit c \<longleftrightarrow> 48 \<le> c \<and> c \<le> 57"

definition digits_val :: "bytes \<Rightarrow> nat" where
  "digits_val ds = foldl (\<lambda>v c. 10 * v + (unat c - 48)) 0 ds"

definition strtol10 :: "bytes \<Rightarrow> int \<times> bytes" where
  "strtol10 data =
     (let text = cstr data; s = dropWhile is_space text;
          (neg, t) = (case s of [] \<Rightarrow> (False, []) | c # cs \<Rightarrow>
             if c = 45 then (True, cs) else if c = 43 then (False, cs) else (False, s));
          ds = takeWhile is_digit t; v = int (digits_val ds)
      in if ds = [] then (0, text)
         else (if neg then max (- v) (- 2147483648) else min v 2147483647, dropWhile is_digit t))"

lemma strtol10_digits:
  assumes "cstr data = ds" "ds \<noteq> []" "list_all is_digit ds" "digits_val ds \<le> 2147483647"
  shows "strtol10 data = (int (digits_val ds), [])"
proof -
  obtain c cs where ds: "ds = c # cs" using assms(2) by (cases ds) auto
  have dig: "is_digit c" using assms(3) ds by simp
  then have "\<not> is_space c" "c \<noteq> 45" "c \<noteq> 43"
    by (auto simp: is_digit_def is_space_def word_le_nat_alt word_unat_eq_iff)
  moreover have "takeWhile is_digit ds = ds" "dropWhile is_digit ds = []"
    using assms(3) by (simp_all add: list_all_iff)
  ultimately show ?thesis using assms(1,2,4) ds by (simp add: strtol10_def)
qed

end
