(* ===== verification/SettingsHandler.thy ===== *)
theory SettingsHandler
  imports Encoding
begin

text \<open>
  \<open>app/services/config/SettingsHandler.c\<close> (and the two conversion helpers of
  \<open>FileHandler.c\<close> it calls): the settings form of the web page, the configuration file and the IP
  address parser.  The coreJSON library, a third-party module, is the pair of arguments
  \<open>json_validate\<close>/\<open>json_search\<close>.  The lemmas give the parser of dotted addresses its meaning, show
  the rendered address reads back, and what the form and the number conversion can do.
\<close>

section \<open>State\<close>

record AppFcdanConfigType =
  baudrate :: u32
  can_mode :: u8

record AppConfigType =
  updated :: u8
  can1 :: AppFcdanConfigType
  can2 :: AppFcdanConfigType
  ip :: bytes

text \<open>The settings the module points to, and the request flag its callback sets in
  \<open>Core0Task0.c\<close>.\<close>

record settings_state =
  AppSettings :: AppConfigType
  applyConfig :: u8

datatype SettingsHandlerErrorType = SETTINGS_OK | SETTINGS_NOT_OK

definition FDCAN_MODE_1 :: u32 where "FDCAN_MODE_1 = 1"
definition FDCAN_MODE_2 :: u32 where "FDCAN_MODE_2 = 2"
definition FDCAN_MODE_3 :: u32 where "FDCAN_MODE_3 = 3"

definition SettingsHandler_Init :: "AppConfigType \<Rightarrow> settings_state \<Rightarrow> u8 \<times> settings_state" where
  "SettingsHandler_Init cfg st = (0, st\<lparr>AppSettings := cfg\<rparr>)"

definition SettingsHandler_Poll :: "AppConfigType \<Rightarrow> u8" where
  "SettingsHandler_Poll cfg = (if updated cfg \<noteq> 0 then 1 else 0)"

definition SettingsHandler_ApplyRequestCallback :: "settings_state \<Rightarrow> settings_state" where
  "SettingsHandler_ApplyRequestCallback st = st\<lparr>applyConfig := 1\<rparr>"

section \<open>The settings form\<close>

definition new_baudrate :: "bytes \<Rightarrow> u32 \<Rightarrow> u32" where
  "new_baudrate val OldBaudrate =
     (if cstr val = ascii ''250000'' then 250000
      else if cstr val = ascii ''500000'' then 500000
      else if cstr val = ascii ''1000000'' then 1000000
      else OldBaudrate)"

definition new_mode :: "bytes \<Rightarrow> u32 \<Rightarrow> u32" where
  "new_mode val OldMode =
     (if cstr val = ascii ''1'' then FDCAN_MODE_1
      else if cstr val = ascii ''2'' then FDCAN_MODE_2
      else if cstr val = ascii ''3'' then FDCAN_MODE_3
      else OldMode)"

text \<open>The pointer \<open>pCanConfig\<close> is the reader and the updater of the part it points to.\<close>

definition set_baudrate ::
  "(AppConfigType \<Rightarrow> AppFcdanConfigType) \<Rightarrow>
   ((AppFcdanConfigType \<Rightarrow> AppFcdanConfigType) \<Rightarrow> AppConfigType \<Rightarrow> AppConfigType) \<Rightarrow>
   bytes \<Rightarrow> AppConfigType \<Rightarrow> AppConfigType" where
  "set_baudrate get upd val cfg =
     (let OldBaudrate = baudrate (get cfg); NewBaudrate = new_baudrate val OldBaudrate;
          cfg = (if NewBaudrate \<noteq> OldBaudrate then cfg\<lparr>updated := 1\<rparr> else cfg)
      in upd (\<lambda>c. c\<lparr>baudrate := NewBaudrate\<rparr>) cfg)"

definition set_mode ::
  "(AppConfigType \<Rightarrow> AppFcdanConfigType) \<Rightarrow>
   ((AppFcdanConfigType \<Rightarrow> AppFcdanConfigType) \<Rightarrow> AppConfigType \<Rightarrow> AppConfigType) \<Rightarrow>
   bytes \<Rightarrow> AppConfigType \<Rightarrow> AppConfigType" where
  "set_mode get upd val cfg =
     (let OldMode = ucast (can_mode (get cfg)); NewMode = new_mode val OldMode;
          cfg = (if NewMode \<noteq> OldMode then cfg\<lparr>updated := 1\<rparr> else cfg)
      in upd (\<lambda>c. c\<lparr>can_mode := ucast NewMode\<rparr>) cfg)"

definition consume_param_values :: "bytes \<Rightarrow> bytes \<Rightarrow> settings_state \<Rightarrow> settings_state" where
  "consume_param_values param val st =
     (let p = cstr param; cfg = AppSettings st
      in if take 4 p = ascii ''baud'' then
           if p = ascii ''baud1'' then st\<lparr>AppSettings := set_baudrate can1 can1_update val cfg\<rparr>
           else if p = ascii ''baud2'' then st\<lparr>AppSettings := set_baudrate can2 can2_update val cfg\<rparr>
           else st
         else if take 4 p = ascii ''mode'' then
           if p = ascii ''mode1'' then st\<lparr>AppSettings := set_mode can1 can1_update val cfg\<rparr>
           else if p = ascii ''mode2'' then st\<lparr>AppSettings := set_mode can2 can2_update val cfg\<rparr>
           else st
         else if p = ascii ''action'' then
           if cstr val = ascii ''apply'' then SettingsHandler_ApplyRequestCallback st else st
         else st)"

definition httpd_post_cb :: "bytes \<Rightarrow> bytes \<Rightarrow> settings_state \<Rightarrow> settings_state" where
  "httpd_post_cb key val st = consume_param_values key val st"

definition http_app_set_setting :: "int \<Rightarrow> (bytes \<times> bytes) list \<Rightarrow> settings_state \<Rightarrow> settings_state" where
  "http_app_set_setting iIndex params st =
     (if iIndex = 1 then foldl (\<lambda>st (param, val). consume_param_values param val st) st params else st)"

text \<open>The text of a page tag; \<open>snprintf\<close> cuts it to the room there is.\<close>

definition baudrate_text :: "u32 \<Rightarrow> bytes" where
  "baudrate_text b = (if b = 250000 then ascii ''250 kbit/s'' else if b = 500000 then ascii ''500 kbit/s''
     else if b = 1000000 then ascii ''1 Mbit/s'' else ascii ''n/a'')"

definition mode_text :: "u8 \<Rightarrow> bytes" where
  "mode_text m = (if m = 1 then ascii ''normal'' else if m = 2 then ascii ''listen only''
     else if m = 3 then ascii ''off'' else ascii ''n/a'')"

text \<open>\<open>None\<close>: nothing is inserted.\<close>

definition http_app_get_setting :: "int \<Rightarrow> nat \<Rightarrow> settings_state \<Rightarrow> nat \<times> bytes option" where
  "http_app_get_setting iIndex iInsertLen st =
     (let cfg = AppSettings st;
          put = (\<lambda>text. let cut = take (iInsertLen - 1) text in (length cut, Some cut))
      in if iIndex = 0 then put (baudrate_text (baudrate (can1 cfg)))
         else if iIndex = 1 then put (mode_text (can_mode (can1 cfg)))
         else if iIndex = 2 then put (baudrate_text (baudrate (can2 cfg)))
         else if iIndex = 3 then put (mode_text (can_mode (can2 cfg)))
         else (0, None))"

section \<open>Numbers and addresses\<close>

text \<open>\<open>cur\<close> is what \<open>*val\<close> holds before the call.  Every caller passes base 10.\<close>

definition FileHandler_ConvertToInteger :: "bytes \<Rightarrow> u32 \<Rightarrow> int \<times> u32" where
  "FileHandler_ConvertToInteger data cur =
     (case strtol10 data of (v, rest) \<Rightarrow> if rest \<noteq> [] then (0, cur) else (0, of_int v))"

datatype ip_result = SUCCESS | ERROR_INVALID_FORMAT | ERROR_TOO_MANY_SEGMENTS

text \<open>The loop over the characters; \<open>CharCount\<close> stays below 4 and \<open>ElemCount\<close> below 5.  \<open>tmp\<close> is
  the local \<open>ValTmp\<close>, which starts uninitialised.\<close>

fun ip_loop :: "bytes \<Rightarrow> bytes \<Rightarrow> u32 \<Rightarrow> nat \<Rightarrow> nat \<Rightarrow> bytes \<Rightarrow> ip_result \<times> bytes" where
  "ip_loop [] element tmp CharCount ElemCount arr =
     (if CharCount = 0 then (ERROR_INVALID_FORMAT, arr)
      else
        let tmp = snd (FileHandler_ConvertToInteger element tmp)
        in if tmp > 255 then (ERROR_INVALID_FORMAT, arr)
           else
             let arr = arr[ElemCount := ucast tmp]; ElemCount = ElemCount + 1
             in (if ElemCount = 4 then SUCCESS else ERROR_INVALID_FORMAT, arr))"
| "ip_loop (c # cs) element tmp CharCount ElemCount arr =
     (if is_digit c then
        if CharCount < 3 then
          ip_loop cs (element[CharCount := c, CharCount + 1 := 0]) tmp (CharCount + 1) ElemCount arr
        else (ERROR_INVALID_FORMAT, arr)
      else if c = 46 then
        if CharCount = 0 then (ERROR_INVALID_FORMAT, arr)
        else
          let tmp = snd (FileHandler_ConvertToInteger element tmp)
          in if tmp > 255 then (ERROR_INVALID_FORMAT, arr)
             else
               let arr = arr[ElemCount := ucast tmp]; ElemCount = ElemCount + 1
               in if ElemCount > 3 then (ERROR_TOO_MANY_SEGMENTS, arr)
                  else ip_loop cs element tmp 0 ElemCount arr
      else (ERROR_INVALID_FORMAT, arr))"

text \<open>\<open>junk\<close> is the stack content \<open>ValTmp\<close> starts with.\<close>

definition IpStringToIntArray :: "bytes \<Rightarrow> u8 \<Rightarrow> u32 \<Rightarrow> bytes \<Rightarrow> ip_result \<times> bytes" where
  "IpStringToIntArray text len junk arr = ip_loop (take (unat len) text) (replicate 4 0) junk 0 0 arr"

section \<open>The configuration file\<close>

text \<open>\<open>json_search doc key\<close> gives offset and length of the value, \<open>None\<close> for any status other than
  \<open>JSONSuccess\<close>.\<close>

type_synonym json_search = "bytes \<Rightarrow> bytes \<Rightarrow> (nat \<times> size_t) option"

definition FileHandler_GetValue :: "json_search \<Rightarrow> bytes \<Rightarrow> bytes \<Rightarrow> (bytes \<times> size_t) option" where
  "FileHandler_GetValue json_search buff key =
     map_option (\<lambda>(off, len). (drop off buff, len)) (json_search buff key)"

text \<open>One numeric entry: the copy to \<open>TmpBuf[64]\<close> and the conversion.  \<open>None\<close>: the copy writes past
  the buffer.\<close>

definition tmp_value :: "bytes \<Rightarrow> size_t \<Rightarrow> u32 \<Rightarrow> u32 option" where
  "tmp_value val len cur =
     (if unat len \<ge> 64 then None
      else Some (snd (FileHandler_ConvertToInteger (cstr (take (unat len) val) @ [0]) cur)))"

definition parse_number ::
  "json_search \<Rightarrow> bytes \<Rightarrow> string \<Rightarrow> (u32 \<Rightarrow> AppConfigType \<Rightarrow> AppConfigType) \<Rightarrow> u32 \<Rightarrow> AppConfigType \<Rightarrow>
   (u32 \<times> AppConfigType) option" where
  "parse_number json_search doc key store cur cfg =
     (case FileHandler_GetValue json_search doc (ascii key) of
        None \<Rightarrow> Some (cur, cfg)
      | Some (val, len) \<Rightarrow> (case tmp_value val len cur of None \<Rightarrow> None | Some v \<Rightarrow> Some (v, store v cfg)))"

text \<open>\<open>b\<close>, \<open>m\<close> and \<open>t\<close> are what the locals \<open>Baudrate\<close>, \<open>Mode\<close> and \<open>ValTmp\<close> start with.  The result
  is \<open>None\<close> when \<open>TmpBuf\<close> overflows.\<close>

definition SettingsHandler_ParseConfig ::
  "(bytes \<Rightarrow> bool) \<Rightarrow> json_search \<Rightarrow> u32 \<Rightarrow> u32 \<Rightarrow> u32 \<Rightarrow> bytes \<Rightarrow> AppConfigType \<Rightarrow>
   (SettingsHandlerErrorType \<times> AppConfigType) option" where
  "SettingsHandler_ParseConfig json_validate json_search b m t doc cfg =
     (if \<not> json_validate doc then Some (SETTINGS_NOT_OK, cfg)
      else
        case parse_number json_search doc ''CAN1.Baudrate'' (\<lambda>v. can1_update (baudrate_update (\<lambda>_. v))) b cfg of
          None \<Rightarrow> None
        | Some (b, cfg) \<Rightarrow>
        (case parse_number json_search doc ''CAN1.Mode'' (\<lambda>v. can1_update (can_mode_update (\<lambda>_. ucast v))) m cfg of
          None \<Rightarrow> None
        | Some (m, cfg) \<Rightarrow>
        (case parse_number json_search doc ''CAN2.Baudrate'' (\<lambda>v. can2_update (baudrate_update (\<lambda>_. v))) b cfg of
          None \<Rightarrow> None
        | Some (b, cfg) \<Rightarrow>
        (case parse_number json_search doc ''CAN2.Mode'' (\<lambda>v. can2_update (can_mode_update (\<lambda>_. ucast v))) m cfg of
          None \<Rightarrow> None
        | Some (m, cfg) \<Rightarrow>
        (case FileHandler_GetValue json_search doc (ascii ''HTTP.IP'') of
          None \<Rightarrow> Some (SETTINGS_NOT_OK, cfg)
        | Some (val, len) \<Rightarrow>
            (case IpStringToIntArray val (ucast len) t (replicate 4 0) of
               (r, addr) \<Rightarrow> Some (SETTINGS_OK, if r = SUCCESS then cfg\<lparr>ip := addr\<rparr> else cfg)))))))"

text \<open>Decimal rendering (\<open>%d\<close> and \<open>%ld\<close>, which take the number as signed).\<close>

fun nat_digits :: "nat \<Rightarrow> bytes" where
  "nat_digits n = (if n < 10 then [48 + of_nat n] else nat_digits (n div 10) @ [48 + of_nat (n mod 10)])"

declare nat_digits.simps [simp del]

definition int_text :: "int \<Rightarrow> bytes" where
  "int_text i = (if i < 0 then 45 # nat_digits (nat (- i)) else nat_digits (nat i))"

definition ip_text :: "bytes \<Rightarrow> bytes" where
  "ip_text a = int_text (uint (a ! 0)) @ ascii ''.'' @ int_text (uint (a ! 1)) @ ascii ''.'' @
     int_text (uint (a ! 2)) @ ascii ''.'' @ int_text (uint (a ! 3))"

text \<open>The text is cut to the buffer; the length is that of the cut text.\<close>

definition nl :: bytes where "nl = [10]"

definition SettingsHandler_CreateJsonString :: "AppConfigType \<Rightarrow> nat \<Rightarrow> int \<times> bytes" where
  "SettingsHandler_CreateJsonString cfg maxLength =
     (let can = (\<lambda>c. ascii ''        \"Baudrate\":'' @ int_text (sint (baudrate c)) @ ascii '','' @ nl @
                     ascii ''        \"Mode\":'' @ int_text (uint (can_mode c)) @ nl);
          text = ascii ''{'' @ nl @ ascii ''    \"CAN1\":{'' @ nl @ can (can1 cfg) @ ascii ''    },'' @ nl @
                 ascii ''    \"CAN2\":{'' @ nl @ can (can2 cfg) @ ascii ''    },'' @ nl @
                 ascii ''    \"HTTP\":{'' @ nl @ ascii ''        \"IP\":\"'' @ ip_text (ip cfg) @ ascii ''\"'' @ nl @
                 ascii ''    }'' @ nl @ ascii ''}'' @ nl
      in (0, take (maxLength - 1) text))"

section \<open>The address parser\<close>

text \<open>What the parser accepts: four numbers of one to three digits, at most 255, between dots.\<close>

definition octet :: "bytes \<Rightarrow> u8 option" where
  "octet ds = (if 0 < length ds \<and> length ds \<le> 3 \<and> list_all is_digit ds \<and> digits_val ds \<le> 255
     then Some (of_nat (digits_val ds)) else None)"

fun split_dots :: "bytes \<Rightarrow> bytes \<Rightarrow> bytes list" where
  "split_dots cur [] = [cur]"
| "split_dots cur (c # cs) = (if c = 46 then cur # split_dots [] cs else split_dots (cur @ [c]) cs)"

fun octets :: "bytes list \<Rightarrow> bytes option" where
  "octets [] = Some []"
| "octets (s # ss) = (case (octet s, octets ss) of (Some a, Some r) \<Rightarrow> Some (a # r) | _ \<Rightarrow> None)"

definition dotted_quad :: "bytes \<Rightarrow> bytes option" where
  "dotted_quad text = (case octets (split_dots [] text) of
     Some a \<Rightarrow> if length a = 4 then Some a else None | None \<Rightarrow> None)"

lemma ucast_of_nat_u8: "ucast (of_nat n :: u32) = (of_nat n :: u8)"
  by (simp add: word_unat_eq_iff unat_of_nat unsigned_ucast_eq take_bit_eq_mod mod_mod_cancel)

lemma is_digit_not_0 [simp]: "\<not> is_digit 0"
  by (simp add: is_digit_def)

lemma is_digit_not_dot [simp]: "\<not> is_digit 46"
  by (simp add: is_digit_def)

lemma digits_val_snoc: "digits_val (ds @ [c]) = 10 * digits_val ds + (unat c - 48)"
  by (simp add: digits_val_def)

lemma digits_val_bound: "list_all is_digit ds \<Longrightarrow> digits_val ds < 10 ^ length ds"
proof (induction ds rule: rev_induct)
  case Nil
  then show ?case by (simp add: digits_val_def)
next
  case (snoc c ds)
  have "unat c - 48 < 10" using snoc.prems by (auto simp: is_digit_def word_le_nat_alt)
  then show ?case using snoc by (simp add: digits_val_snoc)
qed

lemma ConvertToInteger_digits:
  assumes "cstr element = ds" "ds \<noteq> []" "list_all is_digit ds" "length ds \<le> 3"
  shows "FileHandler_ConvertToInteger element cur = (0, of_nat (digits_val ds))"
    "of_nat (digits_val ds) > (255 :: u32) \<longleftrightarrow> \<not> digits_val ds \<le> 255"
proof -
  have "digits_val ds < 10 ^ length ds" using assms(3) by (rule digits_val_bound)
  also have "(10 :: nat) ^ length ds \<le> 10 ^ 3" using assms(4) by (intro power_increasing) simp_all
  finally have b: "digits_val ds < 1000" by simp
  show "FileHandler_ConvertToInteger element cur = (0, of_nat (digits_val ds))"
    using strtol10_digits [OF assms(1-3)] b by (simp add: FileHandler_ConvertToInteger_def)
  show "of_nat (digits_val ds) > (255 :: u32) \<longleftrightarrow> \<not> digits_val ds \<le> 255"
    using b by (auto simp: word_less_nat_alt)
qed

text \<open>The buffer holds the digits read so far.\<close>

definition element_holds :: "bytes \<Rightarrow> bytes \<Rightarrow> bool" where
  "element_holds element ds \<longleftrightarrow> length element = 4 \<and> length ds \<le> 3 \<and> list_all is_digit ds \<and>
     (ds \<noteq> [] \<longrightarrow> cstr element = ds \<and> take (Suc (length ds)) element = ds @ [0])"

lemma element_step:
  assumes "element_holds element ds" "length ds < 3" "is_digit c"
  shows "element_holds (element[length ds := c, Suc (length ds) := 0]) (ds @ [c])"
proof -
  let ?e = "element[length ds := c, Suc (length ds) := 0]"
  have len: "length element = 4" using assms(1) by (simp add: element_holds_def)
  have ds: "take (length ds) element = ds"
  proof (cases "ds = []")
    case False
    then have "take (Suc (length ds)) element = ds @ [0]" using assms(1) by (simp add: element_holds_def)
    from arg_cong [OF this, of "take (length ds)"] show ?thesis by simp
  qed simp
  have t: "take (Suc (Suc (length ds))) ?e = ds @ [c, 0]"
    using assms(2) len ds by (simp add: take_Suc_conv_app_nth nth_list_update)
  then have "?e = (ds @ [c]) @ 0 # drop (Suc (Suc (length ds))) ?e"
    by (metis append_Cons append_Nil append_assoc append_take_drop_id)
  moreover have "0 \<notin> set (ds @ [c])"
    using assms(1,3) is_digit_not_0 by (auto simp: element_holds_def list_all_iff)
  ultimately have "cstr ?e = ds @ [c]" by (metis cstr_append_0)
  then show ?thesis using assms t len by (simp add: element_holds_def)
qed

lemma octets_None: "s \<in> set ss \<Longrightarrow> octet s = None \<Longrightarrow> octets ss = None"
  by (induction ss) (auto split: option.splits)

lemma split_dots_head:
  "\<exists>s ss. split_dots cur cs = s # ss \<and> length cur \<le> length s \<and> take (length cur) s = cur"
proof (induction cs arbitrary: cur)
  case (Cons c cs)
  obtain s ss where s: "split_dots (cur @ [c]) cs = s # ss" "length (cur @ [c]) \<le> length s"
    "take (length (cur @ [c])) s = cur @ [c]" using Cons by blast
  from arg_cong [OF s(3), of "take (length cur)"] s(2) have "take (length cur) s = cur" by simp
  then show ?case using s by simp
qed simp

lemma octets_bad_start:
  assumes "length cur > 3 \<or> \<not> list_all is_digit cur"
  shows "octets (split_dots cur cs) = None"
proof -
  obtain s ss where s: "split_dots cur cs = s # ss" "length cur \<le> length s" "take (length cur) s = cur"
    using split_dots_head by blast
  have "octet s = None"
    using assms s(2) in_set_takeD [of _ "length cur" s] unfolding s(3)
    by (auto simp: octet_def list_all_iff)
  then show ?thesis using s(1) by simp
qed

lemma ip_loop_exact:
  assumes "element_holds element ds" "length arr = 4" "k < 4"
  shows "ip_loop cs element tmp (length ds) k arr = (SUCCESS, a) \<longleftrightarrow>
    (\<exists>r. octets (split_dots ds cs) = Some r \<and> k + length r = 4 \<and> a = take k arr @ r)"
  using assms
proof (induction cs arbitrary: element ds tmp k arr)
  case Nil
  show ?case
  proof (cases "ds = []")
    case True
    then show ?thesis by (simp add: octet_def)
  next
    case False
    have h: "cstr element = ds" "list_all is_digit ds" "length ds \<le> 3"
      using Nil.prems(1) False by (simp_all add: element_holds_def)
    note c = ConvertToInteger_digits [OF h(1) False h(2,3)]
    have "arr[3 := v] = take 3 arr @ [v]" for v using Nil.prems(2) by (auto simp: numeral_3_eq_3 length_Suc_conv numeral_eq_Suc)
    then show ?thesis
      using False h Nil.prems(3) c by (cases "k = 3") (auto simp: octet_def ucast_of_nat_u8 split: if_splits)
  qed
next
  case (Cons c cs)
  have h: "list_all is_digit ds" "length ds \<le> 3" using Cons.prems(1) by (simp_all add: element_holds_def)
  consider (digit) "is_digit c" "length ds < 3" | (long) "is_digit c" "length ds = 3"
    | (empty) "c = 46" "ds = []" | (dot) "c = 46" "ds \<noteq> []" | (bad) "\<not> is_digit c" "c \<noteq> 46"
    using h(2) by fastforce
  then show ?case
  proof cases
    case digit
    then show ?thesis
      using Cons.IH [OF element_step [OF Cons.prems(1) digit(2,1)] Cons.prems(2,3)] by auto
  next
    case long
    then show ?thesis using octets_bad_start [of "ds @ [c]" cs] by (auto simp: is_digit_def)
  next
    case empty
    then show ?thesis by (simp add: octet_def)
  next
    case dot
    have cs: "cstr element = ds" using Cons.prems(1) dot by (simp add: element_holds_def)
    note cv = ConvertToInteger_digits [OF cs dot(2) h]
    let ?v = "of_nat (digits_val ds) :: u8"
    have e0: "element_holds element []" using Cons.prems(1) by (simp add: element_holds_def)
    have ne: "split_dots [] cs \<noteq> []" using split_dots_head [of "[]" cs] by auto
    have tk: "take (Suc k) (arr[k := v]) = take k arr @ [v]" for v
      using Cons.prems(2,3) by (simp add: take_Suc_conv_app_nth)
    show ?thesis
    proof (cases "digits_val ds \<le> 255")
      case False
      then show ?thesis using dot cv by (simp add: octet_def)
    next
      case small: True
      have oct: "octet ds = Some ?v" using small h dot(2) by (simp add: octet_def)
      have uc: "ucast (of_nat (digits_val ds) :: u32) = ?v" by (rule ucast_of_nat_u8)
      show ?thesis
      proof (cases "k = 3")
        case True
        have "octets (split_dots [] cs) = Some r \<Longrightarrow> r \<noteq> []" for r
          using ne by (cases "split_dots [] cs") (auto split: option.splits)
        then show ?thesis using True dot cv small oct
          by (auto simp: uc split: option.splits)
      next
        case False
        then have k: "k < 3" using Cons.prems(3) by simp
        note ih = Cons.IH [OF e0, of "arr[k := ?v]" "Suc k" "of_nat (digits_val ds)", simplified, OF Cons.prems(2) k]
        show ?thesis using dot cv small oct k False ih tk
          by (auto simp: uc split: option.splits)
      qed
    qed
  next
    case bad
    then show ?thesis using octets_bad_start [of "ds @ [c]" cs] by auto
  qed
qed

lemma IpStringToIntArray_exact:
  assumes "length arr = 4"
  shows "IpStringToIntArray text len junk arr = (SUCCESS, a) \<longleftrightarrow> dotted_quad (take (unat len) text) = Some a"
proof -
  have "element_holds (replicate 4 0) []" by (simp add: element_holds_def)
  from ip_loop_exact [OF this assms, of 0 "take (unat len) text" junk a]
  show ?thesis by (auto simp: IpStringToIntArray_def dotted_quad_def split: option.splits)
qed

section \<open>Rendered addresses read back\<close>

lemma nat_digits_prop: "nat_digits n \<noteq> [] \<and> list_all is_digit (nat_digits n) \<and> digits_val (nat_digits n) = n"
proof (induction n rule: nat_digits.induct)
  case (1 n)
  have d: "is_digit (48 + of_nat k)" "unat (48 + of_nat k :: u8) = 48 + k" if "k < 10" for k
  proof -
    have u: "unat (48 + of_nat k :: u8) = 48 + k" using that by (subst unat_add_small) (simp_all add: unat_of_nat_u8)
    then show "unat (48 + of_nat k :: u8) = 48 + k" .
    show "is_digit (48 + of_nat k)" using u that by (simp add: is_digit_def word_le_nat_alt)
  qed
  show ?case
  proof (cases "n < 10")
    case True
    then show ?thesis using d [of n] by (subst (1 2 3) nat_digits.simps) (simp add: digits_val_def)
  next
    case False
    then show ?thesis using 1 d [of "n mod 10"] by (subst (1 2 3) nat_digits.simps) (simp add: digits_val_snoc)
  qed
qed

lemma length_nat_digits: "n < 1000 \<Longrightarrow> length (nat_digits n) \<le> 3"
  by (simp add: nat_digits.simps [of n] nat_digits.simps [of "n div 10"] nat_digits.simps [of "n div 10 div 10"])

lemma octet_text: "octet (int_text (uint a)) = Some a" for a :: u8
proof -
  let ?n = "nat (uint a)"
  have n: "?n = unat a" "unat a < 256" using unat_u8_bound by simp_all
  have "int_text (uint a) = nat_digits (unat a)" by (simp add: int_text_def)
  then show ?thesis
    using nat_digits_prop [of "unat a"] length_nat_digits [of "unat a"] n by (simp add: octet_def)
qed

lemma octet_no_dot: "octet s = Some v \<Longrightarrow> 46 \<notin> set s"
  by (auto simp: octet_def list_all_iff split: if_splits)

lemma split_dots_append: "46 \<notin> set s \<Longrightarrow> split_dots cur (s @ 46 # r) = (cur @ s) # split_dots [] r"
  by (induction s arbitrary: cur) auto

lemma split_dots_last: "46 \<notin> set s \<Longrightarrow> split_dots cur s = [cur @ s]"
  by (induction s arbitrary: cur) auto

lemma ascii_dot: "ascii ''.'' = [46]"
  by (simp add: ascii_def of_char_def)

lemma dotted_quad_text:
  assumes "length a = 4"
  shows "dotted_quad (ip_text a) = Some a"
proof -
  obtain w x y z where a: "a = [w, x, y, z]"
    using assms by (auto simp: numeral_eq_Suc length_Suc_conv)
  have nd: "46 \<notin> set (int_text (uint v))" for v :: u8 using octet_text octet_no_dot by blast
  have "split_dots [] (ip_text a) = [int_text (uint w), int_text (uint x), int_text (uint y), int_text (uint z)]"
    using nd by (simp add: ip_text_def a ascii_dot split_dots_append split_dots_last del: split_dots.simps)
  then show ?thesis by (simp add: dotted_quad_def octet_text a)
qed

lemma ip_text_length: "length a = 4 \<Longrightarrow> length (ip_text a) \<le> 15"
proof -
  have "length (int_text (uint v)) \<le> 3" for v :: u8
    using octet_text [of v] by (auto simp: octet_def split: if_splits)
  from this [of "a ! 0"] this [of "a ! 1"] this [of "a ! 2"] this [of "a ! 3"]
  show ?thesis by (simp add: ip_text_def ascii_dot)
qed

section \<open>The settings form\<close>

definition can_config_valid :: "AppFcdanConfigType \<Rightarrow> bool" where
  "can_config_valid c \<longleftrightarrow> baudrate c \<in> {250000, 500000, 1000000} \<and> can_mode c \<in> {1, 2, 3}"

definition settings_valid :: "AppConfigType \<Rightarrow> bool" where
  "settings_valid cfg \<longleftrightarrow> can_config_valid (can1 cfg) \<and> can_config_valid (can2 cfg)"

lemma new_baudrate_cases: "new_baudrate val b \<in> {b, 250000, 500000, 1000000}"
  by (simp add: new_baudrate_def)

lemma new_mode_cases: "new_mode val m \<in> {m, 1, 2, 3}"
  by (simp add: new_mode_def FDCAN_MODE_1_def FDCAN_MODE_2_def FDCAN_MODE_3_def)

lemma ucast_mode [simp]: "ucast (ucast m :: u32) = (m :: u8)"
  by (rule bit_word_eqI) (auto simp: bit_ucast_iff)

lemma set_baudrate_can1: "set_baudrate can1 can1_update val cfg =
    (if new_baudrate val (baudrate (can1 cfg)) = (baudrate (can1 cfg)) then cfg
     else cfg\<lparr>updated := 1, can1 := (can1 cfg)\<lparr>baudrate := new_baudrate val (baudrate (can1 cfg))\<rparr>\<rparr>)"
  by (cases cfg, cases "can1 cfg") (auto simp: set_baudrate_def Let_def)

lemma set_baudrate_can2: "set_baudrate can2 can2_update val cfg =
    (if new_baudrate val (baudrate (can2 cfg)) = (baudrate (can2 cfg)) then cfg
     else cfg\<lparr>updated := 1, can2 := (can2 cfg)\<lparr>baudrate := new_baudrate val (baudrate (can2 cfg))\<rparr>\<rparr>)"
  by (cases cfg, cases "can2 cfg") (auto simp: set_baudrate_def Let_def)

lemma set_mode_can1: "set_mode can1 can1_update val cfg =
    (if new_mode val (ucast (can_mode (can1 cfg))) = (ucast (can_mode (can1 cfg))) then cfg
     else cfg\<lparr>updated := 1, can1 := (can1 cfg)\<lparr>can_mode := ucast (new_mode val (ucast (can_mode (can1 cfg))))\<rparr>\<rparr>)"
  by (cases cfg, cases "can1 cfg") (auto simp: set_mode_def Let_def)

lemma set_mode_can2: "set_mode can2 can2_update val cfg =
    (if new_mode val (ucast (can_mode (can2 cfg))) = (ucast (can_mode (can2 cfg))) then cfg
     else cfg\<lparr>updated := 1, can2 := (can2 cfg)\<lparr>can_mode := ucast (new_mode val (ucast (can_mode (can2 cfg))))\<rparr>\<rparr>)"
  by (cases cfg, cases "can2 cfg") (auto simp: set_mode_def Let_def)

text \<open>One pair either changes nothing in the configuration or marks it as updated; the address is
  never touched, and a valid configuration stays valid.\<close>

definition step_ok :: "AppConfigType \<Rightarrow> AppConfigType \<Rightarrow> bool" where
  "step_ok cfg cfg' \<longleftrightarrow> (cfg' = cfg \<or> updated cfg' = 1) \<and> ip cfg' = ip cfg \<and>
     (settings_valid cfg \<longrightarrow> settings_valid cfg')"

lemma step_ok_refl [simp]: "step_ok cfg cfg"
  by (simp add: step_ok_def)

lemma step_ok_trans: "step_ok a b \<Longrightarrow> step_ok b c \<Longrightarrow> step_ok a c"
  by (auto simp: step_ok_def)

lemma step_ok_can:
  "(can_config_valid (can1 cfg) \<Longrightarrow> can_config_valid c) \<Longrightarrow> step_ok cfg (cfg\<lparr>updated := 1, can1 := c\<rparr>)"
  "(can_config_valid (can2 cfg) \<Longrightarrow> can_config_valid c) \<Longrightarrow> step_ok cfg (cfg\<lparr>updated := 1, can2 := c\<rparr>)"
  by (simp_all add: step_ok_def settings_valid_def)

lemma baudrate_valid: "can_config_valid c \<Longrightarrow> can_config_valid (c\<lparr>baudrate := new_baudrate val (baudrate c)\<rparr>)"
  by (auto simp: can_config_valid_def new_baudrate_def)

lemma mode_valid: "can_config_valid c \<Longrightarrow>
    can_config_valid (c\<lparr>can_mode := ucast (new_mode val (ucast (can_mode c)))\<rparr>)"
  unfolding new_mode_def FDCAN_MODE_1_def FDCAN_MODE_2_def FDCAN_MODE_3_def
  by (simp add: can_config_valid_def)

lemma step_ok_baudrate:
  "step_ok cfg (set_baudrate can1 can1_update val cfg)" "step_ok cfg (set_baudrate can2 can2_update val cfg)"
  by (simp_all add: set_baudrate_can1 set_baudrate_can2 step_ok_can baudrate_valid)

lemma step_ok_mode:
  "step_ok cfg (set_mode can1 can1_update val cfg)" "step_ok cfg (set_mode can2 can2_update val cfg)"
  by (simp_all add: set_mode_can1 set_mode_can2 step_ok_can mode_valid)

lemma consume_step: "step_ok (AppSettings st) (AppSettings (consume_param_values param val st))"
  by (simp add: consume_param_values_def Let_def SettingsHandler_ApplyRequestCallback_def
      step_ok_baudrate step_ok_mode)

lemma consume_all:
  "step_ok (AppSettings st) (AppSettings (foldl (\<lambda>st (param, val). consume_param_values param val st) st params))"
proof (induction params arbitrary: st)
  case (Cons p params)
  then show ?case using step_ok_trans [OF consume_step Cons.IH] by (cases p) simp
qed simp

section \<open>Properties\<close>

definition number_keys :: "string list" where
  "number_keys = [''CAN1.Baudrate'', ''CAN1.Mode'', ''CAN2.Baudrate'', ''CAN2.Mode'']"

definition too_long :: "json_search \<Rightarrow> bytes \<Rightarrow> string \<Rightarrow> bool" where
  "too_long json_search doc key = (case json_search doc (ascii key) of Some (off, len) \<Rightarrow> unat len \<ge> 64 | None \<Rightarrow> False)"

lemma parse_number_None: "parse_number js doc key store cur cfg = None \<longleftrightarrow> too_long js doc key"
  by (auto simp: parse_number_def FileHandler_GetValue_def tmp_value_def too_long_def split: option.splits)

lemma parse_number_Some: "parse_number js doc key store cur cfg = Some r \<Longrightarrow> \<not> too_long js doc key"
  using parse_number_None [of js doc key store cur cfg] by simp

text \<open>C23. The address parser accepts exactly the texts of four numbers of one to three digits, none
  above 255, between single dots, and stores the four numbers in order.\<close>

theorem ip_parser_exact:
  assumes "length arr = 4"
  shows "IpStringToIntArray text len junk arr = (SUCCESS, a) \<longleftrightarrow> dotted_quad (take (unat len) text) = Some a"
  using assms by (rule IpStringToIntArray_exact)

theorem ip_parser_exact_witness:
  "IpStringToIntArray (ascii ''10.0.0.7'') 8 0 [1, 2, 3, 4] = (SUCCESS, [10, 0, 0, 7])"
proof -
  have "ascii ''10.0.0.7'' = [49, 48, 46, 48, 46, 48, 46, 55]" by (simp add: ascii_def of_char_def)
  then have "dotted_quad (take (unat (8 :: u8)) (ascii ''10.0.0.7'')) = Some [10, 0, 0, 7]"
    by (simp add: dotted_quad_def octet_def is_digit_def digits_val_def)
  then show ?thesis using ip_parser_exact [of "[1, 2, 3, 4]"] by simp
qed

text \<open>C26. The address the configuration writer renders is read back as the same four bytes.\<close>

theorem ip_text_reads_back:
  assumes "length a = 4" "length arr = 4"
  shows "IpStringToIntArray (ip_text a @ rest) (of_nat (length (ip_text a))) junk arr = (SUCCESS, a)"
proof -
  have "unat (of_nat (length (ip_text a)) :: u8) = length (ip_text a)"
    using ip_text_length [OF assms(1)] by (simp add: unat_of_nat_u8)
  then show ?thesis
    using IpStringToIntArray_exact [OF assms(2)] dotted_quad_text [OF assms(1)] by simp
qed

theorem ip_text_reads_back_witness:
  "IpStringToIntArray (ip_text [192, 168, 0, 10] @ []) (of_nat (length (ip_text [192, 168, 0, 10]))) 0 [0, 0, 0, 0] =
   (SUCCESS, [192, 168, 0, 10])"
  by (rule ip_text_reads_back) simp_all

text \<open>No sequence of form fields, whatever their names and values, makes a valid CAN
  configuration invalid, changes the address, or changes the configuration without marking it
  for storage.\<close>

theorem form_settings_safe:
  "(settings_valid (AppSettings st) \<longrightarrow> settings_valid (AppSettings (http_app_set_setting i params st))) \<and>
   ip (AppSettings (http_app_set_setting i params st)) = ip (AppSettings st) \<and>
   (AppSettings (http_app_set_setting i params st) = AppSettings st \<or>
    updated (AppSettings (http_app_set_setting i params st)) = 1)"
  using consume_all [of st params] by (auto simp: http_app_set_setting_def step_ok_def)

definition sample_settings :: settings_state where
  "sample_settings = \<lparr>AppSettings = \<lparr>updated = 0, can1 = \<lparr>baudrate = 500000, can_mode = 1\<rparr>,
     can2 = \<lparr>baudrate = 500000, can_mode = 1\<rparr>, ip = [192, 168, 0, 10]\<rparr>, applyConfig = 0\<rparr>"

theorem form_settings_safe_witness:
  "settings_valid (AppSettings (http_app_set_setting 1 [(ascii ''baud1'', ascii ''9'')] sample_settings))"
proof -
  have "settings_valid (AppSettings sample_settings)"
    by (simp add: settings_valid_def can_config_valid_def sample_settings_def)
  then show ?thesis using form_settings_safe [of sample_settings 1 "[(ascii ''baud1'', ascii ''9'')]"] by blast
qed

text \<open>Reading the configuration file stays inside its 64-byte scratch buffer exactly when none of
  the four numeric entries is longer than 63 characters: nothing checks their length.\<close>

theorem parse_config_overflow:
  "SettingsHandler_ParseConfig json_validate json_search b m t doc cfg = None \<longleftrightarrow>
   json_validate doc \<and> list_ex (too_long json_search doc) number_keys"
  unfolding SettingsHandler_ParseConfig_def number_keys_def
  by (auto simp: parse_number_None dest: parse_number_Some split: option.splits prod.splits)

text \<open>An entry that is not a number is not rejected: the conversion reports success and stores
  nothing, so the baud rate becomes what the uninitialised local happened to hold.\<close>

theorem non_numeric_baudrate_is_junk:
  assumes "json_validate doc" "FileHandler_GetValue json_search doc (ascii ''CAN1.Baudrate'') = Some (val, len)"
    and "snd (strtol10 (cstr (take (unat len) val) @ [0])) \<noteq> []"
    and "SettingsHandler_ParseConfig json_validate json_search b m t doc cfg = Some (r, cfg')"
  shows "baudrate (can1 cfg') = b"
proof -
  have "tmp_value val len b = Some v \<Longrightarrow> v = b" for v
    using assms(3) by (auto simp: tmp_value_def FileHandler_ConvertToInteger_def split: prod.splits if_splits)
  then have "parse_number json_search doc ''CAN1.Baudrate'' (\<lambda>v. can1_update (baudrate_update (\<lambda>_. v))) b cfg = Some (b', cfg1) \<Longrightarrow>
      baudrate (can1 cfg1) = b" for b' cfg1
    using assms(2) by (auto simp: parse_number_def split: option.splits)
  moreover have "parse_number json_search doc key (\<lambda>v. can1_update (can_mode_update (\<lambda>_. ucast v))) x c = Some (y, c') \<Longrightarrow>
      baudrate (can1 c') = baudrate (can1 c)" for key x c y c'
    by (auto simp: parse_number_def split: option.splits)
  moreover have "parse_number json_search doc key (\<lambda>v. can2_update (baudrate_update (\<lambda>_. v))) x c = Some (y, c') \<Longrightarrow>
      can1 c' = can1 c" for key x c y c'
    by (auto simp: parse_number_def split: option.splits)
  moreover have "parse_number json_search doc key (\<lambda>v. can2_update (can_mode_update (\<lambda>_. ucast v))) x c = Some (y, c') \<Longrightarrow>
      can1 c' = can1 c" for key x c y c'
    by (auto simp: parse_number_def split: option.splits)
  ultimately show ?thesis
    using assms(1,4) unfolding SettingsHandler_ParseConfig_def
    by (auto split: option.splits prod.splits if_splits)
qed

text \<open>A document whose only entry is the text \<open>abc\<close> for the first baud rate.\<close>

definition sample_search :: json_search where
  "sample_search doc key = (if key = ascii ''CAN1.Baudrate'' then Some (0, 3) else None)"

theorem non_numeric_baudrate_is_junk_witness:
  "\<exists>cfg'. SettingsHandler_ParseConfig (\<lambda>_. True) sample_search 0xDEADBEEF 0 0 (ascii ''abc'') (AppSettings sample_settings) =
      Some (SETTINGS_NOT_OK, cfg') \<and> baudrate (can1 cfg') = 0xDEADBEEF"
proof -
  have keys: "ascii ''CAN1.Mode'' \<noteq> ascii ''CAN1.Baudrate''" "ascii ''CAN2.Baudrate'' \<noteq> ascii ''CAN1.Baudrate''"
    "ascii ''CAN2.Mode'' \<noteq> ascii ''CAN1.Baudrate''" "ascii ''HTTP.IP'' \<noteq> ascii ''CAN1.Baudrate''"
    by (simp_all add: ascii_def of_char_def)
  have v: "FileHandler_GetValue sample_search (ascii ''abc'') (ascii ''CAN1.Baudrate'') = Some (ascii ''abc'', 3)"
    by (simp add: FileHandler_GetValue_def sample_search_def)
  have n: "snd (strtol10 (cstr (take (unat (3 :: size_t)) (ascii ''abc'')) @ [0])) \<noteq> []"
    by (simp add: ascii_def of_char_def strtol10_def cstr_def is_space_def is_digit_def)
  obtain cfg' where run: "SettingsHandler_ParseConfig (\<lambda>_. True) sample_search 0xDEADBEEF 0 0 (ascii ''abc'') (AppSettings sample_settings) =
      Some (SETTINGS_NOT_OK, cfg')"
    using keys by (simp add: SettingsHandler_ParseConfig_def parse_number_def FileHandler_GetValue_def sample_search_def tmp_value_def)
  then show ?thesis using non_numeric_baudrate_is_junk [OF _ v n run] by simp
qed

end
