(* ===== verification/HttpdPost.thy ===== *)
theory HttpdPost
  imports Iap SettingsHandler
begin

text \<open>
  \<open>app/services/http/src/httpd_post.c\<close>: the POST requests of the web server, a settings form parsed
  byte by byte and a firmware image streamed into the ingest pipeline.  A connection is the value of
  its pointer (0 is \<open>NULL\<close>), an entry of the table of connections is its index, a chain of packet
  buffers is the list of their payloads.  Windows and buffers are returned to lwIP, which is not
  modelled.  The lemmas bound the parser's buffers, say what a form body delivers and what an upload
  leaves in the slot, and keep the table and the writer in step.
\<close>

section \<open>State\<close>

datatype err_t = ERR_OK | ERR_VAL

definition HTTPD_POST_MODE_FORM_KV :: u8 where "HTTPD_POST_MODE_FORM_KV = 0"
definition HTTPD_POST_MODE_IAP_BIN :: u8 where "HTTPD_POST_MODE_IAP_BIN = 1"

datatype upload_state =
  HTTPD_IAP_UPLOAD_STATE_IDLE | HTTPD_IAP_UPLOAD_STATE_IN_PROGRESS |
  HTTPD_IAP_UPLOAD_STATE_READY | HTTPD_IAP_UPLOAD_STATE_ERROR

datatype upload_error =
  HTTPD_IAP_UPLOAD_ERROR_NONE | HTTPD_IAP_UPLOAD_ERROR_BEGIN | HTTPD_IAP_UPLOAD_ERROR_PUSH |
  HTTPD_IAP_UPLOAD_ERROR_INCOMPLETE | HTTPD_IAP_UPLOAD_ERROR_FINISH

record 'x HttpdPostStateType =
  key :: bytes
  val :: bytes
  klen :: u16
  vlen :: u16
  received :: u32
  content_len :: u32
  phase :: u8
  post_mode :: u8
  iap_failed :: u8
  iap_fail_status :: UpdateIngestStatusType
  iap_pipeline :: "'x UpdateIngestPipelineContextType"

record 'x HttpdPostStateMapType =
  conn :: u32
  ps :: "'x HttpdPostStateType"

record HttpdIapUploadStatusType =
  up_state :: upload_state
  up_received :: u32
  up_total :: u32
  error_reason :: upload_error
  ingest_status :: UpdateIngestStatusType

text \<open>The statics of the file, the update service the pipelines and hooks reach, and the settings
  the form changes.\<close>

record 's httpd_state =
  conn_map :: "'s ingest_state HttpdPostStateMapType list"
  current_connection :: u32
  valid_connection :: u32
  HttpdIapUploadStatus :: HttpdIapUploadStatusType
  iap :: "'s iap_state"
  settings :: settings_state

definition MEMP_NUM_PARALLEL_HTTPD_CONNS :: nat where "MEMP_NUM_PARALLEL_HTTPD_CONNS = 8"

text \<open>What \<open>memset(ps, 0, sizeof *ps)\<close> leaves.\<close>

definition zero_ps :: "'x HttpdPostStateType" where
  "zero_ps = \<lparr>key = replicate 16 0, val = replicate 32 0, klen = 0, vlen = 0, received = 0,
     content_len = 0, phase = 0, post_mode = 0, iap_failed = 0,
     iap_fail_status = IAP_UPDATE_INGEST_E_OK, iap_pipeline = UpdateIngestPipeline_Reset\<rparr>"

section \<open>Helpers\<close>

definition HttpdPost_SetIapUploadStatus :: "upload_state \<Rightarrow> u32 \<Rightarrow> u32 \<Rightarrow> 's httpd_state \<Rightarrow> 's httpd_state" where
  "HttpdPost_SetIapUploadStatus s r t st = st\<lparr>HttpdIapUploadStatus :=
     (HttpdIapUploadStatus st)\<lparr>up_state := s, up_received := r, up_total := t\<rparr>\<rparr>"

definition HttpdPost_SetIapUploadError :: "upload_error \<Rightarrow> UpdateIngestStatusType \<Rightarrow> 's httpd_state \<Rightarrow> 's httpd_state" where
  "HttpdPost_SetIapUploadError reason status st = st\<lparr>HttpdIapUploadStatus :=
     (HttpdIapUploadStatus st)\<lparr>error_reason := reason, ingest_status := status\<rparr>\<rparr>"

text \<open>Entry \<open>i\<close> through a pointer.\<close>

definition post_at :: "'s httpd_state \<Rightarrow> nat \<Rightarrow> 's ingest_state HttpdPostStateType" where
  "post_at st i = ps (conn_map st ! i)"

definition set_post :: "nat \<Rightarrow> 's ingest_state HttpdPostStateType \<Rightarrow> 's httpd_state \<Rightarrow> 's httpd_state" where
  "set_post i p st = st\<lparr>conn_map := (conn_map st)[i := (conn_map st ! i)\<lparr>ps := p\<rparr>]\<rparr>"

definition set_conn :: "nat \<Rightarrow> u32 \<Rightarrow> 's httpd_state \<Rightarrow> 's httpd_state" where
  "set_conn i c st = st\<lparr>conn_map := (conn_map st)[i := (conn_map st ! i)\<lparr>conn := c\<rparr>]\<rparr>"

fun find_conn :: "u32 \<Rightarrow> 'x HttpdPostStateMapType list \<Rightarrow> nat option" where
  "find_conn c [] = None"
| "find_conn c (e # es) = (if conn e = c then Some 0 else map_option Suc (find_conn c es))"

definition map_lookup :: "u32 \<Rightarrow> 's httpd_state \<Rightarrow> nat option" where
  "map_lookup c st = find_conn c (conn_map st)"

definition map_alloc :: "u32 \<Rightarrow> u32 \<Rightarrow> u8 \<Rightarrow> 's httpd_state \<Rightarrow> nat option \<times> 's httpd_state" where
  "map_alloc c clen m st = (case find_conn 0 (conn_map st) of None \<Rightarrow> (None, st)
     | Some i \<Rightarrow> (Some i, set_post i (zero_ps\<lparr>content_len := clen, post_mode := m\<rparr>) (set_conn i c st)))"

definition map_free :: "u32 \<Rightarrow> 's httpd_state \<Rightarrow> 's httpd_state" where
  "map_free c st = (case find_conn c (conn_map st) of None \<Rightarrow> st | Some i \<Rightarrow> set_conn i 0 st)"

text \<open>An operation of the pipeline of entry \<open>i\<close> on the update service.\<close>

definition run_pipeline ::
  "nat \<Rightarrow> ('s ingest_state UpdateIngestPipelineContextType \<Rightarrow> 's ingest_state \<Rightarrow>
     UpdateIngestStatusType \<times> 's ingest_state UpdateIngestPipelineContextType \<times> 's ingest_state) \<Rightarrow>
   's httpd_state \<Rightarrow> UpdateIngestStatusType \<times> 's httpd_state" where
  "run_pipeline i f st =
     (case f (iap_pipeline (post_at st i)) (core (iap st)) of
        (r, pl, x) \<Rightarrow> (r, set_post i ((post_at st i)\<lparr>iap_pipeline := pl\<rparr>) (st\<lparr>iap := (iap st)\<lparr>core := x\<rparr>\<rparr>)))"

definition HttpdPost_ClearSingleIapSession :: "nat \<Rightarrow> 's httpd_state \<Rightarrow> 's httpd_state" where
  "HttpdPost_ClearSingleIapSession i st =
     (if conn (conn_map st ! i) = 0 then st
      else if post_mode (post_at st i) = HTTPD_POST_MODE_IAP_BIN then
        let c = conn (conn_map st ! i);
            st = (if iap_failed (post_at st i) = 0 then snd (run_pipeline i UpdateIngestPipeline_Abort st) else st);
            st = (if current_connection st = c then st\<lparr>current_connection := 0\<rparr> else st);
            st = (if valid_connection st = c then st\<lparr>valid_connection := 0\<rparr> else st)
        in set_post i zero_ps (set_conn i 0 st)
      else st)"

section \<open>The form parser\<close>

definition consume_byte ::
  "'x HttpdPostStateType \<times> settings_state \<Rightarrow> u8 \<Rightarrow> 'x HttpdPostStateType \<times> settings_state" where
  "consume_byte ps_sets c =
     (let (p, sets) = ps_sets
      in if c = 61 then (p\<lparr>key := (key p)[unat (klen p) := 0], phase := 1, vlen := 0\<rparr>, sets)
         else if c = 38 then
           let p = p\<lparr>val := (val p)[unat (vlen p) := 0]\<rparr>
           in (p\<lparr>klen := 0, vlen := 0, phase := 0\<rparr>, httpd_post_cb (key p) (val p) sets)
         else if phase p = 0 \<and> klen p < 15 then
           (p\<lparr>key := (key p)[unat (klen p) := c], klen := klen p + 1\<rparr>, sets)
         else if phase p = 1 \<and> vlen p < 31 then
           (p\<lparr>val := (val p)[unat (vlen p) := c], vlen := vlen p + 1\<rparr>, sets)
         else (p, sets))"

section \<open>The lwIP callbacks\<close>

text \<open>The response is the text \<open>snprintf\<close> puts into \<open>response_uri\<close> (cut to its room), \<open>None\<close> if it is
  left alone; \<open>post_auto_wnd\<close> becomes 0.\<close>

definition begin_iap :: "u32 \<Rightarrow> int \<Rightarrow> nat \<Rightarrow> 's httpd_state \<Rightarrow> bool \<times> 's httpd_state" where
  "begin_iap connection len i st =
     (let total = (if len > 0 then of_int len else 0);
          st = st\<lparr>iap := Iap_VerifyReset (iap st)\<rparr>;
          st = HttpdPost_SetIapUploadStatus HTTPD_IAP_UPLOAD_STATE_IN_PROGRESS 0 total st;
          st = HttpdPost_SetIapUploadError HTTPD_IAP_UPLOAD_ERROR_NONE IAP_UPDATE_INGEST_E_OK st;
          (r, st) = (if len > 0
             then run_pipeline i (\<lambda>pl x. UpdateIngestPipeline_Begin pl (of_int len) (registry (iap st)) x) st
             else (IAP_UPDATE_INGEST_E_OK, st))
      in if len \<le> 0 \<or> r \<noteq> IAP_UPDATE_INGEST_E_OK then
           let st = HttpdPost_SetIapUploadStatus HTTPD_IAP_UPLOAD_STATE_ERROR 0 total st;
               st = HttpdPost_SetIapUploadError HTTPD_IAP_UPLOAD_ERROR_BEGIN r st
           in (False, (map_free connection st)\<lparr>current_connection := 0\<rparr>)
         else (True, st))"

definition httpd_post_begin ::
  "u32 \<Rightarrow> bytes \<Rightarrow> int \<Rightarrow> 's httpd_state \<Rightarrow> err_t \<times> bytes option \<times> 's httpd_state" where
  "httpd_post_begin connection uri len st =
     (case (if take 8 uri = ascii ''/can.cgi'' then Some HTTPD_POST_MODE_FORM_KV
            else if take 11 uri = ascii ''/iap/upload'' then Some HTTPD_POST_MODE_IAP_BIN else None) of
        None \<Rightarrow> (ERR_VAL, None, st)
      | Some m \<Rightarrow>
          if current_connection st \<noteq> connection then
            let st = st\<lparr>current_connection := connection, valid_connection := 0\<rparr>;
                (slot, st) = map_alloc connection (of_int len) m st
            in case slot of None \<Rightarrow> (ERR_VAL, None, st\<lparr>current_connection := 0\<rparr>)
               | Some i \<Rightarrow>
                   let (ok, st) = (if m = HTTPD_POST_MODE_IAP_BIN then begin_iap connection len i st else (True, st))
                   in if \<not> ok then (ERR_VAL, None, st)
                      else (ERR_OK, Some (ascii ''/404.html''), st\<lparr>valid_connection := connection\<rparr>)
          else (ERR_VAL, None, st))"

definition receive_form :: "nat \<Rightarrow> bytes \<Rightarrow> 's httpd_state \<Rightarrow> 's httpd_state" where
  "receive_form i q st =
     (case foldl consume_byte (post_at st i, settings st) q of
        (p, sets) \<Rightarrow> set_post i (p\<lparr>received := received p + of_nat (length q)\<rparr>) (st\<lparr>settings := sets\<rparr>))"

definition receive_iap :: "nat \<Rightarrow> bytes \<Rightarrow> 's httpd_state \<Rightarrow> 's httpd_state" where
  "receive_iap i q st =
     (let p = post_at st i; push_len = of_nat (length q) :: u16;
          remaining = (if received p < content_len p then content_len p - received p else 0)
      in if iap_failed p \<noteq> 0 \<or> remaining = 0 then st
         else
           let push_len = (if ucast push_len > remaining then ucast remaining else push_len);
               (r, st) = run_pipeline i (\<lambda>pl x. UpdateIngestPipeline_Push pl (Some (take (unat push_len) q)) (ucast push_len) x) st
           in if r \<noteq> IAP_UPDATE_INGEST_E_OK then
                let st = set_post i ((post_at st i)\<lparr>iap_failed := 1, iap_fail_status := r\<rparr>) st;
                    st = HttpdPost_SetIapUploadStatus HTTPD_IAP_UPLOAD_STATE_ERROR (received p) (content_len p) st;
                    st = HttpdPost_SetIapUploadError HTTPD_IAP_UPLOAD_ERROR_PUSH r st
                in snd (run_pipeline i UpdateIngestPipeline_Abort st)
              else
                let st = set_post i ((post_at st i)\<lparr>received := received p + ucast push_len\<rparr>) st
                in HttpdPost_SetIapUploadStatus HTTPD_IAP_UPLOAD_STATE_IN_PROGRESS (received p + ucast push_len)
                     (content_len p) st)"

definition receive_pbuf :: "nat \<Rightarrow> bytes \<Rightarrow> 's httpd_state \<Rightarrow> 's httpd_state" where
  "receive_pbuf i q st =
     (if post_mode (post_at st i) = HTTPD_POST_MODE_FORM_KV then receive_form i q st else receive_iap i q st)"

definition httpd_post_receive_data :: "u32 \<Rightarrow> bytes list \<Rightarrow> 's httpd_state \<Rightarrow> err_t \<times> 's httpd_state" where
  "httpd_post_receive_data connection p st =
     (if current_connection st = connection then
        case map_lookup connection st of None \<Rightarrow> (ERR_VAL, st)
        | Some i \<Rightarrow> (ERR_OK, foldl (\<lambda>st q. receive_pbuf i q st) st p)
      else (ERR_VAL, st))"

text \<open>The end of an entry's request.\<close>

definition finish_post :: "nat \<Rightarrow> 's httpd_state \<Rightarrow> 's httpd_state" where
  "finish_post i st =
     (let p = post_at st i
      in if post_mode p = HTTPD_POST_MODE_FORM_KV then
           if phase p = 1 \<and> vlen p \<noteq> 0 then
             let p = p\<lparr>val := (val p)[unat (vlen p) := 0]\<rparr>
             in set_post i p (st\<lparr>settings := httpd_post_cb (key p) (val p) (settings st)\<rparr>)
           else st
         else if iap_failed p \<noteq> 0 then
           HttpdPost_SetIapUploadError HTTPD_IAP_UPLOAD_ERROR_PUSH (iap_fail_status p)
             (HttpdPost_SetIapUploadStatus HTTPD_IAP_UPLOAD_STATE_ERROR (received p) (content_len p) st)
         else if received p \<noteq> content_len p then
           HttpdPost_SetIapUploadError HTTPD_IAP_UPLOAD_ERROR_INCOMPLETE IAP_UPDATE_INGEST_E_STATE
             (HttpdPost_SetIapUploadStatus HTTPD_IAP_UPLOAD_STATE_ERROR (received p) (content_len p)
               (snd (run_pipeline i UpdateIngestPipeline_Abort st)))
         else
           let (r, st) = run_pipeline i UpdateIngestPipeline_Finish st
           in if r \<noteq> IAP_UPDATE_INGEST_E_OK then
                HttpdPost_SetIapUploadError HTTPD_IAP_UPLOAD_ERROR_FINISH r
                  (HttpdPost_SetIapUploadStatus HTTPD_IAP_UPLOAD_STATE_ERROR (received p) (content_len p) st)
              else
                HttpdPost_SetIapUploadError HTTPD_IAP_UPLOAD_ERROR_NONE IAP_UPDATE_INGEST_E_OK
                  (HttpdPost_SetIapUploadStatus HTTPD_IAP_UPLOAD_STATE_READY (content_len p) (content_len p)
                    (st\<lparr>iap := Iap_VerifyRequest (iap st)\<rparr>)))"

definition httpd_post_finished :: "u32 \<Rightarrow> 's httpd_state \<Rightarrow> bytes \<times> 's httpd_state" where
  "httpd_post_finished connection st =
     (if current_connection st = connection then
        if valid_connection st = connection then
          case map_lookup connection st of
            None \<Rightarrow> (ascii ''/404.html'', st)
          | Some i \<Rightarrow> (ascii ''/postredir'',
              (map_free connection (finish_post i st))\<lparr>current_connection := 0, valid_connection := 0\<rparr>)
        else (ascii ''/404.html'', st\<lparr>current_connection := 0, valid_connection := 0\<rparr>)
      else (ascii ''/404.html'', st))"

section \<open>What the pages ask for\<close>

definition HttpdPost_GetIapUploadState :: "'s httpd_state \<Rightarrow> upload_state \<times> u32 \<times> u32" where
  "HttpdPost_GetIapUploadState st = (up_state (HttpdIapUploadStatus st), up_received (HttpdIapUploadStatus st),
     up_total (HttpdIapUploadStatus st))"

definition HttpdPost_GetIapUploadError :: "'s httpd_state \<Rightarrow> upload_error \<times> UpdateIngestStatusType" where
  "HttpdPost_GetIapUploadError st = (error_reason (HttpdIapUploadStatus st), ingest_status (HttpdIapUploadStatus st))"

definition HttpdPost_IsIapUploadReady :: "'s httpd_state \<Rightarrow> u8" where
  "HttpdPost_IsIapUploadReady st =
     (if up_state (HttpdIapUploadStatus st) = HTTPD_IAP_UPLOAD_STATE_READY then 1 else 0)"

definition idle_upload :: "'s httpd_state \<Rightarrow> 's httpd_state" where
  "idle_upload st = HttpdPost_SetIapUploadError HTTPD_IAP_UPLOAD_ERROR_NONE IAP_UPDATE_INGEST_E_OK
     (HttpdPost_SetIapUploadStatus HTTPD_IAP_UPLOAD_STATE_IDLE 0 0 st)"

definition HttpdPost_ClearIapUploadReady :: "'s httpd_state \<Rightarrow> 's httpd_state" where
  "HttpdPost_ClearIapUploadReady st =
     (if up_state (HttpdIapUploadStatus st) = HTTPD_IAP_UPLOAD_STATE_READY then idle_upload st else st)"

definition HttpdPost_ResetIapUploadSession :: "'s httpd_state \<Rightarrow> 's httpd_state" where
  "HttpdPost_ResetIapUploadSession st =
     idle_upload (foldl (\<lambda>st i. HttpdPost_ClearSingleIapSession i st) st [0..<length (conn_map st)])"

section \<open>The parser stays in its buffers\<close>

definition parser_inv :: "'x HttpdPostStateType \<Rightarrow> bool" where
  "parser_inv p \<longleftrightarrow> length (key p) = 16 \<and> length (val p) = 32 \<and> unat (klen p) \<le> 15 \<and> unat (vlen p) \<le> 31"

lemma parser_inv_zero [simp]: "parser_inv (zero_ps\<lparr>content_len := n, post_mode := m\<rparr>)"
  by (simp add: parser_inv_def zero_ps_def)

lemma unat_u16_Suc: "unat k < m \<Longrightarrow> m < 65536 \<Longrightarrow> unat (k + 1 :: u16) = Suc (unat k)"
  by (subst unat_add_small) simp_all

lemma consume_byte_inv: "parser_inv p \<Longrightarrow> parser_inv (fst (consume_byte (p, s) c))"
  using unat_u16_Suc [of "klen p" 15] unat_u16_Suc [of "vlen p" 31]
  by (auto simp: consume_byte_def parser_inv_def Let_def word_less_nat_alt)

lemma consume_bytes_inv: "parser_inv p \<Longrightarrow> parser_inv (fst (foldl consume_byte (p, s) q))"
proof (induction q arbitrary: p s)
  case (Cons c q)
  then show ?case using consume_byte_inv [of p s c] by (cases "consume_byte (p, s) c") auto
qed simp

section \<open>What a form body delivers\<close>

definition plain :: "bytes \<Rightarrow> bool" where
  "plain s \<longleftrightarrow> 61 \<notin> set s \<and> 38 \<notin> set s \<and> 0 \<notin> set s"

text \<open>The body \<open>k1=v1&k2=v2&...\<close> and the pairs it delivers: names cut to 15 and values to 31 bytes, and
  an empty value only if another pair follows.\<close>

fun form_body :: "(bytes \<times> bytes) list \<Rightarrow> bytes" where
  "form_body [] = []"
| "form_body [(k, v)] = k @ 61 # v"
| "form_body ((k, v) # kvs) = k @ 61 # v @ 38 # form_body kvs"

fun form_pairs :: "(bytes \<times> bytes) list \<Rightarrow> (bytes \<times> bytes) list" where
  "form_pairs [] = []"
| "form_pairs [(k, v)] = (if v = [] then [] else [(take 15 k, take 31 v)])"
| "form_pairs ((k, v) # kvs) = (take 15 k, take 31 v) # form_pairs kvs"

definition post_pairs :: "(bytes \<times> bytes) list \<Rightarrow> settings_state \<Rightarrow> settings_state" where
  "post_pairs kvs s = foldl (\<lambda>s (k, v). consume_param_values k v s) s kvs"

lemma cstr_idem [simp]: "cstr (cstr s) = cstr s"
proof -
  have "0 \<notin> set (cstr s)" unfolding cstr_def by (auto dest: set_takeWhileD)
  then show ?thesis by (rule cstr_no_0)
qed

lemma consume_param_values_cstr: "consume_param_values (cstr k) (cstr v) s = consume_param_values k v s"
  unfolding consume_param_values_def set_baudrate_def set_mode_def new_baudrate_def new_mode_def cstr_idem ..

lemma take_snoc_update:
  "j < length xs \<Longrightarrow> take (Suc j) (xs[j := c]) = take j xs @ [c]"
  by (simp add: take_Suc_conv_app_nth)

lemma key_bytes:
  assumes "plain k" "parser_inv p" "phase p = 0"
  shows "\<exists>key'. foldl consume_byte (p, s) k =
      (p\<lparr>key := key', klen := of_nat (min 15 (unat (klen p) + length k))\<rparr>, s) \<and> length key' = 16 \<and>
    take (min 15 (unat (klen p) + length k)) key' = take 15 (take (unat (klen p)) (key p) @ k)"
  using assms
proof (induction k arbitrary: p)
  case Nil
  have "min 15 (unat (klen p)) = unat (klen p)" using Nil by (simp add: parser_inv_def)
  moreover have "of_nat (unat (klen p)) = klen p" by simp
  ultimately show ?case using Nil by (intro exI [of _ "key p"]) (simp add: parser_inv_def)
next
  case (Cons c k)
  have c: "c \<noteq> 61" "c \<noteq> 38" "plain k" using Cons.prems(1) by (auto simp: plain_def)
  show ?case
  proof (cases "unat (klen p) < 15")
    case True
    let ?p = "p\<lparr>key := (key p)[unat (klen p) := c], klen := klen p + 1\<rparr>"
    have run: "consume_byte (p, s) c = (?p, s)"
      using c True Cons.prems(3) by (simp add: consume_byte_def word_less_nat_alt)
    have u: "unat (klen ?p) = Suc (unat (klen p))" using unat_u16_Suc [OF True] by simp
    have "parser_inv ?p" using Cons.prems(2) True u by (simp add: parser_inv_def)
    from Cons.IH [OF c(3) this] Cons.prems(3) obtain key' where ih:
      "foldl consume_byte (?p, s) k = (?p\<lparr>key := key', klen := of_nat (min 15 (unat (klen ?p) + length k))\<rparr>, s)"
      "length key' = 16"
      "take (min 15 (unat (klen ?p) + length k)) key' = take 15 (take (unat (klen ?p)) (key ?p) @ k)" by auto
    have "take (unat (klen ?p)) (key ?p) = take (unat (klen p)) (key p) @ [c]"
      using Cons.prems(2) True by (simp only: u) (simp add: parser_inv_def take_snoc_update)
    then show ?thesis using run ih u by (intro exI [of _ key']) simp
  next
    case False
    then have k15: "unat (klen p) = 15" using Cons.prems(2) by (simp add: parser_inv_def)
    then have run: "consume_byte (p, s) c = (p, s)"
      using c Cons.prems(3) by (simp add: consume_byte_def word_less_nat_alt)
    from Cons.IH [OF c(3) Cons.prems(2,3)] run k15 show ?thesis using Cons.prems(2)
      by (auto simp: parser_inv_def)
  qed
qed

lemma val_bytes:
  assumes "plain v" "parser_inv p" "phase p = 1"
  shows "\<exists>val'. foldl consume_byte (p, s) v =
      (p\<lparr>val := val', vlen := of_nat (min 31 (unat (vlen p) + length v))\<rparr>, s) \<and> length val' = 32 \<and>
    take (min 31 (unat (vlen p) + length v)) val' = take 31 (take (unat (vlen p)) (val p) @ v)"
  using assms
proof (induction v arbitrary: p)
  case Nil
  have "min 31 (unat (vlen p)) = unat (vlen p)" using Nil by (simp add: parser_inv_def)
  moreover have "of_nat (unat (vlen p)) = vlen p" by simp
  ultimately show ?case using Nil by (intro exI [of _ "val p"]) (simp add: parser_inv_def)
next
  case (Cons c v)
  have c: "c \<noteq> 61" "c \<noteq> 38" "plain v" using Cons.prems(1) by (auto simp: plain_def)
  show ?case
  proof (cases "unat (vlen p) < 31")
    case True
    let ?p = "p\<lparr>val := (val p)[unat (vlen p) := c], vlen := vlen p + 1\<rparr>"
    have run: "consume_byte (p, s) c = (?p, s)"
      using c True Cons.prems(3) by (simp add: consume_byte_def word_less_nat_alt)
    have u: "unat (vlen ?p) = Suc (unat (vlen p))" using unat_u16_Suc [OF True] by simp
    have "parser_inv ?p" using Cons.prems(2) True u by (simp add: parser_inv_def)
    from Cons.IH [OF c(3) this] Cons.prems(3) obtain val' where ih:
      "foldl consume_byte (?p, s) v = (?p\<lparr>val := val', vlen := of_nat (min 31 (unat (vlen ?p) + length v))\<rparr>, s)"
      "length val' = 32"
      "take (min 31 (unat (vlen ?p) + length v)) val' = take 31 (take (unat (vlen ?p)) (val ?p) @ v)" by auto
    have "take (unat (vlen ?p)) (val ?p) = take (unat (vlen p)) (val p) @ [c]"
      using Cons.prems(2) True by (simp only: u) (simp add: parser_inv_def take_snoc_update)
    then show ?thesis using run ih u by (intro exI [of _ val']) simp
  next
    case False
    then have k31: "unat (vlen p) = 31" using Cons.prems(2) by (simp add: parser_inv_def)
    then have run: "consume_byte (p, s) c = (p, s)"
      using c Cons.prems(3) by (simp add: consume_byte_def word_less_nat_alt)
    from Cons.IH [OF c(3) Cons.prems(2,3)] run k31 show ?thesis using Cons.prems(2)
      by (auto simp: parser_inv_def)
  qed
qed

lemma cstr_terminated:
  "n < length xs \<Longrightarrow> 0 \<notin> set (take n xs) \<Longrightarrow> cstr (xs[n := 0]) = take n xs"
  by (simp add: upd_conv_take_nth_drop)

lemma plain_take: "plain s \<Longrightarrow> 0 \<notin> set (take n s)"
  by (auto simp: plain_def dest: in_set_takeD)

text \<open>Only the parser's own fields change.\<close>

definition same_request :: "'x HttpdPostStateType \<Rightarrow> 'x HttpdPostStateType \<Rightarrow> bool" where
  "same_request p p' \<longleftrightarrow> received p' = received p \<and> content_len p' = content_len p \<and>
     post_mode p' = post_mode p \<and> iap_pipeline p' = iap_pipeline p \<and> iap_failed p' = iap_failed p"

lemma unat_of_nat_u16: "n < 65536 \<Longrightarrow> unat (of_nat n :: u16) = n"
  by (simp add: unat_of_nat take_bit_eq_mod)

lemma pair_bytes:
  assumes "plain k" "plain v" "parser_inv p" "phase p = 0" "klen p = 0"
  shows "\<exists>p'. foldl consume_byte (p, s) (k @ 61 # v) = (p', s) \<and> parser_inv p' \<and> phase p' = 1 \<and>
    same_request p p' \<and> cstr (key p') = take 15 k \<and> unat (vlen p') = min 31 (length v) \<and>
    cstr ((val p')[unat (vlen p') := 0]) = take 31 v"
proof -
  obtain key' where k: "foldl consume_byte (p, s) k = (p\<lparr>key := key', klen := of_nat (min 15 (length k))\<rparr>, s)"
    "length key' = 16" "take (min 15 (length k)) key' = take 15 k"
    using key_bytes [OF assms(1,3,4), of s] assms(5) by auto
  have kl: "unat (of_nat (min 15 (length k)) :: u16) = min 15 (length k)" by (rule unat_of_nat_u16) simp
  let ?p = "p\<lparr>key := key'[min 15 (length k) := 0], klen := of_nat (min 15 (length k)), phase := 1, vlen := 0\<rparr>"
  have eq: "consume_byte (p\<lparr>key := key', klen := of_nat (min 15 (length k))\<rparr>, s) 61 = (?p, s)"
    by (simp add: consume_byte_def kl)
  have inv: "parser_inv ?p" using assms(3) k(2) kl by (simp add: parser_inv_def)
  obtain val' where v: "foldl consume_byte (?p, s) v = (?p\<lparr>val := val', vlen := of_nat (min 31 (length v))\<rparr>, s)"
    "length val' = 32" "take (min 31 (length v)) val' = take 31 v"
    using val_bytes [OF assms(2) inv, of s] by auto
  have vl: "unat (of_nat (min 31 (length v)) :: u16) = min 31 (length v)" by (rule unat_of_nat_u16) simp
  have ck: "cstr (key'[min 15 (length k) := 0]) = take 15 k"
    using plain_take [OF assms(1), of 15] k(2,3) by (subst cstr_terminated) simp_all
  have cv: "cstr (val'[min 31 (length v) := 0]) = take 31 v"
    using plain_take [OF assms(2), of 31] v(2,3) by (subst cstr_terminated) simp_all
  show ?thesis
    using k v eq inv ck cv vl
    by (intro exI [of _ "?p\<lparr>val := val', vlen := of_nat (min 31 (length v))\<rparr>"])
      (simp add: parser_inv_def same_request_def)
qed

lemma ampersand:
  assumes "parser_inv p" "cstr (key p) = k" "cstr ((val p)[unat (vlen p) := 0]) = v"
  shows "\<exists>p'. consume_byte (p, s) 38 = (p', consume_param_values k v s) \<and> parser_inv p' \<and> phase p' = 0 \<and>
    klen p' = 0 \<and> same_request p p'"
  using assms consume_param_values_cstr [of "key p" "(val p)[unat (vlen p) := 0]" s]
  by (simp add: consume_byte_def httpd_post_cb_def parser_inv_def same_request_def Let_def)

text \<open>The flush of the last pair in \<open>httpd_post_finished\<close>.\<close>

definition flush :: "'x HttpdPostStateType \<Rightarrow> settings_state \<Rightarrow> settings_state" where
  "flush p s = (if phase p = 1 \<and> vlen p \<noteq> 0
     then httpd_post_cb (key p) ((val p)[unat (vlen p) := 0]) s else s)"

lemma flush_received [simp]: "flush (p\<lparr>received := r\<rparr>) s = flush p s"
  by (simp add: flush_def)

lemma form_bytes:
  assumes "list_all (\<lambda>(k, v). plain k \<and> plain v) kvs" "parser_inv p" "phase p = 0" "klen p = 0"
  shows "\<exists>p' s'. foldl consume_byte (p, s) (form_body kvs) = (p', s') \<and> same_request p p' \<and>
    flush p' s' = post_pairs (form_pairs kvs) s"
  using assms
proof (induction kvs arbitrary: p s rule: form_body.induct)
  case 1
  then show ?case by (simp add: flush_def post_pairs_def same_request_def)
next
  case (2 k v)
  obtain p' where p: "foldl consume_byte (p, s) (k @ 61 # v) = (p', s)" "parser_inv p'" "phase p' = 1"
    "same_request p p'" "cstr (key p') = take 15 k" "unat (vlen p') = min 31 (length v)"
    "cstr ((val p')[unat (vlen p') := 0]) = take 31 v"
    using pair_bytes [of k v p s] 2 by auto
  have "vlen p' = 0 \<longleftrightarrow> v = []" using p(6) by (metis length_0_conv min_0R min_def unat_eq_zero zero_neq_numeral)
  then have "flush p' s = post_pairs (form_pairs [(k, v)]) s"
    using p(3,5,7) consume_param_values_cstr [of "key p'" "(val p')[unat (vlen p') := 0]" s]
    by (simp add: flush_def httpd_post_cb_def post_pairs_def)
  then show ?case using p by auto
next
  case (3 k v kv kvs)
  obtain p1 where p1: "foldl consume_byte (p, s) (k @ 61 # v) = (p1, s)" "parser_inv p1"
    "same_request p p1" "cstr (key p1) = take 15 k" "cstr ((val p1)[unat (vlen p1) := 0]) = take 31 v"
    using pair_bytes [of k v p s] 3(2-5) by auto
  obtain p2 where p2: "consume_byte (p1, s) 38 = (p2, consume_param_values (take 15 k) (take 31 v) s)"
    "parser_inv p2" "phase p2 = 0" "klen p2 = 0" "same_request p1 p2"
    using ampersand [OF p1(2,4,5)] by blast
  have "list_all (\<lambda>(k, v). plain k \<and> plain v) (kv # kvs)" using 3(2) by simp
  from 3(1) [OF this p2(2-4), of "consume_param_values (take 15 k) (take 31 v) s"]
  obtain p' s' where "foldl consume_byte (p2, consume_param_values (take 15 k) (take 31 v) s) (form_body (kv # kvs)) = (p', s')"
    "same_request p2 p'" "flush p' s' = post_pairs (form_pairs (kv # kvs)) (consume_param_values (take 15 k) (take 31 v) s)"
    by blast
  then show ?case using p1(1,3) p2(1,5) by (auto simp: post_pairs_def same_request_def foldl_append [symmetric] simp del: form_body.simps(2)) 
qed

section \<open>The table of connections\<close>

lemma find_conn_Some:
  "find_conn c es = Some i \<Longrightarrow> i < length es \<and> conn (es ! i) = c \<and> (\<forall>j<i. conn (es ! j) \<noteq> c)"
proof (induction es arbitrary: i)
  case (Cons e es)
  show ?case
  proof (cases "conn e = c")
    case False
    then obtain k where k: "i = Suc k" "find_conn c es = Some k" using Cons.prems by auto
    show ?thesis
      using Cons.IH [OF k(2)] k(1) False by (auto simp: less_Suc_eq_0_disj)
  qed (use Cons.prems in auto)
qed simp

lemma find_conn_None: "find_conn c es = None \<longleftrightarrow> (\<forall>e\<in>set es. conn e \<noteq> c)"
  by (induction es) auto

lemma find_conn_first:
  assumes "i < length es" "conn (es ! i) = c" "\<And>j. j < i \<Longrightarrow> conn (es ! j) \<noteq> c"
  shows "find_conn c es = Some i"
proof (cases "find_conn c es")
  case None
  then show ?thesis using assms(1,2) by (auto simp: find_conn_None)
next
  case (Some k)
  note k = find_conn_Some [OF Some]
  then have "\<not> k < i" "\<not> i < k" using assms by auto
  then show ?thesis using Some by simp
qed

lemma find_conn_cong: "map conn es = map conn es' \<Longrightarrow> find_conn c es = find_conn c es'"
proof (induction es arbitrary: es')
  case (Cons e es)
  then obtain e' es1 where "es' = e' # es1" by (cases es') auto
  then show ?case using Cons by simp
qed simp

lemma set_post_fields [simp]:
  "length (conn_map (set_post i p st)) = length (conn_map st)"
  "current_connection (set_post i p st) = current_connection st"
  "valid_connection (set_post i p st) = valid_connection st"
  "HttpdIapUploadStatus (set_post i p st) = HttpdIapUploadStatus st"
  "iap (set_post i p st) = iap st" "settings (set_post i p st) = settings st"
  by (simp_all add: set_post_def)

lemma post_at_set_post [simp]:
  "i < length (conn_map st) \<Longrightarrow> post_at (set_post i p st) j = (if j = i then p else post_at st j)"
  by (simp add: set_post_def post_at_def)

lemma set_post_set_post [simp]: "set_post i p (set_post i q st) = set_post i p st"
  by (cases "i < length (conn_map st)") (simp_all add: set_post_def list_update_beyond)

lemma set_post_same: "set_post i (post_at st i) st = st"
  by (simp add: set_post_def post_at_def)

lemma set_post_settings [simp]:
  "set_post i p (st\<lparr>settings := s\<rparr>) = (set_post i p st)\<lparr>settings := s\<rparr>"
  "post_at (st\<lparr>settings := s\<rparr>) i = post_at st i"
  by (simp_all add: set_post_def post_at_def)

lemma map_conn_set_post [simp]: "map conn (conn_map (set_post i p st)) = map conn (conn_map st)"
proof (cases "i < length (conn_map st)")
  case True
  have "(map conn (conn_map st))[i := conn (conn_map st ! i)] = map conn (conn_map st)"
    using True by (metis list_update_id nth_map)
  then show ?thesis by (simp add: set_post_def map_update)
qed (simp add: set_post_def list_update_beyond)

lemma set_conn_fields [simp]:
  "length (conn_map (set_conn i c st)) = length (conn_map st)"
  "current_connection (set_conn i c st) = current_connection st"
  "valid_connection (set_conn i c st) = valid_connection st"
  "HttpdIapUploadStatus (set_conn i c st) = HttpdIapUploadStatus st"
  "iap (set_conn i c st) = iap st" "settings (set_conn i c st) = settings st"
  by (simp_all add: set_conn_def)

lemma post_at_set_conn [simp]: "post_at (set_conn i c st) j = post_at st j"
  by (cases "i < length (conn_map st)"; cases "j = i") (simp_all add: set_conn_def post_at_def list_update_beyond)

lemma map_conn_set_conn [simp]: "map conn (conn_map (set_conn i c st)) = (map conn (conn_map st))[i := c]"
  by (cases "i < length (conn_map st)") (simp_all add: set_conn_def map_update list_update_beyond)

lemma map_lookup_set_post [simp]: "map_lookup c (set_post i p st) = map_lookup c st"
  unfolding map_lookup_def by (rule find_conn_cong) simp

lemma post_at_valid [simp]:
  "post_at (st\<lparr>valid_connection := c\<rparr>) i = post_at st i" "post_at (st\<lparr>current_connection := c\<rparr>) i = post_at st i"
  "post_at (st\<lparr>HttpdIapUploadStatus := u\<rparr>) i = post_at st i"
  by (simp_all add: post_at_def)

text \<open>\<open>conn_at\<close> is the pointer of entry \<open>i\<close>.\<close>

definition conn_at :: "'s httpd_state \<Rightarrow> nat \<Rightarrow> u32" where
  "conn_at st i = map conn (conn_map st) ! i"

lemma conn_at_simps [simp]:
  "conn_at (set_post i p st) j = conn_at st j"
  "i < length (conn_map st) \<Longrightarrow> conn_at (set_conn i c st) j = (if j = i then c else conn_at st j)"
  by (simp_all add: conn_at_def)

lemma map_lookup_first:
  "i < length (conn_map st) \<Longrightarrow> conn_at st i = c \<Longrightarrow> (\<And>j. j < i \<Longrightarrow> conn_at st j \<noteq> c) \<Longrightarrow> map_lookup c st = Some i"
  unfolding map_lookup_def conn_at_def by (rule find_conn_first) auto

lemma map_lookup_SomeD:
  "map_lookup c st = Some i \<Longrightarrow> i < length (conn_map st) \<and> conn_at st i = c"
  using find_conn_Some [of c "conn_map st" i] by (simp add: map_lookup_def conn_at_def)

lemma map_alloc_Some:
  assumes "map_alloc c n m st = (Some i, st')" "c \<noteq> 0" "\<forall>j<length (conn_map st). conn_at st j \<noteq> c"
  shows "i < length (conn_map st)" "map_lookup c st' = Some i" "conn_at st i = 0"
    "st' = set_post i (zero_ps\<lparr>content_len := n, post_mode := m\<rparr>) (set_conn i c st)"
proof -
  have i: "find_conn 0 (conn_map st) = Some i"
    "st' = set_post i (zero_ps\<lparr>content_len := n, post_mode := m\<rparr>) (set_conn i c st)"
    using assms(1) by (auto simp: map_alloc_def split: option.splits)
  then show il: "i < length (conn_map st)" "conn_at st i = 0"
    using find_conn_Some [OF i(1)] by (simp_all add: conn_at_def)
  show "map_lookup c st' = Some i"
    using il assms(3) by (intro map_lookup_first) (auto simp: i(2))
  show "st' = set_post i (zero_ps\<lparr>content_len := n, post_mode := m\<rparr>) (set_conn i c st)" by (rule i(2))
qed

section \<open>A form request\<close>

definition receive_all :: "u32 \<Rightarrow> bytes list list \<Rightarrow> 's httpd_state \<Rightarrow> 's httpd_state" where
  "receive_all c reqs st = foldl (\<lambda>st ch. snd (httpd_post_receive_data c ch st)) st reqs"

text \<open>What a step on an entry keeps: which connections there are, and which is the current one.\<close>

definition same_conns :: "'s httpd_state \<Rightarrow> 's httpd_state \<Rightarrow> bool" where
  "same_conns st st' \<longleftrightarrow> current_connection st' = current_connection st \<and>
     valid_connection st' = valid_connection st \<and> map conn (conn_map st') = map conn (conn_map st)"

lemma same_conns_refl [simp]: "same_conns st st"
  by (simp add: same_conns_def)

lemma same_conns_trans: "same_conns a b \<Longrightarrow> same_conns b c \<Longrightarrow> same_conns a c"
  by (simp add: same_conns_def)

lemma same_conns_lookup: "same_conns st st' \<Longrightarrow> map_lookup c st' = map_lookup c st"
  unfolding map_lookup_def same_conns_def by (metis find_conn_cong)

lemma same_conns_length: "same_conns st st' \<Longrightarrow> length (conn_map st') = length (conn_map st)"
  unfolding same_conns_def by (metis length_map)

lemma same_conns_set_post [simp]: "same_conns st (set_post i p st') = same_conns st st'"
  by (simp add: same_conns_def)

lemma same_conns_fields [simp]:
  "same_conns st (st'\<lparr>settings := s\<rparr>) = same_conns st st'"
  "same_conns st (st'\<lparr>iap := x\<rparr>) = same_conns st st'"
  "same_conns st (HttpdPost_SetIapUploadStatus u r t st') = same_conns st st'"
  "same_conns st (HttpdPost_SetIapUploadError e w st') = same_conns st st'"
  by (simp_all add: same_conns_def HttpdPost_SetIapUploadStatus_def HttpdPost_SetIapUploadError_def)

lemma same_conns_run [simp]: "same_conns st (snd (run_pipeline i f st')) = same_conns st st'"
  by (simp add: run_pipeline_def split: prod.splits)

lemma same_conns_receive: "same_conns st (receive_pbuf i q st)"
proof (cases "post_mode (post_at st i) = HTTPD_POST_MODE_FORM_KV")
  case True
  then show ?thesis by (simp add: receive_pbuf_def receive_form_def split: prod.splits)
next
  case False
  have run: "run_pipeline i f st = (r, st1) \<Longrightarrow> same_conns st st1" for f r st1
    using same_conns_run [of st i f st] by simp
  show ?thesis
    using False by (auto simp: receive_pbuf_def receive_iap_def Let_def dest: run split: prod.splits)
qed

lemma same_conns_receives: "same_conns st (foldl (\<lambda>st q. receive_pbuf i q st) st qs)"
  by (induction qs arbitrary: st) (auto intro: same_conns_trans same_conns_receive)

lemma receive_all_current:
  assumes "current_connection st = c" "map_lookup c st = Some i"
  shows "receive_all c reqs st = foldl (\<lambda>st q. receive_pbuf i q st) st (concat reqs)"
  using assms
proof (induction reqs arbitrary: st)
  case (Cons ch reqs)
  let ?st = "foldl (\<lambda>st q. receive_pbuf i q st) st ch"
  have run: "httpd_post_receive_data c ch st = (ERR_OK, ?st)"
    using Cons.prems by (simp add: httpd_post_receive_data_def)
  note same = same_conns_receives [of st i ch]
  have "current_connection ?st = c" "map_lookup c ?st = Some i"
    using Cons.prems same same_conns_lookup [OF same] by (simp_all add: same_conns_def)
  from Cons.IH [OF this] show ?case using run by (simp add: receive_all_def)
qed (simp add: receive_all_def)

lemma consume_received:
  "foldl consume_byte (p\<lparr>received := r\<rparr>, s) q =
    (let (p', s') = foldl consume_byte (p, s) q in (p'\<lparr>received := r\<rparr>, s'))"
proof (induction q arbitrary: p s)
  case (Cons c q)
  obtain p1 s1 where c: "consume_byte (p, s) c = (p1, s1)" by fastforce
  then have "consume_byte (p\<lparr>received := r\<rparr>, s) c = (p1\<lparr>received := r\<rparr>, s1)"
    by (auto simp: consume_byte_def Let_def split: if_splits)
  then show ?case using c Cons.IH [of p1 s1] by simp
qed simp

lemma receive_form_all:
  assumes "i < length (conn_map st)" "post_mode (post_at st i) = HTTPD_POST_MODE_FORM_KV"
    "foldl consume_byte (post_at st i, settings st) (concat qs) = (p', s')"
  shows "\<exists>r. foldl (\<lambda>st q. receive_pbuf i q st) st qs = (set_post i (p'\<lparr>received := r\<rparr>) st)\<lparr>settings := s'\<rparr>"
  using assms
proof (induction qs arbitrary: st p' s')
  case Nil
  then have "p' = post_at st i" "s' = settings st" by simp_all
  then show ?case by (intro exI [of _ "received (post_at st i)"]) (simp add: set_post_same)
next
  case (Cons q qs)
  obtain p1 s1 where q: "foldl consume_byte (post_at st i, settings st) q = (p1, s1)" by fastforce
  have mode: "post_mode p1 = HTTPD_POST_MODE_FORM_KV"
  proof -
    have step: "post_mode (fst (consume_byte (p, s) c)) = post_mode p" for p :: "'b HttpdPostStateType" and s c
      by (simp add: consume_byte_def Let_def)
    have "post_mode (fst (foldl consume_byte (p, s) q)) = post_mode p" for p :: "'b HttpdPostStateType" and s q
    proof (induction q arbitrary: p s)
      case (Cons c q)
      then show ?case using step [of p s c] by (cases "consume_byte (p, s) c") simp
    qed simp
    from this [of "post_at st i" "settings st" q] show ?thesis using q Cons.prems(2) by simp
  qed
  let ?r = "received p1 + of_nat (length q)"
  let ?st = "(set_post i (p1\<lparr>received := ?r\<rparr>) st)\<lparr>settings := s1\<rparr>"
  have run: "receive_pbuf i q st = ?st"
    using q Cons.prems(1,2) by (simp add: receive_pbuf_def receive_form_def)
  have p: "post_at ?st i = p1\<lparr>received := ?r\<rparr>" "settings ?st = s1" "i < length (conn_map ?st)"
    using Cons.prems(1) by simp_all
  have "foldl consume_byte (p1, s1) (concat qs) = (p', s')" using Cons.prems(3) q by simp
  then have "foldl consume_byte (post_at ?st i, settings ?st) (concat qs) = (p'\<lparr>received := ?r\<rparr>, s')"
    unfolding p by (simp add: consume_received)
  from Cons.IH [OF p(3) _ this] mode p(1) obtain r where
    "foldl (\<lambda>st q. receive_pbuf i q st) ?st qs = (set_post i ((p'\<lparr>received := ?r\<rparr>)\<lparr>received := r\<rparr>) ?st)\<lparr>settings := s'\<rparr>"
    by auto
  then show ?case unfolding foldl_Cons run by auto
qed

lemma finish_form:
  assumes "post_mode (post_at st i) = HTTPD_POST_MODE_FORM_KV"
  shows "settings (finish_post i st) = flush (post_at st i) (settings st)" "iap (finish_post i st) = iap st"
    "same_conns st (finish_post i st)"
  using assms by (auto simp: finish_post_def flush_def Let_def)

lemma map_free_conns:
  assumes "map_lookup c st = Some i"
  shows "map conn (conn_map (map_free c st)) = (map conn (conn_map st))[i := 0]"
    "settings (map_free c st) = settings st" "iap (map_free c st) = iap st"
    "HttpdIapUploadStatus (map_free c st) = HttpdIapUploadStatus st" "post_at (map_free c st) j = post_at st j"
  using assms by (auto simp: map_free_def map_lookup_def)

text \<open>The second pointer of a connection is released with it.\<close>

lemma same_conns_at: "same_conns st st' \<Longrightarrow> conn_at st' j = conn_at st j"
  by (simp add: same_conns_def conn_at_def)

definition fresh_connection :: "u32 \<Rightarrow> 's httpd_state \<Rightarrow> bool" where
  "fresh_connection c st \<longleftrightarrow> c \<noteq> 0 \<and> current_connection st \<noteq> c \<and> (\<forall>j<length (conn_map st). conn_at st j \<noteq> c)"

lemma begin_form_cases:
  assumes "fresh_connection c st" "take 8 uri = ascii ''/can.cgi''"
    "httpd_post_begin c uri len st = (ERR_OK, resp, st1)"
  shows "\<exists>i. i < length (conn_map st) \<and> conn_at st i = 0 \<and> map_lookup c st1 = Some i \<and>
    current_connection st1 = c \<and> valid_connection st1 = c \<and> settings st1 = settings st \<and> iap st1 = iap st \<and>
    map conn (conn_map st1) = (map conn (conn_map st))[i := c] \<and>
    post_at st1 i = zero_ps\<lparr>content_len := of_int len, post_mode := HTTPD_POST_MODE_FORM_KV\<rparr>"
proof -
  let ?st = "st\<lparr>current_connection := c, valid_connection := 0\<rparr>"
  have c: "c \<noteq> 0" "\<forall>j<length (conn_map ?st). conn_at ?st j \<noteq> c" "current_connection st \<noteq> c"
    using assms(1) by (auto simp: fresh_connection_def conn_at_def)
  obtain slot st' where al: "map_alloc c (of_int len) HTTPD_POST_MODE_FORM_KV ?st = (slot, st')" by fastforce
  then obtain i where i: "slot = Some i" "st1 = st'\<lparr>valid_connection := c\<rparr>"
    using assms(2,3) c(3) by (cases slot) (auto simp: httpd_post_begin_def HTTPD_POST_MODE_FORM_KV_def HTTPD_POST_MODE_IAP_BIN_def)
  note a = map_alloc_Some [OF al [unfolded i(1)] c(1,2)]
  have "i < length (conn_map (set_conn i c ?st))" using a(1) by simp
  note post = post_at_set_post [OF this]
  have lookup: "map_lookup c st1 = Some i" using a(2) i(2) by (simp add: map_lookup_def)
  show ?thesis
    using a(1,3) lookup unfolding i(2) a(4) by (intro exI [of _ i]) (simp add: conn_at_def post_at_def [symmetric] post_at_valid post)
qed

lemma finished_current:
  assumes "current_connection st = c" "valid_connection st = c" "map_lookup c st = Some i"
  shows "httpd_post_finished c st = (ascii ''/postredir'',
    (map_free c (finish_post i st))\<lparr>current_connection := 0, valid_connection := 0\<rparr>)"
  using assms by (simp add: httpd_post_finished_def)

lemma form_request:
  assumes "fresh_connection c st" "take 8 uri = ascii ''/can.cgi''" "list_all (\<lambda>(k, v). plain k \<and> plain v) kvs"
    and "httpd_post_begin c uri len st = (ERR_OK, resp, st1)"
    and "concat (concat reqs) = form_body kvs"
    and "httpd_post_finished c (receive_all c reqs st1) = (page, st2)"
  shows "settings st2 = post_pairs (form_pairs kvs) (settings st) \<and> iap st2 = iap st \<and>
    current_connection st2 = 0 \<and> map conn (conn_map st2) = map conn (conn_map st)"
proof -
  obtain i where i: "i < length (conn_map st)" "conn_at st i = 0" "map_lookup c st1 = Some i"
    "current_connection st1 = c" "valid_connection st1 = c" "settings st1 = settings st" "iap st1 = iap st"
    "map conn (conn_map st1) = (map conn (conn_map st))[i := c]"
    "post_at st1 i = zero_ps\<lparr>content_len := of_int len, post_mode := HTTPD_POST_MODE_FORM_KV\<rparr>"
    using begin_form_cases [OF assms(1,2,4)] by blast
  have il: "i < length (conn_map st1)" using i(3) map_lookup_SomeD by blast
  have p0: "parser_inv (post_at st1 i)" "phase (post_at st1 i) = 0" "klen (post_at st1 i) = 0"
    "post_mode (post_at st1 i) = HTTPD_POST_MODE_FORM_KV"
    unfolding i(9) by simp_all (simp_all add: zero_ps_def)
  obtain p' s' where body: "foldl consume_byte (post_at st1 i, settings st1) (concat (concat reqs)) = (p', s')"
    "same_request (post_at st1 i) p'" "flush p' s' = post_pairs (form_pairs kvs) (settings st)"
    using form_bytes [OF assms(3) p0(1-3), of "settings st1"] i(6) unfolding assms(5) by auto
  obtain r where r: "foldl (\<lambda>st q. receive_pbuf i q st) st1 (concat reqs) =
      (set_post i (p'\<lparr>received := r\<rparr>) st1)\<lparr>settings := s'\<rparr>"
    using receive_form_all [OF il p0(4) body(1)] by blast
  define st' where "st' = (set_post i (p'\<lparr>received := r\<rparr>) st1)\<lparr>settings := s'\<rparr>"
  have recv: "receive_all c reqs st1 = st'"
    using receive_all_current [OF i(4,3)] r by (simp add: st'_def)
  have st': "same_conns st1 st'" "post_at st' i = p'\<lparr>received := r\<rparr>" "settings st' = s'" "iap st' = iap st1"
    using il by (simp_all add: st'_def)
  have mode: "post_mode (post_at st' i) = HTTPD_POST_MODE_FORM_KV"
    using body(2) p0(4) by (simp add: st'(2) same_request_def)
  note fin = finish_form [OF mode]
  have cur: "current_connection st' = c" "valid_connection st' = c" "map_lookup c st' = Some i"
    using st'(1) i(3-5) same_conns_lookup [OF st'(1)] by (simp_all add: same_conns_def)
  have look: "map_lookup c (finish_post i st') = Some i" using same_conns_lookup [OF fin(3)] cur(3) by simp
  note free = map_free_conns [OF look]
  have st2: "st2 = (map_free c (finish_post i st'))\<lparr>current_connection := 0, valid_connection := 0\<rparr>"
    using assms(6) finished_current [OF cur] by (simp add: recv)
  have "flush (post_at st' i) (settings st') = post_pairs (form_pairs kvs) (settings st)"
    using body(3) by (simp add: st'(2,3) flush_received)
  moreover have "map conn (conn_map (finish_post i st')) = (map conn (conn_map st))[i := c]"
    using fin(3) st'(1) i(8) by (simp add: same_conns_def)
  moreover have "(map conn (conn_map st))[i := 0] = map conn (conn_map st)"
    using i(1,2) by (metis conn_at_def list_update_id)
  ultimately show ?thesis using st2 free fin st'(4) i(7) by simp
qed

section \<open>An upload request\<close>

text \<open>What of a body is pushed: the first \<open>n\<close> bytes, in the pieces the buffers have.\<close>

fun body_chunks :: "nat \<Rightarrow> bytes list \<Rightarrow> bytes list" where
  "body_chunks n [] = []"
| "body_chunks n (q # qs) = (if n = 0 then [] else take n q # body_chunks (n - length q) qs)"

lemma body_chunks_0 [simp]: "body_chunks 0 qs = []"
  by (cases qs) simp_all

lemma concat_body_chunks: "concat (body_chunks n qs) = take n (concat qs)"
  by (induction n qs rule: body_chunks.induct) auto

lemma body_chunks_length: "b \<in> set (body_chunks n qs) \<Longrightarrow> \<exists>q\<in>set qs. length b \<le> length q"
  by (induction n qs rule: body_chunks.induct) (auto split: if_splits)

lemma run_pipeline_simps:
  assumes "i < length (conn_map st)" "f (iap_pipeline (post_at st i)) (core (iap st)) = (r, pl, x)"
  shows "run_pipeline i f st = (r, set_post i ((post_at st i)\<lparr>iap_pipeline := pl\<rparr>) (st\<lparr>iap := (iap st)\<lparr>core := x\<rparr>\<rparr>))"
  using assms(2) by (simp add: run_pipeline_def)

lemma post_at_iap [simp]: "post_at (st\<lparr>iap := x\<rparr>) i = post_at st i"
  by (simp add: post_at_def)

lemma SetIapUpload_simps [simp]:
  "post_at (HttpdPost_SetIapUploadStatus u r t st) i = post_at st i"
  "post_at (HttpdPost_SetIapUploadError e w st) i = post_at st i"
  "conn_map (HttpdPost_SetIapUploadStatus u r t st) = conn_map st"
  "conn_map (HttpdPost_SetIapUploadError e w st) = conn_map st"
  "iap (HttpdPost_SetIapUploadStatus u r t st) = iap st"
  "iap (HttpdPost_SetIapUploadError e w st) = iap st"
  "settings (HttpdPost_SetIapUploadStatus u r t st) = settings st"
  "settings (HttpdPost_SetIapUploadError e w st) = settings st"
  "up_state (HttpdIapUploadStatus (HttpdPost_SetIapUploadStatus u r t st)) = u"
  "up_state (HttpdIapUploadStatus (HttpdPost_SetIapUploadError e w st)) = up_state (HttpdIapUploadStatus st)"
  by (simp_all add: HttpdPost_SetIapUploadStatus_def HttpdPost_SetIapUploadError_def post_at_def)

lemma push_len:
  fixes rem :: u32
  assumes "length q < 65536"
  defines "n \<equiv> (if ucast (of_nat (length q) :: u16) > rem then ucast rem else (of_nat (length q) :: u16))"
  shows "unat n = min (length q) (unat rem)" "unat (ucast n :: u32) = min (length q) (unat rem)"
proof -
  have u: "unat (ucast (of_nat (length q) :: u16) :: u32) = length q"
    using assms(1) by (simp add: unsigned_ucast_eq unat_of_nat_u16 take_bit_nat_eq_self)
  show n: "unat n = min (length q) (unat rem)"
  proof (cases "ucast (of_nat (length q) :: u16) > rem")
    case True
    then have "unat rem < length q" using u by (simp add: word_less_nat_alt)
    then show ?thesis
      using True assms(1) by (simp add: n_def unsigned_ucast_eq take_bit_nat_eq_self)
  next
    case False
    then have "length q \<le> unat rem" using u by (simp add: word_less_nat_alt)
    then show ?thesis using False assms(1) by (simp add: n_def unat_of_nat_u16)
  qed
  have "unat (ucast n :: u32) = unat n"
    using n assms(1) by (simp add: unsigned_ucast_eq take_bit_nat_eq_self)
  then show "unat (ucast n :: u32) = min (length q) (unat rem)" using n by simp
qed

text \<open>One buffer of an upload that has not failed: either it fails, or the next piece of the body is
  pushed.\<close>

lemma receive_iap_step:
  fixes st :: "'s httpd_state"
  assumes "i < length (conn_map st)" "iap_failed (post_at st i) = 0" "length q < 65536"
    "unat (received (post_at st i)) \<le> unat (content_len (post_at st i))"
    "iap_failed (post_at (receive_iap i q st) i) = 0"
  defines "n \<equiv> unat (content_len (post_at st i)) - unat (received (post_at st i))"
  shows "same_conns st (receive_iap i q st) \<and>
    post_mode (post_at (receive_iap i q st) i) = post_mode (post_at st i) \<and>
    content_len (post_at (receive_iap i q st) i) = content_len (post_at st i) \<and>
    unat (received (post_at (receive_iap i q st) i)) = unat (received (post_at st i)) + min n (length q) \<and>
    registry (iap (receive_iap i q st)) = registry (iap st) \<and>
    IapVerifyRuntime (iap (receive_iap i q st)) = IapVerifyRuntime (iap st) \<and>
    (if n = 0 then receive_iap i q st = st
     else UpdateIngestPipeline_Push (iap_pipeline (post_at st i)) (Some (take n q)) (of_nat (length (take n q)))
       (core (iap st)) = (IAP_UPDATE_INGEST_E_OK, iap_pipeline (post_at (receive_iap i q st) i), core (iap (receive_iap i q st))))"
proof (cases "n = 0")
  case True
  then have "\<not> received (post_at st i) < content_len (post_at st i)" by (simp add: n_def word_less_nat_alt)
  then have "receive_iap i q st = st" by (simp add: receive_iap_def)
  then show ?thesis using True by simp
next
  case False
  let ?p = "post_at st i"
  let ?rem = "content_len ?p - received ?p"
  have lt: "received ?p < content_len ?p" using False by (simp add: n_def word_less_nat_alt)
  have rem: "unat ?rem = n" using assms(4) by (simp add: n_def unat_sub_small)
  then have rem0: "?rem \<noteq> 0" using False by auto
  define m where "m = (if ucast (of_nat (length q) :: u16) > ?rem then ucast ?rem else (of_nat (length q) :: u16))"
  have m: "unat m = min (length q) n" "unat (ucast m :: u32) = min (length q) n"
    using push_len [OF assms(3), of ?rem] rem by (simp_all add: m_def)
  obtain r pl x where push: "UpdateIngestPipeline_Push (iap_pipeline ?p) (Some (take (unat m) q)) (ucast m) (core (iap st)) = (r, pl, x)"
    by (metis prod_cases3)
  define st1 where "st1 = set_post i (?p\<lparr>iap_pipeline := pl\<rparr>) (st\<lparr>iap := (iap st)\<lparr>core := x\<rparr>\<rparr>)"
  have run: "run_pipeline i (\<lambda>pl x. UpdateIngestPipeline_Push pl (Some (take (unat m) q)) (ucast m) x) st = (r, st1)"
    using run_pipeline_simps [OF assms(1), of "\<lambda>pl x. UpdateIngestPipeline_Push pl (Some (take (unat m) q)) (ucast m) x", OF push]
    by (simp add: st1_def)
  have p1: "post_at st1 i = ?p\<lparr>iap_pipeline := pl\<rparr>" "i < length (conn_map st1)" using assms(1) by (simp_all add: st1_def)
  have "r = IAP_UPDATE_INGEST_E_OK"
  proof (rule ccontr)
    assume r: "r \<noteq> IAP_UPDATE_INGEST_E_OK"
    have "iap_failed (post_at (snd (run_pipeline i UpdateIngestPipeline_Abort s)) i) = iap_failed (post_at s i)"
      if "i < length (conn_map s)" for s :: "'s httpd_state"
      using that by (auto simp: run_pipeline_def split: prod.splits)
    then have "iap_failed (post_at (receive_iap i q st) i) = 1"
      using r run p1 lt rem0 assms(2) by (simp add: receive_iap_def m_def [symmetric]) (simp add: Let_def)
    then show False using assms(5) by simp
  qed
  then have recv: "receive_iap i q st = HttpdPost_SetIapUploadStatus HTTPD_IAP_UPLOAD_STATE_IN_PROGRESS
      (received ?p + ucast m) (content_len ?p) (set_post i ((?p\<lparr>iap_pipeline := pl\<rparr>)\<lparr>received := received ?p + ucast m\<rparr>) st1)"
    using run p1 lt rem0 assms(2) by (simp add: receive_iap_def m_def [symmetric]) (simp add: Let_def)
  have "unat (received ?p + ucast m) = unat (received ?p) + min (length q) n"
    using assms(4) m(2) unat_u32_bound [of "content_len ?p"] by (subst unat_add_small) (simp_all add: n_def)
  moreover have "ucast m = (of_nat (length (take n q)) :: u32)"
    using m(2) assms(3) by (simp add: word_unat_eq_iff min.commute)
  moreover have "take (unat m) q = take n q" using m(1) by (simp add: min_def)
  ultimately show ?thesis
    using False push p1 \<open>r = IAP_UPDATE_INGEST_E_OK\<close> by (simp add: recv st1_def min.commute)
qed

text \<open>A failed upload stays failed.\<close>

lemma receive_iap_failed:
  "i < length (conn_map st) \<Longrightarrow> iap_failed (post_at st i) \<noteq> 0 \<Longrightarrow> receive_iap i q st = st"
  by (simp add: receive_iap_def)

lemma receives_failed:
  "i < length (conn_map st) \<Longrightarrow> post_mode (post_at st i) = HTTPD_POST_MODE_IAP_BIN \<Longrightarrow>
   iap_failed (post_at st i) \<noteq> 0 \<Longrightarrow> foldl (\<lambda>st q. receive_pbuf i q st) st qs = st"
  by (induction qs) (simp_all add: receive_pbuf_def receive_iap_failed HTTPD_POST_MODE_IAP_BIN_def HTTPD_POST_MODE_FORM_KV_def)

lemma receive_iap_mode:
  assumes "i < length (conn_map st)"
  shows "post_mode (post_at (receive_iap i q st) i) = post_mode (post_at st i)"
proof -
  have run: "post_mode (post_at st2 i) = post_mode (post_at st1 i) \<and> length (conn_map st2) = length (conn_map st1)"
    if "run_pipeline i f st1 = (r, st2)" "i < length (conn_map st1)" for f r st1 st2
    using that by (auto simp: run_pipeline_def split: prod.splits)
  have run': "post_mode (post_at (snd (run_pipeline i f st1)) i) = post_mode (post_at st1 i)"
    if "i < length (conn_map st1)" for f st1
    using that by (cases "run_pipeline i f st1") (auto dest: run)
  show ?thesis
    using assms by (auto simp: receive_iap_def Let_def run' dest: run split: prod.splits)
qed

lemma receives_iap:
  assumes "i < length (conn_map st)" "post_mode (post_at st i) = HTTPD_POST_MODE_IAP_BIN"
    "iap_failed (post_at st i) = 0" "\<forall>q\<in>set qs. length q < 65536"
    "unat (received (post_at st i)) \<le> unat (content_len (post_at st i))"
    "iap_failed (post_at (foldl (\<lambda>st q. receive_pbuf i q st) st qs) i) = 0"
  shows "let st' = foldl (\<lambda>st q. receive_pbuf i q st) st qs;
      n = unat (content_len (post_at st i)) - unat (received (post_at st i))
    in same_conns st st' \<and> post_mode (post_at st' i) = HTTPD_POST_MODE_IAP_BIN \<and>
      content_len (post_at st' i) = content_len (post_at st i) \<and>
      unat (received (post_at st' i)) = unat (received (post_at st i)) + min n (length (concat qs)) \<and>
      registry (iap st') = registry (iap st) \<and> IapVerifyRuntime (iap st') = IapVerifyRuntime (iap st) \<and>
      push_all (iap_pipeline (post_at st i)) (body_chunks n qs) (core (iap st)) =
        (IAP_UPDATE_INGEST_E_OK, iap_pipeline (post_at st' i), core (iap st'))"
  using assms
proof (induction qs arbitrary: st)
  case Nil
  then show ?case by simp
next
  case (Cons q qs)
  let ?st = "receive_iap i q st"
  let ?n = "unat (content_len (post_at st i)) - unat (received (post_at st i))"
  have step: "receive_pbuf i q st = ?st"
    using Cons.prems(2) by (simp add: receive_pbuf_def HTTPD_POST_MODE_IAP_BIN_def HTTPD_POST_MODE_FORM_KV_def)
  have mode: "post_mode (post_at ?st i) = HTTPD_POST_MODE_IAP_BIN"
    using receive_iap_mode [OF Cons.prems(1)] Cons.prems(2) by simp
  have len: "i < length (conn_map ?st)"
    using same_conns_length [OF same_conns_receive [of st i q]] Cons.prems(1) step by simp
  have ok: "iap_failed (post_at ?st i) = 0"
  proof (rule ccontr)
    assume "iap_failed (post_at ?st i) \<noteq> 0"
    with receives_failed [OF len mode this, of qs] Cons.prems(6) step show False by simp
  qed
  have q: "length q < 65536" using Cons.prems(4) by simp
  note s = receive_iap_step [OF Cons.prems(1,3) q Cons.prems(5) ok]
  let ?st' = "foldl (\<lambda>st q. receive_pbuf i q st) ?st qs"
  have le: "unat (received (post_at ?st i)) \<le> unat (content_len (post_at ?st i))"
    using s Cons.prems(5) by auto
  have nf: "iap_failed (post_at ?st' i) = 0" using Cons.prems(6) step by simp
  have n: "unat (content_len (post_at ?st i)) - unat (received (post_at ?st i)) = ?n - length q"
    using s by auto
  note ih = Cons.IH [OF len mode ok _ le nf, unfolded Let_def n]
  have ih': "\<forall>q\<in>set qs. length q < 65536" using Cons.prems(4) by simp
  note ih = ih [OF this]
  have rcv: "unat (received (post_at ?st' i)) = unat (received (post_at st i)) + min ?n (length (concat (q # qs)))"
    using ih s by auto
  have push: "push_all (iap_pipeline (post_at st i)) (body_chunks ?n (q # qs)) (core (iap st)) =
      (IAP_UPDATE_INGEST_E_OK, iap_pipeline (post_at ?st' i), core (iap ?st'))"
  proof (cases "?n = 0")
    case True
    then have "?st = st" using s by auto
    then show ?thesis using ih True by simp
  next
    case False
    then have "UpdateIngestPipeline_Push (iap_pipeline (post_at st i)) (Some (take ?n q)) (of_nat (length (take ?n q)))
       (core (iap st)) = (IAP_UPDATE_INGEST_E_OK, iap_pipeline (post_at ?st i), core (iap ?st))"
      using s by auto
    then show ?thesis using ih False by simp
  qed
  have same: "same_conns st ?st'" using s ih same_conns_trans by blast
  have rest: "post_mode (post_at ?st' i) = HTTPD_POST_MODE_IAP_BIN"
    "content_len (post_at ?st' i) = content_len (post_at st i)"
    "registry (iap ?st') = registry (iap st)" "IapVerifyRuntime (iap ?st') = IapVerifyRuntime (iap st)"
    using ih s by auto
  have fold: "foldl (\<lambda>st q. receive_pbuf i q st) st (q # qs) = ?st'" by (simp add: step)
  show ?case unfolding fold Let_def using same rest rcv push by blast
qed

lemma upload_not_form: "take 11 uri = ascii ''/iap/upload'' \<Longrightarrow> take 8 uri \<noteq> ascii ''/can.cgi''"
proof
  assume "take 11 uri = ascii ''/iap/upload''" "take 8 uri = ascii ''/can.cgi''"
  then have "take 8 (ascii ''/iap/upload'') = ascii ''/can.cgi''"
    by (metis min.absorb1 numeral_le_iff semiring_norm(68,69,71,72) take_take)
  then show False by (simp add: ascii_def of_char_def)
qed

lemma begin_iap_ok:
  assumes "begin_iap c len i st = (True, st1)" "i < length (conn_map st)"
  shows "\<exists>pl x. 0 < len \<and>
    UpdateIngestPipeline_Begin (iap_pipeline (post_at st i)) (of_int len) (registry (iap st)) (core (iap st)) =
      (IAP_UPDATE_INGEST_E_OK, pl, x) \<and>
    post_at st1 i = (post_at st i)\<lparr>iap_pipeline := pl\<rparr> \<and> iap st1 = (Iap_VerifyReset (iap st))\<lparr>core := x\<rparr> \<and>
    same_conns st st1 \<and> settings st1 = settings st \<and>
    up_state (HttpdIapUploadStatus st1) = HTTPD_IAP_UPLOAD_STATE_IN_PROGRESS"
proof -
  have vr: "registry (Iap_VerifyReset v) = registry v" for v :: "'a iap_state" by (simp add: Iap_VerifyReset_def)
  show ?thesis
    using assms vr
    by (auto simp: begin_iap_def Let_def run_pipeline_def HttpdPost_SetIapUploadStatus_def
        HttpdPost_SetIapUploadError_def same_conns_def post_at_set_post post_at_def [symmetric] split: if_splits prod.splits)
qed

lemma begin_upload_cases:
  assumes "fresh_connection c st" "take 11 uri = ascii ''/iap/upload''"
    "httpd_post_begin c uri len st = (ERR_OK, resp, st1)"
  shows "\<exists>i pl x. i < length (conn_map st) \<and> conn_at st i = 0 \<and> 0 < len \<and> map_lookup c st1 = Some i \<and>
    current_connection st1 = c \<and> valid_connection st1 = c \<and>
    UpdateIngestPipeline_Begin UpdateIngestPipeline_Reset (of_int len) (registry (iap st)) (core (iap st)) =
      (IAP_UPDATE_INGEST_E_OK, pl, x) \<and>
    iap st1 = (Iap_VerifyReset (iap st))\<lparr>core := x\<rparr> \<and> settings st1 = settings st \<and>
    map conn (conn_map st1) = (map conn (conn_map st))[i := c] \<and>
    post_at st1 i = zero_ps\<lparr>content_len := of_int len, post_mode := HTTPD_POST_MODE_IAP_BIN, iap_pipeline := pl\<rparr> \<and>
    up_state (HttpdIapUploadStatus st1) = HTTPD_IAP_UPLOAD_STATE_IN_PROGRESS"
proof -
  let ?st = "st\<lparr>current_connection := c, valid_connection := 0\<rparr>"
  have c: "c \<noteq> 0" "\<forall>j<length (conn_map ?st). conn_at ?st j \<noteq> c" "current_connection st \<noteq> c"
    using assms(1) by (auto simp: fresh_connection_def conn_at_def)
  obtain slot st' where al: "map_alloc c (of_int len) HTTPD_POST_MODE_IAP_BIN ?st = (slot, st')" by fastforce
  obtain ok st2 where b: "begin_iap c len (the slot) st' = (ok, st2)" by fastforce
  have "\<exists>i. slot = Some i \<and> ok \<and> st1 = st2\<lparr>valid_connection := c\<rparr>"
    using assms(2,3) c(3) upload_not_form [OF assms(2)] al b
    by (auto simp: httpd_post_begin_def split: option.splits if_splits)
  then obtain i where i: "slot = Some i" "ok" "st1 = st2\<lparr>valid_connection := c\<rparr>" by blast
  note a = map_alloc_Some [OF al [unfolded i(1)] c(1,2)]
  have il: "i < length (conn_map (set_conn i c ?st))" "i < length (conn_map st')" using a(1,4) by simp_all
  have p0: "post_at st' i = zero_ps\<lparr>content_len := of_int len, post_mode := HTTPD_POST_MODE_IAP_BIN\<rparr>"
    using post_at_set_post [OF il(1)] by (simp add: a(4))
  have iap0: "iap st' = iap st" "settings st' = settings st" "current_connection st' = c"
    "map conn (conn_map st') = (map conn (conn_map st))[i := c]" unfolding a(4) by simp_all
  have pr: "iap_pipeline (post_at st' i) = UpdateIngestPipeline_Reset" unfolding p0 by (simp add: zero_ps_def)
  have "begin_iap c len i st' = (True, st2)" using b i(1,2) by simp
  from begin_iap_ok [OF this il(2)] pr iap0 obtain pl x where x: "0 < len"
    "UpdateIngestPipeline_Begin UpdateIngestPipeline_Reset (of_int len) (registry (iap st)) (core (iap st)) =
      (IAP_UPDATE_INGEST_E_OK, pl, x)"
    "post_at st2 i = (post_at st' i)\<lparr>iap_pipeline := pl\<rparr>" "iap st2 = (Iap_VerifyReset (iap st))\<lparr>core := x\<rparr>"
    "same_conns st' st2" "settings st2 = settings st"
    "up_state (HttpdIapUploadStatus st2) = HTTPD_IAP_UPLOAD_STATE_IN_PROGRESS" by auto
  have "map_lookup c st2 = Some i" using same_conns_lookup [OF x(5)] a(2) by simp
  then have "map_lookup c st1 = Some i" using i(3) by (simp add: map_lookup_def)
  then show ?thesis
    using a(1,3) x iap0 p0 unfolding i(3)
    by (intro exI [of _ i] exI [of _ pl] exI [of _ x]) (simp add: same_conns_def conn_at_def)
qed

text \<open>A request that ends READY has pushed its whole body, and the pipeline has finished.\<close>

lemma finish_ready:
  assumes "i < length (conn_map st)" "post_mode (post_at st i) = HTTPD_POST_MODE_IAP_BIN"
    "up_state (HttpdIapUploadStatus (finish_post i st)) = HTTPD_IAP_UPLOAD_STATE_READY"
  shows "\<exists>pl x. iap_failed (post_at st i) = 0 \<and> received (post_at st i) = content_len (post_at st i) \<and>
    UpdateIngestPipeline_Finish (iap_pipeline (post_at st i)) (core (iap st)) = (IAP_UPDATE_INGEST_E_OK, pl, x) \<and>
    iap (finish_post i st) = Iap_VerifyRequest ((iap st)\<lparr>core := x\<rparr>) \<and>
    settings (finish_post i st) = settings st \<and> same_conns st (finish_post i st)"
proof -
  obtain r pl x where f: "UpdateIngestPipeline_Finish (iap_pipeline (post_at st i)) (core (iap st)) = (r, pl, x)"
    by (metis prod_cases3)
  note run = run_pipeline_simps [OF assms(1), of UpdateIngestPipeline_Finish, OF f]
  show ?thesis
    using assms(2,3) f
    by (auto simp: finish_post_def Let_def run HTTPD_POST_MODE_IAP_BIN_def HTTPD_POST_MODE_FORM_KV_def split: if_splits)
qed

lemma run_pipeline_settings: "run_pipeline i f s = (r, s') \<Longrightarrow> settings s' = settings s"
  by (auto simp: run_pipeline_def split: prod.splits)

lemma receive_iap_settings: "settings (receive_iap i q s) = settings s"
  by (auto simp: receive_iap_def Let_def dest: run_pipeline_settings split: prod.splits)
    (auto simp: snd_def dest!: run_pipeline_settings split: prod.splits)

lemma receives_iap_keep:
  assumes "i < length (conn_map st)" "post_mode (post_at st i) = HTTPD_POST_MODE_IAP_BIN"
  shows "post_mode (post_at (foldl (\<lambda>st q. receive_pbuf i q st) st qs) i) = HTTPD_POST_MODE_IAP_BIN"
    "settings (foldl (\<lambda>st q. receive_pbuf i q st) st qs) = settings st"
proof -
  have "post_mode (post_at (foldl (\<lambda>st q. receive_pbuf i q st) st qs) i) = HTTPD_POST_MODE_IAP_BIN \<and>
      settings (foldl (\<lambda>st q. receive_pbuf i q st) st qs) = settings st"
    using assms
  proof (induction qs arbitrary: st)
    case (Cons q qs)
    have "receive_pbuf i q st = receive_iap i q st"
      using Cons.prems by (simp add: receive_pbuf_def HTTPD_POST_MODE_IAP_BIN_def HTTPD_POST_MODE_FORM_KV_def)
    then show ?case
      using Cons.IH [of "receive_iap i q st"] Cons.prems receive_iap_mode [OF Cons.prems(1), of q] receive_iap_settings [of i q st]
        same_conns_length [OF same_conns_receive [of st i q]] by simp
  qed simp
  then show "post_mode (post_at (foldl (\<lambda>st q. receive_pbuf i q st) st qs) i) = HTTPD_POST_MODE_IAP_BIN"
    "settings (foldl (\<lambda>st q. receive_pbuf i q st) st qs) = settings st" by simp_all
qed

lemma upload_request:
  assumes "fresh_connection c st" "take 11 uri = ascii ''/iap/upload''"
    and "httpd_post_begin c uri len st = (ERR_OK, resp, st1)"
    and "\<forall>q\<in>set (concat reqs). length q < 65536"
    and "httpd_post_finished c (receive_all c reqs st1) = (page, st2)"
    and "up_state (HttpdIapUploadStatus st2) = HTTPD_IAP_UPLOAD_STATE_READY"
  shows "\<exists>pl x. ingest_image UpdateIngestPipeline_Reset (of_int len)
      (body_chunks (unat (of_int len :: u32)) (concat reqs)) (registry (iap st)) (core (iap st)) =
        (IAP_UPDATE_INGEST_E_OK, pl, x) \<and>
    iap st2 = Iap_VerifyRequest ((Iap_VerifyReset (iap st))\<lparr>core := x\<rparr>) \<and> settings st2 = settings st \<and>
    current_connection st2 = 0 \<and> map conn (conn_map st2) = map conn (conn_map st)"
proof -
  obtain i pl0 x0 where i: "i < length (conn_map st)" "conn_at st i = 0" "map_lookup c st1 = Some i"
    "current_connection st1 = c" "valid_connection st1 = c"
    "UpdateIngestPipeline_Begin UpdateIngestPipeline_Reset (of_int len) (registry (iap st)) (core (iap st)) =
      (IAP_UPDATE_INGEST_E_OK, pl0, x0)"
    "iap st1 = (Iap_VerifyReset (iap st))\<lparr>core := x0\<rparr>" "settings st1 = settings st"
    "map conn (conn_map st1) = (map conn (conn_map st))[i := c]"
    "post_at st1 i = zero_ps\<lparr>content_len := of_int len, post_mode := HTTPD_POST_MODE_IAP_BIN, iap_pipeline := pl0\<rparr>"
    "up_state (HttpdIapUploadStatus st1) = HTTPD_IAP_UPLOAD_STATE_IN_PROGRESS"
    using begin_upload_cases [OF assms(1-3)] by blast
  have il: "i < length (conn_map st1)" using i(3) map_lookup_SomeD by blast
  have p0: "post_mode (post_at st1 i) = HTTPD_POST_MODE_IAP_BIN" "iap_failed (post_at st1 i) = 0"
    "received (post_at st1 i) = 0" "content_len (post_at st1 i) = of_int len" "iap_pipeline (post_at st1 i) = pl0"
    unfolding i(10) by (simp_all add: zero_ps_def)
  define st' where "st' = foldl (\<lambda>st q. receive_pbuf i q st) st1 (concat reqs)"
  have recv: "receive_all c reqs st1 = st'" using receive_all_current [OF i(4,3)] by (simp add: st'_def)
  have same: "same_conns st1 st'" unfolding st'_def by (rule same_conns_receives)
  have cur: "current_connection st' = c" "valid_connection st' = c" "map_lookup c st' = Some i"
    using same i(3-5) same_conns_lookup [OF same] by (simp_all add: same_conns_def)
  have il': "i < length (conn_map st')" using same_conns_length [OF same] il by simp
  have mode: "post_mode (post_at st' i) = HTTPD_POST_MODE_IAP_BIN" "settings st' = settings st1"
    using receives_iap_keep [OF il p0(1)] by (simp_all add: st'_def)
  note fin = finished_current [OF cur]
  have st2: "st2 = (map_free c (finish_post i st'))\<lparr>current_connection := 0, valid_connection := 0\<rparr>"
    using assms(5) fin by (simp add: recv)
  have up: "HttpdIapUploadStatus (map_free c (finish_post i st')) = HttpdIapUploadStatus (finish_post i st')"
    by (simp add: map_free_def split: option.splits)
  have "up_state (HttpdIapUploadStatus (finish_post i st')) = HTTPD_IAP_UPLOAD_STATE_READY"
    using assms(6) by (simp add: st2 up)
  from finish_ready [OF il' mode(1) this] obtain pl x where f: "iap_failed (post_at st' i) = 0"
    "received (post_at st' i) = content_len (post_at st' i)"
    "UpdateIngestPipeline_Finish (iap_pipeline (post_at st' i)) (core (iap st')) = (IAP_UPDATE_INGEST_E_OK, pl, x)"
    "iap (finish_post i st') = Iap_VerifyRequest ((iap st')\<lparr>core := x\<rparr>)"
    "settings (finish_post i st') = settings st'" "same_conns st' (finish_post i st')" by blast
  have r0: "unat (received (post_at st1 i)) \<le> unat (content_len (post_at st1 i))" using p0(3) by simp
  note rc = receives_iap [OF il p0(1,2) assms(4) r0 f(1) [unfolded st'_def], folded st'_def, unfolded Let_def]
  have push: "push_all pl0 (body_chunks (unat (of_int len :: u32)) (concat reqs)) x0 =
      (IAP_UPDATE_INGEST_E_OK, iap_pipeline (post_at st' i), core (iap st'))"
    using rc p0 i(7) by simp
  have img: "ingest_image UpdateIngestPipeline_Reset (of_int len)
      (body_chunks (unat (of_int len :: u32)) (concat reqs)) (registry (iap st)) (core (iap st)) =
        (IAP_UPDATE_INGEST_E_OK, pl, x)"
    using i(6) push f(3) by (simp add: ingest_image_def)
  have iap': "(iap st')\<lparr>core := x\<rparr> = (Iap_VerifyReset (iap st))\<lparr>core := x\<rparr>"
  proof -
    have "registry (iap st') = registry (iap st1)" "IapVerifyRuntime (iap st') = IapVerifyRuntime (iap st1)" using rc by simp_all
    then show ?thesis using i(7) by (cases "iap st'") simp
  qed
  have look: "map_lookup c (finish_post i st') = Some i" using same_conns_lookup [OF f(6)] cur(3) by simp
  note free = map_free_conns [OF look]
  have conns: "map conn (conn_map (finish_post i st')) = (map conn (conn_map st))[i := c]"
    using f(6) same i(9) by (simp add: same_conns_def)
  have restored: "(map conn (conn_map st))[i := 0] = map conn (conn_map st)"
    using i(1,2) by (metis conn_at_def list_update_id)
  show ?thesis
    using img f(4,5) iap' mode(2) i(8) st2 free conns restored by auto
qed

section \<open>Properties\<close>

text \<open>C25. Whatever bytes a form request sends, and however they are cut, the parser's indices stay in
  its two buffers: every write is in bounds, and the buffers keep their sizes.\<close>

theorem form_parser_in_bounds:
  "case foldl consume_byte ((zero_ps :: 'x HttpdPostStateType)\<lparr>content_len := n, post_mode := m\<rparr>, s) q of (p, _) \<Rightarrow>
     unat (klen p) < length (key p) \<and> length (key p) = 16 \<and> unat (vlen p) < length (val p) \<and> length (val p) = 32"
proof -
  have "parser_inv (fst (foldl consume_byte ((zero_ps :: 'x HttpdPostStateType)\<lparr>content_len := n, post_mode := m\<rparr>, s) q))"
    by (rule consume_bytes_inv [OF parser_inv_zero])
  then show ?thesis by (simp add: parser_inv_def case_prod_beta)
qed

text \<open>C17. A form request of a connection not seen before, delivered in any number of packets cut
  anywhere, applies exactly its fields in order (names cut to 15 and values to 31 bytes, an empty
  last value dropped), leaves the update service alone and releases its entry.\<close>

theorem form_post_applies:
  assumes "fresh_connection c st" "take 8 uri = ascii ''/can.cgi''" "list_all (\<lambda>(k, v). plain k \<and> plain v) kvs"
    and "httpd_post_begin c uri len st = (ERR_OK, resp, st1)"
    and "concat (concat reqs) = form_body kvs"
    and "httpd_post_finished c (receive_all c reqs st1) = (page, st2)"
  shows "settings st2 = foldl (\<lambda>s (k, v). consume_param_values k v s) (settings st) (form_pairs kvs) \<and>
    iap st2 = iap st \<and> current_connection st2 = 0 \<and> map conn (conn_map st2) = map conn (conn_map st)"
  using form_request [OF assms] by (simp add: post_pairs_def)

lemma begin_form_ok:
  assumes "take 8 uri = ascii ''/can.cgi''" "current_connection st \<noteq> c" "find_conn 0 (conn_map st) = Some i"
  shows "fst (httpd_post_begin c uri len st) = ERR_OK"
  using assms by (simp add: httpd_post_begin_def map_alloc_def HTTPD_POST_MODE_FORM_KV_def HTTPD_POST_MODE_IAP_BIN_def)

definition sample_httpd :: "'s iap_state \<Rightarrow> 's httpd_state" where
  "sample_httpd v = \<lparr>conn_map = replicate MEMP_NUM_PARALLEL_HTTPD_CONNS \<lparr>conn = 0, ps = zero_ps\<rparr>,
     current_connection = 0, valid_connection = 0,
     HttpdIapUploadStatus = \<lparr>up_state = HTTPD_IAP_UPLOAD_STATE_IDLE, up_received = 0, up_total = 0,
       error_reason = HTTPD_IAP_UPLOAD_ERROR_NONE, ingest_status = IAP_UPDATE_INGEST_E_OK\<rparr>,
     iap = v, settings = sample_settings\<rparr>"

lemma sample_httpd_simps [simp]:
  "conn_map (sample_httpd v) = replicate 8 \<lparr>conn = 0, ps = zero_ps\<rparr>"
  "current_connection (sample_httpd v) = 0" "valid_connection (sample_httpd v) = 0"
  "iap (sample_httpd v) = v" "settings (sample_httpd v) = sample_settings"
  by (simp_all add: sample_httpd_def MEMP_NUM_PARALLEL_HTTPD_CONNS_def)

lemma sample_httpd_fresh [simp]: "c \<noteq> 0 \<Longrightarrow> fresh_connection c (sample_httpd v)"
  by (simp add: fresh_connection_def conn_at_def)

lemma sample_httpd_free [simp]: "find_conn 0 (replicate 8 \<lparr>conn = 0, ps = p\<rparr>) = Some 0"
  by (simp add: numeral_eq_Suc)

lemma ascii_bytes [simp]:
  "ascii ''/can.cgi'' = [47, 99, 97, 110, 46, 99, 103, 105]"
  "ascii ''/iap/upload'' = [47, 105, 97, 112, 47, 117, 112, 108, 111, 97, 100]"
  by (simp_all add: ascii_def of_char_def)

text \<open>The two bodies of one field below, in one packet of two buffers.\<close>

theorem form_post_applies_witness:
  "\<exists>resp st1 page st2. httpd_post_begin 9 (ascii ''/can.cgi'') 12 (sample_httpd sample_pending) = (ERR_OK, resp, st1) \<and>
     httpd_post_finished 9 (receive_all 9 [[ascii ''baud1=2'', ascii ''50000'']] st1) = (page, st2) \<and>
     baudrate (can1 (AppSettings (settings st2))) = 250000"
proof -
  obtain e resp st1 where b: "httpd_post_begin 9 (ascii ''/can.cgi'') 12 (sample_httpd sample_pending) = (e, resp, st1)"
    by (metis prod_cases3)
  then have e: "e = ERR_OK" using begin_form_ok [of "ascii ''/can.cgi''" "sample_httpd sample_pending" 9 0 12] by simp
  obtain page st2 where f: "httpd_post_finished 9 (receive_all 9 [[ascii ''baud1=2'', ascii ''50000'']] st1) = (page, st2)"
    by fastforce
  have body: "concat (concat [[ascii ''baud1=2'', ascii ''50000'']]) = form_body [(ascii ''baud1'', ascii ''250000'')]"
    by (simp add: ascii_def of_char_def)
  have pl: "list_all (\<lambda>(k, v). plain k \<and> plain v) [(ascii ''baud1'', ascii ''250000'')]"
    by (simp add: plain_def ascii_def of_char_def)
  have "settings st2 = foldl (\<lambda>s (k, v). consume_param_values k v s) sample_settings
      (form_pairs [(ascii ''baud1'', ascii ''250000'')])"
    using form_post_applies [OF _ _ pl b [unfolded e] body f] by simp
  moreover have "new_baudrate (ascii ''250000'') 500000 = 250000"
    by (simp add: new_baudrate_def ascii_def of_char_def cstr_def)
  ultimately have "baudrate (can1 (AppSettings (settings st2))) = 250000"
    by (simp add: consume_param_values_def set_baudrate_can1 ascii_def of_char_def cstr_def Let_def sample_settings_def)
  with b e f show ?thesis by blast
qed

text \<open>A connection whose \<open>httpd_post_begin\<close> succeeded owns an entry that was free and is the current one.\<close>

lemma begin_owns:
  assumes "fresh_connection c st" "httpd_post_begin c uri len st = (ERR_OK, resp, st1)"
  shows "\<exists>j. j < length (conn_map st) \<and> conn_at st j = 0 \<and> map_lookup c st1 = Some j \<and> current_connection st1 = c \<and>
    valid_connection st1 = c \<and> map conn (conn_map st1) = (map conn (conn_map st))[j := c]"
proof -
  consider "take 8 uri = ascii ''/can.cgi''" | "take 11 uri = ascii ''/iap/upload''"
    using assms(2) by (auto simp: httpd_post_begin_def split: if_splits)
  then show ?thesis
    using begin_form_cases [OF assms(1) _ assms(2)] begin_upload_cases [OF assms(1) _ assms(2)] by cases blast+
qed

lemma same_conns_finish: "same_conns st (finish_post i st)"
  by (auto simp: finish_post_def Let_def run_pipeline_def split: prod.splits)

text \<open>Only one request is served at a time, and the one that is overtaken is never released: once
  another connection begins, the first gets an error for its data, its end frees nothing, and when
  the second is complete the entry of the first is still taken.\<close>

theorem overtaken_post_leaks:
  assumes "map_lookup c st = Some i" "c \<noteq> 0" "c \<noteq> c'" "fresh_connection c' st"
    and "httpd_post_begin c' uri len st = (ERR_OK, resp, st1)"
  shows "httpd_post_receive_data c p st1 = (ERR_VAL, st1) \<and> snd (httpd_post_finished c st1) = st1 \<and>
    (let st2 = snd (httpd_post_finished c' (receive_all c' reqs st1))
     in conn_at st2 i = c \<and> current_connection st2 = 0 \<and> valid_connection st2 = 0)"
proof -
  obtain j where j: "j < length (conn_map st)" "conn_at st j = 0" "map_lookup c' st1 = Some j"
    "current_connection st1 = c'" "valid_connection st1 = c'" "map conn (conn_map st1) = (map conn (conn_map st))[j := c']"
    using begin_owns [OF assms(4,5)] by blast
  have i: "i < length (conn_map st)" "conn_at st i = c" using map_lookup_SomeD [OF assms(1)] by simp_all
  have ij: "i \<noteq> j" using i(2) j(2) assms(2) by auto
  define st' where "st' = foldl (\<lambda>st q. receive_pbuf j q st) st1 (concat reqs)"
  have recv: "receive_all c' reqs st1 = st'" using receive_all_current [OF j(4,3)] by (simp add: st'_def)
  have same: "same_conns st1 st'" unfolding st'_def by (rule same_conns_receives)
  have cur: "current_connection st' = c'" "valid_connection st' = c'" "map_lookup c' st' = Some j"
    using same j(3-5) same_conns_lookup [OF same] by (simp_all add: same_conns_def)
  have fin: "same_conns st1 (finish_post j st')" using same_conns_trans [OF same same_conns_finish] .
  then have "map_lookup c' (finish_post j st') = Some j" using same_conns_lookup j(3) by metis
  note free = map_free_conns(1) [OF this]
  have "map conn (conn_map (map_free c' (finish_post j st'))) ! i = c"
    using fin i ij j(6) unfolding free by (simp add: same_conns_def conn_at_def)
  then show ?thesis
    using assms(3) j(4) finished_current [OF cur] recv
    by (simp add: httpd_post_receive_data_def httpd_post_finished_def conn_at_def Let_def)
qed

theorem overtaken_post_leaks_witness:
  "\<exists>st st1 i. snd (snd (httpd_post_begin 5 (ascii ''/can.cgi'') 12 (sample_httpd sample_pending))) = st \<and>
     snd (snd (httpd_post_begin 9 (ascii ''/can.cgi'') 12 st)) = st1 \<and>
     conn_at (snd (httpd_post_finished 9 (receive_all 9 [] st1))) i = 5"
proof -
  obtain e resp st where b: "httpd_post_begin 5 (ascii ''/can.cgi'') 12 (sample_httpd sample_pending) = (e, resp, st)"
    by (metis prod_cases3)
  then have e: "e = ERR_OK" using begin_form_ok [of "ascii ''/can.cgi''" "sample_httpd sample_pending" 5 0 12] by simp
  have fr: "fresh_connection 5 (sample_httpd sample_pending)" by simp
  obtain j where j: "j < 8" "map_lookup 5 st = Some j" "current_connection st = 5" "map conn (conn_map st) = (replicate 8 0)[j := 5]"
    using begin_owns [OF fr b [unfolded e]] by auto
  have sub: "set ((replicate 8 0)[j := 5]) \<subseteq> {0, 5 :: u32}" using set_update_subset_insert [of "replicate 8 (0 :: u32)" j 5] by auto
  have len: "length (conn_map st) = 8" using j(4) by (metis length_list_update length_map length_replicate)
  have fr': "fresh_connection 9 st"
  proof -
    have "conn_at st k \<noteq> 9" if "k < 8" for k
    proof -
      have "conn_at st k \<in> {0, 5}" using that sub len j(4) by (metis conn_at_def length_map nth_mem subsetD)
      then show ?thesis by auto
    qed
    then show ?thesis using j(3) len by (auto simp: fresh_connection_def)
  qed
  have "(if j = 0 then 1 else 0) < length (conn_map st)" "conn (conn_map st ! (if j = 0 then 1 else 0)) = 0"
    using len j(1) nth_map [of "if j = 0 then 1 else 0" "conn_map st" conn] by (simp_all add: j(4))
  then obtain f where f: "find_conn 0 (conn_map st) = Some f"
    by (metis find_conn_None nth_mem option.exhaust)
  obtain e' resp' st1 where b': "httpd_post_begin 9 (ascii ''/can.cgi'') 12 st = (e', resp', st1)" by (metis prod_cases3)
  then have e': "e' = ERR_OK" using begin_form_ok [OF _ _ f, of "ascii ''/can.cgi''" 9 12] j(3) by simp
  show ?thesis
    using overtaken_post_leaks [OF j(2) _ _ fr' b' [unfolded e'], of "[]" "[]"] b b' by (auto simp: Let_def)
qed

end
