(* ===== verification/UpdateInvariant.thy ===== *)
theory UpdateInvariant
  imports HttpdPost
begin

text \<open>
  What every request, page and poll keeps of the update service, whatever it returns: the writer's
  context is well-formed, an open session belongs to exactly one connection entry and holds the
  bytes pushed so far, a prepared slot is blank, and a verdict other than idle or error is about an
  image that is in the slot.  The lemmas are proved for any storage with a programming unit.
\<close>

section \<open>The ingest path, whatever it returns\<close>

definition core_inv ::
  "'s storage_ops \<Rightarrow> ('s \<Rightarrow> u32 \<Rightarrow> bool) \<Rightarrow> ('s \<Rightarrow> bool) \<Rightarrow> u32 \<Rightarrow> 's ingest_state \<Rightarrow> bool" where
  "core_inv ops blank sinv prog x \<longleftrightarrow>
     writer_inv (writer x) \<and> initialized (writer x) \<and> writer_ops (writer x) = ops \<and>
     prog_size (config (writer x)) = prog \<and> writer_set (ingest x) \<and> length (pending (ingest x)) = 64 \<and>
     unat (pending_len (ingest x)) \<le> 64 \<and> sinv (store x) \<and> slot_blank blank (writer x) (store x) \<and>
     (active (writer x) \<longrightarrow> \<not> slot_prepared (writer x))"

text \<open>Nothing outside the slot changes, and the slot stays where it is.\<close>

definition slot_frame ::
  "('s \<Rightarrow> memory) \<Rightarrow> ('s \<Rightarrow> u32 \<Rightarrow> bool) \<Rightarrow> 's ingest_state \<Rightarrow> 's ingest_state \<Rightarrow> bool" where
  "slot_frame smem blank x x' \<longleftrightarrow> config (writer x') = config (writer x) \<and>
     same_outside smem blank (slot_addr (config (writer x))) (unat (slot_size (config (writer x)))) (store x) (store x')"

lemma slot_frame_refl [simp]: "slot_frame smem blank x x"
  by (simp add: slot_frame_def)

lemma slot_frame_trans [trans]:
  "slot_frame smem blank x y \<Longrightarrow> slot_frame smem blank y z \<Longrightarrow> slot_frame smem blank x z"
  by (auto simp: slot_frame_def intro: same_outside_trans)

lemma core_inv_ingest:
  "core_inv ops blank sinv prog x \<Longrightarrow> writer_set i \<Longrightarrow> length (pending i) = 64 \<Longrightarrow> unat (pending_len i) \<le> 64 \<Longrightarrow>
   core_inv ops blank sinv prog (x\<lparr>ingest := i\<rparr>)"
  by (simp add: core_inv_def)

lemma slot_frame_ingest [simp]:
  "slot_frame smem blank x (y\<lparr>ingest := i\<rparr>) = slot_frame smem blank x y"
  "slot_frame smem blank (x\<lparr>ingest := i\<rparr>) y = slot_frame smem blank x y"
  by (simp_all add: slot_frame_def)

context storage_prog
begin

abbreviation "cinv \<equiv> core_inv ops blank sinv prog"
abbreviation "frame \<equiv> slot_frame smem blank"

lemma prog_le_64: "unat prog \<le> 64" by (rule prog_small)

lemma write_to_writer_inv:
  assumes "cinv x" "unat len \<le> length bs" "write_to_writer x off bs len = (r, x')"
  shows "cinv x' \<and> frame x x' \<and> ingest x' = ingest x \<and> active (writer x') = active (writer x) \<and>
    slot_prepared (writer x') = slot_prepared (writer x)"
proof -
  let ?bs = "take (unat len) bs"
  obtain q w s where c: "IapWriter_WriteChunk (writer x) off (Some ?bs) len (store x) = (q, w, s)"
    by (metis prod_cases3)
  then have x': "x' = x\<lparr>writer := w, store := s\<rparr>" using assms(3) by (simp add: write_to_writer_def)
  have i: "writer_inv (writer x)" "initialized (writer x)" "writer_ops (writer x) = ops" "sinv (store x)"
    "slot_blank blank (writer x) (store x)" "active (writer x) \<longrightarrow> \<not> slot_prepared (writer x)"
    using assms(1) by (simp_all add: core_inv_def)
  have len: "length ?bs = unat len" using assms(2) by simp
  note fr = WriteChunk_frame [OF i(4,3) len c]
  have inv: "writer_inv w" by (rule writer_inv_WriteChunk [OF c i(1)])
  have exp: "unat (expected_size (writer x)) \<le> unat (slot_size (config (writer x)))"
    using i(1,2) by (simp add: writer_inv_def)
  from c have w: "config w = config (writer x) \<and> initialized w \<and> writer_ops w = writer_ops (writer x) \<and>
      active w = active (writer x) \<and> slot_prepared w = slot_prepared (writer x) \<and> (s = store x \<or> active (writer x))"
    using i(2) by (cases rule: WriteChunk_cases) auto
  then have "slot_blank blank w s" using i(5,6) by (auto simp: slot_blank_def)
  then show ?thesis
    using assms(1) fr inv w same_outside_mono [OF fr(2) exp] by (simp add: x' core_inv_def slot_frame_def)
qed

lemma write_rest_inv:
  assumes "cinv x" "unat fill + unat upd \<le> length data" "length data < 4294967296"
    "ingest_write_rest prog off fill upd data x = (r, x')"
  shows "cinv x' \<and> frame x x' \<and> active (writer x') = active (writer x)"
proof -
  define aligned where "aligned = (if upd \<ge> prog then upd - upd mod prog else 0)"
  define remain where "remain = upd - aligned"
  have p: "0 < unat prog" using prog_pos by (simp add: unat_gt_0)
  have ua: "unat aligned = unat upd - unat upd mod unat prog"
    using p by (auto simp: aligned_def word_le_nat_alt unat_sub_small unat_mod not_le)
  have ur: "unat remain = unat upd mod unat prog"
    unfolding remain_def by (subst unat_sub_small) (simp_all add: ua)
  have fa: "unat (fill + aligned) = unat fill + unat aligned"
    using assms(2,3) ua by (subst unat_add_small) simp_all
  let ?tail = "buf_read data (unat (fill + aligned)) (unat remain)"
  have sum: "unat aligned + unat remain = unat upd" by (simp add: ua ur)
  have "unat (fill + aligned) + unat remain \<le> length data" using assms(2) sum by (simp add: fa)
  then have tail: "length ?tail = unat remain" by simp
  have small: "unat remain \<le> 64" "unat aligned \<le> length (drop (unat fill) data)"
    using assms(2) sum ur prog_small mod_less_divisor [OF p, of "unat upd"] by simp_all
  define x1 where "x1 = (if pending_len (ingest x) = 0 \<and> remain > 0
      then x\<lparr>ingest := (ingest x)\<lparr>pending := buf_write (pending (ingest x)) 0 ?tail, pending_len := remain\<rparr>\<rparr>
      else x)"
  have x1: "cinv x1" "frame x x1" "active (writer x1) = active (writer x)"
    using assms(1) tail small by (auto simp: x1_def core_inv_def)
  have run: "ingest_write_rest prog off fill upd data x =
      (if aligned = 0 then (IAP_UPDATE_INGEST_E_OK, x1)
       else write_to_writer x1 (off + fill) (drop (unat fill) data) aligned)"
    by (simp add: ingest_write_rest_def Let_def aligned_def remain_def x1_def)
  show ?thesis
  proof (cases "aligned = 0")
    case True
    then show ?thesis using run assms(4) x1 by simp
  next
    case False
    then have "write_to_writer x1 (off + fill) (drop (unat fill) data) aligned = (r, x')" using run assms(4) by simp
    from write_to_writer_inv [OF x1(1) small(2) this] x1(2,3) slot_frame_trans show ?thesis by blast
  qed
qed

lemma write_checked_inv:
  assumes "cinv x" "length bs = unat len" "ingest_write_checked prog off bs len x = (r, x')"
  shows "cinv x' \<and> frame x x' \<and> active (writer x') = active (writer x)"
proof (cases "pending_len (ingest x) > 0 \<and> pending_len (ingest x) > prog")
  case True
  then show ?thesis using assms by (simp add: ingest_write_checked_def Let_def)
next
  case False
  let ?p = "pending_len (ingest x)"
  define free_len where "free_len = (if ?p > 0 then prog - ?p else 0)"
  define n where "n = (if len \<ge> free_len then free_len else len)"
  define x2 where "x2 = (if ?p > 0 then x\<lparr>ingest := (ingest x)\<lparr>
      pending := buf_write (pending (ingest x)) (unat ?p) (take (unat n) bs), pending_len := ?p + n\<rparr>\<rparr> else x)"
  define upd where "upd = (if ?p > 0 then len - n else len)"
  have go: "(if pending_len (ingest x2) = prog then
         let (r, x) = write_to_writer x2 (if ?p > 0 then off - ?p else 0) (pending (ingest x2)) (pending_len (ingest x2));
             x = x\<lparr>ingest := (ingest x)\<lparr>pending_len := 0\<rparr>\<rparr>
         in if r \<noteq> IAP_UPDATE_INGEST_E_OK then (r, x) else ingest_write_rest prog off free_len upd bs x
       else ingest_write_rest prog off free_len upd bs x2) = (r, x')"
    using assms(3) False by (simp only: ingest_write_checked_def Let_def free_len_def [symmetric]
        n_def [symmetric] upd_def [symmetric] x2_def [symmetric] simp_thms if_False)
  have i: "length (pending (ingest x)) = 64" "unat ?p \<le> 64" "writer_set (ingest x)"
    using assms(1) by (simp_all add: core_inv_def)
  have bound: "length bs < 4294967296" using assms(2) unat_u32_bound [of len] by simp
  have un: "unat n = min (unat free_len) (unat len)" by (simp add: n_def word_le_nat_alt)
  have uf: "unat free_len = (if ?p > 0 then unat prog - unat ?p else 0)"
    using False by (auto simp: free_len_def unat_sub_small word_less_nat_alt not_less)
  have uu: "unat upd = (if ?p > 0 then unat len - unat n else unat len)"
    by (simp add: upd_def unat_sub_small un)
  have fit: "?p > 0 \<Longrightarrow> unat ?p + unat n \<le> 64"
    using False un uf prog_small by (simp add: word_less_nat_alt not_less)
  have x2: "cinv x2" "frame x x2" "active (writer x2) = active (writer x)"
  proof -
    have "unat (?p + n) = unat ?p + unat n" if "?p > 0" using fit [OF that] by (subst unat_add_small) simp_all
    then show "cinv x2" "frame x x2" "active (writer x2) = active (writer x)"
      using assms(1) i fit un assms(2) by (auto simp: x2_def intro!: core_inv_ingest)
  qed
  have rest: "unat free_len + unat upd \<le> length bs" if "pending_len (ingest x2) = prog \<or> unat free_len \<le> unat len"
  proof (cases "unat free_len \<le> unat len")
    case True
    then show ?thesis using uu un uf assms(2) by auto
  next
    case False
    then have "?p > 0" "n = len" using uf un by (auto simp: word_unat_eq_iff split: if_splits)
    then have "pending_len (ingest x2) = ?p + len" by (simp add: x2_def)
    then show ?thesis using that False fit \<open>?p > 0\<close> \<open>n = len\<close> uf
      by (auto simp: word_unat_eq_iff unat_add_small)
  qed
  show ?thesis
  proof (cases "pending_len (ingest x2) = prog")
    case True
    obtain q y where wr: "write_to_writer x2 (if ?p > 0 then off - ?p else 0) (pending (ingest x2)) (pending_len (ingest x2)) = (q, y)"
      by fastforce
    define y1 where "y1 = y\<lparr>ingest := (ingest y)\<lparr>pending_len := 0\<rparr>\<rparr>"
    have "unat (pending_len (ingest x2)) \<le> length (pending (ingest x2))" using x2(1) by (simp add: core_inv_def)
    note w = write_to_writer_inv [OF x2(1) this wr]
    have y1: "cinv y1" "frame x y1" "active (writer y1) = active (writer x)"
      using w x2 by (auto simp: y1_def core_inv_def intro: slot_frame_trans)
    show ?thesis
    proof (cases "q = IAP_UPDATE_INGEST_E_OK")
      case ok: True
      then have "ingest_write_rest prog off free_len upd bs y1 = (r, x')"
        using go True wr by (simp add: y1_def Let_def)
      from write_rest_inv [OF y1(1) rest bound this] True y1 slot_frame_trans show ?thesis by blast
    next
      case False
      then have "x' = y1" using go True wr by (simp add: y1_def Let_def)
      then show ?thesis using y1 by simp
    qed
  next
    case False
    then have run: "ingest_write_rest prog off free_len upd bs x2 = (r, x')" using go by simp
    show ?thesis
    proof (cases "unat free_len \<le> unat len")
      case True
      from write_rest_inv [OF x2(1) rest bound run] True x2 slot_frame_trans show ?thesis by blast
    next
      case short: False
      then have p: "?p > 0" "n = len" using uf un by (auto simp: word_unat_eq_iff split: if_splits)
      then have "upd = 0" by (simp add: upd_def)
      moreover have "\<not> prog \<le> 0" using prog_pos by simp
      ultimately have "x' = x2" using run by (simp add: ingest_write_rest_def Let_def)
      then show ?thesis using x2 by simp
    qed
  qed
qed

lemma WriteChunk_inv:
  assumes "cinv x" "length bs = unat len" "ingest_WriteChunk ctx off (Some bs) len x = (r, x')"
  shows "cinv x' \<and> frame x x' \<and> active (writer x') = active (writer x)"
proof -
  have i: "sinv (store x)" "writer_ops (writer x) = ops" using assms(1) by (simp_all add: core_inv_def)
  obtain g s where g: "so_get_property ops = Some g"
    "g IAP_WRITER_STORAGE_PROP_PROG_SIZE True 4 (store x) = (IAP_WRITER_STORAGE_E_OK, Some prog, s)"
    using prog_property [OF i(1)] by blast
  have s: "sinv s" "smem s = smem (store x)" "blank s = blank (store x)"
    using property_frame [OF i(1) g] by simp_all
  let ?x = "x\<lparr>store := s\<rparr>"
  have x1: "cinv ?x" "frame x ?x"
    using assms(1) s by (simp_all add: core_inv_def slot_frame_def same_outside_def slot_blank_def)
  consider "x' = x" | "x' = ?x" | "ingest_write_checked prog off bs len ?x = (r, x')"
    using assms(3) g i(2) by (auto simp: ingest_WriteChunk_def Let_def split: if_splits)
  then show ?thesis
  proof cases
    case 3
    from write_checked_inv [OF x1(1) assms(2) this] x1(2) slot_frame_trans show ?thesis by force
  qed (use assms(1) x1 in simp_all)
qed

lemma writer_Begin_prepared:
  "slot_prepared c \<Longrightarrow> IapWriter_Begin c n s = (r, c', s') \<Longrightarrow> s' = s"
  by (auto simp: IapWriter_Begin_def split: if_splits option.splits)

lemma ingest_Begin_inv:
  assumes "cinv x" "ingest_Begin True n x = (r, x')"
  shows "cinv x' \<and> frame x x' \<and> (r = IAP_UPDATE_INGEST_E_OK \<and> \<not> active (writer x) \<or> active (writer x') = active (writer x))"
proof -
  let ?w = "writer x"
  obtain q w s where b: "IapWriter_Begin ?w n (store x) = (q, w, s)" by (metis prod_cases3)
  have i: "writer_inv ?w" "writer_ops ?w = ops" "sinv (store x)" "writer_set (ingest x)" "slot_blank blank ?w (store x)"
    using assms(1) by (simp_all add: core_inv_def)
  have x': "r = MapWriterStatus q" "x' = (clear_pending x)\<lparr>writer := w, store := s\<rparr>"
    using assms(2) b i(4) by (auto simp: ingest_Begin_def clear_pending_def split: if_splits)
  note fr = Begin_frame [OF i(1-3) b]
  have inv: "writer_inv w" by (rule writer_inv_Begin [OF b i(1)])
  from b show ?thesis
  proof (cases rule: Begin_cases)
    case error
    have "slot_blank blank w s"
      using i(5) writer_Begin_prepared [OF _ b] error(2) by (auto simp: slot_blank_def)
    then show ?thesis
      using assms(1) fr inv error x' by (simp add: core_inv_def slot_frame_def clear_pending_def)
  next
    case ok
    then show ?thesis
      using assms(1) fr inv x' by (simp add: core_inv_def slot_frame_def clear_pending_def slot_blank_def)
  qed
qed

lemma ingest_Abort_inv:
  assumes "cinv x" "ingest_Abort True x = (r, x')"
  shows "r = IAP_UPDATE_INGEST_E_OK \<and> cinv x' \<and> frame x x' \<and> \<not> active (writer x') \<and> store x' = store x"
proof -
  have i: "initialized (writer x)" "writer_set (ingest x)" "writer_inv (writer x)"
    using assms(1) by (simp_all add: core_inv_def)
  obtain q w where a: "IapWriter_Abort (writer x) = (q, w)" by fastforce
  have "writer_inv w" by (rule writer_inv_Abort [OF a i(3)])
  then show ?thesis
    using assms a i by (auto simp: ingest_Abort_def IapWriter_Abort_def core_inv_def slot_frame_def clear_pending_def
        slot_blank_def)
qed

lemma ingest_Finalize_inv:
  assumes "cinv x" "ingest_Finalize True x = (r, x')"
  shows "cinv x' \<and> frame x x' \<and> store x' = store x"
proof -
  have i: "writer_inv (writer x)" using assms(1) by (simp add: core_inv_def)
  obtain q w where f: "IapWriter_Finalize (writer x) = (q, w)" by fastforce
  have "writer_inv w" by (rule writer_inv_Finalize [OF f i])
  moreover from f have "config w = config (writer x) \<and> initialized w = initialized (writer x) \<and>
      writer_ops w = writer_ops (writer x) \<and> slot_prepared w = slot_prepared (writer x) \<and>
      (active w \<longrightarrow> active (writer x))"
    by (cases rule: Finalize_cases) auto
  moreover have "x' = x \<or> x' = x\<lparr>writer := w\<rparr>" using assms(2) f by (auto simp: ingest_Finalize_def split: if_splits)
  ultimately show ?thesis
    using assms(1) by (auto simp: core_inv_def slot_frame_def slot_blank_def)
qed

end

section \<open>An open pipeline\<close>

definition entry_open ::
  "'s storage_ops \<Rightarrow> ('s \<Rightarrow> memory) \<Rightarrow> ('s \<Rightarrow> u32 \<Rightarrow> bool) \<Rightarrow> ('s \<Rightarrow> bool) \<Rightarrow> u32 \<Rightarrow> 's ingest_state \<Rightarrow>
   's ingest_state UpdateIngestPipelineContextType \<Rightarrow> bool" where
  "entry_open ops smem blank sinv prog x pl \<longleftrightarrow>
     binding pl = adapter_binding \<and> pl_active pl \<noteq> 0 \<and> pl_expected pl = expected_size (writer x) \<and>
     unat (pl_received pl) \<le> unat (pl_expected pl) \<and>
     (\<exists>acc. ingest_acc ops smem blank sinv prog x acc \<and> length acc = unat (pl_received pl))"

definition image_stored ::
  "'s storage_ops \<Rightarrow> ('s \<Rightarrow> memory) \<Rightarrow> ('s \<Rightarrow> bool) \<Rightarrow> 's ingest_state \<Rightarrow> bool" where
  "image_stored ops smem sinv x \<longleftrightarrow> (\<exists>img. stored ops smem sinv (writer x) (store x) img) \<and>
     verifying smem (writer x) (store x)"

lemma adapter_vtable [simp]:
  "the (vt_begin (the (vtable adapter_binding))) = ingest_Begin"
  "the (vt_write_chunk (the (vtable adapter_binding))) = ingest_WriteChunk"
  "the (vt_finalize (the (vtable adapter_binding))) = ingest_Finalize"
  "the (vt_abort (the (vtable adapter_binding))) = ingest_Abort"
  "binding_ctx adapter_binding = True"
  by (simp_all add: adapter_binding_def IapIngestAdapter_GetVTable_def)

lemma pipeline_reset [simp]: "pl_active UpdateIngestPipeline_Reset = 0"
  by (simp add: UpdateIngestPipeline_Reset_def)

lemma closed_pipeline:
  assumes "pl_active pl = 0"
  shows "UpdateIngestPipeline_Abort pl x = (IAP_UPDATE_INGEST_E_STATE, pl, x)"
    "UpdateIngestPipeline_Finish pl x = (IAP_UPDATE_INGEST_E_STATE, pl, x)"
    "UpdateIngestPipeline_Push pl d n x = (IAP_UPDATE_INGEST_E_PARAM, pl, x)"
  using assms by (simp_all add: UpdateIngestPipeline_Abort_def UpdateIngestPipeline_Finish_def UpdateIngestPipeline_Push_def)

context storage_prog
begin

abbreviation "pl_open \<equiv> entry_open ops smem blank sinv prog"

lemma open_active: "pl_open x pl \<Longrightarrow> active (writer x)"
  by (auto simp: entry_open_def ingest_acc_def session_def)

lemma stored_not_active: "image_stored ops smem sinv x \<Longrightarrow> \<not> active (writer x)"
  by (auto simp: image_stored_def stored_def writer_inv_def)

lemma pipeline_Begin_inv:
  assumes "cinv x" "UpdateIngestRegistry_Get True reg = (IAP_UPDATE_INGEST_E_OK, Some adapter_binding)"
    "pl_active pl = 0" "UpdateIngestPipeline_Begin pl n reg x = (r, pl', x')"
  shows "cinv x' \<and> frame x x' \<and>
    (r = IAP_UPDATE_INGEST_E_OK \<and> \<not> active (writer x) \<and> pl_open x' pl' \<and> pl_expected pl' = n \<and> pl_received pl' = 0 \<or>
     r \<noteq> IAP_UPDATE_INGEST_E_OK \<and> active (writer x') = active (writer x) \<and> pl_active pl' = 0)"
proof (cases "n = 0")
  case True
  then show ?thesis using assms by (simp add: UpdateIngestPipeline_Begin_def)
next
  case False
  obtain q y where b: "ingest_Begin True n x = (q, y)" by fastforce
  have run: "(r, pl', x') = (if q \<noteq> IAP_UPDATE_INGEST_E_OK then (q, UpdateIngestPipeline_Reset, y)
      else (IAP_UPDATE_INGEST_E_OK, \<lparr>binding = adapter_binding, pl_expected = n, pl_received = 0, pl_active = 1\<rparr>, y))"
    using assms(2,4) b False by (auto simp: UpdateIngestPipeline_Begin_def split: if_splits)
  note inv = ingest_Begin_inv [OF assms(1) b]
  show ?thesis
  proof (cases "q = IAP_UPDATE_INGEST_E_OK")
    case True
    have c: "writer_inv (writer x)" "writer_ops (writer x) = ops" "sinv (store x)"
      "slot_blank blank (writer x) (store x)" "prog_size (config (writer x)) = prog"
      using assms(1) by (simp_all add: core_inv_def)
    note acc = ingest_Begin_acc [OF c b [unfolded True]]
    have na: "\<not> active (writer x)"
    proof
      assume a: "active (writer x)"
      obtain q' w s where "IapWriter_Begin (writer x) n (store x) = (q', w, s)" by (metis prod_cases3)
      moreover from this have "q' \<noteq> IAP_WRITER_E_OK" using a by (auto simp: IapWriter_Begin_def split: if_splits)
      ultimately show False using b True by (auto simp: ingest_Begin_def clear_pending_def MapWriterStatus_ok split: if_splits)
    qed
    have "pl_open y \<lparr>binding = adapter_binding, pl_expected = n, pl_received = 0, pl_active = 1\<rparr>"
      using acc by (auto simp: entry_open_def intro!: exI [of _ "[]"])
    then show ?thesis using run True inv na by simp
  next
    case False
    then show ?thesis using run inv by simp
  qed
qed

lemma pipeline_Push_inv:
  assumes "cinv x" "pl_open x pl" "length bs = unat len"
    "UpdateIngestPipeline_Push pl (Some bs) len x = (r, pl', x')"
  shows "cinv x' \<and> frame x x' \<and>
    (r = IAP_UPDATE_INGEST_E_OK \<and> pl_open x' pl' \<and> pl_expected pl' = pl_expected pl \<and>
       pl_received pl' = pl_received pl + len \<or>
     r \<noteq> IAP_UPDATE_INGEST_E_OK \<and> pl' = pl)"
proof -
  have o: "binding pl = adapter_binding" "pl_active pl \<noteq> 0" "pl_expected pl = expected_size (writer x)"
    using assms(2) by (simp_all add: entry_open_def)
  obtain acc where acc: "ingest_acc ops smem blank sinv prog x acc" "length acc = unat (pl_received pl)"
    using assms(2) by (auto simp: entry_open_def)
  consider "r \<noteq> IAP_UPDATE_INGEST_E_OK" "pl' = pl" "x' = x"
    | (run) "len \<le> pl_expected pl - pl_received pl" "pl_received pl \<le> pl_expected pl"
       "ingest_WriteChunk True (pl_received pl) (Some bs) len x = (r, x')"
       "pl' = (if r = IAP_UPDATE_INGEST_E_OK then pl\<lparr>pl_received := pl_received pl + len\<rparr> else pl)"
  proof (cases "len = 0 \<or> len > UINT32_MAX \<or> pl_received pl > pl_expected pl \<or> len > pl_expected pl - pl_received pl")
    case True
    then have "r \<noteq> IAP_UPDATE_INGEST_E_OK \<and> pl' = pl \<and> x' = x"
      using assms(4) o(2) by (simp add: UpdateIngestPipeline_Push_def split: if_splits)
    then show thesis by (intro that(1)) simp_all
  next
    case False
    obtain q y where w: "ingest_WriteChunk True (pl_received pl) (Some bs) len x = (q, y)" by fastforce
    have "(r, pl', x') = (if q \<noteq> IAP_UPDATE_INGEST_E_OK then (q, pl, y)
        else (IAP_UPDATE_INGEST_E_OK, pl\<lparr>pl_received := pl_received pl + len\<rparr>, y))"
      using assms(4) o(1,2) False w by (simp add: UpdateIngestPipeline_Push_def)
    then show thesis using False w by (intro that(2)) (auto simp: not_less split: if_splits)
  qed
  then show ?thesis
  proof cases
    case run
    have le: "unat (pl_received pl) + unat len \<le> unat (pl_expected pl)"
      using run(1,2) by (simp add: word_le_nat_alt unat_sub_small)
    then have u: "unat (pl_received pl + len) = unat (pl_received pl) + unat len"
      using unat_u32_bound [of "pl_expected pl"] by (subst unat_add_small) simp_all
    note inv = WriteChunk_inv [OF assms(1,3) run(3)]
    show ?thesis
    proof (cases "r = IAP_UPDATE_INGEST_E_OK")
      case True
      note a = ingest_WriteChunk_acc [OF acc(1) assms(3) run(3) [unfolded True]]
      have "pl_open x' (pl\<lparr>pl_received := pl_received pl + len\<rparr>)"
        unfolding entry_open_def using o a u le acc(2) assms(3) by (auto simp: same_session_def intro!: exI [of _ "acc @ bs"])
      then show ?thesis using inv run(4) True by simp
    next
      case False
      then show ?thesis using inv run(4) by simp
    qed
  qed (use assms(1) in simp_all)
qed

lemma pipeline_Abort_inv:
  assumes "cinv x" "binding pl = adapter_binding" "pl_active pl \<noteq> 0" "UpdateIngestPipeline_Abort pl x = (r, pl', x')"
  shows "cinv x' \<and> frame x x' \<and> \<not> active (writer x') \<and> pl_active pl' = 0"
proof -
  obtain q y where a: "ingest_Abort True x = (q, y)" by fastforce
  have "pl' = UpdateIngestPipeline_Reset" "x' = y" using assms(2-4) a by (simp_all add: UpdateIngestPipeline_Abort_def)
  then show ?thesis using ingest_Abort_inv [OF assms(1) a] by simp
qed

text \<open>A pipeline that received everything can always be finished.\<close>

lemma open_complete:
  assumes "cinv x" "pl_open x pl" "pl_received pl = pl_expected pl" "ingest_Finalize True x = (r, x')"
  shows "r = IAP_UPDATE_INGEST_E_OK \<and> \<not> active (writer x') \<and> image_stored ops smem sinv x'"
proof -
  obtain acc img where acc: "ingest_acc ops smem blank sinv prog x acc" "length acc = unat (pl_received pl)"
    "acc = img @ take (unat (pending_len (ingest x))) (pending (ingest x))"
    "session ops smem blank sinv (writer x) (store x) img"
    using assms(2) by (auto simp: entry_open_def ingest_acc_def)
  have p: "unat (pending_len (ingest x)) < unat prog" "length (pending (ingest x)) = 64" "writer_set (ingest x)"
    "prog_size (config (writer x)) = prog"
    using acc(1) by (simp_all add: ingest_acc_def)
  have w: "initialized (writer x)" "active (writer x)" "\<not> finalized (writer x)" "length img = unat (received_size (writer x))"
    "unat prog dvd unat (received_size (writer x))" "unat prog dvd unat (expected_size (writer x))"
    using acc(4) p(4) by (auto simp: session_def writer_inv_def)
  have sum: "unat (received_size (writer x)) + unat (pending_len (ingest x)) = unat (expected_size (writer x))"
    using acc(2,3) assms(2,3) w(4) p prog_small by (simp add: entry_open_def)
  then have "unat prog dvd unat (pending_len (ingest x))" using w(5,6) by (metis dvd_add_right_iff)
  then have z: "pending_len (ingest x) = 0" using p(1) by (metis nat_dvd_not_less neq0_conv unat_eq_0)
  then have eq: "received_size (writer x) = expected_size (writer x)" using sum by (simp add: word_unat_eq_iff)
  obtain q y where f: "IapWriter_Finalize (writer x) = (q, y)" by fastforce
  then have q: "q = IAP_WRITER_E_OK" "\<not> active y" using w eq by (auto simp: IapWriter_Finalize_def)
  note st = Finalize_stored [OF acc(4) f [unfolded q(1)]]
  have "r = IAP_UPDATE_INGEST_E_OK" "x' = x\<lparr>writer := y\<rparr>"
    using assms(4) f q(1) z p(3) by (simp_all add: ingest_Finalize_def)
  then show ?thesis using st q by (auto simp: image_stored_def)
qed

lemma pipeline_Finish_inv:
  assumes "cinv x" "pl_open x pl" "UpdateIngestPipeline_Finish pl x = (r, pl', x')"
  shows "cinv x' \<and> frame x x' \<and> \<not> active (writer x') \<and> pl_active pl' = 0 \<and>
    (if pl_received pl = pl_expected pl then r = IAP_UPDATE_INGEST_E_OK \<and> image_stored ops smem sinv x'
     else r \<noteq> IAP_UPDATE_INGEST_E_OK)"
proof -
  have o: "binding pl = adapter_binding" "pl_active pl \<noteq> 0" using assms(2) by (simp_all add: entry_open_def)
  show ?thesis
  proof (cases "pl_received pl = pl_expected pl")
    case True
    obtain q y where f: "ingest_Finalize True x = (q, y)" by fastforce
    then have "pl' = UpdateIngestPipeline_Reset" "x' = y" "r = q"
      using assms(3) o True by (simp_all add: UpdateIngestPipeline_Finish_def)
    then show ?thesis using ingest_Finalize_inv [OF assms(1) f] open_complete [OF assms(1,2) True f] True by simp
  next
    case False
    obtain q y where a: "ingest_Abort True x = (q, y)" by fastforce
    then have "pl' = UpdateIngestPipeline_Reset" "x' = y" "r = IAP_UPDATE_INGEST_E_STATE"
      using assms(3) o False by (simp_all add: UpdateIngestPipeline_Finish_def)
    then show ?thesis using ingest_Abort_inv [OF assms(1) a] False by simp
  qed
qed

end

end
