(* ===== verification/WebUpdate.thy ===== *)
theory WebUpdate
  imports UpdateInvariant
begin

text \<open>
  The life of the update service behind the web server: any interleaving of POST callbacks on any
  connections, session resets, slot preparations and verification polls.  \<open>http_event\<close> is one such
  event, \<open>web_reach\<close> the states they lead to.  The lemmas show that every event keeps \<open>web_inv\<close>; the
  properties say what holds in every reachable state, what a complete upload leaves behind, and how
  the service recovers.
\<close>

section \<open>The invariant\<close>

definition open_at :: "'s httpd_state \<Rightarrow> nat \<Rightarrow> bool" where
  "open_at st i \<longleftrightarrow> pl_active (iap_pipeline (post_at st i)) \<noteq> 0"

definition entry_ok ::
  "'s storage_ops \<Rightarrow> ('s \<Rightarrow> memory) \<Rightarrow> ('s \<Rightarrow> u32 \<Rightarrow> bool) \<Rightarrow> ('s \<Rightarrow> bool) \<Rightarrow> u32 \<Rightarrow> 's httpd_state \<Rightarrow> nat \<Rightarrow> bool" where
  "entry_ok ops smem blank sinv prog st i \<longleftrightarrow>
     conn_at st i \<noteq> 0 \<and> post_mode (post_at st i) = HTTPD_POST_MODE_IAP_BIN \<and> iap_failed (post_at st i) = 0 \<and>
     binding (iap_pipeline (post_at st i)) = adapter_binding \<and> pl_active (iap_pipeline (post_at st i)) \<noteq> 0 \<and>
     active (writer (core (iap st))) \<and>
     (conn_at st i = current_connection st \<longrightarrow>
        entry_open ops smem blank sinv prog (core (iap st)) (iap_pipeline (post_at st i)) \<and>
        pl_received (iap_pipeline (post_at st i)) = received (post_at st i) \<and>
        pl_expected (iap_pipeline (post_at st i)) = content_len (post_at st i))"

text \<open>The writer's session is open exactly when one entry's pipeline is.  The bytes pushed are accounted
  for while its connection is the current one: the begin of another upload clears the adapter's
  pending bytes even when it is refused.\<close>

definition posts_inv ::
  "'s storage_ops \<Rightarrow> ('s \<Rightarrow> memory) \<Rightarrow> ('s \<Rightarrow> u32 \<Rightarrow> bool) \<Rightarrow> ('s \<Rightarrow> bool) \<Rightarrow> u32 \<Rightarrow> 's httpd_state \<Rightarrow> bool" where
  "posts_inv ops smem blank sinv prog st \<longleftrightarrow>
     (\<forall>i<length (conn_map st). open_at st i \<longrightarrow> entry_ok ops smem blank sinv prog st i) \<and>
     (\<forall>i<length (conn_map st). \<forall>j<length (conn_map st). open_at st i \<longrightarrow> open_at st j \<longrightarrow> i = j) \<and>
     (active (writer (core (iap st))) \<longrightarrow> (\<exists>i<length (conn_map st). open_at st i))"

definition service_inv ::
  "'s storage_ops \<Rightarrow> ('s \<Rightarrow> memory) \<Rightarrow> ('s \<Rightarrow> u32 \<Rightarrow> bool) \<Rightarrow> ('s \<Rightarrow> bool) \<Rightarrow> u32 \<Rightarrow> 's iap_state \<Rightarrow> bool" where
  "service_inv ops smem blank sinv prog v \<longleftrightarrow>
     core_inv ops blank sinv prog (core v) \<and>
     UpdateIngestRegistry_Get True (registry v) = (IAP_UPDATE_INGEST_E_OK, Some adapter_binding) \<and>
     (vr_state (IapVerifyRuntime v) \<in> {IAP_VERIFY_STATE_PENDING, IAP_VERIFY_STATE_VERIFYING, IAP_VERIFY_STATE_VERIFIED} \<longrightarrow>
        image_stored ops smem sinv (core v))"

definition web_inv ::
  "'s storage_ops \<Rightarrow> ('s \<Rightarrow> memory) \<Rightarrow> ('s \<Rightarrow> u32 \<Rightarrow> bool) \<Rightarrow> ('s \<Rightarrow> bool) \<Rightarrow> u32 \<Rightarrow> 's httpd_state \<Rightarrow> bool" where
  "web_inv ops smem blank sinv prog st \<longleftrightarrow>
     service_inv ops smem blank sinv prog (iap st) \<and> posts_inv ops smem blank sinv prog st"

lemma web_inv_cong:
  assumes "conn_map st' = conn_map st" "iap st' = iap st" "current_connection st' = current_connection st"
  shows "web_inv ops smem blank sinv prog st' = web_inv ops smem blank sinv prog st"
  using assms by (simp add: web_inv_def posts_inv_def entry_ok_def open_at_def post_at_def conn_at_def)

lemma web_inv_fields [simp]:
  "web_inv ops smem blank sinv prog (st\<lparr>valid_connection := c\<rparr>) = web_inv ops smem blank sinv prog st"
  "web_inv ops smem blank sinv prog (st\<lparr>settings := s\<rparr>) = web_inv ops smem blank sinv prog st"
  "web_inv ops smem blank sinv prog (HttpdPost_SetIapUploadStatus u r t st) = web_inv ops smem blank sinv prog st"
  "web_inv ops smem blank sinv prog (HttpdPost_SetIapUploadError e w st) = web_inv ops smem blank sinv prog st"
  by (rule web_inv_cong; simp add: HttpdPost_SetIapUploadStatus_def HttpdPost_SetIapUploadError_def)+

lemma unat_ucast_u16: "unat (ucast w :: u32) = unat w" for w :: u16
  using unsigned_less [of w, where ?'a = nat] by (simp add: unsigned_ucast_eq take_bit_nat_eq_self)

lemma conn_at_fields [simp]:
  "conn_at (st\<lparr>settings := s\<rparr>) j = conn_at st j" "conn_at (st\<lparr>iap := v\<rparr>) j = conn_at st j"
  "conn_at (st\<lparr>current_connection := c\<rparr>) j = conn_at st j" "conn_at (st\<lparr>valid_connection := c\<rparr>) j = conn_at st j"
  "conn_at (HttpdPost_SetIapUploadStatus u r t st) j = conn_at st j"
  "conn_at (HttpdPost_SetIapUploadError e w st) j = conn_at st j"
  by (simp_all add: conn_at_def)

lemma current_fields [simp]:
  "current_connection (HttpdPost_SetIapUploadStatus u r t st) = current_connection st"
  "current_connection (HttpdPost_SetIapUploadError e w st) = current_connection st"
  by (simp_all add: HttpdPost_SetIapUploadStatus_def HttpdPost_SetIapUploadError_def)

text \<open>The current connection changes to none, or to one that has no open entry.\<close>

lemma web_inv_current:
  assumes "web_inv ops smem blank sinv prog st"
    "\<And>i. i < length (conn_map st) \<Longrightarrow> open_at st i \<Longrightarrow> conn_at st i \<noteq> c"
  shows "web_inv ops smem blank sinv prog (st\<lparr>current_connection := c\<rparr>)"
  using assms unfolding web_inv_def posts_inv_def entry_ok_def open_at_def by simp

lemma web_inv_no_current [simp]: "web_inv ops smem blank sinv prog st \<Longrightarrow> web_inv ops smem blank sinv prog (st\<lparr>current_connection := 0\<rparr>)"
  by (rule web_inv_current) (auto simp: web_inv_def posts_inv_def entry_ok_def)

section \<open>One entry at a time\<close>

context storage_prog
begin

abbreviation "winv \<equiv> web_inv ops smem blank sinv prog"

lemma closed_others:
  assumes "posts_inv ops smem blank sinv prog st" "i < length (conn_map st)" "j < length (conn_map st)"
    "open_at st i" "j \<noteq> i"
  shows "\<not> open_at st j"
  using assms by (auto simp: posts_inv_def)

lemma inactive_closed:
  assumes "posts_inv ops smem blank sinv prog st" "\<not> active (writer (core (iap st)))" "j < length (conn_map st)"
  shows "\<not> open_at st j"
  using assms by (auto simp: posts_inv_def entry_ok_def)

text \<open>An operation on entry \<open>i\<close>: the other entries stay, and if the writer or the storage changed then
  none of them was open.\<close>

lemma posts_inv_step:
  assumes "posts_inv ops smem blank sinv prog st" "i < length (conn_map st)"
    and "length (conn_map st') = length (conn_map st)"
    and "\<And>j. j < length (conn_map st) \<Longrightarrow> j \<noteq> i \<Longrightarrow> post_at st' j = post_at st j \<and> conn_at st' j = conn_at st j"
    and "open_at st' i \<Longrightarrow> entry_ok ops smem blank sinv prog st' i"
    and "core (iap st') = core (iap st) \<and> (open_at st' i \<longleftrightarrow> open_at st i) \<and>
        current_connection st' = current_connection st \<or>
      (open_at st i \<or> \<not> active (writer (core (iap st)))) \<and>
      (active (writer (core (iap st'))) \<longrightarrow> open_at st' i)"
  shows "posts_inv ops smem blank sinv prog st'"
  using assms(6)
proof
  assume same: "core (iap st') = core (iap st) \<and> (open_at st' i \<longleftrightarrow> open_at st i) \<and>
    current_connection st' = current_connection st"
  have o: "open_at st' j = open_at st j" if "j < length (conn_map st)" for j
    using same assms(4) [OF that] by (cases "j = i") (simp_all add: open_at_def)
  have e: "entry_ok ops smem blank sinv prog st' j" if "j < length (conn_map st)" "open_at st' j" for j
  proof (cases "j = i")
    case False
    then have "entry_ok ops smem blank sinv prog st j" using assms(1) that o [OF that(1)] by (simp add: posts_inv_def)
    then show ?thesis using assms(4) [OF that(1) False] same by (simp add: entry_ok_def)
  qed (use that assms(5) in simp)
  show ?thesis using assms(1,3) o e same by (simp add: posts_inv_def) blast
next
  assume a: "(open_at st i \<or> \<not> active (writer (core (iap st)))) \<and> (active (writer (core (iap st'))) \<longrightarrow> open_at st' i)"
  have "\<not> open_at st j" if "j < length (conn_map st)" "j \<noteq> i" for j
    using a closed_others [OF assms(1,2) that(1) _ that(2)] inactive_closed [OF assms(1) _ that(1)] by blast
  then have "\<not> open_at st' j" if "j < length (conn_map st)" "j \<noteq> i" for j
    using assms(4) [OF that] that by (simp add: open_at_def)
  then show ?thesis using a assms(2,3,5) unfolding posts_inv_def by metis
qed

lemma winv_D:
  assumes "winv st"
  shows "cinv (core (iap st))" "posts_inv ops smem blank sinv prog st" "service_inv ops smem blank sinv prog (iap st)"
    "UpdateIngestRegistry_Get True (registry (iap st)) = (IAP_UPDATE_INGEST_E_OK, Some adapter_binding)"
  using assms by (simp_all add: web_inv_def service_inv_def)

lemma entry_okD: "winv st \<Longrightarrow> i < length (conn_map st) \<Longrightarrow> open_at st i \<Longrightarrow> entry_ok ops smem blank sinv prog st i"
  by (simp add: web_inv_def posts_inv_def)

lemma open_writer_active:
  assumes "winv st" "i < length (conn_map st)" "open_at st i"
  shows "active (writer (core (iap st)))"
  using entry_okD [OF assms] by (simp add: entry_ok_def)

lemma active_no_verdict:
  assumes "service_inv ops smem blank sinv prog v" "active (writer (core v))" "cinv x"
  shows "service_inv ops smem blank sinv prog (v\<lparr>core := x\<rparr>)"
  using assms stored_not_active by (auto simp: service_inv_def)

text \<open>An operation on entry \<open>i\<close> that keeps it open or closes it.\<close>

lemma winv_entry:
  assumes "winv st" "i < length (conn_map st)" "length (conn_map st') = length (conn_map st)"
    and "\<And>j. j < length (conn_map st) \<Longrightarrow> j \<noteq> i \<Longrightarrow> post_at st' j = post_at st j \<and> conn_at st' j = conn_at st j"
    and "iap st' = (iap st)\<lparr>core := x\<rparr>" "cinv x" "current_connection st' = current_connection st"
    and "open_at st i \<and> entry_ok ops smem blank sinv prog st' i \<or>
      \<not> open_at st' i \<and> (open_at st i \<and> \<not> active (writer x) \<or> \<not> open_at st i \<and> x = core (iap st))"
  shows "winv st'"
proof -
  note d = winv_D [OF assms(1)]
  have ok: "open_at st' i \<Longrightarrow> entry_ok ops smem blank sinv prog st' i" using assms(8) by blast
  have entry: "entry_ok ops smem blank sinv prog st' i \<Longrightarrow> open_at st' i"
    by (auto simp: entry_ok_def open_at_def)
  have "posts_inv ops smem blank sinv prog st'"
    using assms(7,8) entry by (intro posts_inv_step [OF d(2) assms(2,3,4) ok]) (auto simp: assms(5))
  moreover have "service_inv ops smem blank sinv prog (iap st')"
  proof (cases "open_at st i")
    case True
    then show ?thesis
      using active_no_verdict [OF d(3) open_writer_active [OF assms(1,2)] assms(6)] by (simp add: assms(5))
  next
    case False
    then have "iap st' = iap st" using assms(5,8) by simp
    then show ?thesis using d(3) by simp
  qed
  ultimately show ?thesis by (simp add: web_inv_def)
qed

lemma open_at_set_post:
  "i < length (conn_map st) \<Longrightarrow> open_at (set_post i p st) j = (if j = i then pl_active (iap_pipeline p) \<noteq> 0 else open_at st j)"
  by (simp add: open_at_def)

text \<open>Aborting entry \<open>i\<close>.\<close>

lemma abort_step:
  assumes "winv st" "i < length (conn_map st)" "run_pipeline i UpdateIngestPipeline_Abort st = (r, st')"
  shows "winv st' \<and> \<not> open_at st' i \<and> frame (core (iap st)) (core (iap st')) \<and>
    post_mode (post_at st' i) = post_mode (post_at st i) \<and>
    (open_at st i \<longrightarrow> \<not> active (writer (core (iap st')))) \<and> (\<not> open_at st i \<longrightarrow> st' = st)"
proof -
  let ?pl = "iap_pipeline (post_at st i)" and ?x = "core (iap st)"
  obtain q pl x where a: "UpdateIngestPipeline_Abort ?pl ?x = (q, pl, x)" by (metis prod_cases3)
  have st': "st' = set_post i ((post_at st i)\<lparr>iap_pipeline := pl\<rparr>) (st\<lparr>iap := (iap st)\<lparr>core := x\<rparr>\<rparr>)"
    using a assms(3) by (simp add: run_pipeline_def)
  show ?thesis
  proof (cases "open_at st i")
    case True
    then have o: "binding ?pl = adapter_binding" "pl_active ?pl \<noteq> 0"
      using entry_okD [OF assms(1,2)] by (simp_all add: entry_ok_def)
    note inv = pipeline_Abort_inv [OF winv_D(1) [OF assms(1)] o a]
    have "winv st'"
      using inv True assms(2) by (intro winv_entry [OF assms(1,2), of st' x]) (simp_all add: st' open_at_set_post conn_at_def)
    then show ?thesis using inv True assms(2) by (simp add: st' open_at_set_post)
  next
    case False
    then have "pl_active ?pl = 0" by (simp add: open_at_def)
    from closed_pipeline(1) [OF this, of ?x] a have "pl = ?pl" "x = ?x" by simp_all
    moreover have "(iap st)\<lparr>core := core (iap st)\<rparr> = iap st" "st\<lparr>iap := iap st\<rparr> = st" by simp_all
    ultimately have "st' = st" by (simp add: st' set_post_same)
    then show ?thesis using assms(1) False by simp
  qed
qed

lemma receive_iap_inv:
  assumes "winv st" "i < length (conn_map st)" and cur: "conn_at st i = current_connection st"
  shows "winv (receive_iap i q st) \<and> frame (core (iap st)) (core (iap (receive_iap i q st)))"
proof (cases "iap_failed (post_at st i) \<noteq> 0 \<or> \<not> received (post_at st i) < content_len (post_at st i) \<or>
    content_len (post_at st i) - received (post_at st i) = 0")
  case True
  then have "receive_iap i q st = st" by (auto simp: receive_iap_def)
  then show ?thesis using assms(1) by simp
next
  case False
  let ?p = "post_at st i" and ?x = "core (iap st)"
  let ?rem = "content_len ?p - received ?p"
  define m where "m = (if ucast (of_nat (length q) :: u16) > ?rem then ucast ?rem else (of_nat (length q) :: u16))"
  have m: "unat m \<le> length q" "unat (ucast m :: u32) = unat m"
  proof -
    have l: "unat (of_nat (length q) :: u16) \<le> length q" by (simp add: unat_of_nat take_bit_eq_mod)
    show "unat m \<le> length q"
    proof (cases "ucast (of_nat (length q) :: u16) > ?rem")
      case True
      then have "unat ?rem < unat (of_nat (length q) :: u16)" by (simp only: word_less_nat_alt unat_ucast_u16)
      moreover have "unat (ucast ?rem :: u16) \<le> unat ?rem" by (simp add: unsigned_ucast_eq take_bit_nat_less_eq_self)
      ultimately show ?thesis using True l by (simp add: m_def)
    qed (use l in \<open>simp add: m_def\<close>)
    show "unat (ucast m :: u32) = unat m" by (rule unat_ucast_u16)
  qed
  then have len: "length (take (unat m) q) = unat (ucast m :: u32)" by simp
  obtain r pl x where push: "UpdateIngestPipeline_Push (iap_pipeline ?p) (Some (take (unat m) q)) (ucast m) ?x = (r, pl, x)"
    by (metis prod_cases3)
  define st1 where "st1 = set_post i (?p\<lparr>iap_pipeline := pl\<rparr>) (st\<lparr>iap := (iap st)\<lparr>core := x\<rparr>\<rparr>)"
  have run: "run_pipeline i (\<lambda>pl x. UpdateIngestPipeline_Push pl (Some (take (unat m) q)) (ucast m) x) st = (r, st1)"
    using push by (simp add: run_pipeline_def st1_def)
  have p1: "post_at st1 i = ?p\<lparr>iap_pipeline := pl\<rparr>" "i < length (conn_map st1)" using assms(2) by (simp_all add: st1_def)
  have pushed: "open_at st i \<Longrightarrow> cinv x \<and> frame ?x x \<and>
      (r = IAP_UPDATE_INGEST_E_OK \<and> pl_open x pl \<and> pl_expected pl = pl_expected (iap_pipeline ?p) \<and>
         pl_received pl = pl_received (iap_pipeline ?p) + ucast m \<or>
       r \<noteq> IAP_UPDATE_INGEST_E_OK \<and> pl = iap_pipeline ?p)"
    using entry_okD [OF assms(1,2)] cur pipeline_Push_inv [OF winv_D(1) [OF assms(1)] _ len push] by (simp add: entry_ok_def)
  have closed: "\<not> open_at st i \<Longrightarrow> r = IAP_UPDATE_INGEST_E_PARAM \<and> pl = iap_pipeline ?p \<and> x = ?x"
    using push closed_pipeline(3) [of "iap_pipeline ?p"] by (simp add: open_at_def)
  show ?thesis
  proof (cases "r = IAP_UPDATE_INGEST_E_OK")
    case True
    then have o: "open_at st i" using closed by auto
    let ?st = "HttpdPost_SetIapUploadStatus HTTPD_IAP_UPLOAD_STATE_IN_PROGRESS (received ?p + ucast m) (content_len ?p)
      (set_post i ((?p\<lparr>iap_pipeline := pl\<rparr>)\<lparr>received := received ?p + ucast m\<rparr>) st1)"
    have recv: "receive_iap i q st = ?st"
      using run p1 False True by (simp add: receive_iap_def m_def [symmetric]) (simp add: Let_def)
    have ok: "entry_ok ops smem blank sinv prog st i" using entry_okD [OF assms(1,2) o] .
    have po: "pl_open x pl" using pushed [OF o] True by blast
    have act: "active (writer x)" "binding pl = adapter_binding" "pl_active pl \<noteq> 0"
      using open_active [OF po] po by (simp_all add: entry_open_def)
    have "entry_ok ops smem blank sinv prog ?st i"
      using ok pushed [OF o] act po True p1(2) assms(2) cur by (simp add: entry_ok_def st1_def)
    then have "winv ?st"
      using o pushed [OF o] assms(2)
      by (intro winv_entry [OF assms(1,2), of ?st x]) (simp_all add: st1_def)
    then show ?thesis using pushed [OF o] by (simp add: recv st1_def)
  next
    case err: False
    obtain r2 pl2 x2 where ab: "UpdateIngestPipeline_Abort pl x = (r2, pl2, x2)" by (metis prod_cases3)
    let ?p2 = "?p\<lparr>iap_failed := 1, iap_fail_status := r, iap_pipeline := pl2\<rparr>"
    let ?st = "set_post i ?p2 ((HttpdPost_SetIapUploadError HTTPD_IAP_UPLOAD_ERROR_PUSH r
      (HttpdPost_SetIapUploadStatus HTTPD_IAP_UPLOAD_STATE_ERROR (received ?p) (content_len ?p)
        st))\<lparr>iap := (iap st)\<lparr>core := x2\<rparr>\<rparr>)"
    have recv: "receive_iap i q st = ?st"
      using run p1 False err ab
      by (simp add: receive_iap_def m_def [symmetric])
        (simp add: Let_def run_pipeline_def st1_def set_post_def HttpdPost_SetIapUploadError_def
          HttpdPost_SetIapUploadStatus_def post_at_def assms(2))
    have x2: "cinv x2 \<and> frame ?x x2 \<and> pl_active pl2 = 0 \<and>
        (open_at st i \<and> \<not> active (writer x2) \<or> \<not> open_at st i \<and> x2 = ?x)"
    proof (cases "open_at st i")
      case True
      have "binding pl = adapter_binding" "pl_active pl \<noteq> 0"
        using pushed [OF True] err entry_okD [OF assms(1,2) True] by (simp_all add: entry_ok_def)
      from pipeline_Abort_inv [OF conjunct1 [OF pushed [OF True]] this ab] pushed [OF True] True slot_frame_trans
      show ?thesis by blast
    next
      case False
      then have "pl_active pl = 0" using closed by (simp add: open_at_def)
      from closed_pipeline(1) [OF this, of x] ab closed [OF False] \<open>pl_active pl = 0\<close> False winv_D(1) [OF assms(1)]
      show ?thesis by simp
    qed
    then have "winv ?st"
      using assms(2) by (intro winv_entry [OF assms(1,2), of ?st x2]) (simp_all add: open_at_set_post)
    then show ?thesis using x2 by (simp add: recv)
  qed
qed

lemma form_closed:
  assumes "winv st" "i < length (conn_map st)" "post_mode (post_at st i) \<noteq> HTTPD_POST_MODE_IAP_BIN"
  shows "\<not> open_at st i"
  using entry_okD [OF assms(1,2)] assms(3) by (auto simp: entry_ok_def)

text \<open>Changing a closed entry to another closed one.\<close>

lemma winv_closed_entry:
  assumes "winv st" "i < length (conn_map st)" "\<not> open_at st i" "length (conn_map st') = length (conn_map st)"
    "\<And>j. j < length (conn_map st) \<Longrightarrow> j \<noteq> i \<Longrightarrow> post_at st' j = post_at st j \<and> conn_at st' j = conn_at st j"
    "iap st' = iap st" "\<not> open_at st' i" "current_connection st' = current_connection st"
  shows "winv st'"
  using assms winv_D(1) by (intro winv_entry [OF assms(1,2,4,5), of "core (iap st)"]) simp_all

lemma receive_pbuf_inv:
  assumes "winv st" "i < length (conn_map st)" and cur: "conn_at st i = current_connection st"
  shows "winv (receive_pbuf i q st) \<and> frame (core (iap st)) (core (iap (receive_pbuf i q st)))"
proof (cases "post_mode (post_at st i) = HTTPD_POST_MODE_FORM_KV")
  case True
  then have c: "\<not> open_at st i"
    using form_closed [OF assms(1,2)] by (simp add: HTTPD_POST_MODE_FORM_KV_def HTTPD_POST_MODE_IAP_BIN_def)
  obtain p' s' where f: "foldl consume_byte (post_at st i, settings st) q = (p', s')" by fastforce
  have "iap_pipeline (fst (consume_byte (p, s) c)) = iap_pipeline p" for p :: "'s ingest_state HttpdPostStateType" and s c
    by (simp add: consume_byte_def Let_def)
  then have "iap_pipeline (fst (foldl consume_byte (p, s) q)) = iap_pipeline p" for p :: "'s ingest_state HttpdPostStateType" and s q
  proof (induction q arbitrary: p s)
    case (Cons b q)
    then show ?case by (metis foldl_Cons prod.collapse)
  qed simp
  then have p': "iap_pipeline p' = iap_pipeline (post_at st i)" using f by (metis fst_conv)
  let ?st = "set_post i (p'\<lparr>received := received p' + of_nat (length q)\<rparr>) (st\<lparr>settings := s'\<rparr>)"
  have recv: "receive_pbuf i q st = ?st" using True f by (simp add: receive_pbuf_def receive_form_def)
  have "winv ?st"
    using c p' assms(2) by (intro winv_closed_entry [OF assms(1,2) c]) (simp_all add: open_at_def)
  then show ?thesis by (simp add: recv)
next
  case False
  then show ?thesis using receive_iap_inv [OF assms(1,2) cur] by (simp add: receive_pbuf_def)
qed

lemma receive_inv:
  assumes "winv st" "httpd_post_receive_data c bufs st = (e, st')"
  shows "winv st' \<and> frame (core (iap st)) (core (iap st'))"
proof (cases "current_connection st = c \<and> map_lookup c st \<noteq> None")
  case True
  then obtain i where i: "map_lookup c st = Some i" by blast
  have *: "winv (foldl (\<lambda>st q. receive_pbuf i q st) st qs) \<and>
      frame (core (iap st)) (core (iap (foldl (\<lambda>st q. receive_pbuf i q st) st qs)))"
    if "winv st" "i < length (conn_map st)" "conn_at st i = current_connection st" for st qs
    using that
  proof (induction qs arbitrary: st)
    case (Cons q qs)
    note r = receive_pbuf_inv [OF Cons.prems, of q]
    have "conn_at (receive_pbuf i q st) i = current_connection (receive_pbuf i q st)"
      using same_conns_receive [of st i q] Cons.prems(3) same_conns_at by (metis same_conns_def)
    from Cons.IH [OF conjunct1 [OF r] _ this] Cons.prems(2) same_conns_length [OF same_conns_receive, of i q st] r slot_frame_trans
    show ?case by (metis foldl_Cons)
  qed simp
  have "st' = foldl (\<lambda>st q. receive_pbuf i q st) st bufs" using assms(2) True i by (simp add: httpd_post_receive_data_def)
  then show ?thesis using * [OF assms(1)] map_lookup_SomeD [OF i] True by simp
next
  case False
  then have "st' = st" using assms(2) by (auto simp: httpd_post_receive_data_def split: if_splits option.splits)
  then show ?thesis using assms(1) by simp
qed

lemma run_pipeline_result:
  "run_pipeline i f st = (fst (run_pipeline i f st), snd (run_pipeline i f st))"
  by simp

lemma finish_post_inv:
  assumes "winv st" "i < length (conn_map st)" and cur: "conn_at st i = current_connection st"
  shows "winv (finish_post i st) \<and> frame (core (iap st)) (core (iap (finish_post i st))) \<and> \<not> open_at (finish_post i st) i"
proof -
  let ?p = "post_at st i"
  consider (form) "post_mode ?p = HTTPD_POST_MODE_FORM_KV"
    | (failed) "post_mode ?p \<noteq> HTTPD_POST_MODE_FORM_KV" "iap_failed ?p \<noteq> 0"
    | (short) "post_mode ?p \<noteq> HTTPD_POST_MODE_FORM_KV" "iap_failed ?p = 0" "received ?p \<noteq> content_len ?p"
    | (full) "post_mode ?p \<noteq> HTTPD_POST_MODE_FORM_KV" "iap_failed ?p = 0" "received ?p = content_len ?p" by blast
  then show ?thesis
  proof cases
    case form
    then have c: "\<not> open_at st i"
      using form_closed [OF assms(1,2)] by (simp add: HTTPD_POST_MODE_FORM_KV_def HTTPD_POST_MODE_IAP_BIN_def)
    have fin: "finish_post i st = (if phase ?p = 1 \<and> vlen ?p \<noteq> 0 then
        set_post i (?p\<lparr>val := (val ?p)[unat (vlen ?p) := 0]\<rparr>)
          (st\<lparr>settings := httpd_post_cb (key ?p) ((val ?p)[unat (vlen ?p) := 0]) (settings st)\<rparr>) else st)"
      using form by (simp add: finish_post_def Let_def)
    have o: "\<not> open_at (finish_post i st) i" using c assms(2) by (simp add: fin open_at_def)
    have "winv (finish_post i st)"
      using assms(2) by (intro winv_closed_entry [OF assms(1,2) c _ _ _ o]) (simp_all add: fin)
    then show ?thesis using o by (simp add: fin)
  next
    case failed
    then have "\<not> open_at st i" using entry_okD [OF assms(1,2)] by (auto simp: entry_ok_def)
    then show ?thesis using assms(1) failed
      by (simp add: finish_post_def Let_def open_at_def)
  next
    case short
    note ab = abort_step [OF assms(1,2) run_pipeline_result]
    have "finish_post i st = HttpdPost_SetIapUploadError HTTPD_IAP_UPLOAD_ERROR_INCOMPLETE IAP_UPDATE_INGEST_E_STATE
        (HttpdPost_SetIapUploadStatus HTTPD_IAP_UPLOAD_STATE_ERROR (received ?p) (content_len ?p)
          (snd (run_pipeline i UpdateIngestPipeline_Abort st)))"
      using short by (simp add: finish_post_def Let_def)
    then show ?thesis using ab by (simp add: open_at_def)
  next
    case full
    obtain r pl x where f: "UpdateIngestPipeline_Finish (iap_pipeline ?p) (core (iap st)) = (r, pl, x)"
      by (metis prod_cases3)
    let ?st = "set_post i (?p\<lparr>iap_pipeline := pl\<rparr>) (st\<lparr>iap := (iap st)\<lparr>core := x\<rparr>\<rparr>)"
    have run: "run_pipeline i UpdateIngestPipeline_Finish st = (r, ?st)" using f by (simp add: run_pipeline_def)
    have fin: "finish_post i st = (if r \<noteq> IAP_UPDATE_INGEST_E_OK then
          HttpdPost_SetIapUploadError HTTPD_IAP_UPLOAD_ERROR_FINISH r
            (HttpdPost_SetIapUploadStatus HTTPD_IAP_UPLOAD_STATE_ERROR (received ?p) (content_len ?p) ?st)
        else HttpdPost_SetIapUploadError HTTPD_IAP_UPLOAD_ERROR_NONE IAP_UPDATE_INGEST_E_OK
          (HttpdPost_SetIapUploadStatus HTTPD_IAP_UPLOAD_STATE_READY (content_len ?p) (content_len ?p)
            (?st\<lparr>iap := Iap_VerifyRequest (iap ?st)\<rparr>)))"
      using full run by (simp add: finish_post_def Let_def)
    show ?thesis
    proof (cases "open_at st i")
      case True
      have ok: "pl_open (core (iap st)) (iap_pipeline ?p)" "pl_received (iap_pipeline ?p) = pl_expected (iap_pipeline ?p)"
        using entry_okD [OF assms(1,2) True] full(3) cur by (simp_all add: entry_ok_def)
      note inv = pipeline_Finish_inv [OF winv_D(1) [OF assms(1)] ok(1) f]
      have "pl_active pl = 0" using inv by blast
      then have o: "\<not> open_at ?st i" using assms(2) by (simp add: open_at_def)
      have "winv ?st"
        using inv True o assms(2) by (intro winv_entry [OF assms(1,2), of ?st x]) simp_all
      note st = this o
      have r: "r = IAP_UPDATE_INGEST_E_OK" "image_stored ops smem sinv x" using inv ok(2) by simp_all
      let ?v = "?st\<lparr>iap := Iap_VerifyRequest (iap ?st)\<rparr>"
      have core: "core (Iap_VerifyRequest (iap ?st)) = x" "registry (Iap_VerifyRequest (iap ?st)) = registry (iap st)"
        by (simp_all add: Iap_VerifyRequest_def Let_def)
      have "posts_inv ops smem blank sinv prog ?v"
        using winv_D(2) [OF st(1)] core by (simp add: posts_inv_def open_at_def entry_ok_def conn_at_def)
      moreover have "service_inv ops smem blank sinv prog (iap ?v)"
        using winv_D(1,4) [OF st(1)] core r(2) by (simp add: service_inv_def)
      ultimately have "winv ?v" by (simp add: web_inv_def)
      then show ?thesis using r(1) inv st(2) core by (simp add: fin open_at_def)
    next
      case False
      then have "r = IAP_UPDATE_INGEST_E_STATE" "pl = iap_pipeline ?p" "x = core (iap st)"
        using f closed_pipeline(2) [of "iap_pipeline ?p"] by (simp_all add: open_at_def)
      then show ?thesis using False assms(1) by (simp add: fin set_post_same open_at_def)
    qed
  qed
qed

lemma map_free_inv:
  assumes "winv st" "map_lookup c st = Some i" "\<not> open_at st i"
  shows "winv (map_free c st) \<and> iap (map_free c st) = iap st"
proof -
  have st': "map_free c st = set_conn i 0 st" using assms(2) by (simp add: map_free_def map_lookup_def)
  have il: "i < length (conn_map st)" using map_lookup_SomeD [OF assms(2)] by simp
  have "winv (set_conn i 0 st)"
    using assms(3) il by (intro winv_closed_entry [OF assms(1) il assms(3)]) (simp_all add: open_at_def)
  then show ?thesis by (simp add: st')
qed

lemma finished_inv:
  assumes "winv st" "httpd_post_finished c st = (page, st')"
  shows "winv st' \<and> frame (core (iap st)) (core (iap st'))"
proof (cases "current_connection st = c \<and> valid_connection st = c \<and> map_lookup c st \<noteq> None")
  case True
  then obtain i where i: "map_lookup c st = Some i" by blast
  have il: "i < length (conn_map st)" using map_lookup_SomeD [OF i] by simp
  have cur: "conn_at st i = current_connection st" using map_lookup_SomeD [OF i] True by simp
  note f = finish_post_inv [OF assms(1) il cur]
  have "map_lookup c (finish_post i st) = Some i" using same_conns_lookup [OF same_conns_finish [of st i], of c] i by simp
  note mf = map_free_inv [OF _ this] 
  have "st' = (map_free c (finish_post i st))\<lparr>current_connection := 0, valid_connection := 0\<rparr>"
    using assms(2) True i by (simp add: httpd_post_finished_def)
  then show ?thesis using f mf web_inv_no_current by simp
next
  case False
  then have "winv st' \<and> iap st' = iap st"
    using assms web_inv_no_current by (auto simp: httpd_post_finished_def split: if_splits option.splits)
  then show ?thesis by simp
qed

text \<open>An operation that changes the adapter's buffer but not whether the writer is active, on behalf of an
  entry that is not open, while no open entry is current.\<close>

lemma posts_inv_refused:
  assumes "posts_inv ops smem blank sinv prog st" "i < length (conn_map st)"
    and "length (conn_map st') = length (conn_map st)"
    and "\<And>j. j < length (conn_map st) \<Longrightarrow> j \<noteq> i \<Longrightarrow> post_at st' j = post_at st j \<and> conn_at st' j = conn_at st j"
    and "\<not> open_at st i" "\<not> open_at st' i"
    and "active (writer (core (iap st'))) = active (writer (core (iap st)))"
    and "\<And>j. j < length (conn_map st) \<Longrightarrow> j \<noteq> i \<Longrightarrow> conn_at st j \<noteq> current_connection st'"
  shows "posts_inv ops smem blank sinv prog st'"
proof -
  have o: "open_at st' j = open_at st j" if "j < length (conn_map st)" for j
    using assms(4) [OF that] assms(5,6) by (cases "j = i") (simp_all add: open_at_def)
  have "entry_ok ops smem blank sinv prog st' j" if "j < length (conn_map st)" "open_at st' j" for j
  proof -
    have "j \<noteq> i" using that assms(6) by auto
    moreover have "entry_ok ops smem blank sinv prog st j" using assms(1) that o [OF that(1)] by (simp add: posts_inv_def)
    ultimately show ?thesis using assms(4,8) [OF that(1)] assms(7) by (simp add: entry_ok_def)
  qed
  then show ?thesis using assms(1,3,7) o by (simp add: posts_inv_def) blast
qed

text \<open>The begin of an upload on a closed entry \<open>i\<close> of the connection.\<close>

lemma begin_iap_inv:
  assumes "winv st" "i < length (conn_map st)" "\<not> open_at st i" "map_lookup c st = Some i" "c \<noteq> 0"
    "current_connection st = c" "\<And>j. j < length (conn_map st) \<Longrightarrow> j \<noteq> i \<Longrightarrow> conn_at st j \<noteq> c"
    "post_mode (post_at st i) = HTTPD_POST_MODE_IAP_BIN" "iap_failed (post_at st i) = 0" "received (post_at st i) = 0"
    "content_len (post_at st i) = of_int len" "begin_iap c len i st = (ok, st')"
  shows "winv st' \<and> frame (core (iap st)) (core (iap st')) \<and> vr_state (IapVerifyRuntime (iap st')) = IAP_VERIFY_STATE_IDLE"
proof -
  let ?p = "post_at st i"
  define total where "total = (if len > 0 then of_int len else 0 :: u32)"
  define st1 where "st1 = HttpdPost_SetIapUploadError HTTPD_IAP_UPLOAD_ERROR_NONE IAP_UPDATE_INGEST_E_OK
      (HttpdPost_SetIapUploadStatus HTTPD_IAP_UPLOAD_STATE_IN_PROGRESS 0 total (st\<lparr>iap := Iap_VerifyReset (iap st)\<rparr>))"
  have v: "core (iap st1) = core (iap st)" "registry (iap st1) = registry (iap st)"
    "vr_state (IapVerifyRuntime (iap st1)) = IAP_VERIFY_STATE_IDLE" "post_at st1 j = post_at st j" "conn_at st1 j = conn_at st j"
    "length (conn_map st1) = length (conn_map st)" "open_at st1 j = open_at st j"
    "current_connection st1 = current_connection st" for j
    by (simp_all add: st1_def Iap_VerifyReset_def open_at_def)
  have "posts_inv ops smem blank sinv prog st1"
    using winv_D(2) [OF assms(1)] by (simp add: posts_inv_def entry_ok_def v)
  moreover have "service_inv ops smem blank sinv prog (iap st1)"
    using winv_D(1,4) [OF assms(1)] v by (simp add: service_inv_def)
  ultimately have w1: "winv st1" by (simp add: web_inv_def)
  obtain r pl x where b: "(if len > 0 then UpdateIngestPipeline_Begin (iap_pipeline ?p) (of_int len) (registry (iap st)) (core (iap st))
      else (IAP_UPDATE_INGEST_E_OK, iap_pipeline ?p, core (iap st))) = (r, pl, x)" by (metis prod_cases3)
  define st2 where "st2 = (if len > 0 then set_post i (?p\<lparr>iap_pipeline := pl\<rparr>) (st1\<lparr>iap := (iap st1)\<lparr>core := x\<rparr>\<rparr>) else st1)"
  have run: "(if len > 0 then run_pipeline i (\<lambda>pl x. UpdateIngestPipeline_Begin pl (of_int len) (registry (iap st1)) x) st1
      else (IAP_UPDATE_INGEST_E_OK, st1)) = (r, st2)"
    using b by (auto simp: run_pipeline_def v st2_def split: if_splits)
  have st': "(ok, st') = (if len \<le> 0 \<or> r \<noteq> IAP_UPDATE_INGEST_E_OK then
      (False, (map_free c (HttpdPost_SetIapUploadError HTTPD_IAP_UPLOAD_ERROR_BEGIN r
        (HttpdPost_SetIapUploadStatus HTTPD_IAP_UPLOAD_STATE_ERROR 0 total st2)))\<lparr>current_connection := 0\<rparr>)
      else (True, st2))"
    using assms(12) unfolding begin_iap_def Let_def total_def [symmetric] st1_def [symmetric] run by simp
  have cl: "pl_active (iap_pipeline ?p) = 0" using assms(3) by (simp add: open_at_def)
  have il: "i < length (conn_map st1)" using assms(2) by (simp add: v)
  have same: "same_conns st st2" by (auto simp: st2_def st1_def)
  have w2: "winv st2 \<and> frame (core (iap st)) (core (iap st2)) \<and>
      vr_state (IapVerifyRuntime (iap st2)) = IAP_VERIFY_STATE_IDLE \<and>
      (len \<le> 0 \<or> r \<noteq> IAP_UPDATE_INGEST_E_OK \<longrightarrow> \<not> open_at st2 i)"
  proof (cases "len > 0")
    case True
    then have b': "UpdateIngestPipeline_Begin (iap_pipeline ?p) (of_int len) (registry (iap st)) (core (iap st)) = (r, pl, x)"
      using b by simp
    note inv = pipeline_Begin_inv [OF winv_D(1,4) [OF assms(1)] cl b']
    have s2: "st2 = set_post i (?p\<lparr>iap_pipeline := pl\<rparr>) (st1\<lparr>iap := (iap st1)\<lparr>core := x\<rparr>\<rparr>)" using True by (simp add: st2_def)
    have o2: "open_at st2 i \<longleftrightarrow> pl_active pl \<noteq> 0" using il by (simp add: s2 open_at_def)
    have service: "service_inv ops smem blank sinv prog (iap st2)"
      using inv v winv_D(4) [OF assms(1)] by (simp add: s2 service_inv_def)
    have "posts_inv ops smem blank sinv prog st2"
    proof (cases "r = IAP_UPDATE_INGEST_E_OK")
      case ok: True
      have conn: "conn_at st2 i = c" using map_lookup_SomeD [OF assms(4)] v(5) by (simp add: s2)
      have "entry_ok ops smem blank sinv prog st2 i"
        using inv ok il assms(5-11) conn open_active [of x pl] v by (simp add: entry_ok_def s2) (simp add: entry_open_def)
      moreover from this have "open_at st2 i" by (simp add: entry_ok_def open_at_def)
      ultimately show ?thesis
        using inv ok il v
        by (intro posts_inv_step [OF winv_D(2) [OF w1] il, of st2]) (simp_all add: s2)
    next
      case False
      then have "\<not> open_at st2 i" "active (writer x) = active (writer (core (iap st)))" using inv o2 by simp_all
      moreover have "core (iap st2) = x" by (simp add: s2)
      moreover have "\<not> open_at st1 i" using assms(3) v by simp
      ultimately show ?thesis
        using assms(6,7) v il by (intro posts_inv_refused [OF winv_D(2) [OF w1] il, of st2]) (simp_all add: s2)
    qed
    then show ?thesis using service inv o2 v True by (auto simp: web_inv_def s2)
  next
    case False
    then show ?thesis using w1 v assms(3) by (simp add: st2_def)
  qed
  show ?thesis
  proof (cases "len \<le> 0 \<or> r \<noteq> IAP_UPDATE_INGEST_E_OK")
    case True
    let ?st = "HttpdPost_SetIapUploadError HTTPD_IAP_UPLOAD_ERROR_BEGIN r
        (HttpdPost_SetIapUploadStatus HTTPD_IAP_UPLOAD_STATE_ERROR 0 total st2)"
    have "map_lookup c ?st = Some i" using same_conns_lookup [of st ?st c] same assms(4) by simp
    moreover have "winv ?st" "\<not> open_at ?st i" using w2 True by (simp_all add: open_at_def)
    ultimately have "winv (map_free c ?st) \<and> iap (map_free c ?st) = iap st2" using map_free_inv [of ?st c i] by simp
    then show ?thesis using st' True w2 by simp
  next
    case False
    then show ?thesis using st' w2 by simp
  qed
qed

lemma begin_inv:
  assumes "winv st" "c \<noteq> 0" "\<And>j. j < length (conn_map st) \<Longrightarrow> conn_at st j \<noteq> c"
    "httpd_post_begin c uri len st = (e, resp, st')"
  shows "winv st' \<and> frame (core (iap st)) (core (iap st'))"
proof -
  let ?st = "st\<lparr>current_connection := c, valid_connection := 0\<rparr>"
  have w0: "winv ?st" using assms(1,3) web_inv_current [of ops smem blank sinv prog st c] by simp
  consider (no) "st' = st" | (m) m where "m = HTTPD_POST_MODE_FORM_KV \<or> m = HTTPD_POST_MODE_IAP_BIN"
    "(e, resp, st') = (let (slot, st) = map_alloc c (of_int len) m ?st
            in case slot of None \<Rightarrow> (ERR_VAL, None, st\<lparr>current_connection := 0\<rparr>)
               | Some i \<Rightarrow>
                   let (ok, st) = (if m = HTTPD_POST_MODE_IAP_BIN then begin_iap c len i st else (True, st))
                   in if \<not> ok then (ERR_VAL, None, st)
                      else (ERR_OK, Some (ascii ''/404.html''), st\<lparr>valid_connection := c\<rparr>))"
  proof (cases "current_connection st = c \<or> take 8 uri \<noteq> ascii ''/can.cgi'' \<and> take 11 uri \<noteq> ascii ''/iap/upload''")
    case True
    then have "st' = st" using assms(4) unfolding httpd_post_begin_def by (auto split: if_splits)
    then show thesis by (rule no)
  next
    case False
    define mo where "mo = (if take 8 uri = ascii ''/can.cgi'' then HTTPD_POST_MODE_FORM_KV else HTTPD_POST_MODE_IAP_BIN)"
    have sel: "(if take 8 uri = ascii ''/can.cgi'' then Some HTTPD_POST_MODE_FORM_KV
        else if take 11 uri = ascii ''/iap/upload'' then Some HTTPD_POST_MODE_IAP_BIN else None) = Some mo"
      using False by (auto simp: mo_def)
    show thesis
    proof (rule m)
      show "mo = HTTPD_POST_MODE_FORM_KV \<or> mo = HTTPD_POST_MODE_IAP_BIN" by (simp add: mo_def)
      show "(e, resp, st') = (let (slot, st) = map_alloc c (of_int len) mo ?st
            in case slot of None \<Rightarrow> (ERR_VAL, None, st\<lparr>current_connection := 0\<rparr>)
               | Some i \<Rightarrow>
                   let (ok, st) = (if mo = HTTPD_POST_MODE_IAP_BIN then begin_iap c len i st else (True, st))
                   in if \<not> ok then (ERR_VAL, None, st)
                      else (ERR_OK, Some (ascii ''/404.html''), st\<lparr>valid_connection := c\<rparr>))"
        using False unfolding assms(4) [symmetric] httpd_post_begin_def sel by (simp add: Let_def)
    qed
  qed
  then show ?thesis
  proof cases
    case m
    obtain slot st1 where al: "map_alloc c (of_int len) m ?st = (slot, st1)" by fastforce
    show ?thesis
    proof (cases slot)
      case None
      then have "st1 = ?st" using al by (auto simp: map_alloc_def split: option.splits)
      then show ?thesis using m(2) al None assms(1) by simp
    next
      case (Some i)
      note a = map_alloc_Some [OF al [unfolded Some] assms(2)]
      have "\<forall>j<length (conn_map ?st). conn_at ?st j \<noteq> c" using assms(3) by simp
      note a = a [OF this]
      have il: "i < length (conn_map st)" "conn_at st i = 0" using a(1,3) by simp_all
      have closed: "\<not> open_at ?st i" using entry_okD [OF w0, of i] il by (auto simp: entry_ok_def)
      have s1: "length (conn_map st1) = length (conn_map st)" "iap st1 = iap st" "current_connection st1 = c"
        "\<And>j. conn_at st1 j = (if j = i then c else conn_at st j)"
        "\<And>j. post_at st1 j = (if j = i then zero_ps\<lparr>content_len := of_int len, post_mode := m\<rparr> else post_at st j)"
        unfolding a(4) using il(1) by simp_all
      have c1: "\<not> open_at st1 i" by (simp add: open_at_def s1 zero_ps_def)
      have w1: "winv st1"
        using il(1) by (intro winv_closed_entry [OF w0 _ closed _ _ _ c1]) (simp_all add: s1)
      show ?thesis
      proof (cases "m = HTTPD_POST_MODE_IAP_BIN")
        case True
        obtain ok st2 where b: "begin_iap c len i st1 = (ok, st2)" by fastforce
        have "winv st2 \<and> frame (core (iap st1)) (core (iap st2)) \<and> vr_state (IapVerifyRuntime (iap st2)) = IAP_VERIFY_STATE_IDLE"
          using il(1) assms(3) True by (intro begin_iap_inv [OF w1 _ c1 a(2) assms(2) s1(3) _ _ _ _ _ b]) (simp_all add: s1 zero_ps_def)
        moreover have "st' = (if ok then st2\<lparr>valid_connection := c\<rparr> else st2)"
          using m(2) al Some True b by (auto split: if_splits)
        ultimately show ?thesis by (simp add: s1)
      next
        case False
        then have "st' = st1\<lparr>valid_connection := c\<rparr>" using m(2) al Some by simp
        then show ?thesis using w1 by (simp add: s1)
      qed
    qed
  qed (use assms(1) in simp)
qed

section \<open>Resets, preparations and polls\<close>

lemma clear_single_inv:
  assumes "winv st" "i < length (conn_map st)"
  shows "winv (HttpdPost_ClearSingleIapSession i st) \<and>
    frame (core (iap st)) (core (iap (HttpdPost_ClearSingleIapSession i st))) \<and>
    length (conn_map (HttpdPost_ClearSingleIapSession i st)) = length (conn_map st) \<and>
    \<not> open_at (HttpdPost_ClearSingleIapSession i st) i \<and>
    (\<forall>j<length (conn_map st). j \<noteq> i \<longrightarrow> open_at (HttpdPost_ClearSingleIapSession i st) j = open_at st j \<and>
      conn_at (HttpdPost_ClearSingleIapSession i st) j = conn_at st j)"
proof (cases "conn (conn_map st ! i) \<noteq> 0 \<and> post_mode (post_at st i) = HTTPD_POST_MODE_IAP_BIN")
  case False
  then have "\<not> open_at st i" using entry_okD [OF assms] assms(2) by (auto simp: entry_ok_def conn_at_def)
  moreover have "HttpdPost_ClearSingleIapSession i st = st"
    using False by (auto simp: HttpdPost_ClearSingleIapSession_def)
  ultimately show ?thesis using assms(1) by simp
next
  case True
  let ?c = "conn (conn_map st ! i)"
  define st1 where "st1 = (if iap_failed (post_at st i) = 0 then snd (run_pipeline i UpdateIngestPipeline_Abort st) else st)"
  note ab = abort_step [OF assms run_pipeline_result]
  have s1: "winv st1 \<and> \<not> open_at st1 i \<and> frame (core (iap st)) (core (iap st1)) \<and> same_conns st st1 \<and>
      (\<forall>j<length (conn_map st). j \<noteq> i \<longrightarrow> open_at st1 j = open_at st j)"
  proof (cases "iap_failed (post_at st i) = 0")
    case True
    have "open_at (snd (run_pipeline i UpdateIngestPipeline_Abort st)) j = open_at st j" if "j \<noteq> i" for j
      using that assms(2) by (simp add: run_pipeline_def open_at_def split: prod.splits)
    then show ?thesis using ab True by (simp add: st1_def)
  next
    case False
    then have "\<not> open_at st i" using entry_okD [OF assms] by (auto simp: entry_ok_def)
    then show ?thesis using assms(1) False by (simp add: st1_def)
  qed
  define st2 where "st2 = (if current_connection st1 = ?c then st1\<lparr>current_connection := 0\<rparr> else st1)"
  define st3 where "st3 = (if valid_connection st2 = ?c then st2\<lparr>valid_connection := 0\<rparr> else st2)"
  have eq: "HttpdPost_ClearSingleIapSession i st = set_post i zero_ps (set_conn i 0 st3)"
    using True by (simp add: HttpdPost_ClearSingleIapSession_def Let_def st1_def st2_def st3_def)
  have s3: "winv st3" "iap st3 = iap st1" "conn_map st3 = conn_map st1" using s1 by (simp_all add: st3_def st2_def)
  then have o3: "open_at st3 j = open_at st1 j" "conn_at st3 j = conn_at st1 j" for j
    by (simp_all add: open_at_def post_at_def conn_at_def)
  have l1: "length (conn_map st1) = length (conn_map st)" using s1 same_conns_length by blast
  then have len: "i < length (conn_map st3)" using assms(2) s3(3) by simp
  have o: "open_at (set_post i zero_ps (set_conn i 0 st3)) j = (j \<noteq> i \<and> open_at st1 j)" for j
    using len o3 by (simp add: open_at_def zero_ps_def)
  have cn: "conn_at st1 j = conn_at st j" for j using s1 same_conns_at by blast
  have "winv (set_post i zero_ps (set_conn i 0 st3))"
    using s1 len o o3 by (intro winv_closed_entry [OF s3(1) len]) simp_all
  then show ?thesis using s1 s3 o o3 l1 cn len by (simp add: eq)
qed

lemma reset_session_inv:
  assumes "winv st"
  shows "winv (HttpdPost_ResetIapUploadSession st) \<and> frame (core (iap st)) (core (iap (HttpdPost_ResetIapUploadSession st))) \<and>
    \<not> active (writer (core (iap (HttpdPost_ResetIapUploadSession st))))"
proof -
  have run: "winv (foldl (\<lambda>st i. HttpdPost_ClearSingleIapSession i st) st [0..<k]) \<and>
      frame (core (iap st)) (core (iap (foldl (\<lambda>st i. HttpdPost_ClearSingleIapSession i st) st [0..<k]))) \<and>
      length (conn_map (foldl (\<lambda>st i. HttpdPost_ClearSingleIapSession i st) st [0..<k])) = length (conn_map st) \<and>
      (\<forall>j<k. \<not> open_at (foldl (\<lambda>st i. HttpdPost_ClearSingleIapSession i st) st [0..<k]) j)"
    if "k \<le> length (conn_map st)" for k
    using that
  proof (induction k)
    case (Suc k)
    define s where "s = foldl (\<lambda>st i. HttpdPost_ClearSingleIapSession i st) st [0..<k]"
    have ih: "winv s" "frame (core (iap st)) (core (iap s))" "length (conn_map s) = length (conn_map st)" "\<forall>j<k. \<not> open_at s j"
      using Suc by (simp_all add: s_def)
    note c = clear_single_inv [OF ih(1), of k]
    have "foldl (\<lambda>st i. HttpdPost_ClearSingleIapSession i st) st [0..<Suc k] = HttpdPost_ClearSingleIapSession k s"
      by (simp add: s_def)
    then show ?case using c ih Suc.prems slot_frame_trans by (auto simp: less_Suc_eq)
  qed (use assms in simp)
  define s where "s = foldl (\<lambda>st i. HttpdPost_ClearSingleIapSession i st) st [0..<length (conn_map st)]"
  have s: "winv s" "frame (core (iap st)) (core (iap s))" "length (conn_map s) = length (conn_map st)"
    "\<forall>j<length (conn_map st). \<not> open_at s j"
    using run [of "length (conn_map st)"] by (simp_all add: s_def)
  then have "\<not> active (writer (core (iap s)))" using winv_D(2) [OF s(1)] by (auto simp: posts_inv_def)
  then show ?thesis using s by (simp add: HttpdPost_ResetIapUploadSession_def idle_upload_def s_def [symmetric])
qed

lemma prepare_inv:
  assumes "winv st" "Iap_PrepareUploadSlot (iap st) = (r, v)" "r \<noteq> IAP_PREPARE_E_BACKEND"
  shows "winv (st\<lparr>iap := v\<rparr>) \<and> frame (core (iap st)) (core v) \<and>
    (if active (writer (core (iap st))) then r = IAP_PREPARE_E_STATE \<and> v = iap st
     else r = IAP_PREPARE_E_OK \<and> slot_prepared (writer (core v)) \<and> \<not> active (writer (core v)) \<and> v = Iap_VerifyReset v)"
proof -
  let ?x = "core (iap st)" and ?w = "writer (core (iap st))"
  have i: "initialized ?w" "writer_ops ?w = ops" "sinv (store ?x)" "writer_inv ?w" using winv_D(1) [OF assms(1)]
    by (simp_all add: core_inv_def)
  obtain er where er: "so_erase ops = Some er" using callbacks(1) by blast
  show ?thesis
  proof (cases "active ?w")
    case True
    then have "r = IAP_PREPARE_E_STATE" "v = iap st" using assms(2) i by (auto simp: Iap_PrepareUploadSlot_def)
    then show ?thesis using assms(1) True by simp
  next
    case False
    obtain q s where e: "er (slot_addr (config ?w)) (slot_size (config ?w)) (store ?x) = (q, s)" by fastforce
    have q: "q = IAP_WRITER_STORAGE_E_OK" "r = IAP_PREPARE_E_OK"
      "v = Iap_VerifyReset ((iap st)\<lparr>core := ?x\<lparr>store := s, writer := ?w\<lparr>slot_prepared := True\<rparr>\<rparr>\<rparr>)"
      using assms(2,3) i False er e by (auto simp: Iap_PrepareUploadSlot_def Let_def split: if_splits)
    have er': "the (so_erase ops) (slot_addr (config ?w)) (slot_size (config ?w)) (store ?x) = (IAP_WRITER_STORAGE_E_OK, s)"
      using er e q(1) by simp
    note fr = erase_frame [OF i(3) er']
    have bl: "\<forall>y. in_range y (slot_addr (config ?w)) (unat (slot_size (config ?w))) \<longrightarrow> blank s y"
      using erase_blank [OF i(3) er'] by blast
    have wi: "writer_inv (?w\<lparr>slot_prepared := True\<rparr>)" using i(4) by (simp add: writer_inv_def)
    have "service_inv ops smem blank sinv prog v"
      using winv_D(1,4) [OF assms(1)] fr bl wi False
      by (simp add: service_inv_def q(3) Iap_VerifyReset_def core_inv_def slot_blank_def)
    moreover have "\<not> open_at st j" if "j < length (conn_map st)" for j
      using inactive_closed [OF winv_D(2) [OF assms(1)] False that] .
    then have "posts_inv ops smem blank sinv prog (st\<lparr>iap := v\<rparr>)"
      using False by (simp add: posts_inv_def open_at_def q(3))
    ultimately show ?thesis
      using fr q False by (simp add: web_inv_def slot_frame_def) (simp add: Iap_VerifyReset_def)
  qed
qed

lemma VerifyStep_core:
  assumes "cinv x" "image_stored ops smem sinv x"
    "IapWriter_VerifyStep (writer x) n (Some outs) (store x) = (r, w, out, s)"
  shows "cinv (x\<lparr>writer := w, store := s\<rparr>) \<and> frame x (x\<lparr>writer := w, store := s\<rparr>) \<and>
    image_stored ops smem sinv (x\<lparr>writer := w, store := s\<rparr>)"
proof -
  have i: "writer_ops (writer x) = ops" "sinv (store x)" "verifying smem (writer x) (store x)" "writer_inv (writer x)"
    using assms(1,2) by (simp_all add: core_inv_def image_stored_def)
  note v = VerifyStep_storage [OF i(1-3) assms(3)]
  have inv: "writer_inv w" by (rule writer_inv_VerifyStep [OF assms(3) i(4)])
  from assms(3) have "initialized w = initialized (writer x) \<and> active w = active (writer x) \<and>
      finalized w = finalized (writer x) \<and> slot_prepared w = slot_prepared (writer x) \<and> blank s = blank (store x)"
  proof (cases rule: VerifyStep_cases)
    case (storage st buf)
    then show ?thesis using read_frame [OF i(2)] i(1) by auto
  next
    case (read buf h p)
    then show ?thesis using read_frame [OF i(2)] i(1) by auto
  qed auto
  then show ?thesis
    using assms(1,2) v inv
    by (auto simp: core_inv_def slot_frame_def same_outside_def slot_blank_def image_stored_def stored_def)
qed

lemma verify_poll_inv:
  assumes "service_inv ops smem blank sinv prog v"
  shows "service_inv ops smem blank sinv prog (Iap_VerifyPoll v) \<and> frame (core v) (core (Iap_VerifyPoll v)) \<and>
    active (writer (core (Iap_VerifyPoll v))) = active (writer (core v)) \<and>
    (active (writer (core v)) \<longrightarrow> core (Iap_VerifyPoll v) = core v)"
proof (cases "vr_state (IapVerifyRuntime v) \<in> {IAP_VERIFY_STATE_PENDING, IAP_VERIFY_STATE_VERIFYING}")
  case False
  then have "Iap_VerifyPoll v = v" by (auto simp: Iap_VerifyPoll_def)
  then show ?thesis using assms by simp
next
  case True
  let ?x = "core v"
  have st: "image_stored ops smem sinv ?x" "cinv ?x" using assms True by (auto simp: service_inv_def)
  have fin: "finalized (writer ?x)" using st(1) by (auto simp: image_stored_def stored_def)
  define v1 where "v1 = (if vr_state (IapVerifyRuntime v) = IAP_VERIFY_STATE_PENDING
      then set_verify_state IAP_VERIFY_STATE_VERIFYING v else v)"
  have v1: "Iap_VerifyPoll v = verify_poll_step v1" "core v1 = ?x" "registry v1 = registry v"
    using True fin by (auto simp: Iap_VerifyPoll_def v1_def set_verify_state_def)
  obtain r w out s where step: "IapWriter_VerifyStep (writer ?x) IAP_VERIFY_STEP_BYTES
      (Some \<lparr>processed_bytes = 0, total_bytes = 0, done_flag = 0\<rparr>) (store ?x) = (r, w, out, s)"
    by (metis prod_cases4)
  note c = VerifyStep_core [OF st(2,1) step]
  have core: "core (verify_poll_step v1) = ?x\<lparr>writer := w, store := s\<rparr>" "registry (verify_poll_step v1) = registry v"
    by (simp_all add: verify_poll_step_def v1 step Let_def set_verify_state_def)
  have "\<not> active (writer ?x)" using stored_not_active st(1) by blast
  moreover from this c have "\<not> active w" using stored_not_active by fastforce
  ultimately show ?thesis using c core assms by (simp add: v1 service_inv_def)
qed

lemma poll_inv:
  assumes "winv st"
  shows "winv (st\<lparr>iap := Iap_VerifyPoll (iap st)\<rparr>) \<and> frame (core (iap st)) (core (Iap_VerifyPoll (iap st)))"
proof -
  note p = verify_poll_inv [OF winv_D(3) [OF assms]]
  have "posts_inv ops smem blank sinv prog (st\<lparr>iap := Iap_VerifyPoll (iap st)\<rparr>)"
  proof (cases "active (writer (core (iap st)))")
    case True
    then have "core (Iap_VerifyPoll (iap st)) = core (iap st)" using p by simp
    then show ?thesis using winv_D(2) [OF assms] by (simp add: posts_inv_def open_at_def entry_ok_def)
  next
    case False
    then show ?thesis using inactive_closed [OF winv_D(2) [OF assms] False] p
      by (simp add: posts_inv_def open_at_def)
  qed
  then show ?thesis using p by (simp add: web_inv_def)
qed

end

section \<open>Histories\<close>

text \<open>What the server and the main loop may do, in any order.  A preparation stands for the page
  \<open>/iap/prepare\<close> after the session reset it starts with.\<close>

datatype web_event =
  PostBegin u32 bytes int | PostData u32 "bytes list" | PostFinished u32 |
  SessionReset | PrepareSlot | VerifyTick | ClearReady

fun http_event :: "web_event \<Rightarrow> 's httpd_state \<Rightarrow> 's httpd_state" where
  "http_event (PostBegin c uri len) st = snd (snd (httpd_post_begin c uri len st))"
| "http_event (PostData c bufs) st = snd (httpd_post_receive_data c bufs st)"
| "http_event (PostFinished c) st = snd (httpd_post_finished c st)"
| "http_event SessionReset st = HttpdPost_ResetIapUploadSession st"
| "http_event PrepareSlot st = st\<lparr>iap := snd (Iap_PrepareUploadSlot (iap st))\<rparr>"
| "http_event VerifyTick st = st\<lparr>iap := Iap_VerifyPoll (iap st)\<rparr>"
| "http_event ClearReady st = HttpdPost_ClearIapUploadReady st"

text \<open>The two conditions on a history: a connection begins only when no entry still has its pointer, and
  the erase of a preparation does not fail.  \<open>refused_begin_strands_writer\<close> and
  \<open>failed_prepare_keeps_verdict\<close> show what happens otherwise.\<close>

fun event_ok :: "web_event \<Rightarrow> 's httpd_state \<Rightarrow> bool" where
  "event_ok (PostBegin c uri len) st \<longleftrightarrow> c \<noteq> 0 \<and> list_all (\<lambda>e. conn e \<noteq> c) (conn_map st)"
| "event_ok PrepareSlot st \<longleftrightarrow> fst (Iap_PrepareUploadSlot (iap st)) \<noteq> IAP_PREPARE_E_BACKEND"
| "event_ok _ st \<longleftrightarrow> True"

text \<open>A history is a list of events; \<open>history_ok\<close> says that each of them meets the two conditions in the state in
  which it occurs.  \<open>web_reach\<close> is the same as a relation.\<close>

fun history_ok :: "web_event list \<Rightarrow> 's httpd_state \<Rightarrow> bool" where
  "history_ok [] st \<longleftrightarrow> True"
| "history_ok (e # es) st \<longleftrightarrow> event_ok e st \<and> history_ok es (http_event e st)"

inductive web_reach :: "'s httpd_state \<Rightarrow> 's httpd_state \<Rightarrow> bool" for st0 where
  web_start: "web_reach st0 st0"
| web_step: "web_reach st0 st \<Longrightarrow> event_ok e st \<Longrightarrow> web_reach st0 (http_event e st)"

lemma history_ok_snoc: "history_ok (es @ [e]) st \<longleftrightarrow> history_ok es st \<and> event_ok e (fold http_event es st)"
  by (induction es arbitrary: st) auto

lemma web_reach_history: "web_reach st0 st \<longleftrightarrow> (\<exists>es. history_ok es st0 \<and> st = fold http_event es st0)"
proof
  assume "web_reach st0 st"
  then show "\<exists>es. history_ok es st0 \<and> st = fold http_event es st0"
  proof (induction rule: web_reach.induct)
    case web_start
    show ?case by (intro exI [of _ "[]"]) simp
  next
    case (web_step st e)
    then obtain es where "history_ok es st0" "st = fold http_event es st0" by blast
    then show ?case using web_step.hyps(2) by (intro exI [of _ "es @ [e]"]) (simp add: history_ok_snoc)
  qed
next
  have "web_reach st0 (fold http_event es st0)" if "history_ok es st0" for es
    using that
  proof (induction es rule: rev_induct)
    case (snoc e es)
    then show ?case using web_step [of st0 "fold http_event es st0" e] by (simp add: history_ok_snoc)
  qed (simp add: web_start)
  then show "\<exists>es. history_ok es st0 \<and> st = fold http_event es st0 \<Longrightarrow> web_reach st0 st" by blast
qed

text \<open>After \<open>Iap_Init\<close> on zeroed statics, with an empty table of connections.\<close>

definition booted ::
  "'h flash_device \<Rightarrow> ('h \<Rightarrow> bool) \<Rightarrow> u32 \<Rightarrow> u32 \<Rightarrow> 'h adapter_state iap_state \<Rightarrow> 'h adapter_state httpd_state \<Rightarrow> bool" where
  "booted dev hal_ok a sz v0 st \<longleftrightarrow>
     hal_ok (hw (fl (store (core v0)))) \<and> length (pending (ingest (core v0))) = 64 \<and> pending_len (ingest (core v0)) = 0 \<and>
     vr_state (IapVerifyRuntime v0) = IAP_VERIFY_STATE_IDLE \<and> Iap_Init dev a sz v0 = (IAP_E_OK, iap st) \<and>
     list_all (\<lambda>e. conn e = 0 \<and> pl_active (iap_pipeline (ps e)) = 0) (conn_map st)"

lemma conn_at_all: "list_all (\<lambda>e. P (conn e)) (conn_map st) \<longleftrightarrow> (\<forall>j<length (conn_map st). P (conn_at st j))"
  by (simp add: list_all_length conn_at_def)

context storage_prog
begin

lemma event_inv:
  assumes "winv st" "event_ok e st"
  shows "winv (http_event e st) \<and> frame (core (iap st)) (core (iap (http_event e st)))"
proof (cases e)
  case (PostBegin c uri len)
  obtain e' resp st' where b: "httpd_post_begin c uri len st = (e', resp, st')" by (metis prod_cases3)
  show ?thesis
    using begin_inv [OF assms(1) _ _ b] assms(2) PostBegin b conn_at_all [of "\<lambda>k. k \<noteq> c" st] by simp
next
  case (PostData c bufs)
  then show ?thesis using receive_inv [OF assms(1) surjective_pairing] by simp
next
  case (PostFinished c)
  then show ?thesis using finished_inv [OF assms(1) surjective_pairing] by simp
next
  case SessionReset
  then show ?thesis using reset_session_inv [OF assms(1)] by simp
next
  case PrepareSlot
  then show ?thesis using prepare_inv [OF assms(1) surjective_pairing] assms(2) by simp
next
  case VerifyTick
  then show ?thesis using poll_inv [OF assms(1)] by simp
next
  case ClearReady
  then show ?thesis using assms(1) by (simp add: HttpdPost_ClearIapUploadReady_def idle_upload_def)
qed

lemma reach_inv:
  assumes "web_reach st0 st" "winv st0"
  shows "winv st \<and> frame (core (iap st0)) (core (iap st))"
  using assms
proof (induction rule: web_reach.induct)
  case (web_step st e)
  then show ?case using event_inv slot_frame_trans by blast
qed simp

end

context flash_hal_words
begin

abbreviation "shown st \<equiv> flash_mem dev (hw (fl (store (core (iap st)))))"

lemma booted_inv:
  assumes "booted dev hal_ok a sz v0 st"
  shows "adapter_words.winv st" "slot_addr (config (writer (core (iap st)))) = a" "slot_size (config (writer (core (iap st)))) = sz"
    "shown st = flash_mem dev (hw (fl (store (core v0))))"
proof -
  have h: "hal_ok (hw (fl (store (core v0))))" "Iap_Init dev a sz v0 = (IAP_E_OK, iap st)"
    using assms by (simp_all add: booted_def)
  note i = Iap_Init_ok [OF h]
  have "\<not> open_at st j" if "j < length (conn_map st)" for j
    using assms that by (simp add: booted_def list_all_length open_at_def post_at_def)
  then have "posts_inv (adapter_ops dev) (\<lambda>st. flash_mem dev (hw (fl st))) (\<lambda>st. erased (hw (fl st))) (adapter_inv dev hal_ok)
      (FLASH_FLASHWORD_SIZE dev) st"
    using i(11) by (simp add: posts_inv_def)
  then show "adapter_words.winv st"
    using assms i by (simp add: web_inv_def service_inv_def core_inv_def slot_blank_def booted_def)
  show "slot_addr (config (writer (core (iap st)))) = a" "slot_size (config (writer (core (iap st)))) = sz"
    "shown st = flash_mem dev (hw (fl (store (core v0))))" using i by simp_all
qed

lemma reached:
  assumes "booted dev hal_ok a sz v0 st0" "web_reach st0 st"
  shows "adapter_words.winv st" "slot_addr (config (writer (core (iap st)))) = a" "slot_size (config (writer (core (iap st)))) = sz"
    "\<not> in_range y a (unat sz) \<Longrightarrow> shown st y = flash_mem dev (hw (fl (store (core v0)))) y"
proof -
  note b = booted_inv [OF assms(1)]
  note r = adapter_words.reach_inv [OF assms(2) b(1)]
  show "adapter_words.winv st" "slot_addr (config (writer (core (iap st)))) = a" "slot_size (config (writer (core (iap st)))) = sz"
    using r b by (simp_all add: slot_frame_def)
  show "shown st y = flash_mem dev (hw (fl (store (core v0)))) y" if "\<not> in_range y a (unat sz)"
    using r b that by (simp add: slot_frame_def same_outside_def)
qed

end


text \<open>A session reset leaves the update service alone when no entry in use is open.\<close>

lemma clear_single_closed:
  assumes "\<forall>j<length (conn_map st). conn_at st j \<noteq> 0 \<longrightarrow> \<not> open_at st j" "i < length (conn_map st)"
  shows "core (iap (HttpdPost_ClearSingleIapSession i st)) = core (iap st) \<and>
    length (conn_map (HttpdPost_ClearSingleIapSession i st)) = length (conn_map st) \<and>
    (\<forall>j<length (conn_map st). conn_at (HttpdPost_ClearSingleIapSession i st) j \<noteq> 0 \<longrightarrow>
      \<not> open_at (HttpdPost_ClearSingleIapSession i st) j)"
proof -
  have at: "conn_at st i = conn (conn_map st ! i)" using assms(2) by (simp add: conn_at_def)
  show ?thesis
proof (cases "conn_at st i = 0 \<or> post_mode (post_at st i) \<noteq> HTTPD_POST_MODE_IAP_BIN")
  case True
  then have "HttpdPost_ClearSingleIapSession i st = st" using at by (auto simp: HttpdPost_ClearSingleIapSession_def)
  then show ?thesis using assms(1) by simp
next
  case False
  let ?st1 = "if iap_failed (post_at st i) = 0 then snd (run_pipeline i UpdateIngestPipeline_Abort st) else st"
  have cl: "pl_active (iap_pipeline (post_at st i)) = 0" using assms False by (simp add: open_at_def)
  have s1: "core (iap ?st1) = core (iap st)" "length (conn_map ?st1) = length (conn_map st)"
    "\<And>j. conn_at ?st1 j = conn_at st j" "\<And>j. j \<noteq> i \<Longrightarrow> post_at ?st1 j = post_at st j"
    using cl assms(2) by (simp_all add: run_pipeline_def UpdateIngestPipeline_Abort_def)
  define st2 where "st2 = (let c = conn_at st i;
      s = (if current_connection ?st1 = c then ?st1\<lparr>current_connection := 0\<rparr> else ?st1)
    in if valid_connection s = c then s\<lparr>valid_connection := 0\<rparr> else s)"
  have s2: "core (iap st2) = core (iap st)" "length (conn_map st2) = length (conn_map st)"
    "\<And>j. conn_at st2 j = conn_at st j" "\<And>j. j \<noteq> i \<Longrightarrow> post_at st2 j = post_at st j"
    using s1 by (simp_all add: st2_def Let_def)
  have "HttpdPost_ClearSingleIapSession i st = set_post i zero_ps (set_conn i 0 st2)"
    using False by (simp add: HttpdPost_ClearSingleIapSession_def st2_def Let_def at)
  then show ?thesis using s2 assms by (auto simp: open_at_def)
qed
qed

lemma reset_session_closed:
  assumes "\<forall>j<length (conn_map st). conn_at st j \<noteq> 0 \<longrightarrow> \<not> open_at st j"
  shows "core (iap (HttpdPost_ResetIapUploadSession st)) = core (iap st)"
proof -
  let ?s = "\<lambda>k. foldl (\<lambda>st i. HttpdPost_ClearSingleIapSession i st) st [0..<k]"
  have "core (iap (?s k)) = core (iap st) \<and> length (conn_map (?s k)) = length (conn_map st) \<and>
      (\<forall>j<length (conn_map st). conn_at (?s k) j \<noteq> 0 \<longrightarrow> \<not> open_at (?s k) j)" if "k \<le> length (conn_map st)" for k
    using that
  proof (induction k)
    case (Suc k)
    define s where "s = ?s k"
    have "?s (Suc k) = HttpdPost_ClearSingleIapSession k s" by (simp add: s_def)
    then show ?case using Suc clear_single_closed [of s k] by (simp add: s_def [symmetric])
  qed (use assms in simp)
  from this [of "length (conn_map st)"] show ?thesis by (simp add: HttpdPost_ResetIapUploadSession_def idle_upload_def)
qed

text \<open>An upload refused because the writer is busy, and the release of the older entry.\<close>

lemma refused_begin:
  assumes "map_lookup c st = Some i" "find_conn 0 (conn_map st) = Some j" "i < j" "c \<noteq> 0" "current_connection st \<noteq> c"
    and "take 11 uri = ascii ''/iap/upload''" "UpdateIngestRegistry_Get True (registry (iap st)) = (IAP_UPDATE_INGEST_E_OK, Some adapter_binding)"
    and "active (writer (core (iap st)))" "initialized (writer (core (iap st)))"
    and "httpd_post_begin c uri len st = (e, resp, st1)"
  shows "e = ERR_VAL \<and> conn_at st1 i = 0 \<and> writer (core (iap st1)) = writer (core (iap st)) \<and>
    length (conn_map st1) = length (conn_map st) \<and> \<not> open_at st1 j \<and> (\<forall>k. k \<noteq> j \<longrightarrow> post_at st1 k = post_at st k)"
proof -
  let ?base = "st\<lparr>current_connection := c, valid_connection := 0\<rparr>"
  let ?p = "zero_ps\<lparr>content_len := of_int len, post_mode := HTTPD_POST_MODE_IAP_BIN\<rparr> :: 'a ingest_state HttpdPostStateType"
  let ?st = "set_post j ?p (set_conn j c ?base)"
  have jl: "j < length (conn_map st)" and il: "i < length (conn_map st)" "conn_at st i = c"
    using find_conn_Some [OF assms(2)] map_lookup_SomeD [OF assms(1)] by simp_all
  have before: "conn_at st k \<noteq> c" if "k < i" for k
    using assms(1) find_conn_Some [of c "conn_map st" i] that il(1) by (auto simp: map_lookup_def conn_at_def)
  have al: "map_alloc c (of_int len) HTTPD_POST_MODE_IAP_BIN ?base = (Some j, ?st)" using assms(2) by (simp add: map_alloc_def)
  have "\<exists>r x. UpdateIngestPipeline_Begin UpdateIngestPipeline_Reset (of_int len) (registry (iap st)) (core (iap st)) =
      (r, UpdateIngestPipeline_Reset, x) \<and> r \<noteq> IAP_UPDATE_INGEST_E_OK \<and> writer x = writer (core (iap st))"
    using assms(7-9)
    by (cases "(of_int len :: u32) = 0"; cases "writer_set (ingest (core (iap st)))")
      (simp_all add: UpdateIngestPipeline_Begin_def ingest_Begin_def IapWriter_Begin_def clear_pending_def)
  then obtain r x where b: "UpdateIngestPipeline_Begin UpdateIngestPipeline_Reset (of_int len) (registry (iap st)) (core (iap st)) =
      (r, UpdateIngestPipeline_Reset, x)" "r \<noteq> IAP_UPDATE_INGEST_E_OK" "writer x = writer (core (iap st))" by blast
  have s: "iap ?st = iap st" "\<And>k. conn_at ?st k = (if k = j then c else conn_at st k)" "length (conn_map ?st) = length (conn_map st)"
    "post_at ?st j = ?p" "\<And>k. k \<noteq> j \<Longrightarrow> post_at ?st k = post_at st k"
    using jl by simp_all
  have reg: "registry (Iap_VerifyReset v) = registry v" "core (Iap_VerifyReset v) = core v" for v :: "'a iap_state"
    by (simp_all add: Iap_VerifyReset_def)
  have pl: "iap_pipeline ?p = UpdateIngestPipeline_Reset" by (simp add: zero_ps_def)
  obtain st2 where st2: "begin_iap c len j ?st = (False, (map_free c st2)\<lparr>current_connection := 0\<rparr>)"
    "same_conns ?st st2" "writer (core (iap st2)) = writer (core (iap st))" "\<not> open_at st2 j"
    "\<And>k. k \<noteq> j \<Longrightarrow> post_at st2 k = post_at st k"
  proof -
    let ?t = "if len > 0 then of_int len else 0 :: u32"
    define st3 where "st3 = HttpdPost_SetIapUploadError HTTPD_IAP_UPLOAD_ERROR_NONE IAP_UPDATE_INGEST_E_OK
        (HttpdPost_SetIapUploadStatus HTTPD_IAP_UPLOAD_STATE_IN_PROGRESS 0 ?t (?st\<lparr>iap := Iap_VerifyReset (iap ?st)\<rparr>))"
    have s3: "iap st3 = Iap_VerifyReset (iap st)" "same_conns ?st st3" "length (conn_map st3) = length (conn_map st)"
      "\<And>k. post_at st3 k = (if k = j then ?p else post_at st k)"
      using s by (simp_all add: st3_def)
    obtain r4 st4 where run: "(if len > 0
        then run_pipeline j (\<lambda>pl x. UpdateIngestPipeline_Begin pl (of_int len) (registry (iap st3)) x) st3
        else (IAP_UPDATE_INGEST_E_OK, st3)) = (r4, st4)" by fastforce
    have s4: "same_conns ?st st4 \<and> writer (core (iap st4)) = writer (core (iap st)) \<and> \<not> open_at st4 j \<and>
        (\<forall>k. k \<noteq> j \<longrightarrow> post_at st4 k = post_at st k) \<and> (len > 0 \<longrightarrow> r4 \<noteq> IAP_UPDATE_INGEST_E_OK)"
    proof (cases "len > 0")
      case True
      have "st4 = set_post j (?p\<lparr>iap_pipeline := UpdateIngestPipeline_Reset\<rparr>) (st3\<lparr>iap := (iap st3)\<lparr>core := x\<rparr>\<rparr>)" "r4 = r"
        using run True b(1) pl s3(1,4) reg by (simp_all add: run_pipeline_def)
      then show ?thesis using s3 b jl by (simp add: open_at_def)
    next
      case False
      then show ?thesis using run s3 reg pl by (auto simp: open_at_def)
    qed
    let ?final = "HttpdPost_SetIapUploadError HTTPD_IAP_UPLOAD_ERROR_BEGIN r4
        (HttpdPost_SetIapUploadStatus HTTPD_IAP_UPLOAD_STATE_ERROR 0 ?t st4)"
    have "begin_iap c len j ?st = (False, (map_free c ?final)\<lparr>current_connection := 0\<rparr>)"
      unfolding begin_iap_def Let_def st3_def [symmetric] run using s4 by auto
    moreover have "same_conns st4 ?final" by simp
    ultimately show thesis using s4 by (intro that [of ?final]) (auto simp: open_at_def intro: same_conns_trans)
  qed
  have look: "map_lookup c st2 = Some i"
    using same_conns_lookup [OF st2(2)] map_lookup_first [of i ?st c] il before assms(3) s by simp
  note free = map_free_conns [OF look]
  have st1: "(e, st1) = (ERR_VAL, (map_free c st2)\<lparr>current_connection := 0\<rparr>)"
    using assms(5,6,10) upload_not_form [OF assms(6)] al st2(1) by (simp add: httpd_post_begin_def Let_def)
  have len: "length (conn_map st2) = length (conn_map st)" using same_conns_length [OF st2(2)] s(3) by simp
  have "conn_at (map_free c st2) i = 0"
    using free(1) il(1) len by (simp add: conn_at_def)
  moreover have "length (conn_map (map_free c st2)) = length (conn_map st)"
    using free(1) len by (metis length_list_update length_map)
  ultimately show ?thesis using st1 st2(3-5) free by (simp add: open_at_def)
qed

context flash_hal_words
begin

lemma adapter_prog:
  "storage_prog (adapter_ops dev) (\<lambda>st. flash_mem dev (hw (fl st))) (\<lambda>st. erased (hw (fl st))) (adapter_inv dev hal_ok)
    (FLASH_FLASHWORD_SIZE dev)"
  by (rule adapter_words.storage_prog_axioms)

end

text \<open>Rounding up stays in a range whose size is a multiple of the unit.\<close>

lemma RoundUp_fits:
  fixes a m v :: u32
  assumes "a \<noteq> 0" "unat a dvd unat m" "unat v \<le> unat m"
  shows "\<exists>r. IapWriter_RoundUp v a = Some r \<and> unat r \<le> unat m"
proof (cases "v mod a = 0")
  case True
  then show ?thesis using assms by (auto simp: IapWriter_RoundUp_def)
next
  case False
  let ?d = "a - v mod a"
  have a0: "0 < unat a" using assms(1) by (simp add: unat_gt_0)
  have lt: "unat v mod unat a < unat a" using a0 by simp
  have d: "unat ?d = unat a - unat v mod unat a" using lt by (subst unat_sub_small) (simp_all add: unat_mod)
  obtain k where k: "unat m = unat a * k" using assms(2) by (elim dvdE)
  have nz: "0 < unat v mod unat a" using False by (metis gr0I unat_0_iff unat_mod)
  have "unat v div unat a < k"
  proof (rule ccontr)
    assume "\<not> unat v div unat a < k"
    then have "unat a * k \<le> unat a * (unat v div unat a)" by simp
    then show False using nz k assms(3) mult_div_mod_eq [of "unat a" "unat v"] by linarith
  qed
  then have "unat a * Suc (unat v div unat a) \<le> unat m" unfolding k by (intro mult_le_mono2) simp
  then have "unat a * (unat v div unat a) + unat a \<le> unat m" by simp
  then have le: "unat v + unat ?d \<le> unat m"
    using d lt mult_div_mod_eq [of "unat a" "unat v"] by linarith
  then have "\<not> v > UINT32_MAX - ?d" using unat_u32_le_max [of m]
    by (simp add: word_less_nat_alt unat_u32_max_minus)
  moreover have "unat (v + ?d) = unat v + unat ?d"
    using le unat_u32_bound [of m] by (subst unat_add_small) simp_all
  ultimately show ?thesis using False assms(1) le by (auto simp: IapWriter_RoundUp_def Let_def)
qed

text \<open>A prepared slot takes any image that fits, without an erase.\<close>

lemma begin_prepared:
  assumes "core_inv ops blank sinv prog x" "UpdateIngestRegistry_Get True reg = (IAP_UPDATE_INGEST_E_OK, Some adapter_binding)"
    "slot_prepared (writer x)" "\<not> active (writer x)" "n \<noteq> 0" "unat n \<le> unat (slot_size (config (writer x)))"
    "unat prog dvd unat n"
  shows "fst (UpdateIngestPipeline_Begin pl n reg x) = IAP_UPDATE_INGEST_E_OK"
proof -
  let ?w = "writer x"
  have i: "writer_inv ?w" "initialized ?w" "writer_set (ingest x)" "prog_size (config ?w) = prog"
    using assms(1) by (simp_all add: core_inv_def)
  have e: "erase_size (config ?w) \<noteq> 0" "unat (erase_size (config ?w)) dvd unat (slot_size (config ?w))" "prog \<noteq> 0"
    using i by (simp_all add: writer_inv_def)
  obtain m where m: "IapWriter_RoundUp n (erase_size (config ?w)) = Some m" "unat m \<le> unat (slot_size (config ?w))"
    using RoundUp_fits [OF e(1,2) assms(6)] by blast
  have "\<not> n > UINT32_MAX" "\<not> n > slot_size (config ?w)" "\<not> m > slot_size (config ?w)" "IapWriter_IsAligned n prog"
    using assms(6,7) m(2) e(3) u32_le_max [of n] by (simp_all add: not_less word_le_nat_alt IsAligned_iff)
  then obtain w where "IapWriter_Begin ?w n (store x) = (IAP_WRITER_E_OK, w, store x)"
    using i assms(3-5) m(1) u32_le_max [of n] by (auto simp: IapWriter_Begin_def)
  then show ?thesis
    using assms(2,5) i(3) by (simp add: UpdateIngestPipeline_Begin_def ingest_Begin_def clear_pending_def split: prod.splits)
qed

text \<open>A request whose body comes in one buffer, when the ingest path takes it.\<close>

lemma begin_upload_ok:
  assumes "fresh_connection c st" "find_conn 0 (conn_map st) = Some i" "take 11 uri = ascii ''/iap/upload''" "0 < len"
    and "fst (UpdateIngestPipeline_Begin UpdateIngestPipeline_Reset (of_int len) (registry (iap st)) (core (iap st))) =
      IAP_UPDATE_INGEST_E_OK"
  shows "fst (httpd_post_begin c uri len st) = ERR_OK"
proof -
  have c: "current_connection st \<noteq> c" using assms(1) by (simp add: fresh_connection_def)
  let ?st = "set_post i (zero_ps\<lparr>content_len := of_int len, post_mode := HTTPD_POST_MODE_IAP_BIN\<rparr>)
      (set_conn i c (st\<lparr>current_connection := c, valid_connection := 0\<rparr>))"
  have al: "map_alloc c (of_int len) HTTPD_POST_MODE_IAP_BIN (st\<lparr>current_connection := c, valid_connection := 0\<rparr>) = (Some i, ?st)"
    using assms(2) by (simp add: map_alloc_def)
  have il: "i < length (conn_map st)" using find_conn_Some [OF assms(2)] by simp
  have pl: "iap_pipeline (post_at ?st i) = UpdateIngestPipeline_Reset" "iap ?st = iap st"
    using il by (simp_all add: zero_ps_def)
  obtain r pl1 x1 where b: "UpdateIngestPipeline_Begin UpdateIngestPipeline_Reset (of_int len) (registry (iap st)) (core (iap st)) = (r, pl1, x1)"
    by (metis prod_cases3)
  have r: "r = IAP_UPDATE_INGEST_E_OK" using assms(5) b by simp
  have reg: "registry (Iap_VerifyReset v) = registry v" for v :: "'a iap_state" by (simp add: Iap_VerifyReset_def)
  have "fst (begin_iap c len i ?st)"
    using assms(4) b r pl by (simp add: begin_iap_def run_pipeline_def Let_def reg split: prod.splits)
  then show ?thesis
    using c upload_not_form [OF assms(3)] assms(3) al
    by (cases "begin_iap c len i ?st") (simp add: httpd_post_begin_def Let_def)
qed

lemma upload_one_buffer:
  assumes "fresh_connection c st" "find_conn 0 (conn_map st) = Some k" "q \<noteq> []" "length q < 65536"
    and "ingest_image UpdateIngestPipeline_Reset (of_nat (length q)) [q] (registry (iap st)) (core (iap st)) =
      (IAP_UPDATE_INGEST_E_OK, pl, x)"
  shows "\<exists>resp st1 page st2. httpd_post_begin c (ascii ''/iap/upload'') (int (length q)) st = (ERR_OK, resp, st1) \<and>
    httpd_post_finished c (receive_all c [[q]] st1) = (page, st2) \<and>
    up_state (HttpdIapUploadStatus st2) = HTTPD_IAP_UPLOAD_STATE_READY"
proof -
  let ?n = "of_nat (length q) :: u32"
  have n: "of_int (int (length q)) = ?n" by simp
  obtain r0 pl0 x0 where b: "UpdateIngestPipeline_Begin UpdateIngestPipeline_Reset ?n (registry (iap st)) (core (iap st)) = (r0, pl0, x0)"
    by (metis prod_cases3)
  obtain r1 pl1 x1 where p: "UpdateIngestPipeline_Push pl0 (Some q) ?n x0 = (r1, pl1, x1)" by (metis prod_cases3)
  have ok: "r0 = IAP_UPDATE_INGEST_E_OK" "r1 = IAP_UPDATE_INGEST_E_OK"
    "UpdateIngestPipeline_Finish pl1 x1 = (IAP_UPDATE_INGEST_E_OK, pl, x)"
    using assms(5) b p by (auto simp: ingest_image_def split: if_splits)
  obtain e resp st1 where bg: "httpd_post_begin c (ascii ''/iap/upload'') (int (length q)) st = (e, resp, st1)"
    by (metis prod_cases3)
  have u: "take 11 (ascii ''/iap/upload'') = ascii ''/iap/upload''" by simp
  have "e = ERR_OK"
    using begin_upload_ok [OF assms(1,2) u, of "int (length q)"] bg b ok(1) assms(3) by (simp add: n)
  note bg = bg [unfolded this]
  obtain i where i: "map_lookup c st1 = Some i" "current_connection st1 = c" "valid_connection st1 = c"
    "core (iap st1) = x0" "post_at st1 i = zero_ps\<lparr>content_len := ?n, post_mode := HTTPD_POST_MODE_IAP_BIN, iap_pipeline := pl0\<rparr>"
    using begin_upload_cases [OF assms(1) u bg] b ok(1) by (auto simp: n)
  have il: "i < length (conn_map st1)" using map_lookup_SomeD [OF i(1)] by simp
  let ?st = "receive_iap i q st1"
  have len16: "unat (of_nat (length q) :: u16) = length q" using assms(4) by (simp add: unat_of_nat_u16)
  have len32: "ucast (of_nat (length q) :: u16) = ?n" using len16 unat_ucast_u16 assms(4) by (simp add: word_unat_eq_iff)
  have n0: "?n \<noteq> 0" using assms(3,4) by (simp add: unat_eq_0 [symmetric])
  then have pos: "0 < ?n" by (simp add: word_neq_0_conv)
  have recv: "?st = HttpdPost_SetIapUploadStatus HTTPD_IAP_UPLOAD_STATE_IN_PROGRESS ?n ?n
      (set_post i ((post_at st1 i)\<lparr>iap_pipeline := pl1, received := ?n\<rparr>) (st1\<lparr>iap := (iap st1)\<lparr>core := x1\<rparr>\<rparr>))"
    using n0 pos p ok(2) il len16 by (simp add: receive_iap_def i(4,5) zero_ps_def run_pipeline_def Let_def len32)
  have all: "receive_all c [[q]] st1 = ?st"
    using receive_all_current [OF i(2,1)] by (simp add: receive_pbuf_def i(5) HTTPD_POST_MODE_IAP_BIN_def HTTPD_POST_MODE_FORM_KV_def)
  have same: "same_conns st1 ?st" by (simp add: recv)
  have cur: "current_connection ?st = c" "valid_connection ?st = c" "map_lookup c ?st = Some i"
    using same i same_conns_lookup [OF same] by (simp_all add: same_conns_def)
  have pst: "post_at ?st i = (post_at st1 i)\<lparr>iap_pipeline := pl1, received := ?n\<rparr>" "core (iap ?st) = x1"
    using il by (simp_all add: recv)
  have "up_state (HttpdIapUploadStatus (finish_post i ?st)) = HTTPD_IAP_UPLOAD_STATE_READY"
    using ok(3) pst by (simp add: finish_post_def Let_def i(5) zero_ps_def run_pipeline_def HTTPD_POST_MODE_IAP_BIN_def HTTPD_POST_MODE_FORM_KV_def)
  moreover have "HttpdIapUploadStatus (map_free c (finish_post i ?st)) = HttpdIapUploadStatus (finish_post i ?st)"
    by (simp add: map_free_def split: option.splits)
  ultimately show ?thesis using bg finished_current [OF cur] all 
    by (intro exI [of _ resp] exI [of _ st1] exI [of _ "ascii ''/postredir''"]
        exI [of _ "(map_free c (finish_post i ?st))\<lparr>current_connection := 0, valid_connection := 0\<rparr>"]) simp
qed



lemma sample_booted:
  "Iap_Init stub_device 0x200000 0x20000 sample_iap = (IAP_E_OK, v) \<Longrightarrow>
   booted stub_device test_flash_initialized 0x200000 0x20000 sample_iap (sample_httpd v)"
  using stub_state_ready(2) by (simp add: booted_def sample_iap_def zero_ps_def UpdateIngestPipeline_Reset_def list_all_length)

text \<open>An upload of 32 bytes after boot.\<close>

lemma sample_upload:
  "\<exists>v resp st1 page st2. booted stub_device test_flash_initialized 0x200000 0x20000 sample_iap (sample_httpd v) \<and>
     httpd_post_begin 7 (ascii ''/iap/upload'') 32 (sample_httpd v) = (ERR_OK, resp, st1) \<and>
     httpd_post_finished 7 (receive_all 7 [[replicate 32 7]] st1) = (page, st2) \<and>
     up_state (HttpdIapUploadStatus st2) = HTTPD_IAP_UPLOAD_STATE_READY"
proof -
  obtain s v where v: "Iap_Init stub_device 0x200000 0x20000 sample_iap = (IAP_E_OK, v)"
    "core v = \<lparr>ingest = \<lparr>writer_set = True, pending_len = 0, pending = replicate 64 0\<rparr>, writer = sample_prepared s, store = s\<rparr>"
    "adapter_inv stub_device test_flash_initialized s" "max_chunk (actx s) = 1024"
    "src_alignment (actx s) = 4" "bounce_addr (actx s) = 0x24000000"
    using sample_init by blast
  have hal: "test_flash_initialized (hw (fl (store (core sample_iap))))"
    using stub_state_ready(2) by (simp add: sample_iap_def)
  note reg = stub_hal.Iap_Init_ok(9) [OF hal v(1)]
  obtain pl x where im: "ingest_image UpdateIngestPipeline_Reset 32 [replicate 32 7] (registry v) (core v) =
      (IAP_UPDATE_INGEST_E_OK, pl, x)"
    using sample_ingest_flash [OF v(3-6) reg] v(2) by (metis prod.collapse)
  have fr: "fresh_connection 7 (sample_httpd v)" "find_conn 0 (conn_map (sample_httpd v)) = Some 0" by simp_all
  from upload_one_buffer [OF fr, of "replicate 32 7" pl x] im
  show ?thesis using sample_booted [OF v(1)] by fastforce
qed



lemma upload_slot:
  assumes "current_connection st \<noteq> c" "take 11 uri = ascii ''/iap/upload''"
    "httpd_post_begin c uri len st = (ERR_OK, resp, st1)" "find_conn 0 (conn_map st) = Some j"
  shows "map conn (conn_map st1) = (map conn (conn_map st))[j := c]"
proof -
  let ?base = "st\<lparr>current_connection := c, valid_connection := 0\<rparr>"
  let ?st = "set_post j (zero_ps\<lparr>content_len := of_int len, post_mode := HTTPD_POST_MODE_IAP_BIN\<rparr>) (set_conn j c ?base)"
  have al: "map_alloc c (of_int len) HTTPD_POST_MODE_IAP_BIN ?base = (Some j, ?st)" using assms(4) by (simp add: map_alloc_def)
  obtain ok st2 where b: "begin_iap c len j ?st = (ok, st2)" by fastforce
  then have ok: "ok" "st1 = st2\<lparr>valid_connection := c\<rparr>"
    using assms(1-3) upload_not_form [OF assms(2)] al by (auto simp: httpd_post_begin_def Let_def split: if_splits)
  have "j < length (conn_map ?st)" using find_conn_Some [OF assms(4)] by simp
  then have "same_conns ?st st2" using begin_iap_ok [of c len j ?st st2] b ok(1) by auto
  then show ?thesis by (simp add: ok(2) same_conns_def)
qed

context storage_prog
begin

lemma poll_mem:
  assumes "service_inv ops smem blank sinv prog v"
  shows "smem (store (core (Iap_VerifyPoll v))) = smem (store (core v))"
proof (cases "vr_state (IapVerifyRuntime v) \<in> {IAP_VERIFY_STATE_PENDING, IAP_VERIFY_STATE_VERIFYING}")
  case False
  then show ?thesis by (auto simp: Iap_VerifyPoll_def)
next
  case True
  then have st: "image_stored ops smem sinv (core v)" using assms by (auto simp: service_inv_def)
  then have fin: "finalized (writer (core v))" by (auto simp: image_stored_def stored_def)
  define v1 where "v1 = (if vr_state (IapVerifyRuntime v) = IAP_VERIFY_STATE_PENDING
      then set_verify_state IAP_VERIFY_STATE_VERIFYING v else v)"
  have v1: "Iap_VerifyPoll v = verify_poll_step v1" "core v1 = core v" "verify_state v1 = IAP_VERIFY_STATE_VERIFYING"
    using True fin by (auto simp: Iap_VerifyPoll_def v1_def set_verify_state_def verify_state_def)
  have "polling ops smem sinv v1" using st v1(2) by (auto simp: polling_def image_stored_def stored_def)
  from poll_step(1) [OF this v1(3)] show ?thesis by (simp add: v1)
qed

lemma polls_keep:
  "service_inv ops smem blank sinv prog v \<Longrightarrow> service_inv ops smem blank sinv prog ((Iap_VerifyPoll ^^ k) v) \<and>
   smem (store (core ((Iap_VerifyPoll ^^ k) v))) = smem (store (core v)) \<and>
   frame (core v) (core ((Iap_VerifyPoll ^^ k) v))"
proof (induction k)
  case (Suc k)
  then show ?case using verify_poll_inv [of "(Iap_VerifyPoll ^^ k) v"] poll_mem [of "(Iap_VerifyPoll ^^ k) v"]
    by (auto intro: slot_frame_trans)
qed simp

lemma receive_all_inv:
  assumes "winv st"
  shows "winv (receive_all c reqs st) \<and> frame (core (iap st)) (core (iap (receive_all c reqs st)))"
  using assms
proof (induction reqs arbitrary: st)
  case (Cons q reqs)
  then show ?case
    using receive_inv [OF Cons.prems surjective_pairing, of c q] by (auto simp: receive_all_def intro: slot_frame_trans)
qed (simp add: receive_all_def)

text \<open>A whole request keeps the invariant.\<close>

lemma request_inv:
  assumes "winv st" "fresh_connection c st" "httpd_post_begin c uri len st = (e, resp, st1)"
    "httpd_post_finished c (receive_all c reqs st1) = (page, st2)"
  shows "winv st2 \<and> frame (core (iap st)) (core (iap st2))"
proof -
  note b = begin_inv [OF assms(1) _ _ assms(3)]
  note r = receive_all_inv [of st1 c reqs]
  note f = finished_inv [OF _ assms(4)]
  show ?thesis using b r f assms(2) by (auto simp: fresh_connection_def intro: slot_frame_trans)
qed

end

context flash_hal_words
begin

lemma upload_verified:
  assumes "adapter_words.winv st" "slot_addr (config (writer (core (iap st)))) = a" "slot_size (config (writer (core (iap st)))) = sz"
    and "in_flash dev a (unat sz)" "fresh_connection c st" "take 11 uri = ascii ''/iap/upload''"
    and "httpd_post_begin c uri len st = (ERR_OK, resp, st1)" "\<forall>q\<in>set (concat reqs). length q < 65536"
    and "httpd_post_finished c (receive_all c reqs st1) = (page, st2)"
    and "up_state (HttpdIapUploadStatus st2) = HTTPD_IAP_UPLOAD_STATE_READY"
    and "unat (of_int len :: u32) div 256 < k"
  shows "length (take (unat (of_int len :: u32)) (concat (concat reqs))) = unat (of_int len :: u32) \<and>
    mem_read (flash_mem dev (hw (fl (store (core (iap st2)))))) a (unat (of_int len :: u32)) =
      take (unat (of_int len :: u32)) (concat (concat reqs)) \<and>
    unat (of_int len :: u32) \<le> unat sz \<and>
    Iap_IsVerified ((Iap_VerifyPoll ^^ k) (iap st2)) = 1"
proof -
  let ?n = "of_int len :: u32" and ?mem = "\<lambda>st. flash_mem dev (hw (fl st))"
  let ?w = "writer (core (iap st))"
  have i: "writer_inv ?w" "writer_ops ?w = adapter_ops dev" "adapter_inv dev hal_ok (store (core (iap st)))"
    "slot_blank (\<lambda>st. erased (hw (fl st))) ?w (store (core (iap st)))" "prog_size (config ?w) = FLASH_FLASHWORD_SIZE dev"
    "UpdateIngestRegistry_Get True (registry (iap st)) = (IAP_UPDATE_INGEST_E_OK, Some adapter_binding)"
    using assms(1) by (simp_all add: web_inv_def service_inv_def core_inv_def)
  obtain pl x where u: "ingest_image UpdateIngestPipeline_Reset ?n (body_chunks (unat ?n) (concat reqs)) (registry (iap st))
      (core (iap st)) = (IAP_UPDATE_INGEST_E_OK, pl, x)"
    "iap st2 = Iap_VerifyRequest ((Iap_VerifyReset (iap st))\<lparr>core := x\<rparr>)"
    using upload_request [OF assms(5-10)] by blast
  have len: "length b < 4294967296" if "b \<in> set (body_chunks (unat ?n) (concat reqs))" for b
    using body_chunks_length [OF that] assms(8) by fastforce
  have sp: "storage_prog (adapter_ops dev) ?mem (\<lambda>st. erased (hw (fl st))) (adapter_inv dev hal_ok) (FLASH_FLASHWORD_SIZE dev)"
    by (rule adapter_prog)
  note im = storage_prog.ingest_image_stored [OF sp i len u(1), unfolded concat_body_chunks]
  let ?st = "(Iap_VerifyReset (iap st))\<lparr>core := x\<rparr>"
  have ex: "expected_size (writer x) = ?n" using im by (simp add: stored_def word_unat_eq_iff)
  have fits: "unat ?n \<le> unat sz" using im ex assms(3) by (auto simp: stored_def writer_inv_def)
  from fits have inf: "in_flash dev a (unat ?n)" using assms(4) by (simp add: in_flash_def)
  have pol: "polling (adapter_ops dev) ?mem (adapter_inv dev hal_ok) ?st"
    using im by (auto simp: polling_def stored_def)
  have reads: "reads_succeed (adapter_ops dev) (adapter_inv dev hal_ok) ?st"
    using adapter_reads [OF inf] im assms(2) ex by (auto simp: reads_succeed_def)
  have "slot_hash ?mem ?st = payload_hash (writer x)" using im by (auto simp: slot_hash_def stored_def)
  moreover have "verify_pos (writer x) = 0" using im by simp
  moreover have "storage (adapter_ops dev) ?mem (\<lambda>st. erased (hw (fl st))) (adapter_inv dev hal_ok)"
    using storage_prog.axioms(1) [OF sp] .
  ultimately have "verify_state ((Iap_VerifyPoll ^^ k) (Iap_VerifyRequest ?st)) = IAP_VERIFY_STATE_VERIFIED"
    using polls_from_request [OF _ pol _ reads] ex assms(11) by simp
  then show ?thesis
    using im assms(2) u(2) ex fits by (auto simp: stored_def Iap_IsVerified_def verify_state_def Iap_VerifyRequest_def Let_def)
qed

end

section \<open>Properties\<close>

text \<open>C13. A state that says verified is right, after every history \<open>es\<close> of requests, packets, session resets,
  preparations and polls in any order that meets two conditions: no connection begins while the table of
  connections still has an entry with its pointer, and no preparation fails to erase the slot.  The code ensures
  neither: \<open>httpd_post.c\<close> (213, 258) accepts such a connection and then frees the older entry
  (\<open>refused_begin_strands_writer\<close>), and after a failed erase \<open>Iap.c\<close> (242) keeps an old verdict
  (\<open>failed_prepare_keeps_verdict\<close> of \<open>Iap\<close>).  Under these conditions, a state that says verified has the slot full of bytes
  whose hash is the recorded hash of the uploaded image, and the writer is finalized with them; in every state the
  flash outside the slot is as it was before the boot, and an open session of the writer belongs to an entry
  in the table.\<close>

theorem web_histories_safe:
  assumes "flash_hal_words dev hal_ok erased" "booted dev hal_ok a sz v0 st0"
    and "history_ok es st0" "st = fold http_event es st0"
  shows "(Iap_IsVerified (iap st) = 1 \<longrightarrow> finalized (writer (core (iap st))) \<and>
      IapWriter_HashBytes IAP_WRITER_FNV1A_OFFSET_BASIS (mem_read (flash_mem dev (hw (fl (store (core (iap st)))))) a
        (unat (expected_size (writer (core (iap st)))))) = payload_hash (writer (core (iap st)))) \<and>
    (\<forall>y. \<not> in_range y a (unat sz) \<longrightarrow>
      flash_mem dev (hw (fl (store (core (iap st))))) y = flash_mem dev (hw (fl (store (core v0)))) y) \<and>
    (active (writer (core (iap st))) \<longrightarrow>
      (\<exists>i<length (conn_map st). pl_active (iap_pipeline (post_at st i)) \<noteq> 0 \<and> conn_at st i \<noteq> 0))"
proof -
  have reach: "web_reach st0 st" using assms(3,4) web_reach_history by blast
  note r = flash_hal_words.reached [OF assms(1,2) reach]
  have "image_stored (adapter_ops dev) (\<lambda>st. flash_mem dev (hw (fl st))) (adapter_inv dev hal_ok) (core (iap st))"
    if "Iap_IsVerified (iap st) = 1"
    using r(1) that by (auto simp: web_inv_def service_inv_def Iap_IsVerified_def split: if_splits)
  moreover have "active (writer (core (iap st))) \<longrightarrow>
      (\<exists>i<length (conn_map st). pl_active (iap_pipeline (post_at st i)) \<noteq> 0 \<and> conn_at st i \<noteq> 0)"
    using r(1) by (auto simp: web_inv_def posts_inv_def open_at_def entry_ok_def)
  ultimately show ?thesis using r by (auto simp: image_stored_def stored_def)
qed

theorem web_histories_safe_witness:
  "\<exists>(v :: hal_stub adapter_state iap_state) st. history_ok [PostBegin 7 (ascii ''/iap/upload'') 32] (sample_httpd v) \<and>
     st = fold http_event [PostBegin 7 (ascii ''/iap/upload'') 32] (sample_httpd v) \<and> active (writer (core (iap st))) \<and>
     (\<exists>i<length (conn_map st). pl_active (iap_pipeline (post_at st i)) \<noteq> 0 \<and> conn_at st i \<noteq> 0)"
proof -
  obtain v :: "hal_stub adapter_state iap_state" and resp st1 where s:
    "booted stub_device test_flash_initialized 0x200000 0x20000 sample_iap (sample_httpd v)"
    "httpd_post_begin 7 (ascii ''/iap/upload'') 32 (sample_httpd v) = (ERR_OK, resp, st1)"
    using sample_upload by blast
  have u: "take 11 (ascii ''/iap/upload'') = ascii ''/iap/upload''" by simp
  have fr: "fresh_connection 7 (sample_httpd v)" by simp
  have h: "history_ok [PostBegin 7 (ascii ''/iap/upload'') 32] (sample_httpd v)"
    "st1 = fold http_event [PostBegin 7 (ascii ''/iap/upload'') 32] (sample_httpd v)" using s(2) by (simp_all add: list_all_iff)
  then have reach: "web_reach (sample_httpd v) st1" using web_reach_history by blast
  obtain i pl x where i: "i < length (conn_map st1)" "post_at st1 i = zero_ps\<lparr>content_len := 32,
      post_mode := HTTPD_POST_MODE_IAP_BIN, iap_pipeline := pl\<rparr>"
    "UpdateIngestPipeline_Begin UpdateIngestPipeline_Reset 32 (registry v) (core v) = (IAP_UPDATE_INGEST_E_OK, pl, x)"
    using begin_upload_cases [OF fr u s(2)] map_lookup_SomeD by fastforce
  have "pl_active pl = 1" using i(3) by (auto simp: UpdateIngestPipeline_Begin_def split: if_splits prod.splits)
  then have "open_at st1 i" using i(2) by (simp add: open_at_def)
  then have "active (writer (core (iap st1)))"
    using flash_hal_words.reached(1) [OF stub_words.flash_hal_words_axioms s(1) reach] i(1)
    by (auto simp: web_inv_def posts_inv_def entry_ok_def)
  then show ?thesis
    using web_histories_safe [OF stub_words.flash_hal_words_axioms s(1) h] h by blast
qed

text \<open>C7. An upload that ends READY is stored and gets verified: after every history \<open>es\<close> in which no connection began
  while the table still had an entry with its pointer and no preparation failed to erase the slot (the
  code ensures neither, see \<open>event_ok\<close>), for a slot inside the flash and a connection that has no
  entry yet, an upload that ends READY leaves exactly the first \<open>n\<close> bytes of its body at the slot (\<open>n\<close> the announced
  length, however the body was cut into packets), and more than \<open>n / 256\<close> polls later the state is
  verified.\<close>

theorem web_upload_verified:
  assumes "flash_hal_words dev hal_ok erased" "booted dev hal_ok a sz v0 st0"
    and "history_ok es st0" "st = fold http_event es st0"
    and "in_flash dev a (unat sz)" "fresh_connection c st" "take 11 uri = ascii ''/iap/upload''"
    and "httpd_post_begin c uri len st = (ERR_OK, resp, st1)" "\<forall>q\<in>set (concat reqs). length q < 65536"
    and "httpd_post_finished c (receive_all c reqs st1) = (page, st2)"
    and "up_state (HttpdIapUploadStatus st2) = HTTPD_IAP_UPLOAD_STATE_READY"
    and "unat (of_int len :: u32) div 256 < k"
  shows "length (take (unat (of_int len :: u32)) (concat (concat reqs))) = unat (of_int len :: u32) \<and>
    mem_read (flash_mem dev (hw (fl (store (core (iap st2)))))) a (unat (of_int len :: u32)) =
      take (unat (of_int len :: u32)) (concat (concat reqs)) \<and>
    Iap_IsVerified ((Iap_VerifyPoll ^^ k) (iap st2)) = 1"
proof -
  have "web_reach st0 st" using assms(3,4) web_reach_history by blast
  from flash_hal_words.upload_verified [OF assms(1) flash_hal_words.reached(1-3) [OF assms(1,2) this] assms(5-12)]
  show ?thesis by simp
qed

theorem web_upload_verified_witness:
  "\<exists>(v :: hal_stub adapter_state iap_state) resp st1 page st2. httpd_post_begin 7 (ascii ''/iap/upload'') 32 (sample_httpd v) = (ERR_OK, resp, st1) \<and>
     httpd_post_finished 7 (receive_all 7 [[replicate 32 7]] st1) = (page, st2) \<and>
     mem_read (flash_mem stub_device (hw (fl (store (core (iap st2)))))) 0x200000 32 = replicate 32 7 \<and>
     Iap_IsVerified ((Iap_VerifyPoll ^^ 1) (iap st2)) = 1"
proof -
  obtain v resp st1 page st2 where s: "booted stub_device test_flash_initialized 0x200000 0x20000 sample_iap (sample_httpd v)"
    "httpd_post_begin 7 (ascii ''/iap/upload'') 32 (sample_httpd v) = (ERR_OK, resp, st1)"
    "httpd_post_finished 7 (receive_all 7 [[replicate 32 7]] st1) = (page, st2)"
    "up_state (HttpdIapUploadStatus st2) = HTTPD_IAP_UPLOAD_STATE_READY"
    using sample_upload by blast
  have inf: "in_flash stub_device 0x200000 (unat (0x20000 :: u32))" by (simp add: in_flash_def stub_device_def)
  have "mem_read (flash_mem stub_device (hw (fl (store (core (iap st2)))))) 0x200000 32 = replicate 32 7 \<and>
      Iap_IsVerified ((Iap_VerifyPoll ^^ 1) (iap st2)) = 1"
    using web_upload_verified [OF stub_words.flash_hal_words_axioms s(1), of "[]", OF _ _ inf _ _ s(2) _ s(3,4), of 1] by simp
  then show ?thesis using s(2,3) by blast
qed

text \<open>C19. The service recovers: after every history \<open>es\<close> in which no connection began while the table still had
  an entry with its pointer and no preparation failed to erase the slot (see \<open>event_ok\<close>; after such a connection
  it can be stuck for good, \<open>refused_begin_strands_writer\<close>), a session reset and a preparation whose erase works
  succeed, whatever upload was going on.  Then an upload is accepted on a connection that has no entry in the table,
  if the table has a free entry and the announced length is positive, fits the slot and is a multiple of the
  programming unit.\<close>

theorem prepare_recovers:
  assumes "flash_hal_words dev hal_ok erased" "booted dev hal_ok a sz v0 st0"
    and "history_ok es st0" "st = fold http_event es st0"
    and "Iap_PrepareUploadSlot (iap (HttpdPost_ResetIapUploadSession st)) = (r, v)" "r \<noteq> IAP_PREPARE_E_BACKEND"
    and "fresh_connection c (HttpdPost_ResetIapUploadSession st)"
    and "find_conn 0 (conn_map (HttpdPost_ResetIapUploadSession st)) = Some i"
    and "take 11 uri = ascii ''/iap/upload''" "0 < len" "nat len \<le> unat sz"
    and "unat (FLASH_FLASHWORD_SIZE dev) dvd nat len"
  shows "r = IAP_PREPARE_E_OK \<and>
    fst (httpd_post_begin c uri len ((HttpdPost_ResetIapUploadSession st)\<lparr>iap := v\<rparr>)) = ERR_OK"
proof -
  note sp = flash_hal_words.adapter_prog [OF assms(1)]
  have "web_reach st0 st" using assms(3,4) web_reach_history by blast
  note inv = flash_hal_words.reached [OF assms(1,2) this]
  let ?st = "HttpdPost_ResetIapUploadSession st"
  note rs = storage_prog.reset_session_inv [OF sp inv(1)]
  note pr = storage_prog.prepare_inv [OF sp conjunct1 [OF rs] assms(5,6)]
  have v: "web_inv (adapter_ops dev) (\<lambda>st. flash_mem dev (hw (fl st))) (\<lambda>st. erased (hw (fl st))) (adapter_inv dev hal_ok)
      (FLASH_FLASHWORD_SIZE dev) (?st\<lparr>iap := v\<rparr>)" "r = IAP_PREPARE_E_OK" "slot_prepared (writer (core v))" "\<not> active (writer (core v))"
    "slot_size (config (writer (core v))) = sz"
    using pr rs inv(3) by (auto simp: slot_frame_def)
  have c: "core_inv (adapter_ops dev) (\<lambda>st. erased (hw (fl st))) (adapter_inv dev hal_ok) (FLASH_FLASHWORD_SIZE dev) (core v)"
    "UpdateIngestRegistry_Get True (registry v) = (IAP_UPDATE_INGEST_E_OK, Some adapter_binding)"
    using v(1) by (simp_all add: web_inv_def service_inv_def)
  have n: "unat (of_int len :: u32) = nat len"
    using assms(10,11) unat_u32_bound [of sz] by (metis int_nat_eq le_less_trans less_le_not_le of_int_of_nat_eq unat_of_nat_u32)
  have "(of_int len :: u32) \<noteq> 0" using n assms(10) by auto
  then have ok: "fst (UpdateIngestPipeline_Begin UpdateIngestPipeline_Reset (of_int len) (registry v) (core v)) = IAP_UPDATE_INGEST_E_OK"
    using begin_prepared [OF c(1,2) v(3,4), of "of_int len"] assms(10-12) v(5) n by simp
  have "fresh_connection c (?st\<lparr>iap := v\<rparr>)" "find_conn 0 (conn_map (?st\<lparr>iap := v\<rparr>)) = Some i"
    using assms(7,8) by (simp_all add: fresh_connection_def)
  from begin_upload_ok [OF this assms(9,10)] ok v(2) show ?thesis by simp
qed

theorem prepare_recovers_witness:
  "\<exists>(v :: hal_stub adapter_state iap_state) w. Iap_PrepareUploadSlot (iap (HttpdPost_ResetIapUploadSession (sample_httpd v))) = (IAP_PREPARE_E_OK, w) \<and>
     fst (httpd_post_begin 7 (ascii ''/iap/upload'') 64 ((HttpdPost_ResetIapUploadSession (sample_httpd v))\<lparr>iap := w\<rparr>)) = ERR_OK"
proof -
  obtain s v where v: "Iap_Init stub_device 0x200000 0x20000 sample_iap = (IAP_E_OK, v)"
    "core v = \<lparr>ingest = \<lparr>writer_set = True, pending_len = 0, pending = replicate 64 0\<rparr>, writer = sample_prepared s, store = s\<rparr>"
    "adapter_inv stub_device test_flash_initialized s"
    using sample_init by blast
  let ?st = "HttpdPost_ResetIapUploadSession (sample_httpd v)"
  have keep: "HttpdPost_ClearSingleIapSession i (sample_httpd v) = sample_httpd v" if "i < 8" for i
    using that by (simp add: HttpdPost_ClearSingleIapSession_def)
  have "foldl (\<lambda>st i. HttpdPost_ClearSingleIapSession i st) (sample_httpd v) [0..<k] = sample_httpd v" if "k \<le> 8" for k
    using that by (induction k) (simp_all add: keep)
  from this [of 8] have st: "?st = idle_upload (sample_httpd v)" by (simp add: HttpdPost_ResetIapUploadSession_def)
  have f: "iap ?st = v" "conn_map ?st = replicate 8 \<lparr>conn = 0, ps = zero_ps\<rparr>" "current_connection ?st = 0"
    unfolding st by (simp_all add: idle_upload_def)
  have "flash_ready stub_device (Info (fl s))" using v(3) by (simp add: adapter_inv_def)
  then obtain f1 where e: "Flash_Erase stub_device 0x200000 0x20000 (fl s) = (FLASH_E_OK, f1)"
    using stub_erase_one [of "fl s" "0x200000"] by (auto simp: in_flash_def stub_device_def)
  obtain r w where p: "Iap_PrepareUploadSlot (iap ?st) = (r, w)" by fastforce
  have r: "r \<noteq> IAP_PREPARE_E_BACKEND"
    using p e by (auto simp: f(1) v(2) Iap_PrepareUploadSlot_def sample_prepared_def adapter_ops_def IapFlashAdapter_Erase_def Let_def)
  have fr: "fresh_connection 7 ?st" "find_conn 0 (conn_map ?st) = Some 0"
    by (simp_all add: f(2,3) fresh_connection_def conn_at_def)
  have "r = IAP_PREPARE_E_OK \<and> fst (httpd_post_begin 7 (ascii ''/iap/upload'') 64 (?st\<lparr>iap := w\<rparr>)) = ERR_OK"
    using prepare_recovers [OF stub_words.flash_hal_words_axioms sample_booted [OF v(1)], of "[]", OF _ _ p r fr, of "ascii ''/iap/upload''" 64]
    by (simp add: stub_flashword)
  then show ?thesis using p by blast
qed

text \<open>A connection pointer that lwIP hands out again, while the entry of its first, overtaken upload is
  still in the table, stops the update service: the new upload is refused because the writer is busy,
  its \<open>map_free\<close> releases the older entry instead of its own, and from then on no session reset aborts
  the writer and every slot preparation answers \<open>IAP_PREPARE_E_STATE\<close>.\<close>

theorem refused_begin_strands_writer:
  assumes "flash_hal_words dev hal_ok erased" "booted dev hal_ok a sz v0 st0" "web_reach st0 st"
    and "map_lookup c st = Some i" "open_at st i" "c \<noteq> 0" "current_connection st \<noteq> c"
    and "find_conn 0 (conn_map st) = Some j" "i < j" "take 11 uri = ascii ''/iap/upload''"
  shows "let (e, resp, st1) = httpd_post_begin c uri len st; st2 = HttpdPost_ResetIapUploadSession st1
    in e = ERR_VAL \<and> conn_at st1 i = 0 \<and> active (writer (core (iap st2))) \<and>
      fst (Iap_PrepareUploadSlot (iap st2)) = IAP_PREPARE_E_STATE"
proof -
  note r = flash_hal_words.reached(1) [OF assms(1-3)]
  have il: "i < length (conn_map st)" using map_lookup_SomeD [OF assms(4)] by simp
  have w: "active (writer (core (iap st)))" "initialized (writer (core (iap st)))"
    "UpdateIngestRegistry_Get True (registry (iap st)) = (IAP_UPDATE_INGEST_E_OK, Some adapter_binding)"
    and single: "\<forall>k<length (conn_map st). open_at st k \<longrightarrow> k = i"
    using r il assms(5) by (auto simp: web_inv_def posts_inv_def entry_ok_def service_inv_def core_inv_def)
  obtain e resp st1 where b: "httpd_post_begin c uri len st = (e, resp, st1)" by (metis prod_cases3)
  note f = refused_begin [OF assms(4,8,9,6,7,10) w(3,1,2) b]
  have "\<not> open_at st1 k" if "k < length (conn_map st1)" "conn_at st1 k \<noteq> 0" for k
    using that f single by (cases "k = j"; cases "k = i") (auto simp: open_at_def)
  then have "core (iap (HttpdPost_ResetIapUploadSession st1)) = core (iap st1)" by (intro reset_session_closed) blast
  then show ?thesis using b f w(1,2) by (simp add: Iap_PrepareUploadSlot_def)
qed

text \<open>The history: an upload on connection 7, a form on connection 9, and connection 7 again.\<close>

theorem refused_begin_strands_writer_witness:
  "\<exists>(v :: hal_stub adapter_state iap_state) resp st1 resp' st2 resp'' st3.
     httpd_post_begin 7 (ascii ''/iap/upload'') 32 (sample_httpd v) = (ERR_OK, resp, st1) \<and>
     httpd_post_begin 9 (ascii ''/can.cgi'') 12 st1 = (ERR_OK, resp', st2) \<and>
     httpd_post_begin 7 (ascii ''/iap/upload'') 32 st2 = (ERR_VAL, resp'', st3) \<and>
     fst (Iap_PrepareUploadSlot (iap (HttpdPost_ResetIapUploadSession st3))) = IAP_PREPARE_E_STATE"
proof -
  obtain v :: "hal_stub adapter_state iap_state" and resp st1 where s:
    "booted stub_device test_flash_initialized 0x200000 0x20000 sample_iap (sample_httpd v)"
    "httpd_post_begin 7 (ascii ''/iap/upload'') 32 (sample_httpd v) = (ERR_OK, resp, st1)"
    using sample_upload by blast
  have u: "take 11 (ascii ''/iap/upload'') = ascii ''/iap/upload''" by simp
  have rep: "replicate 8 z = [z, z, z, z, z, z, z, z]" for z :: u32 by (simp add: numeral_eq_Suc)
  have m1: "map conn (conn_map st1) = (replicate 8 0)[0 := 7]"
    using upload_slot [OF _ u s(2), of 0] by simp
  have fr: "fresh_connection 7 (sample_httpd v)" by simp
  obtain i pl x where i: "map_lookup 7 st1 = Some i" "current_connection st1 = 7"
    "UpdateIngestPipeline_Begin UpdateIngestPipeline_Reset 32 (registry v) (core v) = (IAP_UPDATE_INGEST_E_OK, pl, x)"
    "post_at st1 i = zero_ps\<lparr>content_len := 32, post_mode := HTTPD_POST_MODE_IAP_BIN, iap_pipeline := pl\<rparr>"
    using begin_upload_cases [OF fr u s(2)] by auto
  have len: "length (conn_map st1) = 8" using m1 by (metis length_list_update length_map length_replicate)
  have slot: "find_conn k (conn_map s) = find_conn k (map (\<lambda>k. \<lparr>conn = k, ps = zero_ps :: hal_stub adapter_state ingest_state HttpdPostStateType\<rparr>) ks)"
    if "map conn (conn_map s) = ks" for k ks and s :: "hal_stub adapter_state httpd_state"
    using that by (intro find_conn_cong) (auto simp: o_def)
  have i0: "i = 0" using i(1) by (simp add: map_lookup_def slot [OF m1] rep)
  have "pl_active pl = 1" using i(3) by (auto simp: UpdateIngestPipeline_Begin_def split: if_splits prod.splits)
  then have open0: "open_at st1 0" using i(4) by (simp add: open_at_def i0)
  have one: "find_conn 0 (conn_map st1) = Some 1" by (simp add: slot [OF m1] rep)
  define st2 where "st2 = (set_post 1 (zero_ps\<lparr>content_len := 12, post_mode := HTTPD_POST_MODE_FORM_KV\<rparr>)
      (set_conn 1 9 (st1\<lparr>current_connection := 9, valid_connection := 0\<rparr>)))\<lparr>valid_connection := 9\<rparr>"
  have b2: "httpd_post_begin 9 (ascii ''/can.cgi'') 12 st1 = (ERR_OK, Some (ascii ''/404.html''), st2)"
    using one i(2) by (simp add: httpd_post_begin_def map_alloc_def st2_def HTTPD_POST_MODE_FORM_KV_def HTTPD_POST_MODE_IAP_BIN_def)
  have m2: "map conn (conn_map st2) = (replicate 8 0)[0 := 7, 1 := 9]" by (simp add: st2_def m1)
  have s2: "current_connection st2 = 9" "open_at st2 0" using open0 len by (simp_all add: st2_def open_at_def)
  have f2: "map_lookup 7 st2 = Some 0" "find_conn 0 (conn_map st2) = Some 2"
    by (simp_all add: map_lookup_def slot [OF m2] rep)
  have nine: "list_all (\<lambda>e. conn e \<noteq> 9) (conn_map st1)"
  proof -
    have "9 \<notin> set (map conn (conn_map st1))" by (simp add: m1 rep del: set_map)
    then show ?thesis by (auto simp: list_all_iff)
  qed
  have "web_reach (sample_httpd v) st1"
    using web_step [OF web_start, of "PostBegin 7 (ascii ''/iap/upload'') 32" "sample_httpd v"] s(2)
    by (simp add: list_all_iff)
  from web_step [OF this, of "PostBegin 9 (ascii ''/can.cgi'') 12"] b2 nine
  have "web_reach (sample_httpd v) st2" by simp
  note r = refused_begin_strands_writer [OF stub_words.flash_hal_words_axioms s(1) this f2(1) s2(2) _ _ f2(2), of "ascii ''/iap/upload''" 32]
  obtain e resp3 st3 where b3: "httpd_post_begin 7 (ascii ''/iap/upload'') 32 st2 = (e, resp3, st3)" by (metis prod_cases3)
  show ?thesis using s(2) b2 b3 r s2(1)
    by (intro exI [of _ v] exI [of _ resp] exI [of _ st1] exI [of _ "Some (ascii ''/404.html'')"] exI [of _ st2] exI [of _ resp3]
        exI [of _ st3]) (simp add: Let_def)
qed

end
