(* ===== verification/FwUpdateHandoff.thy ===== *)
theory FwUpdateHandoff
  imports Flash Encoding
begin

text \<open>
  \<open>platform/Common/Src/FwUpdateHandoff.c\<close>: the record in a flash sector of its own by which the
  application asks the bootloader to apply an update at the next boot.  The location hook, which
  each firmware overrides, is an argument of the operations: its status and the address it stores.
  The lemmas show that the request survives (in the sense that what one image writes the other
  reads back), that an erased or foreign sector is no request, and what is left untouched.
\<close>

section \<open>The record\<close>

datatype FwUpdateHandoffStatusType =
  FW_UPDATE_HANDOFF_E_OK | FW_UPDATE_HANDOFF_E_PARAM | FW_UPDATE_HANDOFF_E_FLASH | FW_UPDATE_HANDOFF_E_STATE

definition FW_UPDATE_HANDOFF_MAGIC :: u32 where "FW_UPDATE_HANDOFF_MAGIC = 0x46574844"
definition FW_UPDATE_HANDOFF_VERSION :: u32 where "FW_UPDATE_HANDOFF_VERSION = 1"
definition FW_UPDATE_HANDOFF_REQUEST_APPLY :: u32 where "FW_UPDATE_HANDOFF_REQUEST_APPLY = 0x4150504C"
definition FW_UPDATE_HANDOFF_CRC_SALT :: u32 where "FW_UPDATE_HANDOFF_CRC_SALT = 0xA5A5A5A5"

record FwUpdateHandoffRecordType =
  magic :: u32
  version :: u32
  request :: u32
  request_inv :: u32
  crc :: u32
  reserved0 :: u32
  reserved1 :: u32
  reserved2 :: u32

text \<open>The record as the flash driver sees it, and back.\<close>

definition record_bytes :: "FwUpdateHandoffRecordType \<Rightarrow> bytes" where
  "record_bytes r = u32_le (magic r) @ u32_le (version r) @ u32_le (request r) @ u32_le (request_inv r) @
     u32_le (crc r) @ u32_le (reserved0 r) @ u32_le (reserved1 r) @ u32_le (reserved2 r)"

definition record_of_bytes :: "bytes \<Rightarrow> FwUpdateHandoffRecordType" where
  "record_of_bytes bs = \<lparr>magic = u32_of_le bs, version = u32_of_le (drop 4 bs), request = u32_of_le (drop 8 bs),
     request_inv = u32_of_le (drop 12 bs), crc = u32_of_le (drop 16 bs), reserved0 = u32_of_le (drop 20 bs),
     reserved1 = u32_of_le (drop 24 bs), reserved2 = u32_of_le (drop 28 bs)\<rparr>"

definition record_size :: size_t where "record_size = 32"

text \<open>The operations pass the addresses of local records, never \<open>NULL\<close>.\<close>

definition FwUpdateHandoff_Crc :: "FwUpdateHandoffRecordType option \<Rightarrow> u32" where
  "FwUpdateHandoff_Crc rec = (case rec of None \<Rightarrow> 0
     | Some r \<Rightarrow> magic r XOR version r XOR request r XOR request_inv r XOR FW_UPDATE_HANDOFF_CRC_SALT)"

definition FwUpdateHandoff_RecordIsValid :: "FwUpdateHandoffRecordType option \<Rightarrow> u8" where
  "FwUpdateHandoff_RecordIsValid rec = (case rec of None \<Rightarrow> 0
     | Some r \<Rightarrow>
         if magic r \<noteq> FW_UPDATE_HANDOFF_MAGIC \<or> version r \<noteq> FW_UPDATE_HANDOFF_VERSION \<or>
            request r \<noteq> FW_UPDATE_HANDOFF_REQUEST_APPLY \<or>
            request_inv r \<noteq> NOT FW_UPDATE_HANDOFF_REQUEST_APPLY \<or> crc r \<noteq> FwUpdateHandoff_Crc rec
         then 0 else 1)"

section \<open>Operations\<close>

text \<open>The hook of this file, in force when no firmware overrides it: it stores nothing.\<close>

type_synonym marker_hook = "FwUpdateHandoffStatusType \<times> u32"

definition FwUpdateHandoff_GetMarkerAddress_Hook :: "u32 \<Rightarrow> marker_hook" where
  "FwUpdateHandoff_GetMarkerAddress_Hook address = (FW_UPDATE_HANDOFF_E_STATE, address)"

definition FwUpdateHandoff_GetMarkerLocation ::
  "'h flash_device \<Rightarrow> marker_hook \<Rightarrow> bool \<Rightarrow> bool \<Rightarrow> 'h flash_state \<Rightarrow>
   FwUpdateHandoffStatusType \<times> (u32 \<times> u32) option \<times> 'h flash_state" where
  "FwUpdateHandoff_GetMarkerLocation dev hook address sector st =
     (if \<not> address \<or> \<not> sector then (FW_UPDATE_HANDOFF_E_PARAM, None, st)
      else
        let (flash_status, out, st) = Flash_GetInfo dev True st; info = the out
        in if flash_status \<noteq> FLASH_E_OK \<or> sector_size info = 0 then (FW_UPDATE_HANDOFF_E_FLASH, None, st)
           else
             let (r, marker) = hook
             in if FW_UPDATE_HANDOFF_E_OK \<noteq> r then (FW_UPDATE_HANDOFF_E_STATE, None, st)
                else if marker < base_addr info \<or> marker > UINT32_MAX - sector_size info \<or>
                        marker + sector_size info > end_addr info \<or> marker mod sector_size info \<noteq> 0
                then (FW_UPDATE_HANDOFF_E_STATE, None, st)
                else (FW_UPDATE_HANDOFF_E_OK, Some (marker, sector_size info), st))"

definition apply_record :: FwUpdateHandoffRecordType where
  "apply_record =
     (let r = \<lparr>magic = FW_UPDATE_HANDOFF_MAGIC, version = FW_UPDATE_HANDOFF_VERSION,
            request = FW_UPDATE_HANDOFF_REQUEST_APPLY, request_inv = NOT FW_UPDATE_HANDOFF_REQUEST_APPLY,
            crc = 0, reserved0 = 0, reserved1 = 0, reserved2 = 0\<rparr>
      in r\<lparr>crc := FwUpdateHandoff_Crc (Some r)\<rparr>)"

text \<open>\<open>rec_addr\<close> is the address of the local record that is written.  A read that fails leaves the
  local record as it is.\<close>

definition FwUpdateHandoff_RequestApply ::
  "'h flash_device \<Rightarrow> marker_hook \<Rightarrow> u32 \<Rightarrow> 'h flash_state \<Rightarrow> FwUpdateHandoffStatusType \<times> 'h flash_state" where
  "FwUpdateHandoff_RequestApply dev hook rec_addr st =
     (case FwUpdateHandoff_GetMarkerLocation dev hook True True st of
        (handoff_status, loc, st) \<Rightarrow>
          if handoff_status \<noteq> FW_UPDATE_HANDOFF_E_OK then (handoff_status, st)
          else
            let (marker_address, sect) = the loc; rec = record_bytes apply_record;
                (flash_status, readback) = Flash_Read dev marker_address True record_size st
            in if flash_status = FLASH_E_OK \<and>
                  FwUpdateHandoff_RecordIsValid (Some (record_of_bytes (the readback))) \<noteq> 0
               then (FW_UPDATE_HANDOFF_E_OK, st)
               else
                 let (flash_status, st) = Flash_Erase dev marker_address sect st
                 in if flash_status \<noteq> FLASH_E_OK then (FW_UPDATE_HANDOFF_E_FLASH, st)
                    else
                      let (flash_status, st) = Flash_Write dev marker_address (Some (rec_addr, rec)) record_size st
                      in if flash_status \<noteq> FLASH_E_OK then (FW_UPDATE_HANDOFF_E_FLASH, st)
                         else
                           let (flash_status, readback) = Flash_Read dev marker_address True record_size st
                           in if flash_status \<noteq> FLASH_E_OK \<or> rec \<noteq> the readback
                              then (FW_UPDATE_HANDOFF_E_FLASH, st)
                              else (FW_UPDATE_HANDOFF_E_OK, st))"

definition FwUpdateHandoff_ClearApplyRequest ::
  "'h flash_device \<Rightarrow> marker_hook \<Rightarrow> 'h flash_state \<Rightarrow> FwUpdateHandoffStatusType \<times> 'h flash_state" where
  "FwUpdateHandoff_ClearApplyRequest dev hook st =
     (case FwUpdateHandoff_GetMarkerLocation dev hook True True st of
        (handoff_status, loc, st) \<Rightarrow>
          if handoff_status \<noteq> FW_UPDATE_HANDOFF_E_OK then (handoff_status, st)
          else
            let (marker_address, sect) = the loc; (flash_status, st) = Flash_Erase dev marker_address sect st
            in if flash_status \<noteq> FLASH_E_OK then (FW_UPDATE_HANDOFF_E_FLASH, st)
               else (FW_UPDATE_HANDOFF_E_OK, st))"

definition FwUpdateHandoff_IsApplyRequested ::
  "'h flash_device \<Rightarrow> marker_hook \<Rightarrow> 'h flash_state \<Rightarrow> u8 \<times> 'h flash_state" where
  "FwUpdateHandoff_IsApplyRequested dev hook st =
     (case FwUpdateHandoff_GetMarkerLocation dev hook True True st of
        (handoff_status, loc, st) \<Rightarrow>
          if handoff_status \<noteq> FW_UPDATE_HANDOFF_E_OK then (0, st)
          else
            let (marker_address, sect) = the loc;
                (flash_status, rec) = Flash_Read dev marker_address True record_size st
            in if flash_status \<noteq> FLASH_E_OK then (0, st)
               else (FwUpdateHandoff_RecordIsValid (Some (record_of_bytes (the rec))), st))"

section \<open>The record survives its byte layout\<close>

lemma length_record_bytes [simp]: "length (record_bytes r) = 32"
  by (simp add: record_bytes_def)

lemma record_of_record_bytes [simp]: "record_of_bytes (record_bytes r) = r"
  by (cases r) (simp add: record_bytes_def record_of_bytes_def)

lemma RecordIsValid_iff: "FwUpdateHandoff_RecordIsValid (Some r) \<noteq> 0 \<longleftrightarrow>
    r\<lparr>reserved0 := 0, reserved1 := 0, reserved2 := 0\<rparr> = apply_record"
  by (cases r) (auto simp: FwUpdateHandoff_RecordIsValid_def apply_record_def FwUpdateHandoff_Crc_def Let_def)

lemma RecordIsValid_bool: "FwUpdateHandoff_RecordIsValid r \<in> {0, 1}"
  by (auto simp: FwUpdateHandoff_RecordIsValid_def split: option.splits)

lemma apply_record_valid: "FwUpdateHandoff_RecordIsValid (Some apply_record) = 1"
  by (simp add: FwUpdateHandoff_RecordIsValid_def apply_record_def FwUpdateHandoff_Crc_def Let_def)

text \<open>An erased sector is no request.\<close>

lemma erased_record_invalid:
  assumes "\<And>i. i < 32 \<Longrightarrow> bs ! i = 0xFF" "length bs = 32"
  shows "FwUpdateHandoff_RecordIsValid (Some (record_of_bytes bs)) = 0"
proof -
  have "u32_of_le bs = 0xFFFFFFFF" using assms by (simp add: u32_of_le_def)
  then show ?thesis
    by (simp add: FwUpdateHandoff_RecordIsValid_def record_of_bytes_def FW_UPDATE_HANDOFF_MAGIC_def)
qed

section \<open>The marker\<close>

definition marker_place :: "'h flash_device \<Rightarrow> u32 \<Rightarrow> bool" where
  "marker_place dev a \<longleftrightarrow> in_flash dev a (unat (FLASH_SECTOR_SIZE dev)) \<and>
     unat (FLASH_SECTOR_SIZE dev) dvd unat a"

text \<open>The bytes at the marker are a request.\<close>

definition marker_set :: "'h flash_device \<Rightarrow> u32 \<Rightarrow> 'h flash_state \<Rightarrow> bool" where
  "marker_set dev a st \<longleftrightarrow>
     FwUpdateHandoff_RecordIsValid (Some (record_of_bytes (mem_read (flash_mem dev (hw st)) a 32))) \<noteq> 0"

text \<open>The driver is initialised, or will be on its first use after a reset.\<close>

definition driver_usable :: "'h flash_device \<Rightarrow> ('h \<Rightarrow> bool) \<Rightarrow> 'h flash_state \<Rightarrow> bool" where
  "driver_usable dev hal_ok st \<longleftrightarrow> hal_ok (hw st) \<and> (flash_ready dev (Info st) \<or> total_size (Info st) = 0)"

text \<open>A sector holds the record.\<close>

locale handoff_flash = flash_hal dev hal_ok erased
  for dev :: "'h flash_device" and hal_ok erased +
  assumes sector_holds_record: "32 \<le> unat (FLASH_SECTOR_SIZE dev)"
begin

lemma unat_record_size: "unat record_size = 32"
  by (simp add: record_size_def)

lemma sector_small: "unat (FLASH_SECTOR_SIZE dev) < 4294967296"
  by (rule unat_u32_bound)

lemma marker_check:
  assumes "flash_ready dev info"
  shows "\<not> (a < base_addr info \<or> a > UINT32_MAX - sector_size info \<or> a + sector_size info > end_addr info \<or>
      a mod sector_size info \<noteq> 0) \<longleftrightarrow> marker_place dev a"
proof -
  have no_wrap: "\<not> a > UINT32_MAX - FLASH_SECTOR_SIZE dev \<longleftrightarrow> unat a + unat (FLASH_SECTOR_SIZE dev) \<le> 4294967295"
    using unat_u32_le_max [of "FLASH_SECTOR_SIZE dev"] by (auto simp: word_less_nat_alt unat_u32_max_minus)
  have "unat a + unat (FLASH_SECTOR_SIZE dev) \<le> 4294967295 \<Longrightarrow>
      unat (a + FLASH_SECTOR_SIZE dev) = unat a + unat (FLASH_SECTOR_SIZE dev)"
    by (simp add: unat_add_small)
  then show ?thesis
    using no_wrap end_small assms
    by (auto simp: flash_ready_def marker_place_def in_flash_def word_less_nat_alt end_word not_less mod_0_dvd)
qed

lemma GetInfo_usable:
  assumes "driver_usable dev hal_ok st"
  shows "\<exists>st'. Flash_GetInfo dev True st = (FLASH_E_OK, Some (Info st'), st') \<and> flash_ready dev (Info st') \<and>
    hal_ok (hw st') \<and> flash_mem dev (hw st') = flash_mem dev (hw st)"
proof (cases "total_size (Info st) = 0")
  case True
  obtain r h where u: "HAL_FLASH_Unlock dev (hw st) = (r, h)" by fastforce
  have "hal_ok h" "flash_mem dev h = flash_mem dev (hw st)"
    using unlock [OF _ u] assms by (simp_all add: driver_usable_def)
  then show ?thesis
    using True flash_ready_Init [of st] u by (simp add: Flash_GetInfo_def Flash_Init_def Let_def)
next
  case False
  then show ?thesis using assms by (simp add: Flash_GetInfo_def driver_usable_def)
qed

lemma location_cases:
  assumes "driver_usable dev hal_ok st" "FwUpdateHandoff_GetMarkerLocation dev hook True True st = (r, loc, st')"
  shows "flash_ready dev (Info st') \<and> hal_ok (hw st') \<and> flash_mem dev (hw st') = flash_mem dev (hw st) \<and>
    (r, loc) = (if fst hook = FW_UPDATE_HANDOFF_E_OK \<and> marker_place dev (snd hook)
       then (FW_UPDATE_HANDOFF_E_OK, Some (snd hook, FLASH_SECTOR_SIZE dev)) else (FW_UPDATE_HANDOFF_E_STATE, None))"
proof -
  obtain st1 where g: "Flash_GetInfo dev True st = (FLASH_E_OK, Some (Info st1), st1)"
    "flash_ready dev (Info st1)" "hal_ok (hw st1)" "flash_mem dev (hw st1) = flash_mem dev (hw st)"
    using GetInfo_usable [OF assms(1)] by blast
  have ss: "sector_size (Info st1) = FLASH_SECTOR_SIZE dev" "FLASH_SECTOR_SIZE dev \<noteq> 0"
    using g(2) sector_pos by (auto simp: flash_ready_def)
  let ?bad = "snd hook < base_addr (Info st1) \<or> snd hook > UINT32_MAX - sector_size (Info st1) \<or>
    snd hook + sector_size (Info st1) > end_addr (Info st1) \<or> snd hook mod sector_size (Info st1) \<noteq> 0"
  have bad: "?bad \<longleftrightarrow> \<not> marker_place dev (snd hook)"
    by (simp only: marker_check [OF g(2), symmetric] not_not)
  have "FwUpdateHandoff_GetMarkerLocation dev hook True True st =
      (if fst hook \<noteq> FW_UPDATE_HANDOFF_E_OK \<or> ?bad then (FW_UPDATE_HANDOFF_E_STATE, None, st1)
       else (FW_UPDATE_HANDOFF_E_OK, Some (snd hook, sector_size (Info st1)), st1))"
    unfolding FwUpdateHandoff_GetMarkerLocation_def g(1)
    by (cases hook, cases "fst hook = FW_UPDATE_HANDOFF_E_OK") (simp_all add: ss(2) ss(1))
  then show ?thesis unfolding bad using assms(2) g ss(1) by (auto split: if_splits)
qed

lemma marker_read:
  assumes "flash_ready dev (Info st)" "marker_place dev a"
  shows "Flash_Read dev a True record_size st = (FLASH_E_OK, Some (mem_read (flash_mem dev (hw st)) a 32))"
proof -
  have "in_flash dev a 32" using assms(2) sector_holds_record by (simp add: marker_place_def in_flash_def)
  then show ?thesis
    using AddressCheck_read [OF assms(1), of a record_size] by (simp add: Flash_Read_def unat_record_size)
qed

lemma marker_erase:
  assumes "flash_ready dev (Info st)" "hal_ok (hw st)" "Flash_Erase dev a (FLASH_SECTOR_SIZE dev) st = (r, st')"
  shows "flash_ready dev (Info st') \<and> hal_ok (hw st') \<and>
    flash_same_outside dev erased a (unat (FLASH_SECTOR_SIZE dev)) (hw st) (hw st') \<and>
    (r = FLASH_E_OK \<longrightarrow> \<not> marker_set dev a st' \<and> (\<forall>x. in_range x a 32 \<longrightarrow> erased (hw st') x))"
proof -
  note e = flash_erase_ok [OF assms]
  have "\<not> marker_set dev a st' \<and> (\<forall>x. in_range x a 32 \<longrightarrow> erased (hw st') x)" if r: "r = FLASH_E_OK"
  proof -
    have in_sector: "in_range x a (unat (FLASH_SECTOR_SIZE dev))" if "in_range x a 32" for x
      using that sector_holds_record by (rule in_range_mono)
    have "mem_read (flash_mem dev (hw st')) a 32 ! i = 0xFF" if "i < 32" for i
      using that e(4) [OF r in_sector [OF in_range_offset [of 32 i a]]] by simp
    then have "\<not> marker_set dev a st'" unfolding marker_set_def by (subst erased_record_invalid) simp_all
    then show ?thesis using e(4) [OF r in_sector] by blast
  qed
  then show ?thesis using e assms(1) by simp
qed

lemma marker_write:
  assumes "flash_ready dev (Info st)" "hal_ok (hw st)" "length bs = 32"
    "Flash_Write dev a (Some (p, bs)) record_size st = (r, st')"
  shows "flash_ready dev (Info st') \<and> hal_ok (hw st') \<and>
    flash_same_outside dev erased a (unat (FLASH_SECTOR_SIZE dev)) (hw st) (hw st')"
proof -
  have "length bs = unat record_size" using assms(3) by (simp add: unat_record_size)
  note w = flash_write_ok [OF assms(1,2) this assms(4)]
  have "flash_same_outside dev erased a (unat (FLASH_SECTOR_SIZE dev)) (hw st) (hw st')"
    using w(3) sector_holds_record sector_small flash_same_outside_within [of dev erased a 0 "unat record_size"]
    by (simp add: unat_record_size)
  then show ?thesis using w assms(1) by simp
qed

text \<open>What the three operations do.\<close>

lemma IsApplyRequested_exact:
  assumes "driver_usable dev hal_ok st" "FwUpdateHandoff_IsApplyRequested dev hook st = (b, st')"
  shows "flash_ready dev (Info st') \<and> hal_ok (hw st') \<and> flash_mem dev (hw st') = flash_mem dev (hw st) \<and>
    b = (if fst hook = FW_UPDATE_HANDOFF_E_OK \<and> marker_place dev (snd hook) \<and> marker_set dev (snd hook) st
         then 1 else 0)"
proof -
  obtain r loc st1 where l: "FwUpdateHandoff_GetMarkerLocation dev hook True True st = (r, loc, st1)"
    by (metis prod_cases3)
  note c = location_cases [OF assms(1) l]
  show ?thesis
  proof (cases "fst hook = FW_UPDATE_HANDOFF_E_OK \<and> marker_place dev (snd hook)")
    case True
    then have "b = FwUpdateHandoff_RecordIsValid (Some (record_of_bytes (mem_read (flash_mem dev (hw st)) (snd hook) 32)))"
      "st' = st1"
      using assms(2) c l marker_read [of st1 "snd hook"] by (auto simp: FwUpdateHandoff_IsApplyRequested_def)
    then show ?thesis
      using True c RecordIsValid_bool [of "Some (record_of_bytes (mem_read (flash_mem dev (hw st)) (snd hook) 32))"]
      by (auto simp: marker_set_def)
  next
    case False
    then show ?thesis using assms(2) c l by (auto simp: FwUpdateHandoff_IsApplyRequested_def)
  qed
qed

lemma ClearApplyRequest_exact:
  assumes "driver_usable dev hal_ok st" "FwUpdateHandoff_ClearApplyRequest dev hook st = (r, st')"
  shows "flash_ready dev (Info st') \<and> hal_ok (hw st') \<and>
    (\<forall>x. \<not> in_range x (snd hook) (unat (FLASH_SECTOR_SIZE dev)) \<longrightarrow>
       flash_mem dev (hw st') x = flash_mem dev (hw st) x) \<and>
    (r = FW_UPDATE_HANDOFF_E_OK \<longrightarrow> fst hook = FW_UPDATE_HANDOFF_E_OK \<and> marker_place dev (snd hook) \<and>
       \<not> marker_set dev (snd hook) st')"
proof -
  obtain lr loc st1 where l: "FwUpdateHandoff_GetMarkerLocation dev hook True True st = (lr, loc, st1)"
    by (metis prod_cases3)
  note c = location_cases [OF assms(1) l]
  show ?thesis
  proof (cases "fst hook = FW_UPDATE_HANDOFF_E_OK \<and> marker_place dev (snd hook)")
    case True
    obtain fr st2 where e: "Flash_Erase dev (snd hook) (FLASH_SECTOR_SIZE dev) st1 = (fr, st2)" by fastforce
    have "st' = st2" "r = FW_UPDATE_HANDOFF_E_OK \<longleftrightarrow> fr = FLASH_E_OK"
      using assms(2) c l e True by (auto simp: FwUpdateHandoff_ClearApplyRequest_def split: if_splits)
    then show ?thesis
      using marker_erase [OF _ _ e] c True by (auto simp: flash_same_outside_def)
  next
    case False
    then show ?thesis using assms(2) c l by (auto simp: FwUpdateHandoff_ClearApplyRequest_def)
  qed
qed

lemma RequestApply_exact:
  assumes "driver_usable dev hal_ok st" "FwUpdateHandoff_RequestApply dev hook p st = (r, st')"
  shows "flash_ready dev (Info st') \<and> hal_ok (hw st') \<and>
    (\<forall>x. \<not> in_range x (snd hook) (unat (FLASH_SECTOR_SIZE dev)) \<longrightarrow>
       flash_mem dev (hw st') x = flash_mem dev (hw st) x) \<and>
    (r = FW_UPDATE_HANDOFF_E_OK \<longrightarrow> fst hook = FW_UPDATE_HANDOFF_E_OK \<and> marker_place dev (snd hook) \<and>
       marker_set dev (snd hook) st') \<and>
    (fst hook = FW_UPDATE_HANDOFF_E_OK \<and> marker_place dev (snd hook) \<and> marker_set dev (snd hook) st \<longrightarrow>
       r = FW_UPDATE_HANDOFF_E_OK \<and> flash_mem dev (hw st') = flash_mem dev (hw st))"
proof -
  let ?a = "snd hook"
  obtain lr loc st1 where l: "FwUpdateHandoff_GetMarkerLocation dev hook True True st = (lr, loc, st1)"
    by (metis prod_cases3)
  note c = location_cases [OF assms(1) l]
  show ?thesis
  proof (cases "fst hook = FW_UPDATE_HANDOFF_E_OK \<and> marker_place dev ?a")
    case False
    then show ?thesis using assms(2) c l by (auto simp: FwUpdateHandoff_RequestApply_def)
  next
    case place: True
    then have loc: "lr = FW_UPDATE_HANDOFF_E_OK" "loc = Some (?a, FLASH_SECTOR_SIZE dev)" using c by auto
    have rd1: "Flash_Read dev ?a True record_size st1 = (FLASH_E_OK, Some (mem_read (flash_mem dev (hw st)) ?a 32))"
      using marker_read [of st1 ?a] c place by simp
    show ?thesis
    proof (cases "marker_set dev ?a st")
      case True
      then have "r = FW_UPDATE_HANDOFF_E_OK" "st' = st1"
        using assms(2) l loc rd1 by (simp_all add: FwUpdateHandoff_RequestApply_def marker_set_def)
      then show ?thesis using c place True by (simp add: marker_set_def)
    next
      case unset: False
      obtain er st2 where e: "Flash_Erase dev ?a (FLASH_SECTOR_SIZE dev) st1 = (er, st2)" by fastforce
      note e' = marker_erase [OF conjunct1 [OF c] conjunct1 [OF conjunct2 [OF c]] e]
      obtain wr st3 where w: "Flash_Write dev ?a (Some (p, record_bytes apply_record)) record_size st2 = (wr, st3)"
        by fastforce
      have "flash_ready dev (Info st2)" "hal_ok (hw st2)" using e' by simp_all
      note w' = marker_write [OF this length_record_bytes w]
      have rd3: "Flash_Read dev ?a True record_size st3 = (FLASH_E_OK, Some (mem_read (flash_mem dev (hw st3)) ?a 32))"
        using marker_read [of st3 ?a] w' place by simp
      have run: "(r, st') = (if er \<noteq> FLASH_E_OK then (FW_UPDATE_HANDOFF_E_FLASH, st2)
          else if wr \<noteq> FLASH_E_OK then (FW_UPDATE_HANDOFF_E_FLASH, st3)
          else if record_bytes apply_record \<noteq> mem_read (flash_mem dev (hw st3)) ?a 32
            then (FW_UPDATE_HANDOFF_E_FLASH, st3) else (FW_UPDATE_HANDOFF_E_OK, st3))"
        using assms(2) l loc rd1 e w rd3 unset
        by (simp add: FwUpdateHandoff_RequestApply_def marker_set_def Let_def split: if_splits)
      have "marker_set dev ?a st3" if "record_bytes apply_record = mem_read (flash_mem dev (hw st3)) ?a 32"
        unfolding marker_set_def that [symmetric] by (simp add: apply_record_valid)
      then show ?thesis
        using run unset c e' w' place by (auto simp: flash_same_outside_def split: if_splits)
    qed
  qed
qed

end

interpretation stub_handoff: handoff_flash stub_device test_flash_initialized "\<lambda>h x. test_flash h x = 0xFF"
  by unfold_locales (simp add: stub_device_def)

section \<open>Runs of both images\<close>

text \<open>What the application and the bootloader do with the marker, and resets between them, which
  clear the driver's statics and keep the flash.  \<open>Request p\<close> builds its record at address \<open>p\<close>.\<close>

datatype handoff_op = Request u32 | Clear | Query | Reset

datatype handoff_out = Status FwUpdateHandoffStatusType | Answer bool | Silent

definition handoff_reset :: "'h flash_state \<Rightarrow> 'h flash_state" where
  "handoff_reset st = st\<lparr>
     EraseInitStruct := \<lparr>TypeErase = 0, Banks = 0, Sector = 0, NbSectors = 0, VoltageRange = 0\<rparr>,
     Info := \<lparr>base_addr = 0, end_addr = 0, total_size = 0, write_alignment = 0, erase_size_min = 0,
        prog_size_min = 0, page_size = 0, sector_size = 0, source_alignment = 0, requires_explicit_erase = False\<rparr>\<rparr>"

fun handoff_step :: "'h flash_device \<Rightarrow> marker_hook \<Rightarrow> handoff_op \<Rightarrow> 'h flash_state \<Rightarrow> handoff_out \<times> 'h flash_state" where
  "handoff_step dev hook (Request p) st = (case FwUpdateHandoff_RequestApply dev hook p st of (r, st) \<Rightarrow> (Status r, st))"
| "handoff_step dev hook Clear st = (case FwUpdateHandoff_ClearApplyRequest dev hook st of (r, st) \<Rightarrow> (Status r, st))"
| "handoff_step dev hook Query st = (case FwUpdateHandoff_IsApplyRequested dev hook st of (b, st) \<Rightarrow> (Answer (b = 1), st))"
| "handoff_step dev hook Reset st = (Silent, handoff_reset st)"

fun handoff_run :: "'h flash_device \<Rightarrow> marker_hook \<Rightarrow> handoff_op list \<Rightarrow> 'h flash_state \<Rightarrow> handoff_out list \<times> 'h flash_state" where
  "handoff_run dev hook [] st = ([], st)"
| "handoff_run dev hook (x # xs) st =
     (let (y, st) = handoff_step dev hook x st; (ys, st) = handoff_run dev hook xs st in (y # ys, st))"

text \<open>The specification: one flag.\<close>

fun flag_step :: "handoff_op \<Rightarrow> bool \<Rightarrow> handoff_out \<times> bool" where
  "flag_step (Request p) b = (Status FW_UPDATE_HANDOFF_E_OK, True)"
| "flag_step Clear b = (Status FW_UPDATE_HANDOFF_E_OK, False)"
| "flag_step Query b = (Answer b, b)"
| "flag_step Reset b = (Silent, b)"

fun flag_run :: "handoff_op list \<Rightarrow> bool \<Rightarrow> handoff_out list \<times> bool" where
  "flag_run [] b = ([], b)"
| "flag_run (x # xs) b = (let (y, b) = flag_step x b; (ys, b) = flag_run xs b in (y # ys, b))"

fun status_ok :: "handoff_out \<Rightarrow> bool" where
  "status_ok (Status r) = (r = FW_UPDATE_HANDOFF_E_OK)"
| "status_ok _ = True"

lemma handoff_reset_simps [simp]:
  "hw (handoff_reset st) = hw st" "total_size (Info (handoff_reset st)) = 0"
  by (simp_all add: handoff_reset_def)

context handoff_flash
begin

lemma usable_ready: "flash_ready dev (Info st) \<and> hal_ok (hw st) \<and> P \<Longrightarrow> driver_usable dev hal_ok st"
  by (simp add: driver_usable_def)

lemma handoff_step_frame:
  assumes "driver_usable dev hal_ok st" "handoff_step dev hook x st = (y, st')"
  shows "driver_usable dev hal_ok st' \<and> (\<forall>x. \<not> in_range x (snd hook) (unat (FLASH_SECTOR_SIZE dev)) \<longrightarrow>
    flash_mem dev (hw st') x = flash_mem dev (hw st) x)"
proof (cases x)
  case (Request p)
  obtain r st1 where "FwUpdateHandoff_RequestApply dev hook p st = (r, st1)" by fastforce
  moreover from this have "st' = st1" using assms(2) Request by simp
  ultimately show ?thesis using RequestApply_exact [OF assms(1)] unfolding driver_usable_def by blast
next
  case Clear
  obtain r st1 where "FwUpdateHandoff_ClearApplyRequest dev hook st = (r, st1)" by fastforce
  moreover from this have "st' = st1" using assms(2) Clear by simp
  ultimately show ?thesis using ClearApplyRequest_exact [OF assms(1)] unfolding driver_usable_def by blast
next
  case Query
  obtain r st1 where "FwUpdateHandoff_IsApplyRequested dev hook st = (r, st1)" by fastforce
  with IsApplyRequested_exact [OF assms(1) this] show ?thesis
    using assms(2) Query by (simp add: driver_usable_def)
next
  case Reset
  then show ?thesis using assms by (auto simp: driver_usable_def)
qed

lemma handoff_step_flag:
  assumes "driver_usable dev hal_ok st" "handoff_step dev hook x st = (y, st')" "status_ok y"
    "fst hook = FW_UPDATE_HANDOFF_E_OK" "marker_place dev (snd hook)"
  shows "flag_step x (marker_set dev (snd hook) st) = (y, marker_set dev (snd hook) st')"
proof (cases x)
  case (Request p)
  obtain r st1 where "FwUpdateHandoff_RequestApply dev hook p st = (r, st1)" by fastforce
  moreover from this have "st' = st1" "y = Status r" "r = FW_UPDATE_HANDOFF_E_OK" using assms(2,3) Request by auto
  ultimately have "marker_set dev (snd hook) st' = True" "y = Status FW_UPDATE_HANDOFF_E_OK"
    using RequestApply_exact [OF assms(1)] by blast+
  then show ?thesis by (simp add: Request)
next
  case Clear
  obtain r st1 where "FwUpdateHandoff_ClearApplyRequest dev hook st = (r, st1)" by fastforce
  moreover from this have "st' = st1" "y = Status r" "r = FW_UPDATE_HANDOFF_E_OK" using assms(2,3) Clear by auto
  ultimately have "marker_set dev (snd hook) st' = False" "y = Status FW_UPDATE_HANDOFF_E_OK"
    using ClearApplyRequest_exact [OF assms(1)] by blast+
  then show ?thesis by (simp add: Clear)
next
  case Query
  obtain r st1 where run: "FwUpdateHandoff_IsApplyRequested dev hook st = (r, st1)" by fastforce
  note q = IsApplyRequested_exact [OF assms(1) run]
  then have "marker_set dev (snd hook) st1 = marker_set dev (snd hook) st" by (simp add: marker_set_def)
  with q run show ?thesis using assms(2,4,5) Query by (auto split: if_splits)
next
  case Reset
  then show ?thesis using assms by (auto simp: marker_set_def)
qed

lemma handoff_run_frame:
  assumes "driver_usable dev hal_ok st" "handoff_run dev hook xs st = (ys, st')"
  shows "driver_usable dev hal_ok st' \<and> (\<forall>x. \<not> in_range x (snd hook) (unat (FLASH_SECTOR_SIZE dev)) \<longrightarrow>
    flash_mem dev (hw st') x = flash_mem dev (hw st) x)"
  using assms
proof (induction xs arbitrary: st ys)
  case (Cons x xs)
  obtain y st1 where s: "handoff_step dev hook x st = (y, st1)" by fastforce
  note f = handoff_step_frame [OF Cons.prems(1) s]
  obtain zs st2 where "handoff_run dev hook xs st1 = (zs, st2)" by fastforce
  then show ?case using Cons.IH [of st1 zs] f Cons.prems(2) s by simp
qed simp

lemma handoff_run_flag:
  assumes "driver_usable dev hal_ok st" "handoff_run dev hook xs st = (ys, st')" "list_all status_ok ys"
    "fst hook = FW_UPDATE_HANDOFF_E_OK" "marker_place dev (snd hook)"
  shows "flag_run xs (marker_set dev (snd hook) st) = (ys, marker_set dev (snd hook) st')"
  using assms
proof (induction xs arbitrary: st ys)
  case (Cons x xs)
  obtain y st1 where s: "handoff_step dev hook x st = (y, st1)" by fastforce
  obtain zs st2 where r: "handoff_run dev hook xs st1 = (zs, st2)" by fastforce
  have "ys = y # zs" "st' = st2" using Cons.prems(2) s r by simp_all
  then show ?case
    using handoff_step_flag [OF Cons.prems(1) s] handoff_step_frame [OF Cons.prems(1) s]
      Cons.IH [of st1 zs] r Cons.prems(3-5) by simp
qed simp

end

section \<open>The simulated flash\<close>

text \<open>On the test double, erasing and writing the last sector succeed.\<close>

lemma stub_sector_erase:
  assumes "flash_ready stub_device (Info st)"
  shows "\<exists>st'. Flash_Erase stub_device 0x3E0000 0x20000 st = (FLASH_E_OK, st')"
proof -
  have ss: "sector_size (Info st) = 131072" "total_size (Info st) = 4194304"
    using assms by (simp_all add: flash_ready_def stub_device_def)
  obtain st1 where "Flash_EraseSector stub_device 0x3E0000 st = (FLASH_E_OK, st1)"
    using stub_erase_sector [OF assms, of "0x3E0000"] by (auto simp: in_flash_def stub_device_def)
  then have loop: "flash_erase_loop n stub_device 0x3E0000 0x20000 131072 0 st = (FLASH_E_OK, st1)" if "1 < n" for n
    using less_imp_Suc_add [OF that] by auto
  have "AddressCheck (Info st) 0x3E0000 0x20000 FLASH_ACCESS_TYPE_ERASE = FLASH_E_OK"
    using stub_hal.AddressCheck_erase [OF assms, of "0x3E0000" "0x20000"] by (simp add: in_flash_def stub_device_def)
  then have "Flash_Erase stub_device 0x3E0000 0x20000 st =
      flash_erase_loop 131072 stub_device 0x3E0000 0x20000 131072 0 st"
    using ss by (simp add: Flash_Erase_def Let_def)
  also have "\<dots> = (FLASH_E_OK, st1)" by (rule loop) simp
  finally show ?thesis by blast
qed

lemma stub_record_write:
  assumes "flash_ready stub_device (Info st)" "length bs = 32"
  shows "\<exists>st'. Flash_Write stub_device 0x3E0000 (Some (0x24000000, bs)) 32 st = (FLASH_E_OK, st')"
proof -
  have chk: "AddressCheck (Info st) 0x3E0000 32 FLASH_ACCESS_TYPE_WRITE = FLASH_E_OK"
    using stub_hal.AddressCheck_write [OF assms(1), of "0x3E0000" 32]
    by (simp add: in_flash_def stub_device_def FLASH_FLASHWORD_SIZE_def)
  obtain h where "HAL_FLASH_Program stub_device (FLASH_TYPEPROGRAM_FLASHWORD stub_device) 0x3E0000 bs (hw st) = (HAL_OK, h)"
    by (simp add: stub_device_def stub_program_def TestFlashMemory_BoundsOk_def Let_def)
  then have "flash_write_loop n stub_device 0x3E0000 bs 32 0 HAL_ERROR st = (HAL_OK, st\<lparr>hw := h\<rparr>)" if "1 < n" for n
    using assms(2) less_imp_Suc_add [OF that] by (auto simp: buf_read_def)
  from this [of 32] show ?thesis
    using chk assms(1) by (simp add: Flash_Write_def Let_def flash_ready_def)
qed

abbreviation stub_hook :: marker_hook where
  "stub_hook \<equiv> (FW_UPDATE_HANDOFF_E_OK, 0x3E0000)"

lemma stub_marker_place: "marker_place stub_device 0x3E0000"
  by (simp add: marker_place_def in_flash_def stub_device_def)

lemma stub_request_ok:
  assumes "driver_usable stub_device test_flash_initialized st"
  shows "fst (FwUpdateHandoff_RequestApply stub_device stub_hook 0x24000000 st) = FW_UPDATE_HANDOFF_E_OK"
proof -
  obtain r loc st1 where l: "FwUpdateHandoff_GetMarkerLocation stub_device stub_hook True True st = (r, loc, st1)"
    by (metis prod_cases3)
  have c: "r = FW_UPDATE_HANDOFF_E_OK" "loc = Some (0x3E0000, 0x20000)" "flash_ready stub_device (Info st1)"
    "test_flash_initialized (hw st1)"
    using stub_handoff.location_cases [OF assms l] stub_marker_place by (auto simp: stub_device_def)
  obtain st2 where e: "Flash_Erase stub_device 0x3E0000 0x20000 st1 = (FLASH_E_OK, st2)"
    using stub_sector_erase [OF c(3)] by blast
  have sz: "FLASH_SECTOR_SIZE stub_device = 0x20000" by (simp add: stub_device_def)
  note e' = stub_handoff.marker_erase [OF c(3,4), of "0x3E0000", unfolded sz, OF e]
  obtain st3 where w: "Flash_Write stub_device 0x3E0000 (Some (0x24000000, record_bytes apply_record)) record_size st2 = (FLASH_E_OK, st3)"
    using stub_record_write [of st2 "record_bytes apply_record"] e' by (auto simp: record_size_def)
  have e2: "flash_ready stub_device (Info st2)" "test_flash_initialized (hw st2)"
    "\<And>x. in_range x 0x3E0000 (unat record_size) \<Longrightarrow> test_flash (hw st2) x = 0xFF"
    using e' by (auto simp: record_size_def)
  have len: "length (record_bytes apply_record) = unat record_size" by (simp add: record_size_def)
  note w' = stub_hal.flash_write_ok [OF e2(1,2) len w]
  have "mem_read (flash_mem stub_device (hw st3)) 0x3E0000 32 = record_bytes apply_record"
    using w'(5) e2(3) by (simp add: record_size_def)
  then have rd: "Flash_Read stub_device 0x3E0000 True record_size st3 = (FLASH_E_OK, Some (record_bytes apply_record))"
    using stub_handoff.marker_read [of st3 "0x3E0000"] w'(1) e2(1) stub_marker_place by simp
  show ?thesis
    using l c(1,2) e w rd by (simp add: FwUpdateHandoff_RequestApply_def Let_def split: prod.splits)
qed

lemma stub_clear_ok:
  assumes "driver_usable stub_device test_flash_initialized st"
  shows "fst (FwUpdateHandoff_ClearApplyRequest stub_device stub_hook st) = FW_UPDATE_HANDOFF_E_OK"
proof -
  obtain r loc st1 where l: "FwUpdateHandoff_GetMarkerLocation stub_device stub_hook True True st = (r, loc, st1)"
    by (metis prod_cases3)
  have c: "r = FW_UPDATE_HANDOFF_E_OK" "loc = Some (0x3E0000, 0x20000)" "flash_ready stub_device (Info st1)"
    using stub_handoff.location_cases [OF assms l] stub_marker_place by (auto simp: stub_device_def)
  then show ?thesis
    using l stub_sector_erase [OF c(3)] by (auto simp: FwUpdateHandoff_ClearApplyRequest_def Let_def)
qed

lemma stub_run_ok:
  "driver_usable stub_device test_flash_initialized st \<Longrightarrow> set xs \<subseteq> {Request 0x24000000, Clear, Query, Reset} \<Longrightarrow>
   list_all status_ok (fst (handoff_run stub_device stub_hook xs st))"
proof (induction xs arbitrary: st)
  case (Cons x xs)
  obtain y st1 where s: "handoff_step stub_device stub_hook x st = (y, st1)" by fastforce
  obtain ys st2 where r: "handoff_run stub_device stub_hook xs st1 = (ys, st2)" by fastforce
  have "status_ok y"
    using s Cons.prems(2) stub_request_ok [OF Cons.prems(1)] stub_clear_ok [OF Cons.prems(1)]
    by (auto split: prod.splits)
  then show ?case
    using s r Cons.IH [of st1] Cons.prems(2) stub_handoff.handoff_step_frame [OF Cons.prems(1) s] by simp
qed simp

lemma stub_usable: "driver_usable stub_device test_flash_initialized stub_state"
  using stub_state_ready by (simp add: driver_usable_def)

lemma stub_not_set: "\<not> marker_set stub_device 0x3E0000 stub_state"
proof -
  have "hw stub_state = \<lparr>test_flash = (\<lambda>_. 0), test_flash_initialized = True\<rparr>"
    by (simp add: stub_state_def Flash_Init_def Let_def) (simp add: stub_device_def)
  then have "flash_mem stub_device (hw stub_state) = (\<lambda>_. 0)" by (simp add: stub_device_def)
  then show ?thesis
    by (simp add: marker_set_def FwUpdateHandoff_RecordIsValid_def record_of_bytes_def u32_of_le_def
        FW_UPDATE_HANDOFF_MAGIC_def)
qed

section \<open>Properties\<close>

text \<open>The marker sector is a flag that survives resets: in any run of requests, clearances,
  queries and resets in which the requests and clearances succeed, every query answers what a
  single boolean variable would.\<close>

theorem handoff_is_a_flag:
  assumes "handoff_flash dev hal_ok erased" "driver_usable dev hal_ok st"
    and "marker_place dev a" "handoff_run dev (FW_UPDATE_HANDOFF_E_OK, a) xs st = (ys, st')" "list_all status_ok ys"
  shows "flag_run xs (marker_set dev a st) = (ys, marker_set dev a st')"
  using handoff_flash.handoff_run_flag [OF assms(1,2,4,5)] assms(3) by simp

theorem handoff_is_a_flag_witness:
  "fst (handoff_run stub_device stub_hook [Query, Request 0x24000000, Reset, Query, Clear, Reset, Query] stub_state) =
   [Answer False, Status FW_UPDATE_HANDOFF_E_OK, Silent, Answer True, Status FW_UPDATE_HANDOFF_E_OK, Silent, Answer False]"
proof -
  let ?xs = "[Query, Request 0x24000000, Reset, Query, Clear, Reset, Query]"
  obtain ys st' where run: "handoff_run stub_device stub_hook ?xs stub_state = (ys, st')" by fastforce
  then have "list_all status_ok ys" using stub_run_ok [OF stub_usable, of ?xs] by simp
  from handoff_is_a_flag [OF stub_handoff.handoff_flash_axioms stub_usable stub_marker_place run this]
  show ?thesis using run stub_not_set by auto
qed

text \<open>Whatever the hook says and whatever fails, no run of the handoff changes a byte outside the
  sector the hook names, and a query writes nothing at all.\<close>

theorem handoff_stays_in_sector:
  assumes "handoff_flash dev hal_ok erased" "driver_usable dev hal_ok st"
    and "handoff_run dev hook xs st = (ys, st')"
  shows "(\<forall>x. \<not> in_range x (snd hook) (unat (FLASH_SECTOR_SIZE dev)) \<longrightarrow>
      flash_mem dev (hw st') x = flash_mem dev (hw st) x) \<and>
    flash_mem dev (hw (snd (FwUpdateHandoff_IsApplyRequested dev hook st'))) = flash_mem dev (hw st')"
proof -
  note f = handoff_flash.handoff_run_frame [OF assms]
  obtain b st2 where "FwUpdateHandoff_IsApplyRequested dev hook st' = (b, st2)" by fastforce
  with f show ?thesis using handoff_flash.IsApplyRequested_exact [OF assms(1), of st' hook b st2] by simp
qed


theorem handoff_stays_in_sector_witness:
  "flash_mem stub_device (hw (snd (handoff_run stub_device stub_hook [Request 0x24000000, Clear] stub_state))) 0 = 0"
proof -
  obtain ys st' where run: "handoff_run stub_device stub_hook [Request 0x24000000, Clear] stub_state = (ys, st')" by fastforce
  have m: "flash_mem stub_device (hw stub_state) 0 = 0"
    by (simp add: stub_state_def Flash_Init_def Let_def) (simp add: stub_device_def)
  show ?thesis
    using handoff_stays_in_sector [OF stub_handoff.handoff_flash_axioms stub_usable run] run m
    by (simp add: in_range_def stub_device_def)
qed

end
