(* ===== verification/WebInterface.thy ===== *)
theory WebInterface
  imports SettingsHandler
begin

text \<open>
  The control page (\<open>src/app/services/http/WebInterface.c\<close>) and the log parameters the start-up code
  of \<open>src/app/cores/cm7/Src/Core0Task0.c\<close> reads from the card.  The hooks the page calls are
  arguments; \<open>Core0Task0\<close> gives them.  The lemmas say what the page asks for, that its sizes never
  wrap, and which values the parameter file can set.
\<close>

section \<open>The control page\<close>

text \<open>\<open>strtoul\<close> in base 10 with a 32-bit \<open>unsigned long\<close>: the value, and whether there was a number.\<close>

definition strtoul10 :: "bytes \<Rightarrow> u32 \<times> bool" where
  "strtoul10 data =
     (let s = dropWhile is_space (cstr data);
          (neg, t) = (case s of [] \<Rightarrow> (False, []) | c # cs \<Rightarrow>
             if c = 45 then (True, cs) else if c = 43 then (False, cs) else (False, s));
          ds = takeWhile is_digit t; v = digits_val ds
      in if ds = [] then (0, False)
         else (if v > 4294967295 then UINT32_MAX else if neg then - of_nat v else of_nat v, True))"

definition appParseUint32 :: "bytes \<Rightarrow> u32" where
  "appParseUint32 val =
     (case strtoul10 val of (parsed, found) \<Rightarrow>
        if \<not> found then 0 else if parsed > UINT32_MAX then UINT32_MAX else parsed)"

text \<open>From \<open>CanLogManager.h\<close>.\<close>

definition CLUSTER_SIZE :: u32 where "CLUSTER_SIZE = 32768"
definition MAX_LOG_FILE_COUNT :: u32 where "MAX_LOG_FILE_COUNT = 640"
definition MAX_LOG_FILE_SIZE :: u32 where "MAX_LOG_FILE_SIZE = 10 * 1024 * 1024"

text \<open>The two hooks \<open>WebInterface_GetActionHook\<close> and \<open>WebInterface_RequestFormattingHook\<close> on a state.\<close>

record 's web_hooks =
  GetActionHook :: "u8 \<Rightarrow> 's \<Rightarrow> 's"
  RequestFormattingHook :: "u32 \<Rightarrow> u32 \<Rightarrow> u32 \<Rightarrow> 's \<Rightarrow> 's"

text \<open>The locals of the handler.\<close>

record cgi_locals =
  cluster_kb :: u32
  file_size_mb :: u32
  file_count :: u32
  format_requested :: bool

fun cgi_params :: "'s web_hooks \<Rightarrow> (bytes \<times> bytes) list \<Rightarrow> cgi_locals \<Rightarrow> 's \<Rightarrow> cgi_locals \<times> 's" where
  "cgi_params hooks [] l s = (l, s)"
| "cgi_params hooks ((param, val) # ps) l s =
     (if cstr param = ascii ''action'' then
        if cstr val = ascii ''Stop'' then cgi_params hooks ps l (GetActionHook hooks 0 s)
        else if cstr val = ascii ''Start'' then cgi_params hooks ps l (GetActionHook hooks 1 s)
        else if cstr val = ascii ''Format'' then cgi_params hooks ps (l\<lparr>format_requested := True\<rparr>) s
        else cgi_params hooks ps l s
      else if cstr param = ascii ''cluster_kb'' then cgi_params hooks ps (l\<lparr>cluster_kb := appParseUint32 val\<rparr>) s
      else if cstr param = ascii ''file_size_mb'' then cgi_params hooks ps (l\<lparr>file_size_mb := appParseUint32 val\<rparr>) s
      else if cstr param = ascii ''file_count'' then cgi_params hooks ps (l\<lparr>file_count := appParseUint32 val\<rparr>) s
      else cgi_params hooks ps l s)"

definition appCtrlCgiHandler :: "'s web_hooks \<Rightarrow> int \<Rightarrow> (bytes \<times> bytes) list \<Rightarrow> 's \<Rightarrow> 's" where
  "appCtrlCgiHandler hooks iIndex params s =
     (if iIndex = 0 then
        let (l, s) = cgi_params hooks params \<lparr>cluster_kb = 0, file_size_mb = 0, file_count = 0, format_requested = False\<rparr> s
        in if format_requested l then
             let cluster_size = CLUSTER_SIZE; log_file_size = MAX_LOG_FILE_SIZE; log_file_count = MAX_LOG_FILE_COUNT;
                 cluster_size = (if cluster_kb l > 0 \<and> cluster_kb l \<le> UINT32_MAX div 1024 then cluster_kb l * 1024
                   else cluster_size);
                 log_file_size = (if file_size_mb l > 0 \<and> file_size_mb l \<le> UINT32_MAX div (1024 * 1024)
                   then file_size_mb l * 1024 * 1024 else log_file_size);
                 log_file_count = (if file_count l > 0 then file_count l else log_file_count)
             in RequestFormattingHook hooks cluster_size log_file_size log_file_count s
           else s
      else s)"

text \<open>The two CGI handlers of \<open>httpd_cgi_ssi.c\<close> and the page they answer with.\<close>

definition app_control_cgi_handler ::
  "'s web_hooks \<Rightarrow> int \<Rightarrow> (bytes \<times> bytes) list \<Rightarrow> 's \<Rightarrow> bytes \<times> 's" where
  "app_control_cgi_handler hooks iIndex params s = (ascii ''/can.shtml'', appCtrlCgiHandler hooks iIndex params s)"

definition CAN_config_CGI_Handler :: "int \<Rightarrow> (bytes \<times> bytes) list \<Rightarrow> settings_state \<Rightarrow> bytes \<times> settings_state" where
  "CAN_config_CGI_Handler iIndex params st = (ascii ''/can.shtml'', http_app_set_setting iIndex params st)"

section \<open>The log parameters on the card\<close>

record log_config =
  cluster_size :: u32
  log_file_size :: u32
  log_file_count :: u32

text \<open>One entry of the file: the copy to \<open>tmp[32]\<close> and the conversion.  \<open>parsed\<close> is the local the
  three entries share.\<close>

definition log_config_entry :: "json_search \<Rightarrow> bytes \<Rightarrow> string \<Rightarrow> u32 \<Rightarrow> u32 \<Rightarrow> u32 \<times> u32" where
  "log_config_entry json_search doc key parsed target =
     (case FileHandler_GetValue json_search doc (ascii key) of
        None \<Rightarrow> (parsed, target)
      | Some (val, valueLength) \<Rightarrow>
          if unat valueLength < 32 then
            case FileHandler_ConvertToInteger (take (unat valueLength) val @ [0]) parsed of
              (r, parsed) \<Rightarrow> (parsed, if r = 0 \<and> parsed > 0 then parsed else target)
          else (parsed, target))"

definition appParseLogConfigJson ::
  "(bytes \<Rightarrow> bool) \<Rightarrow> json_search \<Rightarrow> bytes \<Rightarrow> log_config \<Rightarrow> bool \<times> log_config" where
  "appParseLogConfigJson json_validate json_search doc cfg =
     (if \<not> json_validate doc then (False, cfg)
      else
        let (parsed, cs) = log_config_entry json_search doc ''cluster_size'' 0 (cluster_size cfg);
            (parsed, fs) = log_config_entry json_search doc ''log_file_size'' parsed (log_file_size cfg);
            (parsed, fc) = log_config_entry json_search doc ''log_file_count'' parsed (log_file_count cfg)
        in (True, \<lparr>cluster_size = cs, log_file_size = fs, log_file_count = fc\<rparr>))"

section \<open>What the page asks for\<close>

text \<open>The value of a size parameter: that of its last occurrence, 0 if there is none.\<close>

definition last_value :: "string \<Rightarrow> (bytes \<times> bytes) list \<Rightarrow> u32" where
  "last_value key params = foldl (\<lambda>v (p, x). if cstr p = ascii key then appParseUint32 x else v) 0 params"

definition format_action :: "bytes \<times> bytes \<Rightarrow> bool" where
  "format_action = (\<lambda>(p, v). cstr p = ascii ''action'' \<and> cstr v = ascii ''Format'')"

text \<open>The start and stop requests among the parameters, in order.\<close>

definition run_actions :: "'s web_hooks \<Rightarrow> (bytes \<times> bytes) list \<Rightarrow> 's \<Rightarrow> 's" where
  "run_actions hooks params s = foldl (\<lambda>s (p, v). if cstr p \<noteq> ascii ''action'' then s
     else if cstr v = ascii ''Stop'' then GetActionHook hooks 0 s
     else if cstr v = ascii ''Start'' then GetActionHook hooks 1 s else s) s params"

text \<open>\<open>n\<close> units of \<open>u\<close> bytes if that is a positive number of 32 bits, \<open>d\<close> otherwise.\<close>

definition size_or_default :: "nat \<Rightarrow> nat \<Rightarrow> nat \<Rightarrow> nat" where
  "size_or_default d u n = (if 0 < n \<and> n * u < 4294967296 then n * u else d)"

lemma param_keys [simp]:
  "ascii ''cluster_kb'' \<noteq> ascii ''action''" "ascii ''file_size_mb'' \<noteq> ascii ''action''" "ascii ''file_count'' \<noteq> ascii ''action''"
  "ascii ''cluster_kb'' \<noteq> ascii ''file_size_mb''" "ascii ''cluster_kb'' \<noteq> ascii ''file_count''"
  "ascii ''file_size_mb'' \<noteq> ascii ''file_count''"
  "ascii ''action'' \<noteq> ascii ''cluster_kb''" "ascii ''action'' \<noteq> ascii ''file_size_mb''" "ascii ''action'' \<noteq> ascii ''file_count''"
  "ascii ''file_size_mb'' \<noteq> ascii ''cluster_kb''" "ascii ''file_count'' \<noteq> ascii ''cluster_kb''"
  "ascii ''file_count'' \<noteq> ascii ''file_size_mb''"
  "ascii ''Stop'' \<noteq> ascii ''Start''" "ascii ''Start'' \<noteq> ascii ''Stop''" "ascii ''Format'' \<noteq> ascii ''Stop''"
  "ascii ''Format'' \<noteq> ascii ''Start''" "ascii ''Start'' \<noteq> ascii ''Format''" "ascii ''Stop'' \<noteq> ascii ''Format''"
  by (simp_all add: ascii_def of_char_def)

lemma cgi_params_run:
  "cgi_params hooks params l s =
    (l\<lparr>cluster_kb := foldl (\<lambda>v (p, x). if cstr p = ascii ''cluster_kb'' then appParseUint32 x else v) (cluster_kb l) params,
       file_size_mb := foldl (\<lambda>v (p, x). if cstr p = ascii ''file_size_mb'' then appParseUint32 x else v) (file_size_mb l) params,
       file_count := foldl (\<lambda>v (p, x). if cstr p = ascii ''file_count'' then appParseUint32 x else v) (file_count l) params,
       format_requested := (format_requested l \<or> (\<exists>q\<in>set params. format_action q))\<rparr>,
     run_actions hooks params s)"
proof (induction params arbitrary: l s)
  case (Cons q params)
  obtain p v where q: "q = (p, v)" by fastforce
  consider "cstr p = ascii ''action''" | "cstr p = ascii ''cluster_kb''" | "cstr p = ascii ''file_size_mb''"
    | "cstr p = ascii ''file_count''"
    | "cstr p \<noteq> ascii ''action''" "cstr p \<noteq> ascii ''cluster_kb''" "cstr p \<noteq> ascii ''file_size_mb''" "cstr p \<noteq> ascii ''file_count''"
    by blast
  then show ?case
    by cases (simp_all add: q Cons.IH format_action_def run_actions_def)
qed (simp add: run_actions_def)

lemma unat_scaled:
  fixes n unit :: u32
  assumes "unit \<noteq> 0"
  shows "n \<le> UINT32_MAX div unit \<longleftrightarrow> unat n * unat unit < 4294967296"
    "unat n * unat unit < 4294967296 \<Longrightarrow> unat (n * unit) = unat n * unat unit"
proof -
  have "0 < unat unit" using assms by (simp add: unat_gt_0)
  then have "n \<le> UINT32_MAX div unit \<longleftrightarrow> unat n * unat unit \<le> 4294967295"
    by (simp add: word_le_nat_alt unat_div less_eq_div_iff_mult_less_eq)
  then show "n \<le> UINT32_MAX div unit \<longleftrightarrow> unat n * unat unit < 4294967296" by linarith
  show "unat n * unat unit < 4294967296 \<Longrightarrow> unat (n * unit) = unat n * unat unit" by (simp add: unat_mult_small)
qed

section \<open>Properties\<close>

text \<open>A format request reaches the hook exactly once, after the start and stop requests, with the
  sizes of the last parameters: the number of kilobytes or megabytes in bytes, computed without
  wrapping round, and the default for a missing, zero or too large number.\<close>

theorem format_request_exact:
  assumes "q \<in> set params" "format_action q"
  shows "\<exists>cs fs fc. appCtrlCgiHandler hooks 0 params s = RequestFormattingHook hooks cs fs fc (run_actions hooks params s) \<and>
    unat cs = size_or_default 32768 1024 (unat (last_value ''cluster_kb'' params)) \<and>
    unat fs = size_or_default 10485760 1048576 (unat (last_value ''file_size_mb'' params)) \<and>
    unat fc = size_or_default 640 1 (unat (last_value ''file_count'' params))"
proof -
  let ?kb = "last_value ''cluster_kb'' params" and ?mb = "last_value ''file_size_mb'' params" and
    ?n = "last_value ''file_count'' params"
  have "\<exists>q\<in>set params. format_action q" using assms by blast
  then have "appCtrlCgiHandler hooks 0 params s = RequestFormattingHook hooks
      (if ?kb > 0 \<and> ?kb \<le> UINT32_MAX div 1024 then ?kb * 1024 else CLUSTER_SIZE)
      (if ?mb > 0 \<and> ?mb \<le> UINT32_MAX div 1048576 then ?mb * 1048576 else MAX_LOG_FILE_SIZE)
      (if ?n > 0 then ?n else MAX_LOG_FILE_COUNT) (run_actions hooks params s)"
    by (simp add: appCtrlCgiHandler_def cgi_params_run last_value_def Let_def mult.assoc)
  moreover have "unat (if ?kb > 0 \<and> ?kb \<le> UINT32_MAX div 1024 then ?kb * 1024 else CLUSTER_SIZE) =
      size_or_default 32768 1024 (unat ?kb)"
    using unat_scaled [of 1024 ?kb] by (auto simp: size_or_default_def CLUSTER_SIZE_def word_less_nat_alt)
  moreover have "unat (if ?mb > 0 \<and> ?mb \<le> UINT32_MAX div 1048576 then ?mb * 1048576 else MAX_LOG_FILE_SIZE) =
      size_or_default 10485760 1048576 (unat ?mb)"
    using unat_scaled [of 1048576 ?mb] by (auto simp: size_or_default_def MAX_LOG_FILE_SIZE_def word_less_nat_alt)
  moreover have "unat (if ?n > 0 then ?n else MAX_LOG_FILE_COUNT) = size_or_default 640 1 (unat ?n)"
    using unat_u32_bound [of ?n] by (auto simp: size_or_default_def MAX_LOG_FILE_COUNT_def word_less_nat_alt)
  ultimately show ?thesis by blast
qed

text \<open>The request of the page with 64 kilobytes, two megabytes and no file count.\<close>

definition sample_hooks :: "(u32 \<times> u32 \<times> u32) web_hooks" where
  "sample_hooks = \<lparr>GetActionHook = (\<lambda>a s. s), RequestFormattingHook = (\<lambda>c f n s. (c, f, n))\<rparr>"

definition sample_params :: "(bytes \<times> bytes) list" where
  "sample_params = [(ascii ''action'', ascii ''Format''), (ascii ''cluster_kb'', ascii ''64''), (ascii ''file_size_mb'', ascii ''2'')]"

theorem format_request_exact_witness:
  "appCtrlCgiHandler sample_hooks 0 sample_params (0, 0, 0) = (65536, 2097152, 640)"
proof -
  have no0: "cstr (ascii ''action'') = ascii ''action''" "cstr (ascii ''Format'') = ascii ''Format''"
    "cstr (ascii ''cluster_kb'') = ascii ''cluster_kb''" "cstr (ascii ''file_size_mb'') = ascii ''file_size_mb''"
    by (simp_all add: cstr_def ascii_def of_char_def)
  have f: "(ascii ''action'', ascii ''Format'') \<in> set sample_params" "format_action (ascii ''action'', ascii ''Format'')"
    by (simp_all add: sample_params_def format_action_def no0)
  have n: "appParseUint32 (ascii ''64'') = 64" "appParseUint32 (ascii ''2'') = 2"
    by (simp_all add: appParseUint32_def strtoul10_def cstr_def ascii_def of_char_def is_space_def is_digit_def
        digits_val_def)
  have "last_value ''cluster_kb'' sample_params = 64" "last_value ''file_size_mb'' sample_params = 2"
    "last_value ''file_count'' sample_params = 0"
    by (simp_all add: last_value_def sample_params_def no0 n)
  then show ?thesis
    using format_request_exact [OF f, of sample_hooks "(0, 0, 0)"]
    by (auto simp: sample_hooks_def size_or_default_def word_unat_eq_iff)
qed


text \<open>The three entries of the parameter file share one local, which a value that is not a number
  leaves alone: after a good \<open>cluster_size\<close>, a \<open>log_file_size\<close> that is not a number sets the file size
  to the cluster size instead of leaving it as it was.\<close>

theorem bad_log_size_takes_cluster_size:
  assumes "json_validate doc" "json_search doc (ascii ''cluster_size'') = Some (o1, l1)" "unat l1 < 32"
    and "strtol10 (take (unat l1) (drop o1 doc) @ [0]) = (v, [])" "0 < v" "v \<le> 2147483647"
    and "json_search doc (ascii ''log_file_size'') = Some (o2, l2)" "unat l2 < 32"
    and "snd (strtol10 (take (unat l2) (drop o2 doc) @ [0])) \<noteq> []"
  shows "let (ok, c) = appParseLogConfigJson json_validate json_search doc cfg
    in ok \<and> uint (cluster_size c) = v \<and> log_file_size c = cluster_size c"
proof -
  obtain z rest where z: "strtol10 (take (unat l2) (drop o2 doc) @ [0]) = (z, rest)" "rest \<noteq> []"
    using assms(9) by (cases "strtol10 (take (unat l2) (drop o2 doc) @ [0])") auto
  have v: "uint (of_int v :: u32) = v" using assms(5,6) by (simp add: uint_word_of_int)
  then have "(of_int v :: u32) \<noteq> 0" using assms(5) by auto
  then have pos: "(0 :: u32) < of_int v" by (simp add: word_neq_0_conv)
  have "log_config_entry json_search doc ''cluster_size'' 0 (cluster_size cfg) = (of_int v, of_int v)"
    using assms(2-4) pos by (simp add: log_config_entry_def FileHandler_GetValue_def FileHandler_ConvertToInteger_def)
  moreover have "log_config_entry json_search doc ''log_file_size'' (of_int v) (log_file_size cfg) = (of_int v, of_int v)"
    using assms(7,8) z pos by (simp add: log_config_entry_def FileHandler_GetValue_def FileHandler_ConvertToInteger_def)
  ultimately show ?thesis using assms(1) v by (simp add: appParseLogConfigJson_def split: prod.splits)
qed

text \<open>The file \<open>{"cluster_size":4096,"log_file_size":"10M"}\<close>, with the offsets the JSON library finds.\<close>

definition sample_log_doc :: bytes where
  "sample_log_doc = ascii ''{\"cluster_size\":4096,\"log_file_size\":\"10M\"}''"

definition sample_log_search :: json_search where
  "sample_log_search doc key = (if key = ascii ''cluster_size'' then Some (16, 4)
     else if key = ascii ''log_file_size'' then Some (38, 3) else None)"

theorem bad_log_size_takes_cluster_size_witness:
  "log_file_size (snd (appParseLogConfigJson (\<lambda>d. True) sample_log_search sample_log_doc
     \<lparr>cluster_size = 32768, log_file_size = 10485760, log_file_count = 640\<rparr>)) = 4096"
proof -
  have key: "ascii ''log_file_size'' \<noteq> ascii ''cluster_size''" by (simp add: ascii_def of_char_def)
  have s: "sample_log_search sample_log_doc (ascii ''cluster_size'') = Some (16, 4)"
    "sample_log_search sample_log_doc (ascii ''log_file_size'') = Some (38, 3)"
    using key by (simp_all add: sample_log_search_def)
  have d: "take 4 (drop 16 sample_log_doc) = ascii ''4096''" "take 3 (drop 38 sample_log_doc) = ascii ''10M''"
    by (simp_all add: sample_log_doc_def ascii_def)
  have n: "strtol10 (ascii ''4096'' @ [0]) = (4096, [])" "snd (strtol10 (ascii ''10M'' @ [0])) \<noteq> []"
    by (simp_all add: strtol10_def cstr_def ascii_def of_char_def is_space_def is_digit_def digits_val_def Let_def)
  have t: "strtol10 (take (unat (4 :: size_t)) (drop 16 sample_log_doc) @ [0]) = (4096, [])"
    "snd (strtol10 (take (unat (3 :: size_t)) (drop 38 sample_log_doc) @ [0])) \<noteq> []"
    using n by (simp_all add: d)
  have l: "unat (4 :: size_t) < 32" "unat (3 :: size_t) < 32" by simp_all
  show ?thesis
    using bad_log_size_takes_cluster_size [of "\<lambda>d. True" sample_log_doc sample_log_search 16 4 4096 38 3
      "\<lparr>cluster_size = 32768, log_file_size = 10485760, log_file_count = 640\<rparr>", OF _ s(1) l(1) t(1) _ _ s(2) l(2) t(2)]
    by (auto simp: Let_def word_uint_eq_iff split: prod.splits)
qed

end
