(* ===== verification/Core0Task0.thy ===== *)
theory Core0Task0
  imports WebUpdate FwUpdateHandoff WebInterface
begin

text \<open>
  The main task of the Cortex-M7 (\<open>src/app/cores/cm7/Src/Core0Task0.c\<close>): the control data shared by
  the web hooks and the loop, the \<open>/iap\<close> pages of \<open>src/app/services/http/src/fs_custom_iap.c\<close>, and one
  round of the loop after \<open>http_poll\<close>.  Calls into other modules are recorded in \<open>calls\<close>, in order;
  \<open>UpdateConfig\<close> is the only one whose result matters, and it is an argument.  The lemmas show that a
  firmware update is handed to the boot loader only for an image whose hash was checked, with the
  logger stopped, and that the hand-over leaves the image alone.
\<close>

section \<open>Control data\<close>

record CanCtrlCanType =
  ctrl_baudrate :: u32
  ctrl_mode :: u8

record CanCtrlDataType =
  ctrl_can1 :: CanCtrlCanType
  ctrl_can2 :: CanCtrlCanType
  sendingActive :: bool

datatype clm_parameter = CLM_PARAMETER_ID_CAN1_BAUDRATE | CLM_PARAMETER_ID_CAN2_BAUDRATE

datatype core0_call =
  UpdateConfig AppConfigType | SetLogParam clm_parameter u32 | SetSendingActive bool |
  SetBaudrate CanCtrlDataType | SetMode CanCtrlDataType | FormattingRequest u32 u32 u32 |
  Unmount | TaskDelay nat | SystemReset | ErrorHandler

text \<open>\<open>AppCtrlData\<close>, \<open>CanCtrlData\<close> and, below the web server, the update service and its flash.
  \<open>AppConfig\<close> is the configuration \<open>SettingsHandler_Init\<close> was given, and \<open>applyConfig\<close> is in the state
  of the settings.  \<open>Error_Handler\<close> only switches the
  lamps of the board and returns.  \<open>halted\<close>: the processor was reset.\<close>

record 'h core0_state =
  web :: "'h adapter_state httpd_state"
  CanCtrlData :: CanCtrlDataType
  mountRes :: u8
  runCanTracer :: bool
  canTracerActionPending :: bool
  requestedRunCanTracer :: bool
  canTracerActionDelayPolls :: u8
  applyFirmwareUpdate :: bool
  calls :: "core0_call list"
  halted :: bool

definition RES_OK :: u8 where "RES_OK = 0"
definition RES_NOTRDY :: u8 where "RES_NOTRDY = 3"

definition emit :: "core0_call list \<Rightarrow> 'h core0_state \<Rightarrow> 'h core0_state" where
  "emit cs s = s\<lparr>calls := calls s @ cs\<rparr>"

definition AppConfig :: "'h core0_state \<Rightarrow> AppConfigType" where
  "AppConfig s = AppSettings (settings (web s))"

definition appCanCtrlDataSetter :: "CanCtrlDataType \<Rightarrow> bool \<Rightarrow> AppConfigType \<Rightarrow> CanCtrlDataType" where
  "appCanCtrlDataSetter data run cfg =
     \<lparr>ctrl_can1 = \<lparr>ctrl_baudrate = baudrate (can1 cfg), ctrl_mode = can_mode (can1 cfg)\<rparr>,
      ctrl_can2 = \<lparr>ctrl_baudrate = baudrate (can2 cfg), ctrl_mode = can_mode (can2 cfg)\<rparr>,
      sendingActive = run\<rparr>"

definition appConfigSetDefaults :: "AppConfigType \<Rightarrow> AppConfigType" where
  "appConfigSetDefaults cfg = cfg\<lparr>can1 := \<lparr>baudrate = 250000, can_mode = ucast FDCAN_MODE_2\<rparr>,
     can2 := \<lparr>baudrate = 250000, can_mode = ucast FDCAN_MODE_2\<rparr>\<rparr>"

section \<open>The hooks of the web pages\<close>

definition WebInterface_GetActionHook :: "u8 \<Rightarrow> 'h core0_state \<Rightarrow> 'h core0_state" where
  "WebInterface_GetActionHook action s = s\<lparr>requestedRunCanTracer := (action \<noteq> 0),
     canTracerActionDelayPolls := 2, canTracerActionPending := True\<rparr>"

definition WebInterface_RequestFormattingHook :: "u32 \<Rightarrow> u32 \<Rightarrow> u32 \<Rightarrow> 'h core0_state \<Rightarrow> 'h core0_state" where
  "WebInterface_RequestFormattingHook cs fs fc s = emit [FormattingRequest cs fs fc] s"

definition core0_hooks :: "'h core0_state web_hooks" where
  "core0_hooks = \<lparr>GetActionHook = WebInterface_GetActionHook, RequestFormattingHook = WebInterface_RequestFormattingHook\<rparr>"

definition WebInterface_PrepareFirmwareUploadHook :: "'h core0_state \<Rightarrow> u8 \<times> 'h core0_state" where
  "WebInterface_PrepareFirmwareUploadHook s =
     (case Iap_PrepareUploadSlot (iap (web s)) of
        (r, v) \<Rightarrow> (if r = IAP_PREPARE_E_OK then 1 else 0, s\<lparr>web := (web s)\<lparr>iap := v\<rparr>\<rparr>))"

definition WebInterface_RequestFirmwareApplyHook :: "'h core0_state \<Rightarrow> 'h core0_state" where
  "WebInterface_RequestFirmwareApplyHook s = s\<lparr>applyFirmwareUpdate := True\<rparr>"

definition WebInterface_IsFirmwareVerifiedHook :: "'h core0_state \<Rightarrow> u8" where
  "WebInterface_IsFirmwareVerifiedHook s = Iap_IsVerified (iap (web s))"

definition FsCustom_IsTracerRunning :: "'h core0_state \<Rightarrow> u8 \<times> u8" where
  "FsCustom_IsTracerRunning s = (0, if runCanTracer s then 1 else 0)"

section \<open>The update pages\<close>

text \<open>A page is its text, or \<open>None\<close> when it does not fit the buffer.\<close>

definition rendered :: "nat \<Rightarrow> bytes \<Rightarrow> bytes option" where
  "rendered buffer_size text = (if length text \<ge> buffer_size then None else Some text)"

definition is_logger_active :: "'h core0_state \<Rightarrow> bool" where
  "is_logger_active s = (case FsCustom_IsTracerRunning s of (r, running) \<Rightarrow> r \<noteq> 0 \<or> running \<noteq> 0)"

definition result_text :: "bool \<Rightarrow> string \<Rightarrow> bytes" where
  "result_text ok reason = ascii ''{\"ok\":'' @ ascii (if ok then ''true'' else ''false'') @ ascii '',\"reason\":\"'' @
     ascii reason @ ascii ''\"}''"

definition FsCustomIap_RenderPrepare :: "nat \<Rightarrow> 'h core0_state \<Rightarrow> bytes option \<times> 'h core0_state" where
  "FsCustomIap_RenderPrepare buffer_size s =
     (if is_logger_active s then (rendered buffer_size (result_text False ''logger_running''), s)
      else
        let s = s\<lparr>web := HttpdPost_ResetIapUploadSession (web s)\<rparr>
        in case WebInterface_PrepareFirmwareUploadHook s of
             (r, s) \<Rightarrow> (rendered buffer_size
                (if r = 0 then result_text False ''prepare_failed'' else result_text True ''slot_erased''), s))"

definition FsCustomIap_RenderApply :: "nat \<Rightarrow> 'h core0_state \<Rightarrow> bytes option \<times> 'h core0_state" where
  "FsCustomIap_RenderApply buffer_size s =
     (let is_verified = WebInterface_IsFirmwareVerifiedHook s
      in if is_logger_active s then (rendered buffer_size (result_text False ''logger_running''), s)
         else if is_verified = 0 then (rendered buffer_size (result_text False ''image_not_verified''), s)
         else
           let s = WebInterface_RequestFirmwareApplyHook s;
               s = s\<lparr>web := HttpdPost_ClearIapUploadReady (web s)\<rparr>
           in (rendered buffer_size (result_text True ''reboot_requested''), s))"

fun upload_state_name :: "upload_state \<Rightarrow> string" where
  "upload_state_name HTTPD_IAP_UPLOAD_STATE_IN_PROGRESS = ''in_progress''"
| "upload_state_name HTTPD_IAP_UPLOAD_STATE_READY = ''ready''"
| "upload_state_name HTTPD_IAP_UPLOAD_STATE_ERROR = ''error''"
| "upload_state_name HTTPD_IAP_UPLOAD_STATE_IDLE = ''idle''"

fun verify_state_name :: "IapVerifyStateType \<Rightarrow> string" where
  "verify_state_name IAP_VERIFY_STATE_PENDING = ''pending''"
| "verify_state_name IAP_VERIFY_STATE_VERIFYING = ''in_progress''"
| "verify_state_name IAP_VERIFY_STATE_VERIFIED = ''verified''"
| "verify_state_name IAP_VERIFY_STATE_ERROR = ''error''"
| "verify_state_name IAP_VERIFY_STATE_IDLE = ''idle''"

fun error_reason_name :: "upload_error \<Rightarrow> string" where
  "error_reason_name HTTPD_IAP_UPLOAD_ERROR_BEGIN = ''begin''"
| "error_reason_name HTTPD_IAP_UPLOAD_ERROR_PUSH = ''push''"
| "error_reason_name HTTPD_IAP_UPLOAD_ERROR_INCOMPLETE = ''incomplete''"
| "error_reason_name HTTPD_IAP_UPLOAD_ERROR_FINISH = ''finish''"
| "error_reason_name HTTPD_IAP_UPLOAD_ERROR_NONE = ''none''"

text \<open>The number of a status, as \<open>UpdateIngestRegistry.h\<close> defines it.\<close>

fun ingest_code :: "UpdateIngestStatusType \<Rightarrow> nat" where
  "ingest_code IAP_UPDATE_INGEST_E_OK = 0"
| "ingest_code IAP_UPDATE_INGEST_E_PARAM = 1"
| "ingest_code IAP_UPDATE_INGEST_E_STATE = 2"
| "ingest_code IAP_UPDATE_INGEST_E_UNAVAILABLE = 3"
| "ingest_code IAP_UPDATE_INGEST_E_SEQUENCE = 4"
| "ingest_code IAP_UPDATE_INGEST_E_RANGE = 5"
| "ingest_code IAP_UPDATE_INGEST_E_ALIGN = 6"
| "ingest_code IAP_UPDATE_INGEST_E_BACKEND = 7"

definition bool_text :: "bool \<Rightarrow> bytes" where
  "bool_text b = ascii (if b then ''true'' else ''false'')"

definition u32_text :: "u32 \<Rightarrow> bytes" where
  "u32_text w = nat_digits (unat w)"

text \<open>\<open>IAP_STATUS_STRING\<close>, and the shorter text of the second attempt.\<close>

definition status_text ::
  "bytes \<Rightarrow> bool \<Rightarrow> bool \<Rightarrow> string \<Rightarrow> u32 \<Rightarrow> u32 \<Rightarrow> string \<Rightarrow> u32 \<Rightarrow> u32 \<Rightarrow> bool \<Rightarrow> bool \<Rightarrow> string \<Rightarrow> nat \<Rightarrow> bytes" where
  "status_text app_version logger ready us ur ut vs vp vt verified apply_ready reason st =
     ascii ''{\"app_version\":\"'' @ app_version @ ascii ''\",\"logger_active\":'' @ bool_text logger @
     ascii '',\"upload_ready\":'' @ bool_text ready @ ascii '',\"upload_state\":\"'' @ ascii us @
     ascii ''\",\"upload_received\":'' @ u32_text ur @ ascii '',\"upload_total\":'' @ u32_text ut @
     ascii '',\"received\":'' @ u32_text ur @ ascii '',\"total\":'' @ u32_text ut @
     ascii '',\"verify_state\":\"'' @ ascii vs @ ascii ''\",\"verify_processed\":'' @ u32_text vp @
     ascii '',\"verify_total\":'' @ u32_text vt @ ascii '',\"verified\":'' @ bool_text verified @
     ascii '',\"apply_ready\":'' @ bool_text apply_ready @ ascii '',\"error_reason\":\"'' @ ascii reason @
     ascii ''\",\"ingest_status\":'' @ nat_digits st @ ascii ''}''"

definition short_status_text ::
  "bool \<Rightarrow> bool \<Rightarrow> u32 \<Rightarrow> u32 \<Rightarrow> u32 \<Rightarrow> u32 \<Rightarrow> bool \<Rightarrow> bool \<Rightarrow> nat \<Rightarrow> bytes" where
  "short_status_text logger ready ur ut vp vt verified apply_ready st =
     ascii ''{\"logger_active\":'' @ bool_text logger @ ascii '',\"upload_ready\":'' @ bool_text ready @
     ascii '',\"upload_state\":\"error\",\"upload_received\":'' @ u32_text ur @ ascii '',\"upload_total\":'' @ u32_text ut @
     ascii '',\"received\":'' @ u32_text ur @ ascii '',\"total\":'' @ u32_text ut @
     ascii '',\"verify_state\":\"error\",\"verify_processed\":'' @ u32_text vp @ ascii '',\"verify_total\":'' @ u32_text vt @
     ascii '',\"verified\":'' @ bool_text verified @ ascii '',\"apply_ready\":'' @ bool_text apply_ready @
     ascii '',\"error_reason\":\"status_payload_too_large\",\"ingest_status\":'' @ nat_digits st @ ascii ''}''"

definition FsCustomIap_RenderStatus :: "bytes \<Rightarrow> nat \<Rightarrow> 'h core0_state \<Rightarrow> bytes option" where
  "FsCustomIap_RenderStatus app_version buffer_size s =
     (let logger = is_logger_active s;
          (upload_state, upload_received, upload_total) = HttpdPost_GetIapUploadState (web s);
          (upload_error, ingest_status) = HttpdPost_GetIapUploadError (web s);
          upload_ready = HttpdPost_IsIapUploadReady (web s) \<noteq> 0;
          (verify_state, verify_processed, verify_total) = Iap_GetVerifyStatus (iap (web s));
          is_verified = WebInterface_IsFirmwareVerifiedHook s \<noteq> 0;
          apply_ready = (\<not> logger \<and> is_verified)
      in case rendered buffer_size (status_text app_version logger upload_ready (upload_state_name upload_state)
             upload_received upload_total (verify_state_name verify_state) verify_processed verify_total
             is_verified apply_ready (error_reason_name upload_error) (ingest_code ingest_status)) of
           Some text \<Rightarrow> Some text
         | None \<Rightarrow> rendered buffer_size (short_status_text logger upload_ready upload_received upload_total
             verify_processed verify_total is_verified apply_ready (ingest_code ingest_status)))"

section \<open>One round of the main loop\<close>

definition tracer_action_step :: "'h core0_state \<Rightarrow> 'h core0_state" where
  "tracer_action_step s =
     (if canTracerActionPending s then
        if canTracerActionDelayPolls s > 0 then s\<lparr>canTracerActionDelayPolls := canTracerActionDelayPolls s - 1\<rparr>
        else s\<lparr>runCanTracer := requestedRunCanTracer s, canTracerActionPending := False\<rparr>
      else s)"

definition verify_poll :: "'h core0_state \<Rightarrow> 'h core0_state" where
  "verify_poll s = s\<lparr>web := (web s)\<lparr>iap := Iap_VerifyPoll (iap (web s))\<rparr>\<rparr>"

text \<open>\<open>upd cfg\<close>: \<open>ConfigManager_UpdateConfig\<close> answers \<open>CONFIG_OK\<close>.\<close>

definition config_step :: "(AppConfigType \<Rightarrow> bool) \<Rightarrow> 'h core0_state \<Rightarrow> bool \<times> 'h core0_state" where
  "config_step upd s =
     (let cfg = AppConfig s; canConfigChanged = SettingsHandler_Poll cfg
      in if canConfigChanged \<noteq> 0 then
           let s = emit [UpdateConfig cfg] s;
               s = emit (if upd cfg
                         then [SetLogParam CLM_PARAMETER_ID_CAN1_BAUDRATE (baudrate (can1 cfg)),
                               SetLogParam CLM_PARAMETER_ID_CAN2_BAUDRATE (baudrate (can2 cfg))]
                         else [ErrorHandler]) s
           in (True, s\<lparr>web := (web s)\<lparr>settings := (settings (web s))\<lparr>AppSettings := cfg\<lparr>updated := 0\<rparr>\<rparr>\<rparr>\<rparr>)
         else (False, s))"

definition apply_config_step :: "bool \<Rightarrow> 'h core0_state \<Rightarrow> 'h core0_state" where
  "apply_config_step canConfigChanged s =
     (let s' = (if applyConfig (settings (web s)) \<noteq> 0 \<and> \<not> runCanTracer s \<and> canConfigChanged then
           let data = appCanCtrlDataSetter (CanCtrlData s) (runCanTracer s) (AppConfig s)
           in emit [SetBaudrate data, SetMode data] (s\<lparr>CanCtrlData := data\<rparr>)
         else s)
      in s'\<lparr>web := (web s')\<lparr>settings := (settings (web s'))\<lparr>applyConfig := 0\<rparr>\<rparr>\<rparr>)"

definition flash_of :: "'h core0_state \<Rightarrow> 'h flash_state" where
  "flash_of s = fl (store (core (iap (web s))))"

definition with_flash :: "'h flash_state \<Rightarrow> 'h core0_state \<Rightarrow> 'h core0_state" where
  "with_flash f s = s\<lparr>web := (web s)\<lparr>iap := (iap (web s))\<lparr>core := (core (iap (web s)))\<lparr>store :=
     (store (core (iap (web s))))\<lparr>fl := f\<rparr>\<rparr>\<rparr>\<rparr>\<rparr>"

text \<open>\<open>marker\<close> is \<open>&__scratch_end__\<close>, which the hook \<open>FwUpdateHandoff_GetMarkerAddress_Hook\<close> of this file
  returns; \<open>p\<close> is the address of the local record of the request.\<close>

definition marker_address_hook :: "u32 \<Rightarrow> marker_hook" where
  "marker_address_hook marker = (FW_UPDATE_HANDOFF_E_OK, marker)"

definition apply_firmware_step :: "'h flash_device \<Rightarrow> u32 \<Rightarrow> u32 \<Rightarrow> 'h core0_state \<Rightarrow> 'h core0_state" where
  "apply_firmware_step dev marker p s =
     (if applyFirmwareUpdate s then
        if \<not> runCanTracer s \<and> Iap_IsVerified (iap (web s)) \<noteq> 0 then
          let s = (if mountRes s = RES_OK then (emit [Unmount] s)\<lparr>mountRes := RES_NOTRDY\<rparr> else s);
              s = s\<lparr>applyFirmwareUpdate := False\<rparr>;
              (handoff_status, f) = FwUpdateHandoff_RequestApply dev (marker_address_hook marker) p (flash_of s);
              s = with_flash f s
          in if handoff_status = FW_UPDATE_HANDOFF_E_OK
             then (emit [TaskDelay 50, SystemReset] s)\<lparr>halted := True\<rparr> else s
        else s\<lparr>applyFirmwareUpdate := False\<rparr>
      else s)"

definition core0_loop ::
  "'h flash_device \<Rightarrow> u32 \<Rightarrow> u32 \<Rightarrow> (AppConfigType \<Rightarrow> bool) \<Rightarrow> 'h core0_state \<Rightarrow> 'h core0_state" where
  "core0_loop dev marker p upd s =
     (case config_step upd (verify_poll (tracer_action_step s)) of
        (canConfigChanged, s) \<Rightarrow>
          apply_firmware_step dev marker p
            (apply_config_step canConfigChanged (emit [SetSendingActive (runCanTracer s)] s)))"

section \<open>What the hand-over leaves alone\<close>

context handoff_flash
begin

lemma ready_usable: "flash_ready dev (Info st) \<Longrightarrow> hal_ok (hw st) \<Longrightarrow> driver_usable dev hal_ok st"
  by (simp add: driver_usable_def)

lemma location_ready:
  assumes "flash_ready dev (Info st)" "FwUpdateHandoff_GetMarkerLocation dev hook True True st = (r, loc, st')"
  shows "st' = st"
proof -
  have "total_size (Info st) \<noteq> 0" using assms(1) by (rule ready_not_zero)
  then have "Flash_GetInfo dev True st = (FLASH_E_OK, Some (Info st), st)" by (simp add: Flash_GetInfo_def)
  then show ?thesis
    using assms(2) by (cases hook) (auto simp: FwUpdateHandoff_GetMarkerLocation_def Let_def split: if_splits)
qed

lemma RequestApply_frame:
  assumes "flash_ready dev (Info st)" "hal_ok (hw st)" "FwUpdateHandoff_RequestApply dev hook p st = (r, st')"
  shows "flash_ready dev (Info st') \<and> hal_ok (hw st') \<and>
    flash_same_outside dev erased (snd hook) (unat (FLASH_SECTOR_SIZE dev)) (hw st) (hw st')"
proof -
  let ?a = "snd hook"
  obtain lr loc st1 where l: "FwUpdateHandoff_GetMarkerLocation dev hook True True st = (lr, loc, st1)"
    by (metis prod_cases3)
  have st1: "st1 = st" by (rule location_ready [OF assms(1) l])
  note c = location_cases [OF ready_usable [OF assms(1,2)] l]
  obtain er st2 where e: "Flash_Erase dev ?a (FLASH_SECTOR_SIZE dev) st = (er, st2)" by fastforce
  note e' = marker_erase [OF assms(1,2) e]
  obtain wr st3 where w: "Flash_Write dev ?a (Some (p, record_bytes apply_record)) record_size st2 = (wr, st3)"
    by fastforce
  have "flash_ready dev (Info st2)" "hal_ok (hw st2)" using e' by simp_all
  note w' = marker_write [OF this length_record_bytes w]
  have both: "flash_same_outside dev erased ?a (unat (FLASH_SECTOR_SIZE dev)) (hw st) (hw st3)"
    by (rule flash_same_outside_trans [of dev erased _ _ _ "hw st2"]) (use e' w' in blast)+
  have "st' = st \<or> st' = st2 \<or> st' = st3"
    using assms(3) l st1 c e w
    by (auto simp: FwUpdateHandoff_RequestApply_def Let_def split: if_splits prod.splits)
  then show ?thesis using assms(1,2) e' w' both by auto
qed

end

text \<open>A change of the flash outside the slot is none for the update service.\<close>

lemma web_inv_flash:
  fixes st :: "'h adapter_state httpd_state"
  assumes "web_inv (adapter_ops dev) (\<lambda>st. flash_mem dev (hw (fl st))) (\<lambda>st. erased (hw (fl st))) (adapter_inv dev hal_ok) prog st"
    and "flash_ready dev (Info f)" "hal_ok (hw f)"
    and "\<And>x. in_range x (slot_addr (config (writer (core (iap st))))) (unat (slot_size (config (writer (core (iap st)))))) \<Longrightarrow>
      flash_mem dev (hw f) x = flash_mem dev (hw (fl (store (core (iap st))))) x \<and>
      erased (hw f) x = erased (hw (fl (store (core (iap st))))) x"
  shows "web_inv (adapter_ops dev) (\<lambda>st. flash_mem dev (hw (fl st))) (\<lambda>st. erased (hw (fl st))) (adapter_inv dev hal_ok) prog
    (st\<lparr>iap := (iap st)\<lparr>core := (core (iap st))\<lparr>store := (store (core (iap st)))\<lparr>fl := f\<rparr>\<rparr>\<rparr>\<rparr>)"
proof -
  let ?x = "core (iap st)" and ?s = "store (core (iap st))"
  let ?s' = "?s\<lparr>fl := f\<rparr>" and ?w = "writer (core (iap st))"
  let ?x' = "?x\<lparr>store := ?s'\<rparr>"
  let ?mem = "\<lambda>st. flash_mem dev (hw (fl st))" and ?blank = "\<lambda>st. erased (hw (fl st))"
  let ?st = "st\<lparr>iap := (iap st)\<lparr>core := ?x'\<rparr>\<rparr>"
  have core: "core_inv (adapter_ops dev) ?blank (adapter_inv dev hal_ok) prog ?x"
    using assms(1) by (simp add: web_inv_def service_inv_def)
  then have w: "writer_inv ?w" "initialized ?w" and sinv: "adapter_inv dev hal_ok ?s" by (simp_all add: core_inv_def)
  have sinv': "adapter_inv dev hal_ok ?s'" using sinv assms(2,3) by (simp add: adapter_inv_def)
  have sz: "unat (slot_size (config ?w)) \<le> 4294967296" using unat_u32_bound [of "slot_size (config ?w)"] by simp
  have sizes: "unat (received_size ?w) \<le> unat (slot_size (config ?w))" "unat (expected_size ?w) \<le> unat (slot_size (config ?w))"
    "unat (verify_pos ?w) \<le> unat (slot_size (config ?w))"
    using w by (auto simp: writer_inv_def verify_pos_def)
  have rd: "mem_read (?mem ?s') (slot_addr (config ?w)) n = mem_read (?mem ?s) (slot_addr (config ?w)) n"
    if "n \<le> unat (slot_size (config ?w))" for n
  proof (rule mem_read_cong)
    fix i assume "i < n"
    then have "in_range (slot_addr (config ?w) + of_nat i) (slot_addr (config ?w)) (unat (slot_size (config ?w)))"
      using that sz in_range_offset [of "unat (slot_size (config ?w))" i] by simp
    then show "?mem ?s' (slot_addr (config ?w) + of_nat i) = ?mem ?s (slot_addr (config ?w) + of_nat i)"
      using assms(4) by simp
  qed
  have bl: "?blank ?s' y = ?blank ?s y" if "in_range y (slot_addr (config ?w)) n" "n \<le> unat (slot_size (config ?w))" for y n
    using assms(4) in_range_mono [OF that] by simp
  have core': "core_inv (adapter_ops dev) ?blank (adapter_inv dev hal_ok) prog ?x'"
    using core sinv' bl by (auto simp: core_inv_def slot_blank_def)
  have sess: "session (adapter_ops dev) ?mem ?blank (adapter_inv dev hal_ok) ?w ?s' img"
    if "session (adapter_ops dev) ?mem ?blank (adapter_inv dev hal_ok) ?w ?s img" for img
    using that sinv' rd [of "length img"] bl sizes by (auto simp: session_def)
  have acc: "ingest_acc (adapter_ops dev) ?mem ?blank (adapter_inv dev hal_ok) prog ?x' a"
    if "ingest_acc (adapter_ops dev) ?mem ?blank (adapter_inv dev hal_ok) prog ?x a" for a
    using that sess by (auto simp: ingest_acc_def)
  have img: "image_stored (adapter_ops dev) ?mem (adapter_inv dev hal_ok) ?x'"
    if "image_stored (adapter_ops dev) ?mem (adapter_inv dev hal_ok) ?x"
    using that sinv' rd sizes by (auto simp: image_stored_def stored_def verifying_def)
  have "posts_inv (adapter_ops dev) ?mem ?blank (adapter_inv dev hal_ok) prog ?st"
  proof -
    have p: "post_at ?st i = post_at st i" for i by (simp add: post_at_def)
    have "entry_open (adapter_ops dev) ?mem ?blank (adapter_inv dev hal_ok) prog ?x' pl"
      if "entry_open (adapter_ops dev) ?mem ?blank (adapter_inv dev hal_ok) prog ?x pl" for pl
      using that acc by (auto simp: entry_open_def)
    then show ?thesis using assms(1) by (auto simp: web_inv_def posts_inv_def entry_ok_def open_at_def p)
  qed
  then show ?thesis using core' assms(1) img by (auto simp: web_inv_def service_inv_def)
qed

section \<open>Histories of the task\<close>

text \<open>What can happen next: a request of lwIP, one of the pages, a page of the control or the
  configuration form, the logger changing the flag it shares with this task, or a round of the
  loop.\<close>

datatype core0_event =
  ReqBegin u32 bytes int | ReqData u32 "bytes list" | ReqFinished u32 |
  GetPrepare nat | GetApply nat | Control int "(bytes \<times> bytes) list" | Config int "(bytes \<times> bytes) list" |
  TracerFlag bool | Round u32 "AppConfigType \<Rightarrow> bool"

fun core0_step :: "'h flash_device \<Rightarrow> u32 \<Rightarrow> core0_event \<Rightarrow> 'h core0_state \<Rightarrow> 'h core0_state" where
  "core0_step dev marker (ReqBegin c uri len) s = s\<lparr>web := snd (snd (httpd_post_begin c uri len (web s)))\<rparr>"
| "core0_step dev marker (ReqData c bufs) s = s\<lparr>web := snd (httpd_post_receive_data c bufs (web s))\<rparr>"
| "core0_step dev marker (ReqFinished c) s = s\<lparr>web := snd (httpd_post_finished c (web s))\<rparr>"
| "core0_step dev marker (GetPrepare n) s = snd (FsCustomIap_RenderPrepare n s)"
| "core0_step dev marker (GetApply n) s = snd (FsCustomIap_RenderApply n s)"
| "core0_step dev marker (Control i qs) s = snd (app_control_cgi_handler core0_hooks i qs s)"
| "core0_step dev marker (Config i qs) s =
     s\<lparr>web := (web s)\<lparr>settings := snd (CAN_config_CGI_Handler i qs (settings (web s)))\<rparr>\<rparr>"
| "core0_step dev marker (TracerFlag b) s = s\<lparr>runCanTracer := b\<rparr>"
| "core0_step dev marker (Round p upd) s = core0_loop dev marker p upd s"

text \<open>The two conditions of \<open>event_ok\<close>: a connection begins only when no entry still has its pointer, and the erase
  of a preparation does not fail.\<close>

fun core0_event_ok :: "core0_event \<Rightarrow> 'h core0_state \<Rightarrow> bool" where
  "core0_event_ok (ReqBegin c uri len) s = event_ok (PostBegin c uri len) (web s)"
| "core0_event_ok (GetPrepare n) s = event_ok PrepareSlot (HttpdPost_ResetIapUploadSession (web s))"
| "core0_event_ok _ s = True"

inductive core0_reach :: "'h flash_device \<Rightarrow> u32 \<Rightarrow> 'h core0_state \<Rightarrow> 'h core0_state \<Rightarrow> bool" for dev marker s0 where
  core0_start: "core0_reach dev marker s0 s0"
| core0_next: "core0_reach dev marker s0 s \<Longrightarrow> \<not> halted s \<Longrightarrow> core0_event_ok e s \<Longrightarrow>
    core0_reach dev marker s0 (core0_step dev marker e s)"

inductive_cases core0_reachE: "core0_reach dev marker s0 s"

text \<open>The same for a list of events; nothing happens after the reset.\<close>

fun core0_history_ok :: "'h flash_device \<Rightarrow> u32 \<Rightarrow> core0_event list \<Rightarrow> 'h core0_state \<Rightarrow> bool" where
  "core0_history_ok dev marker [] s \<longleftrightarrow> True"
| "core0_history_ok dev marker (e # es) s \<longleftrightarrow>
     \<not> halted s \<and> core0_event_ok e s \<and> core0_history_ok dev marker es (core0_step dev marker e s)"

lemma core0_history_snoc: "core0_history_ok dev marker (es @ [e]) s \<longleftrightarrow>
    core0_history_ok dev marker es s \<and> \<not> halted (fold (core0_step dev marker) es s) \<and>
    core0_event_ok e (fold (core0_step dev marker) es s)"
  by (induction es arbitrary: s) auto

lemma core0_reach_history: "core0_reach dev marker s0 s \<longleftrightarrow>
    (\<exists>es. core0_history_ok dev marker es s0 \<and> s = fold (core0_step dev marker) es s0)"
proof
  assume "core0_reach dev marker s0 s"
  then show "\<exists>es. core0_history_ok dev marker es s0 \<and> s = fold (core0_step dev marker) es s0"
  proof (induction rule: core0_reach.induct)
    case core0_start
    show ?case by (intro exI [of _ "[]"]) simp
  next
    case (core0_next s e)
    then obtain es where "core0_history_ok dev marker es s0" "s = fold (core0_step dev marker) es s0" by blast
    then show ?case using core0_next.hyps(2,3) by (intro exI [of _ "es @ [e]"]) (simp add: core0_history_snoc)
  qed
next
  have "core0_reach dev marker s0 (fold (core0_step dev marker) es s0)" if "core0_history_ok dev marker es s0" for es
    using that
  proof (induction es rule: rev_induct)
    case (snoc e es)
    then show ?case using core0_next [of dev marker s0 "fold (core0_step dev marker) es s0" e] by (simp add: core0_history_snoc)
  qed (simp add: core0_start)
  then show "\<exists>es. core0_history_ok dev marker es s0 \<and> s = fold (core0_step dev marker) es s0 \<Longrightarrow>
      core0_reach dev marker s0 s" by blast
qed

text \<open>The task before its first round, with the update service just initialised.\<close>

definition core0_booted ::
  "'h flash_device \<Rightarrow> ('h \<Rightarrow> bool) \<Rightarrow> u32 \<Rightarrow> u32 \<Rightarrow> 'h adapter_state iap_state \<Rightarrow> 'h core0_state \<Rightarrow> bool" where
  "core0_booted dev hal_ok a sz v0 s \<longleftrightarrow> booted dev hal_ok a sz v0 (web s) \<and> SystemReset \<notin> set (calls s) \<and> \<not> halted s"

text \<open>A hand-over happened: only with the logger stopped and a checked image, and the marker is set.\<close>

definition handover_ok :: "'h flash_device \<Rightarrow> u32 \<Rightarrow> 'h core0_state \<Rightarrow> bool" where
  "handover_ok dev marker s \<longleftrightarrow> (SystemReset \<in> set (calls s) \<longrightarrow>
     halted s \<and> \<not> runCanTracer s \<and> Iap_IsVerified (iap (web s)) = 1 \<and> marker_set dev marker (flash_of s))"

lemma core0_simps [simp]:
  "web (emit cs s) = web s" "runCanTracer (emit cs s) = runCanTracer s" "halted (emit cs s) = halted s"
  "set (calls (emit cs s)) = set (calls s) \<union> set cs" "applyFirmwareUpdate (emit cs s) = applyFirmwareUpdate s"
  "mountRes (emit cs s) = mountRes s" "flash_of (emit cs s) = flash_of s"
  "flash_of (s\<lparr>halted := b\<rparr>) = flash_of s" "flash_of (s\<lparr>applyFirmwareUpdate := b\<rparr>) = flash_of s"
  "flash_of (s\<lparr>mountRes := m\<rparr>) = flash_of s" "flash_of (s\<lparr>runCanTracer := b\<rparr>) = flash_of s"
  by (auto simp: emit_def flash_of_def)

lemma with_flash_simps [simp]:
  "flash_of (with_flash f s) = f" "calls (with_flash f s) = calls s" "halted (with_flash f s) = halted s"
  "runCanTracer (with_flash f s) = runCanTracer s" "writer (core (iap (web (with_flash f s)))) = writer (core (iap (web s)))"
  "Iap_IsVerified (iap (web (with_flash f s))) = Iap_IsVerified (iap (web s))"
  by (simp_all add: with_flash_def flash_of_def Iap_IsVerified_def)

text \<open>The hooks change neither the web server nor the flags of a hand-over.\<close>

lemma core0_hooks_simps [simp]:
  "GetActionHook core0_hooks = WebInterface_GetActionHook"
  "RequestFormattingHook core0_hooks = WebInterface_RequestFormattingHook"
  by (simp_all add: core0_hooks_def)

lemma run_actions_core0:
  "web (run_actions core0_hooks qs s) = web s \<and> halted (run_actions core0_hooks qs s) = halted s \<and>
   calls (run_actions core0_hooks qs s) = calls s"
proof (induction qs arbitrary: s)
  case (Cons q qs)
  obtain p v where q: "q = (p, v)" by fastforce
  let ?s = "run_actions core0_hooks [q] s"
  have "web ?s = web s \<and> halted ?s = halted s \<and> calls ?s = calls s"
    by (simp add: q run_actions_def WebInterface_GetActionHook_def)
  moreover have "run_actions core0_hooks (q # qs) s = run_actions core0_hooks qs ?s" by (simp add: run_actions_def)
  ultimately show ?case using Cons.IH [of ?s] by simp
qed (simp add: run_actions_def)

lemma control_frame:
  "web (appCtrlCgiHandler core0_hooks i qs s) = web s \<and> halted (appCtrlCgiHandler core0_hooks i qs s) = halted s \<and>
   (SystemReset \<in> set (calls (appCtrlCgiHandler core0_hooks i qs s)) \<longleftrightarrow> SystemReset \<in> set (calls s))"
proof (cases "i = 0")
  case True
  let ?r = "run_actions core0_hooks qs s"
  have "\<exists>c f n. appCtrlCgiHandler core0_hooks i qs s =
      (if \<exists>q\<in>set qs. format_action q then RequestFormattingHook core0_hooks c f n ?r else ?r)"
    using True by (simp add: appCtrlCgiHandler_def cgi_params_run Let_def) blast
  then show ?thesis
    using run_actions_core0 [of qs s]
    by (cases "\<exists>q\<in>set qs. format_action q") (auto simp: WebInterface_RequestFormattingHook_def simp del: bex_simps)
qed (simp add: appCtrlCgiHandler_def)

locale update_flash = flash_hal_words dev hal_ok erased + handoff_flash dev hal_ok erased
  for dev :: "'h flash_device" and hal_ok erased
begin

abbreviation "cwinv \<equiv> web_inv (adapter_ops dev) (\<lambda>st. flash_mem dev (hw (fl st))) (\<lambda>st. erased (hw (fl st)))
  (adapter_inv dev hal_ok) (FLASH_FLASHWORD_SIZE dev)"

text \<open>\<open>a\<close> and \<open>sz\<close> are the slot, \<open>m0\<close> the flash at the start.\<close>

definition task_inv :: "u32 \<Rightarrow> u32 \<Rightarrow> u32 \<Rightarrow> memory \<Rightarrow> 'h core0_state \<Rightarrow> bool" where
  "task_inv marker a sz m0 s \<longleftrightarrow> cwinv (web s) \<and>
     slot_addr (config (writer (core (iap (web s))))) = a \<and> slot_size (config (writer (core (iap (web s))))) = sz \<and>
     (\<forall>x. \<not> in_range x a (unat sz) \<longrightarrow> \<not> in_range x marker (unat (FLASH_SECTOR_SIZE dev)) \<longrightarrow>
        flash_mem dev (hw (flash_of s)) x = m0 x) \<and>
     handover_ok dev marker s"

lemma task_inv_web:
  assumes "task_inv marker a sz m0 s" "\<not> halted s" "cwinv w \<and> slot_frame (\<lambda>st. flash_mem dev (hw (fl st))) (\<lambda>st. erased (hw (fl st)))
      (core (iap (web s))) (core (iap w))"
    and "web s' = w" "calls s' = calls s"
  shows "task_inv marker a sz m0 s'"
proof -
  have "SystemReset \<notin> set (calls s)" using assms(1,2) by (auto simp: task_inv_def handover_ok_def)
  then show ?thesis
    using assms by (auto simp: task_inv_def handover_ok_def flash_of_def slot_frame_def same_outside_def)
qed

lemma task_inv_same:
  assumes "task_inv marker a sz m0 s" "\<not> halted s" "iap (web s') = iap (web s)" "conn_map (web s') = conn_map (web s)"
    "current_connection (web s') = current_connection (web s)" "SystemReset \<notin> set (calls s')"
  shows "task_inv marker a sz m0 s'"
  using assms web_inv_cong [OF assms(4,3,5)] by (auto simp: task_inv_def handover_ok_def flash_of_def)

lemma task_inv_running: "task_inv marker a sz m0 s \<Longrightarrow> \<not> halted s \<Longrightarrow> SystemReset \<notin> set (calls s)"
  by (auto simp: task_inv_def handover_ok_def)

lemma apply_firmware_inv:
  assumes "task_inv marker a sz m0 s" "\<not> halted s"
    and disj: "\<And>x. in_range x a (unat sz) \<Longrightarrow> \<not> in_range x marker (unat (FLASH_SECTOR_SIZE dev))"
  shows "task_inv marker a sz m0 (apply_firmware_step dev marker p s)"
proof (cases "applyFirmwareUpdate s \<and> \<not> runCanTracer s \<and> Iap_IsVerified (iap (web s)) \<noteq> 0")
  case False
  then show ?thesis
    using task_inv_same [OF assms(1,2)] assms task_inv_running [OF assms(1,2)] by (auto simp: apply_firmware_step_def)
next
  case True
  define s1 where "s1 = (if mountRes s = RES_OK then (emit [Unmount] s)\<lparr>mountRes := RES_NOTRDY\<rparr> else s)\<lparr>applyFirmwareUpdate := False\<rparr>"
  have s1: "web s1 = web s" "runCanTracer s1 = runCanTracer s" "SystemReset \<notin> set (calls s1)" "flash_of s1 = flash_of s"
    using task_inv_running [OF assms(1,2)] by (auto simp: s1_def flash_of_def)
  obtain r f where q: "FwUpdateHandoff_RequestApply dev (marker_address_hook marker) p (flash_of s) = (r, f)" by fastforce
  have run: "apply_firmware_step dev marker p s = (if r = FW_UPDATE_HANDOFF_E_OK
      then (emit [TaskDelay 50, SystemReset] (with_flash f s1))\<lparr>halted := True\<rparr> else with_flash f s1)"
    using True q by (simp add: apply_firmware_step_def Let_def) (simp add: s1_def)
  have w: "cwinv (web s)" "slot_addr (config (writer (core (iap (web s))))) = a"
    "slot_size (config (writer (core (iap (web s))))) = sz"
    using assms(1) by (simp_all add: task_inv_def)
  then have ready: "flash_ready dev (Info (flash_of s))" "hal_ok (hw (flash_of s))"
    by (simp_all add: web_inv_def service_inv_def core_inv_def adapter_inv_def flash_of_def)
  note fr = RequestApply_frame [OF ready q]
  note ex = RequestApply_exact [OF ready_usable [OF ready] q]
  have out: "\<not> in_range x marker (unat (FLASH_SECTOR_SIZE dev)) \<Longrightarrow>
      flash_mem dev (hw f) x = flash_mem dev (hw (flash_of s)) x \<and> erased (hw f) x = erased (hw (flash_of s)) x" for x
    using fr by (simp add: flash_same_outside_def marker_address_hook_def)
  have "cwinv (web (with_flash f s1))"
    using fr out disj w unfolding with_flash_def
    by (simp add: s1(1)) (rule web_inv_flash [OF w(1)], auto simp: flash_of_def)
  moreover have "verified": "Iap_IsVerified (iap (web s)) = 1" using True by (auto simp: Iap_IsVerified_def split: if_splits)
  moreover have "\<forall>x. \<not> in_range x a (unat sz) \<longrightarrow> \<not> in_range x marker (unat (FLASH_SECTOR_SIZE dev)) \<longrightarrow>
      flash_mem dev (hw f) x = m0 x"
    using assms(1) out by (auto simp: task_inv_def)
  moreover have "r = FW_UPDATE_HANDOFF_E_OK \<longrightarrow> marker_set dev marker f" using ex by (simp add: marker_address_hook_def)
  ultimately show ?thesis
    using w True s1 verified unfolding run task_inv_def handover_ok_def by simp
qed

lemma loop_inv:
  assumes "task_inv marker a sz m0 s" "\<not> halted s"
    and disj: "\<And>x. in_range x a (unat sz) \<Longrightarrow> \<not> in_range x marker (unat (FLASH_SECTOR_SIZE dev))"
  shows "task_inv marker a sz m0 (core0_loop dev marker p upd s)"
proof -
  note run = task_inv_running [OF assms(1,2)]
  define s1 where "s1 = tracer_action_step s"
  have s1: "web s1 = web s" "halted s1 = halted s" "calls s1 = calls s" by (simp_all add: s1_def tracer_action_step_def)
  define s2 where "s2 = verify_poll s1"
  have s2: "web s2 = (web s)\<lparr>iap := Iap_VerifyPoll (iap (web s))\<rparr>" "halted s2 = halted s" "calls s2 = calls s"
    using s1 by (simp_all add: s2_def verify_poll_def)
  have inv2: "task_inv marker a sz m0 s2"
    using task_inv_web [OF assms(1,2) _ s2(1,3)] adapter_words.poll_inv [of "web s"] assms(1) by (simp add: task_inv_def)
  obtain ch s3 where c: "config_step upd s2 = (ch, s3)" by fastforce
  have s3: "iap (web s3) = iap (web s2)" "conn_map (web s3) = conn_map (web s2)"
    "current_connection (web s3) = current_connection (web s2)" "SystemReset \<notin> set (calls s3)"
    using c run s2(3) by (auto simp: config_step_def Let_def split: if_splits)
  have inv3: "task_inv marker a sz m0 s3" using task_inv_same [OF inv2 _ s3] s2(2) assms(2) by simp
  have run3: "\<not> halted s3" using c s2(2) assms(2) by (auto simp: config_step_def Let_def split: if_splits)
  define s4 where "s4 = apply_config_step ch (emit [SetSendingActive (runCanTracer s3)] s3)"
  have s4: "iap (web s4) = iap (web s3)" "conn_map (web s4) = conn_map (web s3)"
    "current_connection (web s4) = current_connection (web s3)" "SystemReset \<notin> set (calls s4)" "halted s4 = halted s3"
    using s3(4) by (auto simp: s4_def apply_config_step_def Let_def)
  have "task_inv marker a sz m0 s4" using task_inv_same [OF inv3 run3 s4(1-4)] .
  then have "task_inv marker a sz m0 (apply_firmware_step dev marker p s4)"
    using apply_firmware_inv [OF _ _ disj] s4(5) run3 by simp
  then show ?thesis using c by (simp add: core0_loop_def s1_def [symmetric] s2_def [symmetric] s4_def)
qed

lemma prepare_page_inv:
  assumes "task_inv marker a sz m0 s" "\<not> halted s" "event_ok PrepareSlot (HttpdPost_ResetIapUploadSession (web s))"
  shows "task_inv marker a sz m0 (snd (FsCustomIap_RenderPrepare n s))"
proof (cases "is_logger_active s")
  case True
  then show ?thesis using assms(1) by (simp add: FsCustomIap_RenderPrepare_def)
next
  case False
  let ?w = "HttpdPost_ResetIapUploadSession (web s)"
  have inv: "cwinv (web s)" using assms(1) by (simp add: task_inv_def)
  note r = adapter_words.reset_session_inv [OF inv]
  obtain q v where p: "Iap_PrepareUploadSlot (iap ?w) = (q, v)" by fastforce
  have "q \<noteq> IAP_PREPARE_E_BACKEND" using assms(3) p by simp
  note pr = adapter_words.prepare_inv [OF conjunct1 [OF r] p this]
  have "snd (FsCustomIap_RenderPrepare n s) = s\<lparr>web := ?w\<lparr>iap := v\<rparr>\<rparr>"
    using False p by (simp add: FsCustomIap_RenderPrepare_def WebInterface_PrepareFirmwareUploadHook_def)
  then show ?thesis
    using r pr slot_frame_trans by (intro task_inv_web [OF assms(1,2)]) (auto intro: slot_frame_trans)
qed

lemma step_inv:
  assumes "task_inv marker a sz m0 s" "\<not> halted s" "core0_event_ok e s"
    and disj: "\<And>x. in_range x a (unat sz) \<Longrightarrow> \<not> in_range x marker (unat (FLASH_SECTOR_SIZE dev))"
  shows "task_inv marker a sz m0 (core0_step dev marker e s)"
proof -
  have inv: "cwinv (web s)" using assms(1) by (simp add: task_inv_def)
  note run = task_inv_running [OF assms(1,2)]
  have http: "cwinv (http_event x (web s)) \<and> slot_frame (\<lambda>st. flash_mem dev (hw (fl st))) (\<lambda>st. erased (hw (fl st)))
      (core (iap (web s))) (core (iap (http_event x (web s))))" if "event_ok x (web s)" for x
    using adapter_words.event_inv [OF inv that] .
  show ?thesis
  proof (cases e)
    case (ReqBegin c uri len)
    then show ?thesis using task_inv_web [OF assms(1,2) http [of "PostBegin c uri len"]] assms(3) by simp
  next
    case (ReqData c bufs)
    then show ?thesis using task_inv_web [OF assms(1,2) http [of "PostData c bufs"]] by simp
  next
    case (ReqFinished c)
    then show ?thesis using task_inv_web [OF assms(1,2) http [of "PostFinished c"]] by simp
  next
    case (GetPrepare n)
    then show ?thesis using prepare_page_inv [OF assms(1,2)] assms(3) by simp
  next
    case (GetApply n)
    have "iap (HttpdPost_ClearIapUploadReady w) = iap w \<and> conn_map (HttpdPost_ClearIapUploadReady w) = conn_map w \<and>
        current_connection (HttpdPost_ClearIapUploadReady w) = current_connection w" for w :: "'h adapter_state httpd_state"
      by (simp add: HttpdPost_ClearIapUploadReady_def idle_upload_def HttpdPost_SetIapUploadError_def HttpdPost_SetIapUploadStatus_def)
    then show ?thesis
      using GetApply run assms(1)
      by (intro task_inv_same [OF assms(1,2)])
        (auto simp: FsCustomIap_RenderApply_def Let_def WebInterface_RequestFirmwareApplyHook_def)
  next
    case (Control i qs)
    then show ?thesis
      using control_frame [of i qs s] run by (intro task_inv_same [OF assms(1,2)]) (simp_all add: app_control_cgi_handler_def)
  next
    case (Config i qs)
    then show ?thesis using run by (intro task_inv_same [OF assms(1,2)]) simp_all
  next
    case (TracerFlag b)
    then show ?thesis using run by (intro task_inv_same [OF assms(1,2)]) simp_all
  next
    case (Round p upd)
    then show ?thesis using loop_inv [OF assms(1,2) disj] by simp
  qed
qed

lemma history_inv:
  assumes "core0_reach dev marker s0 s" "task_inv marker a sz m0 s0"
    and "\<And>x. in_range x a (unat sz) \<Longrightarrow> \<not> in_range x marker (unat (FLASH_SECTOR_SIZE dev))"
  shows "task_inv marker a sz m0 s"
  using assms(1)
proof (induction rule: core0_reach.induct)
  case (core0_next s e)
  then show ?case using step_inv assms(3) by blast
qed (rule assms(2))

lemma booted_task_inv:
  assumes "core0_booted dev hal_ok a sz v0 s"
  shows "task_inv marker a sz (flash_mem dev (hw (fl (store (core v0))))) s"
proof -
  have "booted dev hal_ok a sz v0 (web s)" using assms by (simp add: core0_booted_def)
  note b = booted_inv [OF this]
  show ?thesis using b assms by (simp add: task_inv_def handover_ok_def core0_booted_def flash_of_def)
qed

end

interpretation stub_update: update_flash stub_device test_flash_initialized "\<lambda>h x. test_flash h x = 0xFF" ..

section \<open>An update from the browser to the reset\<close>

text \<open>A round with nothing to do but the verification.\<close>

definition idle :: "'h core0_state \<Rightarrow> bool" where
  "idle s \<longleftrightarrow> \<not> runCanTracer s \<and> \<not> canTracerActionPending s \<and> \<not> applyFirmwareUpdate s \<and> \<not> halted s \<and>
     updated (AppConfig s) = 0"

lemma idle_round:
  assumes "idle s"
  shows "idle (core0_loop dev marker p upd s) \<and> iap (web (core0_loop dev marker p upd s)) = Iap_VerifyPoll (iap (web s))"
  using assms
  by (simp add: idle_def core0_loop_def tracer_action_step_def verify_poll_def config_step_def Let_def AppConfig_def
      SettingsHandler_Poll_def apply_config_step_def apply_firmware_step_def emit_def)


lemma apply_page:
  assumes "idle s" "Iap_IsVerified (iap (web s)) = 1"
  shows "FsCustomIap_RenderApply n s = (rendered n (result_text True ''reboot_requested''),
    s\<lparr>applyFirmwareUpdate := True, web := HttpdPost_ClearIapUploadReady (web s)\<rparr>)"
  using assms by (simp add: idle_def FsCustomIap_RenderApply_def is_logger_active_def FsCustom_IsTracerRunning_def
      WebInterface_IsFirmwareVerifiedHook_def WebInterface_RequestFirmwareApplyHook_def Let_def)

text \<open>The round after a request to apply.\<close>

lemma clear_ready_fields:
  "iap (HttpdPost_ClearIapUploadReady w) = iap w" "settings (HttpdPost_ClearIapUploadReady w) = settings w"
  by (simp_all add: HttpdPost_ClearIapUploadReady_def idle_upload_def HttpdPost_SetIapUploadError_def HttpdPost_SetIapUploadStatus_def)

lemma handover_round:
  assumes "idle s" "Iap_IsVerified (iap (web s)) = 1"
    and "FwUpdateHandoff_RequestApply dev (marker_address_hook marker) p (flash_of s) = (FW_UPDATE_HANDOFF_E_OK, f)"
    and s'_def: "s' = core0_loop dev marker p upd (s\<lparr>applyFirmwareUpdate := True, web := HttpdPost_ClearIapUploadReady (web s)\<rparr>)"
  shows "SystemReset \<in> set (calls s') \<and> halted s' \<and> flash_of s' = f"
proof -
  let ?w = "HttpdPost_ClearIapUploadReady (web s)"
  have "vr_state (IapVerifyRuntime (iap (web s))) = IAP_VERIFY_STATE_VERIFIED"
    using assms(2) by (simp add: Iap_IsVerified_def split: if_splits)
  then have poll: "Iap_VerifyPoll (iap (web s)) = iap (web s)" by (simp add: Iap_VerifyPoll_def)
  define s1 where "s1 = apply_config_step False (emit [SetSendingActive (runCanTracer s)]
      (s\<lparr>applyFirmwareUpdate := True, web := ?w\<rparr>))"
  have s1: "iap (web s1) = iap (web s)" "flash_of s1 = flash_of s" "applyFirmwareUpdate s1" "\<not> runCanTracer s1"
    using assms(1) by (simp_all add: s1_def apply_config_step_def idle_def flash_of_def clear_ready_fields)
  have "verify_poll (tracer_action_step (s\<lparr>applyFirmwareUpdate := True, web := ?w\<rparr>)) = s\<lparr>applyFirmwareUpdate := True, web := ?w\<rparr>"
    using assms(1) poll by (simp add: idle_def tracer_action_step_def verify_poll_def clear_ready_fields)
  then have "s' = apply_firmware_step dev marker p s1"
    using assms(1) unfolding s'_def core0_loop_def s1_def
    by (simp add: config_step_def idle_def AppConfig_def clear_ready_fields SettingsHandler_Poll_def Let_def)
  then show ?thesis
    using s1 assms(2,3) by (simp add: apply_firmware_step_def Let_def)
qed

text \<open>The lengths of the texts of the status page.\<close>

lemma nat_digits_length: "0 < k \<Longrightarrow> n < 10 ^ k \<Longrightarrow> length (nat_digits n) \<le> k"
proof (induction n arbitrary: k rule: nat_digits.induct)
  case (1 n)
  show ?case
  proof (cases "n < 10")
    case True
    then show ?thesis using "1.prems" by (simp add: nat_digits.simps [of n])
  next
    case False
    obtain j where j: "k = Suc j" using "1.prems"(1) gr0_implies_Suc by blast
    have "0 < j" using False "1.prems"(2) by (cases j) (auto simp: j)
    moreover have "n div 10 < 10 ^ j" using "1.prems"(2) by (simp add: j less_mult_imp_div_less mult.commute)
    ultimately show ?thesis using "1.IH" [OF False, of j] False by (simp add: nat_digits.simps [of n] j)
  qed
qed

lemma u32_text_length: "length (u32_text w) \<le> 10"
  unfolding u32_text_def using unat_u32_bound [of w] by (intro nat_digits_length) simp_all

lemma name_lengths:
  "length (upload_state_name us) \<le> 11" "length (verify_state_name vs) \<le> 11" "length (error_reason_name r) \<le> 10"
  "length (nat_digits (ingest_code st)) = 1" "length (bool_text b) \<le> 5"
proof -
  show "length (upload_state_name us) \<le> 11" by (cases us) simp_all
  show "length (verify_state_name vs) \<le> 11" by (cases vs) simp_all
  show "length (error_reason_name r) \<le> 10" by (cases r) simp_all
  show "length (nat_digits (ingest_code st)) = 1" by (cases st) (simp_all add: nat_digits.simps)
  show "length (bool_text b) \<le> 5" by (simp add: bool_text_def ascii_def)
qed

lemma status_text_length:
  "length (status_text app_version logger ready (upload_state_name us) ur ut (verify_state_name vs) vp vt verified
     apply_ready (error_reason_name r) (ingest_code st)) \<le> length app_version + 354"
proof -
  have fixed: "length (status_text app_version logger ready x ur ut y vp vt verified apply_ready z n) =
      241 + length app_version + length x + length y + length z + length (nat_digits n) + length (bool_text logger) +
      length (bool_text ready) + length (bool_text verified) + length (bool_text apply_ready) +
      2 * length (u32_text ur) + 2 * length (u32_text ut) + length (u32_text vp) + length (u32_text vt)" for x y z n
    by (simp add: status_text_def ascii_def)
  show ?thesis
    unfolding fixed
    using name_lengths(1) [of us] name_lengths(2) [of vs] name_lengths(3) [of r] name_lengths(4) [of st]
      name_lengths(5) [of logger] name_lengths(5) [of ready] name_lengths(5) [of verified] name_lengths(5) [of apply_ready]
      u32_text_length [of ur] u32_text_length [of ut] u32_text_length [of vp] u32_text_length [of vt]
    by linarith
qed

lemma short_status_text_length:
  "length (short_status_text logger ready ur ut vp vt verified apply_ready (ingest_code st)) < 640"
proof -
  have fixed: "length (short_status_text logger ready ur ut vp vt verified apply_ready n) \<le>
      270 + length (nat_digits n) + length (bool_text logger) +
      length (bool_text ready) + length (bool_text verified) + length (bool_text apply_ready) +
      2 * length (u32_text ur) + 2 * length (u32_text ut) + length (u32_text vp) + length (u32_text vt)" for n
    by (simp add: short_status_text_def ascii_def)
  show ?thesis
    using fixed [of "ingest_code st"] name_lengths(4) [of st]
      name_lengths(5) [of logger] name_lengths(5) [of ready] name_lengths(5) [of verified] name_lengths(5) [of apply_ready]
      u32_text_length [of ur] u32_text_length [of ut] u32_text_length [of vp] u32_text_length [of vt]
    by linarith
qed

section \<open>The sample update\<close>

definition sample_core0 :: "hal_stub adapter_state iap_state \<Rightarrow> hal_stub core0_state" where
  "sample_core0 v = \<lparr>web = sample_httpd v, CanCtrlData = \<lparr>ctrl_can1 = \<lparr>ctrl_baudrate = 250000, ctrl_mode = 2\<rparr>,
     ctrl_can2 = \<lparr>ctrl_baudrate = 250000, ctrl_mode = 2\<rparr>, sendingActive = False\<rparr>, mountRes = RES_OK,
     runCanTracer = False, canTracerActionPending = False, requestedRunCanTracer = False,
     canTracerActionDelayPolls = 0, applyFirmwareUpdate = False, calls = [], halted = False\<rparr>"

abbreviation sample_round :: "hal_stub core0_state \<Rightarrow> hal_stub core0_state" where
  "sample_round \<equiv> core0_loop stub_device 0x3E0000 0x24000000 (\<lambda>cfg. True)"

lemma sample_slot:
  "in_flash stub_device 0x200000 (unat (0x20000 :: u32))"
  "in_range x 0x200000 (unat (0x20000 :: u32)) \<Longrightarrow> \<not> in_range x 0x3E0000 (unat (FLASH_SECTOR_SIZE stub_device))"
proof -
  show "in_flash stub_device 0x200000 (unat (0x20000 :: u32))" by (simp add: in_flash_def stub_device_def)
  assume "in_range x 0x200000 (unat (0x20000 :: u32))"
  then have lt: "unat (x - 0x200000) < 131072" by (simp add: in_range_def)
  have e: "x - 0x3E0000 = (x - 0x200000) + 0xFFE20000" by simp
  have "unat ((x - 0x200000) + 0xFFE20000) = unat (x - 0x200000) + unat (0xFFE20000 :: u32)"
    using lt by (subst unat_add_small) simp_all
  then show "\<not> in_range x 0x3E0000 (unat (FLASH_SECTOR_SIZE stub_device))"
    unfolding in_range_def e by (simp add: stub_device_def)
qed

text \<open>Upload, one round, the page \<open>/iap/apply\<close>, one round.\<close>

lemma sample_update:
  "\<exists>v resp w1 page w2. core0_booted stub_device test_flash_initialized 0x200000 0x20000 sample_iap (sample_core0 v) \<and>
     idle (sample_core0 v) \<and> httpd_post_begin 7 (ascii ''/iap/upload'') 32 (sample_httpd v) = (ERR_OK, resp, w1) \<and>
     httpd_post_finished 7 (receive_all 7 [[replicate 32 7]] w1) = (page, w2) \<and>
     up_state (HttpdIapUploadStatus w2) = HTTPD_IAP_UPLOAD_STATE_READY \<and>
     fst (FwUpdateHandoff_RequestApply stub_device (marker_address_hook 0x3E0000) 0x24000000
       (flash_of (sample_round ((sample_core0 v)\<lparr>web := w2\<rparr>)))) = FW_UPDATE_HANDOFF_E_OK \<and>
     (\<exists>s. core0_reach stub_device 0x3E0000 (sample_core0 v) s \<and> SystemReset \<in> set (calls s))"
proof -
  obtain v resp w1 page w2 where s: "booted stub_device test_flash_initialized 0x200000 0x20000 sample_iap (sample_httpd v)"
    "httpd_post_begin 7 (ascii ''/iap/upload'') 32 (sample_httpd v) = (ERR_OK, resp, w1)"
    "httpd_post_finished 7 (receive_all 7 [[replicate 32 7]] w1) = (page, w2)"
    "up_state (HttpdIapUploadStatus w2) = HTTPD_IAP_UPLOAD_STATE_READY"
    using sample_upload by blast
  let ?s0 = "sample_core0 v"
  have web: "web ?s0 = sample_httpd v" by (simp add: sample_core0_def)
  have boot: "core0_booted stub_device test_flash_initialized 0x200000 0x20000 sample_iap ?s0"
    using s(1) by (simp add: core0_booted_def sample_core0_def)
  have idle0: "idle ?s0" by (simp add: idle_def AppConfig_def sample_core0_def sample_settings_def)
  have fr: "fresh_connection 7 (sample_httpd v)" by simp
  have u: "take 11 (ascii ''/iap/upload'') = ascii ''/iap/upload''" by simp
  note b = stub_words.booted_inv [OF s(1)]
  have small: "\<forall>q\<in>set (concat [[replicate 32 7 :: bytes]]). length q < 65536" by simp
  have "Iap_IsVerified ((Iap_VerifyPoll ^^ 1) (iap w2)) = 1"
    using stub_words.upload_verified [OF b(1-3) sample_slot(1) fr u s(2) small s(3,4), of 1] by simp
  moreover have "settings w2 = settings (sample_httpd v)" using upload_request [OF fr u s(2) small s(3,4)] by blast
  then have idle2: "idle (?s0\<lparr>web := w2\<rparr>)" using idle0 web by (simp add: idle_def AppConfig_def)
  define s3 where "s3 = sample_round (?s0\<lparr>web := w2\<rparr>)"
  have s3: "idle s3" "iap (web s3) = Iap_VerifyPoll (iap w2)" using idle_round [OF idle2] by (simp_all add: s3_def)
  ultimately have ver: "Iap_IsVerified (iap (web s3)) = 1" by simp
  note rq = stub_words.adapter_words.request_inv [OF b(1) fr s(2,3)]
  have "adapter_inv stub_device test_flash_initialized (store (core (iap (web s3))))"
    using stub_words.adapter_words.poll_inv [OF conjunct1 [OF rq]] s3(2) by (simp add: web_inv_def service_inv_def core_inv_def)
  then have "driver_usable stub_device test_flash_initialized (flash_of s3)"
    by (simp add: driver_usable_def adapter_inv_def flash_of_def)
  note ok = stub_request_ok [OF this]
  then obtain f where f: "FwUpdateHandoff_RequestApply stub_device (marker_address_hook 0x3E0000) 0x24000000 (flash_of s3) =
      (FW_UPDATE_HANDOFF_E_OK, f)"
    by (metis marker_address_hook_def prod.collapse)
  let ?s4 = "s3\<lparr>applyFirmwareUpdate := True, web := HttpdPost_ClearIapUploadReady (web s3)\<rparr>"
  have reset: "SystemReset \<in> set (calls (sample_round ?s4))" using handover_round [OF s3(1) ver f refl] by simp
  have e1: "core0_step stub_device 0x3E0000 (ReqBegin 7 (ascii ''/iap/upload'') 32) ?s0 = ?s0\<lparr>web := w1\<rparr>"
    using s(2) web by simp
  have e2: "core0_step stub_device 0x3E0000 (ReqData 7 [replicate 32 7]) (?s0\<lparr>web := w1\<rparr>) =
      ?s0\<lparr>web := receive_all 7 [[replicate 32 7]] w1\<rparr>" by (simp add: receive_all_def)
  have e3: "core0_step stub_device 0x3E0000 (ReqFinished 7) (?s0\<lparr>web := receive_all 7 [[replicate 32 7]] w1\<rparr>) =
      ?s0\<lparr>web := w2\<rparr>" using s(3) by simp
  have e4: "core0_step stub_device 0x3E0000 (Round 0x24000000 (\<lambda>cfg. True)) (?s0\<lparr>web := w2\<rparr>) = s3"
    by (simp add: s3_def)
  have e5: "core0_step stub_device 0x3E0000 (GetApply 96) s3 = ?s4" using apply_page [OF s3(1) ver] by simp
  have run: "\<not> halted (?s0\<lparr>web := x\<rparr>)" "\<not> halted ?s0" "\<not> halted s3" "\<not> halted ?s4" for x
    using idle0 s3(1) by (simp_all add: idle_def)
  let ?r = "core0_reach stub_device 0x3E0000 ?s0"
  have "?r (?s0\<lparr>web := w1\<rparr>)" using core0_next [OF core0_start run(2), of "ReqBegin 7 (ascii ''/iap/upload'') 32"] e1 web
    by (simp add: list_all_iff)
  from core0_next [OF this run(1), of "ReqData 7 [replicate 32 7]"] e2
  have "?r (?s0\<lparr>web := receive_all 7 [[replicate 32 7]] w1\<rparr>)" by simp
  from core0_next [OF this run(1), of "ReqFinished 7"] e3 have "?r (?s0\<lparr>web := w2\<rparr>)" by simp
  from core0_next [OF this run(1), of "Round 0x24000000 (\<lambda>cfg. True)"] e4 have "?r s3" by simp
  from core0_next [OF this run(3), of "GetApply 96"] e5 have "?r ?s4" by simp
  from core0_next [OF this run(4), of "Round 0x24000000 (\<lambda>cfg. True)"] have "?r (sample_round ?s4)" by simp
  with boot idle0 s(2-4) ok reset show ?thesis unfolding s3_def marker_address_hook_def by blast
qed

section \<open>Properties\<close>

text \<open>C6. The task hands over only a verified image, after every history \<open>es\<close> of requests, pages, flags of the logger
  and rounds of the loop that meets two conditions: no connection begins while the table of connections
  still has an entry with its pointer, and no preparation fails to erase the slot.  The code does not ensure
  them; after a failed erase it keeps VERIFIED for a slot whose content may be gone (\<open>Iap.c\<close>, 242), and would
  then hand over without a matching image.  Under these conditions the task resets into the boot loader only with
  the logger stopped, the request in the marker sector, and an image in the slot whose hash is the one
  recorded while it was uploaded; and no byte outside the slot and the marker sector, which do not overlap, has
  changed since the start.\<close>

theorem handover_only_verified:
  assumes "update_flash dev hal_ok erased" "core0_booted dev hal_ok a sz v0 s0"
    and "core0_history_ok dev marker es s0" "s = fold (core0_step dev marker) es s0"
    and "\<And>x. in_range x a (unat sz) \<Longrightarrow> \<not> in_range x marker (unat (FLASH_SECTOR_SIZE dev))"
  shows "(SystemReset \<in> set (calls s) \<longrightarrow> \<not> runCanTracer s \<and> marker_set dev marker (flash_of s) \<and>
      finalized (writer (core (iap (web s)))) \<and>
      IapWriter_HashBytes IAP_WRITER_FNV1A_OFFSET_BASIS (mem_read (flash_mem dev (hw (flash_of s))) a
        (unat (expected_size (writer (core (iap (web s))))))) = payload_hash (writer (core (iap (web s))))) \<and>
    (\<forall>x. \<not> in_range x a (unat sz) \<longrightarrow> \<not> in_range x marker (unat (FLASH_SECTOR_SIZE dev)) \<longrightarrow>
      flash_mem dev (hw (flash_of s)) x = flash_mem dev (hw (fl (store (core v0)))) x)"
proof -
  have "core0_reach dev marker s0 s" using assms(3,4) core0_reach_history by blast
  note inv = update_flash.history_inv [OF assms(1) this update_flash.booted_task_inv [OF assms(1,2)] assms(5)]
  have "image_stored (adapter_ops dev) (\<lambda>st. flash_mem dev (hw (fl st))) (adapter_inv dev hal_ok) (core (iap (web s)))"
    if "Iap_IsVerified (iap (web s)) = 1"
    using inv that
    by (auto simp: update_flash.task_inv_def [OF assms(1)] web_inv_def service_inv_def Iap_IsVerified_def split: if_splits)
  then show ?thesis
    using inv by (auto simp: update_flash.task_inv_def [OF assms(1)] handover_ok_def image_stored_def stored_def flash_of_def)
qed

theorem handover_only_verified_witness:
  "\<exists>v es s. core0_history_ok stub_device 0x3E0000 es (sample_core0 v) \<and> s = fold (core0_step stub_device 0x3E0000) es (sample_core0 v) \<and>
     SystemReset \<in> set (calls s) \<and> finalized (writer (core (iap (web s)))) \<and> marker_set stub_device 0x3E0000 (flash_of s)"
proof -
  obtain v s where s: "core0_booted stub_device test_flash_initialized 0x200000 0x20000 sample_iap (sample_core0 v)"
    "core0_reach stub_device 0x3E0000 (sample_core0 v) s" "SystemReset \<in> set (calls s)"
    using sample_update by blast
  obtain es where h: "core0_history_ok stub_device 0x3E0000 es (sample_core0 v)"
    "s = fold (core0_step stub_device 0x3E0000) es (sample_core0 v)" using s(2) core0_reach_history by blast
  show ?thesis
    using handover_only_verified [OF stub_update.update_flash_axioms s(1) h sample_slot(2)] s(3) h by blast
qed



text \<open>The status page never fails: its 640 byte buffer holds the full text for every version string of
  up to 285 characters and every state, and the short text for any other.\<close>

theorem status_page_fits:
  "\<exists>text. FsCustomIap_RenderStatus app_version 640 s = Some text \<and> length text < 640 \<and>
     (length app_version \<le> 285 \<longrightarrow> take (17 + length app_version) text = ascii ''{\"app_version\":\"'' @ app_version @ ascii ''\"'')"
proof -
  obtain us ur ut where u: "HttpdPost_GetIapUploadState (web s) = (us, ur, ut)" by (metis prod_cases3)
  obtain r st where e: "HttpdPost_GetIapUploadError (web s) = (r, st)" by fastforce
  obtain vs vp vt where v: "Iap_GetVerifyStatus (iap (web s)) = (vs, vp, vt)" by (metis prod_cases3)
  let ?l = "is_logger_active s" and ?ver = "WebInterface_IsFirmwareVerifiedHook s \<noteq> 0"
    and ?rdy = "HttpdPost_IsIapUploadReady (web s) \<noteq> 0"
  let ?full = "status_text app_version ?l ?rdy (upload_state_name us) ur ut (verify_state_name vs) vp vt ?ver
      (\<not> ?l \<and> ?ver) (error_reason_name r) (ingest_code st)"
  let ?short = "short_status_text ?l ?rdy ur ut vp vt ?ver (\<not> ?l \<and> ?ver) (ingest_code st)"
  have run: "FsCustomIap_RenderStatus app_version 640 s =
      (if length ?full < 640 then Some ?full else if length ?short < 640 then Some ?short else None)"
    by (simp add: FsCustomIap_RenderStatus_def u e v rendered_def Let_def not_le)
  define pre where "pre = ascii ''{\"app_version\":\"'' @ app_version @ ascii ''\"''"
  have len: "length pre = 17 + length app_version" by (simp add: pre_def ascii_def)
  have "\<exists>rest. ?full = pre @ rest" by (simp add: status_text_def pre_def ascii_def)
  then obtain rest where "?full = pre @ rest" by blast
  then have "take (17 + length app_version) ?full = pre" by (simp add: len [symmetric])
  then show ?thesis
    using run status_text_length [of app_version ?l ?rdy us ur ut vs vp vt ?ver "\<not> ?l \<and> ?ver" r st]
      short_status_text_length [of ?l ?rdy ur ut vp vt ?ver "\<not> ?l \<and> ?ver" st]
    by (auto simp: pre_def)
qed

theorem status_page_fits_witness:
  "\<exists>text. FsCustomIap_RenderStatus (ascii ''1.0'') 640 (sample_core0 sample_iap) = Some text \<and>
     take 20 text = ascii ''{\"app_version\":\"1.0\"''"
proof -
  obtain x where x: "FsCustomIap_RenderStatus (ascii ''1.0'') 640 (sample_core0 sample_iap) = Some x"
    "length (ascii ''1.0'') \<le> 285 \<longrightarrow> take (17 + length (ascii ''1.0'')) x =
       ascii ''{\"app_version\":\"'' @ ascii ''1.0'' @ ascii ''\"''"
    using status_page_fits [of "ascii ''1.0''" "sample_core0 sample_iap"] by blast
  then show ?thesis by (simp add: ascii_def)
qed

end
