(* ===== verification/CanLogBuffer.thy ===== *)
theory CanLogBuffer
  imports RuntimeChecks Encoding
begin

text \<open>
  \<open>app/services/logging/CanLogBuffer.c\<close>: the staging buffer between frame reception and the SD
  card.  Entries are appended to a byte ring in blocks of \<open>BLOCK_SIZE\<close>; an entry never crosses a
  block boundary, the rest of a block is padded with \<open>0xFF\<close>, and a finished block gets its header
  when it is read.  The ring is the library lwrb, which the build downloads: its functions are the
  record \<open>lwrb_ops\<close>, and what the code relies on of them is the locale \<open>lwrb\<close>.  The file-scope
  variables are the record \<open>clb_state\<close>; the counters are those of RuntimeChecks.
\<close>

section \<open>Constants and data\<close>

type_synonym ClbReturnType = u8

definition CLB_E_OK :: ClbReturnType where [simp]: "CLB_E_OK = 0"
definition CLB_E_NOT_OK :: ClbReturnType where [simp]: "CLB_E_NOT_OK = 1"
definition CLB_E_BUFFER_FULL :: ClbReturnType where [simp]: "CLB_E_BUFFER_FULL = 3"
definition CLB_E_WRITE_PADDING :: ClbReturnType where [simp]: "CLB_E_WRITE_PADDING = 4"
definition CLB_E_WRITE_HEADER :: ClbReturnType where [simp]: "CLB_E_WRITE_HEADER = 5"
definition CLB_E_WRITE_ENTRY :: ClbReturnType where [simp]: "CLB_E_WRITE_ENTRY = 6"

definition CLB_ENTRY_MAX_DATA_LENGTH :: u32 where [simp]: "CLB_ENTRY_MAX_DATA_LENGTH = 64"
definition CANLOG_VERSION :: u8 where [simp]: "CANLOG_VERSION = 2"
definition BLOCK_SIZE :: u32 where [simp]: "BLOCK_SIZE = 0x10000"
definition LOG_BUFFER_SIZE :: u32 where [simp]: "LOG_BUFFER_SIZE = 0x80000"

definition CLB_ENTRY_TYPE_NONE :: u8 where [simp]: "CLB_ENTRY_TYPE_NONE = 0"
definition CLB_ENTRY_TYPE_FRAME :: u8 where [simp]: "CLB_ENTRY_TYPE_FRAME = 1"
definition CLB_ENTRY_TYPE_SYNC :: u8 where [simp]: "CLB_ENTRY_TYPE_SYNC = 2"
definition CLB_ENTRY_TYPE_MARKER :: u8 where [simp]: "CLB_ENTRY_TYPE_MARKER = 3"

text \<open>The sizes of the packed structures.  An entry is handed over as its bytes: byte 0 is the
  type, byte 1 the header length and byte 2 the total length.\<close>

definition ENTRY_HEADER_SIZE :: u32 where [simp]: "ENTRY_HEADER_SIZE = 3"
definition FRAME_ENTRY_SIZE :: u32 where [simp]: "FRAME_ENTRY_SIZE = 14"
definition SYNC_ENTRY_SIZE :: u32 where [simp]: "SYNC_ENTRY_SIZE = 11"
definition BLOCK_HEADER_SIZE :: u32 where [simp]: "BLOCK_HEADER_SIZE = 20"

record CanLogBlockHeaderType =
  hdr_version :: u8
  header_size :: u8
  epoch :: u8
  cnt :: u8
  block_size :: u32
  block_fill :: u32
  ingress_frames :: u32
  entries_count :: u32

definition block_header_bytes :: "CanLogBlockHeaderType \<Rightarrow> bytes" where
  "block_header_bytes h = [hdr_version h, header_size h, epoch h, cnt h] @
     u32_le (block_size h) @ u32_le (block_fill h) @ u32_le (ingress_frames h) @ u32_le (entries_count h)"

definition PaddingChunk :: bytes where
  "PaddingChunk = replicate 32 0xFF"

definition HeaderPlaceholder :: bytes where
  "HeaderPlaceholder = replicate 20 0"

text \<open>The functions of lwrb the code calls and the two pointers it reads.  A write names the bytes
  and returns how many were taken; a peek returns the bytes copied.  \<open>linear_load\<close> and
  \<open>linear_store\<close> are the accesses through \<open>lwrb_get_linear_block_read_address\<close>.\<close>

record 'r lwrb_ops =
  lwrb_init :: "'r \<Rightarrow> u32 \<Rightarrow> u8 \<times> 'r"
  lwrb_reset :: "'r \<Rightarrow> 'r"
  lwrb_get_free :: "'r \<Rightarrow> u32"
  lwrb_get_full :: "'r \<Rightarrow> u32"
  lwrb_get_linear_block_read_length :: "'r \<Rightarrow> u32"
  lwrb_get_linear_block_write_length :: "'r \<Rightarrow> u32"
  lwrb_write :: "'r \<Rightarrow> bytes \<Rightarrow> u32 \<times> 'r"
  lwrb_peek :: "'r \<Rightarrow> u32 \<Rightarrow> u32 \<Rightarrow> bytes"
  lwrb_skip :: "'r \<Rightarrow> u32 \<Rightarrow> 'r"
  r_ptr :: "'r \<Rightarrow> u32"
  w_ptr :: "'r \<Rightarrow> u32"
  linear_load :: "'r \<Rightarrow> u32 \<Rightarrow> bytes"
  linear_store :: "'r \<Rightarrow> bytes \<Rightarrow> 'r"

record 'r clb_state =
  Rb1 :: 'r
  EpochCount :: u8
  BlockCount :: u8
  backlog :: u64
  clb_counters :: counters

section \<open>Operations\<close>

definition CanLogBuffer_Init :: "'r lwrb_ops \<Rightarrow> 'r clb_state \<Rightarrow> u8 \<times> 'r clb_state" where
  "CanLogBuffer_Init ops s = (let (r, rb) = lwrb_init ops (Rb1 s) LOG_BUFFER_SIZE in (r, s\<lparr>Rb1 := rb\<rparr>))"

definition CanLogBuffer_SetEpochCount :: "u8 \<Rightarrow> 'r clb_state \<Rightarrow> 'r clb_state" where
  "CanLogBuffer_SetEpochCount e s = s\<lparr>EpochCount := e\<rparr>"

text \<open>The padding loop, which the code has in three places: it writes \<open>n\<close> bytes in chunks of at most
  32 and tells whether every chunk was taken.\<close>

function fill_padding :: "'r lwrb_ops \<Rightarrow> 'r \<Rightarrow> u32 \<Rightarrow> bool \<times> 'r" where
  "fill_padding ops rb n =
     (if n = 0 then (True, rb)
      else
        let chunk = (if n > 32 then 32 else n);
            (written, rb') = lwrb_write ops rb (take (unat chunk) PaddingChunk)
        in if chunk \<noteq> written then (False, rb') else fill_padding ops rb' (n - chunk))"
  by pat_completeness auto
termination
proof (relation "measure (\<lambda>(ops, rb, n). unat n)")
  fix ops :: "'r lwrb_ops" and rb rb' :: 'r and n chunk written :: u32 and x
  assume *: "n \<noteq> 0" "chunk = (if n > 32 then 32 else n)"
  then have "chunk \<le> n" "0 < unat chunk"
    by (auto simp: word_le_nat_alt word_less_nat_alt unat_gt_0 split: if_splits)
  then show "((ops, rb', n - chunk), ops, rb, n) \<in> measure (\<lambda>(ops, rb, n). unat n)"
    by (simp add: unat_sub word_le_nat_alt)
qed simp

declare fill_padding.simps [simp del]

partial_function (option) add_entry_loop ::
  "'r lwrb_ops \<Rightarrow> bytes \<Rightarrow> u32 \<Rightarrow> 'r clb_state \<Rightarrow> (ClbReturnType \<times> 'r clb_state) option" where
  "add_entry_loop ops ent entryTotalSize s =
     (let offset = w_ptr ops (Rb1 s) mod BLOCK_SIZE;
          space_in_block = BLOCK_SIZE - offset;
          free_space = lwrb_get_free ops (Rb1 s)
      in if offset = 0 then
           if free_space < BLOCK_HEADER_SIZE then Some (CLB_E_BUFFER_FULL, s)
           else
             let (written, rb) = lwrb_write ops (Rb1 s) HeaderPlaceholder
             in if BLOCK_HEADER_SIZE \<noteq> written then Some (CLB_E_WRITE_HEADER, s\<lparr>Rb1 := rb\<rparr>)
                else add_entry_loop ops ent entryTotalSize (s\<lparr>Rb1 := rb\<rparr>)
         else if entryTotalSize > space_in_block then
           if space_in_block > free_space then Some (CLB_E_BUFFER_FULL, s)
           else
             let (ok, rb) = fill_padding ops (Rb1 s) space_in_block
             in if \<not> ok then Some (CLB_E_WRITE_PADDING, s\<lparr>Rb1 := rb\<rparr>)
                else add_entry_loop ops ent entryTotalSize (s\<lparr>Rb1 := rb\<rparr>)
         else if entryTotalSize > free_space then Some (CLB_E_BUFFER_FULL, s)
         else
           let (written, rb) = lwrb_write ops (Rb1 s) (take (unat entryTotalSize) ent);
               s = s\<lparr>Rb1 := rb\<rparr>
           in if entryTotalSize = written then
                Some (CLB_E_OK,
                  if ent ! 0 = CLB_ENTRY_TYPE_FRAME
                  then s\<lparr>clb_counters := (clb_counters s)\<lparr>CanLogBuffer_FrameCount1 :=
                           CanLogBuffer_FrameCount1 (clb_counters s) + 1\<rparr>\<rparr>
                  else s)
              else Some (CLB_E_WRITE_ENTRY, s))"

definition CanLogBuffer_AddEntry ::
  "'r lwrb_ops \<Rightarrow> bytes \<Rightarrow> u32 \<Rightarrow> 'r clb_state \<Rightarrow> (ClbReturnType \<times> 'r clb_state) option" where
  "CanLogBuffer_AddEntry ops ent entryTotalSize s = add_entry_loop ops ent entryTotalSize s"

definition CanLogBuffer_FillBlockWithPadding ::
  "'r lwrb_ops \<Rightarrow> 'r clb_state \<Rightarrow> ClbReturnType \<times> 'r clb_state" where
  "CanLogBuffer_FillBlockWithPadding ops s =
     (let offset = w_ptr ops (Rb1 s) mod BLOCK_SIZE
      in if offset = 0 then (CLB_E_OK, s)
         else
           let pad_len = BLOCK_SIZE - offset;
               free_space = lwrb_get_free ops (Rb1 s);
               linear_space = lwrb_get_linear_block_write_length ops (Rb1 s)
           in if free_space < pad_len \<or> linear_space < pad_len then (CLB_E_NOT_OK, s)
              else
                let (ok, rb) = fill_padding ops (Rb1 s) pad_len
                in (if ok then CLB_E_OK else CLB_E_NOT_OK, s\<lparr>Rb1 := rb\<rparr>))"

text \<open>The return value of \<open>CanLogBuffer_IsBlockReady\<close> is always 0; the function below is \<open>*rdy\<close>.\<close>

definition CanLogBuffer_IsBlockReady :: "'r lwrb_ops \<Rightarrow> 'r clb_state \<Rightarrow> ClbReturnType \<times> u8" where
  "CanLogBuffer_IsBlockReady ops s =
     (let skip_to_align = r_ptr ops (Rb1 s) mod BLOCK_SIZE;
          full_len = lwrb_get_full ops (Rb1 s);
          linear_len = lwrb_get_linear_block_read_length ops (Rb1 s);
          to_boundary = BLOCK_SIZE - skip_to_align
      in if skip_to_align \<noteq> 0 \<and> (full_len \<le> to_boundary \<or> linear_len \<le> to_boundary) then (0, 0)
         else
           let full_len = (if skip_to_align \<noteq> 0 then full_len - to_boundary else full_len);
               linear_len = (if skip_to_align \<noteq> 0 then linear_len - to_boundary else linear_len)
           in (0, if full_len \<ge> BLOCK_SIZE \<and> linear_len \<ge> BLOCK_SIZE then 1 else 0))"

definition slot_sizes :: "u8 \<Rightarrow> u32 \<times> u32" where
  "slot_sizes ty =
     (if ty = CLB_ENTRY_TYPE_FRAME then (FRAME_ENTRY_SIZE, FRAME_ENTRY_SIZE + CLB_ENTRY_MAX_DATA_LENGTH)
      else if ty = CLB_ENTRY_TYPE_SYNC then (SYNC_ENTRY_SIZE, SYNC_ENTRY_SIZE)
      else (0, 0))"

partial_function (option) used_slots_loop ::
  "'r lwrb_ops \<Rightarrow> 'r \<Rightarrow> u32 \<Rightarrow> u32 \<Rightarrow> u32 option" where
  "used_slots_loop ops rb SkipBytes EntriesRead =
     (let bytes_available = lwrb_get_full ops rb
      in if bytes_available \<le> SkipBytes then Some EntriesRead
         else if SkipBytes = 0 \<and> r_ptr ops rb mod BLOCK_SIZE \<noteq> 0 then
           let skip_to_align = BLOCK_SIZE - r_ptr ops rb mod BLOCK_SIZE
           in if bytes_available < skip_to_align then Some EntriesRead
              else used_slots_loop ops rb (SkipBytes + skip_to_align) EntriesRead
         else
           let block_offset = (r_ptr ops rb + SkipBytes) mod BLOCK_SIZE
           in if block_offset = 0 \<and> bytes_available - SkipBytes \<ge> BLOCK_HEADER_SIZE
              then used_slots_loop ops rb (SkipBytes + BLOCK_HEADER_SIZE) EntriesRead
              else
                let block_remaining = BLOCK_SIZE - block_offset
                in if block_remaining < ENTRY_HEADER_SIZE then
                     if bytes_available - SkipBytes < block_remaining then Some EntriesRead
                     else used_slots_loop ops rb (SkipBytes + block_remaining) EntriesRead
                   else
                     let hdr = lwrb_peek ops rb SkipBytes ENTRY_HEADER_SIZE
                     in if of_nat (length hdr) \<noteq> ENTRY_HEADER_SIZE then Some EntriesRead
                        else
                          let EntryTotalSize = (ucast (hdr ! 2) :: u32);
                              (EntryMinSize, EntryMaxSize) = slot_sizes (hdr ! 0)
                          in if EntryTotalSize = 0 then Some EntriesRead
                             else if EntryTotalSize < EntryMinSize \<or> EntryTotalSize > EntryMaxSize
                               then Some EntriesRead
                             else if bytes_available - SkipBytes < EntryTotalSize then Some EntriesRead
                             else if of_nat (length (lwrb_peek ops rb SkipBytes EntryTotalSize)) \<noteq> EntryTotalSize
                               then Some EntriesRead
                             else used_slots_loop ops rb (SkipBytes + EntryTotalSize) (EntriesRead + 1))"

definition CanLogBuffer_UsedSlots :: "'r lwrb_ops \<Rightarrow> 'r clb_state \<Rightarrow> (ClbReturnType \<times> u32) option" where
  "CanLogBuffer_UsedSlots ops s = map_option (\<lambda>n. (0, n)) (used_slots_loop ops (Rb1 s) 0 0)"

definition CanLogBuffer_UsedBytes :: "'r lwrb_ops \<Rightarrow> bool \<Rightarrow> 'r clb_state \<Rightarrow> ClbReturnType \<times> u32 option" where
  "CanLogBuffer_UsedBytes ops given s =
     (if \<not> given then (CLB_E_NOT_OK, None) else (CLB_E_OK, Some (lwrb_get_full ops (Rb1 s))))"

text \<open>The scan of a block for its entries, from \<open>offset\<close>: it returns the offset behind the last
  entry, the frames and the entries seen.\<close>

partial_function (option) scan_block ::
  "'r lwrb_ops \<Rightarrow> 'r \<Rightarrow> u32 \<Rightarrow> u32 \<Rightarrow> u32 \<Rightarrow> u32 \<Rightarrow> (u32 \<times> u32 \<times> u32) option" where
  "scan_block ops rb block_available offset frame_count entries_cnt =
     (if block_available - offset < ENTRY_HEADER_SIZE then Some (offset, frame_count, entries_cnt)
      else
        let hdr = lwrb_peek ops rb offset ENTRY_HEADER_SIZE
        in if of_nat (length hdr) \<noteq> ENTRY_HEADER_SIZE then Some (offset, frame_count, entries_cnt)
           else
             let total_len = (ucast (hdr ! 2) :: u32);
                 entry_type = hdr ! 0
             in if total_len < ENTRY_HEADER_SIZE \<or> total_len > BLOCK_SIZE
                then Some (offset, frame_count, entries_cnt)
                else if CLB_ENTRY_TYPE_NONE = entry_type then Some (offset, frame_count, entries_cnt)
                else if CLB_ENTRY_TYPE_FRAME \<noteq> entry_type \<and> CLB_ENTRY_TYPE_SYNC \<noteq> entry_type \<and>
                        CLB_ENTRY_TYPE_MARKER \<noteq> entry_type
                  then Some (offset, frame_count, entries_cnt)
                else if offset + total_len > block_available then Some (offset, frame_count, entries_cnt)
                else scan_block ops rb block_available (offset + total_len)
                       (if CLB_ENTRY_TYPE_FRAME = entry_type then frame_count + 1 else frame_count)
                       (entries_cnt + 1))"

text \<open>What \<open>CanLogBuffer_ReadNextBlock\<close> stores through its pointers: \<open>*data\<close> is given as the bytes
  at the address when the function sets it.\<close>

record block_read =
  br_res :: ClbReturnType
  br_data :: "bytes option"
  br_len :: u32
  br_frame_count :: u32

definition no_block :: block_read where
  "no_block = \<lparr>br_res = CLB_E_NOT_OK, br_data = None, br_len = 0, br_frame_count = 0\<rparr>"

definition emit_block ::
  "'r lwrb_ops \<Rightarrow> u32 \<Rightarrow> 'r clb_state \<Rightarrow> (block_read \<times> 'r clb_state) option" where
  "emit_block ops block_available s =
     (case scan_block ops (Rb1 s) block_available BLOCK_HEADER_SIZE 0 0 of
        None \<Rightarrow> None
      | Some (offset, frame_count, entries_cnt) \<Rightarrow>
          if offset \<noteq> BLOCK_HEADER_SIZE then
            let hdr = \<lparr>hdr_version = CANLOG_VERSION, header_size = ucast BLOCK_HEADER_SIZE,
                       epoch = EpochCount s, cnt = BlockCount s, block_size = BLOCK_SIZE,
                       block_fill = offset,
                       ingress_frames = ucast (CanLogBuffer_FrameCount1 (clb_counters s)),
                       entries_count = entries_cnt\<rparr>;
                rb = linear_store ops (Rb1 s) (block_header_bytes hdr)
            in Some (\<lparr>br_res = CLB_E_OK, br_data = Some (linear_load ops rb BLOCK_SIZE),
                      br_len = BLOCK_SIZE, br_frame_count = frame_count\<rparr>,
                     s\<lparr>BlockCount := BlockCount s + 1, Rb1 := rb\<rparr>)
          else Some (no_block\<lparr>br_frame_count := frame_count\<rparr>, s))"

definition CanLogBuffer_ReadNextBlock ::
  "'r lwrb_ops \<Rightarrow> 'r clb_state \<Rightarrow> (block_read \<times> 'r clb_state) option" where
  "CanLogBuffer_ReadNextBlock ops s =
     (let misaligned = r_ptr ops (Rb1 s) mod BLOCK_SIZE \<noteq> 0;
          skip_to_align = BLOCK_SIZE - r_ptr ops (Rb1 s) mod BLOCK_SIZE
      in if misaligned \<and> lwrb_get_full ops (Rb1 s) < skip_to_align then Some (no_block, s)
         else
           let s = (if misaligned then s\<lparr>Rb1 := lwrb_skip ops (Rb1 s) skip_to_align\<rparr> else s);
               block_available = lwrb_get_full ops (Rb1 s);
               linear_len = lwrb_get_linear_block_read_length ops (Rb1 s);
               block_available = (if block_available > BLOCK_SIZE then BLOCK_SIZE else block_available)
           in if block_available < BLOCK_HEADER_SIZE + ENTRY_HEADER_SIZE then Some (no_block, s)
              else if linear_len < BLOCK_SIZE then Some (no_block, s)
              else if block_available < BLOCK_SIZE then
                let pad_len = BLOCK_SIZE - block_available
                in if lwrb_get_free ops (Rb1 s) < pad_len then Some (no_block, s)
                   else
                     let (ok, rb) = fill_padding ops (Rb1 s) pad_len; s = s\<lparr>Rb1 := rb\<rparr>
                     in if \<not> ok then Some (no_block, s) else emit_block ops BLOCK_SIZE s
              else emit_block ops block_available s)"

definition CanLogBuffer_Consume ::
  "'r lwrb_ops \<Rightarrow> u32 \<Rightarrow> u32 \<Rightarrow> 'r clb_state \<Rightarrow> ClbReturnType \<times> 'r clb_state" where
  "CanLogBuffer_Consume ops len frame_count s =
     (let s = s\<lparr>Rb1 := lwrb_skip ops (Rb1 s) len\<rparr>;
          c = clb_counters s;
          c = c\<lparr>CanLogBuffer_FrameCount2 := CanLogBuffer_FrameCount2 c + ucast frame_count\<rparr>;
          bl = (if CanLogBuffer_FrameCount1 c > CanLogBuffer_FrameCount2 c
                then CanLogBuffer_FrameCount1 c - CanLogBuffer_FrameCount2 c else backlog s);
          c = c\<lparr>CanLogBuffer_FrameDropCount :=
                  (if bl > ucast BLOCK_SIZE then bl - ucast BLOCK_SIZE else 0)\<rparr>;
          s = s\<lparr>clb_counters := c, backlog := bl\<rparr>
      in (0, if lwrb_get_full ops (Rb1 s) = 0 \<and> r_ptr ops (Rb1 s) mod BLOCK_SIZE \<noteq> 0
             then s\<lparr>Rb1 := lwrb_reset ops (Rb1 s)\<rparr> else s))"

end
