(* ===== verification/CanLogBlocks.thy ===== *)
theory CanLogBlocks
  imports CanLogBuffer
begin

text \<open>
  The block structure of the staging buffer of CanLogBuffer.  The contract \<open>lwrb\<close> says what the
  code relies on of the ring library; inside it \<open>holds r blocks es\<close> says that the ring has the
  finished \<open>blocks\<close> followed by an open block with the entries \<open>es\<close>, and one lemma per
  operation says what it does to blocks and entries.  The stub ring is the concrete provider of
  the contract.
\<close>

section \<open>Blocks and entries\<close>

definition entry_ok :: "bytes \<Rightarrow> bool" where
  "entry_ok e \<longleftrightarrow> 3 \<le> length e \<and> length e < 256 \<and> e ! 2 = of_nat (length e) \<and> e ! 0 \<in> {1, 2, 3}"

definition block_bytes :: "bytes \<times> bytes list \<Rightarrow> bytes" where
  "block_bytes b = fst b @ concat (snd b) @ replicate (65516 - length (concat (snd b))) 0xFF"

definition block_ok :: "bytes \<times> bytes list \<Rightarrow> bool" where
  "block_ok b \<longleftrightarrow> length (fst b) = 20 \<and> snd b \<noteq> [] \<and> list_all entry_ok (snd b) \<and>
     length (concat (snd b)) \<le> 65516"

definition open_bytes :: "bytes list \<Rightarrow> bytes" where
  "open_bytes es = (if es = [] then [] else HeaderPlaceholder @ concat es)"

definition open_ok :: "bytes list \<Rightarrow> bool" where
  "open_ok es \<longleftrightarrow> list_all entry_ok es \<and> length (concat es) < 65516"

definition block_entries :: "(bytes \<times> bytes list) list \<Rightarrow> bytes list" where
  "block_entries blocks = concat (map snd blocks)"

definition frames :: "bytes list \<Rightarrow> nat" where
  "frames es = length (filter (\<lambda>e. e ! 0 = 1) es)"

text \<open>The entries the logger makes: frames with up to 64 bytes of data and sync entries.\<close>

definition slot_entry :: "bytes \<Rightarrow> bool" where
  "slot_entry e \<longleftrightarrow> entry_ok e \<and>
     (e ! 0 = 1 \<and> 14 \<le> length e \<and> length e \<le> 78 \<or> e ! 0 = 2 \<and> length e = 11)"

lemma slot_entry_ok: "slot_entry e \<Longrightarrow> entry_ok e"
  by (simp add: slot_entry_def)

lemma frames_append [simp]: "frames (es @ fs) = frames es + frames fs"
  by (simp add: frames_def)

lemma frames_simps [simp]: "frames [] = 0" "frames (e # es) = (if e ! 0 = 1 then 1 else 0) + frames es"
  by (simp_all add: frames_def)

lemma block_entries_simps [simp]:
  "block_entries [] = []" "block_entries (b # bs) = snd b @ block_entries bs"
  "block_entries (bs @ cs) = block_entries bs @ block_entries cs"
  by (simp_all add: block_entries_def)

lemma length_HeaderPlaceholder [simp]: "length HeaderPlaceholder = 20"
  by (simp add: HeaderPlaceholder_def)

lemma length_block_bytes: "block_ok b \<Longrightarrow> length (block_bytes b) = 65536"
  by (simp add: block_ok_def block_bytes_def)

lemma length_blocks:
  "list_all block_ok bs \<Longrightarrow> length (concat (map block_bytes bs)) = 65536 * length bs"
  by (induction bs) (simp_all add: length_block_bytes)

lemma open_bytes_lt: "open_ok es \<Longrightarrow> length (open_bytes es) < 65536"
  by (simp add: open_ok_def open_bytes_def)

lemma entry_ok_length: "entry_ok e \<Longrightarrow> 3 \<le> length e" "entry_ok e \<Longrightarrow> length e < 256"
  by (simp_all add: entry_ok_def)

lemma entries_nonempty: "list_all entry_ok es \<Longrightarrow> es \<noteq> [] \<Longrightarrow> concat es \<noteq> []"
  by (cases es) (auto simp: entry_ok_def)

lemma PaddingChunk_take: "take n PaddingChunk = replicate (min n 32) 0xFF"
  by (simp add: PaddingChunk_def min.commute)

definition count_entry :: "bytes \<Rightarrow> 'r clb_state \<Rightarrow> 'r clb_state" where
  "count_entry e s = (if e ! 0 = 1
     then s\<lparr>clb_counters := (clb_counters s)\<lparr>CanLogBuffer_FrameCount1 :=
            CanLogBuffer_FrameCount1 (clb_counters s) + 1\<rparr>\<rparr>
     else s)"

definition ring_refuses :: "(bytes \<times> bytes list) list \<Rightarrow> bytes list \<Rightarrow> bytes \<Rightarrow> bool" where
  "ring_refuses blocks es e \<longleftrightarrow>
     length blocks = 7 \<and> es \<noteq> [] \<and> 65516 \<le> length (concat es) + length e"

text \<open>The header \<open>CanLogBuffer_ReadNextBlock\<close> puts in front of the entries \<open>es\<close>, and what
  \<open>CanLogBuffer_Consume\<close> does to the counters.\<close>

definition block_header :: "'r clb_state \<Rightarrow> bytes list \<Rightarrow> bytes" where
  "block_header s es = block_header_bytes
     \<lparr>hdr_version = CANLOG_VERSION, header_size = ucast BLOCK_HEADER_SIZE, epoch = EpochCount s,
      cnt = BlockCount s, block_size = BLOCK_SIZE, block_fill = of_nat (20 + length (concat es)),
      ingress_frames = ucast (CanLogBuffer_FrameCount1 (clb_counters s)),
      entries_count = of_nat (length es)\<rparr>"

definition consumed :: "u32 \<Rightarrow> 'r clb_state \<Rightarrow> 'r clb_state" where
  "consumed fc s =
     (let c = clb_counters s;
          c = c\<lparr>CanLogBuffer_FrameCount2 := CanLogBuffer_FrameCount2 c + ucast fc\<rparr>;
          bl = (if CanLogBuffer_FrameCount1 c > CanLogBuffer_FrameCount2 c
                then CanLogBuffer_FrameCount1 c - CanLogBuffer_FrameCount2 c else backlog s);
          c = c\<lparr>CanLogBuffer_FrameDropCount := (if bl > 0x10000 then bl - 0x10000 else 0)\<rparr>
      in s\<lparr>clb_counters := c, backlog := bl\<rparr>)"

section \<open>The contract of the ring library\<close>

text \<open>lwrb keeps one byte of its storage free, so \<open>524287\<close> bytes can wait in the ring.\<close>

locale lwrb =
  fixes ops :: "'r lwrb_ops" and valid :: "'r \<Rightarrow> bool" and content :: "'r \<Rightarrow> bytes"
  assumes init: "\<exists>r'. lwrb_init ops r 0x80000 = (1, r') \<and> valid r' \<and> content r' = [] \<and> r_ptr ops r' = 0"
    and reset: "valid r \<Longrightarrow> valid (lwrb_reset ops r) \<and> content (lwrb_reset ops r) = [] \<and> r_ptr ops (lwrb_reset ops r) = 0"
    and room: "valid r \<Longrightarrow> length (content r) \<le> 524287"
    and r_ptr: "valid r \<Longrightarrow> unat (r_ptr ops r) < 524288"
    and w_ptr: "valid r \<Longrightarrow> w_ptr ops r = of_nat ((unat (r_ptr ops r) + length (content r)) mod 524288)"
    and full: "valid r \<Longrightarrow> lwrb_get_full ops r = of_nat (length (content r))"
    and free: "valid r \<Longrightarrow> lwrb_get_free ops r = of_nat (524287 - length (content r))"
    and linear_read: "valid r \<Longrightarrow> lwrb_get_linear_block_read_length ops r =
      of_nat (min (length (content r)) (524288 - unat (r_ptr ops r)))"
    and linear_write: "valid r \<Longrightarrow> lwrb_get_linear_block_write_length ops r =
      (if r_ptr ops r \<le> w_ptr ops r
       then 0x80000 - w_ptr ops r - (if r_ptr ops r = 0 then 1 else 0)
       else r_ptr ops r - w_ptr ops r - 1)"
    and append: "valid r \<Longrightarrow> length (content r) + length bs \<le> 524287 \<Longrightarrow>
      \<exists>r'. lwrb_write ops r bs = (of_nat (length bs), r') \<and> valid r' \<and> content r' = content r @ bs \<and>
        r_ptr ops r' = r_ptr ops r"
    and peek: "valid r \<Longrightarrow> lwrb_peek ops r off n = take (unat n) (drop (unat off) (content r))"
    and skip: "valid r \<Longrightarrow> valid (lwrb_skip ops r n) \<and> content (lwrb_skip ops r n) = drop (unat n) (content r) \<and>
      r_ptr ops (lwrb_skip ops r n) =
        of_nat ((unat (r_ptr ops r) + min (unat n) (length (content r))) mod 524288)"
    and load: "valid r \<Longrightarrow> n \<le> lwrb_get_linear_block_read_length ops r \<Longrightarrow>
      linear_load ops r n = take (unat n) (content r)"
    and store: "valid r \<Longrightarrow> of_nat (length bs) \<le> lwrb_get_linear_block_read_length ops r \<Longrightarrow> length bs < 524288 \<Longrightarrow>
      valid (linear_store ops r bs) \<and> content (linear_store ops r bs) = bs @ drop (length bs) (content r) \<and>
      r_ptr ops (linear_store ops r bs) = r_ptr ops r"
begin

definition aligned :: "'r \<Rightarrow> bool" where
  "aligned r \<longleftrightarrow> unat (r_ptr ops r) mod 65536 = 0"

definition holds :: "'r \<Rightarrow> (bytes \<times> bytes list) list \<Rightarrow> bytes list \<Rightarrow> bool" where
  "holds r blocks es \<longleftrightarrow> valid r \<and> aligned r \<and>
     content r = concat (map block_bytes blocks) @ open_bytes es \<and>
     list_all block_ok blocks \<and> open_ok es"

lemma unat_free: "valid r \<Longrightarrow> unat (lwrb_get_free ops r) = 524287 - length (content r)"
  unfolding free by (rule unat_of_nat_u32) simp

lemma unat_full: "valid r \<Longrightarrow> unat (lwrb_get_full ops r) = length (content r)"
  using room [of r] by (simp add: full)

lemma offset: "valid r \<Longrightarrow> aligned r \<Longrightarrow> w_ptr ops r mod 0x10000 = of_nat (length (content r) mod 65536)"
proof -
  assume *: "valid r" "aligned r"
  have "(unat (r_ptr ops r) + length (content r)) mod 524288 mod 65536 = length (content r) mod 65536"
    using *(2) mod_add_left_eq [of "unat (r_ptr ops r)" 65536 "length (content r)"]
    by (simp add: aligned_def mod_mod_cancel)
  then show ?thesis using *(1) by (simp add: w_ptr word_unat_eq_iff unat_mod less_trans [OF mod_less_divisor])
qed

lemma fill:
  "valid r \<Longrightarrow> length (content r) + unat n \<le> 524287 \<Longrightarrow>
   \<exists>r'. fill_padding ops r n = (True, r') \<and> valid r' \<and>
     content r' = content r @ replicate (unat n) 0xFF \<and> r_ptr ops r' = r_ptr ops r"
proof (induction "unat n" arbitrary: n r rule: less_induct)
  case less
  show ?case
  proof (cases "n = 0")
    case True
    then show ?thesis using less.prems by (simp add: fill_padding.simps)
  next
    case False
    define chunk where "chunk = (if n > 32 then 32 else n)"
    have c: "chunk \<le> n" "0 < unat chunk" "unat chunk \<le> 32"
      using False by (auto simp: chunk_def word_le_nat_alt word_less_nat_alt unat_gt_0 split: if_splits)
    then have rest: "unat (n - chunk) = unat n - unat chunk" "unat chunk \<le> unat n"
      by (simp_all add: unat_sub word_le_nat_alt)
    have t: "take (unat chunk) PaddingChunk = replicate (unat chunk) 0xFF"
      using c by (simp add: PaddingChunk_take min_absorb1)
    obtain r1 where w: "lwrb_write ops r (replicate (unat chunk) 0xFF) = (chunk, r1)"
      and r1: "valid r1" "content r1 = content r @ replicate (unat chunk) 0xFF" "r_ptr ops r1 = r_ptr ops r"
      using append [OF less.prems(1), of "replicate (unat chunk) 0xFF"] less.prems(2) rest by auto
    have "\<exists>r'. fill_padding ops r1 (n - chunk) = (True, r') \<and> valid r' \<and>
       content r' = content r1 @ replicate (unat (n - chunk)) 0xFF \<and> r_ptr ops r' = r_ptr ops r1"
      by (rule less.hyps) (use r1 less.prems(2) c rest in auto)
    moreover have "replicate (unat chunk) 0xFF @ replicate (unat n - unat chunk) 0xFF = replicate (unat n) (0xFF :: u8)"
      using rest by (simp add: replicate_add [symmetric])
    ultimately show ?thesis
      using False w r1 rest t by (subst fill_padding.simps) (auto simp: Let_def chunk_def [symmetric])
  qed
qed

lemma put:
  assumes r: "valid (Rb1 s)" "aligned (Rb1 s)"
    and c: "content (Rb1 s) = concat (map block_bytes blocks) @ HeaderPlaceholder @ concat es"
    and ok: "list_all block_ok blocks" "list_all entry_ok es" "entry_ok e"
    and len: "length (concat es) + length e \<le> 65516"
    and space: "65536 * length blocks + 20 + length (concat es) + length e \<le> 524287"
  shows "\<exists>rb blocks' es'. add_entry_loop ops e (of_nat (length e)) s =
      Some (0, count_entry e (s\<lparr>Rb1 := rb\<rparr>)) \<and> holds rb blocks' es' \<and>
      block_entries blocks' @ es' = block_entries blocks @ es @ [e]"
proof -
  define k where "k = 20 + length (concat es)"
  have L: "length (content (Rb1 s)) = 65536 * length blocks + k"
    using ok(1) by (simp add: c length_blocks k_def)
  have k: "20 \<le> k" "k + length e \<le> 65536" "k < 65536" "65536 * length blocks + k + length e \<le> 524287"
    using len space entry_ok_length [OF ok(3)] by (simp_all add: k_def)
  have off: "w_ptr ops (Rb1 s) mod 0x10000 = of_nat k"
    using offset [OF r] k by (simp add: L)
  have nz: "(of_nat k :: u32) \<noteq> 0" using k by (simp add: word_unat_eq_iff)
  have sp: "\<not> (of_nat (length e) :: u32) > 0x10000 - of_nat k"
    using k entry_ok_length [OF ok(3)] by (simp add: word_less_nat_alt unat_sub word_le_nat_alt)
  have fr: "\<not> (of_nat (length e) :: u32) > lwrb_get_free ops (Rb1 s)"
    using k entry_ok_length [OF ok(3)] r by (simp add: word_less_nat_alt unat_free L)
  obtain rb where w: "lwrb_write ops (Rb1 s) e = (of_nat (length e), rb)" "valid rb"
      "content rb = content (Rb1 s) @ e" "r_ptr ops rb = r_ptr ops (Rb1 s)"
    using append [OF r(1), of e] k by (auto simp: L)
  have run: "add_entry_loop ops e (of_nat (length e)) s = Some (0, count_entry e (s\<lparr>Rb1 := rb\<rparr>))"
    using entry_ok_length [OF ok(3)] off nz sp fr w(1)
    by (subst add_entry_loop.simps) (simp add: Let_def count_entry_def)
  have al: "aligned rb" using r(2) by (simp add: aligned_def w(4))
  show ?thesis
  proof (cases "k + length e = 65536")
    case True
    have "holds rb (blocks @ [(HeaderPlaceholder, es @ [e])]) []"
      using True k w al ok by (auto simp: holds_def c block_bytes_def block_ok_def open_bytes_def open_ok_def k_def)
    with run show ?thesis by (intro exI [of _ rb] exI [of _ "blocks @ [(HeaderPlaceholder, es @ [e])]"] exI [of _ "[]"]) simp
  next
    case False
    have "holds rb blocks (es @ [e])"
      using False k w al ok by (auto simp: holds_def c open_bytes_def open_ok_def k_def)
    with run show ?thesis by (intro exI [of _ rb] exI [of _ blocks] exI [of _ "es @ [e]"]) simp
  qed
qed

lemma put_first:
  assumes r: "valid (Rb1 s)" "aligned (Rb1 s)"
    and c: "content (Rb1 s) = concat (map block_bytes blocks)"
    and ok: "list_all block_ok blocks" "entry_ok e"
  shows "\<exists>rb blocks' es'. add_entry_loop ops e (of_nat (length e)) s =
      Some (0, count_entry e (s\<lparr>Rb1 := rb\<rparr>)) \<and> holds rb blocks' es' \<and>
      block_entries blocks' @ es' = block_entries blocks @ [e]"
proof -
  have L: "length (content (Rb1 s)) = 65536 * length blocks"
    using ok(1) by (simp add: c length_blocks)
  have b: "length blocks \<le> 7" using room [OF r(1)] by (simp add: L)
  have off: "w_ptr ops (Rb1 s) mod 0x10000 = 0" using offset [OF r] by (simp add: L)
  have fr: "\<not> lwrb_get_free ops (Rb1 s) < 20"
    using b r by (simp add: word_less_nat_alt unat_free L)
  obtain rb where w: "lwrb_write ops (Rb1 s) HeaderPlaceholder = (20, rb)" "valid rb"
      "content rb = content (Rb1 s) @ HeaderPlaceholder" "r_ptr ops rb = r_ptr ops (Rb1 s)"
    using append [OF r(1), of HeaderPlaceholder] b by (auto simp: L)
  have run: "add_entry_loop ops e (of_nat (length e)) s = add_entry_loop ops e (of_nat (length e)) (s\<lparr>Rb1 := rb\<rparr>)"
    using off fr w(1) by (subst add_entry_loop.simps) (simp add: Let_def)
  have "\<exists>rb' blocks' es'. add_entry_loop ops e (of_nat (length e)) (s\<lparr>Rb1 := rb\<rparr>) =
      Some (0, count_entry e (s\<lparr>Rb1 := rb, Rb1 := rb'\<rparr>)) \<and> holds rb' blocks' es' \<and>
      block_entries blocks' @ es' = block_entries blocks @ [] @ [e]"
    by (rule put) (use r w b c ok entry_ok_length [OF ok(2)] in \<open>auto simp: aligned_def\<close>)
  then show ?thesis by (simp add: run)
qed

text \<open>An entry is refused exactly when seven blocks wait for the card and the eighth would be
  completed: the ring cannot take the byte that would fill it.\<close>

lemma add_refused:
  assumes h: "holds (Rb1 s) blocks es" and e: "entry_ok e" and f: "ring_refuses blocks es e"
  shows "CanLogBuffer_AddEntry ops e (of_nat (length e)) s = Some (CLB_E_BUFFER_FULL, s)"
proof -
  define k where "k = 20 + length (concat es)"
  have r: "valid (Rb1 s)" "aligned (Rb1 s)" using h by (simp_all add: holds_def)
  have ne: "es \<noteq> []" and b: "length blocks = 7" and big: "65536 \<le> k + length e"
    using f by (auto simp: ring_refuses_def k_def)
  have k: "20 \<le> k" "k < 65536" using h by (simp_all add: k_def holds_def open_ok_def)
  have L: "length (content (Rb1 s)) = 458752 + k"
    using h ne b by (simp add: holds_def length_blocks open_bytes_def k_def)
  have off: "w_ptr ops (Rb1 s) mod 0x10000 = of_nat k" using offset [OF r] k by (simp add: L mod_add_eq [symmetric])
  have nz: "(of_nat k :: u32) \<noteq> 0" using k by (simp add: word_unat_eq_iff)
  have fr: "lwrb_get_free ops (Rb1 s) = of_nat (65535 - k)" using r by (simp add: free L)
  have sp: "(0x10000 - of_nat k :: u32) > of_nat (65535 - k)" "(of_nat (length e) :: u32) > of_nat (65535 - k)"
    using k big entry_ok_length [OF e] by (simp_all add: word_less_nat_alt unat_sub word_le_nat_alt)
  show ?thesis
    unfolding CanLogBuffer_AddEntry_def using off nz fr sp
    by (subst add_entry_loop.simps) (simp add: Let_def)
qed

lemma add_accepted:
  assumes h: "holds (Rb1 s) blocks es" and e: "entry_ok e" and f: "\<not> ring_refuses blocks es e"
  shows "\<exists>rb blocks' es'. CanLogBuffer_AddEntry ops e (of_nat (length e)) s =
      Some (CLB_E_OK, count_entry e (s\<lparr>Rb1 := rb\<rparr>)) \<and> holds rb blocks' es' \<and>
      block_entries blocks' @ es' = block_entries blocks @ es @ [e]"
proof -
  define k where "k = 20 + length (concat es)"
  note len = entry_ok_length [OF e]
  have r: "valid (Rb1 s)" "aligned (Rb1 s)" and ok: "list_all block_ok blocks" "list_all entry_ok es"
    using h by (simp_all add: holds_def open_ok_def)
  show ?thesis
  proof (cases "es = []")
    case True
    then show ?thesis
      using put_first [OF r _ ok(1) e] h by (simp add: CanLogBuffer_AddEntry_def holds_def open_bytes_def)
  next
    case ne: False
    have c: "content (Rb1 s) = concat (map block_bytes blocks) @ HeaderPlaceholder @ concat es"
      using h ne by (simp add: holds_def open_bytes_def)
    have k: "20 \<le> k" "k < 65536" using h by (simp_all add: k_def holds_def open_ok_def)
    have L: "length (content (Rb1 s)) = 65536 * length blocks + k"
      using ok by (simp add: c length_blocks k_def)
    have b: "length blocks \<le> 7" using room [OF r(1)] k by (simp add: L)
    show ?thesis
    proof (cases "k + length e \<le> 65536")
      case True
      then have "65536 * length blocks + k + length e \<le> 524287"
        using b f ne len by (auto simp: ring_refuses_def k_def le_less)
      then show ?thesis
        using put [OF r c ok e] True by (simp add: CanLogBuffer_AddEntry_def k_def)
    next
      case False
      then have b6: "length blocks \<le> 6" using b f ne by (auto simp: ring_refuses_def k_def)
      have off: "w_ptr ops (Rb1 s) mod 0x10000 = of_nat k" using offset [OF r] k by (simp add: L)
      have nz: "(of_nat k :: u32) \<noteq> 0" using k by (simp add: word_unat_eq_iff)
      have u: "unat (0x10000 - of_nat k :: u32) = 65536 - k"
        using k by (simp add: unat_sub word_le_nat_alt)
      have sp: "(of_nat (length e) :: u32) > 0x10000 - of_nat k" "\<not> (0x10000 - of_nat k :: u32) > lwrb_get_free ops (Rb1 s)"
        using k len False b6 r by (simp_all add: word_less_nat_alt u unat_free L)
      obtain rb where w: "fill_padding ops (Rb1 s) (0x10000 - of_nat k) = (True, rb)" "valid rb"
          "content rb = content (Rb1 s) @ replicate (65536 - k) 0xFF" "r_ptr ops rb = r_ptr ops (Rb1 s)"
        using fill [OF r(1), of "0x10000 - of_nat k"] k b6 by (auto simp: L u)
      have run: "add_entry_loop ops e (of_nat (length e)) s = add_entry_loop ops e (of_nat (length e)) (s\<lparr>Rb1 := rb\<rparr>)"
        using off nz sp w(1) by (subst add_entry_loop.simps) (simp add: Let_def)
      have "\<exists>rb' blocks' es'. add_entry_loop ops e (of_nat (length e)) (s\<lparr>Rb1 := rb\<rparr>) =
          Some (0, count_entry e (s\<lparr>Rb1 := rb, Rb1 := rb'\<rparr>)) \<and> holds rb' blocks' es' \<and>
          block_entries blocks' @ es' = block_entries (blocks @ [(HeaderPlaceholder, es)]) @ [e]"
        by (rule put_first)
          (use r w c ok e k ne in \<open>auto simp: aligned_def block_bytes_def block_ok_def k_def\<close>)
      then show ?thesis by (simp add: run CanLogBuffer_AddEntry_def)
    qed
  qed
qed

lemma holds_length: "holds r blocks es \<Longrightarrow> length (content r) = 65536 * length blocks + length (open_bytes es)"
  by (simp add: holds_def length_blocks)

lemma holds_blocks_le: "holds r blocks es \<Longrightarrow> length blocks \<le> 7"
  using room [of r] by (simp add: holds_length) (simp add: holds_def)

lemma unat_w_ptr: "valid r \<Longrightarrow> unat (w_ptr ops r) = (unat (r_ptr ops r) + length (content r)) mod 524288"
  unfolding w_ptr by (rule unat_of_nat_u32) (rule less_trans [OF mod_less_divisor], simp_all)

text \<open>With at most six finished blocks the rest of the open block is contiguous in the storage.\<close>

lemma linear_write_space:
  assumes r: "valid r" "aligned r" and L: "length (content r) = 65536 * b + k" "b \<le> 6" "0 < k" "k < 65536"
  shows "65536 - k \<le> unat (lwrb_get_linear_block_write_length ops r)"
proof -
  obtain q where q: "unat (r_ptr ops r) = 65536 * q" "q < 8"
    using r r_ptr [OF r(1)] by (auto simp: aligned_def elim!: dvdE)
  have w: "unat (w_ptr ops r) = (65536 * (q + b) + k) mod 524288"
    using r by (simp add: unat_w_ptr q(1) L(1) algebra_simps)
  show ?thesis
  proof (cases "q + b < 8")
    case True
    then have w': "unat (w_ptr ops r) = 65536 * (q + b) + k" using L w by simp
    then have "unat (0x80000 - w_ptr ops r) = 524288 - (65536 * (q + b) + k)"
      using True L by (subst unat_sub) (auto simp: word_le_nat_alt)
    moreover have "r_ptr ops r = 0 \<longleftrightarrow> q = 0" using q by (simp add: word_unat_eq_iff)
    ultimately show ?thesis
      using r True L w' q by (auto simp: linear_write word_le_nat_alt unat_sub)
  next
    case False
    then have "(65536 * (q + b) + k) mod 524288 = 65536 * (q + b) + k - 524288"
      using L q by (subst le_mod_geq) auto
    then have w': "unat (w_ptr ops r) = 65536 * (q + b) + k - 524288" using w by simp
    have lt: "unat (w_ptr ops r) + 65536 - k < unat (r_ptr ops r)" using False L q by (simp add: w')
    then have "unat (r_ptr ops r - w_ptr ops r - 1) = unat (r_ptr ops r) - unat (w_ptr ops r) - 1"
      using L by (simp add: unat_sub word_le_nat_alt)
    moreover have "\<not> r_ptr ops r \<le> w_ptr ops r" using lt L(4) by (simp add: word_le_nat_alt)
    then have "lwrb_get_linear_block_write_length ops r = r_ptr ops r - w_ptr ops r - 1"
      by (simp add: linear_write [OF r(1)])
    ultimately show ?thesis using lt by simp
  qed
qed

lemma fill_nothing: "holds (Rb1 s) blocks [] \<Longrightarrow> CanLogBuffer_FillBlockWithPadding ops s = (CLB_E_OK, s)"
  using offset [of "Rb1 s"]
  by (simp add: CanLogBuffer_FillBlockWithPadding_def holds_length open_bytes_def) (simp add: holds_def)

lemma fill_refused:
  assumes h: "holds (Rb1 s) blocks es" and ne: "es \<noteq> []" and b: "length blocks = 7"
  shows "CanLogBuffer_FillBlockWithPadding ops s = (CLB_E_NOT_OK, s)"
proof -
  define k where "k = length (open_bytes es)"
  have r: "valid (Rb1 s)" "aligned (Rb1 s)" using h by (simp_all add: holds_def)
  have k: "0 < k" "k < 65536" using h ne open_bytes_lt [of es] by (simp_all add: k_def holds_def open_bytes_def)
  have L: "length (content (Rb1 s)) = 458752 + k" using holds_length [OF h] b by (simp add: k_def)
  have off: "w_ptr ops (Rb1 s) mod 0x10000 = of_nat k" using offset [OF r] k by (simp add: L mod_add_eq [symmetric])
  have nz: "(of_nat k :: u32) \<noteq> 0" using k by (simp add: word_unat_eq_iff)
  have fr: "lwrb_get_free ops (Rb1 s) < 0x10000 - of_nat k"
    using k r by (simp add: word_less_nat_alt unat_free L unat_sub word_le_nat_alt)
  show ?thesis using off nz fr by (simp add: CanLogBuffer_FillBlockWithPadding_def Let_def)
qed

lemma fill_closes:
  assumes h: "holds (Rb1 s) blocks es" and ne: "es \<noteq> []" and b: "length blocks \<noteq> 7"
  shows "\<exists>rb. CanLogBuffer_FillBlockWithPadding ops s = (CLB_E_OK, s\<lparr>Rb1 := rb\<rparr>) \<and>
    holds rb (blocks @ [(HeaderPlaceholder, es)]) []"
proof -
  define k where "k = 20 + length (concat es)"
  have r: "valid (Rb1 s)" "aligned (Rb1 s)" using h by (simp_all add: holds_def)
  have k: "0 < k" "k < 65536" using h by (simp_all add: k_def holds_def open_ok_def)
  have b6: "length blocks \<le> 6" using holds_blocks_le [OF h] b by simp
  have L: "length (content (Rb1 s)) = 65536 * length blocks + k"
    using holds_length [OF h] ne by (simp add: open_bytes_def k_def)
  have off: "w_ptr ops (Rb1 s) mod 0x10000 = of_nat k" using offset [OF r] k by (simp add: L)
  have nz: "(of_nat k :: u32) \<noteq> 0" using k by (simp add: word_unat_eq_iff)
  have u: "unat (0x10000 - of_nat k :: u32) = 65536 - k" using k by (simp add: unat_sub word_le_nat_alt)
  have sp: "\<not> lwrb_get_free ops (Rb1 s) < 0x10000 - of_nat k"
    "\<not> lwrb_get_linear_block_write_length ops (Rb1 s) < 0x10000 - of_nat k"
    using k b6 r linear_write_space [OF r L b6 k] by (simp_all add: word_less_nat_alt unat_free L u)
  obtain rb where w: "fill_padding ops (Rb1 s) (0x10000 - of_nat k) = (True, rb)" "valid rb"
      "content rb = content (Rb1 s) @ replicate (65536 - k) 0xFF" "r_ptr ops rb = r_ptr ops (Rb1 s)"
    using fill [OF r(1), of "0x10000 - of_nat k"] k b6 by (auto simp: L u)
  have "CanLogBuffer_FillBlockWithPadding ops s = (CLB_E_OK, s\<lparr>Rb1 := rb\<rparr>)"
    using off nz sp w(1) by (simp add: CanLogBuffer_FillBlockWithPadding_def Let_def)
  moreover have "holds rb (blocks @ [(HeaderPlaceholder, es)]) []"
    using h ne w k r by (auto simp: holds_def aligned_def block_bytes_def block_ok_def open_bytes_def open_ok_def k_def)
  ultimately show ?thesis by blast
qed

lemma ready:
  assumes h: "holds (Rb1 s) blocks es"
  shows "CanLogBuffer_IsBlockReady ops s = (0, if blocks = [] then 0 else 1)"
proof -
  have r: "valid (Rb1 s)" "aligned (Rb1 s)" and o: "length (open_bytes es) < 65536"
    using h open_bytes_lt by (simp_all add: holds_def)
  have al: "r_ptr ops (Rb1 s) mod 0x10000 = 0" using r by (simp add: aligned_def word_unat_eq_iff unat_mod)
  have lin: "unat (lwrb_get_linear_block_read_length ops (Rb1 s)) =
      min (length (content (Rb1 s))) (524288 - unat (r_ptr ops (Rb1 s)))"
    unfolding linear_read [OF r(1)] by (rule unat_of_nat_u32) (use room [OF r(1)] in simp)
  have "65536 \<le> 524288 - unat (r_ptr ops (Rb1 s))"
    using r r_ptr [OF r(1)] by (auto simp: aligned_def elim!: dvdE)
  then have "(0x10000 \<le> lwrb_get_full ops (Rb1 s) \<and> 0x10000 \<le> lwrb_get_linear_block_read_length ops (Rb1 s)) \<longleftrightarrow>
      blocks \<noteq> []"
    using o by (cases blocks) (auto simp: word_le_nat_alt unat_full [OF r(1)] lin holds_length [OF h])
  then show ?thesis using al by (simp add: CanLogBuffer_IsBlockReady_def Let_def)
qed

lemma drop_header: "entry_ok e \<Longrightarrow> take 3 (e @ rest) ! 2 = of_nat (length e) \<and> take 3 (e @ rest) ! 0 = e ! 0 \<and>
    length (take 3 (e @ rest)) = 3"
  by (auto simp: entry_ok_def nth_append)

lemma ucast_length: "n < 256 \<Longrightarrow> (ucast (of_nat n :: u8) :: u32) = of_nat n"
  by (simp add: word_unat_eq_iff unsigned_ucast_eq unat_of_nat take_bit_eq_mod)

lemma scan:
  assumes "valid r" "list_all entry_ok es"
    "content r = pre @ concat es @ replicate m 0xFF @ rest" "length pre = off" "off + length (concat es) + m = 65536"
  shows "scan_block ops r 0x10000 (of_nat off) fc n =
    Some (of_nat (off + length (concat es)), fc + of_nat (frames es), n + of_nat (length es))"
  using assms(2-5)
proof (induction es arbitrary: pre off fc n)
  case Nil
  then have left: "unat (0x10000 - of_nat off :: u32) = m" by (simp add: unat_sub word_le_nat_alt)
  have pk: "lwrb_peek ops r (of_nat off) 3 = take 3 (replicate m 0xFF @ rest)"
    using Nil assms(1) by (simp add: peek)
  show ?case
  proof (cases "m < 3")
    case True
    then show ?thesis using left by (subst scan_block.simps) (simp add: word_less_nat_alt)
  next
    case False
    then have t: "take 3 (replicate m 0xFF @ rest) = replicate 3 (0xFF :: u8)" by simp
    show ?thesis using left False
      by (subst scan_block.simps) (simp add: word_less_nat_alt pk t Let_def)
  qed
next
  case (Cons e es)
  then have e: "entry_ok e" by simp
  note len = entry_ok_length [OF e]
  have ty: "e ! 0 = 1 \<or> e ! 0 = 2 \<or> e ! 0 = 3" using e by (simp add: entry_ok_def)
  have off: "unat (of_nat off :: u32) = off" using Cons.prems by simp
  have left: "\<not> (0x10000 - of_nat off :: u32) < 3"
    using Cons.prems len by (simp add: word_less_nat_alt unat_sub word_le_nat_alt)
  have pk: "lwrb_peek ops r (of_nat off) 3 = take 3 (e @ concat es @ replicate m 0xFF @ rest)"
    using Cons.prems assms(1) off by (simp add: peek)
  have fits: "\<not> of_nat off + of_nat (length e) > (0x10000 :: u32)"
    using Cons.prems by (simp add: word_less_nat_alt of_nat_add [symmetric] del: of_nat_add)
  have tl: "\<not> (of_nat (length e) :: u32) < 3" "\<not> (of_nat (length e) :: u32) > 0x10000"
    using len by (simp_all add: word_less_nat_alt)
  have "scan_block ops r 0x10000 (of_nat (off + length e)) fc' n' =
      Some (of_nat (off + length e + length (concat es)), fc' + of_nat (frames es), n' + of_nat (length es))" for fc' n'
    by (rule Cons.IH [where pre = "pre @ e"]) (use Cons.prems in auto)
  moreover have "e ! 0 \<noteq> 0" using ty by (auto simp: word_unat_eq_iff)
  ultimately show ?case
    using left fits tl ty drop_header [OF e, of "concat es @ replicate m 0xFF @ rest"]
    by (subst scan_block.simps) (auto simp: Let_def pk ucast_length len algebra_simps)
qed

lemma aligned_r: "aligned r \<Longrightarrow> r_ptr ops r mod 0x10000 = 0"
  by (simp add: aligned_def word_unat_eq_iff unat_mod)

lemma contiguous:
  assumes "valid r" "aligned r"
  shows "unat (lwrb_get_linear_block_read_length ops r) = min (length (content r)) (524288 - unat (r_ptr ops r))"
    "65536 \<le> 524288 - unat (r_ptr ops r)"
proof -
  show "unat (lwrb_get_linear_block_read_length ops r) = min (length (content r)) (524288 - unat (r_ptr ops r))"
    unfolding linear_read [OF assms(1)] by (rule unat_of_nat_u32) (use room [OF assms(1)] in simp)
  show "65536 \<le> 524288 - unat (r_ptr ops r)"
    using assms r_ptr [OF assms(1)] by (auto simp: aligned_def elim!: dvdE)
qed

lemma read_nothing:
  assumes h: "holds (Rb1 s) [] es"
  shows "CanLogBuffer_ReadNextBlock ops s = Some (no_block, s)"
proof -
  have r: "valid (Rb1 s)" "aligned (Rb1 s)" and o: "length (open_bytes es) < 65536"
    using h open_bytes_lt by (simp_all add: holds_def)
  have L: "length (content (Rb1 s)) = length (open_bytes es)" using holds_length [OF h] by simp
  have "lwrb_get_linear_block_read_length ops (Rb1 s) < 0x10000"
    using contiguous [OF r] o by (simp add: word_less_nat_alt L)
  then show ?thesis by (simp add: CanLogBuffer_ReadNextBlock_def Let_def aligned_r [OF r(2)])
qed

lemma read_block:
  assumes h: "holds (Rb1 s) ((hd0, es0) # bs) es"
  shows "\<exists>rb. CanLogBuffer_ReadNextBlock ops s =
      Some (\<lparr>br_res = CLB_E_OK, br_data = Some (block_bytes (block_header s es0, es0)),
             br_len = BLOCK_SIZE, br_frame_count = of_nat (frames es0)\<rparr>,
            s\<lparr>BlockCount := BlockCount s + 1, Rb1 := rb\<rparr>) \<and>
    holds rb ((block_header s es0, es0) # bs) es"
proof -
  have r: "valid (Rb1 s)" "aligned (Rb1 s)" and b0: "block_ok (hd0, es0)" using h by (simp_all add: holds_def)
  define tail where "tail = concat (map block_bytes bs) @ open_bytes es"
  define m where "m = 65516 - length (concat es0)"
  have c: "content (Rb1 s) = hd0 @ concat es0 @ replicate m 0xFF @ tail"
    using h by (simp add: holds_def block_bytes_def tail_def m_def)
  have b: "length hd0 = 20" "es0 \<noteq> []" "list_all entry_ok es0" "20 + length (concat es0) + m = 65536"
    using b0 by (simp_all add: block_ok_def m_def)
  have L: "65536 \<le> length (content (Rb1 s))" using b by (simp add: c)
  have full: "\<not> lwrb_get_full ops (Rb1 s) < 0x10000" using L by (simp add: word_less_nat_alt unat_full [OF r(1)])
  have lin: "\<not> lwrb_get_linear_block_read_length ops (Rb1 s) < 0x10000"
    "(0x10000 :: u32) \<le> lwrb_get_linear_block_read_length ops (Rb1 s)"
    using contiguous [OF r] L by (simp_all add: word_less_nat_alt word_le_nat_alt)
  have sc: "scan_block ops (Rb1 s) 0x10000 20 0 0 =
      Some (of_nat (20 + length (concat es0)), of_nat (frames es0), of_nat (length es0))"
    using scan [OF r(1) b(3) c b(1) b(4), of 0 0] by simp
  have pos: "0 < length (concat es0)" using entries_nonempty [OF b(3,2)] by simp
  have nz: "(of_nat (20 + length (concat es0)) :: u32) \<noteq> 20"
    using b(4) pos by (simp add: word_unat_eq_iff of_nat_add [symmetric] del: of_nat_add)
  have hl: "length (block_header s es0) = 20" by (simp add: block_header_def block_header_bytes_def)
  define rb where "rb = linear_store ops (Rb1 s) (block_header s es0)"
  have "(of_nat 20 :: u32) \<le> lwrb_get_linear_block_read_length ops (Rb1 s)"
    using lin(2) by (simp add: word_le_nat_alt)
  then have st: "valid rb" "content rb = block_header s es0 @ drop 20 (content (Rb1 s))" "r_ptr ops rb = r_ptr ops (Rb1 s)"
    using store [OF r(1), of "block_header s es0"] by (simp_all add: hl rb_def)
  have al: "aligned rb" using r(2) by (simp add: aligned_def st(3))
  have c': "content rb = block_bytes (block_header s es0, es0) @ tail"
    using b by (simp add: st(2) c block_bytes_def m_def)
  have "(0x10000 :: u32) \<le> lwrb_get_linear_block_read_length ops rb"
    using contiguous [OF st(1) al] b by (simp add: word_le_nat_alt c' block_bytes_def hl)
  then have ld: "linear_load ops rb 0x10000 = block_bytes (block_header s es0, es0)"
    using load [OF st(1)] b by (simp add: c' block_bytes_def hl)
  have hh: "holds rb ((block_header s es0, es0) # bs) es"
    using h st al b hl by (simp add: holds_def c' tail_def block_ok_def)
  have em: "emit_block ops 0x10000 s = Some (\<lparr>br_res = 0, br_data = Some (block_bytes (block_header s es0, es0)),
             br_len = 0x10000, br_frame_count = of_nat (frames es0)\<rparr>,
            s\<lparr>BlockCount := BlockCount s + 1, Rb1 := rb\<rparr>)"
    using nz ld unfolding emit_block_def rb_def block_header_def by (simp add: sc Let_def)
  have "(if 0x10000 < lwrb_get_full ops (Rb1 s) then 0x10000 else lwrb_get_full ops (Rb1 s)) = 0x10000"
    using L by (simp add: word_less_nat_alt word_unat_eq_iff unat_full [OF r(1)])
  then have "CanLogBuffer_ReadNextBlock ops s = emit_block ops 0x10000 s"
    using full lin(1) aligned_r [OF r(2)] by (simp add: CanLogBuffer_ReadNextBlock_def Let_def)
  then show ?thesis using em hh by auto
qed

lemma consume_block:
  assumes h: "holds (Rb1 s) (b # bs) es"
  shows "\<exists>rb. CanLogBuffer_Consume ops BLOCK_SIZE fc s = (0, consumed fc (s\<lparr>Rb1 := rb\<rparr>)) \<and> holds rb bs es"
proof -
  define rb where "rb = lwrb_skip ops (Rb1 s) 0x10000"
  have r: "valid (Rb1 s)" "aligned (Rb1 s)" and b: "block_ok b" using h by (simp_all add: holds_def)
  have sk: "valid rb" "content rb = drop 65536 (content (Rb1 s))"
      "r_ptr ops rb = of_nat ((unat (r_ptr ops (Rb1 s)) + min 65536 (length (content (Rb1 s)))) mod 524288)"
    using skip r(1) by (simp_all add: rb_def)
  have c: "content rb = concat (map block_bytes bs) @ open_bytes es"
    using h by (simp add: holds_def sk(2) length_block_bytes)
  have m: "min 65536 (length (content (Rb1 s))) = 65536" using holds_length [OF h] by simp
  have "unat (r_ptr ops rb) = (unat (r_ptr ops (Rb1 s)) + 65536) mod 524288"
    unfolding sk(3) m by (rule unat_of_nat_u32) (rule less_trans [OF mod_less_divisor], simp_all)
  then have al: "aligned rb" using r(2) by (simp add: aligned_def mod_mod_cancel)
  have hh: "holds rb bs es" using h sk(1) al by (simp add: holds_def c)
  show ?thesis
    using hh aligned_r [OF al] by (auto simp: CanLogBuffer_Consume_def consumed_def Let_def rb_def)
qed

lemma used_slots_returns:
  "valid r \<Longrightarrow> unat k \<le> unat sk \<Longrightarrow> unat sk \<le> length (content r) \<Longrightarrow>
   \<exists>n. used_slots_loop ops r sk k = Some n \<and> unat k \<le> unat n"
proof (induction "length (content r) - unat sk" arbitrary: sk k rule: less_induct)
  case less
  note full = unat_full [OF less.prems(1)]
  show ?case
  proof (cases "lwrb_get_full ops r \<le> sk")
    case True
    then show ?thesis by (subst used_slots_loop.simps) simp
  next
    case False
    then have lt: "unat sk < length (content r)" by (simp add: word_le_nat_alt full)
    have avail: "unat (lwrb_get_full ops r - sk) = length (content r) - unat sk"
      using lt by (simp add: unat_sub word_le_nat_alt full)
    define P where "P v \<longleftrightarrow> (\<exists>n. v = Some n \<and> unat k \<le> unat n)" for v :: "u32 option"
    have fin: "P (Some k)" by (simp add: P_def)
    have rec: "P (used_slots_loop ops r (sk + d) k')"
      if d: "d \<noteq> 0" "\<not> lwrb_get_full ops r - sk < d" and k': "k' = k \<or> k' = k + 1" for d k'
    proof -
      have d': "0 < unat d" "unat d \<le> length (content r) - unat sk"
        using d by (simp_all add: unat_gt_0 word_less_nat_alt avail)
      have sd: "unat (sk + d) = unat sk + unat d"
        using d' room [OF less.prems(1)] lt by (intro unat_add_small) simp
      have k2: "unat k \<le> unat k'" "unat k' \<le> unat k + 1"
        using k' less.prems(2,3) room [OF less.prems(1)] by (auto simp: unat_add_small)
      have "\<exists>n. used_slots_loop ops r (sk + d) k' = Some n \<and> unat k' \<le> unat n"
        by (rule less.hyps) (use d' sd k2 less.prems lt in auto)
      then show ?thesis using k2 by (auto simp: P_def)
    qed
    have align: "0x10000 - x mod 0x10000 \<noteq> (0 :: u32)" for x
    proof -
      have "unat (0x10000 - x mod 0x10000) = 65536 - unat x mod 65536"
        by (simp add: unat_sub word_le_nat_alt unat_mod less_imp_le)
      then show ?thesis using mod_less_divisor [of 65536 "unat x"] by (auto simp: word_unat_eq_iff)
    qed
    have branch: "(c \<Longrightarrow> P v) \<Longrightarrow> (\<not> c \<Longrightarrow> P w) \<Longrightarrow> P (if c then v else w)" for c v w by simp
    have "P (used_slots_loop ops r sk k)"
      unfolding used_slots_loop.simps [of ops r sk k] Let_def case_prod_beta
      by (intro branch fin rec) (use align in \<open>auto simp: not_less\<close>)
    then show ?thesis by (simp add: P_def)
  qed
qed

lemma used_slots_some:
  assumes r: "valid r" "aligned r" and c: "content r = h @ e @ rest" "length h = 20" and e: "slot_entry e"
  shows "\<exists>n. used_slots_loop ops r 0 0 = Some n \<and> n \<noteq> 0"
proof -
  note len = entry_ok_length [OF slot_entry_ok [OF e]]
  note full = unat_full [OF r(1)]
  have L: "20 + length e \<le> length (content r)" "length (content r) \<le> 524287"
    using room [OF r(1)] c by simp_all
  have "content r \<noteq> []" using L by auto
  then have 1: "used_slots_loop ops r 0 0 = used_slots_loop ops r 20 0"
    using L len by (subst used_slots_loop.simps)
      (simp add: Let_def aligned_r [OF r(2)] word_le_nat_alt full)
  have at20: "(r_ptr ops r + 20) mod 0x10000 = 20"
  proof -
    have "unat (r_ptr ops r + 20) = unat (r_ptr ops r) + 20"
      using r_ptr [OF r(1)] by (subst unat_add_small) auto
    then show ?thesis using r(2) mod_add_left_eq [of "unat (r_ptr ops r)" 65536 20]
      by (simp add: word_unat_eq_iff unat_mod aligned_def)
  qed
  have pk: "lwrb_peek ops r 20 3 = take 3 (e @ rest)" "lwrb_peek ops r 20 (of_nat (length e)) = e"
    using c len r(1) by (simp_all add: peek)
  have av: "\<not> lwrb_get_full ops r \<le> 20" "\<not> lwrb_get_full ops r - 20 < of_nat (length e)"
    using L len by (simp_all add: word_less_nat_alt word_le_nat_alt full unat_sub)
  have sz: "\<not> of_nat (length e) < fst (slot_sizes (e ! 0))" "\<not> of_nat (length e) > snd (slot_sizes (e ! 0))"
    "(of_nat (length e) :: u32) \<noteq> 0"
    using e len by (auto simp: slot_entry_def slot_sizes_def word_less_nat_alt word_unat_eq_iff)
  have 2: "used_slots_loop ops r 20 0 = used_slots_loop ops r (20 + of_nat (length e)) 1"
    using av sz len drop_header [OF slot_entry_ok [OF e], of rest]
    by (subst used_slots_loop.simps) (simp add: Let_def at20 pk ucast_length case_prod_beta)
  have "unat (20 + of_nat (length e) :: u32) = 20 + length e"
    using len by (subst unat_add_small) auto
  then have "\<exists>n. used_slots_loop ops r (20 + of_nat (length e)) 1 = Some n \<and> unat (1 :: u32) \<le> unat n"
    by (intro used_slots_returns r) (use L in auto)
  then show ?thesis unfolding 1 2 by auto
qed

lemma used_slots:
  assumes h: "holds (Rb1 s) blocks es" and e: "list_all slot_entry (block_entries blocks @ es)"
  shows "\<exists>n. CanLogBuffer_UsedSlots ops s = Some (0, n) \<and> (n \<noteq> 0 \<longleftrightarrow> block_entries blocks @ es \<noteq> [])"
proof (cases "blocks = [] \<and> es = []")
  case True
  then have "lwrb_get_full ops (Rb1 s) = 0"
    using h by (simp add: holds_def full open_bytes_def)
  then have "used_slots_loop ops (Rb1 s) 0 0 = Some 0" by (subst used_slots_loop.simps) simp
  then show ?thesis using True by (simp add: CanLogBuffer_UsedSlots_def)
next
  case False
  obtain hd0 e0 rest where c: "content (Rb1 s) = hd0 @ e0 @ rest" "length hd0 = 20" "e0 \<in> set (block_entries blocks @ es)"
  proof (cases blocks)
    case Nil
    then obtain e0 es' where "es = e0 # es'" using False by (cases es) auto
    then show ?thesis using h Nil
      by (intro that [of HeaderPlaceholder e0 "concat es'"]) (simp_all add: holds_def open_bytes_def)
  next
    case (Cons b bs)
    obtain e0 es' where es0: "snd b = e0 # es'" "length (fst b) = 20"
      using h by (cases "snd b") (auto simp: holds_def Cons block_ok_def)
    then show ?thesis using h Cons
      by (intro that [of "fst b" e0]) (auto simp: holds_def block_bytes_def)
  qed
  have "slot_entry e0" using e c(3) by (simp add: list_all_iff)
  then obtain n where "used_slots_loop ops (Rb1 s) 0 0 = Some n" "n \<noteq> 0"
    using used_slots_some [OF _ _ c(1,2)] h by (auto simp: holds_def)
  then show ?thesis using c(3) by (auto simp: CanLogBuffer_UsedSlots_def)
qed

end

section \<open>A ring that keeps the contract\<close>

text \<open>A ring with its storage size, its read position and the bytes waiting in it.\<close>

record stub_ring =
  ring_size :: nat
  ring_start :: nat
  ring_bytes :: bytes

definition stub_w_ptr :: "stub_ring \<Rightarrow> nat" where
  "stub_w_ptr r = (ring_start r + length (ring_bytes r)) mod ring_size r"

definition stub_linear :: "stub_ring \<Rightarrow> nat" where
  "stub_linear r = min (length (ring_bytes r)) (ring_size r - ring_start r)"

definition stub_lwrb :: "stub_ring lwrb_ops" where
  "stub_lwrb =
    \<lparr>lwrb_init = (\<lambda>r n. (1, \<lparr>ring_size = unat n, ring_start = 0, ring_bytes = []\<rparr>)),
     lwrb_reset = (\<lambda>r. r\<lparr>ring_start := 0, ring_bytes := []\<rparr>),
     lwrb_get_free = (\<lambda>r. of_nat (ring_size r - 1 - length (ring_bytes r))),
     lwrb_get_full = (\<lambda>r. of_nat (length (ring_bytes r))),
     lwrb_get_linear_block_read_length = (\<lambda>r. of_nat (stub_linear r)),
     lwrb_get_linear_block_write_length = (\<lambda>r.
       if ring_start r \<le> stub_w_ptr r
       then of_nat (ring_size r - stub_w_ptr r - (if ring_start r = 0 then 1 else 0))
       else of_nat (ring_start r - stub_w_ptr r - 1)),
     lwrb_write = (\<lambda>r bs. let taken = take (ring_size r - 1 - length (ring_bytes r)) bs
       in (of_nat (length taken), r\<lparr>ring_bytes := ring_bytes r @ taken\<rparr>)),
     lwrb_peek = (\<lambda>r off n. take (unat n) (drop (unat off) (ring_bytes r))),
     lwrb_skip = (\<lambda>r n. r\<lparr>ring_start := (ring_start r + min (unat n) (length (ring_bytes r))) mod ring_size r,
       ring_bytes := drop (unat n) (ring_bytes r)\<rparr>),
     r_ptr = (\<lambda>r. of_nat (ring_start r)),
     w_ptr = (\<lambda>r. of_nat (stub_w_ptr r)),
     linear_load = (\<lambda>r n. take (unat n) (ring_bytes r)),
     linear_store = (\<lambda>r bs. r\<lparr>ring_bytes := bs @ drop (length bs) (ring_bytes r)\<rparr>)\<rparr>"

definition stub_valid :: "stub_ring \<Rightarrow> bool" where
  "stub_valid r \<longleftrightarrow> ring_size r = 524288 \<and> ring_start r < 524288 \<and> length (ring_bytes r) < 524288"

lemma stub_w_ptr_lt: "stub_valid r \<Longrightarrow> stub_w_ptr r < 524288"
  by (simp add: stub_valid_def stub_w_ptr_def)

interpretation stub_lwrb: lwrb stub_lwrb stub_valid ring_bytes
proof (unfold_locales, goal_cases)
  case (9 r)
  then show ?case
    using stub_w_ptr_lt [OF 9]
    by (auto simp: stub_lwrb_def stub_valid_def word_le_nat_alt word_unat_eq_iff unat_sub simp del: of_nat_diff)
next
  case (14 r bs)
  then have "length bs \<le> stub_linear r"
    by (simp add: stub_lwrb_def stub_valid_def stub_linear_def word_le_nat_alt)
  with 14 show ?case by (auto simp: stub_lwrb_def stub_valid_def stub_linear_def)
next
  case (13 r n)
  then show ?case by (simp add: stub_lwrb_def)
qed (auto simp: stub_lwrb_def stub_valid_def stub_w_ptr_def stub_linear_def Let_def)

end
