(* ===== verification/CanLogHistory.thy ===== *)
theory CanLogHistory
  imports CanLogBlocks
begin

text \<open>
  Histories of the staging buffer: entries are added, the open block is padded, blocks are read
  and, when the card took them, consumed, in any order (the calls CanLogManager makes).  The
  properties say that the blocks handed out hold exactly the accepted entries in order, that a
  final flush empties the buffer, and what the drop counter says about refused entries.
\<close>

section \<open>Reading a block back\<close>

text \<open>The reader of a log: entries lie one behind the other, each with its length in byte 2; the
  header says how many bytes of the block are used and how many entries it has.\<close>

function split_entries :: "bytes \<Rightarrow> bytes list" where
  "split_entries bs =
     (if length bs < 3 \<or> unat (bs ! 2) < 3 then []
      else take (unat (bs ! 2)) bs # split_entries (drop (unat (bs ! 2)) bs))"
  by pat_completeness auto
termination by (relation "measure length") auto

declare split_entries.simps [simp del]

definition entries_of_block :: "bytes \<Rightarrow> bytes list" where
  "entries_of_block b = split_entries (drop 20 (take (unat (u32_of_le (drop 8 b))) b))"

definition block_entry_count :: "bytes \<Rightarrow> u32" where
  "block_entry_count b = u32_of_le (drop 16 b)"

section \<open>Histories\<close>

datatype clb_op = AddEntry bytes | FillBlock | StoreBlock bool

text \<open>The state, the entries accepted so far and the blocks the card has.  \<open>StoreBlock ok\<close> reads
  the next block and consumes it when the card took it.\<close>

fun clb_step :: "'r lwrb_ops \<Rightarrow> clb_op \<Rightarrow> 'r clb_state \<times> bytes list \<times> bytes list \<Rightarrow>
    ('r clb_state \<times> bytes list \<times> bytes list) option" where
  "clb_step ops (AddEntry e) (s, acc, out) =
     (case CanLogBuffer_AddEntry ops e (of_nat (length e)) s of None \<Rightarrow> None
      | Some (r, s) \<Rightarrow> Some (s, if r = CLB_E_OK then acc @ [e] else acc, out))"
| "clb_step ops FillBlock (s, acc, out) = Some (snd (CanLogBuffer_FillBlockWithPadding ops s), acc, out)"
| "clb_step ops (StoreBlock ok) (s, acc, out) =
     (case CanLogBuffer_ReadNextBlock ops s of None \<Rightarrow> None
      | Some (b, s) \<Rightarrow>
          if br_res b = CLB_E_OK \<and> ok
          then Some (snd (CanLogBuffer_Consume ops (br_len b) (br_frame_count b) s), acc,
                     out @ [the (br_data b)])
          else Some (s, acc, out))"

fun clb_run :: "'r lwrb_ops \<Rightarrow> clb_op list \<Rightarrow> 'r clb_state \<times> bytes list \<times> bytes list \<Rightarrow>
    ('r clb_state \<times> bytes list \<times> bytes list) option" where
  "clb_run ops [] st = Some st"
| "clb_run ops (x # xs) st = (case clb_step ops x st of None \<Rightarrow> None | Some st \<Rightarrow> clb_run ops xs st)"

definition op_ok :: "(bytes \<Rightarrow> bool) \<Rightarrow> clb_op \<Rightarrow> bool" where
  "op_ok P op = (case op of AddEntry e \<Rightarrow> P e | _ \<Rightarrow> True)"

text \<open>The variables before \<open>CanLogBuffer_Init\<close>.\<close>

definition clb_boot :: "'r \<Rightarrow> 'r clb_state" where
  "clb_boot r = \<lparr>Rb1 = r, EpochCount = 0, BlockCount = 0, backlog = 0, clb_counters = zero_counters\<rparr>"

lemma clb_run_append:
  "clb_run ops (xs @ ys) st = (case clb_run ops xs st of None \<Rightarrow> None | Some st \<Rightarrow> clb_run ops ys st)"
  by (induction xs arbitrary: st) (auto split: option.splits)

section \<open>A finished block reads back\<close>

lemma split_entries_concat: "list_all entry_ok es \<Longrightarrow> split_entries (concat es) = es"
proof (induction es)
  case Nil
  then show ?case by (simp add: split_entries.simps)
next
  case (Cons e es)
  then have "3 \<le> length e" "(e @ concat es) ! 2 = of_nat (length e)" "length e < 256"
    by (auto simp: entry_ok_def nth_append)
  with Cons show ?case by (subst split_entries.simps) (simp add: unat_of_nat take_bit_eq_mod)
qed

lemma block_reads_back:
  assumes "block_ok (h, es)"
  shows "entries_of_block (block_bytes (block_header s es, es)) = es"
    "block_entry_count (block_bytes (block_header s es, es)) = of_nat (length es)"
    "length (block_bytes (block_header s es, es)) = 65536"
proof -
  have *: "list_all entry_ok es" "length (concat es) \<le> 65516" using assms by (simp_all add: block_ok_def)
  then have "unat (of_nat (20 + length (concat es)) :: u32) = 20 + length (concat es)" by (subst unat_of_nat_u32) simp_all
  with * show "entries_of_block (block_bytes (block_header s es, es)) = es"
    by (simp add: entries_of_block_def block_bytes_def block_header_def block_header_bytes_def
        split_entries_concat drop_take)
  show "block_entry_count (block_bytes (block_header s es, es)) = of_nat (length es)"
    by (simp add: block_entry_count_def block_bytes_def block_header_def block_header_bytes_def)
  show "length (block_bytes (block_header s es, es)) = 65536"
    using * by (simp add: block_bytes_def block_header_def block_header_bytes_def)
qed

section \<open>What every history keeps\<close>

lemma length_entries: "list_all entry_ok es \<Longrightarrow> length es \<le> length (concat es)"
  by (induction es) (auto simp: entry_ok_def)

text \<open>The accepted entries are those of the blocks on the card followed by those in the ring; the
  frame counters count them.\<close>

context lwrb
begin

definition kept :: "'r clb_state \<times> bytes list \<times> bytes list \<Rightarrow> (bytes \<times> bytes list) list \<Rightarrow> bytes list \<Rightarrow> bool" where
  "kept st blocks es = (case st of (s, acc, out) \<Rightarrow>
     holds (Rb1 s) blocks es \<and> acc = concat (map entries_of_block out) @ block_entries blocks @ es \<and>
     (\<forall>b \<in> set out. length b = 65536 \<and> block_entry_count b = of_nat (length (entries_of_block b))) \<and>
     CanLogBuffer_FrameCount1 (clb_counters s) = of_nat (frames acc) \<and>
     CanLogBuffer_FrameCount2 (clb_counters s) = of_nat (frames (concat (map entries_of_block out))))"

lemma kept_init: "kept (snd (CanLogBuffer_Init ops (clb_boot r)), [], []) [] []"
proof -
  obtain r' where "lwrb_init ops r 0x80000 = (1, r')" "valid r'" "content r' = []" "r_ptr ops r' = 0"
    using init [of r] by blast
  then show ?thesis
    by (simp add: kept_def CanLogBuffer_Init_def clb_boot_def holds_def aligned_def open_bytes_def open_ok_def
        zero_counters_def)
qed

lemma kept_add:
  assumes k: "kept (s, acc, out) blocks es" and e: "entry_ok e"
  shows "\<exists>s' acc' blocks' es'. clb_step ops (AddEntry e) (s, acc, out) = Some (s', acc', out) \<and>
    kept (s', acc', out) blocks' es' \<and> acc' \<in> {acc, acc @ [e]} \<and>
    backlog s' = backlog s \<and>
    CanLogBuffer_FrameDropCount (clb_counters s') = CanLogBuffer_FrameDropCount (clb_counters s)"
proof (cases "ring_refuses blocks es e")
  case True
  then have "CanLogBuffer_AddEntry ops e (of_nat (length e)) s = Some (CLB_E_BUFFER_FULL, s)"
    using k e by (intro add_refused) (simp_all add: kept_def)
  then show ?thesis using k by auto
next
  case False
  have h: "holds (Rb1 s) blocks es" using k by (simp add: kept_def)
  obtain rb blocks' es' where a: "CanLogBuffer_AddEntry ops e (of_nat (length e)) s =
      Some (CLB_E_OK, count_entry e (s\<lparr>Rb1 := rb\<rparr>))" "holds rb blocks' es'"
      "block_entries blocks' @ es' = block_entries blocks @ es @ [e]"
    using add_accepted [OF h e False] by blast
  have "kept (count_entry e (s\<lparr>Rb1 := rb\<rparr>), acc @ [e], out) blocks' es'"
    using k a(2,3) by (auto simp: kept_def count_entry_def)
  then show ?thesis using a(1) by (intro exI conjI) (simp, assumption, simp_all add: count_entry_def)
qed

lemma kept_fill:
  assumes k: "kept (s, acc, out) blocks es"
  shows "\<exists>s' blocks' es'. clb_step ops FillBlock (s, acc, out) = Some (s', acc, out) \<and>
    kept (s', acc, out) blocks' es' \<and> clb_counters s' = clb_counters s \<and> backlog s' = backlog s \<and>
    length blocks' \<le> 7 \<and> (length blocks \<noteq> 7 \<longrightarrow> es' = [])"
proof -
  have h: "holds (Rb1 s) blocks es" using k by (simp add: kept_def)
  consider "es = []" | "es \<noteq> []" "length blocks = 7" | "es \<noteq> []" "length blocks \<noteq> 7" by blast
  then show ?thesis
  proof cases
    case 1
    then show ?thesis using k h fill_nothing [of s blocks] holds_blocks_le [OF h] by auto
  next
    case 2
    then show ?thesis using k fill_refused [OF h 2] by auto
  next
    case 3
    obtain rb where f: "CanLogBuffer_FillBlockWithPadding ops s = (CLB_E_OK, s\<lparr>Rb1 := rb\<rparr>)"
        "holds rb (blocks @ [(HeaderPlaceholder, es)]) []"
      using fill_closes [OF h 3] by blast
    have "kept (s\<lparr>Rb1 := rb\<rparr>, acc, out) (blocks @ [(HeaderPlaceholder, es)]) []"
      using k f(2) by (simp add: kept_def)
    then show ?thesis using f holds_blocks_le [OF f(2)] by auto
  qed
qed

lemma kept_store:
  assumes k: "kept (s, acc, out) blocks es"
  shows "\<exists>s' out' blocks'. clb_step ops (StoreBlock ok) (s, acc, out) = Some (s', acc, out') \<and>
    kept (s', acc, out') blocks' es \<and> length blocks' = length blocks - (if ok then 1 else 0) \<and>
    (s' = s\<lparr>Rb1 := Rb1 s', BlockCount := BlockCount s'\<rparr> \<or>
     (\<exists>t fc. backlog t = backlog s \<and> clb_counters t = clb_counters s \<and> s' = consumed fc t))"
proof -
  have h: "holds (Rb1 s) blocks es" using k by (simp add: kept_def)
  show ?thesis
  proof (cases blocks)
    case Nil
    then have "CanLogBuffer_ReadNextBlock ops s = Some (no_block, s)" using read_nothing h by simp
    then show ?thesis using k Nil by (auto simp: no_block_def)
  next
    case (Cons b bs)
    obtain hd0 es0 where b: "b = (hd0, es0)" by (cases b)
    let ?b = "(block_header s es0, es0)"
    obtain rb where r: "CanLogBuffer_ReadNextBlock ops s =
      Some (\<lparr>br_res = CLB_E_OK, br_data = Some (block_bytes ?b), br_len = BLOCK_SIZE, br_frame_count = of_nat (frames es0)\<rparr>,
            s\<lparr>BlockCount := BlockCount s + 1, Rb1 := rb\<rparr>)" "holds rb (?b # bs) es"
      using read_block [of s hd0 es0 bs es] h by (auto simp: Cons b)
    have b0: "block_ok (hd0, es0)" using h by (simp add: holds_def Cons b)
    note reads = block_reads_back [OF b0, of s]
    define s1 where "s1 = s\<lparr>BlockCount := BlockCount s + 1, Rb1 := rb\<rparr>"
    have k1: "kept (s1, acc, out) (?b # bs) es" using k r(2) by (simp add: kept_def s1_def Cons b)
    show ?thesis
    proof (cases ok)
      case False
      then show ?thesis using r(1) k1 Cons by (auto simp: s1_def)
    next
      case True
      have h1: "holds (Rb1 s1) (?b # bs) es" using r(2) by (simp add: s1_def)
      obtain rb2 where c: "CanLogBuffer_Consume ops BLOCK_SIZE (of_nat (frames es0)) s1 =
          (0, consumed (of_nat (frames es0)) (s1\<lparr>Rb1 := rb2\<rparr>))" "holds rb2 bs es"
        using consume_block [OF h1] by blast
      have "length es0 \<le> length (concat es0)"
        using b0 by (intro length_entries) (simp add: block_ok_def)
      then have "frames es0 < 65536" using b0 by (auto simp: block_ok_def frames_def intro: le_less_trans [OF length_filter_le])
      then have fc: "(ucast (of_nat (frames es0) :: u32) :: u64) = of_nat (frames es0)"
        by (simp add: word_unat_eq_iff unsigned_ucast_eq unat_of_nat take_bit_eq_mod)
      have "kept (consumed (of_nat (frames es0)) (s1\<lparr>Rb1 := rb2\<rparr>), acc, out @ [block_bytes ?b]) bs es"
        using k c(2) reads fc by (auto simp: kept_def consumed_def Let_def s1_def Cons b)
      moreover have "clb_step ops (StoreBlock ok) (s, acc, out) =
          Some (consumed (of_nat (frames es0)) (s1\<lparr>Rb1 := rb2\<rparr>), acc, out @ [block_bytes ?b])"
        using r(1) c(1) True by (simp add: s1_def)
      moreover have "backlog (s1\<lparr>Rb1 := rb2\<rparr>) = backlog s" "clb_counters (s1\<lparr>Rb1 := rb2\<rparr>) = clb_counters s"
        by (simp_all add: s1_def)
      ultimately show ?thesis using True Cons by (intro exI conjI) (assumption, assumption, simp, blast)
    qed
  qed
qed

end

text \<open>The same without the counters, for histories in which they are reset; \<open>read_counts\<close> are those of the
  frames read, which the buffer does not touch.\<close>

definition read_counts :: "counters \<Rightarrow> u64 \<times> u64 \<times> u64" where
  "read_counts c = (CanLogManager_FrameCount c, CanLogManager_CAN1_MissingCount c, CanLogManager_CAN2_MissingCount c)"

context lwrb
begin

definition stocked :: "'r clb_state \<Rightarrow> bytes list \<Rightarrow> bytes list \<Rightarrow> (bytes \<times> bytes list) list \<Rightarrow> bytes list \<Rightarrow> bool" where
  "stocked s acc out blocks es \<longleftrightarrow>
     holds (Rb1 s) blocks es \<and> acc = concat (map entries_of_block out) @ block_entries blocks @ es"

lemma stocked_cong: "stocked s acc out blocks es \<Longrightarrow> Rb1 s' = Rb1 s \<Longrightarrow> stocked s' acc out blocks es"
  by (simp add: stocked_def)

lemma kept_stocked: "kept (s, acc, out) blocks es \<Longrightarrow> stocked s acc out blocks es"
  by (simp add: kept_def stocked_def)

lemma stocked_add:
  assumes k: "stocked s acc out blocks es" and e: "entry_ok e"
  shows "\<exists>res s' blocks' es'. CanLogBuffer_AddEntry ops e (of_nat (length e)) s = Some (res, s') \<and>
    res = (if ring_refuses blocks es e then CLB_E_BUFFER_FULL else CLB_E_OK) \<and>
    stocked s' (if res = CLB_E_OK then acc @ [e] else acc) out blocks' es' \<and>
    read_counts (clb_counters s') = read_counts (clb_counters s) \<and>
    CanLogManager_FrameDropCount1 (clb_counters s') = CanLogManager_FrameDropCount1 (clb_counters s)"
proof -
  have h: "holds (Rb1 s) blocks es" using k by (simp add: stocked_def)
  show ?thesis
  proof (cases "ring_refuses blocks es e")
    case True
    then show ?thesis using k add_refused [OF h e]
      by (intro exI [of _ CLB_E_BUFFER_FULL] exI [of _ s] exI [of _ blocks] exI [of _ es]) simp
  next
    case False
    obtain rb blocks' es' where a: "CanLogBuffer_AddEntry ops e (of_nat (length e)) s =
        Some (CLB_E_OK, count_entry e (s\<lparr>Rb1 := rb\<rparr>))" "holds rb blocks' es'"
        "block_entries blocks' @ es' = block_entries blocks @ es @ [e]"
      using add_accepted [OF h e False] by blast
    have "stocked (count_entry e (s\<lparr>Rb1 := rb\<rparr>)) (acc @ [e]) out blocks' es'"
      using k a(2,3) by (auto simp: stocked_def count_entry_def)
    then show ?thesis using a(1) False
      by (intro exI [of _ CLB_E_OK] exI [of _ "count_entry e (s\<lparr>Rb1 := rb\<rparr>)"] exI [of _ blocks'] exI [of _ es'])
        (simp add: count_entry_def read_counts_def)
  qed
qed

lemma stocked_fill:
  assumes k: "stocked s acc out blocks es"
  shows "\<exists>r s' blocks' es'. CanLogBuffer_FillBlockWithPadding ops s = (r, s') \<and> stocked s' acc out blocks' es' \<and>
    clb_counters s' = clb_counters s \<and> (length blocks \<noteq> 7 \<longrightarrow> es' = [])"
proof -
  have h: "holds (Rb1 s) blocks es" using k by (simp add: stocked_def)
  consider "es = []" | "es \<noteq> []" "length blocks = 7" | "es \<noteq> []" "length blocks \<noteq> 7" by blast
  then show ?thesis
  proof cases
    case 1
    then show ?thesis using k h fill_nothing [of s blocks] by auto
  next
    case 2
    then show ?thesis using k fill_refused [OF h 2] by auto
  next
    case 3
    obtain rb where f: "CanLogBuffer_FillBlockWithPadding ops s = (CLB_E_OK, s\<lparr>Rb1 := rb\<rparr>)"
        "holds rb (blocks @ [(HeaderPlaceholder, es)]) []"
      using fill_closes [OF h 3] by blast
    have "stocked (s\<lparr>Rb1 := rb\<rparr>) acc out (blocks @ [(HeaderPlaceholder, es)]) []"
      using k f(2) by (simp add: stocked_def)
    then show ?thesis using f(1) by auto
  qed
qed

text \<open>A stored block, as the two calls around the write.\<close>

lemma stocked_read_consume:
  assumes k: "stocked s acc out (b # bs) es"
  shows "\<exists>blk fc s1 s2. CanLogBuffer_ReadNextBlock ops s =
      Some (\<lparr>br_res = CLB_E_OK, br_data = Some blk, br_len = BLOCK_SIZE, br_frame_count = fc\<rparr>, s1) \<and>
    length blk = 65536 \<and> CanLogBuffer_Consume ops BLOCK_SIZE fc s1 = (0, s2) \<and>
    stocked s2 acc (out @ [blk]) bs es \<and> (\<exists>b'. stocked s1 acc out (b' # bs) es) \<and> clb_counters s1 = clb_counters s \<and>
    read_counts (clb_counters s2) = read_counts (clb_counters s) \<and>
    CanLogManager_FrameDropCount1 (clb_counters s2) = CanLogManager_FrameDropCount1 (clb_counters s)"
proof -
  obtain hd0 es0 where b: "b = (hd0, es0)" by (cases b)
  have h: "holds (Rb1 s) ((hd0, es0) # bs) es" using k by (simp add: stocked_def b)
  have b0: "block_ok (hd0, es0)" using h by (simp add: holds_def)
  obtain rb where r: "CanLogBuffer_ReadNextBlock ops s =
      Some (\<lparr>br_res = CLB_E_OK, br_data = Some (block_bytes (block_header s es0, es0)), br_len = BLOCK_SIZE,
             br_frame_count = of_nat (frames es0)\<rparr>, s\<lparr>BlockCount := BlockCount s + 1, Rb1 := rb\<rparr>)"
    "holds rb ((block_header s es0, es0) # bs) es"
    using read_block [of s hd0 es0 bs es] h by auto
  define s1 where "s1 = s\<lparr>BlockCount := BlockCount s + 1, Rb1 := rb\<rparr>"
  obtain rb2 where c: "CanLogBuffer_Consume ops BLOCK_SIZE (of_nat (frames es0)) s1 =
      (0, consumed (of_nat (frames es0)) (s1\<lparr>Rb1 := rb2\<rparr>))" "holds rb2 bs es"
    using consume_block [of s1 "(block_header s es0, es0)" bs es] r(2) by (auto simp: s1_def)
  let ?s2 = "consumed (of_nat (frames es0)) (s1\<lparr>Rb1 := rb2\<rparr>)"
  have "stocked ?s2 acc (out @ [block_bytes (block_header s es0, es0)]) bs es"
    using k c(2) block_reads_back(1) [OF b0, of s] by (simp add: stocked_def consumed_def Let_def b)
  moreover have "stocked s1 acc out ((block_header s es0, es0) # bs) es"
    using k r(2) by (simp add: stocked_def s1_def b)
  ultimately show ?thesis
    using r(1) [folded s1_def] c(1) block_reads_back(3) [OF b0, of s]
    by (intro exI [of _ "block_bytes (block_header s es0, es0)"] exI [of _ "of_nat (frames es0) :: u32"] exI [of _ s1] exI [of _ ?s2])
      (auto simp: s1_def consumed_def Let_def read_counts_def)
qed

end

context lwrb
begin

lemma kept_step:
  assumes k: "kept st blocks es" and x: "op_ok entry_ok x"
  shows "\<exists>st' blocks' es'. clb_step ops x st = Some st' \<and> kept st' blocks' es'"
proof -
  obtain s acc out where st: "st = (s, acc, out)" by (cases st)
  note k' = k [unfolded st]
  show ?thesis
  proof (cases x)
    case (AddEntry e)
    then have "entry_ok e" using x by (simp add: op_ok_def)
    then show ?thesis using kept_add [OF k'] unfolding st AddEntry by blast
  next
    case FillBlock
    then show ?thesis using kept_fill [OF k'] unfolding st by blast
  next
    case (StoreBlock ok)
    then show ?thesis using kept_store [OF k', of ok] unfolding st by blast
  qed
qed

lemma kept_run:
  "list_all (op_ok entry_ok) xs \<Longrightarrow> kept st blocks es \<Longrightarrow>
   \<exists>st' blocks' es'. clb_run ops xs st = Some st' \<and> kept st' blocks' es'"
proof (induction xs arbitrary: st blocks es)
  case (Cons x xs)
  obtain st1 blocks1 es1 where "clb_step ops x st = Some st1" "kept st1 blocks1 es1"
    using kept_step [OF Cons.prems(2), of x] Cons.prems(1) unfolding list.pred_inject(2) by blast
  then show ?case using Cons by auto
qed auto

lemma kept_blocks_le: "kept st blocks es \<Longrightarrow> length blocks \<le> 7"
  using holds_blocks_le by (cases st) (auto simp: kept_def)

lemma kept_stores:
  "kept st blocks es \<Longrightarrow> length blocks \<le> n \<Longrightarrow>
   \<exists>st'. clb_run ops (replicate n (StoreBlock True)) st = Some st' \<and> kept st' [] es \<and> fst (snd st') = fst (snd st)"
proof (induction n arbitrary: st blocks)
  case (Suc n)
  obtain s acc out where st: "st = (s, acc, out)" by (cases st)
  obtain s' out' blocks' where "clb_step ops (StoreBlock True) st = Some (s', acc, out')"
      "kept (s', acc, out') blocks' es" "length blocks' = length blocks - 1"
    using kept_store [of s acc out blocks es True] Suc.prems by (auto simp: st)
  then show ?case using Suc.IH [of "(s', acc, out')" blocks'] Suc.prems(2) by (simp add: st)
qed simp

lemma flush_all:
  assumes k: "kept st blocks es"
  shows "\<exists>st'. clb_run ops ([StoreBlock True, FillBlock] @ replicate 7 (StoreBlock True)) st = Some st' \<and>
    kept st' [] [] \<and> fst (snd st') = fst (snd st)"
proof -
  obtain s acc out where st: "st = (s, acc, out)" by (cases st)
  obtain s1 out1 blocks1 where 1: "clb_step ops (StoreBlock True) st = Some (s1, acc, out1)"
      "kept (s1, acc, out1) blocks1 es" "length blocks1 \<noteq> 7"
    using kept_store [of s acc out blocks es True] k kept_blocks_le [OF k] by (auto simp: st)
  obtain s2 blocks2 where 2: "clb_step ops FillBlock (s1, acc, out1) = Some (s2, acc, out1)"
      "kept (s2, acc, out1) blocks2 []" "length blocks2 \<le> 7"
    using kept_fill [OF 1(2)] 1(3) by auto
  show ?thesis using kept_stores [OF 2(2,3)] 1(1) 2(1) by (auto simp: st)
qed

text \<open>The frames in the ring need 14 bytes each, so there are fewer of them than \<open>BLOCK_SIZE\<close>.\<close>

lemma frames_bytes: "list_all slot_entry es \<Longrightarrow> 14 * frames es \<le> length (concat es)"
  by (induction es) (auto simp: slot_entry_def)

lemma length_block_entries: "list_all block_ok blocks \<Longrightarrow>
    length (concat (block_entries blocks)) \<le> length (concat (map block_bytes blocks))"
  by (induction blocks) (auto simp: block_bytes_def)

lemma pending_frames:
  assumes h: "holds r blocks es" and e: "list_all slot_entry (block_entries blocks @ es)"
  shows "frames (block_entries blocks @ es) < 65536"
proof -
  have "length (concat (block_entries blocks @ es)) \<le> length (content r)"
    using h length_block_entries [of blocks] by (auto simp: holds_def open_bytes_def)
  moreover have "length (content r) \<le> 524287" using h room [of r] by (simp add: holds_def)
  ultimately show ?thesis using frames_bytes [OF e] by simp
qed

definition no_drops :: "'r clb_state \<times> bytes list \<times> bytes list \<Rightarrow> bool" where
  "no_drops st = (case st of (s, acc, out) \<Rightarrow> list_all slot_entry acc \<and> backlog s \<le> 0x10000 \<and>
     CanLogBuffer_FrameDropCount (clb_counters s) = 0)"

lemma no_drops_consumed:
  assumes k: "kept (consumed fc t, acc, out) blocks es" and n: "list_all slot_entry acc" "backlog t \<le> 0x10000"
  shows "no_drops (consumed fc t, acc, out)"
proof -
  let ?s = "consumed fc t"
  have p: "frames (block_entries blocks @ es) < 65536"
    using k n(1) by (intro pending_frames [of "Rb1 ?s"]) (auto simp: kept_def)
  have "CanLogBuffer_FrameCount1 (clb_counters ?s) - CanLogBuffer_FrameCount2 (clb_counters ?s) =
      of_nat (frames (block_entries blocks @ es))"
    using k by (simp add: kept_def)
  moreover have "(of_nat (frames (block_entries blocks @ es)) :: u64) \<le> 0x10000"
    using p by (simp only: word_le_nat_alt unat_of_nat take_bit_eq_mod) simp
  ultimately have "backlog ?s \<le> 0x10000"
    using n(2) by (auto simp: consumed_def Let_def)
  moreover have "CanLogBuffer_FrameDropCount (clb_counters ?s) =
      (if backlog ?s > 0x10000 then backlog ?s - 0x10000 else 0)"
    by (simp add: consumed_def Let_def)
  ultimately show ?thesis using n(1) by (auto simp: no_drops_def not_less)
qed

lemma no_drops_step:
  assumes k: "kept st blocks es" and n: "no_drops st" and x: "op_ok slot_entry x"
  shows "\<exists>st' blocks' es'. clb_step ops x st = Some st' \<and> kept st' blocks' es' \<and> no_drops st'"
proof -
  obtain s acc out where st: "st = (s, acc, out)" by (cases st)
  note k' = k [unfolded st]
  show ?thesis
  proof (cases x)
    case (AddEntry e)
    then have e: "slot_entry e" using x by (simp add: op_ok_def)
    obtain s' acc' blocks' es' where 1: "clb_step ops (AddEntry e) (s, acc, out) = Some (s', acc', out)"
        "kept (s', acc', out) blocks' es'" and 2: "acc' \<in> {acc, acc @ [e]}" "backlog s' = backlog s"
        "CanLogBuffer_FrameDropCount (clb_counters s') = CanLogBuffer_FrameDropCount (clb_counters s)"
      using kept_add [OF k' slot_entry_ok [OF e]] by blast
    have "no_drops (s', acc', out)" using 2 n e by (auto simp: no_drops_def st)
    then show ?thesis using 1 unfolding st AddEntry by blast
  next
    case FillBlock
    obtain s' blocks' es' where 1: "clb_step ops FillBlock (s, acc, out) = Some (s', acc, out)"
        "kept (s', acc, out) blocks' es'" and 2: "clb_counters s' = clb_counters s" "backlog s' = backlog s"
      using kept_fill [OF k'] by blast
    have "no_drops (s', acc, out)" using 2 n by (simp add: no_drops_def st)
    then show ?thesis using 1 unfolding st FillBlock by blast
  next
    case (StoreBlock ok)
    obtain s' out' blocks' where 1: "clb_step ops (StoreBlock ok) (s, acc, out) = Some (s', acc, out')"
        "kept (s', acc, out') blocks' es"
      and 2: "s' = s\<lparr>Rb1 := Rb1 s', BlockCount := BlockCount s'\<rparr> \<or>
       (\<exists>t fc. backlog t = backlog s \<and> clb_counters t = clb_counters s \<and> s' = consumed fc t)"
      using kept_store [OF k', of ok] by blast
    have "no_drops (s', acc, out')"
      using 2
    proof (elim disjE exE conjE)
      assume "s' = s\<lparr>Rb1 := Rb1 s', BlockCount := BlockCount s'\<rparr>"
      then have "backlog s' = backlog s" "clb_counters s' = clb_counters s"
        by (metis clb_state.select_convs clb_state.surjective clb_state.update_convs)+
      then show ?thesis using n by (simp add: no_drops_def st)
    next
      fix t fc assume "backlog t = backlog s" "s' = consumed fc t"
      then show ?thesis using no_drops_consumed [of fc t acc out' blocks' es] 1(2) n by (simp add: no_drops_def st)
    qed
    then show ?thesis using 1 unfolding st StoreBlock by blast
  qed
qed

lemma no_drops_run:
  "list_all (op_ok slot_entry) xs \<Longrightarrow> kept st blocks es \<Longrightarrow> no_drops st \<Longrightarrow>
   \<exists>st' blocks' es'. clb_run ops xs st = Some st' \<and> kept st' blocks' es' \<and> no_drops st'"
proof (induction xs arbitrary: st blocks es)
  case (Cons x xs)
  obtain st1 blocks1 es1 where "clb_step ops x st = Some st1" "kept st1 blocks1 es1" "no_drops st1"
    using no_drops_step [OF Cons.prems(2,3), of x] Cons.prems(1) unfolding list.pred_inject(2) by blast
  then show ?case using Cons by auto
qed auto

end

section \<open>Properties\<close>

definition clb_start :: "'r lwrb_ops \<Rightarrow> 'r \<Rightarrow> 'r clb_state \<times> bytes list \<times> bytes list" where
  "clb_start ops r = (snd (CanLogBuffer_Init ops (clb_boot r)), [], [])"

text \<open>
  The staging buffer loses and invents nothing: from \<open>CanLogBuffer_Init\<close>, through any
  sequence of additions, paddings and block reads (with the card taking a block or not), on any ring
  that keeps lwrb's contract, every call returns and the accepted entries are exactly those of the
  blocks the card has, read back by their headers, followed by those still in the ring; each block
  has the full size and its header the exact number of entries, and the two frame counters count
  the frames accepted and the frames on the card.
\<close>

theorem log_blocks_lossless:
  assumes "lwrb ops valid content" "list_all (op_ok entry_ok) xs"
  shows "\<exists>s acc out pending. clb_run ops xs (clb_start ops r) = Some (s, acc, out) \<and>
    acc = concat (map entries_of_block out) @ pending \<and>
    (\<forall>b \<in> set out. length b = 65536 \<and> block_entry_count b = of_nat (length (entries_of_block b))) \<and>
    CanLogBuffer_FrameCount1 (clb_counters s) = of_nat (frames acc) \<and>
    CanLogBuffer_FrameCount2 (clb_counters s) = of_nat (frames (concat (map entries_of_block out)))"
proof -
  obtain st blocks es where run: "clb_run ops xs (clb_start ops r) = Some st" "lwrb.kept ops valid content st blocks es"
    using lwrb.kept_run [OF assms lwrb.kept_init [OF assms(1)]] unfolding clb_start_def by blast
  then show ?thesis
    by (cases st) (auto simp: lwrb.kept_def [OF assms(1)] intro!: exI [of _ "block_entries blocks @ es"])
qed

text \<open>A sync entry and a frame entry with one data byte.\<close>

definition sample_sync :: bytes where
  "sample_sync = [2, 3, 11, 0, 0, 0, 0, 0, 0, 0, 0]"

definition sample_frame :: bytes where
  "sample_frame = [1, 3, 15, 9, 0, 0, 0, 0x23, 1, 0, 0, 1, 1, 1, 0xAB]"

definition sample_ring :: stub_ring where
  "sample_ring = \<lparr>ring_size = 0, ring_start = 0, ring_bytes = []\<rparr>"

lemma sample_entries: "slot_entry sample_sync" "slot_entry sample_frame" "entry_ok sample_sync" "entry_ok sample_frame"
  by (simp_all add: slot_entry_def entry_ok_def sample_sync_def sample_frame_def)

theorem log_blocks_lossless_witness:
  "\<exists>s acc out pending. clb_run stub_lwrb [AddEntry sample_sync, AddEntry sample_frame, FillBlock, StoreBlock True]
      (clb_start stub_lwrb sample_ring) = Some (s, acc, out) \<and>
    acc = concat (map entries_of_block out) @ pending \<and>
    (\<forall>b \<in> set out. length b = 65536 \<and> block_entry_count b = of_nat (length (entries_of_block b))) \<and>
    CanLogBuffer_FrameCount1 (clb_counters s) = of_nat (frames acc) \<and>
    CanLogBuffer_FrameCount2 (clb_counters s) = of_nat (frames (concat (map entries_of_block out)))"
  by (rule log_blocks_lossless [OF stub_lwrb.lwrb_axioms]) (simp add: op_ok_def sample_entries)

text \<open>
  A flush leaves nothing behind: whatever happened before, one stored block, a padding
  of the open block and seven more stored blocks put every accepted entry on the card, in the order
  of acceptance.
\<close>

theorem log_flush_complete:
  assumes "lwrb ops valid content" "list_all (op_ok entry_ok) xs"
  shows "\<exists>s acc out. clb_run ops (xs @ [StoreBlock True, FillBlock] @ replicate 7 (StoreBlock True)) (clb_start ops r) =
      Some (s, acc, out) \<and> concat (map entries_of_block out) = acc \<and> lwrb_get_full ops (Rb1 s) = 0"
proof -
  obtain st blocks es where run: "clb_run ops xs (clb_start ops r) = Some st" and k: "lwrb.kept ops valid content st blocks es"
    using lwrb.kept_run [OF assms lwrb.kept_init [OF assms(1)]] unfolding clb_start_def by blast
  obtain s acc out where fin: "clb_run ops ([StoreBlock True, FillBlock] @ replicate 7 (StoreBlock True)) st = Some (s, acc, out)"
      "lwrb.kept ops valid content (s, acc, out) [] []"
    using lwrb.flush_all [OF assms(1) k] by (metis prod.collapse)
  then have "clb_run ops (xs @ [StoreBlock True, FillBlock] @ replicate 7 (StoreBlock True)) (clb_start ops r) = Some (s, acc, out)"
    by (simp only: clb_run_append run option.case)
  moreover have "lwrb_get_full ops (Rb1 s) = 0"
    using fin(2) lwrb.full [OF assms(1)]
    by (simp add: lwrb.kept_def [OF assms(1)] lwrb.holds_def [OF assms(1)] open_bytes_def)
  ultimately show ?thesis using fin(2) by (simp add: lwrb.kept_def [OF assms(1)])
qed

theorem log_flush_complete_witness:
  "\<exists>s acc out. clb_run stub_lwrb ([AddEntry sample_sync, AddEntry sample_frame] @ [StoreBlock True, FillBlock] @
      replicate 7 (StoreBlock True)) (clb_start stub_lwrb sample_ring) = Some (s, acc, out) \<and>
    concat (map entries_of_block out) = acc \<and> lwrb_get_full stub_lwrb (Rb1 s) = 0"
  by (rule log_flush_complete [OF stub_lwrb.lwrb_axioms]) (simp add: op_ok_def sample_entries)

text \<open>
  The drop counter cannot see a loss: it is the backlog of frames beyond \<open>BLOCK_SIZE\<close>, a size
  in bytes, but the ring holds fewer frames than that, so it is 0 after every history with entries
  the logger makes, whatever was refused; a refused entry leaves the buffer with all its counters
  as it was.
\<close>

theorem drop_counter_never_moves:
  assumes "lwrb ops valid content" "list_all (op_ok slot_entry) xs" "slot_entry e"
  shows "\<exists>s acc out. clb_run ops xs (clb_start ops r) = Some (s, acc, out) \<and>
    CanLogBuffer_FrameDropCount (clb_counters s) = 0 \<and>
    (\<exists>s'. CanLogBuffer_AddEntry ops e (of_nat (length e)) s \<in>
      {Some (CLB_E_OK, s'), Some (CLB_E_BUFFER_FULL, s)})"
proof -
  have "lwrb.no_drops (clb_start ops r)"
    by (simp add: lwrb.no_drops_def [OF assms(1)] clb_start_def clb_boot_def zero_counters_def
        CanLogBuffer_Init_def case_prod_beta)
  then obtain s acc out blocks es where
    run: "clb_run ops xs (clb_start ops r) = Some (s, acc, out)" "lwrb.kept ops valid content (s, acc, out) blocks es"
      "lwrb.no_drops (s, acc, out)"
    using lwrb.no_drops_run [OF assms(1,2) lwrb.kept_init [OF assms(1)]]
    unfolding clb_start_def by (metis prod.collapse)
  have h: "lwrb.holds ops valid content (Rb1 s) blocks es" using run(2) by (simp add: lwrb.kept_def [OF assms(1)])
  note e = slot_entry_ok [OF assms(3)]
  have "\<exists>s'. CanLogBuffer_AddEntry ops e (of_nat (length e)) s \<in> {Some (CLB_E_OK, s'), Some (CLB_E_BUFFER_FULL, s)}"
  proof (cases "ring_refuses blocks es e")
    case True
    then show ?thesis using lwrb.add_refused [OF assms(1) h e] by simp
  next
    case False
    then show ?thesis using lwrb.add_accepted [OF assms(1) h e] by auto
  qed
  then show ?thesis using run by (simp add: lwrb.no_drops_def [OF assms(1)])
qed

theorem drop_counter_never_moves_witness:
  "\<exists>s acc out. clb_run stub_lwrb [AddEntry sample_frame, StoreBlock False] (clb_start stub_lwrb sample_ring) = Some (s, acc, out) \<and>
    CanLogBuffer_FrameDropCount (clb_counters s) = 0 \<and>
    (\<exists>s'. CanLogBuffer_AddEntry stub_lwrb sample_frame (of_nat (length sample_frame)) s \<in>
      {Some (CLB_E_OK, s'), Some (CLB_E_BUFFER_FULL, s)})"
  by (rule drop_counter_never_moves [OF stub_lwrb.lwrb_axioms]) (simp_all add: op_ok_def sample_entries)

end
