(* ===== verification/CommTypes.thy ===== *)
theory CommTypes
  imports Encoding
begin

text \<open>
  \<open>platform/drivers/comm/CommHandle/CommTypes.h\<close>: the types the CAN components share, the result
  codes, the driver states and the received frame with the access to its packed length and flags.
\<close>

datatype comm_status = COMM_SUCCESS | COMM_ERROR | COMM_TIMEOUT | COMM_INVALID_PARAMETER | COMM_INVALID_STATE |
  COMM_NULL_POINTER | COMM_NO_RESSOURCES | COMM_TX_FULL | COMM_RX_FULL | COMM_NO_TX_SLOT | COMM_NO_RX_SLOT

datatype CommDriverStatesType = DRIVER_STATE_UNINITIALIZED | DRIVER_STATE_INITIALIZED | DRIVER_STATE_STOPPED |
  DRIVER_STATE_STARTED | DRIVER_STATE_OFF

record FDCAN_ClassicFrameType =
  frame_id :: u32
  frame_timestamp :: u32
  rx_sequence :: u32
  dlc_dl_flags :: u16
  frame_channel :: u8
  frame_data :: bytes

text \<open>\<open>sizeof(FDCAN_ClassicFrameType)\<close> on the target.\<close>

definition FRAME_SIZE :: u32 where [simp]: "FRAME_SIZE = 24"

definition zero_frame :: FDCAN_ClassicFrameType where
  "zero_frame = \<lparr>frame_id = 0, frame_timestamp = 0, rx_sequence = 0, dlc_dl_flags = 0,
     frame_channel = 0, frame_data = replicate 8 0\<rparr>"

section \<open>The packed length and flags\<close>

definition set_field :: "nat \<Rightarrow> u16 \<Rightarrow> u32 \<Rightarrow> u16 \<Rightarrow> u16" where
  "set_field pos msk val flags = (flags AND NOT msk) OR (ucast (push_bit pos val) AND msk)"

definition get_field :: "nat \<Rightarrow> u16 \<Rightarrow> u16 \<Rightarrow> u16" where
  "get_field pos msk flags = drop_bit pos (flags AND msk)"

definition FDCAN_SET_DLC :: "u32 \<Rightarrow> u16 \<Rightarrow> u16" where "FDCAN_SET_DLC = set_field 0 0x000F"
definition FDCAN_SET_DATA_LEN :: "u32 \<Rightarrow> u16 \<Rightarrow> u16" where "FDCAN_SET_DATA_LEN = set_field 4 0x07F0"
definition FDCAN_SET_FDF :: "u32 \<Rightarrow> u16 \<Rightarrow> u16" where "FDCAN_SET_FDF = set_field 11 0x0800"
definition FDCAN_SET_BRS :: "u32 \<Rightarrow> u16 \<Rightarrow> u16" where "FDCAN_SET_BRS = set_field 12 0x1000"
definition FDCAN_SET_ESI :: "u32 \<Rightarrow> u16 \<Rightarrow> u16" where "FDCAN_SET_ESI = set_field 13 0x2000"
definition FDCAN_SET_IDE :: "u32 \<Rightarrow> u16 \<Rightarrow> u16" where "FDCAN_SET_IDE = set_field 14 0x4000"

definition FDCAN_GET_DLC :: "u16 \<Rightarrow> u16" where "FDCAN_GET_DLC = get_field 0 0x000F"
definition FDCAN_GET_DATA_LEN :: "u16 \<Rightarrow> u16" where "FDCAN_GET_DATA_LEN = get_field 4 0x07F0"
definition FDCAN_GET_FDF :: "u16 \<Rightarrow> u16" where "FDCAN_GET_FDF = get_field 11 0x0800"
definition FDCAN_GET_BRS :: "u16 \<Rightarrow> u16" where "FDCAN_GET_BRS = get_field 12 0x1000"
definition FDCAN_GET_ESI :: "u16 \<Rightarrow> u16" where "FDCAN_GET_ESI = get_field 13 0x2000"
definition FDCAN_GET_IDE :: "u16 \<Rightarrow> u16" where "FDCAN_GET_IDE = get_field 14 0x4000"

lemmas set_defs = FDCAN_SET_DLC_def FDCAN_SET_DATA_LEN_def FDCAN_SET_FDF_def FDCAN_SET_BRS_def FDCAN_SET_ESI_def FDCAN_SET_IDE_def
lemmas get_defs = FDCAN_GET_DLC_def FDCAN_GET_DATA_LEN_def FDCAN_GET_FDF_def FDCAN_GET_BRS_def FDCAN_GET_ESI_def FDCAN_GET_IDE_def

text \<open>A field reads back what was put into it, and a field with another mask what it was.\<close>

lemma field_read_back:
  assumes "msk = push_bit pos (mask m)" "pos + m \<le> 16"
  shows "get_field pos msk (set_field pos msk v f) = take_bit m (ucast v)"
  using assms(2) unfolding assms(1) get_field_def set_field_def
  by (intro bit_word_eqI) (auto simp: bit_simps)

lemma field_other: "msk AND msk' = 0 \<Longrightarrow> get_field pos msk (set_field pos' msk' v f) = get_field pos msk f"
proof -
  assume "msk AND msk' = 0"
  then have "\<not> (bit msk n \<and> bit msk' n)" for n by (metis bit_and_iff bit_0_eq bot_apply bot_bool_def)
  then have "(set_field pos' msk' v f) AND msk = f AND msk"
    unfolding set_field_def by (intro bit_word_eqI) (auto simp: bit_simps)
  then show ?thesis by (simp add: get_field_def)
qed

lemma field_masks:
  "(0x000F :: u16) = push_bit 0 (mask 4)" "(0x07F0 :: u16) = push_bit 4 (mask 7)" "(0x0800 :: u16) = push_bit 11 (mask 1)"
  "(0x1000 :: u16) = push_bit 12 (mask 1)" "(0x2000 :: u16) = push_bit 13 (mask 1)" "(0x4000 :: u16) = push_bit 14 (mask 1)"
  by (simp_all add: mask_eq_exp_minus_1)

lemma fields_read_back [simp]:
  "FDCAN_GET_DLC (FDCAN_SET_DLC v f) = take_bit 4 (ucast v)"
  "FDCAN_GET_DATA_LEN (FDCAN_SET_DATA_LEN v f) = take_bit 7 (ucast v)"
  "FDCAN_GET_FDF (FDCAN_SET_FDF v f) = take_bit 1 (ucast v)"
  "FDCAN_GET_BRS (FDCAN_SET_BRS v f) = take_bit 1 (ucast v)"
  "FDCAN_GET_ESI (FDCAN_SET_ESI v f) = take_bit 1 (ucast v)"
  "FDCAN_GET_IDE (FDCAN_SET_IDE v f) = take_bit 1 (ucast v)"
  unfolding set_defs get_defs by (rule field_read_back [OF field_masks(1)] field_read_back [OF field_masks(2)]
    field_read_back [OF field_masks(3)] field_read_back [OF field_masks(4)] field_read_back [OF field_masks(5)]
    field_read_back [OF field_masks(6)], simp)+

lemma fields_other [simp]:
  "FDCAN_GET_DLC (FDCAN_SET_DATA_LEN v f) = FDCAN_GET_DLC f"
  "FDCAN_GET_FDF (FDCAN_SET_DLC v f) = FDCAN_GET_FDF f" "FDCAN_GET_FDF (FDCAN_SET_DATA_LEN v f) = FDCAN_GET_FDF f"
  "FDCAN_GET_BRS (FDCAN_SET_DLC v f) = FDCAN_GET_BRS f" "FDCAN_GET_BRS (FDCAN_SET_DATA_LEN v f) = FDCAN_GET_BRS f"
  "FDCAN_GET_BRS (FDCAN_SET_FDF v f) = FDCAN_GET_BRS f" "FDCAN_GET_BRS (FDCAN_SET_ESI v f) = FDCAN_GET_BRS f"
  "FDCAN_GET_BRS (FDCAN_SET_IDE v f) = FDCAN_GET_BRS f"
  "FDCAN_GET_ESI (FDCAN_SET_DLC v f) = FDCAN_GET_ESI f" "FDCAN_GET_ESI (FDCAN_SET_DATA_LEN v f) = FDCAN_GET_ESI f"
  "FDCAN_GET_ESI (FDCAN_SET_FDF v f) = FDCAN_GET_ESI f" "FDCAN_GET_ESI (FDCAN_SET_IDE v f) = FDCAN_GET_ESI f"
  "FDCAN_GET_IDE (FDCAN_SET_DLC v f) = FDCAN_GET_IDE f" "FDCAN_GET_IDE (FDCAN_SET_DATA_LEN v f) = FDCAN_GET_IDE f"
  "FDCAN_GET_IDE (FDCAN_SET_FDF v f) = FDCAN_GET_IDE f"
  unfolding set_defs get_defs by (rule field_other, simp)+

end
