(* ===== verification/FdcanMsgPort.thy ===== *)
theory FdcanMsgPort
  imports CommTypes RuntimeChecks "HOL-Library.Sublist"
begin

text \<open>
  \<open>platform/ports/fdcan_msg_port.c\<close>: the hand-over of received CAN frames from the bridge task
  to the logging task.  Frames are collected in pages of ten; full pages go through a FreeRTOS
  message buffer, whose functions are the record \<open>mbuf_ops\<close> and whose documented behaviour is the
  locale \<open>message_buffer\<close>.  The file-scope and static variables are the record \<open>port_state\<close>.
  A flush is also given as its two steps, the sending and the clearing of the page, between which
  the bridge task can run.
\<close>

section \<open>Data\<close>

record PageType =
  page_count :: u32
  page_frames :: "FDCAN_ClassicFrameType list"

definition CAN_FRAME_PAGE_MAX_ENTRIES :: u32 where [simp]: "CAN_FRAME_PAGE_MAX_ENTRIES = 10"
definition CAN_FRAME_BUFFER_ELEMENTS_COUNT :: u32 where [simp]: "CAN_FRAME_BUFFER_ELEMENTS_COUNT = 150"

text \<open>\<open>sizeof(PageType)\<close> on the target, and the size of the length word FreeRTOS stores with each
  message.\<close>

definition PAGE_SIZE :: u32 where [simp]: "PAGE_SIZE = 244"
definition CAN_FRAME_BUFFER_ENTRY_SIZE :: u32 where [simp]: "CAN_FRAME_BUFFER_ENTRY_SIZE = PAGE_SIZE + 4"
definition CAN_FRAME_BUFFER_SIZE :: u32 where [simp]:
  "CAN_FRAME_BUFFER_SIZE = CAN_FRAME_BUFFER_ELEMENTS_COUNT * CAN_FRAME_BUFFER_ENTRY_SIZE + 1"

text \<open>The message buffer functions the code calls: the ISR variant of send gives up at once, the
  task variant is called with \<open>portMAX_DELAY\<close> and answers \<open>None\<close> when it never returns.  A message
  is the bytes of a page, given here as the page.\<close>

record 'b mbuf_ops =
  xMessageBufferCreateStatic :: "'b \<Rightarrow> u32 \<Rightarrow> 'b"
  xMessageBufferSendFromISR :: "'b \<Rightarrow> PageType \<Rightarrow> u32 \<Rightarrow> u32 \<times> 'b"
  xMessageBufferSend :: "'b \<Rightarrow> PageType \<Rightarrow> u32 \<Rightarrow> (u32 \<times> 'b) option"
  xMessageBufferReceive :: "'b \<Rightarrow> u32 \<Rightarrow> u32 \<Rightarrow> u32 \<times> PageType option \<times> 'b"
  xMessageBufferSpacesAvailable :: "'b \<Rightarrow> u32"
  handle_null :: "'b \<Rightarrow> bool"

record 'b port_state =
  CanFrameBuffer :: 'b
  CanFrameBufferHighWaterBytes :: u32
  PageReceive :: PageType
  IndexRead :: u32
  PageRead :: PageType
  port_counters :: counters
  port_error_led :: bool

section \<open>Operations\<close>

definition fdcan_msg_port_update_highwater :: "'b mbuf_ops \<Rightarrow> 'b port_state \<Rightarrow> 'b port_state" where
  "fdcan_msg_port_update_highwater ops s =
     (if handle_null ops (CanFrameBuffer s) then s
      else
        let capacity = (if CAN_FRAME_BUFFER_SIZE > 0 then CAN_FRAME_BUFFER_SIZE - 1 else 0);
            space = xMessageBufferSpacesAvailable ops (CanFrameBuffer s)
        in if space > capacity then s
           else
             let used = capacity - space
             in if used > CanFrameBufferHighWaterBytes s
                then s\<lparr>CanFrameBufferHighWaterBytes := used\<rparr> else s)"

definition AddEntryToPage :: "PageType \<Rightarrow> FDCAN_ClassicFrameType \<Rightarrow> PageType" where
  "AddEntryToPage page frame =
     page\<lparr>page_frames := (page_frames page)[unat (page_count page) := frame],
          page_count := page_count page + 1\<rparr>"

definition CanAbs_ErrorHandler :: "'b port_state \<Rightarrow> 'b port_state" where
  "CanAbs_ErrorHandler s = s\<lparr>port_error_led := True\<rparr>"

definition count_drops :: "u64 \<Rightarrow> 'b port_state \<Rightarrow> 'b port_state" where
  "count_drops n s = s\<lparr>port_counters := (port_counters s)\<lparr>FcdanMsgPort_FrameDropCount :=
     FcdanMsgPort_FrameDropCount (port_counters s) + n\<rparr>\<rparr>"

definition add_to_page :: "FDCAN_ClassicFrameType \<Rightarrow> 'b port_state \<Rightarrow> 'b port_state" where
  "add_to_page frame s =
     (if page_count (PageReceive s) < CAN_FRAME_PAGE_MAX_ENTRIES
      then s\<lparr>PageReceive := AddEntryToPage (PageReceive s) frame\<rparr> else s)"

definition fdcan_msg_port_receive ::
  "'b mbuf_ops \<Rightarrow> FDCAN_ClassicFrameType \<Rightarrow> 'b port_state \<Rightarrow> 'b port_state" where
  "fdcan_msg_port_receive ops frame s =
     (if page_count (PageReceive s) \<ge> CAN_FRAME_PAGE_MAX_ENTRIES then
        let (bytes_sent, b) = xMessageBufferSendFromISR ops (CanFrameBuffer s) (PageReceive s) PAGE_SIZE;
            s = s\<lparr>CanFrameBuffer := b\<rparr>
        in if bytes_sent > 0 then
             add_to_page frame (fdcan_msg_port_update_highwater ops
               (s\<lparr>PageReceive := (PageReceive s)\<lparr>page_count := 0\<rparr>\<rparr>))
           else CanAbs_ErrorHandler (count_drops 1 s)
      else add_to_page frame s)"

definition fdcan_msg_port_init :: "'b mbuf_ops \<Rightarrow> 'b port_state \<Rightarrow> 'b port_state" where
  "fdcan_msg_port_init ops s =
     s\<lparr>port_counters := (port_counters s)\<lparr>FcdanMsgPort_FrameDropCount := 0\<rparr>,
       CanFrameBufferHighWaterBytes := 0,
       CanFrameBuffer := xMessageBufferCreateStatic ops (CanFrameBuffer s) CAN_FRAME_BUFFER_SIZE\<rparr>"

text \<open>The frame the caller finds at \<open>*dst\<close>, when the pointer is set, and the returned size.\<close>

definition fdcan_msg_port_read ::
  "'b mbuf_ops \<Rightarrow> u32 \<Rightarrow> 'b port_state \<Rightarrow> u32 \<times> FDCAN_ClassicFrameType option \<times> 'b port_state" where
  "fdcan_msg_port_read ops milliSeconds s =
     (let (BytesReceived, s) =
        (if IndexRead s = 0 then
           let (n, page, b) = xMessageBufferReceive ops (CanFrameBuffer s) PAGE_SIZE milliSeconds;
               s = s\<lparr>CanFrameBuffer := b,
                     PageRead := (case page of Some p \<Rightarrow> p | None \<Rightarrow> PageRead s)\<rparr>
           in (n, if n > 0
                  then fdcan_msg_port_update_highwater ops (s\<lparr>IndexRead := page_count (PageRead s)\<rparr>)
                  else s\<lparr>IndexRead := 0\<rparr>)
         else (0, s))
      in if IndexRead s > 0
         then (FRAME_SIZE,
               Some (page_frames (PageRead s) ! unat (page_count (PageRead s) - IndexRead s)),
               s\<lparr>IndexRead := IndexRead s - 1\<rparr>)
         else (BytesReceived, None, s))"

text \<open>The two steps of a flush: the page is sent, then its count is cleared.  \<open>None\<close> is a call
  that never returns; the flag says that the second step follows.\<close>

definition flush_send :: "'b mbuf_ops \<Rightarrow> 'b port_state \<Rightarrow> (bool \<times> 'b port_state) option" where
  "flush_send ops s =
     (if page_count (PageReceive s) > 0 then
        (case xMessageBufferSend ops (CanFrameBuffer s) (PageReceive s) PAGE_SIZE of
           None \<Rightarrow> None
         | Some (bytes_sent, b) \<Rightarrow>
             let s = s\<lparr>CanFrameBuffer := b\<rparr>
             in if bytes_sent > 0 then Some (True, s)
                else Some (False, CanAbs_ErrorHandler (count_drops (ucast (page_count (PageReceive s))) s)))
      else Some (False, s))"

definition flush_clear :: "'b mbuf_ops \<Rightarrow> 'b port_state \<Rightarrow> 'b port_state" where
  "flush_clear ops s =
     fdcan_msg_port_update_highwater ops (s\<lparr>PageReceive := (PageReceive s)\<lparr>page_count := 0\<rparr>\<rparr>)"

definition fdcan_msg_port_flush :: "'b mbuf_ops \<Rightarrow> 'b port_state \<Rightarrow> 'b port_state option" where
  "fdcan_msg_port_flush ops s =
     (case flush_send ops s of None \<Rightarrow> None
      | Some (go, s) \<Rightarrow> Some (if go then flush_clear ops s else s))"

definition fdcan_msg_port_get_highwater_bytes :: "bool \<Rightarrow> 'b port_state \<Rightarrow> u8 \<times> u32 option" where
  "fdcan_msg_port_get_highwater_bytes given s =
     (if \<not> given then (1, None) else (0, Some (CanFrameBufferHighWaterBytes s)))"

definition fdcan_msg_port_get_capacity_bytes :: u32 where
  "fdcan_msg_port_get_capacity_bytes = (if CAN_FRAME_BUFFER_SIZE > 0 then CAN_FRAME_BUFFER_SIZE - 1 else 0)"

text \<open>The variables at start-up.\<close>

definition port_boot :: "'b \<Rightarrow> 'b port_state" where
  "port_boot b =
     \<lparr>CanFrameBuffer = b, CanFrameBufferHighWaterBytes = 0,
      PageReceive = \<lparr>page_count = 0, page_frames = replicate 10 zero_frame\<rparr>,
      IndexRead = 0, PageRead = \<lparr>page_count = 0, page_frames = replicate 10 zero_frame\<rparr>,
      port_counters = zero_counters, port_error_led = False\<rparr>"

section \<open>The contract of the message buffer\<close>

text \<open>A message buffer of \<open>CAN_FRAME_BUFFER_SIZE\<close> bytes holds 150 pages with their length words.
  \<open>queue b\<close> is the list of waiting messages.\<close>

locale message_buffer =
  fixes ops :: "'b mbuf_ops" and valid :: "'b \<Rightarrow> bool" and queue :: "'b \<Rightarrow> PageType list"
  assumes create: "valid (xMessageBufferCreateStatic ops b 37201) \<and> queue (xMessageBufferCreateStatic ops b 37201) = []"
    and bounded: "valid b \<Longrightarrow> length (queue b) \<le> 150"
    and live: "valid b \<Longrightarrow> \<not> handle_null ops b"
    and spaces: "valid b \<Longrightarrow> xMessageBufferSpacesAvailable ops b = of_nat (37200 - 248 * length (queue b))"
    and send_isr: "valid b \<Longrightarrow> \<exists>b'. xMessageBufferSendFromISR ops b p 244 =
      (if length (queue b) < 150 then 244 else 0, b') \<and> valid b' \<and>
      queue b' = (if length (queue b) < 150 then queue b @ [p] else queue b)"
    and send_wait: "valid b \<Longrightarrow> length (queue b) < 150 \<Longrightarrow> \<exists>b'. xMessageBufferSend ops b p 244 = Some (244, b') \<and>
      valid b' \<and> queue b' = queue b @ [p]"
    and send_blocks: "valid b \<Longrightarrow> length (queue b) = 150 \<Longrightarrow> xMessageBufferSend ops b p 244 = None"
    and receive_none: "valid b \<Longrightarrow> queue b = [] \<Longrightarrow> \<exists>b'. xMessageBufferReceive ops b 244 t = (0, None, b') \<and>
      valid b' \<and> queue b' = []"
    and receive_some: "valid b \<Longrightarrow> queue b = p # ps \<Longrightarrow> \<exists>b'. xMessageBufferReceive ops b 244 t = (244, Some p, b') \<and>
      valid b' \<and> queue b' = ps"

section \<open>Histories\<close>

text \<open>What the two tasks do with the port, one call after the other; the state carries the frames
  received and the frames the reader got.  A flush that never returns ends the history.\<close>

datatype port_op = Receive FDCAN_ClassicFrameType | Read u32 | Flush

fun port_step :: "'b mbuf_ops \<Rightarrow> port_op \<Rightarrow>
    'b port_state \<times> FDCAN_ClassicFrameType list \<times> FDCAN_ClassicFrameType list \<Rightarrow>
    ('b port_state \<times> FDCAN_ClassicFrameType list \<times> FDCAN_ClassicFrameType list) option" where
  "port_step ops (Receive f) (s, rx, out) = Some (fdcan_msg_port_receive ops f s, rx @ [f], out)"
| "port_step ops (Read t) (s, rx, out) =
     (let (n, f, s') = fdcan_msg_port_read ops t s
      in Some (s', rx, if n > 0 then out @ (case f of Some f \<Rightarrow> [f] | None \<Rightarrow> []) else out))"
| "port_step ops Flush (s, rx, out) =
     (case fdcan_msg_port_flush ops s of None \<Rightarrow> None | Some s' \<Rightarrow> Some (s', rx, out))"

fun port_run :: "'b mbuf_ops \<Rightarrow> port_op list \<Rightarrow>
    'b port_state \<times> FDCAN_ClassicFrameType list \<times> FDCAN_ClassicFrameType list \<Rightarrow>
    ('b port_state \<times> FDCAN_ClassicFrameType list \<times> FDCAN_ClassicFrameType list) option" where
  "port_run ops [] st = Some st"
| "port_run ops (x # xs) st = (case port_step ops x st of None \<Rightarrow> None | Some st \<Rightarrow> port_run ops xs st)"

definition port_start :: "'b mbuf_ops \<Rightarrow> 'b \<Rightarrow>
    'b port_state \<times> FDCAN_ClassicFrameType list \<times> FDCAN_ClassicFrameType list" where
  "port_start ops b = (fdcan_msg_port_init ops (port_boot b), [], [])"

text \<open>The frames on a page, those of the page being read that are still due, and everything that
  waits in the port, oldest first.\<close>

definition page_contents :: "PageType \<Rightarrow> FDCAN_ClassicFrameType list" where
  "page_contents p = take (unat (page_count p)) (page_frames p)"

definition unread :: "'b port_state \<Rightarrow> FDCAN_ClassicFrameType list" where
  "unread s = drop (unat (page_count (PageRead s)) - unat (IndexRead s)) (page_contents (PageRead s))"

definition waiting :: "('b \<Rightarrow> PageType list) \<Rightarrow> 'b port_state \<Rightarrow> FDCAN_ClassicFrameType list" where
  "waiting q s = unread s @ concat (map page_contents (q (CanFrameBuffer s))) @ page_contents (PageReceive s)"

definition page_ok :: "PageType \<Rightarrow> bool" where
  "page_ok p \<longleftrightarrow> unat (page_count p) \<le> 10 \<and> length (page_frames p) = 10"

text \<open>Order is kept and every missing frame is counted.\<close>

definition port_good :: "('b \<Rightarrow> PageType list) \<Rightarrow>
    'b port_state \<times> FDCAN_ClassicFrameType list \<times> FDCAN_ClassicFrameType list \<Rightarrow> bool" where
  "port_good q st = (case st of (s, rx, out) \<Rightarrow>
     subseq (out @ waiting q s) rx \<and>
     FcdanMsgPort_FrameDropCount (port_counters s) = of_nat (length rx - length (out @ waiting q s)))"

context message_buffer
begin

definition port_inv :: "'b port_state \<Rightarrow> bool" where
  "port_inv s \<longleftrightarrow> valid (CanFrameBuffer s) \<and> page_ok (PageReceive s) \<and> page_ok (PageRead s) \<and>
     IndexRead s \<le> page_count (PageRead s) \<and>
     list_all (\<lambda>p. page_ok p \<and> 0 < page_count p) (queue (CanFrameBuffer s))"

lemma update_highwater: "\<exists>w. fdcan_msg_port_update_highwater ops s = s\<lparr>CanFrameBufferHighWaterBytes := w\<rparr>"
  by (auto simp: fdcan_msg_port_update_highwater_def Let_def
      intro: exI [of _ "CanFrameBufferHighWaterBytes s"])

lemma port_inv_highwater [simp]: "port_inv (s\<lparr>CanFrameBufferHighWaterBytes := w\<rparr>) \<longleftrightarrow> port_inv s"
  by (simp add: port_inv_def)

lemma waiting_highwater [simp]: "waiting q (s\<lparr>CanFrameBufferHighWaterBytes := w\<rparr>) = waiting q s"
  by (simp add: waiting_def unread_def)

lemma page_add:
  assumes "page_ok p" "page_count p < 10"
  shows "page_ok (AddEntryToPage p f)" "page_contents (AddEntryToPage p f) = page_contents p @ [f]"
    "0 < page_count (AddEntryToPage p f)"
proof -
  have u: "unat (page_count p + 1) = unat (page_count p) + 1" "unat (page_count p) < 10"
    using assms(2) by (auto simp: unat_Suc_small [of _ 10] word_less_nat_alt)
  then show "page_ok (AddEntryToPage p f)" "0 < page_count (AddEntryToPage p f)"
    using assms by (auto simp: page_ok_def AddEntryToPage_def word_less_nat_alt)
  show "page_contents (AddEntryToPage p f) = page_contents p @ [f]"
    using u assms by (simp add: page_contents_def AddEntryToPage_def page_ok_def take_Suc_conv_app_nth)
qed

lemma add_to_page:
  assumes "port_inv s" "page_count (PageReceive s) < 10"
  shows "port_inv (add_to_page f s)" "waiting queue (add_to_page f s) = waiting queue s @ [f]"
    "port_counters (add_to_page f s) = port_counters s"
  using assms page_add [of "PageReceive s" f] by (simp_all add: add_to_page_def port_inv_def waiting_def unread_def)

lemma page_cleared [simp]: "page_contents (p\<lparr>page_count := 0\<rparr>) = []" "page_ok (p\<lparr>page_count := 0\<rparr>) \<longleftrightarrow> length (page_frames p) = 10"
  by (simp_all add: page_contents_def page_ok_def)

lemma receive_step:
  assumes inv: "port_inv s"
  shows "port_inv (fdcan_msg_port_receive ops f s) \<and>
    (waiting queue (fdcan_msg_port_receive ops f s) = waiting queue s @ [f] \<and>
       port_counters (fdcan_msg_port_receive ops f s) = port_counters s \<or>
     waiting queue (fdcan_msg_port_receive ops f s) = waiting queue s \<and>
       FcdanMsgPort_FrameDropCount (port_counters (fdcan_msg_port_receive ops f s)) =
         FcdanMsgPort_FrameDropCount (port_counters s) + 1)"
proof (cases "page_count (PageReceive s) \<ge> 10")
  case False
  then show ?thesis using add_to_page [OF inv, of f] by (simp add: fdcan_msg_port_receive_def)
next
  case True
  obtain b' where b: "xMessageBufferSendFromISR ops (CanFrameBuffer s) (PageReceive s) 244 =
      (if length (queue (CanFrameBuffer s)) < 150 then 244 else 0, b')" "valid b'"
      "queue b' = (if length (queue (CanFrameBuffer s)) < 150 then queue (CanFrameBuffer s) @ [PageReceive s]
        else queue (CanFrameBuffer s))"
    using send_isr inv unfolding port_inv_def by blast
  show ?thesis
  proof (cases "length (queue (CanFrameBuffer s)) < 150")
    case room: True
    define s1 where "s1 = s\<lparr>CanFrameBuffer := b', PageReceive := (PageReceive s)\<lparr>page_count := 0\<rparr>\<rparr>"
    have inv1: "port_inv s1"
      using inv b room True by (auto simp: s1_def port_inv_def page_ok_def word_le_nat_alt word_less_nat_alt)
    have w: "waiting queue s1 = waiting queue s" using b room by (simp add: s1_def waiting_def unread_def)
    obtain w' where "fdcan_msg_port_update_highwater ops s1 = s1\<lparr>CanFrameBufferHighWaterBytes := w'\<rparr>"
      using update_highwater by blast
    then have "fdcan_msg_port_receive ops f s = add_to_page f (s1\<lparr>CanFrameBufferHighWaterBytes := w'\<rparr>)"
      using True b(1) room by (simp add: fdcan_msg_port_receive_def s1_def)
    moreover have "page_count (PageReceive s1) < 10" "port_counters s1 = port_counters s" by (simp_all add: s1_def)
    ultimately show ?thesis using add_to_page [of "s1\<lparr>CanFrameBufferHighWaterBytes := w'\<rparr>" f] inv1 w by simp
  next
    case False
    then show ?thesis using True b inv
      by (simp add: fdcan_msg_port_receive_def Let_def count_drops_def CanAbs_ErrorHandler_def port_inv_def
          waiting_def unread_def)
  qed
qed

lemma unread_pop:
  assumes "page_ok (PageRead s)" "IndexRead s \<le> page_count (PageRead s)" "IndexRead s > 0"
  shows "unread s = page_frames (PageRead s) ! unat (page_count (PageRead s) - IndexRead s) #
    unread (s\<lparr>IndexRead := IndexRead s - 1\<rparr>)"
proof -
  define c i where "c = unat (page_count (PageRead s))" and "i = unat (IndexRead s)"
  have *: "i \<le> c" "0 < i" "c \<le> 10" "length (page_frames (PageRead s)) = 10"
    using assms by (simp_all add: c_def i_def page_ok_def word_le_nat_alt word_less_nat_alt)
  have u: "unat (page_count (PageRead s) - IndexRead s) = c - i" "unat (IndexRead s - 1) = i - 1"
    using * by (simp_all add: c_def i_def unat_sub word_le_nat_alt)
  have "take c (page_frames (PageRead s)) ! (c - i) = page_frames (PageRead s) ! (c - i)" using * by simp
  moreover have "Suc (c - i) = c - (i - 1)" using * by simp
  ultimately show ?thesis
    using * Cons_nth_drop_Suc [of "c - i" "take c (page_frames (PageRead s))"]
    by (simp add: unread_def page_contents_def u c_def [symmetric] i_def [symmetric])
qed

lemma read_due:
  assumes inv: "port_inv s" and i: "IndexRead s > 0"
  shows "\<exists>f. waiting queue s = f # waiting queue (s\<lparr>IndexRead := IndexRead s - 1\<rparr>) \<and>
    page_frames (PageRead s) ! unat (page_count (PageRead s) - IndexRead s) = f \<and>
    port_inv (s\<lparr>IndexRead := IndexRead s - 1\<rparr>)"
proof -
  have "IndexRead s - 1 \<le> IndexRead s" using i by (simp add: word_le_nat_alt word_less_nat_alt unat_sub)
  then have "port_inv (s\<lparr>IndexRead := IndexRead s - 1\<rparr>)"
    using inv order_trans [of "IndexRead s - 1" "IndexRead s"] by (simp add: port_inv_def)
  then show ?thesis using unread_pop [of s] inv i by (simp add: waiting_def port_inv_def)
qed

lemma read_step:
  assumes inv: "port_inv s"
  shows "(\<exists>f s'. fdcan_msg_port_read ops t s = (24, Some f, s') \<and> port_inv s' \<and>
      port_counters s' = port_counters s \<and> waiting queue s = f # waiting queue s') \<or>
    (\<exists>s'. fdcan_msg_port_read ops t s = (0, None, s') \<and> port_inv s' \<and> port_counters s' = port_counters s \<and>
      unread s = [] \<and> queue (CanFrameBuffer s) = [] \<and> waiting queue s' = waiting queue s)"
proof (cases "IndexRead s = 0")
  case False
  then have i: "IndexRead s > 0" by (simp add: word_gt_0)
  then show ?thesis using read_due [OF inv i] by (auto simp: fdcan_msg_port_read_def)
next
  case True
  then have u: "unread s = []" using inv by (simp add: unread_def page_contents_def port_inv_def page_ok_def)
  have v: "valid (CanFrameBuffer s)" using inv by (simp add: port_inv_def)
  show ?thesis
  proof (cases "queue (CanFrameBuffer s)")
    case Nil
    obtain b' where "xMessageBufferReceive ops (CanFrameBuffer s) 244 t = (0, None, b')" "valid b'" "queue b' = []"
      using receive_none [OF v Nil] by blast
    then have "fdcan_msg_port_read ops t s = (0, None, s\<lparr>CanFrameBuffer := b'\<rparr>)" "port_inv (s\<lparr>CanFrameBuffer := b'\<rparr>)"
      "waiting queue (s\<lparr>CanFrameBuffer := b'\<rparr>) = waiting queue s"
      using True inv Nil by (simp_all add: fdcan_msg_port_read_def port_inv_def waiting_def unread_def)
    then show ?thesis using u Nil by auto
  next
    case (Cons p ps)
    obtain b' where b: "xMessageBufferReceive ops (CanFrameBuffer s) 244 t = (244, Some p, b')" "valid b'" "queue b' = ps"
      using receive_some [OF v Cons] by blast
    define s1 where "s1 = s\<lparr>CanFrameBuffer := b', PageRead := p, IndexRead := page_count p\<rparr>"
    have inv1: "port_inv s1" and i1: "IndexRead s1 > 0" using inv Cons b by (simp_all add: s1_def port_inv_def)
    have w1: "waiting queue s1 = waiting queue s"
      using u Cons b by (simp add: waiting_def s1_def) (simp add: unread_def)
    obtain w where hw: "fdcan_msg_port_update_highwater ops s1 = s1\<lparr>CanFrameBufferHighWaterBytes := w\<rparr>"
      using update_highwater by blast
    let ?s2 = "s1\<lparr>CanFrameBufferHighWaterBytes := w\<rparr>"
    obtain f where f: "waiting queue ?s2 = f # waiting queue (?s2\<lparr>IndexRead := IndexRead ?s2 - 1\<rparr>)"
        "page_frames (PageRead ?s2) ! unat (page_count (PageRead ?s2) - IndexRead ?s2) = f"
        "port_inv (?s2\<lparr>IndexRead := IndexRead ?s2 - 1\<rparr>)"
      using read_due [of ?s2] inv1 i1 by auto
    have "fdcan_msg_port_read ops t s = (24, Some f, ?s2\<lparr>IndexRead := IndexRead ?s2 - 1\<rparr>)"
      using True b(1) hw i1 f(2) by (simp add: fdcan_msg_port_read_def s1_def)
    moreover have "port_counters (?s2\<lparr>IndexRead := IndexRead ?s2 - 1\<rparr>) = port_counters s" by (simp add: s1_def)
    ultimately show ?thesis using f w1 by auto
  qed
qed

lemma flush_step:
  assumes inv: "port_inv s"
  shows "fdcan_msg_port_flush ops s = None \<and> length (queue (CanFrameBuffer s)) = 150 \<and> 0 < page_count (PageReceive s) \<or>
    (\<exists>s'. fdcan_msg_port_flush ops s = Some s' \<and> port_inv s' \<and> port_counters s' = port_counters s \<and>
      waiting queue s' = waiting queue s \<and> page_contents (PageReceive s') = [])"
proof -
  have v: "valid (CanFrameBuffer s)" using inv by (simp add: port_inv_def)
  consider "page_count (PageReceive s) = 0"
    | "0 < page_count (PageReceive s)" "length (queue (CanFrameBuffer s)) = 150"
    | "0 < page_count (PageReceive s)" "length (queue (CanFrameBuffer s)) < 150"
    using bounded [OF v] by (cases "page_count (PageReceive s) = 0") (auto simp: le_less word_gt_0)
  then show ?thesis
  proof cases
    case 1
    then show ?thesis using inv by (simp add: fdcan_msg_port_flush_def flush_send_def page_contents_def)
  next
    case 2
    then show ?thesis using send_blocks [OF v] by (simp add: fdcan_msg_port_flush_def flush_send_def)
  next
    case 3
    obtain b' where b: "xMessageBufferSend ops (CanFrameBuffer s) (PageReceive s) 244 = Some (244, b')" "valid b'"
        "queue b' = queue (CanFrameBuffer s) @ [PageReceive s]"
      using send_wait [OF v 3(2)] by blast
    define s1 where "s1 = s\<lparr>CanFrameBuffer := b', PageReceive := (PageReceive s)\<lparr>page_count := 0\<rparr>\<rparr>"
    have "port_inv s1" "waiting queue s1 = waiting queue s"
      using inv b 3 by (auto simp: s1_def port_inv_def waiting_def unread_def page_ok_def)
    moreover obtain w where "fdcan_msg_port_update_highwater ops s1 = s1\<lparr>CanFrameBufferHighWaterBytes := w\<rparr>"
      using update_highwater by blast
    then have "fdcan_msg_port_flush ops s = Some (s1\<lparr>CanFrameBufferHighWaterBytes := w\<rparr>)"
      using 3 b(1) by (simp add: fdcan_msg_port_flush_def flush_send_def flush_clear_def s1_def)
    ultimately show ?thesis by (simp add: s1_def)
  qed
qed

lemma good_step:
  assumes inv: "port_inv s" and g: "port_good queue (s, rx, out)"
  shows "port_step ops x (s, rx, out) = None \<and> x = Flush \<and> length (queue (CanFrameBuffer s)) = 150 \<and>
      0 < page_count (PageReceive s) \<or>
    (\<exists>s' rx' out'. port_step ops x (s, rx, out) = Some (s', rx', out') \<and> port_inv s' \<and>
      port_good queue (s', rx', out'))"
proof -
  have sub: "subseq (out @ waiting queue s) rx"
    and drops: "FcdanMsgPort_FrameDropCount (port_counters s) = of_nat (length rx - length (out @ waiting queue s))"
    using g by (simp_all add: port_good_def)
  have le: "length (out @ waiting queue s) \<le> length rx" using sub by (rule list_emb_length)
  show ?thesis
  proof (cases x)
    case (Receive f)
    let ?s' = "fdcan_msg_port_receive ops f s"
    have r: "port_inv ?s'" and c: "waiting queue ?s' = waiting queue s @ [f] \<and> port_counters ?s' = port_counters s \<or>
        waiting queue ?s' = waiting queue s \<and>
        FcdanMsgPort_FrameDropCount (port_counters ?s') = FcdanMsgPort_FrameDropCount (port_counters s) + 1"
      using receive_step [OF inv] by blast+
    have "port_good queue (?s', rx @ [f], out)"
      using c
    proof
      assume "waiting queue ?s' = waiting queue s @ [f] \<and> port_counters ?s' = port_counters s"
      then show ?thesis using list_emb_append_mono [OF sub, of "[f]" "[f]"] drops by (simp add: port_good_def)
    next
      assume "waiting queue ?s' = waiting queue s \<and>
        FcdanMsgPort_FrameDropCount (port_counters ?s') = FcdanMsgPort_FrameDropCount (port_counters s) + 1"
      then show ?thesis using subseq_rev_drop_many [OF sub, of "[f]"] drops le
        by (simp add: port_good_def Suc_diff_le)
    qed
    then show ?thesis using r by (simp add: Receive)
  next
    case (Read t)
    then show ?thesis using read_step [OF inv, of t] g by (auto simp: port_good_def)
  next
    case Flush
    then show ?thesis using flush_step [OF inv] g by (auto simp: port_good_def)
  qed
qed

lemma good_run:
  "port_inv (fst st) \<Longrightarrow> port_good queue st \<Longrightarrow>
   (\<exists>s rx out. port_run ops xs st = Some (s, rx, out) \<and> port_inv s \<and> port_good queue (s, rx, out)) \<or>
   (\<exists>ys zs s rx out. xs = ys @ Flush # zs \<and> port_run ops ys st = Some (s, rx, out) \<and> port_good queue (s, rx, out) \<and>
      length (queue (CanFrameBuffer s)) = 150 \<and> 0 < page_count (PageReceive s))"
proof (induction xs arbitrary: st)
  case Nil
  then show ?case by (cases st) auto
next
  case (Cons x xs)
  obtain s rx out where st: "st = (s, rx, out)" by (cases st)
  have inv: "port_inv s" and g: "port_good queue (s, rx, out)" using Cons.prems by (simp_all add: st)
  from good_step [OF inv g, of x] show ?case
  proof (elim disjE exE conjE)
    assume "x = Flush" "length (queue (CanFrameBuffer s)) = 150" "0 < page_count (PageReceive s)"
    then show ?thesis using g
      by (intro disjI2 exI [of _ "[]"] exI [of _ xs] exI [of _ s] exI [of _ rx] exI [of _ out]) (simp add: st)
  next
    fix s' rx' out' assume 1: "port_step ops x (s, rx, out) = Some (s', rx', out')" "port_inv s'"
      "port_good queue (s', rx', out')"
    have "port_inv (fst (s', rx', out'))" using 1(2) by simp
    from Cons.IH [OF this 1(3)] consider
        (all) t rx2 out2 where "port_run ops xs (s', rx', out') = Some (t, rx2, out2)" "port_inv t"
          "port_good queue (t, rx2, out2)"
      | (blocked) ys zs t rx2 out2 where "xs = ys @ Flush # zs" "port_run ops ys (s', rx', out') = Some (t, rx2, out2)"
          "port_good queue (t, rx2, out2)" "length (queue (CanFrameBuffer t)) = 150" "0 < page_count (PageReceive t)"
      by blast
    then show ?thesis
    proof cases
      case all
      then show ?thesis using 1(1) by (auto simp: st)
    next
      case blocked
      then show ?thesis using 1(1)
        by (intro disjI2 exI [of _ "x # ys"] exI [of _ zs] exI [of _ t] exI [of _ rx2] exI [of _ out2]) (simp add: st)
    qed
  qed
qed

lemma port_start_inv: "port_inv (fst (port_start ops b))" "port_good queue (port_start ops b)"
  using create [of b]
  by (simp_all add: port_start_def fdcan_msg_port_init_def port_boot_def port_inv_def page_ok_def
      port_good_def waiting_def unread_def page_contents_def)

lemma race:
  assumes inv: "port_inv s" and c: "0 < page_count (PageReceive s)" and room: "length (queue (CanFrameBuffer s)) < 149"
  shows "\<exists>s1. flush_send ops s = Some (True, s1) \<and>
    (let s3 = flush_clear ops (fdcan_msg_port_receive ops f s1) in
       waiting queue s3 = waiting queue s @ (if page_count (PageReceive s) < 10 then [] else page_contents (PageReceive s)) \<and>
       port_counters s3 = port_counters s)"
proof -
  have v: "valid (CanFrameBuffer s)" using inv by (simp add: port_inv_def)
  obtain b' where b: "xMessageBufferSend ops (CanFrameBuffer s) (PageReceive s) 244 = Some (244, b')" "valid b'"
      "queue b' = queue (CanFrameBuffer s) @ [PageReceive s]"
    using send_wait [OF v, of "PageReceive s"] room by auto
  define s1 where "s1 = s\<lparr>CanFrameBuffer := b'\<rparr>"
  have run: "flush_send ops s = Some (True, s1)" using c b(1) by (simp add: flush_send_def s1_def)
  have cl: "waiting queue (flush_clear ops t) = unread t @ concat (map page_contents (queue (CanFrameBuffer t)))"
    "port_counters (flush_clear ops t) = port_counters t" for t
    using update_highwater [of "t\<lparr>PageReceive := (PageReceive t)\<lparr>page_count := 0\<rparr>\<rparr>"]
    by (auto simp: flush_clear_def waiting_def unread_def)
  show ?thesis
  proof (cases "page_count (PageReceive s) < 10")
    case True
    then have "fdcan_msg_port_receive ops f s1 = s1\<lparr>PageReceive := AddEntryToPage (PageReceive s) f\<rparr>"
      by (simp add: fdcan_msg_port_receive_def add_to_page_def s1_def)
    then show ?thesis using run True b(3) by (simp add: cl s1_def) (simp add: waiting_def unread_def)
  next
    case False
    obtain b2 where b2: "xMessageBufferSendFromISR ops b' (PageReceive s) 244 = (244, b2)"
        "queue b2 = queue b' @ [PageReceive s]"
      using send_isr [OF b(2), of "PageReceive s"] room b(3) by auto
    define s2 where "s2 = s1\<lparr>CanFrameBuffer := b2, PageReceive := (PageReceive s)\<lparr>page_count := 0\<rparr>\<rparr>"
    obtain w where "fdcan_msg_port_update_highwater ops s2 = s2\<lparr>CanFrameBufferHighWaterBytes := w\<rparr>"
      using update_highwater by blast
    then have "fdcan_msg_port_receive ops f s1 = add_to_page f (s2\<lparr>CanFrameBufferHighWaterBytes := w\<rparr>)"
      using False b2(1) by (simp add: fdcan_msg_port_receive_def s1_def s2_def not_less)
    then show ?thesis using run False b(3) b2(2)
      by (simp add: cl add_to_page_def s2_def s1_def) (simp add: waiting_def unread_def)
  qed
qed

lemma run_inv:
  "port_inv (fst st) \<Longrightarrow> port_good queue st \<Longrightarrow> port_run ops xs st = Some (s, rx, out) \<Longrightarrow> port_inv s"
proof (induction xs arbitrary: st)
  case (Cons x xs)
  obtain t rx1 out1 where st: "st = (t, rx1, out1)" by (cases st)
  show ?case
    using good_step [of t rx1 out1 x] Cons.prems Cons.IH by (auto simp: st split: option.splits)
qed simp

end

section \<open>A message buffer that keeps the contract\<close>

definition stub_mbuf :: "PageType list mbuf_ops" where
  "stub_mbuf =
    \<lparr>xMessageBufferCreateStatic = (\<lambda>b n. []),
     xMessageBufferSendFromISR = (\<lambda>b p n. if length b < 150 then (n, b @ [p]) else (0, b)),
     xMessageBufferSend = (\<lambda>b p n. if length b < 150 then Some (n, b @ [p]) else None),
     xMessageBufferReceive = (\<lambda>b n t. case b of [] \<Rightarrow> (0, None, []) | p # ps \<Rightarrow> (n, Some p, ps)),
     xMessageBufferSpacesAvailable = (\<lambda>b. of_nat (37200 - 248 * length b)),
     handle_null = (\<lambda>b. False)\<rparr>"

interpretation stub_mbuf: message_buffer stub_mbuf "\<lambda>b. length b \<le> 150" "\<lambda>b. b"
  by unfold_locales (auto simp: stub_mbuf_def)

section \<open>Properties\<close>

text \<open>
  C22. Frames leave the port in the order they came in, and every missing one is counted:
  after any sequence of receptions, reads and flushes since \<open>fdcan_msg_port_init\<close>, the frames
  read so far followed by those still waiting are a subsequence of the frames received, and
  \<open>FcdanMsgPort_FrameDropCount\<close> is the number of frames that are in neither.  The only call that
  can fail to return is a flush of a non-empty page while 150 pages wait in the message buffer; its
  caller is the only reader, so it then waits forever.
\<close>

theorem port_keeps_order:
  assumes "message_buffer ops valid queue"
  shows "(\<exists>s rx out. port_run ops xs (port_start ops b) = Some (s, rx, out) \<and> port_good queue (s, rx, out)) \<or>
    (\<exists>ys zs s rx out. xs = ys @ Flush # zs \<and> port_run ops ys (port_start ops b) = Some (s, rx, out) \<and>
      port_good queue (s, rx, out) \<and> length (queue (CanFrameBuffer s)) = 150 \<and> 0 < page_count (PageReceive s))"
  using message_buffer.good_run [OF assms message_buffer.port_start_inv [OF assms], of xs b] by blast

theorem port_keeps_order_witness:
  "(\<exists>s rx out. port_run stub_mbuf [Receive zero_frame, Flush, Read 2] (port_start stub_mbuf []) = Some (s, rx, out) \<and>
      port_good (\<lambda>b. b) (s, rx, out)) \<or>
    (\<exists>ys zs s rx out. [Receive zero_frame, Flush, Read 2] = ys @ Flush # zs \<and>
      port_run stub_mbuf ys (port_start stub_mbuf []) = Some (s, rx, out) \<and>
      port_good (\<lambda>b. b) (s, rx, out) \<and> length (CanFrameBuffer s) = 150 \<and> 0 < page_count (PageReceive s))"
  by (rule port_keeps_order [OF stub_mbuf.message_buffer_axioms])

text \<open>
  C27. A flush is not atomic, although the header says it uses a critical section: when the
  bridge task receives a frame between the sending and the clearing of a non-empty page, from any
  state reachable from \<open>fdcan_msg_port_init\<close>, that frame is neither delivered nor counted as dropped,
  and if the page was full its ten frames are queued twice.
\<close>

theorem flush_race_loses_frame:
  assumes "message_buffer ops valid queue" "port_run ops xs (port_start ops b) = Some (s, rx, out)"
    and "0 < page_count (PageReceive s)" "length (queue (CanFrameBuffer s)) < 149"
  shows "\<exists>s1. flush_send ops s = Some (True, s1) \<and>
    (let s3 = flush_clear ops (fdcan_msg_port_receive ops f s1) in
       waiting queue s3 = waiting queue s @ (if page_count (PageReceive s) < 10 then [] else page_contents (PageReceive s)) \<and>
       FcdanMsgPort_FrameDropCount (port_counters s3) = FcdanMsgPort_FrameDropCount (port_counters s))"
proof -
  have "message_buffer.port_inv valid queue s"
    using message_buffer.run_inv [OF assms(1) message_buffer.port_start_inv [OF assms(1)] assms(2)] .
  then show ?thesis using message_buffer.race [OF assms(1) _ assms(3,4), of f] by (auto simp: Let_def)
qed

lemma sample_port:
  "\<exists>s rx out. port_run stub_mbuf [Receive zero_frame] (port_start stub_mbuf []) = Some (s, rx, out) \<and>
    0 < page_count (PageReceive s) \<and> length (CanFrameBuffer s) < 149"
  by (simp add: port_start_def port_boot_def fdcan_msg_port_init_def fdcan_msg_port_receive_def add_to_page_def
      AddEntryToPage_def stub_mbuf_def)

theorem flush_race_loses_frame_witness:
  "\<exists>s s1. flush_send stub_mbuf s = Some (True, s1) \<and>
    (let s3 = flush_clear stub_mbuf (fdcan_msg_port_receive stub_mbuf zero_frame s1) in
       waiting (\<lambda>b. b) s3 = waiting (\<lambda>b. b) s @ (if page_count (PageReceive s) < 10 then [] else page_contents (PageReceive s)) \<and>
       FcdanMsgPort_FrameDropCount (port_counters s3) = FcdanMsgPort_FrameDropCount (port_counters s))"
proof -
  obtain s rx out where "port_run stub_mbuf [Receive zero_frame] (port_start stub_mbuf []) = Some (s, rx, out)"
      "0 < page_count (PageReceive s)" "length (CanFrameBuffer s) < 149"
    using sample_port by blast
  from flush_race_loses_frame [OF stub_mbuf.message_buffer_axioms this, of zero_frame] show ?thesis by blast
qed

end
