(* ===== verification/FileHandler.thy ===== *)
theory FileHandler
  imports ErrorRecorder Encoding
begin

text \<open>
  \<open>app/services/storage/FileHandler.c\<close>: the file operations of the firmware over FatFs.  FatFs is the
  vendored library of \<open>libs/ff15a\<close>; its functions are the record \<open>fatfs_ops\<close>, over the state \<open>'v\<close> of
  the volume and the file object \<open>'f\<close>, and its documented behaviour is the locale \<open>fatfs\<close>.  Errors
  go through the static \<open>ErrorContext\<close> to the recorder of \<open>ErrorRecorder\<close>, as the handler of
  Core0Task0 does.
\<close>

section \<open>FatFs\<close>

type_synonym FRESULT = u32

definition FR_OK :: FRESULT where [simp]: "FR_OK = 0"
definition FR_DISK_ERR :: FRESULT where [simp]: "FR_DISK_ERR = 1"
definition FR_MKFS_ABORTED :: FRESULT where [simp]: "FR_MKFS_ABORTED = 14"
definition FR_INVALID_PARAMETER :: FRESULT where [simp]: "FR_INVALID_PARAMETER = 19"

definition FA_READ :: u32 where [simp]: "FA_READ = 0x01"
definition FA_WRITE :: u32 where [simp]: "FA_WRITE = 0x02"
definition FA_CREATE_ALWAYS :: u32 where [simp]: "FA_CREATE_ALWAYS = 0x08"
definition FA_OPEN_APPEND :: u32 where [simp]: "FA_OPEN_APPEND = 0x30"

text \<open>A write returns how many bytes were taken and a read the bytes it delivered.  \<open>f_mkfs\<close> is called
  with one cluster size and formatting as FAT32, \<open>f_fdisk\<close> with one partition over the whole drive,
  and \<open>read_sector0\<close> is \<open>MMCAdapter_read\<close> of the first sector.  \<open>source_line n\<close> is the value of
  \<open>__LINE__\<close> for the macro call that starts at line \<open>n\<close> of the file.\<close>

record ('v, 'f) fatfs_ops =
  f_mount :: "'v \<Rightarrow> bool \<Rightarrow> FRESULT \<times> 'v"
  f_open :: "'v \<Rightarrow> 'f \<Rightarrow> bytes \<Rightarrow> u32 \<Rightarrow> FRESULT \<times> 'f \<times> 'v"
  f_close :: "'v \<Rightarrow> 'f \<Rightarrow> FRESULT \<times> 'f \<times> 'v"
  f_lseek :: "'v \<Rightarrow> 'f \<Rightarrow> u32 \<Rightarrow> FRESULT \<times> 'f \<times> 'v"
  f_truncate :: "'v \<Rightarrow> 'f \<Rightarrow> FRESULT \<times> 'f \<times> 'v"
  f_sync :: "'v \<Rightarrow> 'f \<Rightarrow> FRESULT \<times> 'f \<times> 'v"
  f_write :: "'v \<Rightarrow> 'f \<Rightarrow> bytes \<Rightarrow> FRESULT \<times> u32 \<times> 'f \<times> 'v"
  f_read :: "'v \<Rightarrow> 'f \<Rightarrow> u32 \<Rightarrow> FRESULT \<times> bytes \<times> 'f \<times> 'v"
  f_tell :: "'f \<Rightarrow> u32"
  f_size :: "'f \<Rightarrow> u32"
  obj_fs_null :: "'f \<Rightarrow> bool"
  fs_wflag :: "'v \<Rightarrow> u8"
  fs_fsi_flag :: "'v \<Rightarrow> u8"
  f_mkfs :: "'v \<Rightarrow> u32 \<Rightarrow> FRESULT \<times> 'v"
  f_fdisk :: "'v \<Rightarrow> FRESULT \<times> 'v"
  read_sector0 :: "'v \<Rightarrow> u8 \<times> bytes"
  source_line :: "nat \<Rightarrow> u16"

section \<open>State\<close>

record 'f FatFsDeviceType =
  readTargetSize :: u32
  dev_file :: 'f
  fflags :: u32
  writeIndex :: u32

record 'v fh_state =
  volume :: 'v
  fh_ErrorContext :: ErrorContextType
  fh_recorder :: recorder
  fh_error_led :: bool

text \<open>A string put into a field of \<open>n\<close> bytes by \<open>snprintf\<close> after \<open>memset\<close>.\<close>

definition c_field :: "nat \<Rightarrow> string \<Rightarrow> bytes" where
  "c_field n s = take (n - 1) (ascii s) @ replicate (n - min (n - 1) (length s)) 0"

definition FatFS_SD_SetErrorContext ::
  "('v, 'f) fatfs_ops \<Rightarrow> u32 \<Rightarrow> u32 \<Rightarrow> nat \<Rightarrow> string \<Rightarrow> u32 \<Rightarrow> u32 \<Rightarrow> 'v fh_state \<Rightarrow> 'v fh_state" where
  "FatFS_SD_SetErrorContext ff eid code line fname arg0 arg1 s =
     s\<lparr>fh_ErrorContext := \<lparr>ec_id = eid, ec_code = code, ec_arg0 = arg0, ec_arg1 = arg1,
         ec_line = source_line ff line, ec_file = c_field 20 ''FileHandler.c'',
         ec_function = c_field 64 fname\<rparr>\<rparr>"

definition FileHandler_ErrorHandler :: "'v fh_state \<Rightarrow> 'v fh_state" where
  "FileHandler_ErrorHandler s =
     s\<lparr>fh_recorder := ErrorRecorder_Record (Some (fh_ErrorContext s)) (fh_recorder s), fh_error_led := True\<rparr>"

lemma volume_ErrorHandler [simp]: "volume (FileHandler_ErrorHandler s) = volume s"
  by (simp add: FileHandler_ErrorHandler_def)

lemma volume_SetErrorContext [simp]:
  "volume (FatFS_SD_SetErrorContext ff eid code line fname arg0 arg1 s) = volume s"
  by (simp add: FatFS_SD_SetErrorContext_def)

section \<open>Operations\<close>

definition FatFS_SD_Mount :: "('v, 'f) fatfs_ops \<Rightarrow> 'v fh_state \<Rightarrow> FRESULT \<times> 'v fh_state" where
  "FatFS_SD_Mount ff s =
     (case f_mount ff (volume s) True of (res, v) \<Rightarrow>
        if res \<noteq> FR_OK then (case f_mount ff v True of (res, v) \<Rightarrow> (res, s\<lparr>volume := v\<rparr>))
        else (res, s\<lparr>volume := v\<rparr>))"

definition FatFS_SD_Unmount :: "('v, 'f) fatfs_ops \<Rightarrow> 'v fh_state \<Rightarrow> FRESULT \<times> 'v fh_state" where
  "FatFS_SD_Unmount ff s = (case f_mount ff (volume s) False of (res, v) \<Rightarrow> (res, s\<lparr>volume := v\<rparr>))"

text \<open>The options \<open>FATFS_SEEK_ON_WRITE_APPEND\<close> and \<open>FATFS_TRUNCATE_ON_SEEK_FAIL\<close> are 0.\<close>

definition FatFS_SD_OpenFileForWrite ::
  "('v, 'f) fatfs_ops \<Rightarrow> bytes \<Rightarrow> 'f FatFsDeviceType \<Rightarrow> 'v fh_state \<Rightarrow> FRESULT \<times> 'f FatFsDeviceType \<times> 'v fh_state" where
  "FatFS_SD_OpenFileForWrite ff name dev s =
     (let dev = dev\<lparr>fflags := FA_OPEN_APPEND OR FA_WRITE\<rparr>
      in case f_open ff (volume s) (dev_file dev) name (fflags dev) of (fr, f, v) \<Rightarrow>
        let dev = dev\<lparr>dev_file := f\<rparr>; s = s\<lparr>volume := v\<rparr>
        in (fr, dev,
            if fr \<noteq> FR_OK
            then FileHandler_ErrorHandler (FatFS_SD_SetErrorContext ff 0x46480001 fr 164
                   ''FatFS_SD_OpenFileForWrite'' (writeIndex dev) (fflags dev) s)
            else s))"

definition FatFS_SD_OpenFileForOverWrite ::
  "('v, 'f) fatfs_ops \<Rightarrow> bytes \<Rightarrow> 'f FatFsDeviceType \<Rightarrow> 'v fh_state \<Rightarrow> FRESULT \<times> 'f FatFsDeviceType \<times> 'v fh_state" where
  "FatFS_SD_OpenFileForOverWrite ff name dev s =
     (let dev = dev\<lparr>fflags := FA_WRITE, writeIndex := 0\<rparr>;
          (open_fr, f, v) = f_open ff (volume s) (dev_file dev) name (fflags dev);
          dev = dev\<lparr>dev_file := f\<rparr>; s = s\<lparr>volume := v\<rparr>;
          (fr, dev, s) =
            (if open_fr \<noteq> FR_OK then
               (case f_open ff (volume s) (dev_file dev) name (fflags dev OR FA_CREATE_ALWAYS) of (fr, f, v) \<Rightarrow>
                  let dev = dev\<lparr>dev_file := f\<rparr>; s = s\<lparr>volume := v\<rparr>
                  in (fr, dev, if fr \<noteq> FR_OK
                       then FatFS_SD_SetErrorContext ff 0x46480004 fr 192 ''FatFS_SD_OpenFileForOverWrite''
                              open_fr (fflags dev OR FA_CREATE_ALWAYS) s
                       else s))
             else (open_fr, dev, s));
          (fr, dev, s) =
            (if fr = FR_OK then
               (case f_lseek ff (volume s) (dev_file dev) 0 of (fr, f, v) \<Rightarrow>
                  let dev = dev\<lparr>dev_file := f\<rparr>; s = s\<lparr>volume := v\<rparr>
                  in (fr, dev, if fr \<noteq> FR_OK
                       then FatFS_SD_SetErrorContext ff 0x46480005 fr 210 ''FatFS_SD_OpenFileForOverWrite'' 0 (fflags dev) s
                       else s))
             else (fr, dev, s))
      in (fr, dev, if fr \<noteq> FR_OK then FileHandler_ErrorHandler s else s))"

definition FatFS_SD_OpenFileForRead ::
  "('v, 'f) fatfs_ops \<Rightarrow> bytes \<Rightarrow> 'f FatFsDeviceType \<Rightarrow> 'v fh_state \<Rightarrow> FRESULT \<times> 'f FatFsDeviceType \<times> 'v fh_state" where
  "FatFS_SD_OpenFileForRead ff name dev s =
     (let dev = dev\<lparr>fflags := FA_READ\<rparr>
      in case f_open ff (volume s) (dev_file dev) name (fflags dev) of (fr, f, v) \<Rightarrow>
        (fr, dev\<lparr>dev_file := f\<rparr>, s\<lparr>volume := v\<rparr>))"

definition FatFS_SD_Flush ::
  "('v, 'f) fatfs_ops \<Rightarrow> 'f FatFsDeviceType \<Rightarrow> 'v fh_state \<Rightarrow> FRESULT \<times> 'f FatFsDeviceType \<times> 'v fh_state" where
  "FatFS_SD_Flush ff dev s =
     (case f_sync ff (volume s) (dev_file dev) of (res, f, v) \<Rightarrow>
        let dev = dev\<lparr>dev_file := f\<rparr>; s = s\<lparr>volume := v\<rparr>
        in (res, dev,
            if res \<noteq> FR_OK
            then FileHandler_ErrorHandler (FatFS_SD_SetErrorContext ff 0x46480007 res 266 ''FatFS_SD_Flush''
                   (f_tell ff (dev_file dev)) (fflags dev) s)
            else s))"

definition FatFS_SD_SyncPending :: "('v, 'f) fatfs_ops \<Rightarrow> 'f FatFsDeviceType option \<Rightarrow> 'v fh_state \<Rightarrow> bool" where
  "FatFS_SD_SyncPending ff dev s =
     (case dev of None \<Rightarrow> False
      | Some d \<Rightarrow> \<not> obj_fs_null ff (dev_file d) \<and>
          (fs_wflag ff (volume s) \<noteq> 0 \<or> fs_fsi_flag ff (volume s) AND 0x01 \<noteq> 0))"

text \<open>The instrumentation hooks around the write change nothing of this state.\<close>

definition FatFS_SD_WriteFile ::
  "('v, 'f) fatfs_ops \<Rightarrow> bytes \<Rightarrow> u32 \<Rightarrow> 'f FatFsDeviceType \<Rightarrow> 'v fh_state \<Rightarrow>
   FRESULT \<times> 'f FatFsDeviceType \<times> 'v fh_state" where
  "FatFS_SD_WriteFile ff cont len dev s =
     (let err = (\<lambda>eid line code a0 a1. FatFS_SD_SetErrorContext ff eid code line ''FatFS_SD_WriteFile'' a0 a1);
          FileSize = (if fflags dev AND FA_CREATE_ALWAYS > 0 then 0 else f_tell ff (dev_file dev));
          (res, f, v) = f_lseek ff (volume s) (dev_file dev) FileSize;
          dev = dev\<lparr>dev_file := f\<rparr>; s = s\<lparr>volume := v\<rparr>;
          (res, dev, s) =
            (if res \<noteq> FR_OK then
               let s = err 0x46480008 321 res FileSize len s;
                   (res, f, v) = f_truncate ff (volume s) (dev_file dev);
                   dev = dev\<lparr>dev_file := f\<rparr>; s = s\<lparr>volume := v\<rparr>
               in if res = FR_OK then
                    (case f_lseek ff (volume s) (dev_file dev) (f_tell ff (dev_file dev)) of (res, f, v) \<Rightarrow>
                       let dev = dev\<lparr>dev_file := f\<rparr>; s = s\<lparr>volume := v\<rparr>
                       in (res, dev, if res \<noteq> FR_OK
                            then err 0x4648000A 336 res (f_tell ff (dev_file dev)) len s else s))
                  else (res, dev, err 0x46480009 346 res FileSize len s)
             else (res, dev, s));
          (res, BytesWritten, dev, s) =
            (if res = FR_OK then
               (case f_write ff (volume s) (dev_file dev) (take (unat len) cont) of (res, n, f, v) \<Rightarrow>
                  let dev = dev\<lparr>dev_file := f\<rparr>; s = s\<lparr>volume := v\<rparr>
                  in (res, n, dev, if res \<noteq> FR_OK then err 0x4648000B 361 res len n s else s))
             else (res, 0, dev, s));
          (res, s) =
            (if res = FR_OK \<and> BytesWritten \<noteq> len
             then (FR_DISK_ERR, err 0x4648000C 374 FR_DISK_ERR len BytesWritten s) else (res, s))
      in (res, dev, if res \<noteq> FR_OK then FileHandler_ErrorHandler s else s))"

definition FatFS_SD_WriteBeginningOfFile ::
  "('v, 'f) fatfs_ops \<Rightarrow> bytes \<Rightarrow> u32 \<Rightarrow> 'f FatFsDeviceType \<Rightarrow> 'v fh_state \<Rightarrow>
   FRESULT \<times> 'f FatFsDeviceType \<times> 'v fh_state" where
  "FatFS_SD_WriteBeginningOfFile ff cont len dev s =
     (let err = (\<lambda>eid line code a0 a1. FatFS_SD_SetErrorContext ff eid code line
                   ''FatFS_SD_WriteBeginningOfFile'' a0 a1);
          (res, f, v) = f_lseek ff (volume s) (dev_file dev) 0;
          dev = dev\<lparr>dev_file := f\<rparr>; s = s\<lparr>volume := v\<rparr>;
          (res, dev, s) =
            (if res \<noteq> FR_OK then
               let s = err 0x4648000D 403 res 0 len s;
                   (res, f, v) = f_truncate ff (volume s) (dev_file dev);
                   dev = dev\<lparr>dev_file := f\<rparr>; s = s\<lparr>volume := v\<rparr>
               in if res = FR_OK then
                    (case f_lseek ff (volume s) (dev_file dev) 0 of (res, f, v) \<Rightarrow>
                       let dev = dev\<lparr>dev_file := f\<rparr>; s = s\<lparr>volume := v\<rparr>
                       in (res, dev, if res \<noteq> FR_OK then err 0x4648000D 418 res 0 len s else s))
                  else (res, dev, err 0x4648000E 428 res 0 len s)
             else (res, dev, s));
          (res, BytesWritten, dev, s) =
            (if res = FR_OK then
               (case f_write ff (volume s) (dev_file dev) (take (unat len) cont) of (res, n, f, v) \<Rightarrow>
                  let dev = dev\<lparr>dev_file := f\<rparr>; s = s\<lparr>volume := v\<rparr>
                  in (res, n, dev, if res \<noteq> FR_OK then err 0x4648000F 442 res len n s else s))
             else (res, 0, dev, s));
          (res, dev, s) =
            (if res \<noteq> FR_OK then (res, dev, s)
             else if BytesWritten \<noteq> len
             then (FR_DISK_ERR, dev, err 0x46480010 456 FR_DISK_ERR len BytesWritten s)
             else
               (case f_lseek ff (volume s) (dev_file dev) 0 of (res, f, v) \<Rightarrow>
                  let dev = dev\<lparr>dev_file := f\<rparr>; s = s\<lparr>volume := v\<rparr>
                  in (res, dev, if res \<noteq> FR_OK then err 0x46480011 468 res 0 len s else s)))
      in (res, dev, if res \<noteq> FR_OK then FileHandler_ErrorHandler s else s))"

definition FatFS_SD_ReadFile ::
  "('v, 'f) fatfs_ops \<Rightarrow> u32 \<Rightarrow> 'f FatFsDeviceType \<Rightarrow> 'v fh_state \<Rightarrow>
   FRESULT \<times> bytes \<times> 'f FatFsDeviceType \<times> 'v fh_state" where
  "FatFS_SD_ReadFile ff len dev s =
     (case f_read ff (volume s) (dev_file dev) len of (fr, bs, f, v) \<Rightarrow>
        let dev = dev\<lparr>dev_file := f\<rparr>; s = s\<lparr>volume := v\<rparr>; BytesRead = of_nat (length bs)
        in if fr \<noteq> FR_OK then
             (fr, bs, dev, FileHandler_ErrorHandler
                (FatFS_SD_SetErrorContext ff 0x46480012 fr 495 ''FatFS_SD_ReadFile'' len BytesRead s))
           else if BytesRead \<noteq> len then
             (FR_DISK_ERR, bs, dev, FileHandler_ErrorHandler
                (FatFS_SD_SetErrorContext ff 0x46480013 FR_DISK_ERR 506 ''FatFS_SD_ReadFile'' len BytesRead s))
           else (fr, bs, dev, s))"

definition FatFS_SD_CloseFile ::
  "('v, 'f) fatfs_ops \<Rightarrow> 'f FatFsDeviceType \<Rightarrow> 'v fh_state \<Rightarrow> FRESULT \<times> 'f FatFsDeviceType \<times> 'v fh_state" where
  "FatFS_SD_CloseFile ff dev s =
     (if obj_fs_null ff (dev_file dev) then (FR_OK, dev, s)
      else
        let dev = dev\<lparr>writeIndex := f_tell ff (dev_file dev)\<rparr>
        in case f_close ff (volume s) (dev_file dev) of (fr, f, v) \<Rightarrow>
          let dev = dev\<lparr>dev_file := f\<rparr>; s = s\<lparr>volume := v\<rparr>
          in (fr, dev,
              if fr \<noteq> FR_OK
              then FileHandler_ErrorHandler (FatFS_SD_SetErrorContext ff 0x46480014 fr 532 ''FatFS_SD_CloseFile''
                     (writeIndex dev) (fflags dev) s)
              else s))"

definition FatFS_SD_GetFileSize :: "('v, 'f) fatfs_ops \<Rightarrow> 'f FatFsDeviceType \<Rightarrow> FRESULT \<times> u32" where
  "FatFS_SD_GetFileSize ff dev = (FR_OK, f_size ff (dev_file dev))"

definition FatFS_SD_GetBufferedFileSize :: "('v, 'f) fatfs_ops \<Rightarrow> 'f FatFsDeviceType \<Rightarrow> FRESULT \<times> u32" where
  "FatFS_SD_GetBufferedFileSize ff dev = (FR_OK, f_tell ff (dev_file dev))"

text \<open>The partition table check and the formatting.\<close>

definition FatFS_SD_MbrSignatureIsValid :: "bytes \<Rightarrow> bool" where
  "FatFS_SD_MbrSignatureIsValid sector \<longleftrightarrow> sector ! 510 = 0x55 \<and> sector ! 511 = 0xAA"

definition FatFS_SD_RepartitionIfMbrIsMissing :: "('v, 'f) fatfs_ops \<Rightarrow> 'v \<Rightarrow> FRESULT \<times> 'v" where
  "FatFS_SD_RepartitionIfMbrIsMissing ff v =
     (case read_sector0 ff v of (r, work_buffer) \<Rightarrow>
        if r \<noteq> 0 then (FR_DISK_ERR, v)
        else if FatFS_SD_MbrSignatureIsValid work_buffer then (FR_MKFS_ABORTED, v)
        else f_fdisk ff v)"

definition FatFS_SD_Format_Fat32 :: "('v, 'f) fatfs_ops \<Rightarrow> u32 \<Rightarrow> 'v fh_state \<Rightarrow> FRESULT \<times> 'v fh_state" where
  "FatFS_SD_Format_Fat32 ff cluster_size s =
     (case f_mkfs ff (volume s) cluster_size of (res, v) \<Rightarrow>
        if res = FR_MKFS_ABORTED then
          (case FatFS_SD_RepartitionIfMbrIsMissing ff v of (repartition_res, v) \<Rightarrow>
             if repartition_res = FR_OK then
               (case f_mkfs ff v cluster_size of (res, v) \<Rightarrow> (res, s\<lparr>volume := v\<rparr>))
             else if repartition_res \<noteq> FR_MKFS_ABORTED then (repartition_res, s\<lparr>volume := v\<rparr>)
             else (res, s\<lparr>volume := v\<rparr>))
        else (res, s\<lparr>volume := v\<rparr>))"

section \<open>The contract of FatFs\<close>

text \<open>\<open>files v n\<close> is the content of the file \<open>n\<close> of the volume, and \<open>opened f\<close> the name, the pointer and
  the size an open file object has.  No call touches another file than its own, and a handle stays a
  handle of its file also when a call fails.  A seek that fails either aborted the object, so that
  the truncation fails too, or did nothing (the time-out of a reentrant FatFs).\<close>

locale fatfs =
  fixes ff :: "('v, 'f) fatfs_ops" and files :: "'v \<Rightarrow> bytes \<Rightarrow> bytes option"
    and opened :: "'f \<Rightarrow> (bytes \<times> nat \<times> nat) option"
  assumes open_existing: "mode = 0x01 \<or> mode = 0x02 \<Longrightarrow> f_open ff v f n mode = (0, f', v') \<Longrightarrow>
      \<exists>d. files v n = Some d \<and> opened f' = Some (n, 0, length d)"
    and open_keeps: "mode = 0x01 \<or> mode = 0x02 \<Longrightarrow> f_open ff v f n mode = (r, f', v') \<Longrightarrow> files v' = files v"
    and open_create: "f_open ff v f n 0x0A = (0, f', v') \<Longrightarrow> opened f' = Some (n, 0, 0) \<and> files v' n = Some []"
    and create_frame: "f_open ff v f n 0x0A = (r, f', v') \<Longrightarrow> files v' = (files v)(n := files v' n)"
    and seek: "opened f = Some (n, p, l) \<Longrightarrow> unat ofs \<le> l \<Longrightarrow> f_lseek ff v f ofs = (0, f', v') \<Longrightarrow>
      opened f' = Some (n, unat ofs, l)"
    and seek_frame: "opened f = Some (n, p, l) \<Longrightarrow> unat ofs \<le> l \<Longrightarrow> f_lseek ff v f ofs = (r, f', v') \<Longrightarrow>
      files v' = files v \<and> (\<exists>p' \<le> l. opened f' = Some (n, p', l))"
    and seek_failed: "opened f = Some (n, p, l) \<Longrightarrow> unat ofs \<le> l \<Longrightarrow> f_lseek ff v f ofs = (r, f', v') \<Longrightarrow> r \<noteq> 0 \<Longrightarrow>
      f_truncate ff v' f' = (0, f'', v'') \<Longrightarrow> opened f' = opened f"
    and truncate: "opened f = Some (n, p, length d) \<Longrightarrow> files v n = Some d \<Longrightarrow> p \<le> length d \<Longrightarrow>
      f_truncate ff v f = (0, f', v') \<Longrightarrow> opened f' = Some (n, p, p) \<and> files v' n = Some (take p d)"
    and truncate_frame: "opened f = Some (n, p, l) \<Longrightarrow> p \<le> l \<Longrightarrow> f_truncate ff v f = (r, f', v') \<Longrightarrow>
      files v' = (files v)(n := files v' n) \<and> (\<exists>p' l'. p' \<le> l' \<and> opened f' = Some (n, p', l'))"
    and write_all: "opened f = Some (n, p, length d) \<Longrightarrow> files v n = Some d \<Longrightarrow> p \<le> length d \<Longrightarrow>
      f_write ff v f bs = (0, m, f', v') \<Longrightarrow> unat m = length bs \<Longrightarrow>
      files v' n = Some (take p d @ bs @ drop (p + length bs) d) \<and>
      opened f' = Some (n, p + length bs, max (length d) (p + length bs))"
    and write_frame: "opened f = Some (n, p, l) \<Longrightarrow> f_write ff v f bs = (r, m, f', v') \<Longrightarrow>
      files v' = (files v)(n := files v' n) \<and> (\<exists>p' l'. opened f' = Some (n, p', l'))"
    and read_file: "opened f = Some (n, p, length d) \<Longrightarrow> files v n = Some d \<Longrightarrow>
      f_read ff v f m = (0, bs, f', v') \<Longrightarrow> bs = take (unat m) (drop p d)"
    and read_frame: "opened f = Some (n, p, l) \<Longrightarrow> f_read ff v f m = (r, bs, f', v') \<Longrightarrow>
      files v' = files v \<and> (\<exists>p'. opened f' = Some (n, p', l))"
    and sync_keeps: "opened f = Some (n, p, l) \<Longrightarrow> f_sync ff v f = (r, f', v') \<Longrightarrow>
      files v' = files v \<and> opened f' = Some (n, p, l)"
    and close_file: "opened f = Some (n, p, l) \<Longrightarrow> f_close ff v f = (r, f', v') \<Longrightarrow> files v' = files v"
    and open_object: "opened f = Some (n, p, l) \<Longrightarrow> \<not> obj_fs_null ff f"
    and tell_pos: "opened f = Some (n, p, l) \<Longrightarrow> p < 4294967296 \<and> f_tell ff f = of_nat p"
    and size_of: "opened f = Some (n, p, l) \<Longrightarrow> l < 4294967296 \<and> f_size ff f = of_nat l"
begin

lemma tell_unat: "opened f = Some (n, p, l) \<Longrightarrow> unat (f_tell ff f) = p"
  using tell_pos by (metis unat_of_nat_u32)

lemma OpenForOverWrite:
  assumes "FatFS_SD_OpenFileForOverWrite ff n dev s = (r, dev', s')"
  shows "files (volume s') = (files (volume s))(n := files (volume s') n) \<and>
    (r = 0 \<longrightarrow> (\<exists>d. opened (dev_file dev') = Some (n, 0, length d) \<and> files (volume s') n = Some d \<and>
      fflags dev' = 0x02 \<and>
      (if fst (f_open ff (volume s) (dev_file dev) n 0x02) = 0 then files (volume s) n = Some d else d = [])))"
proof -
  obtain r1 f v where o: "f_open ff (volume s) (dev_file dev) n 0x02 = (r1, f, v)" by (metis prod_cases3)
  note same = open_keeps [OF disjI2 [OF refl] o]
  show ?thesis
  proof (cases "r1 = 0")
    case True
    obtain d where d: "files (volume s) n = Some d" "opened f = Some (n, 0, length d)"
      using open_existing [OF disjI2 [OF refl] o [unfolded True]] by blast
    obtain r2 f2 v2 where l: "f_lseek ff v f 0 = (r2, f2, v2)" by (metis prod_cases3)
    have z: "r = r2" "dev_file dev' = f2" "volume s' = v2" "fflags dev' = 0x02"
      using assms o l True
      by (auto simp: FatFS_SD_OpenFileForOverWrite_def Let_def
          split: if_splits)
    have "r2 = 0 \<Longrightarrow> opened f2 = Some (n, 0, length d)" using seek [OF d(2) _ l [THEN trans]] by simp
    then show ?thesis using seek_frame [OF d(2) _ l] d z same o True by (auto simp: fun_upd_idem)
  next
    case False
    obtain r2 f2 v2 where c: "f_open ff v f n 0x0A = (r2, f2, v2)" by (metis prod_cases3)
    note fr = create_frame [OF c]
    show ?thesis
    proof (cases "r2 = 0")
      case True
      note cr = open_create [OF c [unfolded True]]
      obtain r3 f3 v3 where l: "f_lseek ff v2 f2 0 = (r3, f3, v3)" by (metis prod_cases3)
      have z: "r = r3" "dev_file dev' = f3" "volume s' = v3" "fflags dev' = 0x02"
        using assms o c l False True
        by (auto simp: FatFS_SD_OpenFileForOverWrite_def Let_def
            split: if_splits)
      have "r3 = 0 \<Longrightarrow> opened f3 = Some (n, 0, 0)" using seek [OF conjunct1 [OF cr] _ l [THEN trans]] by simp
      moreover have "files v3 = files v2" using seek_frame [OF conjunct1 [OF cr] _ l] by simp
      ultimately show ?thesis using cr fr z same o False by simp
    next
      case r2: False
      have "r = r2" "volume s' = v2"
        using assms o c False r2
        by (auto simp: FatFS_SD_OpenFileForOverWrite_def Let_def
            split: if_splits)
      then show ?thesis using fr same r2 by simp
    qed
  qed
qed

lemma OpenForRead:
  assumes "FatFS_SD_OpenFileForRead ff n dev s = (r, dev', s')"
  shows "files (volume s') = files (volume s)"
    "r = 0 \<Longrightarrow> \<exists>d. files (volume s) n = Some d \<and> opened (dev_file dev') = Some (n, 0, length d)"
  using assms open_keeps [of 1] open_existing [of 1]
  by (auto simp: FatFS_SD_OpenFileForRead_def Let_def split: prod.splits)

lemma WriteFile:
  assumes o: "opened (dev_file dev) = Some (n, p, length d)" "files (volume s) n = Some d" "fflags dev AND 0x08 = 0"
    and len: "p \<le> length d" "unat len \<le> length cont"
    and run: "FatFS_SD_WriteFile ff cont len dev s = (0, dev', s')"
  shows "\<exists>e. (e = d \<or> e = take p d) \<and>
    files (volume s') n = Some (take p d @ take (unat len) cont @ drop (p + unat len) e) \<and>
    opened (dev_file dev') = Some (n, p + unat len, max (length e) (p + unat len)) \<and> fflags dev' = fflags dev"
proof -
  have t: "f_tell ff (dev_file dev) = of_nat p" "unat (of_nat p :: u32) = p"
    using tell_pos [OF o(1)] by simp_all
  have seek_len: "unat (f_tell ff (dev_file dev)) \<le> length d" using t len(1) by simp
  obtain r1 f v where l: "f_lseek ff (volume s) (dev_file dev) (f_tell ff (dev_file dev)) = (r1, f, v)"
    by (metis prod_cases3)
  note same = conjunct1 [OF seek_frame [OF o(1) seek_len l]]
  show ?thesis
  proof (cases "r1 = 0")
    case True
    have f: "opened f = Some (n, p, length d)" using seek [OF o(1) seek_len l [unfolded True]] t by simp
    obtain r m f2 v2 where w: "f_write ff v f (take (unat len) cont) = (r, m, f2, v2)" by (metis prod_cases4)
    have z: "r = 0" "m = len" "volume s' = v2" "dev_file dev' = f2" "fflags dev' = fflags dev"
      using run l w True o(3) by (auto simp: FatFS_SD_WriteFile_def Let_def split: if_splits)
    have "files v n = Some d" using same o(2) by simp
    from write_all [OF f this len(1) w [unfolded z(1)]] z len show ?thesis by (intro exI [of _ d]) simp
  next
    case False
    obtain r2 f2 v2 where tr: "f_truncate ff v f = (r2, f2, v2)" by (metis prod_cases3)
    obtain r3 f3 v3 where l3: "f_lseek ff v2 f2 (f_tell ff f2) = (r3, f3, v3)" by (metis prod_cases3)
    obtain r m f4 v4 where w: "f_write ff v3 f3 (take (unat len) cont) = (r, m, f4, v4)" by (metis prod_cases4)
    have z: "r2 = 0" "r3 = 0" "r = 0" "m = len" "volume s' = v4" "dev_file dev' = f4" "fflags dev' = fflags dev"
      using run l tr l3 w False o(3)
      by (auto simp: FatFS_SD_WriteFile_def Let_def split: if_splits)
    have f: "opened f = Some (n, p, length d)" using seek_failed [OF o(1) seek_len l False tr [unfolded z(1)]] o(1) by simp
    have "files v n = Some d" using same o(2) by simp
    note f2 = truncate [OF f this len(1) tr [unfolded z(1)]]
    have f2': "opened f2 = Some (n, p, length (take p d))" "files v2 n = Some (take p d)" using f2 len(1) by simp_all
    have tell2: "unat (f_tell ff f2) = p" using f2 tell_unat by blast
    have f3: "opened f3 = Some (n, p, length (take p d))" "files v3 n = Some (take p d)"
      using seek [OF f2'(1) _ l3 [unfolded z(2)]] seek_frame [OF f2'(1) _ l3] tell2 f2' len(1) by simp_all
    from write_all [OF f3 _ w [unfolded z(3)]] z len show ?thesis by (intro exI [of _ "take p d"]) simp
  qed
qed

lemma WriteFile_frame:
  assumes o: "opened (dev_file dev) = Some (n, p, l)" "p \<le> l" "fflags dev AND 0x08 = 0"
    and run: "FatFS_SD_WriteFile ff cont len dev s = (r, dev', s')"
  shows "files (volume s') = (files (volume s))(n := files (volume s') n) \<and>
    (\<exists>p' l'. opened (dev_file dev') = Some (n, p', l'))"
proof -
  have seek_len: "unat (f_tell ff (dev_file dev)) \<le> l" using tell_unat [OF o(1)] o(2) by simp
  obtain r1 f v where l: "f_lseek ff (volume s) (dev_file dev) (f_tell ff (dev_file dev)) = (r1, f, v)"
    by (metis prod_cases3)
  obtain p1 where f: "files v = files (volume s)" "opened f = Some (n, p1, l)" "p1 \<le> l"
    using seek_frame [OF o(1) seek_len l] by blast
  obtain r2 m2 f2 v2 where w: "f_write ff v f (take (unat len) cont) = (r2, m2, f2, v2)" by (metis prod_cases4)
  obtain r3 f3 v3 where tr: "f_truncate ff v f = (r3, f3, v3)" by (metis prod_cases3)
  obtain p3 l3 where f3: "files v3 = (files v)(n := files v3 n)" "p3 \<le> l3" "opened f3 = Some (n, p3, l3)"
    using truncate_frame [OF f(2,3) tr] by blast
  obtain r4 f4 v4 where l4: "f_lseek ff v3 f3 (f_tell ff f3) = (r4, f4, v4)" by (metis prod_cases3)
  obtain p4 where f4: "files v4 = files v3" "opened f4 = Some (n, p4, l3)"
    using seek_frame [OF f3(3) _ l4] tell_unat [OF f3(3)] f3(2) by auto
  obtain r5 m5 f5 v5 where w5: "f_write ff v4 f4 (take (unat len) cont) = (r5, m5, f5, v5)" by (metis prod_cases4)
  have res: "(volume s', dev_file dev') =
      (if r1 = 0 then (v2, f2) else if r3 \<noteq> 0 then (v3, f3) else if r4 \<noteq> 0 then (v4, f4) else (v5, f5))"
  proof (cases "r1 = 0")
    case True
    show ?thesis using run o(3) True by (auto simp: FatFS_SD_WriteFile_def Let_def l w split: if_split_asm)
  next
    case r1: False
    show ?thesis
    proof (cases "r3 = 0")
      case True
      show ?thesis
        using run o(3) r1 True by (cases "r4 = 0") (auto simp: FatFS_SD_WriteFile_def Let_def l tr l4 w5 split: if_split_asm)
    next
      case False
      show ?thesis using run o(3) r1 False by (auto simp: FatFS_SD_WriteFile_def Let_def l tr)
    qed
  qed
  have "files v2 = (files v)(n := files v2 n)" "\<exists>p' l'. opened f2 = Some (n, p', l')"
    "files v5 = (files v4)(n := files v5 n)" "\<exists>p' l'. opened f5 = Some (n, p', l')"
    using write_frame [OF f(2) w] write_frame [OF f4(2) w5] by blast+
  moreover have "files v5 = (files (volume s))(n := files v5 n)"
    using calculation(3) f3(1) f4(1) f(1) by (metis fun_upd_upd)
  ultimately show ?thesis using f f3 f4 res by (simp split: if_split_asm)
qed

lemma ReadFile:
  assumes o: "opened (dev_file dev) = Some (n, 0, length d)" "files (volume s) n = Some d"
    and run: "FatFS_SD_ReadFile ff len dev s = (r, bs, dev', s')"
  shows "r = 0 \<Longrightarrow> bs = take (unat len) d"
    "files (volume s') = files (volume s) \<and> (\<exists>p l. opened (dev_file dev') = Some (n, p, l))"
proof -
  obtain r1 bs1 f v where rd: "f_read ff (volume s) (dev_file dev) len = (r1, bs1, f, v)" by (metis prod_cases4)
  have z: "bs = bs1" "volume s' = v" "dev_file dev' = f" "r = 0 \<longrightarrow> r1 = 0"
    using run rd by (auto simp: FatFS_SD_ReadFile_def Let_def split: if_splits)
  then show "r = 0 \<Longrightarrow> bs = take (unat len) d" using read_file [OF o] rd by simp
  show "files (volume s') = files (volume s) \<and> (\<exists>p l. opened (dev_file dev') = Some (n, p, l))"
    using z read_frame [OF o(1) rd] by auto
qed

lemma CloseFile:
  assumes "opened (dev_file dev) = Some (n, p, l)" "FatFS_SD_CloseFile ff dev s = (r, dev', s')"
  shows "files (volume s') = files (volume s)"
proof -
  obtain r1 f v where c: "f_close ff (volume s) (dev_file dev) = (r1, f, v)" by (metis prod_cases3)
  have "volume s' = v"
    using assms(2) c open_object [OF assms(1)]
    by (auto simp: FatFS_SD_CloseFile_def Let_def split: if_splits)
  then show ?thesis using close_file [OF assms(1) c] by simp
qed

end

text \<open>What mounting and formatting promise: unmounting always succeeds, mounting changes no file, and a
  fresh file system has none.\<close>

locale fatfs_volume = fatfs +
  assumes unmount_ok: "f_mount ff v False = (r, v') \<Longrightarrow> r = 0"
    and mount_keeps: "f_mount ff v on = (r, v') \<Longrightarrow> files v' = files v"
    and mkfs_empty: "f_mkfs ff v c = (0, v') \<Longrightarrow> files v' = Map.empty"
begin

lemma Unmount: "fst (FatFS_SD_Unmount ff s) = 0"
  using unmount_ok by (auto simp: FatFS_SD_Unmount_def split: prod.splits)

lemma Mount: "files (volume (snd (FatFS_SD_Mount ff s))) = files (volume s)"
  using mount_keeps by (auto simp: FatFS_SD_Mount_def split: prod.splits if_splits)

lemma Format: "FatFS_SD_Format_Fat32 ff c s = (0, s') \<Longrightarrow> files (volume s') = Map.empty"
  using mkfs_empty by (auto simp: FatFS_SD_Format_Fat32_def split: prod.splits if_splits)

end

text \<open>A card on which every call on a file below 4 GB succeeds.\<close>

locale working_card = fatfs +
  assumes open_works: "files v n = Some d \<Longrightarrow> length d < 4294967296 \<Longrightarrow> fst (f_open ff v f n 0x02) = 0"
    and seek_works: "opened f = Some (n, p, l) \<Longrightarrow> unat ofs \<le> l \<Longrightarrow> fst (f_lseek ff v f ofs) = 0"
    and write_works: "opened f = Some (n, p, length d) \<Longrightarrow> files v n = Some d \<Longrightarrow> p \<le> length d \<Longrightarrow>
      p + length bs < 4294967296 \<Longrightarrow> \<exists>f' v'. f_write ff v f bs = (0, of_nat (length bs), f', v')"
    and close_works: "opened f = Some (n, p, l) \<Longrightarrow> fst (f_close ff v f) = 0"
    and sync_works: "opened f = Some (n, p, l) \<Longrightarrow> fst (f_sync ff v f) = 0"
begin

lemma OverWrite_works:
  assumes "files (volume s) n = Some d" "length d < 4294967296"
  shows "\<exists>dev' s'. FatFS_SD_OpenFileForOverWrite ff n dev s = (0, dev', s') \<and>
    files (volume s') = files (volume s) \<and> opened (dev_file dev') = Some (n, 0, length d) \<and> fflags dev' = 0x02"
proof -
  obtain r dev' s' where run: "FatFS_SD_OpenFileForOverWrite ff n dev s = (r, dev', s')" by (metis prod_cases3)
  obtain f v where o: "f_open ff (volume s) (dev_file dev) n 0x02 = (0, f, v)"
    using open_works [OF assms] by (metis prod.collapse)
  obtain d1 :: bytes where "opened f = Some (n, 0, length d1)" using open_existing [OF disjI2 [OF refl] o] by blast
  then obtain f2 v2 where "f_lseek ff v f 0 = (0, f2, v2)" using seek_works [of f n 0 "length d1" 0] by (metis prod.collapse le0 unat_0)
  then have r: "r = 0" using run o by (auto simp: FatFS_SD_OpenFileForOverWrite_def)
  note ow = OpenForOverWrite [OF run]
  obtain e where e: "opened (dev_file dev') = Some (n, 0, length e)" "files (volume s') n = Some e" "fflags dev' = 0x02"
    "files (volume s) n = Some e" using ow r o by auto
  then have "files (volume s') = files (volume s)" using ow by (simp add: fun_upd_idem)
  then show ?thesis using run r e assms(1) by auto
qed

lemma WriteFile_works:
  assumes o: "opened (dev_file dev) = Some (n, p, length d)" "files (volume s) n = Some d" "fflags dev AND 0x08 = 0"
    and len: "p \<le> length d" "p + length cont < 4294967296" "unat len = length cont"
  shows "\<exists>dev' s'. FatFS_SD_WriteFile ff cont len dev s = (0, dev', s') \<and>
    files (volume s') = (files (volume s))(n \<mapsto> take p d @ cont @ drop (p + length cont) d) \<and>
    opened (dev_file dev') = Some (n, p + length cont, max (length d) (p + length cont)) \<and> fflags dev' = fflags dev"
proof -
  have t: "f_tell ff (dev_file dev) = of_nat p" "unat (of_nat p :: u32) = p" using tell_pos [OF o(1)] by simp_all
  have sl: "unat (of_nat p :: u32) \<le> length d" using t len by simp
  obtain f v where l: "f_lseek ff (volume s) (dev_file dev) (of_nat p) = (0, f, v)"
    using seek_works [OF o(1) sl] by (metis prod.collapse)
  have f: "opened f = Some (n, p, length d)" "files v = files (volume s)"
    using seek [OF o(1) sl l] seek_frame [OF o(1) sl l] t by simp_all
  have fd: "files v n = Some d" using f o(2) by simp
  obtain f2 v2 where w: "f_write ff v f cont = (0, len, f2, v2)"
    using write_works [OF f(1) fd len(1,2)] len(3) by (metis word_unat_eq_iff unat_of_nat_u32 unat_u32_bound)
  have run: "FatFS_SD_WriteFile ff cont len dev s = (0, dev\<lparr>dev_file := f, dev_file := f2\<rparr>, s\<lparr>volume := v, volume := v2\<rparr>)"
    using l w t o(3) len(3) by (simp add: FatFS_SD_WriteFile_def)
  have "files v2 = (files v)(n := files v2 n)" using write_frame [OF f(1) w] by blast
  then show ?thesis using run write_all [OF f(1) fd len(1) w len(3)] f(2) by auto
qed

lemma CloseFile_works:
  assumes "opened (dev_file dev) = Some (n, p, l)"
  shows "\<exists>dev' s'. FatFS_SD_CloseFile ff dev s = (0, dev', s') \<and> files (volume s') = files (volume s)"
proof -
  obtain f v where c: "f_close ff (volume s) (dev_file dev) = (0, f, v)" using close_works [OF assms] by (metis prod.collapse)
  have "\<exists>dev' s'. FatFS_SD_CloseFile ff dev s = (0, dev', s')"
    using c open_object [OF assms] by (simp add: FatFS_SD_CloseFile_def Let_def)
  then show ?thesis using CloseFile [OF assms] by blast
qed

lemma Flush_works:
  assumes "opened (dev_file dev) = Some (n, p, l)"
  shows "\<exists>f v. FatFS_SD_Flush ff dev s = (0, dev\<lparr>dev_file := f\<rparr>, s\<lparr>volume := v\<rparr>) \<and> files v = files (volume s) \<and>
    opened f = Some (n, p, l)"
proof -
  obtain f v where c: "f_sync ff (volume s) (dev_file dev) = (0, f, v)" using sync_works [OF assms] by (metis prod.collapse)
  then have "FatFS_SD_Flush ff dev s = (0, dev\<lparr>dev_file := f\<rparr>, s\<lparr>volume := v\<rparr>)" by (simp add: FatFS_SD_Flush_def Let_def)
  then show ?thesis using sync_keeps [OF assms c] by blast
qed

end

section \<open>The file iterator\<close>

text \<open>A directory entry: its name as a C string, and its attributes.\<close>

record FILINFO =
  fname :: bytes
  fattrib :: u8

record ('v, 'd) dir_ops =
  f_opendir :: "'v \<Rightarrow> 'd \<Rightarrow> bytes \<Rightarrow> FRESULT \<times> 'd \<times> 'v"
  f_readdir :: "'v \<Rightarrow> 'd \<Rightarrow> FRESULT \<times> FILINFO \<times> 'd \<times> 'v"
  f_closedir :: "'v \<Rightarrow> 'd \<Rightarrow> FRESULT \<times> 'd \<times> 'v"

record 'd FatFS_FileIterator =
  it_dir :: 'd
  it_fno :: FILINFO
  it_prefix :: bytes

definition FR_NO_FILE :: FRESULT where [simp]: "FR_NO_FILE = 4"
definition AM_DIR :: u8 where [simp]: "AM_DIR = 0x10"

definition FatFS_SD_FileIterator_Open ::
  "('v, 'd) dir_ops \<Rightarrow> bytes \<Rightarrow> bytes \<Rightarrow> 'd FatFS_FileIterator \<Rightarrow> 'v \<Rightarrow> FRESULT \<times> 'd FatFS_FileIterator \<times> 'v" where
  "FatFS_SD_FileIterator_Open ops dirPath prefix it v =
     (case f_opendir ops v (it_dir it) dirPath of
        (res, d, v) \<Rightarrow> (res, it\<lparr>it_prefix := prefix, it_dir := d\<rparr>, v))"

text \<open>\<open>strncmp(fname, prefix, strlen(prefix)) == 0\<close>.\<close>

definition entry_matches :: "bytes \<Rightarrow> FILINFO \<Rightarrow> bool" where
  "entry_matches prefix fno \<longleftrightarrow>
     fattrib fno AND AM_DIR = 0 \<and> take (length (cstr prefix)) (cstr (fname fno)) = cstr prefix"

text \<open>\<open>None\<close>: the loop does not end.\<close>

partial_function (option) FatFS_SD_FileIterator_Next ::
  "('v, 'd) dir_ops \<Rightarrow> 'd FatFS_FileIterator \<Rightarrow> 'v \<Rightarrow> (FRESULT \<times> FILINFO option \<times> 'd FatFS_FileIterator \<times> 'v) option" where
  "FatFS_SD_FileIterator_Next ops it v =
     (case f_readdir ops v (it_dir it) of (res, fno, d, v) \<Rightarrow>
        let it = it\<lparr>it_dir := d, it_fno := fno\<rparr>
        in if res \<noteq> FR_OK then Some (res, None, it, v)
           else if cstr (fname fno) = [] then Some (FR_NO_FILE, None, it, v)
           else if entry_matches (it_prefix it) fno then Some (FR_OK, Some fno, it, v)
           else FatFS_SD_FileIterator_Next ops it v)"

definition FatFS_SD_FileIterator_Close ::
  "('v, 'd) dir_ops \<Rightarrow> 'd FatFS_FileIterator \<Rightarrow> 'v \<Rightarrow> FRESULT \<times> 'd FatFS_FileIterator \<times> 'v" where
  "FatFS_SD_FileIterator_Close ops it v =
     (case f_closedir ops v (it_dir it) of (res, d, v) \<Rightarrow> (res, it\<lparr>it_dir := d\<rparr>, v))"

text \<open>\<open>remaining d\<close> are the entries an open directory object has not delivered yet.\<close>

locale fatfs_dir =
  fixes ops :: "('v, 'd) dir_ops" and remaining :: "'d \<Rightarrow> FILINFO list option"
  assumes readdir_next: "remaining d = Some (x # xs) \<Longrightarrow> f_readdir ops v d = (0, fno, d', v') \<Longrightarrow>
      fno = x \<and> cstr (fname x) \<noteq> [] \<and> remaining d' = Some xs"
    and readdir_end: "remaining d = Some [] \<Longrightarrow> f_readdir ops v d = (0, fno, d', v') \<Longrightarrow> cstr (fname fno) = []"
    and readdir_code: "f_readdir ops v d = (r, fno, d', v') \<Longrightarrow> r \<noteq> FR_NO_FILE"
begin

text \<open>The loop ends at the first entry that matches, at the end of the directory or at a read error.\<close>

lemma iterator_next:
  assumes "remaining (it_dir it) = Some xs"
  shows "\<exists>res out it' v'. FatFS_SD_FileIterator_Next ops it v = Some (res, out, it', v') \<and>
    it_prefix it' = it_prefix it \<and> (out = None \<longleftrightarrow> res \<noteq> FR_OK) \<and>
    (res = FR_OK \<longrightarrow> (\<exists>skipped f rest. xs = skipped @ f # rest \<and> out = Some f \<and> entry_matches (it_prefix it) f \<and>
       (\<forall>x \<in> set skipped. \<not> entry_matches (it_prefix it) x) \<and> remaining (it_dir it') = Some rest)) \<and>
    (res = FR_NO_FILE \<longrightarrow> (\<forall>x \<in> set xs. \<not> entry_matches (it_prefix it) x))"
  using assms
proof (induction xs arbitrary: it v)
  case Nil
  obtain r fno d v1 where rd: "f_readdir ops v (it_dir it) = (r, fno, d, v1)" by (metis prod_cases4)
  then show ?case
    using readdir_end [OF Nil] readdir_code [OF rd]
    by (cases "r = 0") (auto simp: FatFS_SD_FileIterator_Next.simps [of ops it])
next
  case (Cons x xs)
  obtain r fno d v1 where rd: "f_readdir ops v (it_dir it) = (r, fno, d, v1)" by (metis prod_cases4)
  define it1 where "it1 = it\<lparr>it_dir := d, it_fno := fno\<rparr>"
  show ?case
  proof (cases "r = 0")
    case False
    then show ?thesis using rd readdir_code [OF rd] by (simp add: FatFS_SD_FileIterator_Next.simps [of ops it])
  next
    case True
    note n = readdir_next [OF Cons.prems rd [unfolded True]]
    show ?thesis
    proof (cases "entry_matches (it_prefix it) x")
      case m: True
      have "FatFS_SD_FileIterator_Next ops it v = Some (FR_OK, Some x, it1, v1)"
        using rd True n m by (simp add: FatFS_SD_FileIterator_Next.simps [of ops it] it1_def)
      moreover have "x # xs = [] @ x # xs" "remaining (it_dir it1) = Some xs" "it_prefix it1 = it_prefix it"
        using n by (simp_all add: it1_def)
      ultimately show ?thesis using m
        by (intro exI [of _ FR_OK] exI [of _ "Some x"] exI [of _ it1] exI [of _ v1]) (auto intro!: exI [of _ "[]"])
    next
      case m: False
      have s: "FatFS_SD_FileIterator_Next ops it v = FatFS_SD_FileIterator_Next ops it1 v1"
        using rd True n m by (simp add: FatFS_SD_FileIterator_Next.simps [of ops it] it1_def)
      have "remaining (it_dir it1) = Some xs" "it_prefix it1 = it_prefix it" using n by (simp_all add: it1_def)
      from Cons.IH [OF this(1), of v1, unfolded this(2)] obtain res out it' v' where
        q: "FatFS_SD_FileIterator_Next ops it1 v1 = Some (res, out, it', v')" "it_prefix it' = it_prefix it"
          "out = None \<longleftrightarrow> res \<noteq> FR_OK"
          "res = FR_OK \<longrightarrow> (\<exists>skipped f rest. xs = skipped @ f # rest \<and> out = Some f \<and> entry_matches (it_prefix it) f \<and>
             (\<forall>x \<in> set skipped. \<not> entry_matches (it_prefix it) x) \<and> remaining (it_dir it') = Some rest)"
          "res = FR_NO_FILE \<longrightarrow> (\<forall>x \<in> set xs. \<not> entry_matches (it_prefix it) x)"
        by blast
      have "res = FR_OK \<longrightarrow> (\<exists>skipped f rest. x # xs = skipped @ f # rest \<and> out = Some f \<and>
          entry_matches (it_prefix it) f \<and> (\<forall>x \<in> set skipped. \<not> entry_matches (it_prefix it) x) \<and>
          remaining (it_dir it') = Some rest)"
        using q(4) m by (metis append_Cons set_ConsD)
      then show ?thesis using s q m by auto
    qed
  qed
qed

end

text \<open>A directory object that is the list of its entries.\<close>

definition stub_dir :: "(FILINFO list, FILINFO list) dir_ops" where
  "stub_dir = \<lparr>f_opendir = (\<lambda>v d path. (0, v, v)),
     f_readdir = (\<lambda>v d. case d of [] \<Rightarrow> (0, \<lparr>fname = [], fattrib = 0\<rparr>, [], v) | x # xs \<Rightarrow> (0, x, xs, v)),
     f_closedir = (\<lambda>v d. (0, [], v))\<rparr>"

interpretation stub_dir: fatfs_dir stub_dir "\<lambda>d. if \<forall>x \<in> set d. cstr (fname x) \<noteq> [] then Some d else None"
  by unfold_locales (auto simp: stub_dir_def cstr_def split: list.splits if_splits)

section \<open>A volume that keeps the contract\<close>

text \<open>The volume is the map of its files, each below 4 GB; every call on an open file succeeds, and a
  write takes what fits.\<close>

definition stub_opened :: "(bytes \<times> nat \<times> nat) option \<Rightarrow> (bytes \<times> nat \<times> nat) option" where
  "stub_opened f = (case f of None \<Rightarrow> None | Some (n, p, l) \<Rightarrow> if p \<le> l \<and> l < 4294967296 then f else None)"

definition stub_write ::
  "(bytes \<Rightarrow> bytes option) \<Rightarrow> (bytes \<times> nat \<times> nat) option \<Rightarrow> bytes \<Rightarrow>
   FRESULT \<times> u32 \<times> (bytes \<times> nat \<times> nat) option \<times> (bytes \<Rightarrow> bytes option)" where
  "stub_write v f bs = (case f of None \<Rightarrow> (9, 0, None, v)
     | Some (n, p, l) \<Rightarrow> (case v n of None \<Rightarrow> (1, 0, f, v)
       | Some d \<Rightarrow>
           let bs = take (4294967295 - p) bs
           in (0, of_nat (length bs), Some (n, p + length bs, max l (p + length bs)),
               v(n \<mapsto> take p d @ bs @ drop (p + length bs) d))))"

definition stub_fatfs :: "(bytes \<Rightarrow> bytes option, (bytes \<times> nat \<times> nat) option) fatfs_ops" where
  "stub_fatfs =
    \<lparr>f_mount = (\<lambda>v on. (0, v)),
     f_open = (\<lambda>v f n mode.
       if mode = 0x0A then (0, Some (n, 0, 0), v(n \<mapsto> []))
       else case v n of None \<Rightarrow> (4, None, v)
         | Some d \<Rightarrow> if length d < 4294967296 then (0, Some (n, 0, length d), v) else (2, None, v)),
     f_close = (\<lambda>v f. (0, None, v)),
     f_lseek = (\<lambda>v f ofs. case f of None \<Rightarrow> (9, None, v) | Some (n, p, l) \<Rightarrow> (0, Some (n, min (unat ofs) l, l), v)),
     f_truncate = (\<lambda>v f. case f of None \<Rightarrow> (9, None, v)
       | Some (n, p, l) \<Rightarrow> (0, Some (n, p, p), v(n := map_option (take p) (v n)))),
     f_sync = (\<lambda>v f. (0, f, v)),
     f_write = stub_write,
     f_read = (\<lambda>v f m. case f of None \<Rightarrow> (9, [], None, v)
       | Some (n, p, l) \<Rightarrow> (case v n of None \<Rightarrow> (1, [], f, v)
         | Some d \<Rightarrow> let bs = take (unat m) (drop p d) in (0, bs, Some (n, min (p + length bs) l, l), v))),
     f_tell = (\<lambda>f. case f of None \<Rightarrow> 0 | Some (n, p, l) \<Rightarrow> of_nat p),
     f_size = (\<lambda>f. case f of None \<Rightarrow> 0 | Some (n, p, l) \<Rightarrow> of_nat l),
     obj_fs_null = (\<lambda>f. f = None),
     fs_wflag = (\<lambda>v. 0), fs_fsi_flag = (\<lambda>v. 0),
     f_mkfs = (\<lambda>v c. (0, Map.empty)), f_fdisk = (\<lambda>v. (0, v)),
     read_sector0 = (\<lambda>v. (0, replicate 512 0)), source_line = of_nat\<rparr>"

lemma stub_write_all:
  assumes "stub_opened f = Some (n, p, length d)" "v n = Some d"
    "stub_write v f bs = (0, m, f', v')" "unat m = length bs"
  shows "v' n = Some (take p d @ bs @ drop (p + length bs) d) \<and>
    stub_opened f' = Some (n, p + length bs, max (length d) (p + length bs))"
proof -
  have "length (take (4294967295 - p) bs) < 4294967296" by simp
  then have "length (take (4294967295 - p) bs) = length bs"
    using assms by (auto simp: stub_opened_def stub_write_def Let_def unat_of_nat_u32 split: option.splits if_splits)
  then have "take (4294967295 - p) bs = bs" by simp
  then show ?thesis using assms by (auto simp: stub_opened_def stub_write_def Let_def split: option.splits if_splits)
qed

lemma stub_write_frame:
  assumes "stub_opened f = Some (n, p, l)" "stub_write v f bs = (r, m, f', v')"
  shows "v' = v(n := v' n) \<and> (\<exists>p' l'. stub_opened f' = Some (n, p', l'))"
proof
  show "v' = v(n := v' n)"
  proof
    fix x
    show "v' x = (v(n := v' n)) x"
      using assms by (auto simp: stub_opened_def stub_write_def Let_def split: option.splits if_splits)
  qed
  show "\<exists>p' l'. stub_opened f' = Some (n, p', l')"
    using assms by (auto simp: stub_opened_def stub_write_def Let_def split: option.splits if_splits)
qed

interpretation stub_fatfs: fatfs_volume stub_fatfs "\<lambda>v. v" stub_opened
proof unfold_locales
  fix f n p d v and bs :: bytes and m :: u32 and f' v'
  assume "stub_opened f = Some (n, p, length d)" "v n = Some d" "f_write stub_fatfs v f bs = (0, m, f', v')"
    "unat m = length bs"
  then show "v' n = Some (take p d @ bs @ drop (p + length bs) d) \<and>
      stub_opened f' = Some (n, p + length bs, max (length d) (p + length bs))"
    using stub_write_all by (simp add: stub_fatfs_def)
next
  fix f n p l v and bs :: bytes and r m :: u32 and f' v'
  assume "stub_opened f = Some (n, p, l)" "f_write stub_fatfs v f bs = (r, m, f', v')"
  then show "v' = v(n := v' n) \<and> (\<exists>p' l'. stub_opened f' = Some (n, p', l'))"
    using stub_write_frame by (simp add: stub_fatfs_def)
qed (auto simp: stub_fatfs_def stub_opened_def Let_def split: option.splits if_splits)

interpretation stub_fatfs: working_card stub_fatfs "\<lambda>v. v" stub_opened
  by unfold_locales (auto simp: stub_fatfs_def stub_opened_def stub_write_def split: option.splits if_splits)

end
