(* ===== verification/LogConfigFile.thy ===== *)
theory LogConfigFile
  imports Core0Task0 FileHandler
begin

text \<open>
  The parameters of the log on the card: \<open>FatFS_SD_Formatting_Request\<close> of \<open>FileHandler.c\<close>, which
  stores what the control page asks for, and \<open>appHandleFormattingRequest\<close> of \<open>Core0Task0.c\<close>, which
  reads it at the next start, formats the card and hands the sizes to the log manager.  The lemmas
  show that what is stored is read back, that a start without a request leaves every other file
  alone, and that a format leaves only the parameter file.
\<close>

section \<open>Storing the parameters\<close>

definition LogConfigFileName :: bytes where "LogConfigFileName = ascii ''log_config.json''"
definition FormatRequestFileName :: bytes where "FormatRequestFileName = ascii ''formatting_requested.txt''"

definition log_config_text :: "log_config \<Rightarrow> bytes" where
  "log_config_text cfg =
     ascii ''{\"cluster_size\":'' @ u32_text (cluster_size cfg) @
     ascii '',\"log_file_size\":'' @ u32_text (log_file_size cfg) @
     ascii '',\"log_file_count\":'' @ u32_text (log_file_count cfg) @ ascii ''}''"

text \<open>The body \<open>FatFS_SD_Formatting_Request\<close> and \<open>appStoreLogConfigFile\<close> share; \<open>File\<close> is the
  uninitialised local.\<close>

definition store_log_config ::
  "('v, 'f) fatfs_ops \<Rightarrow> bytes \<Rightarrow> 'f FatFsDeviceType \<Rightarrow> log_config \<Rightarrow> 'v fh_state \<Rightarrow> FRESULT \<times> 'v fh_state" where
  "store_log_config ff filename File cfg s =
     (case FatFS_SD_OpenFileForOverWrite ff filename File s of (res, File, s) \<Rightarrow>
        if res \<noteq> FR_OK then (res, s)
        else
          let content = log_config_text cfg
          in if length content \<ge> 128 then
               (case FatFS_SD_CloseFile ff File s of (r, File, s) \<Rightarrow> (FR_INVALID_PARAMETER, s))
             else
               case FatFS_SD_WriteFile ff content (of_nat (length content)) File s of (res, File, s) \<Rightarrow>
               (case FatFS_SD_CloseFile ff File s of (r, File, s) \<Rightarrow> (res, s)))"

definition FatFS_SD_Formatting_Request ::
  "('v, 'f) fatfs_ops \<Rightarrow> 'f FatFsDeviceType \<Rightarrow> u32 \<Rightarrow> u32 \<Rightarrow> u32 \<Rightarrow> 'v fh_state \<Rightarrow> FRESULT \<times> 'v fh_state" where
  "FatFS_SD_Formatting_Request ff File cs fs fc s =
     store_log_config ff FormatRequestFileName File
       \<lparr>cluster_size = cs, log_file_size = fs, log_file_count = fc\<rparr> s"

definition appStoreLogConfigFile ::
  "('v, 'f) fatfs_ops \<Rightarrow> bytes \<Rightarrow> 'f FatFsDeviceType \<Rightarrow> log_config \<Rightarrow> 'v fh_state \<Rightarrow> FRESULT \<times> 'v fh_state" where
  "appStoreLogConfigFile = store_log_config"

section \<open>Reading them\<close>

text \<open>The loop that reads an open file, and the close after it; \<open>FatFS_SD_GetFileSize\<close> always
  succeeds.\<close>

definition read_log_config ::
  "('v, 'f) fatfs_ops \<Rightarrow> (bytes \<Rightarrow> bool) \<Rightarrow> json_search \<Rightarrow> 'f FatFsDeviceType \<Rightarrow> log_config \<Rightarrow> 'v fh_state \<Rightarrow>
   bool \<times> log_config \<times> 'v fh_state" where
  "read_log_config ff json_validate json_search DevTmp cfg s =
     (let (res, fileSize) = FatFS_SD_GetFileSize ff DevTmp;
          (parsed, cfg, DevTmp, s) =
            (if res \<noteq> FR_OK \<or> fileSize = 0 then (False, cfg, DevTmp, s)
             else
               let readSize = (if fileSize < 127 then fileSize else 127)
               in case FatFS_SD_ReadFile ff readSize DevTmp s of (res, buffer, DevTmp, s) \<Rightarrow>
                    if res \<noteq> FR_OK then (False, cfg, DevTmp, s)
                    else (case appParseLogConfigJson json_validate json_search (take (unat readSize) buffer) cfg of
                            (parsed, cfg) \<Rightarrow> (parsed, cfg, DevTmp, s)))
      in case FatFS_SD_CloseFile ff DevTmp s of (r, DevTmp, s) \<Rightarrow> (parsed, cfg, s))"

definition appLoadLogConfigFile ::
  "('v, 'f) fatfs_ops \<Rightarrow> (bytes \<Rightarrow> bool) \<Rightarrow> json_search \<Rightarrow> bytes \<Rightarrow> 'f FatFsDeviceType \<Rightarrow> log_config \<Rightarrow> 'v fh_state \<Rightarrow>
   bool \<times> log_config \<times> 'v fh_state" where
  "appLoadLogConfigFile ff json_validate json_search filename DevTmp cfg s =
     (case FatFS_SD_OpenFileForRead ff filename DevTmp s of (res, DevTmp, s) \<Rightarrow>
        if res = FR_OK then read_log_config ff json_validate json_search DevTmp cfg s else (False, cfg, s))"

section \<open>The start of the task\<close>

text \<open>\<open>log_params\<close> are \<open>CanLogFileSize\<close>, \<open>CanLogFileCount\<close> and \<open>CanLogClusterSize\<close> of the log manager.\<close>

record 'v boot_state =
  boot_fs :: "'v fh_state"
  boot_mountRes :: u8
  log_params :: log_config

definition appCanLogSetFileConfig :: "u32 \<Rightarrow> u32 \<Rightarrow> log_config \<Rightarrow> log_config" where
  "appCanLogSetFileConfig fs fc p =
     p\<lparr>log_file_size := if fs = 0 then MAX_LOG_FILE_SIZE else fs,
       log_file_count := if fc = 0 then MAX_LOG_FILE_COUNT else fc\<rparr>"

definition appCanLogSetClusterSize :: "u32 \<Rightarrow> log_config \<Rightarrow> log_config" where
  "appCanLogSetClusterSize cs p = p\<lparr>cluster_size := if cs = 0 then CLUSTER_SIZE else cs\<rparr>"

definition appCanLogGetMaxLogIndex :: "log_config \<Rightarrow> u32" where
  "appCanLogGetMaxLogIndex p = (if log_file_count p > 0 then log_file_count p - 1 else 0)"

definition FR_NO_FILESYSTEM :: u8 where [simp]: "FR_NO_FILESYSTEM = 13"

definition default_log_config :: log_config where
  "default_log_config =
     \<lparr>cluster_size = CLUSTER_SIZE, log_file_size = MAX_LOG_FILE_SIZE, log_file_count = MAX_LOG_FILE_COUNT\<rparr>"

text \<open>\<open>erase\<close> is \<open>SD_Spi_EraseAll\<close>, \<open>f1\<close> and \<open>f2\<close> the uninitialised file objects.\<close>

definition format_card ::
  "('v, 'f) fatfs_ops \<Rightarrow> ('v \<Rightarrow> u32 \<times> 'v) \<Rightarrow> 'f FatFsDeviceType \<Rightarrow> log_config \<Rightarrow> 'v boot_state \<Rightarrow> 'v boot_state" where
  "format_card ff erase f1 cfg b =
     (let (res, s) = FatFS_SD_Unmount ff (boot_fs b);
          b = b\<lparr>boot_fs := s\<rparr>;
          (res, b) =
            (if res = FR_OK then
               let b = b\<lparr>boot_mountRes := 1\<rparr>; (res, v) = erase (volume (boot_fs b));
                   b = b\<lparr>boot_fs := (boot_fs b)\<lparr>volume := v\<rparr>\<rparr>
               in if res = 0 then
                    (case FatFS_SD_Format_Fat32 ff (cluster_size cfg) (boot_fs b) of (res, s) \<Rightarrow> (res, b\<lparr>boot_fs := s\<rparr>))
                  else (res, b)
             else (res, b));
          b = (if res = FR_OK then
                 (case FatFS_SD_Mount ff (boot_fs b) of (m, s) \<Rightarrow> b\<lparr>boot_mountRes := ucast m, boot_fs := s\<rparr>)
               else b)
      in if res = FR_OK then
           (case appStoreLogConfigFile ff LogConfigFileName f1 cfg (boot_fs b) of (r, s) \<Rightarrow> b\<lparr>boot_fs := s\<rparr>)
         else b)"

definition appHandleFormattingRequest ::
  "('v, 'f) fatfs_ops \<Rightarrow> ('v \<Rightarrow> u32 \<times> 'v) \<Rightarrow> (bytes \<Rightarrow> bool) \<Rightarrow> json_search \<Rightarrow> 'f FatFsDeviceType \<Rightarrow> 'f FatFsDeviceType \<Rightarrow>
   'v boot_state \<Rightarrow> 'v boot_state" where
  "appHandleFormattingRequest ff erase json_validate json_search f1 f2 b =
     (let (log_config_loaded, cfg, s) =
            appLoadLogConfigFile ff json_validate json_search LogConfigFileName f1 default_log_config (boot_fs b);
          (res, DevTmp, s) = FatFS_SD_OpenFileForRead ff FormatRequestFileName f2 s;
          (ReformattingRequested, cfg, s) =
            (if res = FR_OK then
               (case read_log_config ff json_validate json_search DevTmp cfg s of (r, cfg, s) \<Rightarrow> (True, cfg, s))
             else (False, cfg, s));
          b = b\<lparr>boot_fs := s,
                log_params := appCanLogSetClusterSize (cluster_size cfg)
                  (appCanLogSetFileConfig (log_file_size cfg) (log_file_count cfg) (log_params b))\<rparr>
      in if ReformattingRequested \<or> boot_mountRes b = FR_NO_FILESYSTEM then format_card ff erase f1 cfg b
         else if \<not> log_config_loaded then
           (case appStoreLogConfigFile ff LogConfigFileName f1 cfg (boot_fs b) of (r, s) \<Rightarrow> b\<lparr>boot_fs := s\<rparr>)
         else b)"


section \<open>What is stored and what is touched\<close>

lemma log_config_text_length: "length (log_config_text cfg) < 128"
proof -
  have "length (log_config_text cfg) = 52 + length (u32_text (cluster_size cfg)) +
      length (u32_text (log_file_size cfg)) + length (u32_text (log_file_count cfg))"
    by (simp add: log_config_text_def ascii_def)
  then show ?thesis
    using u32_text_length [of "cluster_size cfg"] u32_text_length [of "log_file_size cfg"]
      u32_text_length [of "log_file_count cfg"] by linarith
qed

context fatfs
begin

lemma store_log_config:
  assumes "store_log_config ff n File cfg s = (r, s')"
  shows "files (volume s') = (files (volume s))(n := files (volume s') n) \<and>
    (r = 0 \<longrightarrow> (\<exists>old. (files (volume s) n = Some old \<or> old = []) \<and>
       files (volume s') n = Some (log_config_text cfg @ drop (length (log_config_text cfg)) old)))"
proof -
  let ?t = "log_config_text cfg"
  have len: "\<not> length ?t \<ge> 128" "unat (of_nat (length ?t) :: u32) = length ?t"
    using log_config_text_length [of cfg] by (simp_all add: unat_of_nat_u32)
  obtain r1 d1 s1 where o: "FatFS_SD_OpenFileForOverWrite ff n File s = (r1, d1, s1)" by (metis prod_cases3)
  note ow = OpenForOverWrite [OF o]
  show ?thesis
  proof (cases "r1 = 0")
    case False
    then show ?thesis using assms o ow by (auto simp: store_log_config_def)
  next
    case True
    obtain d where d: "opened (dev_file d1) = Some (n, 0, length d)" "files (volume s1) n = Some d"
      "fflags d1 = 0x02" "files (volume s) n = Some d \<or> d = []" using ow True by (auto split: if_splits)
    have fl: "fflags d1 AND 0x08 = 0" using d(3) by simp
    obtain r2 d2 s2 where w: "FatFS_SD_WriteFile ff ?t (of_nat (length ?t)) d1 s1 = (r2, d2, s2)" by (metis prod_cases3)
    obtain p' l' where wf: "files (volume s2) = (files (volume s1))(n := files (volume s2) n)"
      "opened (dev_file d2) = Some (n, p', l')"
      using WriteFile_frame [OF d(1) _ fl w] by blast
    obtain r3 d3 s3 where c: "FatFS_SD_CloseFile ff d2 s2 = (r3, d3, s3)" by (metis prod_cases3)
    have z: "r = r2" "s' = s3" using assms o w c True len(1) by (auto simp: store_log_config_def Let_def)
    note cl = CloseFile [OF wf(2) c]
    have "files (volume s') = (files (volume s))(n := files (volume s') n)"
      using cl wf(1) ow z by (metis fun_upd_upd)
    moreover have "\<exists>old. (files (volume s) n = Some old \<or> old = []) \<and>
       files (volume s') n = Some (?t @ drop (length ?t) old)" if "r = 0"
    proof -
      have r2: "r2 = 0" using that z(1) by simp
      obtain e where e: "e = d \<or> e = take 0 d"
        "files (volume s2) n = Some (take 0 d @ take (unat (of_nat (length ?t) :: u32)) ?t @
           drop (0 + unat (of_nat (length ?t) :: u32)) e)"
        using WriteFile [OF d(1,2) fl _ _ w [unfolded r2]] len(2) by force
      then show ?thesis using d(4) cl z(2) len(2) by (intro exI [of _ e]) auto
    qed
    ultimately show ?thesis by blast
  qed
qed

lemma read_log_config:
  assumes o: "opened (dev_file dev) = Some (n, 0, length d)" "files (volume s) n = Some d"
    and run: "read_log_config ff json_validate json_search dev cfg s = (parsed, cfg', s')"
  shows "files (volume s') = files (volume s)"
    "cfg' \<noteq> cfg \<or> parsed \<Longrightarrow> (parsed, cfg') = appParseLogConfigJson json_validate json_search (take 127 d) cfg"
proof -
  have sz: "length d < 4294967296" "f_size ff (dev_file dev) = of_nat (length d)" using size_of [OF o(1)] by auto
  have sz': "unat (of_nat (length d) :: u32) = length d" using sz(1) by (rule unat_of_nat_u32)
  define readSize where "readSize = (if (of_nat (length d) :: u32) < 127 then of_nat (length d) else (127 :: u32))"
  have rs: "unat readSize = min (length d) 127" using sz' by (auto simp: readSize_def word_less_nat_alt)
  obtain r1 bs d1 s1 where rd: "FatFS_SD_ReadFile ff readSize dev s = (r1, bs, d1, s1)" by (metis prod_cases4)
  note rf = ReadFile [OF o rd]
  obtain p l where op: "opened (dev_file d1) = Some (n, p, l)" using rf(2) by blast
  obtain r0 d0 s0 where c0: "FatFS_SD_CloseFile ff dev s = (r0, d0, s0)" by (metis prod_cases3)
  obtain r2 d2 s2 where c2: "FatFS_SD_CloseFile ff d1 s1 = (r2, d2, s2)" by (metis prod_cases3)
  obtain ok cf where ps: "appParseLogConfigJson json_validate json_search (take (unat readSize) bs) cfg = (ok, cf)"
    by fastforce
  have cases: "(parsed, cfg', s') = (if (of_nat (length d) :: u32) = 0 then (False, cfg, s0)
      else if r1 \<noteq> 0 then (False, cfg, s2) else (ok, cf, s2))"
    using run sz(2) rd c0 c2 ps unfolding readSize_def
    by (auto simp: read_log_config_def FatFS_SD_GetFileSize_def Let_def split: if_split_asm)
  show "files (volume s') = files (volume s)"
    using cases CloseFile [OF o(1) c0] CloseFile [OF op c2] rf(2) by (auto split: if_split_asm)
  show "(parsed, cfg') = appParseLogConfigJson json_validate json_search (take 127 d) cfg" if "cfg' \<noteq> cfg \<or> parsed"
  proof -
    have r1: "r1 = 0" "(parsed, cfg') = (ok, cf)" using cases that by (auto split: if_split_asm)
    have "take (unat readSize) bs = take 127 d" using rf(1) [OF r1(1)] rs by (simp add: min_def)
    then show ?thesis using ps r1(2) by simp
  qed
qed

lemma appLoadLogConfigFile:
  assumes "appLoadLogConfigFile ff json_validate json_search n File cfg s = (parsed, cfg', s')"
  shows "files (volume s') = files (volume s)"
    "cfg' \<noteq> cfg \<or> parsed \<Longrightarrow> \<exists>d. files (volume s) n = Some d \<and>
       (parsed, cfg') = appParseLogConfigJson json_validate json_search (take 127 d) cfg"
proof -
  obtain r d1 s1 where o: "FatFS_SD_OpenFileForRead ff n File s = (r, d1, s1)" by (metis prod_cases3)
  note op = OpenForRead [OF o]
  have *: "files (volume s') = files (volume s) \<and> (cfg' \<noteq> cfg \<or> parsed \<longrightarrow>
      (\<exists>d. files (volume s) n = Some d \<and> (parsed, cfg') = appParseLogConfigJson json_validate json_search (take 127 d) cfg))"
  proof (cases "r = 0")
    case True
    obtain d where d: "files (volume s) n = Some d" "opened (dev_file d1) = Some (n, 0, length d)" using op(2) [OF True] by blast
    have "read_log_config ff json_validate json_search d1 cfg s1 = (parsed, cfg', s')"
      using assms o True by (simp add: appLoadLogConfigFile_def)
    from read_log_config [OF d(2) _ this] show ?thesis using d(1) op(1) by auto
  next
    case False
    then show ?thesis using assms o op(1) by (auto simp: appLoadLogConfigFile_def)
  qed
  then show "files (volume s') = files (volume s)" "cfg' \<noteq> cfg \<or> parsed \<Longrightarrow> \<exists>d. files (volume s) n = Some d \<and>
       (parsed, cfg') = appParseLogConfigJson json_validate json_search (take 127 d) cfg" by blast+
qed

end

text \<open>What is asked of the JSON library: for the key it gives the place of the digits of the number.\<close>

definition json_finds :: "json_search \<Rightarrow> bytes \<Rightarrow> string \<Rightarrow> u32 \<Rightarrow> bool" where
  "json_finds json_search doc name v \<longleftrightarrow> (case json_search doc (ascii name) of None \<Rightarrow> False
     | Some (off, len) \<Rightarrow> unat len < 32 \<and> take (unat len) (drop off doc) = u32_text v)"

definition json_reads_config :: "(bytes \<Rightarrow> bool) \<Rightarrow> json_search \<Rightarrow> log_config \<Rightarrow> bool" where
  "json_reads_config json_validate json_search cfg \<longleftrightarrow>
     (let doc = log_config_text cfg
      in json_validate doc \<and> json_finds json_search doc ''cluster_size'' (cluster_size cfg) \<and>
         json_finds json_search doc ''log_file_size'' (log_file_size cfg) \<and>
         json_finds json_search doc ''log_file_count'' (log_file_count cfg))"

text \<open>The numbers \<open>strtol\<close> keeps.\<close>

definition config_in_range :: "log_config \<Rightarrow> bool" where
  "config_in_range cfg \<longleftrightarrow> (\<forall>v \<in> {cluster_size cfg, log_file_size cfg, log_file_count cfg}. 0 < v \<and> v \<le> 0x7FFFFFFF)"

lemma config_entry_found:
  assumes "json_finds json_search doc name v" "0 < v" "v \<le> 0x7FFFFFFF"
  shows "log_config_entry json_search doc name parsed target = (v, v)"
proof -
  obtain off len where f: "json_search doc (ascii name) = Some (off, len)" "unat len < 32"
    "take (unat len) (drop off doc) = nat_digits (unat v)"
    using assms(1) by (auto simp: json_finds_def u32_text_def split: option.splits)
  have d: "nat_digits (unat v) \<noteq> []" "list_all is_digit (nat_digits (unat v))" "digits_val (nat_digits (unat v)) = unat v"
    using nat_digits_prop by blast+
  have "0 \<notin> set (nat_digits (unat v))" using d(2) by (auto simp: list_all_iff is_digit_def)
  moreover have "unat v \<le> 2147483647" using assms(3) by (simp add: word_le_nat_alt)
  ultimately have "strtol10 (nat_digits (unat v) @ [0]) = (int (unat v), [])"
    using strtol10_digits [of "nat_digits (unat v) @ [0]" "nat_digits (unat v)"] d by simp
  then show ?thesis using f assms(2)
    by (simp add: log_config_entry_def FileHandler_GetValue_def FileHandler_ConvertToInteger_def)
qed

lemma parse_stored_config:
  assumes "json_reads_config json_validate json_search cfg" "config_in_range cfg"
  shows "appParseLogConfigJson json_validate json_search (log_config_text cfg) cfg0 = (True, cfg)"
proof -
  have r: "json_validate (log_config_text cfg)"
    "json_finds json_search (log_config_text cfg) ''cluster_size'' (cluster_size cfg)"
    "json_finds json_search (log_config_text cfg) ''log_file_size'' (log_file_size cfg)"
    "json_finds json_search (log_config_text cfg) ''log_file_count'' (log_file_count cfg)"
    using assms(1) by (simp_all add: json_reads_config_def Let_def)
  note e = config_entry_found [OF r(2)] config_entry_found [OF r(3)] config_entry_found [OF r(4)]
  show ?thesis using assms(2) r(1) e by (simp add: config_in_range_def appParseLogConfigJson_def)
qed

text \<open>No parser makes a size zero.\<close>

definition sizes_positive :: "log_config \<Rightarrow> bool" where
  "sizes_positive cfg \<longleftrightarrow> 0 < cluster_size cfg \<and> 0 < log_file_size cfg \<and> 0 < log_file_count cfg"

lemma default_log_config_positive: "sizes_positive default_log_config"
  by (simp add: sizes_positive_def default_log_config_def CLUSTER_SIZE_def MAX_LOG_FILE_SIZE_def MAX_LOG_FILE_COUNT_def)

lemma config_entry_positive: "0 < target \<Longrightarrow> 0 < snd (log_config_entry json_search doc name parsed target)"
  by (auto simp: log_config_entry_def split: option.splits prod.splits)

lemma parse_positive: "sizes_positive cfg \<Longrightarrow> sizes_positive (snd (appParseLogConfigJson json_validate json_search doc cfg))"
  using config_entry_positive by (auto simp: sizes_positive_def appParseLogConfigJson_def Let_def split: prod.splits) (metis snd_conv)+

lemma set_params:
  "sizes_positive cfg \<Longrightarrow> appCanLogSetClusterSize (cluster_size cfg)
     (appCanLogSetFileConfig (log_file_size cfg) (log_file_count cfg) p) = cfg"
  by (auto simp: sizes_positive_def appCanLogSetClusterSize_def appCanLogSetFileConfig_def)

text \<open>Formatting, on a card whose driver keeps the contract.\<close>

context fatfs_volume
begin

lemma format_card:
  "log_params (format_card ff erase f cfg b) = log_params b"
  "boot_mountRes (format_card ff erase f cfg b) = 0 \<Longrightarrow>
     \<exists>x. files (volume (boot_fs (format_card ff erase f cfg b))) = Map.empty(LogConfigFileName := x)"
proof -
  obtain s1 where u: "FatFS_SD_Unmount ff (boot_fs b) = (0, s1)" using Unmount by (metis prod.collapse)
  obtain r2 v2 where e: "erase (volume s1) = (r2, v2)" by fastforce
  obtain r3 s3 where f3: "FatFS_SD_Format_Fat32 ff (cluster_size cfg) (s1\<lparr>volume := v2\<rparr>) = (r3, s3)" by fastforce
  obtain r4 s4 where m: "FatFS_SD_Mount ff s3 = (r4, s4)" by fastforce
  obtain r5 s5 where st: "store_log_config ff LogConfigFileName f cfg s4 = (r5, s5)" by fastforce
  have res: "format_card ff erase f cfg b = (if r2 = 0 \<and> r3 = 0 then b\<lparr>boot_fs := s5, boot_mountRes := ucast r4\<rparr>
      else if r2 = 0 then b\<lparr>boot_fs := s3, boot_mountRes := 1\<rparr> else b\<lparr>boot_fs := s1\<lparr>volume := v2\<rparr>, boot_mountRes := 1\<rparr>)"
    using u e f3 m st by (simp add: format_card_def appStoreLogConfigFile_def Let_def)
  show "log_params (format_card ff erase f cfg b) = log_params b" using res by simp
  assume "boot_mountRes (format_card ff erase f cfg b) = 0"
  then have z: "r2 = 0" "r3 = 0" using res by (auto split: if_splits)
  have "files (volume s3) = Map.empty" using Format [OF f3 [unfolded z(2)]] .
  then have "files (volume s4) = Map.empty" using Mount [of s3] m by simp
  then show "\<exists>x. files (volume (boot_fs (format_card ff erase f cfg b))) = Map.empty(LogConfigFileName := x)"
    using conjunct1 [OF store_log_config [OF st]] res z by auto
qed

end

section \<open>Properties\<close>

text \<open>Opening and reading a file that is there works.\<close>

definition reads_work :: "('v, 'f) fatfs_ops \<Rightarrow> ('v \<Rightarrow> bytes \<Rightarrow> bytes option) \<Rightarrow> ('f \<Rightarrow> (bytes \<times> nat \<times> nat) option) \<Rightarrow> bool" where
  "reads_work ff files opened \<longleftrightarrow>
     (\<forall>v f n d. files v n = Some d \<longrightarrow> length d < 4294967296 \<longrightarrow> fst (f_open ff v f n 0x01) = 0) \<and>
     (\<forall>v f n p d m. opened f = Some (n, p, length d) \<longrightarrow> files v n = Some d \<longrightarrow> fst (f_read ff v f m) = 0)"

context fatfs
begin

lemma reads_work_open:
  assumes "reads_work ff files opened" "files (volume s) n = Some d" "length d < 4294967296"
    "FatFS_SD_OpenFileForRead ff n dev s = (r, dev', s')"
  shows "r = 0"
proof -
  have "fst (f_open ff (volume s) (dev_file dev) n 0x01) = 0" using assms(1-3) by (simp add: reads_work_def)
  then show ?thesis using assms(4) by (auto simp: FatFS_SD_OpenFileForRead_def Let_def split: prod.splits)
qed

text \<open>Then a stored parameter file is read as it was written.\<close>

lemma read_stored_config:
  assumes w: "reads_work ff files opened" "json_reads_config json_validate json_search cfg" "config_in_range cfg"
    and o: "opened (dev_file dev) = Some (n, 0, length (log_config_text cfg))"
      "files (volume s) n = Some (log_config_text cfg)"
    and run: "read_log_config ff json_validate json_search dev cfg0 s = (parsed, cfg', s')"
  shows "parsed \<and> cfg' = cfg"
proof -
  let ?d = "log_config_text cfg" and ?l = "of_nat (length (log_config_text cfg)) :: u32"
  have l: "0 < length ?d" "length ?d < 128" using log_config_text_length [of cfg] by (simp_all add: log_config_text_def ascii_def)
  have l': "unat ?l = length ?d" using l(2) by (simp add: unat_of_nat_u32)
  then have nz: "?l \<noteq> 0" using l(1) by auto
  have sz: "f_size ff (dev_file dev) = ?l" using size_of [OF o(1)] by auto
  define n' where "n' = (if ?l < 127 then ?l else 127)"
  have n': "unat n' = length ?d" using l l' by (auto simp: n'_def word_less_nat_alt)
  obtain r1 bs f v where rd: "f_read ff (volume s) (dev_file dev) n' = (r1, bs, f, v)" by (metis prod_cases4)
  have r1: "r1 = 0" using w(1) o rd unfolding reads_work_def by (metis fst_conv)
  have bs: "bs = ?d" using read_file [OF o rd [unfolded r1]] n' by simp
  have "(of_nat (length bs) :: u32) = n'" using n' l' bs by (simp add: word_unat_eq_iff)
  then have "\<exists>d1 s1. FatFS_SD_ReadFile ff n' dev s = (0, ?d, d1, s1)"
    using rd r1 bs by (simp add: FatFS_SD_ReadFile_def Let_def)
  then obtain d1 s1 where rf: "FatFS_SD_ReadFile ff n' dev s = (0, ?d, d1, s1)" by blast
  have p: "appParseLogConfigJson json_validate json_search (take (unat n') ?d) cfg0 = (True, cfg)"
    using parse_stored_config [OF w(2,3)] n' by simp
  show ?thesis
    using run sz nz rf p unfolding n'_def
    by (auto simp: read_log_config_def FatFS_SD_GetFileSize_def Let_def split: prod.splits)
qed

end

text \<open>C5. A format request the control page stores takes effect at the next start: with a JSON library that
  finds the numbers, a card that can be read and sizes \<open>strtol\<close> keeps, the log manager gets exactly the
  sizes requested, whatever the old parameter file says.  If the card is mounted afterwards it was
  formatted and holds at most the parameter file; the request is gone, so it is served once.  The old
  request file, if any, must not be longer than the new text.\<close>

theorem format_request_served:
  assumes "fatfs_volume ff files opened" "reads_work ff files opened"
    and "json_reads_config json_validate json_search cfg" "config_in_range cfg"
    and "FatFS_SD_Formatting_Request ff File (cluster_size cfg) (log_file_size cfg) (log_file_count cfg) s = (0, s')"
    and "\<And>old. files (volume s) FormatRequestFileName = Some old \<Longrightarrow> length old \<le> length (log_config_text cfg)"
    and "files (volume (boot_fs b)) = files (volume s')"
    and "b' = appHandleFormattingRequest ff erase json_validate json_search f1 f2 b"
  shows "log_params b' = cfg \<and>
    (boot_mountRes b' = 0 \<longrightarrow> (\<exists>x. files (volume (boot_fs b')) = Map.empty(LogConfigFileName := x)))"
proof -
  let ?q = "FormatRequestFileName"
  note v = assms(1) and fat = fatfs_volume.axioms(1) [OF assms(1)]
  have st: "store_log_config ff ?q File cfg s = (0, s')"
    using assms(5) by (cases cfg) (simp add: FatFS_SD_Formatting_Request_def)
  obtain old where old: "files (volume s) ?q = Some old \<or> old = []"
    "files (volume s') ?q = Some (log_config_text cfg @ drop (length (log_config_text cfg)) old)"
    using fatfs.store_log_config [OF fat st] by blast
  have stored: "files (volume s') ?q = Some (log_config_text cfg)" using old assms(6) by auto
  obtain ok c1 s1 where l: "appLoadLogConfigFile ff json_validate json_search LogConfigFileName f1 default_log_config (boot_fs b)
      = (ok, c1, s1)" by (metis prod_cases3)
  have f1: "files (volume s1) = files (volume s')" using fatfs.appLoadLogConfigFile(1) [OF fat l] assms(7) by simp
  obtain r d2 s2 where o: "FatFS_SD_OpenFileForRead ff ?q f2 s1 = (r, d2, s2)" by (metis prod_cases3)
  have r: "r = 0" using fatfs.reads_work_open [OF fat assms(2) _ _ o] f1 stored log_config_text_length [of cfg] by simp
  have o2: "opened (dev_file d2) = Some (?q, 0, length (log_config_text cfg))" "files (volume s2) ?q = Some (log_config_text cfg)"
    using fatfs.OpenForRead [OF fat o] r f1 stored by auto
  obtain p c3 s3 where rd: "read_log_config ff json_validate json_search d2 c1 s2 = (p, c3, s3)" by (metis prod_cases3)
  have c3: "c3 = cfg" using fatfs.read_stored_config [OF fat assms(2-4) o2 rd] by simp
  have pos: "sizes_positive cfg" using assms(4) by (simp add: config_in_range_def sizes_positive_def)
  let ?b = "b\<lparr>boot_fs := s3, log_params := cfg\<rparr>"
  have b': "b' = format_card ff erase f1 cfg ?b"
    using assms(8) l o r rd c3 set_params [OF pos] by (simp add: appHandleFormattingRequest_def)
  show ?thesis using fatfs_volume.format_card [OF v] b' by simp
qed

text \<open>C28. A start without a format request, on a card that has a file system, touches no file but the
  parameter file, whatever the card holds and whatever the calls return, keeps the mount result and
  gives the log manager sizes that are not zero.\<close>

theorem start_keeps_files:
  assumes "fatfs_volume ff files opened"
    and "files (volume (boot_fs b)) FormatRequestFileName = None" "boot_mountRes b \<noteq> FR_NO_FILESYSTEM"
    and "b' = appHandleFormattingRequest ff erase json_validate json_search f1 f2 b"
  shows "(\<forall>n. n \<noteq> LogConfigFileName \<longrightarrow> files (volume (boot_fs b')) n = files (volume (boot_fs b)) n) \<and>
    boot_mountRes b' = boot_mountRes b \<and> sizes_positive (log_params b')"
proof -
  note fat = fatfs_volume.axioms(1) [OF assms(1)]
  obtain ok c1 s1 where l: "appLoadLogConfigFile ff json_validate json_search LogConfigFileName f1 default_log_config (boot_fs b)
      = (ok, c1, s1)" by (metis prod_cases3)
  note fl = fatfs.appLoadLogConfigFile [OF fat l]
  obtain r d2 s2 where o: "FatFS_SD_OpenFileForRead ff FormatRequestFileName f2 s1 = (r, d2, s2)" by (metis prod_cases3)
  have r: "r \<noteq> 0" using fatfs.OpenForRead [OF fat o] fl(1) assms(2) by auto
  have f2: "files (volume s2) = files (volume (boot_fs b))" using fatfs.OpenForRead(1) [OF fat o] fl(1) by simp
  obtain r3 s3 where st: "store_log_config ff LogConfigFileName f1 c1 s2 = (r3, s3)" by fastforce
  have pos: "sizes_positive c1"
  proof (cases "c1 = default_log_config")
    case True
    then show ?thesis by (simp add: default_log_config_positive)
  next
    case False
    then obtain d where "(ok, c1) = appParseLogConfigJson json_validate json_search (take 127 d) default_log_config"
      using fl(2) by blast
    then show ?thesis using parse_positive [OF default_log_config_positive] by (metis snd_conv)
  qed
  have b': "b' = (if ok then b\<lparr>boot_fs := s2, log_params := c1\<rparr> else b\<lparr>boot_fs := s3, log_params := c1\<rparr>)"
    using assms(3,4) l o r st set_params [OF pos]
    by (simp add: appHandleFormattingRequest_def appStoreLogConfigFile_def)
  have "files (volume (boot_fs b')) n = files (volume (boot_fs b)) n" if "n \<noteq> LogConfigFileName" for n
  proof -
    have "files (volume s3) n = files (volume s2) n"
      using fun_cong [OF conjunct1 [OF fatfs.store_log_config [OF fat st]], of n] that by simp
    then show ?thesis using b' f2 by auto
  qed
  then show ?thesis using b' pos by auto
qed

section \<open>Examples\<close>

definition sample_cfg :: log_config where
  "sample_cfg = \<lparr>cluster_size = 32768, log_file_size = 1048576, log_file_count = 3\<rparr>"

definition sample_fs :: "(bytes \<Rightarrow> bytes option) \<Rightarrow> (bytes \<Rightarrow> bytes option) fh_state" where
  "sample_fs v = \<lparr>volume = v,
     fh_ErrorContext = \<lparr>ec_id = 0, ec_code = 0, ec_arg0 = 0, ec_arg1 = 0, ec_line = 0, ec_file = [], ec_function = []\<rparr>,
     fh_recorder = \<lparr>FirstError = zero_entry, LastError = zero_entry, RecentErrors = replicate 10 zero_entry,
       TotalCount = 0, RecentCount = 0, RecentNext = 0\<rparr>, fh_error_led = False\<rparr>"

definition sample_file :: "(bytes \<times> nat \<times> nat) option FatFsDeviceType" where
  "sample_file = \<lparr>readTargetSize = 0, dev_file = None, fflags = 0, writeIndex = 0\<rparr>"

text \<open>The JSON library on the text of \<open>sample_cfg\<close>: the offsets of the three numbers.\<close>

definition sample_config_search :: json_search where
  "sample_config_search doc name = (if name = ascii ''cluster_size'' then Some (16, 5)
     else if name = ascii ''log_file_size'' then Some (38, 7)
     else if name = ascii ''log_file_count'' then Some (63, 1) else None)"

lemma sample_digits: "u32_text 32768 = ascii ''32768''" "u32_text 1048576 = ascii ''1048576''" "u32_text 3 = ascii ''3''"
  by (simp_all add: u32_text_def nat_digits.simps ascii_def of_char_def)

lemma sample_cfg_text:
  "log_config_text sample_cfg = ascii ''{\"cluster_size\":32768,\"log_file_size\":1048576,\"log_file_count\":3}''"
  by (simp add: log_config_text_def sample_cfg_def sample_digits) (simp add: ascii_def)

lemma sample_reads: "json_reads_config (\<lambda>d. True) sample_config_search sample_cfg" "config_in_range sample_cfg"
proof -
  have k: "ascii ''log_file_size'' \<noteq> ascii ''cluster_size''" "ascii ''log_file_count'' \<noteq> ascii ''cluster_size''"
    "ascii ''log_file_count'' \<noteq> ascii ''log_file_size''" by (simp_all add: ascii_def of_char_def)
  have "json_finds sample_config_search (log_config_text sample_cfg) ''cluster_size'' 32768"
    "json_finds sample_config_search (log_config_text sample_cfg) ''log_file_size'' 1048576"
    "json_finds sample_config_search (log_config_text sample_cfg) ''log_file_count'' 3"
    unfolding json_finds_def sample_config_search_def sample_cfg_text sample_digits using k by (simp_all add: ascii_def)
  then show "json_reads_config (\<lambda>d. True) sample_config_search sample_cfg"
    by (simp add: json_reads_config_def sample_cfg_def)
  show "config_in_range sample_cfg" by (simp add: config_in_range_def sample_cfg_def)
qed

lemma stub_reads_work: "reads_work stub_fatfs (\<lambda>v. v) stub_opened"
  by (auto simp: reads_work_def stub_fatfs_def stub_opened_def Let_def split: option.splits if_splits)

lemma stub_open:
  assumes "length old < 4294967296"
  shows "volume s n = None \<Longrightarrow> FatFS_SD_OpenFileForOverWrite stub_fatfs n dev s =
      (0, dev\<lparr>fflags := 2, writeIndex := 0, dev_file := Some (n, 0, 0)\<rparr>, s\<lparr>volume := (volume s)(n \<mapsto> [])\<rparr>)"
    "volume s n = Some old \<Longrightarrow> FatFS_SD_OpenFileForOverWrite stub_fatfs n dev s =
      (0, dev\<lparr>fflags := 2, writeIndex := 0, dev_file := Some (n, 0, length old)\<rparr>, s)"
  using assms by (simp_all add: FatFS_SD_OpenFileForOverWrite_def stub_fatfs_def)

lemma stub_write_start:
  assumes "dev_file dev = Some (n, 0, l)" "fflags dev = 2" "volume s n = Some old" "length cont < 4294967296"
  shows "FatFS_SD_WriteFile stub_fatfs cont (of_nat (length cont)) dev s =
    (0, dev\<lparr>dev_file := Some (n, length cont, max l (length cont))\<rparr>,
     s\<lparr>volume := (volume s)(n \<mapsto> cont @ drop (length cont) old)\<rparr>)"
proof -
  have u: "unat (of_nat (length cont) :: u32) = length cont" using assms(4) by (rule unat_of_nat_u32)
  have w: "stub_write (volume s) (Some (n, 0, l)) cont =
      (0, of_nat (length cont), Some (n, length cont, max l (length cont)), (volume s)(n \<mapsto> cont @ drop (length cont) old))"
    using assms(3,4) by (simp add: stub_write_def)
  show ?thesis using assms u w by (simp add: FatFS_SD_WriteFile_def stub_fatfs_def)
qed

lemma stub_store:
  assumes "volume s n = None \<and> old = [] \<or> volume s n = Some old" "length old < 4294967296"
  shows "\<exists>s'. store_log_config stub_fatfs n File cfg s = (0, s') \<and>
    volume s' n = Some (log_config_text cfg @ drop (length (log_config_text cfg)) old)"
proof -
  let ?t = "log_config_text cfg"
  have l: "\<not> 128 \<le> length ?t" "length ?t < 4294967296" using log_config_text_length [of cfg] by simp_all
  have closes: "\<exists>d2 s2. FatFS_SD_CloseFile stub_fatfs (dev\<lparr>dev_file := Some f\<rparr>) s = (0, d2, s2) \<and> volume s2 = volume s"
    for dev f and s :: "(bytes \<Rightarrow> bytes option) fh_state"
    by (auto simp: FatFS_SD_CloseFile_def stub_fatfs_def Let_def)
  define l0 where "l0 = (if volume s n = None then 0 else length old)"
  define s1 where "s1 = (if volume s n = None then s\<lparr>volume := (volume s)(n \<mapsto> [])\<rparr> else s)"
  let ?d1 = "File\<lparr>fflags := 2, writeIndex := 0, dev_file := Some (n, 0, l0)\<rparr>"
  have o: "FatFS_SD_OpenFileForOverWrite stub_fatfs n File s = (0, ?d1, s1)"
    using assms stub_open [OF assms(2), of s n File] by (auto simp: l0_def s1_def)
  have s1: "volume s1 n = Some old" using assms(1) by (auto simp: s1_def)
  have w: "FatFS_SD_WriteFile stub_fatfs ?t (of_nat (length ?t)) ?d1 s1 =
    (0, ?d1\<lparr>dev_file := Some (n, length ?t, max l0 (length ?t))\<rparr>,
     s1\<lparr>volume := (volume s1)(n \<mapsto> ?t @ drop (length ?t) old)\<rparr>)"
    by (rule stub_write_start) (simp_all add: s1 l)
  obtain d2 s2 where c: "FatFS_SD_CloseFile stub_fatfs (?d1\<lparr>dev_file := Some (n, length ?t, max l0 (length ?t))\<rparr>)
      (s1\<lparr>volume := (volume s1)(n \<mapsto> ?t @ drop (length ?t) old)\<rparr>) = (0, d2, s2)"
    "volume s2 = (volume s1)(n \<mapsto> ?t @ drop (length ?t) old)"
    using closes by fastforce
  show ?thesis using o w c l by (simp add: store_log_config_def)
qed

theorem format_request_served_witness:
  "\<exists>s'. FatFS_SD_Formatting_Request stub_fatfs sample_file 32768 1048576 3 (sample_fs Map.empty) = (0, s') \<and>
     log_params (appHandleFormattingRequest stub_fatfs (\<lambda>v. (0, v)) (\<lambda>d. True) sample_config_search sample_file sample_file
       \<lparr>boot_fs = s', boot_mountRes = 0, log_params = default_log_config\<rparr>) = sample_cfg"
proof -
  have v: "fatfs_volume stub_fatfs (\<lambda>v. v) stub_opened" by (rule stub_fatfs.fatfs_volume_axioms)
  obtain s' where r: "FatFS_SD_Formatting_Request stub_fatfs sample_file (cluster_size sample_cfg)
      (log_file_size sample_cfg) (log_file_count sample_cfg) (sample_fs Map.empty) = (0, s')"
    using stub_store [of "sample_fs Map.empty" FormatRequestFileName "[]" sample_file sample_cfg]
    by (auto simp: FatFS_SD_Formatting_Request_def sample_fs_def sample_cfg_def)
  let ?b = "\<lparr>boot_fs = s', boot_mountRes = 0, log_params = default_log_config\<rparr>"
  have "files (volume (boot_fs ?b)) = files (volume s')" for files :: "_ \<Rightarrow> bytes \<Rightarrow> bytes option" by simp
  from format_request_served [OF v stub_reads_work sample_reads r _ this refl]
  have "log_params (appHandleFormattingRequest stub_fatfs (\<lambda>v. (0, v)) (\<lambda>d. True) sample_config_search sample_file sample_file ?b) = sample_cfg"
    by (simp add: sample_fs_def)
  with r show ?thesis by (auto simp: sample_cfg_def)
qed

theorem start_keeps_files_witness:
  "volume (boot_fs (appHandleFormattingRequest stub_fatfs (\<lambda>v. (0, v)) (\<lambda>d. False) sample_config_search sample_file sample_file
     \<lparr>boot_fs = sample_fs [ascii ''CONF.TXT'' \<mapsto> [1, 2, 3]], boot_mountRes = 0, log_params = sample_cfg\<rparr>))
     (ascii ''CONF.TXT'') = Some [1, 2, 3]"
proof -
  have v: "fatfs_volume stub_fatfs (\<lambda>v. v) stub_opened" by (rule stub_fatfs.fatfs_volume_axioms)
  have n: "FormatRequestFileName \<noteq> ascii ''CONF.TXT''" "ascii ''CONF.TXT'' \<noteq> LogConfigFileName"
    by (simp_all add: FormatRequestFileName_def LogConfigFileName_def ascii_def of_char_def)
  let ?b = "\<lparr>boot_fs = sample_fs [ascii ''CONF.TXT'' \<mapsto> [1, 2, 3]], boot_mountRes = 0, log_params = sample_cfg\<rparr>"
  have "volume (boot_fs ?b) FormatRequestFileName = None" "boot_mountRes ?b \<noteq> FR_NO_FILESYSTEM"
    using n by (simp_all add: sample_fs_def)
  from start_keeps_files [OF v this refl] n show ?thesis by (simp add: sample_fs_def)
qed

text \<open>Storing over a longer file keeps its tail, because the file is opened without truncation: the
  text of \<open>{1, 1, 1}\<close> over the text of \<open>sample_cfg\<close> leaves the last ten bytes of the latter, and the
  JSON document is no longer one.\<close>

theorem shorter_config_keeps_tail:
  "let s = sample_fs [LogConfigFileName \<mapsto> log_config_text sample_cfg];
       cfg = \<lparr>cluster_size = 1, log_file_size = 1, log_file_count = 1\<rparr>;
       (r, s') = appStoreLogConfigFile stub_fatfs LogConfigFileName sample_file cfg s
   in r = 0 \<and> volume s' LogConfigFileName = Some (log_config_text cfg @ ascii ''_count\":3}'')"
proof -
  let ?cfg = "\<lparr>cluster_size = 1, log_file_size = 1, log_file_count = 1\<rparr>"
  let ?s = "sample_fs [LogConfigFileName \<mapsto> log_config_text sample_cfg]"
  have d: "u32_text 1 = [49]" by (simp add: u32_text_def nat_digits.simps)
  have t: "drop (length (log_config_text ?cfg)) (log_config_text sample_cfg) = ascii ''_count\":3}''"
    unfolding sample_cfg_text by (simp add: log_config_text_def d ascii_def)
  show ?thesis
    using stub_store [of ?s LogConfigFileName "log_config_text sample_cfg" sample_file ?cfg]
      log_config_text_length [of sample_cfg]
    by (auto simp: appStoreLogConfigFile_def t sample_fs_def)
qed
end
