(* ===== verification/CanLogStore.thy ===== *)
theory CanLogStore
  imports CommTypes CanLogHistory LogConfigFile
begin

text \<open>
  \<open>app/services/logging/CanLogManager.c\<close>, the way from an entry to the card: entries are put into the
  staging buffer, and the SD task writes each full block into the current log file, goes on to the
  next file when one is full and wraps around after the last one.  The static variables are the record
  \<open>clm_state\<close>.  \<open>clock n\<close> is what the n-th call of \<open>FDCAN_GetTimestampHook\<close> returns.  The lemmas
  relate the store path to the histories of \<open>CanLogHistory\<close> and to a ring of files; the properties say
  where every accepted entry ends up.
\<close>

section \<open>State\<close>

record CanLogMetaDataType =
  meta_epoch :: u32
  fileIndex :: u32
  byteOffset :: u32
  meta_crc :: u32

text \<open>The counters the status pages show.\<close>

record clm_telemetry =
  Rb1BytesHighWater :: u32
  Rb1TelemetryWindowInitialized :: u8
  Rb1BytesMinSinceStatus :: u32
  Rb1BytesMaxSinceStatus :: u32
  Rb1BytesAtLastSdBlockStart :: u32
  Rb1BytesAtLastSdBlockEndBeforeConsume :: u32
  Rb1BytesAtLastSdBlockEndAfterConsume :: u32
  CanLogSdBlockAttemptsSinceStatus :: u32
  CanLogSdBlocksWrittenSinceStatus :: u32
  CanLogSdBlockErrorsSinceStatus :: u32
  CanLogSdLastBlockFrames :: u32
  CanLogSdWriteLastUs :: u32
  CanLogSdSyncLastUs :: u32
  CanLogSdStoreBlockLastUs :: u32
  CanLogSdWriteMaxSinceStatusUs :: u32
  CanLogSdSyncMaxSinceStatusUs :: u32
  CanLogSdStoreBlockMaxSinceStatusUs :: u32
  CanLogSdStoreBlockSumSinceStatusUs :: u64
  CanLogSdSyncSkippedSinceStatus :: u32
  CanLogSdWriteMaxUs :: u32
  CanLogSdSyncMaxUs :: u32
  CanLogSdStoreBlockMaxUs :: u32

text \<open>The part \<open>CanLog\<close> of \<open>CanLogCtrlData\<close>.\<close>

record 'f can_log =
  filename :: bytes
  openRes :: u8
  fileHeadIndex :: u32
  fileTailIndex :: u32
  fileIndexWrapped :: bool
  writeFileDevice :: "'f FatFsDeviceType"

text \<open>The static variables.  Two fields are not variables of the program: \<open>clm_ticks\<close> counts the readings of the clock,
  and \<open>clm_handed\<close> is the trace of the entries given to \<open>appCanLogStoreToFrameBuffer\<close>, which no operation reads.\<close>

record ('r, 'v, 'f) clm_state =
  clm_buf :: "'r clb_state"
  clm_fs :: "'v fh_state"
  clm_log :: "'f can_log"
  clm_params :: log_config
  LogMetaData :: CanLogMetaDataType
  clm_tel :: clm_telemetry
  clm_ticks :: nat
  clm_handed :: "bytes list"

definition FDCAN_GetTimestampHook :: "(nat \<Rightarrow> u64) \<Rightarrow> ('r, 'v, 'f) clm_state \<Rightarrow> u64 \<times> ('r, 'v, 'f) clm_state" where
  "FDCAN_GetTimestampHook clock s = (clock (clm_ticks s), s\<lparr>clm_ticks := Suc (clm_ticks s)\<rparr>)"

text \<open>\<open>Error_Handler\<close> lights the LED and returns.\<close>

definition CanLogFileManager_ErrorHandler :: "('r, 'v, 'f) clm_state \<Rightarrow> ('r, 'v, 'f) clm_state" where
  "CanLogFileManager_ErrorHandler s = s\<lparr>clm_fs := (clm_fs s)\<lparr>fh_error_led := True\<rparr>\<rparr>"

section \<open>Telemetry\<close>

definition CanLogManager_ReadRb1UsedBytes :: "'r lwrb_ops \<Rightarrow> ('r, 'v, 'f) clm_state \<Rightarrow> u32" where
  "CanLogManager_ReadRb1UsedBytes lops s =
     (case CanLogBuffer_UsedBytes lops True (clm_buf s) of (r, None) \<Rightarrow> 0 | (r, Some used) \<Rightarrow> used)"

definition CanLogManager_RecordRb1UsedBytes :: "u32 \<Rightarrow> clm_telemetry \<Rightarrow> clm_telemetry" where
  "CanLogManager_RecordRb1UsedBytes used t =
     (if Rb1TelemetryWindowInitialized t = 0
      then t\<lparr>Rb1BytesMinSinceStatus := used, Rb1BytesMaxSinceStatus := used, Rb1TelemetryWindowInitialized := 1\<rparr>
      else
        let t = (if used < Rb1BytesMinSinceStatus t then t\<lparr>Rb1BytesMinSinceStatus := used\<rparr> else t)
        in if used > Rb1BytesMaxSinceStatus t then t\<lparr>Rb1BytesMaxSinceStatus := used\<rparr> else t)"

definition CanLogManager_ResetBufferTelemetryWindow :: "u32 \<Rightarrow> clm_telemetry \<Rightarrow> clm_telemetry" where
  "CanLogManager_ResetBufferTelemetryWindow rb1_used t =
     t\<lparr>Rb1TelemetryWindowInitialized := 1, Rb1BytesMinSinceStatus := rb1_used, Rb1BytesMaxSinceStatus := rb1_used,
       CanLogSdBlockAttemptsSinceStatus := 0, CanLogSdBlocksWrittenSinceStatus := 0,
       CanLogSdBlockErrorsSinceStatus := 0, CanLogSdWriteMaxSinceStatusUs := 0, CanLogSdSyncMaxSinceStatusUs := 0,
       CanLogSdStoreBlockMaxSinceStatusUs := 0, CanLogSdStoreBlockSumSinceStatusUs := 0,
       CanLogSdSyncSkippedSinceStatus := 0\<rparr>"

definition CanLogManager_ResetBufferTelemetry :: "u32 \<Rightarrow> clm_telemetry \<Rightarrow> clm_telemetry" where
  "CanLogManager_ResetBufferTelemetry rb1_used t =
     CanLogManager_ResetBufferTelemetryWindow rb1_used
       (t\<lparr>Rb1BytesHighWater := 0, Rb1BytesAtLastSdBlockStart := 0, Rb1BytesAtLastSdBlockEndBeforeConsume := 0,
          Rb1BytesAtLastSdBlockEndAfterConsume := 0, CanLogSdBlockAttemptsSinceStatus := 0,
          CanLogSdBlocksWrittenSinceStatus := 0, CanLogSdBlockErrorsSinceStatus := 0, CanLogSdLastBlockFrames := 0,
          CanLogSdWriteLastUs := 0, CanLogSdSyncLastUs := 0, CanLogSdStoreBlockLastUs := 0,
          CanLogSdWriteMaxSinceStatusUs := 0, CanLogSdSyncMaxSinceStatusUs := 0,
          CanLogSdStoreBlockMaxSinceStatusUs := 0, CanLogSdStoreBlockSumSinceStatusUs := 0,
          CanLogSdSyncSkippedSinceStatus := 0\<rparr>)"

definition CanLogManager_RecordSdBlockTiming ::
  "u32 \<Rightarrow> u32 \<Rightarrow> u32 \<Rightarrow> u32 \<Rightarrow> comm_status \<Rightarrow> clm_telemetry \<Rightarrow> clm_telemetry" where
  "CanLogManager_RecordSdBlockTiming write_us sync_us store_block_us frame_count result t =
     (let t = t\<lparr>CanLogSdBlockAttemptsSinceStatus := CanLogSdBlockAttemptsSinceStatus t + 1,
                CanLogSdLastBlockFrames := frame_count, CanLogSdWriteLastUs := write_us,
                CanLogSdSyncLastUs := sync_us, CanLogSdStoreBlockLastUs := store_block_us\<rparr>;
          t = (if write_us > CanLogSdWriteMaxSinceStatusUs t then t\<lparr>CanLogSdWriteMaxSinceStatusUs := write_us\<rparr> else t)
      in if COMM_SUCCESS = result then
           let t = t\<lparr>CanLogSdBlocksWrittenSinceStatus := CanLogSdBlocksWrittenSinceStatus t + 1,
                     CanLogSdStoreBlockSumSinceStatusUs := CanLogSdStoreBlockSumSinceStatusUs t + ucast store_block_us\<rparr>;
               t = (if sync_us > CanLogSdSyncMaxSinceStatusUs t then t\<lparr>CanLogSdSyncMaxSinceStatusUs := sync_us\<rparr> else t)
           in if store_block_us > CanLogSdStoreBlockMaxSinceStatusUs t
              then t\<lparr>CanLogSdStoreBlockMaxSinceStatusUs := store_block_us\<rparr> else t
         else t\<lparr>CanLogSdBlockErrorsSinceStatus := CanLogSdBlockErrorsSinceStatus t + 1\<rparr>)"

definition raise_highwater :: "u32 \<Rightarrow> clm_telemetry \<Rightarrow> clm_telemetry" where
  "raise_highwater used t = (if used > Rb1BytesHighWater t then t\<lparr>Rb1BytesHighWater := used\<rparr> else t)"

definition CanLogManager_UpdateRb1BytesHighWater ::
  "'r lwrb_ops \<Rightarrow> ('r, 'v, 'f) clm_state \<Rightarrow> ('r, 'v, 'f) clm_state" where
  "CanLogManager_UpdateRb1BytesHighWater lops s =
     (case CanLogBuffer_UsedBytes lops True (clm_buf s) of
        (r, Some used) \<Rightarrow>
          if r = CLB_E_OK then s\<lparr>clm_tel := raise_highwater used (CanLogManager_RecordRb1UsedBytes used (clm_tel s))\<rparr> else s
      | (r, None) \<Rightarrow> s)"

section \<open>An entry into the buffer\<close>

text \<open>The entry is also appended to the trace \<open>clm_handed\<close>.\<close>

definition appCanLogStoreToFrameBuffer ::
  "'r lwrb_ops \<Rightarrow> bytes \<Rightarrow> ('r, 'v, 'f) clm_state \<Rightarrow> (comm_status \<times> ('r, 'v, 'f) clm_state) option" where
  "appCanLogStoreToFrameBuffer lops ent s =
     (case CanLogBuffer_AddEntry lops ent (ucast (ent ! 2)) (clm_buf s) of
        None \<Rightarrow> None
      | Some (buffer_res, buf) \<Rightarrow>
          let c = clb_counters buf;
              c = (if CLB_E_OK \<noteq> buffer_res then c\<lparr>CanLogManager_FrameDropCount1 := CanLogManager_FrameDropCount1 c + 1\<rparr> else c);
              c = (if CLB_E_BUFFER_FULL = buffer_res
                   then c\<lparr>CanLogManager_FrameDropCount2 := CanLogManager_FrameDropCount2 c + 1\<rparr> else c);
              s = s\<lparr>clm_buf := buf\<lparr>clb_counters := c\<rparr>, clm_handed := clm_handed s @ [ent]\<rparr>
          in Some (if CLB_E_OK \<noteq> buffer_res then COMM_ERROR else COMM_SUCCESS,
                   CanLogManager_UpdateRb1BytesHighWater lops s))"

section \<open>A block onto the card\<close>

text \<open>The functions take the device of the current log file, the only one they are called with.\<close>

definition with_device :: "'f FatFsDeviceType \<Rightarrow> 'v fh_state \<Rightarrow> ('r, 'v, 'f) clm_state \<Rightarrow> ('r, 'v, 'f) clm_state" where
  "with_device dev fs s = s\<lparr>clm_fs := fs, clm_log := (clm_log s)\<lparr>writeFileDevice := dev\<rparr>\<rparr>"

definition raise_sd_max :: "u32 \<Rightarrow> u32 \<Rightarrow> u32 \<Rightarrow> clm_telemetry \<Rightarrow> clm_telemetry" where
  "raise_sd_max w y b t =
     (let t = (if w > CanLogSdWriteMaxUs t then t\<lparr>CanLogSdWriteMaxUs := w\<rparr> else t);
          t = (if y > CanLogSdSyncMaxUs t then t\<lparr>CanLogSdSyncMaxUs := y\<rparr> else t)
      in if b > CanLogSdStoreBlockMaxUs t then t\<lparr>CanLogSdStoreBlockMaxUs := b\<rparr> else t)"

text \<open>The result, the three times and the state; \<open>given\<close> says that the three pointers are not null.\<close>

definition appCanLogStoreToSd ::
  "('v, 'f) fatfs_ops \<Rightarrow> (nat \<Rightarrow> u64) \<Rightarrow> bytes \<Rightarrow> u32 \<Rightarrow> bool \<Rightarrow> ('r, 'v, 'f) clm_state \<Rightarrow>
   comm_status \<times> u32 \<times> u32 \<times> u32 \<times> ('r, 'v, 'f) clm_state" where
  "appCanLogStoreToSd ff clock data len given s =
     (if \<not> given then (COMM_NULL_POINTER, 0, 0, 0, s)
      else
        let (start_us, s) = FDCAN_GetTimestampHook clock s;
            (fr, dev, fs) = FatFS_SD_WriteFile ff data len (writeFileDevice (clm_log s)) (clm_fs s);
            s = with_device dev fs s;
            (res, write_us, sync_us, store_block_us, s) =
              (if fr = FR_OK then
                 let (after_write_us, s) = FDCAN_GetTimestampHook clock s;
                     (res, after_sync_us, s) =
                       (if FatFS_SD_SyncPending ff (Some (writeFileDevice (clm_log s))) (clm_fs s) then
                          let (fr, dev, fs) = FatFS_SD_Flush ff (writeFileDevice (clm_log s)) (clm_fs s);
                              s = with_device dev fs s;
                              (t, s) = FDCAN_GetTimestampHook clock s
                          in (if fr \<noteq> FR_OK then COMM_ERROR else COMM_SUCCESS, t, s)
                        else (COMM_SUCCESS, after_write_us,
                              s\<lparr>clm_tel := (clm_tel s)\<lparr>CanLogSdSyncSkippedSinceStatus :=
                                   CanLogSdSyncSkippedSinceStatus (clm_tel s) + 1\<rparr>\<rparr>));
                     w = ucast (after_write_us - start_us); y = ucast (after_sync_us - after_write_us);
                     b = ucast (after_sync_us - start_us)
                 in (res, w, y, b, s\<lparr>clm_tel := raise_sd_max w y b (clm_tel s)\<rparr>)
               else
                 let (after_write_us, s) = FDCAN_GetTimestampHook clock s;
                     w = ucast (after_write_us - start_us);
                     t = clm_tel s
                 in (COMM_ERROR, w, 0, w,
                     s\<lparr>clm_tel := if w > CanLogSdWriteMaxUs t then t\<lparr>CanLogSdWriteMaxUs := w\<rparr> else t\<rparr>))
        in (res, write_us, sync_us, store_block_us,
            s\<lparr>LogMetaData := (LogMetaData s)\<lparr>
                byteOffset := snd (FatFS_SD_GetBufferedFileSize ff (writeFileDevice (clm_log s))),
                fileIndex := fileHeadIndex (clm_log s)\<rparr>\<rparr>))"

definition log_name :: "u32 \<Rightarrow> bytes" where
  "log_name i = ascii ''/logs/CAN.LOG'' @ int_text (sint i)"

text \<open>The next file, when the current one is full.\<close>

definition next_file :: "log_config \<Rightarrow> 'f can_log \<Rightarrow> 'f can_log" where
  "next_file p l =
     (let l = (if fileHeadIndex l \<ge> appCanLogGetMaxLogIndex p then l\<lparr>fileIndexWrapped := True\<rparr> else l);
          l = l\<lparr>fileHeadIndex := (fileHeadIndex l + 1) mod log_file_count p\<rparr>;
          l = (if fileIndexWrapped l then l\<lparr>fileTailIndex := (fileHeadIndex l + 1) mod log_file_count p\<rparr> else l)
      in l\<lparr>filename := log_name (fileHeadIndex l)\<rparr>)"

definition appCanLogCheckNewFileOpenLocked ::
  "('v, 'f) fatfs_ops \<Rightarrow> ('r, 'v, 'f) clm_state \<Rightarrow> ('r, 'v, 'f) clm_state" where
  "appCanLogCheckNewFileOpenLocked ff s =
     (let (FileSizeRes, FileSize) = FatFS_SD_GetBufferedFileSize ff (writeFileDevice (clm_log s));
          p = clm_params s
      in if FileSizeRes = FR_OK \<and> FileSize \<ge> log_file_size p then
           let (r, dev, fs) = FatFS_SD_CloseFile ff (writeFileDevice (clm_log s)) (clm_fs s);
               s = with_device dev fs s
           in if r = FR_OK \<and> log_file_count p > 0 then
                let s = s\<lparr>clm_log := next_file p (clm_log s)\<rparr>;
                    (r, dev, fs) = FatFS_SD_OpenFileForOverWrite ff (filename (clm_log s)) (writeFileDevice (clm_log s)) (clm_fs s);
                    s = with_device dev fs s;
                    s = s\<lparr>clm_log := (clm_log s)\<lparr>openRes := ucast r\<rparr>\<rparr>;
                    s = (if openRes (clm_log s) \<noteq> 0 then CanLogFileManager_ErrorHandler s else s);
                    (r, dev, fs) = FatFS_SD_Flush ff (writeFileDevice (clm_log s)) (clm_fs s);
                    s = with_device dev fs s
                in if r \<noteq> FR_OK then CanLogFileManager_ErrorHandler s else s
              else CanLogFileManager_ErrorHandler s
         else s)"

definition note_used :: "(u32 \<Rightarrow> clm_telemetry \<Rightarrow> clm_telemetry) \<Rightarrow> u32 \<Rightarrow> ('r, 'v, 'f) clm_state \<Rightarrow> ('r, 'v, 'f) clm_state" where
  "note_used put used s = s\<lparr>clm_tel := put used (raise_highwater used (CanLogManager_RecordRb1UsedBytes used (clm_tel s)))\<rparr>"

text \<open>The mutex around the file is not modelled: no other task runs in between.\<close>

definition appCanLogStoreBlock ::
  "'r lwrb_ops \<Rightarrow> ('v, 'f) fatfs_ops \<Rightarrow> (nat \<Rightarrow> u64) \<Rightarrow> ('r, 'v, 'f) clm_state \<Rightarrow>
   (comm_status \<times> ('r, 'v, 'f) clm_state) option" where
  "appCanLogStoreBlock lops ff clock s =
     (case CanLogBuffer_ReadNextBlock lops (clm_buf s) of
        None \<Rightarrow> None
      | Some (b, buf) \<Rightarrow>
          let s = s\<lparr>clm_buf := buf\<rparr>
          in if br_res b = CLB_E_OK then
               let s = note_used (\<lambda>u. Rb1BytesAtLastSdBlockStart_update (\<lambda>_. u)) (CanLogManager_ReadRb1UsedBytes lops s) s;
                   (res, w, y, t, s) = appCanLogStoreToSd ff clock (the (br_data b)) (br_len b) True s;
                   s = (if res = COMM_SUCCESS then appCanLogCheckNewFileOpenLocked ff s else s);
                   before_consume = CanLogManager_ReadRb1UsedBytes lops s;
                   s = note_used (\<lambda>u. Rb1BytesAtLastSdBlockEndBeforeConsume_update (\<lambda>_. u)) before_consume s;
                   (after_consume, s) =
                     (if res = COMM_SUCCESS then
                        let buf = snd (CanLogBuffer_Consume lops (br_len b) (br_frame_count b) (clm_buf s));
                            c = clb_counters buf;
                            s = s\<lparr>clm_buf := buf\<lparr>clb_counters :=
                                  c\<lparr>CanLogBuffer_BlockCount := CanLogBuffer_BlockCount c + 1\<rparr>\<rparr>\<rparr>
                        in (CanLogManager_ReadRb1UsedBytes lops s, s)
                      else (before_consume, s));
                   tel = (CanLogManager_RecordRb1UsedBytes after_consume (clm_tel s))\<lparr>
                           Rb1BytesAtLastSdBlockEndAfterConsume := after_consume\<rparr>
               in Some (res, s\<lparr>clm_tel := CanLogManager_RecordSdBlockTiming w y t (br_frame_count b) res tel\<rparr>)
             else Some (COMM_ERROR, s))"

text \<open>The action of the SD task: store blocks until none is ready.\<close>

partial_function (option) SdBridgeTask_ActionHook ::
  "'r lwrb_ops \<Rightarrow> ('v, 'f) fatfs_ops \<Rightarrow> (nat \<Rightarrow> u64) \<Rightarrow> ('r, 'v, 'f) clm_state \<Rightarrow> ('r, 'v, 'f) clm_state option" where
  "SdBridgeTask_ActionHook lops ff clock s =
     (let (r, block_ready) = CanLogBuffer_IsBlockReady lops (clm_buf s)
      in if CLB_E_OK \<noteq> r then Some (CanLogFileManager_ErrorHandler s)
         else if block_ready \<noteq> 0 then
           (case appCanLogStoreBlock lops ff clock s of
              None \<Rightarrow> None
            | Some (res, s) \<Rightarrow>
                if res \<noteq> COMM_SUCCESS then Some (CanLogFileManager_ErrorHandler s)
                else SdBridgeTask_ActionHook lops ff clock s)
         else Some s)"

text \<open>The first lines of an entry and of a flush.\<close>

definition CanLogManager_EmitSyncEntry ::
  "'r lwrb_ops \<Rightarrow> u64 \<Rightarrow> u32 \<Rightarrow> ('r, 'v, 'f) clm_state \<Rightarrow> (comm_status \<times> ('r, 'v, 'f) clm_state) option" where
  "CanLogManager_EmitSyncEntry lops absTime frameTimestamp s =
     appCanLogStoreToFrameBuffer lops
       ([CLB_ENTRY_TYPE_SYNC, 3, 11] @ u32_le frameTimestamp @ u32_le (ucast (drop_bit 32 absTime))) s"

section \<open>The ring of files\<close>

text \<open>Block \<open>j\<close> belongs into file \<open>(j div K) mod N\<close> at block \<open>j mod K\<close>, for \<open>K\<close> blocks to a file and \<open>N\<close>
  files.  A later block below \<open>j + N * K\<close> has another place.\<close>

lemma other_place:
  fixes j m K N :: nat
  assumes "j < m" "m < j + N * K" "(j div K) mod N = (m div K) mod N" "0 < K"
  shows "j mod K \<noteq> m mod K"
proof
  assume r: "j mod K = m mod K"
  have le: "j div K \<le> m div K" using assms(1) by (intro div_le_mono) simp
  have "m - j = K * (m div K) - K * (j div K)" using r div_mult_mod_eq [of m K] div_mult_mod_eq [of j K]
    by (metis add.commute diff_diff_left mult.commute add_diff_cancel_right')
  then have d: "m - j = K * (m div K - j div K)" by (simp add: diff_mult_distrib2)
  have "N dvd m div K - j div K" using assms(3) le mod_eq_dvd_iff_nat by metis
  then have "N * K dvd m - j" unfolding d by (simp add: mult.commute mult_dvd_mono)
  then show False using assms(1,2) by (auto dest: dvd_imp_le)
qed

definition slice :: "nat \<Rightarrow> bytes \<Rightarrow> bytes" where
  "slice k d = take 65536 (drop (65536 * k) d)"

lemma slice_put:
  assumes "length b = 65536" "65536 * c \<le> length d"
  shows "slice c (take (65536 * c) d @ b @ drop (65536 * c + 65536) d) = b"
    "a \<noteq> c \<Longrightarrow> slice a (take (65536 * c) d @ b @ drop (65536 * c + 65536) d) = slice a d"
proof -
  show "slice c (take (65536 * c) d @ b @ drop (65536 * c + 65536) d) = b"
    using assms by (simp add: slice_def)
  assume "a \<noteq> c"
  then consider "Suc a \<le> c" | "Suc c \<le> a" by linarith
  then show "slice a (take (65536 * c) d @ b @ drop (65536 * c + 65536) d) = slice a d"
  proof cases
    case 1
    then have "65536 * a + 65536 \<le> 65536 * c" by simp
    then show ?thesis using assms by (simp add: slice_def take_drop min_def)
  next
    case 2
    then obtain k where a: "a = Suc (c + k)" using less_eqE by (metis add_Suc)
    show ?thesis using assms by (simp add: slice_def a algebra_simps)
  qed
qed

definition blocks_per_file :: "u32 \<Rightarrow> nat" where
  "blocks_per_file sz = (unat sz + 65535) div 65536"

text \<open>Sizes that keep every file below 4 GB and every index a positive \<open>int\<close>.\<close>

definition sizes_ok :: "log_config \<Rightarrow> bool" where
  "sizes_ok p \<longleftrightarrow> 0 < log_file_size p \<and> log_file_size p \<le> 0xFFFF0000 \<and>
     0 < log_file_count p \<and> log_file_count p \<le> 0x80000000"

lemma blocks_per_file:
  assumes "sizes_ok p"
  shows "0 < blocks_per_file (log_file_size p)" "65536 * blocks_per_file (log_file_size p) < 4294967296"
    "\<And>c. c < blocks_per_file (log_file_size p) \<Longrightarrow>
       unat (log_file_size p) \<le> 65536 * c + 65536 \<longleftrightarrow> Suc c = blocks_per_file (log_file_size p)"
proof -
  let ?n = "unat (log_file_size p)"
  have n: "0 < ?n" "?n \<le> 4294901760" using assms by (auto simp: sizes_ok_def word_le_nat_alt word_less_nat_alt)
  define K r where "K = blocks_per_file (log_file_size p)" and "r = (?n + 65535) mod 65536"
  have k: "?n + 65535 = 65536 * K + r" "r < 65536" by (simp_all add: K_def r_def blocks_per_file_def)
  show "0 < blocks_per_file (log_file_size p)" "65536 * blocks_per_file (log_file_size p) < 4294967296"
    unfolding K_def [symmetric] using n k by linarith+
  show "?n \<le> 65536 * c + 65536 \<longleftrightarrow> Suc c = blocks_per_file (log_file_size p)"
    if "c < blocks_per_file (log_file_size p)" for c
    using that n k unfolding K_def [symmetric] by linarith
qed

abbreviation log_file :: "nat \<Rightarrow> bytes" where
  "log_file i \<equiv> log_name (of_nat i)"

lemma log_file_inj:
  assumes "log_file i = log_file j" "i < 2147483648" "j < 2147483648"
  shows "i = j"
proof -
  have "sint (of_nat k :: u32) = int k" if "k < 2147483648" for k
    using that by (simp add: signed_of_nat signed_take_bit_int_eq_self_iff)
  then have "nat_digits i = nat_digits j" using assms by (simp add: log_name_def int_text_def)
  then show ?thesis using nat_digits_prop by metis
qed

text \<open>What the ring says of the files, and that writing the next block at its place keeps it.\<close>

definition ring_files :: "(bytes \<Rightarrow> bytes option) \<Rightarrow> nat \<Rightarrow> nat \<Rightarrow> bytes list \<Rightarrow> bool" where
  "ring_files F K N out \<longleftrightarrow>
     (\<forall>i < N. \<exists>d. F (log_file i) = Some d \<and> length d < 4294967296) \<and> (\<forall>b \<in> set out. length b = 65536) \<and>
     (\<forall>j < length out. length out \<le> j + N * K \<longrightarrow>
        (\<exists>d. F (log_file ((j div K) mod N)) = Some d \<and> slice (j mod K) d = out ! j))"

lemma ring_files_put:
  assumes "ring_files F K N out" "0 < K" "0 < N" "N \<le> 2147483648" "65536 * K < 4294967296"
    and "F (log_file (length out div K mod N)) = Some d" "65536 * (length out mod K) \<le> length d" "length b = 65536"
  shows "ring_files (F(log_file (length out div K mod N) \<mapsto>
      take (65536 * (length out mod K)) d @ b @ drop (65536 * (length out mod K) + 65536) d)) K N (out @ [b])"
proof -
  let ?m = "length out" and ?h = "length out div K mod N"
  let ?e = "take (65536 * (?m mod K)) d @ b @ drop (65536 * (?m mod K) + 65536) d"
  let ?F = "F(log_file ?h \<mapsto> ?e)"
  have h: "?h < N" using assms(3) by simp
  have inj: "log_file i = log_file ?h \<longleftrightarrow> i = ?h" if "i < N" for i
    using that h assms(4) log_file_inj by fastforce
  have "?m mod K < K" using assms(2) by simp
  then have "65536 * (?m mod K) + 65536 \<le> 65536 * K" by linarith
  moreover have dl: "length d < 4294967296" using assms(1,6) h unfolding ring_files_def by (metis option.inject)
  ultimately have e: "length ?e < 4294967296" using assms(5,7,8) by simp
  have 1: "\<forall>i < N. \<exists>d. ?F (log_file i) = Some d \<and> length d < 4294967296"
    using assms(1) e inj by (simp add: ring_files_def)
  have 2: "\<exists>d. ?F (log_file (j div K mod N)) = Some d \<and> slice (j mod K) d = (out @ [b]) ! j"
    if j: "j < Suc ?m" "Suc ?m \<le> j + N * K" for j
  proof (cases "j = ?m")
    case True
    then show ?thesis using slice_put(1) [OF assms(8,7)] by simp
  next
    case False
    then have jm: "j < ?m" using j by simp
    obtain d0 where d0: "F (log_file (j div K mod N)) = Some d0" "slice (j mod K) d0 = out ! j"
      using assms(1) jm j(2) by (auto simp: ring_files_def)
    have jN: "j div K mod N < N" using assms(3) by simp
    show ?thesis
    proof (cases "j div K mod N = ?h")
      case True
      then have "j mod K \<noteq> ?m mod K" using other_place [OF jm, of N K] j(2) assms(2) by simp
      from slice_put(2) [OF assms(8,7) this] show ?thesis using d0 True assms(6) jm by (simp add: nth_append)
    next
      case False
      then show ?thesis using d0 inj [OF jN] jm by (simp add: nth_append)
    qed
  qed
  show ?thesis using 1 2 assms(1,8) by (auto simp: ring_files_def)
qed

text \<open>The index of the next file.\<close>

lemma next_file_index:
  assumes p: "0 < log_file_count p" and N: "N = unat (log_file_count p)"
    and l: "unat (fileHeadIndex l) = q mod N" "fileIndexWrapped l = (N \<le> q)"
      "unat (fileTailIndex l) = (if N \<le> q then (q mod N + 1) mod N else 0)"
  shows "unat (fileHeadIndex (next_file p l)) = Suc q mod N" "fileIndexWrapped (next_file p l) = (N \<le> Suc q)"
    "unat (fileTailIndex (next_file p l)) = (if N \<le> Suc q then (Suc q mod N + 1) mod N else 0)"
    "filename (next_file p l) = log_file (Suc q mod N)" "writeFileDevice (next_file p l) = writeFileDevice l"
proof -
  have N0: "0 < N" using p N by (simp add: word_less_nat_alt)
  have inc: "unat ((i + 1) mod log_file_count p) = Suc (unat i) mod N" if "unat i < N" for i :: u32
  proof -
    have "unat (i + 1) = Suc (unat i)" using that N unat_u32_bound [of "log_file_count p"] by (subst unat_add_small) auto
    then show ?thesis by (simp add: unat_mod N)
  qed
  have lt: "unat (fileHeadIndex l) < N" using l(1) N0 by simp
  have hd: "unat ((fileHeadIndex l + 1) mod log_file_count p) = Suc q mod N"
    using inc [OF lt] l(1) by (simp add: mod_Suc_eq)
  have "unat (appCanLogGetMaxLogIndex p) = N - 1" using p N0 N by (simp add: appCanLogGetMaxLogIndex_def unat_sub word_le_nat_alt)
  then have mx: "appCanLogGetMaxLogIndex p \<le> fileHeadIndex l \<longleftrightarrow> N - 1 \<le> q mod N" by (simp add: word_le_nat_alt l(1))
  have wr: "(N - 1 \<le> q mod N \<or> N \<le> q) \<longleftrightarrow> N \<le> Suc q"
  proof (cases "N \<le> q")
    case False
    then show ?thesis using N0 by auto
  qed simp
  have tl: "unat (((fileHeadIndex l + 1) mod log_file_count p + 1) mod log_file_count p) = Suc (Suc q mod N) mod N"
    using inc [of "(fileHeadIndex l + 1) mod log_file_count p"] hd N0 by simp
  show "unat (fileHeadIndex (next_file p l)) = Suc q mod N" "filename (next_file p l) = log_file (Suc q mod N)"
    using hd by (simp_all add: next_file_def Let_def flip: hd)
  show "writeFileDevice (next_file p l) = writeFileDevice l" by (simp add: next_file_def Let_def)
  show w: "fileIndexWrapped (next_file p l) = (N \<le> Suc q)"
    using wr mx l(2) by (auto simp: next_file_def Let_def)
  show "unat (fileTailIndex (next_file p l)) = (if N \<le> Suc q then (Suc q mod N + 1) mod N else 0)"
    using w tl l(2,3) mx wr by (auto simp: next_file_def Let_def)
qed

text \<open>The log after the blocks \<open>out\<close>: head, tail and wrap flag, the open file with its pointer at the
  place of the next block, and the files.\<close>

definition log_ring ::
  "('v \<Rightarrow> bytes \<Rightarrow> bytes option) \<Rightarrow> ('f \<Rightarrow> (bytes \<times> nat \<times> nat) option) \<Rightarrow> 'v \<Rightarrow> 'f can_log \<Rightarrow> log_config \<Rightarrow> bytes list \<Rightarrow> bool" where
  "log_ring files opened v l p out \<longleftrightarrow>
     (let m = length out; K = blocks_per_file (log_file_size p); N = unat (log_file_count p); q = m div K; h = q mod N
      in unat (fileHeadIndex l) = h \<and> fileIndexWrapped l = (N \<le> q) \<and>
         unat (fileTailIndex l) = (if N \<le> q then (h + 1) mod N else 0) \<and> openRes l = 0 \<and>
         fflags (writeFileDevice l) AND 0x08 = 0 \<and>
         (\<exists>d. files v (log_file h) = Some d \<and> 65536 * (m mod K) \<le> length d \<and>
            opened (dev_file (writeFileDevice l)) = Some (log_file h, 65536 * (m mod K), length d)) \<and>
         ring_files (files v) K N out)"

context working_card
begin

lemma StoreToSd:
  assumes o: "opened (dev_file (writeFileDevice (clm_log s))) = Some (n, p, length d)"
      "files (volume (clm_fs s)) n = Some d" "fflags (writeFileDevice (clm_log s)) AND 0x08 = 0"
    and len: "p \<le> length d" "p + length b < 4294967296" "unat len = length b"
  shows "\<exists>w y t s' dev. appCanLogStoreToSd ff clock b len True s = (COMM_SUCCESS, w, y, t, s') \<and>
    clm_buf s' = clm_buf s \<and> clm_params s' = clm_params s \<and> clm_log s' = (clm_log s)\<lparr>writeFileDevice := dev\<rparr> \<and>
    opened (dev_file dev) = Some (n, p + length b, max (length d) (p + length b)) \<and>
    fflags dev = fflags (writeFileDevice (clm_log s)) \<and>
    files (volume (clm_fs s')) = (files (volume (clm_fs s)))(n \<mapsto> take p d @ b @ drop (p + length b) d)"
proof -
  obtain dev1 fs1 where w: "FatFS_SD_WriteFile ff b len (writeFileDevice (clm_log s)) (clm_fs s) = (0, dev1, fs1)"
    "files (volume fs1) = (files (volume (clm_fs s)))(n \<mapsto> take p d @ b @ drop (p + length b) d)"
    "opened (dev_file dev1) = Some (n, p + length b, max (length d) (p + length b))"
    "fflags dev1 = fflags (writeFileDevice (clm_log s))"
    using WriteFile_works [OF o len] by blast
  obtain f2 v2 where fl: "FatFS_SD_Flush ff dev1 fs1 = (0, dev1\<lparr>dev_file := f2\<rparr>, fs1\<lparr>volume := v2\<rparr>)"
    "files v2 = files (volume fs1)" "opened f2 = Some (n, p + length b, max (length d) (p + length b))"
    using Flush_works [OF w(3)] by blast
  show ?thesis
  proof (cases "FatFS_SD_SyncPending ff (Some dev1) fs1")
    case True
    then show ?thesis using w fl
      by (simp add: appCanLogStoreToSd_def FDCAN_GetTimestampHook_def with_device_def Let_def)
        (intro exI [of _ "dev1\<lparr>dev_file := f2\<rparr>"], simp)
  next
    case False
    then show ?thesis using w
      by (simp add: appCanLogStoreToSd_def FDCAN_GetTimestampHook_def with_device_def Let_def)
        (intro exI [of _ dev1], simp)
  qed
qed

text \<open>The file is changed when the block just written was its last.\<close>

lemma CheckNewFile:
  assumes o: "opened (dev_file (writeFileDevice (clm_log s))) = Some (n, p, l)"
    and p: "0 < log_file_count (clm_params s)"
    and next_there: "\<exists>d. files (volume (clm_fs s)) (filename (next_file (clm_params s) (clm_log s))) = Some d \<and> length d < 4294967296"
  shows "\<exists>fs lg. appCanLogCheckNewFileOpenLocked ff s = s\<lparr>clm_fs := fs, clm_log := lg\<rparr> \<and>
    files (volume fs) = files (volume (clm_fs s)) \<and>
    (if p < unat (log_file_size (clm_params s)) then lg = clm_log s
     else \<exists>dev d. lg = (next_file (clm_params s) (clm_log s))\<lparr>openRes := 0, writeFileDevice := dev\<rparr> \<and>
       files (volume fs) (filename lg) = Some d \<and> opened (dev_file dev) = Some (filename lg, 0, length d) \<and>
       fflags dev = 0x02)"
proof -
  have t: "f_tell ff (dev_file (writeFileDevice (clm_log s))) = of_nat p" "unat (of_nat p :: u32) = p"
    using tell_pos [OF o] by simp_all
  then have full: "log_file_size (clm_params s) \<le> of_nat p \<longleftrightarrow> \<not> p < unat (log_file_size (clm_params s))"
    by (auto simp: word_le_nat_alt)
  show ?thesis
  proof (cases "p < unat (log_file_size (clm_params s))")
    case True
    then have "appCanLogCheckNewFileOpenLocked ff s = s"
      using t(1) full by (simp add: appCanLogCheckNewFileOpenLocked_def FatFS_SD_GetBufferedFileSize_def)
    then show ?thesis using True by (intro exI [of _ "clm_fs s"] exI [of _ "clm_log s"]) simp
  next
    case False
    let ?l = "next_file (clm_params s)"
    have fn: "filename (?l (l\<lparr>writeFileDevice := dv\<rparr>)) = filename (?l l)"
      "?l (l\<lparr>writeFileDevice := dv\<rparr>) = (?l l)\<lparr>writeFileDevice := dv\<rparr>" for l dv
      by (simp_all add: next_file_def Let_def)
    obtain dev1 fs1 where c: "FatFS_SD_CloseFile ff (writeFileDevice (clm_log s)) (clm_fs s) = (0, dev1, fs1)"
      "files (volume fs1) = files (volume (clm_fs s))" using CloseFile_works [OF o] by blast
    obtain d where d: "files (volume (clm_fs s)) (filename (?l (clm_log s))) = Some d" "length d < 4294967296"
      using next_there by blast
    obtain dev2 fs2 where ow: "FatFS_SD_OpenFileForOverWrite ff (filename (?l (clm_log s))) dev1 fs1 = (0, dev2, fs2)"
      "files (volume fs2) = files (volume fs1)" "opened (dev_file dev2) = Some (filename (?l (clm_log s)), 0, length d)"
      "fflags dev2 = 0x02"
      using OverWrite_works [of fs1 "filename (?l (clm_log s))" d dev1] c d by auto
    obtain f3 v3 where fl: "FatFS_SD_Flush ff dev2 fs2 = (0, dev2\<lparr>dev_file := f3\<rparr>, fs2\<lparr>volume := v3\<rparr>)"
      "files v3 = files (volume fs2)" "opened f3 = Some (filename (?l (clm_log s)), 0, length d)"
      using Flush_works [OF ow(3)] by blast
    let ?d3 = "dev2\<lparr>dev_file := f3\<rparr>"
    have "appCanLogCheckNewFileOpenLocked ff s =
        s\<lparr>clm_fs := fs2\<lparr>volume := v3\<rparr>, clm_log := (?l (clm_log s))\<lparr>openRes := 0, writeFileDevice := ?d3\<rparr>\<rparr>"
      using c ow fl t(1) full False p
      by (simp add: appCanLogCheckNewFileOpenLocked_def FatFS_SD_GetBufferedFileSize_def with_device_def fn)
    moreover have "files v3 = files (volume (clm_fs s))" using fl ow c by simp
    ultimately show ?thesis using False fl ow d
      by (intro exI [of _ "fs2\<lparr>volume := v3\<rparr>"] exI [of _ "(?l (clm_log s))\<lparr>openRes := 0, writeFileDevice := ?d3\<rparr>"]) auto
  qed
qed

end

context working_card
begin

lemma ring_store:
  assumes lr: "log_ring files opened (volume (clm_fs s)) (clm_log s) (clm_params s) out"
    and p: "sizes_ok (clm_params s)" and b: "length b = 65536"
  shows "\<exists>w y t s1 fs lg. appCanLogStoreToSd ff clock b 0x10000 True s = (COMM_SUCCESS, w, y, t, s1) \<and>
    appCanLogCheckNewFileOpenLocked ff s1 = s1\<lparr>clm_fs := fs, clm_log := lg\<rparr> \<and>
    clm_buf s1 = clm_buf s \<and> clm_params s1 = clm_params s \<and>
    log_ring files opened (volume fs) lg (clm_params s) (out @ [b])"
proof -
  define m K N q h where "m = length out" and "K = blocks_per_file (log_file_size (clm_params s))"
    and "N = unat (log_file_count (clm_params s))" and "q = m div K" and "h = q mod N"
  note defs = m_def K_def N_def q_def h_def
  have K: "0 < K" "65536 * K < 4294967296" using blocks_per_file(1,2) [OF p] by (simp_all add: K_def)
  have N: "0 < N" "N \<le> 2147483648" using p by (auto simp: sizes_ok_def N_def word_le_nat_alt word_less_nat_alt)
  have lr': "unat (fileHeadIndex (clm_log s)) = h" "fileIndexWrapped (clm_log s) = (N \<le> q)"
    "unat (fileTailIndex (clm_log s)) = (if N \<le> q then (h + 1) mod N else 0)" "openRes (clm_log s) = 0"
    "fflags (writeFileDevice (clm_log s)) AND 0x08 = 0" "ring_files (files (volume (clm_fs s))) K N out"
    using lr by (simp_all add: log_ring_def defs Let_def)
  obtain d where d: "files (volume (clm_fs s)) (log_file h) = Some d" "65536 * (m mod K) \<le> length d"
    "opened (dev_file (writeFileDevice (clm_log s))) = Some (log_file h, 65536 * (m mod K), length d)"
    using lr by (auto simp: log_ring_def defs Let_def)
  have c: "m mod K < K" using K by simp
  then have c': "65536 * (m mod K) + 65536 \<le> 65536 * K" by linarith
  let ?F = "(files (volume (clm_fs s)))(log_file h \<mapsto> take (65536 * (m mod K)) d @ b @ drop (65536 * (m mod K) + 65536) d)"
  obtain w y t s1 dev where st: "appCanLogStoreToSd ff clock b 0x10000 True s = (COMM_SUCCESS, w, y, t, s1)"
    "clm_buf s1 = clm_buf s" "clm_params s1 = clm_params s" "clm_log s1 = (clm_log s)\<lparr>writeFileDevice := dev\<rparr>"
    "opened (dev_file dev) = Some (log_file h, 65536 * (m mod K) + 65536, max (length d) (65536 * (m mod K) + 65536))"
    "fflags dev = fflags (writeFileDevice (clm_log s))" "files (volume (clm_fs s1)) = ?F"
    using StoreToSd [OF d(3,1) lr'(5) d(2), of b "0x10000" clock] K(2) c' b by auto
  have rf: "ring_files ?F K N (out @ [b])"
    using ring_files_put [OF lr'(6) K(1) N K(2)] d(1,2) b by (simp add: m_def q_def h_def)
  have p0: "0 < log_file_count (clm_params s)" using p by (simp add: sizes_ok_def)
  note nx = next_file_index [OF p0 N_def lr'(1) [unfolded h_def] lr'(2) lr'(3) [unfolded h_def]]
  have nf: "next_file p (l\<lparr>writeFileDevice := dv\<rparr>) = (next_file p l)\<lparr>writeFileDevice := dv\<rparr>"
      "filename (l\<lparr>writeFileDevice := dv\<rparr>) = filename l" for p and l :: "'b can_log" and dv
    by (simp_all add: next_file_def Let_def)
  have "Suc q mod N < N" using N(1) by simp
  then have "\<exists>d. ?F (log_file (Suc q mod N)) = Some d \<and> length d < 4294967296"
    using rf unfolding ring_files_def by blast
  then have nt: "\<exists>d. files (volume (clm_fs s1)) (filename (next_file (clm_params s1) (clm_log s1))) = Some d \<and> length d < 4294967296"
    unfolding st(3,4,7) nf nx(4) .
  have o1: "opened (dev_file (writeFileDevice (clm_log s1))) =
      Some (log_file h, 65536 * (m mod K) + 65536, max (length d) (65536 * (m mod K) + 65536))"
    using st(4,5) by simp
  obtain fs lg where ck: "appCanLogCheckNewFileOpenLocked ff s1 = s1\<lparr>clm_fs := fs, clm_log := lg\<rparr>"
    "files (volume fs) = ?F"
    "if 65536 * (m mod K) + 65536 < unat (log_file_size (clm_params s)) then lg = clm_log s1
     else \<exists>dev d. lg = (next_file (clm_params s) (clm_log s1))\<lparr>openRes := 0, writeFileDevice := dev\<rparr> \<and>
       files (volume fs) (filename lg) = Some d \<and> opened (dev_file dev) = Some (filename lg, 0, length d) \<and>
       fflags dev = 0x02"
    using CheckNewFile [OF o1 _ nt] p0 unfolding st(3,7) by blast
  have full: "65536 * (m mod K) + 65536 < unat (log_file_size (clm_params s)) \<longleftrightarrow> Suc (m mod K) \<noteq> K"
    using blocks_per_file(3) [OF p, of "m mod K"] c unfolding K_def by linarith
  have "log_ring files opened (volume fs) lg (clm_params s) (out @ [b])"
  proof (cases "Suc (m mod K) = K")
    case False
    then have i: "Suc m div K = q" "Suc m mod K = Suc (m mod K)" by (simp_all add: q_def div_Suc mod_Suc)
    have lg: "lg = clm_log s1" using ck(3) full False by simp
    let ?e = "take (65536 * (m mod K)) d @ b @ drop (65536 * (m mod K) + 65536) d"
    have e: "?F (log_file h) = Some ?e" "length ?e = max (length d) (65536 * (m mod K) + 65536)"
      "65536 * Suc (m mod K) \<le> length ?e"
      using d(2) b by auto
    have pos: "65536 * Suc (m mod K) = 65536 * (m mod K) + 65536" by simp
    have g: "unat (fileHeadIndex lg) = h" "fileIndexWrapped lg = (N \<le> q)"
      "unat (fileTailIndex lg) = (if N \<le> q then (h + 1) mod N else 0)" "openRes lg = 0"
      "fflags (writeFileDevice lg) AND 0x08 = 0"
      using lr' st(4,6) lg by simp_all
    have "opened (dev_file (writeFileDevice lg)) = Some (log_file h, 65536 * Suc (m mod K), length ?e)"
      using lg o1 e(2) pos by simp
    with e(1,3) have ex: "\<exists>d. ?F (log_file h) = Some d \<and> 65536 * Suc (m mod K) \<le> length d \<and>
        opened (dev_file (writeFileDevice lg)) = Some (log_file h, 65536 * Suc (m mod K), length d)"
      by (intro exI [of _ ?e] conjI)
    show ?thesis
      unfolding log_ring_def ck(2) Let_def length_append_singleton
        m_def [symmetric] K_def [symmetric] N_def [symmetric] i h_def [symmetric]
      by (intro conjI; fact)
  next
    case True
    then have i: "Suc m div K = Suc q" "Suc m mod K = 0" by (simp_all add: q_def div_Suc mod_Suc)
    obtain dev2 d2 where lg: "lg = (next_file (clm_params s) (clm_log s1))\<lparr>openRes := 0, writeFileDevice := dev2\<rparr>"
      "files (volume fs) (filename lg) = Some d2" "opened (dev_file dev2) = Some (filename lg, 0, length d2)"
      "fflags dev2 = 0x02" using ck(3) full True by auto
    have fn: "filename lg = log_file (Suc q mod N)" using lg(1) st(4) nx(4) by (simp add: nf)
    have g: "unat (fileHeadIndex lg) = Suc q mod N" "fileIndexWrapped lg = (N \<le> Suc q)"
      "unat (fileTailIndex lg) = (if N \<le> Suc q then (Suc q mod N + 1) mod N else 0)" "openRes lg = 0" "writeFileDevice lg = dev2"
      using lg(1) st(4) nx by (simp_all add: nf)
    show ?thesis
      using g rf lg(2-4) [unfolded fn] unfolding log_ring_def ck(2) Let_def length_append_singleton
        m_def [symmetric] K_def [symmetric] N_def [symmetric] i
      by simp
  qed
  then show ?thesis using st(1-3) ck(1) by blast
qed

end

text \<open>Whatever FatFs does, storing a block changes the buffer only by what the two buffer calls do, and hands nothing
  to the buffer.\<close>

lemma StoreToSd_buf:
  "appCanLogStoreToSd ff clock b len given s = (r, w, y, t, s') \<Longrightarrow> clm_buf s' = clm_buf s \<and> clm_handed s' = clm_handed s"
  by (auto simp: appCanLogStoreToSd_def FDCAN_GetTimestampHook_def with_device_def Let_def split: if_splits prod.splits)

lemma CheckNewFile_buf:
  "clm_buf (appCanLogCheckNewFileOpenLocked ff s) = clm_buf s" "clm_handed (appCanLogCheckNewFileOpenLocked ff s) = clm_handed s"
  by (auto simp: appCanLogCheckNewFileOpenLocked_def with_device_def CanLogFileManager_ErrorHandler_def Let_def split: prod.splits)

section \<open>From the entries to the files\<close>

locale logger = lwrb ops valid content + working_card ff files opened
  for ops :: "'r lwrb_ops" and valid :: "'r \<Rightarrow> bool" and content :: "'r \<Rightarrow> bytes"
    and ff :: "('v, 'f) fatfs_ops" and files :: "'v \<Rightarrow> bytes \<Rightarrow> bytes option"
    and opened :: "'f \<Rightarrow> (bytes \<times> nat \<times> nat) option"
begin

definition logged :: "('r, 'v, 'f) clm_state \<Rightarrow> bytes list \<Rightarrow> bytes list \<Rightarrow> (bytes \<times> bytes list) list \<Rightarrow> bytes list \<Rightarrow> bool" where
  "logged s acc out blocks es \<longleftrightarrow> stocked (clm_buf s) acc out blocks es \<and> sizes_ok (clm_params s) \<and>
     log_ring files opened (volume (clm_fs s)) (clm_log s) (clm_params s) out"

lemma logged_cong:
  "logged s acc out blocks es \<Longrightarrow> Rb1 (clm_buf s') = Rb1 (clm_buf s) \<Longrightarrow> volume (clm_fs s') = volume (clm_fs s) \<Longrightarrow>
   clm_log s' = clm_log s \<Longrightarrow> clm_params s' = clm_params s \<Longrightarrow> logged s' acc out blocks es"
  using stocked_cong unfolding logged_def by metis

text \<open>What the way to the card does not touch.\<close>

definition same_counts :: "('r, 'v, 'f) clm_state \<Rightarrow> ('r, 'v, 'f) clm_state \<Rightarrow> bool" where
  "same_counts s s' \<longleftrightarrow>
     read_counts (clb_counters (clm_buf s')) = read_counts (clb_counters (clm_buf s)) \<and>
     CanLogManager_FrameDropCount1 (clb_counters (clm_buf s')) = CanLogManager_FrameDropCount1 (clb_counters (clm_buf s)) \<and>
     clm_handed s' = clm_handed s"

lemma StoreBlock:
  assumes l: "logged s acc out (b # bs) es"
  shows "\<exists>s' blk. appCanLogStoreBlock ops ff clock s = Some (COMM_SUCCESS, s') \<and>
    clm_params s' = clm_params s \<and> same_counts s s' \<and> logged s' acc (out @ [blk]) bs es"
proof -
  obtain blk fc b1 b2 where r: "CanLogBuffer_ReadNextBlock ops (clm_buf s) =
      Some (\<lparr>br_res = CLB_E_OK, br_data = Some blk, br_len = BLOCK_SIZE, br_frame_count = fc\<rparr>, b1)"
    "length blk = 65536" "CanLogBuffer_Consume ops BLOCK_SIZE fc b1 = (0, b2)" "stocked b2 acc (out @ [blk]) bs es"
    "read_counts (clb_counters b2) = read_counts (clb_counters (clm_buf s))"
    "CanLogManager_FrameDropCount1 (clb_counters b2) = CanLogManager_FrameDropCount1 (clb_counters (clm_buf s))"
    using stocked_read_consume l unfolding logged_def by blast
  define s1 where "s1 = note_used (\<lambda>u. Rb1BytesAtLastSdBlockStart_update (\<lambda>_. u))
    (CanLogManager_ReadRb1UsedBytes ops (s\<lparr>clm_buf := b1\<rparr>)) (s\<lparr>clm_buf := b1\<rparr>)"
  have s1: "clm_buf s1 = b1" "clm_fs s1 = clm_fs s" "clm_log s1 = clm_log s" "clm_params s1 = clm_params s"
    by (simp_all add: s1_def note_used_def)
  obtain w y t s2 fs lg where st: "appCanLogStoreToSd ff clock blk 0x10000 True s1 = (COMM_SUCCESS, w, y, t, s2)"
    "appCanLogCheckNewFileOpenLocked ff s2 = s2\<lparr>clm_fs := fs, clm_log := lg\<rparr>" "clm_buf s2 = b1"
    "clm_params s2 = clm_params s" "log_ring files opened (volume fs) lg (clm_params s) (out @ [blk])"
    using ring_store [of s1 out blk clock] l r(2) unfolding logged_def s1 by blast
  have h: "clm_handed s2 = clm_handed s" using StoreToSd_buf [OF st(1)] by (simp add: s1_def note_used_def)
  let ?c = "(clb_counters b2)\<lparr>CanLogBuffer_BlockCount := CanLogBuffer_BlockCount (clb_counters b2) + 1\<rparr>"
  have "\<exists>t'. appCanLogStoreBlock ops ff clock s =
      Some (COMM_SUCCESS, s2\<lparr>clm_fs := fs, clm_log := lg, clm_buf := b2\<lparr>clb_counters := ?c\<rparr>, clm_tel := t'\<rparr>)"
    using r(1,3) st(1-3) by (simp add: appCanLogStoreBlock_def s1_def note_used_def Let_def) (rule exI, rule refl)
  moreover have "stocked (b2\<lparr>clb_counters := ?c\<rparr>) acc (out @ [blk]) bs es" by (rule stocked_cong [OF r(4)]) simp
  ultimately show ?thesis using st(4,5) l r(5,6) h by (auto simp: logged_def same_counts_def read_counts_def)
qed

text \<open>The SD task stores every full block and returns.\<close>

lemma ActionHook:
  "logged s acc out blocks es \<Longrightarrow>
   \<exists>s' bl. SdBridgeTask_ActionHook ops ff clock s = Some s' \<and> clm_params s' = clm_params s \<and> same_counts s s' \<and>
     length bl = length blocks \<and> logged s' acc (out @ bl) [] es"
proof (induction blocks arbitrary: s out)
  case Nil
  then have "CanLogBuffer_IsBlockReady ops (clm_buf s) = (0, 0)"
    using ready [of "clm_buf s" "[]" es] by (simp add: logged_def stocked_def)
  then show ?case using Nil by (auto simp: SdBridgeTask_ActionHook.simps [of ops ff clock s] same_counts_def)
next
  case (Cons b bs)
  have rd: "CanLogBuffer_IsBlockReady ops (clm_buf s) = (0, 1)"
    using Cons.prems ready [of "clm_buf s" "b # bs" es] by (simp add: logged_def stocked_def)
  obtain s1 blk where st: "appCanLogStoreBlock ops ff clock s = Some (COMM_SUCCESS, s1)" "clm_params s1 = clm_params s"
    "same_counts s s1" "logged s1 acc (out @ [blk]) bs es" using StoreBlock [OF Cons.prems] by blast
  obtain s' bl where "SdBridgeTask_ActionHook ops ff clock s1 = Some s'" "clm_params s' = clm_params s1" "same_counts s1 s'"
    "length bl = length bs" "logged s' acc ((out @ [blk]) @ bl) [] es" using Cons.IH [OF st(4)] by blast
  then show ?case using rd st(1-3)
    by (intro exI [of _ s'] exI [of _ "blk # bl"])
      (simp add: SdBridgeTask_ActionHook.simps [of ops ff clock s] same_counts_def)
qed

text \<open>An entry is accepted or refused; a refusal is counted.\<close>

lemma StoreToFrameBuffer:
  assumes l: "logged s acc out blocks es" and e: "CanLogBlocks.entry_ok e"
  shows "\<exists>r s' blocks' es'. appCanLogStoreToFrameBuffer ops e s = Some (r, s') \<and> clm_params s' = clm_params s \<and>
    clm_log s' = clm_log s \<and> clm_fs s' = clm_fs s \<and> clm_ticks s' = clm_ticks s \<and>
    r = (if ring_refuses blocks es e then COMM_ERROR else COMM_SUCCESS) \<and>
    read_counts (clb_counters (clm_buf s')) = read_counts (clb_counters (clm_buf s)) \<and>
    CanLogManager_FrameDropCount1 (clb_counters (clm_buf s')) =
      CanLogManager_FrameDropCount1 (clb_counters (clm_buf s)) + (if r = COMM_SUCCESS then 0 else 1) \<and>
    clm_handed s' = clm_handed s @ [e] \<and>
    logged s' (if r = COMM_SUCCESS then acc @ [e] else acc) out blocks' es'"
proof -
  have k: "stocked (clm_buf s) acc out blocks es" using l by (simp add: logged_def)
  have len: "(ucast (e ! 2) :: u32) = of_nat (length e)" using e by (simp add: CanLogBlocks.entry_ok_def ucast_length)
  obtain res b' blocks' es' where a: "CanLogBuffer_AddEntry ops e (of_nat (length e)) (clm_buf s) = Some (res, b')"
    "res = (if ring_refuses blocks es e then CLB_E_BUFFER_FULL else CLB_E_OK)"
    "stocked b' (if res = CLB_E_OK then acc @ [e] else acc) out blocks' es'"
    "read_counts (clb_counters b') = read_counts (clb_counters (clm_buf s))"
    "CanLogManager_FrameDropCount1 (clb_counters b') = CanLogManager_FrameDropCount1 (clb_counters (clm_buf s))"
    using stocked_add [OF k e] by blast
  define c where "c = (let c = clb_counters b';
      c = (if CLB_E_OK \<noteq> res then c\<lparr>CanLogManager_FrameDropCount1 := CanLogManager_FrameDropCount1 c + 1\<rparr> else c)
    in if CLB_E_BUFFER_FULL = res then c\<lparr>CanLogManager_FrameDropCount2 := CanLogManager_FrameDropCount2 c + 1\<rparr> else c)"
  have c: "read_counts c = read_counts (clb_counters b')"
    "CanLogManager_FrameDropCount1 c = CanLogManager_FrameDropCount1 (clb_counters b') + (if res = CLB_E_OK then 0 else 1)"
    by (simp_all add: c_def Let_def read_counts_def)
  have "\<exists>t. appCanLogStoreToFrameBuffer ops e s =
      Some (if res = CLB_E_OK then COMM_SUCCESS else COMM_ERROR, s\<lparr>clm_buf := b'\<lparr>clb_counters := c\<rparr>, clm_handed := clm_handed s @ [e], clm_tel := t\<rparr>)"
    using a(1) len by (auto simp: appCanLogStoreToFrameBuffer_def c_def CanLogManager_UpdateRb1BytesHighWater_def
      CanLogBuffer_UsedBytes_def Let_def)
  then obtain t where t: "appCanLogStoreToFrameBuffer ops e s =
      Some (if res = CLB_E_OK then COMM_SUCCESS else COMM_ERROR, s\<lparr>clm_buf := b'\<lparr>clb_counters := c\<rparr>, clm_handed := clm_handed s @ [e], clm_tel := t\<rparr>)" by blast
  let ?s = "s\<lparr>clm_buf := b'\<lparr>clb_counters := c\<rparr>, clm_handed := clm_handed s @ [e], clm_tel := t\<rparr>"
  have "stocked (b'\<lparr>clb_counters := c\<rparr>) (if res = CLB_E_OK then acc @ [e] else acc) out blocks' es'"
    by (rule stocked_cong [OF a(3)]) simp
  then have "logged ?s (if res = CLB_E_OK then acc @ [e] else acc) out blocks' es'" using l by (simp add: logged_def)
  then show ?thesis using t a(2,4,5) c
    by (intro exI [of _ "if res = CLB_E_OK then COMM_SUCCESS else COMM_ERROR"] exI [of _ ?s] exI [of _ blocks'] exI [of _ es'])
      auto
qed

end

section \<open>Histories\<close>

text \<open>What the tasks do with the log: an entry, the padding of the open block when logging stops, and the
  action of the SD task.  \<open>log_step\<close> collects the accepted entries.\<close>

datatype log_op = LogEntry bytes | LogFlush | SdAction

fun log_step :: "'r lwrb_ops \<Rightarrow> ('v, 'f) fatfs_ops \<Rightarrow> (nat \<Rightarrow> u64) \<Rightarrow> log_op \<Rightarrow> ('r, 'v, 'f) clm_state \<times> bytes list \<Rightarrow>
    (('r, 'v, 'f) clm_state \<times> bytes list) option" where
  "log_step ops ff clock (LogEntry e) (s, acc) =
     (case appCanLogStoreToFrameBuffer ops e s of None \<Rightarrow> None
      | Some (r, s) \<Rightarrow> Some (s, if r = COMM_SUCCESS then acc @ [e] else acc))"
| "log_step ops ff clock LogFlush (s, acc) =
     Some (s\<lparr>clm_buf := snd (CanLogBuffer_FillBlockWithPadding ops (clm_buf s))\<rparr>, acc)"
| "log_step ops ff clock SdAction (s, acc) =
     map_option (\<lambda>s. (s, acc)) (SdBridgeTask_ActionHook ops ff clock s)"

fun log_run :: "'r lwrb_ops \<Rightarrow> ('v, 'f) fatfs_ops \<Rightarrow> (nat \<Rightarrow> u64) \<Rightarrow> log_op list \<Rightarrow> ('r, 'v, 'f) clm_state \<times> bytes list \<Rightarrow>
    (('r, 'v, 'f) clm_state \<times> bytes list) option" where
  "log_run ops ff clock [] st = Some st"
| "log_run ops ff clock (x # xs) st =
     (case log_step ops ff clock x st of None \<Rightarrow> None | Some st \<Rightarrow> log_run ops ff clock xs st)"

definition log_op_ok :: "log_op \<Rightarrow> bool" where
  "log_op_ok x = (case x of LogEntry e \<Rightarrow> CanLogBlocks.entry_ok e | _ \<Rightarrow> True)"

lemma log_run_append:
  "log_run ops ff clock (xs @ ys) st =
     (case log_run ops ff clock xs st of None \<Rightarrow> None | Some st \<Rightarrow> log_run ops ff clock ys st)"
  by (induction xs arbitrary: st) (auto split: option.splits)

text \<open>The state after the start: an empty buffer, all log files there, the first one open at its beginning.\<close>

definition log_started :: "'r lwrb_ops \<Rightarrow> ('v \<Rightarrow> bytes \<Rightarrow> bytes option) \<Rightarrow> ('f \<Rightarrow> (bytes \<times> nat \<times> nat) option) \<Rightarrow>
    ('r, 'v, 'f) clm_state \<Rightarrow> bool" where
  "log_started ops files opened s \<longleftrightarrow>
     (\<exists>r. clm_buf s = snd (CanLogBuffer_Init ops (clb_boot r))) \<and> sizes_ok (clm_params s) \<and>
     fileHeadIndex (clm_log s) = 0 \<and> fileTailIndex (clm_log s) = 0 \<and> \<not> fileIndexWrapped (clm_log s) \<and>
     openRes (clm_log s) = 0 \<and> fflags (writeFileDevice (clm_log s)) AND 0x08 = 0 \<and> clm_handed s = [] \<and>
     (\<forall>i < unat (log_file_count (clm_params s)).
        \<exists>d. files (volume (clm_fs s)) (log_file i) = Some d \<and> length d < 4294967296) \<and>
     (\<exists>d. files (volume (clm_fs s)) (log_file 0) = Some d \<and>
        opened (dev_file (writeFileDevice (clm_log s))) = Some (log_file 0, 0, length d))"

context logger
begin

lemma logged_start:
  assumes "log_started ops files opened s"
  shows "logged s [] [] [] []"
proof -
  have n: "0 < unat (log_file_count (clm_params s))"
    using assms by (simp add: log_started_def sizes_ok_def word_less_nat_alt)
  then show ?thesis
    using assms kept_stocked [OF kept_init] by (auto simp: logged_def log_started_def log_ring_def ring_files_def Let_def)
qed

lemma logged_fill:
  assumes "logged s acc out blocks es"
  shows "\<exists>s' blocks' es'. log_step ops ff clock LogFlush (s, acc) = Some (s', acc) \<and> clm_params s' = clm_params s \<and>
    logged s' acc out blocks' es' \<and> (length blocks \<noteq> 7 \<longrightarrow> es' = [])"
proof -
  have k: "stocked (clm_buf s) acc out blocks es" using assms by (simp add: logged_def)
  obtain r b' blocks' es' where "CanLogBuffer_FillBlockWithPadding ops (clm_buf s) = (r, b')"
    "stocked b' acc out blocks' es'" "length blocks \<noteq> 7 \<longrightarrow> es' = []"
    using stocked_fill [OF k] by blast
  then show ?thesis using assms
    by (intro exI [of _ "s\<lparr>clm_buf := b'\<rparr>"] exI [of _ blocks'] exI [of _ es']) (simp add: logged_def)
qed

lemma logged_step:
  assumes l: "logged s acc out blocks es" and x: "log_op_ok x"
  shows "\<exists>s' acc' out' blocks' es'. log_step ops ff clock x (s, acc) = Some (s', acc') \<and>
    clm_params s' = clm_params s \<and> logged s' acc' out' blocks' es'"
proof (cases x)
  case (LogEntry e)
  then have "CanLogBlocks.entry_ok e" using x by (simp add: log_op_ok_def)
  from StoreToFrameBuffer [OF l this] obtain r s' blocks' es' where "appCanLogStoreToFrameBuffer ops e s = Some (r, s')"
    "clm_params s' = clm_params s" "logged s' (if r = COMM_SUCCESS then acc @ [e] else acc) out blocks' es'" by blast
  then show ?thesis unfolding LogEntry
    by (intro exI [of _ s'] exI [of _ "if r = COMM_SUCCESS then acc @ [e] else acc"] exI [of _ out] exI [of _ blocks'] exI [of _ es'])
      simp
next
  case LogFlush
  then show ?thesis using logged_fill [OF l] by blast
next
  case SdAction
  then show ?thesis using ActionHook [OF l, of clock] by auto
qed

lemma logged_run:
  "list_all log_op_ok xs \<Longrightarrow> logged s acc out blocks es \<Longrightarrow>
   \<exists>s' acc' out' blocks' es'. log_run ops ff clock xs (s, acc) = Some (s', acc') \<and>
     clm_params s' = clm_params s \<and> logged s' acc' out' blocks' es'"
proof (induction xs arbitrary: s acc out blocks es)
  case (Cons x xs)
  obtain s1 acc1 out1 blocks1 es1 where "log_step ops ff clock x (s, acc) = Some (s1, acc1)"
    "clm_params s1 = clm_params s" "logged s1 acc1 out1 blocks1 es1"
    using logged_step [OF Cons.prems(2), of x clock] Cons.prems(1) unfolding list.pred_inject(2) by blast
  then show ?case using Cons.IH [of s1 acc1 out1 blocks1 es1] Cons.prems(1) by simp
qed auto

text \<open>After an action of the SD task the ring has no full block.\<close>

lemma logged_run_last:
  assumes "list_all log_op_ok xs" "logged s acc out blocks es"
  shows "\<exists>s' acc' out' blocks' es'. log_run ops ff clock xs (s, acc) = Some (s', acc') \<and>
    logged s' acc' out' blocks' es' \<and> (xs \<noteq> [] \<and> List.last xs = SdAction \<longrightarrow> blocks' = [])"
proof (cases "xs \<noteq> [] \<and> List.last xs = SdAction")
  case True
  then obtain ys where xs: "xs = ys @ [SdAction]" by (metis append_butlast_last_id)
  obtain s1 acc1 out1 blocks1 es1 where 1: "log_run ops ff clock ys (s, acc) = Some (s1, acc1)"
    "logged s1 acc1 out1 blocks1 es1" using logged_run [of ys s acc out blocks es clock] assms by (auto simp: xs)
  obtain s2 bl where "SdBridgeTask_ActionHook ops ff clock s1 = Some s2" "logged s2 acc1 (out1 @ bl) [] es1"
    using ActionHook [OF 1(2), of clock] by blast
  then show ?thesis using 1(1) by (auto simp: xs log_run_append)
next
  case False
  then show ?thesis using logged_run [OF assms, of clock] by blast
qed

lemma logged_flush:
  assumes l: "logged s acc out blocks es"
  shows "\<exists>s' out'. log_run ops ff clock [SdAction, LogFlush, SdAction] (s, acc) = Some (s', acc) \<and>
    clm_params s' = clm_params s \<and> logged s' acc out' [] []"
proof -
  obtain s1 bl where 1: "SdBridgeTask_ActionHook ops ff clock s = Some s1" "clm_params s1 = clm_params s"
    "logged s1 acc (out @ bl) [] es" using ActionHook [OF l] by blast
  obtain s2 blocks2 where 2: "log_step ops ff clock LogFlush (s1, acc) = Some (s2, acc)" "clm_params s2 = clm_params s1"
    "logged s2 acc (out @ bl) blocks2 []" using logged_fill [OF 1(3)] by fastforce
  obtain s3 bl3 where "SdBridgeTask_ActionHook ops ff clock s2 = Some s3" "clm_params s3 = clm_params s2"
    "logged s3 acc ((out @ bl) @ bl3) [] []" using ActionHook [OF 2(3)] by blast
  then show ?thesis using 1 2 by (auto simp: log_run.simps)
qed

end

section \<open>Properties\<close>

text \<open>Where the log stands after the blocks \<open>out\<close>: every block a later one has not replaced is at its place,
  and head and tail name the file being written and the oldest one.\<close>

definition blocks_on_card :: "('v \<Rightarrow> bytes \<Rightarrow> bytes option) \<Rightarrow> ('r, 'v, 'f) clm_state \<Rightarrow> bytes list \<Rightarrow> bool" where
  "blocks_on_card files s out \<longleftrightarrow>
     (let K = blocks_per_file (log_file_size (clm_params s)); N = unat (log_file_count (clm_params s)); q = length out div K
      in (\<forall>j < length out. length out \<le> j + N * K \<longrightarrow>
            (\<exists>d. files (volume (clm_fs s)) (log_file ((j div K) mod N)) = Some d \<and> slice (j mod K) d = out ! j)) \<and>
         unat (fileHeadIndex (clm_log s)) = q mod N \<and>
         unat (fileTailIndex (clm_log s)) = (if N \<le> q then (q + 1) mod N else 0))"

lemma mod_Suc_mod: "(q mod N + 1) mod N = (q + 1) mod (N :: nat)"
  by (simp add: mod_Suc_eq)

lemma logged_on_card:
  assumes "logger ops valid content ff files opened" "logger.logged ops valid content files opened s acc out blocks es"
  shows "acc = concat (map entries_of_block out) @ block_entries blocks @ es" "blocks_on_card files s out"
proof -
  note lw = logger.axioms(1) [OF assms(1)]
  have k: "lwrb.stocked ops valid content (clm_buf s) acc out blocks es"
    and r: "log_ring files opened (volume (clm_fs s)) (clm_log s) (clm_params s) out"
    using assms by (simp_all add: logger.logged_def [OF assms(1)])
  show "acc = concat (map entries_of_block out) @ block_entries blocks @ es" using k by (simp add: lwrb.stocked_def [OF lw])
  show "blocks_on_card files s out"
    using r by (simp add: blocks_on_card_def log_ring_def ring_files_def Let_def mod_Suc_eq)
qed

text \<open>A block reported as written: its bytes were given to the file of the log and FatFs took all of them.  A chain of
  such blocks leads from one state to another.\<close>

definition block_taken :: "'r lwrb_ops \<Rightarrow> ('v, 'f) fatfs_ops \<Rightarrow> (nat \<Rightarrow> u64) \<Rightarrow> ('r, 'v, 'f) clm_state \<Rightarrow> bytes \<Rightarrow>
    ('r, 'v, 'f) clm_state \<Rightarrow> bool" where
  "block_taken lops ff clock s blk s' \<longleftrightarrow> length blk = 65536 \<and>
     appCanLogStoreBlock lops ff clock s = Some (COMM_SUCCESS, s') \<and>
     fst (FatFS_SD_WriteFile ff blk BLOCK_SIZE (writeFileDevice (clm_log s)) (clm_fs s)) = FR_OK"

inductive blocks_taken :: "'r lwrb_ops \<Rightarrow> ('v, 'f) fatfs_ops \<Rightarrow> (nat \<Rightarrow> u64) \<Rightarrow> ('r, 'v, 'f) clm_state \<Rightarrow> bytes list \<Rightarrow>
    ('r, 'v, 'f) clm_state \<Rightarrow> bool" for lops ff clock where
  none_taken: "blocks_taken lops ff clock s [] s"
| one_taken: "block_taken lops ff clock s blk s1 \<Longrightarrow> blocks_taken lops ff clock s1 out s' \<Longrightarrow>
    blocks_taken lops ff clock s (blk # out) s'"

lemma StoreToSd_write:
  "appCanLogStoreToSd ff clock b len given s = (COMM_SUCCESS, w, y, t, s') \<Longrightarrow>
   fst (FatFS_SD_WriteFile ff b len (writeFileDevice (clm_log s)) (clm_fs s)) = FR_OK"
  by (auto simp: appCanLogStoreToSd_def FDCAN_GetTimestampHook_def with_device_def Let_def split: if_splits prod.splits)

text \<open>C3. The whole way from the logger to the card: from the start, through any sequence of entries,
  paddings and SD actions, on a ring buffer and a card that keep their contracts (the card is in the slot and
  every call of FatFs succeeds), every call returns, and the accepted entries are exactly those of the blocks
  written to the files, read back by their headers, followed by those of the full blocks and of the open block
  that the bytes of the ring buffer still hold; after an SD action no full block is left there.  Every block
  written that has not been replaced by a later one, when the ring of log files wraps, is found at its place in
  the files, and head and tail index name the file being written and the oldest one.\<close>

theorem log_reaches_files:
  assumes "logger ops valid content ff files opened" "log_started ops files opened s0" "list_all log_op_ok xs"
  shows "\<exists>s acc out blocks es. log_run ops ff clock xs (s0, []) = Some (s, acc) \<and>
    acc = concat (map entries_of_block out) @ block_entries blocks @ es \<and> blocks_on_card files s out \<and>
    lwrb.holds ops valid content (Rb1 (clm_buf s)) blocks es \<and> (xs \<noteq> [] \<and> List.last xs = SdAction \<longrightarrow> blocks = [])"
proof -
  note lw = logger.axioms(1) [OF assms(1)]
  obtain s acc out blocks es where l: "log_run ops ff clock xs (s0, []) = Some (s, acc)"
    "logger.logged ops valid content files opened s acc out blocks es" "xs \<noteq> [] \<and> List.last xs = SdAction \<longrightarrow> blocks = []"
    using logger.logged_run_last [OF assms(1,3) logger.logged_start [OF assms(1,2)]] by blast
  have "lwrb.holds ops valid content (Rb1 (clm_buf s)) blocks es"
    using l(2) by (simp add: logger.logged_def [OF assms(1)] lwrb.stocked_def [OF lw])
  then show ?thesis using l(1,3) logged_on_card [OF assms(1) l(2)] by blast
qed


text \<open>Whatever FatFs does, a block leaves the buffer only when it was written.\<close>

context lwrb
begin

lemma StoreBlock_any:
  assumes k: "stocked (clm_buf s) acc out (b # bs) es"
  shows "\<exists>res s'. appCanLogStoreBlock ops ff clock s = Some (res, s') \<and>
    (res = COMM_SUCCESS \<and> (\<exists>blk. block_taken ops ff clock s blk s' \<and> entries_of_block blk = snd b \<and>
       stocked (clm_buf s') acc (out @ [blk]) bs es) \<or>
     res \<noteq> COMM_SUCCESS \<and> (\<exists>b'. snd b' = snd b \<and> stocked (clm_buf s') acc out (b' # bs) es))"
proof -
  obtain blk fc b1 b2 b' where r: "CanLogBuffer_ReadNextBlock ops (clm_buf s) =
      Some (\<lparr>br_res = CLB_E_OK, br_data = Some blk, br_len = BLOCK_SIZE, br_frame_count = fc\<rparr>, b1)"
    "CanLogBuffer_Consume ops BLOCK_SIZE fc b1 = (0, b2)" "stocked b2 acc (out @ [blk]) bs es"
    "stocked b1 acc out (b' # bs) es" "length blk = 65536"
    using stocked_read_consume [OF k] by blast
  have same: "entries_of_block blk = snd b" "snd b' = snd b" using k r(3,4) by (simp_all add: stocked_def)
  define s1 where "s1 = note_used (\<lambda>u. Rb1BytesAtLastSdBlockStart_update (\<lambda>_. u))
    (CanLogManager_ReadRb1UsedBytes ops (s\<lparr>clm_buf := b1\<rparr>)) (s\<lparr>clm_buf := b1\<rparr>)"
  obtain res w y t s2 where st: "appCanLogStoreToSd ff clock blk 0x10000 True s1 = (res, w, y, t, s2)"
    by (metis prod_cases5)
  have b: "clm_buf s2 = b1" "clm_buf (appCanLogCheckNewFileOpenLocked ff s2) = b1"
    using StoreToSd_buf [OF st] CheckNewFile_buf(1) [of ff s2] by (simp_all add: s1_def note_used_def)
  let ?c = "(clb_counters b2)\<lparr>CanLogBuffer_BlockCount := CanLogBuffer_BlockCount (clb_counters b2) + 1\<rparr>"
  have "\<exists>s'. appCanLogStoreBlock ops ff clock s = Some (res, s') \<and>
      clm_buf s' = (if res = COMM_SUCCESS then b2\<lparr>clb_counters := ?c\<rparr> else b1)"
    using r(1,2) st b by (simp add: appCanLogStoreBlock_def s1_def note_used_def Let_def)
  then obtain s' where s': "appCanLogStoreBlock ops ff clock s = Some (res, s')"
      "clm_buf s' = (if res = COMM_SUCCESS then b2\<lparr>clb_counters := ?c\<rparr> else b1)" by blast
  have c: "stocked (b2\<lparr>clb_counters := ?c\<rparr>) acc (out @ [blk]) bs es" by (rule stocked_cong [OF r(3)]) simp
  have "block_taken ops ff clock s blk s'" if "res = COMM_SUCCESS"
    using s'(1) r(5) StoreToSd_write [OF st [unfolded that]] that by (simp add: block_taken_def s1_def note_used_def)
  moreover have "\<exists>b'. snd b' = snd b \<and> stocked b1 acc out (b' # bs) es" using r(4) same by blast
  ultimately show ?thesis using s' c same by (intro exI [of _ res] exI [of _ s']) (cases "res = COMM_SUCCESS"; auto)
qed

lemma ActionHook_any:
  "stocked (clm_buf s) acc out blocks es \<Longrightarrow>
   \<exists>s' written s1 blocks'. SdBridgeTask_ActionHook ops ff clock s = Some s' \<and> blocks_taken ops ff clock s written s1 \<and>
     stocked (clm_buf s') acc (out @ written) blocks' es \<and> length written \<le> length blocks \<and>
     map entries_of_block written = map snd (take (length written) blocks) \<and>
     map snd blocks' = map snd (drop (length written) blocks) \<and>
     (blocks' = [] \<and> s' = s1 \<or> (\<exists>res s2. appCanLogStoreBlock ops ff clock s1 = Some (res, s2) \<and>
        res \<noteq> COMM_SUCCESS \<and> s' = CanLogFileManager_ErrorHandler s2))"
proof (induction blocks arbitrary: s out)
  case Nil
  then have "CanLogBuffer_IsBlockReady ops (clm_buf s) = (0, 0)"
    using ready [of "clm_buf s" "[]" es] by (simp add: stocked_def)
  then show ?case using Nil none_taken [of ops ff clock s]
    by (intro exI [of _ s] exI [of _ "[]"]) (simp add: SdBridgeTask_ActionHook.simps [of ops ff clock s])
next
  case (Cons b bs)
  have rd: "CanLogBuffer_IsBlockReady ops (clm_buf s) = (0, 1)"
    using Cons.prems ready [of "clm_buf s" "b # bs" es] by (simp add: stocked_def)
  from StoreBlock_any [OF Cons.prems, of ff clock] obtain res s1 where st: "appCanLogStoreBlock ops ff clock s = Some (res, s1)"
    and cs: "res = COMM_SUCCESS \<and> (\<exists>blk. block_taken ops ff clock s blk s1 \<and> entries_of_block blk = snd b \<and>
       stocked (clm_buf s1) acc (out @ [blk]) bs es) \<or>
     res \<noteq> COMM_SUCCESS \<and> (\<exists>b'. snd b' = snd b \<and> stocked (clm_buf s1) acc out (b' # bs) es)" by blast
  from cs show ?case
  proof (elim disjE exE conjE)
    fix blk
    assume t: "res = COMM_SUCCESS" "block_taken ops ff clock s blk s1" "entries_of_block blk = snd b"
      "stocked (clm_buf s1) acc (out @ [blk]) bs es"
    from Cons.IH [OF t(4)] obtain s' written s2 blocks' where ih: "SdBridgeTask_ActionHook ops ff clock s1 = Some s'"
      "blocks_taken ops ff clock s1 written s2" "stocked (clm_buf s') acc ((out @ [blk]) @ written) blocks' es"
      "length written \<le> length bs" "map entries_of_block written = map snd (take (length written) bs)"
      "map snd blocks' = map snd (drop (length written) bs)"
      "blocks' = [] \<and> s' = s2 \<or> (\<exists>res s3. appCanLogStoreBlock ops ff clock s2 = Some (res, s3) \<and>
        res \<noteq> COMM_SUCCESS \<and> s' = CanLogFileManager_ErrorHandler s3)" by blast
    have "SdBridgeTask_ActionHook ops ff clock s = Some s'"
      using rd st t(1) ih(1) by (simp add: SdBridgeTask_ActionHook.simps [of ops ff clock s])
    then show ?thesis using one_taken [OF t(2) ih(2)] ih(3-7) t(3)
      by (intro exI [of _ s'] exI [of _ "blk # written"] exI [of _ s2] exI [of _ blocks']) simp
  next
    fix b'
    assume f: "res \<noteq> COMM_SUCCESS" "snd b' = snd b" "stocked (clm_buf s1) acc out (b' # bs) es"
    then show ?thesis using rd st none_taken [of ops ff clock s]
      by (intro exI [of _ "CanLogFileManager_ErrorHandler s1"] exI [of _ "[]"] exI [of _ s] exI [of _ "b' # bs"])
        (simp add: SdBridgeTask_ActionHook.simps [of ops ff clock s] CanLogFileManager_ErrorHandler_def)
  qed
qed

end

text \<open>C29. Whatever FatFs and the card do, the action of the SD task returns and loses no entry: of the full blocks in the
  ring buffer it takes out the first ones, each after FatFs has taken all its bytes, with the entries the block
  held; the entries of the other blocks and of the open block are still there, in order.  It ends when no full
  block is left, or with the first block that is not stored, and then the error LED is on.\<close>

theorem sd_action_keeps_entries:
  assumes "lwrb ops valid content" "list_all (op_ok CanLogBlocks.entry_ok) xs"
    and "clb_run ops xs (clb_start ops r) = Some (clm_buf s, acc, out)"
  shows "\<exists>blocks es s' written s1 blocks'. lwrb.holds ops valid content (Rb1 (clm_buf s)) blocks es \<and>
    acc = concat (map entries_of_block out) @ block_entries blocks @ es \<and>
    SdBridgeTask_ActionHook ops ff clock s = Some s' \<and> blocks_taken ops ff clock s written s1 \<and>
    length written \<le> length blocks \<and> map entries_of_block written = map snd (take (length written) blocks) \<and>
    lwrb.holds ops valid content (Rb1 (clm_buf s')) blocks' es \<and> map snd blocks' = map snd (drop (length written) blocks) \<and>
    (blocks' = [] \<and> s' = s1 \<or> (\<exists>res s2. appCanLogStoreBlock ops ff clock s1 = Some (res, s2) \<and> res \<noteq> COMM_SUCCESS \<and>
       s' = CanLogFileManager_ErrorHandler s2 \<and> fh_error_led (clm_fs s')))"
proof -
  note lw = assms(1)
  obtain blocks es where k: "lwrb.kept ops valid content (clm_buf s, acc, out) blocks es"
    using lwrb.kept_run [OF lw assms(2) lwrb.kept_init [OF lw, of r]] assms(3) unfolding clb_start_def by auto
  note st = lwrb.kept_stocked [OF lw k]
  obtain s' written s1 blocks' where a: "SdBridgeTask_ActionHook ops ff clock s = Some s'"
    "blocks_taken ops ff clock s written s1" "lwrb.stocked ops valid content (clm_buf s') acc (out @ written) blocks' es"
    "length written \<le> length blocks" "map entries_of_block written = map snd (take (length written) blocks)"
    "map snd blocks' = map snd (drop (length written) blocks)"
    "blocks' = [] \<and> s' = s1 \<or> (\<exists>res s2. appCanLogStoreBlock ops ff clock s1 = Some (res, s2) \<and>
       res \<noteq> COMM_SUCCESS \<and> s' = CanLogFileManager_ErrorHandler s2)"
    using lwrb.ActionHook_any [OF lw st, of ff clock] by blast
  have h: "lwrb.holds ops valid content (Rb1 (clm_buf s)) blocks es" "lwrb.holds ops valid content (Rb1 (clm_buf s')) blocks' es"
    "acc = concat (map entries_of_block out) @ block_entries blocks @ es"
    using st a(3) by (simp_all add: lwrb.stocked_def [OF lw])
  have "blocks' = [] \<and> s' = s1 \<or> (\<exists>res s2. appCanLogStoreBlock ops ff clock s1 = Some (res, s2) \<and> res \<noteq> COMM_SUCCESS \<and>
       s' = CanLogFileManager_ErrorHandler s2 \<and> fh_error_led (clm_fs s'))"
    using a(7) by (auto simp: CanLogFileManager_ErrorHandler_def)
  then show ?thesis using h a(1,2,4-6) by blast
qed

section \<open>Examples\<close>

interpretation stub_logger: logger stub_lwrb stub_valid ring_bytes stub_fatfs "\<lambda>v. v" stub_opened
  by (intro logger.intro stub_lwrb.lwrb_axioms stub_fatfs.working_card_axioms)

text \<open>Two log files of one block each, of which the first is open.\<close>

definition sample_params :: log_config where
  "sample_params = \<lparr>cluster_size = 32768, log_file_size = 65536, log_file_count = 2\<rparr>"

definition sample_log :: "(stub_ring, bytes \<Rightarrow> bytes option, (bytes \<times> nat \<times> nat) option) clm_state" where
  "sample_log = \<lparr>clm_buf = snd (CanLogBuffer_Init stub_lwrb (clb_boot sample_ring)),
     clm_fs = sample_fs (\<lambda>n. if n = log_file 0 \<or> n = log_file 1 then Some (replicate 65536 0) else None),
     clm_log = \<lparr>filename = log_file 0, openRes = 0, fileHeadIndex = 0, fileTailIndex = 0, fileIndexWrapped = False,
       writeFileDevice = \<lparr>readTargetSize = 0, dev_file = Some (log_file 0, 0, 65536), fflags = 0x32, writeIndex = 0\<rparr>\<rparr>,
     clm_params = sample_params, LogMetaData = \<lparr>meta_epoch = 1, fileIndex = 0, byteOffset = 0, meta_crc = 0\<rparr>,
     clm_tel = CanLogManager_ResetBufferTelemetry 0 \<lparr>Rb1BytesHighWater = 0, Rb1TelemetryWindowInitialized = 0,
       Rb1BytesMinSinceStatus = 0, Rb1BytesMaxSinceStatus = 0, Rb1BytesAtLastSdBlockStart = 0,
       Rb1BytesAtLastSdBlockEndBeforeConsume = 0, Rb1BytesAtLastSdBlockEndAfterConsume = 0,
       CanLogSdBlockAttemptsSinceStatus = 0, CanLogSdBlocksWrittenSinceStatus = 0, CanLogSdBlockErrorsSinceStatus = 0,
       CanLogSdLastBlockFrames = 0, CanLogSdWriteLastUs = 0, CanLogSdSyncLastUs = 0, CanLogSdStoreBlockLastUs = 0,
       CanLogSdWriteMaxSinceStatusUs = 0, CanLogSdSyncMaxSinceStatusUs = 0, CanLogSdStoreBlockMaxSinceStatusUs = 0,
       CanLogSdStoreBlockSumSinceStatusUs = 0, CanLogSdSyncSkippedSinceStatus = 0, CanLogSdWriteMaxUs = 0,
       CanLogSdSyncMaxUs = 0, CanLogSdStoreBlockMaxUs = 0\<rparr>, clm_ticks = 0, clm_handed = []\<rparr>"

lemma sample_log_started: "log_started stub_lwrb (\<lambda>v. v) stub_opened sample_log"
proof -
  have "\<exists>d. (if log_file i = log_file 0 \<or> log_file i = log_file 1 then Some (replicate 65536 (0 :: u8)) else None) = Some d \<and>
      length d < 4294967296" if "i < 2" for i
    using that by (cases i) (auto simp: less_Suc_eq numeral_2_eq_2)
  then show ?thesis
    by (auto simp: log_started_def sample_log_def sample_fs_def sizes_ok_def sample_params_def stub_opened_def)
qed

theorem log_reaches_files_witness:
  "\<exists>s acc out blocks es. log_run stub_lwrb stub_fatfs of_nat [LogEntry sample_sync, LogEntry sample_frame, LogFlush, SdAction]
      (sample_log, []) = Some (s, acc) \<and>
    acc = concat (map entries_of_block out) @ block_entries blocks @ es \<and> blocks_on_card (\<lambda>v. v) s out \<and>
    lwrb.holds stub_lwrb stub_valid ring_bytes (Rb1 (clm_buf s)) blocks es \<and> blocks = []"
proof -
  have "list_all log_op_ok [LogEntry sample_sync, LogEntry sample_frame, LogFlush, SdAction]"
    by (simp add: log_op_ok_def sample_entries)
  from log_reaches_files [OF stub_logger.logger_axioms sample_log_started this, of of_nat]
  show ?thesis by (simp del: log_run.simps)
qed


text \<open>A card that takes nothing, and a buffer with one full block of two entries.\<close>

definition dead_fatfs :: "(bytes \<Rightarrow> bytes option, (bytes \<times> nat \<times> nat) option) fatfs_ops" where
  "dead_fatfs = stub_fatfs\<lparr>f_write := \<lambda>v f bs. (FR_DISK_ERR, 0, f, v)\<rparr>"

lemma dead_write: "fst (FatFS_SD_WriteFile dead_fatfs bs len dev fs) \<noteq> FR_OK"
  by (auto simp: FatFS_SD_WriteFile_def dead_fatfs_def Let_def split: prod.splits if_splits)

lemma blocks_short:
  assumes "stub_lwrb.stocked b acc [] blocks es" "length acc < 7"
  shows "\<not> ring_refuses blocks es e" "length blocks \<noteq> 7"
proof -
  have ne: "list_all (\<lambda>b. snd b \<noteq> []) blocks"
    using assms(1) by (auto simp: stub_lwrb.stocked_def stub_lwrb.holds_def block_ok_def list_all_iff)
  have "length bs \<le> length (block_entries bs)" if "list_all (\<lambda>b. snd b \<noteq> []) bs" for bs
    using that by (induction bs) (auto simp: Suc_le_eq neq_Nil_conv)
  from this [OF ne] show "length blocks \<noteq> 7" using assms by (auto simp: stub_lwrb.stocked_def)
  then show "\<not> ring_refuses blocks es e" by (simp add: ring_refuses_def)
qed

lemma sample_full_block:
  "\<exists>b blocks. clb_run stub_lwrb [AddEntry sample_sync, AddEntry sample_frame, FillBlock] (clb_start stub_lwrb sample_ring) =
      Some (b, [sample_sync, sample_frame], []) \<and> stub_lwrb.stocked b [sample_sync, sample_frame] [] blocks []"
proof -
  let ?b = "snd (CanLogBuffer_Init stub_lwrb (clb_boot sample_ring))"
  have 0: "stub_lwrb.stocked ?b [] [] [] []" by (rule stub_lwrb.kept_stocked [OF stub_lwrb.kept_init])
  note small0 = blocks_short(1) [OF 0]
  obtain b1 bl1 es1 where 1: "CanLogBuffer_AddEntry stub_lwrb sample_sync (of_nat (length sample_sync)) ?b = Some (CLB_E_OK, b1)"
    "stub_lwrb.stocked b1 [sample_sync] [] bl1 es1"
    using stub_lwrb.stocked_add [OF 0 sample_entries(3)] small0 by auto
  obtain b2 bl2 es2 where 2: "CanLogBuffer_AddEntry stub_lwrb sample_frame (of_nat (length sample_frame)) b1 = Some (CLB_E_OK, b2)"
    "stub_lwrb.stocked b2 [sample_sync, sample_frame] [] bl2 es2"
    using stub_lwrb.stocked_add [OF 1(2) sample_entries(4)] blocks_short(1) [OF 1(2)] by auto
  obtain r b3 bl3 where 3: "CanLogBuffer_FillBlockWithPadding stub_lwrb b2 = (r, b3)"
    "stub_lwrb.stocked b3 [sample_sync, sample_frame] [] bl3 []"
    using stub_lwrb.stocked_fill [OF 2(2)] blocks_short(2) [OF 2(2)] by auto
  show ?thesis using 1(1) 2(1) 3 by (auto simp: clb_start_def)
qed

theorem sd_action_keeps_entries_witness:
  "\<exists>b s' blocks es blocks'. clb_run stub_lwrb [AddEntry sample_sync, AddEntry sample_frame, FillBlock] (clb_start stub_lwrb sample_ring) =
      Some (b, [sample_sync, sample_frame], []) \<and> [sample_sync, sample_frame] = block_entries blocks @ es \<and> blocks \<noteq> [] \<and>
    SdBridgeTask_ActionHook stub_lwrb dead_fatfs of_nat (sample_log\<lparr>clm_buf := b\<rparr>) = Some s' \<and>
    stub_lwrb.holds (Rb1 (clm_buf s')) blocks' es \<and> map snd blocks' = map snd blocks \<and> fh_error_led (clm_fs s')"
proof -
  obtain b full where run: "clb_run stub_lwrb [AddEntry sample_sync, AddEntry sample_frame, FillBlock] (clb_start stub_lwrb sample_ring) =
      Some (b, [sample_sync, sample_frame], [])" and k: "stub_lwrb.stocked b [sample_sync, sample_frame] [] full []"
    using sample_full_block by blast
  let ?s = "sample_log\<lparr>clm_buf := b\<rparr>"
  have ops: "list_all (op_ok CanLogBlocks.entry_ok) [AddEntry sample_sync, AddEntry sample_frame, FillBlock]"
    by (simp add: op_ok_def sample_entries)
  have "clb_run stub_lwrb [AddEntry sample_sync, AddEntry sample_frame, FillBlock] (clb_start stub_lwrb sample_ring) =
      Some (clm_buf ?s, [sample_sync, sample_frame], [])" using run by simp
  from sd_action_keeps_entries [OF stub_lwrb.lwrb_axioms ops this, of dead_fatfs of_nat]
  obtain blocks es s' written s1 blocks' where a: "stub_lwrb.holds (Rb1 b) blocks es"
    "[sample_sync, sample_frame] = block_entries blocks @ es" "SdBridgeTask_ActionHook stub_lwrb dead_fatfs of_nat ?s = Some s'"
    "blocks_taken stub_lwrb dead_fatfs of_nat ?s written s1" "stub_lwrb.holds (Rb1 (clm_buf s')) blocks' es"
    "map snd blocks' = map snd (drop (length written) blocks)" "blocks' = [] \<or> fh_error_led (clm_fs s')" by auto
  have w: "written = []" using a(4) dead_write by (cases rule: blocks_taken.cases) (auto simp: block_taken_def)
  have f: "stub_lwrb.holds (Rb1 b) full []" "full \<noteq> []" using k by (auto simp: stub_lwrb.stocked_def)
  have "blocks \<noteq> []"
  proof
    assume e: "blocks = []"
    then have "length (open_bytes es) < 65536" using a(1) open_bytes_lt by (simp add: stub_lwrb.holds_def)
    then show False using e f stub_lwrb.holds_length [OF a(1)] stub_lwrb.holds_length [OF f(1)] by (cases full) auto
  qed
  then show ?thesis using run a w by (metis drop_0 list.map_disc_iff list.size(3))
qed

end
