(* ===== verification/FdcanUtils.thy ===== *)
theory FdcanUtils
  imports Encoding
begin

text \<open>
  \<open>platform/drivers/fdcan/fdcan_utils.c\<close>: the bit timing of the CAN controller.
  \<open>CANFD_CalculateBitTimingRegister\<close> searches the number of time quanta of a bit and packs prescaler,
  segments and jump width into a register image, which the driver unpacks again with the getters.
  The lemmas say what the search finds and when the getters read back what was packed.
\<close>

section \<open>The register image\<close>

text \<open>The positions and masks of the file for the nominal (\<open>False\<close>) and the data phase (\<open>True\<close>).\<close>

definition BRP_Pos :: nat where [simp]: "BRP_Pos = 16"
definition SJW_Pos :: "bool \<Rightarrow> nat" where [simp]: "SJW_Pos is_data_phase = (if is_data_phase then 8 else 24)"
definition TSEG1_Pos :: "bool \<Rightarrow> nat" where [simp]: "TSEG1_Pos is_data_phase = (if is_data_phase then 4 else 8)"
definition TSEG2_Pos :: nat where [simp]: "TSEG2_Pos = 0"

definition BRP_Msk :: "bool \<Rightarrow> u32" where "BRP_Msk is_data_phase = (if is_data_phase then push_bit BRP_Pos 0x1F else push_bit BRP_Pos 0x1FF)"
definition SJW_Msk :: "bool \<Rightarrow> u32" where "SJW_Msk is_data_phase = (if is_data_phase then push_bit (SJW_Pos True) 0xF else push_bit (SJW_Pos False) 0x7F)"
definition TSEG1_Msk :: "bool \<Rightarrow> u32" where "TSEG1_Msk is_data_phase = (if is_data_phase then push_bit (TSEG1_Pos True) 0xF else push_bit (TSEG1_Pos False) 0xFF)"
definition TSEG2_Msk :: "bool \<Rightarrow> u32" where "TSEG2_Msk is_data_phase = (if is_data_phase then push_bit TSEG2_Pos 0xF else push_bit TSEG2_Pos 0x7F)"

definition CANFD_MergeRegisterFromArray :: "bytes \<Rightarrow> u32" where
  "CANFD_MergeRegisterFromArray reg_value =
     push_bit 24 (ucast (reg_value ! 3)) OR push_bit 16 (ucast (reg_value ! 2)) OR
     push_bit 8 (ucast (reg_value ! 1)) OR push_bit 0 (ucast (reg_value ! 0))"

definition CANFD_GetPrescaler :: "bytes \<Rightarrow> bool \<Rightarrow> u16" where
  "CANFD_GetPrescaler reg_value is_data_phase =
     ucast (drop_bit BRP_Pos (CANFD_MergeRegisterFromArray reg_value AND BRP_Msk is_data_phase) + 1)"

definition CANFD_GetSeg1 :: "bytes \<Rightarrow> bool \<Rightarrow> u8" where
  "CANFD_GetSeg1 reg_value is_data_phase =
     ucast (drop_bit (TSEG1_Pos is_data_phase) (CANFD_MergeRegisterFromArray reg_value AND TSEG1_Msk is_data_phase) + 1)"

definition CANFD_GetSeg2 :: "bytes \<Rightarrow> bool \<Rightarrow> u8" where
  "CANFD_GetSeg2 reg_value is_data_phase =
     ucast (drop_bit TSEG2_Pos (CANFD_MergeRegisterFromArray reg_value AND TSEG2_Msk is_data_phase) + 1)"

definition CANFD_GetSJW :: "bytes \<Rightarrow> bool \<Rightarrow> u8" where
  "CANFD_GetSJW reg_value is_data_phase =
     ucast (drop_bit (SJW_Pos is_data_phase) (CANFD_MergeRegisterFromArray reg_value AND SJW_Msk is_data_phase) + 1)"

section \<open>The search\<close>

definition SAMPLE_POINT_FACTOR :: u32 where [simp]: "SAMPLE_POINT_FACTOR = 10000"

text \<open>What the register gets for the fields, and its bytes.\<close>

definition timing_register :: "bool \<Rightarrow> u32 \<Rightarrow> u32 \<Rightarrow> u8 \<Rightarrow> u8 \<Rightarrow> u32" where
  "timing_register is_data_phase prescaler Sjw seg1 seg2 =
     push_bit BRP_Pos (prescaler - 1) OR push_bit (SJW_Pos is_data_phase) (Sjw - 1) OR
     push_bit (TSEG1_Pos is_data_phase) (ucast seg1 - 1) OR push_bit TSEG2_Pos (ucast seg2 - 1)"

definition register_bytes :: "u32 \<Rightarrow> bytes" where
  "register_bytes reg_value =
     [ucast (drop_bit 0 reg_value), ucast (drop_bit 8 reg_value), ucast (drop_bit 16 reg_value), ucast (drop_bit 24 reg_value)]"

text \<open>One round of the search: \<open>None\<close> goes on.\<close>

definition timing_round :: "u32 \<Rightarrow> u32 \<Rightarrow> u32 \<Rightarrow> u32 \<Rightarrow> bool \<Rightarrow> u32 \<Rightarrow> bytes option" where
  "timing_round clock_hz bitrate sample_point sjw is_data_phase tq_num =
     (let total_tq_freq = bitrate * tq_num;
          prescaler = clock_hz div total_tq_freq
      in if (tq_num * sample_point) mod SAMPLE_POINT_FACTOR \<noteq> 0 then None
         else if prescaler = 0 \<or> is_data_phase \<and> prescaler > 32 \<or> \<not> is_data_phase \<and> prescaler > 512 then None
         else if clock_hz div (prescaler * tq_num) \<noteq> bitrate then None
         else
           let seg1 = ucast (tq_num * sample_point div SAMPLE_POINT_FACTOR - 1) :: u8;
               seg2 = ucast (tq_num - ucast seg1 - 1) :: u8
           in if seg1 > 0 \<and> seg2 > 0 then
                let Sjw = (if sjw > ucast seg2 then ucast seg2 else sjw)
                in Some (register_bytes (timing_register is_data_phase prescaler Sjw seg1 seg2))
              else None)"

function timing_search :: "u32 \<Rightarrow> u32 \<Rightarrow> u32 \<Rightarrow> u32 \<Rightarrow> bool \<Rightarrow> u32 \<Rightarrow> bytes option" where
  "timing_search clock_hz bitrate sample_point sjw is_data_phase tq_num =
     (if tq_num \<ge> 8 then
        (case timing_round clock_hz bitrate sample_point sjw is_data_phase tq_num of
           Some reg_value \<Rightarrow> Some reg_value
         | None \<Rightarrow> timing_search clock_hz bitrate sample_point sjw is_data_phase (tq_num - 1))
      else None)"
  by pat_completeness auto
termination
proof (relation "measure (\<lambda>(c, b, p, j, d, tq). unat tq)")
  fix c b p j :: u32 and d and tq :: u32
  assume "8 \<le> tq"
  then show "((c, b, p, j, d, tq - 1), c, b, p, j, d, tq) \<in> measure (\<lambda>(c, b, p, j, d, tq). unat tq)"
    by (simp add: unat_sub_small word_le_nat_alt)
qed simp

declare timing_search.simps [simp del]

definition RES_OK :: u8 where [simp]: "RES_OK = 0"
definition RES_NOT_OK :: u8 where [simp]: "RES_NOT_OK = 1"

text \<open>The result and the four bytes, when they are written; \<open>given\<close>: the output pointer is not null.
  The first return gives \<open>false\<close>, which is 0.\<close>

definition CANFD_CalculateBitTimingRegister ::
  "u32 \<Rightarrow> u32 \<Rightarrow> u32 \<Rightarrow> u32 \<Rightarrow> bool \<Rightarrow> bool \<Rightarrow> u8 \<times> bytes option" where
  "CANFD_CalculateBitTimingRegister clock_hz bitrate sample_point sjw is_data_phase given =
     (if \<not> given \<or> clock_hz = 0 \<or> bitrate = 0 then (0, None)
      else
        let MaxTq = (if clock_hz div bitrate > 512 then 512 else clock_hz div bitrate)
        in case timing_search clock_hz bitrate sample_point sjw is_data_phase MaxTq of
             Some reg_value \<Rightarrow> (RES_OK, Some reg_value)
           | None \<Rightarrow> (RES_NOT_OK, None))"

section \<open>Reading the image back\<close>

lemma Merge_register_bytes [simp]: "CANFD_MergeRegisterFromArray (register_bytes w) = w"
proof (rule bit_word_eqI)
  fix n assume "n < LENGTH(32)"
  then have "n < 32" by simp
  then consider "n < 8" | "8 \<le> n" "n < 16" | "16 \<le> n" "n < 24" | "24 \<le> n" by linarith
  then show "bit (CANFD_MergeRegisterFromArray (register_bytes w)) n \<longleftrightarrow> bit w n"
    using \<open>n < 32\<close> by cases (auto simp: CANFD_MergeRegisterFromArray_def register_bytes_def bit_simps)
qed

lemmas timing_defs = CANFD_GetPrescaler_def CANFD_GetSeg1_def CANFD_GetSeg2_def CANFD_GetSJW_def
  BRP_Msk_def SJW_Msk_def TSEG1_Msk_def TSEG2_Msk_def

text \<open>A field of \<open>m\<close> bits at position \<open>k\<close>.\<close>

lemma field_is_mod: "unat (drop_bit k (w AND push_bit k (mask m))) = unat w div 2 ^ k mod 2 ^ m" for w :: u32
proof -
  have "drop_bit k (w AND push_bit k (mask m)) = take_bit m (drop_bit k w)"
    by (rule bit_word_eqI) (auto simp: bit_simps dest: bit_imp_le_length)
  then have "unat (drop_bit k (w AND push_bit k (mask m))) = take_bit m (drop_bit k (unat w))"
    by (simp only: unsigned_take_bit_eq unat_drop_bit_eq)
  then show ?thesis by (simp only: take_bit_eq_mod drop_bit_eq_div)
qed

lemma getters:
  "unat (CANFD_GetPrescaler (register_bytes w) False) = unat w div 2 ^ 16 mod 2 ^ 9 + 1"
  "unat (CANFD_GetSeg1 (register_bytes w) False) = (unat w div 2 ^ 8 mod 2 ^ 8 + 1) mod 256"
  "unat (CANFD_GetSeg2 (register_bytes w) False) = unat w mod 2 ^ 7 + 1"
  "unat (CANFD_GetSJW (register_bytes w) False) = unat w div 2 ^ 24 mod 2 ^ 7 + 1"
proof -
  have m: "(0x1FF :: u32) = mask 9" "(0xFF :: u32) = mask 8" "(0x7F :: u32) = mask 7" by (simp_all add: mask_eq_exp_minus_1)
  have u: "unat (ucast (x + 1 :: u32) :: u16) = unat x + 1" "unat (ucast (x + 1 :: u32) :: u8) = (unat x + 1) mod 256"
    if "unat x < 512" for x
    using that by (simp_all add: unsigned_ucast_eq take_bit_eq_mod unat_add_small)
  have lt: "n mod 2 ^ 9 < (512::nat)" "n mod 2 ^ 8 < (512::nat)" "n mod 2 ^ 7 < (512::nat)"
      "n mod 2 ^ 7 + 1 < (256::nat)" for n
    using mod_less_divisor [of "2 ^ 9" n] mod_less_divisor [of "2 ^ 8" n] mod_less_divisor [of "2 ^ 7" n] by simp_all
  note f = field_is_mod [of _ w] and d = timing_defs Merge_register_bytes if_False m
  show "unat (CANFD_GetPrescaler (register_bytes w) False) = unat w div 2 ^ 16 mod 2 ^ 9 + 1"
    unfolding d BRP_Pos_def by (subst u) (simp_all only: f lt)
  show "unat (CANFD_GetSeg1 (register_bytes w) False) = (unat w div 2 ^ 8 mod 2 ^ 8 + 1) mod 256"
    unfolding d TSEG1_Pos_def by (subst u) (simp_all only: f lt)
  show "unat (CANFD_GetSeg2 (register_bytes w) False) = unat w mod 2 ^ 7 + 1"
    unfolding d TSEG2_Pos_def by (subst u) (simp_all only: f lt mod_less, simp)
  show "unat (CANFD_GetSJW (register_bytes w) False) = unat w div 2 ^ 24 mod 2 ^ 7 + 1"
    unfolding d SJW_Pos_def by (subst u) (simp_all only: f lt mod_less)
qed

section \<open>What was packed\<close>

lemma or_is_sum:
  fixes x y :: u32
  assumes "unat x * 2 ^ k < 4294967296" "unat y < 2 ^ k"
  shows "unat (push_bit k x OR y) = unat x * 2 ^ k + unat y"
proof -
  have "\<not> bit (push_bit k x) n \<or> \<not> bit y n" for n
  proof (cases "n < k")
    case False
    then have "unat y < 2 ^ n" using assms(2) power_increasing [of k n "2 :: nat"] by linarith
    then have "\<not> bit (unat y) n" by (simp add: bit_iff_odd)
    then show ?thesis by (simp add: bit_unsigned_iff)
  qed (simp add: bit_simps)
  then have "push_bit k x OR y = push_bit k x + y" by (simp add: disjunctive_add)
  moreover have p: "unat (push_bit k x) = unat x * 2 ^ k"
    using assms(1) by (simp only: unsigned_push_bit_eq) (simp add: take_bit_eq_mod push_bit_eq_mult)
  moreover have "unat x * 2 ^ k + unat y < 4294967296"
  proof (cases "k < 32")
    case True
    then have "(4294967296 :: nat) = 2 ^ (32 - k) * 2 ^ k" by (simp flip: power_add)
    moreover from this have "unat x * 2 ^ k < 2 ^ (32 - k) * 2 ^ k" using assms(1) by (simp only:)
    then have "unat x < 2 ^ (32 - k)" by (simp only: mult_less_cancel2)
    ultimately show ?thesis
      using assms(2) mult_le_mono1 [of "Suc (unat x)" "2 ^ (32 - k)" "2 ^ k"] by simp
  next
    case False
    then have "(2 :: nat) ^ 32 \<le> 2 ^ k" by (intro power_increasing) simp_all
    then have "unat x = 0" using assms(1) by (cases "unat x") simp_all
    then show ?thesis using unat_u32_bound [of y] by simp
  qed
  ultimately show ?thesis by (simp add: unat_add_small)
qed

lemma unat_ucast_u8: "unat (ucast z :: u32) = unat z" for z :: u8
  using unat_u8_bound [of z] by (simp add: unsigned_ucast_eq take_bit_nat_eq_self_iff)

text \<open>The sum below holds when no field reaches into the next one but one: the jump width starts at bit
  24, which is also the top bit of the nominal prescaler.\<close>

lemma timing_register_value:
  assumes p: "0 < prescaler" "prescaler \<le> 256" and j: "0 < Sjw" "Sjw \<le> 256" and s: "0 < seg1" "0 < seg2"
  shows "unat (timing_register False prescaler Sjw seg1 seg2) =
    16777216 * (unat Sjw - 1) + 65536 * (unat prescaler - 1) + 256 * (unat seg1 - 1) + (unat seg2 - 1)"
proof -
  have u: "unat (prescaler - 1) = unat prescaler - 1" "unat (Sjw - 1) = unat Sjw - 1"
    "unat (ucast seg1 - 1 :: u32) = unat seg1 - 1" "unat (ucast seg2 - 1 :: u32) = unat seg2 - 1"
    using assms by (simp_all add: unat_sub_small word_less_nat_alt word_le_nat_alt Suc_le_eq unat_ucast_u8)
  have b: "unat seg1 - 1 < 256" "unat seg2 - 1 < 256" "unat prescaler - 1 < 256" "unat Sjw - 1 < 256"
    using p j unat_u8_bound [of seg1] unat_u8_bound [of seg2] by (simp_all add: word_le_nat_alt)
  let ?a = "push_bit 8 (ucast seg1 - 1 :: u32) OR (ucast seg2 - 1)"
  let ?b = "push_bit 16 (prescaler - 1) OR ?a"
  have 1: "unat ?a = (unat seg1 - 1) * 256 + (unat seg2 - 1)"
    by (subst or_is_sum) (use b in \<open>simp_all add: u\<close>)
  have 2: "unat ?b = (unat prescaler - 1) * 65536 + unat ?a"
    by (subst or_is_sum) (use b in \<open>simp_all add: u 1\<close>)
  have 3: "unat (push_bit 24 (Sjw - 1) OR ?b) = (unat Sjw - 1) * 16777216 + unat ?b"
    by (subst or_is_sum) (use b in \<open>simp_all add: u 1 2\<close>)
  have "timing_register False prescaler Sjw seg1 seg2 = push_bit 24 (Sjw - 1) OR ?b"
    by (simp add: timing_register_def ac_simps)
  then show ?thesis by (simp add: 1 2 3)
qed

lemma packed_reads_back:
  assumes "0 < prescaler" "prescaler \<le> 256" "0 < Sjw" "Sjw \<le> 128" "0 < seg1" "0 < seg2" "seg2 \<le> 128"
  defines "bs \<equiv> register_bytes (timing_register False prescaler Sjw seg1 seg2)"
  shows "unat (CANFD_GetPrescaler bs False) = unat prescaler + 256 * ((unat Sjw - 1) mod 2)"
    "CANFD_GetSeg1 bs False = seg1" "CANFD_GetSeg2 bs False = seg2" "unat (CANFD_GetSJW bs False) = unat Sjw"
proof -
  define p j s t where "p = unat prescaler - 1" and "j = unat Sjw - 1" and "s = unat seg1 - 1" and "t = unat seg2 - 1"
  have b: "p < 256" "j < 128" "s < 255" "t < 128" "unat prescaler = p + 1" "unat Sjw = j + 1" "unat seg1 = s + 1" "unat seg2 = t + 1"
    using assms(1-7) unat_u8_bound [of seg1] by (auto simp: p_def j_def s_def t_def word_le_nat_alt word_less_nat_alt)
  have j128: "Sjw \<le> 256" using assms(4) by (simp add: word_le_nat_alt)
  have v: "unat (timing_register False prescaler Sjw seg1 seg2) = 16777216 * j + 65536 * p + 256 * s + t"
    using timing_register_value [OF assms(1,2,3) j128 assms(5,6)] by (simp add: p_def j_def s_def t_def)
  have d: "(16777216 * j + 65536 * p + 256 * s + t) div 65536 = 256 * j + p"
    "(16777216 * j + 65536 * p + 256 * s + t) div 256 = 65536 * j + 256 * p + s"
    "(16777216 * j + 65536 * p + 256 * s + t) div 16777216 = j" using b by linarith+
  have m: "(256 * j + p) mod 512 = 256 * (j mod 2) + p"
  proof -
    have "256 * j + p = 512 * (j div 2) + (256 * (j mod 2) + p)" using div_mult_mod_eq [of j 2] by linarith
    then have "(256 * j + p) mod 512 = (256 * (j mod 2) + p) mod 512" by (simp only: mod_mult_self4)
    moreover have "256 * (j mod 2) + p < 512" using b by (cases "j mod 2 = 0") auto
    ultimately show ?thesis by simp
  qed
  have "65536 * j + 256 * p + s = 256 * (256 * j + p) + s"
    "16777216 * j + 65536 * p + 256 * s + t = 128 * (131072 * j + 512 * p + 2 * s) + t" by simp_all
  then have n: "(65536 * j + 256 * p + s) mod 256 = s" "(16777216 * j + 65536 * p + 256 * s + t) mod 128 = t" "j mod 128 = j"
    using b by (simp_all only: mod_mult_self4 mod_less)
  note g = getters [of "timing_register False prescaler Sjw seg1 seg2", folded bs_def, unfolded v]
  show "unat (CANFD_GetPrescaler bs False) = unat prescaler + 256 * ((unat Sjw - 1) mod 2)"
    using g(1) b d(1) m by simp
  show "CANFD_GetSeg1 bs False = seg1" using g(2) b d(2) n(1) by (simp add: word_unat_eq_iff)
  show "CANFD_GetSeg2 bs False = seg2" using g(3) b n(2) by (simp add: word_unat_eq_iff)
  show "unat (CANFD_GetSJW bs False) = unat Sjw" using g(4) b d(3) n(3) by simp
qed

section \<open>What the search finds\<close>

text \<open>The condition of a round, on numbers: the quanta divide the sample point and the clock.\<close>

definition quanta_ok :: "nat \<Rightarrow> nat \<Rightarrow> nat \<Rightarrow> nat \<Rightarrow> bool" where
  "quanta_ok clock bitrate sample_point tq \<longleftrightarrow>
     tq * sample_point mod 10000 = 0 \<and> clock div (bitrate * tq) \<le> 512 \<and>
     clock div (clock div (bitrate * tq) * tq) = bitrate"

lemma timing_round_quanta:
  assumes t: "8 \<le> unat tq" "unat tq \<le> 256" "unat tq \<le> unat clock div unat bitrate" and b: "bitrate \<noteq> 0"
    and sp: "5000 \<le> unat sp" "unat sp < 10000"
  shows "timing_round clock bitrate sp sjw False tq =
    (if quanta_ok (unat clock) (unat bitrate) (unat sp) (unat tq) then
       let seg1 = of_nat (unat tq * unat sp div 10000 - 1);
           seg2 = of_nat (unat tq - unat tq * unat sp div 10000)
       in Some (register_bytes (timing_register False (of_nat (unat clock div (unat bitrate * unat tq)))
            (if sjw > ucast seg2 then ucast seg2 else sjw) seg1 seg2))
     else None)"
proof -
  define n where "n = unat tq"
  define a where "a = n * unat sp div 10000"
  have b0: "0 < unat bitrate" using b by (simp add: unat_gt_0)
  have le: "unat bitrate * n \<le> unat clock" using t(3) b0 by (simp add: n_def less_eq_div_iff_mult_less_eq mult.commute)
  have n: "8 \<le> n" "n \<le> 256" using t by (simp_all add: n_def)
  have tot: "unat (bitrate * tq) = unat bitrate * n"
    using le unat_u32_bound [of clock] by (simp add: unat_word_ariths n_def)
  define p where "p = unat clock div (unat bitrate * n)"
  have pp: "unat (clock div (bitrate * tq)) = p" by (simp add: unat_div tot p_def)
  have p0: "0 < p" using le b0 n by (simp add: p_def div_greater_zero_iff)
  have pn: "p * n \<le> unat clock"
  proof -
    have "p * (unat bitrate * n) \<le> unat clock" by (simp add: p_def)
    moreover have "p * n \<le> p * (unat bitrate * n)" using b0 by simp
    ultimately show ?thesis by (rule order_trans [rotated])
  qed
  have mul: "unat (x * tq) = p * n" if "unat x = p" for x :: u32
    using that pn unat_u32_bound [of clock] by (simp add: unat_word_ariths n_def)
  have act: "unat (clock div (clock div (bitrate * tq) * tq)) = unat clock div (p * n)"
    by (simp only: unat_div mul [OF pp])
  have "n * unat sp < 4294967296" using n sp mult_mono [of n 256 "unat sp" 10000] by simp
  then have sm: "unat (tq * sp) = n * unat sp" by (simp add: unat_word_ariths n_def)
  then have cond: "(tq * sp) mod 10000 = 0 \<longleftrightarrow> n * unat sp mod 10000 = 0"
    by (simp add: word_unat_eq_iff unat_mod)
  have q: "quanta_ok (unat clock) (unat bitrate) (unat sp) n \<longleftrightarrow>
      (tq * sp) mod 10000 = 0 \<and> \<not> clock div (bitrate * tq) > 512 \<and> clock div (clock div (bitrate * tq) * tq) = bitrate"
    unfolding quanta_ok_def cond by (simp add: word_less_nat_alt word_unat_eq_iff act pp not_less p_def)
  have a: "4 \<le> a" "a < n" "n - a \<le> 128"
  proof -
    have "8 * 5000 \<le> n * unat sp" using n(1) sp(1) by (rule mult_le_mono)
    then show "4 \<le> a" by (simp add: a_def)
    have "n * unat sp < n * 10000" using n(1) sp(2) by simp
    then show "a < n" by (simp add: a_def less_mult_imp_div_less)
    have "n * 5000 \<le> n * unat sp" using sp(1) by simp
    then have "n * 5000 div (2 * 5000) \<le> a" using div_le_mono [of "n * 5000" "n * unat sp" 10000] by (simp add: a_def)
    moreover have "n * 5000 div (2 * 5000) = n div 2" by (rule div_mult_mult2) simp
    ultimately have "n div 2 \<le> a" by (simp only:)
    then show "n - a \<le> 128" using n(2) by linarith
  qed
  have ta: "unat (tq * sp div 10000) = a" by (simp add: unat_div sm a_def)
  let ?s1 = "ucast (tq * sp div 10000 - 1) :: u8"
  have t1: "unat (tq * sp div 10000 - 1) = a - 1" using a(1) by (simp add: unat_sub_small ta)
  then have u1: "unat ?s1 = a - 1" using a n by (simp only: unsigned_ucast_eq) (simp add: take_bit_eq_mod)
  moreover have "unat (of_nat (a - 1) :: u8) = a - 1" using a n by (simp only: unat_of_nat) simp
  ultimately have s1: "?s1 = of_nat (a - 1)" by (simp only: word_unat_eq_iff)
  have s1v: "unat (ucast ?s1 :: u32) = a - 1" using u1 by (simp only: unat_ucast_u8)
  let ?s2 = "ucast (tq - ucast ?s1 - 1) :: u8"
  have "unat (tq - z - 1) = n - a" if "unat z = a - 1" for z :: u32
    using that a n by (simp add: unat_sub_small flip: n_def)
  from this [OF s1v] have u2: "unat ?s2 = n - a" using a n by (simp only: unsigned_ucast_eq) (simp add: take_bit_eq_mod)
  moreover have "unat (of_nat (n - a) :: u8) = n - a" using a n by (simp only: unat_of_nat) simp
  ultimately have s2: "?s2 = of_nat (n - a)" by (simp only: word_unat_eq_iff)
  have "0 < unat ?s1" "0 < unat ?s2" using a by (simp_all only: u1 u2)
  then have pos: "0 < ?s1 \<and> 0 < ?s2" by (simp only: word_less_nat_alt unsigned_0)
  have pw: "clock div (bitrate * tq) = of_nat p" using pp by (metis of_nat_unat ucast_id)
  have p1: "clock div (bitrate * tq) \<noteq> 0" using p0 pp by auto
  show ?thesis
    unfolding timing_round_def Let_def SAMPLE_POINT_FACTOR_def n_def [symmetric] q a_def [symmetric] p_def [symmetric]
    using p1 pos
    by (cases "tq * sp mod 10000 = 0"; cases "512 < clock div (bitrate * tq)";
        cases "clock div (clock div (bitrate * tq) * tq) = bitrate";
        simp only: s1 [symmetric] s2 [symmetric] pw [symmetric] simp_thms if_True if_False)
qed

text \<open>The search takes the largest number of quanta that qualifies.\<close>

lemma timing_search_none:
  assumes "bitrate \<noteq> 0" "5000 \<le> unat sp" "unat sp < 10000"
  shows "unat m \<le> 256 \<Longrightarrow> unat m \<le> unat clock div unat bitrate \<Longrightarrow>
    timing_search clock bitrate sp sjw False m = None \<Longrightarrow>
    8 \<le> tq \<Longrightarrow> tq \<le> unat m \<Longrightarrow> \<not> quanta_ok (unat clock) (unat bitrate) (unat sp) tq"
proof (induction "unat m" arbitrary: m)
  case (Suc k)
  have m8: "8 \<le> unat m" "8 \<le> m" using Suc.prems(4,5) by (simp_all add: word_le_nat_alt)
  have none: "timing_round clock bitrate sp sjw False m = None" "timing_search clock bitrate sp sjw False (m - 1) = None"
    using Suc.prems(3) m8 by (subst (asm) timing_search.simps, simp split: option.splits)+
  have m1: "unat (m - 1) = k" using Suc.hyps(2) m8 by (simp add: unat_sub_small)
  show ?case
  proof (cases "tq = unat m")
    case True
    then show ?thesis
      using none(1) timing_round_quanta [OF m8(1) Suc.prems(1,2) assms, of sjw] by (auto simp: Let_def split: if_splits)
  next
    case False
    then show ?thesis using Suc.hyps(1) [of "m - 1"] Suc.prems Suc.hyps(2) none(2) m1 by simp
  qed
qed simp

lemma timing_search_some:
  assumes "bitrate \<noteq> 0" "5000 \<le> unat sp" "unat sp < 10000"
  shows "unat m \<le> 256 \<Longrightarrow> unat m \<le> unat clock div unat bitrate \<Longrightarrow>
    timing_search clock bitrate sp sjw False m = Some bs \<Longrightarrow>
    \<exists>tq. 8 \<le> unat tq \<and> unat tq \<le> unat m \<and> timing_round clock bitrate sp sjw False tq = Some bs"
proof (induction "unat m" arbitrary: m)
  case 0
  then show ?case by (subst (asm) timing_search.simps) (simp add: word_le_nat_alt split: if_splits)
next
  case (Suc k)
  have m8: "8 \<le> unat m" "8 \<le> m"
    using Suc.prems(3) by (subst (asm) timing_search.simps, simp add: word_le_nat_alt split: if_splits)+
  have m1: "unat (m - 1) = k" using Suc.hyps(2) m8 by (simp add: unat_sub_small)
  show ?case
  proof (cases "timing_round clock bitrate sp sjw False m")
    case None
    then have "timing_search clock bitrate sp sjw False (m - 1) = Some bs"
      using Suc.prems(3) m8 by (subst (asm) timing_search.simps) simp
    then obtain tq where "8 \<le> unat tq" "unat tq \<le> unat (m - 1)" "timing_round clock bitrate sp sjw False tq = Some bs"
      using Suc.hyps(1) [of "m - 1"] Suc.prems(1,2) Suc.hyps(2) m1 by auto
    then show ?thesis using m1 Suc.hyps(2) by (intro exI [of _ tq]) simp
  next
    case (Some bs')
    then have "bs' = bs" using Suc.prems(3) m8 by (subst (asm) timing_search.simps) simp
    then show ?thesis using Some m8 by (intro exI [of _ m]) simp
  qed
qed

text \<open>What the getters give on the image of a round.\<close>

lemma round_reads_back:
  assumes t: "8 \<le> unat tq" "unat tq \<le> 256" "unat tq \<le> unat clock div unat bitrate" and b: "bitrate \<noteq> 0"
    and sp: "5000 \<le> unat sp" "unat sp < 10000" and c: "unat clock div unat bitrate \<le> 256" and j: "sjw \<noteq> 0"
    and r: "timing_round clock bitrate sp sjw False tq = Some bs"
  shows "quanta_ok (unat clock) (unat bitrate) (unat sp) (unat tq)"
    "unat (CANFD_GetSeg1 bs False) + unat (CANFD_GetSeg2 bs False) + 1 = unat tq"
    "(unat (CANFD_GetSeg1 bs False) + 1) * 10000 = unat tq * unat sp"
    "unat (CANFD_GetSJW bs False) = min (unat sjw) (unat (CANFD_GetSeg2 bs False))"
    "unat (CANFD_GetPrescaler bs False) = unat clock div (unat bitrate * unat tq) +
       256 * ((unat (CANFD_GetSJW bs False) - 1) mod 2)"
    "unat clock div (unat bitrate * unat tq) \<le> 32"
proof -
  define n a p where "n = unat tq" and "a = n * unat sp div 10000" and "p = unat clock div (unat bitrate * n)"
  define s1 s2 where "s1 = (of_nat (a - 1) :: u8)" and "s2 = (of_nat (n - a) :: u8)"
  define J where "J = (if sjw > ucast s2 then ucast s2 else sjw)"
  have q: "quanta_ok (unat clock) (unat bitrate) (unat sp) n"
    and bs: "bs = register_bytes (timing_register False (of_nat p) J s1 s2)"
    using r timing_round_quanta [OF t b sp, of sjw]
    by (auto simp: Let_def n_def a_def p_def s1_def s2_def J_def split: if_splits)
  have n: "8 \<le> n" "n \<le> 256" using t by (simp_all add: n_def)
  have b0: "0 < unat bitrate" using b by (simp add: unat_gt_0)
  have m: "a * 10000 = n * unat sp" using q by (auto simp: quanta_ok_def a_def)
  have a: "4 \<le> a" "a < n" "n - a \<le> 128"
  proof -
    have "8 * 5000 \<le> n * unat sp" "n * unat sp < n * 10000" "n * 5000 \<le> n * unat sp"
      using n(1) sp mult_le_mono [OF n(1) sp(1)] by simp_all
    then show "4 \<le> a" "a < n" "n - a \<le> 128" using m n(2) by linarith+
  qed
  have le: "unat bitrate * n \<le> unat clock" using t(3) b0 by (simp add: n_def less_eq_div_iff_mult_less_eq mult.commute)
  have p: "0 < p" "p \<le> 32"
  proof -
    show "0 < p" using le b0 n by (simp add: p_def div_greater_zero_iff)
    have "p = unat clock div unat bitrate div n" by (simp add: p_def div_mult2_eq)
    also have "\<dots> \<le> unat clock div unat bitrate div 8" using n by (intro div_le_mono2) simp_all
    also have "\<dots> \<le> 256 div 8" using c by (intro div_le_mono) simp
    finally show "p \<le> 32" by simp
  qed
  have pu: "unat (of_nat p :: u32) = p" using p by (simp only: unat_of_nat) simp
  have u: "unat s1 = a - 1" "unat s2 = n - a"
    unfolding s1_def s2_def using a n by (simp_all only: unat_of_nat) simp_all
  have J: "unat J = min (unat sjw) (n - a)"
    by (simp add: J_def unat_ucast_u8 u word_less_nat_alt min_def)
  have pos: "0 < (of_nat p :: u32)" "(of_nat p :: u32) \<le> 256" "0 < J" "J \<le> 128" "0 < s1" "0 < s2" "s2 \<le> 128"
    using p a j unat_gt_0 [of sjw] by (simp_all add: word_less_nat_alt word_le_nat_alt pu u J)
  note g = packed_reads_back [OF pos, folded bs]
  show "quanta_ok (unat clock) (unat bitrate) (unat sp) (unat tq)" using q by (simp add: n_def)
  show "unat (CANFD_GetSeg1 bs False) + unat (CANFD_GetSeg2 bs False) + 1 = unat tq"
    using g(2,3) u a by (simp flip: n_def)
  show "(unat (CANFD_GetSeg1 bs False) + 1) * 10000 = unat tq * unat sp"
    using g(2) u a m by (simp flip: n_def)
  show "unat (CANFD_GetSJW bs False) = min (unat sjw) (unat (CANFD_GetSeg2 bs False))" using g(3,4) J u by simp
  show "unat (CANFD_GetPrescaler bs False) = unat clock div (unat bitrate * unat tq) +
       256 * ((unat (CANFD_GetSJW bs False) - 1) mod 2)" using g(1,4) pu by (simp add: p_def n_def)
  show "unat clock div (unat bitrate * unat tq) \<le> 32" using p(2) by (simp add: p_def n_def)
qed

lemma timing_found:
  assumes c: "unat clock div unat bitrate \<le> 256" and b: "clock \<noteq> 0" "bitrate \<noteq> 0" and sp: "5000 \<le> unat sp" "unat sp < 10000"
    and r: "CANFD_CalculateBitTimingRegister clock bitrate sp sjw False True = (0, bs)"
  shows "\<exists>r tq. bs = Some r \<and> 8 \<le> unat tq \<and> unat tq \<le> unat clock div unat bitrate \<and>
    timing_round clock bitrate sp sjw False tq = Some r"
proof -
  have m: "unat (clock div bitrate) = unat clock div unat bitrate" by (simp add: unat_div)
  have "\<not> clock div bitrate > 512" using c by (simp add: word_less_nat_alt m)
  then obtain x where x: "bs = Some x" "timing_search clock bitrate sp sjw False (clock div bitrate) = Some x"
    using r b by (cases "timing_search clock bitrate sp sjw False (clock div bitrate)")
      (auto simp: CANFD_CalculateBitTimingRegister_def)
  then show ?thesis using timing_search_some [OF b(2) sp _ _ x(2)] c m by auto
qed

section \<open>Limits\<close>

text \<open>Above 256 quanta the segments do not fit into their eight bits: asked for 156250
  bit/s and 75 percent at 80 MHz, the search takes 512 quanta and reports success with segments of 127 and 128, which are
  half of the quanta and another sample point.\<close>

lemma wide_segments_wrap:
  "case CANFD_CalculateBitTimingRegister 80000000 156250 7500 1 False True of
      (r, Some bs) \<Rightarrow> r = RES_OK \<and> CANFD_GetPrescaler bs False = 1 \<and> CANFD_GetSeg1 bs False = 127 \<and> CANFD_GetSeg2 bs False = 128
    | (r, None) \<Rightarrow> False"
  by (simp add: CANFD_CalculateBitTimingRegister_def timing_search.simps timing_round_def timing_defs timing_register_def)

text \<open>The fourth case of \<open>tests/fdcan/test_fdcan.c\<close>: with a jump width of 10 the prescaler is 257; the test keeps it in
  eight bits, where it is the expected 1.\<close>

lemma even_jump_width:
  "case CANFD_CalculateBitTimingRegister 40000000 500000 7500 10 False True of
      (r, Some bs) \<Rightarrow> r = RES_OK \<and> CANFD_GetPrescaler bs False = 257 \<and> (ucast (CANFD_GetPrescaler bs False) :: u8) = 1 \<and>
        CANFD_GetSeg1 bs False = 59 \<and> CANFD_GetSeg2 bs False = 20 \<and> CANFD_GetSJW bs False = 10
    | (r, None) \<Rightarrow> False"
  by (simp add: CANFD_CalculateBitTimingRegister_def timing_search.simps timing_round_def timing_defs timing_register_def)

section \<open>Properties\<close>

text \<open>C30. The bit timing of the nominal phase, for at most 256 quanta to a bit (above, the segments of eight bits
  wrap, see \<open>wide_segments_wrap\<close>) and a sample point from 50 percent on: the function returns 0 with a register
  image if and only if some number of quanta from 8 on meets the sample point and divides the clock to the bit rate, and
  1 without an image otherwise.  These are the codes the driver and the tests expect; the comment in
  \<open>fdcan_utils.h\<close> promises the opposite, true for success.  With an image, the segments the driver reads back with the
  getters give exactly this sample point, the jump width is the one asked for, cut to segment 2, and
  prescaler and segments give exactly this bit rate if and only if the jump width is odd: its position in the register
  is that of the highest bit of the prescaler, so an even one adds 256 (see \<open>even_jump_width\<close>).\<close>

theorem bit_timing_exact:
  assumes "clock \<noteq> 0" "bitrate \<noteq> 0" "unat clock div unat bitrate \<le> 256" "5000 \<le> unat sp" "unat sp < 10000" "sjw \<noteq> 0"
  shows "case CANFD_CalculateBitTimingRegister clock bitrate sp sjw False True of
      (r, Some bs) \<Rightarrow> r = 0 \<and>
        (let p = unat (CANFD_GetPrescaler bs False); s1 = unat (CANFD_GetSeg1 bs False);
             s2 = unat (CANFD_GetSeg2 bs False); j = unat (CANFD_GetSJW bs False)
         in j = min (unat sjw) s2 \<and> (1 + s1) * 10000 = (1 + s1 + s2) * unat sp \<and>
            (unat clock div (p * (1 + s1 + s2)) = unat bitrate \<longleftrightarrow> odd j))
    | (r, None) \<Rightarrow> r = 1 \<and>
        (\<forall>tq. 8 \<le> tq \<longrightarrow> tq \<le> unat clock div unat bitrate \<longrightarrow> \<not> quanta_ok (unat clock) (unat bitrate) (unat sp) tq)"
proof (cases "CANFD_CalculateBitTimingRegister clock bitrate sp sjw False True")
  case (Pair r bs)
  have m: "unat (clock div bitrate) = unat clock div unat bitrate" by (simp add: unat_div)
  have small: "\<not> clock div bitrate > 512" using assms(3) by (simp add: word_less_nat_alt m)
  show ?thesis
  proof (cases "r = 0")
    case True
    then obtain x tq where x: "bs = Some x" "8 \<le> unat tq" "unat tq \<le> unat clock div unat bitrate"
      "timing_round clock bitrate sp sjw False tq = Some x"
      using timing_found [OF assms(3,1,2,4,5)] Pair by blast
    note g = round_reads_back [OF x(2) order_trans [OF x(3) assms(3)] x(3) assms(2,4,5,3,6) x(4)]
    define n p q where "n = unat tq" and "p = unat (CANFD_GetPrescaler x False)"
      and "q = unat clock div (unat bitrate * n)"
    have j: "0 < unat (CANFD_GetSJW x False)"
      using g(2-4) assms(5,6) x(2) by (cases "unat (CANFD_GetSeg2 x False) = 0") (auto simp: unat_gt_0)
    have n: "1 + unat (CANFD_GetSeg1 x False) + unat (CANFD_GetSeg2 x False) = n" using g(2) by (simp add: n_def)
    have "unat clock div (p * n) = unat bitrate \<longleftrightarrow> odd (unat (CANFD_GetSJW x False))"
    proof (cases "odd (unat (CANFD_GetSJW x False))")
      case True
      then show ?thesis using g(1,5) by (simp add: p_def quanta_ok_def n_def)
    next
      case False
      then have "(unat (CANFD_GetSJW x False) - 1) mod 2 = 1" using j by presburger
      then have "p = q + 256" using g(5) by (simp add: p_def q_def n_def)
      then have "q * n * 9 \<le> p * n" using g(6) by (simp add: q_def n_def mult.commute [of _ 9] flip: mult.assoc)
      then have "unat clock div (p * n) \<le> unat clock div (q * n) div 9"
        unfolding div_mult2_eq [symmetric] by (rule div_le_mono2 [rotated]) (use g(1) assms(2) in \<open>auto intro!: Nat.gr0I simp: quanta_ok_def q_def n_def unat_eq_0\<close>)
      moreover have "unat clock div (q * n) = unat bitrate" using g(1) by (simp add: quanta_ok_def q_def n_def)
      moreover have "0 < unat bitrate" using assms(2) by (simp add: unat_gt_0)
      ultimately show ?thesis using False by auto
    qed
    then show ?thesis
      using g(3,4) True unfolding Pair x(1) prod.case option.case Let_def n
      by (intro conjI) (simp_all only: p_def n_def ac_simps)
  next
    case False
    then have none: "r = 1" "bs = None" "timing_search clock bitrate sp sjw False (clock div bitrate) = None"
      using Pair assms(1,2) small by (auto simp: CANFD_CalculateBitTimingRegister_def split: option.splits)
    then show ?thesis
      using timing_search_none [OF assms(2,4,5) _ _ none(3)] assms(3) m Pair by auto
  qed
qed

text \<open>The clock of the board, 500 kbit/s, 75 percent and the jump width the driver asks for.\<close>

theorem bit_timing_exact_witness:
  "case CANFD_CalculateBitTimingRegister 40000000 500000 7500 1 False True of
      (r, Some bs) \<Rightarrow> r = 0 \<and>
        (let p = unat (CANFD_GetPrescaler bs False); s1 = unat (CANFD_GetSeg1 bs False);
             s2 = unat (CANFD_GetSeg2 bs False); j = unat (CANFD_GetSJW bs False)
         in j = min (unat (1 :: u32)) s2 \<and> (1 + s1) * 10000 = (1 + s1 + s2) * unat (7500 :: u32) \<and>
            (unat (40000000 :: u32) div (p * (1 + s1 + s2)) = unat (500000 :: u32) \<longleftrightarrow> odd j))
    | (r, None) \<Rightarrow> r = 1 \<and>
        (\<forall>tq. 8 \<le> tq \<longrightarrow> tq \<le> unat (40000000 :: u32) div unat (500000 :: u32) \<longrightarrow>
           \<not> quanta_ok (unat (40000000 :: u32)) (unat (500000 :: u32)) (unat (7500 :: u32)) tq)"
  by (rule bit_timing_exact) simp_all
end
