(* ===== verification/Fdcan.thy ===== *)
theory Fdcan
  imports FdcanUtils CommTypes
begin

text \<open>
  \<open>platform/drivers/fdcan/fdcan.c\<close>, the operations of a running driver: bit rate, mode, start, stop,
  sending and reading a frame.  The HAL of the chip maker, which the build fetches, is the record
  \<open>fdcan_hal\<close> over the state \<open>'h\<close> of the peripheral and its handle; the constants of its header are
  fields of the record.  What is relied on of it is the locale \<open>hal_fdcan\<close>.
\<close>

section \<open>The HAL\<close>

datatype HAL_StatusTypeDef = HAL_OK | HAL_ERROR | HAL_BUSY | HAL_TIMEOUT

text \<open>The header of a received message.\<close>

record FDCAN_RxHeaderTypeDef =
  Identifier :: u32
  IdType :: u32
  DataLength :: u32
  ErrorStateIndicator :: u32
  BitRateSwitch :: u32
  FDFormat :: u32
  RxTimestamp :: u32

text \<open>The fields of \<open>Init\<close> the operations below change.\<close>

record FDCAN_InitTypeDef =
  Init_Mode :: u32
  NominalPrescaler :: u32
  NominalSyncJumpWidth :: u32
  NominalTimeSeg1 :: u32
  NominalTimeSeg2 :: u32

text \<open>\<open>DLC_BYTES n\<close> is the constant \<open>FDCAN_DLC_BYTES_n\<close>, and the interrupt constants are bits.  The
  functions take the peripheral; \<open>HAL_FDCAN_Init\<close> takes the configuration too.\<close>

record 'h fdcan_hal =
  HAL_FDCAN_Init :: "'h \<Rightarrow> FDCAN_InitTypeDef \<Rightarrow> HAL_StatusTypeDef \<times> 'h"
  HAL_FDCAN_Start :: "'h \<Rightarrow> HAL_StatusTypeDef \<times> 'h"
  HAL_FDCAN_Stop :: "'h \<Rightarrow> HAL_StatusTypeDef \<times> 'h"
  HAL_FDCAN_AbortTxRequest :: "'h \<Rightarrow> HAL_StatusTypeDef \<times> 'h"
  HAL_FDCAN_ActivateNotification :: "'h \<Rightarrow> u32 \<Rightarrow> HAL_StatusTypeDef \<times> 'h"
  HAL_FDCAN_DeactivateNotification :: "'h \<Rightarrow> u32 \<Rightarrow> HAL_StatusTypeDef \<times> 'h"
  HAL_FDCAN_CLEAR_IT :: "'h \<Rightarrow> u32 \<Rightarrow> 'h"
  HAL_FDCAN_GetRxFifoFillLevel :: "'h \<Rightarrow> u32"
  HAL_FDCAN_GetRxMessage :: "'h \<Rightarrow> HAL_StatusTypeDef \<times> FDCAN_RxHeaderTypeDef \<times> bytes \<times> 'h"
  HAL_FDCAN_CLEAR_FLAG :: "'h \<Rightarrow> u32 \<Rightarrow> 'h"
  ErrorCode :: "'h \<Rightarrow> u32"
  PeriphCLKFreq :: u32
  reg_PSR :: "'h \<Rightarrow> u32"
  reg_ECR :: "'h \<Rightarrow> u32"
  reg_RXF0S :: "'h \<Rightarrow> u32"
  reg_IR :: "'h \<Rightarrow> u32"
  reg_IE :: "'h \<Rightarrow> u32"
  FDCAN_IT_RX_FIFO0_WATERMARK :: u32
  FDCAN_IT_RX_FIFO0_MESSAGE_LOST :: u32
  FDCAN_FLAG_RX_FIFO0_MESSAGE_LOST :: u32
  FDCAN_RXF0S_RF0L :: u32
  HAL_FDCAN_ERROR_NOT_STARTED :: u32
  FDCAN_MODE_NORMAL :: u32
  FDCAN_MODE_BUS_MONITORING :: u32
  FDCAN_MODE_EXTERNAL_LOOPBACK :: u32
  FDCAN_BRS_ON :: u32
  FDCAN_ESI_PASSIVE :: u32
  FDCAN_EXTENDED_ID :: u32
  FDCAN_FD_CAN :: u32
  DLC_BYTES :: "nat \<Rightarrow> u32"
  FDCAN_IR_ELO :: u32
  FDCAN_IR_PEA :: u32
  FDCAN_IR_PED :: u32
  FDCAN_IR_ARA :: u32
  FDCAN_IR_EP :: u32
  FDCAN_IR_EW :: u32
  FDCAN_IR_BO :: u32
  FDCAN_IR_RF0L :: u32
  FDCAN_IR_RF0F :: u32
  FDCAN_IR_RF0W :: u32
  FDCAN_IR_RF0N :: u32
  FDCAN_PSR_LEC :: u32
  FDCAN_PSR_LEC_Pos :: nat
  FDCAN_PSR_DLEC :: u32
  FDCAN_PSR_DLEC_Pos :: nat
  FDCAN_PSR_EP :: u32
  FDCAN_PSR_EW :: u32
  FDCAN_PSR_BO :: u32
  FDCAN_PSR_PXE :: u32
  FDCAN_ECR_TEC :: u32
  FDCAN_ECR_REC :: u32
  FDCAN_ECR_RP :: u32
  FDCAN_ECR_CEL :: u32

definition FDCAN_IRQ_NOTIFICATION :: "'h fdcan_hal \<Rightarrow> u32" where
  "FDCAN_IRQ_NOTIFICATION hal = FDCAN_IT_RX_FIFO0_WATERMARK hal OR FDCAN_IT_RX_FIFO0_MESSAGE_LOST hal"

section \<open>State\<close>

text \<open>The driver object and its instance; \<open>fdcan_error_led\<close> is what \<open>FDCAN_ErrorHandler\<close> lights.\<close>

record 'h fdcan_dev =
  hfdcan :: 'h
  fdcan_Init :: FDCAN_InitTypeDef
  mostRecentInterrupTimestamp :: u64
  fdcan_state :: CommDriverStatesType
  fdcan_error_led :: bool

definition FDCAN_ErrorHandler :: "'h fdcan_dev \<Rightarrow> 'h fdcan_dev" where
  "FDCAN_ErrorHandler d = d\<lparr>fdcan_error_led := True\<rparr>"

definition FDCAN_MODE_1 :: u32 where [simp]: "FDCAN_MODE_1 = 1"
definition FDCAN_MODE_2 :: u32 where [simp]: "FDCAN_MODE_2 = 2"
definition FDCAN_MODE_3 :: u32 where [simp]: "FDCAN_MODE_3 = 3"
definition FDCAN_MODE_4 :: u32 where [simp]: "FDCAN_MODE_4 = 4"

definition FDCAN_BAUDRATE_250000 :: u32 where [simp]: "FDCAN_BAUDRATE_250000 = 250000"
definition FDCAN_BAUDRATE_500000 :: u32 where [simp]: "FDCAN_BAUDRATE_500000 = 500000"
definition FDCAN_BAUDRATE_1000000 :: u32 where [simp]: "FDCAN_BAUDRATE_1000000 = 1000000"

section \<open>Operations\<close>

text \<open>The options for the static replay are off.\<close>

definition FDCAN_SetBaudrate :: "'h fdcan_hal \<Rightarrow> u32 \<Rightarrow> 'h fdcan_dev \<Rightarrow> comm_status \<times> 'h fdcan_dev" where
  "FDCAN_SetBaudrate hal baudrate dev =
     (let FdcanClock = PeriphCLKFreq hal;
          res = (if baudrate = FDCAN_BAUDRATE_250000 \<or> baudrate = FDCAN_BAUDRATE_500000 \<or> baudrate = FDCAN_BAUDRATE_1000000
                 then COMM_SUCCESS else COMM_INVALID_PARAMETER);
          timings = replicate 4 0;
          (res, timings) =
            (if COMM_SUCCESS \<noteq> res then (res, timings)
             else case CANFD_CalculateBitTimingRegister FdcanClock baudrate 7500 1 False True of
               (r, bs) \<Rightarrow> (if r = 0 then COMM_SUCCESS else COMM_ERROR, case bs of Some t \<Rightarrow> t | None \<Rightarrow> timings))
      in if COMM_SUCCESS = res then
           let dev = dev\<lparr>fdcan_Init := (fdcan_Init dev)\<lparr>
                  NominalPrescaler := ucast (CANFD_GetPrescaler timings False),
                  NominalSyncJumpWidth := ucast (CANFD_GetSJW timings False),
                  NominalTimeSeg1 := ucast (CANFD_GetSeg1 timings False),
                  NominalTimeSeg2 := ucast (CANFD_GetSeg2 timings False)\<rparr>\<rparr>
           in case HAL_FDCAN_Init hal (hfdcan dev) (fdcan_Init dev) of
                (st, h) \<Rightarrow> (if st \<noteq> HAL_OK then COMM_ERROR else res, dev\<lparr>hfdcan := h\<rparr>)
         else (res, dev))"

definition FDCAN_SetMode :: "'h fdcan_hal \<Rightarrow> u32 \<Rightarrow> 'h fdcan_dev \<Rightarrow> comm_status \<times> 'h fdcan_dev" where
  "FDCAN_SetMode hal mode dev =
     (let set = (\<lambda>m. (COMM_SUCCESS, dev\<lparr>fdcan_Init := (fdcan_Init dev)\<lparr>Init_Mode := m\<rparr>\<rparr>));
          (res, dev) =
            (if mode = FDCAN_MODE_1 then set (FDCAN_MODE_NORMAL hal)
             else if mode = FDCAN_MODE_2 then set (FDCAN_MODE_BUS_MONITORING hal)
             else if mode = FDCAN_MODE_4 then set (FDCAN_MODE_EXTERNAL_LOOPBACK hal)
             else (COMM_INVALID_PARAMETER, dev))
      in if COMM_SUCCESS = res then
           (case HAL_FDCAN_Init hal (hfdcan dev) (fdcan_Init dev) of
              (st, h) \<Rightarrow> (if st \<noteq> HAL_OK then COMM_ERROR else res, dev\<lparr>hfdcan := h\<rparr>))
         else (res, dev))"

datatype FdcanIoctlCmdType = CANABS_IOCTL_CMD_SET_BAUDRATE | CANABS_IOCTL_CMD_SET_FILTERMASK |
  CANABS_IOCTL_CMD_START | CANABS_IOCTL_CMD_STOP | CANABS_IOCTL_CMD_SET_MODE

definition fdcan_start :: "'h fdcan_hal \<Rightarrow> 'h fdcan_dev \<Rightarrow> comm_status \<times> 'h fdcan_dev" where
  "fdcan_start hal dev =
     (let (res, dev) =
        (if DRIVER_STATE_STARTED = fdcan_state dev then (COMM_SUCCESS, dev)
         else case HAL_FDCAN_Start hal (hfdcan dev) of (st, h) \<Rightarrow>
           let dev = dev\<lparr>hfdcan := h\<rparr>
           in if HAL_OK \<noteq> st then (COMM_ERROR, FDCAN_ErrorHandler dev)
              else case HAL_FDCAN_AbortTxRequest hal (hfdcan dev) of (st, h) \<Rightarrow>
                let dev = dev\<lparr>hfdcan := h\<rparr>
                in (COMM_SUCCESS,
                    if HAL_OK = st
                    then dev\<lparr>hfdcan := snd (HAL_FDCAN_ActivateNotification hal (hfdcan dev) (FDCAN_IRQ_NOTIFICATION hal))\<rparr>
                    else dev))
      in if COMM_SUCCESS = res then (res, dev\<lparr>fdcan_state := DRIVER_STATE_STARTED\<rparr>) else (COMM_ERROR, dev))"

definition fdcan_stop :: "'h fdcan_hal \<Rightarrow> 'h fdcan_dev \<Rightarrow> comm_status \<times> 'h fdcan_dev" where
  "fdcan_stop hal dev =
     (let (res, dev) =
        (if DRIVER_STATE_STARTED \<noteq> fdcan_state dev then (COMM_SUCCESS, dev)
         else case HAL_FDCAN_DeactivateNotification hal (hfdcan dev) (FDCAN_IRQ_NOTIFICATION hal) of (st, h) \<Rightarrow>
           let dev = dev\<lparr>hfdcan := h\<rparr>
           in if st \<noteq> HAL_OK then (COMM_ERROR, FDCAN_ErrorHandler dev)
              else case HAL_FDCAN_Stop hal (hfdcan dev) of (st, h) \<Rightarrow>
                let dev = dev\<lparr>hfdcan := h\<rparr>
                in if st \<noteq> HAL_OK then (COMM_ERROR, FDCAN_ErrorHandler dev)
                   else case HAL_FDCAN_AbortTxRequest hal (hfdcan dev) of (st, h) \<Rightarrow>
                     let dev = dev\<lparr>hfdcan := h\<rparr>
                     in if st \<noteq> HAL_OK then (COMM_ERROR, FDCAN_ErrorHandler dev)
                        else (COMM_SUCCESS, dev\<lparr>hfdcan := HAL_FDCAN_CLEAR_IT hal (hfdcan dev) (FDCAN_IRQ_NOTIFICATION hal)\<rparr>))
      in (res, if COMM_SUCCESS = res \<or> ErrorCode hal (hfdcan dev) AND HAL_FDCAN_ERROR_NOT_STARTED hal \<noteq> 0
               then dev\<lparr>fdcan_state := DRIVER_STATE_STOPPED\<rparr> else dev))"

text \<open>The default result 1 is \<open>COMM_ERROR\<close>.\<close>

definition FDCAN_Ioctl :: "'h fdcan_hal \<Rightarrow> FdcanIoctlCmdType \<Rightarrow> u32 \<Rightarrow> 'h fdcan_dev \<Rightarrow> comm_status \<times> 'h fdcan_dev" where
  "FDCAN_Ioctl hal cmd argument dev =
     (case cmd of
        CANABS_IOCTL_CMD_SET_BAUDRATE \<Rightarrow>
          (case FDCAN_SetBaudrate hal argument dev of (res, dev) \<Rightarrow>
             (res, if COMM_SUCCESS = res then dev\<lparr>fdcan_state := DRIVER_STATE_INITIALIZED\<rparr> else dev))
      | CANABS_IOCTL_CMD_START \<Rightarrow> fdcan_start hal dev
      | CANABS_IOCTL_CMD_STOP \<Rightarrow> fdcan_stop hal dev
      | CANABS_IOCTL_CMD_SET_MODE \<Rightarrow>
          (case FDCAN_SetMode hal argument dev of (res, dev) \<Rightarrow>
             (res, if COMM_SUCCESS = res \<and> argument = FDCAN_MODE_3 then dev\<lparr>fdcan_state := DRIVER_STATE_OFF\<rparr>
                   else if COMM_SUCCESS = res then dev\<lparr>fdcan_state := DRIVER_STATE_INITIALIZED\<rparr>
                   else dev))
      | CANABS_IOCTL_CMD_SET_FILTERMASK \<Rightarrow> (COMM_ERROR, dev))"

section \<open>Reading a frame\<close>

text \<open>The code and the number of bytes for a data length; 0 for another value.\<close>

definition dlc_of :: "'h fdcan_hal \<Rightarrow> u32 \<Rightarrow> u32 \<times> u32" where
  "dlc_of hal dl =
     (if dl = DLC_BYTES hal 0 then (0, 0) else if dl = DLC_BYTES hal 1 then (1, 1) else if dl = DLC_BYTES hal 2 then (2, 2)
      else if dl = DLC_BYTES hal 3 then (3, 3) else if dl = DLC_BYTES hal 4 then (4, 4) else if dl = DLC_BYTES hal 5 then (5, 5)
      else if dl = DLC_BYTES hal 6 then (6, 6) else if dl = DLC_BYTES hal 7 then (7, 7) else if dl = DLC_BYTES hal 8 then (8, 8)
      else if dl = DLC_BYTES hal 12 then (9, 12) else if dl = DLC_BYTES hal 16 then (10, 16)
      else if dl = DLC_BYTES hal 20 then (11, 20) else if dl = DLC_BYTES hal 24 then (12, 24)
      else if dl = DLC_BYTES hal 32 then (13, 32) else if dl = DLC_BYTES hal 48 then (14, 48)
      else if dl = DLC_BYTES hal 64 then (15, 64) else (0, 0))"

text \<open>The frame from the header and the data.  The copied bytes replace the first ones of the array; a
  longer list than the eight bytes of the array is a write past the frame.\<close>

definition decode_frame ::
  "'h fdcan_hal \<Rightarrow> FDCAN_RxHeaderTypeDef \<Rightarrow> bytes \<Rightarrow> FDCAN_ClassicFrameType \<Rightarrow> FDCAN_ClassicFrameType" where
  "decode_frame hal rxheader Data frame =
     (let Brs = (if BitRateSwitch rxheader AND FDCAN_BRS_ON hal \<noteq> 0 then 1 else 0);
          Esi = (if ErrorStateIndicator rxheader AND FDCAN_ESI_PASSIVE hal \<noteq> 0 then 1 else 0);
          Ide = (if IdType rxheader AND FDCAN_EXTENDED_ID hal \<noteq> 0 then 1 else 0);
          FdFormat = (if FDFormat rxheader AND FDCAN_FD_CAN hal \<noteq> 0 then 1 else 0);
          (dlc, len) = dlc_of hal (DataLength rxheader);
          flags = FDCAN_SET_DATA_LEN len (FDCAN_SET_DLC dlc
                    (FDCAN_SET_FDF FdFormat (FDCAN_SET_IDE Ide (FDCAN_SET_ESI Esi (FDCAN_SET_BRS Brs 0)))));
          PayloadLen = unat (FDCAN_GET_DATA_LEN flags);
          PayloadLen = (if PayloadLen > 64 then 64 else PayloadLen)
      in frame\<lparr>dlc_dl_flags := flags, frame_id := Identifier rxheader, frame_timestamp := RxTimestamp rxheader,
               frame_data := take PayloadLen Data @ drop PayloadLen (frame_data frame)\<rparr>)"

definition FDCAN_Read ::
  "'h fdcan_hal \<Rightarrow> u32 \<Rightarrow> FDCAN_ClassicFrameType \<Rightarrow> 'h fdcan_dev \<Rightarrow> comm_status \<times> FDCAN_ClassicFrameType \<times> 'h fdcan_dev" where
  "FDCAN_Read hal RxFifo0ITs frame dev =
     (if RxFifo0ITs AND FDCAN_IRQ_NOTIFICATION hal \<noteq> 0 then
        (case HAL_FDCAN_GetRxMessage hal (hfdcan dev) of (st, rxheader, Data, h) \<Rightarrow>
           let dev = dev\<lparr>hfdcan := h\<rparr>
           in if st \<noteq> HAL_OK then (COMM_ERROR, frame, dev)
              else case HAL_FDCAN_ActivateNotification hal (hfdcan dev) (FDCAN_IRQ_NOTIFICATION hal) of (st, h) \<Rightarrow>
                (if st \<noteq> HAL_OK then COMM_ERROR else COMM_SUCCESS, decode_frame hal rxheader Data frame, dev\<lparr>hfdcan := h\<rparr>))
      else (COMM_SUCCESS, frame, dev))"

text \<open>The interrupt takes the time before the HAL handles it.\<close>

definition FDCAN_GetMostRecentTimestamp :: "bool \<Rightarrow> 'h fdcan_dev \<Rightarrow> comm_status \<times> u64 option" where
  "FDCAN_GetMostRecentTimestamp given dev =
     (if \<not> given then (COMM_NULL_POINTER, None) else (COMM_SUCCESS, Some (mostRecentInterrupTimestamp dev)))"

definition FDCAN_IRQHandler :: "u64 \<Rightarrow> 'h fdcan_dev \<Rightarrow> 'h fdcan_dev" where
  "FDCAN_IRQHandler SampleTime dev = dev\<lparr>mostRecentInterrupTimestamp := SampleTime\<rparr>"

section \<open>The contract of the HAL\<close>

text \<open>\<open>started h\<close>: the peripheral is in operation.  \<open>fifo h\<close> is the content of Rx FIFO 0, of 64 elements.
  A transmit request can be aborted only in operation, and a message read only in operation; the
  other calls leave the FIFO alone.\<close>

locale hal_fdcan =
  fixes hal :: "'h fdcan_hal" and started :: "'h \<Rightarrow> bool" and fifo :: "'h \<Rightarrow> (FDCAN_RxHeaderTypeDef \<times> bytes) list"
  assumes stop: "HAL_FDCAN_Stop hal h = (HAL_OK, h') \<Longrightarrow> \<not> started h'"
    and abort_stopped: "\<not> started h \<Longrightarrow> HAL_FDCAN_AbortTxRequest hal h = (st, h') \<Longrightarrow>
      st = HAL_ERROR \<and> ErrorCode hal h' AND HAL_FDCAN_ERROR_NOT_STARTED hal \<noteq> 0"
    and fill_level: "HAL_FDCAN_GetRxFifoFillLevel hal h = of_nat (length (fifo h)) \<and> length (fifo h) \<le> 64"
    and message: "started h \<Longrightarrow> fifo h = m # ms \<Longrightarrow>
      \<exists>h'. HAL_FDCAN_GetRxMessage hal h = (HAL_OK, fst m, snd m, h') \<and> fifo h' = ms \<and> started h'"
    and activate: "started h \<Longrightarrow>
      \<exists>h'. HAL_FDCAN_ActivateNotification hal h its = (HAL_OK, h') \<and> fifo h' = fifo h \<and> started h'"
    and clear_flag: "fifo (HAL_FDCAN_CLEAR_FLAG hal h fl) = fifo h \<and> (started (HAL_FDCAN_CLEAR_FLAG hal h fl) \<longleftrightarrow> started h)"
    and interrupt_bits: "FDCAN_IT_RX_FIFO0_WATERMARK hal \<noteq> 0 \<and> FDCAN_IT_RX_FIFO0_MESSAGE_LOST hal \<noteq> 0"
    and length_codes: "inj_on (DLC_BYTES hal) {0, 1, 2, 3, 4, 5, 6, 7, 8, 12, 16, 20, 24, 32, 48, 64}"
begin

text \<open>A stop of a running controller reports an error, also when every step before succeeded.\<close>

lemma stop_started:
  assumes "fdcan_state d = DRIVER_STATE_STARTED"
  shows "fst (FDCAN_Ioctl hal CANABS_IOCTL_CMD_STOP x d) = COMM_ERROR \<and>
    fdcan_error_led (snd (FDCAN_Ioctl hal CANABS_IOCTL_CMD_STOP x d))"
proof -
  obtain s1 h1 where 1: "HAL_FDCAN_DeactivateNotification hal (hfdcan d) (FDCAN_IRQ_NOTIFICATION hal) = (s1, h1)" by fastforce
  obtain s2 h2 where 2: "HAL_FDCAN_Stop hal h1 = (s2, h2)" by fastforce
  obtain s3 h3 where 3: "HAL_FDCAN_AbortTxRequest hal h2 = (s3, h3)" by fastforce
  have "s2 = HAL_OK \<Longrightarrow> s3 = HAL_ERROR" using stop abort_stopped 2 3 by blast
  then show ?thesis using assms 1 2 3
    by (cases "s1 = HAL_OK"; cases "s2 = HAL_OK") (simp_all add: FDCAN_Ioctl_def fdcan_stop_def FDCAN_ErrorHandler_def Let_def)
qed

end

section \<open>Sequences of commands\<close>

fun ioctl_run :: "'h fdcan_hal \<Rightarrow> (FdcanIoctlCmdType \<times> u32) list \<Rightarrow> 'h fdcan_dev \<Rightarrow> 'h fdcan_dev" where
  "ioctl_run hal [] d = d"
| "ioctl_run hal ((cmd, x) # xs) d = ioctl_run hal xs (snd (FDCAN_Ioctl hal cmd x d))"

lemma SetBaudrate_state [simp]: "FDCAN_SetBaudrate hal b d = (r, d') \<Longrightarrow> fdcan_state d' = fdcan_state d"
  by (auto simp: FDCAN_SetBaudrate_def Let_def split: if_splits prod.splits)

lemma SetMode_state: "FDCAN_SetMode hal m d = (r, d') \<Longrightarrow> fdcan_state d' = fdcan_state d \<and> (m = 3 \<longrightarrow> r = COMM_INVALID_PARAMETER)"
  by (auto simp: FDCAN_SetMode_def Let_def split: if_splits prod.splits)

lemma ioctl_state:
  assumes "FDCAN_Ioctl hal cmd x d = (r, d')"
  shows "fdcan_state d' = fdcan_state d \<or> fdcan_state d' \<in> {DRIVER_STATE_INITIALIZED, DRIVER_STATE_STARTED, DRIVER_STATE_STOPPED}"
  using assms SetMode_state [of hal x d] SetBaudrate_state [of hal x d]
  by (auto simp: FDCAN_Ioctl_def fdcan_start_def fdcan_stop_def FDCAN_ErrorHandler_def Let_def
      split: FdcanIoctlCmdType.splits prod.splits if_splits)

text \<open>The values of the three rates at the 40 MHz of the board.\<close>

lemma timing_first: "timing_round c b p j d m = Some x \<Longrightarrow> 8 \<le> m \<Longrightarrow> timing_search c b p j d m = Some x"
  by (subst timing_search.simps) simp

lemma board_rates:
  "CANFD_CalculateBitTimingRegister 40000000 250000 7500 1 False True = (0, Some (register_bytes (timing_register False 1 1 119 40)))"
  "CANFD_CalculateBitTimingRegister 40000000 500000 7500 1 False True = (0, Some (register_bytes (timing_register False 1 1 59 20)))"
  "CANFD_CalculateBitTimingRegister 40000000 1000000 7500 1 False True = (0, Some (register_bytes (timing_register False 1 1 29 10)))"
  by code_simp+

lemma one_quantum:
  assumes "0 < seg1" "0 < seg2" "seg2 \<le> 128"
  shows "CANFD_GetPrescaler (register_bytes (timing_register False 1 1 seg1 seg2)) False = 1"
    "CANFD_GetSeg1 (register_bytes (timing_register False 1 1 seg1 seg2)) False = seg1"
    "CANFD_GetSeg2 (register_bytes (timing_register False 1 1 seg1 seg2)) False = seg2"
    "CANFD_GetSJW (register_bytes (timing_register False 1 1 seg1 seg2)) False = 1"
  using packed_reads_back [of 1 1 seg1 seg2] assms by (simp_all add: word_unat_eq_iff)

lemma SetBaudrate_one_quantum:
  assumes "CANFD_CalculateBitTimingRegister (PeriphCLKFreq hal) b 7500 1 False True = (0, Some (register_bytes (timing_register False 1 1 seg1 seg2)))"
    and "0 < seg1" "0 < seg2" "seg2 \<le> 128" "b = 250000 \<or> b = 500000 \<or> b = 1000000"
  shows "FDCAN_SetBaudrate hal b d =
    (let c = (fdcan_Init d)\<lparr>NominalPrescaler := 1, NominalSyncJumpWidth := 1, NominalTimeSeg1 := ucast seg1, NominalTimeSeg2 := ucast seg2\<rparr>
     in case HAL_FDCAN_Init hal (hfdcan d) c of
          (st, h) \<Rightarrow> (if st \<noteq> HAL_OK then COMM_ERROR else COMM_SUCCESS, d\<lparr>fdcan_Init := c, hfdcan := h\<rparr>))"
  using assms(5) by (auto simp: FDCAN_SetBaudrate_def Let_def assms(1) one_quantum [OF assms(2-4)])

section \<open>A HAL that keeps the contract\<close>

record stub_fdcan =
  stub_started :: bool
  stub_fifo :: "(FDCAN_RxHeaderTypeDef \<times> bytes) list"
  stub_error :: u32

definition stub_header :: FDCAN_RxHeaderTypeDef where
  "stub_header = \<lparr>Identifier = 0, IdType = 0, DataLength = 0, ErrorStateIndicator = 0, BitRateSwitch = 0, FDFormat = 0, RxTimestamp = 0\<rparr>"

definition stub_hal :: "stub_fdcan fdcan_hal" where
  "stub_hal =
    \<lparr>HAL_FDCAN_Init = (\<lambda>h c. (HAL_OK, h\<lparr>stub_error := 0\<rparr>)),
     HAL_FDCAN_Start = (\<lambda>h. if stub_started h then (HAL_ERROR, h) else (HAL_OK, h\<lparr>stub_started := True\<rparr>)),
     HAL_FDCAN_Stop = (\<lambda>h. if stub_started h then (HAL_OK, h\<lparr>stub_started := False\<rparr>) else (HAL_ERROR, h)),
     HAL_FDCAN_AbortTxRequest = (\<lambda>h. if stub_started h then (HAL_OK, h) else (HAL_ERROR, h\<lparr>stub_error := 8\<rparr>)),
     HAL_FDCAN_ActivateNotification = (\<lambda>h its. (HAL_OK, h)),
     HAL_FDCAN_DeactivateNotification = (\<lambda>h its. (HAL_OK, h)),
     HAL_FDCAN_CLEAR_IT = (\<lambda>h its. h),
     HAL_FDCAN_GetRxFifoFillLevel = (\<lambda>h. of_nat (length (take 64 (stub_fifo h)))),
     HAL_FDCAN_GetRxMessage = (\<lambda>h. case take 64 (stub_fifo h) of [] \<Rightarrow> (HAL_ERROR, stub_header, [], h)
        | m # ms \<Rightarrow> if stub_started h then (HAL_OK, fst m, snd m, h\<lparr>stub_fifo := ms\<rparr>) else (HAL_ERROR, stub_header, [], h)),
     HAL_FDCAN_CLEAR_FLAG = (\<lambda>h fl. h), ErrorCode = stub_error, PeriphCLKFreq = 40000000,
     reg_PSR = (\<lambda>h. 0), reg_ECR = (\<lambda>h. 0), reg_RXF0S = (\<lambda>h. 0), reg_IR = (\<lambda>h. 0), reg_IE = (\<lambda>h. 0),
     FDCAN_IT_RX_FIFO0_WATERMARK = 2, FDCAN_IT_RX_FIFO0_MESSAGE_LOST = 8, FDCAN_FLAG_RX_FIFO0_MESSAGE_LOST = 8,
     FDCAN_RXF0S_RF0L = 0x02000000, HAL_FDCAN_ERROR_NOT_STARTED = 8, FDCAN_MODE_NORMAL = 0,
     FDCAN_MODE_BUS_MONITORING = 2, FDCAN_MODE_EXTERNAL_LOOPBACK = 4, FDCAN_BRS_ON = 0x00100000,
     FDCAN_ESI_PASSIVE = 0x80000000, FDCAN_EXTENDED_ID = 0x40000000, FDCAN_FD_CAN = 0x00200000,
     DLC_BYTES = of_nat,
     FDCAN_IR_ELO = 0x00400000, FDCAN_IR_PEA = 0x08000000, FDCAN_IR_PED = 0x10000000, FDCAN_IR_ARA = 0x20000000,
     FDCAN_IR_EP = 0x00800000, FDCAN_IR_EW = 0x01000000, FDCAN_IR_BO = 0x02000000,
     FDCAN_IR_RF0L = 8, FDCAN_IR_RF0F = 4, FDCAN_IR_RF0W = 2, FDCAN_IR_RF0N = 1,
     FDCAN_PSR_LEC = 7, FDCAN_PSR_LEC_Pos = 0, FDCAN_PSR_DLEC = 0x700, FDCAN_PSR_DLEC_Pos = 8,
     FDCAN_PSR_EP = 0x20, FDCAN_PSR_EW = 0x40, FDCAN_PSR_BO = 0x80, FDCAN_PSR_PXE = 0x4000,
     FDCAN_ECR_TEC = 0xFF, FDCAN_ECR_REC = 0x7F00, FDCAN_ECR_RP = 0x8000, FDCAN_ECR_CEL = 0xFF0000\<rparr>"

interpretation stub_hal: hal_fdcan stub_hal stub_started "\<lambda>h. take 64 (stub_fifo h)"
  by unfold_locales (auto simp: stub_hal_def inj_on_def split: if_splits dest!: arg_cong [where f = length])

definition sample_dev :: "stub_fdcan fdcan_dev" where
  "sample_dev = \<lparr>hfdcan = \<lparr>stub_started = True, stub_fifo = [(stub_header, [])], stub_error = 0\<rparr>,
     fdcan_Init = \<lparr>Init_Mode = 0, NominalPrescaler = 4, NominalSyncJumpWidth = 1, NominalTimeSeg1 = 34, NominalTimeSeg2 = 5\<rparr>,
     mostRecentInterrupTimestamp = 0, fdcan_state = DRIVER_STATE_STARTED, fdcan_error_led = False\<rparr>"

section \<open>Properties\<close>

text \<open>C31. Setting a bit rate at the 40 MHz of the board: exactly 250, 500 and 1000 kbit/s are accepted, and
  for these the controller is initialised with a prescaler and segments that give exactly this rate
  and a sample point of 75 percent; the result is success if and only if the HAL took them.  Any other
  rate changes nothing.\<close>

theorem baud_rates_exact:
  assumes "PeriphCLKFreq hal = 40000000"
  shows "case FDCAN_SetBaudrate hal b d of (r, d') \<Rightarrow>
    if b = 250000 \<or> b = 500000 \<or> b = 1000000 then
      let c = fdcan_Init d'; s1 = unat (NominalTimeSeg1 c); s2 = unat (NominalTimeSeg2 c)
      in unat (NominalPrescaler c) * (1 + s1 + s2) * unat b = 40000000 \<and> 4 * (1 + s1) = 3 * (1 + s1 + s2) \<and>
         NominalSyncJumpWidth c = 1 \<and> Init_Mode c = Init_Mode (fdcan_Init d) \<and>
         (\<exists>st. HAL_FDCAN_Init hal (hfdcan d) c = (st, hfdcan d') \<and> (r = COMM_SUCCESS \<longleftrightarrow> st = HAL_OK))
    else r = COMM_INVALID_PARAMETER \<and> d' = d"
proof -
  note one = SetBaudrate_one_quantum [of hal, unfolded assms]
  consider "b = 250000" | "b = 500000" | "b = 1000000" | "b \<noteq> 250000" "b \<noteq> 500000" "b \<noteq> 1000000" by blast
  then show ?thesis
  proof cases
    case 1
    then show ?thesis by (simp add: one [OF board_rates(1)] Let_def split: prod.splits)
  next
    case 2
    then show ?thesis by (simp add: one [OF board_rates(2)] Let_def split: prod.splits)
  next
    case 3
    then show ?thesis by (simp add: one [OF board_rates(3)] Let_def split: prod.splits)
  next
    case 4
    then show ?thesis by (simp add: FDCAN_SetBaudrate_def)
  qed
qed

theorem baud_rates_exact_witness:
  "fst (FDCAN_SetBaudrate stub_hal 500000 sample_dev) = COMM_SUCCESS \<or>
   hfdcan (snd (FDCAN_SetBaudrate stub_hal 500000 sample_dev)) = hfdcan sample_dev"
  using baud_rates_exact [of stub_hal 500000 sample_dev] by (auto simp: stub_hal_def Let_def split: prod.splits)

text \<open>C32. A channel is never switched off: mode 3, which the settings page offers as off, is refused by
  \<open>FDCAN_SetMode\<close> and changes nothing, so no sequence of commands brings a driver into
  \<open>DRIVER_STATE_OFF\<close>, the state the logger asks for before it starts a channel.\<close>

theorem off_mode_unreachable:
  assumes "fdcan_state d \<noteq> DRIVER_STATE_OFF"
  shows "fdcan_state (ioctl_run hal xs d) \<noteq> DRIVER_STATE_OFF \<and>
    FDCAN_Ioctl hal CANABS_IOCTL_CMD_SET_MODE 3 d = (COMM_INVALID_PARAMETER, d)"
proof
  show "fdcan_state (ioctl_run hal xs d) \<noteq> DRIVER_STATE_OFF"
    using assms
  proof (induction xs arbitrary: d)
    case (Cons x xs)
    obtain cmd v where x: "x = (cmd, v)" by (cases x)
    obtain r d' where "FDCAN_Ioctl hal cmd v d = (r, d')" by fastforce
    moreover from this have "fdcan_state d' \<noteq> DRIVER_STATE_OFF" using ioctl_state [of hal cmd v d r d'] Cons.prems by auto
    ultimately show ?case using Cons.IH [of d'] by (simp add: x)
  qed simp
  show "FDCAN_Ioctl hal CANABS_IOCTL_CMD_SET_MODE 3 d = (COMM_INVALID_PARAMETER, d)"
    by (simp add: FDCAN_Ioctl_def FDCAN_SetMode_def)
qed

theorem off_mode_unreachable_witness:
  "fdcan_state (ioctl_run stub_hal [(CANABS_IOCTL_CMD_SET_MODE, 3), (CANABS_IOCTL_CMD_STOP, 0)] sample_dev) \<noteq> DRIVER_STATE_OFF \<and>
    FDCAN_Ioctl stub_hal CANABS_IOCTL_CMD_SET_MODE 3 sample_dev = (COMM_INVALID_PARAMETER, sample_dev)"
  by (rule off_mode_unreachable) (simp add: sample_dev_def)

text \<open>C33. Stopping a running channel always reports an error and lights the error LED, also when the HAL
  performs every step: the pending transmissions are aborted after the controller was stopped,
  which the HAL refuses.\<close>

theorem stop_reports_error:
  assumes "hal_fdcan hal started fifo" "fdcan_state d = DRIVER_STATE_STARTED"
  shows "fst (FDCAN_Ioctl hal CANABS_IOCTL_CMD_STOP x d) = COMM_ERROR \<and>
    fdcan_error_led (snd (FDCAN_Ioctl hal CANABS_IOCTL_CMD_STOP x d))"
  by (rule hal_fdcan.stop_started [OF assms])

theorem stop_reports_error_witness:
  "fst (FDCAN_Ioctl stub_hal CANABS_IOCTL_CMD_STOP 1 sample_dev) = COMM_ERROR \<and>
    fdcan_error_led (snd (FDCAN_Ioctl stub_hal CANABS_IOCTL_CMD_STOP 1 sample_dev))"
  by (rule stop_reports_error [OF stub_hal.hal_fdcan_axioms]) (simp add: sample_dev_def)
end
