(* ===== verification/CanAbs.thy ===== *)
theory CanAbs
  imports Fdcan RingBuffer FdcanMsgPort
begin

text \<open>
  \<open>platform/drivers/CanAbs/CanAbs.c\<close>: the way of a frame from the Rx FIFO of the controller through
  the interrupt into the software ring of its channel, with time stamp, sequence number and the
  record of bus errors; and \<open>app/cores/cm7/Src/CanBridgeTask.c\<close>, which hands the rings over to the
  message port.  The static variables of a channel are the record \<open>can_chan\<close>.  The lemmas say which
  frames the interrupt puts into the ring and when the 64-bit time stamp is the time of arrival.
\<close>

section \<open>Time stamps\<close>

text \<open>\<open>Period\<close> is the period of the timer in ticks; the signed comparisons are those of \<open>int64_t\<close>.
  The result is the time stamp and the new \<open>*last_timestamp\<close>.\<close>

definition ReconstructFullTimestamp :: "u64 \<Rightarrow> u64 \<Rightarrow> u64 \<Rightarrow> u64 \<Rightarrow> u64 \<times> u64" where
  "ReconstructFullTimestamp Period hardware_timestamp global_timestamp last_timestamp =
     (if Period = 0 then (hardware_timestamp, last_timestamp)
      else
        let current_timer_value = global_timestamp mod Period;
            epoch_count = global_timestamp div Period;
            time_diff = sint hardware_timestamp - sint current_timer_value;
            epoch_count =
              (if time_diff > sint (Period div 2) then epoch_count - 1
               else if time_diff < - sint (Period div 2) then epoch_count + 1
               else epoch_count);
            ReconstructedTimestamp = epoch_count * Period + hardware_timestamp;
            ReconstructedTimestamp =
              (if last_timestamp \<noteq> 0 \<and> last_timestamp \<le> global_timestamp \<and>
                  global_timestamp - last_timestamp \<le> 2 * Period then
                 if last_timestamp > ReconstructedTimestamp + Period div 2 then
                   let Delta = last_timestamp - (ReconstructedTimestamp + Period div 2)
                   in ReconstructedTimestamp + ((Delta + Period - 1) div Period) * Period
                 else ReconstructedTimestamp
               else ReconstructedTimestamp)
        in (ReconstructedTimestamp, ReconstructedTimestamp))"

text \<open>\<open>TIMx_TIME_RESOLUTION\<close> is 1.\<close>

definition CANABS_ConvertCountToTimestampHook :: "u32 \<Rightarrow> u64" where
  "CANABS_ConvertCountToTimestampHook cnt = 1 * ucast cnt"

section \<open>The record of bus errors\<close>

record CanAbsFdcanHealthStateType =
  protocol_status_latched :: u32
  error_counter_latched :: u32
  rx_fifo0_status_latched :: u32
  interrupt_flags_latched :: u32
  active_error_event_ir_flags :: u32
  rx_fifo0_lost_active :: u8
  rx_fifo0_lost_events :: u64
  protocol_error_events :: u64
  error_warning_events :: u64
  error_passive_events :: u64
  bus_off_events :: u64

definition CANABS_FDCAN_PROTOCOL_ERROR_IR_MASK :: "'h fdcan_hal \<Rightarrow> u32" where
  "CANABS_FDCAN_PROTOCOL_ERROR_IR_MASK hal = FDCAN_IR_ELO hal OR FDCAN_IR_PEA hal OR FDCAN_IR_PED hal OR FDCAN_IR_ARA hal"

definition CANABS_FDCAN_ERROR_STATE_IR_MASK :: "'h fdcan_hal \<Rightarrow> u32" where
  "CANABS_FDCAN_ERROR_STATE_IR_MASK hal = FDCAN_IR_EP hal OR FDCAN_IR_EW hal OR FDCAN_IR_BO hal"

definition CANABS_FDCAN_ERROR_EVENT_IR_MASK :: "'h fdcan_hal \<Rightarrow> u32" where
  "CANABS_FDCAN_ERROR_EVENT_IR_MASK hal = CANABS_FDCAN_PROTOCOL_ERROR_IR_MASK hal OR CANABS_FDCAN_ERROR_STATE_IR_MASK hal"

definition CanAbs_IsLastErrorCodeActive :: "u32 \<Rightarrow> bool" where
  "CanAbs_IsLastErrorCodeActive code \<longleftrightarrow> code \<noteq> 0 \<and> code \<noteq> 7"

definition CanAbs_PsrHasInterestingError :: "'h fdcan_hal \<Rightarrow> u32 \<Rightarrow> bool" where
  "CanAbs_PsrHasInterestingError hal psr =
     (let lec = drop_bit (FDCAN_PSR_LEC_Pos hal) (psr AND FDCAN_PSR_LEC hal);
          dlec = drop_bit (FDCAN_PSR_DLEC_Pos hal) (psr AND FDCAN_PSR_DLEC hal)
      in if psr AND (FDCAN_PSR_EP hal OR FDCAN_PSR_EW hal OR FDCAN_PSR_BO hal OR FDCAN_PSR_PXE hal) \<noteq> 0 then True
         else if CanAbs_IsLastErrorCodeActive lec \<or> CanAbs_IsLastErrorCodeActive dlec then True
         else False)"

definition CanAbs_EcrHasInterestingError :: "'h fdcan_hal \<Rightarrow> u32 \<Rightarrow> bool" where
  "CanAbs_EcrHasInterestingError hal ecr \<longleftrightarrow>
     ecr AND (FDCAN_ECR_TEC hal OR FDCAN_ECR_REC hal OR FDCAN_ECR_RP hal OR FDCAN_ECR_CEL hal) \<noteq> 0"

definition CanAbs_HasFdcanHealthLatch :: "CanAbsFdcanHealthStateType \<Rightarrow> bool" where
  "CanAbs_HasFdcanHealthLatch state \<longleftrightarrow>
     protocol_status_latched state OR error_counter_latched state OR
     rx_fifo0_status_latched state OR interrupt_flags_latched state \<noteq> 0"

definition CanAbs_ResetFdcanHealthState :: "CanAbsFdcanHealthStateType \<Rightarrow> CanAbsFdcanHealthStateType" where
  "CanAbs_ResetFdcanHealthState state =
     \<lparr>protocol_status_latched = 0, error_counter_latched = 0, rx_fifo0_status_latched = 0,
      interrupt_flags_latched = 0, active_error_event_ir_flags = 0, rx_fifo0_lost_active = 0,
      rx_fifo0_lost_events = 0, protocol_error_events = 0, error_warning_events = 0,
      error_passive_events = 0, bus_off_events = 0\<rparr>"

definition fifo_lost :: "'h fdcan_hal \<Rightarrow> u32 \<Rightarrow> u32 \<Rightarrow> u8" where
  "fifo_lost hal rxf0s ir = (if rxf0s AND FDCAN_RXF0S_RF0L hal \<noteq> 0 \<or> ir AND FDCAN_IR_RF0L hal \<noteq> 0 then 1 else 0)"

definition CanAbs_PrimeFdcanHealthState ::
  "'h fdcan_hal \<Rightarrow> 'h \<Rightarrow> CanAbsFdcanHealthStateType \<Rightarrow> CanAbsFdcanHealthStateType" where
  "CanAbs_PrimeFdcanHealthState hal h state =
     (let rxf0s = reg_RXF0S hal h; ir = reg_IR hal h
      in state\<lparr>rx_fifo0_lost_active := fifo_lost hal rxf0s ir,
               active_error_event_ir_flags := ir AND CANABS_FDCAN_ERROR_EVENT_IR_MASK hal\<rparr>)"

text \<open>The function over the four registers it reads.\<close>

definition capture_health ::
  "'h fdcan_hal \<Rightarrow> u32 \<Rightarrow> u32 \<Rightarrow> u32 \<Rightarrow> u32 \<Rightarrow> CanAbsFdcanHealthStateType \<Rightarrow> CanAbsFdcanHealthStateType" where
  "capture_health hal psr ecr rxf0s ir state =
     (let lost = fifo_lost hal rxf0s ir;
          (state, latch) =
            (if lost \<noteq> 0 \<and> rx_fifo0_lost_active state = 0
             then (state\<lparr>rx_fifo0_lost_events := rx_fifo0_lost_events state + 1\<rparr>, True) else (state, False));
          state = state\<lparr>rx_fifo0_lost_active := lost\<rparr>;
          active = ir AND CANABS_FDCAN_ERROR_EVENT_IR_MASK hal;
          new = active AND NOT (active_error_event_ir_flags state);
          state = state\<lparr>active_error_event_ir_flags := active\<rparr>;
          (state, latch) =
            (if new AND CANABS_FDCAN_PROTOCOL_ERROR_IR_MASK hal \<noteq> 0
             then (state\<lparr>protocol_error_events := protocol_error_events state + 1\<rparr>, True) else (state, latch));
          (state, latch) =
            (if new AND FDCAN_IR_EW hal \<noteq> 0
             then (state\<lparr>error_warning_events := error_warning_events state + 1\<rparr>, True) else (state, latch));
          (state, latch) =
            (if new AND FDCAN_IR_EP hal \<noteq> 0
             then (state\<lparr>error_passive_events := error_passive_events state + 1\<rparr>, True) else (state, latch));
          (state, latch) =
            (if new AND FDCAN_IR_BO hal \<noteq> 0
             then (state\<lparr>bus_off_events := bus_off_events state + 1\<rparr>, True) else (state, latch));
          latch =
            (if \<not> latch \<and> \<not> CanAbs_HasFdcanHealthLatch state \<and>
                (CanAbs_PsrHasInterestingError hal psr \<or> CanAbs_EcrHasInterestingError hal ecr) then True else latch)
      in if latch
         then state\<lparr>protocol_status_latched := psr, error_counter_latched := ecr,
                    rx_fifo0_status_latched := rxf0s, interrupt_flags_latched := ir\<rparr>
         else state)"

definition CanAbs_CaptureFdcanHealth ::
  "'h fdcan_hal \<Rightarrow> 'h \<Rightarrow> CanAbsFdcanHealthStateType \<Rightarrow> CanAbsFdcanHealthStateType" where
  "CanAbs_CaptureFdcanHealth hal h state =
     capture_health hal (reg_PSR hal h) (reg_ECR hal h) (reg_RXF0S hal h) (reg_IR hal h) state"

section \<open>State\<close>

text \<open>The rings hold frames as the bytes of the structure, which ends with one byte of padding.\<close>

definition frame_bytes :: "FDCAN_ClassicFrameType \<Rightarrow> bytes" where
  "frame_bytes f =
     u32_le (frame_id f) @ u32_le (frame_timestamp f) @ u32_le (rx_sequence f) @
     [of_nat (unat (dlc_dl_flags f)), of_nat (unat (dlc_dl_flags f) div 256)] @ [frame_channel f] @
     take 8 (frame_data f) @ replicate (9 - length (take 8 (frame_data f))) 0"

definition frame_of_bytes :: "bytes \<Rightarrow> FDCAN_ClassicFrameType" where
  "frame_of_bytes bs =
     \<lparr>frame_id = u32_of_le bs, frame_timestamp = u32_of_le (drop 4 bs), rx_sequence = u32_of_le (drop 8 bs),
      dlc_dl_flags = of_nat (unat (bs ! 12) + 256 * unat (bs ! 13)), frame_channel = bs ! 14,
      frame_data = take 8 (drop 15 bs)\<rparr>"

text \<open>The variables of one channel: driver with its receive ring, last time stamp, high-water marks, bus
  errors and sequence number.\<close>

record 'h can_chan =
  driver :: "'h fdcan_dev"
  RxRingBuffer :: RingBuffer
  LastHardwareTimestamp :: u64
  HwHighWatermark :: u32
  RxHighWater :: u32
  FdcanHealth :: CanAbsFdcanHealthStateType
  SequenceIndex :: u32

text \<open>Both channels, the message port with the counters and the error LED, and the pending bits of the
  deferred interrupt and of the interrupts of the two controllers.\<close>

record ('h, 'b) can_state =
  can1 :: "'h can_chan"
  can2 :: "'h can_chan"
  msg_port :: "'b port_state"
  deferred_pending :: bool
  irq1_pending :: bool
  irq2_pending :: bool

definition SW_RX_FRAME_BUFFER_SIZE :: u32 where [simp]: "SW_RX_FRAME_BUFFER_SIZE = 640"
definition CANABS_RX_ISR_MAX_FRAMES_PER_CHANNEL :: nat where [simp]: "CANABS_RX_ISR_MAX_FRAMES_PER_CHANNEL = 54"

definition rx_ring_boot :: RingBuffer where
  "rx_ring_boot = \<lparr>storage = replicate 15360 0, head = 0, tail = 0, bufferLength = SW_RX_FRAME_BUFFER_SIZE,
     elementSize = FRAME_SIZE, stride = FRAME_SIZE, elementCount = 0, isFull = False\<rparr>"

section \<open>The receive interrupt\<close>

definition CanAbs_UpdateRxHighWater :: "'h can_chan \<Rightarrow> 'h can_chan" where
  "CanAbs_UpdateRxHighWater c =
     (let used = ring_buffer_count (RxRingBuffer c)
      in if used > RxHighWater c then c\<lparr>RxHighWater := used\<rparr> else c)"

definition count_abs_drop :: "'b port_state \<Rightarrow> 'b port_state" where
  "count_abs_drop s = s\<lparr>port_counters := (port_counters s)\<lparr>CanAbs_FrameDropCount := CanAbs_FrameDropCount (port_counters s) + 1\<rparr>\<rparr>"

definition count_abs_frame :: "'b port_state \<Rightarrow> 'b port_state" where
  "count_abs_frame s = s\<lparr>port_counters := (port_counters s)\<lparr>CanAbs_FrameCount := CanAbs_FrameCount (port_counters s) + 1\<rparr>\<rparr>"

definition count_overflow :: "u8 \<Rightarrow> 'b port_state \<Rightarrow> 'b port_state" where
  "count_overflow channel s =
     (if channel = 1
      then s\<lparr>port_counters := (port_counters s)\<lparr>CanAbs_CAN1_Rx_FrameDropCount := CanAbs_CAN1_Rx_FrameDropCount (port_counters s) + 1\<rparr>\<rparr>
      else s\<lparr>port_counters := (port_counters s)\<lparr>CanAbs_CAN2_Rx_FrameDropCount := CanAbs_CAN2_Rx_FrameDropCount (port_counters s) + 1\<rparr>\<rparr>)"

text \<open>The body of the loop for a frame that was read: time stamp, sequence number, and the ring.\<close>

definition store_frame ::
  "u64 \<Rightarrow> u8 \<Rightarrow> FDCAN_ClassicFrameType \<Rightarrow> 'h can_chan \<Rightarrow> 'b port_state \<Rightarrow>
   FDCAN_ClassicFrameType \<times> 'h can_chan \<times> 'b port_state" where
  "store_frame Period channel NewFrame c g =
     (let NewFrame = NewFrame\<lparr>frame_channel := channel\<rparr>;
          GlobalTimestamp = mostRecentInterrupTimestamp (driver c);
          HardwareTimestamp = CANABS_ConvertCountToTimestampHook (frame_timestamp NewFrame);
          (t, last) = ReconstructFullTimestamp Period HardwareTimestamp GlobalTimestamp (LastHardwareTimestamp c);
          c = c\<lparr>LastHardwareTimestamp := last\<rparr>;
          NewFrame = NewFrame\<lparr>frame_timestamp := ucast t\<rparr>;
          c = c\<lparr>SequenceIndex := SequenceIndex c + 1\<rparr>;
          NewFrame = NewFrame\<lparr>rx_sequence := SequenceIndex c\<rparr>;
          (res, rb) = ring_buffer_put (RxRingBuffer c) (frame_bytes NewFrame);
          c = c\<lparr>RxRingBuffer := rb\<rparr>;
          (c, g) = (if RB_E_OK \<noteq> res then (c, FdcanMsgPort.CanAbs_ErrorHandler (count_abs_drop g))
                    else (CanAbs_UpdateRxHighWater c, g))
      in (NewFrame, c, count_abs_frame g))"

text \<open>The loop with the number of frames still allowed; \<open>NewFrame\<close> is the local variable, which keeps
  what the round before left in it.\<close>

fun read_frames ::
  "'h fdcan_hal \<Rightarrow> u64 \<Rightarrow> u8 \<Rightarrow> u32 \<Rightarrow> nat \<Rightarrow> FDCAN_ClassicFrameType \<Rightarrow> 'h can_chan \<Rightarrow> 'b port_state \<Rightarrow>
   nat \<times> 'h can_chan \<times> 'b port_state" where
  "read_frames hal Period channel RxFifo0ITs 0 NewFrame c g = (0, c, g)"
| "read_frames hal Period channel RxFifo0ITs (Suc n) NewFrame c g =
     (let fill_level = HAL_FDCAN_GetRxFifoFillLevel hal (hfdcan (driver c))
      in if 0 < fill_level then
           let c = (if fill_level > HwHighWatermark c then c\<lparr>HwHighWatermark := fill_level\<rparr> else c)
           in case FDCAN_Read hal RxFifo0ITs NewFrame (driver c) of (res, NewFrame, d) \<Rightarrow>
             let c = c\<lparr>driver := d\<rparr>
             in if res = COMM_SUCCESS then
                  (case store_frame Period channel NewFrame c g of (NewFrame, c, g) \<Rightarrow>
                     case read_frames hal Period channel RxFifo0ITs n NewFrame c g of (k, c, g) \<Rightarrow> (Suc k, c, g))
                else (0, c, FdcanMsgPort.CanAbs_ErrorHandler (count_abs_drop g))
         else (0, c, g))"

text \<open>\<open>junk\<close> is what the uninitialised local \<open>NewFrame\<close> holds.\<close>

definition CanAbs_ReadAllAvailableFrames ::
  "'h fdcan_hal \<Rightarrow> u64 \<Rightarrow> u8 \<Rightarrow> u32 \<Rightarrow> FDCAN_ClassicFrameType \<Rightarrow> 'h can_chan \<Rightarrow> 'b port_state \<Rightarrow>
   nat \<times> 'h can_chan \<times> 'b port_state" where
  "CanAbs_ReadAllAvailableFrames hal Period channel RxFifo0ITs junk c g =
     (let c = c\<lparr>FdcanHealth := CanAbs_CaptureFdcanHealth hal (hfdcan (driver c)) (FdcanHealth c)\<rparr>;
          (c, g) =
            (if RxFifo0ITs AND FDCAN_IT_RX_FIFO0_MESSAGE_LOST hal \<noteq> 0 \<or>
                reg_RXF0S hal (hfdcan (driver c)) AND FDCAN_RXF0S_RF0L hal \<noteq> 0
             then (c\<lparr>driver := (driver c)\<lparr>hfdcan := HAL_FDCAN_CLEAR_FLAG hal (hfdcan (driver c)) (FDCAN_FLAG_RX_FIFO0_MESSAGE_LOST hal)\<rparr>\<rparr>,
                   count_overflow channel g)
             else (c, g))
      in read_frames hal Period channel RxFifo0ITs CANABS_RX_ISR_MAX_FRAMES_PER_CHANNEL junk c g)"

definition CANABS_FDCAN_RX_FIFO0_MASK :: "'h fdcan_hal \<Rightarrow> u32" where
  "CANABS_FDCAN_RX_FIFO0_MASK hal = FDCAN_IR_RF0L hal OR FDCAN_IR_RF0F hal OR FDCAN_IR_RF0W hal OR FDCAN_IR_RF0N hal"

definition CanAbs_ClearRxFifo0IrqIfEmpty :: "'h fdcan_hal \<Rightarrow> 'h fdcan_dev \<Rightarrow> 'h fdcan_dev" where
  "CanAbs_ClearRxFifo0IrqIfEmpty hal dev =
     (if HAL_FDCAN_GetRxFifoFillLevel hal (hfdcan dev) \<noteq> 0 then dev
      else
        let pending = (reg_IR hal (hfdcan dev) AND CANABS_FDCAN_RX_FIFO0_MASK hal) AND reg_IE hal (hfdcan dev)
        in if pending \<noteq> 0 then dev\<lparr>hfdcan := HAL_FDCAN_CLEAR_FLAG hal (hfdcan dev) pending\<rparr> else dev)"

text \<open>\<open>CanAbs_RxNotificationCallback\<close> pends the deferred interrupt.\<close>

definition CanAbs_RxNotificationCallback :: "('h, 'b) can_state \<Rightarrow> ('h, 'b) can_state" where
  "CanAbs_RxNotificationCallback s = s\<lparr>deferred_pending := True\<rparr>"

text \<open>The frames of both controllers are read whichever of them interrupts
  (\<open>CANABS_CONSUME_ALL_FRAMES_ON_ANY_IRQ\<close> is 1).\<close>

definition HAL_FDCAN_RxFifo0Callback ::
  "'h fdcan_hal \<Rightarrow> u64 \<Rightarrow> FDCAN_ClassicFrameType \<Rightarrow> u32 \<Rightarrow> ('h, 'b) can_state \<Rightarrow> ('h, 'b) can_state" where
  "HAL_FDCAN_RxFifo0Callback hal Period junk RxFifo0ITs s =
     (case CanAbs_ReadAllAvailableFrames hal Period 1 RxFifo0ITs junk (can1 s) (msg_port s) of (k1, c1, g) \<Rightarrow>
      case CanAbs_ReadAllAvailableFrames hal Period 2 RxFifo0ITs junk (can2 s) g of (k2, c2, g) \<Rightarrow>
        let c1 = c1\<lparr>driver := CanAbs_ClearRxFifo0IrqIfEmpty hal (driver c1)\<rparr>;
            c2 = c2\<lparr>driver := CanAbs_ClearRxFifo0IrqIfEmpty hal (driver c2)\<rparr>;
            s = s\<lparr>can1 := c1, can2 := c2, msg_port := g\<rparr>
        in if k1 + k2 > 0 then CanAbs_RxNotificationCallback s else s)"

definition CanAbs_Drain ::
  "'h fdcan_hal \<Rightarrow> u64 \<Rightarrow> FDCAN_ClassicFrameType \<Rightarrow> ('h, 'b) can_state \<Rightarrow> ('h, 'b) can_state" where
  "CanAbs_Drain hal Period junk s =
     (case CanAbs_ReadAllAvailableFrames hal Period 1 0 junk (can1 s) (msg_port s) of (k1, c1, g) \<Rightarrow>
      case CanAbs_ReadAllAvailableFrames hal Period 2 0 junk (can2 s) g of (k2, c2, g) \<Rightarrow>
        let s = s\<lparr>can1 := c1, can2 := c2, msg_port := g\<rparr>
        in if k1 + k2 > 0 then CanAbs_RxNotificationCallback s else s)"

text \<open>The interrupt of a controller takes the time and lets the HAL call back with the flags.\<close>

definition can1_interrupt ::
  "'h fdcan_hal \<Rightarrow> u64 \<Rightarrow> FDCAN_ClassicFrameType \<Rightarrow> u64 \<Rightarrow> u32 \<Rightarrow> ('h, 'b) can_state \<Rightarrow> ('h, 'b) can_state" where
  "can1_interrupt hal Period junk SampleTime RxFifo0ITs s =
     HAL_FDCAN_RxFifo0Callback hal Period junk RxFifo0ITs
       (s\<lparr>can1 := (can1 s)\<lparr>driver := FDCAN_IRQHandler SampleTime (driver (can1 s))\<rparr>\<rparr>)"

definition can2_interrupt ::
  "'h fdcan_hal \<Rightarrow> u64 \<Rightarrow> FDCAN_ClassicFrameType \<Rightarrow> u64 \<Rightarrow> u32 \<Rightarrow> ('h, 'b) can_state \<Rightarrow> ('h, 'b) can_state" where
  "can2_interrupt hal Period junk SampleTime RxFifo0ITs s =
     HAL_FDCAN_RxFifo0Callback hal Period junk RxFifo0ITs
       (s\<lparr>can2 := (can2 s)\<lparr>driver := FDCAN_IRQHandler SampleTime (driver (can2 s))\<rparr>\<rparr>)"

text \<open>Once per timer period the poll pends the interrupt of the first controller when frames wait.  The handles
  come from \<open>fdcan_get_can\<close> and the times from \<open>FDCAN_GetMostRecentTimestamp\<close>, which fail for a null pointer only
  (\<open>fdcan.c\<close>:69 and 341); both drivers are static here and set up at start-up, so the branches for a failure, which would
  count as no frame and call \<open>FDCAN_ErrorHandler\<close>, are not part of the definition.\<close>

definition CANABS_CheckIsrPollPeriod :: "'h fdcan_hal \<Rightarrow> u64 \<Rightarrow> u64 \<Rightarrow> ('h, 'b) can_state \<Rightarrow> ('h, 'b) can_state" where
  "CANABS_CheckIsrPollPeriod hal timestamp timerPeriod s =
     (let PeriodReachedCan1 = timestamp - mostRecentInterrupTimestamp (driver (can1 s)) \<ge> timerPeriod;
          PeriodReachedCan2 = timestamp - mostRecentInterrupTimestamp (driver (can2 s)) \<ge> timerPeriod
      in if \<not> PeriodReachedCan1 \<and> \<not> PeriodReachedCan2 then s
         else
           let AnyFrameAvailableCan1 = HAL_FDCAN_GetRxFifoFillLevel hal (hfdcan (driver (can1 s))) > 0;
               AnyFrameAvailableCan2 = HAL_FDCAN_GetRxFifoFillLevel hal (hfdcan (driver (can2 s))) > 0
           in if irq1_pending s \<or> irq2_pending s then s
              else if AnyFrameAvailableCan1 \<or> AnyFrameAvailableCan2 then s\<lparr>irq1_pending := True\<rparr> else s)"

text \<open>The bus errors of both channels are reset when logging starts.\<close>

definition CanAbs_ResetFdcanHealth :: "'h fdcan_hal \<Rightarrow> ('h, 'b) can_state \<Rightarrow> ('h, 'b) can_state" where
  "CanAbs_ResetFdcanHealth hal s =
     s\<lparr>can1 := (can1 s)\<lparr>FdcanHealth := CanAbs_PrimeFdcanHealthState hal (hfdcan (driver (can1 s)))
          (CanAbs_ResetFdcanHealthState (FdcanHealth (can1 s)))\<rparr>,
       can2 := (can2 s)\<lparr>FdcanHealth := CanAbs_PrimeFdcanHealthState hal (hfdcan (driver (can2 s)))
          (CanAbs_ResetFdcanHealthState (FdcanHealth (can2 s)))\<rparr>\<rparr>"

section \<open>The bridge task\<close>

definition CanAbs_Receive :: "RingBuffer \<Rightarrow> u32 \<times> FDCAN_ClassicFrameType option \<times> RingBuffer" where
  "CanAbs_Receive rb = (case ring_buffer_pop rb of (r, e, rb) \<Rightarrow> (r, map_option frame_of_bytes e, rb))"

definition count_bridge :: "'b port_state \<Rightarrow> 'b port_state" where
  "count_bridge s = s\<lparr>port_counters := (port_counters s)\<lparr>CanBridgeTask_FrameCount := CanBridgeTask_FrameCount (port_counters s) + 1\<rparr>\<rparr>"

function bridge_ring :: "'b mbuf_ops \<Rightarrow> RingBuffer \<Rightarrow> 'b port_state \<Rightarrow> RingBuffer \<times> 'b port_state" where
  "bridge_ring ops rb g =
     (case CanAbs_Receive rb of
        (r, Some f, rb') \<Rightarrow> if 0 = r then bridge_ring ops rb' (count_bridge (fdcan_msg_port_receive ops f g)) else (rb', g)
      | (r, None, rb') \<Rightarrow> (rb', g))"
  by pat_completeness auto
termination
  by (relation "measure (\<lambda>(ops, rb, g). unat (elementCount rb))")
    (auto simp: CanAbs_Receive_def ring_buffer_pop_def Let_def measure_unat split: if_splits prod.splits)

declare bridge_ring.simps [simp del]

text \<open>One round of the task, from a notification to the wait for the next one.\<close>

definition CanBridgeTask_round :: "'b mbuf_ops \<Rightarrow> ('h, 'b) can_state \<Rightarrow> ('h, 'b) can_state" where
  "CanBridgeTask_round ops s =
     (case bridge_ring ops (RxRingBuffer (can1 s)) (msg_port s) of (rb1, g) \<Rightarrow>
      case bridge_ring ops (RxRingBuffer (can2 s)) g of (rb2, g) \<Rightarrow>
        s\<lparr>can1 := (can1 s)\<lparr>RxRingBuffer := rb1\<rparr>, can2 := (can2 s)\<lparr>RxRingBuffer := rb2\<rparr>, msg_port := g\<rparr>)"

section \<open>Frames in a ring\<close>

lemma length_frame_bytes [simp]: "length (frame_bytes f) = 24"
  by (simp add: frame_bytes_def)

lemma u16_of_bytes: "of_nat (unat (ucast w :: u8) + 256 * unat (of_nat (unat w div 256) :: u8)) = w"
  for w :: u16
proof -
  have "unat w < 65536" using unsigned_less [of w] by simp
  then have "unat w div 256 mod 256 = unat w div 256" by (intro mod_less) simp
  then have "unat w mod 256 + 256 * (unat w div 256 mod 256) = unat w" by simp
  then show ?thesis unfolding unat_of_nat_u8 by (simp add: unsigned_ucast_eq take_bit_eq_mod)
qed

text \<open>Number and channel of a frame always survive the ring, the rest when the data are eight bytes.\<close>

lemma frame_read_back:
  "rx_sequence (frame_of_bytes (frame_bytes f)) = rx_sequence f"
  "frame_channel (frame_of_bytes (frame_bytes f)) = frame_channel f"
  by (simp_all add: frame_of_bytes_def frame_bytes_def nth_append)

lemma frame_round_trip: "length (frame_data f) = 8 \<Longrightarrow> frame_of_bytes (frame_bytes f) = f"
proof -
  assume 8: "length (frame_data f) = 8"
  have b: "frame_bytes f = u32_le (frame_id f) @ u32_le (frame_timestamp f) @ u32_le (rx_sequence f) @
      [of_nat (unat (dlc_dl_flags f)), of_nat (unat (dlc_dl_flags f) div 256), frame_channel f] @ frame_data f @ [0]"
    using 8 by (simp add: frame_bytes_def)
  show ?thesis
    unfolding frame_of_bytes_def b using 8
    by (simp add: nth_append u16_of_bytes del: of_nat_add of_nat_mult)
qed

definition ring_ok :: "RingBuffer \<Rightarrow> bool" where
  "ring_ok rb \<longleftrightarrow> rb_inv rb \<and> elementSize rb = 24 \<and> rb_capacity rb = 640"

definition ring_frames :: "RingBuffer \<Rightarrow> FDCAN_ClassicFrameType list" where
  "ring_frames rb = map frame_of_bytes (rb_abs rb)"

lemma ring_boot_ok: "ring_ok rx_ring_boot" "ring_frames rx_ring_boot = []"
  by (simp_all add: ring_ok_def rx_ring_boot_def rb_inv_def rb_config_def rb_capacity_def ring_frames_def rb_abs_def)

lemma length_ring_frames: "ring_ok rb \<Longrightarrow> length (ring_frames rb) \<le> 640"
  using rb_queue.length_contents [of rb] by (simp add: ring_ok_def ring_frames_def)

lemma ring_put_frame:
  assumes "ring_ok rb" "ring_buffer_put rb (frame_bytes f) = (r, rb')"
  shows "if length (ring_frames rb) < 640
    then r = RB_E_OK \<and> ring_ok rb' \<and> ring_frames rb' = ring_frames rb @ [frame_of_bytes (frame_bytes f)]
    else r = RB_E_FULL \<and> rb' = rb"
proof (cases "length (ring_frames rb) < 640")
  case True
  have "rb_inv rb" "rb_fits rb (frame_bytes f)" "length (rb_abs rb) < rb_capacity rb"
    using assms(1) True by (simp_all add: ring_ok_def rb_fits_def ring_frames_def)
  note ok = rb_queue.put_ok [OF this assms(2)]
  have "elementSize rb' = elementSize rb"
    using fun_cong [OF conjunct2 [OF conjunct2 [OF conjunct2 [OF conjunct2 [OF ok]]]], of "frame_bytes f"] assms(1)
    by (simp add: rb_fits_def ring_ok_def word_unat_eq_iff)
  then show ?thesis using ok assms(1) True by (simp add: ring_ok_def ring_frames_def)
next
  case False
  then have "length (rb_abs rb) = rb_capacity rb"
    using assms(1) length_ring_frames [OF assms(1)] by (simp add: ring_ok_def ring_frames_def)
  then show ?thesis using rb_queue.put_full [of rb "frame_bytes f"] assms False by (simp add: ring_ok_def)
qed

lemma ring_pop_frame:
  assumes "ring_ok rb" "CanAbs_Receive rb = (r, f, rb')"
  shows "case ring_frames rb of [] \<Rightarrow> f = None \<and> r = 1 \<and> rb' = rb
    | x # xs \<Rightarrow> f = Some x \<and> r = 0 \<and> ring_ok rb' \<and> ring_frames rb' = xs"
proof (cases "rb_abs rb")
  case Nil
  then have "elementCount rb = 0" by (simp add: rb_inv_empty_iff)
  then show ?thesis using assms(2) Nil by (auto simp: CanAbs_Receive_def ring_buffer_pop_def ring_frames_def)
next
  case (Cons y ys)
  obtain e where p: "ring_buffer_pop rb = (r, e, rb')" "f = map_option frame_of_bytes e"
    using assms(2) by (auto simp: CanAbs_Receive_def split: prod.splits)
  have n: "elementCount rb \<noteq> 0" using Cons by (simp add: rb_inv_empty_iff)
  have inv: "rb_inv rb" using assms(1) by (simp add: ring_ok_def)
  note pf = pop_fields [OF inv n p(1)] pop_ok_inv [OF inv n p(1)] pop_ok_abs [OF inv n p(1)]
  have "e = Some y" using pf(2,12) Cons by simp
  then show ?thesis using pf assms(1) Cons p(2) by (simp add: ring_ok_def ring_frames_def rb_capacity_def)
qed

section \<open>What an interrupt does to a channel\<close>

text \<open>\<open>n\<close> frames more were counted as received and \<open>m\<close> more as dropped, and the port is as before.\<close>

definition counted :: "nat \<Rightarrow> nat \<Rightarrow> 'b port_state \<Rightarrow> 'b port_state \<Rightarrow> bool" where
  "counted n m g g' \<longleftrightarrow>
     CanAbs_FrameCount (port_counters g') = CanAbs_FrameCount (port_counters g) + of_nat n \<and>
     CanAbs_FrameDropCount (port_counters g') = CanAbs_FrameDropCount (port_counters g) + of_nat m \<and>
     FcdanMsgPort_FrameDropCount (port_counters g') = FcdanMsgPort_FrameDropCount (port_counters g) \<and>
     CanFrameBuffer g' = CanFrameBuffer g \<and> PageReceive g' = PageReceive g \<and>
     IndexRead g' = IndexRead g \<and> PageRead g' = PageRead g"

lemma counted_refl: "counted 0 0 g g"
  by (simp add: counted_def)

lemma counted_trans: "counted n m g g1 \<Longrightarrow> counted n' m' g1 g2 \<Longrightarrow> counted (n + n') (m + m') g g2"
  by (simp add: counted_def add.assoc)

lemma counted_one:
  "counted 1 0 g (count_abs_frame g)" "counted 1 1 g (count_abs_frame (FdcanMsgPort.CanAbs_ErrorHandler (count_abs_drop g)))"
  "counted 0 0 g (count_overflow ch g)"
  by (simp_all add: counted_def count_abs_frame_def count_abs_drop_def count_overflow_def FdcanMsgPort.CanAbs_ErrorHandler_def)

text \<open>The result of reading \<open>fs\<close>: as many as fit are in the ring, the others are counted as dropped.\<close>

definition took :: "u8 \<Rightarrow> FDCAN_ClassicFrameType list \<Rightarrow> 'h can_chan \<Rightarrow> 'b port_state \<Rightarrow> 'h can_chan \<Rightarrow> 'b port_state \<Rightarrow> bool" where
  "took channel fs c g c' g' \<longleftrightarrow>
     map rx_sequence fs = map (\<lambda>i. SequenceIndex c + of_nat i) [1..<Suc (length fs)] \<and>
     list_all (\<lambda>f. frame_channel f = channel) fs \<and>
     SequenceIndex c' = SequenceIndex c + of_nat (length fs) \<and>
     ring_ok (RxRingBuffer c') \<and>
     ring_frames (RxRingBuffer c') = take 640 (ring_frames (RxRingBuffer c) @ fs) \<and>
     counted (length fs) (length (ring_frames (RxRingBuffer c)) + length fs - length (ring_frames (RxRingBuffer c'))) g g'"

lemma took_cong: "SequenceIndex c1 = SequenceIndex c \<Longrightarrow> RxRingBuffer c1 = RxRingBuffer c \<Longrightarrow> counted 0 0 g g1 \<Longrightarrow>
    took ch fs c1 g1 c' g' \<Longrightarrow> took ch fs c g c' g'"
  using counted_trans [of 0 0 g g1, unfolded add_0] unfolding took_def by (elim conjE, intro conjI) simp_all

lemma took_none: "ring_ok (RxRingBuffer c) \<Longrightarrow> took ch [] c g c g"
  using length_ring_frames [of "RxRingBuffer c"] by (simp add: took_def counted_refl)

lemma took_frame:
  assumes ok: "ring_ok (RxRingBuffer c)" and st: "store_frame P ch f c g = (f', c', g')"
  shows "took ch [frame_of_bytes (frame_bytes f')] c g c' g'"
    "driver c' = driver c" "ring_ok (RxRingBuffer c')"
proof -
  obtain t last where t: "ReconstructFullTimestamp P (CANABS_ConvertCountToTimestampHook (frame_timestamp f))
      (mostRecentInterrupTimestamp (driver c)) (LastHardwareTimestamp c) = (t, last)" by fastforce
  define f1 where "f1 = f\<lparr>frame_channel := ch, frame_timestamp := ucast t, rx_sequence := SequenceIndex c + 1\<rparr>"
  obtain r rb where p: "ring_buffer_put (RxRingBuffer c) (frame_bytes f1) = (r, rb)" by fastforce
  note put = ring_put_frame [OF ok p]
  define c1 where "c1 = c\<lparr>LastHardwareTimestamp := last, SequenceIndex := SequenceIndex c + 1, RxRingBuffer := rb\<rparr>"
  have f': "f' = f1" and res: "c' = (if RB_E_OK \<noteq> r then c1 else CanAbs_UpdateRxHighWater c1)"
    "g' = count_abs_frame (if RB_E_OK \<noteq> r then FdcanMsgPort.CanAbs_ErrorHandler (count_abs_drop g) else g)"
    using st t p by (auto simp: store_frame_def Let_def f1_def c1_def split: if_splits)
  have keep: "RxRingBuffer (CanAbs_UpdateRxHighWater x) = RxRingBuffer x" "driver (CanAbs_UpdateRxHighWater x) = driver x"
    "SequenceIndex (CanAbs_UpdateRxHighWater x) = SequenceIndex x" for x :: "'a can_chan"
    by (simp_all add: CanAbs_UpdateRxHighWater_def Let_def)
  show "driver c' = driver c" by (simp add: res keep c1_def)
  show "ring_ok (RxRingBuffer c')" using put ok by (simp add: res keep c1_def split: if_splits)
  show "took ch [frame_of_bytes (frame_bytes f')] c g c' g'"
  proof (cases "length (ring_frames (RxRingBuffer c)) < 640")
    case True
    then show ?thesis using put counted_one(1) unfolding took_def f'
      by (simp add: res keep c1_def frame_read_back f1_def)
  next
    case False
    then have 640: "length (ring_frames (RxRingBuffer c)) = 640" using length_ring_frames [OF ok] by simp
    show ?thesis using put ok False 640 counted_one(2) unfolding took_def f'
      by (simp add: res keep c1_def frame_read_back f1_def)
  qed
qed

lemma took_trans:
  assumes "took ch fs c g c1 g1" "took ch gs c1 g1 c2 g2"
  shows "took ch (fs @ gs) c g c2 g2"
proof -
  let ?a = "length (ring_frames (RxRingBuffer c))" and ?b = "length (ring_frames (RxRingBuffer c1))"
    and ?d = "length (ring_frames (RxRingBuffer c2))"
  note f = assms(1) [unfolded took_def] and h = assms(2) [unfolded took_def]
  have rings: "ring_frames (RxRingBuffer c1) = take 640 (ring_frames (RxRingBuffer c) @ fs)"
    "ring_frames (RxRingBuffer c2) = take 640 (ring_frames (RxRingBuffer c1) @ gs)" using f h by blast+
  have len: "?b = min 640 (?a + length fs)" "?d = min 640 (?b + length gs)"     using rings [THEN arg_cong [where f = length]] by (simp_all only: length_take length_append min.commute)
  have ring: "ring_frames (RxRingBuffer c2) = take 640 (ring_frames (RxRingBuffer c) @ fs @ gs)"
    unfolding rings by (cases "?a + length fs \<le> 640"; cases "?a \<le> 640") (simp_all add: min_def)
  have "[1..<Suc (length fs + length gs)] = [1..<Suc (length fs)] @ [Suc (length fs)..<Suc (length fs) + length gs]"
    using upt_add_eq_append [of 1 "Suc (length fs)" "length gs"] by (simp only: add_Suc le_add1 Suc_le_mono plus_1_eq_Suc)
  also have "[Suc (length fs)..<Suc (length fs) + length gs] = map (\<lambda>i. i + length fs) [1..<Suc (length gs)]"
    by (rule nth_equalityI) (simp_all del: upt_Suc)
  finally have seq: "map rx_sequence (fs @ gs) = map (\<lambda>i. SequenceIndex c + of_nat i) [1..<Suc (length (fs @ gs))]"
    using f h by (simp add: comp_def ac_simps del: upt_Suc)
  have "(?a + length fs - ?b) + (?b + length gs - ?d) = ?a + length (fs @ gs) - ?d" using len by simp
  moreover have "counted (length fs + length gs) ((?a + length fs - ?b) + (?b + length gs - ?d)) g g2"
    using counted_trans f h by blast
  ultimately have "counted (length (fs @ gs)) (?a + length (fs @ gs) - ?d) g g2" by (simp only: length_append)
  then show ?thesis using f h ring seq unfolding took_def
    by (intro conjI) (simp_all only: length_append of_nat_add add.assoc list_all_append append_assoc)
qed

section \<open>The time of arrival\<close>

lemma unat_of_nat_u64: "n < 18446744073709551616 \<Longrightarrow> unat (of_nat n :: u64) = n"
  by (simp add: unat_of_nat take_bit_eq_mod)

lemma sint_of_nat_u64: "n < 9223372036854775808 \<Longrightarrow> sint (of_nat n :: u64) = int n"
  by (simp add: sint_uint unat_of_nat_u64 uint_nat signed_take_bit_int_eq_self del: of_nat_unat)

lemma word_nat_ops_u64:
  assumes "a < 9223372036854775808" "b < 9223372036854775808"
  shows "(of_nat a :: u64) div of_nat b = of_nat (a div b)" "(of_nat a :: u64) mod of_nat b = of_nat (a mod b)"
    "(of_nat a :: u64) < of_nat b \<longleftrightarrow> a < b" "(of_nat a :: u64) \<le> of_nat b \<longleftrightarrow> a \<le> b" "(of_nat a :: u64) = 0 \<longleftrightarrow> a = 0"
proof -
  have u: "unat (of_nat a :: u64) = a" "unat (of_nat b :: u64) = b" using assms by (simp_all add: unat_of_nat_u64)
  have "a div b < 18446744073709551616" using assms(1) div_le_dividend [of a b] by linarith
  moreover have "a mod b < 18446744073709551616" using assms(1) mod_less_eq_dividend [of a b] by linarith
  ultimately show "(of_nat a :: u64) div of_nat b = of_nat (a div b)" "(of_nat a :: u64) mod of_nat b = of_nat (a mod b)"
    by (simp_all add: word_unat_eq_iff unat_div unat_mod u unat_of_nat_u64)
  show "(of_nat a :: u64) < of_nat b \<longleftrightarrow> a < b" "(of_nat a :: u64) \<le> of_nat b \<longleftrightarrow> a \<le> b" "(of_nat a :: u64) = 0 \<longleftrightarrow> a = 0"
    by (simp_all add: word_less_nat_alt word_le_nat_alt word_unat_eq_iff u)
qed

text \<open>The epoch of a time from the time of the interrupt: it is less than half a period away.\<close>

lemma epoch_of_time:
  assumes P: "0 < P" and near: "2 * \<bar>int G - int T\<bar> < int P"
  shows "(if int (T mod P) - int (G mod P) > int (P div 2) then int (G div P) - 1
     else if int (T mod P) - int (G mod P) < - int (P div 2) then int (G div P) + 1 else int (G div P)) = int (T div P)"
proof -
  define q r q' r' where "q = int (T div P)" "r = int (T mod P)" "q' = int (G div P)" "r' = int (G mod P)"
  have T: "int T = q * int P + r" "0 \<le> r" "r < int P" and G: "int G = q' * int P + r'" "0 \<le> r'" "r' < int P"
    using P by (simp_all add: q_r_q'_r'_def flip: of_nat_mult of_nat_add)
  have d: "\<bar>(q' - q) * int P + (r' - r)\<bar> * 2 < int P" using near T G by (simp add: algebra_simps)
  define k where "k = (q' - q) * int P"
  have dk: "2 * k + 2 * r' < int P + 2 * r" "2 * r < int P + 2 * k + 2 * r'" "0 < int P"
    using d P abs_ge_self [of "k + (r' - r)"] abs_ge_minus_self [of "k + (r' - r)"] unfolding k_def [symmetric]
    by simp_all
  have h: "2 * int (P div 2) \<le> int P" "int P \<le> 2 * int (P div 2) + 1" by linarith+
  consider "q' - q \<ge> 2" | "q' = q + 1" | "q' = q" | "q = q' + 1" | "q' - q \<le> -2" by linarith
  then show ?thesis
  proof cases
    case 1
    then have "k \<ge> 2 * int P" unfolding k_def by (intro mult_right_mono) simp_all
    then have False using dk T(2,3) G(2,3) by linarith
    then show ?thesis ..
  next
    case 5
    then have "k \<le> - 2 * int P" unfolding k_def by (intro mult_right_mono) simp_all
    then have False using dk T(2,3) G(2,3) by linarith
    then show ?thesis ..
  qed (use d T G h in \<open>auto simp: q_r_q'_r'_def [symmetric]\<close>)
qed

text \<open>The correction never fires when the time stamp before is at most half a period later, nor when it is
  later than the time of the interrupt.\<close>

lemma reconstruct_exact:
  assumes P: "0 < P" "P \<le> 4611686018427387904" and T: "T < 4611686018427387904" and G: "G < 4611686018427387904"
    and near: "2 * \<bar>int G - int T\<bar> < int P" and Lt: "L \<le> T + P div 2 \<or> G < L \<and> L < 9223372036854775808"
  shows "ReconstructFullTimestamp (of_nat P) (of_nat (T mod P)) (of_nat G) (of_nat L) = (of_nat T, of_nat T)"
proof -
  have b: "T mod P < 4611686018427387904" "G mod P < 4611686018427387904" "P div 2 < 4611686018427387904"
    "G div P < 9223372036854775808"
    using P T G mod_less_eq_dividend [of T P] mod_less_eq_dividend [of G P] div_le_dividend [of G P] by linarith+
  have s: "sint (of_nat (T mod P) :: u64) = int (T mod P)" "sint (of_nat (G mod P) :: u64) = int (G mod P)"
    "sint (of_nat (P div 2) :: u64) = int (P div 2)"
    using b by (simp_all add: sint_of_nat_u64)
  have w: "(of_nat G :: u64) mod of_nat P = of_nat (G mod P)" "(of_nat G :: u64) div of_nat P = of_nat (G div P)"
    "(of_nat P :: u64) div 2 = of_nat (P div 2)" "(of_nat P :: u64) \<noteq> 0"
    using word_nat_ops_u64 [of G P] word_nat_ops_u64 [of P 2] P G by (simp_all)
  let ?e = "if int (T mod P) - int (G mod P) > int (P div 2) then (of_nat (G div P) :: u64) - 1
     else if int (T mod P) - int (G mod P) < - int (P div 2) then of_nat (G div P) + 1 else of_nat (G div P)"
  have e: "?e = of_nat (T div P)"
    using arg_cong [OF epoch_of_time [OF P(1) near], of "word_of_int :: int \<Rightarrow> u64"]
    by (simp split: if_splits)
  have R: "?e * of_nat P + of_nat (T mod P) = (of_nat T :: u64)"
    unfolding e by (simp flip: of_nat_mult of_nat_add)
  have "L < 9223372036854775808" "T + P div 2 < 9223372036854775808" using Lt T P by linarith+
  then have c: "\<not> (of_nat T :: u64) + of_nat (P div 2) < of_nat L \<or> \<not> (of_nat L :: u64) \<le> of_nat G"
    using word_nat_ops_u64(3) [of "T + P div 2" L] word_nat_ops_u64(3) [of G L] Lt G by auto
  show ?thesis
    unfolding ReconstructFullTimestamp_def Let_def w s R using w(4) c by auto
qed

section \<open>Reading under the contract of the HAL\<close>

text \<open>A read with these flags succeeds: the flags ask for none, or the controller is in operation.\<close>

definition readable :: "'h fdcan_hal \<Rightarrow> ('h \<Rightarrow> bool) \<Rightarrow> ('h \<Rightarrow> (FDCAN_RxHeaderTypeDef \<times> bytes) list) \<Rightarrow> u32 \<Rightarrow> 'h \<Rightarrow> bool" where
  "readable hal started fifo its h \<longleftrightarrow> its AND FDCAN_IRQ_NOTIFICATION hal = 0 \<or> fifo h = [] \<or> started h"

context hal_fdcan
begin

lemma fill_pos: "0 < HAL_FDCAN_GetRxFifoFillLevel hal h \<longleftrightarrow> fifo h \<noteq> []"
proof -
  have "unat (HAL_FDCAN_GetRxFifoFillLevel hal h) = length (fifo h)"
    using fill_level [of h] by (simp add: unat_of_nat_u32)
  then show ?thesis by (simp add: word_less_nat_alt)
qed

lemma read_message:
  assumes "its AND FDCAN_IRQ_NOTIFICATION hal \<noteq> 0" "started (hfdcan d)" "fifo (hfdcan d) = m # ms"
  shows "\<exists>h. FDCAN_Read hal its f d = (COMM_SUCCESS, decode_frame hal (fst m) (snd m) f, d\<lparr>hfdcan := h\<rparr>) \<and>
    fifo h = ms \<and> started h"
proof -
  obtain h1 where 1: "HAL_FDCAN_GetRxMessage hal (hfdcan d) = (HAL_OK, fst m, snd m, h1)" "fifo h1 = ms" "started h1"
    using message [OF assms(2,3)] by blast
  obtain h2 where 2: "HAL_FDCAN_ActivateNotification hal h1 (FDCAN_IRQ_NOTIFICATION hal) = (HAL_OK, h2)" "fifo h2 = ms" "started h2"
    using activate [OF 1(3)] 1(2) by blast
  then show ?thesis using assms(1) 1(1) by (auto simp: FDCAN_Read_def Let_def)
qed

lemma read_succeeds:
  assumes "readable hal started fifo its (hfdcan d)" "fifo (hfdcan d) \<noteq> []"
  shows "\<exists>f' h. FDCAN_Read hal its f d = (COMM_SUCCESS, f', d\<lparr>hfdcan := h\<rparr>) \<and> readable hal started fifo its h"
proof (cases "its AND FDCAN_IRQ_NOTIFICATION hal = 0")
  case True
  then show ?thesis by (intro exI [of _ f] exI [of _ "hfdcan d"]) (simp add: FDCAN_Read_def readable_def)
next
  case False
  obtain m ms where m: "fifo (hfdcan d) = m # ms" using assms(2) by (cases "fifo (hfdcan d)") auto
  then show ?thesis using read_message [OF False _ m, of f] assms(1) False by (auto simp: readable_def)
qed

text \<open>One round of the loop whose read succeeds.\<close>

lemma read_round:
  assumes "fifo (hfdcan (driver c)) \<noteq> []" "FDCAN_Read hal its f (driver c) = (COMM_SUCCESS, f1, d)"
    "ring_ok (RxRingBuffer c)" "read_frames hal P ch its (Suc n) f c g = (k, c', g')"
  obtains c1 f2 c2 g2 k3 where "SequenceIndex c1 = SequenceIndex c" "LastHardwareTimestamp c1 = LastHardwareTimestamp c"
    "driver c1 = d" "store_frame P ch f1 c1 g = (f2, c2, g2)" "took ch [frame_of_bytes (frame_bytes f2)] c g c2 g2"
    "driver c2 = d" "ring_ok (RxRingBuffer c2)" "read_frames hal P ch its n f2 c2 g2 = (k3, c', g')" "k = Suc k3"
proof -
  let ?l = "HAL_FDCAN_GetRxFifoFillLevel hal (hfdcan (driver c))"
  define c0 where "c0 = (if ?l > HwHighWatermark c then c\<lparr>HwHighWatermark := ?l\<rparr> else c)"
  define c1 where "c1 = c0\<lparr>driver := d\<rparr>"
  have c0: "driver c0 = driver c" by (simp add: c0_def)
  have c1: "RxRingBuffer c1 = RxRingBuffer c" "SequenceIndex c1 = SequenceIndex c" "LastHardwareTimestamp c1 = LastHardwareTimestamp c"
    "driver c1 = d" by (simp_all add: c1_def c0_def)
  obtain f2 c2 g2 where s: "store_frame P ch f1 c1 g = (f2, c2, g2)" by (metis prod_cases3)
  have ok: "ring_ok (RxRingBuffer c1)" using assms(3) by (simp add: c1)
  note one = took_frame [OF ok s]
  obtain k3 c3 g3 where rec: "read_frames hal P ch its n f2 c2 g2 = (k3, c3, g3)" by (metis prod_cases3)
  have "k = Suc k3" "c' = c3" "g' = g3"
    using assms(4,1,2) s rec by (simp_all add: fill_pos Let_def c0_def [symmetric] c0 c1_def)
  moreover have "took ch [frame_of_bytes (frame_bytes f2)] c g c2 g2" by (rule took_cong [OF c1(2,1) counted_refl one(1)])
  ultimately show thesis using that c1 s one rec by metis
qed

lemma read_frames_took:
  assumes "ring_ok (RxRingBuffer c)" "readable hal started fifo its (hfdcan (driver c))"
    and "read_frames hal P ch its n f c g = (k, c', g')"
  shows "\<exists>fs. length fs = k \<and> took ch fs c g c' g'"
  using assms
proof (induction n arbitrary: f c g k c' g')
  case 0
  then show ?case by (intro exI [of _ "[]"]) (simp add: took_none)
next
  case (Suc n)
  show ?case
  proof (cases "fifo (hfdcan (driver c)) = []")
    case True
    then show ?thesis using Suc.prems fill_pos [of "hfdcan (driver c)"]
      by (intro exI [of _ "[]"]) (simp add: took_none)
  next
    case False
    obtain f1 h where r: "FDCAN_Read hal its f (driver c) = (COMM_SUCCESS, f1, (driver c)\<lparr>hfdcan := h\<rparr>)"
        "readable hal started fifo its h"
      using read_succeeds [OF Suc.prems(2) False] by blast
    from read_round [OF False r(1) Suc.prems(1,3)] obtain f2 c2 g2 k3 where
        1: "took ch [frame_of_bytes (frame_bytes f2)] c g c2 g2" "driver c2 = (driver c)\<lparr>hfdcan := h\<rparr>" "ring_ok (RxRingBuffer c2)"
        and rec: "read_frames hal P ch its n f2 c2 g2 = (k3, c', g')" "k = Suc k3" by metis
    from Suc.IH [OF 1(3) _ rec(1)] r(2) 1(2) obtain fs where fs: "length fs = k3" "took ch fs c2 g2 c' g'" by auto
    from took_trans [OF 1(1) fs(2)] show ?thesis
      using fs(1) rec(2) by (intro exI [of _ "frame_of_bytes (frame_bytes f2) # fs"]) simp
  qed
qed

text \<open>Before the loop only the record of bus errors, a flag of the controller and a counter change.\<close>

lemma read_all_loop:
  "\<exists>c1 g1 h. CanAbs_ReadAllAvailableFrames hal P ch its junk c g = read_frames hal P ch its 54 junk c1 g1 \<and>
    RxRingBuffer c1 = RxRingBuffer c \<and> SequenceIndex c1 = SequenceIndex c \<and> LastHardwareTimestamp c1 = LastHardwareTimestamp c \<and>
    driver c1 = (driver c)\<lparr>hfdcan := h\<rparr> \<and> fifo h = fifo (hfdcan (driver c)) \<and> started h = started (hfdcan (driver c)) \<and>
    counted 0 0 g g1"
proof -
  define c0 where "c0 = c\<lparr>FdcanHealth := CanAbs_CaptureFdcanHealth hal (hfdcan (driver c)) (FdcanHealth c)\<rparr>"
  define lost where "lost \<longleftrightarrow> its AND FDCAN_IT_RX_FIFO0_MESSAGE_LOST hal \<noteq> 0 \<or>
    reg_RXF0S hal (hfdcan (driver c)) AND FDCAN_RXF0S_RF0L hal \<noteq> 0"
  define h where "h = (if lost then HAL_FDCAN_CLEAR_FLAG hal (hfdcan (driver c)) (FDCAN_FLAG_RX_FIFO0_MESSAGE_LOST hal) else hfdcan (driver c))"
  define c1 where "c1 = c0\<lparr>driver := (driver c)\<lparr>hfdcan := h\<rparr>\<rparr>"
  define g1 where "g1 = (if lost then count_overflow ch g else g)"
  have "CanAbs_ReadAllAvailableFrames hal P ch its junk c g = read_frames hal P ch its CANABS_RX_ISR_MAX_FRAMES_PER_CHANNEL junk c1 g1"
    by (cases lost) (auto simp: CanAbs_ReadAllAvailableFrames_def Let_def c0_def c1_def g1_def h_def lost_def simp del: CANABS_RX_ISR_MAX_FRAMES_PER_CHANNEL_def)
  moreover have "fifo h = fifo (hfdcan (driver c))" "started h = started (hfdcan (driver c))" "counted 0 0 g g1"
    using clear_flag by (auto simp: h_def g1_def counted_one(3) counted_refl)
  ultimately show ?thesis
    by (intro exI [of _ c1] exI [of _ g1] exI [of _ h]) (simp add: c1_def c0_def del: read_frames.simps)
qed

lemma read_all_took:
  assumes ok: "ring_ok (RxRingBuffer c)" and r: "readable hal started fifo its (hfdcan (driver c))"
    and run: "CanAbs_ReadAllAvailableFrames hal P ch its junk c g = (k, c', g')"
  shows "\<exists>fs. length fs = k \<and> took ch fs c g c' g'"
proof -
  obtain c1 g1 h where l: "CanAbs_ReadAllAvailableFrames hal P ch its junk c g = read_frames hal P ch its 54 junk c1 g1"
      "RxRingBuffer c1 = RxRingBuffer c" "SequenceIndex c1 = SequenceIndex c" "driver c1 = (driver c)\<lparr>hfdcan := h\<rparr>"
      "fifo h = fifo (hfdcan (driver c))" "started h = started (hfdcan (driver c))" "counted 0 0 g g1"
    using read_all_loop by blast
  have "ring_ok (RxRingBuffer c1)" "readable hal started fifo its (hfdcan (driver c1))"
    using ok r l(2,4-6) by (auto simp: readable_def)
  then obtain fs where "length fs = k" "took ch fs c1 g1 c' g'" using read_frames_took run l(1) by metis
  then show ?thesis using took_cong [OF l(3,2,7)] by blast
qed

end

section \<open>Histories\<close>

text \<open>Everything that changes the path of a frame, in any order: the peripherals change (frames arrive,
  controllers start and stop), their interrupts, the drain of a stop, the poll of the timer, a round
  of the bridge task, reads and flushes of the logging task, and resets of the counters and of the bus
  errors when logging starts.  The list is the frames read so far; the two words are what the counter of frames and the
  two drop counters showed when they were reset.
  A controller that interrupts, or whose FIFO holds frames then, is in operation.\<close>

inductive can_reach ::
  "'h fdcan_hal \<Rightarrow> ('h \<Rightarrow> bool) \<Rightarrow> ('h \<Rightarrow> (FDCAN_RxHeaderTypeDef \<times> bytes) list) \<Rightarrow> 'b mbuf_ops \<Rightarrow> u64 \<Rightarrow>
   u64 \<Rightarrow> u64 \<Rightarrow> ('h, 'b) can_state \<Rightarrow> FDCAN_ClassicFrameType list \<Rightarrow> bool"
  for hal started fifo ops P where
  boot: "RxRingBuffer (can1 s) = rx_ring_boot \<Longrightarrow> RxRingBuffer (can2 s) = rx_ring_boot \<Longrightarrow>
    SequenceIndex (can1 s) = 0 \<Longrightarrow> SequenceIndex (can2 s) = 0 \<Longrightarrow>
    msg_port s = fdcan_msg_port_init ops (port_boot r) \<Longrightarrow> can_reach hal started fifo ops P 0 0 s []"
| device: "can_reach hal started fifo ops P a b s out \<Longrightarrow>
    can_reach hal started fifo ops P a b (s\<lparr>can1 := (can1 s)\<lparr>driver := d1\<rparr>, can2 := (can2 s)\<lparr>driver := d2\<rparr>,
      deferred_pending := x, irq1_pending := y, irq2_pending := z\<rparr>) out"
| interrupt1: "can_reach hal started fifo ops P a b s out \<Longrightarrow>
    readable hal started fifo its (hfdcan (driver (can1 s))) \<Longrightarrow> readable hal started fifo its (hfdcan (driver (can2 s))) \<Longrightarrow>
    can_reach hal started fifo ops P a b (can1_interrupt hal P junk t its s) out"
| interrupt2: "can_reach hal started fifo ops P a b s out \<Longrightarrow>
    readable hal started fifo its (hfdcan (driver (can1 s))) \<Longrightarrow> readable hal started fifo its (hfdcan (driver (can2 s))) \<Longrightarrow>
    can_reach hal started fifo ops P a b (can2_interrupt hal P junk t its s) out"
| drain: "can_reach hal started fifo ops P a b s out \<Longrightarrow> can_reach hal started fifo ops P a b (CanAbs_Drain hal P junk s) out"
| poll: "can_reach hal started fifo ops P a b s out \<Longrightarrow> can_reach hal started fifo ops P a b (CANABS_CheckIsrPollPeriod hal t P s) out"
| bridge: "can_reach hal started fifo ops P a b s out \<Longrightarrow> can_reach hal started fifo ops P a b (CanBridgeTask_round ops s) out"
| read: "can_reach hal started fifo ops P a b s out \<Longrightarrow> fdcan_msg_port_read ops ms (msg_port s) = (n, f, g) \<Longrightarrow>
    can_reach hal started fifo ops P a b (s\<lparr>msg_port := g\<rparr>) (if n > 0 then out @ (case f of Some f \<Rightarrow> [f] | None \<Rightarrow> []) else out)"
| reset: "can_reach hal started fifo ops P a b s out \<Longrightarrow> cs = port_counters (msg_port s) \<Longrightarrow>
    can_reach hal started fifo ops P (a + CanAbs_FrameCount cs) (b + CanAbs_FrameDropCount cs + FcdanMsgPort_FrameDropCount cs)
      (s\<lparr>msg_port := (msg_port s)\<lparr>port_counters := RuntimeChecks_Init cs\<rparr>\<rparr>) out"
| health: "can_reach hal started fifo ops P a b s out \<Longrightarrow> can_reach hal started fifo ops P a b (CanAbs_ResetFdcanHealth hal s) out"
| flush: "can_reach hal started fifo ops P a b s out \<Longrightarrow> fdcan_msg_port_flush ops (msg_port s) = Some g \<Longrightarrow>
    can_reach hal started fifo ops P a b (s\<lparr>msg_port := g\<rparr>) out"

text \<open>Of the frames of a channel, numbered from 1 to \<open>n\<close>, those handed on and those in the ring keep
  their order.\<close>

definition of_channel :: "u8 \<Rightarrow> FDCAN_ClassicFrameType list \<Rightarrow> FDCAN_ClassicFrameType list" where
  "of_channel ch fs = filter (\<lambda>f. frame_channel f = ch) fs"

definition chan_inv :: "u8 \<Rightarrow> nat \<Rightarrow> FDCAN_ClassicFrameType list \<Rightarrow> 'h can_chan \<Rightarrow> bool" where
  "chan_inv ch n d c \<longleftrightarrow> SequenceIndex c = of_nat n \<and> ring_ok (RxRingBuffer c) \<and>
     list_all (\<lambda>f. frame_channel f = ch) (ring_frames (RxRingBuffer c)) \<and>
     subseq (map rx_sequence (of_channel ch d @ ring_frames (RxRingBuffer c))) (map of_nat [1..<Suc n])"

definition kept_frames :: "('h, 'b) can_state \<Rightarrow> FDCAN_ClassicFrameType list \<Rightarrow> nat" where
  "kept_frames s d = length d + length (ring_frames (RxRingBuffer (can1 s))) + length (ring_frames (RxRingBuffer (can2 s)))"

definition can_inv :: "u64 \<Rightarrow> u64 \<Rightarrow> nat \<Rightarrow> nat \<Rightarrow> ('h, 'b) can_state \<Rightarrow> FDCAN_ClassicFrameType list \<Rightarrow> bool" where
  "can_inv a b n1 n2 s d \<longleftrightarrow> chan_inv 1 n1 d (can1 s) \<and> chan_inv 2 n2 d (can2 s) \<and>
     list_all (\<lambda>f. frame_channel f = 1 \<or> frame_channel f = 2) d \<and>
     kept_frames s d \<le> n1 + n2 \<and>
     CanAbs_FrameCount (port_counters (msg_port s)) + a = of_nat (n1 + n2) \<and>
     CanAbs_FrameDropCount (port_counters (msg_port s)) + FcdanMsgPort_FrameDropCount (port_counters (msg_port s)) + b =
       of_nat (n1 + n2 - kept_frames s d)"

lemma of_channel_append [simp]: "of_channel ch (xs @ ys) = of_channel ch xs @ of_channel ch ys"
  by (simp add: of_channel_def)

lemma of_channel_all: "list_all (\<lambda>f. frame_channel f = ch) fs \<Longrightarrow> of_channel ch' fs = (if ch' = ch then fs else [])"
  by (induction fs) (auto simp: of_channel_def)

lemma chan_inv_took:
  assumes "chan_inv ch n d c" "took ch fs c g c' g'"
  shows "chan_inv ch (n + length fs) d c'"
proof -
  let ?k = "640 - length (ring_frames (RxRingBuffer c))"
  have len: "length (ring_frames (RxRingBuffer c)) \<le> 640" using assms(1) length_ring_frames by (simp add: chan_inv_def)
  have ring: "ring_frames (RxRingBuffer c') = ring_frames (RxRingBuffer c) @ take ?k fs"
    using assms(2) len by (simp add: took_def)
  have seq: "map rx_sequence fs = map of_nat [Suc n..<Suc (n + length fs)]"
  proof (rule nth_equalityI)
    fix i assume i: "i < length (map rx_sequence fs)"
    have "map rx_sequence fs ! i = SequenceIndex c + of_nat (1 + i)"
      using i assms(2) unfolding took_def by (simp del: upt_Suc)
    then show "map rx_sequence fs ! i = map of_nat [Suc n..<Suc (n + length fs)] ! i"
      using i assms(1) by (simp add: chan_inv_def ac_simps del: upt_Suc)
  qed (simp del: upt_Suc)
  have "subseq (map rx_sequence (take ?k fs)) (map rx_sequence fs)" by (intro subseq_map prefix_imp_subseq take_is_prefix)
  then have "subseq (map rx_sequence (of_channel ch d @ ring_frames (RxRingBuffer c)) @ map rx_sequence (take ?k fs))
      (map of_nat [1..<Suc n] @ map rx_sequence fs)"
    using assms(1) by (intro list_emb_append_mono) (simp_all add: chan_inv_def)
  moreover have "[1..<Suc n] @ [Suc n..<Suc (n + length fs)] = [1..<Suc (n + length fs)]"
    using upt_add_eq_append [of 1 "Suc n" "length fs"] by simp
  ultimately have "subseq (map rx_sequence (of_channel ch d @ ring_frames (RxRingBuffer c'))) (map of_nat [1..<Suc (n + length fs)])"
    unfolding ring seq by (metis append_assoc map_append)
  moreover have "list_all (\<lambda>f. frame_channel f = ch) (take ?k fs)"
    using assms(2) by (auto simp: took_def list_all_iff dest: in_set_takeD)
  ultimately show ?thesis using assms ring by (simp add: chan_inv_def took_def del: upt_Suc)
qed

text \<open>The invariant depends on the rings, the numbers and the counters only.\<close>

definition same_frames :: "('h, 'b) can_state \<Rightarrow> ('h, 'b) can_state \<Rightarrow> bool" where
  "same_frames s s' \<longleftrightarrow> RxRingBuffer (can1 s') = RxRingBuffer (can1 s) \<and> RxRingBuffer (can2 s') = RxRingBuffer (can2 s) \<and>
     SequenceIndex (can1 s') = SequenceIndex (can1 s) \<and> SequenceIndex (can2 s') = SequenceIndex (can2 s) \<and>
     CanAbs_FrameCount (port_counters (msg_port s')) = CanAbs_FrameCount (port_counters (msg_port s)) \<and>
     CanAbs_FrameDropCount (port_counters (msg_port s')) = CanAbs_FrameDropCount (port_counters (msg_port s)) \<and>
     FcdanMsgPort_FrameDropCount (port_counters (msg_port s')) = FcdanMsgPort_FrameDropCount (port_counters (msg_port s))"

lemma can_inv_cong: "same_frames s s' \<Longrightarrow> can_inv a b n1 n2 s d \<Longrightarrow> can_inv a b n1 n2 s' d"
  by (simp add: same_frames_def can_inv_def chan_inv_def kept_frames_def del: upt_Suc)

definition same_port :: "'b port_state \<Rightarrow> 'b port_state \<Rightarrow> bool" where
  "same_port g g' \<longleftrightarrow> CanFrameBuffer g' = CanFrameBuffer g \<and> PageReceive g' = PageReceive g \<and>
     IndexRead g' = IndexRead g \<and> PageRead g' = PageRead g"

lemma counted_same_port: "counted n m g g' \<Longrightarrow> same_port g g'"
  by (simp add: counted_def same_port_def)

lemma same_port_trans: "same_port g g1 \<Longrightarrow> same_port g1 g2 \<Longrightarrow> same_port g g2"
  by (simp add: same_port_def)

text \<open>Both ways to read the frames of a channel into its ring.\<close>

lemma took_counts:
  assumes "took ch fs c g c' g'" "ring_ok (RxRingBuffer c)" "N \<ge> K" "K \<ge> length (ring_frames (RxRingBuffer c))"
    and "CanAbs_FrameCount (port_counters g) + a = of_nat N"
    and "CanAbs_FrameDropCount (port_counters g) + FcdanMsgPort_FrameDropCount (port_counters g) + b = of_nat (N - K)"
    and K': "K' = K - length (ring_frames (RxRingBuffer c)) + length (ring_frames (RxRingBuffer c'))"
  shows "K' \<le> N + length fs" "CanAbs_FrameCount (port_counters g') + a = of_nat (N + length fs)"
    "CanAbs_FrameDropCount (port_counters g') + FcdanMsgPort_FrameDropCount (port_counters g') + b = of_nat (N + length fs - K')"
proof -
  let ?a = "length (ring_frames (RxRingBuffer c))" and ?b = "length (ring_frames (RxRingBuffer c'))"
  have b: "?b = min 640 (?a + length fs)" "?a \<le> 640" using assms(1) length_ring_frames [OF assms(2)] by (auto simp: took_def)
  have c: "counted (length fs) (?a + length fs - ?b) g g'" using assms(1) unfolding took_def by blast
  show "K' \<le> N + length fs" using K' b assms(3,4) by simp
  show "CanAbs_FrameCount (port_counters g') + a = of_nat (N + length fs)"
    using c assms(5) by (simp add: counted_def algebra_simps)
  have "N + length fs - K' = (N - K) + (?a + length fs - ?b)" using K' b assms(3,4) by simp
  then show "CanAbs_FrameDropCount (port_counters g') + FcdanMsgPort_FrameDropCount (port_counters g') + b = of_nat (N + length fs - K')"
    using c assms(6) unfolding counted_def by (simp only: of_nat_add) (simp add: algebra_simps)
qed

lemma can_inv_took:
  assumes "can_inv a b n1 n2 s d"
  shows "took 1 fs (can1 s) (msg_port s) c' g' \<Longrightarrow> can_inv a b (n1 + length fs) n2 (s\<lparr>can1 := c', msg_port := g'\<rparr>) d"
    and "took 2 fs (can2 s) (msg_port s) c' g' \<Longrightarrow> can_inv a b n1 (n2 + length fs) (s\<lparr>can2 := c', msg_port := g'\<rparr>) d"
proof -
  note i = assms [unfolded can_inv_def]
  have ok: "ring_ok (RxRingBuffer (can1 s))" "ring_ok (RxRingBuffer (can2 s))" using i by (simp_all add: chan_inv_def)
  { assume t: "took 1 fs (can1 s) (msg_port s) c' g'"
    show "can_inv a b (n1 + length fs) n2 (s\<lparr>can1 := c', msg_port := g'\<rparr>) d"
      using i chan_inv_took [OF _ t, of n1 d]
        took_counts [OF t ok(1), where K = "kept_frames s d" and N = "n1 + n2" and a = a and b = b
            and K' = "kept_frames (s\<lparr>can1 := c', msg_port := g'\<rparr>) d"]
      by (simp add: can_inv_def kept_frames_def ac_simps) }
  { assume t: "took 2 fs (can2 s) (msg_port s) c' g'"
    show "can_inv a b n1 (n2 + length fs) (s\<lparr>can2 := c', msg_port := g'\<rparr>) d"
      using i chan_inv_took [OF _ t, of n2 d]
        took_counts [OF t ok(2), where K = "kept_frames s d" and N = "n1 + n2" and a = a and b = b
            and K' = "kept_frames (s\<lparr>can2 := c', msg_port := g'\<rparr>) d"]
      by (simp add: can_inv_def kept_frames_def ac_simps) }
qed

section \<open>The invariant\<close>

context hal_fdcan
begin

lemma both_channels:
  assumes inv: "can_inv a b n1 n2 s d"
    and r: "readable hal started fifo its (hfdcan (driver (can1 s)))" "readable hal started fifo its (hfdcan (driver (can2 s)))"
    and run: "CanAbs_ReadAllAvailableFrames hal P 1 its junk (can1 s) (msg_port s) = (k1, c1, g1)"
      "CanAbs_ReadAllAvailableFrames hal P 2 its junk (can2 s) g1 = (k2, c2, g2)"
  shows "\<exists>m1 m2. can_inv a b m1 m2 (s\<lparr>can1 := c1, can2 := c2, msg_port := g2\<rparr>) d \<and> same_port (msg_port s) g2"
proof -
  have ok: "ring_ok (RxRingBuffer (can1 s))" "ring_ok (RxRingBuffer (can2 s))" using inv by (simp_all add: can_inv_def chan_inv_def)
  obtain fs1 where t1: "took 1 fs1 (can1 s) (msg_port s) c1 g1" using read_all_took [OF ok(1) r(1) run(1)] by blast
  note i1 = can_inv_took(1) [OF inv t1]
  obtain fs2 where t2: "took 2 fs2 (can2 s) g1 c2 g2" using read_all_took [OF ok(2) r(2) run(2)] by blast
  have "can_inv a b (n1 + length fs1) (n2 + length fs2) (s\<lparr>can1 := c1, can2 := c2, msg_port := g2\<rparr>) d"
    using can_inv_took(2) [OF i1, of fs2 c2 g2] t2 by simp
  moreover have "same_port (msg_port s) g1" "same_port g1 g2" using t1 t2 counted_same_port unfolding took_def by blast+
  ultimately show ?thesis using same_port_trans by blast
qed

lemma callback_inv:
  assumes "can_inv a b n1 n2 s d" "readable hal started fifo its (hfdcan (driver (can1 s)))" "readable hal started fifo its (hfdcan (driver (can2 s)))"
  shows "\<exists>m1 m2. can_inv a b m1 m2 (HAL_FDCAN_RxFifo0Callback hal P junk its s) d \<and>
    same_port (msg_port s) (msg_port (HAL_FDCAN_RxFifo0Callback hal P junk its s))"
proof -
  obtain k1 c1 g1 where 1: "CanAbs_ReadAllAvailableFrames hal P 1 its junk (can1 s) (msg_port s) = (k1, c1, g1)" by (metis prod_cases3)
  obtain k2 c2 g2 where 2: "CanAbs_ReadAllAvailableFrames hal P 2 its junk (can2 s) g1 = (k2, c2, g2)" by (metis prod_cases3)
  let ?t = "HAL_FDCAN_RxFifo0Callback hal P junk its s"
  have t: "same_frames (s\<lparr>can1 := c1, can2 := c2, msg_port := g2\<rparr>) ?t" "msg_port ?t = g2"
    using 1 2 by (simp_all add: HAL_FDCAN_RxFifo0Callback_def same_frames_def CanAbs_RxNotificationCallback_def Let_def)
  then show ?thesis using both_channels [OF assms 1 2] can_inv_cong [OF t(1)] by blast
qed

lemma drain_inv:
  assumes "can_inv a b n1 n2 s d"
  shows "\<exists>m1 m2. can_inv a b m1 m2 (CanAbs_Drain hal P junk s) d \<and>
    same_port (msg_port s) (msg_port (CanAbs_Drain hal P junk s))"
proof -
  obtain k1 c1 g1 where 1: "CanAbs_ReadAllAvailableFrames hal P 1 0 junk (can1 s) (msg_port s) = (k1, c1, g1)" by (metis prod_cases3)
  obtain k2 c2 g2 where 2: "CanAbs_ReadAllAvailableFrames hal P 2 0 junk (can2 s) g1 = (k2, c2, g2)" by (metis prod_cases3)
  let ?t = "CanAbs_Drain hal P junk s"
  have t: "same_frames (s\<lparr>can1 := c1, can2 := c2, msg_port := g2\<rparr>) ?t" "msg_port ?t = g2"
    using 1 2 by (simp_all add: CanAbs_Drain_def same_frames_def CanAbs_RxNotificationCallback_def Let_def)
  moreover have "readable hal started fifo 0 h" for h by (simp add: readable_def)
  ultimately show ?thesis using both_channels [OF assms _ _ 1 2] can_inv_cong [OF t(1)] by blast
qed

end

section \<open>The bridge task\<close>

lemma receive_counters [simp]:
  "CanAbs_FrameCount (port_counters (fdcan_msg_port_receive ops f g)) = CanAbs_FrameCount (port_counters g)"
  "CanAbs_FrameDropCount (port_counters (fdcan_msg_port_receive ops f g)) = CanAbs_FrameDropCount (port_counters g)"
  by (simp_all add: fdcan_msg_port_receive_def fdcan_msg_port_update_highwater_def add_to_page_def count_drops_def
      FdcanMsgPort.CanAbs_ErrorHandler_def Let_def split: prod.split)

context message_buffer
begin

text \<open>The frames of the ring pass on to the port in their order; those it refuses are counted there.\<close>

lemma count_bridge_port:
  "port_inv (count_bridge g) = port_inv g" "waiting queue (count_bridge g) = waiting queue g"
  "CanAbs_FrameCount (port_counters (count_bridge g)) = CanAbs_FrameCount (port_counters g)"
  "CanAbs_FrameDropCount (port_counters (count_bridge g)) = CanAbs_FrameDropCount (port_counters g)"
  "FcdanMsgPort_FrameDropCount (port_counters (count_bridge g)) = FcdanMsgPort_FrameDropCount (port_counters g)"
  by (simp_all add: count_bridge_def port_inv_def waiting_def unread_def)

lemma bridge_ring_frames:
  assumes "ring_ok rb" "port_inv g" "bridge_ring ops rb g = (rb', g')"
  shows "ring_ok rb' \<and> ring_frames rb' = [] \<and> port_inv g' \<and>
    CanAbs_FrameCount (port_counters g') = CanAbs_FrameCount (port_counters g) \<and>
    CanAbs_FrameDropCount (port_counters g') = CanAbs_FrameDropCount (port_counters g) \<and>
    (\<exists>fs. subseq fs (ring_frames rb) \<and> waiting queue g' = waiting queue g @ fs \<and>
      FcdanMsgPort_FrameDropCount (port_counters g') =
        FcdanMsgPort_FrameDropCount (port_counters g) + of_nat (length (ring_frames rb) - length fs))"
  using assms
proof (induction "length (ring_frames rb)" arbitrary: rb g)
  case 0
  obtain r f rb1 where p: "CanAbs_Receive rb = (r, f, rb1)" by (metis prod_cases3)
  then show ?case using ring_pop_frame [OF 0(2) p] 0 by (simp add: bridge_ring.simps [of ops rb])
next
  case (Suc n)
  obtain x xs where x: "ring_frames rb = x # xs" using Suc(2) by (cases "ring_frames rb") auto
  obtain r f rb1 where p: "CanAbs_Receive rb = (r, f, rb1)" by (metis prod_cases3)
  have rb1: "f = Some x" "r = 0" "ring_ok rb1" "ring_frames rb1 = xs" using ring_pop_frame [OF Suc(3) p] x by simp_all
  define g1 where "g1 = count_bridge (fdcan_msg_port_receive ops x g)"
  have run: "bridge_ring ops rb1 g1 = (rb', g')"
    using Suc(5) p rb1 by (simp add: bridge_ring.simps [of ops rb] g1_def)
  have step: "port_inv g1" "waiting queue g1 = waiting queue g @ [x] \<and> FcdanMsgPort_FrameDropCount (port_counters g1) = FcdanMsgPort_FrameDropCount (port_counters g) \<or>
      waiting queue g1 = waiting queue g \<and> FcdanMsgPort_FrameDropCount (port_counters g1) = FcdanMsgPort_FrameDropCount (port_counters g) + 1"
    using receive_step [OF Suc(4), of x] by (auto simp: g1_def count_bridge_port)
  have c1: "CanAbs_FrameCount (port_counters g1) = CanAbs_FrameCount (port_counters g)"
    "CanAbs_FrameDropCount (port_counters g1) = CanAbs_FrameDropCount (port_counters g)"
    by (simp_all add: g1_def count_bridge_port)
  have "n = length (ring_frames rb1)" using Suc(2) x rb1(4) by simp
  from Suc(1) [OF this rb1(3) step(1) run] obtain fs where fs: "ring_ok rb'" "ring_frames rb' = []" "port_inv g'"
      "CanAbs_FrameCount (port_counters g') = CanAbs_FrameCount (port_counters g)"
      "CanAbs_FrameDropCount (port_counters g') = CanAbs_FrameDropCount (port_counters g)"
      "subseq fs xs" "waiting queue g' = waiting queue g1 @ fs"
      "FcdanMsgPort_FrameDropCount (port_counters g') = FcdanMsgPort_FrameDropCount (port_counters g1) + of_nat (length xs - length fs)"
    using rb1(4) c1 by auto
  have le: "length fs \<le> length xs" using fs(6) by (rule list_emb_length)
  from step(2) show ?case
  proof
    assume "waiting queue g1 = waiting queue g @ [x] \<and> FcdanMsgPort_FrameDropCount (port_counters g1) = FcdanMsgPort_FrameDropCount (port_counters g)"
    then show ?thesis using fs x by (intro conjI exI [of _ "x # fs"]) simp_all
  next
    assume "waiting queue g1 = waiting queue g \<and> FcdanMsgPort_FrameDropCount (port_counters g1) = FcdanMsgPort_FrameDropCount (port_counters g) + 1"
    then show ?thesis using fs x le by (intro conjI exI [of _ fs]) (simp_all add: Suc_diff_le list_emb_Cons)
  qed
qed

end

lemma subseq_moved: "subseq (map f (a @ r)) n \<Longrightarrow> subseq fs r \<Longrightarrow> subseq (map f (a @ fs)) n"
  using list_emb_append_mono [OF subseq_order.refl [of "map f a"] subseq_map [of fs r f]]
  by (auto intro: subseq_order.trans)

text \<open>The frames of one ring pass to the port.\<close>

lemma can_inv_moved:
  assumes inv: "can_inv a b n1 n2 s d" and ring: "ring_ok rb'" "ring_frames rb' = []"
    and g: "CanAbs_FrameCount (port_counters g') = CanAbs_FrameCount (port_counters (msg_port s))"
      "CanAbs_FrameDropCount (port_counters g') = CanAbs_FrameDropCount (port_counters (msg_port s))"
      "FcdanMsgPort_FrameDropCount (port_counters g') =
         FcdanMsgPort_FrameDropCount (port_counters (msg_port s)) + of_nat (length r - length fs)"
    and sub: "subseq fs r"
  shows "r = ring_frames (RxRingBuffer (can1 s)) \<Longrightarrow>
      can_inv a b n1 n2 (s\<lparr>can1 := (can1 s)\<lparr>RxRingBuffer := rb'\<rparr>, msg_port := g'\<rparr>) (d @ fs)"
    and "r = ring_frames (RxRingBuffer (can2 s)) \<Longrightarrow>
      can_inv a b n1 n2 (s\<lparr>can2 := (can2 s)\<lparr>RxRingBuffer := rb'\<rparr>, msg_port := g'\<rparr>) (d @ fs)"
proof -
  have le: "length fs \<le> length r" using sub by (rule list_emb_length)
  have ch: "list_all (\<lambda>f. frame_channel f = x) fs" if "list_all (\<lambda>f. frame_channel f = x) r" for x
    using that list_emb_set [OF sub] by (fastforce simp: list_all_iff)
  have num: "(of_nat (a - b) :: u64) + of_nat (m - k) = of_nat (a - (b - m + k))" if "b \<le> a" "m \<le> b" "k \<le> m" for a b m k :: nat
  proof -
    have "a - (b - m + k) = (a - b) + (m - k)" using that by simp
    then show ?thesis by simp
  qed
  note i = inv [unfolded can_inv_def chan_inv_def]
  let ?K = "kept_frames s d - length r + length fs"
  have drops: "CanAbs_FrameDropCount (port_counters g') + FcdanMsgPort_FrameDropCount (port_counters g') + b = of_nat (n1 + n2 - ?K)"
    "?K \<le> n1 + n2" if "length r \<le> kept_frames s d"
  proof -
    have "CanAbs_FrameDropCount (port_counters g') + FcdanMsgPort_FrameDropCount (port_counters g') + b =
        CanAbs_FrameDropCount (port_counters (msg_port s)) + FcdanMsgPort_FrameDropCount (port_counters (msg_port s)) + b +
        of_nat (length r - length fs)" by (simp only: g(2,3) ac_simps)
    also have "\<dots> = of_nat (n1 + n2 - kept_frames s d) + of_nat (length r - length fs)" using i by argo
    also have "\<dots> = of_nat (n1 + n2 - ?K)" by (rule num) (use i le that in auto)
    finally show "CanAbs_FrameDropCount (port_counters g') + FcdanMsgPort_FrameDropCount (port_counters g') + b = of_nat (n1 + n2 - ?K)" .
    show "?K \<le> n1 + n2" using i le that by linarith
  qed
  { assume r: "r = ring_frames (RxRingBuffer (can1 s))"
    let ?s = "s\<lparr>can1 := (can1 s)\<lparr>RxRingBuffer := rb'\<rparr>, msg_port := g'\<rparr>"
    have c: "list_all (\<lambda>f. frame_channel f = 1) fs" using ch i r by blast
    have o: "of_channel 1 (d @ fs) = of_channel 1 d @ fs" "of_channel 2 (d @ fs) = of_channel 2 d"
      using of_channel_all [OF c] by simp_all
    have k: "kept_frames ?s (d @ fs) = kept_frames s d - length r + length fs" "length r \<le> kept_frames s d"
      using r ring(2) by (simp_all add: kept_frames_def)
    have "subseq (map rx_sequence (of_channel 1 d @ fs)) (map of_nat [1..<Suc n1])"
      using i r sub by (intro subseq_moved [OF _ sub]) blast
    moreover have "list_all (\<lambda>f. frame_channel f = 1 \<or> frame_channel f = 2) (d @ fs)"
      using i c by (auto simp: list_all_iff)
    ultimately show "can_inv a b n1 n2 ?s (d @ fs)"
      using i ring g(1) drops [OF k(2)] unfolding can_inv_def chan_inv_def o k(1) by (simp del: upt_Suc of_nat_add) }
  { assume r: "r = ring_frames (RxRingBuffer (can2 s))"
    let ?s = "s\<lparr>can2 := (can2 s)\<lparr>RxRingBuffer := rb'\<rparr>, msg_port := g'\<rparr>"
    have c: "list_all (\<lambda>f. frame_channel f = 2) fs" using ch i r by blast
    have o: "of_channel 2 (d @ fs) = of_channel 2 d @ fs" "of_channel 1 (d @ fs) = of_channel 1 d"
      using of_channel_all [OF c] by simp_all
    have k: "kept_frames ?s (d @ fs) = kept_frames s d - length r + length fs" "length r \<le> kept_frames s d"
      using r ring(2) by (simp_all add: kept_frames_def)
    have "subseq (map rx_sequence (of_channel 2 d @ fs)) (map of_nat [1..<Suc n2])"
      using i r sub by (intro subseq_moved [OF _ sub]) blast
    moreover have "list_all (\<lambda>f. frame_channel f = 1 \<or> frame_channel f = 2) (d @ fs)"
      using i c by (auto simp: list_all_iff)
    ultimately show "can_inv a b n1 n2 ?s (d @ fs)"
      using i ring g(1) drops [OF k(2)] unfolding can_inv_def chan_inv_def o k(1) by (simp del: upt_Suc of_nat_add) }
qed

section \<open>The path as a whole\<close>

locale can_path = hal_fdcan hal started fifo + message_buffer ops valid queue
  for hal :: "'h fdcan_hal" and started :: "'h \<Rightarrow> bool" and fifo :: "'h \<Rightarrow> (FDCAN_RxHeaderTypeDef \<times> bytes) list"
    and ops :: "'b mbuf_ops" and valid :: "'b \<Rightarrow> bool" and queue :: "'b \<Rightarrow> PageType list"
begin

definition path_inv :: "u64 \<Rightarrow> u64 \<Rightarrow> ('h, 'b) can_state \<Rightarrow> FDCAN_ClassicFrameType list \<Rightarrow> bool" where
  "path_inv a b s out \<longleftrightarrow> port_inv (msg_port s) \<and> (\<exists>n1 n2. can_inv a b n1 n2 s (out @ waiting queue (msg_port s)))"

lemma same_port: "same_port g g' \<Longrightarrow> port_inv g' = port_inv g \<and> waiting queue g' = waiting queue g"
  by (simp add: same_port_def port_inv_def waiting_def unread_def)

lemma path_inv_cong: "path_inv a b s out \<Longrightarrow> same_frames s s' \<Longrightarrow> same_port (msg_port s) (msg_port s') \<Longrightarrow> path_inv a b s' out"
  unfolding path_inv_def using can_inv_cong same_port by metis

lemma path_boot:
  assumes "RxRingBuffer (can1 s) = rx_ring_boot" "RxRingBuffer (can2 s) = rx_ring_boot" "SequenceIndex (can1 s) = 0"
    "SequenceIndex (can2 s) = 0" "msg_port s = fdcan_msg_port_init ops (port_boot b)"
  shows "path_inv 0 0 s []"
proof -
  have g: "port_inv (msg_port s)" "waiting queue (msg_port s) = []"
    using port_start_inv [of b] list_emb_length [of "(=)" "waiting queue (msg_port s)" "[]"]
    by (simp_all add: port_start_def assms(5) port_good_def)
  have "can_inv 0 0 0 0 s []"
    using assms ring_boot_ok
    by (simp add: can_inv_def chan_inv_def kept_frames_def of_channel_def fdcan_msg_port_init_def port_boot_def zero_counters_def)
  then show ?thesis using g by (auto simp: path_inv_def)
qed

lemma path_bridge: "path_inv a b s out \<Longrightarrow> path_inv a b (CanBridgeTask_round ops s) out"
proof -
  assume inv: "path_inv a b s out"
  then obtain n1 n2 where i: "port_inv (msg_port s)" "can_inv a b n1 n2 s (out @ waiting queue (msg_port s))" by (auto simp: path_inv_def)
  obtain rb1 g1 where 1: "bridge_ring ops (RxRingBuffer (can1 s)) (msg_port s) = (rb1, g1)" by fastforce
  obtain rb2 g2 where 2: "bridge_ring ops (RxRingBuffer (can2 s)) g1 = (rb2, g2)" by fastforce
  have ok: "ring_ok (RxRingBuffer (can1 s))" "ring_ok (RxRingBuffer (can2 s))" using i(2) by (simp_all add: can_inv_def chan_inv_def)
  from bridge_ring_frames [OF ok(1) i(1) 1] obtain fs1 where m1: "ring_ok rb1" "ring_frames rb1 = []" "port_inv g1"
      "CanAbs_FrameCount (port_counters g1) = CanAbs_FrameCount (port_counters (msg_port s))"
      "CanAbs_FrameDropCount (port_counters g1) = CanAbs_FrameDropCount (port_counters (msg_port s))"
      "subseq fs1 (ring_frames (RxRingBuffer (can1 s)))" "waiting queue g1 = waiting queue (msg_port s) @ fs1"
      "FcdanMsgPort_FrameDropCount (port_counters g1) = FcdanMsgPort_FrameDropCount (port_counters (msg_port s)) +
        of_nat (length (ring_frames (RxRingBuffer (can1 s))) - length fs1)" by blast
  let ?s1 = "s\<lparr>can1 := (can1 s)\<lparr>RxRingBuffer := rb1\<rparr>, msg_port := g1\<rparr>"
  have i1: "can_inv a b n1 n2 ?s1 (out @ waiting queue g1)"
    using can_inv_moved(1) [OF i(2) m1(1,2,4,5,8,6)] m1(7) by simp
  from bridge_ring_frames [OF ok(2) m1(3) 2] obtain fs2 where m2: "ring_ok rb2" "ring_frames rb2 = []" "port_inv g2"
      "CanAbs_FrameCount (port_counters g2) = CanAbs_FrameCount (port_counters g1)"
      "CanAbs_FrameDropCount (port_counters g2) = CanAbs_FrameDropCount (port_counters g1)"
      "subseq fs2 (ring_frames (RxRingBuffer (can2 s)))" "waiting queue g2 = waiting queue g1 @ fs2"
      "FcdanMsgPort_FrameDropCount (port_counters g2) = FcdanMsgPort_FrameDropCount (port_counters g1) +
        of_nat (length (ring_frames (RxRingBuffer (can2 s))) - length fs2)" by blast
  have "can_inv a b n1 n2 (?s1\<lparr>can2 := (can2 ?s1)\<lparr>RxRingBuffer := rb2\<rparr>, msg_port := g2\<rparr>) ((out @ waiting queue g1) @ fs2)"
    by (rule can_inv_moved(2) [where r = "ring_frames (RxRingBuffer (can2 s))", OF i1 m2(1,2) _ _ _ m2(6)])
      (simp_all add: m2(4,5,8))
  then have "can_inv a b n1 n2 (?s1\<lparr>can2 := (can2 ?s1)\<lparr>RxRingBuffer := rb2\<rparr>, msg_port := g2\<rparr>) (out @ waiting queue g2)"
    by (simp only: m2(7) append_assoc)
  moreover have "CanBridgeTask_round ops s = ?s1\<lparr>can2 := (can2 ?s1)\<lparr>RxRingBuffer := rb2\<rparr>, msg_port := g2\<rparr>"
    using 1 2 by (simp add: CanBridgeTask_round_def)
  ultimately show ?thesis using m2(3) by (auto simp: path_inv_def)
qed

lemma can_inv_port:
  "port_counters g = port_counters (msg_port s) \<Longrightarrow> can_inv a b n1 n2 s d \<Longrightarrow> can_inv a b n1 n2 (s\<lparr>msg_port := g\<rparr>) d"
  by (rule can_inv_cong [of s]) (simp_all add: same_frames_def)

lemma path_read:
  assumes inv: "path_inv a b s out" and r: "fdcan_msg_port_read ops ms (msg_port s) = (n, f, g)"
  shows "path_inv a b (s\<lparr>msg_port := g\<rparr>) (if n > 0 then out @ (case f of Some f \<Rightarrow> [f] | None \<Rightarrow> []) else out)"
proof -
  obtain n1 n2 where i: "port_inv (msg_port s)" "can_inv a b n1 n2 s (out @ waiting queue (msg_port s))" using inv by (auto simp: path_inv_def)
  from read_step [OF i(1), of ms] consider
      x where "n = 24" "f = Some x" "port_inv g" "port_counters g = port_counters (msg_port s)" "waiting queue (msg_port s) = x # waiting queue g"
    | "n = 0" "f = None" "port_inv g" "port_counters g = port_counters (msg_port s)" "waiting queue g = waiting queue (msg_port s)"
    using r by auto
  then show ?thesis
  proof cases
    case 1
    then show ?thesis using can_inv_port [OF 1(4) i(2)] unfolding path_inv_def by auto
  next
    case 2
    then show ?thesis using can_inv_port [OF 2(4) i(2)] unfolding path_inv_def by auto
  qed
qed

lemma path_callback:
  assumes "path_inv a b s out" "readable hal started fifo its (hfdcan (driver (can1 s)))" "readable hal started fifo its (hfdcan (driver (can2 s)))"
  shows "path_inv a b (HAL_FDCAN_RxFifo0Callback hal P junk its s) out"
proof -
  obtain n1 n2 where i: "port_inv (msg_port s)" "can_inv a b n1 n2 s (out @ waiting queue (msg_port s))"
    using assms(1) by (auto simp: path_inv_def)
  from callback_inv [OF i(2) assms(2,3), of P junk] obtain m1 m2 where
    "can_inv a b m1 m2 (HAL_FDCAN_RxFifo0Callback hal P junk its s) (out @ waiting queue (msg_port s))"
    "same_port (msg_port s) (msg_port (HAL_FDCAN_RxFifo0Callback hal P junk its s))" by blast
  then show ?thesis using same_port i(1) unfolding path_inv_def by (intro conjI exI [of _ m1] exI [of _ m2]) simp_all
qed

lemma path_drain: "path_inv a b s out \<Longrightarrow> path_inv a b (CanAbs_Drain hal P junk s) out"
  unfolding path_inv_def using drain_inv [where s = s and P = P and junk = junk] same_port by (elim conjE exE) fastforce

lemma path_reach: "can_reach hal started fifo ops P a b s out \<Longrightarrow> path_inv a b s out"
proof (induction rule: can_reach.induct)
  case (boot s r)
  then show ?case by (rule path_boot)
next
  case (device a b s out d1 d2 x y z)
  show ?case by (rule path_inv_cong [OF device.IH]) (simp_all add: same_frames_def same_port_def)
next
  case (interrupt1 a b s out its junk t)
  let ?s = "s\<lparr>can1 := (can1 s)\<lparr>driver := FDCAN_IRQHandler t (driver (can1 s))\<rparr>\<rparr>"
  have "path_inv a b ?s out" by (rule path_inv_cong [OF interrupt1.IH]) (simp_all add: same_frames_def same_port_def)
  moreover have "readable hal started fifo its (hfdcan (driver (can1 ?s)))" "readable hal started fifo its (hfdcan (driver (can2 ?s)))"
    using interrupt1.hyps by (simp_all add: FDCAN_IRQHandler_def)
  ultimately show ?case unfolding can1_interrupt_def by (rule path_callback)
next
  case (interrupt2 a b s out its junk t)
  let ?s = "s\<lparr>can2 := (can2 s)\<lparr>driver := FDCAN_IRQHandler t (driver (can2 s))\<rparr>\<rparr>"
  have "path_inv a b ?s out" by (rule path_inv_cong [OF interrupt2.IH]) (simp_all add: same_frames_def same_port_def)
  moreover have "readable hal started fifo its (hfdcan (driver (can1 ?s)))" "readable hal started fifo its (hfdcan (driver (can2 ?s)))"
    using interrupt2.hyps by (simp_all add: FDCAN_IRQHandler_def)
  ultimately show ?case unfolding can2_interrupt_def by (rule path_callback)
next
  case (drain a b s out junk)
  then show ?case using path_drain by blast
next
  case (poll a b s out t)
  show ?case by (rule path_inv_cong [OF poll.IH]) (simp_all add: CANABS_CheckIsrPollPeriod_def Let_def same_frames_def same_port_def)
next
  case (bridge a b s out)
  then show ?case using path_bridge by blast
next
  case (read a b s out ms n f g)
  then show ?case using path_read by blast
next
  case (reset a b s out cs)
  then show ?case by (auto simp: path_inv_def port_inv_def waiting_def unread_def can_inv_def chan_inv_def kept_frames_def
      RuntimeChecks_Init_def ac_simps simp del: upt_Suc)
next
  case (health a b s out)
  show ?case by (rule path_inv_cong [OF health.IH]) (simp_all add: CanAbs_ResetFdcanHealth_def same_frames_def same_port_def)
next
  case (flush a b s out g)
  from flush_step [of "msg_port s"] flush obtain n1 n2 where "port_inv g" "port_counters g = port_counters (msg_port s)"
      "waiting queue g = waiting queue (msg_port s)" "can_inv a b n1 n2 s (out @ waiting queue (msg_port s))"
    by (auto simp: path_inv_def)
  then show ?case using can_inv_port [where g = g and s = s] unfolding path_inv_def by (intro conjI exI [of _ n1] exI [of _ n2]) simp_all
qed

lemma path_accounts: "can_reach hal started fifo ops P a b s out \<Longrightarrow> \<exists>n1 n2. can_inv a b n1 n2 s (out @ waiting queue (msg_port s))"
  using path_reach by (auto simp: path_inv_def)

end

interpretation stub_path: can_path stub_hal stub_started "\<lambda>h. take 64 (stub_fifo h)" stub_mbuf "\<lambda>b. length b \<le> 150" "\<lambda>b. b"
  by unfold_locales

section \<open>What the interrupt stores\<close>

text \<open>\<open>carries hal n m\<close>: the message carries \<open>n\<close> bytes.\<close>

definition carries :: "'h fdcan_hal \<Rightarrow> nat \<Rightarrow> FDCAN_RxHeaderTypeDef \<times> bytes \<Rightarrow> bool" where
  "carries hal n m \<longleftrightarrow> DataLength (fst m) = DLC_BYTES hal n \<and> n \<le> length (snd m)"

text \<open>The frame of a message that arrived at \<open>T\<close>.\<close>

definition frame_of_message :: "'h fdcan_hal \<Rightarrow> nat \<Rightarrow> FDCAN_RxHeaderTypeDef \<times> bytes \<Rightarrow> nat \<Rightarrow> FDCAN_ClassicFrameType \<Rightarrow> bool" where
  "frame_of_message hal n m T f \<longleftrightarrow>
     frame_id f = Identifier (fst m) \<and> frame_timestamp f = of_nat T \<and>
     FDCAN_GET_IDE (dlc_dl_flags f) = (if IdType (fst m) AND FDCAN_EXTENDED_ID hal \<noteq> 0 then 1 else 0) \<and>
     unat (FDCAN_GET_DLC (dlc_dl_flags f)) = n \<and> unat (FDCAN_GET_DATA_LEN (dlc_dl_flags f)) = n \<and>
     take n (frame_data f) = take n (snd m)"

context hal_fdcan
begin

lemma dlc_values:
  "n \<le> 8 \<Longrightarrow> dlc_of hal (DLC_BYTES hal n) = (of_nat n, of_nat n)"
  "dlc_of hal (DLC_BYTES hal 12) = (9, 12)" "dlc_of hal (DLC_BYTES hal 16) = (10, 16)"
  "dlc_of hal (DLC_BYTES hal 20) = (11, 20)" "dlc_of hal (DLC_BYTES hal 24) = (12, 24)"
  "dlc_of hal (DLC_BYTES hal 32) = (13, 32)" "dlc_of hal (DLC_BYTES hal 48) = (14, 48)"
  "dlc_of hal (DLC_BYTES hal 64) = (15, 64)"
proof -
  have i: "DLC_BYTES hal a = DLC_BYTES hal b \<longleftrightarrow> a = b"
    if "a \<in> {0, 1, 2, 3, 4, 5, 6, 7, 8, 12, 16, 20, 24, 32, 48, 64}" "b \<in> {0, 1, 2, 3, 4, 5, 6, 7, 8, 12, 16, 20, 24, 32, 48, 64}" for a b
    using inj_on_eq_iff [OF length_codes that] .
  show "dlc_of hal (DLC_BYTES hal n) = (of_nat n, of_nat n)" if "n \<le> 8"
  proof -
    have "n \<in> {0, 1, 2, 3, 4, 5, 6, 7, 8}" using that by (simp add: le_less_Suc_eq) presburger
    then show ?thesis by (elim insertE emptyE) (simp_all add: dlc_of_def i)
  qed
qed (simp_all add: dlc_of_def inj_on_eq_iff [OF length_codes])

lemma decode_length:
  assumes "n \<in> {0, 1, 2, 3, 4, 5, 6, 7, 8, 12, 16, 20, 24, 32, 48, 64}" "carries hal n m"
  shows "unat (FDCAN_GET_DATA_LEN (dlc_dl_flags (decode_frame hal (fst m) (snd m) f))) = n"
    "frame_data (decode_frame hal (fst m) (snd m) f) = take n (snd m) @ drop n (frame_data f)"
proof -
  have len: "unat (take_bit 7 (ucast (snd (dlc_of hal (DLC_BYTES hal n))) :: u16)) = n" "n \<le> 64"
  proof -
    consider "n \<le> 8" | "n \<in> {12, 16, 20, 24, 32, 48, 64}" using assms(1) by auto
    then have "snd (dlc_of hal (DLC_BYTES hal n)) = of_nat n \<and> n \<le> 64" by cases (auto simp: dlc_values)
    then show "unat (take_bit 7 (ucast (snd (dlc_of hal (DLC_BYTES hal n))) :: u16)) = n" "n \<le> 64"
      by (simp_all add: unsigned_take_bit_eq unsigned_ucast_eq unat_of_nat_u32 take_bit_nat_eq_self_iff)
  qed
  obtain a b where ab: "dlc_of hal (DLC_BYTES hal n) = (a, b)" by fastforce
  show "unat (FDCAN_GET_DATA_LEN (dlc_dl_flags (decode_frame hal (fst m) (snd m) f))) = n"
    "frame_data (decode_frame hal (fst m) (snd m) f) = take n (snd m) @ drop n (frame_data f)"
    using assms(2) len ab by (simp_all add: decode_frame_def carries_def Let_def)
qed

lemma decode_frame_message:
  assumes n: "n \<le> 8" "carries hal n m" and f: "length (frame_data f) = 8"
  shows "frame_of_message hal n m T (frame_of_bytes (frame_bytes
      ((decode_frame hal (fst m) (snd m) f)\<lparr>frame_channel := ch, frame_timestamp := of_nat T, rx_sequence := q\<rparr>)))"
    "length (frame_data (decode_frame hal (fst m) (snd m) f)) = 8"
proof -
  let ?f = "decode_frame hal (fst m) (snd m) f"
  have mem: "n \<in> {0, 1, 2, 3, 4, 5, 6, 7, 8, 12, 16, 20, 24, 32, 48, 64}" using n(1) by (simp add: le_less_Suc_eq) presburger
  note d = decode_length [OF mem n(2), of f]
  show 8: "length (frame_data ?f) = 8" using d(2) n f by (simp add: carries_def)
  have "dlc_of hal (DataLength (fst m)) = (of_nat n, of_nat n)" using n dlc_values(1) by (simp add: carries_def)
  then have "unat (FDCAN_GET_DLC (dlc_dl_flags ?f)) = n" "frame_id ?f = Identifier (fst m)"
    "FDCAN_GET_IDE (dlc_dl_flags ?f) = (if IdType (fst m) AND FDCAN_EXTENDED_ID hal \<noteq> 0 then 1 else 0)"
    using n(1) by (simp_all add: decode_frame_def Let_def unsigned_take_bit_eq unsigned_ucast_eq unat_of_nat_u32 take_bit_nat_eq_self_iff)
  then show "frame_of_message hal n m T (frame_of_bytes (frame_bytes
      (?f\<lparr>frame_channel := ch, frame_timestamp := of_nat T, rx_sequence := q\<rparr>)))"
    using d n f by (subst frame_round_trip) (simp_all add: 8 frame_of_message_def carries_def)
qed

end

text \<open>An interrupt reads the oldest messages, at most 54, and each gets the time at which it arrived, when
  that is less than half a period from the time of the interrupt.  What this requires of the messages: their arrival
  times are in order and less than half a period ago, the controller stamps each with the counter, and none has
  a length code above 8, for which \<open>fdcan.c\<close>:775 would write behind the data of the frame.\<close>

definition arrivals_ok :: "'h fdcan_hal \<Rightarrow> nat \<Rightarrow> nat \<Rightarrow> nat \<Rightarrow> (FDCAN_RxHeaderTypeDef \<times> bytes) list \<Rightarrow> nat list \<Rightarrow> bool" where
  "arrivals_ok hal P G L ms Ts \<longleftrightarrow>
     length Ts = length ms \<and> sorted Ts \<and> (\<forall>T \<in> set Ts. 2 * \<bar>int G - int T\<bar> < int P \<and> T < 4611686018427387904 \<and> (L \<le> T + P div 2 \<or> G < L \<and> L < 9223372036854775808)) \<and>
     (\<forall>i < length ms. RxTimestamp (fst (ms ! i)) = of_nat (Ts ! i mod P) \<and> (\<exists>n \<le> 8. carries hal n (ms ! i)))"

lemma arrivals_ok_Cons:
  "arrivals_ok hal P G L (m # ms) Ts \<Longrightarrow> \<exists>T Ts'. Ts = T # Ts' \<and> arrivals_ok hal P G T ms Ts' \<and>
     2 * \<bar>int G - int T\<bar> < int P \<and> T < 4611686018427387904 \<and> (L \<le> T + P div 2 \<or> G < L \<and> L < 9223372036854775808) \<and>
     RxTimestamp (fst m) = of_nat (T mod P) \<and> (\<exists>n \<le> 8. carries hal n m)"
proof (cases Ts)
  case (Cons T Ts')
  assume a: "arrivals_ok hal P G L (m # ms) Ts"
  then have "RxTimestamp (fst ((m # ms) ! Suc i)) = of_nat (Ts ! Suc i mod P) \<and> (\<exists>n \<le> 8. carries hal n ((m # ms) ! Suc i))"
    if "i < length ms" for i using that unfolding arrivals_ok_def by (metis Suc_less_eq length_Cons)
  moreover have "\<exists>n \<le> 8. carries hal n m" using a unfolding arrivals_ok_def by (metis length_greater_0_conv list.distinct(1) nth_Cons_0)
  ultimately show ?thesis using a unfolding arrivals_ok_def Cons
    by (intro exI [of _ T] exI [of _ Ts']) (auto simp: trans_le_add1)
qed (simp add: arrivals_ok_def)

lemma convert_count:
  assumes "T mod P < 4294967296"
  shows "CANABS_ConvertCountToTimestampHook (of_nat (T mod P)) = of_nat (T mod P)"
proof -
  have "unat (ucast (of_nat (T mod P) :: u32) :: u64) = unat (of_nat (T mod P) :: u64)"
    using assms by (simp add: unsigned_ucast_eq unat_of_nat_u32 unat_of_nat_u64 take_bit_nat_eq_self_iff del: of_nat_mod)
  then show ?thesis by (simp add: CANABS_ConvertCountToTimestampHook_def word_unat_eq_iff del: of_nat_mod)
qed

lemma store_frame_time:
  assumes P: "0 < P" "P \<le> 65536" and G: "G < 4611686018427387904" and T: "T < 4611686018427387904"
    "2 * \<bar>int G - int T\<bar> < int P" "L \<le> T + P div 2 \<or> G < L \<and> L < 9223372036854775808" "frame_timestamp f = of_nat (T mod P)"
    and c: "mostRecentInterrupTimestamp (driver c) = of_nat G" "LastHardwareTimestamp c = of_nat L"
    and run: "store_frame (of_nat P) ch f c g = (f', c', g')"
  shows "f' = f\<lparr>frame_channel := ch, frame_timestamp := of_nat T, rx_sequence := SequenceIndex c + 1\<rparr>"
    "LastHardwareTimestamp c' = of_nat T"
proof -
  have "T mod P < 4294967296" using P mod_less_divisor [of P T] by linarith
  then have h: "CANABS_ConvertCountToTimestampHook (frame_timestamp f) = of_nat (T mod P)"
    using convert_count T(4) by metis
  have r: "ReconstructFullTimestamp (of_nat P) (of_nat (T mod P)) (of_nat G) (of_nat L) = (of_nat T, of_nat T)"
    using reconstruct_exact [of P T G L] P G T by simp
  obtain res rb where p: "ring_buffer_put (RxRingBuffer c)
      (frame_bytes (f\<lparr>frame_channel := ch, frame_timestamp := of_nat T, rx_sequence := SequenceIndex c + 1\<rparr>)) = (res, rb)" by fastforce
  have "LastHardwareTimestamp (CanAbs_UpdateRxHighWater x) = LastHardwareTimestamp x" for x :: "'a can_chan"
    by (simp add: CanAbs_UpdateRxHighWater_def Let_def)
  moreover have "ucast (of_nat T :: u64) = (of_nat T :: u32)" by (intro bit_word_eqI) (auto simp: bit_simps)
  ultimately show "f' = f\<lparr>frame_channel := ch, frame_timestamp := of_nat T, rx_sequence := SequenceIndex c + 1\<rparr>"
    "LastHardwareTimestamp c' = of_nat T"
    using run h r p c by (auto simp: store_frame_def Let_def split: if_splits)
qed

context hal_fdcan
begin

lemma fill_length: "HAL_FDCAN_GetRxFifoFillLevel hal h = of_nat (length (fifo h))" "length (fifo h) \<le> 64"
  using fill_level by simp_all

lemma read_frames_content:
  assumes P: "0 < P" "P \<le> 65536" and G: "G < 4611686018427387904" and its: "its AND FDCAN_IRQ_NOTIFICATION hal \<noteq> 0"
    and c: "ring_ok (RxRingBuffer c)" "started (hfdcan (driver c))" "mostRecentInterrupTimestamp (driver c) = of_nat G"
      "LastHardwareTimestamp c = of_nat L" "arrivals_ok hal P G L (fifo (hfdcan (driver c))) Ts" "length (frame_data f) = 8"
    and run: "read_frames hal (of_nat P) ch its n f c g = (k, c', g')"
  shows "k = min n (length (fifo (hfdcan (driver c)))) \<and> fifo (hfdcan (driver c')) = drop n (fifo (hfdcan (driver c))) \<and>
    (\<exists>fs. length fs = k \<and> took ch fs c g c' g' \<and>
      (\<forall>i < k. \<exists>b. frame_of_message hal b (fifo (hfdcan (driver c)) ! i) (Ts ! i) (fs ! i)))"
  using c run
proof (induction n arbitrary: f c g k c' g' L Ts)
  case 0
  then show ?case by (simp add: took_none)
next
  case (Suc n)
  show ?case
  proof (cases "fifo (hfdcan (driver c))")
    case Nil
    then show ?thesis using Suc.prems fill_pos [of "hfdcan (driver c)"] by (simp add: took_none)
  next
    case (Cons m ms)
    obtain T Ts' b where T: "Ts = T # Ts'" "arrivals_ok hal P G T ms Ts'" "2 * \<bar>int G - int T\<bar> < int P"
        "T < 4611686018427387904" "L \<le> T + P div 2 \<or> G < L \<and> L < 9223372036854775808" "RxTimestamp (fst m) = of_nat (T mod P)" "b \<le> 8" "carries hal b m"
      using arrivals_ok_Cons Suc.prems(5) Cons by metis
    let ?f = "decode_frame hal (fst m) (snd m) f"
    obtain h where r: "FDCAN_Read hal its f (driver c) = (COMM_SUCCESS, ?f, (driver c)\<lparr>hfdcan := h\<rparr>)" "fifo h = ms" "started h"
      using read_message [OF its Suc.prems(2) Cons] by blast
    have ne: "fifo (hfdcan (driver c)) \<noteq> []" using Cons by simp
    from read_round [OF ne r(1) Suc.prems(1,7)] obtain c1 f2 c2 g2 k3 where
        1: "SequenceIndex c1 = SequenceIndex c" "LastHardwareTimestamp c1 = LastHardwareTimestamp c" "driver c1 = (driver c)\<lparr>hfdcan := h\<rparr>"
        and s: "store_frame (of_nat P) ch ?f c1 g = (f2, c2, g2)"
        and 2: "took ch [frame_of_bytes (frame_bytes f2)] c g c2 g2" "driver c2 = (driver c)\<lparr>hfdcan := h\<rparr>" "ring_ok (RxRingBuffer c2)"
        and rec: "read_frames hal (of_nat P) ch its n f2 c2 g2 = (k3, c', g')" "k = Suc k3" by metis
    have c1: "mostRecentInterrupTimestamp (driver c1) = of_nat G" "LastHardwareTimestamp c1 = of_nat L"
      using Suc.prems(3,4) 1 by simp_all
    have "frame_timestamp ?f = of_nat (T mod P)" using T(6) by (simp add: decode_frame_def Let_def split: prod.split)
    note st = store_frame_time [OF P G T(4,3,5) this c1 s]
    have msg: "frame_of_message hal b m T (frame_of_bytes (frame_bytes f2))" "length (frame_data f2) = 8"
      using decode_frame_message [OF T(7,8) Suc.prems(6)] by (simp_all add: st(1))
    from Suc.IH [OF 2(3) _ _ st(2) _ msg(2) rec(1), of Ts'] T(2) r(2,3) Suc.prems(3)
    obtain fs where fs: "k3 = min n (length ms)" "fifo (hfdcan (driver c')) = drop n ms" "length fs = k3" "took ch fs c2 g2 c' g'"
        "\<forall>i < k3. \<exists>b. frame_of_message hal b (ms ! i) (Ts' ! i) (fs ! i)" by (auto simp: 2(2))
    from took_trans [OF 2(1) fs(4)] have "took ch (frame_of_bytes (frame_bytes f2) # fs) c g c' g'" by simp
    moreover have "\<exists>b. frame_of_message hal b ((m # ms) ! i) (Ts ! i) ((frame_of_bytes (frame_bytes f2) # fs) ! i)" if "i < Suc k3" for i
      using that msg(1) fs(5) T(1) by (cases i) auto
    ultimately show ?thesis using fs(1-3) Cons unfolding rec(2)
      by (intro conjI exI [of _ "frame_of_bytes (frame_bytes f2) # fs"]) auto
  qed
qed

end

text \<open>With no flag of the FIFO a read takes nothing from the controller and leaves the local as it was.\<close>

definition same_content :: "FDCAN_ClassicFrameType \<Rightarrow> FDCAN_ClassicFrameType \<Rightarrow> bool" where
  "same_content f f' \<longleftrightarrow> frame_id f' = frame_id f \<and> dlc_dl_flags f' = dlc_dl_flags f \<and> frame_data f' = frame_data f"

lemma store_frame_content:
  "store_frame P ch f c g = (f', c', g') \<Longrightarrow> same_content f f' \<and>
   frame_timestamp f' = ucast (fst (ReconstructFullTimestamp P (CANABS_ConvertCountToTimestampHook (frame_timestamp f))
     (mostRecentInterrupTimestamp (driver c)) (LastHardwareTimestamp c)))"
  by (auto simp: store_frame_def same_content_def Let_def split: prod.splits if_splits)

text \<open>At the time 0, which a controller shows that never interrupted, the time stamp does not depend on
  the time.\<close>

lemma reconstruct_at_zero:
  "fst (ReconstructFullTimestamp P hw 0 L) = (if P \<noteq> 0 \<and> sint hw > sint (P div 2) then hw - P else
     if P \<noteq> 0 \<and> sint hw < - sint (P div 2) then hw + P else hw)"
  by (auto simp: ReconstructFullTimestamp_def Let_def)

context hal_fdcan
begin

lemma read_frames_nothing:
  assumes "its AND FDCAN_IRQ_NOTIFICATION hal = 0" "fifo (hfdcan (driver c)) \<noteq> []" "ring_ok (RxRingBuffer c)"
    "length (frame_data f) = 8" "read_frames hal P ch its n f c g = (k, c', g')"
  shows "k = n \<and> driver c' = driver c \<and> (\<exists>fs. length fs = n \<and> took ch fs c g c' g' \<and> (\<forall>x \<in> set fs. same_content f x))"
  using assms(2-5)
proof (induction n arbitrary: f c g k c' g')
  case 0
  then show ?case by (simp add: took_none)
next
  case (Suc n)
  have r: "FDCAN_Read hal its f (driver c) = (COMM_SUCCESS, f, driver c)" using assms(1) by (simp add: FDCAN_Read_def)
  from read_round [OF Suc.prems(1) r Suc.prems(2,4)] obtain c1 f2 c2 g2 k3 where
      s: "store_frame P ch f c1 g = (f2, c2, g2)"
      and 2: "took ch [frame_of_bytes (frame_bytes f2)] c g c2 g2" "driver c2 = driver c" "ring_ok (RxRingBuffer c2)"
      and rec: "read_frames hal P ch its n f2 c2 g2 = (k3, c', g')" "k = Suc k3" by metis
  have f2: "same_content f f2" using store_frame_content [OF s] by blast
  have 8: "length (frame_data f2) = 8" using Suc.prems(3) f2 by (simp add: same_content_def)
  from Suc.IH [OF _ 2(3) 8 rec(1)] 2(2) Suc.prems(1) obtain fs where fs: "k3 = n" "driver c' = driver c" "length fs = n"
      "took ch fs c2 g2 c' g'" "\<forall>x \<in> set fs. same_content f2 x" by auto
  from took_trans [OF 2(1) fs(4)] have "took ch (f2 # fs) c g c' g'" using frame_round_trip [OF 8] by simp
  moreover have "\<forall>x \<in> set (f2 # fs). same_content f x" using fs(5) f2 by (auto simp: same_content_def)
  ultimately show ?case using fs(1-3) unfolding rec(2) by (intro conjI exI [of _ "f2 # fs"]) auto
qed

lemma read_frames_zero_time:
  assumes its: "its AND FDCAN_IRQ_NOTIFICATION hal \<noteq> 0" and P: "0 < P" "P \<le> 65536"
    and c: "ring_ok (RxRingBuffer c)" "started (hfdcan (driver c))" "mostRecentInterrupTimestamp (driver c) = 0"
      "\<forall>m \<in> set (fifo (hfdcan (driver c))). unat (RxTimestamp (fst m)) < P \<and> (\<exists>n \<le> 8. carries hal n m)" "length (frame_data f) = 8"
    and run: "read_frames hal (of_nat P) ch its n f c g = (k, c', g')"
  shows "k = min n (length (fifo (hfdcan (driver c)))) \<and> mostRecentInterrupTimestamp (driver c') = 0 \<and>
    (\<exists>fs. length fs = k \<and> took ch fs c g c' g' \<and>
      (\<forall>x \<in> set fs. \<exists>r < P. frame_timestamp x = of_nat r \<or> frame_timestamp x = of_nat r - of_nat P))"
  using c run
proof (induction n arbitrary: f c g k c' g')
  case 0
  then show ?case by (simp add: took_none)
next
  case (Suc n)
  show ?case
  proof (cases "fifo (hfdcan (driver c))")
    case Nil
    then show ?thesis using Suc.prems fill_pos [of "hfdcan (driver c)"] by (simp add: took_none)
  next
    case (Cons m ms)
    let ?f = "decode_frame hal (fst m) (snd m) f"
    obtain h where r: "FDCAN_Read hal its f (driver c) = (COMM_SUCCESS, ?f, (driver c)\<lparr>hfdcan := h\<rparr>)" "fifo h = ms" "started h"
      using read_message [OF its Suc.prems(2) Cons] by blast
    have ne: "fifo (hfdcan (driver c)) \<noteq> []" using Cons by simp
    from read_round [OF ne r(1) Suc.prems(1,6)] obtain c1 f2 c2 g2 k3 where
        1: "driver c1 = (driver c)\<lparr>hfdcan := h\<rparr>" and s: "store_frame (of_nat P) ch ?f c1 g = (f2, c2, g2)"
        and 2: "took ch [frame_of_bytes (frame_bytes f2)] c g c2 g2" "driver c2 = (driver c)\<lparr>hfdcan := h\<rparr>" "ring_ok (RxRingBuffer c2)"
        and rec: "read_frames hal (of_nat P) ch its n f2 c2 g2 = (k3, c', g')" "k = Suc k3" by metis
    obtain b where b: "b \<le> 8" "carries hal b m" and rt: "unat (RxTimestamp (fst m)) < P" using Suc.prems(4) Cons by auto
    have f8: "length (frame_data ?f) = 8" using decode_frame_message(2) [OF b Suc.prems(5)] .
    have sf: "same_content ?f f2" "frame_timestamp f2 = ucast (fst (ReconstructFullTimestamp (of_nat P)
        (CANABS_ConvertCountToTimestampHook (frame_timestamp ?f)) 0 (LastHardwareTimestamp c1)))"
      using store_frame_content [OF s] Suc.prems(3) 1 by simp_all
    let ?r = "unat (RxTimestamp (fst m))"
    have hook: "CANABS_ConvertCountToTimestampHook (frame_timestamp ?f) = of_nat ?r"
      by (simp add: CANABS_ConvertCountToTimestampHook_def decode_frame_def Let_def split: prod.split)
    have "P div 2 < 9223372036854775808" "?r < 9223372036854775808" "(of_nat P :: u64) div 2 = of_nat (P div 2)"
      using P rt word_nat_ops_u64(1) [of P 2] by simp_all
    then have si: "\<not> sint (of_nat ?r :: u64) < - sint ((of_nat P :: u64) div 2)"
      using sint_of_nat_u64 [of ?r] sint_of_nat_u64 [of "P div 2"]
      by (simp add: not_less) (rule order_trans [of _ 0], simp_all)
    have uc: "ucast (of_nat a :: u64) = (of_nat a :: u32)" "ucast ((of_nat a :: u64) - of_nat P) = (of_nat a - of_nat P :: u32)" for a
    proof -
      have u: "ucast (word_of_int k :: u64) = (word_of_int k :: u32)" for k by (intro bit_word_eqI) (auto simp: bit_simps)
      show "ucast (of_nat a :: u64) = (of_nat a :: u32)" "ucast ((of_nat a :: u64) - of_nat P) = (of_nat a - of_nat P :: u32)"
        using u [of "int a"] u [of "int a - int P"] by simp_all
    qed
    have ts: "frame_timestamp f2 = of_nat ?r \<or> frame_timestamp f2 = of_nat ?r - of_nat P"
      unfolding sf(2) hook reconstruct_at_zero using si uc [of ?r] by (simp split: if_split)
    have f28: "length (frame_data f2) = 8" using sf(1) f8 by (simp add: same_content_def)
    from Suc.IH [OF 2(3) _ _ _ f28 rec(1)] r(2,3) Suc.prems(3,4) Cons
    obtain fs where fs: "k3 = min n (length ms)" "mostRecentInterrupTimestamp (driver c') = 0" "length fs = k3" "took ch fs c2 g2 c' g'"
        "\<forall>x \<in> set fs. \<exists>r < P. frame_timestamp x = of_nat r \<or> frame_timestamp x = of_nat r - of_nat P" by (auto simp: 2(2))
    from took_trans [OF 2(1) fs(4)] have "took ch (f2 # fs) c g c' g'" using frame_round_trip [OF f28] by simp
    moreover have "\<forall>x \<in> set (f2 # fs). \<exists>r < P. frame_timestamp x = of_nat r \<or> frame_timestamp x = of_nat r - of_nat P"
      using fs(5) ts rt by auto
    ultimately show ?thesis using fs(1-3) Cons unfolding rec(2) by (intro conjI exI [of _ "f2 # fs"]) auto
  qed
qed

end

context hal_fdcan
begin

text \<open>The parts of the callback: what it leaves in the rings and FIFOs is what the two loops leave.\<close>

lemma callback_parts:
  assumes "CanAbs_ReadAllAvailableFrames hal P 1 its junk (can1 s) (msg_port s) = (k1, c1, g1)"
    "CanAbs_ReadAllAvailableFrames hal P 2 its junk (can2 s) g1 = (k2, c2, g2)"
  shows "RxRingBuffer (can1 (HAL_FDCAN_RxFifo0Callback hal P junk its s)) = RxRingBuffer c1 \<and>
    RxRingBuffer (can2 (HAL_FDCAN_RxFifo0Callback hal P junk its s)) = RxRingBuffer c2 \<and>
    fifo (hfdcan (driver (can1 (HAL_FDCAN_RxFifo0Callback hal P junk its s)))) = fifo (hfdcan (driver c1)) \<and>
    mostRecentInterrupTimestamp (driver (can2 (HAL_FDCAN_RxFifo0Callback hal P junk its s))) = mostRecentInterrupTimestamp (driver c2) \<and>
    (0 < k1 + k2 \<longrightarrow> deferred_pending (HAL_FDCAN_RxFifo0Callback hal P junk its s))"
  using assms clear_flag
  by (simp add: HAL_FDCAN_RxFifo0Callback_def CanAbs_RxNotificationCallback_def CanAbs_ClearRxFifo0IrqIfEmpty_def Let_def)

lemma interrupt_content:
  assumes P: "0 < P" "P \<le> 65536" and G: "G < 4611686018427387904" and its: "its AND FDCAN_IRQ_NOTIFICATION hal \<noteq> 0"
    and c: "ring_ok (RxRingBuffer (can1 s))" "started (hfdcan (driver (can1 s)))" "LastHardwareTimestamp (can1 s) = of_nat L"
      "arrivals_ok hal P G L (fifo (hfdcan (driver (can1 s)))) Ts" "length (frame_data junk) = 8"
  shows "let ms = fifo (hfdcan (driver (can1 s))); k = min 54 (length ms); s' = can1_interrupt hal (of_nat P) junk (of_nat G) its s in
    fifo (hfdcan (driver (can1 s'))) = drop 54 ms \<and> (0 < k \<longrightarrow> deferred_pending s') \<and>
    (\<exists>fs. length fs = k \<and> ring_frames (RxRingBuffer (can1 s')) = take 640 (ring_frames (RxRingBuffer (can1 s)) @ fs) \<and>
      (\<forall>i < k. frame_channel (fs ! i) = 1 \<and> rx_sequence (fs ! i) = SequenceIndex (can1 s) + of_nat (Suc i) \<and>
        (\<exists>n. frame_of_message hal n (ms ! i) (Ts ! i) (fs ! i))))"
proof -
  let ?s = "s\<lparr>can1 := (can1 s)\<lparr>driver := FDCAN_IRQHandler (of_nat G) (driver (can1 s))\<rparr>\<rparr>"
  obtain k1 c1 g1 where 1: "CanAbs_ReadAllAvailableFrames hal (of_nat P) 1 its junk (can1 ?s) (msg_port ?s) = (k1, c1, g1)"
    by (metis prod_cases3)
  obtain k2 c2 g2 where 2: "CanAbs_ReadAllAvailableFrames hal (of_nat P) 2 its junk (can2 ?s) g1 = (k2, c2, g2)" by (metis prod_cases3)
  obtain c0 g0 h where l: "CanAbs_ReadAllAvailableFrames hal (of_nat P) 1 its junk (can1 ?s) (msg_port ?s) = read_frames hal (of_nat P) 1 its 54 junk c0 g0"
      "RxRingBuffer c0 = RxRingBuffer (can1 ?s)" "SequenceIndex c0 = SequenceIndex (can1 ?s)"
      "LastHardwareTimestamp c0 = LastHardwareTimestamp (can1 ?s)" "driver c0 = (driver (can1 ?s))\<lparr>hfdcan := h\<rparr>"
      "fifo h = fifo (hfdcan (driver (can1 ?s)))" "started h = started (hfdcan (driver (can1 ?s)))" "counted 0 0 (msg_port ?s) g0"
    using read_all_loop by blast
  have fh: "fifo h = fifo (hfdcan (driver (can1 s)))" using l(6) by (simp add: FDCAN_IRQHandler_def)
  have c0: "ring_ok (RxRingBuffer c0)" "started (hfdcan (driver c0))" "mostRecentInterrupTimestamp (driver c0) = of_nat G"
    "LastHardwareTimestamp c0 = of_nat L" "arrivals_ok hal P G L (fifo (hfdcan (driver c0))) Ts"
    using c l(2,4,5,7) fh by (simp_all add: FDCAN_IRQHandler_def)
  from read_frames_content [OF P G its c0 c(5), of 1 54 g0 k1 c1 g1] 1 l(1,5) fh
  obtain fs where fs: "k1 = min 54 (length (fifo (hfdcan (driver (can1 s)))))"
      "fifo (hfdcan (driver c1)) = drop 54 (fifo (hfdcan (driver (can1 s))))" "length fs = k1" "took 1 fs c0 g0 c1 g1"
      "\<forall>i < k1. \<exists>b. frame_of_message hal b (fifo (hfdcan (driver (can1 s))) ! i) (Ts ! i) (fs ! i)" by auto
  have t: "map rx_sequence fs = map (\<lambda>i. SequenceIndex c0 + of_nat i) [1..<Suc (length fs)]"
    "list_all (\<lambda>f. frame_channel f = 1) fs" "ring_frames (RxRingBuffer c1) = take 640 (ring_frames (RxRingBuffer c0) @ fs)"
    using fs(4) unfolding took_def by blast+
  have "frame_channel (fs ! i) = 1 \<and> rx_sequence (fs ! i) = SequenceIndex (can1 s) + of_nat (Suc i)" if "i < k1" for i
  proof -
    have "map rx_sequence fs ! i = map (\<lambda>i. SequenceIndex c0 + of_nat i) [1..<Suc (length fs)] ! i" using t(1) by simp
    then show ?thesis using that t(2) fs(3) l(3) by (simp add: list_all_length del: upt_Suc)
  qed
  then show ?thesis using callback_parts [OF 1 2] fs t(3) l(2) unfolding can1_interrupt_def Let_def
    by (intro conjI exI [of _ fs]) auto
qed

lemma drain_junk:
  assumes f: "fifo (hfdcan (driver (can1 s))) \<noteq> []" "ring_ok (RxRingBuffer (can1 s))" "length (frame_data junk) = 8"
  shows "let s' = CanAbs_Drain hal P junk s in fifo (hfdcan (driver (can1 s'))) = fifo (hfdcan (driver (can1 s))) \<and>
    SequenceIndex (can1 s') = SequenceIndex (can1 s) + 54 \<and>
    (\<exists>fs. length fs = 54 \<and> (\<forall>x \<in> set fs. same_content junk x) \<and>
      ring_frames (RxRingBuffer (can1 s')) = take 640 (ring_frames (RxRingBuffer (can1 s)) @ fs))"
proof -
  obtain k1 c1 g1 where 1: "CanAbs_ReadAllAvailableFrames hal P 1 0 junk (can1 s) (msg_port s) = (k1, c1, g1)" by (metis prod_cases3)
  obtain k2 c2 g2 where 2: "CanAbs_ReadAllAvailableFrames hal P 2 0 junk (can2 s) g1 = (k2, c2, g2)" by (metis prod_cases3)
  obtain c0 g0 h where l: "CanAbs_ReadAllAvailableFrames hal P 1 0 junk (can1 s) (msg_port s) = read_frames hal P 1 0 54 junk c0 g0"
      "RxRingBuffer c0 = RxRingBuffer (can1 s)" "SequenceIndex c0 = SequenceIndex (can1 s)"
      "driver c0 = (driver (can1 s))\<lparr>hfdcan := h\<rparr>" "fifo h = fifo (hfdcan (driver (can1 s)))"
    using read_all_loop by blast
  have "fifo (hfdcan (driver c0)) \<noteq> []" "ring_ok (RxRingBuffer c0)" using f l by simp_all
  from read_frames_nothing [OF _ this f(3), of 0 P 1 54 g0 k1 c1 g1] 1 l(1)
  obtain fs where fs: "driver c1 = driver c0" "length fs = 54" "took 1 fs c0 g0 c1 g1" "\<forall>x \<in> set fs. same_content junk x" by auto
  have t: "SequenceIndex c1 = SequenceIndex c0 + of_nat (length fs)" "ring_frames (RxRingBuffer c1) = take 640 (ring_frames (RxRingBuffer c0) @ fs)"
    using fs(3) unfolding took_def by blast+
  have "can1 (CanAbs_Drain hal P junk s) = c1"
    using 1 2 by (simp add: CanAbs_Drain_def CanAbs_RxNotificationCallback_def Let_def)
  then show ?thesis using fs(1,2,4) t l(2-5) unfolding Let_def by (intro conjI exI [of _ fs]) simp_all
qed

lemma other_channel:
  assumes P: "0 < P" "P \<le> 65536" and its: "its AND FDCAN_IRQ_NOTIFICATION hal \<noteq> 0"
    and c: "ring_ok (RxRingBuffer (can2 s))" "started (hfdcan (driver (can2 s)))" "mostRecentInterrupTimestamp (driver (can2 s)) = 0"
      "\<forall>m \<in> set (fifo (hfdcan (driver (can2 s)))). unat (RxTimestamp (fst m)) < P \<and> (\<exists>n \<le> 8. carries hal n m)" "length (frame_data junk) = 8"
  shows "let s' = can1_interrupt hal (of_nat P) junk t its s in mostRecentInterrupTimestamp (driver (can2 s')) = 0 \<and>
    (\<exists>fs. length fs = min 54 (length (fifo (hfdcan (driver (can2 s))))) \<and>
      ring_frames (RxRingBuffer (can2 s')) = take 640 (ring_frames (RxRingBuffer (can2 s)) @ fs) \<and>
      (\<forall>x \<in> set fs. \<exists>r < P. frame_timestamp x = of_nat r \<or> frame_timestamp x = of_nat r - of_nat P))"
proof -
  let ?s = "s\<lparr>can1 := (can1 s)\<lparr>driver := FDCAN_IRQHandler t (driver (can1 s))\<rparr>\<rparr>"
  obtain k1 c1 g1 where 1: "CanAbs_ReadAllAvailableFrames hal (of_nat P) 1 its junk (can1 ?s) (msg_port ?s) = (k1, c1, g1)"
    by (metis prod_cases3)
  obtain k2 c2 g2 where 2: "CanAbs_ReadAllAvailableFrames hal (of_nat P) 2 its junk (can2 ?s) g1 = (k2, c2, g2)" by (metis prod_cases3)
  obtain c0 g0 h where l: "CanAbs_ReadAllAvailableFrames hal (of_nat P) 2 its junk (can2 ?s) g1 = read_frames hal (of_nat P) 2 its 54 junk c0 g0"
      "RxRingBuffer c0 = RxRingBuffer (can2 ?s)" "driver c0 = (driver (can2 ?s))\<lparr>hfdcan := h\<rparr>"
      "fifo h = fifo (hfdcan (driver (can2 ?s)))" "started h = started (hfdcan (driver (can2 ?s)))"
    using read_all_loop by blast
  have c0: "ring_ok (RxRingBuffer c0)" "started (hfdcan (driver c0))" "mostRecentInterrupTimestamp (driver c0) = 0"
    "\<forall>m \<in> set (fifo (hfdcan (driver c0))). unat (RxTimestamp (fst m)) < P \<and> (\<exists>n \<le> 8. carries hal n m)"
    using c l(2-5) by simp_all
  from read_frames_zero_time [OF its P c0 c(5), of 2 54 g0 k2 c2 g2] 2 l(1,3,4)
  obtain fs where fs: "mostRecentInterrupTimestamp (driver c2) = 0" "length fs = min 54 (length (fifo (hfdcan (driver (can2 s)))))" "took 2 fs c0 g0 c2 g2"
      "\<forall>x \<in> set fs. \<exists>r < P. frame_timestamp x = of_nat r \<or> frame_timestamp x = of_nat r - of_nat P" by auto
  have "ring_frames (RxRingBuffer c2) = take 640 (ring_frames (RxRingBuffer c0) @ fs)" using fs(3) unfolding took_def by blast
  then show ?thesis using callback_parts [OF 1 2] fs l(2) unfolding can1_interrupt_def Let_def
    by (intro conjI exI [of _ fs]) simp_all
qed

end

section \<open>Sample state\<close>

definition sample_frame :: FDCAN_ClassicFrameType where
  "sample_frame = zero_frame\<lparr>frame_id := 0x123\<rparr>"

definition sample_message :: "FDCAN_RxHeaderTypeDef \<times> bytes" where
  "sample_message = (stub_header\<lparr>Identifier := 0x321, DataLength := 2, RxTimestamp := 5\<rparr>, [7, 9])"

definition sample_chan :: "stub_fdcan can_chan" where
  "sample_chan = \<lparr>driver = sample_dev\<lparr>hfdcan := \<lparr>stub_started = True, stub_fifo = [sample_message], stub_error = 0\<rparr>\<rparr>,
     RxRingBuffer = rx_ring_boot, LastHardwareTimestamp = 0, HwHighWatermark = 0, RxHighWater = 0,
     FdcanHealth = \<lparr>protocol_status_latched = 0, error_counter_latched = 0, rx_fifo0_status_latched = 0,
      interrupt_flags_latched = 0, active_error_event_ir_flags = 0, rx_fifo0_lost_active = 0,
      rx_fifo0_lost_events = 0, protocol_error_events = 0, error_warning_events = 0,
      error_passive_events = 0, bus_off_events = 0\<rparr>, SequenceIndex = 0\<rparr>"

definition sample_can :: "(stub_fdcan, PageType list) can_state" where
  "sample_can = \<lparr>can1 = sample_chan, can2 = sample_chan, msg_port = fdcan_msg_port_init stub_mbuf (port_boot []),
     deferred_pending = False, irq1_pending = False, irq2_pending = False\<rparr>"

lemma sample_can_simps:
  "take 64 (stub_fifo (hfdcan (driver (can1 sample_can)))) = [sample_message]"
  "take 64 (stub_fifo (hfdcan (driver (can2 sample_can)))) = [sample_message]"
  "stub_started (hfdcan (driver (can1 sample_can)))" "stub_started (hfdcan (driver (can2 sample_can)))"
  "RxRingBuffer (can1 sample_can) = rx_ring_boot" "RxRingBuffer (can2 sample_can) = rx_ring_boot"
  "SequenceIndex (can1 sample_can) = 0" "SequenceIndex (can2 sample_can) = 0" "LastHardwareTimestamp (can1 sample_can) = 0"
  "mostRecentInterrupTimestamp (driver (can2 sample_can)) = 0"
  "msg_port sample_can = fdcan_msg_port_init stub_mbuf (port_boot [])"
  "length (frame_data sample_frame) = 8" "2 AND FDCAN_IRQ_NOTIFICATION stub_hal \<noteq> 0"
  "carries stub_hal 2 sample_message" "RxTimestamp (fst sample_message) = 5"
  by (simp_all add: sample_can_def sample_chan_def sample_dev_def sample_frame_def zero_frame_def sample_message_def
      carries_def stub_hal_def stub_header_def FDCAN_IRQ_NOTIFICATION_def)

section \<open>Properties\<close>

text \<open>From start-up, through any interleaving of hardware changes, interrupts of both controllers, drains,
  polls, rounds of the bridge task, reads and flushes: the frames of each channel that were read by
  the logging task, wait in the message port or wait in the ring of the channel are in the order of
  their numbers without repetition, every number was given once, and the frames that are in none of
  these places are exactly as many as the two drop counters say, with what they showed when they were
  reset; the frame counter is in the same sense the number of frames received.\<close>

theorem frames_accounted:
  assumes "hal_fdcan hal started fifo" "message_buffer ops valid queue" "can_reach hal started fifo ops P a b s out"
  shows "let d = out @ waiting queue (msg_port s); r1 = ring_frames (RxRingBuffer (can1 s)); r2 = ring_frames (RxRingBuffer (can2 s));
      k = length d + length r1 + length r2; cs = port_counters (msg_port s) in
    \<exists>n1 n2. subseq (map rx_sequence (of_channel 1 d @ r1)) (map of_nat [1..<Suc n1]) \<and>
      subseq (map rx_sequence (of_channel 2 d @ r2)) (map of_nat [1..<Suc n2]) \<and>
      list_all (\<lambda>f. frame_channel f = 1 \<or> frame_channel f = 2) d \<and> k \<le> n1 + n2 \<and>
      SequenceIndex (can1 s) = of_nat n1 \<and> SequenceIndex (can2 s) = of_nat n2 \<and>
      CanAbs_FrameCount cs + a = of_nat (n1 + n2) \<and>
      CanAbs_FrameDropCount cs + FcdanMsgPort_FrameDropCount cs + b = of_nat (n1 + n2 - k)"
proof -
  obtain n1 n2 where i: "can_inv a b n1 n2 s (out @ waiting queue (msg_port s))"
    using can_path.path_accounts [OF can_path.intro [OF assms(1,2)] assms(3)] by blast
  show ?thesis using i unfolding Let_def can_inv_def chan_inv_def kept_frames_def
    by (elim conjE, intro exI [of _ n1] exI [of _ n2] conjI) assumption+
qed

text \<open>One interrupt and one round of the bridge task.\<close>

definition sample_round_can :: "(stub_fdcan, PageType list) can_state" where
  "sample_round_can = CanBridgeTask_round stub_mbuf (can1_interrupt stub_hal 65536 sample_frame 65600 2 sample_can)"

theorem frames_accounted_witness:
  "let d = [] @ waiting (\<lambda>b. b) (msg_port sample_round_can); r1 = ring_frames (RxRingBuffer (can1 sample_round_can));
      r2 = ring_frames (RxRingBuffer (can2 sample_round_can));
      k = length d + length r1 + length r2; cs = port_counters (msg_port sample_round_can) in
    \<exists>n1 n2. subseq (map rx_sequence (of_channel 1 d @ r1)) (map of_nat [1..<Suc n1]) \<and>
      subseq (map rx_sequence (of_channel 2 d @ r2)) (map of_nat [1..<Suc n2]) \<and>
      list_all (\<lambda>f. frame_channel f = 1 \<or> frame_channel f = 2) d \<and> k \<le> n1 + n2 \<and>
      SequenceIndex (can1 sample_round_can) = of_nat n1 \<and> SequenceIndex (can2 sample_round_can) = of_nat n2 \<and>
      CanAbs_FrameCount cs + 0 = of_nat (n1 + n2) \<and>
      CanAbs_FrameDropCount cs + FcdanMsgPort_FrameDropCount cs + 0 = of_nat (n1 + n2 - k)"
proof -
  have "can_reach stub_hal stub_started (\<lambda>h. take 64 (stub_fifo h)) stub_mbuf 65536 0 0 sample_can []"
    by (rule can_reach.boot) (simp_all add: sample_can_simps)
  then have "can_reach stub_hal stub_started (\<lambda>h. take 64 (stub_fifo h)) stub_mbuf 65536 0 0 sample_round_can []"
    unfolding sample_round_can_def
    by (intro can_reach.bridge can_reach.interrupt1) (simp_all add: sample_can_simps readable_def)
  from frames_accounted [OF stub_hal.hal_fdcan_axioms stub_mbuf.message_buffer_axioms this] show ?thesis .
qed

text \<open>The interrupt of a controller stores what its FIFO holds: the oldest messages, at most 54, leave the
  FIFO and enter the ring of the channel in order, as far as there is room for 640, each with its
  identifier, flags, length and bytes, with the next numbers of the channel, and with the time of its
  arrival when this is less than half a timer period from the time of the interrupt; when there was
  one the bridge task is notified.\<close>

theorem interrupt_stores_frames:
  assumes "hal_fdcan hal started fifo" "0 < P" "P \<le> 65536" "G < 4611686018427387904" "its AND FDCAN_IRQ_NOTIFICATION hal \<noteq> 0"
    "ring_ok (RxRingBuffer (can1 s))" "started (hfdcan (driver (can1 s)))" "LastHardwareTimestamp (can1 s) = of_nat L"
    "arrivals_ok hal P G L (fifo (hfdcan (driver (can1 s)))) Ts" "length (frame_data junk) = 8"
  shows "let ms = fifo (hfdcan (driver (can1 s))); k = min 54 (length ms); s' = can1_interrupt hal (of_nat P) junk (of_nat G) its s in
    fifo (hfdcan (driver (can1 s'))) = drop 54 ms \<and> (0 < k \<longrightarrow> deferred_pending s') \<and>
    (\<exists>fs. length fs = k \<and> ring_frames (RxRingBuffer (can1 s')) = take 640 (ring_frames (RxRingBuffer (can1 s)) @ fs) \<and>
      (\<forall>i < k. frame_channel (fs ! i) = 1 \<and> rx_sequence (fs ! i) = SequenceIndex (can1 s) + of_nat (Suc i) \<and>
        (\<exists>n. frame_of_message hal n (ms ! i) (Ts ! i) (fs ! i))))"
  using hal_fdcan.interrupt_content [OF assms] .

text \<open>A message with the time stamp 5 that arrived at 65541, read at 65600.\<close>

theorem interrupt_stores_frames_witness:
  "let rs = ring_frames (RxRingBuffer (can1 (can1_interrupt stub_hal (of_nat 65536) sample_frame (of_nat 65600) 2 sample_can)))
   in length rs = 1 \<and> rx_sequence (rs ! 0) = 1 \<and> (\<exists>n. frame_of_message stub_hal n sample_message 65541 (rs ! 0))"
proof -
  have "arrivals_ok stub_hal 65536 65600 0 [sample_message] [65541]"
    using sample_can_simps(14,15) by (auto simp: arrivals_ok_def intro!: exI [of _ 2])
  with interrupt_stores_frames [OF stub_hal.hal_fdcan_axioms, of 65536 65600 2 sample_can 0 "[65541]" sample_frame]
  show ?thesis by (auto simp: sample_can_simps ring_boot_ok Let_def)
qed

text \<open>C34. Draining a channel, which the logger does when it stops, reads nothing: the FIFO keeps its messages,
  and 54 copies of what the uninitialised local variable holds are stored as received frames, with
  new numbers, as far as the ring has room.\<close>

theorem drain_stores_junk:
  assumes "hal_fdcan hal started fifo" "fifo (hfdcan (driver (can1 s))) \<noteq> []" "ring_ok (RxRingBuffer (can1 s))" "length (frame_data junk) = 8"
  shows "let s' = CanAbs_Drain hal P junk s in fifo (hfdcan (driver (can1 s'))) = fifo (hfdcan (driver (can1 s))) \<and>
    SequenceIndex (can1 s') = SequenceIndex (can1 s) + 54 \<and>
    (\<exists>fs. length fs = 54 \<and> (\<forall>x \<in> set fs. same_content junk x) \<and>
      ring_frames (RxRingBuffer (can1 s')) = take 640 (ring_frames (RxRingBuffer (can1 s)) @ fs))"
  using hal_fdcan.drain_junk [OF assms] .

theorem drain_stores_junk_witness:
  "SequenceIndex (can1 (CanAbs_Drain stub_hal 65536 sample_frame sample_can)) = 54 \<and>
   (\<exists>fs. length fs = 54 \<and> (\<forall>x \<in> set fs. frame_id x = 0x123) \<and>
     ring_frames (RxRingBuffer (can1 (CanAbs_Drain stub_hal 65536 sample_frame sample_can))) = fs)"
proof -
  from drain_stores_junk [OF stub_hal.hal_fdcan_axioms, of sample_can sample_frame 65536]
  obtain fs where "SequenceIndex (can1 (CanAbs_Drain stub_hal 65536 sample_frame sample_can)) = 54"
      "length fs = 54" "\<forall>x \<in> set fs. same_content sample_frame x"
      "ring_frames (RxRingBuffer (can1 (CanAbs_Drain stub_hal 65536 sample_frame sample_can))) = take 640 fs"
    by (auto simp: sample_can_simps ring_boot_ok Let_def)
  then show ?thesis by (simp add: same_content_def sample_frame_def)
qed

text \<open>C35. The interrupt of the first controller also reads the frames of the second, but with the time at
  which the second controller last interrupted itself.  When it never did, its frames get times
  within one timer period of 0, at whatever time they arrived, and the next interrupt finds it so
  again.\<close>

theorem other_channel_time_frozen:
  assumes "hal_fdcan hal started fifo" "0 < P" "P \<le> 65536" "its AND FDCAN_IRQ_NOTIFICATION hal \<noteq> 0"
    "ring_ok (RxRingBuffer (can2 s))" "started (hfdcan (driver (can2 s)))" "mostRecentInterrupTimestamp (driver (can2 s)) = 0"
    "\<forall>m \<in> set (fifo (hfdcan (driver (can2 s)))). unat (RxTimestamp (fst m)) < P \<and> (\<exists>n \<le> 8. carries hal n m)" "length (frame_data junk) = 8"
  shows "let s' = can1_interrupt hal (of_nat P) junk t its s in mostRecentInterrupTimestamp (driver (can2 s')) = 0 \<and>
    (\<exists>fs. length fs = min 54 (length (fifo (hfdcan (driver (can2 s))))) \<and>
      ring_frames (RxRingBuffer (can2 s')) = take 640 (ring_frames (RxRingBuffer (can2 s)) @ fs) \<and>
      (\<forall>x \<in> set fs. \<exists>r < P. frame_timestamp x = of_nat r \<or> frame_timestamp x = of_nat r - of_nat P))"
  using hal_fdcan.other_channel [OF assms] .

theorem other_channel_time_frozen_witness:
  "let rs = ring_frames (RxRingBuffer (can2 (can1_interrupt stub_hal (of_nat 65536) sample_frame 1000000000 2 sample_can)))
   in length rs = 1 \<and> (\<exists>r < 65536. frame_timestamp (rs ! 0) = of_nat r \<or> frame_timestamp (rs ! 0) = of_nat r - of_nat 65536)"
proof -
  have "\<exists>n \<le> 8. carries stub_hal n sample_message" using sample_can_simps(14) by (intro exI [of _ 2]) simp
  with other_channel_time_frozen [OF stub_hal.hal_fdcan_axioms, of 65536 2 sample_can sample_frame 1000000000]
  obtain fs where fs: "length fs = 1" "ring_frames (RxRingBuffer (can2 (can1_interrupt stub_hal (of_nat 65536) sample_frame 1000000000 2 sample_can))) = take 640 fs"
      "\<forall>x \<in> set fs. \<exists>r < 65536. frame_timestamp x = of_nat r \<or> frame_timestamp x = of_nat r - of_nat 65536"
    by (simp add: sample_can_simps ring_boot_ok Let_def del: of_nat_numeral) (elim conjE exE, simp del: of_nat_numeral)
  then have "fs ! 0 \<in> set fs" "take 640 fs = fs" by simp_all
  then show ?thesis using fs unfolding Let_def by metis
qed

text \<open>The bytes of a message are copied into a frame by its length code without a look at the size of the
  array: a code for more than eight bytes, which a frame on the bus can carry, writes as many bytes
  over the eight of the array.\<close>

theorem long_code_overflows:
  assumes "hal_fdcan hal started fifo" "n \<in> {0, 1, 2, 3, 4, 5, 6, 7, 8, 12, 16, 20, 24, 32, 48, 64}" "carries hal n m"
    "length (frame_data f) = 8"
  shows "length (frame_data (decode_frame hal (fst m) (snd m) f)) = max 8 n"
  using hal_fdcan.decode_length(2) [OF assms(1-3), of f] assms(3,4) by (simp add: carries_def)

theorem long_code_overflows_witness:
  "length (frame_data (decode_frame stub_hal (stub_header\<lparr>DataLength := 64\<rparr>) (replicate 64 1) sample_frame)) = 64"
proof -
  have "length (frame_data (decode_frame stub_hal (fst (stub_header\<lparr>DataLength := 64\<rparr>, replicate 64 1)) (snd (stub_header\<lparr>DataLength := 64\<rparr>, replicate 64 1)) sample_frame)) = max 8 64"
    using long_code_overflows [OF stub_hal.hal_fdcan_axioms, of 64 "(stub_header\<lparr>DataLength := 64\<rparr>, replicate 64 1)" sample_frame]
    by (simp add: carries_def stub_hal_def sample_frame_def zero_frame_def)
  then show ?thesis by simp
qed
end
