(* ===== verification/Timer.thy ===== *)
theory Timer
  imports Prelude
begin

text \<open>
  \<open>platform/drivers/timer/timer.c\<close>: the search of prescaler and period, the set-up of the two timers,
  and reading the counter with the copy of its update flag.  \<open>'t\<close> is the state of a timer with its
  handle; the HAL, the clock tree and the register masks are the record \<open>tim_hal\<close>.  The lemmas say
  that the search is exact and takes the longest period.
\<close>

section \<open>The HAL\<close>

datatype TIM_TypeDef = TIM1 | TIM2 | TIM3 | TIM4 | TIM5 | TIM8 | TIM15 | TIM16 | TIM17

record TIM_Base_InitTypeDef =
  Init_Prescaler :: u32
  Init_CounterMode :: u32
  Init_Period :: u32
  ClockDivision :: u32
  RepetitionCounter :: u32

record 't tim_hal =
  APB1CLKDivider :: u32
  APB2CLKDivider :: u32
  RCC_HCLK_DIV1 :: u32
  HAL_RCC_GetPCLK1Freq :: u32
  HAL_RCC_GetPCLK2Freq :: u32
  TIM_COUNTERMODE_UP :: u32
  HAL_TIM_Base_Init :: "TIM_TypeDef \<Rightarrow> TIM_Base_InitTypeDef \<Rightarrow> 't \<Rightarrow> bool \<times> 't"
  HAL_TIM_UIFREMAP_ENABLE :: "'t \<Rightarrow> 't"
  HAL_TIM_Base_Start_IT :: "'t \<Rightarrow> bool \<times> 't"
  HAL_TIM_GetCounter :: "'t \<Rightarrow> u32"
  HAL_TIM_GetAutoreload :: "'t \<Rightarrow> u32"
  HAL_TIM_GET_UIFCPY :: "u32 \<Rightarrow> bool"
  reg_CR1 :: "'t \<Rightarrow> u32"
  TIM_CR1_UIFREMAP :: u32
  TIM_CNT_UIFCPY :: u32
  TIM_UPDATE_PENDING :: "'t \<Rightarrow> bool"
  TIM_CLEAR_UPDATE :: "'t \<Rightarrow> 't"

section \<open>Clock and period\<close>

definition GetTimerMaxARR :: "TIM_TypeDef \<Rightarrow> u32" where
  "GetTimerMaxARR htim = (if htim = TIM2 \<or> htim = TIM5 then 0xFFFFFFFF else 0xFFFF)"

definition GetTimerInputClock :: "'t tim_hal \<Rightarrow> TIM_TypeDef \<Rightarrow> u32" where
  "GetTimerInputClock hal htim =
     (if htim = TIM1 \<or> htim = TIM8 \<or> htim = TIM15 \<or> htim = TIM16 \<or> htim = TIM17
      then let pclk = HAL_RCC_GetPCLK2Freq hal in if APB2CLKDivider hal \<noteq> RCC_HCLK_DIV1 hal then pclk * 2 else pclk
      else let pclk = HAL_RCC_GetPCLK1Freq hal in if APB1CLKDivider hal \<noteq> RCC_HCLK_DIV1 hal then pclk * 2 else pclk)"

text \<open>The loop over \<open>arr\<close>, downwards: result, prescaler and period.  The prescaler keeps the last value
  tried when nothing fits.\<close>

fun arr_search :: "u64 \<Rightarrow> u32 \<Rightarrow> nat \<Rightarrow> u8 \<times> u32 \<times> u32" where
  "arr_search total_counts prescaler 0 = (1, prescaler, 0)"
| "arr_search total_counts prescaler (Suc n) =
     (let arr = of_nat (Suc n) :: u32; divisor = ucast arr + 1
      in if total_counts mod divisor \<noteq> 0 then arr_search total_counts prescaler n
         else
           let prescaler = ucast (total_counts div divisor - 1) :: u32
           in if ucast prescaler + 1 = (0 :: u64) \<or> ucast prescaler + 1 > (0x10000 :: u64)
              then arr_search total_counts prescaler n
              else (0, prescaler, arr))"

text \<open>The two results are passed by reference; both callers pass them.\<close>

definition ComputePrescalerAndARR :: "u32 \<Rightarrow> u64 \<Rightarrow> u32 \<Rightarrow> u32 \<times> u32 \<Rightarrow> u8 \<times> u32 \<times> u32" where
  "ComputePrescalerAndARR timer_clk target_freq max_arr out =
     (if target_freq = 0 then (1, out)
      else let total_counts = (ucast timer_clk * 1000) div target_freq in arr_search total_counts 0 (unat max_arr))"

section \<open>Set-up\<close>

definition BASE_CONSTANT :: u64 where [simp]: "BASE_CONSTANT = 10000000000"

text \<open>The loop that looks for the lowest frequency of the resolution: \<open>freq\<close> and \<open>Arr\<close>.\<close>

fun lowest_freq :: "u32 \<Rightarrow> nat \<Rightarrow> u64 \<times> u32" where
  "lowest_freq resolution 0 = (0, 0)"
| "lowest_freq resolution (Suc n) =
     (let Arr = of_nat (Suc n) :: u32; freq_int = BASE_CONSTANT div ucast (resolution * (Arr + 1))
      in if BASE_CONSTANT = freq_int * ucast resolution * ucast (Arr + 1) then (freq_int div 10, Arr)
         else lowest_freq resolution n)"

definition TIM_ErrorHandlerHook :: "'t \<Rightarrow> 't" where
  "TIM_ErrorHandlerHook t = t"

definition tim_base :: "'t tim_hal \<Rightarrow> u32 \<Rightarrow> u32 \<Rightarrow> TIM_Base_InitTypeDef" where
  "tim_base hal Prescaler Arr =
     \<lparr>Init_Prescaler = Prescaler, Init_CounterMode = TIM_COUNTERMODE_UP hal, Init_Period = Arr, ClockDivision = 0, RepetitionCounter = 0\<rparr>"

definition TIMx_Init :: "'t tim_hal \<Rightarrow> u32 \<Rightarrow> 't \<Rightarrow> u8 \<times> 't" where
  "TIMx_Init hal resolution t =
     (let InputClock = GetTimerInputClock hal TIM3; MaxArr = GetTimerMaxARR TIM3;
          (freq, Arr) = lowest_freq resolution (unat MaxArr)
      in if Arr = 0 then (1, TIM_ErrorHandlerHook t)
         else
           case ComputePrescalerAndARR InputClock freq MaxArr (0, Arr) of (res, Prescaler, Arr) \<Rightarrow>
             if res \<noteq> 0 then (res, t)
             else
               let t = (if resolution \<noteq> (InputClock div (1 + Prescaler)) div 1000000 then TIM_ErrorHandlerHook t else t);
                   (ok, t) = HAL_TIM_Base_Init hal TIM3 (tim_base hal Prescaler Arr) t;
                   res = (if \<not> ok then 1 else res);
                   t = HAL_TIM_UIFREMAP_ENABLE hal t;
                   (ok, t) = HAL_TIM_Base_Start_IT hal t;
                   res = (if \<not> ok then 2 else res)
               in (res, t))"

definition TIM_HAL_Init :: "'t tim_hal \<Rightarrow> u32 \<Rightarrow> 't \<Rightarrow> u8 \<times> 't" where
  "TIM_HAL_Init hal freq t =
     (let InputClock = GetTimerInputClock hal TIM4; MaxArr = GetTimerMaxARR TIM4
      in case ComputePrescalerAndARR InputClock (ucast freq) MaxArr (0, 0) of (res, Prescaler, Arr) \<Rightarrow>
           if res \<noteq> 0 then (res, t)
           else
             let (ok, t) = HAL_TIM_Base_Init hal TIM4 (tim_base hal Prescaler Arr) t;
                 res = (if \<not> ok then 1 else res);
                 (ok, t) = HAL_TIM_Base_Start_IT hal t;
                 res = (if \<not> ok then 2 else res)
             in (res, t))"

section \<open>Reading\<close>

definition TIM_GetCounterValueAndUpdateInterruptFlag :: "'t tim_hal \<Rightarrow> 't \<Rightarrow> u32 \<times> u32" where
  "TIM_GetCounterValueAndUpdateInterruptFlag hal t =
     (let CntRaw = HAL_TIM_GetCounter hal t
      in if reg_CR1 hal t AND TIM_CR1_UIFREMAP hal \<noteq> 0
         then (CntRaw AND NOT (TIM_CNT_UIFCPY hal), if HAL_TIM_GET_UIFCPY hal CntRaw then 1 else 0)
         else (CntRaw, 0))"

definition TIM_GetArrValue :: "'t tim_hal \<Rightarrow> 't \<Rightarrow> u16" where
  "TIM_GetArrValue hal t = ucast (HAL_TIM_GetAutoreload hal t)"

section \<open>The search is exact\<close>

text \<open>\<open>fits T a\<close>: a period of \<open>a + 1\<close> counts and some prescaler divide the clock into \<open>T\<close> counts.\<close>

definition fits :: "nat \<Rightarrow> nat \<Rightarrow> bool" where
  "fits T a \<longleftrightarrow> 0 < a \<and> (\<exists>p. 0 < p \<and> p \<le> 65536 \<and> Suc a * p = T)"

lemma fits_iff: "fits T a \<longleftrightarrow> 0 < a \<and> T mod Suc a = 0 \<and> 0 < T div Suc a \<and> T div Suc a \<le> 65536"
proof
  assume "fits T a"
  then show "0 < a \<and> T mod Suc a = 0 \<and> 0 < T div Suc a \<and> T div Suc a \<le> 65536"
    by (auto simp: fits_def simp del: mult_Suc)
next
  assume a: "0 < a \<and> T mod Suc a = 0 \<and> 0 < T div Suc a \<and> T div Suc a \<le> 65536"
  then have "Suc a * (T div Suc a) = T" by (metis mod_0_imp_dvd dvd_mult_div_cancel)
  with a show "fits T a" unfolding fits_def by blast
qed

lemma ucast_inc: "k < 4294967296 \<Longrightarrow> ucast (of_nat k :: u32) + 1 = (of_nat (Suc k) :: u64)"
  by (simp add: word_unat_eq_iff unsigned_ucast_eq unat_word_ariths unat_of_nat take_bit_nat_eq_self)

lemma search_step:
  assumes T: "unat counts < 4294967296" and n: "Suc n < 4294967296"
  shows "arr_search counts p (Suc n) =
    (if fits (unat counts) (Suc n) then (0, of_nat (unat counts div Suc (Suc n) - 1), of_nat (Suc n))
     else arr_search counts (if unat counts mod Suc (Suc n) = 0 then ucast (counts div of_nat (Suc (Suc n)) - 1) else p) n)"
proof -
  have a: "ucast (of_nat (Suc n) :: u32) + 1 = (of_nat (Suc (Suc n)) :: u64)" by (rule ucast_inc) (rule n)
  have u: "unat (of_nat (Suc (Suc n)) :: u64) = Suc (Suc n)" by (subst unat_of_nat) (use n in simp)
  let ?q = "unat counts div Suc (Suc n)"
  have q: "?q < 4294967296" using T div_le_dividend [of "unat counts" "Suc (Suc n)"] by linarith
  have m: "counts mod of_nat (Suc (Suc n)) = 0 \<longleftrightarrow> unat counts mod Suc (Suc n) = 0"
    by (simp only: word_unat_eq_iff unat_mod u unat_0)
  have d: "counts div of_nat (Suc (Suc n)) = of_nat ?q"
    by (simp only: word_unat_eq_iff unat_div u) (use q in \<open>simp add: unat_of_nat take_bit_nat_eq_self\<close>)
  let ?p = "ucast (of_nat ?q - 1 :: u64) :: u32"
  have ok: "ucast ?p + 1 = (0 :: u64) \<or> ucast ?p + 1 > (0x10000 :: u64) \<longleftrightarrow> \<not> (0 < ?q \<and> ?q \<le> 65536)"
    "0 < ?q \<Longrightarrow> ?p = of_nat (?q - 1)"
  proof -
    show p: "0 < ?q \<Longrightarrow> ?p = of_nat (?q - 1)"
    proof -
      assume "0 < ?q"
      then have "of_nat ?q - 1 = (of_nat (?q - 1) :: u64)" by (simp add: of_nat_diff)
      then show ?thesis by (simp only:) (intro bit_word_eqI, auto simp: bit_simps)
    qed
    show "ucast ?p + 1 = (0 :: u64) \<or> ucast ?p + 1 > (0x10000 :: u64) \<longleftrightarrow> \<not> (0 < ?q \<and> ?q \<le> 65536)"
    proof (cases "?q = 0")
      case True
      moreover have "ucast (- 1 :: u64) = (0xFFFFFFFF :: u32)" by code_simp
      ultimately have "?p = 0xFFFFFFFF" by (simp only: True) simp
      then show ?thesis using True by (simp only:) simp
    next
      case False
      have "ucast (of_nat (?q - 1) :: u32) + 1 = (of_nat ?q :: u64)"
        using False q ucast_inc [of "?q - 1"] by (simp del: of_nat_Suc of_nat_diff)
      moreover have "(of_nat ?q :: u64) = 0 \<longleftrightarrow> ?q = 0" "(0x10000 :: u64) < of_nat ?q \<longleftrightarrow> 65536 < ?q"
        using q by (simp_all add: word_unat_eq_iff word_less_nat_alt unat_of_nat take_bit_nat_eq_self)
      ultimately show ?thesis using p False by (simp only:) auto
    qed
  qed
  show ?thesis unfolding arr_search.simps(2) Let_def a m d
    using ok by (auto simp: fits_iff)
qed

lemma search_exact:
  assumes "unat counts < 4294967296" "n < 4294967296"
  shows "(\<exists>a \<le> n. fits (unat counts) a \<and> (\<forall>b. a < b \<and> b \<le> n \<longrightarrow> \<not> fits (unat counts) b) \<and>
       arr_search counts p n = (0, of_nat (unat counts div Suc a - 1), of_nat a)) \<or>
     (\<forall>b \<le> n. \<not> fits (unat counts) b) \<and> fst (arr_search counts p n) = 1"
  using assms(2)
proof (induction n arbitrary: p)
  case 0
  then show ?case by (simp add: fits_def)
next
  case (Suc n)
  note st = search_step [OF assms(1) Suc.prems, of p]
  show ?case
  proof (cases "fits (unat counts) (Suc n)")
    case True
    then show ?thesis using st by (intro disjI1 exI [of _ "Suc n"]) (auto simp del: arr_search.simps)
  next
    case False
    let ?p = "if unat counts mod Suc (Suc n) = 0 then ucast (counts div of_nat (Suc (Suc n)) - 1) else p"
    from Suc.IH [of ?p] Suc.prems consider
        a where "a \<le> n" "fits (unat counts) a" "\<forall>b. a < b \<and> b \<le> n \<longrightarrow> \<not> fits (unat counts) b"
          "arr_search counts ?p n = (0, of_nat (unat counts div Suc a - 1), of_nat a)"
      | "\<forall>b \<le> n. \<not> fits (unat counts) b" "fst (arr_search counts ?p n) = 1" by auto
    then show ?thesis
    proof cases
      case 1
      then show ?thesis using st False by (intro disjI1 exI [of _ a]) (auto simp: le_Suc_eq simp del: arr_search.simps)
    next
      case 2
      then show ?thesis using st False by (intro disjI2) (auto simp: le_Suc_eq simp del: arr_search.simps)
    qed
  qed
qed

section \<open>The frequency of the overflow\<close>

text \<open>With a resolution of 1 the loop stops at the largest count up to 65536 that divides 10000000000.\<close>

lemma of_nat_u64_eq: "a < 18446744073709551616 \<Longrightarrow> b < 18446744073709551616 \<Longrightarrow> (of_nat a :: u64) = of_nat b \<longleftrightarrow> a = b"
  by (simp add: word_of_nat_eq_iff take_bit_nat_eq_self)

lemma lowest_step:
  assumes "Suc n < 65536"
  shows "lowest_freq 1 (Suc n) =
    (if Suc (Suc n) dvd 10000000000 then (of_nat (10000000000 div Suc (Suc n) div 10), of_nat (Suc n)) else lowest_freq 1 n)"
proof -
  have "unat (of_nat (Suc n) + 1 :: u32) = Suc (Suc n)" using assms unat_of_nat_u32 [of "Suc (Suc n)"] by (simp add: add.commute)
  then have u: "unat (ucast (of_nat (Suc n) + 1 :: u32) :: u64) = Suc (Suc n)"
    using assms by (simp add: unsigned_ucast_eq take_bit_nat_eq_self)
  let ?d = "ucast (of_nat (Suc n) + 1 :: u32) :: u64" and ?q = "10000000000 div Suc (Suc n)"
  have q: "?q * Suc (Suc n) \<le> 10000000000" by (rule div_times_less_eq_dividend)
  have "?q \<le> 10000000000" by (rule div_le_dividend)
  then have q2: "?q < 18446744073709551616" by linarith
  have w: "?d = of_nat (Suc (Suc n))"
    using u assms by (simp add: word_unat_eq_iff unat_of_nat take_bit_nat_eq_self del: of_nat_Suc)
  have d: "BASE_CONSTANT div ?d = of_nat ?q"
    by (simp only: word_unat_eq_iff unat_div u) (use q2 in \<open>simp add: unat_of_nat take_bit_nat_eq_self\<close>)
  have t: "(of_nat ?q :: u64) div 10 = of_nat (?q div 10)"
    using q2 div_le_dividend [of ?q 10] by (simp add: word_unat_eq_iff unat_div unat_of_nat take_bit_nat_eq_self)
  have "of_nat ?q * ?d = (of_nat (?q * Suc (Suc n)) :: u64)" by (simp only: w of_nat_mult)
  moreover have "(10000000000 :: u64) = of_nat (?q * Suc (Suc n)) \<longleftrightarrow> 10000000000 = ?q * Suc (Suc n)"
    using of_nat_u64_eq [of 10000000000 "?q * Suc (Suc n)"] q by (simp only: of_nat_numeral)
  moreover have "10000000000 = ?q * Suc (Suc n) \<longleftrightarrow> 10000000000 mod Suc (Suc n) = 0"
    using div_mult_mod_eq [of 10000000000 "Suc (Suc n)"] by linarith
  ultimately have e: "BASE_CONSTANT = of_nat ?q * ucast (1 :: u32) * ?d \<longleftrightarrow> 10000000000 mod Suc (Suc n) = 0" by simp
  show ?thesis unfolding lowest_freq.simps(2) Let_def using d e t by (simp add: dvd_eq_mod_eq_0)
qed

lemma lowest_skip:
  assumes "n < 65536" "m \<le> n" "\<forall>a. m < a \<and> a \<le> n \<longrightarrow> \<not> Suc a dvd 10000000000"
  shows "lowest_freq 1 n = lowest_freq 1 m"
  using assms
proof (induction n)
  case (Suc n)
  show ?case
  proof (cases "m = Suc n")
    case False
    then have "\<not> Suc (Suc n) dvd 10000000000" "m \<le> n" using Suc.prems(2,3) by auto
    then show ?thesis using Suc lowest_step [of n] by (auto simp del: lowest_freq.simps)
  qed simp
qed simp

lemma five_power_split: "(5 :: nat) ^ (i + j) dvd q * d \<Longrightarrow> 5 ^ Suc i dvd q \<or> 5 ^ j dvd d"
proof (induction i arbitrary: q)
  have c: "\<not> 5 dvd q \<Longrightarrow> coprime ((5 :: nat) ^ k) q" for k q
  proof -
    assume "\<not> 5 dvd q"
    then have "q mod 5 = 1 \<or> q mod 5 = 2 \<or> q mod 5 = 3 \<or> q mod 5 = 4" by presburger
    moreover have "gcd 5 q = gcd 5 (q mod 5)" by (metis gcd.commute gcd_red_nat)
    moreover have "gcd (5 :: nat) 1 = 1" "gcd (5 :: nat) 2 = 1" "gcd (5 :: nat) 3 = 1" "gcd (5 :: nat) 4 = 1" by code_simp+
    ultimately have "gcd 5 q = 1" by metis
    then have "coprime 5 q" by (simp add: coprime_iff_gcd_eq_1)
    then show ?thesis by simp
  qed
  {
    case 0
    then show ?case using c [of q j] by (cases "5 dvd q") (auto simp: coprime_dvd_mult_right_iff)
  next
    case (Suc i)
    show ?case
    proof (cases "5 dvd q")
      case True
      then obtain r where r: "q = 5 * r" by blast
      then have "5 ^ (i + j) dvd r * d" using Suc.prems by simp
      from Suc.IH [OF this] show ?thesis using r by auto
    next
      case False
      then have "5 ^ (Suc i + j) dvd d" using Suc.prems c [of q "Suc i + j"] by (simp add: coprime_dvd_mult_right_iff)
      then show ?thesis by (metis add.commute dvd_trans le_add1 le_imp_power_dvd)
    qed
  }
qed

lemma no_divisor:
  assumes "64000 < d" "d \<le> 65536"
  shows "\<not> d dvd (10000000000 :: nat)"
proof
  assume "d dvd 10000000000"
  then obtain q where q: "10000000000 = q * d" by (metis dvd_def mult.commute)
  have "(5 :: nat) ^ (3 + 7) dvd q * d" unfolding q [symmetric] by simp
  from five_power_split [OF this] have "625 dvd q \<or> 78125 dvd d" by simp
  moreover have "\<not> 78125 dvd d" using assms by (auto dest: dvd_imp_le)
  ultimately obtain k where k: "k * d = 16000000" using q by auto
  have "k < 250"
  proof (rule ccontr)
    assume "\<not> k < 250"
    then have "250 * 64001 \<le> k * d" using assms by (intro mult_le_mono) auto
    then show False using k by simp
  qed
  moreover have "244 < k"
  proof (rule ccontr)
    assume "\<not> 244 < k"
    then have "k * d \<le> 244 * 65536" using assms by (intro mult_le_mono) auto
    then show False using k by simp
  qed
  ultimately have "k = 245 \<or> k = 246 \<or> k = 247 \<or> k = 248 \<or> k = 249" by linarith
  moreover have "k dvd 16000000" unfolding k [symmetric] by simp
  ultimately show False by auto
qed

lemma lowest_value: "lowest_freq 1 65535 = (15625, 63999)"
proof -
  have "lowest_freq 1 65535 = lowest_freq 1 63999" by (intro lowest_skip allI impI no_divisor) auto
  also have "\<dots> = lowest_freq 1 (Suc 63998)" by (simp del: lowest_freq.simps)
  also have "\<dots> = (15625, 63999)" by (subst lowest_step) (simp_all del: lowest_freq.simps)
  finally show ?thesis .
qed

section \<open>Properties\<close>

text \<open>C38. Setting up the microsecond timer succeeds up to the HAL exactly when some prescaler and some period
  of 16 bits divide the timer clock to 15.625 Hz, the rate of overflow of 64000 microseconds; then
  the timer is given the longest such period and its prescaler, and else the timer is not touched.\<close>

theorem timer_init_exact:
  "let T = unat (GetTimerInputClock hal TIM3) * 1000 div 15625 in
    (\<exists>psc arr. psc < 65536 \<and> 0 < arr \<and> arr < 65536 \<and> (psc + 1) * (arr + 1) = T \<and>
       (\<forall>b p. arr < b \<longrightarrow> b < 65536 \<longrightarrow> 0 < p \<longrightarrow> p \<le> 65536 \<longrightarrow> p * (b + 1) \<noteq> T) \<and>
       TIMx_Init hal 1 t =
         (case HAL_TIM_Base_Init hal TIM3 (tim_base hal (of_nat psc) (of_nat arr)) t of (ok1, t1) \<Rightarrow>
          case HAL_TIM_Base_Start_IT hal (HAL_TIM_UIFREMAP_ENABLE hal t1) of (ok2, t2) \<Rightarrow>
            (if \<not> ok2 then 2 else if \<not> ok1 then 1 else 0, t2))) \<or>
    (\<forall>b p. 0 < b \<longrightarrow> b < 65536 \<longrightarrow> 0 < p \<longrightarrow> p \<le> 65536 \<longrightarrow> p * (b + 1) \<noteq> T) \<and> TIMx_Init hal 1 t = (1, t)"
proof -
  let ?c = "GetTimerInputClock hal TIM3"
  let ?T = "unat ?c * 1000 div 15625" and ?w = "(ucast ?c * 1000) div 15625 :: u64"
  have c: "unat ?c * 1000 < 4294967296000" using unat_u32_bound [of ?c] by simp
  have "unat (ucast ?c :: u64) = unat ?c" using unat_u32_bound [of ?c] by (simp add: unsigned_ucast_eq take_bit_nat_eq_self)
  then have "unat (ucast ?c * 1000 :: u64) = unat ?c * 1000" using c by (simp add: unat_mult_small)
  then have w: "unat ?w = ?T" by (simp add: unat_div)
  have T: "?T < 4294967296" using c by (simp add: div_less_iff_less_mult)
  have comp: "ComputePrescalerAndARR ?c 15625 0xFFFF out = arr_search ?w 0 65535" for out
    by (simp add: ComputePrescalerAndARR_def Let_def del: arr_search.simps)
  have init: "TIMx_Init hal 1 t = (case arr_search ?w 0 65535 of (res, Prescaler, Arr) \<Rightarrow>
      if res \<noteq> 0 then (res, t)
      else case HAL_TIM_Base_Init hal TIM3 (tim_base hal Prescaler Arr) t of (ok1, t1) \<Rightarrow>
        case HAL_TIM_Base_Start_IT hal (HAL_TIM_UIFREMAP_ENABLE hal t1) of (ok2, t2) \<Rightarrow>
          (if \<not> ok2 then 2 else if \<not> ok1 then 1 else 0, t2))"
    by (simp add: TIMx_Init_def GetTimerMaxARR_def lowest_value comp TIM_ErrorHandlerHook_def Let_def split: prod.split
        del: arr_search.simps lowest_freq.simps)
  have fits: "fits ?T a \<longleftrightarrow> 0 < a \<and> (\<exists>p. 0 < p \<and> p \<le> 65536 \<and> p * (a + 1) = ?T)" for a
    by (simp add: fits_def mult.commute)
  have s: "(\<exists>a \<le> 65535. fits ?T a \<and> (\<forall>b. a < b \<and> b \<le> 65535 \<longrightarrow> \<not> fits ?T b) \<and>
       arr_search ?w 0 65535 = (0, of_nat (?T div Suc a - 1), of_nat a)) \<or>
     (\<forall>b \<le> 65535. \<not> fits ?T b) \<and> fst (arr_search ?w 0 65535) = 1"
    using search_exact [of ?w 65535 0, unfolded w, OF T] by simp
  then show ?thesis
  proof (elim disjE exE conjE)
    fix a
    assume a: "a \<le> 65535" "fits ?T a" "\<forall>b. a < b \<and> b \<le> 65535 \<longrightarrow> \<not> fits ?T b"
      "arr_search ?w 0 65535 = (0, of_nat (?T div Suc a - 1), of_nat a)"
    obtain p where p: "0 < p" "p \<le> 65536" "Suc a * p = ?T" "0 < a" using a(2) by (auto simp: fits_def)
    then have d: "?T div Suc a = p" by (metis nonzero_mult_div_cancel_left nat.distinct(1))
    have "\<forall>b p. a < b \<longrightarrow> b < 65536 \<longrightarrow> 0 < p \<longrightarrow> p \<le> 65536 \<longrightarrow> p * (b + 1) \<noteq> ?T"
    proof (intro allI impI notI)
      fix b q assume b: "a < b" "b < 65536" "0 < q" "q \<le> 65536" "q * (b + 1) = ?T"
      then have "fits ?T b" unfolding fits by auto
      then show False using a(3) b(1,2) by auto
    qed
    then show ?thesis unfolding Let_def init a(4) using p a(1) d
      by (intro disjI1 exI [of _ "p - 1"] exI [of _ a] conjI) (simp_all add: mult.commute)
  next
    assume a: "\<forall>b \<le> 65535. \<not> fits ?T b" "fst (arr_search ?w 0 65535) = 1"
    then have "TIMx_Init hal 1 t = (1, t)" unfolding init by (cases "arr_search ?w 0 65535") simp
    moreover have "\<forall>b p. 0 < b \<longrightarrow> b < 65536 \<longrightarrow> 0 < p \<longrightarrow> p \<le> 65536 \<longrightarrow> p * (b + 1) \<noteq> ?T"
    proof (intro allI impI notI)
      fix b q assume b: "0 < b" "b < 65536" "0 < q" "q \<le> 65536" "q * (b + 1) = ?T"
      then have "fits ?T b" unfolding fits by auto
      then show False using a(1) b(1,2) by auto
    qed
    ultimately show ?thesis unfolding Let_def by blast
  qed
qed

text \<open>The clock of the board: 100 MHz on the bus, doubled.  The handle is the list of the calls.\<close>

definition board_tim :: "(TIM_TypeDef \<times> TIM_Base_InitTypeDef) list tim_hal" where
  "board_tim =
     \<lparr>APB1CLKDivider = 4, APB2CLKDivider = 4, RCC_HCLK_DIV1 = 0, HAL_RCC_GetPCLK1Freq = 100000000,
      HAL_RCC_GetPCLK2Freq = 100000000, TIM_COUNTERMODE_UP = 0, HAL_TIM_Base_Init = (\<lambda>i c t. (True, t @ [(i, c)])),
      HAL_TIM_UIFREMAP_ENABLE = (\<lambda>t. t), HAL_TIM_Base_Start_IT = (\<lambda>t. (True, t)), HAL_TIM_GetCounter = (\<lambda>t. 0),
      HAL_TIM_GetAutoreload = (\<lambda>t. 63999), HAL_TIM_GET_UIFCPY = (\<lambda>x. x AND 0x80000000 = 0x80000000),
      reg_CR1 = (\<lambda>t. 0x800), TIM_CR1_UIFREMAP = 0x800, TIM_CNT_UIFCPY = 0x80000000,
      TIM_UPDATE_PENDING = (\<lambda>t. False), TIM_CLEAR_UPDATE = (\<lambda>t. t)\<rparr>"

theorem timer_init_exact_witness:
  "TIMx_Init board_tim 1 [] = (0, [(TIM3, tim_base board_tim 199 63999)])"
proof -
  have T: "unat (GetTimerInputClock board_tim TIM3) * 1000 div 15625 = 12800000"
    by (simp add: GetTimerInputClock_def board_tim_def)
  have hal: "HAL_TIM_Base_Init board_tim TIM3 c [] = (True, [(TIM3, c)])" "HAL_TIM_Base_Start_IT board_tim x = (True, x)"
      "HAL_TIM_UIFREMAP_ENABLE board_tim x = x" for c x
    by (simp_all add: board_tim_def)
  from timer_init_exact [of board_tim "[]", unfolded T Let_def hal] obtain psc arr where
      a: "psc < 65536" "arr < 65536" "(psc + 1) * (arr + 1) = 12800000"
      "\<forall>b p. arr < b \<longrightarrow> b < 65536 \<longrightarrow> 0 < p \<longrightarrow> p \<le> 65536 \<longrightarrow> p * (b + 1) \<noteq> 12800000"
      "TIMx_Init board_tim 1 [] = (0, [(TIM3, tim_base board_tim (of_nat psc) (of_nat arr))])"
  proof (elim disjE conjE exE)
    assume "\<forall>b p. 0 < b \<longrightarrow> b < 65536 \<longrightarrow> 0 < p \<longrightarrow> p \<le> 65536 \<longrightarrow> p * (b + 1) \<noteq> (12800000 :: nat)"
    from spec [OF spec [OF this, of 63999], of 200] show thesis by simp
  qed simp
  have arr: "63999 \<le> arr" using spec [OF spec [OF a(4), of 63999], of 200] by force
  have "psc + 1 \<le> 200"
  proof (rule ccontr)
    assume "\<not> psc + 1 \<le> 200"
    then have "201 * 64000 \<le> (psc + 1) * (arr + 1)" using arr by (intro mult_le_mono) auto
    then show False using a(3) by simp
  qed
  moreover have "195 < psc + 1"
  proof (rule ccontr)
    assume "\<not> 195 < psc + 1"
    then have "(psc + 1) * (arr + 1) \<le> 195 * 65536" using a(2) by (intro mult_le_mono) auto
    then show False using a(3) by simp
  qed
  ultimately have "psc + 1 \<in> {196, 197, 198, 199, 200}" by auto
  moreover have "psc + 1 dvd 12800000" unfolding a(3) [symmetric] by (rule dvd_triv_left)
  ultimately have "psc + 1 = 200" by (elim insertE emptyE) (simp_all only:, simp_all)
  then show ?thesis using a(3,5) by simp
qed

end
