(* ===== verification/CanCtrl.thy ===== *)
theory CanCtrl
  imports CanAbs Timer
begin

text \<open>
  \<open>app/cores/cm7/Src/CanCtrl.c\<close>: the time in microseconds, kept by the interrupt of the timer and read
  with the counter and its update flag, and the settings of both controllers.  The time of the
  program is compared with the number of ticks that the timer has counted.  The lemmas say that a
  reading between interrupts of the timer is exact and ends, that frames get the times at which they
  arrived, and what goes wrong when the CAN interrupt preempts that of the timer.
\<close>

section \<open>State\<close>

record ('h, 'b, 't) ctrl_state =
  Time :: u64
  TimHandle :: 't
  can :: "('h, 'b) can_state"

section \<open>The time\<close>

definition TIMx_TIME_RESOLUTION :: u32 where [simp]: "TIMx_TIME_RESOLUTION = 1"

definition FDCAN_GetTimerPeriodHook :: "'t tim_hal \<Rightarrow> 't \<Rightarrow> u64" where
  "FDCAN_GetTimerPeriodHook thal t = (ucast (TIM_GetArrValue thal t) + 1) * ucast TIMx_TIME_RESOLUTION"

definition TIM_InterruptCallback ::
  "'t tim_hal \<Rightarrow> 'h fdcan_hal \<Rightarrow> ('h, 'b, 't) ctrl_state \<Rightarrow> ('h, 'b, 't) ctrl_state" where
  "TIM_InterruptCallback thal hal s =
     (let Period = FDCAN_GetTimerPeriodHook thal (TimHandle s);
          s = s\<lparr>Time := Time s + Period\<rparr>
      in s\<lparr>can := CANABS_CheckIsrPollPeriod hal (Time s) Period (can s)\<rparr>)"

text \<open>\<open>HAL_TIM_IRQHandler\<close> clears the update flag and then calls back.\<close>

definition clear_update :: "'t tim_hal \<Rightarrow> ('h, 'b, 't) ctrl_state \<Rightarrow> ('h, 'b, 't) ctrl_state" where
  "clear_update thal s = s\<lparr>TimHandle := TIM_CLEAR_UPDATE thal (TimHandle s)\<rparr>"

definition TIMx_IRQHandler ::
  "'t tim_hal \<Rightarrow> 'h fdcan_hal \<Rightarrow> ('h, 'b, 't) ctrl_state \<Rightarrow> ('h, 'b, 't) ctrl_state" where
  "TIMx_IRQHandler thal hal s =
     (if TIM_UPDATE_PENDING thal (TimHandle s) then TIM_InterruptCallback thal hal (clear_update thal s) else s)"

text \<open>The loop of \<open>FDCAN_GetTimestampHook\<close>.  \<open>env n\<close> is what happens before the \<open>n\<close>th access to the
  time or the counter: time passes and interrupts run.\<close>

partial_function (option) timestamp_loop ::
  "'t tim_hal \<Rightarrow> (nat \<Rightarrow> ('h, 'b, 't) ctrl_state \<Rightarrow> ('h, 'b, 't) ctrl_state) \<Rightarrow> nat \<Rightarrow>
   ('h, 'b, 't) ctrl_state \<Rightarrow> (u64 \<times> ('h, 'b, 't) ctrl_state) option" where
  "timestamp_loop thal env n s =
     (let s = env n s;
          time_snapshot1 = Time s;
          s = env (n + 1) s;
          (cnt, uif) = TIM_GetCounterValueAndUpdateInterruptFlag thal (TimHandle s);
          s = env (n + 2) s;
          time_snapshot2 = Time s
      in if time_snapshot1 \<noteq> time_snapshot2 then timestamp_loop thal env (n + 3) s
         else
           let timestamp = time_snapshot1 + ucast (cnt * TIMx_TIME_RESOLUTION)
           in Some (if uif \<noteq> 0 then timestamp + FDCAN_GetTimerPeriodHook thal (TimHandle s) else timestamp, s))"

definition FDCAN_GetTimestampHook ::
  "'t tim_hal \<Rightarrow> (nat \<Rightarrow> ('h, 'b, 't) ctrl_state \<Rightarrow> ('h, 'b, 't) ctrl_state) \<Rightarrow>
   ('h, 'b, 't) ctrl_state \<Rightarrow> (u64 \<times> ('h, 'b, 't) ctrl_state) option" where
  "FDCAN_GetTimestampHook thal env s = timestamp_loop thal env 0 s"

text \<open>The same loop, given up after \<open>k\<close> rounds: a result means that the loop ends with it within \<open>k\<close> rounds.\<close>

primrec timestamp_rounds ::
  "nat \<Rightarrow> 't tim_hal \<Rightarrow> (nat \<Rightarrow> ('h, 'b, 't) ctrl_state \<Rightarrow> ('h, 'b, 't) ctrl_state) \<Rightarrow> nat \<Rightarrow>
   ('h, 'b, 't) ctrl_state \<Rightarrow> (u64 \<times> ('h, 'b, 't) ctrl_state) option" where
  "timestamp_rounds 0 thal env n s = None"
| "timestamp_rounds (Suc k) thal env n s =
     (let s = env n s;
          time_snapshot1 = Time s;
          s = env (n + 1) s;
          (cnt, uif) = TIM_GetCounterValueAndUpdateInterruptFlag thal (TimHandle s);
          s = env (n + 2) s;
          time_snapshot2 = Time s
      in if time_snapshot1 \<noteq> time_snapshot2 then timestamp_rounds k thal env (n + 3) s
         else
           let timestamp = time_snapshot1 + ucast (cnt * TIMx_TIME_RESOLUTION)
           in Some (if uif \<noteq> 0 then timestamp + FDCAN_GetTimerPeriodHook thal (TimHandle s) else timestamp, s))"

lemma timestamp_rounds_loop: "timestamp_rounds k thal env n s = Some r \<Longrightarrow> timestamp_loop thal env n s = Some r"
proof (induction k arbitrary: n s)
  case (Suc k)
  then show ?case by (subst timestamp_loop.simps) (auto simp: Let_def split: prod.splits if_splits)
qed simp

text \<open>The interrupt of the first controller, which nothing else of the program can preempt, with its
  sample of the time.\<close>

definition FDCAN_1_IRQHandler ::
  "'t tim_hal \<Rightarrow> 'h fdcan_hal \<Rightarrow> FDCAN_ClassicFrameType \<Rightarrow> u32 \<Rightarrow> ('h, 'b, 't) ctrl_state \<Rightarrow> ('h, 'b, 't) ctrl_state option" where
  "FDCAN_1_IRQHandler thal hal junk RxFifo0ITs s =
     map_option (\<lambda>(t, s). s\<lparr>can := can1_interrupt hal (FDCAN_GetTimerPeriodHook thal (TimHandle s)) junk t RxFifo0ITs (can s)\<rparr>)
       (FDCAN_GetTimestampHook thal (\<lambda>n s. s) s)"

section \<open>Settings\<close>

record CanCtrlCanType =
  baudrate :: u32
  mode :: u8

record CanCtrlDataType =
  ctrl_can1 :: CanCtrlCanType
  ctrl_can2 :: CanCtrlCanType
  sendingActive :: bool

definition on_can1 ::
  "'h fdcan_hal \<Rightarrow> FdcanIoctlCmdType \<Rightarrow> u32 \<Rightarrow> ('h, 'b) can_state \<Rightarrow> comm_status \<times> ('h, 'b) can_state" where
  "on_can1 hal cmd val s =
     (case FDCAN_Ioctl hal cmd val (driver (can1 s)) of (res, d) \<Rightarrow> (res, s\<lparr>can1 := (can1 s)\<lparr>driver := d\<rparr>\<rparr>))"

definition on_can2 ::
  "'h fdcan_hal \<Rightarrow> FdcanIoctlCmdType \<Rightarrow> u32 \<Rightarrow> ('h, 'b) can_state \<Rightarrow> comm_status \<times> ('h, 'b) can_state" where
  "on_can2 hal cmd val s =
     (case FDCAN_Ioctl hal cmd val (driver (can2 s)) of (res, d) \<Rightarrow> (res, s\<lparr>can2 := (can2 s)\<lparr>driver := d\<rparr>\<rparr>))"

definition CanAbs_Start_Can1 where "CanAbs_Start_Can1 hal s = on_can1 hal CANABS_IOCTL_CMD_START 1 s"
definition CanAbs_Stop_Can1 where "CanAbs_Stop_Can1 hal s = on_can1 hal CANABS_IOCTL_CMD_STOP 1 s"
definition CanAbs_SetBaudrate_Can1 where "CanAbs_SetBaudrate_Can1 hal b s = on_can1 hal CANABS_IOCTL_CMD_SET_BAUDRATE b s"
definition CanAbs_SetMode_Can1 where "CanAbs_SetMode_Can1 hal m s = on_can1 hal CANABS_IOCTL_CMD_SET_MODE m s"
definition CanAbs_Start_Can2 where "CanAbs_Start_Can2 hal s = on_can2 hal CANABS_IOCTL_CMD_START 1 s"
definition CanAbs_Stop_Can2 where "CanAbs_Stop_Can2 hal s = on_can2 hal CANABS_IOCTL_CMD_STOP 1 s"
definition CanAbs_SetBaudrate_Can2 where "CanAbs_SetBaudrate_Can2 hal b s = on_can2 hal CANABS_IOCTL_CMD_SET_BAUDRATE b s"
definition CanAbs_SetMode_Can2 where "CanAbs_SetMode_Can2 hal m s = on_can2 hal CANABS_IOCTL_CMD_SET_MODE m s"

definition CanAbs_IsStateOff_Can1 :: "('h, 'b) can_state \<Rightarrow> comm_status \<times> bool" where
  "CanAbs_IsStateOff_Can1 s = (COMM_SUCCESS, fdcan_state (driver (can1 s)) = DRIVER_STATE_OFF)"

definition CanAbs_IsStateOff_Can2 :: "('h, 'b) can_state \<Rightarrow> comm_status \<times> bool" where
  "CanAbs_IsStateOff_Can2 s = (COMM_SUCCESS, fdcan_state (driver (can2 s)) = DRIVER_STATE_OFF)"

text \<open>The error hook lights the LED of the board.\<close>

definition CANCONTROL_ErrorHandlerHook :: "('h, 'b) can_state \<Rightarrow> ('h, 'b) can_state" where
  "CANCONTROL_ErrorHandlerHook s = s\<lparr>msg_port := FdcanMsgPort.CanAbs_ErrorHandler (msg_port s)\<rparr>"

definition reported :: "comm_status \<times> ('h, 'b) can_state \<Rightarrow> ('h, 'b) can_state" where
  "reported r = (if COMM_SUCCESS \<noteq> fst r then CANCONTROL_ErrorHandlerHook (snd r) else snd r)"

definition appCanCtrlSetBaudrate :: "'h fdcan_hal \<Rightarrow> CanCtrlDataType \<Rightarrow> ('h, 'b) can_state \<Rightarrow> ('h, 'b) can_state" where
  "appCanCtrlSetBaudrate hal d s =
     (let s = reported (CanAbs_SetBaudrate_Can1 hal (baudrate (ctrl_can1 d)) s)
      in reported (CanAbs_SetBaudrate_Can2 hal (baudrate (ctrl_can2 d)) s))"

definition appCanCtrlSetMode :: "'h fdcan_hal \<Rightarrow> CanCtrlDataType \<Rightarrow> ('h, 'b) can_state \<Rightarrow> ('h, 'b) can_state" where
  "appCanCtrlSetMode hal d s =
     (let s = reported (CanAbs_SetMode_Can1 hal (ucast (mode (ctrl_can1 d))) s)
      in reported (CanAbs_SetMode_Can2 hal (ucast (mode (ctrl_can2 d))) s))"

section \<open>The clock\<close>

text \<open>\<open>ticks\<close> counts the ticks since the start of the timer.  Time passes without a second overflow while
  the flag of the first is still set: the interrupt is served within a period.\<close>

definition elapses :: "'t tim_hal \<Rightarrow> ('t \<Rightarrow> bool) \<Rightarrow> ('t \<Rightarrow> nat) \<Rightarrow> nat \<Rightarrow> 't \<Rightarrow> 't \<Rightarrow> bool" where
  "elapses thal running ticks P t t' \<longleftrightarrow>
     running t' \<and> ticks t \<le> ticks t' \<and>
     ticks t' div P \<le> ticks t div P + (if TIM_UPDATE_PENDING thal t then 0 else 1) \<and>
     (TIM_UPDATE_PENDING thal t' \<longleftrightarrow> TIM_UPDATE_PENDING thal t \<or> ticks t div P < ticks t' div P)"

inductive clock_steps ::
  "'t tim_hal \<Rightarrow> 'h fdcan_hal \<Rightarrow> ('t \<Rightarrow> bool) \<Rightarrow> ('t \<Rightarrow> nat) \<Rightarrow> nat \<Rightarrow>
   ('h, 'b, 't) ctrl_state \<Rightarrow> ('h, 'b, 't) ctrl_state \<Rightarrow> bool"
  for thal hal running ticks P s where
  none: "clock_steps thal hal running ticks P s s"
| pass: "clock_steps thal hal running ticks P s s1 \<Longrightarrow> elapses thal running ticks P (TimHandle s1) t \<Longrightarrow>
    clock_steps thal hal running ticks P s (s1\<lparr>TimHandle := t\<rparr>)"
| timer: "clock_steps thal hal running ticks P s s1 \<Longrightarrow>
    clock_steps thal hal running ticks P s (TIMx_IRQHandler thal hal s1)"
| other: "clock_steps thal hal running ticks P s s1 \<Longrightarrow> Time s2 = Time s1 \<Longrightarrow> TimHandle s2 = TimHandle s1 \<Longrightarrow>
    clock_steps thal hal running ticks P s s2"

text \<open>The overflows that the program has counted, and the relation to its time.\<close>

definition epoch :: "'t tim_hal \<Rightarrow> ('t \<Rightarrow> nat) \<Rightarrow> nat \<Rightarrow> 't \<Rightarrow> nat" where
  "epoch thal ticks P t = ticks t div P - (if TIM_UPDATE_PENDING thal t then 1 else 0)"

definition clock_ok :: "'t tim_hal \<Rightarrow> ('t \<Rightarrow> bool) \<Rightarrow> ('t \<Rightarrow> nat) \<Rightarrow> nat \<Rightarrow> ('h, 'b, 't) ctrl_state \<Rightarrow> bool" where
  "clock_ok thal running ticks P s \<longleftrightarrow>
     running (TimHandle s) \<and> (TIM_UPDATE_PENDING thal (TimHandle s) \<longrightarrow> P \<le> ticks (TimHandle s)) \<and>
     Time s = of_nat (P * epoch thal ticks P (TimHandle s))"

lemma inc_word: "unat x = P - 1 \<Longrightarrow> 0 < P \<Longrightarrow> P \<le> 65536 \<Longrightarrow> x + 1 = of_nat P" for x :: u64
  by (simp add: word_unat_eq_iff unat_word_ariths unat_of_nat take_bit_nat_eq_self)

lemma high_bit:
  assumes "\<not> bit c 31"
  shows "(c OR 0x80000000) AND 0x80000000 = (0x80000000 :: u32)" "(c OR 0x80000000) AND NOT 0x80000000 = c"
    "c AND NOT 0x80000000 = c" "c AND 0x80000000 \<noteq> (0x80000000 :: u32)"
proof -
  have g: "(c OR u) AND u = u" "(c OR u) AND NOT u = c" "c AND NOT u = c" "c AND u = 0"
    if "\<And>n. n < 32 \<Longrightarrow> bit u n \<longleftrightarrow> n = 31" for u :: u32
    using assms that by (auto intro!: bit_word_eqI simp: bit_simps)
  have "(0x80000000 :: u32) = push_bit 31 1" by simp
  then have u: "bit (0x80000000 :: u32) n \<longleftrightarrow> n = 31" if "n < 32" for n
    using that by (simp only: bit_push_bit_iff bit_1_iff) (auto simp: not_less)
  show "(c OR 0x80000000) AND 0x80000000 = (0x80000000 :: u32)" "(c OR 0x80000000) AND NOT 0x80000000 = c"
    "c AND NOT 0x80000000 = c" "c AND 0x80000000 \<noteq> (0x80000000 :: u32)"
    using g [of "0x80000000"] u by simp_all
qed

text \<open>What the timer is relied on for: with the period set, the counter is the number of ticks modulo the
  period, with the copy of the update flag in its highest bit, and clearing the flag changes
  nothing else.\<close>

locale timer_counter =
  fixes thal :: "'t tim_hal" and running :: "'t \<Rightarrow> bool" and ticks :: "'t \<Rightarrow> nat" and P :: nat
  assumes period: "0 < P" "P \<le> 65536"
    and autoreload: "running t \<Longrightarrow> HAL_TIM_GetAutoreload thal t = of_nat (P - 1)"
    and remap: "running t \<Longrightarrow> reg_CR1 thal t AND TIM_CR1_UIFREMAP thal \<noteq> 0"
    and counter: "running t \<Longrightarrow> HAL_TIM_GetCounter thal t =
      of_nat (ticks t mod P) OR (if TIM_UPDATE_PENDING thal t then TIM_CNT_UIFCPY thal else 0)"
    and flag_bit: "TIM_CNT_UIFCPY thal = 0x80000000"
    and flag_copy: "HAL_TIM_GET_UIFCPY thal x \<longleftrightarrow> x AND TIM_CNT_UIFCPY thal = TIM_CNT_UIFCPY thal"
    and clear: "running t \<Longrightarrow> running (TIM_CLEAR_UPDATE thal t) \<and> ticks (TIM_CLEAR_UPDATE thal t) = ticks t \<and>
      \<not> TIM_UPDATE_PENDING thal (TIM_CLEAR_UPDATE thal t)"
begin

lemma period_hook: "running t \<Longrightarrow> FDCAN_GetTimerPeriodHook thal t = of_nat P"
proof -
  assume t: "running t"
  have "unat (of_nat (P - 1) :: u32) = P - 1" using period by (intro unat_of_nat_u32) linarith
  then have "unat (ucast (of_nat (P - 1) :: u32) :: u16) = P - 1"
    using period by (simp add: unsigned_ucast_eq take_bit_nat_eq_self del: of_nat_diff)
  moreover have "unat (ucast x :: u64) = unat x" for x :: u16
    using unsigned_less [of x, where ?'a = nat] by (simp add: unsigned_ucast_eq take_bit_nat_eq_self)
  ultimately have "unat (ucast (ucast (of_nat (P - 1) :: u32) :: u16) :: u64) = P - 1" by metis
  then have "(ucast (ucast (of_nat (P - 1) :: u32) :: u16) :: u64) + 1 = of_nat P"
    using period by (intro inc_word)
  then show ?thesis by (simp add: FDCAN_GetTimerPeriodHook_def TIM_GetArrValue_def autoreload [OF t])
qed

lemma counter_read:
  assumes "running t"
  shows "TIM_GetCounterValueAndUpdateInterruptFlag thal t =
    (of_nat (ticks t mod P), if TIM_UPDATE_PENDING thal t then 1 else 0)"
proof -
  let ?c = "of_nat (ticks t mod P) :: u32"
  have "ticks t mod P < 65536" using period mod_less_divisor [of P "ticks t"] by linarith
  then have "take_bit 16 (ticks t mod P) = ticks t mod P" by (simp add: take_bit_nat_eq_self_iff)
  then have "?c = take_bit 16 ?c" by (metis of_nat_take_bit)
  moreover have "\<not> bit (take_bit 16 ?c) 31" by (simp only: bit_take_bit_iff) simp
  ultimately have "\<not> bit ?c 31" by metis
  note b = high_bit [OF this]
  show ?thesis using remap [OF assms] b
    by (simp add: TIM_GetCounterValueAndUpdateInterruptFlag_def counter [OF assms] flag_bit flag_copy Let_def)
qed

end
context timer_counter
begin

lemma epoch_le: "epoch thal ticks P t \<le> ticks t div P" "ticks t div P \<le> epoch thal ticks P t + 1"
  by (auto simp: epoch_def)

text \<open>The program counts each overflow once, and time does not go back.\<close>

lemma steps_ok:
  assumes "clock_steps thal hal running ticks P s s'" "clock_ok thal running ticks P s"
  shows "clock_ok thal running ticks P s' \<and> ticks (TimHandle s) \<le> ticks (TimHandle s') \<and>
    epoch thal ticks P (TimHandle s) \<le> epoch thal ticks P (TimHandle s')"
  using assms
proof (induction rule: clock_steps.induct)
  case none
  then show ?case by simp
next
  case (pass s1 t)
  have ok: "clock_ok thal running ticks P s1" "ticks (TimHandle s) \<le> ticks (TimHandle s1)"
      "epoch thal ticks P (TimHandle s) \<le> epoch thal ticks P (TimHandle s1)" and e: "elapses thal running ticks P (TimHandle s1) t"
    using pass by blast+
  have m: "ticks (TimHandle s1) div P \<le> ticks t div P" using e by (simp add: elapses_def div_le_mono)
  have "TIM_UPDATE_PENDING thal t \<Longrightarrow> P \<le> ticks t"
  proof -
    assume p: "TIM_UPDATE_PENDING thal t"
    show "P \<le> ticks t"
    proof (rule ccontr)
      assume "\<not> P \<le> ticks t"
      then have "ticks t div P = 0" by simp
      then show False using p e ok(1) \<open>\<not> P \<le> ticks t\<close> by (auto simp: elapses_def clock_ok_def)
    qed
  qed
  moreover have "epoch thal ticks P t = epoch thal ticks P (TimHandle s1)"
    using e m by (auto simp: epoch_def elapses_def split: if_splits)
  ultimately show ?case using ok e by (auto simp: clock_ok_def elapses_def)
next
  case (timer s1)
  have ok: "clock_ok thal running ticks P s1" "ticks (TimHandle s) \<le> ticks (TimHandle s1)"
      "epoch thal ticks P (TimHandle s) \<le> epoch thal ticks P (TimHandle s1)" using timer by blast+
  show ?case
  proof (cases "TIM_UPDATE_PENDING thal (TimHandle s1)")
    case True
    let ?t = "TIM_CLEAR_UPDATE thal (TimHandle s1)"
    have t: "running ?t" "ticks ?t = ticks (TimHandle s1)" "\<not> TIM_UPDATE_PENDING thal ?t" "P \<le> ticks (TimHandle s1)"
      using clear ok(1) True by (auto simp: clock_ok_def)
    have "0 < ticks (TimHandle s1) div P" using t(4) period(1) by (simp add: div_greater_zero_iff)
    then have e: "epoch thal ticks P ?t = epoch thal ticks P (TimHandle s1) + 1" using t True by (simp add: epoch_def)
    have "TimHandle (TIMx_IRQHandler thal hal s1) = ?t" "Time (TIMx_IRQHandler thal hal s1) = Time s1 + of_nat P"
      using True period_hook [OF t(1)] by (simp_all add: TIMx_IRQHandler_def TIM_InterruptCallback_def clear_update_def Let_def)
    then show ?thesis using ok t e by (simp add: clock_ok_def algebra_simps)
  qed (use ok in \<open>simp add: TIMx_IRQHandler_def\<close>)
next
  case (other s1 s2)
  then show ?case by (simp add: clock_ok_def)
qed

text \<open>A reading between two equal samples of the time is the number of ticks.\<close>

lemma reading:
  assumes "clock_ok thal running ticks P s"
  shows "Time s + ucast ((of_nat (ticks (TimHandle s) mod P) :: u32) * TIMx_TIME_RESOLUTION) +
    (if TIM_UPDATE_PENDING thal (TimHandle s) then of_nat P else 0) = of_nat (ticks (TimHandle s))"
proof -
  let ?n = "ticks (TimHandle s)"
  have "?n mod P < 65536" using period mod_less_divisor [of P ?n] by linarith
  then have c: "ucast (of_nat (?n mod P) :: u32) = (of_nat (?n mod P) :: u64)"
    by (simp add: word_unat_eq_iff unsigned_ucast_eq unat_of_nat take_bit_nat_eq_self)
  have "P * epoch thal ticks P (TimHandle s) + ?n mod P + (if TIM_UPDATE_PENDING thal (TimHandle s) then P else 0) = ?n"
  proof (cases "TIM_UPDATE_PENDING thal (TimHandle s)")
    case True
    then have "0 < ?n div P" using assms period(1) by (simp add: clock_ok_def div_greater_zero_iff)
    then obtain k where "?n div P = Suc k" using gr0_conv_Suc by blast
    then show ?thesis using True mult_div_mod_eq [of P ?n] by (simp add: epoch_def)
  qed (simp add: epoch_def)
  from arg_cong [OF this, of "of_nat :: nat \<Rightarrow> u64"] show ?thesis using assms c
    by (simp add: clock_ok_def split: if_splits)
qed

text \<open>Equal samples of the time mean that the program has counted no overflow between them.\<close>

lemma same_time:
  assumes "clock_ok thal running ticks P s" "clock_ok thal running ticks P s'" "Time s = Time s'"
    and "epoch thal ticks P (TimHandle s) \<le> epoch thal ticks P (TimHandle s')"
    and "ticks (TimHandle s') \<le> ticks (TimHandle s) + P"
  shows "epoch thal ticks P (TimHandle s) = epoch thal ticks P (TimHandle s')"
proof -
  let ?a = "epoch thal ticks P (TimHandle s)" and ?b = "epoch thal ticks P (TimHandle s')"
  have "ticks (TimHandle s') div P \<le> (ticks (TimHandle s) + P) div P" by (rule div_le_mono) (rule assms(5))
  then have "?b \<le> ?a + 2" using epoch_le(1) [of "TimHandle s'"] epoch_le(2) [of "TimHandle s"] period(1)
    by (simp add: div_add_self2)
  then have "P * (?b - ?a) \<le> 65536 * 2" using period(2) by (intro mult_le_mono) auto
  moreover have "(of_nat (P * (?b - ?a)) :: u64) = 0" using assms(1-4) by (simp add: clock_ok_def of_nat_diff algebra_simps)
  ultimately have "P * (?b - ?a) = 0"
    using word_nat_ops_u64(5) [of "P * (?b - ?a)" 0] by simp
  then show ?thesis using period(1) assms(4) by simp
qed

end
context timer_counter
begin

text \<open>One round of the loop: it ends with the exact number of ticks, or the program has counted an
  overflow meanwhile.\<close>

lemma timestamp_round:
  assumes ok: "clock_ok thal running ticks P s"
    and env: "\<And>n s. clock_ok thal running ticks P s \<Longrightarrow> clock_steps thal hal running ticks P s (env n s) \<and>
      ticks (TimHandle (env n s)) \<le> ticks (TimHandle s) + d" and d: "9 * d < P"
  obtains t s' T where "\<And>k. timestamp_rounds (Suc k) thal env n s = Some (t, s')" "clock_ok thal running ticks P s'" "t = of_nat T"
      "ticks (TimHandle s) \<le> T" "T \<le> ticks (TimHandle s')" "ticks (TimHandle s') \<le> ticks (TimHandle s) + 3 * d"
  | s' where "\<And>k. timestamp_rounds (Suc k) thal env n s = timestamp_rounds k thal env (n + 3) s'" "clock_ok thal running ticks P s'"
      "epoch thal ticks P (TimHandle s) < epoch thal ticks P (TimHandle s')"
      "ticks (TimHandle s) \<le> ticks (TimHandle s')" "ticks (TimHandle s') \<le> ticks (TimHandle s) + 3 * d"
proof -
  define s1 s2 s3 where s: "s1 = env n s" "s2 = env (n + 1) s1" "s3 = env (n + 2) s2"
  have 1: "clock_ok thal running ticks P s1" "ticks (TimHandle s) \<le> ticks (TimHandle s1)"
      "epoch thal ticks P (TimHandle s) \<le> epoch thal ticks P (TimHandle s1)" "ticks (TimHandle s1) \<le> ticks (TimHandle s) + d"
    using env [OF ok] steps_ok ok unfolding s by blast+
  have 2: "clock_ok thal running ticks P s2" "ticks (TimHandle s1) \<le> ticks (TimHandle s2)"
      "epoch thal ticks P (TimHandle s1) \<le> epoch thal ticks P (TimHandle s2)" "ticks (TimHandle s2) \<le> ticks (TimHandle s1) + d"
    using env [OF 1(1)] steps_ok 1(1) unfolding s(2) by blast+
  have 3: "clock_ok thal running ticks P s3" "ticks (TimHandle s2) \<le> ticks (TimHandle s3)"
      "epoch thal ticks P (TimHandle s2) \<le> epoch thal ticks P (TimHandle s3)" "ticks (TimHandle s3) \<le> ticks (TimHandle s2) + d"
    using env [OF 2(1)] steps_ok 2(1) unfolding s(3) by blast+
  have r: "running (TimHandle s2)" "running (TimHandle s3)" using 2(1) 3(1) by (simp_all add: clock_ok_def)
  have loop: "timestamp_rounds (Suc k) thal env n s = (case TIM_GetCounterValueAndUpdateInterruptFlag thal (TimHandle s2) of (cnt, uif) \<Rightarrow>
      if Time s1 \<noteq> Time s3 then timestamp_rounds k thal env (n + 3) s3
      else Some (if uif \<noteq> 0 then Time s1 + ucast (cnt * TIMx_TIME_RESOLUTION) + FDCAN_GetTimerPeriodHook thal (TimHandle s3)
                 else Time s1 + ucast (cnt * TIMx_TIME_RESOLUTION), s3))" for k
    unfolding s by (simp only: timestamp_rounds.simps Let_def)
  show thesis
  proof (cases "Time s1 = Time s3")
    case True
    then have "epoch thal ticks P (TimHandle s1) = epoch thal ticks P (TimHandle s3)"
      using same_time [OF 1(1) 3(1)] 2 3 d by linarith
    then have "epoch thal ticks P (TimHandle s1) = epoch thal ticks P (TimHandle s2)" using 2(3) 3(3) by linarith
    then have T: "Time s1 = Time s2" using 1(1) 2(1) by (simp add: clock_ok_def)
    have "timestamp_rounds (Suc k) thal env n s = Some (of_nat (ticks (TimHandle s2)), s3)" for k
      using True reading [OF 2(1)] T
      by (simp add: loop counter_read [OF r(1)] period_hook [OF r(2)] del: timestamp_rounds.simps split: if_splits)
    then show thesis by (rule that(1)) (use 1 2 3 in auto)
  next
    case False
    then have l: "timestamp_rounds (Suc k) thal env n s = timestamp_rounds k thal env (n + 3) s3" for k
      by (simp add: loop del: timestamp_rounds.simps split: prod.split)
    have e: "epoch thal ticks P (TimHandle s1) < epoch thal ticks P (TimHandle s3)"
    proof (rule ccontr)
      assume "\<not> epoch thal ticks P (TimHandle s1) < epoch thal ticks P (TimHandle s3)"
      then have "epoch thal ticks P (TimHandle s1) = epoch thal ticks P (TimHandle s3)" using 2(3) 3(3) by linarith
      then show False using False 1(1) 3(1) by (simp add: clock_ok_def)
    qed
    show thesis by (rule that(2) [OF l 3(1)]) (use e 1 2 3 in auto)
  qed
qed

text \<open>Three rounds take less than a period, in which at most two interrupts of the timer can run: one
  for the overflow before and one for the overflow meanwhile.\<close>

lemma timestamp_three_rounds:
  assumes ok: "clock_ok thal running ticks P s"
    and env: "\<And>n s. clock_ok thal running ticks P s \<Longrightarrow> clock_steps thal hal running ticks P s (env n s) \<and>
      ticks (TimHandle (env n s)) \<le> ticks (TimHandle s) + d" and d: "9 * d < P"
  shows "\<exists>t s' T. timestamp_rounds 3 thal env n s = Some (t, s') \<and> clock_ok thal running ticks P s' \<and> t = of_nat T \<and>
    ticks (TimHandle s) \<le> T \<and> T \<le> ticks (TimHandle s') \<and> ticks (TimHandle s') \<le> ticks (TimHandle s) + 9 * d"
proof -
  let ?done = "\<lambda>k n s e. \<exists>t s' T. timestamp_rounds (Suc k) thal env n s = Some (t, s') \<and> clock_ok thal running ticks P s' \<and>
    t = of_nat T \<and> ticks (TimHandle s) \<le> T \<and> T \<le> ticks (TimHandle s') \<and> ticks (TimHandle s') \<le> ticks (TimHandle s) + e"
  let ?next = "\<lambda>n s s'. (\<forall>k. timestamp_rounds (Suc k) thal env n s = timestamp_rounds k thal env (n + 3) s') \<and>
    clock_ok thal running ticks P s' \<and> epoch thal ticks P (TimHandle s) < epoch thal ticks P (TimHandle s') \<and>
    ticks (TimHandle s) \<le> ticks (TimHandle s') \<and> ticks (TimHandle s') \<le> ticks (TimHandle s) + 3 * d"
  have round: "?done k n s (3 * d) \<or> (\<exists>s'. ?next n s s')" if "clock_ok thal running ticks P s" for k n s
    by (rule timestamp_round [where env = env and n = n, OF that env d]) blast+
  have go: "?done (Suc k) n s (e + 3 * d)" if a: "?next n s s'" and b: "?done k (n + 3) s' e" for k n s s' e
  proof -
    obtain t s2 T where "timestamp_rounds (Suc k) thal env (n + 3) s' = Some (t, s2)" "clock_ok thal running ticks P s2" "t = of_nat T"
        "ticks (TimHandle s') \<le> T" "T \<le> ticks (TimHandle s2)" "ticks (TimHandle s2) \<le> ticks (TimHandle s') + e" using b by blast
    then show ?thesis using a by (intro exI [of _ t] exI [of _ s2] exI [of _ T]) (simp del: timestamp_rounds.simps)
  qed
  have three: "?thesis" if "?done 2 n s e" "e \<le> 9 * d" for e
  proof -
    have "Suc 2 = 3" by simp
    then show ?thesis using that order_trans [of _ "ticks (TimHandle s) + e" "ticks (TimHandle s) + 9 * d"] by auto
  qed
  consider "?done 2 n s (3 * d)" | s1 where "?next n s s1" using round [OF ok] by blast
  then show ?thesis
  proof cases
    case 1
    then show ?thesis by (rule three) simp
  next
    case s1: (2 s1)
    consider "?done 1 (n + 3) s1 (3 * d)" | s2 where "?next (n + 3) s1 s2" using round s1 by blast
    then show ?thesis
    proof cases
      case 1
      from go [OF s1 this] have "?done 2 n s (3 * d + 3 * d)" unfolding Suc_1 .
      then show ?thesis by (rule three) simp
    next
      case s2: (2 s2)
      consider "?done 0 (n + 3 + 3) s2 (3 * d)" | s3 where "?next (n + 3 + 3) s2 s3" using round s2 by blast
      then show ?thesis
      proof cases
        case 1
        from go [OF s1 go [OF s2 this]] have "?done 2 n s (3 * d + 3 * d + 3 * d)" unfolding One_nat_def [symmetric] Suc_1 .
        then show ?thesis by (rule three) simp
      next
        case s3: (2 s3)
        have "ticks (TimHandle s3) \<le> ticks (TimHandle s) + P" using s1 s2 s3 d by linarith
        then have "ticks (TimHandle s3) div P \<le> (ticks (TimHandle s) + P) div P" by (rule div_le_mono)
        then have "ticks (TimHandle s3) div P \<le> ticks (TimHandle s) div P + 1" using period(1) by (simp add: div_add_self2)
        then show ?thesis using epoch_le(1) [of "TimHandle s3"] epoch_le(2) [of "TimHandle s"] s1 s2 s3 by linarith
      qed
    qed
  qed
qed

end
section \<open>The time stamps of the interrupt\<close>

locale clocked_can = hal_fdcan hal started fifo + timer_counter thal running ticks P
  for hal :: "'h fdcan_hal" and started fifo and thal :: "'t tim_hal" and running ticks P
begin

lemma sample_time:
  assumes "running (TimHandle s)"
  shows "FDCAN_GetTimestampHook thal (\<lambda>n s. s) s =
    Some (Time s + of_nat (ticks (TimHandle s) mod P) + (if TIM_UPDATE_PENDING thal (TimHandle s) then of_nat P else 0), s)"
proof -
  have "ticks (TimHandle s) mod P < 65536" using period mod_less_divisor [of P "ticks (TimHandle s)"] by linarith
  then have "ucast (of_nat (ticks (TimHandle s) mod P) :: u32) = (of_nat (ticks (TimHandle s) mod P) :: u64)"
    by (simp add: word_unat_eq_iff unsigned_ucast_eq unat_of_nat take_bit_nat_eq_self)
  then show ?thesis unfolding FDCAN_GetTimestampHook_def
    by (subst timestamp_loop.simps) (simp add: counter_read [OF assms] period_hook [OF assms] Let_def)
qed

lemma sample_exact:
  assumes "clock_ok thal running ticks P s"
  shows "FDCAN_GetTimestampHook thal (\<lambda>n s. s) s = Some (of_nat (ticks (TimHandle s)), s)"
proof -
  have r: "running (TimHandle s)" using assms by (simp add: clock_ok_def)
  have "ticks (TimHandle s) mod P < 65536" using period mod_less_divisor [of P "ticks (TimHandle s)"] by linarith
  then have "ucast (of_nat (ticks (TimHandle s) mod P) :: u32) = (of_nat (ticks (TimHandle s) mod P) :: u64)"
    by (simp add: word_unat_eq_iff unsigned_ucast_eq unat_of_nat take_bit_nat_eq_self)
  then show ?thesis using reading [OF assms] by (simp add: sample_time [OF r])
qed

text \<open>Between the clearing of the flag and the addition of the period the time is one period low.\<close>

lemma sample_preempted:
  assumes "clock_ok thal running ticks P s" "TIM_UPDATE_PENDING thal (TimHandle s)"
  shows "FDCAN_GetTimestampHook thal (\<lambda>n s. s) (clear_update thal s) = Some (of_nat (ticks (TimHandle s) - P), clear_update thal s)"
proof -
  let ?n = "ticks (TimHandle s)"
  have c: "running (TimHandle (clear_update thal s))" "ticks (TimHandle (clear_update thal s)) = ?n"
      "\<not> TIM_UPDATE_PENDING thal (TimHandle (clear_update thal s))" "P \<le> ?n" "Time (clear_update thal s) = of_nat (P * (?n div P - 1))"
    using assms clear by (auto simp: clock_ok_def clear_update_def epoch_def)
  have "0 < ?n div P" using c(4) period(1) by (simp add: div_greater_zero_iff)
  then obtain k where "?n div P = Suc k" using gr0_conv_Suc by blast
  then have "P * (?n div P - 1) + ?n mod P = ?n - P" using mult_div_mod_eq [of P ?n] c(4) by simp
  from arg_cong [OF this, of "of_nat :: nat \<Rightarrow> u64"] show ?thesis using c(3) by (simp add: sample_time [OF c(1)] c(2,5))
qed

text \<open>Arrivals one period earlier have the same count.\<close>

lemma arrivals_back:
  assumes a: "arrivals_ok hal P G L ms Ts" and G: "2 * P \<le> G" and L': "L' < 9223372036854775808"
  shows "arrivals_ok hal P (G - P) L' ms (map (\<lambda>T. T - P) Ts)"
proof -
  have T: "P \<le> T \<and> 2 * \<bar>int (G - P) - int (T - P)\<bar> < int P \<and> T - P < 4611686018427387904 \<and>
      (L' \<le> T - P + P div 2 \<or> G - P < L') \<and> (T - P) mod P = T mod P" if "T \<in> set Ts" for T
  proof -
    have t: "2 * \<bar>int G - int T\<bar> < int P" "T < 4611686018427387904" using a that by (auto simp: arrivals_ok_def)
    have g: "2 * (int G - int T) < int P" by (rule order.strict_trans1 [OF mult_left_mono [OF abs_ge_self] t(1)]) simp
    then have n: "2 * G < 2 * T + P" by presburger
    then have le: "P \<le> T" "G - P \<le> T - P + P div 2" using G by linarith+
    have "2 * \<bar>int (G - P) - int (T - P)\<bar> < int P" using t(1) le(1) G by (simp add: of_nat_diff)
    moreover have "L' \<le> T - P + P div 2 \<or> G - P < L'" using le(2) by linarith
    ultimately show ?thesis using t(2) le(1) le_mod_geq [OF le(1)] by simp
  qed
  have "sorted (map (\<lambda>T. T - P) Ts)" using a by (auto simp: arrivals_ok_def sorted_map intro: sorted_wrt_mono_rel [where P = "(\<le>)"])
  moreover have "RxTimestamp (fst (ms ! i)) = of_nat (map (\<lambda>T. T - P) Ts ! i mod P) \<and> (\<exists>n \<le> 8. carries hal n (ms ! i))"
    if "i < length ms" for i
    using a that T [of "Ts ! i"] by (auto simp: arrivals_ok_def)
  moreover have "\<forall>T' \<in> set (map (\<lambda>T. T - P) Ts). 2 * \<bar>int (G - P) - int T'\<bar> < int P \<and> T' < 4611686018427387904 \<and>
      (L' \<le> T' + P div 2 \<or> G - P < L' \<and> L' < 9223372036854775808)"
  proof
    fix T' assume "T' \<in> set (map (\<lambda>T. T - P) Ts)"
    then obtain T where "T' = T - P" "T \<in> set Ts" by (metis (no_types, lifting) imageE list.set_map)
    then show "2 * \<bar>int (G - P) - int T'\<bar> < int P \<and> T' < 4611686018427387904 \<and>
      (L' \<le> T' + P div 2 \<or> G - P < L' \<and> L' < 9223372036854775808)" using T [of T] L' by blast
  qed
  moreover have "length Ts = length ms" using a by (simp add: arrivals_ok_def)
  ultimately show ?thesis unfolding arrivals_ok_def length_map by blast
qed

text \<open>The interrupt when its sample of the time is \<open>G\<close>.\<close>

lemma interrupt_at:
  assumes smp: "FDCAN_GetTimestampHook thal (\<lambda>n s. s) s = Some (of_nat G, s)" and r: "running (TimHandle s)"
    and G: "G < 4611686018427387904" and its: "its AND FDCAN_IRQ_NOTIFICATION hal \<noteq> 0"
    and c: "ring_ok (RxRingBuffer (can1 (can s)))" "started (hfdcan (driver (can1 (can s))))" "LastHardwareTimestamp (can1 (can s)) = of_nat L"
      "arrivals_ok hal P G L (fifo (hfdcan (driver (can1 (can s))))) Ts" "length (frame_data junk) = 8"
  shows "\<exists>s' fs. FDCAN_1_IRQHandler thal hal junk its s = Some s' \<and>
    length fs = min 54 (length (fifo (hfdcan (driver (can1 (can s)))))) \<and>
    fifo (hfdcan (driver (can1 (can s')))) = drop 54 (fifo (hfdcan (driver (can1 (can s))))) \<and>
    ring_frames (RxRingBuffer (can1 (can s'))) = take 640 (ring_frames (RxRingBuffer (can1 (can s))) @ fs) \<and>
    (\<forall>i < length fs. frame_channel (fs ! i) = 1 \<and> rx_sequence (fs ! i) = SequenceIndex (can1 (can s)) + of_nat (Suc i) \<and>
      (\<exists>n. frame_of_message hal n (fifo (hfdcan (driver (can1 (can s)))) ! i) (Ts ! i) (fs ! i)))"
proof -
  have "FDCAN_1_IRQHandler thal hal junk its s = Some (s\<lparr>can := can1_interrupt hal (of_nat P) junk (of_nat G) its (can s)\<rparr>)"
    by (simp add: FDCAN_1_IRQHandler_def smp period_hook [OF r])
  moreover from interrupt_content [OF period G its c] obtain fs where
      "length fs = min 54 (length (fifo (hfdcan (driver (can1 (can s))))))"
      "fifo (hfdcan (driver (can1 (can1_interrupt hal (of_nat P) junk (of_nat G) its (can s))))) = drop 54 (fifo (hfdcan (driver (can1 (can s)))))"
      "ring_frames (RxRingBuffer (can1 (can1_interrupt hal (of_nat P) junk (of_nat G) its (can s)))) = take 640 (ring_frames (RxRingBuffer (can1 (can s))) @ fs)"
      "\<forall>i < min 54 (length (fifo (hfdcan (driver (can1 (can s)))))). frame_channel (fs ! i) = 1 \<and> rx_sequence (fs ! i) = SequenceIndex (can1 (can s)) + of_nat (Suc i) \<and>
        (\<exists>n. frame_of_message hal n (fifo (hfdcan (driver (can1 (can s)))) ! i) (Ts ! i) (fs ! i))"
    unfolding Let_def by (elim conjE exE) metis
  ultimately show ?thesis by (intro exI [of _ "s\<lparr>can := can1_interrupt hal (of_nat P) junk (of_nat G) its (can s)\<rparr>"] exI [of _ fs]) simp
qed

end

section \<open>A timer that keeps the contract\<close>

record stub_timer =
  stub_ticks :: nat
  stub_update :: bool

text \<open>A period of 64000 ticks, at 100 MHz on the bus and a divider of 2.\<close>

definition stub_tim :: "stub_timer tim_hal" where
  "stub_tim =
     \<lparr>APB1CLKDivider = 4, APB2CLKDivider = 4, RCC_HCLK_DIV1 = 0, HAL_RCC_GetPCLK1Freq = 100000000,
      HAL_RCC_GetPCLK2Freq = 100000000, TIM_COUNTERMODE_UP = 0, HAL_TIM_Base_Init = (\<lambda>i c t. (True, t)),
      HAL_TIM_UIFREMAP_ENABLE = (\<lambda>t. t), HAL_TIM_Base_Start_IT = (\<lambda>t. (True, t)),
      HAL_TIM_GetCounter = (\<lambda>t. of_nat (stub_ticks t mod 64000) OR (if stub_update t then 0x80000000 else 0)),
      HAL_TIM_GetAutoreload = (\<lambda>t. 63999), HAL_TIM_GET_UIFCPY = (\<lambda>x. x AND 0x80000000 = 0x80000000),
      reg_CR1 = (\<lambda>t. 0x800), TIM_CR1_UIFREMAP = 0x800, TIM_CNT_UIFCPY = 0x80000000,
      TIM_UPDATE_PENDING = stub_update, TIM_CLEAR_UPDATE = (\<lambda>t. t\<lparr>stub_update := False\<rparr>)\<rparr>"

interpretation stub_clock: clocked_can stub_hal stub_started "\<lambda>h. take 64 (stub_fifo h)" stub_tim "\<lambda>t. True" stub_ticks 64000
  by unfold_locales (simp_all add: stub_tim_def)

section \<open>Properties\<close>

text \<open>C36. Reading the time while the interrupt of the timer and everything else run between the accesses: if less than
  a ninth of a timer period passes before each access, the loop ends within three rounds, and the result is the
  number of ticks at some moment of the call, also when the counter has just overflowed and the interrupt has
  not run.  The call takes at most nine of these gaps.\<close>

theorem timestamp_exact:
  assumes "timer_counter thal running ticks P" "clock_ok thal running ticks P s" "9 * d < P"
    and "\<And>n s. clock_ok thal running ticks P s \<Longrightarrow> clock_steps thal hal running ticks P s (env n s) \<and>
      ticks (TimHandle (env n s)) \<le> ticks (TimHandle s) + d"
  shows "\<exists>t s' T. FDCAN_GetTimestampHook thal env s = Some (t, s') \<and> timestamp_rounds 3 thal env 0 s = Some (t, s') \<and>
    clock_ok thal running ticks P s' \<and> t = of_nat T \<and>
    ticks (TimHandle s) \<le> T \<and> T \<le> ticks (TimHandle s') \<and> ticks (TimHandle s') \<le> ticks (TimHandle s) + 9 * d"
  using timer_counter.timestamp_three_rounds [where env = env and n = 0, OF assms(1,2,4,3)] timestamp_rounds_loop
  unfolding FDCAN_GetTimestampHook_def by blast

text \<open>The counter has overflowed three ticks ago and its interrupt runs between the first two accesses.\<close>

definition sample_ctrl :: "nat \<Rightarrow> bool \<Rightarrow> u64 \<Rightarrow> (stub_fdcan, PageType list, stub_timer) ctrl_state" where
  "sample_ctrl n u T = \<lparr>Time = T, TimHandle = \<lparr>stub_ticks = n, stub_update = u\<rparr>, can = sample_can\<rparr>"

definition sample_env ::
  "nat \<Rightarrow> (stub_fdcan, PageType list, stub_timer) ctrl_state \<Rightarrow> (stub_fdcan, PageType list, stub_timer) ctrl_state" where
  "sample_env n s = (if n = 1 then TIMx_IRQHandler stub_tim stub_hal s else s)"

lemma sample_clock_ok: "clock_ok stub_tim (\<lambda>t. True) stub_ticks 64000 (sample_ctrl 128003 True 64000)"
  by (simp add: clock_ok_def epoch_def sample_ctrl_def stub_tim_def)

theorem timestamp_exact_witness:
  "\<exists>s'. FDCAN_GetTimestampHook stub_tim sample_env (sample_ctrl 128003 True 64000) = Some (128003, s')"
proof -
  have "clock_steps stub_tim stub_hal (\<lambda>t. True) stub_ticks 64000 s (sample_env n s) \<and>
      stub_ticks (TimHandle (sample_env n s)) \<le> stub_ticks (TimHandle s) + 0" for n s
  proof
    show "clock_steps stub_tim stub_hal (\<lambda>t. True) stub_ticks 64000 s (sample_env n s)"
      by (simp add: sample_env_def clock_steps.none clock_steps.timer)
    show "stub_ticks (TimHandle (sample_env n s)) \<le> stub_ticks (TimHandle s) + 0"
      by (simp add: sample_env_def TIMx_IRQHandler_def TIM_InterruptCallback_def clear_update_def stub_tim_def Let_def)
  qed
  from timestamp_exact [OF stub_clock.timer_counter_axioms sample_clock_ok, where hal = stub_hal and env = sample_env and d = 0] this
  obtain t s' T where "FDCAN_GetTimestampHook stub_tim sample_env (sample_ctrl 128003 True 64000) = Some (t, s')" "t = of_nat T"
      "128003 \<le> T" "T \<le> stub_ticks (TimHandle s')" "stub_ticks (TimHandle s') \<le> 128003"
    by (auto simp: sample_ctrl_def)
  moreover from this have "T = 128003" by linarith
  ultimately show ?thesis by auto
qed

text \<open>C4. The interrupt of the first controller, with its sample of the time: the oldest messages of the FIFO, at
  most 54, enter the ring, as far as it has room, with their content, the next numbers and the time in ticks at which each
  arrived, also just after an overflow of the timer that has not been served.  It is required of the messages
  (\<open>arrivals_ok\<close>) that each has a length code of at most 8 and arrived less than half a period ago.\<close>

theorem interrupt_dates_frames:
  assumes "clocked_can hal started fifo thal running ticks P" "clock_ok thal running ticks P s"
    "ticks (TimHandle s) < 4611686018427387904" "its AND FDCAN_IRQ_NOTIFICATION hal \<noteq> 0"
    "ring_ok (RxRingBuffer (can1 (can s)))" "started (hfdcan (driver (can1 (can s))))" "LastHardwareTimestamp (can1 (can s)) = of_nat L"
    "arrivals_ok hal P (ticks (TimHandle s)) L (fifo (hfdcan (driver (can1 (can s))))) Ts" "length (frame_data junk) = 8"
  shows "\<exists>s' fs. FDCAN_1_IRQHandler thal hal junk its s = Some s' \<and>
    length fs = min 54 (length (fifo (hfdcan (driver (can1 (can s)))))) \<and>
    fifo (hfdcan (driver (can1 (can s')))) = drop 54 (fifo (hfdcan (driver (can1 (can s))))) \<and>
    ring_frames (RxRingBuffer (can1 (can s'))) = take 640 (ring_frames (RxRingBuffer (can1 (can s))) @ fs) \<and>
    (\<forall>i < length fs. frame_channel (fs ! i) = 1 \<and> rx_sequence (fs ! i) = SequenceIndex (can1 (can s)) + of_nat (Suc i) \<and>
      (\<exists>n. frame_of_message hal n (fifo (hfdcan (driver (can1 (can s)))) ! i) (Ts ! i) (fs ! i)))"
proof -
  have r: "running (TimHandle s)" using assms(2) by (simp add: clock_ok_def)
  show ?thesis by (rule clocked_can.interrupt_at [OF assms(1) clocked_can.sample_exact [OF assms(1,2)] r assms(3-9)])
qed

text \<open>A message with the time stamp 63998 that arrived three ticks before the overflow.\<close>

definition late_message :: "FDCAN_RxHeaderTypeDef \<times> bytes" where
  "late_message = (stub_header\<lparr>Identifier := 0x321, DataLength := 2, RxTimestamp := 63998\<rparr>, [7, 9])"

definition late_ctrl :: "(stub_fdcan, PageType list, stub_timer) ctrl_state" where
  "late_ctrl = (sample_ctrl 128003 True 64000)\<lparr>can := sample_can\<lparr>can1 := sample_chan\<lparr>driver :=
     sample_dev\<lparr>hfdcan := \<lparr>stub_started = True, stub_fifo = [late_message], stub_error = 0\<rparr>\<rparr>\<rparr>\<rparr>\<rparr>"

lemma late_ctrl_simps:
  "ring_ok (RxRingBuffer (can1 (can late_ctrl)))" "stub_started (hfdcan (driver (can1 (can late_ctrl))))"
  "LastHardwareTimestamp (can1 (can late_ctrl)) = of_nat 0" "SequenceIndex (can1 (can late_ctrl)) = 0"
  "RxRingBuffer (can1 (can late_ctrl)) = rx_ring_boot" "take 64 (stub_fifo (hfdcan (driver (can1 (can late_ctrl))))) = [late_message]"
  "stub_ticks (TimHandle late_ctrl) = 128003" "length (frame_data sample_frame) = 8"
  "clock_ok stub_tim (\<lambda>t. True) stub_ticks 64000 late_ctrl" "stub_update (TimHandle late_ctrl)"
  using ring_boot_ok sample_clock_ok
  by (simp_all add: late_ctrl_def sample_ctrl_def sample_chan_def sample_frame_def zero_frame_def clock_ok_def)

lemma late_arrival: "arrivals_ok stub_hal 64000 128003 0 [late_message] [127998]"
proof -
  have "carries stub_hal 2 late_message" by (simp add: carries_def stub_hal_def late_message_def stub_header_def)
  then show ?thesis by (auto simp: arrivals_ok_def late_message_def intro!: exI [of _ 2])
qed

theorem interrupt_dates_frames_witness:
  "\<exists>s' f n. FDCAN_1_IRQHandler stub_tim stub_hal sample_frame 2 late_ctrl = Some s' \<and>
     ring_frames (RxRingBuffer (can1 (can s'))) = [f] \<and> frame_of_message stub_hal n late_message 127998 f"
proof -
  from interrupt_dates_frames [OF stub_clock.clocked_can_axioms late_ctrl_simps(9) _ _ late_ctrl_simps(1,2,3), of 2 "[127998]" sample_frame]
  obtain s' fs where *: "FDCAN_1_IRQHandler stub_tim stub_hal sample_frame 2 late_ctrl = Some s'" "length fs = 1"
      "ring_frames (RxRingBuffer (can1 (can s'))) = take 640 (ring_frames rx_ring_boot @ fs)"
      "\<exists>n. frame_of_message stub_hal n late_message 127998 (fs ! 0)"
    using late_arrival by (auto simp: late_ctrl_simps sample_can_simps)
  moreover have "ring_frames rx_ring_boot = []" using ring_boot_ok by simp
  moreover obtain f where "fs = [f]" using *(2) by (metis length_Suc_conv length_0_conv One_nat_def)
  ultimately show ?thesis by auto
qed

text \<open>C37. The interrupt of a controller has the higher priority and can preempt that of the timer between the
  clearing of the update flag and the addition of the period.  Then every frame it reads is dated
  exactly one period too early, whatever the last time stamp was.\<close>

theorem preempted_timer_dates_back:
  assumes "clocked_can hal started fifo thal running ticks P" "clock_ok thal running ticks P s" "TIM_UPDATE_PENDING thal (TimHandle s)"
    "2 * P \<le> ticks (TimHandle s)" "ticks (TimHandle s) < 4611686018427387904" "its AND FDCAN_IRQ_NOTIFICATION hal \<noteq> 0"
    "ring_ok (RxRingBuffer (can1 (can s)))" "started (hfdcan (driver (can1 (can s))))"
    "LastHardwareTimestamp (can1 (can s)) = of_nat L" "L < 9223372036854775808"
    "arrivals_ok hal P (ticks (TimHandle s)) 0 (fifo (hfdcan (driver (can1 (can s))))) Ts" "length (frame_data junk) = 8"
  shows "\<exists>s' fs. FDCAN_1_IRQHandler thal hal junk its (clear_update thal s) = Some s' \<and>
    length fs = min 54 (length (fifo (hfdcan (driver (can1 (can s)))))) \<and>
    ring_frames (RxRingBuffer (can1 (can s'))) = take 640 (ring_frames (RxRingBuffer (can1 (can s))) @ fs) \<and>
    (\<forall>i < length fs. frame_timestamp (fs ! i) = of_nat (Ts ! i - P))"
proof -
  let ?s = "clear_update thal s"
  have eq: "can ?s = can s" by (simp add: clear_update_def)
  have r: "running (TimHandle ?s)"
    using assms(2) timer_counter.clear [OF clocked_can.axioms(2) [OF assms(1)]] by (simp add: clock_ok_def clear_update_def)
  have lt: "ticks (TimHandle s) - P < 4611686018427387904" using assms(5) by linarith
  from clocked_can.interrupt_at [OF assms(1) clocked_can.sample_preempted [OF assms(1-3)] r lt assms(6), unfolded eq,
      OF assms(7-9) clocked_can.arrivals_back [OF assms(1,11,4,10)] assms(12)]
  obtain s' fs where *: "FDCAN_1_IRQHandler thal hal junk its ?s = Some s'"
      "length fs = min 54 (length (fifo (hfdcan (driver (can1 (can s))))))"
      "ring_frames (RxRingBuffer (can1 (can s'))) = take 640 (ring_frames (RxRingBuffer (can1 (can s))) @ fs)"
      "\<forall>i < length fs. \<exists>n. frame_of_message hal n (fifo (hfdcan (driver (can1 (can s)))) ! i) (map (\<lambda>T. T - P) Ts ! i) (fs ! i)"
    by blast
  have "length fs \<le> length Ts" using *(2) assms(11) by (simp add: arrivals_ok_def)
  with * show ?thesis by (intro exI [of _ s'] exI [of _ fs]) (auto simp: frame_of_message_def)
qed

theorem preempted_timer_dates_back_witness:
  "\<exists>s' f. FDCAN_1_IRQHandler stub_tim stub_hal sample_frame 2 (clear_update stub_tim late_ctrl) = Some s' \<and>
     ring_frames (RxRingBuffer (can1 (can s'))) = [f] \<and> frame_timestamp f = 63998"
proof -
  have u: "TIM_UPDATE_PENDING stub_tim (TimHandle late_ctrl)" using late_ctrl_simps(10) by (simp add: stub_tim_def)
  from preempted_timer_dates_back [OF stub_clock.clocked_can_axioms late_ctrl_simps(9) u _ _ _ late_ctrl_simps(1,2,3), of 2 "[127998]" sample_frame]
  obtain s' fs where *: "FDCAN_1_IRQHandler stub_tim stub_hal sample_frame 2 (clear_update stub_tim late_ctrl) = Some s'" "length fs = 1"
      "ring_frames (RxRingBuffer (can1 (can s'))) = take 640 (ring_frames rx_ring_boot @ fs)" "frame_timestamp (fs ! 0) = 63998"
    using late_arrival by (auto simp: late_ctrl_simps sample_can_simps)
  moreover have "ring_frames rx_ring_boot = []" using ring_boot_ok by simp
  moreover obtain f where "fs = [f]" using *(2) by (metis length_Suc_conv length_0_conv One_nat_def)
  ultimately show ?thesis by auto
qed

end
