(* ===== verification/CanLogPoll.thy ===== *)
theory CanLogPoll
  imports CanLogStore CanCtrl SequenceChecker RuntimeChecks
begin

text \<open>
  \<open>app/services/logging/CanLogManager.c\<close>, the task that reads the frames: \<open>appCanLogHandlerPoll\<close>
  starts and stops the logger, takes frames from the message port, makes an entry of each and puts it
  into the staging buffer of \<open>CanLogStore\<close>.  \<open>ingest_state\<close> joins the state of the CAN side
  (\<open>CanAbs\<close>), of the log (\<open>CanLogStore\<close>) and the variables of the poll.  This theory has the model
  and the entries the poll makes; \<open>CanLogIngest\<close> has its histories and properties.
\<close>

section \<open>State\<close>

text \<open>The floating point operations the bus load uses; \<open>float_lit a b\<close> is the literal \<open>a / b\<close>.  Only the
  shown bus load depends on them.\<close>

record 'x float_ops =
  float_of_u32 :: "u32 \<Rightarrow> 'x"
  float_lit :: "nat \<Rightarrow> nat \<Rightarrow> 'x"
  float_mult :: "'x \<Rightarrow> 'x \<Rightarrow> 'x"
  float_divide :: "'x \<Rightarrow> 'x \<Rightarrow> 'x"
  float_less :: "'x \<Rightarrow> 'x \<Rightarrow> bool"

record 'x CanStatusDataType =
  receivedFrames :: u64
  prevTimestamp :: u32
  bus_baudrate :: u32
  busLoad :: 'x
  accumulatedBits :: u32
  accumulatedTime :: u32

text \<open>\<open>CanLogCtrlData\<close> beside its log, with what its pointers point to, and the static variables of the
  poll.  The counters of \<open>RuntimeChecks\<close> are one set of globals: those of the receiving side are kept in
  \<open>port_counters\<close>, those of the logger in \<open>clb_counters\<close>.\<close>

record ('h, 'b, 'r, 'v, 'f, 'x) ingest_state =
  rx_side :: "('h, 'b) can_state"
  log_side :: "('r, 'v, 'f) clm_state"
  Can1 :: "'x CanStatusDataType"
  Can2 :: "'x CanStatusDataType"
  runCanTracer :: bool
  commitLog :: bool
  runCanTracerOld :: bool
  framesLost :: bool
  emitSyncEntry :: bool
  CAN1_Sequence :: ScSequenceType
  CAN2_Sequence :: ScSequenceType
  CAN1_SequenceIndex :: u32
  CAN2_SequenceIndex :: u32
  NextPeriodicSyncAbsTime :: u64
  LastFrameTimestamp :: u32
  LastFrameTimestampValid :: bool
  sd_notified :: bool

text \<open>The code around: the drivers, the clock, the floating point unit, what an uninitialised frame
  holds, what lies in memory behind the eight data bytes of a frame, and what the instrumentation wants
  to have stored (\<open>None\<close> when it fails).\<close>

record ('h, 'b, 'r, 'v, 'f, 'x) ingest_env =
  fdcan_of :: "'h fdcan_hal"
  mbuf_of :: "'b mbuf_ops"
  lwrb_of :: "'r lwrb_ops"
  fatfs_of :: "('v, 'f) fatfs_ops"
  clock_of :: "nat \<Rightarrow> u64"
  period_of :: u64
  junk_frame :: FDCAN_ClassicFrameType
  junk_file :: "'f FatFsDeviceType"
  behind_data :: "FDCAN_ClassicFrameType \<Rightarrow> bytes"
  instrumentation :: "bytes option"
  float_of :: "'x float_ops"

definition ingest_error :: "('h, 'b, 'r, 'v, 'f, 'x) ingest_state \<Rightarrow> ('h, 'b, 'r, 'v, 'f, 'x) ingest_state" where
  "ingest_error s = s\<lparr>log_side := CanLogFileManager_ErrorHandler (log_side s)\<rparr>"

definition ingest_time ::
  "('h, 'b, 'r, 'v, 'f, 'x) ingest_env \<Rightarrow> ('h, 'b, 'r, 'v, 'f, 'x) ingest_state \<Rightarrow> u64 \<times> ('h, 'b, 'r, 'v, 'f, 'x) ingest_state" where
  "ingest_time E s =
     (case CanLogStore.FDCAN_GetTimestampHook (clock_of E) (log_side s) of (t, l) \<Rightarrow> (t, s\<lparr>log_side := l\<rparr>))"

text \<open>\<open>RuntimeChecks_Init\<close> and \<open>RuntimeChecks_CheckFrameCounts\<close> on the two places.\<close>

definition reset_counters :: "('h, 'b, 'r, 'v, 'f, 'x) ingest_state \<Rightarrow> ('h, 'b, 'r, 'v, 'f, 'x) ingest_state" where
  "reset_counters s =
     (let g = msg_port (rx_side s); l = log_side s; b = clm_buf l
      in s\<lparr>rx_side := (rx_side s)\<lparr>msg_port := g\<lparr>port_counters := RuntimeChecks_Init (port_counters g)\<rparr>\<rparr>,
           log_side := l\<lparr>clm_buf := b\<lparr>clb_counters := RuntimeChecks_Init (clb_counters b)\<rparr>\<rparr>\<rparr>)"

definition all_counters :: "('h, 'b, 'r, 'v, 'f, 'x) ingest_state \<Rightarrow> counters" where
  "all_counters s =
     (let p = port_counters (msg_port (rx_side s))
      in (clb_counters (clm_buf (log_side s)))\<lparr>CanAbs_FrameCount := CanAbs_FrameCount p,
           CanAbs_FrameDropCount := CanAbs_FrameDropCount p,
           CanAbs_CAN1_Rx_FrameDropCount := CanAbs_CAN1_Rx_FrameDropCount p,
           CanAbs_CAN2_Rx_FrameDropCount := CanAbs_CAN2_Rx_FrameDropCount p,
           CanBridgeTask_FrameCount := CanBridgeTask_FrameCount p,
           FcdanMsgPort_FrameDropCount := FcdanMsgPort_FrameDropCount p\<rparr>)"

definition log_counters :: "(counters \<Rightarrow> counters) \<Rightarrow> ('h, 'b, 'r, 'v, 'f, 'x) ingest_state \<Rightarrow> ('h, 'b, 'r, 'v, 'f, 'x) ingest_state" where
  "log_counters f s =
     (let l = log_side s; b = clm_buf l in s\<lparr>log_side := l\<lparr>clm_buf := b\<lparr>clb_counters := f (clb_counters b)\<rparr>\<rparr>\<rparr>)"

definition check_counters ::
  "('h, 'b, 'r, 'v, 'f, 'x) ingest_state \<Rightarrow> RuntimeChecksErrorType \<times> ('h, 'b, 'r, 'v, 'f, 'x) ingest_state" where
  "check_counters s =
     (case RuntimeChecks_CheckFrameCounts (all_counters s) of (err, c) \<Rightarrow>
        (err, log_counters (\<lambda>k. k\<lparr>FrameDelta1 := FrameDelta1 c, ErrorHandlerCalls := ErrorHandlerCalls c\<rparr>) s))"

section \<open>Bus load\<close>

definition m_ComputeFrameBits :: "u8 \<Rightarrow> u32" where
  "m_ComputeFrameBits flags =
     (let d = flags AND 0x0F;
          Dlc = (if d = 9 then 12 else if d = 10 then 16 else if d = 11 then 20 else if d = 12 then 24
                 else if d = 13 then 32 else if d = 14 then 48 else if d = 15 then 64 else d);
          IsCanfd = (flags AND 0x20 \<noteq> 0); IsExtended = (flags AND 0x10 \<noteq> 0)
      in if IsCanfd then
           (if IsExtended then 53 else 33) + ucast Dlc * 8 + (if Dlc \<le> 16 then 17 else 21)
         else (if IsExtended then 67 else 47) + ucast Dlc * 8)"

text \<open>\<open>ts\<close> and \<open>flags\<close> are the members of the entry the function reads; its pointers are not null.\<close>

definition m_ComputeBusLoad :: "'x float_ops \<Rightarrow> u32 \<Rightarrow> u8 \<Rightarrow> 'x CanStatusDataType \<Rightarrow> 'x CanStatusDataType" where
  "m_ComputeBusLoad F ts flags st =
     (if bus_baudrate st = 0 then st
      else if prevTimestamp st = 0 then st\<lparr>prevTimestamp := ts\<rparr>
      else
        let prev = prevTimestamp st;
            (diff, st) =
              (if ts \<ge> prev then (ts - prev, st\<lparr>prevTimestamp := ts\<rparr>)
               else if prev > UINT32_MAX div 2 \<and> ts < UINT32_MAX div 2
                 then ((UINT32_MAX - prev) + ts + 1, st\<lparr>prevTimestamp := ts\<rparr>)
               else (0, st));
            st = st\<lparr>accumulatedBits := accumulatedBits st + m_ComputeFrameBits flags,
                      accumulatedTime := accumulatedTime st + diff\<rparr>
        in if accumulatedTime st \<ge> 1000000 then
             let seconds = float_divide F (float_of_u32 F (accumulatedTime st)) (float_lit F 1000000 1);
                 load = float_mult F
                   (float_divide F (float_mult F (float_of_u32 F (accumulatedBits st)) (float_lit F 11 10))
                     (float_mult F (float_of_u32 F (bus_baudrate st)) seconds)) (float_lit F 100 1);
                 load = (if float_less F (float_lit F 0 1) load \<and> float_less F load (float_lit F 1 100)
                         then float_lit F 1 100 else load)
             in st\<lparr>busLoad := load, accumulatedBits := 0, accumulatedTime := 0\<rparr>
           else st)"

text \<open>The subtraction is done in 32 bits before it is widened, so the branch for a negative difference is never
  taken.\<close>

definition m_DecayBusLoad :: "'x float_ops \<Rightarrow> u32 \<Rightarrow> 'x CanStatusDataType \<Rightarrow> 'x CanStatusDataType" where
  "m_DecayBusLoad F currentTime st =
     (let TimeDiff = uint (currentTime - prevTimestamp st);
          TimeDiff = (if TimeDiff < 0 then uint ((word_of_int (4294967295 + TimeDiff) :: u32) + 1) else TimeDiff)
      in if TimeDiff > 1000000 then
           let load = float_mult F (busLoad st) (float_lit F 3 4)
           in st\<lparr>busLoad := if float_less F load (float_lit F 1 100) then float_lit F 0 1 else load,
                  accumulatedBits := 0, accumulatedTime := 0\<rparr>
         else st)"

section \<open>The entry of a frame\<close>

text \<open>The bytes of the packed entry.  \<open>memcpy\<close> takes what lies behind the array when the frame claims more than
  eight bytes.\<close>

definition entry_flags :: "FDCAN_ClassicFrameType \<Rightarrow> u8" where
  "entry_flags frame =
     (let w = dlc_dl_flags frame;
          Flags = (ucast (push_bit 6 (FDCAN_GET_BRS w) OR push_bit 7 (FDCAN_GET_ESI w) OR
                          push_bit 5 (FDCAN_GET_FDF w) OR push_bit 4 (FDCAN_GET_IDE w)) :: u8)
      in (ucast (FDCAN_GET_DLC w) AND 0x0F) OR (Flags AND 0xF0))"

definition appCanLogFillEntry ::
  "('h, 'b, 'r, 'v, 'f, 'x) ingest_env \<Rightarrow> FDCAN_ClassicFrameType \<Rightarrow> u32 \<Rightarrow> u8 \<Rightarrow> bytes" where
  "appCanLogFillEntry E frame timestamp channel =
     (let DataLen = (ucast (FDCAN_GET_DATA_LEN (dlc_dl_flags frame)) :: u8)
      in [CLB_ENTRY_TYPE_FRAME, ucast ENTRY_HEADER_SIZE, ucast FRAME_ENTRY_SIZE + DataLen] @
         u32_le timestamp @ u32_le (frame_id frame) @ [channel, entry_flags frame, DataLen] @
         take (unat DataLen) (frame_data frame @ behind_data E frame))"

section \<open>The poll\<close>

text \<open>The local variables that live through the loop; \<open>SyncEntry\<close> and \<open>EntryBuffer\<close> are written before each use.\<close>

record poll_vars =
  LocalFrameCount :: u32
  AbsTime :: u64
  BlockIsReady :: u8

definition CANLOG_INGEST_BATCH_MAX :: u32 where [simp]: "CANLOG_INGEST_BATCH_MAX = 256"
definition CLM_SYNC_EMIT_INTERVAL_US :: u64 where [simp]: "CLM_SYNC_EMIT_INTERVAL_US = 30 * 60 * 1000000"

definition periodic_sync :: "u64 \<Rightarrow> ('h, 'b, 'r, 'v, 'f, 'x) ingest_state \<Rightarrow> ('h, 'b, 'r, 'v, 'f, 'x) ingest_state" where
  "periodic_sync now s =
     (if 0 \<noteq> NextPeriodicSyncAbsTime s \<and> now \<ge> NextPeriodicSyncAbsTime s
      then s\<lparr>emitSyncEntry := True, NextPeriodicSyncAbsTime := now + CLM_SYNC_EMIT_INTERVAL_US\<rparr> else s)"

text \<open>A sync entry, and the lamp when it is refused.\<close>

definition emit_sync ::
  "('h, 'b, 'r, 'v, 'f, 'x) ingest_env \<Rightarrow> u64 \<Rightarrow> u32 \<Rightarrow> ('h, 'b, 'r, 'v, 'f, 'x) ingest_state \<Rightarrow>
   ('h, 'b, 'r, 'v, 'f, 'x) ingest_state option" where
  "emit_sync E now ts s =
     (case CanLogManager_EmitSyncEntry (lwrb_of E) now ts (log_side s) of
        None \<Rightarrow> None
      | Some (r, l) \<Rightarrow>
          let s = s\<lparr>log_side := l\<rparr> in Some (if COMM_SUCCESS \<noteq> r then ingest_error s else s))"

text \<open>A channel is started unless its mode is off; the flag is \<open>res = COMM_SUCCESS\<close>.\<close>

definition start_channel ::
  "(('h, 'b) can_state \<Rightarrow> comm_status \<times> bool) \<Rightarrow> (('h, 'b) can_state \<Rightarrow> comm_status \<times> ('h, 'b) can_state) \<Rightarrow>
   bool \<times> ('h, 'b, 'r, 'v, 'f, 'x) ingest_state \<Rightarrow> bool \<times> ('h, 'b, 'r, 'v, 'f, 'x) ingest_state" where
  "start_channel is_off start st =
     (case st of (ok, s) \<Rightarrow>
        if snd (is_off (rx_side s)) then (ok, s)
        else
          case start (rx_side s) of (r, c) \<Rightarrow>
            let s = s\<lparr>rx_side := c\<rparr> in if COMM_SUCCESS \<noteq> r then (False, ingest_error s) else (ok, s))"

text \<open>The start: what is reset, and then the channels.\<close>

definition poll_reset ::
  "('h, 'b, 'r, 'v, 'f, 'x) ingest_env \<Rightarrow> ('h, 'b, 'r, 'v, 'f, 'x) ingest_state \<Rightarrow> ('h, 'b, 'r, 'v, 'f, 'x) ingest_state" where
  "poll_reset E s =
     (let l = log_side s;
          s = s\<lparr>log_side := l\<lparr>clm_tel := CanLogManager_ResetBufferTelemetry (CanLogManager_ReadRb1UsedBytes (lwrb_of E) l) (clm_tel l)\<rparr>,
                emitSyncEntry := True\<rparr>;
          (now, s) = ingest_time E s;
          s = s\<lparr>NextPeriodicSyncAbsTime := now + CLM_SYNC_EMIT_INTERVAL_US, LastFrameTimestampValid := False,
                framesLost := False\<rparr>;
          s = reset_counters s
      in s\<lparr>rx_side := CanAbs_ResetFdcanHealth (fdcan_of E) (rx_side s)\<rparr>)"

definition poll_start ::
  "('h, 'b, 'r, 'v, 'f, 'x) ingest_env \<Rightarrow> ('h, 'b, 'r, 'v, 'f, 'x) ingest_state \<Rightarrow> ('h, 'b, 'r, 'v, 'f, 'x) ingest_state" where
  "poll_start E s =
     (let s = poll_reset E s;
          (ok, s) = start_channel CanAbs_IsStateOff_Can1 (CanAbs_Start_Can1 (fdcan_of E)) (True, s);
          (ok, s) = start_channel CanAbs_IsStateOff_Can2 (CanAbs_Start_Can2 (fdcan_of E)) (ok, s);
          s = (if \<not> ok then s\<lparr>runCanTracer := False\<rparr> else s)
      in s\<lparr>runCanTracerOld := runCanTracer s\<rparr>)"

definition stop_channel ::
  "(('h, 'b) can_state \<Rightarrow> comm_status \<times> ('h, 'b) can_state) \<Rightarrow>
   ('h, 'b, 'r, 'v, 'f, 'x) ingest_state \<Rightarrow> ('h, 'b, 'r, 'v, 'f, 'x) ingest_state" where
  "stop_channel stop s =
     (case stop (rx_side s) of (r, c) \<Rightarrow>
        let s = s\<lparr>rx_side := c\<rparr> in if COMM_SUCCESS \<noteq> r then s\<lparr>runCanTracer := False\<rparr> else s)"

definition poll_stop ::
  "('h, 'b, 'r, 'v, 'f, 'x) ingest_env \<Rightarrow> ('h, 'b, 'r, 'v, 'f, 'x) ingest_state \<Rightarrow> ('h, 'b, 'r, 'v, 'f, 'x) ingest_state" where
  "poll_stop E s =
     (let s = stop_channel (CanAbs_Stop_Can1 (fdcan_of E)) s;
          s = stop_channel (CanAbs_Stop_Can2 (fdcan_of E)) s;
          s = s\<lparr>runCanTracerOld := runCanTracer s, commitLog := True\<rparr>
      in s\<lparr>rx_side := CanAbs_Drain (fdcan_of E) (period_of E) (junk_frame E) (rx_side s)\<rparr>)"

text \<open>What the poll does before the loop; \<open>None\<close> is a flush that waits for ever.\<close>

definition poll_switch ::
  "('h, 'b, 'r, 'v, 'f, 'x) ingest_env \<Rightarrow> ('h, 'b, 'r, 'v, 'f, 'x) ingest_state \<Rightarrow> ('h, 'b, 'r, 'v, 'f, 'x) ingest_state option" where
  "poll_switch E s =
     (if runCanTracerOld s = runCanTracer s then Some s
      else if runCanTracer s then Some (poll_start E s)
      else
        let s = poll_stop E s
        in map_option (\<lambda>g. s\<lparr>rx_side := (rx_side s)\<lparr>msg_port := g\<rparr>\<rparr>)
             (fdcan_msg_port_flush (mbuf_of E) (msg_port (rx_side s))))"

definition poll_clock ::
  "('h, 'b, 'r, 'v, 'f, 'x) ingest_env \<Rightarrow> ('h, 'b, 'r, 'v, 'f, 'x) ingest_state \<Rightarrow>
   poll_vars \<times> ('h, 'b, 'r, 'v, 'f, 'x) ingest_state" where
  "poll_clock E s =
     (let (now, s) = ingest_time E s;
          s = s\<lparr>Can1 := m_DecayBusLoad (float_of E) (ucast now) (Can1 s), Can2 := m_DecayBusLoad (float_of E) (ucast now) (Can2 s)\<rparr>
      in (\<lparr>LocalFrameCount = 0, AbsTime = now, BlockIsReady = 0\<rparr>, periodic_sync now s))"

text \<open>The bookkeeping of a channel: received frames, bus load and the sequence check.\<close>

definition note_channel ::
  "('h, 'b, 'r, 'v, 'f, 'x) ingest_env \<Rightarrow> FDCAN_ClassicFrameType \<Rightarrow> bytes \<Rightarrow>
   ('h, 'b, 'r, 'v, 'f, 'x) ingest_state \<Rightarrow> ('h, 'b, 'r, 'v, 'f, 'x) ingest_state" where
  "note_channel E f ent s =
     (let load = (\<lambda>c. m_ComputeBusLoad (float_of E) (u32_of_le (drop 3 ent)) (ent ! 12) (c\<lparr>receivedFrames := receivedFrames c + 1\<rparr>));
          check = (\<lambda>q. the (snd (ScCheckSequence (Some q) (rx_sequence f))))
      in if ent ! 11 = 1
         then s\<lparr>Can1 := load (Can1 s), CAN1_SequenceIndex := rx_sequence f, CAN1_Sequence := check (CAN1_Sequence s)\<rparr>
         else if ent ! 11 = 2
         then s\<lparr>Can2 := load (Can2 s), CAN2_SequenceIndex := rx_sequence f, CAN2_Sequence := check (CAN2_Sequence s)\<rparr>
         else s)"

text \<open>The body of the loop for the frame \<open>f\<close>; the flag says that the loop goes on.\<close>

definition poll_frame ::
  "('h, 'b, 'r, 'v, 'f, 'x) ingest_env \<Rightarrow> FDCAN_ClassicFrameType \<Rightarrow> poll_vars \<Rightarrow> ('h, 'b, 'r, 'v, 'f, 'x) ingest_state \<Rightarrow>
   (bool \<times> poll_vars \<times> ('h, 'b, 'r, 'v, 'f, 'x) ingest_state) option" where
  "poll_frame E f v s =
     (let s = log_counters (\<lambda>c. c\<lparr>CanLogManager_FrameCount := CanLogManager_FrameCount c + 1\<rparr>) s;
          (now, s) = ingest_time E s;
          v = v\<lparr>LocalFrameCount := LocalFrameCount v + 1, AbsTime := now\<rparr>;
          s = periodic_sync now s
      in case (if emitSyncEntry s then emit_sync E now (frame_timestamp f) (s\<lparr>emitSyncEntry := False\<rparr>) else Some s) of
           None \<Rightarrow> None
         | Some s \<Rightarrow>
             let ent = appCanLogFillEntry E f (frame_timestamp f) (frame_channel f);
                 s = note_channel E f ent s
             in case appCanLogStoreToFrameBuffer (lwrb_of E) ent (log_side s) of
                  None \<Rightarrow> None
                | Some (r, l) \<Rightarrow>
                    let s = s\<lparr>log_side := l\<rparr>
                    in if COMM_SUCCESS \<noteq> r then Some (False, v, ingest_error (s\<lparr>runCanTracer := False\<rparr>))
                       else
                         let s = s\<lparr>LastFrameTimestamp := frame_timestamp f, LastFrameTimestampValid := True\<rparr>;
                             v = v\<lparr>BlockIsReady := snd (CanLogBuffer_IsBlockReady (lwrb_of E) (clm_buf (log_side s)))\<rparr>
                         in if 0 \<noteq> openRes (clm_log (log_side s))
                            then Some (False, v, ingest_error (s\<lparr>runCanTracer := False\<rparr>))
                            else Some (True, v, if BlockIsReady v \<noteq> 0 then s\<lparr>sd_notified := True\<rparr> else s))"

definition take_frame ::
  "('h, 'b, 'r, 'v, 'f, 'x) ingest_env \<Rightarrow> ('h, 'b, 'r, 'v, 'f, 'x) ingest_state \<Rightarrow>
   FDCAN_ClassicFrameType option \<times> ('h, 'b, 'r, 'v, 'f, 'x) ingest_state" where
  "take_frame E s =
     (case fdcan_msg_port_read (mbuf_of E) 2 (msg_port (rx_side s)) of (n, f, g) \<Rightarrow>
        (if 0 < n then f else None, s\<lparr>rx_side := (rx_side s)\<lparr>msg_port := g\<rparr>\<rparr>))"

text \<open>At most 256 frames while the logger runs, and all that wait when it does not.\<close>

definition may_read :: "poll_vars \<Rightarrow> ('h, 'b, 'r, 'v, 'f, 'x) ingest_state \<Rightarrow> bool" where
  "may_read v s \<longleftrightarrow> CANLOG_INGEST_BATCH_MAX > LocalFrameCount v \<or> \<not> runCanTracer s"

partial_function (option) poll_loop ::
  "('h, 'b, 'r, 'v, 'f, 'x) ingest_env \<Rightarrow> poll_vars \<Rightarrow> ('h, 'b, 'r, 'v, 'f, 'x) ingest_state \<Rightarrow>
   (poll_vars \<times> ('h, 'b, 'r, 'v, 'f, 'x) ingest_state) option" where
  "poll_loop E v s =
     (if may_read v s then
        case take_frame E s of
          (None, s) \<Rightarrow> Some (v, s)
        | (Some f, s) \<Rightarrow>
            (case poll_frame E f v s of None \<Rightarrow> None
             | Some (go_on, v, s) \<Rightarrow> if go_on then poll_loop E v s else Some (v, s))
      else Some (v, s))"

text \<open>The frames the sequence check found missing are added to the counter of the channel.\<close>

definition missing_frames ::
  "ScSequenceType \<Rightarrow> u32 \<Rightarrow> (u64 \<Rightarrow> counters \<Rightarrow> counters) \<Rightarrow> ('h, 'b, 'r, 'v, 'f, 'x) ingest_state \<Rightarrow>
   ScSequenceType \<times> ('h, 'b, 'r, 'v, 'f, 'x) ingest_state" where
  "missing_frames q index add s =
     (case ScGetMissingCount (Some q) True of (r, n) \<Rightarrow>
        if SC_E_OK = r then (the (snd (ScReset (Some q) index)), log_counters (add (ucast (the n))) s) else (q, s))"

definition poll_missing :: "('h, 'b, 'r, 'v, 'f, 'x) ingest_state \<Rightarrow> ('h, 'b, 'r, 'v, 'f, 'x) ingest_state" where
  "poll_missing s =
     (let (q, s) = missing_frames (CAN1_Sequence s) (CAN1_SequenceIndex s)
            (\<lambda>n c. c\<lparr>CanLogManager_CAN1_MissingCount := CanLogManager_CAN1_MissingCount c + n\<rparr>) s;
          s = s\<lparr>CAN1_Sequence := q\<rparr>;
          (q, s) = missing_frames (CAN2_Sequence s) (CAN2_SequenceIndex s)
            (\<lambda>n c. c\<lparr>CanLogManager_CAN2_MissingCount := CanLogManager_CAN2_MissingCount c + n\<rparr>) s
      in s\<lparr>CAN2_Sequence := q\<rparr>)"

text \<open>A sync entry that is still due gets the time of the last frame, if there was one.\<close>

definition poll_sync ::
  "('h, 'b, 'r, 'v, 'f, 'x) ingest_env \<Rightarrow> u64 \<Rightarrow> ('h, 'b, 'r, 'v, 'f, 'x) ingest_state \<Rightarrow> ('h, 'b, 'r, 'v, 'f, 'x) ingest_state option" where
  "poll_sync E now s =
     (if emitSyncEntry s
      then emit_sync E now (if LastFrameTimestampValid s then LastFrameTimestamp s else ucast now) (s\<lparr>emitSyncEntry := False\<rparr>)
      else Some s)"

text \<open>The file of the instrumentation, written on every commit.\<close>

definition appPersistInstrumentationData ::
  "('h, 'b, 'r, 'v, 'f, 'x) ingest_env \<Rightarrow> 'v fh_state \<Rightarrow> FRESULT \<times> 'v fh_state" where
  "appPersistInstrumentationData E fs =
     (case FatFS_SD_OpenFileForOverWrite (fatfs_of E) (ascii ''InstrumentationData.bin'') (junk_file E) fs of (res, File, fs) \<Rightarrow>
      let (File, fs) =
            (if FR_OK = res then
               (case instrumentation E of None \<Rightarrow> (File, fs)
                | Some Data \<Rightarrow> snd (FatFS_SD_WriteFile (fatfs_of E) Data (of_nat (length Data)) File fs))
             else (File, fs))
      in case FatFS_SD_CloseFile (fatfs_of E) File fs of (r, File, fs) \<Rightarrow> (res, fs))"

definition poll_commit ::
  "('h, 'b, 'r, 'v, 'f, 'x) ingest_env \<Rightarrow> ('h, 'b, 'r, 'v, 'f, 'x) ingest_state \<Rightarrow> ('h, 'b, 'r, 'v, 'f, 'x) ingest_state option" where
  "poll_commit E s =
     (if \<not> commitLog s then Some s
      else
        case CanLogBuffer_UsedSlots (lwrb_of E) (clm_buf (log_side s)) of
          None \<Rightarrow> None
        | Some (r, SlotsToWrite) \<Rightarrow>
            let s = (if SlotsToWrite > 0 then
                  case CanLogBuffer_FillBlockWithPadding (lwrb_of E) (clm_buf (log_side s)) of (r, b) \<Rightarrow>
                    let s = s\<lparr>log_side := (log_side s)\<lparr>clm_buf := b\<rparr>\<rparr>;
                        s = (if CLB_E_OK \<noteq> r then ingest_error s else s)
                    in s\<lparr>log_side := CanLogManager_UpdateRb1BytesHighWater (lwrb_of E) (log_side s), sd_notified := True\<rparr>
                  else s)
            in Some (s\<lparr>log_side := (log_side s)\<lparr>clm_fs := snd (appPersistInstrumentationData E (clm_fs (log_side s)))\<rparr>,
                       commitLog := False\<rparr>))"

definition poll_check :: "('h, 'b, 'r, 'v, 'f, 'x) ingest_state \<Rightarrow> ('h, 'b, 'r, 'v, 'f, 'x) ingest_state" where
  "poll_check s =
     (case check_counters s of (err, s) \<Rightarrow>
        if RUNTIMECHECKS_E_FRAMES_DROPPED = err then s\<lparr>framesLost := True\<rparr> else s)"

definition poll_end ::
  "('h, 'b, 'r, 'v, 'f, 'x) ingest_env \<Rightarrow> poll_vars \<Rightarrow> ('h, 'b, 'r, 'v, 'f, 'x) ingest_state \<Rightarrow>
   ('h, 'b, 'r, 'v, 'f, 'x) ingest_state option" where
  "poll_end E v s =
     (case poll_sync E (AbsTime v) (poll_missing s) of None \<Rightarrow> None
      | Some s \<Rightarrow> map_option poll_check (poll_commit E s))"

definition CLM_E_OK :: u8 where [simp]: "CLM_E_OK = 0"
definition CLM_E_BLOCK_READY :: u8 where [simp]: "CLM_E_BLOCK_READY = 3"

definition appCanLogHandlerPoll ::
  "('h, 'b, 'r, 'v, 'f, 'x) ingest_env \<Rightarrow> ('h, 'b, 'r, 'v, 'f, 'x) ingest_state \<Rightarrow>
   (u8 \<times> ('h, 'b, 'r, 'v, 'f, 'x) ingest_state) option" where
  "appCanLogHandlerPoll E s =
     (case poll_switch E s of None \<Rightarrow> None
      | Some s \<Rightarrow>
          case poll_clock E s of (v, s) \<Rightarrow>
          (case poll_loop E v s of None \<Rightarrow> None
           | Some (v, s) \<Rightarrow>
               map_option (\<lambda>s. (if BlockIsReady v \<noteq> 0 then CLM_E_BLOCK_READY else CLM_E_OK, s)) (poll_end E v s)))"

section \<open>Start, parameters and end\<close>

definition zero_status :: "'x float_ops \<Rightarrow> 'x CanStatusDataType" where
  "zero_status F = \<lparr>receivedFrames = 0, prevTimestamp = 0, bus_baudrate = 0, busLoad = float_lit F 0 1,
     accumulatedBits = 0, accumulatedTime = 0\<rparr>"

definition sc_started :: "ScSequenceType \<Rightarrow> ScSequenceType" where
  "sc_started q = the (snd (ScInit (Some q) 0 UINT32_MAX))"

text \<open>\<open>no_file\<close> is the device after \<open>memset\<close>; the name is kept in its own array.\<close>

definition CanLogHandler_Init ::
  "'x float_ops \<Rightarrow> 'f FatFsDeviceType \<Rightarrow> bool \<Rightarrow> bool \<Rightarrow> ('h, 'b, 'r, 'v, 'f, 'x) ingest_state \<Rightarrow>
   ('h, 'b, 'r, 'v, 'f, 'x) ingest_state" where
  "CanLogHandler_Init F no_file run commit s =
     (let l = log_side s;
          l = l\<lparr>clm_tel := (CanLogManager_ResetBufferTelemetry 0 (clm_tel l))\<lparr>CanLogSdWriteMaxUs := 0,
                  CanLogSdSyncMaxUs := 0, CanLogSdStoreBlockMaxUs := 0\<rparr>,
                clm_log := \<lparr>filename = filename (clm_log l), openRes = 1, fileHeadIndex = 0, fileTailIndex = 0,
                  fileIndexWrapped = False, writeFileDevice = no_file\<rparr>\<rparr>;
          s = s\<lparr>log_side := l, Can1 := zero_status F, Can2 := zero_status F, runCanTracer := run, commitLog := commit,
                runCanTracerOld := False, framesLost := False, emitSyncEntry := False\<rparr>;
          s = reset_counters s
      in s\<lparr>CAN1_Sequence := sc_started (CAN1_Sequence s), CAN2_Sequence := sc_started (CAN2_Sequence s)\<rparr>)"

definition appCanLogIsValidBaudrate :: "u32 \<Rightarrow> bool" where
  "appCanLogIsValidBaudrate value \<longleftrightarrow> value = 250000 \<or> value = 500000 \<or> value = 1000000"

text \<open>The flag is \<open>CAN_LOG_OK\<close>, its absence \<open>CAN_LOG_ERR_INVALID_PARAM\<close>.\<close>

definition appCanLogSetParam :: "u8 \<Rightarrow> u32 \<Rightarrow> ('h, 'b, 'r, 'v, 'f, 'x) ingest_state \<Rightarrow>
   bool \<times> ('h, 'b, 'r, 'v, 'f, 'x) ingest_state" where
  "appCanLogSetParam ident value s =
     (if ident = 1 then
        if \<not> appCanLogIsValidBaudrate value then (False, s)
        else (True, s\<lparr>Can1 := (Can1 s)\<lparr>bus_baudrate := value\<rparr>\<rparr>)
      else if ident = 2 then
        if \<not> appCanLogIsValidBaudrate value then (False, s)
        else (True, s\<lparr>Can2 := (Can2 s)\<lparr>bus_baudrate := value\<rparr>\<rparr>)
      else (False, s))"

definition appCanLogHandlerDeInit ::
  "('h, 'b, 'r, 'v, 'f, 'x) ingest_env \<Rightarrow> ('h, 'b, 'r, 'v, 'f, 'x) ingest_state \<Rightarrow> ('h, 'b, 'r, 'v, 'f, 'x) ingest_state" where
  "appCanLogHandlerDeInit E s =
     (let l = log_side s;
          l = (if 0 = openRes (clm_log l) then
                 case FatFS_SD_CloseFile (fatfs_of E) (writeFileDevice (clm_log l)) (clm_fs l) of (r, dev, fs) \<Rightarrow> with_device dev fs l
               else l)
      in s\<lparr>log_side := l, CAN1_Sequence := the (snd (ScDeInit (Some (CAN1_Sequence s)))),
           CAN2_Sequence := the (snd (ScDeInit (Some (CAN2_Sequence s))))\<rparr>)"

section \<open>Entries\<close>

lemma small_fields: "FDCAN_GET_DLC w AND 0x0F = FDCAN_GET_DLC w" "unat (FDCAN_GET_DLC w) < 16" "unat (FDCAN_GET_DATA_LEN w) < 128"
proof -
  have "FDCAN_GET_DLC w = take_bit 4 (FDCAN_GET_DLC w)"
    unfolding get_defs get_field_def field_masks(1) by (intro bit_word_eqI) (auto simp: bit_simps)
  moreover have "FDCAN_GET_DATA_LEN w = take_bit 7 (FDCAN_GET_DATA_LEN w)"
    unfolding get_defs get_field_def field_masks(2) by (intro bit_word_eqI) (auto simp: bit_simps)
  moreover have "unat (take_bit m x) < 2 ^ m" for m and x :: u16
    unfolding unsigned_take_bit_eq by (rule take_bit_nat_less_exp)
  from this [of 4] this [of 7] have "unat (take_bit 4 x) < 16" "unat (take_bit 7 x) < 128" for x :: u16 by simp_all
  ultimately show "unat (FDCAN_GET_DLC w) < 16" "unat (FDCAN_GET_DATA_LEN w) < 128" by metis+
  show "FDCAN_GET_DLC w AND 0x0F = FDCAN_GET_DLC w"
    unfolding get_defs get_field_def field_masks(1) by (intro bit_word_eqI) (auto simp: bit_simps)
qed

lemma unat_data_len [simp]: "unat (ucast (FDCAN_GET_DATA_LEN w) :: u8) = unat (FDCAN_GET_DATA_LEN w)"
  using small_fields(3) [of w] by (simp add: unsigned_ucast_eq take_bit_nat_eq_self_iff)

lemma one_bit_fields:
  "bit (FDCAN_GET_IDE w) n \<longleftrightarrow> n = 0 \<and> bit w 14" "bit (FDCAN_GET_FDF w) n \<longleftrightarrow> n = 0 \<and> bit w 11"
  "bit (FDCAN_GET_BRS w) n \<longleftrightarrow> n = 0 \<and> bit w 12" "bit (FDCAN_GET_ESI w) n \<longleftrightarrow> n = 0 \<and> bit w 13"
  unfolding get_defs get_field_def field_masks(3-6) by (auto simp: bit_simps dest: bit_imp_le_length)

lemma one_bit:
  assumes "\<And>n. bit (x :: u16) n \<longleftrightarrow> n = 0 \<and> b"
  shows "x = 1 \<longleftrightarrow> b"
proof (cases b)
  case True
  have "x = 1" by (rule bit_word_eqI) (simp add: assms True bit_1_iff)
  then show ?thesis using True by simp
next
  case False
  have "\<not> bit x 0" using assms [of 0] False by simp
  then show ?thesis using False by auto
qed

lemma dlc_bits: "bit (FDCAN_GET_DLC w) n \<longleftrightarrow> n < 4 \<and> bit w n"
  unfolding get_defs get_field_def field_masks(1) by (auto simp: bit_simps dest: bit_imp_le_length)

lemma entry_flags_bits:
  "bit (entry_flags f) n \<longleftrightarrow> n < 4 \<and> bit (FDCAN_GET_DLC (dlc_dl_flags f)) n \<or>
     n = 4 \<and> FDCAN_GET_IDE (dlc_dl_flags f) = 1 \<or> n = 5 \<and> FDCAN_GET_FDF (dlc_dl_flags f) = 1 \<or>
     n = 6 \<and> FDCAN_GET_BRS (dlc_dl_flags f) = 1 \<or> n = 7 \<and> FDCAN_GET_ESI (dlc_dl_flags f) = 1"
proof -
  let ?w = "dlc_dl_flags f"
  have one: "FDCAN_GET_IDE ?w = 1 \<longleftrightarrow> bit ?w 14" "FDCAN_GET_FDF ?w = 1 \<longleftrightarrow> bit ?w 11"
    "FDCAN_GET_BRS ?w = 1 \<longleftrightarrow> bit ?w 12" "FDCAN_GET_ESI ?w = 1 \<longleftrightarrow> bit ?w 13"
    by (rule one_bit, rule one_bit_fields)+
  have m: "bit (0x0F :: u8) n \<longleftrightarrow> n < 4" "bit (0xF0 :: u8) n \<longleftrightarrow> 4 \<le> n \<and> n < 8" for n
  proof -
    have a: "(0x0F :: u8) = mask 4" "(0xF0 :: u8) = push_bit 4 (mask 4)" by (simp_all add: mask_eq_exp_minus_1)
    show "bit (0x0F :: u8) n \<longleftrightarrow> n < 4" "bit (0xF0 :: u8) n \<longleftrightarrow> 4 \<le> n \<and> n < 8"
      unfolding a bit_push_bit_iff bit_mask_iff by auto
  qed
  have *: "bit (entry_flags f) n \<longleftrightarrow> n < 8 \<and> (n < 4 \<and> bit ?w n \<or> 4 \<le> n \<and>
      (6 \<le> n \<and> n - 6 = 0 \<and> bit ?w 12 \<or> 7 \<le> n \<and> n - 7 = 0 \<and> bit ?w 13 \<or> 5 \<le> n \<and> n - 5 = 0 \<and> bit ?w 11 \<or>
       n - 4 = 0 \<and> bit ?w 14))"
    unfolding entry_flags_def Let_def bit_or_iff bit_and_iff m bit_unsigned_iff bit_push_bit_iff one_bit_fields dlc_bits
    by (cases "n < 4"; cases "n < 8") (simp_all add: conj_disj_distribL conj_disj_distribR)
  consider "n < 4" | "n = 4" | "n = 5" | "n = 6" | "n = 7" | "8 \<le> n" by linarith
  then show ?thesis unfolding * one dlc_bits by cases simp_all
qed

text \<open>What the logger hands to the buffer for a frame it has read.\<close>

definition frame_entry :: "('h, 'b, 'r, 'v, 'f, 'x) ingest_env \<Rightarrow> FDCAN_ClassicFrameType \<Rightarrow> bytes" where
  "frame_entry E f = appCanLogFillEntry E f (frame_timestamp f) (frame_channel f)"

definition sync_entry :: "u64 \<Rightarrow> u32 \<Rightarrow> bytes" where
  "sync_entry now ts = [CLB_ENTRY_TYPE_SYNC, 3, 11] @ u32_le ts @ u32_le (ucast (drop_bit 32 now))"

lemma sync_entry_ok: "CanLogBlocks.entry_ok (sync_entry now ts)" "sync_entry now ts ! 0 = 2"
  by (simp_all add: CanLogBlocks.entry_ok_def sync_entry_def)

lemma EmitSync: "CanLogManager_EmitSyncEntry ops now ts s = appCanLogStoreToFrameBuffer ops (sync_entry now ts) s"
  by (simp add: CanLogManager_EmitSyncEntry_def sync_entry_def)

lemma entry_fields:
  assumes "unat (FDCAN_GET_DATA_LEN (dlc_dl_flags f)) \<le> length (frame_data f) + length (behind_data E f)"
  defines "n \<equiv> unat (FDCAN_GET_DATA_LEN (dlc_dl_flags f))"
  shows "length (appCanLogFillEntry E f t ch) = 14 + n" "appCanLogFillEntry E f t ch ! 0 = 1"
    "appCanLogFillEntry E f t ch ! 2 = of_nat (14 + n)"
    "u32_of_le (drop 3 (appCanLogFillEntry E f t ch)) = t" "u32_of_le (drop 7 (appCanLogFillEntry E f t ch)) = frame_id f"
    "appCanLogFillEntry E f t ch ! 11 = ch" "appCanLogFillEntry E f t ch ! 12 = entry_flags f"
    "appCanLogFillEntry E f t ch ! 13 = of_nat n"
    "drop 14 (appCanLogFillEntry E f t ch) = take n (frame_data f @ behind_data E f)"
proof -
  have n: "(ucast (FDCAN_GET_DATA_LEN (dlc_dl_flags f)) :: u8) = of_nat n"
    by (simp add: word_unat_eq_iff n_def flip: unat_data_len)
  have u: "unat (of_nat n :: u8) = n" using small_fields(3) [of "dlc_dl_flags f"]
    by (simp add: n_def unat_of_nat take_bit_nat_eq_self_iff)
  note d = appCanLogFillEntry_def Let_def n u
  show "length (appCanLogFillEntry E f t ch) = 14 + n" using assms(1) by (simp add: d n_def [symmetric] u)
  show "appCanLogFillEntry E f t ch ! 0 = 1" "appCanLogFillEntry E f t ch ! 2 = of_nat (14 + n)" by (simp_all add: d)
  show "u32_of_le (drop 3 (appCanLogFillEntry E f t ch)) = t" by (simp add: d)
  show "u32_of_le (drop 7 (appCanLogFillEntry E f t ch)) = frame_id f" by (simp add: d)
  show "appCanLogFillEntry E f t ch ! 11 = ch" "appCanLogFillEntry E f t ch ! 12 = entry_flags f"
    "appCanLogFillEntry E f t ch ! 13 = of_nat n" by (simp_all add: d nth_append)
  show "drop 14 (appCanLogFillEntry E f t ch) = take n (frame_data f @ behind_data E f)" by (simp add: d)
qed

lemma frame_entry_ok:
  assumes "127 \<le> length (behind_data E f)"
  shows "CanLogBlocks.entry_ok (frame_entry E f)" "frame_entry E f ! 0 = 1"
  using entry_fields [of f E "frame_timestamp f" "frame_channel f"] small_fields(3) [of "dlc_dl_flags f"] assms
  by (simp_all add: CanLogBlocks.entry_ok_def frame_entry_def)

end
