(* ===== verification/CanLogIngest.thy ===== *)
theory CanLogIngest
  imports CanLogPoll
begin

text \<open>
  The histories of the reading task (\<open>CanLogPoll\<close>): interrupts, the bridge task, the SD task, commands and
  the parts of the poll in any order.  The locale \<open>ingest\<close> joins the contracts of the receiving side
  (\<open>can_path\<close>) and of the card (\<open>logger\<close>); its lemmas follow a frame through one round of the loop and
  give the invariant \<open>ingest_inv\<close>.  The properties say what a poll makes of the frames that wait, and where every
  frame ever received is.
\<close>

section \<open>Histories\<close>

text \<open>A start of the logger resets the counters; \<open>reset_sums\<close> keeps what they showed.\<close>

record reset_sums =
  sum_frames :: u64
  sum_drops :: u64
  sum_read :: u64
  sum_refused :: u64
  sum_missing1 :: u64
  sum_missing2 :: u64

definition no_sums :: reset_sums where
  "no_sums = \<lparr>sum_frames = 0, sum_drops = 0, sum_read = 0, sum_refused = 0, sum_missing1 = 0, sum_missing2 = 0\<rparr>"

definition starting :: "('h, 'b, 'r, 'v, 'f, 'x) ingest_state \<Rightarrow> bool" where
  "starting s \<longleftrightarrow> runCanTracer s \<and> \<not> runCanTracerOld s"

definition add_sums :: "('h, 'b, 'r, 'v, 'f, 'x) ingest_state \<Rightarrow> reset_sums \<Rightarrow> reset_sums" where
  "add_sums s z =
     (let p = port_counters (msg_port (rx_side s)); c = clb_counters (clm_buf (log_side s))
      in \<lparr>sum_frames = sum_frames z + CanAbs_FrameCount p,
          sum_drops = sum_drops z + CanAbs_FrameDropCount p + FcdanMsgPort_FrameDropCount p,
          sum_read = sum_read z + CanLogManager_FrameCount c,
          sum_refused = sum_refused z + CanLogManager_FrameDropCount1 c,
          sum_missing1 = sum_missing1 z + CanLogManager_CAN1_MissingCount c,
          sum_missing2 = sum_missing2 z + CanLogManager_CAN2_MissingCount c\<rparr>)"

text \<open>What happens on the receiving side beside the poll.\<close>

inductive rx_step ::
  "('h, 'b, 'r, 'v, 'f, 'x) ingest_env \<Rightarrow> ('h \<Rightarrow> bool) \<Rightarrow> ('h \<Rightarrow> (FDCAN_RxHeaderTypeDef \<times> bytes) list) \<Rightarrow>
   ('h, 'b) can_state \<Rightarrow> ('h, 'b) can_state \<Rightarrow> bool"
  for E started fifo s where
  device: "rx_step E started fifo s (s\<lparr>can1 := (can1 s)\<lparr>driver := d1\<rparr>, can2 := (can2 s)\<lparr>driver := d2\<rparr>,
      deferred_pending := x, irq1_pending := y, irq2_pending := z\<rparr>)"
| interrupt1: "readable (fdcan_of E) started fifo its (hfdcan (driver (can1 s))) \<Longrightarrow>
    readable (fdcan_of E) started fifo its (hfdcan (driver (can2 s))) \<Longrightarrow>
    rx_step E started fifo s (can1_interrupt (fdcan_of E) (period_of E) junk t its s)"
| interrupt2: "readable (fdcan_of E) started fifo its (hfdcan (driver (can1 s))) \<Longrightarrow>
    readable (fdcan_of E) started fifo its (hfdcan (driver (can2 s))) \<Longrightarrow>
    rx_step E started fifo s (can2_interrupt (fdcan_of E) (period_of E) junk t its s)"
| timer: "rx_step E started fifo s (CANABS_CheckIsrPollPeriod (fdcan_of E) t (period_of E) s)"
| bridge: "rx_step E started fifo s (CanBridgeTask_round (mbuf_of E) s)"

text \<open>\<open>logger_reach E \<dots> z s out\<close>: from start-up the state \<open>s\<close> is reached, in which the poll has read the frames
  \<open>out\<close>; the entries it has handed to the buffer are the trace \<open>clm_handed\<close>.  What a start or a stop of the logger
  consists of, the clock at the beginning of a poll, each round of its loop and its end are steps of their own,
  so that interrupts, the bridge task, the SD task and commands come between them; \<open>flags\<close> is a command or an
  assignment of the poll.  A step itself is not interrupted.  For \<open>flush\<close> this is a restriction: no frame is
  bridged between the sending and the clearing of the page, which nothing in the code ensures
  (\<open>FdcanMsgPort\<close> shows what happens otherwise).\<close>

inductive logger_reach ::
  "('h, 'b, 'r, 'v, 'f, 'x) ingest_env \<Rightarrow> ('h \<Rightarrow> bool) \<Rightarrow> ('h \<Rightarrow> (FDCAN_RxHeaderTypeDef \<times> bytes) list) \<Rightarrow>
   ('v \<Rightarrow> bytes \<Rightarrow> bytes option) \<Rightarrow> ('f \<Rightarrow> (bytes \<times> nat \<times> nat) option) \<Rightarrow>
   reset_sums \<Rightarrow> ('h, 'b, 'r, 'v, 'f, 'x) ingest_state \<Rightarrow> FDCAN_ClassicFrameType list \<Rightarrow> bool"
  for E started fifo files opened where
  start: "RxRingBuffer (can1 (rx_side s)) = rx_ring_boot \<Longrightarrow> RxRingBuffer (can2 (rx_side s)) = rx_ring_boot \<Longrightarrow>
    SequenceIndex (can1 (rx_side s)) = 0 \<Longrightarrow> SequenceIndex (can2 (rx_side s)) = 0 \<Longrightarrow>
    msg_port (rx_side s) = fdcan_msg_port_init (mbuf_of E) (port_boot b) \<Longrightarrow>
    log_started (lwrb_of E) files opened (log_side s) \<Longrightarrow>
    CAN1_Sequence s = sc_started q1 \<Longrightarrow> CAN2_Sequence s = sc_started q2 \<Longrightarrow>
    CAN1_SequenceIndex s = 0 \<Longrightarrow> CAN2_SequenceIndex s = 0 \<Longrightarrow>
    logger_reach E started fifo files opened no_sums s []"
| receive: "logger_reach E started fifo files opened z s out \<Longrightarrow> rx_step E started fifo (rx_side s) c \<Longrightarrow>
    logger_reach E started fifo files opened z (s\<lparr>rx_side := c\<rparr>) out"
| store: "logger_reach E started fifo files opened z s out \<Longrightarrow>
    SdBridgeTask_ActionHook (lwrb_of E) (fatfs_of E) (clock_of E) (log_side s) = Some l \<Longrightarrow>
    logger_reach E started fifo files opened z (s\<lparr>log_side := l\<rparr>) out"
| flags: "logger_reach E started fifo files opened z s out \<Longrightarrow>
    logger_reach E started fifo files opened z (s\<lparr>runCanTracer := run, runCanTracerOld := old, commitLog := commit\<rparr>) out"
| reset: "logger_reach E started fifo files opened z s out \<Longrightarrow>
    logger_reach E started fifo files opened (add_sums s z) (poll_reset E s) out"
| start1: "logger_reach E started fifo files opened z s out \<Longrightarrow>
    start_channel CanAbs_IsStateOff_Can1 (CanAbs_Start_Can1 (fdcan_of E)) (ok, s) = (ok', s') \<Longrightarrow>
    logger_reach E started fifo files opened z s' out"
| start2: "logger_reach E started fifo files opened z s out \<Longrightarrow>
    start_channel CanAbs_IsStateOff_Can2 (CanAbs_Start_Can2 (fdcan_of E)) (ok, s) = (ok', s') \<Longrightarrow>
    logger_reach E started fifo files opened z s' out"
| stop1: "logger_reach E started fifo files opened z s out \<Longrightarrow>
    logger_reach E started fifo files opened z (stop_channel (CanAbs_Stop_Can1 (fdcan_of E)) s) out"
| stop2: "logger_reach E started fifo files opened z s out \<Longrightarrow>
    logger_reach E started fifo files opened z (stop_channel (CanAbs_Stop_Can2 (fdcan_of E)) s) out"
| drain: "logger_reach E started fifo files opened z s out \<Longrightarrow> logger_reach E started fifo files opened z
      (s\<lparr>rx_side := CanAbs_Drain (fdcan_of E) (period_of E) (junk_frame E) (rx_side s)\<rparr>) out"
| flush: "logger_reach E started fifo files opened z s out \<Longrightarrow>
    fdcan_msg_port_flush (mbuf_of E) (msg_port (rx_side s)) = Some g \<Longrightarrow>
    logger_reach E started fifo files opened z (s\<lparr>rx_side := (rx_side s)\<lparr>msg_port := g\<rparr>\<rparr>) out"
| clock: "logger_reach E started fifo files opened z s out \<Longrightarrow> poll_clock E s = (v, s') \<Longrightarrow>
    logger_reach E started fifo files opened z s' out"
| frame: "logger_reach E started fifo files opened z s out \<Longrightarrow> take_frame E s = (Some f, s1) \<Longrightarrow>
    poll_frame E f v s1 = Some (go_on, v', s') \<Longrightarrow>
    logger_reach E started fifo files opened z s' (out @ [f])"
| no_frame: "logger_reach E started fifo files opened z s out \<Longrightarrow> take_frame E s = (None, s') \<Longrightarrow>
    logger_reach E started fifo files opened z s' out"
| finish: "logger_reach E started fifo files opened z s out \<Longrightarrow> poll_end E v s = Some s' \<Longrightarrow>
    logger_reach E started fifo files opened z s' out"

text \<open>The poll before its loop is made of such steps.\<close>

lemma reach_switch:
  assumes r: "logger_reach E started fifo files opened z s out" and run: "poll_switch E s = Some s'"
  shows "logger_reach E started fifo files opened (if starting s then add_sums s z else z) s' out"
proof -
  have fl: "logger_reach E started fifo files opened z (s\<lparr>runCanTracer := run, runCanTracerOld := old, commitLog := commit\<rparr>) out"
    if "logger_reach E started fifo files opened z s out" for z s run old commit using that by (rule logger_reach.flags)
  consider "runCanTracerOld s = runCanTracer s" | "starting s" | "\<not> runCanTracer s" "runCanTracerOld s"
    by (auto simp: starting_def)
  then show ?thesis
  proof cases
    case 1
    then show ?thesis using r run by (simp add: poll_switch_def starting_def)
  next
    case 2
    obtain ok1 s1 ok2 s2 where st: "start_channel CanAbs_IsStateOff_Can1 (CanAbs_Start_Can1 (fdcan_of E)) (True, poll_reset E s) = (ok1, s1)"
      "start_channel CanAbs_IsStateOff_Can2 (CanAbs_Start_Can2 (fdcan_of E)) (ok1, s1) = (ok2, s2)" by fastforce
    let ?run = "runCanTracer s2 \<and> ok2"
    have "s' = s2\<lparr>runCanTracer := ?run, runCanTracerOld := ?run, commitLog := commitLog s2\<rparr>"
      using run st 2 by (cases ok2) (auto simp: poll_switch_def starting_def poll_start_def)
    moreover have "logger_reach E started fifo files opened (add_sums s z) s2 out"
      using logger_reach.start2 [OF logger_reach.start1 [OF logger_reach.reset [OF r] st(1)] st(2)] .
    ultimately have "logger_reach E started fifo files opened (add_sums s z) s' out" using fl by metis
    then show ?thesis using 2 by simp
  next
    case 3
    let ?s1 = "stop_channel (CanAbs_Stop_Can1 (fdcan_of E)) s"
    let ?s2 = "stop_channel (CanAbs_Stop_Can2 (fdcan_of E)) ?s1"
    let ?s3 = "?s2\<lparr>runCanTracer := runCanTracer ?s2, runCanTracerOld := runCanTracer ?s2, commitLog := True\<rparr>"
    let ?s4 = "?s3\<lparr>rx_side := CanAbs_Drain (fdcan_of E) (period_of E) (junk_frame E) (rx_side ?s3)\<rparr>"
    have "logger_reach E started fifo files opened z ?s4 out"
      by (intro logger_reach.drain logger_reach.flags logger_reach.stop1 logger_reach.stop2 r)
    then have st: "logger_reach E started fifo files opened z (poll_stop E s) out" by (simp add: poll_stop_def Let_def)
    obtain g where g: "fdcan_msg_port_flush (mbuf_of E) (msg_port (rx_side (poll_stop E s))) = Some g"
      "s' = (poll_stop E s)\<lparr>rx_side := (rx_side (poll_stop E s))\<lparr>msg_port := g\<rparr>\<rparr>"
      using run 3 by (auto simp: poll_switch_def Let_def)
    show ?thesis using logger_reach.flush [OF st g(1)] g(2) 3 by (simp add: starting_def)
  qed
qed

section \<open>The entries handed to the buffer\<close>

text \<open>What every entry is like: the type of a frame or of a sync entry, the size of the header, the length.\<close>

definition poll_entry :: "bytes \<Rightarrow> bool" where
  "poll_entry e \<longleftrightarrow> (e ! 0 = CLB_ENTRY_TYPE_FRAME \<or> e ! 0 = CLB_ENTRY_TYPE_SYNC) \<and> e ! 1 = 3 \<and> unat (e ! 2) = length e \<and> length e < 256"

lemma sync_entry_typed: "poll_entry (sync_entry now ts)"
  by (simp add: poll_entry_def sync_entry_def)

lemma frame_entry_typed:
  assumes "127 \<le> length (behind_data E f)"
  shows "poll_entry (frame_entry E f)"
proof -
  have b: "unat (FDCAN_GET_DATA_LEN (dlc_dl_flags f)) < 128" by (rule small_fields(3))
  have l: "length (frame_entry E f) = 14 + unat (FDCAN_GET_DATA_LEN (dlc_dl_flags f))" "frame_entry E f ! 0 = CLB_ENTRY_TYPE_FRAME"
    "frame_entry E f ! 2 = of_nat (length (frame_entry E f))"
    using entry_fields [of f E "frame_timestamp f" "frame_channel f"] b assms by (simp_all add: frame_entry_def)
  have "frame_entry E f ! 1 = 3" by (simp add: frame_entry_def appCanLogFillEntry_def Let_def)
  moreover have "unat (of_nat n :: u8) = n" if "n < 256" for n using that by (simp add: unat_of_nat take_bit_nat_eq_self_iff)
  moreover have "length (frame_entry E f) < 256" using b l(1) by simp
  ultimately show ?thesis using l(2,3) unfolding poll_entry_def by metis
qed

text \<open>The trace has one entry for each frame read, and all its entries are well formed.\<close>

definition handed_of :: "('h, 'b, 'r, 'v, 'f, 'x) ingest_env \<Rightarrow> bytes list \<Rightarrow> FDCAN_ClassicFrameType list \<Rightarrow> bool" where
  "handed_of E h out \<longleftrightarrow> filter (\<lambda>e. e ! 0 = 1) h = map (frame_entry E) out \<and> list_all poll_entry h"

section \<open>The interface to the receiving side and the card\<close>

text \<open>Beside the laws of the message buffer, the ring, FatFs and the controllers: enough memory lies behind a frame for
  the copy of its data, and closing a file that is not open changes no file either.\<close>

locale ingest =
  rx: can_path "fdcan_of E" started fifo "mbuf_of E" bvalid queue +
  lg: logger "lwrb_of E" rvalid content "fatfs_of E" files opened
  for E :: "('h, 'b, 'r, 'v, 'f, 'x) ingest_env" and started fifo bvalid queue rvalid content files opened +
  assumes behind: "127 \<le> length (behind_data E f)"
    and close_any: "f_close (fatfs_of E) v g = (r, g', v') \<Longrightarrow> files v' = files v"
begin

text \<open>Of the entries handed over, those accepted are on the card or in the buffer and the others are counted; those
  of frames are the entries of the frames read.\<close>

definition offered :: "u64 \<Rightarrow> ('r, 'v, 'f) clm_state \<Rightarrow> FDCAN_ClassicFrameType list \<Rightarrow> bool" where
  "offered k l out \<longleftrightarrow> handed_of E (clm_handed l) out \<and>
     (\<exists>acc blks blocks es. lg.logged l acc blks blocks es \<and> subseq acc (clm_handed l) \<and>
        CanLogManager_FrameDropCount1 (clb_counters (clm_buf l)) + k = of_nat (length (clm_handed l) - length acc))"

lemma offered_cong:
  "offered k l out \<Longrightarrow> Rb1 (clm_buf l') = Rb1 (clm_buf l) \<Longrightarrow> volume (clm_fs l') = volume (clm_fs l) \<Longrightarrow>
   clm_log l' = clm_log l \<Longrightarrow> clm_params l' = clm_params l \<Longrightarrow> clm_handed l' = clm_handed l \<Longrightarrow>
   CanLogManager_FrameDropCount1 (clb_counters (clm_buf l')) + k' = CanLogManager_FrameDropCount1 (clb_counters (clm_buf l)) + k \<Longrightarrow>
   offered k' l' out"
  unfolding offered_def using lg.logged_cong by metis

lemma offered_store:
  assumes o: "offered k l out" and e: "CanLogBlocks.entry_ok e" "poll_entry e" "filter (\<lambda>e. e ! 0 = 1) [e] = map (frame_entry E) fs"
  shows "\<exists>r l'. appCanLogStoreToFrameBuffer (lwrb_of E) e l = Some (r, l') \<and> offered k l' (out @ fs) \<and>
    clm_fs l' = clm_fs l \<and> clm_log l' = clm_log l \<and> clm_ticks l' = clm_ticks l \<and>
    read_counts (clb_counters (clm_buf l')) = read_counts (clb_counters (clm_buf l))"
proof -
  obtain acc blks blocks es where l: "lg.logged l acc blks blocks es" "subseq acc (clm_handed l)"
      "CanLogManager_FrameDropCount1 (clb_counters (clm_buf l)) + k = of_nat (length (clm_handed l) - length acc)"
    using o by (auto simp: offered_def)
  obtain r l' blocks' es' where s: "appCanLogStoreToFrameBuffer (lwrb_of E) e l = Some (r, l')"
    "clm_log l' = clm_log l" "clm_fs l' = clm_fs l" "clm_ticks l' = clm_ticks l"
    "read_counts (clb_counters (clm_buf l')) = read_counts (clb_counters (clm_buf l))"
    "CanLogManager_FrameDropCount1 (clb_counters (clm_buf l')) =
      CanLogManager_FrameDropCount1 (clb_counters (clm_buf l)) + (if r = COMM_SUCCESS then 0 else 1)"
    "lg.logged l' (if r = COMM_SUCCESS then acc @ [e] else acc) blks blocks' es'"
    and h: "clm_handed l' = clm_handed l @ [e]"
    using lg.StoreToFrameBuffer [OF l(1) e(1)] by blast
  have len: "length acc \<le> length (clm_handed l)" using l(2) by (rule list_emb_length)
  have hd: "handed_of E (clm_handed l @ [e]) (out @ fs)" using o e(2,3) by (simp add: offered_def handed_of_def split: if_splits)
  have "offered k l' (out @ fs)"
  proof (cases "r = COMM_SUCCESS")
    case True
    then show ?thesis using s(6,7) l(2,3) hd unfolding offered_def h
      by (intro conjI exI [of _ "acc @ [e]"] exI [of _ blks] exI [of _ blocks'] exI [of _ es']) simp_all
  next
    case False
    have "subseq acc (clm_handed l @ [e])" using l(2) by (rule list_emb_prefix)
    moreover have "length (clm_handed l @ [e]) - length acc = Suc (length (clm_handed l) - length acc)" using len by simp
    ultimately show ?thesis using s(6,7) l(3) False hd unfolding offered_def h
      by (intro conjI exI [of _ acc] exI [of _ blks] exI [of _ blocks'] exI [of _ es']) (simp_all add: algebra_simps del: length_append)
  qed
  then show ?thesis using s(1-5) by blast
qed

lemma offered_sd:
  assumes "offered k l out" "SdBridgeTask_ActionHook (lwrb_of E) (fatfs_of E) (clock_of E) l = Some l'"
  shows "offered k l' out"
    "read_counts (clb_counters (clm_buf l')) = read_counts (clb_counters (clm_buf l))"
proof -
  obtain acc blks blocks es where l: "lg.logged l acc blks blocks es" "subseq acc (clm_handed l)"
      "CanLogManager_FrameDropCount1 (clb_counters (clm_buf l)) + k = of_nat (length (clm_handed l) - length acc)"
    using assms(1) by (auto simp: offered_def)
  obtain bl where "lg.same_counts l l'" "lg.logged l' acc (blks @ bl) [] es"
    using lg.ActionHook [OF l(1), of "clock_of E"] assms(2) by auto
  then show "offered k l' out"
    "read_counts (clb_counters (clm_buf l')) = read_counts (clb_counters (clm_buf l))"
    using l assms(1) unfolding offered_def lg.same_counts_def by auto
qed

end

section \<open>The parts of the poll\<close>

lemma led_rest [simp]:
  "clm_buf (CanLogFileManager_ErrorHandler l) = clm_buf l" "clm_log (CanLogFileManager_ErrorHandler l) = clm_log l"
  "clm_params (CanLogFileManager_ErrorHandler l) = clm_params l" "clm_handed (CanLogFileManager_ErrorHandler l) = clm_handed l"
  "clm_ticks (CanLogFileManager_ErrorHandler l) = clm_ticks l"
  "volume (clm_fs (CanLogFileManager_ErrorHandler l)) = volume (clm_fs l)" "fh_error_led (clm_fs (CanLogFileManager_ErrorHandler l))"
  by (simp_all add: CanLogFileManager_ErrorHandler_def)

text \<open>The two sequence checks, and what they and the counters of the frames read amount to.\<close>

definition seqs :: "('h, 'b, 'r, 'v, 'f, 'x) ingest_state \<Rightarrow> ScSequenceType \<times> u32 \<times> ScSequenceType \<times> u32" where
  "seqs s = (CAN1_Sequence s, CAN1_SequenceIndex s, CAN2_Sequence s, CAN2_SequenceIndex s)"

lemma seqs_log [simp]: "seqs (s\<lparr>log_side := l\<rparr>) = seqs s" "seqs (s\<lparr>rx_side := c\<rparr>) = seqs s"
  "seqs (s\<lparr>emitSyncEntry := b\<rparr>) = seqs s" "seqs (s\<lparr>runCanTracer := b\<rparr>) = seqs s" "seqs (s\<lparr>commitLog := b\<rparr>) = seqs s"
  "seqs (s\<lparr>sd_notified := b\<rparr>) = seqs s" "seqs (s\<lparr>framesLost := b\<rparr>) = seqs s" "seqs (s\<lparr>runCanTracerOld := b\<rparr>) = seqs s"
  "seqs (s\<lparr>LastFrameTimestampValid := b\<rparr>) = seqs s" "seqs (s\<lparr>LastFrameTimestamp := t\<rparr>) = seqs s"
  "seqs (s\<lparr>NextPeriodicSyncAbsTime := n\<rparr>) = seqs s" "seqs (s\<lparr>Can1 := c1\<rparr>) = seqs s" "seqs (s\<lparr>Can2 := c2\<rparr>) = seqs s"
  by (simp_all add: seqs_def)

lemma ingest_error_rest [simp]:
  "seqs (ingest_error s) = seqs s"
  "log_side (ingest_error s) = CanLogFileManager_ErrorHandler (log_side s)" "rx_side (ingest_error s) = rx_side s"
  "runCanTracer (ingest_error s) = runCanTracer s" "emitSyncEntry (ingest_error s) = emitSyncEntry s"
  "commitLog (ingest_error s) = commitLog s" "runCanTracerOld (ingest_error s) = runCanTracerOld s"
  "framesLost (ingest_error s) = framesLost s"
  by (simp_all add: ingest_error_def)

lemma note_channel_seqs: "seqs s = seqs t \<Longrightarrow> seqs (note_channel E f ent s) = seqs (note_channel E f ent t)"
  by (simp add: note_channel_def Let_def seqs_def)

lemma note_channel_rest [simp]:
  "log_side (note_channel E f ent s) = log_side s" "rx_side (note_channel E f ent s) = rx_side s"
  "runCanTracer (note_channel E f ent s) = runCanTracer s" "emitSyncEntry (note_channel E f ent s) = emitSyncEntry s"
  "commitLog (note_channel E f ent s) = commitLog s" "runCanTracerOld (note_channel E f ent s) = runCanTracerOld s"
  by (simp_all add: note_channel_def Let_def)

lemma periodic_sync_rest [simp]:
  "seqs (periodic_sync now s) = seqs s"
  "log_side (periodic_sync now s) = log_side s" "rx_side (periodic_sync now s) = rx_side s"
  "runCanTracer (periodic_sync now s) = runCanTracer s" "commitLog (periodic_sync now s) = commitLog s"
  "runCanTracerOld (periodic_sync now s) = runCanTracerOld s"
  by (simp_all add: periodic_sync_def)

lemma periodic_sync_log: "periodic_sync now (s\<lparr>log_side := l\<rparr>) = (periodic_sync now s)\<lparr>log_side := l\<rparr>"
  by (simp add: periodic_sync_def)

text \<open>The frame is in the books of the poll: the state before its entries are handed over.\<close>

definition frame_noted ::
  "('h, 'b, 'r, 'v, 'f, 'x) ingest_env \<Rightarrow> ('h, 'b, 'r, 'v, 'f, 'x) ingest_state \<Rightarrow> ('h, 'b, 'r, 'v, 'f, 'x) ingest_state" where
  "frame_noted E s =
     periodic_sync (clock_of E (clm_ticks (log_side s)))
       (s\<lparr>log_side := (log_side (log_counters (\<lambda>c. c\<lparr>CanLogManager_FrameCount := CanLogManager_FrameCount c + 1\<rparr>) s))
          \<lparr>clm_ticks := Suc (clm_ticks (log_side s))\<rparr>\<rparr>)"

text \<open>What a round does once its entries are stored.\<close>

definition after_store ::
  "('h, 'b, 'r, 'v, 'f, 'x) ingest_env \<Rightarrow> FDCAN_ClassicFrameType \<Rightarrow> poll_vars \<Rightarrow> comm_status \<Rightarrow> ('h, 'b, 'r, 'v, 'f, 'x) ingest_state \<Rightarrow>
   bool \<times> poll_vars \<times> ('h, 'b, 'r, 'v, 'f, 'x) ingest_state" where
  "after_store E f v r s =
     (if COMM_SUCCESS \<noteq> r then (False, v, ingest_error (s\<lparr>runCanTracer := False\<rparr>))
      else
        let s = s\<lparr>LastFrameTimestamp := frame_timestamp f, LastFrameTimestampValid := True\<rparr>;
            v = v\<lparr>BlockIsReady := snd (CanLogBuffer_IsBlockReady (lwrb_of E) (clm_buf (log_side s)))\<rparr>
        in if 0 \<noteq> openRes (clm_log (log_side s))
           then (False, v, ingest_error (s\<lparr>runCanTracer := False\<rparr>))
           else (True, v, if BlockIsReady v \<noteq> 0 then s\<lparr>sd_notified := True\<rparr> else s))"

lemma poll_frame_steps:
  "poll_frame E f v s =
     (let now = clock_of E (clm_ticks (log_side s)); s1 = frame_noted E s
      in case (if emitSyncEntry s1 then emit_sync E now (frame_timestamp f) (s1\<lparr>emitSyncEntry := False\<rparr>) else Some s1) of
           None \<Rightarrow> None
         | Some s2 \<Rightarrow>
             let s3 = note_channel E f (frame_entry E f) s2
             in map_option (\<lambda>(r, l). after_store E f (v\<lparr>LocalFrameCount := LocalFrameCount v + 1, AbsTime := now\<rparr>) r (s3\<lparr>log_side := l\<rparr>))
                  (appCanLogStoreToFrameBuffer (lwrb_of E) (frame_entry E f) (log_side s3)))"
proof -
  have 1: "ingest_time E (log_counters g s) = (clock_of E (clm_ticks (log_side s)),
      s\<lparr>log_side := (log_side (log_counters g s))\<lparr>clm_ticks := Suc (clm_ticks (log_side s))\<rparr>\<rparr>)" for g
    by (simp add: ingest_time_def log_counters_def CanLogStore.FDCAN_GetTimestampHook_def Let_def)
  show ?thesis unfolding poll_frame_def 1 Let_def prod.case frame_noted_def [symmetric] frame_entry_def [symmetric]
    by (rule option.case_cong [OF refl refl]) (auto simp: after_store_def Let_def split: option.splits)
qed

context ingest
begin

lemma offered_led [simp]: "offered k (CanLogFileManager_ErrorHandler l) out = offered k l out"
  by (simp add: offered_def lg.logged_def)

lemma emit:
  assumes "offered k (log_side s) out"
  shows "\<exists>l. emit_sync E now ts s = Some (s\<lparr>log_side := l\<rparr>) \<and> offered k l out \<and>
    clm_log l = clm_log (log_side s) \<and> clm_ticks l = clm_ticks (log_side s) \<and>
    (fh_error_led (clm_fs (log_side s)) \<longrightarrow> fh_error_led (clm_fs l)) \<and>
    read_counts (clb_counters (clm_buf l)) = read_counts (clb_counters (clm_buf (log_side s)))"
proof -
  have f: "filter (\<lambda>e. e ! 0 = 1) [sync_entry now ts] = map (frame_entry E) []" using sync_entry_ok(2) by simp
  obtain r l where st: "appCanLogStoreToFrameBuffer (lwrb_of E) (sync_entry now ts) (log_side s) = Some (r, l)"
    "offered k l out" "clm_log l = clm_log (log_side s)" "clm_ticks l = clm_ticks (log_side s)"
    "clm_fs l = clm_fs (log_side s)"
    "read_counts (clb_counters (clm_buf l)) = read_counts (clb_counters (clm_buf (log_side s)))"
    using offered_store [OF assms sync_entry_ok(1) sync_entry_typed f] by auto
  have "emit_sync E now ts s = Some (s\<lparr>log_side := if COMM_SUCCESS \<noteq> r then CanLogFileManager_ErrorHandler l else l\<rparr>)"
    using st(1) by (simp add: emit_sync_def EmitSync ingest_error_def)
  then show ?thesis using st
    by (intro exI [of _ "if COMM_SUCCESS \<noteq> r then CanLogFileManager_ErrorHandler l else l"]) simp
qed

lemma after_store_rest:
  assumes "after_store E f v r s = (go_on, v', s')"
  shows "rx_side s' = rx_side s" "clm_buf (log_side s') = clm_buf (log_side s)" "offered k (log_side s') out = offered k (log_side s) out"
    "LocalFrameCount v' = LocalFrameCount v" "emitSyncEntry s' = emitSyncEntry s" "seqs s' = seqs s"
    "if go_on then runCanTracer s' = runCanTracer s \<and> clm_fs (log_side s') = clm_fs (log_side s)
     else fh_error_led (clm_fs (log_side s')) \<and> \<not> runCanTracer s'"
  using assms by (auto simp: after_store_def Let_def split: if_splits)

definition count_read :: "u64 \<times> u64 \<times> u64 \<Rightarrow> u64 \<times> u64 \<times> u64" where
  "count_read c = (case c of (n, m1, m2) \<Rightarrow> (n + 1, m1, m2))"

lemma frame_round:
  assumes o: "offered k (log_side s) out"
  shows "\<exists>go_on v' s'. poll_frame E f v s = Some (go_on, v', s') \<and> rx_side s' = rx_side s \<and>
    offered k (log_side s') (out @ [f]) \<and>
    read_counts (clb_counters (clm_buf (log_side s'))) = count_read (read_counts (clb_counters (clm_buf (log_side s)))) \<and>
    seqs s' = seqs (note_channel E f (frame_entry E f) s) \<and>
    LocalFrameCount v' = LocalFrameCount v + 1 \<and>
    (if go_on then runCanTracer s' = runCanTracer s else fh_error_led (clm_fs (log_side s')) \<and> \<not> runCanTracer s')"
proof -
  let ?now = "clock_of E (clm_ticks (log_side s))" and ?s1 = "frame_noted E s"
  have s1: "rx_side ?s1 = rx_side s" "runCanTracer ?s1 = runCanTracer s" "offered k (log_side ?s1) out"
    "emitSyncEntry ?s1 = emitSyncEntry (periodic_sync ?now s)"
    "read_counts (clb_counters (clm_buf (log_side ?s1))) = count_read (read_counts (clb_counters (clm_buf (log_side s))))"
    "seqs ?s1 = seqs s"
    using o by (auto simp: frame_noted_def periodic_sync_log log_counters_def Let_def read_counts_def count_read_def intro: offered_cong)
  obtain l where s2: "(if emitSyncEntry ?s1 then emit_sync E ?now (frame_timestamp f) (?s1\<lparr>emitSyncEntry := False\<rparr>) else Some ?s1) =
      Some (?s1\<lparr>emitSyncEntry := False, log_side := l\<rparr>)" "offered k l out"
      "read_counts (clb_counters (clm_buf l)) = read_counts (clb_counters (clm_buf (log_side ?s1)))"
  proof (cases "emitSyncEntry ?s1")
    case True
    then show ?thesis using emit [of k "?s1\<lparr>emitSyncEntry := False\<rparr>" out ?now "frame_timestamp f"] s1(3) that by auto
  next
    case False
    have "?s1 = ?s1\<lparr>emitSyncEntry := False, log_side := log_side ?s1\<rparr>" using False by simp
    then show ?thesis using False s1(3) that [of "log_side ?s1"] by simp
  qed
  let ?s3 = "note_channel E f (frame_entry E f) (?s1\<lparr>emitSyncEntry := False, log_side := l\<rparr>)"
  have fe: "filter (\<lambda>e. e ! 0 = 1) [frame_entry E f] = map (frame_entry E) [f]" using frame_entry_ok(2) [OF behind] by simp
  obtain r l' where st: "appCanLogStoreToFrameBuffer (lwrb_of E) (frame_entry E f) l = Some (r, l')"
    "offered k l' (out @ [f])"
    "read_counts (clb_counters (clm_buf l')) = read_counts (clb_counters (clm_buf l))"
    using offered_store [OF s2(2) frame_entry_ok(1) [OF behind] frame_entry_typed [OF behind] fe] by blast
  obtain go_on v' s' where a: "after_store E f (v\<lparr>LocalFrameCount := LocalFrameCount v + 1, AbsTime := ?now\<rparr>) r (?s3\<lparr>log_side := l'\<rparr>) =
      (go_on, v', s')" by (metis prod_cases3)
  have "poll_frame E f v s = Some (go_on, v', s')"
    unfolding poll_frame_steps Let_def s2(1) by (simp add: st(1) a)
  moreover have "seqs s' = seqs (note_channel E f (frame_entry E f) s)"
    using after_store_rest(6) [OF a] s1(6) note_channel_seqs [of "?s1\<lparr>emitSyncEntry := False, log_side := l\<rparr>" s] by simp
  ultimately show ?thesis using after_store_rest [OF a] s1 s2(3) st(2,3) by (intro exI [of _ go_on] exI [of _ v'] exI [of _ s']) simp
qed

end

text \<open>The frames a reader of the port can get: not those of the page being filled.\<close>

definition deliverable :: "('b \<Rightarrow> PageType list) \<Rightarrow> 'b port_state \<Rightarrow> FDCAN_ClassicFrameType list" where
  "deliverable q g = unread g @ concat (map page_contents (q (CanFrameBuffer g)))"

lemma waiting_deliverable: "waiting q g = deliverable q g @ page_contents (PageReceive g)"
  by (simp add: waiting_def deliverable_def)

text \<open>What starting and stopping do to the two sides.\<close>

text \<open>The counters of the frames read, with what they showed when they were reset.\<close>

definition read_sums :: "('h, 'b, 'r, 'v, 'f, 'x) ingest_state \<Rightarrow> reset_sums \<Rightarrow> u64 \<times> u64 \<times> u64" where
  "read_sums s z = (let c = clb_counters (clm_buf (log_side s))
     in (CanLogManager_FrameCount c + sum_read z, CanLogManager_CAN1_MissingCount c + sum_missing1 z,
         CanLogManager_CAN2_MissingCount c + sum_missing2 z))"

lemma read_sums_cong:
  "read_counts (clb_counters (clm_buf (log_side s'))) = read_counts (clb_counters (clm_buf (log_side s))) \<Longrightarrow> read_sums s' z = read_sums s z"
  by (simp add: read_sums_def read_counts_def Let_def)

context ingest
begin

abbreviation reaches :: "u64 \<Rightarrow> u64 \<Rightarrow> ('h, 'b) can_state \<Rightarrow> FDCAN_ClassicFrameType list \<Rightarrow> bool" where
  "reaches \<equiv> can_reach (fdcan_of E) started fifo (mbuf_of E) (period_of E)"

lemma reaches_driver:
  "reaches a b c out \<Longrightarrow> reaches a b (c\<lparr>can1 := (can1 c)\<lparr>driver := d\<rparr>\<rparr>) out"
  "reaches a b c out \<Longrightarrow> reaches a b (c\<lparr>can2 := (can2 c)\<lparr>driver := d\<rparr>\<rparr>) out"
  using can_reach.device [where s = c and ?d1.0 = d and ?d2.0 = "driver (can2 c)" and x = "deferred_pending c" and
      y = "irq1_pending c" and z = "irq2_pending c"]
    can_reach.device [where s = c and ?d1.0 = "driver (can1 c)" and ?d2.0 = d and x = "deferred_pending c" and
      y = "irq1_pending c" and z = "irq2_pending c"] by force+

lemma reaches_ioctl:
  "reaches a b c out \<Longrightarrow> reaches a b (snd (on_can1 (fdcan_of E) cmd x c)) out"
  "reaches a b c out \<Longrightarrow> reaches a b (snd (on_can2 (fdcan_of E) cmd x c)) out"
  by (auto simp: on_can1_def on_can2_def intro: reaches_driver split: prod.splits)

text \<open>Starting a channel changes its driver, and lights the lamp when it fails.\<close>

lemma start_channel_rest:
  assumes "start_channel is_off start (ok, s) = (ok', s')"
  shows "rx_side s' = rx_side s \<or> rx_side s' = snd (start (rx_side s))"
    "log_side s' = log_side s \<or> log_side s' = CanLogFileManager_ErrorHandler (log_side s)"
    "runCanTracer s' = runCanTracer s" "runCanTracerOld s' = runCanTracerOld s" "seqs s' = seqs s"
  using assms by (auto simp: start_channel_def Let_def split: if_splits prod.splits)

lemma ioctl_port: "msg_port (snd (on_can1 hal cmd x c)) = msg_port c" "msg_port (snd (on_can2 hal cmd x c)) = msg_port c"
  by (simp_all add: on_can1_def on_can2_def split: prod.splits)

lemma start_channels:
  assumes "start_channel CanAbs_IsStateOff_Can1 (CanAbs_Start_Can1 (fdcan_of E)) (True, s) = (ok1, s1)"
    "start_channel CanAbs_IsStateOff_Can2 (CanAbs_Start_Can2 (fdcan_of E)) (ok1, s1) = (ok2, s2)" "reaches a b (rx_side s) out"
  shows "reaches a b (rx_side s2) out" "msg_port (rx_side s2) = msg_port (rx_side s)"
    "\<exists>led. log_side s2 = (log_side s)\<lparr>clm_fs := (clm_fs (log_side s))\<lparr>fh_error_led := led\<rparr>\<rparr>"
proof -
  have "reaches a b (rx_side s1) out"
    using start_channel_rest(1) [OF assms(1)] reaches_ioctl assms(3) by (auto simp: CanAbs_Start_Can1_def)
  then show "reaches a b (rx_side s2) out"
    using start_channel_rest(1) [OF assms(2)] reaches_ioctl by (auto simp: CanAbs_Start_Can2_def)
  show "msg_port (rx_side s2) = msg_port (rx_side s)"
    using start_channel_rest(1) [OF assms(1)] start_channel_rest(1) [OF assms(2)]
    by (auto simp: CanAbs_Start_Can1_def CanAbs_Start_Can2_def ioctl_port)
  show "\<exists>led. log_side s2 = (log_side s)\<lparr>clm_fs := (clm_fs (log_side s))\<lparr>fh_error_led := led\<rparr>\<rparr>"
    using start_channel_rest(2) [OF assms(1)] start_channel_rest(2) [OF assms(2)]
    by (elim disjE) (auto simp: CanLogFileManager_ErrorHandler_def intro: exI [of _ "fh_error_led (clm_fs (log_side s))"])
qed

lemma poll_reset_rest:
  assumes r: "reaches (sum_frames z) (sum_drops z) (rx_side s) out" and o: "offered (sum_refused z) (log_side s) out"
  defines "z' \<equiv> add_sums s z" and "s' \<equiv> poll_reset E s"
  shows "reaches (sum_frames z') (sum_drops z') (rx_side s') out" "offered (sum_refused z') (log_side s') out"
    "read_sums s' z' = read_sums s z" "seqs s' = seqs s"
    "waiting queue (msg_port (rx_side s')) = waiting queue (msg_port (rx_side s))"
    "deliverable queue (msg_port (rx_side s')) = deliverable queue (msg_port (rx_side s))"
    "port_counters (msg_port (rx_side s')) = RuntimeChecks_Init (port_counters (msg_port (rx_side s)))"
    "read_counts (clb_counters (clm_buf (log_side s'))) = (0, 0, 0)"
proof -
  let ?g = "(msg_port (rx_side s))\<lparr>port_counters := RuntimeChecks_Init (port_counters (msg_port (rx_side s)))\<rparr>"
  let ?l = "log_side s" and ?b = "clm_buf (log_side s)"
  let ?lg = "?l\<lparr>clm_tel := CanLogManager_ResetBufferTelemetry (CanLogManager_ReadRb1UsedBytes (lwrb_of E) ?l) (clm_tel ?l),
      clm_ticks := Suc (clm_ticks ?l), clm_buf := ?b\<lparr>clb_counters := RuntimeChecks_Init (clb_counters ?b)\<rparr>\<rparr>"
  have s': "s' = s\<lparr>emitSyncEntry := True, NextPeriodicSyncAbsTime := clock_of E (clm_ticks ?l) + CLM_SYNC_EMIT_INTERVAL_US,
      LastFrameTimestampValid := False, framesLost := False, log_side := ?lg,
      rx_side := CanAbs_ResetFdcanHealth (fdcan_of E) ((rx_side s)\<lparr>msg_port := ?g\<rparr>)\<rparr>"
    by (simp add: s'_def poll_reset_def ingest_time_def reset_counters_def CanLogStore.FDCAN_GetTimestampHook_def Let_def)
  show "reaches (sum_frames z') (sum_drops z') (rx_side s') out"
    using can_reach.health [OF can_reach.reset [OF r refl]] by (simp add: s' z'_def add_sums_def Let_def)
  show "waiting queue (msg_port (rx_side s')) = waiting queue (msg_port (rx_side s))"
    "deliverable queue (msg_port (rx_side s')) = deliverable queue (msg_port (rx_side s))"
    "port_counters (msg_port (rx_side s')) = RuntimeChecks_Init (port_counters (msg_port (rx_side s)))"
    by (simp_all add: s' CanAbs_ResetFdcanHealth_def waiting_def deliverable_def unread_def)
  show "offered (sum_refused z') (log_side s') out"
    by (rule offered_cong [OF o]) (simp_all add: s' z'_def add_sums_def Let_def RuntimeChecks_Init_def)
  show "read_sums s' z' = read_sums s z" "read_counts (clb_counters (clm_buf (log_side s'))) = (0, 0, 0)"
    by (simp_all add: read_sums_def read_counts_def s' z'_def add_sums_def Let_def RuntimeChecks_Init_def)
  show "seqs s' = seqs s" by (simp add: s' seqs_def)
qed

lemma poll_start_rest:
  fixes z :: reset_sums
  assumes r: "reaches (sum_frames z) (sum_drops z) (rx_side s) out" and o: "offered (sum_refused z) (log_side s) out"
  defines "s' \<equiv> poll_start E s"
  shows "waiting queue (msg_port (rx_side s')) = waiting queue (msg_port (rx_side s))"
    "deliverable queue (msg_port (rx_side s')) = deliverable queue (msg_port (rx_side s))" "runCanTracerOld s' = runCanTracer s'"
    "port_counters (msg_port (rx_side s')) = RuntimeChecks_Init (port_counters (msg_port (rx_side s)))"
    "read_counts (clb_counters (clm_buf (log_side s'))) = (0, 0, 0)"
proof -
  obtain ok1 s1 ok2 s2 where st: "start_channel CanAbs_IsStateOff_Can1 (CanAbs_Start_Can1 (fdcan_of E)) (True, poll_reset E s) = (ok1, s1)"
    "start_channel CanAbs_IsStateOff_Can2 (CanAbs_Start_Can2 (fdcan_of E)) (ok1, s1) = (ok2, s2)" by fastforce
  have s': "rx_side s' = rx_side s2" "log_side s' = log_side s2" "runCanTracerOld s' = runCanTracer s'"
    using st by (simp_all add: s'_def poll_start_def Let_def)
  note c = start_channels [OF st poll_reset_rest(1) [OF r o]] and p = poll_reset_rest [OF r o]
  show "waiting queue (msg_port (rx_side s')) = waiting queue (msg_port (rx_side s))"
    "deliverable queue (msg_port (rx_side s')) = deliverable queue (msg_port (rx_side s))"
    "port_counters (msg_port (rx_side s')) = RuntimeChecks_Init (port_counters (msg_port (rx_side s)))"
    using p(5-7) by (simp_all add: s' c(2))
  show "read_counts (clb_counters (clm_buf (log_side s'))) = (0, 0, 0)" using p(8) c(3) s'(2) by auto
  show "runCanTracerOld s' = runCanTracer s'" by (rule s')
qed

lemma stop_channel_rest:
  "rx_side (stop_channel stop s) = snd (stop (rx_side s))" "log_side (stop_channel stop s) = log_side s"
  "seqs (stop_channel stop s) = seqs s"
  "runCanTracer (stop_channel stop s) \<longrightarrow> runCanTracer s"
  by (simp_all add: stop_channel_def Let_def split: prod.splits)

lemma poll_stop_rest:
  assumes r: "reaches a b (rx_side s) out"
  defines "s' \<equiv> poll_stop E s"
  shows "reaches a b (rx_side s') out" "log_side s' = log_side s" "same_port (msg_port (rx_side s)) (msg_port (rx_side s'))"
    "runCanTracer s' \<longrightarrow> runCanTracer s" "runCanTracerOld s' = runCanTracer s'" "seqs s' = seqs s"
proof -
  let ?c1 = "snd (CanAbs_Stop_Can1 (fdcan_of E) (rx_side s))"
  let ?c2 = "snd (CanAbs_Stop_Can2 (fdcan_of E) ?c1)"
  have s': "rx_side s' = CanAbs_Drain (fdcan_of E) (period_of E) (junk_frame E) ?c2" "log_side s' = log_side s"
    "runCanTracerOld s' = runCanTracer s'" "runCanTracer s' \<longrightarrow> runCanTracer s" "seqs s' = seqs s"
    using stop_channel_rest(4) by (auto simp: s'_def poll_stop_def Let_def stop_channel_rest(1-3))
  have c2: "reaches a b ?c2 out" "msg_port ?c2 = msg_port (rx_side s)"
    using r by (simp_all add: CanAbs_Stop_Can1_def CanAbs_Stop_Can2_def reaches_ioctl ioctl_port)
  show "reaches a b (rx_side s') out" using can_reach.drain [OF c2(1)] s'(1) by simp
  have "rx.path_inv a b ?c2 out" using rx.path_reach [OF c2(1)] .
  then obtain n1 n2 where "can_inv a b n1 n2 ?c2 (out @ waiting queue (msg_port ?c2))" by (auto simp: rx.path_inv_def)
  then show "same_port (msg_port (rx_side s)) (msg_port (rx_side s'))"
    using rx.drain_inv c2(2) s'(1) by metis
  show "log_side s' = log_side s" "runCanTracer s' \<longrightarrow> runCanTracer s" "runCanTracerOld s' = runCanTracer s'"
    "seqs s' = seqs s" by (fact s')+
qed

text \<open>The start and the stop, and what it takes that the flush of a stop returns.\<close>

lemma poll_switch_rest:
  fixes z :: reset_sums
  assumes r: "reaches (sum_frames z) (sum_drops z) (rx_side s) out" and o: "offered (sum_refused z) (log_side s) out"
    and run: "poll_switch E s = Some s'"
  shows "waiting queue (msg_port (rx_side s')) = waiting queue (msg_port (rx_side s))"
    "deliverable queue (msg_port (rx_side s')) = (if runCanTracerOld s \<and> \<not> runCanTracer s
      then waiting queue (msg_port (rx_side s)) else deliverable queue (msg_port (rx_side s)))" "runCanTracerOld s' = runCanTracer s'"
proof -
  consider "runCanTracerOld s = runCanTracer s" | "starting s" | "\<not> runCanTracer s" "runCanTracerOld s"
    by (auto simp: starting_def)
  then have "waiting queue (msg_port (rx_side s')) = waiting queue (msg_port (rx_side s)) \<and>
    deliverable queue (msg_port (rx_side s')) = (if runCanTracerOld s \<and> \<not> runCanTracer s
      then waiting queue (msg_port (rx_side s)) else deliverable queue (msg_port (rx_side s))) \<and> runCanTracerOld s' = runCanTracer s'"
  proof cases
    case 1
    then show ?thesis using run by (auto simp: poll_switch_def)
  next
    case 2
    then have "s' = poll_start E s" using run by (auto simp: poll_switch_def starting_def)
    then show ?thesis using poll_start_rest(1-3) [OF r o] 2 by (simp add: starting_def)
  next
    case 3
    let ?t = "poll_stop E s"
    note st = poll_stop_rest [OF r]
    obtain g where g: "fdcan_msg_port_flush (mbuf_of E) (msg_port (rx_side ?t)) = Some g"
      "s' = ?t\<lparr>rx_side := (rx_side ?t)\<lparr>msg_port := g\<rparr>\<rparr>"
      using run 3 by (auto simp: poll_switch_def Let_def)
    have "rx.port_inv (msg_port (rx_side ?t))" using rx.path_reach [OF st(1)] by (simp add: rx.path_inv_def)
    then have w: "waiting queue g = waiting queue (msg_port (rx_side ?t))" "page_contents (PageReceive g) = []"
      using rx.flush_step [of "msg_port (rx_side ?t)"] g(1) by auto
    have d: "deliverable queue g = waiting queue g" using w(2) by (simp add: waiting_deliverable)
    have "waiting queue g = waiting queue (msg_port (rx_side s))" using w(1) rx.same_port [OF st(3)] by simp
    then show ?thesis using st(5) 3 g(2) d by simp
  qed
  then show "waiting queue (msg_port (rx_side s')) = waiting queue (msg_port (rx_side s))"
    "deliverable queue (msg_port (rx_side s')) = (if runCanTracerOld s \<and> \<not> runCanTracer s
      then waiting queue (msg_port (rx_side s)) else deliverable queue (msg_port (rx_side s)))" "runCanTracerOld s' = runCanTracer s'" by blast+
qed

lemma poll_switch_returns:
  assumes r: "reaches a b (rx_side s) out"
    and f: "runCanTracer s \<or> \<not> runCanTracerOld s \<or> length (queue (CanFrameBuffer (msg_port (rx_side s)))) < 150"
  shows "poll_switch E s \<noteq> None"
proof (cases "runCanTracer s \<or> \<not> runCanTracerOld s")
  case True
  then show ?thesis by (auto simp: poll_switch_def)
next
  case False
  note st = poll_stop_rest [OF r]
  have "rx.port_inv (msg_port (rx_side (poll_stop E s)))" using rx.path_reach [OF st(1)] by (simp add: rx.path_inv_def)
  moreover have "length (queue (CanFrameBuffer (msg_port (rx_side (poll_stop E s))))) < 150"
    using st(3) f False by (simp add: same_port_def)
  ultimately show ?thesis using rx.flush_step False by (fastforce simp: poll_switch_def Let_def)
qed

end

text \<open>The error lamp of the file handler is never put out.\<close>

lemma led_kept [simp]:
  "fh_error_led (FatFS_SD_SetErrorContext ff i c n m x y fs) = fh_error_led fs" "fh_error_led (FileHandler_ErrorHandler fs)"
  by (simp_all add: FatFS_SD_SetErrorContext_def FileHandler_ErrorHandler_def)

lemma led_open: "FatFS_SD_OpenFileForOverWrite ff n dev fs = (r, dev', fs') \<Longrightarrow> fh_error_led fs \<Longrightarrow> fh_error_led fs'"
  by (auto simp: FatFS_SD_OpenFileForOverWrite_def Let_def split: prod.splits if_splits)

lemma led_write: "FatFS_SD_WriteFile ff bs len dev fs = (r, dev', fs') \<Longrightarrow> fh_error_led fs \<Longrightarrow> fh_error_led fs'"
  by (auto simp: FatFS_SD_WriteFile_def Let_def split: prod.splits if_splits)

lemma led_close: "FatFS_SD_CloseFile ff dev fs = (r, dev', fs') \<Longrightarrow> fh_error_led fs \<Longrightarrow> fh_error_led fs'"
  by (auto simp: FatFS_SD_CloseFile_def Let_def split: prod.splits if_splits)

lemma Persist_led: "fh_error_led fs \<Longrightarrow> fh_error_led (snd (appPersistInstrumentationData E fs))"
  by (auto simp: appPersistInstrumentationData_def Let_def
      dest: led_open led_close led_write [of _ _ _ _ _ "fst x" "fst (snd x)" "snd (snd x)" for x]
      split: prod.splits if_splits option.splits) (metis led_close led_open led_write prod.collapse)+

lemma log_file_name: "log_file i \<noteq> ascii ''InstrumentationData.bin''"
  by (simp add: log_name_def ascii_def)

lemma ring_files_frame: "ring_files F K N out \<Longrightarrow> (\<And>i. G (log_file i) = F (log_file i)) \<Longrightarrow> ring_files G K N out"
  by (simp add: ring_files_def)

lemma log_ring_frame:
  "log_ring files opened v l p out \<Longrightarrow> (\<And>i. files v' (log_file i) = files v (log_file i)) \<Longrightarrow> log_ring files opened v' l p out"
  using ring_files_frame [of "files v" _ _ out "files v'"] by (simp add: log_ring_def Let_def)

context ingest
begin

lemma CloseFile_any:
  "FatFS_SD_CloseFile (fatfs_of E) dev fs = (r, dev', fs') \<Longrightarrow> files (volume fs') = files (volume fs)"
  by (auto simp: FatFS_SD_CloseFile_def Let_def split: if_splits prod.splits dest: close_any)

text \<open>The instrumentation writes its own file only.\<close>

lemma Persist_files:
  defines "I \<equiv> ascii ''InstrumentationData.bin''"
  shows "files (volume (snd (appPersistInstrumentationData E fs))) =
    (files (volume fs))(I := files (volume (snd (appPersistInstrumentationData E fs))) I)"
proof -
  obtain r d1 s1 where o: "FatFS_SD_OpenFileForOverWrite (fatfs_of E) I (junk_file E) fs = (r, d1, s1)" by (metis prod_cases3)
  note ow = lg.OpenForOverWrite [OF o]
  show ?thesis
  proof (cases "r = 0 \<and> instrumentation E \<noteq> None")
    case False
    obtain r3 d3 s3 where c: "FatFS_SD_CloseFile (fatfs_of E) d1 s1 = (r3, d3, s3)" by (metis prod_cases3)
    have "appPersistInstrumentationData E fs = (r, s3)"
      using o c False by (auto simp: appPersistInstrumentationData_def I_def)
    then show ?thesis using CloseFile_any [OF c] ow by simp
  next
    case True
    then obtain bs where bs: "instrumentation E = Some bs" by blast
    obtain d :: bytes where d: "opened (dev_file d1) = Some (I, 0, length d)" "fflags d1 = 0x02" using ow True by blast
    obtain r2 d2 s2 where w: "FatFS_SD_WriteFile (fatfs_of E) bs (of_nat (length bs)) d1 s1 = (r2, d2, s2)" by (metis prod_cases3)
    have wf: "files (volume s2) = (files (volume s1))(I := files (volume s2) I)"
      using lg.WriteFile_frame [OF d(1) _ _ w] d(2) by simp
    obtain r3 d3 s3 where c: "FatFS_SD_CloseFile (fatfs_of E) d2 s2 = (r3, d3, s3)" by (metis prod_cases3)
    have "appPersistInstrumentationData E fs = (r, s3)"
      using o c w bs True by (auto simp: appPersistInstrumentationData_def I_def)
    then show ?thesis using CloseFile_any [OF c] ow wf by (metis fun_upd_upd snd_conv)
  qed
qed

lemma offered_files:
  "offered k l out \<Longrightarrow> (\<And>i. files (volume fs) (log_file i) = files (volume (clm_fs l)) (log_file i)) \<Longrightarrow>
   offered k (l\<lparr>clm_fs := fs\<rparr>) out"
  using log_ring_frame [of files opened "volume (clm_fs l)" _ _ _ "volume fs"]
  unfolding offered_def lg.logged_def by fastforce

lemma poll_commit_rest:
  assumes o: "offered k (log_side s) out"
  shows "\<exists>l n. poll_commit E s = Some (s\<lparr>log_side := l, commitLog := False, sd_notified := n\<rparr>) \<and> offered k l out \<and>
    clb_counters (clm_buf l) = clb_counters (clm_buf (log_side s)) \<and>
    (fh_error_led (clm_fs (log_side s)) \<longrightarrow> fh_error_led (clm_fs l))"
proof (cases "commitLog s")
  case False
  have "s = s\<lparr>log_side := log_side s, commitLog := False, sd_notified := sd_notified s\<rparr>" using False by simp
  then show ?thesis using o False
    by (intro exI [of _ "log_side s"] exI [of _ "sd_notified s"]) (simp add: poll_commit_def)
next
  case True
  obtain acc blks blocks es where l: "lg.logged (log_side s) acc blks blocks es" "subseq acc (clm_handed (log_side s))"
      "CanLogManager_FrameDropCount1 (clb_counters (clm_buf (log_side s))) + k = of_nat (length (clm_handed (log_side s)) - length acc)"
    using o by (auto simp: offered_def)
  have st: "lg.stocked (clm_buf (log_side s)) acc blks blocks es" using l(1) by (simp add: lg.logged_def)
  obtain n where n: "CanLogBuffer_UsedSlots (lwrb_of E) (clm_buf (log_side s)) = Some (0, n)"
    using lg.used_slots_returns [of "Rb1 (clm_buf (log_side s))" 0 0] st
    by (auto simp: CanLogBuffer_UsedSlots_def lg.stocked_def lg.holds_def)
  obtain r b blocks' es' where f: "CanLogBuffer_FillBlockWithPadding (lwrb_of E) (clm_buf (log_side s)) = (r, b)"
    "lg.stocked b acc blks blocks' es'" "clb_counters b = clb_counters (clm_buf (log_side s))"
    using lg.stocked_fill [OF st] by blast
  let ?lf = "(log_side s)\<lparr>clm_buf := b\<rparr>"
  have of: "offered k ?lf out"
    using l f(2,3) o unfolding offered_def lg.logged_def
    by (intro conjI exI [of _ acc] exI [of _ blks] exI [of _ blocks'] exI [of _ es']) simp_all
  define led where "led = (if CLB_E_OK \<noteq> r then CanLogFileManager_ErrorHandler ?lf else ?lf)"
  have hw: "\<exists>t. CanLogManager_UpdateRb1BytesHighWater (lwrb_of E) x = x\<lparr>clm_tel := t\<rparr>" for x :: "('r, 'v, 'f) clm_state"
    by (auto simp: CanLogManager_UpdateRb1BytesHighWater_def CanLogBuffer_UsedBytes_def)
  obtain t where t: "CanLogManager_UpdateRb1BytesHighWater (lwrb_of E) led = led\<lparr>clm_tel := t\<rparr>" using hw by blast
  define l2 where "l2 = (if n > 0 then led\<lparr>clm_tel := t\<rparr> else log_side s)"
  let ?P = "snd (appPersistInstrumentationData E (clm_fs l2))"
  have run: "poll_commit E s = Some (s\<lparr>log_side := l2\<lparr>clm_fs := ?P\<rparr>, commitLog := False, sd_notified := (n > 0 \<or> sd_notified s)\<rparr>)"
    using True n f(1) t by (auto simp: poll_commit_def l2_def led_def ingest_error_def Let_def)
  have "offered k led out" using of by (simp add: led_def)
  then have "offered k (led\<lparr>clm_tel := t\<rparr>) out" by (rule offered_cong) simp_all
  then have o2: "offered k l2 out" using o by (simp add: l2_def)
  have "files (volume ?P) (log_file i) = files (volume (clm_fs l2)) (log_file i)" for i
    using Persist_files [of "clm_fs l2"] log_file_name by (metis fun_upd_apply)
  then have "offered k (l2\<lparr>clm_fs := ?P\<rparr>) out" by (rule offered_files [OF o2])
  moreover have "clb_counters (clm_buf (l2\<lparr>clm_fs := ?P\<rparr>)) = clb_counters (clm_buf (log_side s))"
    using f(3) by (simp add: l2_def led_def)
  moreover have "fh_error_led (clm_fs (log_side s)) \<Longrightarrow> fh_error_led ?P"
    by (rule Persist_led) (simp add: l2_def led_def)
  ultimately show ?thesis using run by fastforce
qed

end

text \<open>What the end of a round adds to the counter of missing frames, and the sequence it leaves.\<close>

definition missing_added :: "ScSequenceType \<Rightarrow> u64 \<Rightarrow> u64" where
  "missing_added q m = (if initialized q then m + ucast (missing_count q) else m)"

definition seq_restarted :: "ScSequenceType \<Rightarrow> u32 \<Rightarrow> ScSequenceType" where
  "seq_restarted q i = (if initialized q then the (snd (ScReset (Some q) i)) else q)"

context ingest
begin

lemma missing_frames_rest:
  assumes "missing_frames q i f s = (q', s')" "\<And>n c. CanLogManager_FrameDropCount1 (f n c) = CanLogManager_FrameDropCount1 c"
    "offered k (log_side s) out"
  shows "rx_side s' = rx_side s" "offered k (log_side s') out" "clm_fs (log_side s') = clm_fs (log_side s)"
    "emitSyncEntry s' = emitSyncEntry s" "runCanTracer s' = runCanTracer s"
    "LastFrameTimestamp s' = LastFrameTimestamp s" "LastFrameTimestampValid s' = LastFrameTimestampValid s" "seqs s' = seqs s"
    "clm_buf (log_side s') = (if initialized q then (clm_buf (log_side s))\<lparr>clb_counters :=
       f (ucast (missing_count q)) (clb_counters (clm_buf (log_side s)))\<rparr> else clm_buf (log_side s))"
    "q' = (if initialized q then the (snd (ScReset (Some q) i)) else q)"
  using assms by (auto simp: missing_frames_def log_counters_def Let_def split: if_splits prod.splits intro: offered_cong)

lemma poll_missing_rest:
  assumes "offered k (log_side s) out"
  shows "rx_side (poll_missing s) = rx_side s" "offered k (log_side (poll_missing s)) out"
    "clm_fs (log_side (poll_missing s)) = clm_fs (log_side s)"
    "emitSyncEntry (poll_missing s) = emitSyncEntry s" "runCanTracer (poll_missing s) = runCanTracer s"
    "LastFrameTimestamp (poll_missing s) = LastFrameTimestamp s" "LastFrameTimestampValid (poll_missing s) = LastFrameTimestampValid s"
    "read_counts (clb_counters (clm_buf (log_side (poll_missing s)))) = (case read_counts (clb_counters (clm_buf (log_side s))) of
       (n, m1, m2) \<Rightarrow> (n, missing_added (CAN1_Sequence s) m1, missing_added (CAN2_Sequence s) m2))"
    "seqs (poll_missing s) = (seq_restarted (CAN1_Sequence s) (CAN1_SequenceIndex s), CAN1_SequenceIndex s,
       seq_restarted (CAN2_Sequence s) (CAN2_SequenceIndex s), CAN2_SequenceIndex s)"
proof -
  let ?f1 = "\<lambda>n c. c\<lparr>CanLogManager_CAN1_MissingCount := CanLogManager_CAN1_MissingCount c + n\<rparr>"
  let ?f2 = "\<lambda>n c. c\<lparr>CanLogManager_CAN2_MissingCount := CanLogManager_CAN2_MissingCount c + n\<rparr>"
  obtain q1 s1 where 1: "missing_frames (CAN1_Sequence s) (CAN1_SequenceIndex s) ?f1 s = (q1, s1)" by fastforce
  let ?t = "s1\<lparr>CAN1_Sequence := q1\<rparr>"
  obtain q2 s2 where 2: "missing_frames (CAN2_Sequence ?t) (CAN2_SequenceIndex ?t) ?f2 ?t = (q2, s2)" by fastforce
  have p: "poll_missing s = s2\<lparr>CAN2_Sequence := q2\<rparr>" using 1 2 by (simp add: poll_missing_def Let_def)
  note r1 = missing_frames_rest [OF 1 _ assms, simplified]
  have "offered k (log_side ?t) out" using r1(2) by simp
  note r2 = missing_frames_rest [OF 2 _ this, simplified]
  show "rx_side (poll_missing s) = rx_side s" "offered k (log_side (poll_missing s)) out"
    "clm_fs (log_side (poll_missing s)) = clm_fs (log_side s)"
    "emitSyncEntry (poll_missing s) = emitSyncEntry s" "runCanTracer (poll_missing s) = runCanTracer s"
    "LastFrameTimestamp (poll_missing s) = LastFrameTimestamp s" "LastFrameTimestampValid (poll_missing s) = LastFrameTimestampValid s"
    using r1(1-7) r2(1-7) by (simp_all add: p)
  have i: "CAN1_SequenceIndex s1 = CAN1_SequenceIndex s" "CAN2_SequenceIndex s1 = CAN2_SequenceIndex s" "CAN2_Sequence s1 = CAN2_Sequence s"
    using r1(8) by (simp_all add: seqs_def)
  show "read_counts (clb_counters (clm_buf (log_side (poll_missing s)))) = (case read_counts (clb_counters (clm_buf (log_side s))) of
       (n, m1, m2) \<Rightarrow> (n, missing_added (CAN1_Sequence s) m1, missing_added (CAN2_Sequence s) m2))"
    using r1(9) r2(9) i by (simp add: p read_counts_def missing_added_def)
  show "seqs (poll_missing s) = (seq_restarted (CAN1_Sequence s) (CAN1_SequenceIndex s), CAN1_SequenceIndex s,
       seq_restarted (CAN2_Sequence s) (CAN2_SequenceIndex s), CAN2_SequenceIndex s)"
    using r1(10) r2(8,10) i by (simp add: p seqs_def seq_restarted_def)
qed

lemma poll_check_rest:
  assumes "offered k (log_side s) out"
  shows "rx_side (poll_check s) = rx_side s" "offered k (log_side (poll_check s)) out" "clm_fs (log_side (poll_check s)) = clm_fs (log_side s)"
    "read_counts (clb_counters (clm_buf (log_side (poll_check s)))) = read_counts (clb_counters (clm_buf (log_side s)))"
    "runCanTracer (poll_check s) = runCanTracer s" "seqs (poll_check s) = seqs s"
  using assms by (auto simp: poll_check_def check_counters_def log_counters_def Let_def read_counts_def split: prod.splits intro: offered_cong)

lemma poll_end_rest:
  assumes o: "offered k (log_side s) out"
  shows "\<exists>u. poll_end E v s = Some (poll_check u) \<and> rx_side u = rx_side s \<and> offered k (log_side u) out \<and>
    read_counts (clb_counters (clm_buf (log_side u))) = read_counts (clb_counters (clm_buf (log_side (poll_missing s)))) \<and>
    seqs u = seqs (poll_missing s) \<and> runCanTracer u = runCanTracer s \<and>
    (fh_error_led (clm_fs (log_side s)) \<longrightarrow> fh_error_led (clm_fs (log_side u)))"
proof -
  let ?m = "poll_missing s"
  let ?ts = "if LastFrameTimestampValid ?m then LastFrameTimestamp ?m else ucast (AbsTime v)"
  note m = poll_missing_rest [OF o]
  obtain l where l: "poll_sync E (AbsTime v) ?m = Some (?m\<lparr>emitSyncEntry := False, log_side := l\<rparr>)"
    "offered k l out" "fh_error_led (clm_fs (log_side s)) \<longrightarrow> fh_error_led (clm_fs l)"
    "read_counts (clb_counters (clm_buf l)) = read_counts (clb_counters (clm_buf (log_side ?m)))"
  proof (cases "emitSyncEntry s")
    case True
    have "offered k (log_side (?m\<lparr>emitSyncEntry := False\<rparr>)) out" using m(2) by simp
    from emit [OF this, of "AbsTime v" ?ts] show ?thesis using True m(3,4) that by (auto simp: poll_sync_def)
  next
    case False
    have "?m = ?m\<lparr>emitSyncEntry := False, log_side := log_side ?m\<rparr>" using False m(4) by simp
    then show ?thesis using False m(2-4) that [of "log_side ?m"] by (simp add: poll_sync_def)
  qed
  let ?t = "?m\<lparr>emitSyncEntry := False, log_side := l\<rparr>"
  obtain l' n where c: "poll_commit E ?t = Some (?t\<lparr>log_side := l', commitLog := False, sd_notified := n\<rparr>)"
    "offered k l' out" "clb_counters (clm_buf l') = clb_counters (clm_buf l)"
    "fh_error_led (clm_fs l) \<longrightarrow> fh_error_led (clm_fs l')"
    using poll_commit_rest [of k ?t out] l(2) by auto
  let ?u = "?t\<lparr>log_side := l', commitLog := False, sd_notified := n\<rparr>"
  have run: "poll_end E v s = Some (poll_check ?u)" using l(1) c(1) by (simp add: poll_end_def)
  show ?thesis using run m(1,5) c(2-4) l(3,4) by (intro exI [of _ ?u]) simp
qed

lemma take_frame_step:
  assumes r: "reaches a b (rx_side s) out"
  shows "(\<exists>f g. take_frame E s = (Some f, s\<lparr>rx_side := (rx_side s)\<lparr>msg_port := g\<rparr>\<rparr>) \<and>
      reaches a b ((rx_side s)\<lparr>msg_port := g\<rparr>) (out @ [f]) \<and> waiting queue (msg_port (rx_side s)) = f # waiting queue g \<and>
      port_counters g = port_counters (msg_port (rx_side s))) \<or>
    (\<exists>g. take_frame E s = (None, s\<lparr>rx_side := (rx_side s)\<lparr>msg_port := g\<rparr>\<rparr>) \<and>
      reaches a b ((rx_side s)\<lparr>msg_port := g\<rparr>) out \<and> waiting queue g = waiting queue (msg_port (rx_side s)) \<and>
      port_counters g = port_counters (msg_port (rx_side s)) \<and> unread (msg_port (rx_side s)) = [] \<and> queue (CanFrameBuffer (msg_port (rx_side s))) = [])"
proof -
  have "rx.port_inv (msg_port (rx_side s))" using rx.path_reach [OF r] by (simp add: rx.path_inv_def)
  from rx.read_step [OF this, of 2] show ?thesis
  proof (elim disjE exE conjE)
    fix f g
    assume g: "fdcan_msg_port_read (mbuf_of E) 2 (msg_port (rx_side s)) = (24, Some f, g)"
      "waiting queue (msg_port (rx_side s)) = f # waiting queue g" "port_counters g = port_counters (msg_port (rx_side s))"
    have "reaches a b ((rx_side s)\<lparr>msg_port := g\<rparr>) (out @ [f])" using can_reach.read [OF r g(1)] by simp
    then show ?thesis using g by (intro disjI1 exI [of _ f] exI [of _ g]) (simp add: take_frame_def)
  next
    fix g
    assume g: "fdcan_msg_port_read (mbuf_of E) 2 (msg_port (rx_side s)) = (0, None, g)"
      "unread (msg_port (rx_side s)) = []" "queue (CanFrameBuffer (msg_port (rx_side s))) = []"
      "waiting queue g = waiting queue (msg_port (rx_side s))" "port_counters g = port_counters (msg_port (rx_side s))"
    have "reaches a b ((rx_side s)\<lparr>msg_port := g\<rparr>) out" using can_reach.read [OF r g(1)] by simp
    then show ?thesis using g by (intro disjI2 exI [of _ g]) (simp add: take_frame_def)
  qed
qed

lemma poll_clock_rest:
  assumes "poll_clock E s = (v, s')"
  shows "rx_side s' = rx_side s" "offered k (log_side s) out \<Longrightarrow> offered k (log_side s') out"
    "clm_buf (log_side s') = clm_buf (log_side s)" "runCanTracer s' = runCanTracer s" "LocalFrameCount v = 0"
    "seqs s' = seqs s"
  using assms by (auto simp: poll_clock_def ingest_time_def CanLogStore.FDCAN_GetTimestampHook_def Let_def intro: offered_cong)

lemma reaches_rx_step: "reaches a b c out \<Longrightarrow> rx_step E started fifo c c' \<Longrightarrow> reaches a b c' out"
  by (erule rx_step.cases) (auto intro: can_reach.intros)

end

section \<open>The numbers of a channel\<close>

text \<open>\<open>chan_seq nums i q m\<close>: the numbers read so far are \<open>nums\<close>; as long as they have grown, the numbers left out
  are those added to the counter \<open>m\<close> and those the check has found since.\<close>

definition numbers :: "u8 \<Rightarrow> FDCAN_ClassicFrameType list \<Rightarrow> nat list" where
  "numbers ch out = map (\<lambda>f. unat (rx_sequence f)) (of_channel ch out)"

definition growing :: "nat list \<Rightarrow> bool" where
  "growing nums \<longleftrightarrow> sorted_wrt (<) (0 # nums)"

definition newest :: "nat list \<Rightarrow> nat" where
  "newest nums = List.last (0 # nums)"

definition chan_seq :: "nat list \<Rightarrow> u32 \<Rightarrow> ScSequenceType \<Rightarrow> u64 \<Rightarrow> bool" where
  "chan_seq nums i q m \<longleftrightarrow> sc_wf q \<and> wrap_index q = UINT32_MAX \<and>
     (growing nums \<longrightarrow> previous_id q = i \<and> unat i = newest nums \<and>
        (\<exists>p. m = of_nat p \<and> p + unat (missing_count q) + length nums = newest nums))"

lemma numbers_snoc:
  "numbers ch (out @ [f]) = (if frame_channel f = ch then numbers ch out @ [unat (rx_sequence f)] else numbers ch out)"
  by (simp add: numbers_def of_channel_def)

lemma growing_snoc: "growing (nums @ [x]) \<Longrightarrow> growing nums \<and> newest nums < x"
proof -
  assume g: "growing (nums @ [x])"
  then have "sorted_wrt (<) ((0 # nums) @ [x])" by (simp add: growing_def)
  then have "sorted_wrt (<) (0 # nums)" "\<forall>y \<in> set (0 # nums). y < x" unfolding sorted_wrt_append by simp_all
  then show ?thesis unfolding growing_def newest_def using last_in_set by blast
qed

lemma newest_snoc [simp]: "newest (nums @ [x]) = x"
  by (simp add: newest_def)

lemma chan_seq_start: "chan_seq [] 0 (sc_started q) 0"
  by (simp add: chan_seq_def sc_started_def sc_wf_def newest_def)

lemma chan_seq_frame:
  assumes c: "chan_seq nums i q m"
  shows "chan_seq (nums @ [unat j]) j (sc_check j q) m"
proof -
  have wf: "sc_wf (sc_check j q)" "wrap_index (sc_check j q) = UINT32_MAX"
    using c sc_check_wf by (simp_all add: chan_seq_def)
  have "previous_id (sc_check j q) = j \<and>
      (\<exists>p. m = of_nat p \<and> p + unat (missing_count (sc_check j q)) + length (nums @ [unat j]) = unat j)"
    if g: "growing (nums @ [unat j])"
  proof -
    have lt: "newest nums < unat j" "growing nums" using growing_snoc [OF g] by simp_all
    obtain p where p: "initialized q" "wrap_index q = UINT32_MAX" "previous_id q = i" "unat i = newest nums" "m = of_nat p"
      "p + unat (missing_count q) + length nums = newest nums"
      using c lt(2) by (auto simp: chan_seq_def sc_wf_def)
    have m32: "unat (UINT32_MAX :: u32) = 4294967295" by simp
    define d where "d = unat j - unat i"
    have d: "1 \<le> d" "d \<le> unat (wrap_index q)" "unat i + d = unat j"
      using lt(1) p(2,4) unat_u32_bound [of j] by (simp_all add: d_def m32)
    have "j = of_nat ((unat (previous_id q) + d) mod Suc (unat (wrap_index q)))"
      using d(3) p(2,3) unat_u32_bound [of j] by simp
    note adv = sc_check_advance [OF _ d(1,2) this]
    have "unat (missing_count q) + (d - 1) \<le> 4294967295" using d p(4,6) unat_u32_bound [of j] by linarith
    then have "unat (missing_count (sc_check j q)) = unat (missing_count q) + (d - 1)" "previous_id (sc_check j q) = j"
      using adv(2,3) c by (simp_all add: chan_seq_def saturate_def)
    then show ?thesis using p(4-6) d by (intro conjI exI [of _ p]) simp_all
  qed
  then show ?thesis using wf by (simp add: chan_seq_def)
qed

lemma chan_seq_done:
  assumes c: "chan_seq nums i q m"
  shows "chan_seq nums i (seq_restarted q i) (missing_added q m)"
proof -
  have q: "initialized q" "wrap_index q = UINT32_MAX" using c by (simp_all add: chan_seq_def sc_wf_def)
  have le: "\<not> i > wrap_index q" using q(2) by (simp add: not_less word_le_nat_alt unat_u32_le_max)
  have r: "seq_restarted q i = q\<lparr>previous_id := i, gap_count := 0, missing_count := 0\<rparr>" "missing_added q m = m + ucast (missing_count q)"
    using q le by (simp_all add: seq_restarted_def missing_added_def)
  have "m + ucast (missing_count q) = of_nat (p + unat (missing_count q))" if "m = of_nat p" for p
    using that by simp
  then show ?thesis using c q(2) le unfolding r by (auto simp: chan_seq_def sc_wf_def intro: exI [of _ "_ + unat (missing_count q)"])
qed

section \<open>The invariant\<close>

lemma round_seqs:
  assumes s: "seqs s' = seqs (note_channel E f (frame_entry E f) s)" and b: "127 \<le> length (behind_data E f)"
    and c: "chan_seq (numbers 1 out) (CAN1_SequenceIndex s) (CAN1_Sequence s) m1"
      "chan_seq (numbers 2 out) (CAN2_SequenceIndex s) (CAN2_Sequence s) m2"
  shows "chan_seq (numbers 1 (out @ [f])) (CAN1_SequenceIndex s') (CAN1_Sequence s') m1"
    "chan_seq (numbers 2 (out @ [f])) (CAN2_SequenceIndex s') (CAN2_Sequence s') m2"
proof -
  have ch: "frame_entry E f ! 11 = frame_channel f"
    using entry_fields(6) [of f E] small_fields(3) [of "dlc_dl_flags f"] b by (simp add: frame_entry_def)
  have n: "CAN1_Sequence s' = (if frame_channel f = 1 then sc_check (rx_sequence f) (CAN1_Sequence s) else CAN1_Sequence s)"
    "CAN1_SequenceIndex s' = (if frame_channel f = 1 then rx_sequence f else CAN1_SequenceIndex s)"
    "CAN2_Sequence s' = (if frame_channel f = 2 then sc_check (rx_sequence f) (CAN2_Sequence s) else CAN2_Sequence s)"
    "CAN2_SequenceIndex s' = (if frame_channel f = 2 then rx_sequence f else CAN2_SequenceIndex s)"
    using s ch by (simp_all add: seqs_def note_channel_def sc_check_def Let_def split: if_splits)
  show "chan_seq (numbers 1 (out @ [f])) (CAN1_SequenceIndex s') (CAN1_Sequence s') m1"
    "chan_seq (numbers 2 (out @ [f])) (CAN2_SequenceIndex s') (CAN2_Sequence s') m2"
    using c chan_seq_frame by (simp_all add: n numbers_snoc)
qed

text \<open>The part of the invariant that is about what was read.\<close>

definition read_inv :: "reset_sums \<Rightarrow> ('h, 'b, 'r, 'v, 'f, 'x) ingest_state \<Rightarrow> FDCAN_ClassicFrameType list \<Rightarrow> bool" where
  "read_inv z s out \<longleftrightarrow> (case read_sums s z of (n, m1, m2) \<Rightarrow> n = of_nat (length out) \<and>
     chan_seq (numbers 1 out) (CAN1_SequenceIndex s) (CAN1_Sequence s) m1 \<and>
     chan_seq (numbers 2 out) (CAN2_SequenceIndex s) (CAN2_Sequence s) m2)"

lemma read_inv_cong: "read_inv z s out \<Longrightarrow> read_sums s' z' = read_sums s z \<Longrightarrow> seqs s' = seqs s \<Longrightarrow> read_inv z' s' out"
  by (simp add: read_inv_def seqs_def)

context ingest
begin

definition ingest_inv :: "reset_sums \<Rightarrow> ('h, 'b, 'r, 'v, 'f, 'x) ingest_state \<Rightarrow> FDCAN_ClassicFrameType list \<Rightarrow> bool" where
  "ingest_inv z s out \<longleftrightarrow>
     reaches (sum_frames z) (sum_drops z) (rx_side s) out \<and> offered (sum_refused z) (log_side s) out \<and>
     read_inv z s out"

lemma inv_start:
  assumes "RxRingBuffer (can1 (rx_side s)) = rx_ring_boot" "RxRingBuffer (can2 (rx_side s)) = rx_ring_boot"
    "SequenceIndex (can1 (rx_side s)) = 0" "SequenceIndex (can2 (rx_side s)) = 0"
    "msg_port (rx_side s) = fdcan_msg_port_init (mbuf_of E) (port_boot b)" "log_started (lwrb_of E) files opened (log_side s)"
    and q: "CAN1_Sequence s = sc_started q1" "CAN2_Sequence s = sc_started q2" "CAN1_SequenceIndex s = 0" "CAN2_SequenceIndex s = 0"
  shows "ingest_inv no_sums s []"
proof -
  have c: "clb_counters (clm_buf (log_side s)) = zero_counters"
    using assms(6) by (auto simp: log_started_def CanLogBuffer_Init_def clb_boot_def case_prod_beta)
  have "lg.logged (log_side s) [] [] [] []" by (rule lg.logged_start [OF assms(6)])
  then have "offered 0 (log_side s) []" using c assms(6)
    by (auto simp: offered_def handed_of_def zero_counters_def log_started_def intro: exI [of _ "[]"])
  moreover have "read_inv no_sums s []" using c q chan_seq_start
    by (simp add: read_inv_def read_sums_def no_sums_def zero_counters_def numbers_def of_channel_def Let_def)
  ultimately show ?thesis using can_reach.boot [OF assms(1-5)] by (simp add: ingest_inv_def no_sums_def)
qed

lemma inv_frame:
  assumes i: "ingest_inv z s out" and t: "take_frame E s = (Some f, s1)" and p: "poll_frame E f v s1 = Some (go_on, v', s')"
  shows "ingest_inv z s' (out @ [f])"
proof -
  have r: "reaches (sum_frames z) (sum_drops z) (rx_side s) out" using i by (simp add: ingest_inv_def)
  obtain g where g: "s1 = s\<lparr>rx_side := (rx_side s)\<lparr>msg_port := g\<rparr>\<rparr>" "reaches (sum_frames z) (sum_drops z) ((rx_side s)\<lparr>msg_port := g\<rparr>) (out @ [f])"
    using take_frame_step [OF r] t by auto
  have o: "offered (sum_refused z) (log_side s1) out" using i g(1) by (simp add: ingest_inv_def)
  have fr: "rx_side s' = rx_side s1" "offered (sum_refused z) (log_side s') (out @ [f])"
    "read_counts (clb_counters (clm_buf (log_side s'))) = count_read (read_counts (clb_counters (clm_buf (log_side s1))))"
    "seqs s' = seqs (note_channel E f (frame_entry E f) s1)"
    using frame_round [OF o, of f v] p by auto
  obtain m1 m2 where m: "read_sums s z = (of_nat (length out), m1, m2)"
      "chan_seq (numbers 1 out) (CAN1_SequenceIndex s1) (CAN1_Sequence s1) m1"
      "chan_seq (numbers 2 out) (CAN2_SequenceIndex s1) (CAN2_Sequence s1) m2"
    using i g(1) by (auto simp: ingest_inv_def read_inv_def)
  have "read_sums s' z = (of_nat (length out) + 1, m1, m2)"
    using m(1) fr(3) g(1) by (auto simp: read_sums_def read_counts_def count_read_def Let_def)
  then have "read_inv z s' (out @ [f])" using round_seqs [OF fr(4) behind m(2,3)] by (simp add: read_inv_def add.commute)
  then show ?thesis using i g fr(1,2) by (simp add: ingest_inv_def)
qed

lemma inv_finish:
  assumes i: "ingest_inv z s out" and p: "poll_end E v s = Some s'"
  shows "ingest_inv z s' out"
proof -
  have o: "offered (sum_refused z) (log_side s) out" using i by (simp add: ingest_inv_def)
  obtain u where u: "s' = poll_check u" "rx_side u = rx_side s" "offered (sum_refused z) (log_side u) out"
    "read_counts (clb_counters (clm_buf (log_side u))) = read_counts (clb_counters (clm_buf (log_side (poll_missing s))))"
    "seqs u = seqs (poll_missing s)" using poll_end_rest [OF o, of v] p by auto
  note ch = poll_check_rest [OF u(3)] and m = poll_missing_rest [OF o]
  obtain n m1 m2 where n: "read_counts (clb_counters (clm_buf (log_side s))) = (n, m1, m2)" by (metis prod_cases3)
  have c: "n + sum_read z = of_nat (length out)"
    "chan_seq (numbers 1 out) (CAN1_SequenceIndex s) (CAN1_Sequence s) (m1 + sum_missing1 z)"
    "chan_seq (numbers 2 out) (CAN2_SequenceIndex s) (CAN2_Sequence s) (m2 + sum_missing2 z)"
    using i n by (auto simp: ingest_inv_def read_inv_def read_sums_def read_counts_def Let_def)
  have a: "missing_added q m + t = missing_added q (m + t)" for q and m t :: u64 by (simp add: missing_added_def)
  have "read_sums s' z = (n + sum_read z, missing_added (CAN1_Sequence s) (m1 + sum_missing1 z), missing_added (CAN2_Sequence s) (m2 + sum_missing2 z))"
    using u(1,4) ch(4) m(8) n a by (simp add: read_sums_def read_counts_def Let_def)
  moreover have "seqs s' = (seq_restarted (CAN1_Sequence s) (CAN1_SequenceIndex s), CAN1_SequenceIndex s,
       seq_restarted (CAN2_Sequence s) (CAN2_SequenceIndex s), CAN2_SequenceIndex s)" using u(1,5) ch(6) m(9) by simp
  ultimately have "read_inv z s' out" using c(1) chan_seq_done [OF c(2)] chan_seq_done [OF c(3)] by (simp add: read_inv_def seqs_def)
  then show ?thesis using i u(1,2) ch(1,2) by (simp add: ingest_inv_def)
qed

text \<open>A step that only lights the lamp and changes the receiving side in a way \<open>can_reach\<close> knows.\<close>

lemma inv_rx:
  assumes "ingest_inv z s out" "reaches (sum_frames z) (sum_drops z) (rx_side s') out"
    "log_side s' = log_side s \<or> log_side s' = CanLogFileManager_ErrorHandler (log_side s)" "seqs s' = seqs s"
  shows "ingest_inv z s' out"
proof -
  have "offered (sum_refused z) (log_side s') out" using assms(1,3) by (auto simp: ingest_inv_def)
  moreover have "read_inv z s' out" by (rule read_inv_cong [of z s]) (use assms in \<open>auto simp: ingest_inv_def intro: read_sums_cong\<close>)
  ultimately show ?thesis using assms(2) by (simp add: ingest_inv_def)
qed

lemma inv_start_channel:
  assumes i: "ingest_inv z s out" and st: "start_channel is_off start (ok, s) = (ok', s')"
    and r: "reaches (sum_frames z) (sum_drops z) (snd (start (rx_side s))) out"
  shows "ingest_inv z s' out"
  using start_channel_rest [OF st] r i by (intro inv_rx [OF i]) (auto simp: ingest_inv_def)

lemma inv_reset: "ingest_inv z s out \<Longrightarrow> ingest_inv (add_sums s z) (poll_reset E s) out"
proof -
  assume i: "ingest_inv z s out"
  then have "reaches (sum_frames z) (sum_drops z) (rx_side s) out" "offered (sum_refused z) (log_side s) out"
    by (simp_all add: ingest_inv_def)
  note r = poll_reset_rest [OF this]
  have "read_inv (add_sums s z) (poll_reset E s) out" by (rule read_inv_cong [of z s]) (use i r(3,4) in \<open>simp_all add: ingest_inv_def\<close>)
  then show ?thesis using r(1,2) by (simp add: ingest_inv_def)
qed

lemma inv_reach: "logger_reach E started fifo files opened z s out \<Longrightarrow> ingest_inv z s out"
proof (induction rule: logger_reach.induct)
  case (start s b q1 q2)
  then show ?case by (rule inv_start)
next
  case (receive z s out c)
  show ?case by (rule inv_rx [OF receive.IH]) (use receive.IH reaches_rx_step [OF _ receive.hyps(2)] in \<open>simp_all add: ingest_inv_def\<close>)
next
  case (store z s out l)
  note sd = offered_sd [of "sum_refused z" "log_side s" out l]
  have "read_inv z (s\<lparr>log_side := l\<rparr>) out"
    by (rule read_inv_cong [of z s]) (use store sd(2) in \<open>simp_all add: ingest_inv_def read_sums_def read_counts_def Let_def\<close>)
  then show ?case using store sd(1) by (simp add: ingest_inv_def)
next
  case (flags z s out run old commit)
  show ?case by (rule inv_rx [OF flags.IH]) (use flags.IH in \<open>simp_all add: ingest_inv_def\<close>)
next
  case (reset z s out)
  then show ?case by (simp add: inv_reset)
next
  case (start1 z s out ok ok' s')
  then have "reaches (sum_frames z) (sum_drops z) (snd (CanAbs_Start_Can1 (fdcan_of E) (rx_side s))) out"
    by (simp add: CanAbs_Start_Can1_def ingest_inv_def reaches_ioctl)
  then show ?case by (rule inv_start_channel [OF start1.IH start1.hyps(2)])
next
  case (start2 z s out ok ok' s')
  then have "reaches (sum_frames z) (sum_drops z) (snd (CanAbs_Start_Can2 (fdcan_of E) (rx_side s))) out"
    by (simp add: CanAbs_Start_Can2_def ingest_inv_def reaches_ioctl)
  then show ?case by (rule inv_start_channel [OF start2.IH start2.hyps(2)])
next
  case (stop1 z s out)
  then show ?case by (intro inv_rx [OF stop1.IH]) (simp_all add: stop_channel_rest CanAbs_Stop_Can1_def reaches_ioctl ingest_inv_def)
next
  case (stop2 z s out)
  then show ?case by (intro inv_rx [OF stop2.IH]) (simp_all add: stop_channel_rest CanAbs_Stop_Can2_def reaches_ioctl ingest_inv_def)
next
  case (drain z s out)
  then show ?case by (intro inv_rx [OF drain.IH]) (simp_all add: can_reach.drain ingest_inv_def)
next
  case (flush z s out g)
  have "reaches (sum_frames z) (sum_drops z) (rx_side s) out" using flush.IH by (simp add: ingest_inv_def)
  from can_reach.flush [OF this flush.hyps(2)] show ?case by (intro inv_rx [OF flush.IH]) simp_all
next
  case (clock z s out v s')
  note r = poll_clock_rest [OF clock.hyps(2)]
  have "read_inv z s' out" by (rule read_inv_cong [of z s]) (use clock.IH r in \<open>simp_all add: ingest_inv_def read_sums_def\<close>)
  then show ?case using clock.IH r by (simp add: ingest_inv_def)
next
  case (frame z s out f s1 v go_on v' s')
  then show ?case using inv_frame by blast
next
  case (no_frame z s out s')
  have r: "reaches (sum_frames z) (sum_drops z) (rx_side s) out" using no_frame.IH by (simp add: ingest_inv_def)
  obtain g where g: "s' = s\<lparr>rx_side := (rx_side s)\<lparr>msg_port := g\<rparr>\<rparr>" "reaches (sum_frames z) (sum_drops z) ((rx_side s)\<lparr>msg_port := g\<rparr>) out"
    using take_frame_step [OF r] no_frame.hyps(2) by auto
  show ?case by (rule inv_rx [OF no_frame.IH]) (use g in simp_all)
next
  case (finish z s out v s')
  then show ?case using inv_finish by blast
qed

end

section \<open>The loop\<close>

lemma read_page: "fdcan_msg_port_read ops ms g = (n, f, g') \<Longrightarrow> PageReceive g' = PageReceive g"
  by (auto simp: fdcan_msg_port_read_def fdcan_msg_port_update_highwater_def Let_def split: if_splits prod.splits option.splits)

lemma take_frame_page:
  "take_frame E s = (f, s') \<Longrightarrow> PageReceive (msg_port (rx_side s')) = PageReceive (msg_port (rx_side s))"
  by (auto simp: take_frame_def dest: read_page split: prod.splits)

context ingest
begin

abbreviation reached :: "reset_sums \<Rightarrow> ('h, 'b, 'r, 'v, 'f, 'x) ingest_state \<Rightarrow> FDCAN_ClassicFrameType list \<Rightarrow> bool" where
  "reached \<equiv> logger_reach E started fifo files opened"

lemma loop:
  assumes "reached z s out" "runCanTracer s \<longrightarrow> LocalFrameCount v \<le> 256"
  shows "\<exists>v' s' k. poll_loop E v s = Some (v', s') \<and>
    reached z s' (out @ take k (waiting queue (msg_port (rx_side s)))) \<and>
    waiting queue (msg_port (rx_side s')) = drop k (waiting queue (msg_port (rx_side s))) \<and>
    k \<le> length (deliverable queue (msg_port (rx_side s))) \<and>
    port_counters (msg_port (rx_side s')) = port_counters (msg_port (rx_side s)) \<and>
    (may_read v s \<and> deliverable queue (msg_port (rx_side s)) \<noteq> [] \<longrightarrow> 0 < k) \<and>
    (fh_error_led (clm_fs (log_side s')) \<or> runCanTracer s' = runCanTracer s \<and>
      k = (if runCanTracer s then min (256 - unat (LocalFrameCount v)) (length (deliverable queue (msg_port (rx_side s))))
           else length (deliverable queue (msg_port (rx_side s)))))"
  using assms
proof (induction "length (deliverable queue (msg_port (rx_side s)))" arbitrary: s v out rule: less_induct)
  case less
  let ?D = "deliverable queue (msg_port (rx_side s))" and ?W = "waiting queue (msg_port (rx_side s))"
  have r: "reaches (sum_frames z) (sum_drops z) (rx_side s) out" using inv_reach [OF less.prems(1)] by (simp add: ingest_inv_def)
  show ?case
  proof (cases "may_read v s")
    case False
    then have "runCanTracer s" "unat (LocalFrameCount v) = 256"
      using less.prems(2) by (auto simp: may_read_def word_le_nat_alt word_less_nat_alt)
    then show ?thesis using False less.prems(1)
      by (intro exI [of _ v] exI [of _ s] exI [of _ "0 :: nat"]) (simp add: poll_loop.simps [of E v s])
  next
    case True
    from take_frame_step [OF r] show ?thesis
    proof (elim disjE exE conjE)
      fix g
      assume t: "take_frame E s = (None, s\<lparr>rx_side := (rx_side s)\<lparr>msg_port := g\<rparr>\<rparr>)" "waiting queue g = ?W"
          "port_counters g = port_counters (msg_port (rx_side s))"
        and e: "unread (msg_port (rx_side s)) = []" "queue (CanFrameBuffer (msg_port (rx_side s))) = []"
      have "?D = []" using e by (simp add: deliverable_def)
      then show ?thesis using t True logger_reach.no_frame [OF less.prems(1) t(1)]
        by (intro exI [of _ v] exI [of _ "s\<lparr>rx_side := (rx_side s)\<lparr>msg_port := g\<rparr>\<rparr>"] exI [of _ "0 :: nat"])
          (simp add: poll_loop.simps [of E v s])
    next
      fix f g
      let ?t = "s\<lparr>rx_side := (rx_side s)\<lparr>msg_port := g\<rparr>\<rparr>"
      assume t: "take_frame E s = (Some f, ?t)" "?W = f # waiting queue g" "port_counters g = port_counters (msg_port (rx_side s))"
      have P: "PageReceive g = PageReceive (msg_port (rx_side s))" using take_frame_page [OF t(1)] by simp
      have D: "?D = f # deliverable queue g" using t(2) unfolding waiting_deliverable P by (metis append_Cons append_same_eq)
      have o: "offered (sum_refused z) (log_side ?t) out" using inv_reach [OF less.prems(1)] by (simp add: ingest_inv_def)
      obtain go_on v1 s1 where p: "poll_frame E f v ?t = Some (go_on, v1, s1)" "rx_side s1 = rx_side ?t"
        "LocalFrameCount v1 = LocalFrameCount v + 1"
        "if go_on then runCanTracer s1 = runCanTracer ?t else fh_error_led (clm_fs (log_side s1)) \<and> \<not> runCanTracer s1"
        using frame_round [OF o, of f v] by blast
      note r1 = logger_reach.frame [OF less.prems(1) t(1) p(1)]
      show ?thesis
      proof (cases go_on)
        case False
        then show ?thesis using p t D True r1
          by (intro exI [of _ v1] exI [of _ s1] exI [of _ "1 :: nat"]) (simp add: poll_loop.simps [of E v s])
      next
        case go: True
        have c: "unat (LocalFrameCount v1) = unat (LocalFrameCount v) + 1" "unat (LocalFrameCount v) < 256" if "runCanTracer s"
          using that True p(3) by (auto simp: may_read_def word_less_nat_alt) (subst unat_add_small; simp)
        have le: "runCanTracer s1 \<longrightarrow> LocalFrameCount v1 \<le> 256" using c p(4) go by (auto simp: word_le_nat_alt)
        have lt: "length (deliverable queue (msg_port (rx_side s1))) < length ?D" using D p(2) by simp
        have q: "msg_port (rx_side s1) = g" using p(2) by simp
        from less.hyps [OF lt r1 le] obtain v' s' k where ih: "poll_loop E v1 s1 = Some (v', s')"
          "reached z s' ((out @ [f]) @ take k (waiting queue g))"
          "waiting queue (msg_port (rx_side s')) = drop k (waiting queue g)" "k \<le> length (deliverable queue g)"
          "port_counters (msg_port (rx_side s')) = port_counters g" "may_read v1 s1 \<and> deliverable queue g \<noteq> [] \<longrightarrow> 0 < k"
          "fh_error_led (clm_fs (log_side s')) \<or> runCanTracer s' = runCanTracer s1 \<and>
            k = (if runCanTracer s1 then min (256 - unat (LocalFrameCount v1)) (length (deliverable queue g))
                 else length (deliverable queue g))"
          unfolding q by blast
        have "poll_loop E v s = Some (v', s')" using True t(1) p(1) go ih(1) by (simp add: poll_loop.simps [of E v s])
        moreover have "fh_error_led (clm_fs (log_side s')) \<or> runCanTracer s' = runCanTracer s \<and>
            Suc k = (if runCanTracer s then min (256 - unat (LocalFrameCount v)) (length ?D) else length ?D)"
          using ih(7) p(4) go c D by auto
        ultimately show ?thesis using ih(2-5) t(2,3) D
          by (intro exI [of _ v'] exI [of _ s'] exI [of _ "Suc k"]) simp
      qed
    qed
  qed
qed

text \<open>One round of the loop, whatever follows.\<close>

lemma read_one:
  assumes l: "reached z s out" and d: "deliverable queue (msg_port (rx_side s)) = f # D"
  shows "\<exists>s'. reached z s' (out @ [f]) \<and> deliverable queue (msg_port (rx_side s')) = D"
proof -
  have i: "reaches (sum_frames z) (sum_drops z) (rx_side s) out" "offered (sum_refused z) (log_side s) out"
    using inv_reach [OF l] by (simp_all add: ingest_inv_def)
  have "\<not> (unread (msg_port (rx_side s)) = [] \<and> queue (CanFrameBuffer (msg_port (rx_side s))) = [])"
    using d by (auto simp: deliverable_def)
  then obtain f' g where t: "take_frame E s = (Some f', s\<lparr>rx_side := (rx_side s)\<lparr>msg_port := g\<rparr>\<rparr>)"
    "waiting queue (msg_port (rx_side s)) = f' # waiting queue g" using take_frame_step [OF i(1)] by blast
  let ?t = "s\<lparr>rx_side := (rx_side s)\<lparr>msg_port := g\<rparr>\<rparr>"
  have P: "PageReceive g = PageReceive (msg_port (rx_side s))" using take_frame_page [OF t(1)] by simp
  have D: "f' = f" "deliverable queue g = D" using t(2) d unfolding waiting_deliverable P by simp_all
  have "offered (sum_refused z) (log_side ?t) out" using i(2) by simp
  from frame_round [OF this, of f' undefined] obtain go_on v' s' where
    p: "poll_frame E f' undefined ?t = Some (go_on, v', s')" "rx_side s' = rx_side ?t" by blast
  show ?thesis using logger_reach.frame [OF l t(1) p(1)] p(2) D by (intro exI [of _ s']) simp
qed

text \<open>A poll returns, unless it has to wait for itself in a flush.\<close>

lemma poll:
  assumes l: "reached z s out"
    and f: "runCanTracer s \<or> \<not> runCanTracerOld s \<or> length (queue (CanFrameBuffer (msg_port (rx_side s)))) < 150"
  defines "W \<equiv> waiting queue (msg_port (rx_side s))"
    and "D \<equiv> if runCanTracerOld s \<and> \<not> runCanTracer s then waiting queue (msg_port (rx_side s)) else deliverable queue (msg_port (rx_side s))"
  shows "\<exists>r s' k. appCanLogHandlerPoll E s = Some (r, s') \<and>
    reached (if starting s then add_sums s z else z) s' (out @ take k W) \<and>
    waiting queue (msg_port (rx_side s')) = drop k W \<and> k \<le> length D \<and>
    (fh_error_led (clm_fs (log_side s')) \<or> k = (if runCanTracer s' then min 256 (length D) else length D))"
proof -
  let ?z = "if starting s then add_sums s z else z"
  have i: "reaches (sum_frames z) (sum_drops z) (rx_side s) out" "offered (sum_refused z) (log_side s) out"
    using inv_reach [OF l] by (simp_all add: ingest_inv_def)
  obtain s1 where s1: "poll_switch E s = Some s1" using poll_switch_returns [OF i(1) f] by blast
  note sw = poll_switch_rest [OF i s1]
  obtain v s2 where c: "poll_clock E s1 = (v, s2)" by fastforce
  note cl = poll_clock_rest [OF c]
  have r2: "reached ?z s2 out" using logger_reach.clock [OF reach_switch [OF l s1] c] .
  have DW: "deliverable queue (msg_port (rx_side s2)) = D" "waiting queue (msg_port (rx_side s2)) = W"
    using sw cl(1) by (simp_all add: D_def W_def)
  have le: "runCanTracer s2 \<longrightarrow> LocalFrameCount v \<le> 256" using cl(5) by simp
  obtain v' s3 k where lp: "poll_loop E v s2 = Some (v', s3)" "reached ?z s3 (out @ take k W)"
    "waiting queue (msg_port (rx_side s3)) = drop k W" "k \<le> length D"
    "port_counters (msg_port (rx_side s3)) = port_counters (msg_port (rx_side s2))"
    "may_read v s2 \<and> D \<noteq> [] \<longrightarrow> 0 < k"
    "fh_error_led (clm_fs (log_side s3)) \<or> runCanTracer s3 = runCanTracer s2 \<and>
      k = (if runCanTracer s2 then min (256 - unat (LocalFrameCount v)) (length D) else length D)"
    using loop [OF r2, of v] le unfolding DW by blast
  have o3: "offered (sum_refused ?z) (log_side s3) (out @ take k W)" using inv_reach [OF lp(2)] by (simp add: ingest_inv_def)
  obtain u where u: "poll_end E v' s3 = Some (poll_check u)" "rx_side u = rx_side s3"
    "offered (sum_refused ?z) (log_side u) (out @ take k W)" "runCanTracer u = runCanTracer s3"
    "fh_error_led (clm_fs (log_side s3)) \<longrightarrow> fh_error_led (clm_fs (log_side u))"
    using poll_end_rest [OF o3, of v'] by auto
  note ch = poll_check_rest [OF u(3)]
  define s4 where "s4 = poll_check u"
  have en: "poll_end E v' s3 = Some s4" "rx_side s4 = rx_side s3" "runCanTracer s4 = runCanTracer s3"
    "fh_error_led (clm_fs (log_side s3)) \<longrightarrow> fh_error_led (clm_fs (log_side s4))"
    using u ch(1,3,5) by (simp_all add: s4_def)
  have "appCanLogHandlerPoll E s = Some (if BlockIsReady v' \<noteq> 0 then CLM_E_BLOCK_READY else CLM_E_OK, s4)"
    using s1 c lp(1) en(1) by (simp add: appCanLogHandlerPoll_def)
  moreover have "reached ?z s4 (out @ take k W)"
    using logger_reach.finish [OF lp(2) en(1)] by simp
  moreover have "waiting queue (msg_port (rx_side s4)) = drop k W" using lp(3) en(2) by simp
  moreover have "fh_error_led (clm_fs (log_side s4)) \<or> k = (if runCanTracer s4 then min 256 (length D) else length D)"
    using lp(7) en(3,4) cl(5) by auto
  ultimately show ?thesis using lp(4) by blast
qed

end

section \<open>A start with waiting frames\<close>

lemma minus_small: "0 < k \<Longrightarrow> k \<le> 1510 \<Longrightarrow> (1024 :: u64) < - of_nat k"
proof -
  assume k: "0 < k" "k \<le> 1510"
  define m :: nat where "m = 2 ^ 64 - k"
  have m: "m + k = 2 ^ 64" "m < 2 ^ 64" "1024 < m" using k by (simp_all add: m_def)
  have "(of_nat m :: u64) + of_nat k = of_nat (2 ^ 64)" unfolding m(1) [symmetric] by (rule of_nat_add [symmetric])
  also have "\<dots> = 0" by simp
  finally have n: "- of_nat k = (of_nat m :: u64)" by (metis minus_unique add.commute)
  have "unat (of_nat m :: u64) = m" using m(2) by (simp add: unat_of_nat take_bit_nat_eq_self_iff)
  then show ?thesis using m(3) unfolding n word_less_nat_alt by simp
qed

lemma check_alarm:
  assumes "port_counters (msg_port (rx_side u)) = RuntimeChecks_Init c" "0 < k" "k \<le> 1510"
    "CanLogManager_FrameCount (clb_counters (clm_buf (log_side u))) = of_nat k"
  shows "framesLost (poll_check u)" "FrameDelta1 (clb_counters (clm_buf (log_side (poll_check u)))) = - of_nat k"
  using assms minus_small [of k]
  by (simp_all add: poll_check_def check_counters_def all_counters_def log_counters_def RuntimeChecks_CheckFrameCounts_def
      CheckDropCounts_def RuntimeChecks_Init_def RuntimeChecks_ErrorHandler_def Let_def)

context ingest
begin

lemma deliverable_bound:
  assumes "rx.port_inv g"
  shows "length (deliverable queue g) \<le> 1510"
proof -
  have p: "length (page_contents p) \<le> 10" if "page_ok p" for p
    using that by (auto simp: page_contents_def page_ok_def word_le_nat_alt)
  have "length (concat (map page_contents ps)) \<le> 10 * length ps" if "list_all page_ok ps" for ps
    using that p by (induction ps) (auto dest: p)
  moreover have "length (queue (CanFrameBuffer g)) \<le> 150" "list_all page_ok (queue (CanFrameBuffer g))"
    using assms rx.bounded by (auto simp: rx.port_inv_def list_all_iff)
  moreover have "length (unread g) \<le> 10" using p [of "PageRead g"] assms by (auto simp: unread_def rx.port_inv_def)
  ultimately show ?thesis unfolding deliverable_def by fastforce
qed

lemma start_alarm:
  assumes l: "reached z s out" and st: "starting s" and d: "deliverable queue (msg_port (rx_side s)) \<noteq> []"
  shows "\<exists>r s' k. appCanLogHandlerPoll E s = Some (r, s') \<and> framesLost s' \<and> 0 < k \<and>
    port_counters (msg_port (rx_side s')) = RuntimeChecks_Init (port_counters (msg_port (rx_side s))) \<and>
    CanLogManager_FrameCount (clb_counters (clm_buf (log_side s'))) = of_nat k \<and>
    FrameDelta1 (clb_counters (clm_buf (log_side s'))) = - of_nat k"
proof -
  let ?z = "add_sums s z" and ?s1 = "poll_start E s" and ?D = "deliverable queue (msg_port (rx_side s))"
  have i: "reaches (sum_frames z) (sum_drops z) (rx_side s) out" "offered (sum_refused z) (log_side s) out"
    using inv_reach [OF l] by (simp_all add: ingest_inv_def)
  have s1: "poll_switch E s = Some ?s1" using st by (simp add: poll_switch_def starting_def)
  note sr = poll_start_rest [OF i]
  obtain v s2 where c: "poll_clock E ?s1 = (v, s2)" by fastforce
  note cl = poll_clock_rest [OF c]
  have r2: "reached ?z s2 out" using logger_reach.clock [OF reach_switch [OF l s1] c] st by simp
  have s2: "deliverable queue (msg_port (rx_side s2)) = ?D" "LocalFrameCount v = 0"
    "port_counters (msg_port (rx_side s2)) = RuntimeChecks_Init (port_counters (msg_port (rx_side s)))"
    using sr cl(1,5) by simp_all
  have le: "runCanTracer s2 \<longrightarrow> LocalFrameCount v \<le> 256" "may_read v s2" using s2(2) by (simp_all add: may_read_def)
  obtain v' s3 k where lp: "poll_loop E v s2 = Some (v', s3)"
    "reached ?z s3 (out @ take k (waiting queue (msg_port (rx_side s2))))" "k \<le> length ?D" "0 < k"
    "port_counters (msg_port (rx_side s3)) = port_counters (msg_port (rx_side s2))"
    using loop [OF r2 le(1)] le(2) d unfolding s2(1) by blast
  let ?W = "waiting queue (msg_port (rx_side s2))"
  have o3: "offered (sum_refused ?z) (log_side s3) (out @ take k ?W)" using inv_reach [OF lp(2)] by (simp add: ingest_inv_def)
  obtain u where u: "poll_end E v' s3 = Some (poll_check u)" "rx_side u = rx_side s3"
    "offered (sum_refused ?z) (log_side u) (out @ take k ?W)"
    using poll_end_rest [OF o3, of v'] by auto
  have r4: "reached ?z (poll_check u) (out @ take k ?W)"
    using logger_reach.finish [OF lp(2) u(1)] by simp
  have n: "sum_read ?z = of_nat (length out)" using inv_reach [OF r2] sr(5) cl(3)
    by (auto simp: ingest_inv_def read_inv_def read_sums_def read_counts_def Let_def)
  have W: "length (take k ?W) = k" using lp(3) s2(1) by (simp add: waiting_deliverable)
  have "CanLogManager_FrameCount (clb_counters (clm_buf (log_side (poll_check u)))) + of_nat (length out) = of_nat (length out + k)"
    using inv_reach [OF r4] W n by (auto simp: ingest_inv_def read_inv_def read_sums_def Let_def)
  then have fc: "CanLogManager_FrameCount (clb_counters (clm_buf (log_side (poll_check u)))) = of_nat k" by (simp add: add.commute)
  note ch = poll_check_rest [OF u(3)]
  have fu: "CanLogManager_FrameCount (clb_counters (clm_buf (log_side u))) = of_nat k" using ch(4) fc by (simp add: read_counts_def)
  have "rx.port_inv (msg_port (rx_side s))" using rx.path_reach [OF i(1)] by (simp add: rx.path_inv_def)
  then have k: "k \<le> 1510" using deliverable_bound lp(3) by fastforce
  have pc: "port_counters (msg_port (rx_side u)) = RuntimeChecks_Init (port_counters (msg_port (rx_side s)))"
    using u(2) lp(5) s2(3) by simp
  have "appCanLogHandlerPoll E s = Some (if BlockIsReady v' \<noteq> 0 then CLM_E_BLOCK_READY else CLM_E_OK, poll_check u)"
    using s1 c lp(1) u(1) by (simp add: appCanLogHandlerPoll_def)
  then show ?thesis using check_alarm [OF pc lp(4) k fu] fc lp(4) pc ch(1)
    by (intro exI [of _ "if BlockIsReady v' \<noteq> 0 then CLM_E_BLOCK_READY else CLM_E_OK"] exI [of _ "poll_check u"] exI [of _ k]) simp
qed

end

lemma growing_card:
  assumes "growing nums"
  shows "newest nums - length nums = card ({1..newest nums} - set nums)"
proof -
  have s: "sorted_wrt (<) nums" "\<forall>x \<in> set nums. 0 < x" using assms by (simp_all add: growing_def)
  have "distinct nums" using s(1) by (simp add: strict_sorted_iff)
  moreover have "x \<le> newest nums" if "x \<in> set nums" for x
    using that s(1) by (cases nums rule: rev_cases) (auto simp: newest_def sorted_wrt_append)
  then have "set nums \<subseteq> {1..newest nums}" using s(2) by (auto simp: Suc_le_eq)
  ultimately show ?thesis by (simp add: card_Diff_subset distinct_card)
qed

lemma chan_seq_missing:
  assumes "chan_seq nums i q m" "growing nums"
  shows "m + ucast (missing_count q) = of_nat (card ({1..newest nums} - set nums))"
proof -
  obtain p where p: "m = of_nat p" "p + unat (missing_count q) + length nums = newest nums" using assms by (auto simp: chan_seq_def)
  then have "of_nat (newest nums - length nums) = m + of_nat (unat (missing_count q))" by (metis diff_add_inverse2 of_nat_add)
  then show ?thesis using growing_card [OF assms(2)] by simp
qed

section \<open>Properties\<close>

text \<open>C1. Where every frame is, from the controller to the card: from start-up, through any sequence of interrupts, drains,
  rounds of the bridge task, actions of the SD task, commands, the steps of a start or a stop of the logger and the
  rounds and the end of a poll, the frames read by the poll, waiting in the port and in the rings are in the order of
  their numbers on each channel and the others are counted; the entries handed to the buffer are, beside the sync
  entries, one for each frame read, in order; those accepted are, in order, those of the blocks written to the card,
  of the full blocks that the ring buffer holds and of the open block, and the refused ones are counted.  Counters
  are taken with what they showed when they were reset.  The card works (the contract of \<open>logger\<close>), and a block is
  on the card until a later one replaces it when the ring of log files wraps.  The steps of \<open>logger_reach\<close> are not
  interrupted: no frame is bridged inside the flush of a stop, which the code does not ensure and
  which would lose that frame uncounted.\<close>

theorem every_frame_accounted:
  assumes "ingest E started fifo bvalid queue rvalid content files opened" "logger_reach E started fifo files opened z s out"
  shows "let d = out @ waiting queue (msg_port (rx_side s)); r1 = ring_frames (RxRingBuffer (can1 (rx_side s)));
      r2 = ring_frames (RxRingBuffer (can2 (rx_side s))); k = length d + length r1 + length r2;
      cr = port_counters (msg_port (rx_side s)); cl = clb_counters (clm_buf (log_side s)); h = clm_handed (log_side s) in
    (\<exists>n1 n2. subseq (map rx_sequence (of_channel 1 d @ r1)) (map of_nat [1..<Suc n1]) \<and>
       subseq (map rx_sequence (of_channel 2 d @ r2)) (map of_nat [1..<Suc n2]) \<and>
       list_all (\<lambda>f. frame_channel f = 1 \<or> frame_channel f = 2) d \<and> k \<le> n1 + n2 \<and>
       CanAbs_FrameCount cr + sum_frames z = of_nat (n1 + n2) \<and>
       CanAbs_FrameDropCount cr + FcdanMsgPort_FrameDropCount cr + sum_drops z = of_nat (n1 + n2 - k)) \<and>
    CanLogManager_FrameCount cl + sum_read z = of_nat (length out) \<and>
    filter (\<lambda>e. e ! 0 = 1) h = map (\<lambda>f. appCanLogFillEntry E f (frame_timestamp f) (frame_channel f)) out \<and>
    (\<exists>acc blks blocks es. subseq acc h \<and> acc = concat (map entries_of_block blks) @ block_entries blocks @ es \<and>
       blocks_on_card files (log_side s) blks \<and> lwrb.holds (lwrb_of E) rvalid content (Rb1 (clm_buf (log_side s))) blocks es \<and>
       CanLogManager_FrameDropCount1 cl + sum_refused z = of_nat (length h - length acc))"
proof -
  note in_path = ingest.axioms(1) [OF assms(1)] and in_log = ingest.axioms(2) [OF assms(1)]
  note i = ingest.inv_reach [OF assms, unfolded ingest.ingest_inv_def [OF assms(1)]]
  note o = i [THEN conjunct2, THEN conjunct1, unfolded ingest.offered_def [OF assms(1)]]
  obtain n1 n2 where n: "can_inv (sum_frames z) (sum_drops z) n1 n2 (rx_side s) (out @ waiting queue (msg_port (rx_side s)))"
    using can_path.path_accounts [OF in_path conjunct1 [OF i]] by blast
  obtain acc blks blocks es where a: "logger.logged (lwrb_of E) rvalid content files opened (log_side s) acc blks blocks es"
    "subseq acc (clm_handed (log_side s))"
    "CanLogManager_FrameDropCount1 (clb_counters (clm_buf (log_side s))) + sum_refused z = of_nat (length (clm_handed (log_side s)) - length acc)"
    using o by blast
  have h: "lwrb.holds (lwrb_of E) rvalid content (Rb1 (clm_buf (log_side s))) blocks es"
    using a(1) by (simp add: logger.logged_def [OF in_log] lwrb.stocked_def [OF logger.axioms(1) [OF in_log]])
  have f: "filter (\<lambda>e. e ! 0 = 1) (clm_handed (log_side s)) = map (\<lambda>f. appCanLogFillEntry E f (frame_timestamp f) (frame_channel f)) out"
    using o by (simp add: handed_of_def frame_entry_def [abs_def])
  have r: "CanLogManager_FrameCount (clb_counters (clm_buf (log_side s))) + sum_read z = of_nat (length out)"
    using i by (auto simp: read_inv_def read_sums_def Let_def)
  show ?thesis unfolding Let_def
    using n a(2,3) f r h logged_on_card [OF in_log a(1)] unfolding can_inv_def chan_inv_def kept_frames_def by blast
qed

text \<open>C9. A poll returns, unless it has to stop the logger while the message buffer is full: the flush then waits for
  a reader, and the poll is the only one.  It takes frames from the front of those waiting: when the logger is stopping
  all of them, when it is off those the port can deliver and when it runs those too but at most 256, unless an entry
  was refused or the file is not open, and then the error LED is on.\<close>

theorem poll_takes_what_waits:
  assumes "ingest E started fifo bvalid queue rvalid content files opened" "logger_reach E started fifo files opened z s out"
    and "runCanTracer s \<or> \<not> runCanTracerOld s \<or> length (queue (CanFrameBuffer (msg_port (rx_side s)))) < 150"
  shows "let W = waiting queue (msg_port (rx_side s));
      D = (if runCanTracerOld s \<and> \<not> runCanTracer s then W else deliverable queue (msg_port (rx_side s))) in
    \<exists>r s' k. appCanLogHandlerPoll E s = Some (r, s') \<and>
      logger_reach E started fifo files opened (if starting s then add_sums s z else z) s' (out @ take k W) \<and>
      waiting queue (msg_port (rx_side s')) = drop k W \<and> k \<le> length D \<and>
      (fh_error_led (clm_fs (log_side s')) \<or> k = (if runCanTracer s' then min 256 (length D) else length D))"
  using ingest.poll [OF assms] unfolding Let_def .

text \<open>C10. The counter of missing frames of a channel is exact as long as its numbers have not wrapped: with what the
  check has found and not yet added, and what it showed at resets, it is how many of the numbers up to the newest one
  read are not among those read.\<close>

theorem missing_counters_exact:
  assumes "ingest E started fifo bvalid queue rvalid content files opened" "logger_reach E started fifo files opened z s out"
    and "growing (numbers 1 out)" "growing (numbers 2 out)"
  shows "CanLogManager_CAN1_MissingCount (clb_counters (clm_buf (log_side s))) + sum_missing1 z + ucast (missing_count (CAN1_Sequence s)) =
      of_nat (card ({1..newest (numbers 1 out)} - set (numbers 1 out))) \<and>
    CanLogManager_CAN2_MissingCount (clb_counters (clm_buf (log_side s))) + sum_missing2 z + ucast (missing_count (CAN2_Sequence s)) =
      of_nat (card ({1..newest (numbers 2 out)} - set (numbers 2 out)))"
proof -
  have "read_inv z s out" using ingest.inv_reach [OF assms(1,2)] by (simp add: ingest.ingest_inv_def [OF assms(1)])
  then show ?thesis using chan_seq_missing assms(3,4) by (auto simp: read_inv_def read_sums_def Let_def)
qed

text \<open>C11. Starting the logger while frames can be read from the port raises the alarm, although no frame was lost: the
  start sets both counters to 0, the frames are then counted as read but not as bridged, and the difference of the
  counters, taken without sign, is above the threshold.\<close>

theorem start_with_waiting_frames_alarms:
  assumes "ingest E started fifo bvalid queue rvalid content files opened" "logger_reach E started fifo files opened z s out"
    and "starting s" "deliverable queue (msg_port (rx_side s)) \<noteq> []"
  shows "\<exists>r s' k. appCanLogHandlerPoll E s = Some (r, s') \<and> framesLost s' \<and> 0 < k \<and>
    port_counters (msg_port (rx_side s')) = RuntimeChecks_Init (port_counters (msg_port (rx_side s))) \<and>
    CanLogManager_FrameCount (clb_counters (clm_buf (log_side s'))) = of_nat k \<and>
    FrameDelta1 (clb_counters (clm_buf (log_side s'))) = - of_nat k"
  using ingest.start_alarm [OF assms] .

text \<open>C39. Everything the poll hands to the buffer is a well-formed entry: whatever has happened since start-up, each
  entry that \<open>appCanLogStoreToFrameBuffer\<close> was called with is a frame or a sync entry by its first byte, has the
  size of the header in its second byte and its own length, below 256, in its third.  The buffer and the reader of
  the log go from one entry to the next by that length.\<close>

theorem entries_well_formed:
  assumes "ingest E started fifo bvalid queue rvalid content files opened" "logger_reach E started fifo files opened z s out"
  shows "list_all (\<lambda>e. (e ! 0 = CLB_ENTRY_TYPE_FRAME \<or> e ! 0 = CLB_ENTRY_TYPE_SYNC) \<and> e ! 1 = 3 \<and> unat (e ! 2) = length e \<and> length e < 256)
    (clm_handed (log_side s))"
proof -
  have "handed_of E (clm_handed (log_side s)) out"
    using ingest.inv_reach [OF assms] by (simp add: ingest.ingest_inv_def [OF assms(1)] ingest.offered_def [OF assms(1)])
  then show ?thesis unfolding handed_of_def poll_entry_def by blast
qed

text \<open>C40. The entry of a frame says what the frame said: each field, flag and data byte is read back from its place,
  provided the frame does not claim more data than it has room for.\<close>

theorem entry_reads_back:
  assumes "unat (FDCAN_GET_DATA_LEN (dlc_dl_flags f)) \<le> length (frame_data f)"
  shows "let e = appCanLogFillEntry E f t ch; w = dlc_dl_flags f; n = unat (FDCAN_GET_DATA_LEN w) in
    length e = 14 + n \<and> e ! 0 = 1 \<and> e ! 2 = of_nat (14 + n) \<and> u32_of_le (drop 3 e) = t \<and> u32_of_le (drop 7 e) = frame_id f \<and>
    e ! 11 = ch \<and> e ! 13 = of_nat n \<and> drop 14 e = take n (frame_data f) \<and>
    ucast (e ! 12 AND 0x0F) = FDCAN_GET_DLC w \<and> (bit (e ! 12) 4 \<longleftrightarrow> FDCAN_GET_IDE w = 1) \<and>
    (bit (e ! 12) 5 \<longleftrightarrow> FDCAN_GET_FDF w = 1) \<and> (bit (e ! 12) 6 \<longleftrightarrow> FDCAN_GET_BRS w = 1) \<and> (bit (e ! 12) 7 \<longleftrightarrow> FDCAN_GET_ESI w = 1)"
proof -
  let ?w = "dlc_dl_flags f"
  have m: "(0x0F :: u8) = mask 4" by (simp add: mask_eq_exp_minus_1)
  have "ucast (entry_flags f AND 0x0F) = FDCAN_GET_DLC ?w"
    unfolding m by (rule bit_word_eqI) (simp add: bit_unsigned_iff bit_and_iff bit_mask_iff entry_flags_bits dlc_bits; fastforce)
  then show ?thesis using entry_fields [of f E t ch] assms by (simp add: Let_def entry_flags_bits)
qed

section \<open>Examples\<close>

definition stub_float :: "nat float_ops" where
  "stub_float = \<lparr>float_of_u32 = unat, float_lit = (div), float_mult = (*), float_divide = (div), float_less = (<)\<rparr>"

definition stub_env ::
  "(stub_fdcan, PageType list, stub_ring, bytes \<Rightarrow> bytes option, (bytes \<times> nat \<times> nat) option, nat) ingest_env" where
  "stub_env = \<lparr>fdcan_of = stub_hal, mbuf_of = stub_mbuf, lwrb_of = stub_lwrb, fatfs_of = stub_fatfs, clock_of = of_nat,
     period_of = 65536, junk_frame = CanAbs.sample_frame,
     junk_file = \<lparr>readTargetSize = 0, dev_file = None, fflags = 0, writeIndex = 0\<rparr>,
     behind_data = (\<lambda>f. replicate 127 0), instrumentation = None, float_of = stub_float\<rparr>"

lemma stub_env_sel [simp]:
  "fdcan_of stub_env = stub_hal" "mbuf_of stub_env = stub_mbuf" "lwrb_of stub_env = stub_lwrb" "fatfs_of stub_env = stub_fatfs"
  "clock_of stub_env = of_nat" "period_of stub_env = 65536" "behind_data stub_env f = replicate 127 0"
  by (simp_all add: stub_env_def)

interpretation stub_ingest: ingest stub_env stub_started "\<lambda>h. take 64 (stub_fifo h)" "\<lambda>b. length b \<le> 150" "\<lambda>b. b"
    stub_valid ring_bytes "\<lambda>v. v" stub_opened
proof (intro ingest.intro ingest_axioms.intro)
  show "can_path (fdcan_of stub_env) stub_started (\<lambda>h. take 64 (stub_fifo h)) (mbuf_of stub_env) (\<lambda>b. length b \<le> 150) (\<lambda>b. b)"
    using stub_path.can_path_axioms by simp
  show "logger (lwrb_of stub_env) stub_valid ring_bytes (fatfs_of stub_env) (\<lambda>v. v) stub_opened"
    using stub_logger.logger_axioms by simp
  show "127 \<le> length (behind_data stub_env f)" for f by simp
  show "v' = v" if "f_close (fatfs_of stub_env) v g = (r, g', v')" for v g r g' v'
    using that by (simp add: stub_fatfs_def)
qed

definition no_sequence :: ScSequenceType where
  "no_sequence = \<lparr>initialized = False, previous_id = 0, gap_count = 0, missing_count = 0, wrap_index = 0\<rparr>"

text \<open>A start state in which the logger ran before, and the state after an interrupt and a round of the bridge task.\<close>

definition sample_start ::
  "(stub_fdcan, PageType list, stub_ring, bytes \<Rightarrow> bytes option, (bytes \<times> nat \<times> nat) option, nat) ingest_state" where
  "sample_start = \<lparr>rx_side = sample_can, log_side = sample_log, Can1 = zero_status stub_float, Can2 = zero_status stub_float,
     runCanTracer = False, commitLog = False, runCanTracerOld = True, framesLost = False, emitSyncEntry = False,
     CAN1_Sequence = sc_started no_sequence,
     CAN2_Sequence = sc_started no_sequence,
     CAN1_SequenceIndex = 0, CAN2_SequenceIndex = 0, NextPeriodicSyncAbsTime = 0, LastFrameTimestamp = 0,
     LastFrameTimestampValid = False, sd_notified = False\<rparr>"

definition sample_bridged where
  "sample_bridged = sample_start\<lparr>rx_side := sample_round_can\<rparr>"

abbreviation stub_reach where
  "stub_reach \<equiv> logger_reach stub_env stub_started (\<lambda>h. take 64 (stub_fifo h)) (\<lambda>v. v) stub_opened"

lemma sample_start_reach: "stub_reach no_sums sample_start []"
  by (rule logger_reach.start [where b = "[]"]) (simp_all add: sample_start_def sample_can_simps sample_log_started)

lemma sample_bridged_reach: "stub_reach no_sums sample_bridged []"
proof -
  let ?c = "can1_interrupt stub_hal 65536 CanAbs.sample_frame 65600 2 sample_can"
  have r: "rx_side sample_start = sample_can" by (simp add: sample_start_def)
  have "rx_step stub_env stub_started (\<lambda>h. take 64 (stub_fifo h)) sample_can ?c"
    using rx_step.interrupt1 [of stub_env stub_started "\<lambda>h. take 64 (stub_fifo h)" 2 sample_can CanAbs.sample_frame 65600]
    by (simp add: readable_def sample_can_simps)
  then have 1: "stub_reach no_sums (sample_start\<lparr>rx_side := ?c\<rparr>) []" using logger_reach.receive [OF sample_start_reach] r by simp
  show ?thesis using logger_reach.receive [OF 1 rx_step.bridge]
    by (simp add: sample_bridged_def sample_round_can_def)
qed

text \<open>A frame that passes from a ring to a page with room waits in the port.\<close>

lemma bridge_one:
  assumes "ring_ok rb" "stub_mbuf.port_inv g" "page_count (PageReceive g) < 10" and x: "ring_frames rb = [x]"
    and "bridge_ring stub_mbuf rb g = (rb', g')"
  shows "stub_mbuf.port_inv g'" "waiting (\<lambda>b. b) g' = waiting (\<lambda>b. b) g @ [x]" "CanFrameBuffer g' = CanFrameBuffer g"
    "page_count (PageReceive g') = page_count (PageReceive g) + 1"
proof -
  obtain r f rb1 where p: "CanAbs_Receive rb = (r, f, rb1)" by (metis prod_cases3)
  have rb1: "f = Some x" "r = 0" "ring_ok rb1" "ring_frames rb1 = []" using ring_pop_frame [OF assms(1) p] x by simp_all
  obtain r2 f2 rb2 where p2: "CanAbs_Receive rb1 = (r2, f2, rb2)" by (metis prod_cases3)
  have f2: "f2 = None" using ring_pop_frame [OF rb1(3) p2] rb1(4) by simp
  have "bridge_ring stub_mbuf rb1 h = (rb2, h)" for h using p2 f2 by (simp add: bridge_ring.simps [of stub_mbuf rb1])
  then have "g' = count_bridge (fdcan_msg_port_receive stub_mbuf x g)"
    using assms(5) p rb1 by (simp add: bridge_ring.simps [of stub_mbuf rb])
  moreover have "\<not> 10 \<le> page_count (PageReceive g)" using assms(3) unfolding not_le .
  ultimately have g': "g' = count_bridge (add_to_page x g)" by (simp add: fdcan_msg_port_receive_def)
  show "stub_mbuf.port_inv g'" "waiting (\<lambda>b. b) g' = waiting (\<lambda>b. b) g @ [x]"
    using stub_mbuf.add_to_page [OF assms(2,3), of x] by (simp_all add: g' stub_mbuf.count_bridge_port)
  show "CanFrameBuffer g' = CanFrameBuffer g" "page_count (PageReceive g') = page_count (PageReceive g) + 1"
    using assms(3) by (simp_all add: g' count_bridge_def add_to_page_def AddEntryToPage_def)
qed

definition sample_int_can :: "(stub_fdcan, PageType list) can_state" where
  "sample_int_can = can1_interrupt stub_hal 65536 CanAbs.sample_frame 65600 2 sample_can"

lemma sample_rings:
  "\<exists>x. ring_frames (RxRingBuffer (can1 sample_int_can)) = [x] \<and> frame_channel x = 1 \<and> rx_sequence x = 1" "length (ring_frames (RxRingBuffer (can2 sample_int_can))) = 1"
  "ring_ok (RxRingBuffer (can1 sample_int_can))" "ring_ok (RxRingBuffer (can2 sample_int_can))"
  "stub_mbuf.port_inv (msg_port sample_int_can)" "same_port (msg_port sample_can) (msg_port sample_int_can)"
proof -
  have a: "arrivals_ok stub_hal 65536 65600 0 [sample_message] [65541]" "\<exists>n \<le> 8. carries stub_hal n sample_message"
    using sample_can_simps(14,15) by (auto simp: arrivals_ok_def intro!: exI [of _ 2])
  show "\<exists>x. ring_frames (RxRingBuffer (can1 sample_int_can)) = [x] \<and> frame_channel x = 1 \<and> rx_sequence x = 1"
    using stub_hal.interrupt_content [of 65536 65600 2 sample_can 0 "[65541]" CanAbs.sample_frame] a
    by (auto simp: sample_can_simps ring_boot_ok Let_def sample_int_can_def length_Suc_conv)
  show "length (ring_frames (RxRingBuffer (can2 sample_int_can))) = 1"
    using stub_hal.other_channel [of 65536 2 sample_can CanAbs.sample_frame 65600] a
    by (auto simp: sample_can_simps ring_boot_ok Let_def sample_int_can_def)
  have b: "can_reach stub_hal stub_started (\<lambda>h. take 64 (stub_fifo h)) stub_mbuf 65536 0 0 sample_can []"
    by (intro can_reach.boot) (simp_all add: sample_can_simps)
  have rd: "readable stub_hal stub_started (\<lambda>h. take 64 (stub_fifo h)) 2 (hfdcan (driver (can1 sample_can)))"
    "readable stub_hal stub_started (\<lambda>h. take 64 (stub_fifo h)) 2 (hfdcan (driver (can2 sample_can)))"
    by (simp_all add: sample_can_simps readable_def)
  note r = stub_path.path_reach [OF can_reach.interrupt1 [OF b rd, of CanAbs.sample_frame 65600], folded sample_int_can_def]
  show "stub_mbuf.port_inv (msg_port sample_int_can)" "ring_ok (RxRingBuffer (can1 sample_int_can))" "ring_ok (RxRingBuffer (can2 sample_int_can))"
    using r by (auto simp: stub_path.path_inv_def can_inv_def chan_inv_def)
  let ?s = "sample_can\<lparr>can1 := (can1 sample_can)\<lparr>driver := FDCAN_IRQHandler 65600 (driver (can1 sample_can))\<rparr>\<rparr>"
  obtain n1 n2 d where "can_inv 0 0 n1 n2 sample_can d" using stub_path.path_reach [OF b] by (auto simp: stub_path.path_inv_def)
  then have "can_inv 0 0 n1 n2 ?s d" by (rule can_inv_cong [rotated]) (simp add: same_frames_def)
  from stub_hal.callback_inv [OF this, of 2 65536 CanAbs.sample_frame] rd
  show "same_port (msg_port sample_can) (msg_port sample_int_can)"
    by (auto simp: sample_int_can_def can1_interrupt_def FDCAN_IRQHandler_def)
qed

lemma sample_waits:
  "\<exists>x y. waiting (\<lambda>b. b) (msg_port sample_round_can) = [x, y] \<and> frame_channel x = 1 \<and> rx_sequence x = 1"
  "CanFrameBuffer (msg_port sample_round_can) = []"
proof -
  let ?c = sample_int_can
  have z: "page_count (PageReceive (msg_port ?c)) = 0" "CanFrameBuffer (msg_port ?c) = []" "IndexRead (msg_port ?c) = 0"
    using sample_rings(6) by (simp_all add: same_port_def sample_can_simps fdcan_msg_port_init_def port_boot_def stub_mbuf_def)
  have w: "waiting (\<lambda>b. b) (msg_port ?c) = []" using z by (simp add: waiting_def unread_def page_contents_def)
  obtain x y where x: "ring_frames (RxRingBuffer (can1 ?c)) = [x]" "frame_channel x = 1" "rx_sequence x = 1"
    and y: "ring_frames (RxRingBuffer (can2 ?c)) = [y]" using sample_rings(1,2) by (auto simp: length_Suc_conv)
  obtain rb1 g1 where 1: "bridge_ring stub_mbuf (RxRingBuffer (can1 ?c)) (msg_port ?c) = (rb1, g1)" by fastforce
  obtain rb2 g2 where 2: "bridge_ring stub_mbuf (RxRingBuffer (can2 ?c)) g1 = (rb2, g2)" by fastforce
  have "page_count (PageReceive (msg_port ?c)) < 10" using z by simp
  note g1 = bridge_one [OF sample_rings(3,5) this x(1) 1]
  have "page_count (PageReceive g1) < 10" using g1(4) z by simp
  note g2 = bridge_one [OF sample_rings(4) g1(1) this y 2]
  have "msg_port sample_round_can = g2"
    using 1 2 by (simp add: sample_round_can_def CanBridgeTask_round_def flip: sample_int_can_def)
  then show "\<exists>x y. waiting (\<lambda>b. b) (msg_port sample_round_can) = [x, y] \<and> frame_channel x = 1 \<and> rx_sequence x = 1"
    "CanFrameBuffer (msg_port sample_round_can) = []"
    using g2(2,3) g1(2,3) z w x(2,3) by simp_all
qed

text \<open>The logger is switched off, and the flush makes the frames readable.\<close>

lemma sample_stopped:
  "\<exists>s. stub_reach no_sums s [] \<and> \<not> runCanTracerOld s \<and>
     deliverable (\<lambda>b. b) (msg_port (rx_side s)) = waiting (\<lambda>b. b) (msg_port sample_round_can)"
proof -
  have i: "stub_ingest.reaches 0 0 (rx_side sample_bridged) []" "stub_ingest.offered 0 (log_side sample_bridged) []"
    using stub_ingest.inv_reach [OF sample_bridged_reach] by (simp_all add: stub_ingest.ingest_inv_def no_sums_def)
  have w: "rx_side sample_bridged = sample_round_can" "\<not> runCanTracer sample_bridged" "runCanTracerOld sample_bridged"
    by (simp_all add: sample_bridged_def sample_start_def)
  obtain s1 where s1: "poll_switch stub_env sample_bridged = Some s1"
    using stub_ingest.poll_switch_returns [OF i(1)] w sample_waits(2) by auto
  have n: "sum_frames no_sums = 0" "sum_drops no_sums = 0" "sum_refused no_sums = 0" by (simp_all add: no_sums_def)
  note sw = stub_ingest.poll_switch_rest [of no_sums sample_bridged "[]" s1, unfolded n, OF i s1]
  have s: "\<not> starting sample_bridged" using w by (simp add: starting_def)
  have "stub_reach no_sums s1 []" using reach_switch [OF sample_bridged_reach s1] s by simp
  moreover have "\<not> runCanTracerOld s1" using s1 w(2,3) stub_ingest.poll_stop_rest(4) [OF i(1)] sw(3)
    by (auto simp: poll_switch_def Let_def)
  ultimately show ?thesis using sw(2) w by (intro exI [of _ s1]) simp
qed

text \<open>It is switched on again, or a frame is read.\<close>

lemma sample_restart:
  "\<exists>s. stub_reach no_sums s [] \<and> starting s \<and> deliverable (\<lambda>b. b) (msg_port (rx_side s)) \<noteq> []"
proof -
  obtain s where s: "stub_reach no_sums s []" "\<not> runCanTracerOld s"
    "deliverable (\<lambda>b. b) (msg_port (rx_side s)) = waiting (\<lambda>b. b) (msg_port sample_round_can)" using sample_stopped by blast
  let ?s = "s\<lparr>runCanTracer := True, runCanTracerOld := False, commitLog := False\<rparr>"
  have "stub_reach no_sums ?s []" by (rule logger_reach.flags [OF s(1)])
  then show ?thesis using s(3) sample_waits(1) by (intro exI [of _ ?s]) (auto simp: starting_def)
qed

lemma sample_read: "\<exists>s f. stub_reach no_sums s [f] \<and> frame_channel f = 1 \<and> rx_sequence f = 1"
proof -
  obtain x y where w: "waiting (\<lambda>b. b) (msg_port sample_round_can) = [x, y]" "frame_channel x = 1" "rx_sequence x = 1"
    using sample_waits(1) by blast
  obtain s where s: "stub_reach no_sums s []" "deliverable (\<lambda>b. b) (msg_port (rx_side s)) = x # [y]"
    using sample_stopped w(1) by auto
  from stub_ingest.read_one [OF s] show ?thesis using w(2,3) by auto
qed

theorem every_frame_accounted_witness:
  "\<exists>s f. stub_reach no_sums s [f] \<and> (let d = [f] @ waiting (\<lambda>b. b) (msg_port (rx_side s)); r1 = ring_frames (RxRingBuffer (can1 (rx_side s)));
      r2 = ring_frames (RxRingBuffer (can2 (rx_side s))); k = length d + length r1 + length r2;
      cr = port_counters (msg_port (rx_side s)); cl = clb_counters (clm_buf (log_side s)); h = clm_handed (log_side s) in
    (\<exists>n1 n2. subseq (map rx_sequence (of_channel 1 d @ r1)) (map of_nat [1..<Suc n1]) \<and>
       subseq (map rx_sequence (of_channel 2 d @ r2)) (map of_nat [1..<Suc n2]) \<and>
       list_all (\<lambda>f. frame_channel f = 1 \<or> frame_channel f = 2) d \<and> k \<le> n1 + n2 \<and>
       CanAbs_FrameCount cr + sum_frames no_sums = of_nat (n1 + n2) \<and>
       CanAbs_FrameDropCount cr + FcdanMsgPort_FrameDropCount cr + sum_drops no_sums = of_nat (n1 + n2 - k)) \<and>
    CanLogManager_FrameCount cl + sum_read no_sums = of_nat (length [f]) \<and>
    filter (\<lambda>e. e ! 0 = 1) h = map (\<lambda>f. appCanLogFillEntry stub_env f (frame_timestamp f) (frame_channel f)) [f] \<and>
    (\<exists>acc blks blocks es. subseq acc h \<and> acc = concat (map entries_of_block blks) @ block_entries blocks @ es \<and>
       blocks_on_card (\<lambda>v. v) (log_side s) blks \<and>
       lwrb.holds (lwrb_of stub_env) stub_valid ring_bytes (Rb1 (clm_buf (log_side s))) blocks es \<and>
       CanLogManager_FrameDropCount1 cl + sum_refused no_sums = of_nat (length h - length acc)))"
proof -
  obtain s f where s: "stub_reach no_sums s [f]" using sample_read by blast
  from every_frame_accounted [OF stub_ingest.ingest_axioms s] s show ?thesis by blast
qed

text \<open>A poll that stops the logger takes all frames that wait.\<close>

theorem poll_takes_what_waits_witness:
  "\<exists>r s' k. appCanLogHandlerPoll stub_env sample_bridged = Some (r, s') \<and>
    waiting (\<lambda>b. b) (msg_port (rx_side s')) = drop k (waiting (\<lambda>b. b) (msg_port sample_round_can)) \<and>
    k \<le> length (waiting (\<lambda>b. b) (msg_port sample_round_can))"
proof -
  have s: "rx_side sample_bridged = sample_round_can" "\<not> runCanTracer sample_bridged" "runCanTracerOld sample_bridged"
    by (simp_all add: sample_bridged_def sample_start_def)
  have "runCanTracer sample_bridged \<or> \<not> runCanTracerOld sample_bridged \<or>
      length (CanFrameBuffer (msg_port (rx_side sample_bridged))) < 150" using s(1) sample_waits(2) by simp
  from poll_takes_what_waits [OF stub_ingest.ingest_axioms sample_bridged_reach this]
  show ?thesis using s by (auto simp: Let_def)
qed

theorem missing_counters_exact_witness:
  "\<exists>s f. stub_reach no_sums s [f] \<and> numbers 1 [f] = [1] \<and> numbers 2 [f] = [] \<and>
    CanLogManager_CAN1_MissingCount (clb_counters (clm_buf (log_side s))) + sum_missing1 no_sums + ucast (missing_count (CAN1_Sequence s)) =
      of_nat (card ({1..newest (numbers 1 [f])} - set (numbers 1 [f]))) \<and>
    CanLogManager_CAN2_MissingCount (clb_counters (clm_buf (log_side s))) + sum_missing2 no_sums + ucast (missing_count (CAN2_Sequence s)) =
      of_nat (card ({1..newest (numbers 2 [f])} - set (numbers 2 [f])))"
proof -
  obtain s f where s: "stub_reach no_sums s [f]" "frame_channel f = 1" "rx_sequence f = 1" using sample_read by blast
  have n: "numbers 1 [f] = [1]" "numbers 2 [f] = []" using s(2,3) by (simp_all add: numbers_def of_channel_def)
  have "growing (numbers 1 [f])" "growing (numbers 2 [f])" by (simp_all add: n growing_def)
  from missing_counters_exact [OF stub_ingest.ingest_axioms s(1) this] show ?thesis using s(1) n by blast
qed

theorem start_with_waiting_frames_alarms_witness:
  "\<exists>s r s' k. stub_reach no_sums s [] \<and> appCanLogHandlerPoll stub_env s = Some (r, s') \<and> framesLost s' \<and> 0 < k \<and>
    CanLogManager_FrameCount (clb_counters (clm_buf (log_side s'))) = of_nat k \<and>
    FrameDelta1 (clb_counters (clm_buf (log_side s'))) = - of_nat k"
proof -
  obtain s where s: "stub_reach no_sums s []" "starting s" "deliverable (\<lambda>b. b) (msg_port (rx_side s)) \<noteq> []"
    using sample_restart by blast
  from start_with_waiting_frames_alarms [OF stub_ingest.ingest_axioms s] show ?thesis using s(1) by blast
qed

theorem entries_well_formed_witness:
  "\<exists>s f. stub_reach no_sums s [f] \<and> clm_handed (log_side s) \<noteq> [] \<and>
    list_all (\<lambda>e. (e ! 0 = CLB_ENTRY_TYPE_FRAME \<or> e ! 0 = CLB_ENTRY_TYPE_SYNC) \<and> e ! 1 = 3 \<and> unat (e ! 2) = length e \<and> length e < 256)
      (clm_handed (log_side s))"
proof -
  obtain s f where s: "stub_reach no_sums s [f]" using sample_read by blast
  have "filter (\<lambda>e. e ! 0 = 1) (clm_handed (log_side s)) = map (frame_entry stub_env) [f]"
    using stub_ingest.inv_reach [OF s] by (simp add: stub_ingest.ingest_inv_def stub_ingest.offered_def handed_of_def)
  then have "clm_handed (log_side s) \<noteq> []" by auto
  then show ?thesis using s entries_well_formed [OF stub_ingest.ingest_axioms s] by blast
qed

theorem entry_reads_back_witness:
  "drop 14 (appCanLogFillEntry stub_env (zero_frame\<lparr>dlc_dl_flags := 0x22, frame_data := [7, 9, 0, 0, 0, 0, 0, 0]\<rparr>) 5 1) = [7, 9]"
proof -
  let ?f = "zero_frame\<lparr>dlc_dl_flags := 0x22, frame_data := [7, 9, 0, 0, 0, 0, 0, 0]\<rparr>"
  have "unat (FDCAN_GET_DATA_LEN (dlc_dl_flags ?f)) = 2" by (simp add: get_defs get_field_def)
  then show ?thesis using entry_reads_back [of ?f stub_env 5 1] by (simp add: Let_def)
qed

end
