(* ===== verification/Spec2Isabelle.thy ===== *)
theory Spec2Isabelle
  imports RingBuffer SequenceChecker ErrorRecorder RuntimeChecks Iap SettingsHandler Core0Task0
    CanLogHistory FdcanMsgPort LogConfigFile CanLogStore Fdcan CanAbs CanCtrl CanLogIngest
begin

text \<open>
  A verification library for the CAN logger firmware of the STM32H745 (\<open>src/app\<close>, \<open>src/platform\<close>).

  The program.  Frames of two CAN buses are received in interrupts, handed in pages to the logging
  task, packed as entries into blocks of 64 KiB in a staging buffer and written block by block to log
  files on an SD card.  A web server shows the state, starts and stops the logger, changes the bus
  settings and takes firmware updates: an upload is written to the update slot of the internal
  flash, hashed and compared, and the boot loader is asked by a record in flash to apply it.

  Conventions (\<open>Prelude\<close>, \<open>Encoding\<close>).  C integers are words of their width, so arithmetic wraps
  as on the target; buffers are lists of bytes; file-scope variables are records passed through
  every call; a call that changes state returns the new state with its result.  Functions outside
  the sources (HAL, FreeRTOS, lwIP, lwrb, coreJSON, the linker script) are arguments: records of
  operations, with what is relied on stated in a locale and shown to be possible by an
  interpretation on a concrete provider.  Loops whose end depends on an argument are partial
  functions with result \<open>None\<close> for a call that never returns, and the properties say when they return.
  What a property needs of the histories it speaks of is a hypothesis of it or part of a step relation, and
  its text says so.

  Logging path, in the order of the data.
  \<^item> \<open>CommTypes\<close> (\<open>platform/drivers/comm/CommHandle/CommTypes.h\<close>): the frame with its packed flags.
    \<open>FdcanUtils\<close> (\<open>platform/drivers/fdcan/fdcan_utils.c\<close>): the search of the bit timing and its register
    image.  \<open>Fdcan\<close> (\<open>fdcan.c\<close>): rate, mode, start and stop of a controller and reading a frame, over
    the HAL (record \<open>fdcan_hal\<close>, locale \<open>hal_fdcan\<close>, interpreted on \<open>stub_hal\<close>).
  \<^item> \<open>CanAbs\<close> (\<open>platform/drivers/CanAbs/CanAbs.c\<close>, \<open>app/cores/cm7/Src/CanBridgeTask.c\<close>): the receive
    interrupt of both channels, their rings, time stamps and bus errors, and the task that empties
    the rings into the message port.  The step relation \<open>can_reach\<close> interleaves interrupts, tasks and
    hardware; the locale \<open>can_path\<close> joins \<open>hal_fdcan\<close> and \<open>message_buffer\<close> and carries the invariant that
    accounts for every frame.  An interrupt takes at most 54 frames per channel, a ring holds 640.
  \<^item> \<open>Timer\<close> (\<open>platform/drivers/timer/timer.c\<close>), \<open>CanCtrl\<close> (\<open>app/cores/cm7/Src/CanCtrl.c\<close>): the search of
    prescaler and period; the time, its timer interrupt and its reading with other steps between the
    accesses (\<open>clock_steps\<close>); the settings of the controllers.  The locale \<open>timer_counter\<close> says what
    the counter is relied on for, \<open>clocked_can\<close> joins it with \<open>hal_fdcan\<close>.
  \<^item> \<open>FdcanMsgPort\<close> (\<open>platform/ports/fdcan_msg_port.c\<close>): pages of ten frames through a FreeRTOS message
    buffer (locale \<open>message_buffer\<close>, interpreted on \<open>stub_mbuf\<close>).  \<open>good_step\<close> and \<open>good_run\<close> carry the
    order and drop-count property over any sequence of calls; \<open>race\<close> is the interleaving of a flush.
  \<^item> \<open>CanLogBuffer\<close> (\<open>app/services/logging/CanLogBuffer.c\<close>), \<open>CanLogBlocks\<close>, \<open>CanLogHistory\<close>: the
    operations over lwrb; the block structure of the ring and one lemma per operation inside the
    locale \<open>lwrb\<close> (interpreted on \<open>stub_lwrb\<close>); histories of calls and the properties.  The ring has
    524288 bytes, of which lwrb keeps one free; an entry has at most 255 bytes.
  \<^item> \<open>CanLogStore\<close> (\<open>app/services/logging/CanLogManager.c\<close>, store path): the SD task over the buffer
    and the file handler.  \<open>log_ring\<close> says where a block lies in the ring of log files; the locale
    \<open>logger\<close> joins the promises of lwrb and of a working card, and is interpreted on the two stubs.
    The properties follow every accepted entry into its file, and say what holds on a failing card.  The field
    \<open>clm_handed\<close> of the state is not in the code: it is the trace of the entries that
    \<open>appCanLogStoreToFrameBuffer\<close> was called with, which nothing reads.
  \<^item> \<open>CanLogPoll\<close> (\<open>CanLogManager.c\<close>, \<open>appCanLogHandlerPoll\<close>): the task that reads the frames, makes their
    entries, checks the numbers and starts and stops the logger; the bus load over a record of floating point
    operations.  \<open>CanLogIngest\<close>: the step relation \<open>logger_reach\<close> interleaves the parts of the poll with interrupts,
    the bridge task, the SD task and commands, with a start, a stop, each frame and the end of a poll as steps of their own
    (a stop first drains the rings and then flushes the port; the flush is one step, see \<open>race\<close> of \<open>FdcanMsgPort\<close> for what
    happens when a frame is bridged inside it); the locale \<open>ingest\<close> joins \<open>can_path\<close> and \<open>logger\<close>, and its invariant
    accounts for every frame from the controller to the card.
  \<^item> \<open>RuntimeChecks\<close>, \<open>SequenceChecker\<close>, \<open>ErrorRecorder\<close>: the counters of the path and their check,
    the sequence numbers of the frames, the error history.
  \<^item> \<open>RingBuffer\<close> (\<open>platform/drivers/buffers.h\<close>): the element ring of the drivers refines a queue.

  Update path.
  \<^item> \<open>Flash\<close> (\<open>platform/drivers/flash/flash.c\<close>): addresses, erasing and programming over the HAL
    (locale \<open>flash_hal\<close>, interpreted on the repository's own test double).
  \<^item> \<open>IapWriter\<close>, \<open>IapSession\<close> (\<open>app/services/iap/IapWriter.c\<close>): the session that stores an image and
    hashes it (locale \<open>storage\<close>, interpreted on \<open>RamFlashSim\<close> and \<open>IapFlashAdapter\<close>).
  \<^item> \<open>IapIngest\<close> (\<open>ingest/\<close>): adapter, registry and pipeline that re-chunk a byte stream.
  \<^item> \<open>Iap\<close> (\<open>Iap.c\<close>): the service with its verification state machine.
  \<^item> \<open>FwUpdateHandoff\<close>: the record that asks the boot loader to apply the image.
  \<^item> \<open>HttpdPost\<close> (\<open>app/services/http/src/httpd_post.c\<close>), \<open>UpdateInvariant\<close>, \<open>WebUpdate\<close>: the POST
    handler with its connection table, form parser and uploads; what every call keeps of the update
    service; the interleavings of requests, polls and page calls, and the properties of an upload.  The predicates
    \<open>event_ok\<close> and \<open>history_ok\<close> say which of them the properties speak of: those in which no connection begins
    while the table still has an entry with its pointer and no preparation fails to erase the slot.
    What happens in the others is shown by \<open>refused_begin_strands_writer\<close> and \<open>failed_prepare_keeps_verdict\<close>.
  \<^item> \<open>Core0Task0\<close> (\<open>app/cores/cm7/Src/Core0Task0.c\<close>, \<open>fs_custom_iap.c\<close>): the \<open>/iap\<close> pages, the web
    hooks and the round of the main loop, with the step relation \<open>core0_reach\<close> (and \<open>core0_history_ok\<close> with the same two
    conditions); the two properties
    that span all components of the update path.

  Settings.  \<open>SettingsHandler\<close> (\<open>app/services/config/SettingsHandler.c\<close>): form values, the JSON
  configuration and its address parser and writer.  \<open>WebInterface\<close>: the control page and the log
  parameters of the format request.  \<open>FileHandler\<close> (\<open>app/services/storage/FileHandler.c\<close>): the file
  operations over FatFs, with what FatFs promises as the locales \<open>fatfs\<close>, \<open>fatfs_volume\<close> and
  \<open>fatfs_dir\<close>, interpreted on \<open>stub_fatfs\<close> and \<open>stub_dir\<close>; \<open>LogConfigFile\<close>: the parameter file, the
  format request and what the start of the main task does with them.

  Bounds and fuel.  The loops of \<open>Flash_Erase\<close> and \<open>Flash_Write\<close> (\<open>flash_erase_loop\<close>, \<open>flash_write_loop\<close>)
  have the length in bytes as fuel; every round goes on by a sector or a word, so it is always enough.
  \<open>timestamp_rounds\<close> gives up after a given number of rounds and is used to state how many \<open>timestamp_loop\<close>
  needs.  No other definition uses fuel.  The verification loop of the writer advances by at least one byte
  per step; the polls after an upload are bounded by the rounds given in the properties, one per chunk of the image.

  Not modelled.  The vendored HAL, CMSIS and FatFs sources, the generated web pages
  (\<open>fsdata_custom.c\<close>) and mbedTLS configuration are third-party or data.  Start-up, interrupt
  handlers, pin and clock set-up and the peripheral drivers (SPI, SD card, GPIO, Ethernet, the
  creation and sending of FDCAN) are register programming without a specification in the repository.  The MCUboot port
  is glue to a boot loader that is fetched by the build.  The opening of the files at start-up, the metadata file and
  the preallocation of CanLogManager, ConfigManager and the remaining custom web pages work on FatFs
  files; they are the next parts to model.  Tasks
  run to the end of a call before another one starts, except where a call is split into steps.
\<close>

end
